(* ===== verification/Net_Prelude.thy ===== *)
theory Net_Prelude
  imports Main "HOL-Library.Word"
begin

text \<open>
  The prelude of the development: the integer types of the Rust sources, the arithmetic and byte
  conversions of \<^verbatim>\<open>core\<close> they use (saturating, checked and wrapping operations,
  \<^verbatim>\<open>to_be_bytes\<close> / \<^verbatim>\<open>from_be_bytes\<close> and their little-endian
  counterparts, slices), and the two interface locales several components share: a codec
  (\<^verbatim>\<open>encode\<close> / \<^verbatim>\<open>decode\<close>) and a labelled state machine
  with an invariant.
\<close>

unbundle bit_operations_syntax

named_theorems byte_simps \<open>evaluation of byte conversions at the widths the wire formats use\<close>
named_theorems slice_simps \<open>slices of concatenated byte regions\<close>

type_synonym u8 = "8 word"
type_synonym u16 = "16 word"
type_synonym u32 = "32 word"
type_synonym u64 = "64 word"
type_synonym octets = "u8 list"

section \<open>Durations\<close>

text \<open>
  \<^verbatim>\<open>std::time::Duration\<close> is a count of nanoseconds, bounded by
  \<open>(2^64 - 1) * 10^9 + 999999999\<close>; \<^verbatim>\<open>saturating_mul\<close> stops at the bound.
\<close>

type_synonym duration = nat

definition DURATION_MAX :: duration where
  "DURATION_MAX = (2 ^ 64 - 1) * 1000000000 + 999999999"

definition from_millis :: "nat \<Rightarrow> duration" where
  "from_millis n = n * 1000000"

definition from_secs :: "nat \<Rightarrow> duration" where
  "from_secs n = n * 1000000000"

definition duration_saturating_mul :: "duration \<Rightarrow> u32 \<Rightarrow> duration" where
  "duration_saturating_mul d k = min (d * unat k) DURATION_MAX"

section \<open>Fixed-width arithmetic\<close>

definition saturating_add :: "'a::len word \<Rightarrow> 'a word \<Rightarrow> 'a word" where
  "saturating_add a b = (if unat a + unat b < 2 ^ LENGTH('a) then a + b else - 1)"

definition saturating_sub :: "'a::len word \<Rightarrow> 'a word \<Rightarrow> 'a word" where
  "saturating_sub a b = (if b \<le> a then a - b else 0)"

definition saturating_mul :: "'a::len word \<Rightarrow> 'a word \<Rightarrow> 'a word" where
  "saturating_mul a b = (if unat a * unat b < 2 ^ LENGTH('a) then a * b else - 1)"

definition checked_shl :: "'a::len word \<Rightarrow> nat \<Rightarrow> 'a word option" where
  "checked_shl w n = (if n < LENGTH('a) then Some (push_bit n w) else None)"

definition abs_diff :: "'a::len word \<Rightarrow> 'a word \<Rightarrow> 'a word" where
  "abs_diff a b = (if a < b then b - a else a - b)"

text \<open>\<^verbatim>\<open>uN::try_from(n).unwrap_or(uN::MAX)\<close> for a \<^verbatim>\<open>usize\<close> value.\<close>

definition try_from_or_max :: "nat \<Rightarrow> 'a::len word" where
  "try_from_or_max n = (if n < 2 ^ LENGTH('a) then of_nat n else - 1)"

lemma unat_saturating_sub: "unat (saturating_sub a b) = unat a - unat b"
  by (auto simp: saturating_sub_def unat_sub word_le_nat_alt)

lemma unat_saturating_add:
  "unat (saturating_add a b) = min (unat a + unat b) (2 ^ LENGTH('a) - 1)"
  for a b :: "'a::len word"
  by (auto simp: saturating_add_def unat_word_ariths unsigned_minus_1_eq_mask
      mask_eq_exp_minus_1 min_def)

lemma unat_saturating_mul:
  "unat (saturating_mul a b) = min (unat a * unat b) (2 ^ LENGTH('a) - 1)" for a b :: "'a::len word"
proof (cases "unat a * unat b < 2 ^ LENGTH('a)")
  case True
  then have "min (unat a * unat b) (2 ^ LENGTH('a) - 1) = unat a * unat b" by linarith
  with True show ?thesis by (simp add: saturating_mul_def unat_word_ariths)
next
  case False
  then have "min (unat a * unat b) (2 ^ LENGTH('a) - 1) = 2 ^ LENGTH('a) - 1" by linarith
  with False show ?thesis
    by (simp add: saturating_mul_def unsigned_minus_1_eq_mask mask_eq_exp_minus_1)
qed

lemma unat_try_from_or_max:
  "n < 2 ^ LENGTH('a::len) \<Longrightarrow> unat (try_from_or_max n :: 'a word) = n"
  by (simp add: try_from_or_max_def unat_of_nat)

section \<open>Byte order\<close>

text \<open>\<open>be_bytes k w\<close> is the low \<open>k\<close> octets of \<open>w\<close>, most significant first; at
  \<open>k = LENGTH / 8\<close> it is \<^verbatim>\<open>to_be_bytes\<close>.\<close>

primrec be_bytes :: "nat \<Rightarrow> 'a::len word \<Rightarrow> octets" where
  "be_bytes 0 w = []"
| "be_bytes (Suc k) w = be_bytes k (drop_bit 8 w) @ [ucast w]"

definition from_be :: "octets \<Rightarrow> 'a::len word" where
  "from_be bs = foldl (\<lambda>a b. push_bit 8 a OR ucast b) 0 bs"

definition le_bytes :: "nat \<Rightarrow> 'a::len word \<Rightarrow> octets" where
  "le_bytes k w = rev (be_bytes k w)"

definition from_le :: "octets \<Rightarrow> 'a::len word" where
  "from_le bs = from_be (rev bs)"

text \<open>Words bit by bit.\<close>

lemma below_16: "(n :: nat) < LENGTH(16) \<Longrightarrow> n \<in> {0, 1, 2, 3, 4, 5, 6, 7, 8, 9, 10, 11, 12, 13, 14, 15}"
  by simp arith

lemma below_8: "(n :: nat) < LENGTH(8) \<Longrightarrow> n \<in> {0, 1, 2, 3, 4, 5, 6, 7}"
  by auto

lemmas bit_cases = insertE emptyE

lemma length_be_bytes [simp]: "length (be_bytes k w) = k"
  by (induction k arbitrary: w) auto

lemma length_le_bytes [simp]: "length (le_bytes k w) = k"
  by (simp add: le_bytes_def)

lemma from_be_snoc: "from_be (xs @ [b]) = push_bit 8 (from_be xs) OR ucast b"
  by (simp add: from_be_def)

lemma from_be_be_bytes: "from_be (be_bytes k w) = take_bit (8 * k) (w :: 'a::len word)"
proof (induction k arbitrary: w)
  case (Suc k)
  show ?case
    by (rule bit_word_eqI) (auto simp: from_be_snoc Suc bit_simps not_le not_less)
qed (simp add: from_be_def)

lemma from_be_roundtrip [simp]:
  "LENGTH('a::len) = 8 * k \<Longrightarrow> from_be (be_bytes k w) = (w :: 'a word)"
  by (metis from_be_be_bytes take_bit_length_eq)

lemma from_le_roundtrip [simp]:
  "LENGTH('a::len) = 8 * k \<Longrightarrow> from_le (le_bytes k w) = (w :: 'a word)"
  by (simp add: from_le_def le_bytes_def)

lemma be_bytes_from_be:
  "8 * length bs \<le> LENGTH('a::len) \<Longrightarrow> be_bytes (length bs) (from_be bs :: 'a word) = bs"
proof (induction bs rule: rev_induct)
  case (snoc b bs)
  let ?w = "from_be (bs @ [b]) :: 'a word"
  from snoc.prems have len: "8 * length bs + 8 \<le> LENGTH('a)" by simp
  have hi: "\<not> bit (from_be bs :: 'a word) (LENGTH('a) - 8 + n)" if "n < 8" for n
  proof -
    have "from_be bs = take_bit (8 * length bs) (from_be bs :: 'a word)"
      using from_be_be_bytes [of "length bs" "from_be bs :: 'a word"] snoc len by simp
    then have "\<not> bit (from_be bs :: 'a word) m" if "8 * length bs \<le> m" for m
      using that by (metis bit_take_bit_iff not_le)
    then show ?thesis using len that by auto
  qed
  have "drop_bit 8 ?w = (from_be bs :: 'a word)"
  proof (rule bit_word_eqI)
    fix n assume n: "n < LENGTH('a)"
    show "bit (drop_bit 8 ?w) n = bit (from_be bs :: 'a word) n"
    proof (cases "n < LENGTH('a) - 8")
      case True
      then show ?thesis by (auto simp: from_be_snoc bit_simps dest: bit_imp_le_length)
    next
      case False
      then have "n = LENGTH('a) - 8 + (n - (LENGTH('a) - 8))" "n - (LENGTH('a) - 8) < 8"
        using n len by auto
      then have "\<not> bit (from_be bs :: 'a word) n" using hi by metis
      then show ?thesis using False by (auto simp: from_be_snoc bit_simps dest: bit_imp_le_length)
    qed
  qed
  moreover have "ucast ?w = b"
    using len by (intro bit_word_eqI) (auto simp: from_be_snoc bit_simps)
  ultimately show ?case using snoc by simp
qed simp

lemma be_bytes_eq:
  "length bs = k \<Longrightarrow> LENGTH('a::len) = 8 * k \<Longrightarrow> be_bytes k (from_be bs :: 'a word) = bs"
  using be_bytes_from_be [where ?'a = 'a, of bs] by simp

lemma be_bytes_16 [byte_simps]: "be_bytes 2 w = [ucast (drop_bit 8 w), ucast w]"
  by (simp add: numeral_2_eq_2)

lemma be_bytes_32 [byte_simps]:
  "be_bytes 4 w = [ucast (drop_bit 24 w), ucast (drop_bit 16 w), ucast (drop_bit 8 w), ucast w]"
proof -
  have "be_bytes (Suc (Suc (Suc (Suc 0)))) w =
      [ucast (drop_bit 24 w), ucast (drop_bit 16 w), ucast (drop_bit 8 w), ucast w]"
    by simp
  moreover have "(4::nat) = Suc (Suc (Suc (Suc 0)))" by simp
  ultimately show ?thesis by (simp only:)
qed

section \<open>Errors\<close>

text \<open>The \<^verbatim>\<open>?\<close> operator.\<close>

definition try_bind :: "'e + 'a \<Rightarrow> ('a \<Rightarrow> 'e + 'b) \<Rightarrow> 'e + 'b" where
  "try_bind r f = (case r of Inl e \<Rightarrow> Inl e | Inr x \<Rightarrow> f x)"

lemma try_bind_Inr [simp]: "try_bind (Inr x) f = f x"
  by (simp add: try_bind_def)

lemma try_bind_Inl [simp]: "try_bind (Inl e) f = Inl e"
  by (simp add: try_bind_def)

lemma try_bind_eq_Inr: "try_bind r f = Inr y \<longleftrightarrow> (\<exists>x. r = Inr x \<and> f x = Inr y)"
  by (cases r) simp_all

section \<open>Slices\<close>

text \<open>\<^verbatim>\<open>&bytes[a..b]\<close>; every use below is guarded by \<open>a \<le> b \<and> b \<le> length bs\<close>,
  where Rust would otherwise panic.\<close>

definition slice :: "nat \<Rightarrow> nat \<Rightarrow> 'a list \<Rightarrow> 'a list" where
  "slice a b xs = take (b - a) (drop a xs)"

lemma length_slice [simp]: "b \<le> length xs \<Longrightarrow> length (slice a b xs) = b - a"
  by (simp add: slice_def)

lemma slice_append_here [slice_simps]:
  "length xs = a \<Longrightarrow> length ys = b - a \<Longrightarrow> a \<le> b \<Longrightarrow> slice a b (xs @ ys @ zs) = ys"
  by (simp add: slice_def)

lemma slice_end [slice_simps]:
  "length xs = a \<Longrightarrow> a + length ys = b \<Longrightarrow> slice a b (xs @ ys) = ys"
  by (simp add: slice_def)

lemma slice_full [simp]: "slice 0 (length xs) xs = xs"
  by (simp add: slice_def)

lemma slice_append_left: "b \<le> length xs \<Longrightarrow> slice a b (xs @ ys) = slice a b xs"
  by (simp add: slice_def)

section \<open>Shared interfaces\<close>

text \<open>
  A wire codec: what the encoder writes for a well-formed value, the decoder reads back. Every
  packet format of the system promises this.
\<close>

locale wire_codec =
  fixes encode :: "'v \<Rightarrow> octets"
    and decode :: "octets \<Rightarrow> 'e + 'v"
    and wf :: "'v \<Rightarrow> bool"
  assumes decode_encode: "wf v \<Longrightarrow> decode (encode v) = Inr v"
begin

lemma encode_inj_on: "inj_on encode {v. wf v}"
  by (rule inj_onI) (metis decode_encode mem_Collect_eq sum.inject(2))

lemma encode_eq_iff: "wf v \<Longrightarrow> wf w \<Longrightarrow> encode v = encode w \<longleftrightarrow> v = w"
  using encode_inj_on by (auto dest: inj_onD)

end

text \<open>A decoder that answers with an option, as the locale's sum type.\<close>

definition ok_or :: "'v option \<Rightarrow> unit + 'v" where
  "ok_or r = (case r of Some v \<Rightarrow> Inr v | None \<Rightarrow> Inl ())"

lemma ok_or_Inr [simp]: "ok_or r = Inr v \<longleftrightarrow> r = Some v"
  by (simp add: ok_or_def split: option.split)

text \<open>
  A machine with outputs: one transition function from a state and an input to a next state and a
  list of outputs. \<open>run\<close> feeds a list of inputs and concatenates the outputs.
\<close>

fun run :: "('s \<Rightarrow> 'i \<Rightarrow> 's \<times> 'o list) \<Rightarrow> 's \<Rightarrow> 'i list \<Rightarrow> 's \<times> 'o list" where
  "run step s [] = (s, [])"
| "run step s (i # is) =
     (let (s', out) = step s i; (s'', out') = run step s' is in (s'', out @ out'))"

lemma find_SomeD: "List.find P xs = Some x \<Longrightarrow> x \<in> set xs \<and> P x"
  by (auto simp: find_Some_iff)

lemma run_append:
  "run step s (xs @ ys) =
     (let (s', out) = run step s xs; (s'', out') = run step s' ys in (s'', out @ out'))"
  by (induction xs arbitrary: s) (simp_all add: case_prod_unfold Let_def)

lemma snd_run_append: "snd (run step s (xs @ ys)) = snd (run step s xs) @ snd (run step (fst (run step s xs)) ys)"
  by (simp add: run_append split: prod.split)

lemma snd_run_Cons: "snd (run step s (x # xs)) = snd (step s x) @ snd (run step (fst (step s x)) xs)"
  by (simp split: prod.split)

lemma fst_run_Cons: "fst (run step s (x # xs)) = fst (run step (fst (step s x)) xs)"
  by (simp split: prod.split)

lemma run_concat: "run step s (concat xss) = run (run step) s xss"
  by (induction xss arbitrary: s) (simp_all add: run_append)

lemma run_map: "run step s (map f xs) = run (\<lambda>s x. step s (f x)) s xs"
  by (induction xs arbitrary: s) (simp_all split: prod.split)

locale preserving_machine =
  fixes step :: "'s \<Rightarrow> 'i \<Rightarrow> 's \<times> 'o list"
    and inv :: "'s \<Rightarrow> bool"
  assumes step_preserves: "inv s \<Longrightarrow> inv (fst (step s i))"
begin

lemma run_preserves: "inv s \<Longrightarrow> inv (fst (run step s is))"
  by (induction "is" arbitrary: s) (simp_all add: case_prod_unfold Let_def step_preserves)

end

text \<open>
  A machine that pays for what it does: each admissible input costs something, and the state's
  potential covers it. The total cost of a run is then at most the initial potential.
\<close>

fun run_cost :: "('s \<Rightarrow> 'i \<Rightarrow> 's \<times> 'o list) \<Rightarrow> ('s \<Rightarrow> 'i \<Rightarrow> nat) \<Rightarrow> 's \<Rightarrow> 'i list \<Rightarrow> nat" where
  "run_cost step cost s [] = 0"
| "run_cost step cost s (i # is) = cost s i + run_cost step cost (fst (step s i)) is"

locale budgeted_machine =
  fixes step :: "'s \<Rightarrow> 'i \<Rightarrow> 's \<times> 'o list"
    and inv :: "'s \<Rightarrow> bool"
    and admissible :: "'i \<Rightarrow> bool"
    and cost :: "'s \<Rightarrow> 'i \<Rightarrow> nat"
    and potential :: "'s \<Rightarrow> nat"
  assumes step_inv: "inv s \<Longrightarrow> admissible i \<Longrightarrow> inv (fst (step s i))"
    and step_pays: "inv s \<Longrightarrow> admissible i \<Longrightarrow> cost s i + potential (fst (step s i)) \<le> potential s"
begin

lemma run_cost_le: "inv s \<Longrightarrow> list_all admissible is \<Longrightarrow> run_cost step cost s is \<le> potential s"
proof (induction "is" arbitrary: s)
  case (Cons i "is")
  then have "run_cost step cost (fst (step s i)) is \<le> potential (fst (step s i))"
    by (auto intro!: Cons.IH step_inv)
  moreover have "cost s i + potential (fst (step s i)) \<le> potential s"
    using Cons.prems by (intro step_pays) auto
  ultimately show ?case by simp
qed simp

end

end
