(* ===== verification/Rtp.thy ===== *)
theory Rtp
  imports Net_Prelude
begin

text \<open>
  RTP packets (\<^verbatim>\<open>smiths-core/src/rtp.rs\<close>): the header parser with CSRC list, header
  extension and padding, the two-octet payload-type peek, and the owned packet's encoder and
  decoder.
\<close>

section \<open>Model\<close>

definition RTP_FIXED_HEADER_LEN :: nat where "RTP_FIXED_HEADER_LEN = 12"

record rtp_header =
  rh_marker :: bool
  rh_payload_type :: u8
  rh_sequence :: u16
  rh_timestamp :: u32
  rh_ssrc :: u32
  rh_csrc_count :: u8
  rh_has_extension :: bool
  rh_payload_start :: nat
  rh_payload_end :: nat

text \<open>The fields after the payload bounds are known.\<close>

definition rtp_fields :: "octets \<Rightarrow> u8 \<Rightarrow> bool \<Rightarrow> nat \<Rightarrow> nat \<Rightarrow> rtp_header" where
  "rtp_fields bs csrc_count has_extension start stop =
     (let b1 = bs ! 1
      in \<lparr> rh_marker = (b1 AND 0x80 \<noteq> 0), rh_payload_type = b1 AND 0x7F,
           rh_sequence = from_be (slice 2 4 bs), rh_timestamp = from_be (slice 4 8 bs),
           rh_ssrc = from_be (slice 8 12 bs), rh_csrc_count = csrc_count,
           rh_has_extension = has_extension, rh_payload_start = start, rh_payload_end = stop \<rparr>)"

text \<open>Where the payload starts: past the CSRC list and the extension, when the datagram carries
  them.\<close>

definition rtp_payload_start :: "octets \<Rightarrow> bool \<Rightarrow> u8 \<Rightarrow> nat option" where
  "rtp_payload_start bs has_extension csrc_count =
     (let start = RTP_FIXED_HEADER_LEN + 4 * unat csrc_count
      in if length bs < start then None
         else if has_extension then
           (if length bs < start + 4 then None
            else let words = unat (from_be [bs ! (start + 2), bs ! (start + 3)] :: u16);
                     start' = start + (4 + 4 * words)
                 in if length bs < start' then None else Some start')
         else Some start)"

definition rtp_payload_end :: "octets \<Rightarrow> bool \<Rightarrow> nat \<Rightarrow> nat option" where
  "rtp_payload_end bs padding start =
     (if padding then
        (let pad = unat (bs ! (length bs - 1))
         in if pad = 0 \<or> pad > length bs - start then None else Some (length bs - pad))
      else Some (length bs))"

definition rtp_parse :: "octets \<Rightarrow> rtp_header option" where
  "rtp_parse bs =
     (if length bs < RTP_FIXED_HEADER_LEN then None
      else let b0 = bs ! 0
        in if drop_bit 6 b0 \<noteq> 2 then None
           else let padding = (b0 AND 0x20 \<noteq> 0);
                    has_extension = (b0 AND 0x10 \<noteq> 0);
                    csrc_count = b0 AND 0x0F
             in case rtp_payload_start bs has_extension csrc_count of
                  None \<Rightarrow> None
                | Some start \<Rightarrow>
                    (case rtp_payload_end bs padding start of
                       None \<Rightarrow> None
                     | Some stop \<Rightarrow> Some (rtp_fields bs csrc_count has_extension start stop)))"

definition payload_type_of :: "octets \<Rightarrow> u8 option" where
  "payload_type_of bs =
     (if length bs < RTP_FIXED_HEADER_LEN \<or> drop_bit 6 (bs ! 0) \<noteq> 2 then None
      else Some (bs ! 1 AND 0x7F))"

definition rtp_payload :: "rtp_header \<Rightarrow> octets \<Rightarrow> octets" where
  "rtp_payload h bs = slice (rh_payload_start h) (rh_payload_end h) bs"

record rtp_packet =
  rp_marker :: bool
  rp_payload_type :: u8
  rp_sequence :: u16
  rp_timestamp :: u32
  rp_ssrc :: u32
  rp_payload :: octets

definition rtp_encode :: "rtp_packet \<Rightarrow> octets" where
  "rtp_encode p =
     [0x80, push_bit 7 (of_bool (rp_marker p)) OR (rp_payload_type p AND 0x7F)]
     @ be_bytes 2 (rp_sequence p) @ be_bytes 4 (rp_timestamp p) @ be_bytes 4 (rp_ssrc p) @ rp_payload p"

definition rtp_decode :: "octets \<Rightarrow> rtp_packet option" where
  "rtp_decode bs =
     (case rtp_parse bs of
        None \<Rightarrow> None
      | Some h \<Rightarrow>
          Some \<lparr> rp_marker = rh_marker h, rp_payload_type = rh_payload_type h,
                 rp_sequence = rh_sequence h, rp_timestamp = rh_timestamp h, rp_ssrc = rh_ssrc h,
                 rp_payload = rtp_payload h bs \<rparr>)"

section \<open>Bounds\<close>

text \<open>Result.
  Whatever datagram arrives, the payload bounds of a parsed RTP header lie inside it, past the
  fixed header and in order, so that slicing the payload out never fails; and the cheap
  payload-type peek agrees with the full parse wherever that succeeds.\<close>

theorem rtp_parse_bounds:
  assumes "rtp_parse bs = Some h"
  shows "12 + 4 * unat (rh_csrc_count h) \<le> rh_payload_start h \<and> rh_payload_start h \<le> rh_payload_end h \<and>
    rh_payload_end h \<le> length bs \<and> rh_csrc_count h < 16 \<and>
    payload_type_of bs = Some (rh_payload_type h) \<and> rh_payload_type h < 128 \<and>
    length (rtp_payload h bs) = rh_payload_end h - rh_payload_start h"
proof -
  have and_less: "b AND 0x0F < (16 :: u8)" "b AND 0x7F < (128 :: u8)" for b
    using word_and_le1 [of b "0x0F"] word_and_le1 [of b "0x7F"]
    by (auto simp: word_less_nat_alt word_le_nat_alt)
  show ?thesis
    using assms
    by (auto simp: rtp_parse_def rtp_payload_start_def rtp_payload_end_def rtp_fields_def payload_type_of_def
        rtp_payload_def RTP_FIXED_HEADER_LEN_def Let_def and_less split: if_splits option.splits)
qed

section \<open>The whole format\<close>

text \<open>A packet as RFC 3550 lays it out: any CSRC list, an optional extension of 32-bit words, any
  padding. The engine's own encoder is the case without options.\<close>

record rtp_layout =
  rl_csrcs :: "u32 list"
  rl_extension :: "(u16 \<times> u32 list) option"
  rl_padding :: "octets option"

definition layout_ok :: "rtp_layout \<Rightarrow> bool" where
  "layout_ok l \<longleftrightarrow> length (rl_csrcs l) < 16 \<and>
     (case rl_extension l of None \<Rightarrow> True | Some (_, ws) \<Rightarrow> length ws < 2 ^ 16) \<and>
     (case rl_padding l of None \<Rightarrow> True
      | Some fill \<Rightarrow> length fill < 255)"

definition extension_bytes :: "(u16 \<times> u32 list) option \<Rightarrow> octets" where
  "extension_bytes x =
     (case x of None \<Rightarrow> []
      | Some (profile, ws) \<Rightarrow>
          be_bytes 2 profile @ be_bytes 2 (of_nat (length ws) :: u16) @ concat (map (be_bytes 4) ws))"

definition padding_bytes :: "octets option \<Rightarrow> octets" where
  "padding_bytes x = (case x of None \<Rightarrow> [] | Some fill \<Rightarrow> fill @ [of_nat (Suc (length fill))])"

definition rtp_wire :: "rtp_layout \<Rightarrow> rtp_packet \<Rightarrow> octets" where
  "rtp_wire l p =
     [0x80 OR (if rl_padding l \<noteq> None then 0x20 else 0) OR (if rl_extension l \<noteq> None then 0x10 else 0)
        OR of_nat (length (rl_csrcs l)),
      push_bit 7 (of_bool (rp_marker p)) OR (rp_payload_type p AND 0x7F)]
     @ be_bytes 2 (rp_sequence p) @ be_bytes 4 (rp_timestamp p) @ be_bytes 4 (rp_ssrc p)
     @ concat (map (be_bytes 4) (rl_csrcs l)) @ extension_bytes (rl_extension l) @ rp_payload p
     @ padding_bytes (rl_padding l)"

lemma first_octet:
  fixes pd xt :: bool
  assumes "n < 16"
  defines "b0 \<equiv> 0x80 OR (if pd then 0x20 else 0) OR (if xt then 0x10 else 0) OR of_nat n :: u8"
  shows "drop_bit 6 b0 = 2" "b0 AND 0x20 \<noteq> 0 \<longleftrightarrow> pd" "b0 AND 0x10 \<noteq> 0 \<longleftrightarrow> xt" "b0 AND 0x0F = of_nat n"
proof -
  have "\<forall>n \<in> set [0..<16]. \<forall>pd xt.
      let b0 = 0x80 OR (if pd then 0x20 else 0) OR (if xt then 0x10 else 0) OR of_nat n :: u8
      in drop_bit 6 b0 = 2 \<and> (b0 AND 0x20 \<noteq> 0 \<longleftrightarrow> pd) \<and> (b0 AND 0x10 \<noteq> 0 \<longleftrightarrow> xt) \<and> b0 AND 0x0F = of_nat n"
    by code_simp
  with assms show "drop_bit 6 b0 = 2" "b0 AND 0x20 \<noteq> 0 \<longleftrightarrow> pd" "b0 AND 0x10 \<noteq> 0 \<longleftrightarrow> xt" "b0 AND 0x0F = of_nat n"
    unfolding Let_def by auto
qed

lemma second_octet:
  fixes pt :: u8
  assumes "pt < 128"
  shows "(push_bit 7 (of_bool m) OR (pt AND 0x7F)) AND 0x80 \<noteq> 0 \<longleftrightarrow> m"
    and "(push_bit 7 (of_bool m) OR (pt AND 0x7F)) AND 0x7F = pt"
proof -
  have all: "\<forall>n \<in> set [0..<128]. \<forall>m. let pt = of_nat n :: u8
      in ((push_bit 7 (of_bool m) OR (pt AND 0x7F)) AND 0x80 \<noteq> 0 \<longleftrightarrow> m) \<and>
         (push_bit 7 (of_bool m) OR (pt AND 0x7F)) AND 0x7F = pt"
    by code_simp
  have "unat pt \<in> set [0..<128]" using assms by (simp add: word_less_nat_alt)
  from bspec [OF all this]
  show "(push_bit 7 (of_bool m) OR (pt AND 0x7F)) AND 0x80 \<noteq> 0 \<longleftrightarrow> m"
    and "(push_bit 7 (of_bool m) OR (pt AND 0x7F)) AND 0x7F = pt"
    by (simp_all add: Let_def)
qed

lemma length_concat_words [simp]: "length (concat (map (be_bytes k) ws)) = k * length ws"
  by (induction ws) simp_all

lemma length_extension_bytes:
  "length (extension_bytes x) = (case x of None \<Rightarrow> 0 | Some (_, ws) \<Rightarrow> 4 + 4 * length ws)"
  by (simp add: extension_bytes_def split: option.split)

definition rtp_fixed :: "rtp_layout \<Rightarrow> rtp_packet \<Rightarrow> octets" where
  "rtp_fixed l p =
     [0x80 OR (if rl_padding l \<noteq> None then 0x20 else 0) OR (if rl_extension l \<noteq> None then 0x10 else 0)
        OR of_nat (length (rl_csrcs l)),
      push_bit 7 (of_bool (rp_marker p)) OR (rp_payload_type p AND 0x7F)]
     @ be_bytes 2 (rp_sequence p) @ be_bytes 4 (rp_timestamp p) @ be_bytes 4 (rp_ssrc p)"

lemma rtp_wire_split:
  "rtp_wire l p = rtp_fixed l p @ concat (map (be_bytes 4) (rl_csrcs l)) @ extension_bytes (rl_extension l)
     @ rp_payload p @ padding_bytes (rl_padding l)"
  by (simp add: rtp_wire_def rtp_fixed_def)

lemma length_rtp_fixed [simp]: "length (rtp_fixed l p) = 12"
  by (simp add: rtp_fixed_def)

lemma rtp_wire_start:
  assumes "layout_ok l"
  shows "rtp_payload_start (rtp_wire l p) (rl_extension l \<noteq> None) (of_nat (length (rl_csrcs l))) =
    Some (12 + 4 * length (rl_csrcs l) + length (extension_bytes (rl_extension l)))"
proof -
  let ?A = "rtp_fixed l p @ concat (map (be_bytes 4) (rl_csrcs l))"
  let ?n = "length (rl_csrcs l)"
  have n: "unat (of_nat ?n :: u8) = ?n"
    using assms by (simp add: layout_ok_def unat_of_nat)
  have A: "length ?A = 12 + 4 * ?n" by simp
  show ?thesis
  proof (cases "rl_extension l")
    case None
    then show ?thesis
      by (simp add: rtp_payload_start_def rtp_wire_split n RTP_FIXED_HEADER_LEN_def extension_bytes_def)
  next
    case (Some x)
    obtain profile ws where x: "x = (profile, ws)" by (cases x)
    let ?T = "concat (map (be_bytes 4) ws) @ rp_payload p @ padding_bytes (rl_padding l)"
    have w: "rtp_wire l p = ?A @ be_bytes 2 profile @ be_bytes 2 (of_nat (length ws) :: u16) @ ?T"
      by (simp add: rtp_wire_split Some x extension_bytes_def)
    have "[rtp_wire l p ! (12 + 4 * ?n + 2), rtp_wire l p ! (12 + 4 * ?n + 3)] = be_bytes 2 (of_nat (length ws) :: u16)"
      unfolding w A [symmetric] nth_append_length_plus by (simp add: be_bytes_16 nth_append)
    then have "unat (from_be [rtp_wire l p ! (12 + 4 * ?n + 2), rtp_wire l p ! (12 + 4 * ?n + 3)] :: u16) = length ws"
      using assms by (simp add: Some x layout_ok_def unat_of_nat)
    moreover have "length (rtp_wire l p) \<ge> 12 + 4 * ?n + (4 + 4 * length ws)"
      by (simp add: w)
    ultimately show ?thesis
      by (simp add: rtp_payload_start_def n RTP_FIXED_HEADER_LEN_def Some x length_extension_bytes Let_def)
  qed
qed

lemma rtp_wire_end:
  assumes "layout_ok l" and "start + length (padding_bytes (rl_padding l)) \<le> length (rtp_wire l p)"
  shows "rtp_payload_end (rtp_wire l p) (rl_padding l \<noteq> None) start =
    Some (length (rtp_wire l p) - length (padding_bytes (rl_padding l)))"
proof (cases "rl_padding l")
  case None
  then show ?thesis by (simp add: rtp_payload_end_def padding_bytes_def)
next
  case (Some fill)
  have "rtp_wire l p ! (length (rtp_wire l p) - 1) = of_nat (Suc (length fill))"
    using last_conv_nth [of "rtp_wire l p"] by (simp add: rtp_wire_split Some padding_bytes_def)
  moreover have "unat (of_nat (Suc (length fill)) :: u8) = Suc (length fill)"
    using assms(1) by (simp add: layout_ok_def Some unat_of_nat del: of_nat_Suc)
  ultimately show ?thesis
    using assms(2) by (simp add: rtp_payload_end_def Some padding_bytes_def Let_def)
qed

lemma rtp_wire_decodes:
  assumes "layout_ok l" and "rp_payload_type p < 128"
  shows "rtp_decode (rtp_wire l p) = Some p"
proof -
  let ?w = "rtp_wire l p" and ?n = "length (rl_csrcs l)"
  let ?start = "12 + 4 * ?n + length (extension_bytes (rl_extension l))"
  let ?stop = "length ?w - length (padding_bytes (rl_padding l))"
  have n: "?n < 16" using assms(1) by (simp add: layout_ok_def)
  have b0: "?w ! 0 = 0x80 OR (if rl_padding l \<noteq> None then 0x20 else 0) OR (if rl_extension l \<noteq> None then 0x10 else 0)
        OR of_nat ?n" and b1: "?w ! 1 = push_bit 7 (of_bool (rp_marker p)) OR (rp_payload_type p AND 0x7F)"
    by (simp_all add: rtp_wire_def)
  have len: "length ?w = ?start + length (rp_payload p) + length (padding_bytes (rl_padding l))"
    by (simp add: rtp_wire_split)
  then have stop: "rtp_payload_end ?w (rl_padding l \<noteq> None) ?start = Some ?stop"
    by (intro rtp_wire_end [OF assms(1)]) simp
  have "rtp_parse ?w = Some (rtp_fields ?w (of_nat ?n) (rl_extension l \<noteq> None) ?start ?stop)"
    unfolding rtp_parse_def Let_def b0 first_octet [OF n] rtp_wire_start [OF assms(1)]
    using len stop by (simp add: RTP_FIXED_HEADER_LEN_def)
  moreover have "from_be (slice 2 4 ?w) = rp_sequence p" "from_be (slice 4 8 ?w) = rp_timestamp p"
    "from_be (slice 8 12 ?w) = rp_ssrc p"
    by (simp_all add: rtp_wire_def slice_def)
  moreover have "slice ?start ?stop ?w = rp_payload p"
    by (simp add: rtp_wire_split slice_def)
  ultimately show ?thesis
    using second_octet [OF assms(2), of "rp_marker p"]
    by (simp add: rtp_decode_def rtp_fields_def rtp_payload_def Let_def b1 [unfolded One_nat_def])
qed

text \<open>Result.
  Decoding handles the whole RFC 3550 packet layout: for every CSRC list of up to fifteen entries,
  every header extension and every padding, a packet laid out that way decodes to its marker,
  payload type, sequence number, timestamp, source and exactly its media payload.\<close>

theorem rtp_decode_layout:
  assumes "layout_ok l" and "rp_payload_type p < 128"
  shows "rtp_decode (rtp_wire l p) = Some p"
  using assms by (rule rtp_wire_decodes)

definition sample_layout :: rtp_layout where
  "sample_layout = \<lparr> rl_csrcs = [7, 8], rl_extension = Some (0xBEDE, [1]), rl_padding = Some [0, 0] \<rparr>"

definition sample_rtp :: rtp_packet where
  "sample_rtp = \<lparr> rp_marker = True, rp_payload_type = 8, rp_sequence = 65535, rp_timestamp = 160, rp_ssrc = 99,
     rp_payload = [1, 2, 3] \<rparr>"

theorem rtp_decode_layout_witness:
  "rtp_decode (rtp_wire sample_layout sample_rtp) = Some sample_rtp"
  using rtp_decode_layout [of sample_layout sample_rtp] by (simp add: sample_layout_def layout_ok_def sample_rtp_def)

theorem rtp_parse_bounds_witness:
  "rh_payload_end (the (rtp_parse (rtp_wire sample_layout sample_rtp))) \<le> length (rtp_wire sample_layout sample_rtp)"
proof -
  have "rtp_decode (rtp_wire sample_layout sample_rtp) = Some sample_rtp"
    by (rule rtp_wire_decodes) (simp_all add: sample_layout_def layout_ok_def sample_rtp_def)
  then obtain h where "rtp_parse (rtp_wire sample_layout sample_rtp) = Some h"
    by (auto simp: rtp_decode_def split: option.splits)
  with rtp_parse_bounds [OF this] show ?thesis by simp
qed

section \<open>The engine's own packets\<close>

lemma rtp_encode_is_wire: "rtp_encode p = rtp_wire \<lparr> rl_csrcs = [], rl_extension = None, rl_padding = None \<rparr> p"
  by (simp add: rtp_encode_def rtp_wire_def extension_bytes_def padding_bytes_def)

interpretation rtp_codec: wire_codec rtp_encode "\<lambda>bs. ok_or (rtp_decode bs)" "\<lambda>p. rp_payload_type p < 128"
  by unfold_locales (simp add: rtp_encode_is_wire rtp_wire_decodes layout_ok_def)

text \<open>Result.
  The engine's RTP encoder and decoder are inverse on packets with a 7-bit payload type, and
  distinct packets have distinct encodings.\<close>

theorem rtp_roundtrip:
  assumes "rp_payload_type p < 128" and "rp_payload_type q < 128"
  shows "rtp_decode (rtp_encode p) = Some p \<and> (rtp_encode p = rtp_encode q \<longleftrightarrow> p = q)"
  using rtp_codec.decode_encode [OF assms(1)] rtp_codec.encode_eq_iff [OF assms] by simp

theorem rtp_roundtrip_witness:
  "rtp_decode (rtp_encode sample_rtp) = Some sample_rtp"
  using rtp_roundtrip [of sample_rtp sample_rtp] by (simp add: sample_rtp_def)

end
