(* ===== verification/Rust_Str.thy ===== *)
theory Rust_Str
  imports Net_Prelude
begin

text \<open>
  The string operations of the Rust standard library the SIP text code uses. A
  \<^verbatim>\<open>&str\<close> is modelled by its UTF-8 bytes, one \<open>char\<close> per byte, so byte
  slices and text share one type and \<open>length\<close> counts bytes as \<^verbatim>\<open>str::len\<close>
  does. White space is Unicode's \<^verbatim>\<open>White_Space\<close>, recognised by its UTF-8
  encoding; since UTF-8 is self-synchronising, such an encoding can only occur at a character
  boundary of valid text.
\<close>

type_synonym bytes = string

abbreviation code :: "char \<Rightarrow> nat" where
  "code c \<equiv> of_char c"

definition CRLF :: string where
  "CRLF = [CHR 0x0D, CHR 0x0A]"

section \<open>UTF-8 validity\<close>

text \<open>\<^verbatim>\<open>std::str::from_utf8(bytes).is_ok()\<close>: well-formed byte sequences, no
  overlong forms, no surrogates, nothing above U+10FFFF.\<close>

definition is_cont :: "char \<Rightarrow> bool" where
  "is_cont c \<longleftrightarrow> 128 \<le> code c \<and> code c \<le> 191"

fun valid_utf8 :: "bytes \<Rightarrow> bool" where
  "valid_utf8 [] = True"
| "valid_utf8 (a # s) =
     (if code a < 128 then valid_utf8 s
      else if 194 \<le> code a \<and> code a \<le> 223 then
        (case s of b # t \<Rightarrow> is_cont b \<and> valid_utf8 t | _ \<Rightarrow> False)
      else if 224 \<le> code a \<and> code a \<le> 239 then
        (case s of b # c # t \<Rightarrow> is_cont b \<and> is_cont c \<and>
             (code a = 224 \<longrightarrow> 160 \<le> code b) \<and> (code a = 237 \<longrightarrow> code b \<le> 159) \<and> valid_utf8 t
         | _ \<Rightarrow> False)
      else if 240 \<le> code a \<and> code a \<le> 244 then
        (case s of b # c # d # t \<Rightarrow> is_cont b \<and> is_cont c \<and> is_cont d \<and>
             (code a = 240 \<longrightarrow> 144 \<le> code b) \<and> (code a = 244 \<longrightarrow> code b \<le> 143) \<and> valid_utf8 t
         | _ \<Rightarrow> False)
      else False)"

definition is_ascii :: "bytes \<Rightarrow> bool" where
  "is_ascii s \<longleftrightarrow> (\<forall>c \<in> set s. code c < 128)"

lemma valid_utf8_ascii: "is_ascii s \<Longrightarrow> valid_utf8 s"
  by (induction s) (auto simp: is_ascii_def)

lemma valid_utf8_append_ascii: "is_ascii s \<Longrightarrow> valid_utf8 (s @ t) = valid_utf8 t"
  by (induction s) (auto simp: is_ascii_def)

section \<open>Octets and text\<close>

text \<open>Rust strings are byte strings of characters here; packets hold octets.\<close>

definition chars :: "octets \<Rightarrow> bytes" where
  "chars bs = map (\<lambda>b. char_of (unat b)) bs"

definition octets_of :: "bytes \<Rightarrow> octets" where
  "octets_of s = map (\<lambda>c. of_nat (code c)) s"

lemma chars_octets_of [simp]: "chars (octets_of s) = s"
  by (simp add: chars_def octets_of_def comp_def unat_of_nat of_char_mod_256)

lemma length_octets_of [simp]: "length (octets_of s) = length s"
  by (simp add: octets_of_def)

section \<open>White space\<close>

text \<open>Length of the white-space character at the front of the text, 0 when there is none.\<close>

fun ws_len :: "bytes \<Rightarrow> nat" where
  "ws_len [] = 0"
| "ws_len (a # s) =
     (if code a = 32 \<or> (9 \<le> code a \<and> code a \<le> 13) then 1
      else case s of
        [] \<Rightarrow> 0
      | b # t \<Rightarrow>
          (if code a = 194 \<and> (code b = 133 \<or> code b = 160) then 2
           else case t of
             [] \<Rightarrow> 0
           | c # _ \<Rightarrow>
               (if code a = 225 \<and> code b = 154 \<and> code c = 128
                 \<or> code a = 226 \<and> code b = 128 \<and>
                   (128 \<le> code c \<and> code c \<le> 138 \<or> code c = 168 \<or> code c = 169 \<or> code c = 175)
                 \<or> code a = 226 \<and> code b = 129 \<and> code c = 159
                 \<or> code a = 227 \<and> code b = 128 \<and> code c = 128 then 3 else 0)))"

lemma ws_len_le: "ws_len s \<le> length s"
  by (cases s) (simp_all split: list.split)

lemma ws_len_pos_less: "0 < ws_len s \<Longrightarrow> length (drop (ws_len s) s) < length s"
  by (cases s) auto

function trim_start :: "string \<Rightarrow> string" where
  "trim_start s = (if ws_len s = 0 then s else trim_start (drop (ws_len s) s))"
  by pat_completeness auto
termination
  by (relation "measure length") (use ws_len_pos_less in auto)

declare trim_start.simps [simp del]

function trim_end :: "string \<Rightarrow> string" where
  "trim_end s =
     (if s = [] then []
      else let n = max 1 (ws_len s); rest = trim_end (drop n s) in
        if ws_len s > 0 \<and> rest = [] then [] else take n s @ rest)"
  by pat_completeness auto
termination
  by (relation "measure length") auto

declare trim_end.simps [simp del]

definition trim :: "string \<Rightarrow> string" where
  "trim s = trim_end (trim_start s)"

text \<open>\<^verbatim>\<open>split_whitespace\<close>: the maximal runs of non-white-space characters. The
  accumulator holds the token being read.\<close>

function ws_tokens :: "string \<Rightarrow> string \<Rightarrow> string list" where
  "ws_tokens acc s =
     (if s = [] then (if acc = [] then [] else [acc])
      else if ws_len s > 0 then
        (if acc = [] then id else (#) acc) (ws_tokens [] (drop (ws_len s) s))
      else ws_tokens (acc @ [hd s]) (tl s))"
  by pat_completeness auto
termination
  by (relation "measure (\<lambda>(_, s). length s)") auto

declare ws_tokens.simps [simp del]

definition split_whitespace :: "string \<Rightarrow> string list" where
  "split_whitespace s = ws_tokens [] s"

section \<open>Searching and splitting\<close>

definition starts_with :: "string \<Rightarrow> string \<Rightarrow> bool" where
  "starts_with s p \<longleftrightarrow> take (length p) s = p"

text \<open>\<^verbatim>\<open>s.split_once(p)\<close> for a non-empty pattern: the text before and after the
  first occurrence.\<close>

fun split_once :: "string \<Rightarrow> string \<Rightarrow> (string \<times> string) option" where
  "split_once p [] = None"
| "split_once p (c # s) =
     (if starts_with (c # s) p then Some ([], drop (length p) (c # s))
      else map_option (\<lambda>(a, b). (c # a, b)) (split_once p s))"

text \<open>\<^verbatim>\<open>s.split(p)\<close> for a non-empty pattern.\<close>

function split_pat :: "string \<Rightarrow> string \<Rightarrow> string list" where
  "split_pat p s =
     (if p = [] then [s] else
      case split_once p s of None \<Rightarrow> [s] | Some (a, b) \<Rightarrow> a # split_pat p b)"
  by pat_completeness auto

lemma split_once_Some: "split_once p s = Some (a, b) \<Longrightarrow> s = a @ p @ b"
proof (induction p s arbitrary: a rule: split_once.induct)
  case (2 p c s)
  show ?case
  proof (cases "starts_with (c # s) p")
    case True
    then have "c # s = p @ drop (length p) (c # s)"
      unfolding starts_with_def by (metis append_take_drop_id)
    with True 2 show ?thesis by auto
  next
    case False
    with 2 show ?thesis by auto
  qed
qed simp

termination split_pat
  by (relation "measure (\<lambda>(p, s). length s)") (auto dest: split_once_Some)

declare split_pat.simps [simp del]

lemma split_once_None: "split_once p s = None \<Longrightarrow> p \<noteq> [] \<Longrightarrow> s \<noteq> a @ p @ b"
proof (induction p s arbitrary: a rule: split_once.induct)
  case (2 p c s)
  from 2 have no: "\<not> starts_with (c # s) p" and "split_once p s = None"
    by (auto split: if_splits)
  then have IH: "s \<noteq> a' @ p @ b" for a' using 2 by auto
  show ?case
  proof (cases a)
    case Nil
    with no show ?thesis by (auto simp: starts_with_def)
  next
    case (Cons x a')
    with IH show ?thesis by auto
  qed
qed simp

text \<open>A prefix without the pattern, even across the junction, is passed over.\<close>

lemma split_once_first:
  assumes "\<And>n. n < length a \<Longrightarrow> \<not> starts_with (drop n (a @ p @ b)) p" and "p \<noteq> []"
  shows "split_once p (a @ p @ b) = Some (a, b)"
  using assms
proof (induction a)
  case Nil
  then show ?case by (cases p) (auto simp: starts_with_def)
next
  case (Cons x a)
  have "\<not> starts_with (x # a @ p @ b) p" using Cons.prems(1) [of 0] by simp
  moreover have "split_once p (a @ p @ b) = Some (a, b)"
  proof (rule Cons.IH)
    show "\<not> starts_with (drop n (a @ p @ b)) p" if "n < length a" for n
      using Cons.prems(1) [of "Suc n"] that by simp
  qed (rule Cons.prems)
  ultimately show ?case by simp
qed

lemma split_once_head_free:
  assumes "p \<noteq> []" and "hd p \<notin> set a"
  shows "split_once p (a @ p @ b) = Some (a, b)"
proof (rule split_once_first [OF _ assms(1)])
  fix n assume n: "n < length a"
  then have "hd (drop n (a @ p @ b)) = a ! n" by (simp add: hd_append hd_drop_conv_nth)
  with n assms show "\<not> starts_with (drop n (a @ p @ b)) p"
    by (auto simp: starts_with_def dest!: arg_cong [of _ _ hd])
       (metis hd_take length_greater_0_conv nth_mem)
qed

lemma split_once_absent: "p \<noteq> [] \<Longrightarrow> hd p \<notin> set s \<Longrightarrow> split_once p s = None"
proof (rule ccontr)
  assume p: "p \<noteq> []" "hd p \<notin> set s" and "split_once p s \<noteq> None"
  then obtain a b where "s = a @ p @ b" using split_once_Some by fastforce
  with p show False by (cases p) auto
qed

lemma split_pat_none: "split_once p s = None \<Longrightarrow> split_pat p s = [s]"
  by (subst split_pat.simps) simp

lemma split_pat_some:
  "p \<noteq> [] \<Longrightarrow> split_once p s = Some (a, b) \<Longrightarrow> split_pat p s = a # split_pat p b"
  by (subst split_pat.simps) simp

section \<open>Iterator helpers\<close>

text \<open>\<^verbatim>\<open>iter.find_map(f)\<close> and \<^verbatim>\<open>iter.nth(n)\<close>.\<close>

fun find_map :: "('a \<Rightarrow> 'b option) \<Rightarrow> 'a list \<Rightarrow> 'b option" where
  "find_map f [] = None"
| "find_map f (x # xs) = (case f x of Some y \<Rightarrow> Some y | None \<Rightarrow> find_map f xs)"

definition nth_opt :: "nat \<Rightarrow> 'a list \<Rightarrow> 'a option" where
  "nth_opt n xs = (if n < length xs then Some (xs ! n) else None)"

lemma find_map_SomeD: "find_map f xs = Some y \<Longrightarrow> \<exists>x \<in> set xs. f x = Some y"
  by (induction xs) (auto split: option.splits)

section \<open>ASCII case\<close>

definition to_ascii_lower :: "char \<Rightarrow> char" where
  "to_ascii_lower c = (if 65 \<le> code c \<and> code c \<le> 90 then char_of (code c + 32) else c)"

definition to_ascii_lowercase :: "string \<Rightarrow> string" where
  "to_ascii_lowercase s = map to_ascii_lower s"

definition eq_ignore_ascii_case :: "string \<Rightarrow> string \<Rightarrow> bool" where
  "eq_ignore_ascii_case a b \<longleftrightarrow> to_ascii_lowercase a = to_ascii_lowercase b"

section \<open>Unsigned decimal numbers\<close>

text \<open>\<^verbatim>\<open>str::parse::<uN>()\<close>: an optional plus sign, at least one digit, nothing
  else, and no overflow past the type's maximum.\<close>

fun digits_value :: "nat \<Rightarrow> nat \<Rightarrow> string \<Rightarrow> nat option" where
  "digits_value bound acc [] = Some acc"
| "digits_value bound acc (c # s) =
     (if 48 \<le> code c \<and> code c \<le> 57 then
        let v = 10 * acc + (code c - 48) in if v < bound then digits_value bound v s else None
      else None)"

definition parse_unsigned :: "nat \<Rightarrow> string \<Rightarrow> nat option" where
  "parse_unsigned bound s =
     (let ds = (case s of c # t \<Rightarrow> if c = CHR ''+'' then t else s | [] \<Rightarrow> s)
      in if ds = [] then None else digits_value bound 0 ds)"

lemma digits_value_bound:
  "digits_value bound acc s = Some v \<Longrightarrow> acc < bound \<Longrightarrow> v < bound"
  by (induction bound acc s rule: digits_value.induct) (auto simp: Let_def split: if_splits)

lemma parse_unsigned_bound: "parse_unsigned bound s = Some v \<Longrightarrow> 0 < bound \<Longrightarrow> v < bound"
  by (auto simp: parse_unsigned_def Let_def dest: digits_value_bound split: if_splits list.splits)

section \<open>Printing numbers\<close>

text \<open>\<^verbatim>\<open>{}\<close> of an unsigned integer.\<close>

definition digit :: "nat \<Rightarrow> char" where
  "digit d = char_of (48 + d)"

fun show_nat :: "nat \<Rightarrow> bytes" where
  "show_nat n = (if n < 10 then [digit n] else show_nat (n div 10) @ [digit (n mod 10)])"

declare show_nat.simps [simp del]

lemma code_digit: "d < 10 \<Longrightarrow> code (digit d) = 48 + d"
  by (simp add: digit_def)

lemma show_nat_digits: "c \<in> set (show_nat n) \<Longrightarrow> 48 \<le> code c \<and> code c \<le> (57 :: nat)"
proof (induction n rule: show_nat.induct)
  case (1 n)
  then show ?case by (subst (asm) (2) show_nat.simps) (auto simp: code_digit split: if_splits)
qed

lemma show_nat_nonempty [simp]: "show_nat n \<noteq> []"
  by (subst show_nat.simps) simp

lemma digits_value_append:
  "digits_value bound acc (s @ t) = (case digits_value bound acc s of None \<Rightarrow> None | Some v \<Rightarrow> digits_value bound v t)"
  by (induction bound acc s rule: digits_value.induct) (auto simp: Let_def)

lemma digits_value_show_nat: "n < bound \<Longrightarrow> digits_value bound 0 (show_nat n) = Some n"
proof (induction n rule: show_nat.induct)
  case (1 n)
  show ?case
  proof (cases "n < 10")
    case True
    with 1 show ?thesis by (simp add: show_nat.simps [of n] code_digit Let_def)
  next
    case False
    with 1 have "digits_value bound 0 (show_nat (n div 10)) = Some (n div 10)" by auto
    with False 1 show ?thesis
      by (simp add: show_nat.simps [of n] digits_value_append code_digit Let_def)
  qed
qed

lemma parse_show_nat: "n < bound \<Longrightarrow> parse_unsigned bound (show_nat n) = Some n"
proof -
  assume n: "n < bound"
  have "hd (show_nat n) \<noteq> CHR ''+''"
    using show_nat_digits [of "hd (show_nat n)" n] by auto
  then show ?thesis
    using digits_value_show_nat [OF n] by (cases "show_nat n") (auto simp: parse_unsigned_def)
qed

end
