(* ===== verification/Dtmf.thy ===== *)
theory Dtmf
  imports Rtp Rust_Str
begin

text \<open>
  RFC 4733 telephone events (\<^verbatim>\<open>smiths-core/src/dtmf.rs\<close>): the four-octet payload, the digit
  tables, the stateful detector that turns the packets of a key press into one report, and the
  generator of the packets of a press. The event-bus adapter of that file only forwards.
\<close>

section \<open>Payload\<close>

definition RFC4733_PAYLOAD_TYPE :: u8 where "RFC4733_PAYLOAD_TYPE = 101"

record telephone_event =
  tev_event :: u8
  tev_end :: bool
  tev_volume :: u8
  tev_duration_samples :: u16

definition tev_parse :: "octets \<Rightarrow> telephone_event option" where
  "tev_parse payload =
     (if length payload < 4 then None
      else let flags = payload ! 1
           in Some \<lparr> tev_event = payload ! 0, tev_end = (flags AND 0x80 \<noteq> 0), tev_volume = flags AND 0x3F,
                     tev_duration_samples = from_be (slice 2 4 payload) \<rparr>)"

definition tev_encode :: "telephone_event \<Rightarrow> octets" where
  "tev_encode e =
     [tev_event e, push_bit 7 (of_bool (tev_end e)) OR (tev_volume e AND 0x3F)] @ be_bytes 2 (tev_duration_samples e)"

definition event_code_to_digit :: "u8 \<Rightarrow> char option" where
  "event_code_to_digit event =
     (if event \<le> 9 then Some (char_of (48 + unat event))
      else if event = 10 then Some CHR ''*''
      else if event = 11 then Some CHR ''#''
      else if event = 12 then Some CHR ''A''
      else if event = 13 then Some CHR ''B''
      else if event = 14 then Some CHR ''C''
      else if event = 15 then Some CHR ''D''
      else if event = 16 then Some CHR ''!''
      else None)"

definition digit_to_event_code :: "char \<Rightarrow> u8 option" where
  "digit_to_event_code c =
     (if 48 \<le> code c \<and> code c \<le> (57 :: nat) then Some (of_nat (code c - 48))
      else if c = CHR ''*'' then Some 10
      else if c = CHR ''#'' then Some 11
      else if c = CHR ''A'' \<or> c = CHR ''a'' then Some 12
      else if c = CHR ''B'' \<or> c = CHR ''b'' then Some 13
      else if c = CHR ''C'' \<or> c = CHR ''c'' then Some 14
      else if c = CHR ''D'' \<or> c = CHR ''d'' then Some 15
      else if c = CHR ''!'' then Some 16
      else None)"

definition as_digit :: "telephone_event \<Rightarrow> char option" where
  "as_digit e = event_code_to_digit (tev_event e)"

section \<open>Detector\<close>

record dtmf_keypress =
  kp_digit :: char
  kp_duration_ms :: u32
  kp_leg :: bytes

record dtmf_detector =
  dd_leg_id :: bytes
  dd_clock_rate_hz :: u32
  dd_in_flight :: "(u8 \<times> u32) option"
  dd_max_duration :: u16
  dd_last_emitted :: "(u8 \<times> u32) option"

definition detector_new :: "bytes \<Rightarrow> u32 \<Rightarrow> dtmf_detector" where
  "detector_new leg_id clock_rate_hz =
     \<lparr> dd_leg_id = leg_id, dd_clock_rate_hz = max clock_rate_hz 1, dd_in_flight = None, dd_max_duration = 0,
       dd_last_emitted = None \<rparr>"

text \<open>The bookkeeping of \<^verbatim>\<open>feed\<close> for the press in flight.\<close>

definition detector_track :: "dtmf_detector \<Rightarrow> telephone_event \<Rightarrow> u32 \<Rightarrow> dtmf_detector" where
  "detector_track d e ts =
     (if dd_in_flight d = Some (tev_event e, ts) then
        (if dd_max_duration d < tev_duration_samples e then d \<lparr> dd_max_duration := tev_duration_samples e \<rparr> else d)
      else d \<lparr> dd_in_flight := Some (tev_event e, ts), dd_max_duration := tev_duration_samples e \<rparr>)"

definition detector_feed :: "dtmf_detector \<Rightarrow> telephone_event \<Rightarrow> u32 \<Rightarrow> dtmf_detector \<times> dtmf_keypress option" where
  "detector_feed d e start_timestamp =
     (if dd_last_emitted d = Some (tev_event e, start_timestamp) then (d, None)
      else let d = detector_track d e start_timestamp
           in if \<not> tev_end e then (d, None)
              else (case dd_in_flight d of
                      None \<Rightarrow> (d, None)
                    | Some (event, ts) \<Rightarrow>
                        let d = d \<lparr> dd_in_flight := None \<rparr>
                        in (case event_code_to_digit event of
                              None \<Rightarrow> (d, None)
                            | Some key \<Rightarrow>
                                let duration_ms = saturating_mul (ucast (dd_max_duration d)) 1000 div dd_clock_rate_hz d
                                in (d \<lparr> dd_max_duration := 0, dd_last_emitted := Some (event, ts) \<rparr>,
                                    Some \<lparr> kp_digit = key, kp_duration_ms = duration_ms, kp_leg = dd_leg_id d \<rparr>))))"

section \<open>Generator\<close>

definition DTMF_GEN_CLOCK_RATE_HZ :: u32 where "DTMF_GEN_CLOCK_RATE_HZ = 8000"
definition DTMF_GEN_FRAME_MS :: u32 where "DTMF_GEN_FRAME_MS = 20"
definition DTMF_GEN_FRAME_SAMPLES :: u16 where "DTMF_GEN_FRAME_SAMPLES = 160"

definition dtmf_packet :: "telephone_event \<Rightarrow> bool \<Rightarrow> u16 \<Rightarrow> u32 \<Rightarrow> u32 \<Rightarrow> rtp_packet" where
  "dtmf_packet e marker seq ts ssrc =
     \<lparr> rp_marker = marker, rp_payload_type = RFC4733_PAYLOAD_TYPE, rp_sequence = seq, rp_timestamp = ts,
       rp_ssrc = ssrc, rp_payload = tev_encode e \<rparr>"

definition dtmf_frames :: "u32 \<Rightarrow> u32" where
  "dtmf_frames duration_ms = max duration_ms DTMF_GEN_FRAME_MS div DTMF_GEN_FRAME_MS"

definition dtmf_samples :: "nat \<Rightarrow> u16" where
  "dtmf_samples n = saturating_mul DTMF_GEN_FRAME_SAMPLES (try_from_or_max n)"

text \<open>\<open>None\<close> where the Rust function panics, on a character that is no digit.\<close>

definition generate_keypress :: "char \<Rightarrow> u32 \<Rightarrow> u32 \<Rightarrow> u16 \<Rightarrow> u32 \<Rightarrow> rtp_packet list option" where
  "generate_keypress key duration_ms ssrc start_sequence start_timestamp =
     (case digit_to_event_code key of
        None \<Rightarrow> None
      | Some event \<Rightarrow>
          let frames = unat (dtmf_frames duration_ms);
              start = map (\<lambda>i. dtmf_packet \<lparr> tev_event = event, tev_end = False, tev_volume = 10,
                         tev_duration_samples = dtmf_samples (i + 1) \<rparr> (i = 0) (start_sequence + of_nat i) start_timestamp ssrc)
                       [0..<frames];
              end_ev = \<lparr> tev_event = event, tev_end = True, tev_volume = 10, tev_duration_samples = dtmf_samples frames \<rparr>;
              finish = map (\<lambda>i. dtmf_packet end_ev False (start_sequence + of_nat (frames + i)) start_timestamp ssrc) [0..<3]
          in Some (start @ finish))"

section \<open>Payload round trip\<close>

definition tev_ok :: "telephone_event \<Rightarrow> bool" where
  "tev_ok e \<longleftrightarrow> tev_volume e < 64"

lemma mask_3f: "(v :: u8) AND 0x3F = take_bit 6 v"
  by (simp add: take_bit_eq_mask mask_eq_exp_minus_1)

lemma tev_flags:
  "(push_bit 7 (of_bool b) OR ((v :: u8) AND 0x3F)) AND 0x80 \<noteq> 0 \<longleftrightarrow> b"
  "(push_bit 7 (of_bool b) OR ((v :: u8) AND 0x3F)) AND 0x3F = v AND 0x3F"
proof -
  have "((v :: u8) AND 0x3F) AND 0x80 = 0" by (simp add: and.assoc)
  then show "(push_bit 7 (of_bool b) OR ((v :: u8) AND 0x3F)) AND 0x80 \<noteq> 0 \<longleftrightarrow> b"
    by (cases b) (simp_all add: bit.conj_disj_distrib2)
  show "(push_bit 7 (of_bool b) OR ((v :: u8) AND 0x3F)) AND 0x3F = v AND 0x3F"
    by (cases b) (simp_all add: bit.conj_disj_distrib2 and.assoc)
qed

lemma tev_parse_encode:
  "tev_parse (tev_encode e) = Some (e \<lparr> tev_volume := tev_volume e AND 0x3F \<rparr>)"
  by (simp add: tev_parse_def tev_encode_def Let_def slice_def tev_flags)

interpretation telephone: wire_codec tev_encode "\<lambda>bs. ok_or (tev_parse bs)" tev_ok
proof
  fix e assume "tev_ok e"
  then have "tev_volume e AND 0x3F = tev_volume e"
    unfolding mask_3f tev_ok_def by (simp add: word_less_nat_alt take_bit_eq_mod word_unat_eq_iff unat_mod_distrib)
  then show "ok_or (tev_parse (tev_encode e)) = Inr e" by (simp add: tev_parse_encode)
qed

text \<open>The digit of a code and the code of a digit, up to the case of the letters.\<close>

definition dtmf_canonical :: "char \<Rightarrow> char" where
  "dtmf_canonical c = (if c = CHR ''a'' then CHR ''A'' else if c = CHR ''b'' then CHR ''B''
     else if c = CHR ''c'' then CHR ''C'' else if c = CHR ''d'' then CHR ''D'' else c)"

lemma digit_code_roundtrip:
  assumes "digit_to_event_code c = Some e"
  shows "event_code_to_digit e = Some (dtmf_canonical c)"
proof (cases "48 \<le> code c \<and> code c \<le> (57 :: nat)")
  case True
  then have e: "e = of_nat (code c - 48)" using assms by (simp add: digit_to_event_code_def)
  have "code c - 48 < (256 :: nat)" using True by linarith
  then have "unat e = code c - 48" by (simp add: e unat_of_nat del: of_nat_diff)
  moreover have "dtmf_canonical c = c" using True by (auto simp: dtmf_canonical_def)
  moreover have "code c - 48 \<le> (9 :: nat)" "48 \<le> code c" using True by linarith+
  ultimately show ?thesis by (simp add: event_code_to_digit_def word_le_nat_alt)
next
  case False
  then show ?thesis using assms
    by (auto simp: digit_to_event_code_def event_code_to_digit_def dtmf_canonical_def word_le_nat_alt split: if_splits)
qed

section \<open>One press is reported once\<close>

text \<open>The detector over a stream of events, each with its RTP timestamp.\<close>

definition detector_step :: "dtmf_detector \<Rightarrow> telephone_event \<times> u32 \<Rightarrow> dtmf_detector \<times> dtmf_keypress list" where
  "detector_step d i = (let (d', r) = detector_feed d (fst i) (snd i) in (d', case r of Some k \<Rightarrow> [k] | None \<Rightarrow> []))"

abbreviation key_of :: "telephone_event \<times> u32 \<Rightarrow> u8 \<times> u32" where
  "key_of i \<equiv> (tev_event (fst i), snd i)"

definition press_ms :: "dtmf_detector \<Rightarrow> u16 \<Rightarrow> u32" where
  "press_ms d dur = saturating_mul (ucast dur) 1000 div dd_clock_rate_hz d"

lemma feed_again:
  "dd_last_emitted d = Some (key_of i) \<Longrightarrow> detector_step d i = (d, [])"
  by (simp add: detector_step_def detector_feed_def)

lemma feed_more:
  assumes "dd_last_emitted d \<noteq> Some (key_of i)" and "\<not> tev_end (fst i)"
  shows "detector_step d i = (detector_track d (fst i) (snd i), [])"
  using assms by (simp add: detector_step_def detector_feed_def Let_def)

lemma track_simps [simp]:
  "dd_leg_id (detector_track d e ts) = dd_leg_id d" "dd_clock_rate_hz (detector_track d e ts) = dd_clock_rate_hz d"
  "dd_last_emitted (detector_track d e ts) = dd_last_emitted d" "dd_in_flight (detector_track d e ts) = Some (tev_event e, ts)"
  by (simp_all add: detector_track_def)

lemma track_duration:
  "dd_max_duration (detector_track d e ts) =
     (if dd_in_flight d = Some (tev_event e, ts) then max (dd_max_duration d) (tev_duration_samples e) else tev_duration_samples e)"
  by (auto simp: detector_track_def max_def)

lemma feed_end:
  assumes "dd_last_emitted d \<noteq> Some (key_of i)" and "tev_end (fst i)" and "event_code_to_digit (tev_event (fst i)) = Some c"
  shows "\<exists>d'. detector_step d i = (d', [\<lparr> kp_digit = c, kp_duration_ms =
      press_ms d (dd_max_duration (detector_track d (fst i) (snd i))), kp_leg = dd_leg_id d \<rparr>])
    \<and> dd_last_emitted d' = Some (key_of i) \<and> dd_in_flight d' = None
    \<and> dd_leg_id d' = dd_leg_id d \<and> dd_clock_rate_hz d' = dd_clock_rate_hz d"
  using assms by (simp add: detector_step_def detector_feed_def Let_def press_ms_def)

lemma run_swallowed:
  "dd_last_emitted d = Some k \<Longrightarrow> list_all (\<lambda>i. key_of i = k) ins \<Longrightarrow> run detector_step d ins = (d, [])"
  by (induction ins) (simp_all add: feed_again)

text \<open>The packets of one press, in any order and with any of them missing or repeated: as long as one
  carries the end mark and none announces a longer duration than it, one press is reported, with the
  duration of the end mark.\<close>

definition press_stream :: "u8 \<times> u32 \<Rightarrow> u16 \<Rightarrow> (telephone_event \<times> u32) list \<Rightarrow> bool" where
  "press_stream k dur ins \<longleftrightarrow> list_all (\<lambda>i. key_of i = k \<and> tev_duration_samples (fst i) \<le> dur
     \<and> (tev_end (fst i) \<longrightarrow> tev_duration_samples (fst i) = dur)) ins \<and> list_ex (\<lambda>i. tev_end (fst i)) ins"

lemma run_press:
  assumes "press_stream k dur ins" and "dd_last_emitted d \<noteq> Some k" and "event_code_to_digit (fst k) = Some c"
    and "dd_in_flight d = Some k \<longrightarrow> dd_max_duration d \<le> dur"
  shows "\<exists>d'. run detector_step d ins = (d', [\<lparr> kp_digit = c, kp_duration_ms = press_ms d dur, kp_leg = dd_leg_id d \<rparr>])
    \<and> dd_last_emitted d' = Some k \<and> dd_in_flight d' = None \<and> dd_leg_id d' = dd_leg_id d \<and> dd_clock_rate_hz d' = dd_clock_rate_hz d"
  using assms
proof (induction ins arbitrary: d)
  case Nil
  then show ?case by (simp add: press_stream_def)
next
  case (Cons i ins)
  from Cons.prems(1) have i: "key_of i = k" "tev_duration_samples (fst i) \<le> dur"
    "tev_end (fst i) \<Longrightarrow> tev_duration_samples (fst i) = dur" by (simp_all add: press_stream_def)
  have fst_k: "fst k = tev_event (fst i)" using i(1) by auto
  have le: "dd_max_duration (detector_track d (fst i) (snd i)) \<le> dur"
    using Cons.prems(4) i(1,2) by (auto simp: track_duration)
  show ?case
  proof (cases "tev_end (fst i)")
    case True
    then have "dd_max_duration (detector_track d (fst i) (snd i)) = dur"
      using le i(3) by (auto simp: track_duration max_def)
    with feed_end [of d i c] True Cons.prems(2,3) i(1) fst_k obtain d' where
      d': "detector_step d i = (d', [\<lparr> kp_digit = c, kp_duration_ms = press_ms d dur, kp_leg = dd_leg_id d \<rparr>])"
      "dd_last_emitted d' = Some k" "dd_in_flight d' = None" "dd_leg_id d' = dd_leg_id d" "dd_clock_rate_hz d' = dd_clock_rate_hz d"
      by auto
    have "run detector_step d' ins = (d', [])"
      by (rule run_swallowed [OF d'(2)]) (use Cons.prems(1) in \<open>auto simp: press_stream_def list_all_iff\<close>)
    then show ?thesis using d' by simp
  next
    case False
    let ?d = "detector_track d (fst i) (snd i)"
    have step: "detector_step d i = (?d, [])" using feed_more [of d i] False Cons.prems(2) i(1) by simp
    have rest: "press_stream k dur ins" using Cons.prems(1) False by (simp add: press_stream_def)
    have "\<exists>d'. run detector_step ?d ins = (d', [\<lparr> kp_digit = c, kp_duration_ms = press_ms ?d dur, kp_leg = dd_leg_id ?d \<rparr>])
      \<and> dd_last_emitted d' = Some k \<and> dd_in_flight d' = None \<and> dd_leg_id d' = dd_leg_id ?d \<and> dd_clock_rate_hz d' = dd_clock_rate_hz ?d"
      by (rule Cons.IH [OF rest]) (use Cons.prems(2,3) le in simp_all)
    then show ?thesis by (auto simp: step press_ms_def)
  qed
qed

section \<open>Dialling\<close>

text \<open>The event a press with this digit, duration and timestamp announces, and its final duration.\<close>

record dialled =
  di_digit :: char
  di_duration_ms :: u32
  di_timestamp :: u32
  di_sequence :: u16
  di_ssrc :: u32

definition dialled_packets :: "dialled \<Rightarrow> rtp_packet list" where
  "dialled_packets p = (case generate_keypress (di_digit p) (di_duration_ms p) (di_ssrc p) (di_sequence p) (di_timestamp p) of
     Some ps \<Rightarrow> ps | None \<Rightarrow> [])"

definition dialled_key :: "dialled \<Rightarrow> u8 \<times> u32" where
  "dialled_key p = ((case digit_to_event_code (di_digit p) of Some e \<Rightarrow> e | None \<Rightarrow> 0), di_timestamp p)"

text \<open>What the bridge hands to the detector for a packet.\<close>

definition received :: "rtp_packet list \<Rightarrow> (telephone_event \<times> u32) list" where
  "received ps = List.map_filter (\<lambda>p. map_option (\<lambda>e. (e, rp_timestamp p)) (tev_parse (rp_payload p))) ps"

lemma received_append: "received (ps @ qs) = received ps @ received qs"
  by (simp add: received_def map_filter_def)

text \<open>A lossy, reordering, repeating network that lets at least one end packet through.\<close>

definition delivers :: "dialled \<Rightarrow> rtp_packet list \<Rightarrow> bool" where
  "delivers p ps \<longleftrightarrow> set ps \<subseteq> set (dialled_packets p) \<and> list_ex (\<lambda>i. tev_end (fst i)) (received ps)"

lemma unat_dtmf_samples: "unat (dtmf_samples n) = min (160 * n) 65535"
  by (auto simp: dtmf_samples_def unat_saturating_mul DTMF_GEN_FRAME_SAMPLES_def try_from_or_max_def unat_of_nat unsigned_minus_1_eq_mask mask_eq_exp_minus_1)

lemma dtmf_samples_mono: "m \<le> n \<Longrightarrow> dtmf_samples m \<le> dtmf_samples n"
  by (simp add: word_le_nat_alt unat_dtmf_samples)

lemma tev_parse_small: "tev_volume e < 64 \<Longrightarrow> tev_parse (tev_encode e) = Some e"
  using telephone.decode_encode [of e] by (simp add: tev_ok_def)

lemma received_packet:
  assumes "digit_to_event_code (di_digit p) = Some ev" and "q \<in> set (dialled_packets p)"
  shows "\<exists>e. tev_parse (rp_payload q) = Some e \<and> rp_timestamp q = di_timestamp p \<and> tev_event e = ev
    \<and> tev_duration_samples e \<le> dtmf_samples (unat (dtmf_frames (di_duration_ms p)))
    \<and> (tev_end e \<longrightarrow> tev_duration_samples e = dtmf_samples (unat (dtmf_frames (di_duration_ms p))))"
  using assms(2) unfolding dialled_packets_def generate_keypress_def assms(1)
  by (auto simp: Let_def dtmf_packet_def tev_parse_small dtmf_samples_mono)

lemma delivers_stream:
  assumes "digit_to_event_code (di_digit p) = Some ev" and "delivers p ps"
  shows "press_stream (dialled_key p) (dtmf_samples (unat (dtmf_frames (di_duration_ms p)))) (received ps)"
proof -
  have "key_of i = dialled_key p \<and> tev_duration_samples (fst i) \<le> dtmf_samples (unat (dtmf_frames (di_duration_ms p)))
      \<and> (tev_end (fst i) \<longrightarrow> tev_duration_samples (fst i) = dtmf_samples (unat (dtmf_frames (di_duration_ms p))))"
    if i: "i \<in> set (received ps)" for i
  proof -
    from i obtain q e where q: "q \<in> set ps" "tev_parse (rp_payload q) = Some e" "i = (e, rp_timestamp q)"
      by (auto simp: received_def map_filter_def)
    with received_packet [OF assms(1), of q] assms show ?thesis
      by (auto simp: delivers_def dialled_key_def)
  qed
  then show ?thesis using assms(2) unfolding press_stream_def list_all_iff delivers_def by blast
qed

text \<open>The reported press: the digit in canonical form, and the dialled duration rounded down to
  whole frames of 20 ms, at least one, at most what 65535 samples last.\<close>

definition heard :: "bytes \<Rightarrow> u32 \<Rightarrow> dialled \<Rightarrow> dtmf_keypress" where
  "heard leg clock p = \<lparr> kp_digit = dtmf_canonical (di_digit p),
     kp_duration_ms = of_nat (min (160 * (max (unat (di_duration_ms p)) 20 div 20)) 65535 * 1000 div unat clock), kp_leg = leg \<rparr>"

lemma press_ms_heard:
  assumes "dd_clock_rate_hz d = clock"
  shows "press_ms d (dtmf_samples (unat (dtmf_frames (di_duration_ms p)))) = kp_duration_ms (heard leg clock p)"
proof -
  let ?s = "dtmf_samples (unat (dtmf_frames (di_duration_ms p)))"
  have frames: "unat (dtmf_frames (di_duration_ms p)) = max (unat (di_duration_ms p)) 20 div 20"
    by (simp add: dtmf_frames_def DTMF_GEN_FRAME_MS_def unat_div_distrib max_def word_le_nat_alt)
  have s: "unat ?s = min (160 * (max (unat (di_duration_ms p)) 20 div 20)) 65535" by (simp add: unat_dtmf_samples frames)
  have le: "unat ?s \<le> 65535" using unsigned_less [where ?'a = nat, of ?s] by simp
  have "unat (saturating_mul (ucast ?s) 1000 :: u32) = unat ?s * 1000"
    using le by (simp add: unat_saturating_mul unsigned_ucast_eq take_bit_eq_mod)
  then have "unat (press_ms d ?s) = unat ?s * 1000 div unat clock" by (simp add: press_ms_def assms unat_div_distrib)
  moreover have "unat ?s * 1000 div unat clock < 2 ^ 32"
    by (rule le_less_trans [OF div_le_dividend]) (use le in simp)
  ultimately show ?thesis unfolding heard_def word_unat_eq_iff s [symmetric] by (simp add: unat_of_nat)
qed

text \<open>A call: presses in the order they are dialled, each with what the network made of its packets.\<close>

definition dtmf_call :: "(dialled \<times> rtp_packet list) list \<Rightarrow> bool" where
  "dtmf_call ds \<longleftrightarrow> list_all (\<lambda>(p, ps). digit_to_event_code (di_digit p) \<noteq> None \<and> delivers p ps) ds
     \<and> successively (\<lambda>p q. dialled_key p \<noteq> dialled_key q) (map fst ds)"

lemma run_dialled:
  assumes "digit_to_event_code (di_digit p) \<noteq> None" and "delivers p ps"
    and "dd_last_emitted d \<noteq> Some (dialled_key p)" and "dd_in_flight d \<noteq> Some (dialled_key p)"
  shows "\<exists>d'. run detector_step d (received ps) = (d', [heard (dd_leg_id d) (dd_clock_rate_hz d) p])
    \<and> dd_last_emitted d' = Some (dialled_key p) \<and> dd_in_flight d' = None
    \<and> dd_leg_id d' = dd_leg_id d \<and> dd_clock_rate_hz d' = dd_clock_rate_hz d"
proof -
  from assms(1) obtain ev where ev: "digit_to_event_code (di_digit p) = Some ev" by auto
  have key: "event_code_to_digit (fst (dialled_key p)) = Some (dtmf_canonical (di_digit p))"
    using digit_code_roundtrip [OF ev] by (simp add: dialled_key_def ev)
  have "\<lparr> kp_digit = dtmf_canonical (di_digit p), kp_duration_ms = press_ms d (dtmf_samples (unat (dtmf_frames (di_duration_ms p)))),
      kp_leg = dd_leg_id d \<rparr> = heard (dd_leg_id d) (dd_clock_rate_hz d) p"
    by (simp add: press_ms_heard [OF refl, where leg = "dd_leg_id d"]) (simp add: heard_def)
  with run_press [OF delivers_stream [OF ev assms(2)] assms(3) key] assms(4) show ?thesis by auto
qed

lemma run_dialled_all:
  assumes "dtmf_call ds" and "ds \<noteq> [] \<Longrightarrow> dd_in_flight d \<noteq> Some (dialled_key (fst (hd ds)))"
    and "ds \<noteq> [] \<Longrightarrow> dd_last_emitted d \<noteq> Some (dialled_key (fst (hd ds)))"
  shows "snd (run detector_step d (received (concat (map snd ds))))
       = map (heard (dd_leg_id d) (dd_clock_rate_hz d) \<circ> fst) ds"
  using assms
proof (induction ds arbitrary: d)
  case Nil
  then show ?case by (simp add: received_def map_filter_def)
next
  case (Cons x ds)
  obtain p ps where x: "x = (p, ps)" by (cases x)
  from Cons.prems(1) have p: "digit_to_event_code (di_digit p) \<noteq> None" "delivers p ps" and ds: "dtmf_call ds"
    by (auto simp: dtmf_call_def x successively_Cons)
  from run_dialled [OF p, of d] Cons.prems(2,3) obtain d' where
    d': "run detector_step d (received ps) = (d', [heard (dd_leg_id d) (dd_clock_rate_hz d) p])"
    "dd_last_emitted d' = Some (dialled_key p)" "dd_in_flight d' = None" "dd_leg_id d' = dd_leg_id d"
    "dd_clock_rate_hz d' = dd_clock_rate_hz d"
    by (auto simp: x)
  have "dd_last_emitted d' \<noteq> Some (dialled_key (fst (hd ds)))" if "ds \<noteq> []"
    using Cons.prems(1) that d'(2) by (auto simp: dtmf_call_def x successively_Cons hd_map)
  from Cons.IH [OF ds _ this] d' show ?case
    by (cases "run detector_step d' (received (concat (map snd ds)))") (simp add: x received_append run_append)
qed

lemma run_dialled_call:
  assumes "dtmf_call ds" and "0 < clock"
  shows "snd (run detector_step (detector_new leg clock) (received (concat (map snd ds))))
       = map (heard leg clock \<circ> fst) ds"
proof -
  have "max clock 1 = clock" using assms(2) by (simp add: max_def word_unat_eq_iff word_le_nat_alt word_less_nat_alt)
  with run_dialled_all [OF assms(1), of "detector_new leg clock"] show ?thesis by (simp add: detector_new_def)
qed

text \<open>Result. Dialled digits are heard. Each press is turned into packets by \<open>generate_keypress\<close>;
  the network may lose, repeat and reorder the packets of a press, as long as one of the three end
  packets arrives. The detector then reports exactly the dialled presses, once each and in the order
  they were dialled, with the digit in upper case and the duration of the whole frames the generator
  sent, provided that two presses in a row differ in digit or RTP timestamp.\<close>

theorem dtmf_dial_is_heard:
  assumes "dtmf_call ds" and "0 < clock"
  shows "snd (run detector_step (detector_new leg clock) (received (concat (map snd ds))))
       = map (heard leg clock \<circ> fst) ds"
  by (rule run_dialled_call [OF assms])

text \<open>The packets at these positions of a press arrive, in this order.\<close>

definition arrivals :: "dialled \<Rightarrow> nat list \<Rightarrow> rtp_packet list" where
  "arrivals p ns = map ((!) (dialled_packets p)) ns"

lemma arrivals_deliver:
  assumes "digit_to_event_code (di_digit p) = Some ev" and "frames = unat (dtmf_frames (di_duration_ms p))"
    and "list_all (\<lambda>n. n < frames + 3) ns" and "list_ex (\<lambda>n. frames \<le> n) ns"
  shows "delivers p (arrivals p ns)"
proof -
  have len: "length (dialled_packets p) = frames + 3"
    by (simp add: dialled_packets_def generate_keypress_def assms(1,2) Let_def)
  have last3: "tev_end e" if "frames \<le> n" "n < frames + 3" "tev_parse (rp_payload (dialled_packets p ! n)) = Some e" for n e
    using that by (auto simp: dialled_packets_def generate_keypress_def assms(1) assms(2) [symmetric] Let_def nth_append
        dtmf_packet_def tev_parse_small)
  from assms(4) obtain n where n: "n \<in> set ns" "frames \<le> n" by (auto simp: list_ex_iff)
  with assms(3) have n3: "n < frames + 3" by (auto simp: list_all_iff)
  then obtain e where e: "tev_parse (rp_payload (dialled_packets p ! n)) = Some e"
    using received_packet [OF assms(1), of "dialled_packets p ! n"] len by auto
  have "(e, rp_timestamp (dialled_packets p ! n)) \<in> set (received (arrivals p ns))"
    using n(1) e by (force simp: received_def arrivals_def map_filter_def)
  then have "list_ex (\<lambda>i. tev_end (fst i)) (received (arrivals p ns))"
    using last3 [OF n(2) n3 e] by (force simp: list_ex_iff)
  moreover have "set (arrivals p ns) \<subseteq> set (dialled_packets p)"
    using assms(3) len by (auto simp: arrivals_def list_all_iff)
  ultimately show ?thesis by (simp add: delivers_def)
qed

definition press_a :: dialled where
  "press_a = \<lparr> di_digit = CHR ''a'', di_duration_ms = 45, di_timestamp = 1000, di_sequence = 65534, di_ssrc = 7 \<rparr>"

definition press_5 :: dialled where
  "press_5 = \<lparr> di_digit = CHR ''5'', di_duration_ms = 0, di_timestamp = 9000, di_sequence = 20, di_ssrc = 7 \<rparr>"

definition dialled_a5 :: "(dialled \<times> rtp_packet list) list" where
  "dialled_a5 = [(press_a, arrivals press_a [4, 0, 2, 2]), (press_5, arrivals press_5 [0, 3])]"

lemma dialled_a5_call: "dtmf_call dialled_a5"
proof -
  have a: "digit_to_event_code CHR ''a'' = Some 12" and b: "digit_to_event_code CHR ''5'' = Some 5"
    by code_simp+
  have "unat (dtmf_frames 45) = 2" "unat (dtmf_frames 0) = 1" by (simp_all add: dtmf_frames_def DTMF_GEN_FRAME_MS_def max_def)
  then have "delivers press_a (arrivals press_a [4, 0, 2, 2])" "delivers press_5 (arrivals press_5 [0, 3])"
    by (intro arrivals_deliver [OF _ refl]; simp add: press_a_def press_5_def a b)+
  then show ?thesis by (simp add: dtmf_call_def dialled_a5_def dialled_key_def press_a_def press_5_def a b)
qed

theorem dtmf_dial_is_heard_witness:
  "dtmf_call dialled_a5 \<and> snd (run detector_step (detector_new ''L'' 8000) (received (concat (map snd dialled_a5))))
     = [\<lparr> kp_digit = CHR ''A'', kp_duration_ms = 40, kp_leg = ''L'' \<rparr>, \<lparr> kp_digit = CHR ''5'', kp_duration_ms = 20, kp_leg = ''L'' \<rparr>]"
  using dialled_a5_call dtmf_dial_is_heard [OF dialled_a5_call, of 8000 "''L''"]
  by (simp add: dialled_a5_def press_a_def press_5_def heard_def dtmf_canonical_def)

lemma char_of_digits: "char_of (49 :: nat) = CHR ''1''" "char_of (50 :: nat) = CHR ''2''"
  by code_simp+

text \<open>Result. The detector remembers only the press it reported last: when a copy of the end packet of
  a press arrives after the end of the next press, the first press is reported a second time.\<close>

definition late_end :: "(telephone_event \<times> u32) list" where
  "late_end = map (\<lambda>(ev, ts). (\<lparr> tev_event = ev, tev_end = True, tev_volume = 10, tev_duration_samples = 800 \<rparr>, ts))
     [(1, 1000), (2, 9000), (1, 1000)]"

theorem dtmf_late_end_repeats:
  "map kp_digit (snd (run detector_step (detector_new leg 8000) late_end)) = ''121''"
  by (simp add: late_end_def detector_step_def detector_feed_def detector_track_def detector_new_def event_code_to_digit_def
      Let_def word_le_nat_alt max_def char_of_digits)

end
