(* ===== verification/G711.thy ===== *)
theory G711
  imports Net_Prelude
begin

text \<open>
  The G.711 mu-law codec (\<^verbatim>\<open>smiths-core/src/codec.rs\<close>) that the in-band DTMF detector, the
  conference mixer and the speech tools share. A sample is a 16-bit word read as a signed number; the
  arithmetic is that of a release build, where a negation that overflows wraps.
\<close>

type_synonym i16 = "16 word"

definition ULAW_BIAS :: i16 where "ULAW_BIAS = 0x84"
definition ULAW_CLIP :: i16 where "ULAW_CLIP = 32635"

text \<open>The loop that looks for the highest bit, from exponent 7 and mask \<open>0x4000\<close>.\<close>

fun ulaw_exponent :: "u16 \<Rightarrow> nat \<Rightarrow> u16 \<Rightarrow> nat" where
  "ulaw_exponent mag 0 msk = 0"
| "ulaw_exponent mag (Suc e) msk = (if mag AND msk = 0 then ulaw_exponent mag e (drop_bit 1 msk) else Suc e)"

definition linear_to_ulaw :: "i16 \<Rightarrow> u8" where
  "linear_to_ulaw pcm =
     (let sign = (if pcm <s 0 then 0x80 else 0) :: u8;
          pcm1 = (if pcm <s 0 then - pcm else pcm);
          pcm2 = (if ULAW_CLIP <s pcm1 then ULAW_CLIP else pcm1);
          mag = pcm2 + ULAW_BIAS;
          exponent = ulaw_exponent mag 7 0x4000;
          mantissa = ucast (drop_bit (exponent + 3) mag AND 0x0F) :: u8
      in NOT (sign OR push_bit 4 (of_nat exponent) OR mantissa))"

definition ulaw_to_linear :: "u8 \<Rightarrow> i16" where
  "ulaw_to_linear ulaw =
     (let u = NOT ulaw;
          exponent = unat (drop_bit 4 u AND 0x07);
          magnitude = push_bit exponent (push_bit 3 (ucast (u AND 0x0F)) + ULAW_BIAS);
          sample = magnitude - ULAW_BIAS
      in if u AND 0x80 \<noteq> 0 then - sample else sample)"

definition pcm16_to_pcmu :: "i16 list \<Rightarrow> octets" where
  "pcm16_to_pcmu samples = map linear_to_ulaw samples"

definition pcmu_to_pcm16 :: "octets \<Rightarrow> i16 list" where
  "pcmu_to_pcm16 bytes = map ulaw_to_linear bytes"

section \<open>The three fields of a byte\<close>

definition ulaw_byte :: "bool \<Rightarrow> nat \<Rightarrow> nat \<Rightarrow> u8" where
  "ulaw_byte s e m = NOT ((if s then 0x80 else 0) OR push_bit 4 (of_nat e) OR of_nat m)"

text \<open>The level a byte stands for, and the magnitude the encoder works on.\<close>

definition ulaw_level :: "nat \<Rightarrow> nat \<Rightarrow> nat" where
  "ulaw_level e m = (8 * m + 132) * 2 ^ e - 132"

definition ulaw_magnitude :: "i16 \<Rightarrow> nat" where
  "ulaw_magnitude x = min (nat \<bar>sint x\<bar>) 32635"

lemma small_bits:
  "n < 2 ^ k \<Longrightarrow> k \<le> i \<Longrightarrow> \<not> bit (of_nat n :: 'a :: len word) i"
  by (metis bit_of_nat_iff bit_iff_odd div_less even_zero less_le_trans one_le_numeral power_increasing)

lemma ulaw_fields:
  fixes s :: bool
  assumes "e < 8" and "m < 16"
  defines "u \<equiv> (if s then 0x80 else 0) OR push_bit 4 (of_nat e) OR of_nat m :: u8"
  shows "u AND 0x80 \<noteq> 0 \<longleftrightarrow> s" and "drop_bit 4 u AND 0x07 = of_nat e" and "u AND 0x0F = of_nat m"
proof -
  have e: "\<not> bit (of_nat e :: u8) i" if "3 \<le> i" for i using small_bits [of e 3 i] assms(1) that by simp
  have m: "\<not> bit (of_nat m :: u8) i" if "4 \<le> i" for i using small_bits [of m 4 i] assms(2) that by simp
  have "u AND 0x80 = (if s then 0x80 else 0)"
  proof (rule bit_word_eqI)
    fix n assume "n < LENGTH(8)"
    from below_8 [OF this] show "bit (u AND 0x80) n = bit (if s then 0x80 else 0 :: u8) n"
      using e m by (elim bit_cases) (auto simp: u_def bit_simps)
  qed
  then show "u AND 0x80 \<noteq> 0 \<longleftrightarrow> s" by auto
  show "drop_bit 4 u AND 0x07 = of_nat e"
  proof (rule bit_word_eqI)
    fix n assume "n < LENGTH(8)"
    from below_8 [OF this] show "bit (drop_bit 4 u AND 0x07) n = bit (of_nat e :: u8) n"
      using e m by (elim bit_cases) (auto simp: u_def bit_simps)
  qed
  show "u AND 0x0F = of_nat m"
  proof (rule bit_word_eqI)
    fix n assume "n < LENGTH(8)"
    from below_8 [OF this] show "bit (u AND 0x0F) n = bit (of_nat m :: u8) n"
      using e m by (elim bit_cases) (auto simp: u_def bit_simps)
  qed
qed

lemma ulaw_byte_cases:
  obtains s e m where "e < 8" and "m < 16" and "b = ulaw_byte s e m"
proof
  let ?u = "NOT b"
  show "unat (drop_bit 4 ?u AND 0x07) < 8" "unat (?u AND 0x0F) < 16"
    using word_and_le1 [of "drop_bit 4 ?u" 7] word_and_le1 [of ?u "0x0F"] by (simp_all add: word_le_nat_alt)
  have "?u = (if bit ?u 7 then 0x80 else 0) OR push_bit 4 (drop_bit 4 ?u AND 0x07) OR (?u AND 0x0F)"
  proof (rule bit_word_eqI)
    fix n assume "n < LENGTH(8)"
    from below_8 [OF this] show "bit ?u n = bit ((if bit ?u 7 then 0x80 else 0) OR push_bit 4 (drop_bit 4 ?u AND 0x07) OR (?u AND 0x0F)) n"
      by (elim bit_cases) (simp_all add: bit_simps)
  qed
  then show "b = ulaw_byte (bit ?u 7) (unat (drop_bit 4 ?u AND 0x07)) (unat (?u AND 0x0F))"
    by (simp add: ulaw_byte_def)
qed

lemma ulaw_level_bounds:
  assumes "e < 8" and "m < 16"
  shows "ulaw_level e m + 132 = (8 * m + 132) * 2 ^ e" and "ulaw_level e m \<le> 32124"
proof -
  have "1 \<le> (2 :: nat) ^ e" by simp
  then have "132 \<le> (8 * m + 132) * 2 ^ e" by (metis le_add2 mult_le_mono nat_mult_1_right)
  then show "ulaw_level e m + 132 = (8 * m + 132) * 2 ^ e" by (simp add: ulaw_level_def)
  have "(2 :: nat) ^ e \<le> 2 ^ 7" using assms(1) by (intro power_increasing) auto
  then have "(8 * m + 132) * 2 ^ e \<le> (8 * 15 + 132) * 2 ^ 7" using assms(2) by (intro mult_le_mono) auto
  then show "ulaw_level e m \<le> 32124" by (simp add: ulaw_level_def)
qed

lemma decode_fields:
  assumes "e < 8" and "m < 16"
  shows "ulaw_to_linear (ulaw_byte s e m) = (if s then - of_nat (ulaw_level e m) else of_nat (ulaw_level e m))"
proof -
  have e: "unat (of_nat e :: u8) = e" using assms(1) by (simp add: unat_of_nat)
  have m: "(ucast (of_nat m :: u8) :: i16) = of_nat m" using assms(2) by (simp add: word_unat_eq_iff unsigned_ucast_eq unat_of_nat take_bit_eq_mod)
  have "of_nat (ulaw_level e m) = (of_nat ((8 * m + 132) * 2 ^ e) - 132 :: i16)"
    by (simp only: ulaw_level_bounds(1) [OF assms, symmetric]) simp
  then show ?thesis
    unfolding ulaw_to_linear_def ulaw_byte_def Let_def bit.double_compl ulaw_fields [OF assms] e m
    by (simp add: ULAW_BIAS_def push_bit_eq_mult mult.commute)
qed

section \<open>The encoder\<close>

lemma ulaw_exponent_bounds:
  assumes "128 \<le> unat mag" and "unat mag < 2 ^ (e + 8)" and "e \<le> 7"
  shows "ulaw_exponent mag e (push_bit (e + 7) 1) \<le> e
    \<and> 2 ^ (ulaw_exponent mag e (push_bit (e + 7) 1) + 7) \<le> unat mag
    \<and> unat mag < 2 ^ (ulaw_exponent mag e (push_bit (e + 7) 1) + 8)"
  using assms
proof (induction e)
  case 0
  then show ?case by simp
next
  case (Suc e)
  have half: "drop_bit 1 (push_bit (Suc e + 7) 1 :: u16) = push_bit (e + 7) 1"
    using Suc.prems(3) by (intro bit_word_eqI) (auto simp: bit_drop_bit_eq bit_exp_iff)
  have bit: "bit mag (Suc e + 7) \<longleftrightarrow> 2 ^ (Suc e + 7) \<le> unat mag"
  proof -
    have "unat mag div 2 ^ (Suc e + 7) < 2"
      by (rule less_mult_imp_div_less) (use Suc.prems(2) in \<open>simp add: power_add\<close>)
    then have "odd (unat mag div 2 ^ (Suc e + 7)) \<longleftrightarrow> unat mag div 2 ^ (Suc e + 7) \<noteq> 0"
      by (auto simp: less_2_cases_iff)
    moreover have "bit mag (Suc e + 7) \<longleftrightarrow> odd (unat mag div 2 ^ (Suc e + 7))"
      unfolding bit_iff_odd [symmetric] using Suc.prems(3) by (simp add: bit_unsigned_iff)
    moreover have "unat mag div 2 ^ (Suc e + 7) = 0 \<longleftrightarrow> unat mag < 2 ^ (Suc e + 7)" by (simp add: div_eq_0_iff)
    ultimately show ?thesis by auto
  qed
  show ?case
  proof (cases "bit mag (Suc e + 7)")
    case True
    then have "mag AND push_bit (Suc e + 7) 1 \<noteq> 0" unfolding bit_iff_and_push_bit_not_eq_0 .
    then have "ulaw_exponent mag (Suc e) (push_bit (Suc e + 7) 1) = Suc e" by simp
    then show ?thesis using True bit Suc.prems(2) by simp
  next
    case False
    then have "mag AND push_bit (Suc e + 7) 1 = 0" by (simp only: bit_iff_and_push_bit_not_eq_0 not_not)
    then have step: "ulaw_exponent mag (Suc e) (push_bit (Suc e + 7) 1) = ulaw_exponent mag e (push_bit (e + 7) 1)"
      unfolding ulaw_exponent.simps half by simp
    have "unat mag < 2 ^ (e + 8)" using False bit by (simp add: add.commute)
    with Suc.IH Suc.prems step show ?thesis by auto
  qed
qed

lemma sint_i16: "sint (x :: i16) = (if uint x < 32768 then uint x else uint x - 65536)"
proof -
  have "(k + 32768) mod 65536 - 32768 = (if k < 32768 then k else k - 65536)" if "0 \<le> k" "k < 65536" for k :: int
    using that minus_mod_self2 [of "k + 32768" 65536] by auto
  moreover have "sint x = (uint x + 2 ^ 15) mod 2 ^ 16 - 2 ^ 15"
    by (simp add: sint_uint signed_take_bit_eq_take_bit_shift take_bit_eq_mod)
  ultimately show ?thesis using uint_bounded [of x] by simp
qed

lemma ulaw_mag:
  fixes x :: i16
  assumes "sint x \<noteq> - (2 ^ 15)"
  defines "p \<equiv> if x <s 0 then - x else x"
  shows "unat ((if ULAW_CLIP <s p then ULAW_CLIP else p) + ULAW_BIAS) = ulaw_magnitude x + 132"
proof -
  have x: "0 \<le> uint x" "uint x < 65536" using uint_bounded [of x] by simp_all
  have neg: "uint (- x) = (- uint x) mod 65536" by (simp add: uint_word_ariths)
  have "uint p = \<bar>sint x\<bar> \<and> uint p < 32768"
  proof (cases "uint x < 32768")
    case True
    then show ?thesis using x by (simp add: p_def word_sless_alt sint_i16)
  next
    case False
    then have "(- uint x) mod 65536 = 65536 - uint x" using x by (simp add: zmod_zminus1_eq_if)
    then show ?thesis using False x assms(1) by (simp add: p_def word_sless_alt sint_i16 neg)
  qed
  then have p: "unat p = nat \<bar>sint x\<bar>" "unat p < 32768" "sint p = int (unat p)"
    by (auto simp: unat_eq_nat_uint [of p] sint_i16 nat_less_iff)
  have clip: "ULAW_CLIP <s p \<longleftrightarrow> 32635 < unat p"
  proof -
    have "sint ULAW_CLIP = 32635" by (simp add: ULAW_CLIP_def)
    then show ?thesis unfolding word_sless_alt p(3) by linarith
  qed
  show ?thesis using p unfolding clip
    by (auto simp: ulaw_magnitude_def ULAW_CLIP_def ULAW_BIAS_def unat_word_ariths min_def)
qed

text \<open>The byte of a sample: its sign, and exponent and mantissa of the clipped magnitude plus bias.\<close>

lemma encode_fields:
  assumes "sint x \<noteq> - (2 ^ 15)"
  obtains e m where "e < 8" and "m < 16" and "linear_to_ulaw x = ulaw_byte (x <s 0) e m"
    and "(16 + m) * 2 ^ (e + 3) \<le> ulaw_magnitude x + 132" and "ulaw_magnitude x + 132 < (17 + m) * 2 ^ (e + 3)"
proof -
  define p where "p = (if x <s 0 then - x else x)"
  define mag where "mag = (if ULAW_CLIP <s p then ULAW_CLIP else p) + ULAW_BIAS"
  have mag: "unat mag = ulaw_magnitude x + 132" unfolding mag_def p_def by (rule ulaw_mag [OF assms])
  then have range: "128 \<le> unat mag" "unat mag < 2 ^ (7 + 8)" by (simp_all add: ulaw_magnitude_def)
  define e where "e = ulaw_exponent mag 7 0x4000"
  have "push_bit (7 + 7) 1 = (0x4000 :: u16)" by simp
  with ulaw_exponent_bounds [OF range] have e: "e \<le> 7" "2 ^ (e + 7) \<le> unat mag" "unat mag < 2 ^ (e + 8)"
    by (simp_all add: e_def)
  define q where "q = unat mag div 2 ^ (e + 3)"
  have q: "16 \<le> q" "q < 32"
  proof -
    have "16 * 2 ^ (e + 3) \<le> unat mag" "unat mag < 32 * 2 ^ (e + 3)" using e(2,3) by (simp_all add: power_add)
    then show "16 \<le> q" "q < 32" unfolding q_def by (simp_all add: less_eq_div_iff_mult_less_eq div_less_iff_less_mult)
  qed
  then obtain m where m: "q = 16 + m" "m < 16" by (metis add_less_cancel_left le_Suc_ex numeral_Bit0)
  have "drop_bit (e + 3) mag AND 0x0F = of_nat m"
  proof -
    have "unat (drop_bit (e + 3) mag) = 16 + m" using m(1) by (simp add: q_def unat_drop_bit_eq flip: drop_bit_eq_div)
    moreover have "w AND 0x0F = take_bit 4 w" for w :: u16 by (simp add: take_bit_eq_mask mask_eq_exp_minus_1)
    ultimately show ?thesis using m(2) by (simp add: take_bit_eq_mod word_unat_eq_iff unat_mod_distrib unat_of_nat)
  qed
  moreover have ucast_small: "(ucast (of_nat m :: u16) :: u8) = of_nat m"
    using m(2) by (simp add: word_unat_eq_iff unsigned_ucast_eq unat_of_nat take_bit_eq_mod)
  ultimately have "linear_to_ulaw x = ulaw_byte (x <s 0) e m"
    unfolding linear_to_ulaw_def Let_def p_def [symmetric] mag_def [symmetric] e_def [symmetric] ulaw_byte_def
    by (simp add: ucast_small)
  moreover have "q * 2 ^ (e + 3) \<le> unat mag" "unat mag < 2 ^ (e + 3) + q * 2 ^ (e + 3)"
    using dividend_less_div_times [of "2 ^ (e + 3)" "unat mag"] by (simp_all add: q_def)
  then have "(16 + m) * 2 ^ (e + 3) \<le> unat mag" "unat mag < (17 + m) * 2 ^ (e + 3)"
    by (simp_all add: m(1) distrib_right)
  ultimately show ?thesis using that [of e m] e(1) m(2) mag by simp
qed

section \<open>Bytes survive the decoder and the encoder\<close>

lemma fields_unique:
  assumes "(16 + m) * 2 ^ (e + 3) \<le> n" and "n < (17 + m) * 2 ^ (e + 3)" and "m < 16"
    and "(16 + m') * 2 ^ (e' + 3) \<le> n" and "n < (17 + m') * 2 ^ (e' + 3)" and "m' < (16 :: nat)"
  shows "e = e' \<and> m = m'"
proof -
  have less: False if "e < e'" "n < (17 + m) * 2 ^ (e + 3)" "(16 + m') * 2 ^ (e' + 3) \<le> n" "m < 16" for e e' m m' :: nat
  proof -
    have "(17 + m) * 2 ^ (e + 3) \<le> 32 * 2 ^ (e + 3)" using that(4) by (intro mult_le_mono1) simp
    then have "n < 32 * 2 ^ (e + 3)" using that(2) by linarith
    also have "\<dots> = 16 * 2 ^ (Suc e + 3)" by (simp add: power_add)
    also have "\<dots> \<le> (16 + m') * 2 ^ (e' + 3)" using that(1) by (intro mult_le_mono power_increasing) auto
    finally show False using that(3) by simp
  qed
  have "e = e'" using less [of e e' m m'] less [of e' e m' m] assms by (metis nat_neq_iff)
  moreover have "16 + m < 17 + m'" "16 + m' < 17 + m"
    using le_less_trans [OF assms(1,5)] le_less_trans [OF assms(4,2)] unfolding \<open>e = e'\<close> by simp_all
  ultimately show ?thesis by simp
qed

lemma sint_level:
  assumes "l \<le> 32124"
  shows "sint (of_nat l :: i16) = int l" and "sint (- of_nat l :: i16) = - int l"
  using assms by (auto simp: sint_i16 uint_word_ariths zmod_zminus1_eq_if unsigned_of_nat take_bit_eq_mod)

text \<open>Result. A byte decoded and encoded again is the byte, except that negative zero becomes zero.\<close>

theorem ulaw_roundtrip: "linear_to_ulaw (ulaw_to_linear b) = (if b = 0x7F then 0xFF else b)"
proof -
  obtain s e m where b: "e < 8" "m < 16" "b = ulaw_byte s e m" by (rule ulaw_byte_cases)
  let ?x = "ulaw_to_linear b" and ?l = "ulaw_level e m"
  have x: "?x = (if s then - of_nat ?l else of_nat ?l)" using decode_fields [OF b(1,2)] b(3) by simp
  have l: "?l + 132 = (8 * m + 132) * 2 ^ e" "?l \<le> 32124" using ulaw_level_bounds [OF b(1,2)] by simp_all
  note sint = sint_level [OF l(2)]
  have x_min: "sint ?x \<noteq> - (2 ^ 15)" and x_mag: "ulaw_magnitude ?x = ?l" and x_neg: "?x <s 0 \<longleftrightarrow> s \<and> 0 < ?l"
    using l(2) by (auto simp: x sint ulaw_magnitude_def word_sless_alt)
  obtain e' m' where e': "e' < 8" "m' < 16" "linear_to_ulaw ?x = ulaw_byte (?x <s 0) e' m'"
    "(16 + m') * 2 ^ (e' + 3) \<le> ?l + 132" "?l + 132 < (17 + m') * 2 ^ (e' + 3)"
    using encode_fields [OF x_min] unfolding x_mag by blast
  have "(16 + m) * 2 ^ (e + 3) \<le> ?l + 132" "?l + 132 < (17 + m) * 2 ^ (e + 3)"
    unfolding l(1) by (simp_all add: power_add)
  from fields_unique [OF this b(2) e'(4,5,2)] have enc: "linear_to_ulaw ?x = ulaw_byte (s \<and> 0 < ?l) e m"
    using e'(3) x_neg by simp
  have zero: "?l = 0 \<longleftrightarrow> e = 0 \<and> m = 0"
  proof
    assume "?l = 0"
    then have "(8 * m + 132) * 2 ^ e = 132" using l(1) by simp
    moreover have "132 * 2 ^ e \<le> (8 * m + 132) * 2 ^ e" by (intro mult_le_mono1) simp
    ultimately have "(2 :: nat) ^ e \<le> 1" by linarith
    then have "e = 0" using one_less_power [of "2 :: nat" e] by (cases "e = 0") auto
    then show "e = 0 \<and> m = 0" using \<open>(8 * m + 132) * 2 ^ e = 132\<close> by simp
  qed (simp add: ulaw_level_def)
  have z: "ulaw_byte True 0 0 = 0x7F" "ulaw_byte False 0 0 = 0xFF" by (simp_all add: ulaw_byte_def)
  show ?thesis
  proof (cases "?l = 0")
    case True
    then show ?thesis using enc b(3) z zero by (cases s) auto
  next
    case False
    have "ulaw_to_linear 0x7F = 0" by (simp add: z(1) [symmetric] decode_fields ulaw_level_def)
    moreover have "sint ?x \<noteq> 0" using False sint unfolding x by simp
    ultimately have "b \<noteq> 0x7F" by auto
    then show ?thesis using enc b(3) False by simp
  qed
qed

section \<open>Samples survive the encoder and the decoder\<close>

text \<open>Property C34. Encoding a sample and decoding the byte gives the sample back up to the quantisation of
  G.711: the sign is kept, and the magnitude, clipped at 32635, is off by at most a 32nd of the clipped
  magnitude plus the bias of 132. The only sample this does not hold for is the least one, -32768.\<close>

theorem ulaw_quantisation:
  assumes "sint x \<noteq> - (2 ^ 15)"
  shows "(let y = ulaw_to_linear (linear_to_ulaw x)
    in \<bar>sint y\<bar> \<le> 32124 \<and> sgn (sint y) * sgn (sint x) \<noteq> -1
      \<and> 32 * \<bar>\<bar>sint y\<bar> - int (ulaw_magnitude x)\<bar> \<le> int (ulaw_magnitude x) + 132)"
proof -
  obtain e m where e: "e < 8" "m < 16" "linear_to_ulaw x = ulaw_byte (x <s 0) e m"
    "(16 + m) * 2 ^ (e + 3) \<le> ulaw_magnitude x + 132" "ulaw_magnitude x + 132 < (17 + m) * 2 ^ (e + 3)"
    by (rule encode_fields [OF assms])
  let ?l = "ulaw_level e m" and ?y = "ulaw_to_linear (linear_to_ulaw x)"
  have l: "?l + 132 = (8 * m + 132) * 2 ^ e" "?l \<le> 32124" using ulaw_level_bounds [OF e(1,2)] by simp_all
  have y: "?y = (if x <s 0 then - of_nat ?l else of_nat ?l)" using decode_fields [OF e(1,2)] e(3) by simp
  have sy: "sint ?y = (if x <s 0 then - int ?l else int ?l)"
    using l(2) by (simp add: y sint_level)
  have "int ?l + 132 = int ((16 + m) * 2 ^ (e + 3)) + 4 * 2 ^ e" using arg_cong [OF l(1), of int] by (simp add: power_add algebra_simps)
  moreover have "int (ulaw_magnitude x) + 132 < int ((16 + m) * 2 ^ (e + 3)) + 8 * 2 ^ e"
    using of_nat_less_iff [where ?'a = int, THEN iffD2, OF e(5)] by (simp add: power_add algebra_simps)
  moreover have "int ((16 + m) * 2 ^ (e + 3)) \<le> int (ulaw_magnitude x) + 132" using e(4) by linarith
  ultimately have "\<bar>int ?l - int (ulaw_magnitude x)\<bar> \<le> 4 * 2 ^ e" by linarith
  then have "32 * \<bar>int ?l - int (ulaw_magnitude x)\<bar> \<le> 128 * 2 ^ e" by simp
  moreover have "128 * 2 ^ e \<le> int (ulaw_magnitude x) + 132"
  proof -
    have "16 * 2 ^ (e + 3) \<le> (16 + m) * 2 ^ (e + 3)" by (intro mult_le_mono1) simp
    then have "16 * 2 ^ (e + 3) \<le> ulaw_magnitude x + 132" using e(4) by (rule order_trans)
    then have "128 * 2 ^ e \<le> ulaw_magnitude x + 132" by (simp add: power_add)
    then show ?thesis by (simp flip: of_nat_le_iff [where ?'a = int])
  qed
  ultimately have "32 * \<bar>int ?l - int (ulaw_magnitude x)\<bar> \<le> int (ulaw_magnitude x) + 132" by (rule order_trans)
  moreover have "sgn (sint ?y) * sgn (sint x) \<noteq> -1"
    using sy by (auto simp: sgn_if word_sless_alt split: if_splits)
  ultimately show ?thesis using sy l(2) by (auto simp: Let_def)
qed

theorem ulaw_quantisation_witness:
  "(let y = ulaw_to_linear (linear_to_ulaw 1000) in 32 * \<bar>\<bar>sint y\<bar> - 1000\<bar> \<le> 1132)"
  using ulaw_quantisation [of 1000] by (simp add: ulaw_magnitude_def Let_def)

text \<open>Result. The least sample wraps when it is negated and is encoded as silence.\<close>

theorem ulaw_least_sample_is_silent:
  "sint (0x8000 :: i16) = - 32768 \<and> linear_to_ulaw 0x8000 = 0x7F \<and> ulaw_to_linear 0x7F = 0 \<and> sint (ulaw_to_linear (linear_to_ulaw 0x8001)) = - 32124"
  by code_simp

end
