(* ===== verification/Dtmf_Inband.thy ===== *)
theory Dtmf_Inband
  imports Dtmf G711
begin

text \<open>
  The in-band DTMF detector (\<^verbatim>\<open>smiths-core/src/dtmf_inband.rs\<close>). What the floating-point
  Goertzel filters make of the samples of one frame is a parameter: \<open>analyse\<close> gives the row and the
  column whose tones stand out, or nothing. The filters are reset at every frame boundary, so their
  state is a function of the samples seen since then, which is what the model keeps. Sample counts
  are unbounded where the source has 64 bits, which last for millions of years at 8 kHz.
\<close>

definition DIGITS :: "char list list" where
  "DIGITS = [''123A'', ''456B'', ''789C'', ''*0#D'']"

definition DEFAULT_FRAME_SAMPLES :: nat where "DEFAULT_FRAME_SAMPLES = 160"
definition DEFAULT_DEBOUNCE_MS :: nat where "DEFAULT_DEBOUNCE_MS = 40"

record inband_detector =
  ib_leg_id :: bytes
  ib_sample_rate_hz :: nat
  ib_frame_samples :: nat
  ib_debounce_samples :: nat
  ib_frame :: "i16 list"
  ib_last_emitted :: "(char \<times> nat) option"
  ib_samples_consumed :: nat
  ib_in_progress :: "(char \<times> nat) option"

definition inband_with_config :: "bytes \<Rightarrow> nat \<Rightarrow> nat \<Rightarrow> nat \<Rightarrow> inband_detector" where
  "inband_with_config leg_id sample_rate_hz frame_samples debounce_ms =
     \<lparr> ib_leg_id = leg_id, ib_sample_rate_hz = sample_rate_hz, ib_frame_samples = frame_samples,
       ib_debounce_samples = debounce_ms * sample_rate_hz div 1000, ib_frame = [], ib_last_emitted = None,
       ib_samples_consumed = 0, ib_in_progress = None \<rparr>"

definition inband_new :: "bytes \<Rightarrow> inband_detector" where
  "inband_new leg_id = inband_with_config leg_id 8000 DEFAULT_FRAME_SAMPLES DEFAULT_DEBOUNCE_MS"

definition emit_if_new :: "inband_detector \<Rightarrow> char \<Rightarrow> nat \<Rightarrow> nat \<Rightarrow> inband_detector \<times> dtmf_keypress option" where
  "emit_if_new d key start_sample end_sample =
     (if (case ib_last_emitted d of
            Some (prev, last_end) \<Rightarrow> prev = key \<and> start_sample - last_end < ib_debounce_samples d
          | None \<Rightarrow> False)
      then (d, None)
      else (d \<lparr> ib_last_emitted := Some (key, end_sample) \<rparr>,
            Some \<lparr> kp_digit = key, kp_duration_ms = of_nat ((end_sample - start_sample) * 1000 div ib_sample_rate_hz d),
                   kp_leg = ib_leg_id d \<rparr>))"

definition finish_held :: "inband_detector \<Rightarrow> inband_detector \<times> dtmf_keypress option" where
  "finish_held d =
     (case ib_in_progress d of
        None \<Rightarrow> (d, None)
      | Some (key, start) \<Rightarrow> emit_if_new (d \<lparr> ib_in_progress := None \<rparr>) key start (ib_samples_consumed d))"

text \<open>The digit of the two tones, and what the detector does with the verdict on a frame.\<close>

definition key_heard :: "(i16 list \<Rightarrow> (nat \<times> nat) option) \<Rightarrow> i16 list \<Rightarrow> char option" where
  "key_heard analyse f = map_option (\<lambda>(row, col). DIGITS ! row ! col) (analyse f)"

definition frame_verdict :: "inband_detector \<Rightarrow> char option \<Rightarrow> inband_detector \<times> dtmf_keypress option" where
  "frame_verdict d verdict =
     (case verdict of
        None \<Rightarrow> finish_held d
      | Some key \<Rightarrow>
          let now = ib_samples_consumed d
          in case ib_in_progress d of
               Some (cur, start) \<Rightarrow>
                 (if cur = key then (d, None)
                  else let (d, emitted) = emit_if_new d cur start now
                       in (d \<lparr> ib_in_progress := Some (key, now) \<rparr>, emitted))
             | None \<Rightarrow> (d \<lparr> ib_in_progress := Some (key, now) \<rparr>, None))"

definition close_frame :: "(i16 list \<Rightarrow> (nat \<times> nat) option) \<Rightarrow> inband_detector \<Rightarrow> inband_detector \<times> dtmf_keypress option" where
  "close_frame analyse d = frame_verdict (d \<lparr> ib_frame := [] \<rparr>) (key_heard analyse (ib_frame d))"

definition feed_sample :: "(i16 list \<Rightarrow> (nat \<times> nat) option) \<Rightarrow> inband_detector \<Rightarrow> i16 \<Rightarrow> inband_detector \<times> dtmf_keypress list" where
  "feed_sample analyse d s =
     (let d = d \<lparr> ib_frame := ib_frame d @ [s], ib_samples_consumed := ib_samples_consumed d + 1 \<rparr>
      in if ib_frame_samples d \<le> length (ib_frame d)
         then (case close_frame analyse d of (d, Some press) \<Rightarrow> (d, [press]) | (d, None) \<Rightarrow> (d, []))
         else (d, []))"

definition feed_pcm16 :: "(i16 list \<Rightarrow> (nat \<times> nat) option) \<Rightarrow> inband_detector \<Rightarrow> i16 list \<Rightarrow> inband_detector \<times> dtmf_keypress list" where
  "feed_pcm16 analyse d pcm = run (feed_sample analyse) d pcm"

definition feed_pcmu :: "(i16 list \<Rightarrow> (nat \<times> nat) option) \<Rightarrow> inband_detector \<Rightarrow> octets \<Rightarrow> inband_detector \<times> dtmf_keypress list" where
  "feed_pcmu analyse d pcmu = feed_pcm16 analyse d (pcmu_to_pcm16 pcmu)"

section \<open>Frame by frame\<close>

text \<open>The detector from one frame boundary to the next.\<close>

definition frame_step :: "inband_detector \<Rightarrow> char option \<Rightarrow> inband_detector \<times> dtmf_keypress list" where
  "frame_step d k =
     (case frame_verdict (d \<lparr> ib_samples_consumed := ib_samples_consumed d + ib_frame_samples d \<rparr>) k of
        (d, Some press) \<Rightarrow> (d, [press]) | (d, None) \<Rightarrow> (d, []))"

lemma feed_partial:
  "length (ib_frame d @ xs) < ib_frame_samples d \<Longrightarrow>
   run (feed_sample analyse) d xs = (d \<lparr> ib_frame := ib_frame d @ xs, ib_samples_consumed := ib_samples_consumed d + length xs \<rparr>, [])"
proof (induction xs arbitrary: d)
  case (Cons x xs)
  let ?d = "d \<lparr> ib_frame := ib_frame d @ [x], ib_samples_consumed := ib_samples_consumed d + 1 \<rparr>"
  have "feed_sample analyse d x = (?d, [])" using Cons.prems by (simp add: feed_sample_def Let_def)
  moreover have "run (feed_sample analyse) ?d xs =
      (?d \<lparr> ib_frame := ib_frame ?d @ xs, ib_samples_consumed := ib_samples_consumed ?d + length xs \<rparr>, [])"
    by (rule Cons.IH) (use Cons.prems in simp)
  ultimately show ?case by simp
qed simp

lemma feed_frame:
  assumes "ib_frame d = []" and "length f = ib_frame_samples d" and "f \<noteq> []"
  shows "run (feed_sample analyse) d f = frame_step d (key_heard analyse f)"
proof -
  obtain xs x where f: "f = xs @ [x]" using assms(3) by (cases f rule: rev_cases) auto
  have "run (feed_sample analyse) d xs = (d \<lparr> ib_frame := xs, ib_samples_consumed := ib_samples_consumed d + length xs \<rparr>, [])"
    using feed_partial [of d xs analyse] assms(1,2) f by simp
  moreover have len: "Suc (length xs) = ib_frame_samples d" using assms(2) f by simp
  moreover have "d \<lparr> ib_samples_consumed := Suc (ib_samples_consumed d + length xs), ib_frame := [] \<rparr>
      = d \<lparr> ib_samples_consumed := ib_samples_consumed d + ib_frame_samples d \<rparr>"
    using assms(1) len by (cases d) simp
  ultimately show ?thesis
    by (simp add: f run_append feed_sample_def Let_def close_frame_def frame_step_def split: prod.splits option.splits)
qed

lemma verdict_frame: "ib_frame (fst (frame_step d k)) = ib_frame d \<and> ib_frame_samples (fst (frame_step d k)) = ib_frame_samples d"
  by (auto simp: frame_step_def frame_verdict_def finish_held_def emit_if_new_def Let_def split: option.splits prod.splits if_splits)

lemma feed_frames:
  assumes "ib_frame d = []" and "list_all (\<lambda>f. length f = ib_frame_samples d) fs" and "0 < ib_frame_samples d"
  shows "run (feed_sample analyse) d (concat fs) = run frame_step d (map (key_heard analyse) fs)"
  using assms
proof (induction fs arbitrary: d)
  case (Cons f fs)
  have "run (feed_sample analyse) d f = frame_step d (key_heard analyse f)"
    using Cons.prems by (intro feed_frame) auto
  moreover have "run (feed_sample analyse) (fst (frame_step d (key_heard analyse f))) (concat fs) =
      run frame_step (fst (frame_step d (key_heard analyse f))) (map (key_heard analyse) fs)"
    using Cons.prems verdict_frame [of d "key_heard analyse f"] by (intro Cons.IH) simp_all
  ultimately show ?case by (cases "frame_step d (key_heard analyse f)") (simp add: run_append)
qed simp

section \<open>Presses\<close>

text \<open>A press of a digit for some frames, and the frames without a tone that follow it.\<close>

record tone_press =
  tp_key :: char
  tp_frames :: nat
  tp_gap :: nat

definition press_frames :: "tone_press \<Rightarrow> char option list" where
  "press_frames p = replicate (tp_frames p) (Some (tp_key p)) @ replicate (tp_gap p) None"

text \<open>Every press lasts and is followed by silence, two frames of it before the same digit again.\<close>

definition presses_ok :: "tone_press list \<Rightarrow> bool" where
  "presses_ok ps \<longleftrightarrow> list_all (\<lambda>p. 0 < tp_frames p \<and> 0 < tp_gap p) ps
     \<and> successively (\<lambda>p q. tp_key p = tp_key q \<longrightarrow> 2 \<le> tp_gap p) ps"

definition tone_report :: "bytes \<Rightarrow> tone_press \<Rightarrow> dtmf_keypress" where
  "tone_report leg p = \<lparr> kp_digit = tp_key p, kp_duration_ms = of_nat (20 * tp_frames p), kp_leg = leg \<rparr>"

text \<open>The detector between presses.\<close>

definition idle_detector :: "bytes \<Rightarrow> nat \<Rightarrow> (char \<times> nat) option \<Rightarrow> inband_detector" where
  "idle_detector leg c prev = (inband_new leg) \<lparr> ib_samples_consumed := c, ib_last_emitted := prev \<rparr>"

lemma held_frames:
  "run frame_step ((idle_detector leg c prev) \<lparr> ib_in_progress := Some (k, s) \<rparr>) (replicate l (Some k))
     = ((idle_detector leg (c + 160 * l) prev) \<lparr> ib_in_progress := Some (k, s) \<rparr>, [])"
  by (induction l arbitrary: c)
     (simp_all add: frame_step_def frame_verdict_def idle_detector_def inband_new_def inband_with_config_def
       DEFAULT_FRAME_SAMPLES_def Let_def algebra_simps)

lemma silent_frames:
  "run frame_step (idle_detector leg c prev) (replicate g None) = (idle_detector leg (c + 160 * g) prev, [])"
  by (induction g arbitrary: c)
     (simp_all add: frame_step_def frame_verdict_def finish_held_def idle_detector_def inband_new_def inband_with_config_def
       DEFAULT_FRAME_SAMPLES_def Let_def algebra_simps)

lemma one_press:
  assumes "0 < tp_frames p" and "0 < tp_gap p"
    and "\<And>e. prev = Some (tp_key p, e) \<Longrightarrow> e + 160 \<le> c"
  shows "run frame_step (idle_detector leg c prev) (press_frames p) =
    (idle_detector leg (c + 160 * (tp_frames p + tp_gap p)) (Some (tp_key p, c + 160 * (tp_frames p + 1))), [tone_report leg p])"
proof -
  obtain l g where lg: "tp_frames p = Suc l" "tp_gap p = Suc g" using assms(1,2) by (metis gr0_conv_Suc)
  let ?k = "tp_key p"
  have first: "frame_step (idle_detector leg c prev) (Some ?k)
      = ((idle_detector leg (c + 160) prev) \<lparr> ib_in_progress := Some (?k, c + 160) \<rparr>, [])"
    by (simp add: frame_step_def frame_verdict_def idle_detector_def inband_new_def inband_with_config_def DEFAULT_FRAME_SAMPLES_def)
  have close: "frame_step ((idle_detector leg (c + 160 + 160 * l) prev) \<lparr> ib_in_progress := Some (?k, c + 160) \<rparr>) None
      = (idle_detector leg (c + 160 * (l + 2)) (Some (?k, c + 160 * (l + 2))), [tone_report leg p])"
    using assms(3)
    by (auto simp: frame_step_def frame_verdict_def finish_held_def emit_if_new_def idle_detector_def inband_new_def
        inband_with_config_def DEFAULT_FRAME_SAMPLES_def DEFAULT_DEBOUNCE_MS_def tone_report_def lg algebra_simps
        split: option.splits)
  show ?thesis
    unfolding press_frames_def lg run_append replicate_Suc run.simps first Let_def prod.case held_frames append_Nil close silent_frames
    by (simp add: algebra_simps)
qed

lemma all_presses:
  assumes "presses_ok ps" and "\<And>k e. ps \<noteq> [] \<Longrightarrow> prev = Some (k, e) \<Longrightarrow> k = tp_key (hd ps) \<Longrightarrow> e + 160 \<le> c"
  shows "snd (run frame_step (idle_detector leg c prev) (concat (map press_frames ps))) = map (tone_report leg) ps"
  using assms
proof (induction ps arbitrary: c prev)
  case (Cons p ps)
  have p: "0 < tp_frames p" "0 < tp_gap p" and ps: "presses_ok ps"
    using Cons.prems(1) by (auto simp: presses_ok_def successively_Cons)
  let ?c = "c + 160 * (tp_frames p + tp_gap p)" and ?prev = "Some (tp_key p, c + 160 * (tp_frames p + 1))"
  have one: "run frame_step (idle_detector leg c prev) (press_frames p) = (idle_detector leg ?c ?prev, [tone_report leg p])"
    using Cons.prems(2) by (intro one_press p) auto
  have "snd (run frame_step (idle_detector leg ?c ?prev) (concat (map press_frames ps))) = map (tone_report leg) ps"
    using Cons.prems(1) by (intro Cons.IH ps) (auto simp: presses_ok_def successively_Cons)
  then show ?case by (simp add: snd_run_append one)
qed simp

text \<open>Result. Tones in the audio are heard. Take a stream of audio, cut into mu-law packets in any way,
  whose frames of 160 samples sound like a sequence of presses, each of one or more frames and each
  followed by at least one frame without a tone (two, 40 ms, where the next press is of the same
  digit). Then the detector reports these presses, once each, in order and with the number of 20 ms
  frames they lasted, whatever the Goertzel analysis of a frame is.\<close>

theorem inband_presses_heard:
  assumes "presses_ok ps" and "list_all (\<lambda>f. length f = 160) fs" and "concat (map pcmu_to_pcm16 packets) = concat fs"
    and "map (key_heard analyse) fs = concat (map press_frames ps)"
  shows "snd (run (feed_pcmu analyse) (inband_new leg) packets) = map (tone_report leg) ps"
proof -
  have idle: "inband_new leg = idle_detector leg 0 None" by (simp add: idle_detector_def inband_new_def inband_with_config_def)
  have "run (feed_pcmu analyse) (inband_new leg) packets = run (feed_sample analyse) (inband_new leg) (concat (map pcmu_to_pcm16 packets))"
    by (simp add: run_concat run_map feed_pcmu_def [abs_def] feed_pcm16_def [abs_def])
  also have "\<dots> = run frame_step (inband_new leg) (concat (map press_frames ps))"
    unfolding assms(3) assms(4) [symmetric]
    by (rule feed_frames) (use assms(2) in \<open>simp_all add: inband_new_def inband_with_config_def DEFAULT_FRAME_SAMPLES_def\<close>)
  finally show ?thesis using all_presses [OF assms(1), of None 0 leg] by (simp add: idle)
qed

text \<open>A stand-in for the analysis: the first sample of a frame names row and column.\<close>

definition sample_analyse :: "i16 list \<Rightarrow> (nat \<times> nat) option" where
  "sample_analyse f = (case f of [] \<Rightarrow> None | s # _ \<Rightarrow> if s = ulaw_to_linear 0 then Some (1, 1) else if s = ulaw_to_linear 1 then Some (3, 2) else None)"

definition sample_presses :: "tone_press list" where
  "sample_presses = [\<lparr> tp_key = CHR ''5'', tp_frames = 2, tp_gap = 2 \<rparr>, \<lparr> tp_key = CHR ''5'', tp_frames = 1, tp_gap = 1 \<rparr>,
     \<lparr> tp_key = CHR ''#'', tp_frames = 3, tp_gap = 1 \<rparr>]"

definition sample_audio :: "octets list" where
  "sample_audio = map (replicate 160) [0, 0, 9, 9, 0, 9, 1, 1, 1, 9]"

theorem inband_presses_heard_witness:
  "presses_ok sample_presses \<and> snd (run (feed_pcmu sample_analyse) (inband_new ''L'') sample_audio)
     = [\<lparr> kp_digit = CHR ''5'', kp_duration_ms = 40, kp_leg = ''L'' \<rparr>, \<lparr> kp_digit = CHR ''5'', kp_duration_ms = 20, kp_leg = ''L'' \<rparr>,
        \<lparr> kp_digit = CHR ''#'', kp_duration_ms = 60, kp_leg = ''L'' \<rparr>]"
proof -
  have ok: "presses_ok sample_presses" by (simp add: presses_ok_def sample_presses_def)
  have levels: "ulaw_to_linear 1 \<noteq> ulaw_to_linear 0" "ulaw_to_linear 9 \<noteq> ulaw_to_linear 0" "ulaw_to_linear 9 \<noteq> ulaw_to_linear 1"
    by code_simp+
  have frames: "map (key_heard sample_analyse) (map pcmu_to_pcm16 sample_audio) = concat (map press_frames sample_presses)"
    using levels by (simp add: sample_audio_def sample_presses_def press_frames_def key_heard_def sample_analyse_def pcmu_to_pcm16_def
        DIGITS_def numeral_eq_Suc)
  have "list_all (\<lambda>f. length f = 160) (map pcmu_to_pcm16 sample_audio)" by (simp add: sample_audio_def pcmu_to_pcm16_def)
  from inband_presses_heard [OF ok this refl frames, of "''L''"] ok show ?thesis
    by (simp add: sample_presses_def tone_report_def)
qed

end
