(* ===== verification/Rtcp.thy ===== *)
theory Rtcp
  imports Rust_Str
begin

text \<open>
  RTCP (\<^verbatim>\<open>smiths-media/src/rtcp.rs\<close>): the builders for sender and receiver reports,
  source descriptions and goodbyes, the compound parser, the RTP/RTCP demultiplexing test, and the
  round-trip-time arithmetic. Text inside packets is read with
  \<^verbatim>\<open>String::from_utf8_lossy\<close>.
\<close>

section \<open>Text in packets\<close>

text \<open>\<^verbatim>\<open>from_utf8_lossy\<close>: each maximal ill-formed prefix of a sequence becomes
  U+FFFD.\<close>

definition REPLACEMENT :: bytes where
  "REPLACEMENT = [CHR 0xEF, CHR 0xBF, CHR 0xBD]"

definition second_ok :: "char \<Rightarrow> char \<Rightarrow> bool" where
  "second_ok a b \<longleftrightarrow> is_cont b \<and> (code a = 224 \<longrightarrow> 160 \<le> code b) \<and> (code a = 237 \<longrightarrow> code b \<le> 159) \<and>
     (code a = 240 \<longrightarrow> 144 \<le> code b) \<and> (code a = 244 \<longrightarrow> code b \<le> 143)"

fun from_utf8_lossy :: "bytes \<Rightarrow> bytes" where
  "from_utf8_lossy [] = []"
| "from_utf8_lossy (a # s) =
     (if code a < 128 then a # from_utf8_lossy s
      else if 194 \<le> code a \<and> code a \<le> 223 then
        (case s of b # t \<Rightarrow> if is_cont b then a # b # from_utf8_lossy t else REPLACEMENT @ from_utf8_lossy s
         | [] \<Rightarrow> REPLACEMENT)
      else if 224 \<le> code a \<and> code a \<le> 239 then
        (case s of
           b # t \<Rightarrow>
             if \<not> second_ok a b then REPLACEMENT @ from_utf8_lossy s
             else (case t of c # u \<Rightarrow> if is_cont c then a # b # c # from_utf8_lossy u else REPLACEMENT @ from_utf8_lossy t
                   | [] \<Rightarrow> REPLACEMENT)
         | [] \<Rightarrow> REPLACEMENT)
      else if 240 \<le> code a \<and> code a \<le> 244 then
        (case s of
           b # t \<Rightarrow>
             if \<not> second_ok a b then REPLACEMENT @ from_utf8_lossy s
             else (case t of
                     c # u \<Rightarrow>
                       if \<not> is_cont c then REPLACEMENT @ from_utf8_lossy t
                       else (case u of d # v \<Rightarrow> if is_cont d then a # b # c # d # from_utf8_lossy v
                                                else REPLACEMENT @ from_utf8_lossy u
                             | [] \<Rightarrow> REPLACEMENT)
                   | [] \<Rightarrow> REPLACEMENT)
         | [] \<Rightarrow> REPLACEMENT)
      else REPLACEMENT @ from_utf8_lossy s)"

lemma from_utf8_lossy_valid: "valid_utf8 s \<Longrightarrow> from_utf8_lossy s = s"
proof (induction s rule: length_induct)
  case (1 s)
  show ?case
  proof (cases s)
    case (Cons a t)
    with 1 have v: "valid_utf8 (a # t)" by simp
    have IH: "from_utf8_lossy u = u" if "valid_utf8 u" "length u < length s" for u using 1 that by blast
    consider (ascii) "code a < 128" | (two) "194 \<le> code a" "code a \<le> 223"
      | (three) "224 \<le> code a" "code a \<le> 239" | (four) "240 \<le> code a" "code a \<le> 244"
      using v by (fastforce split: if_splits)
    then show ?thesis
    proof cases
      case ascii
      with v Cons IH [of t] show ?thesis by simp
    next
      case two
      with v obtain b u where "t = b # u" "is_cont b" "valid_utf8 u" by (auto split: list.splits)
      with two Cons IH [of u] show ?thesis by simp
    next
      case three
      with v obtain b c u where "t = b # c # u" "second_ok a b" "is_cont c" "valid_utf8 u"
        by (auto simp: second_ok_def split: list.splits)
      with three Cons IH [of u] show ?thesis by simp
    next
      case four
      with v obtain b c d u where "t = b # c # d # u" "second_ok a b" "is_cont c" "is_cont d" "valid_utf8 u"
        by (auto simp: second_ok_def split: list.splits)
      with four Cons IH [of u] show ?thesis by simp
    qed
  qed simp
qed

section \<open>Constants and data\<close>

definition PT_SENDER_REPORT :: u8 where "PT_SENDER_REPORT = 200"
definition PT_RECEIVER_REPORT :: u8 where "PT_RECEIVER_REPORT = 201"
definition PT_SDES :: u8 where "PT_SDES = 202"
definition PT_BYE :: u8 where "PT_BYE = 203"
definition SDES_CNAME :: u8 where "SDES_CNAME = 1"
definition REPORT_BLOCK_LEN :: nat where "REPORT_BLOCK_LEN = 24"
definition SR_WIRE_LEN :: nat where "SR_WIRE_LEN = 28"

lemmas rtcp_consts = PT_SENDER_REPORT_def PT_RECEIVER_REPORT_def PT_SDES_def PT_BYE_def SDES_CNAME_def
  REPORT_BLOCK_LEN_def SR_WIRE_LEN_def

text \<open>\<^verbatim>\<open>cumulative_lost: i32\<close> is a 32-bit word read with \<open>sint\<close>.\<close>

record report_block =
  rb_ssrc :: u32
  rb_fraction_lost :: u8
  rb_cumulative_lost :: "32 word"
  rb_extended_highest_seq :: u32
  rb_jitter :: u32
  rb_last_sr :: u32
  rb_delay_since_last_sr :: u32

record parsed_sr =
  sr_sender_ssrc :: u32
  sr_ntp_ts :: u64
  sr_rtp_ts :: u32
  sr_packet_count :: u32
  sr_octet_count :: u32

record sdes_chunk =
  sc_ssrc :: u32
  sc_cname :: "bytes option"

datatype rtcp_packet =
    SenderReport parsed_sr "report_block list"
  | ReceiverReport u32 "report_block list"
  | SourceDescription "sdes_chunk list"
  | Bye "u32 list" "bytes option"
  | Other u8

section \<open>Builders\<close>

definition write_report_block :: "report_block \<Rightarrow> octets" where
  "write_report_block rb =
     (let cum = rb_cumulative_lost rb AND 0x00FFFFFF
      in be_bytes 4 (rb_ssrc rb)
         @ [rb_fraction_lost rb, ucast (drop_bit 16 cum AND 0xFF), ucast (drop_bit 8 cum AND 0xFF), ucast (cum AND 0xFF)]
         @ be_bytes 4 (rb_extended_highest_seq rb) @ be_bytes 4 (rb_jitter rb) @ be_bytes 4 (rb_last_sr rb)
         @ be_bytes 4 (rb_delay_since_last_sr rb))"

definition sender_info :: "u32 \<Rightarrow> u64 \<Rightarrow> u32 \<Rightarrow> u32 \<Rightarrow> u32 \<Rightarrow> octets" where
  "sender_info sender_ssrc ntp_ts rtp_ts packet_count octet_count =
     be_bytes 4 sender_ssrc @ be_bytes 8 ntp_ts @ be_bytes 4 rtp_ts @ be_bytes 4 packet_count @ be_bytes 4 octet_count"

definition build_sr :: "u32 \<Rightarrow> u64 \<Rightarrow> u32 \<Rightarrow> u32 \<Rightarrow> u32 \<Rightarrow> octets" where
  "build_sr sender_ssrc ntp_ts rtp_ts packet_count octet_count =
     [0x80, PT_SENDER_REPORT] @ be_bytes 2 (6 :: u16) @ sender_info sender_ssrc ntp_ts rtp_ts packet_count octet_count"

definition build_sr_with_rb :: "u32 \<Rightarrow> u64 \<Rightarrow> u32 \<Rightarrow> u32 \<Rightarrow> u32 \<Rightarrow> report_block \<Rightarrow> octets" where
  "build_sr_with_rb sender_ssrc ntp_ts rtp_ts packet_count octet_count rb =
     [0x81, PT_SENDER_REPORT] @ be_bytes 2 (12 :: u16) @ sender_info sender_ssrc ntp_ts rtp_ts packet_count octet_count
     @ write_report_block rb"

definition build_rr :: "u32 \<Rightarrow> report_block \<Rightarrow> octets" where
  "build_rr sender_ssrc rb =
     [0x81, PT_RECEIVER_REPORT] @ be_bytes 2 (7 :: u16) @ be_bytes 4 sender_ssrc @ write_report_block rb"

text \<open>\<^verbatim>\<open>n.div_ceil(4) * 4\<close> and \<^verbatim>\<open>resize(n, 0)\<close>.\<close>

definition pad4 :: "nat \<Rightarrow> nat" where "pad4 n = (n + 3) div 4 * 4"

definition resize :: "octets \<Rightarrow> nat \<Rightarrow> octets" where
  "resize bs n = take n bs @ replicate (n - length bs) 0"

definition words16 :: "nat \<Rightarrow> u16" where
  "words16 n = (if n < 2 ^ 16 then of_nat n else - 1)"

definition build_sdes_cname :: "u32 \<Rightarrow> bytes \<Rightarrow> octets" where
  "build_sdes_cname ssrc cname =
     (let name = take (min (length cname) 255) (octets_of cname);
          chunk_len = 4 + 2 + length name + 1;
          padded = pad4 chunk_len;
          words = words16 (padded div 4)
      in resize ([0x81, PT_SDES] @ be_bytes 2 words @ be_bytes 4 ssrc @ [SDES_CNAME, of_nat (length name)] @ name)
           (4 + padded))"

definition build_bye :: "u32 \<Rightarrow> bytes option \<Rightarrow> octets" where
  "build_bye ssrc reason =
     (let out0 = [0x81, PT_BYE, 0, 0] @ be_bytes 4 ssrc;
          out = (case reason of
                   None \<Rightarrow> out0
                 | Some r \<Rightarrow>
                     (let txt = take (min (length r) 255) (octets_of r);
                          out1 = out0 @ [of_nat (length txt)] @ txt
                      in resize out1 (pad4 (length out1))));
          words = words16 (length out div 4 - 1)
      in take 2 out @ be_bytes 2 words @ drop 4 out)"

definition build_compound :: "octets list \<Rightarrow> octets" where
  "build_compound packets = concat packets"

section \<open>Parsers\<close>

definition is_rtcp :: "octets \<Rightarrow> bool" where
  "is_rtcp bs \<longleftrightarrow> 8 \<le> length bs \<and> drop_bit 6 (bs ! 0) = 2 \<and> 192 \<le> bs ! 1 \<and> bs ! 1 \<le> 223"

definition read_report_block :: "octets \<Rightarrow> report_block" where
  "read_report_block buf =
     (let cum_u = push_bit 16 (ucast (buf ! 5)) OR push_bit 8 (ucast (buf ! 6)) OR ucast (buf ! 7) :: u32
      in \<lparr> rb_ssrc = from_be (slice 0 4 buf), rb_fraction_lost = buf ! 4,
           rb_cumulative_lost = (if cum_u AND 0x00800000 = 0 then cum_u else cum_u OR 0xFF000000),
           rb_extended_highest_seq = from_be (slice 8 12 buf), rb_jitter = from_be (slice 12 16 buf),
           rb_last_sr = from_be (slice 16 20 buf), rb_delay_since_last_sr = from_be (slice 20 24 buf) \<rparr>)"

fun read_report_blocks :: "octets \<Rightarrow> nat \<Rightarrow> report_block list" where
  "read_report_blocks bs 0 = []"
| "read_report_blocks bs (Suc rc) =
     (if length bs < REPORT_BLOCK_LEN then []
      else read_report_block (take REPORT_BLOCK_LEN bs) # read_report_blocks (drop REPORT_BLOCK_LEN bs) rc)"

definition parse_rr :: "octets \<Rightarrow> (u32 \<times> report_block list) option" where
  "parse_rr bs =
     (if length bs < 8 \<or> drop_bit 6 (bs ! 0) \<noteq> 2 \<or> bs ! 1 \<noteq> PT_RECEIVER_REPORT then None
      else Some (from_be (slice 4 8 bs), read_report_blocks (drop 8 bs) (unat (bs ! 0 AND 0x1F))))"

definition parse_sr :: "octets \<Rightarrow> parsed_sr option" where
  "parse_sr bs =
     (if length bs < SR_WIRE_LEN \<or> drop_bit 6 (bs ! 0) \<noteq> 2 \<or> bs ! 1 \<noteq> PT_SENDER_REPORT then None
      else Some \<lparr> sr_sender_ssrc = from_be (slice 4 8 bs), sr_ntp_ts = from_be (slice 8 16 bs),
                  sr_rtp_ts = from_be (slice 16 20 bs), sr_packet_count = from_be (slice 20 24 bs),
                  sr_octet_count = from_be (slice 24 28 bs) \<rparr>)"

definition parse_sr_with_blocks :: "octets \<Rightarrow> (parsed_sr \<times> report_block list) option" where
  "parse_sr_with_blocks bs =
     (case parse_sr bs of
        None \<Rightarrow> None
      | Some sr \<Rightarrow> Some (sr, read_report_blocks (drop SR_WIRE_LEN bs) (unat (bs ! 0 AND 0x1F))))"

text \<open>The item loop of one SDES chunk from position \<open>pos\<close>: where it stops and the first CNAME.\<close>

function sdes_items :: "octets \<Rightarrow> nat \<Rightarrow> bytes option \<Rightarrow> nat \<times> bytes option" where
  "sdes_items bs pos cname =
     (if pos < length bs then
        (if bs ! pos = 0 then (pos + 1, cname)
         else if \<not> pos + 1 < length bs then (pos, cname)
         else let start = pos + 2; stop = start + unat (bs ! (pos + 1))
              in if stop > length bs then (pos, cname)
                 else sdes_items bs stop
                        (if bs ! pos = SDES_CNAME \<and> cname = None
                         then Some (from_utf8_lossy (chars (slice start stop bs))) else cname))
      else (pos, cname))"
  by pat_completeness auto
termination
  by (relation "measure (\<lambda>(bs, pos, _). length bs - pos)") auto

declare sdes_items.simps [simp del]

fun parse_sdes_chunks :: "octets \<Rightarrow> nat \<Rightarrow> sdes_chunk list" where
  "parse_sdes_chunks bs 0 = []"
| "parse_sdes_chunks bs (Suc count) =
     (if length bs < 4 then []
      else let (pos, cname) = sdes_items bs 4 None
           in \<lparr> sc_ssrc = from_be (slice 0 4 bs), sc_cname = cname \<rparr> # parse_sdes_chunks (drop (pad4 pos) bs) count)"

text \<open>The SSRC loop of BYE: the sources read and where it stops.\<close>

fun bye_ssrcs :: "octets \<Rightarrow> nat \<Rightarrow> nat \<Rightarrow> u32 list \<times> nat" where
  "bye_ssrcs pkt pos 0 = ([], pos)"
| "bye_ssrcs pkt pos (Suc count) =
     (if pos + 4 > length pkt then ([], pos)
      else let (rest, pos') = bye_ssrcs pkt (pos + 4) count in (from_be (slice pos (pos + 4) pkt) # rest, pos'))"

definition parse_one :: "octets \<Rightarrow> rtcp_packet option" where
  "parse_one pkt =
     (let count = unat (pkt ! 0 AND 0x1F); pt = pkt ! 1
      in if pt = PT_SENDER_REPORT then map_option (\<lambda>(sr, blocks). SenderReport sr blocks) (parse_sr_with_blocks pkt)
         else if pt = PT_RECEIVER_REPORT then map_option (\<lambda>(s, blocks). ReceiverReport s blocks) (parse_rr pkt)
         else if pt = PT_SDES then Some (SourceDescription (parse_sdes_chunks (drop 4 pkt) count))
         else if pt = PT_BYE then
           (let (ssrcs, pos) = bye_ssrcs pkt 4 count;
                reason = (if pos < length pkt
                          then let n = min (unat (pkt ! pos)) (length pkt - pos - 1)
                               in Some (from_utf8_lossy (chars (slice (pos + 1) (pos + 1 + n) pkt)))
                          else None)
            in Some (Bye ssrcs reason))
         else Some (Other pt))"

function parse_compound :: "octets \<Rightarrow> rtcp_packet list" where
  "parse_compound rest =
     (if length rest < 4 then []
      else if drop_bit 6 (rest ! 0) \<noteq> 2 then []
      else let words = unat (from_be (slice 2 4 rest) :: u16); len = (words + 1) * 4
           in if len > length rest then []
              else (case parse_one (take len rest) of Some p \<Rightarrow> [p] | None \<Rightarrow> [])
                   @ parse_compound (drop len rest))"
  by pat_completeness auto
termination
  by (relation "measure length") auto

declare parse_compound.simps [simp del]

section \<open>Timing\<close>

definition ntp_middle :: "u64 \<Rightarrow> u32" where
  "ntp_middle ntp = ucast (drop_bit 16 ntp)"

text \<open>A delay in nanoseconds, in units of 1/65536 s, saturating.\<close>

definition to_dlsr :: "duration \<Rightarrow> u32" where
  "to_dlsr delay =
     (let ticks = (delay div 1000) * 65536 div 1000000 in if ticks < 2 ^ 32 then of_nat ticks else - 1)"

definition round_trip_time :: "u32 \<Rightarrow> report_block \<Rightarrow> duration option" where
  "round_trip_time arrival_ntp_mid rb =
     (if rb_last_sr rb = 0 then None
      else let ticks = arrival_ntp_mid - rb_last_sr rb - rb_delay_since_last_sr rb
           in if ticks AND 0x80000000 \<noteq> 0 then None
              else Some (1000 * (unat ticks * 1000000 div 65536)))"

section \<open>Report blocks\<close>

text \<open>The loss count fits the wire's 24-bit signed field.\<close>

definition rb_ok :: "report_block \<Rightarrow> bool" where
  "rb_ok rb \<longleftrightarrow> - (2 ^ 23) \<le> sint (rb_cumulative_lost rb) \<and> sint (rb_cumulative_lost rb) < 2 ^ 23"

lemma sign_bits:
  fixes c :: "32 word"
  assumes "- (2 ^ 23) \<le> sint c" and "sint c < 2 ^ 23" and "23 \<le> n" and "n < 32"
  shows "bit c n = bit c 23"
proof -
  have "signed_take_bit 23 (sint c) = sint c"
    using assms(1,2) by (intro signed_take_bit_int_eq_self) simp_all
  from arg_cong [OF this, of "\<lambda>k. bit k n"] have "bit (sint c) n = bit (sint c) (min 23 n)"
    by (simp add: bit_signed_take_bit_iff)
  with assms(3,4) show ?thesis by (simp add: bit_sint_iff min_def)
qed

lemma mask_words:
  "(0x00FFFFFF :: u32) = mask 24" "(0xFF :: u32) = mask 8" "(0x00800000 :: u32) = 2 ^ 23"
  "(0xFF000000 :: u32) = push_bit 24 (mask 8)"
  by (simp_all add: mask_eq_exp_minus_1 push_bit_eq_mult)

lemma loss_octets:
  fixes c :: "32 word"
  defines "cum \<equiv> c AND 0x00FFFFFF"
  shows "push_bit 16 (ucast (ucast (drop_bit 16 cum AND 0xFF) :: u8)) OR
     push_bit 8 (ucast (ucast (drop_bit 8 cum AND 0xFF) :: u8)) OR ucast (ucast (cum AND 0xFF) :: u8) = take_bit 24 c"
  unfolding cum_def mask_words take_bit_eq_mask [symmetric]
proof (rule bit_word_eqI)
  fix n assume "n < LENGTH(32)"
  consider "n < 8" | "8 \<le> n" "n < 16" | "16 \<le> n" by linarith
  then show "bit (push_bit 16 (ucast (ucast (take_bit 8 (drop_bit 16 (take_bit 24 c))) :: u8)) OR
     push_bit 8 (ucast (ucast (take_bit 8 (drop_bit 8 (take_bit 24 c))) :: u8)) OR
     ucast (ucast (take_bit 8 (take_bit 24 c)) :: u8) :: u32) n = bit (take_bit 24 c) n"
    by cases (auto simp: bit_simps)
qed

lemma loss_sign_extension:
  fixes c :: "32 word"
  assumes "- (2 ^ 23) \<le> sint c" and "sint c < 2 ^ 23"
  shows "(if take_bit 24 c AND 0x00800000 = 0 then take_bit 24 c else take_bit 24 c OR 0xFF000000) = c"
proof -
  have "take_bit 24 c AND 0x00800000 = 0 \<longleftrightarrow> \<not> bit (take_bit 24 c) 23"
    unfolding mask_words by (rule and_exp_eq_0_iff_not_bit)
  then have "take_bit 24 c AND 0x00800000 = 0 \<longleftrightarrow> \<not> bit c 23"
    by (simp add: bit_take_bit_iff)
  moreover have "take_bit 24 c = c" if "\<not> bit c 23"
  proof (rule bit_word_eqI)
    fix n assume "n < LENGTH(32)"
    with that sign_bits [OF assms, of n] show "bit (take_bit 24 c) n = bit c n"
      by (cases "n < 24") (simp_all add: bit_take_bit_iff)
  qed
  moreover have "take_bit 24 c OR 0xFF000000 = c" if "bit c 23"
    unfolding mask_words
  proof (rule bit_word_eqI)
    fix n assume "n < LENGTH(32)"
    with that sign_bits [OF assms, of n] show "bit (take_bit 24 c OR push_bit 24 (mask 8)) n = bit c n"
      by (cases "n < 24") (auto simp: bit_take_bit_iff bit_or_iff bit_push_bit_iff bit_mask_iff)
  qed
  ultimately show ?thesis by simp
qed

lemma length_write_report_block [simp]: "length (write_report_block rb) = 24"
  by (simp add: write_report_block_def Let_def)

lemma slice_Cons_0: "slice 0 (Suc b) (x # xs) = x # slice 0 b xs"
  by (simp add: slice_def)

lemma report_block_roundtrip:
  assumes "rb_ok rb"
  shows "read_report_block (write_report_block rb) = rb"
proof -
  let ?w = "write_report_block rb" and ?c = "rb_cumulative_lost rb AND 0x00FFFFFF"
  have oct: "?w ! 4 = rb_fraction_lost rb" "?w ! 5 = ucast (drop_bit 16 ?c AND 0xFF)"
    "?w ! 6 = ucast (drop_bit 8 ?c AND 0xFF)" "?w ! 7 = ucast (?c AND 0xFF)"
    by (simp_all add: write_report_block_def Let_def nth_append)
  have sl: "from_be (slice 0 4 ?w) = rb_ssrc rb" "from_be (slice 8 12 ?w) = rb_extended_highest_seq rb"
    "from_be (slice 12 16 ?w) = rb_jitter rb" "from_be (slice 16 20 ?w) = rb_last_sr rb"
    "from_be (slice 20 24 ?w) = rb_delay_since_last_sr rb"
    by (simp_all add: write_report_block_def Let_def slice_def)
  show ?thesis
    using assms unfolding read_report_block_def Let_def oct sl loss_octets rb_ok_def
    by (simp add: loss_sign_extension)
qed

section \<open>Packets in a compound\<close>

text \<open>A packet is well framed when its header announces its own length.\<close>

definition well_framed :: "octets \<Rightarrow> bool" where
  "well_framed p \<longleftrightarrow> 4 \<le> length p \<and> drop_bit 6 (p ! 0) = 2 \<and>
     length p = (unat (from_be (slice 2 4 p) :: u16) + 1) * 4"

lemma parse_compound_framed:
  assumes "well_framed p"
  shows "parse_compound (p @ rest) = (case parse_one p of Some x \<Rightarrow> [x] | None \<Rightarrow> []) @ parse_compound rest"
proof -
  have "(p @ rest) ! 0 = p ! 0" "slice 2 4 (p @ rest) = slice 2 4 p"
    using assms by (simp_all add: well_framed_def nth_append slice_append_left)
  with assms show ?thesis
    by (subst parse_compound.simps) (simp add: well_framed_def Let_def)
qed

lemma parse_compound_Nil [simp]: "parse_compound [] = []"
  by (simp add: parse_compound.simps)

text \<open>What the engine can put into a compound, how it builds it and what a parser should see.\<close>

datatype rtcp_item =
    ItemSr parsed_sr
  | ItemSrRb parsed_sr report_block
  | ItemRr u32 report_block
  | ItemSdes u32 bytes
  | ItemBye u32 "bytes option"

fun build_item :: "rtcp_item \<Rightarrow> octets" where
  "build_item (ItemSr sr) =
     build_sr (sr_sender_ssrc sr) (sr_ntp_ts sr) (sr_rtp_ts sr) (sr_packet_count sr) (sr_octet_count sr)"
| "build_item (ItemSrRb sr rb) =
     build_sr_with_rb (sr_sender_ssrc sr) (sr_ntp_ts sr) (sr_rtp_ts sr) (sr_packet_count sr) (sr_octet_count sr) rb"
| "build_item (ItemRr ssrc rb) = build_rr ssrc rb"
| "build_item (ItemSdes ssrc cname) = build_sdes_cname ssrc cname"
| "build_item (ItemBye ssrc reason) = build_bye ssrc reason"

fun item_ok :: "rtcp_item \<Rightarrow> bool" where
  "item_ok (ItemSr sr) = True"
| "item_ok (ItemSrRb sr rb) = rb_ok rb"
| "item_ok (ItemRr ssrc rb) = rb_ok rb"
| "item_ok (ItemSdes ssrc cname) \<longleftrightarrow> length cname \<le> 255 \<and> valid_utf8 cname"
| "item_ok (ItemBye ssrc reason) \<longleftrightarrow>
     (case reason of None \<Rightarrow> True | Some r \<Rightarrow> length r \<le> 255 \<and> valid_utf8 r)"

fun seen_item :: "rtcp_item \<Rightarrow> rtcp_packet" where
  "seen_item (ItemSr sr) = SenderReport sr []"
| "seen_item (ItemSrRb sr rb) = SenderReport sr [rb]"
| "seen_item (ItemRr ssrc rb) = ReceiverReport ssrc [rb]"
| "seen_item (ItemSdes ssrc cname) = SourceDescription [\<lparr> sc_ssrc = ssrc, sc_cname = Some cname \<rparr>]"
| "seen_item (ItemBye ssrc reason) = Bye [ssrc] reason"

lemma unat_small: "unat (6 :: u16) = 6" "unat (12 :: u16) = 12" "unat (7 :: u16) = 7"
  by simp_all

lemma rc_octets: "(0x80 :: u8) AND 0x1F = 0" "(0x81 :: u8) AND 0x1F = 1" "drop_bit 6 (0x80 :: u8) = 2" "drop_bit 6 (0x81 :: u8) = 2"
  by code_simp+

lemma sr_item:
  "well_framed (build_item (ItemSr sr))" "parse_one (build_item (ItemSr sr)) = Some (SenderReport sr [])"
proof -
  let ?p = "build_item (ItemSr sr)"
  have hd: "?p ! 0 = 0x80" "?p ! 1 = PT_SENDER_REPORT" "length ?p = 28" "slice 2 4 ?p = be_bytes 2 (6 :: u16)"
    by (simp_all add: build_sr_def sender_info_def slice_def)
  then show "well_framed ?p" by (simp add: well_framed_def rc_octets)
  have "from_be (slice 4 8 ?p) = sr_sender_ssrc sr" "from_be (slice 8 16 ?p) = sr_ntp_ts sr"
    "from_be (slice 16 20 ?p) = sr_rtp_ts sr" "from_be (slice 20 24 ?p) = sr_packet_count sr"
    "from_be (slice 24 28 ?p) = sr_octet_count sr"
    by (simp_all add: build_sr_def sender_info_def slice_def)
  then show "parse_one ?p = Some (SenderReport sr [])"
    by (simp add: parse_one_def parse_sr_with_blocks_def parse_sr_def hd hd [unfolded One_nat_def] rc_octets SR_WIRE_LEN_def del: build_item.simps)
qed

lemma sr_rb_item:
  assumes "rb_ok rb"
  shows "well_framed (build_item (ItemSrRb sr rb))"
    and "parse_one (build_item (ItemSrRb sr rb)) = Some (SenderReport sr [rb])"
proof -
  let ?p = "build_item (ItemSrRb sr rb)"
  have hd: "?p ! 0 = 0x81" "?p ! 1 = PT_SENDER_REPORT" "length ?p = 52" "slice 2 4 ?p = be_bytes 2 (12 :: u16)"
    by (simp_all add: build_sr_with_rb_def sender_info_def slice_def)
  then show "well_framed ?p" by (simp add: well_framed_def rc_octets)
  have "from_be (slice 4 8 ?p) = sr_sender_ssrc sr" "from_be (slice 8 16 ?p) = sr_ntp_ts sr"
    "from_be (slice 16 20 ?p) = sr_rtp_ts sr" "from_be (slice 20 24 ?p) = sr_packet_count sr"
    "from_be (slice 24 28 ?p) = sr_octet_count sr" "drop 28 ?p = write_report_block rb"
    by (simp_all add: build_sr_with_rb_def sender_info_def slice_def)
  then show "parse_one ?p = Some (SenderReport sr [rb])"
    by (simp add: parse_one_def parse_sr_with_blocks_def parse_sr_def hd hd [unfolded One_nat_def] rc_octets
        SR_WIRE_LEN_def REPORT_BLOCK_LEN_def report_block_roundtrip [OF assms] del: build_item.simps)
qed

lemma rr_item:
  assumes "rb_ok rb"
  shows "well_framed (build_item (ItemRr ssrc rb))"
    and "parse_one (build_item (ItemRr ssrc rb)) = Some (ReceiverReport ssrc [rb])"
proof -
  let ?p = "build_item (ItemRr ssrc rb)"
  have hd: "?p ! 0 = 0x81" "?p ! 1 = PT_RECEIVER_REPORT" "length ?p = 32" "slice 2 4 ?p = be_bytes 2 (7 :: u16)"
    by (simp_all add: build_rr_def slice_def)
  then show "well_framed ?p" by (simp add: well_framed_def rc_octets)
  have "from_be (slice 4 8 ?p) = ssrc" "drop 8 ?p = write_report_block rb"
    by (simp_all add: build_rr_def slice_def)
  then show "parse_one ?p = Some (ReceiverReport ssrc [rb])"
    by (simp add: parse_one_def parse_rr_def hd hd [unfolded One_nat_def] rc_octets PT_SENDER_REPORT_def
        PT_RECEIVER_REPORT_def REPORT_BLOCK_LEN_def report_block_roundtrip [OF assms] del: build_item.simps)
qed

lemma pad4_bounds: "n \<le> pad4 n" "pad4 n < n + 4" "4 dvd pad4 n"
  by (auto simp: pad4_def)

lemma unat_words16: "n < 2 ^ 16 \<Longrightarrow> unat (words16 n) = n"
  by (simp add: words16_def unat_of_nat)

text \<open>The SDES packet: header, source, one item, at least one zero.\<close>

lemma sdes_layout:
  assumes "length cname \<le> 255"
  obtains z where "0 < z"
    "build_sdes_cname ssrc cname = [0x81, PT_SDES] @ be_bytes 2 (of_nat ((6 + length cname + z) div 4) :: u16)
       @ be_bytes 4 ssrc @ [SDES_CNAME, of_nat (length cname)] @ octets_of cname @ replicate z 0"
    "(6 + length cname + z) div 4 < 2 ^ 16" "4 dvd 6 + length cname + z"
proof
  let ?n = "length cname"
  let ?z = "pad4 (7 + ?n) - (6 + ?n)"
  note b = pad4_bounds [of "7 + ?n"]
  show "0 < ?z" using b by simp
  have sum: "6 + ?n + ?z = pad4 (7 + ?n)" using b by simp
  show "4 dvd 6 + ?n + ?z" unfolding sum by (rule b)
  have small: "pad4 (7 + ?n) div 4 < 2 ^ 16" using b assms by simp
  then show "(6 + ?n + ?z) div 4 < 2 ^ 16" unfolding sum .
  have "4 + 2 + ?n + 1 = 7 + ?n" by simp
  then show "build_sdes_cname ssrc cname = [0x81, PT_SDES] @ be_bytes 2 (of_nat ((6 + ?n + ?z) div 4) :: u16)
       @ be_bytes 4 ssrc @ [SDES_CNAME, of_nat ?n] @ octets_of cname @ replicate ?z 0"
    using assms small b by (simp add: build_sdes_cname_def Let_def resize_def words16_def sum min_def)
qed

lemma sdes_item:
  assumes "length cname \<le> 255" and "valid_utf8 cname"
  shows "well_framed (build_item (ItemSdes ssrc cname))"
    and "parse_one (build_item (ItemSdes ssrc cname)) = Some (seen_item (ItemSdes ssrc cname))"
proof -
  let ?n = "length cname"
  obtain z where z: "0 < z"
    and p: "build_sdes_cname ssrc cname = [0x81, PT_SDES] @ be_bytes 2 (of_nat ((6 + ?n + z) div 4) :: u16)
       @ be_bytes 4 ssrc @ [SDES_CNAME, of_nat ?n] @ octets_of cname @ replicate z 0"
    and small: "(6 + ?n + z) div 4 < 2 ^ 16" and d: "4 dvd 6 + ?n + z"
    by (rule sdes_layout [OF assms(1)])
  let ?p = "build_item (ItemSdes ssrc cname)"
  let ?c = "be_bytes 4 ssrc @ [SDES_CNAME, of_nat ?n] @ octets_of cname @ replicate z 0"
  have hd: "?p ! 0 = 0x81" "?p ! 1 = PT_SDES" "drop 4 ?p = ?c" by (simp_all add: p)
  have "slice 2 4 ?p = be_bytes 2 (of_nat ((6 + ?n + z) div 4) :: u16)" by (simp add: p slice_def)
  moreover have "length ?p = ((6 + ?n + z) div 4 + 1) * 4" using d by (simp add: p)
  ultimately show "well_framed ?p"
    using small by (simp add: well_framed_def hd rc_octets unat_of_nat del: build_item.simps)
  have n: "unat (of_nat ?n :: u8) = ?n" using assms(1) by (simp add: unat_of_nat)
  have nth: "?c ! 4 = SDES_CNAME" "?c ! 5 = of_nat ?n" "?c ! (6 + ?n) = 0" "slice 6 (6 + ?n) ?c = octets_of cname"
    using z by (simp_all add: nth_append slice_def)
  have "sdes_items ?c (6 + ?n) (Some cname) = (7 + ?n, Some cname)"
    using z nth(3) by (subst sdes_items.simps) simp
  then have "sdes_items ?c 4 None = (7 + ?n, Some cname)"
    using nth n z by (subst sdes_items.simps)
      (simp add: SDES_CNAME_def from_utf8_lossy_valid [OF assms(2)] Let_def del: append.simps)
  moreover have "from_be (slice 0 4 ?c) = ssrc" by (simp add: slice_def)
  moreover have "(0x81 :: u8) AND 0x1F = 1" by (rule rc_octets)
  ultimately show "parse_one ?p = Some (seen_item (ItemSdes ssrc cname))"
    by (simp add: parse_one_def hd hd [unfolded One_nat_def] Let_def PT_SENDER_REPORT_def PT_RECEIVER_REPORT_def
        PT_SDES_def del: build_item.simps append.simps)
qed

lemma bye_layout:
  assumes "length r \<le> 255"
  obtains k z where
    "build_bye ssrc (Some r) = [0x81, PT_BYE] @ be_bytes 2 (of_nat k :: u16)
       @ be_bytes 4 ssrc @ [of_nat (length r)] @ octets_of r @ replicate z 0"
    "k < 2 ^ 16" "9 + length r + z = (k + 1) * 4"
proof
  let ?n = "length r"
  let ?k = "pad4 (9 + ?n) div 4 - 1"
  let ?z = "pad4 (9 + ?n) - (9 + ?n)"
  note b = pad4_bounds [of "9 + ?n"]
  have sum: "9 + ?n + ?z = pad4 (9 + ?n)" using b by simp
  show "9 + ?n + ?z = (?k + 1) * 4" unfolding sum using b by (auto elim!: dvdE)
  show small: "?k < 2 ^ 16" using b assms by simp
  have "4 + 4 + (1 + ?n) = 9 + ?n" "Suc (Suc (pad4 (9 + ?n) - 2)) = pad4 (9 + ?n)" using b by simp_all
  then show "build_bye ssrc (Some r) = [0x81, PT_BYE] @ be_bytes 2 (of_nat ?k :: u16)
       @ be_bytes 4 ssrc @ [of_nat ?n] @ octets_of r @ replicate ?z 0"
    using assms small b by (simp add: build_bye_def Let_def resize_def words16_def sum min_def)
qed

lemma bye_item:
  assumes "item_ok (ItemBye ssrc reason)"
  shows "well_framed (build_item (ItemBye ssrc reason))"
    and "parse_one (build_item (ItemBye ssrc reason)) = Some (Bye [ssrc] reason)"
proof -
  let ?p = "build_item (ItemBye ssrc reason)"
  note pts = PT_SENDER_REPORT_def PT_RECEIVER_REPORT_def PT_SDES_def PT_BYE_def
  have "well_framed ?p \<and> parse_one ?p = Some (Bye [ssrc] reason)"
  proof (cases reason)
    case None
    then have p: "?p = [0x81, PT_BYE] @ be_bytes 2 (1 :: u16) @ be_bytes 4 ssrc"
      by (simp add: build_bye_def words16_def)
    have hd: "?p ! 0 = 0x81" "?p ! 1 = PT_BYE" "length ?p = 8" "slice 4 8 ?p = be_bytes 4 ssrc"
        "slice 2 4 ?p = be_bytes 2 (1 :: u16)"
      by (simp_all only: p) (simp_all add: slice_def)
    then show ?thesis
      by (simp add: well_framed_def parse_one_def hd [unfolded One_nat_def] rc_octets pts Let_def None
          del: build_item.simps)
  next
    case (Some r)
    with assms have r: "length r \<le> 255" "valid_utf8 r" by simp_all
    let ?n = "length r"
    obtain k z where p: "build_bye ssrc (Some r) = [0x81, PT_BYE] @ be_bytes 2 (of_nat k :: u16)
         @ be_bytes 4 ssrc @ [of_nat ?n] @ octets_of r @ replicate z 0"
      and small: "k < 2 ^ 16" and d: "9 + ?n + z = (k + 1) * 4"
      by (rule bye_layout [OF r(1)])
    have hd: "?p ! 0 = 0x81" "?p ! 1 = PT_BYE" "length ?p = 9 + ?n + z" "slice 4 8 ?p = be_bytes 4 ssrc"
        "slice 2 4 ?p = be_bytes 2 (of_nat k :: u16)" "?p ! 8 = of_nat ?n"
        "slice 9 (9 + ?n) ?p = octets_of r"
      by (simp_all add: Some p slice_def nth_append)
    have wf: "well_framed ?p"
      using small d by (simp add: well_framed_def hd rc_octets unat_of_nat del: build_item.simps)
    have n: "unat (of_nat ?n :: u8) = ?n" using r(1) by (simp add: unat_of_nat)
    have "bye_ssrcs ?p 4 1 = ([ssrc], 8)" using hd by (simp del: build_item.simps)
    then show ?thesis
      using wf by (simp add: parse_one_def hd [unfolded Some] hd [unfolded Some One_nat_def] rc_octets pts Let_def Some n
          from_utf8_lossy_valid [OF r(2)] del: build_item.simps)
  qed
  then show "well_framed ?p" "parse_one ?p = Some (Bye [ssrc] reason)" by simp_all
qed

lemma item_parses:
  assumes "item_ok it"
  shows "well_framed (build_item it)" and "parse_one (build_item it) = Some (seen_item it)"
  using assms
  by (cases it; simp add: sr_item sr_rb_item rr_item sdes_item bye_item del: build_item.simps)+

interpretation rtcp_codec: wire_codec build_item "\<lambda>bs. ok_or (if well_framed bs then
    (case parse_one bs of
       Some (SenderReport sr []) \<Rightarrow> Some (ItemSr sr) | Some (SenderReport sr [rb]) \<Rightarrow> Some (ItemSrRb sr rb)
     | Some (ReceiverReport s [rb]) \<Rightarrow> Some (ItemRr s rb)
     | Some (SourceDescription [c]) \<Rightarrow> map_option (ItemSdes (sc_ssrc c)) (sc_cname c)
     | Some (Bye [s] r) \<Rightarrow> Some (ItemBye s r) | _ \<Rightarrow> None) else None)" item_ok
proof unfold_locales
  fix v assume "item_ok v"
  from item_parses [OF this] show "ok_or (if well_framed (build_item v) then
    (case parse_one (build_item v) of
       Some (SenderReport sr []) \<Rightarrow> Some (ItemSr sr) | Some (SenderReport sr [rb]) \<Rightarrow> Some (ItemSrRb sr rb)
     | Some (ReceiverReport s [rb]) \<Rightarrow> Some (ItemRr s rb)
     | Some (SourceDescription [c]) \<Rightarrow> map_option (ItemSdes (sc_ssrc c)) (sc_cname c)
     | Some (Bye [s] r) \<Rightarrow> Some (ItemBye s r) | _ \<Rightarrow> None) else None) = Inr v"
    by (cases v) (simp_all del: build_item.simps)
qed

text \<open>Result.
  Whatever reports, descriptions and goodbyes the engine concatenates into one compound datagram
  (loss counts within the 24-bit signed field, names of at most 255 bytes of UTF-8), the compound
  parser returns exactly those packets in order, with every field, sign-extended loss counts and
  names intact.\<close>

theorem rtcp_compound_roundtrip:
  assumes "list_all item_ok its"
  shows "parse_compound (build_compound (map build_item its)) = map seen_item its"
  using assms
  by (induction its) (simp_all add: build_compound_def parse_compound_framed item_parses del: build_item.simps)

definition sample_rb :: report_block where
  "sample_rb = \<lparr> rb_ssrc = 7, rb_fraction_lost = 12, rb_cumulative_lost = - 3, rb_extended_highest_seq = 70000,
     rb_jitter = 9, rb_last_sr = 5, rb_delay_since_last_sr = 6 \<rparr>"

lemma sample_rb_ok: "rb_ok sample_rb"
  by (simp add: rb_ok_def sample_rb_def)

theorem rtcp_compound_roundtrip_witness:
  "parse_compound (build_compound (map build_item [ItemRr 5 sample_rb, ItemSdes 5 ''a@b'', ItemBye 5 None])) =
     [ReceiverReport 5 [sample_rb], SourceDescription [\<lparr> sc_ssrc = 5, sc_cname = Some ''a@b'' \<rparr>], Bye [5] None]"
  using rtcp_compound_roundtrip [of "[ItemRr 5 sample_rb, ItemSdes 5 ''a@b'', ItemBye 5 None]"]
  by (simp add: sample_rb_ok del: build_item.simps)

section \<open>Robustness\<close>

text \<open>Result.
  The compound parser is total and never reads past the datagram: a datagram that starts with
  well-framed packets yields what they yield, however it continues, and it never yields more
  packets than the datagram has 32-bit words.\<close>

theorem parse_compound_robust:
  assumes "list_all well_framed ps"
  shows "parse_compound (concat ps @ junk) =
      concat (map (\<lambda>p. case parse_one p of Some x \<Rightarrow> [x] | None \<Rightarrow> []) ps) @ parse_compound junk \<and>
    4 * length (parse_compound junk) \<le> length junk"
proof (intro conjI)
  show "parse_compound (concat ps @ junk) =
      concat (map (\<lambda>p. case parse_one p of Some x \<Rightarrow> [x] | None \<Rightarrow> []) ps) @ parse_compound junk"
    using assms by (induction ps) (simp_all add: parse_compound_framed)
  show "4 * length (parse_compound junk) \<le> length junk"
  proof (induction junk rule: parse_compound.induct)
    case (1 rest)
    let ?len = "(unat (from_be (slice 2 4 rest) :: u16) + 1) * 4"
    show ?case
    proof (cases "length rest < 4 \<or> drop_bit 6 (rest ! 0) \<noteq> 2 \<or> ?len > length rest")
      case True
      then show ?thesis by (subst parse_compound.simps) (auto simp: Let_def)
    next
      case False
      then have "4 * length (parse_compound (drop ?len rest)) \<le> length (drop ?len rest)"
        using 1 by (simp add: Let_def)
      with False show ?thesis
        by (subst parse_compound.simps) (auto simp: Let_def split: option.split)
    qed
  qed
qed

theorem parse_compound_robust_witness:
  "parse_compound (build_bye 5 None @ [0x80, 200, 0, 99]) = [Bye [5] None]"
proof -
  have "well_framed (build_bye 5 None)" "parse_one (build_bye 5 None) = Some (Bye [5] None)"
    using item_parses [of "ItemBye 5 None"] by simp_all
  moreover have "parse_compound [0x80, 200, 0, 99] = []" by code_simp
  ultimately show ?thesis using parse_compound_robust [of "[build_bye 5 None]" "[0x80, 200, 0, 99]"] by simp
qed

section \<open>Round-trip time\<close>

text \<open>Result.
  The round-trip time is exact across the wrap-around of the 32-bit clock: if the block echoes our
  report sent at \<open>last_sr\<close> (not 0), the peer held it for \<open>dlsr\<close> and the network took
  \<open>rtt\<close> ticks of 1/65536 s, less than nine hours, the result is that time in microseconds, rounded
  down; a negative difference is rejected.\<close>

theorem round_trip_time_exact:
  assumes "rb_last_sr rb \<noteq> 0"
  shows "round_trip_time (rb_last_sr rb + rb_delay_since_last_sr rb + rtt) rb =
    (if unat rtt < 2 ^ 31 then Some (1000 * (unat rtt * 1000000 div 65536)) else None)"
proof -
  have "rtt AND 0x80000000 = 0 \<longleftrightarrow> \<not> bit rtt 31"
  proof -
    have "(0x80000000 :: u32) = 2 ^ 31" by simp
    then show ?thesis using and_exp_eq_0_iff_not_bit [of rtt 31] by (simp only:)
  qed
  also have "\<dots> \<longleftrightarrow> unat rtt < 2 ^ 31"
  proof -
    have "unat rtt < 2 * 2 ^ 31" using unsigned_less [of rtt] by simp
    then have "unat rtt div 2 ^ 31 < 2" by (simp add: less_mult_imp_div_less)
    then have "unat rtt div 2 ^ 31 = 0 \<or> unat rtt div 2 ^ 31 = 1" by linarith
    moreover have "bit rtt 31 = odd (unat rtt div 2 ^ 31)"
      using bit_unsigned_iff [where ?'a = nat and w = rtt and n = 31] bit_iff_odd [of "unat rtt" 31] by simp
    ultimately show ?thesis by (auto simp: div_eq_0_iff)
  qed
  finally show ?thesis
    using assms by (simp add: round_trip_time_def Let_def)
qed

theorem round_trip_time_exact_witness:
  "round_trip_time (rb_last_sr sample_rb + rb_delay_since_last_sr sample_rb + 65536) sample_rb = Some 1000000000"
  using round_trip_time_exact [of sample_rb 65536] by (simp add: sample_rb_def)

end
