(* ===== verification/Rtp_Stats.thy ===== *)
theory Rtp_Stats
  imports Rtp Rtcp "HOL-Library.Signed_Division"
begin

text \<open>
  Reception statistics (\<^verbatim>\<open>smiths-media/src/rtp_stats.rs\<close>): the per-stream counters,
  sequence-wrap tracking, interarrival jitter, the snapshot with its loss figures, and the
  fraction-lost tracker of the report blocks. The monotonic clock is an argument of the operations
  that read it, in nanoseconds since the stream's epoch.
\<close>

section \<open>Model\<close>

definition NEVER :: u64 where "NEVER = - 1"

record stream_stats =
  st_clock_rate :: u32
  st_packets :: u64
  st_octets :: u64
  st_last_seq :: u32
  st_max_seq :: u32
  st_base_seq :: u32
  st_cycles :: u32
  st_seen_first :: bool
  st_last_rtp_ts :: u32
  st_last_ssrc :: u32
  st_jitter_x16 :: u32
  st_prev_arrival_ns :: u64
  st_prev_rtp_ts :: u32
  st_last_sr_ntp_mid :: u32
  st_last_sr_arrival_ns :: u64
  st_peer_reports :: u64
  st_peer_fraction_lost :: u32
  st_peer_cumulative_lost :: u32
  st_peer_jitter :: u32
  st_peer_rtt_us :: u64

definition stats_new :: "u32 \<Rightarrow> stream_stats" where
  "stats_new clock_rate =
     \<lparr> st_clock_rate = max clock_rate 1, st_packets = 0, st_octets = 0, st_last_seq = 0, st_max_seq = 0,
       st_base_seq = 0, st_cycles = 0, st_seen_first = False, st_last_rtp_ts = 0, st_last_ssrc = 0,
       st_jitter_x16 = 0, st_prev_arrival_ns = NEVER, st_prev_rtp_ts = 0, st_last_sr_ntp_mid = 0,
       st_last_sr_arrival_ns = NEVER, st_peer_reports = 0, st_peer_fraction_lost = 0,
       st_peer_cumulative_lost = 0, st_peer_jitter = 0, st_peer_rtt_us = NEVER \<rparr>"

text \<open>Wrap tracking: the maximum moves on a positive difference, a cycle is counted on a large
  negative one.\<close>

definition track_seq :: "stream_stats \<Rightarrow> u16 \<Rightarrow> stream_stats" where
  "track_seq s sq =
     (let seq_u32 = ucast sq :: u32
      in if \<not> st_seen_first s then
           s\<lparr> st_seen_first := True, st_base_seq := seq_u32, st_max_seq := seq_u32 \<rparr>
         else
           (let prev_low = ucast (st_max_seq s AND 0xFFFF) :: u16;
                diff = int (unat sq) - int (unat prev_low)
            in if diff > 0 then s\<lparr> st_max_seq := push_bit 16 (st_cycles s) OR seq_u32 \<rparr>
               else if diff < - 0x8000 then
                 (let cycles = st_cycles s + 1
                  in s\<lparr> st_cycles := cycles, st_max_seq := push_bit 16 cycles OR seq_u32 \<rparr>)
               else s))"

definition jitter_step :: "u32 \<Rightarrow> u32 \<Rightarrow> u32" where
  "jitter_step prev_j16 d =
     (let d_x16 = saturating_mul d 16;
          delta = (int (unat d_x16) - int (unat prev_j16)) sdiv 16;
          j = int (unat prev_j16) + delta
      in of_int (max 0 (min (2 ^ 32 - 1) j)))"

definition update_jitter :: "stream_stats \<Rightarrow> u32 \<Rightarrow> u64 \<Rightarrow> stream_stats" where
  "update_jitter s rtp_ts now_ns =
     (let prev_arrival = st_prev_arrival_ns s; prev_ts = st_prev_rtp_ts s;
          s1 = s\<lparr> st_prev_arrival_ns := now_ns, st_prev_rtp_ts := rtp_ts \<rparr>
      in if prev_arrival = NEVER then s1
         else
           (let arrival_delta_ns = saturating_sub now_ns prev_arrival;
                ticks = unat arrival_delta_ns * unat (st_clock_rate s) div 1000000000;
                arrival_ticks = (if ticks < 2 ^ 32 then of_nat ticks else - 1) :: u32;
                ts_delta = rtp_ts - prev_ts;
                d = abs_diff arrival_ticks ts_delta
            in s1\<lparr> st_jitter_x16 := jitter_step (st_jitter_x16 s) d \<rparr>))"

definition observe_header :: "stream_stats \<Rightarrow> rtp_header \<Rightarrow> u64 \<Rightarrow> stream_stats" where
  "observe_header s h now_ns =
     (let s1 = s\<lparr> st_packets := st_packets s + 1,
                  st_octets := st_octets s + of_nat (rh_payload_end h - rh_payload_start h) \<rparr>;
          s2 = track_seq s1 (rh_sequence h);
          s3 = s2\<lparr> st_last_seq := ucast (rh_sequence h), st_last_rtp_ts := rh_timestamp h,
                   st_last_ssrc := rh_ssrc h \<rparr>
      in update_jitter s3 (rh_timestamp h) now_ns)"

definition observe :: "stream_stats \<Rightarrow> octets \<Rightarrow> u64 \<Rightarrow> stream_stats" where
  "observe s packet now_ns =
     (case rtp_parse packet of Some h \<Rightarrow> observe_header s h now_ns | None \<Rightarrow> s)"

definition record_sender_report :: "stream_stats \<Rightarrow> u64 \<Rightarrow> u64 \<Rightarrow> stream_stats" where
  "record_sender_report s ntp_ts now_ns =
     s\<lparr> st_last_sr_ntp_mid := ntp_middle ntp_ts, st_last_sr_arrival_ns := now_ns \<rparr>"

definition record_peer_report :: "stream_stats \<Rightarrow> report_block \<Rightarrow> duration option \<Rightarrow> stream_stats" where
  "record_peer_report s rb rtt =
     (let s1 = s\<lparr> st_peer_reports := st_peer_reports s + 1, st_peer_fraction_lost := ucast (rb_fraction_lost rb),
                  st_peer_cumulative_lost := rb_cumulative_lost rb, st_peer_jitter := rb_jitter rb \<rparr>
      in case rtt of
           None \<Rightarrow> s1
         | Some d \<Rightarrow> s1\<lparr> st_peer_rtt_us := (if d div 1000 < 2 ^ 64 then of_nat (d div 1000) else NEVER - 1) \<rparr>)"

record stats_snapshot =
  ss_packets :: u64
  ss_octets :: u64
  ss_max_seq :: u32
  ss_expected :: u64
  ss_last_rtp_ts :: u32
  ss_last_ssrc :: u32
  ss_jitter :: u32
  ss_cumulative_lost :: "32 word"
  ss_last_sr :: u32
  ss_last_sr_age :: "duration option"
  ss_peer_reports :: u64
  ss_peer_fraction_lost :: u8
  ss_peer_cumulative_lost :: "32 word"
  ss_peer_jitter :: u32
  ss_peer_rtt :: "duration option"

text \<open>\<^verbatim>\<open>i64\<close> saturation.\<close>

definition sat64 :: "int \<Rightarrow> int" where
  "sat64 x = max (- (2 ^ 63)) (min (2 ^ 63 - 1) x)"

definition expected_packets :: "stream_stats \<Rightarrow> int" where
  "expected_packets s =
     (if st_seen_first s
      then max 0 (sat64 (sat64 (int (unat (st_max_seq s)) - int (unat (st_base_seq s))) + 1)) else 0)"

definition snapshot :: "stream_stats \<Rightarrow> u64 \<Rightarrow> stats_snapshot" where
  "snapshot s now_ns =
     (let expected = expected_packets s
      in \<lparr> ss_packets = st_packets s, ss_octets = st_octets s, ss_max_seq = st_max_seq s,
           ss_expected = of_int expected, ss_last_rtp_ts = st_last_rtp_ts s, ss_last_ssrc = st_last_ssrc s,
           ss_jitter = st_jitter_x16 s div 16,
           ss_cumulative_lost = of_int (max 0 (sat64 (expected - sint (st_packets s)))),
           ss_last_sr = st_last_sr_ntp_mid s,
           ss_last_sr_age = (if st_last_sr_arrival_ns s \<noteq> NEVER
              then Some (unat (saturating_sub now_ns (st_last_sr_arrival_ns s))) else None),
           ss_peer_reports = st_peer_reports s, ss_peer_fraction_lost = ucast (st_peer_fraction_lost s AND 0xFF),
           ss_peer_cumulative_lost = st_peer_cumulative_lost s, ss_peer_jitter = st_peer_jitter s,
           ss_peer_rtt = (if st_peer_rtt_us s \<noteq> NEVER then Some (1000 * unat (st_peer_rtt_us s)) else None) \<rparr>)"

record interval_loss =
  il_expected_prior :: u64
  il_received_prior :: u64

definition fraction_lost :: "interval_loss \<Rightarrow> stats_snapshot \<Rightarrow> interval_loss \<times> u8" where
  "fraction_lost il snap =
     (let expected_interval = saturating_sub (ss_expected snap) (il_expected_prior il);
          received_interval = saturating_sub (ss_packets snap) (il_received_prior il);
          il' = \<lparr> il_expected_prior = ss_expected snap, il_received_prior = ss_packets snap \<rparr>
      in if expected_interval = 0 \<or> received_interval \<ge> expected_interval then (il', 0)
         else let lost = expected_interval - received_interval;
                  f = lost * 256 div expected_interval
              in (il', if f < 256 then ucast f else - 1))"

section \<open>Sequence tracking\<close>

text \<open>True sequence numbers are unbounded; the wire carries them modulo \<open>2^16\<close>.\<close>

definition tracks :: "stream_stats \<Rightarrow> nat \<Rightarrow> nat \<Rightarrow> bool" where
  "tracks s n0 M \<longleftrightarrow> st_seen_first s \<and> unat (st_base_seq s) = n0 \<and> unat (st_max_seq s) = M \<and>
     unat (st_cycles s) = M div 65536"

lemma unat_cycle_join:
  fixes c :: u32 and q :: u16
  assumes "unat c < 65536"
  shows "unat (push_bit 16 c OR ucast q :: u32) = unat c * 65536 + unat q"
proof -
  have q: "unat q < 65536" using unsigned_less [of q] by simp
  have "\<not> bit (push_bit 16 c) n \<or> \<not> bit (ucast q :: u32) n" for n
    by (auto simp: bit_simps dest: bit_imp_le_length)
  then have "push_bit 16 c OR ucast q = push_bit 16 c + (ucast q :: u32)"
    by (simp add: disjunctive_add)
  moreover have "unat (push_bit 16 c) = unat c * 65536"
    using assms by (simp add: push_bit_eq_mult unat_word_ariths)
  moreover have "unat (ucast q :: u32) = unat q"
    using q by (simp add: unsigned_ucast_eq take_bit_nat_eq_self)
  ultimately show ?thesis
    using assms q by (simp add: unat_word_ariths)
qed

lemma unat_low_half:
  fixes w :: u32
  shows "unat (ucast (w AND 0xFFFF) :: u16) = unat w mod 65536"
proof -
  have "(0xFFFF :: u32) = mask 16" by (simp add: mask_eq_exp_minus_1)
  then have "w AND 0xFFFF = take_bit 16 w" by (simp only: take_bit_eq_mask)
  then show ?thesis by (simp add: unsigned_ucast_eq take_bit_eq_mod unat_mod)
qed

text \<open>An arrival is orderly when it moves less than half the sequence space forward, or is late
  within the current cycle by at most half of it.\<close>

definition orderly_step :: "nat \<Rightarrow> nat \<Rightarrow> bool" where
  "orderly_step M m \<longleftrightarrow> (M < m \<and> m \<le> M + 32767 \<and> m < 2 ^ 32) \<or>
     (m \<le> M \<and> m div 65536 = M div 65536 \<and> M - m \<le> 32768)"

fun orderly :: "nat \<Rightarrow> nat list \<Rightarrow> bool" where
  "orderly M [] = True"
| "orderly M (m # ms) = (orderly_step M m \<and> orderly (max M m) ms)"

lemma track_seq_step:
  assumes t: "tracks s n0 M" and o: "orderly_step M m" and M: "M < 2 ^ 32"
  shows "tracks (track_seq s (of_nat m)) n0 (max M m)"
proof -
  let ?q = "of_nat m :: u16"
  have q: "unat ?q = m mod 65536" by (simp add: unat_of_nat)
  have "unat (ucast (st_max_seq s AND 0xFFFF) :: u16) = M mod 65536"
    using t by (simp add: unat_low_half tracks_def)
  then have low: "uint (ucast (st_max_seq s AND 0xFFFF) :: u16) = int (M mod 65536)"
    by (metis of_nat_unat)
  have cyc: "unat (st_cycles s) = M div 65536" and seen: "st_seen_first s" using t by (simp_all add: tracks_def)
  have c16: "M div 65536 < 65536" using M by (simp add: less_mult_imp_div_less)
  let ?diff = "int (m mod 65536) - int (M mod 65536)"
  consider (fwd) "M < m" "m div 65536 = M div 65536" | (wrap) "M < m" "m div 65536 = Suc (M div 65536)"
    | (late) "m \<le> M" "m div 65536 = M div 65536" "M - m \<le> 32768"
  proof -
    have "m div 65536 \<le> Suc (M div 65536)" if "m \<le> M + 32767"
    proof -
      have "m div 65536 \<le> (M + 65536) div 65536" using that by (intro div_le_mono) simp
      then show ?thesis by simp
    qed
    moreover have "M div 65536 \<le> m div 65536" if "M < m" using that by (intro div_le_mono) simp
    ultimately show thesis using o that unfolding orderly_step_def by (metis le_SucE le_antisym)
  qed
  then show ?thesis
  proof cases
    case fwd
    have "M mod 65536 < m mod 65536"
      using fwd div_mult_mod_eq [of m "65536"] div_mult_mod_eq [of M "65536"] by linarith
    moreover have "unat (push_bit 16 (st_cycles s) OR ucast ?q) = m"
      using c16 cyc fwd(2) div_mult_mod_eq [of m "65536"] by (simp add: unat_cycle_join q)
    ultimately show ?thesis
      using t fwd by (simp add: track_seq_def Let_def seen q low tracks_def max_def)
  next
    case wrap
    have m: "m < 2 ^ 32" "m \<le> M + 32767" using o wrap(1) by (auto simp: orderly_step_def)
    have "?diff < - 32768"
      using wrap m(2) div_mult_mod_eq [of m "65536"] div_mult_mod_eq [of M "65536"] by linarith
    moreover have "unat (st_cycles s + 1) = m div 65536"
      using wrap(2) cyc c16 by (simp add: unat_word_ariths)
    moreover from this have "unat (push_bit 16 (st_cycles s + 1) OR ucast ?q) = m"
      using m(1) div_mult_mod_eq [of m "65536"]
      by (subst unat_cycle_join) (simp_all add: q less_mult_imp_div_less)
    ultimately show ?thesis
      using t wrap by (simp add: track_seq_def Let_def seen q low tracks_def max_def)
  next
    case late
    have "?diff \<le> 0" "- 32768 \<le> ?diff"
      using late div_mult_mod_eq [of m "65536"] div_mult_mod_eq [of M "65536"] by linarith+
    then show ?thesis using t late by (simp add: track_seq_def Let_def seen q low tracks_def max_def)
  qed
qed

lemma track_seq_first:
  "n0 < 65536 \<Longrightarrow> \<not> st_seen_first s \<Longrightarrow> st_cycles s = 0 \<Longrightarrow> tracks (track_seq s (of_nat n0)) n0 n0"
  by (simp add: track_seq_def tracks_def Let_def unsigned_ucast_eq unat_of_nat take_bit_nat_eq_self)

text \<open>The other bookkeeping of an observation leaves the tracked fields alone.\<close>

lemma observe_header_fields:
  "st_seen_first (observe_header s h t) = st_seen_first (track_seq s (rh_sequence h))"
  "st_base_seq (observe_header s h t) = st_base_seq (track_seq s (rh_sequence h))"
  "st_max_seq (observe_header s h t) = st_max_seq (track_seq s (rh_sequence h))"
  "st_cycles (observe_header s h t) = st_cycles (track_seq s (rh_sequence h))"
  "st_packets (observe_header s h t) = st_packets s + 1"
  by (auto simp: observe_header_def update_jitter_def track_seq_def Let_def)

definition observe_all :: "stream_stats \<Rightarrow> (rtp_header \<times> u64) list \<Rightarrow> stream_stats" where
  "observe_all s arrivals = foldl (\<lambda>s (h, t). observe_header s h t) s arrivals"

lemma observe_all_tracks:
  assumes "tracks s n0 M" and "M < 2 ^ 32" and "orderly M ms"
    and "map (\<lambda>(h, t). rh_sequence h) arrivals = map of_nat ms"
  shows "tracks (observe_all s arrivals) n0 (foldl max M ms) \<and> foldl max M ms < 2 ^ 32 \<and>
    st_packets (observe_all s arrivals) = st_packets s + of_nat (length ms)"
  using assms
proof (induction ms arbitrary: s M arrivals)
  case (Cons m ms)
  then obtain h t rest where a: "arrivals = (h, t) # rest" "rh_sequence h = of_nat m"
      "map (\<lambda>(h, t). rh_sequence h) rest = map of_nat ms"
    by (cases arrivals) auto
  have "tracks (track_seq s (of_nat m)) n0 (max M m)" using Cons.prems by (intro track_seq_step) auto
  then have "tracks (observe_header s h t) n0 (max M m)"
    unfolding tracks_def observe_header_fields a(2) .
  moreover have "max M m < 2 ^ 32" using Cons.prems(2,3) by (auto simp: orderly_step_def)
  ultimately show ?case
    using Cons.IH [of "observe_header s h t" "max M m" rest] Cons.prems(3) a
    by (simp add: observe_all_def observe_header_fields)
qed (simp add: observe_all_def)

lemma foldl_max_ge: "a \<le> foldl max a xs" for a :: nat
  by (induction xs arbitrary: a) (simp, metis foldl_Cons max.bounded_iff)

lemma sint_of_int_small:
  "- (2 ^ (LENGTH('a) - 1)) \<le> k \<Longrightarrow> k < 2 ^ (LENGTH('a) - 1) \<Longrightarrow> sint (of_int k :: 'a::len word) = k"
  by (simp add: signed_of_int signed_take_bit_int_eq_self)

text \<open>Property C13.
  For every orderly stream (gaps of less than half the sequence space, reordering within a wrap
  cycle), across any number of 16-bit wraps while the extended number and the packets stay below 2^31 (the
  signed 32-bit limit of the loss counter), the extended maximum is the
  true highest sequence number, the expected count is the true span, and the cumulative loss is
  the span minus the packets received, clamped at zero.\<close>

theorem stats_track_stream:
  fixes rate :: u32 and now :: u64
  assumes "n0 < 65536" and "orderly n0 ms" and "map (\<lambda>(h, t). rh_sequence h) arrivals = map of_nat (n0 # ms)"
    and "foldl max n0 ms < 2 ^ 31" and "length ms < 2 ^ 31"
  defines "snap \<equiv> snapshot (observe_all (stats_new rate) arrivals) now"
  shows "unat (ss_max_seq snap) = foldl max n0 ms \<and>
    unat (ss_expected snap) = foldl max n0 ms - n0 + 1 \<and>
    sint (ss_cumulative_lost snap) = max 0 (int (foldl max n0 ms - n0 + 1) - int (length ms + 1))"
proof -
  let ?M = "foldl max n0 ms" and ?s = "observe_all (stats_new rate) arrivals"
  obtain h t rest where a: "arrivals = (h, t) # rest" "rh_sequence h = of_nat n0"
      "map (\<lambda>(h, t). rh_sequence h) rest = map of_nat ms"
    using assms(3) by (cases arrivals) auto
  let ?s1 = "observe_header (stats_new rate) h t"
  have "tracks (track_seq (stats_new rate) (of_nat n0)) n0 n0"
    using assms(1) by (intro track_seq_first) (simp_all add: stats_new_def)
  then have "tracks ?s1 n0 n0" unfolding tracks_def observe_header_fields a(2) .
  from observe_all_tracks [OF this _ assms(2) a(3)] assms(1)
  have T: "tracks ?s n0 ?M" and p: "st_packets ?s = of_nat (length ms + 1)"
    by (simp_all add: a(1) observe_all_def observe_header_fields stats_new_def)
  have ge: "n0 \<le> ?M" by (rule foldl_max_ge)
  have "sint (st_packets ?s) = int (length ms + 1)"
    using assms(5) sint_of_int_small [where ?'a = 64, of "int (length ms + 1)"] by (simp add: p)
  moreover have "expected_packets ?s = int (?M - n0 + 1)"
    using T ge assms(4) by (simp add: expected_packets_def tracks_def sat64_def)
  moreover have "unat (of_int (int (?M - n0 + 1)) :: u64) = ?M - n0 + 1"
    using assms(4) by (simp only: of_int_of_nat_eq unat_of_nat) simp
  moreover have "sint (of_int (max 0 (int (?M - n0 + 1) - int (length ms + 1))) :: 32 word) =
      max 0 (int (?M - n0 + 1) - int (length ms + 1))"
    using assms(4) by (intro sint_of_int_small) simp_all
  moreover have "sat64 (int (?M - n0 + 1) - int (length ms + 1)) = int (?M - n0 + 1) - int (length ms + 1)"
    using assms(4,5) by (simp add: sat64_def)
  ultimately show ?thesis
    using T unfolding snap_def snapshot_def Let_def tracks_def by simp
qed

definition sample_header :: "u16 \<Rightarrow> rtp_header" where
  "sample_header sq = \<lparr> rh_marker = False, rh_payload_type = 0, rh_sequence = sq, rh_timestamp = 0, rh_ssrc = 1,
     rh_csrc_count = 0, rh_has_extension = False, rh_payload_start = 12, rh_payload_end = 172 \<rparr>"

theorem stats_track_stream_witness:
  "sint (ss_cumulative_lost (snapshot (observe_all (stats_new 8000)
      [(sample_header 65535, 0), (sample_header 3, 1), (sample_header 2, 2)]) 9)) = 2"
proof -
  have "orderly 65535 [65539, 65538]" by (simp add: orderly_step_def)
  with stats_track_stream [of 65535 "[65539, 65538]"
      "[(sample_header 65535, 0), (sample_header 3, 1), (sample_header 2, 2)]" 8000 9]
  show ?thesis by (simp add: sample_header_def)
qed

text \<open>Result.
  Reordering across a wrap is not tracked: four consecutive packets, 65534, 65536, 65535, 65537
  with the middle two swapped on the way, none lost and none duplicated, leave the maximum one
  full cycle too high and report 65536 packets lost.\<close>

theorem stats_wrap_reorder_inflates_loss:
  "map (\<lambda>(h, t). rh_sequence h) arrivals = map of_nat [65534, 65536, 65535, 65537 :: nat] \<longrightarrow>
    unat (ss_max_seq (snapshot (observe_all (stats_new rate) arrivals) now)) = 65537 + 65536 \<and>
    sint (ss_cumulative_lost (snapshot (observe_all (stats_new rate) arrivals) now)) = 65536"
proof
  assume seqs: "map (\<lambda>(h, t). rh_sequence h) arrivals = map of_nat [65534, 65536, 65535, 65537 :: nat]"
  then obtain h1 t1 h2 t2 h3 t3 h4 t4 where a: "arrivals = [(h1, t1), (h2, t2), (h3, t3), (h4, t4)]"
    and q: "rh_sequence h1 = 65534" "rh_sequence h2 = 0" "rh_sequence h3 = 65535" "rh_sequence h4 = 1"
    by (auto simp: map_eq_Cons_conv)
  let ?s = "observe_all (stats_new rate) arrivals"
  have m: "st_seen_first ?s" "st_base_seq ?s = 65534" "st_max_seq ?s = 131073" "st_packets ?s = 4"
    by (simp_all add: a observe_all_def observe_header_fields stats_new_def q track_seq_def Let_def)
  then have "expected_packets ?s = 65540" by (simp add: expected_packets_def sat64_def)
  with m show "unat (ss_max_seq (snapshot ?s now)) = 65537 + 65536 \<and>
      sint (ss_cumulative_lost (snapshot ?s now)) = 65536"
    by (simp add: snapshot_def Let_def sat64_def)
qed

theorem stats_wrap_reorder_inflates_loss_witness:
  "sint (ss_cumulative_lost (snapshot (observe_all (stats_new 8000)
      [(sample_header 65534, 0), (sample_header 0, 1), (sample_header 65535, 2), (sample_header 1, 3)]) 9)) = 65536"
  using stats_wrap_reorder_inflates_loss [of "[(sample_header 65534, 0), (sample_header 0, 1), (sample_header 65535, 2), (sample_header 1, 3)]"]
  by (simp add: sample_header_def)

section \<open>Jitter and interval loss\<close>

lemma sdiv_toward_zero:
  "(x - y) sdiv 16 = (if y \<le> x then (x - y) div 16 else - ((y - x) div 16))" for x y :: int
  by (auto simp: signed_divide_int_def sgn_if)

text \<open>Result.
  The jitter filter moves one sixteenth of the way toward the new sample (rounded toward the old
  value) and never overshoots it: the fixed-point arithmetic, the saturation of the sample and the
  clamp lose nothing, for all 32-bit inputs.\<close>

theorem jitter_step_converges:
  fixes prev d :: u32
  defines "x \<equiv> min (16 * unat d) (2 ^ 32 - 1)" and "y \<equiv> unat prev"
  shows "unat (jitter_step prev d) = (if y \<le> x then y + (x - y) div 16 else y - (y - x) div 16) \<and>
    min x y \<le> unat (jitter_step prev d) \<and> unat (jitter_step prev d) \<le> max x y"
proof -
  have y: "y < 2 ^ 32" using unsigned_less [of prev] by (simp add: y_def)
  have x: "x < 2 ^ 32" by (simp add: x_def)
  let ?j = "if y \<le> x then y + (x - y) div 16 else y - (y - x) div 16"
  have le: "?j \<le> max x y" "min x y \<le> ?j" by auto
  have "max x y < 2 ^ 32" using x y by simp
  with le(1) have small: "?j < 2 ^ 32" by (rule order_le_less_trans)
  have sample: "unat (saturating_mul d 16) = x" by (simp add: unat_saturating_mul x_def mult.commute)
  have "int y + (int x - int y) sdiv 16 = int ?j"
    unfolding sdiv_toward_zero by (auto simp: zdiv_int of_nat_diff)
  then have "jitter_step prev d = of_int (max 0 (min (2 ^ 32 - 1) (int ?j)))"
    unfolding jitter_step_def Let_def sample y_def by simp
  moreover have "max 0 (min (2 ^ 32 - 1) (int ?j)) = int ?j" using small by simp
  ultimately have "unat (jitter_step prev d) = ?j"
    using small by (simp only: of_int_of_nat_eq unat_of_nat) simp
  with le show ?thesis by simp
qed

text \<open>Result.
  The fraction lost of a report block is exactly the interval's lost share in 256ths, rounded down
  and capped at 255, zero when duplicates outnumber losses; nothing overflows, and the next
  interval starts where this one ended.\<close>

theorem fraction_lost_exact:
  assumes "unat (il_expected_prior il) \<le> unat (ss_expected snap)" and "unat (ss_expected snap) < 2 ^ 56"
    and "unat (il_received_prior il) \<le> unat (ss_packets snap)"
  defines "expected \<equiv> unat (ss_expected snap) - unat (il_expected_prior il)"
    and "received \<equiv> unat (ss_packets snap) - unat (il_received_prior il)"
  shows "unat (snd (fraction_lost il snap)) = (if expected \<le> received then 0 else min 255 ((expected - received) * 256 div expected)) \<and>
    fst (fraction_lost il snap) = \<lparr> il_expected_prior = ss_expected snap, il_received_prior = ss_packets snap \<rparr>"
proof -
  let ?e = "saturating_sub (ss_expected snap) (il_expected_prior il)"
  let ?r = "saturating_sub (ss_packets snap) (il_received_prior il)"
  have e: "unat ?e = expected" and r: "unat ?r = received"
    by (simp_all add: unat_saturating_sub expected_def received_def)
  show ?thesis
  proof (cases "expected \<le> received")
    case True
    then have "?e = 0 \<or> ?e \<le> ?r" by (simp add: word_le_nat_alt e r)
    with True show ?thesis by (auto simp: fraction_lost_def Let_def)
  next
    case False
    then have cond: "\<not> (?e = 0 \<or> ?e \<le> ?r)" by (auto simp: word_le_nat_alt e r unat_eq_0 [symmetric])
    define lost where "lost = ?e - ?r"
    have lost: "unat lost = expected - received"
      using cond unfolding lost_def by (simp add: unat_sub word_le_nat_alt e r)
    have "expected < 2 ^ 56" using assms(2) by (simp add: expected_def)
    then have "unat (lost * 256) = (expected - received) * 256" by (simp add: unat_word_ariths lost)
    then have f: "unat (lost * 256 div ?e) = (expected - received) * 256 div expected"
      by (simp add: unat_div e)
    have "(expected - received) * 256 div expected \<le> 256"
      using False by (metis diff_le_self div_le_mono mult.commute mult_le_mono2 nonzero_mult_div_cancel_left not_gr_zero zero_le)
    then show ?thesis
      using False cond f unfolding fraction_lost_def Let_def lost_def [symmetric]
      by (auto simp: word_less_nat_alt unsigned_ucast_eq take_bit_nat_eq_self min_def
          unsigned_minus_1_eq_mask mask_eq_exp_minus_1)
  qed
qed

definition sample_snap :: stats_snapshot where
  "sample_snap = \<lparr> ss_packets = 75, ss_octets = 0, ss_max_seq = 99, ss_expected = 100, ss_last_rtp_ts = 0,
     ss_last_ssrc = 0, ss_jitter = 0, ss_cumulative_lost = 25, ss_last_sr = 0, ss_last_sr_age = None,
     ss_peer_reports = 0, ss_peer_fraction_lost = 0, ss_peer_cumulative_lost = 0, ss_peer_jitter = 0,
     ss_peer_rtt = None \<rparr>"

theorem fraction_lost_exact_witness:
  "unat (snd (fraction_lost \<lparr> il_expected_prior = 0, il_received_prior = 0 \<rparr> sample_snap)) = 64"
  using fraction_lost_exact [of "\<lparr> il_expected_prior = 0, il_received_prior = 0 \<rparr>" sample_snap]
  by (simp add: sample_snap_def)

end
