(* ===== verification/Ip_Text.thy ===== *)
theory Ip_Text
  imports Rust_Str
begin

text \<open>
  The text form of IP addresses as the standard library reads and writes it
  (\<^verbatim>\<open>core::net\<close>): the recursive-descent parser behind
  \<^verbatim>\<open>IpAddr::from_str\<close> and the \<^verbatim>\<open>Display\<close> of both address
  families, with the compression of the longest run of zero groups. An address is its four or
  sixteen octets. The result of the theory is that parsing undoes printing, which the SDP and
  candidate codecs rest on.
\<close>

section \<open>Reading\<close>

text \<open>\<^verbatim>\<open>char::to_digit(radix)\<close> for the radices 10 and 16.\<close>

definition to_digit :: "nat \<Rightarrow> char \<Rightarrow> nat option" where
  "to_digit radix c =
     (let d = (if 48 \<le> code c \<and> code c \<le> 57 then code c - 48
               else if 97 \<le> code c \<and> code c \<le> 122 then code c - 87
               else if 65 \<le> code c \<and> code c \<le> 90 then code c - 55 else 36)
      in if d < radix then Some d else None)"

definition is_digit :: "nat \<Rightarrow> char \<Rightarrow> bool" where
  "is_digit radix c \<longleftrightarrow> to_digit radix c \<noteq> None"

definition digits_nat :: "nat \<Rightarrow> string \<Rightarrow> nat" where
  "digits_nat radix = foldl (\<lambda>v c. radix * v + the (to_digit radix c)) 0"

text \<open>\<^verbatim>\<open>Parser::read_number\<close>: the maximal run of digits, at most \<open>max_digits\<close>
  of them, optionally without a superfluous leading zero, within the target type.\<close>

definition read_number :: "nat \<Rightarrow> nat \<Rightarrow> bool \<Rightarrow> nat \<Rightarrow> string \<Rightarrow> (nat \<times> string) option" where
  "read_number radix max_digits allow_zero_prefix bound s =
     (let ds = takeWhile (is_digit radix) s; v = digits_nat radix ds
      in if ds = [] \<or> length ds > max_digits
            \<or> (\<not> allow_zero_prefix \<and> hd ds = CHR ''0'' \<and> length ds > 1) \<or> v \<ge> bound then None
         else Some (v, drop (length ds) s))"

text \<open>\<^verbatim>\<open>Parser::read_separator\<close>: the separator precedes every element but the
  first.\<close>

definition read_separator :: "char \<Rightarrow> nat \<Rightarrow> (string \<Rightarrow> ('a \<times> string) option) \<Rightarrow> string \<Rightarrow> ('a \<times> string) option" where
  "read_separator sep i inner s =
     (if i = 0 then inner s
      else case s of [] \<Rightarrow> None | c # t \<Rightarrow> if c = sep then inner t else None)"

fun read_v4_groups :: "nat \<Rightarrow> nat \<Rightarrow> string \<Rightarrow> (nat list \<times> string) option" where
  "read_v4_groups 0 i s = Some ([], s)"
| "read_v4_groups (Suc n) i s =
     (case read_separator (CHR ''.'') i (read_number 10 3 False 256) s of
        None \<Rightarrow> None
      | Some (g, s') \<Rightarrow> map_option (\<lambda>(gs, t). (g # gs, t)) (read_v4_groups n (Suc i) s'))"

definition read_ipv4_addr :: "string \<Rightarrow> (nat list \<times> string) option" where
  "read_ipv4_addr s = read_v4_groups 4 0 s"

text \<open>\<^verbatim>\<open>read_groups\<close>: up to \<open>n\<close> colon-separated groups, the last two possibly
  written as an IPv4 address. The flag tells whether they were.\<close>

fun read_groups :: "nat \<Rightarrow> nat \<Rightarrow> string \<Rightarrow> nat list \<times> bool \<times> string" where
  "read_groups 0 i s = ([], False, s)"
| "read_groups (Suc n) i s =
     (case (if 0 < n then read_separator (CHR '':'') i read_ipv4_addr s else None) of
        Some (os, s') \<Rightarrow> ([256 * (os ! 0) + os ! 1, 256 * (os ! 2) + os ! 3], True, s')
      | None \<Rightarrow>
          (case read_separator (CHR '':'') i (read_number 16 4 True 65536) s of
             None \<Rightarrow> ([], False, s)
           | Some (g, s') \<Rightarrow> (let (gs, v4, t) = read_groups n (Suc i) s' in (g # gs, v4, t))))"

definition read_ipv6_addr :: "string \<Rightarrow> (nat list \<times> string) option" where
  "read_ipv6_addr s =
     (let (front, v4, s1) = read_groups 8 0 s
      in if length front = 8 then Some (front, s1)
         else if v4 then None
         else if take 2 s1 = ''::'' then
           (let (back, _, s2) = read_groups (8 - (length front + 1)) 0 (drop 2 s1)
            in Some (front @ replicate (8 - length front - length back) 0 @ back, s2))
         else None)"

definition groups_octets :: "nat list \<Rightarrow> octets" where
  "groups_octets gs = concat (map (\<lambda>g. be_bytes 2 (of_nat g :: u16)) gs)"

text \<open>\<^verbatim>\<open>IpAddr::from_str\<close>.\<close>

definition ip_parse :: "string \<Rightarrow> octets option" where
  "ip_parse s =
     (let whole = (\<lambda>r. if snd r = [] then Some (fst r) else None)
      in case read_ipv4_addr s of
           Some (gs, t) \<Rightarrow> whole (map of_nat gs, t)
         | None \<Rightarrow> (case read_ipv6_addr s of Some (gs, t) \<Rightarrow> whole (groups_octets gs, t) | None \<Rightarrow> None))"

section \<open>Writing\<close>

definition hex_digit :: "nat \<Rightarrow> char" where
  "hex_digit d = char_of (if d < 10 then 48 + d else 87 + d)"

fun show_hex :: "nat \<Rightarrow> string" where
  "show_hex n = (if n < 16 then [hex_digit n] else show_hex (n div 16) @ [hex_digit (n mod 16)])"

declare show_hex.simps [simp del]

fun join :: "string \<Rightarrow> string list \<Rightarrow> string" where
  "join sep [] = []"
| "join sep [x] = x"
| "join sep (x # y # xs) = x @ sep @ join sep (y # xs)"

definition show_v4 :: "octets \<Rightarrow> string" where
  "show_v4 ip = join ''.'' (map (\<lambda>b. show_nat (unat b)) ip)"

definition segments :: "octets \<Rightarrow> nat list" where
  "segments ip = map (\<lambda>i. unat (from_be (slice (2 * i) (2 * i + 2) ip) :: u16)) [0..<8]"

text \<open>The loop over the segments that finds the first longest run of zeroes; the state is the
  longest and the current run, each as start and length.\<close>

definition span_step :: "(nat \<times> nat) \<times> (nat \<times> nat) \<Rightarrow> nat \<times> nat \<Rightarrow> (nat \<times> nat) \<times> (nat \<times> nat)" where
  "span_step st x =
     (let (longest, current) = st; (i, segment) = x
      in if segment = 0 then
           (let current' = (if snd current = 0 then i else fst current, Suc (snd current))
            in (if snd current' > snd longest then current' else longest, current'))
         else (longest, (0, 0)))"

definition longest_zeroes :: "nat list \<Rightarrow> nat \<times> nat" where
  "longest_zeroes segs = fst (foldl span_step ((0, 0), (0, 0)) (enumerate 0 segs))"

definition show_segments :: "nat list \<Rightarrow> string" where
  "show_segments gs = join '':'' (map show_hex gs)"

definition to_ipv4_mapped :: "octets \<Rightarrow> octets option" where
  "to_ipv4_mapped ip =
     (if take 12 ip = [0, 0, 0, 0, 0, 0, 0, 0, 0, 0, 255, 255] then Some (drop 12 ip) else None)"

definition show_v6 :: "octets \<Rightarrow> string" where
  "show_v6 ip =
     (case to_ipv4_mapped ip of
        Some v4 \<Rightarrow> ''::ffff:'' @ show_v4 v4
      | None \<Rightarrow>
          (let segs = segments ip; (start, len) = longest_zeroes segs
           in if 1 < len then show_segments (take start segs) @ ''::'' @ show_segments (drop (start + len) segs)
              else show_segments segs))"

text \<open>\<^verbatim>\<open>Display for IpAddr\<close>.\<close>

definition ip_show :: "octets \<Rightarrow> string" where
  "ip_show ip = (if length ip = 4 then show_v4 ip else show_v6 ip)"

definition ip_wf :: "octets \<Rightarrow> bool" where
  "ip_wf ip \<longleftrightarrow> length ip = 4 \<or> length ip = 16"

section \<open>Reading numbers back\<close>

lemma to_digit_digit: "d < 10 \<Longrightarrow> to_digit 10 (digit d) = Some d"
  by (simp add: to_digit_def code_digit)

lemma code_hex_digit: "d < 16 \<Longrightarrow> code (hex_digit d) = (if d < 10 then 48 + d else 87 + d)"
  by (simp add: hex_digit_def)

lemma to_digit_hex_digit: "d < 16 \<Longrightarrow> to_digit 16 (hex_digit d) = Some d"
  by (simp add: to_digit_def code_hex_digit)

lemma show_nat_is_digit: "c \<in> set (show_nat n) \<Longrightarrow> is_digit 10 c"
  using show_nat_digits [of c n] by (auto simp: is_digit_def to_digit_def Let_def)

lemma digits_nat_snoc: "digits_nat r (s @ [c]) = r * digits_nat r s + the (to_digit r c)"
  by (simp add: digits_nat_def)

lemma digits_nat_show_nat: "digits_nat 10 (show_nat n) = n"
proof (induction n rule: show_nat.induct)
  case (1 n)
  then show ?case
    by (cases "n < 10")
       (simp_all add: show_nat.simps [of n] to_digit_digit digits_nat_snoc, simp add: digits_nat_def to_digit_digit)
qed

lemma show_hex_is_digit: "c \<in> set (show_hex n) \<Longrightarrow> is_digit 16 c"
proof (induction n rule: show_hex.induct)
  case (1 n)
  then show ?case
    by (subst (asm) (2) show_hex.simps) (auto simp: is_digit_def to_digit_hex_digit split: if_splits)
qed

lemma digits_nat_show_hex: "digits_nat 16 (show_hex n) = n"
proof (induction n rule: show_hex.induct)
  case (1 n)
  then show ?case
    by (cases "n < 16")
       (simp_all add: show_hex.simps [of n] to_digit_hex_digit digits_nat_snoc, simp add: digits_nat_def to_digit_hex_digit)
qed

lemma show_hex_nonempty [simp]: "show_hex n \<noteq> []"
  by (subst show_hex.simps) simp

lemma length_show_hex: "n < 16 ^ Suc k \<Longrightarrow> length (show_hex n) \<le> Suc k"
proof (induction k arbitrary: n)
  case 0
  then show ?case by (simp add: show_hex.simps)
next
  case (Suc k)
  then have "n div 16 < 16 ^ Suc k" by (simp add: less_mult_imp_div_less)
  with Suc.IH [of "n div 16"] show ?case by (subst show_hex.simps) simp
qed

lemma length_show_nat: "n < 10 ^ Suc k \<Longrightarrow> length (show_nat n) \<le> Suc k"
proof (induction k arbitrary: n)
  case 0
  then show ?case by (simp add: show_nat.simps)
next
  case (Suc k)
  then have "n div 10 < 10 ^ Suc k" by (simp add: less_mult_imp_div_less)
  with Suc.IH [of "n div 10"] show ?case by (subst show_nat.simps) simp
qed

lemma hd_show_nat: "0 < n \<Longrightarrow> hd (show_nat n) \<noteq> CHR ''0''"
proof (induction n rule: show_nat.induct)
  case (1 n)
  show ?case
  proof (cases "n < 10")
    case True
    with 1 have "code (digit n) \<noteq> code (CHR ''0'')" by (simp add: code_digit)
    with True show ?thesis by (auto simp: show_nat.simps [of n])
  next
    case False
    with 1 show ?thesis by (simp add: show_nat.simps [of n])
  qed
qed

text \<open>The text after a number ends the run of digits.\<close>

definition ends_run :: "nat \<Rightarrow> string \<Rightarrow> bool" where
  "ends_run r s \<longleftrightarrow> (s = [] \<or> \<not> is_digit r (hd s))"

lemma takeWhile_run: "(\<And>c. c \<in> set a \<Longrightarrow> P c) \<Longrightarrow> b = [] \<or> \<not> P (hd b) \<Longrightarrow> takeWhile P (a @ b) = a"
  by (induction a) (cases b, auto)+

lemma read_decimal:
  assumes "n < 256" and "ends_run 10 t"
  shows "read_number 10 3 False 256 (show_nat n @ t) = Some (n, t)"
proof -
  have "takeWhile (is_digit 10) (show_nat n @ t) = show_nat n"
    using assms(2) by (intro takeWhile_run) (auto simp: show_nat_is_digit ends_run_def)
  moreover have "length (show_nat n) \<le> 3" using length_show_nat [of n 2] assms(1) by simp
  moreover have "\<not> (hd (show_nat n) = CHR ''0'' \<and> length (show_nat n) > 1)"
    using hd_show_nat [of n] by (cases "n = 0") (auto simp: show_nat.simps [of 0])
  ultimately show ?thesis using assms(1) by (auto simp: read_number_def digits_nat_show_nat)
qed

lemma read_hex:
  assumes "n < 65536" and "ends_run 16 t"
  shows "read_number 16 4 True 65536 (show_hex n @ t) = Some (n, t)"
proof -
  have "takeWhile (is_digit 16) (show_hex n @ t) = show_hex n"
    using assms(2) by (intro takeWhile_run) (auto simp: show_hex_is_digit ends_run_def)
  moreover have "length (show_hex n) \<le> 4" using length_show_hex [of n 3] assms(1) by simp
  ultimately show ?thesis using assms(1) by (simp add: read_number_def digits_nat_show_hex)
qed

section \<open>Reading addresses back\<close>

lemma colon_ends [simp]: "ends_run 10 (CHR '':'' # t)" "ends_run 16 (CHR '':'' # t)"
    "ends_run 10 []" "ends_run 16 []" "ends_run 10 (CHR ''.'' # t)"
  by (simp_all add: ends_run_def is_digit_def to_digit_def)

lemma octet_less: "unat (b :: u8) < 256"
  using unsigned_less [of b] by simp

lemma read_show_v4:
  assumes "length ip = 4" and "ends_run 10 t"
  shows "read_ipv4_addr (show_v4 ip @ t) = Some (map unat ip, t)"
proof -
  from assms(1) obtain a b c d where ip: "ip = [a, b, c, d]"
    by (auto simp: numeral_eq_Suc length_Suc_conv)
  have "read_v4_groups (Suc (Suc (Suc (Suc 0)))) 0 (show_v4 ip @ t) = Some (map unat ip, t)"
    using assms(2) by (simp add: ip show_v4_def read_separator_def read_decimal octet_less)
  then show ?thesis by (simp add: read_ipv4_addr_def numeral_eq_Suc)
qed

text \<open>Where the first run of decimal digits is not followed by a dot there is no IPv4 address.\<close>

lemma read_v4_fails:
  assumes "\<And>t. dropWhile (is_digit 10) s \<noteq> CHR ''.'' # t"
  shows "read_ipv4_addr s = None"
proof -
  have r: "read_v4_groups (Suc n) 1 s' = None" if "\<And>t. s' \<noteq> CHR ''.'' # t" for n s'
    using that by (cases s') (auto simp: read_separator_def)
  have "read_v4_groups (Suc (Suc (Suc (Suc 0)))) 0 s = None"
    using assms r [of "dropWhile (is_digit 10) s" "Suc (Suc 0)"]
    by (auto simp: read_separator_def read_number_def Let_def dropWhile_eq_drop split: option.split)
  then show ?thesis by (simp add: read_ipv4_addr_def numeral_eq_Suc)
qed

lemma char_colon_dot: "CHR '':'' \<noteq> CHR ''.''"
  by simp

lemma not_v4_before_colon:
  assumes "\<And>c. c \<in> set a \<Longrightarrow> c \<noteq> CHR ''.''" and "b = [] \<or> hd b = CHR '':''"
  shows "read_ipv4_addr (a @ b) = None"
proof (rule read_v4_fails)
  fix t
  show "dropWhile (is_digit 10) (a @ b) \<noteq> CHR ''.'' # t"
  proof (cases "\<forall>c \<in> set a. is_digit 10 c")
    case True
    then have "dropWhile (is_digit 10) (a @ b) = dropWhile (is_digit 10) b"
      by (simp add: dropWhile_append2)
    also have "\<dots> = b" using assms(2) by (cases b) (auto simp: is_digit_def to_digit_def)
    finally have "dropWhile (is_digit 10) (a @ b) = b" .
    with assms(2) show ?thesis by (metis char_colon_dot list.sel(1) list.distinct(1))
  next
    case False
    then obtain c where c: "c \<in> set a" "\<not> is_digit 10 c" by auto
    then have ne: "dropWhile (is_digit 10) a \<noteq> []" by auto
    have "dropWhile (is_digit 10) (a @ b) = dropWhile (is_digit 10) a @ b"
      using c by (simp add: dropWhile_append1)
    moreover have "hd (dropWhile (is_digit 10) a) \<in> set a"
      using ne by (metis hd_in_set set_dropWhileD)
    ultimately show ?thesis using assms(1) ne
      by (metis hd_append2 list.sel(1))
  qed
qed

lemma show_hex_no_dot: "c \<in> set (show_hex n) \<Longrightarrow> c \<noteq> CHR ''.''"
  using show_hex_is_digit [of c n] by (auto simp: is_digit_def to_digit_def)

lemma show_hex_not_v4: "t = [] \<or> hd t = CHR '':'' \<Longrightarrow> read_ipv4_addr (show_hex n @ t) = None"
  by (rule not_v4_before_colon) (auto simp: show_hex_no_dot)

text \<open>The text after a list of groups ends it: the end, or the double colon.\<close>

definition ends_groups :: "string \<Rightarrow> bool" where
  "ends_groups t \<longleftrightarrow> t = [] \<or> take 2 t = ''::''"

lemma ends_groups_hd: "ends_groups t \<Longrightarrow> t = [] \<or> (\<exists>u. t = CHR '':'' # CHR '':'' # u)"
  by (cases t; cases "tl t") (auto simp: ends_groups_def)

lemma no_group_at_end:
  assumes "ends_groups t"
  shows "read_groups n i t = ([], False, t)"
proof (cases n)
  case (Suc m)
  have 1: "read_ipv4_addr t = None" "read_ipv4_addr (tl t) = None"
    using ends_groups_hd [OF assms] not_v4_before_colon [of "[]"] by auto
  have "takeWhile (is_digit 16) t = []" "takeWhile (is_digit 16) (tl t) = []"
    using ends_groups_hd [OF assms] by (auto simp: is_digit_def to_digit_def)
  then have 2: "read_number 16 4 True 65536 t = None" "read_number 16 4 True 65536 (tl t) = None"
    by (simp_all add: read_number_def)
  from 1 2 Suc show ?thesis by (cases t) (auto simp: read_separator_def)
qed simp

text \<open>Groups as they stand in the text from the \<open>i\<close>-th on, each but the first behind a colon.\<close>

definition group_text :: "nat \<Rightarrow> nat list \<Rightarrow> string" where
  "group_text i gs = (if i = 0 \<or> gs = [] then show_segments gs else CHR '':'' # show_segments gs)"

lemma group_text_Cons: "group_text i (g # gs) = (if i = 0 then [] else '':'') @ show_hex g @ group_text (Suc i) gs"
  by (cases gs) (auto simp: group_text_def show_segments_def)

lemma group_text_hd:
  assumes "ends_groups t"
  shows "group_text (Suc i) gs @ t = [] \<or> hd (group_text (Suc i) gs @ t) = CHR '':''"
  using ends_groups_hd [OF assms] by (cases gs) (auto simp: group_text_def show_segments_def)

lemma read_group_text:
  assumes "\<forall>g \<in> set gs. g < 65536" and "length gs \<le> n" and "ends_groups t"
  shows "read_groups n i (group_text i gs @ t) = (gs, False, t)"
  using assms
proof (induction gs arbitrary: n i)
  case Nil
  then show ?case by (simp add: group_text_def show_segments_def no_group_at_end)
next
  case (Cons g gs)
  then obtain m where n: "n = Suc m" by (cases n) auto
  let ?rest = "group_text (Suc i) gs @ t"
  have hd: "?rest = [] \<or> hd ?rest = CHR '':''" using group_text_hd Cons.prems(3) by blast
  then have run: "ends_run 16 ?rest" by (cases ?rest) (auto simp: ends_run_def is_digit_def to_digit_def)
  have v4: "read_ipv4_addr (show_hex g @ ?rest) = None" using show_hex_not_v4 [OF hd] .
  have num: "read_number 16 4 True 65536 (show_hex g @ ?rest) = Some (g, ?rest)"
    using read_hex [OF _ run] Cons.prems(1) by simp
  have IH: "read_groups m (Suc i) ?rest = (gs, False, t)" using Cons n by simp
  show ?case unfolding n using v4 num IH
    by (auto simp: group_text_Cons read_separator_def)
qed

section \<open>The zero run\<close>

definition zero_span :: "nat list \<Rightarrow> nat \<times> nat \<Rightarrow> bool" where
  "zero_span segs sp \<longleftrightarrow> fst sp + snd sp \<le> length segs \<and> (\<forall>k < snd sp. segs ! (fst sp + k) = 0)"

lemma span_loop:
  assumes "zero_span pre l" "zero_span pre c" "snd c = 0 \<or> fst c + snd c = length pre"
  shows "zero_span (pre @ segs) (fst (foldl span_step (l, c) (enumerate (length pre) segs)))"
  using assms
proof (induction segs arbitrary: pre l c)
  case Nil
  then show ?case by simp
next
  case (Cons x segs)
  obtain l' c' where st: "span_step (l, c) (length pre, x) = (l', c')"
    by (cases "span_step (l, c) (length pre, x)")
  have ext: "zero_span (pre @ [x]) sp" if "zero_span pre sp" for sp
    using that by (auto simp: zero_span_def nth_append)
  have c': "zero_span (pre @ [x]) c'" "snd c' = 0 \<or> fst c' + snd c' = length (pre @ [x])"
    using st Cons.prems by (auto simp: span_step_def zero_span_def nth_append less_Suc_eq Let_def split: if_splits)
  moreover have "l' = l \<or> l' = c'" using st by (auto simp: span_step_def Let_def split: if_splits)
  ultimately have "zero_span (pre @ [x]) l'" using ext Cons.prems(1) by metis
  from Cons.IH [OF this c'] show ?case by (simp add: st)
qed

lemma longest_zeroes_span: "zero_span segs (longest_zeroes segs)"
  using span_loop [of "[]" "(0, 0)" "(0, 0)" segs] by (simp add: longest_zeroes_def zero_span_def)

lemma zero_span_replicate:
  assumes "zero_span segs (a, n)"
  shows "take a segs @ replicate n 0 @ drop (a + n) segs = segs"
proof -
  have "take n (drop a segs) = replicate n 0"
    using assms by (intro nth_equalityI) (auto simp: zero_span_def)
  then show ?thesis by (metis append_take_drop_id drop_drop add.commute)
qed

section \<open>Octets and groups\<close>

lemma octet_pair: "be_bytes 2 (of_nat (256 * unat a + unat b) :: u16) = [a, b]"
proof -
  define w where "w = (of_nat (256 * unat a + unat b) :: u16)"
  have le: "256 * unat a + unat b < 2 ^ 16" using octet_less [of a] octet_less [of b] by simp
  have w: "unat w = 256 * unat a + unat b"
    unfolding w_def by (simp only: unat_of_nat) (use le in simp)
  have "unat (ucast w :: u8) = unat b"
    using octet_less [of b] by (simp add: unsigned_ucast_eq w take_bit_eq_mod)
  moreover have "unat (ucast (drop_bit 8 w) :: u8) = unat a"
    using octet_less [of a] octet_less [of b]
    by (simp add: unsigned_ucast_eq w take_bit_eq_mod drop_bit_eq_div unat_div_distrib)
  ultimately have "ucast w = b" "ucast (drop_bit 8 w) = a" by (simp_all add: word_unat_eq_iff)
  then show ?thesis unfolding w_def [symmetric] be_bytes_16 by simp
qed

lemma length_segments: "length (segments ip) = 8"
  by (simp add: segments_def)

lemma group_less: "unat (w :: u16) < 65536"
  using unsigned_less [of w] by simp

lemma segments_less: "g \<in> set (segments ip) \<Longrightarrow> g < 65536"
  by (auto simp: segments_def intro!: group_less)

lemma segments_part:
  "\<forall>g \<in> set (take k (segments ip)). g < 65536" "\<forall>g \<in> set (drop k (segments ip)). g < 65536"
  by (auto simp: segments_less dest: in_set_takeD in_set_dropD)

lemma list16:
  assumes "length ip = 16"
  obtains a b c d e f g h i j k l m n p q where "ip = [a, b, c, d, e, f, g, h, i, j, k, l, m, n, p, q]"
  using assms by (auto simp: numeral_eq_Suc length_Suc_conv)

lemma groups_octets_segments:
  assumes "length ip = 16"
  shows "groups_octets (segments ip) = ip"
proof -
  have "groups_octets (segments ip) = concat (map (\<lambda>i. slice (2 * i) (2 * i + 2) ip) [0..<8])"
    unfolding groups_octets_def segments_def map_map comp_def
    using assms by (intro arg_cong [where f = concat] map_cong) (auto simp: be_bytes_eq)
  also have "\<dots> = ip"
    by (rule list16 [OF assms]) (simp add: slice_def upt_rec numeral_eq_Suc)
  finally show ?thesis .
qed

section \<open>Parsing undoes printing\<close>

lemma parse_show_v4: "length ip = 4 \<Longrightarrow> ip_parse (show_v4 ip) = Some ip"
  using read_show_v4 [of ip "[]"] by (simp add: ip_parse_def comp_def)

lemma parse_not_v4:
  "read_ipv4_addr s = None \<Longrightarrow> read_ipv6_addr s = Some (gs, []) \<Longrightarrow> ip_parse s = Some (groups_octets gs)"
  by (simp add: ip_parse_def)

lemma group_text_0: "group_text 0 gs = show_segments gs"
  by (simp add: group_text_def)

lemma read_plain_v6:
  assumes "length gs = 8" and "\<forall>g \<in> set gs. g < 65536"
  shows "read_ipv6_addr (show_segments gs) = Some (gs, [])"
  using read_group_text [OF assms(2), of 8 "[]" 0] assms(1)
  by (simp add: read_ipv6_addr_def group_text_0 ends_groups_def)

lemma read_compressed_v6:
  assumes "length front + length back < 8" and "\<forall>g \<in> set front. g < 65536" and "\<forall>g \<in> set back. g < 65536"
  shows "read_ipv6_addr (show_segments front @ ''::'' @ show_segments back)
    = Some (front @ replicate (8 - length front - length back) 0 @ back, [])"
proof -
  have 1: "read_groups 8 0 (show_segments front @ ''::'' @ show_segments back)
      = (front, False, ''::'' @ show_segments back)"
    using read_group_text [OF assms(2), of 8 "''::'' @ show_segments back" 0] assms(1)
    by (simp add: group_text_0 ends_groups_def)
  have 2: "read_groups (8 - (length front + 1)) 0 (show_segments back) = (back, False, [])"
    using read_group_text [OF assms(3), of "8 - (length front + 1)" "[]" 0] assms(1)
    by (simp add: group_text_0 ends_groups_def)
  show ?thesis unfolding read_ipv6_addr_def 1 using 2 assms(1) by simp
qed

lemma segments_not_v4:
  assumes "gs \<noteq> []" and "t = [] \<or> hd t = CHR '':''"
  shows "read_ipv4_addr (show_segments gs @ t) = None"
proof -
  obtain g r where gs: "gs = g # r" using assms(1) by (cases gs) auto
  then have "show_segments gs @ t = show_hex g @ group_text 1 r @ t"
    using group_text_Cons [of 0 g r] by (simp add: group_text_0)
  moreover have "group_text 1 r @ t = [] \<or> hd (group_text 1 r @ t) = CHR '':''"
    using assms(2) by (cases r) (auto simp: group_text_def show_segments_def)
  ultimately show ?thesis using show_hex_not_v4 by metis
qed

lemma parse_show_mapped:
  assumes "length v4 = 4"
  shows "ip_parse (''::ffff:'' @ show_v4 v4) = Some ([0, 0, 0, 0, 0, 0, 0, 0, 0, 0, 255, 255] @ v4)"
proof -
  have v4: "read_ipv4_addr (show_v4 v4) = Some (map unat v4, [])" using read_show_v4 [OF assms, of "[]"] by simp
  have "hex_digit 15 = CHR ''f''" unfolding hex_digit_def by code_simp
  then have ffff: "show_hex 65535 = ''ffff''" by (simp add: show_hex.simps)
  have n1: "read_groups 8 0 (''::ffff:'' @ show_v4 v4) = ([], False, ''::ffff:'' @ show_v4 v4)"
    by (rule no_group_at_end) (simp add: ends_groups_def)
  have num: "read_number 16 4 True 65536 (''ffff'' @ CHR '':'' # show_v4 v4) = Some (65535, CHR '':'' # show_v4 v4)"
    using read_hex [of 65535 "CHR '':'' # show_v4 v4"] by (simp add: ffff)
  have no4: "read_ipv4_addr (''ffff'' @ CHR '':'' # show_v4 v4) = None"
    by (rule not_v4_before_colon) auto
  have "read_groups (Suc (Suc (Suc m))) 0 (''ffff'' @ CHR '':'' # show_v4 v4)
      = ([65535, 256 * unat (v4 ! 0) + unat (v4 ! 1), 256 * unat (v4 ! 2) + unat (v4 ! 3)], True, [])" for m
    using num no4 v4 assms by (simp add: read_separator_def)
  from this [of 4] have n2: "read_groups 7 0 (''ffff:'' @ show_v4 v4)
      = ([65535, 256 * unat (v4 ! 0) + unat (v4 ! 1), 256 * unat (v4 ! 2) + unat (v4 ! 3)], True, [])"
    by simp
  have r5: "replicate 5 (0 :: nat) = [0, 0, 0, 0, 0]" by (simp add: numeral_eq_Suc)
  have "read_ipv6_addr (''::ffff:'' @ show_v4 v4)
      = Some ([0, 0, 0, 0, 0, 65535, 256 * unat (v4 ! 0) + unat (v4 ! 1), 256 * unat (v4 ! 2) + unat (v4 ! 3)], [])"
    unfolding read_ipv6_addr_def n1 using n2 r5 by simp
  moreover have "read_ipv4_addr (''::ffff:'' @ show_v4 v4) = None"
    using not_v4_before_colon [of "[]"] by simp
  moreover have "v4 = [v4 ! 0, v4 ! 1, v4 ! 2, v4 ! 3]"
    using assms by (auto simp: numeral_eq_Suc length_Suc_conv)
  moreover have "be_bytes 2 (65535 :: u16) = [255, 255]" "be_bytes 2 (0 :: u16) = [0, 0]"
    by (simp_all add: be_bytes_16 drop_bit_eq_div)
  ultimately show ?thesis
    by (simp add: parse_not_v4 groups_octets_def octet_pair del: of_nat_add of_nat_mult)
qed

lemma parse_show_v6:
  assumes "length ip = 16"
  shows "ip_parse (show_v6 ip) = Some ip"
proof (cases "to_ipv4_mapped ip")
  case (Some v4)
  then have "ip = [0, 0, 0, 0, 0, 0, 0, 0, 0, 0, 255, 255] @ v4"
    by (metis append_take_drop_id option.distinct(1) option.inject to_ipv4_mapped_def)
  moreover from this have "length v4 = 4" using assms by auto
  ultimately show ?thesis using Some parse_show_mapped [of v4] by (simp add: show_v6_def)
next
  case None
  let ?segs = "segments ip"
  obtain a n where z: "longest_zeroes ?segs = (a, n)" by fastforce
  then have sp: "zero_span ?segs (a, n)" using longest_zeroes_span [of ?segs] by simp
  have le: "a + n \<le> 8" using sp by (simp add: zero_span_def length_segments)
  show ?thesis
  proof (cases "1 < n")
    case True
    let ?s = "show_segments (take a ?segs) @ ''::'' @ show_segments (drop (a + n) ?segs)"
    have "read_ipv6_addr ?s = Some (take a ?segs @ replicate n 0 @ drop (a + n) ?segs, [])"
      using read_compressed_v6 [of "take a ?segs" "drop (a + n) ?segs"] True le
      by (simp add: length_segments segments_less segments_part)
    then have "read_ipv6_addr ?s = Some (?segs, [])" by (simp add: zero_span_replicate [OF sp])
    moreover have "read_ipv4_addr ?s = None"
      using segments_not_v4 [of "take a ?segs"] not_v4_before_colon [of "[]"]
      by (cases "take a ?segs = []") (auto simp: show_segments_def)
    ultimately show ?thesis using None z True
      by (simp add: show_v6_def Let_def parse_not_v4 groups_octets_segments [OF assms])
  next
    case False
    have "read_ipv4_addr (show_segments ?segs) = None"
      using segments_not_v4 [of ?segs "[]"] length_segments [of ip] by fastforce
    with False None z show ?thesis
      by (simp add: show_v6_def parse_not_v4 read_plain_v6 length_segments segments_less
        groups_octets_segments [OF assms])
  qed
qed

lemma ip_roundtrip [simp]: "ip_wf ip \<Longrightarrow> ip_parse (ip_show ip) = Some ip"
  by (auto simp: ip_wf_def ip_show_def parse_show_v4 parse_show_v6)

section \<open>The alphabet of an address\<close>

definition ip_char :: "char \<Rightarrow> bool" where
  "ip_char c \<longleftrightarrow> is_digit 16 c \<or> c = CHR ''.'' \<or> c = CHR '':''"

lemma set_join: "set (join sep xs) \<subseteq> (\<Union>x \<in> set xs. set x) \<union> set sep"
  by (induction sep xs rule: join.induct) auto

lemma show_nat_ip_char: "c \<in> set (show_nat n) \<Longrightarrow> ip_char c"
  using show_nat_digits [of c n] by (auto simp: ip_char_def is_digit_def to_digit_def Let_def)

lemma show_v4_chars: "c \<in> set (show_v4 ip) \<Longrightarrow> ip_char c"
  using set_join [of "''.''" "map (\<lambda>b. show_nat (unat b)) ip"] show_nat_ip_char
  by (auto simp: show_v4_def ip_char_def)

lemma show_segments_chars: "c \<in> set (show_segments gs) \<Longrightarrow> ip_char c"
  using set_join [of "'':''" "map show_hex gs"] show_hex_is_digit
  by (auto simp: show_segments_def ip_char_def)

lemma ip_show_chars: "c \<in> set (ip_show ip) \<Longrightarrow> ip_char c"
proof -
  assume c: "c \<in> set (ip_show ip)"
  have "ip_char CHR ''f''" "ip_char CHR '':''" by (simp_all add: ip_char_def is_digit_def to_digit_def)
  with c show ?thesis
    by (auto simp: ip_show_def show_v6_def Let_def dest: show_v4_chars show_segments_chars
      split: if_splits option.splits prod.splits)
qed

lemma ip_show_nonempty [simp]: "ip_wf ip \<Longrightarrow> ip_show ip \<noteq> []"
proof
  assume "ip_wf ip" and "ip_show ip = []"
  then have "ip_parse [] = Some ip" using ip_roundtrip [of ip] by simp
  moreover have "read_ipv4_addr [] = None" using not_v4_before_colon [of "[]" "[]"] by simp
  moreover have "read_groups 8 0 [] = ([], False, [])" by (rule no_group_at_end) (simp add: ends_groups_def)
  ultimately show False by (simp add: ip_parse_def read_ipv6_addr_def)
qed

end
