(* ===== verification/Bridge.thy ===== *)
theory Bridge
  imports Dtmf_Inband Rtp_Stats Ip_Text
begin

text \<open>
  The two-leg media bridge (\<^verbatim>\<open>smiths-media/src/bridge.rs\<close>): one forwarder per direction, one
  RTCP emitter and one RTCP listener per leg that has RTCP. The tasks share the stream statistics and
  the SRTP contexts, which is what the bridge record holds; a step of the bridge is one turn of the
  loop of one of its tasks. The SRTP transforms are a parameter, one function per operation from a
  context and a packet to the next context and the result, as is the Goertzel analysis of the in-band
  detector. Time stamps, NTP time and the outcome of a send are inputs of a step.
\<close>

section \<open>SRTP\<close>

datatype srtp_error = SrtpKeyLength nat nat | SrtpAuthFailed | SrtpReplayed | SrtpOther bytes

record 'c srtp_transform =
  protect_rtp :: "'c \<Rightarrow> octets \<Rightarrow> 'c \<times> (srtp_error + octets)"
  unprotect_rtp :: "'c \<Rightarrow> octets \<Rightarrow> 'c \<times> (srtp_error + octets)"
  protect_rtcp :: "'c \<Rightarrow> octets \<Rightarrow> 'c \<times> (srtp_error + octets)"
  unprotect_rtcp :: "'c \<Rightarrow> octets \<Rightarrow> 'c \<times> (srtp_error + octets)"

section \<open>Legs and configuration\<close>

type_synonym socket_id = nat
type_synonym rtp_addr = "octets \<times> u16"

record 'c leg_srtp =
  ls_peer_tx :: 'c
  ls_local_tx :: 'c

record rtcp_leg =
  rl_socket :: socket_id
  rl_peer :: rtp_addr

definition DEFAULT_RTP_CLOCK_RATE :: u32 where "DEFAULT_RTP_CLOCK_RATE = 8000"

record 'c leg =
  lg_socket :: socket_id
  lg_peer :: rtp_addr
  lg_rtcp :: "rtcp_leg option"
  lg_srtp :: "'c leg_srtp option"
  lg_clock_rate :: u32

definition leg_new :: "socket_id \<Rightarrow> rtp_addr \<Rightarrow> 'c leg" where
  "leg_new socket peer =
     \<lparr> lg_socket = socket, lg_peer = peer, lg_rtcp = None, lg_srtp = None, lg_clock_rate = DEFAULT_RTP_CLOCK_RATE \<rparr>"

record bridge_config =
  bc_rtcp_interval :: "duration option"
  bc_metrics :: bool
  bc_dtmf_sink :: bool
  bc_inband_dtmf :: bool

definition bridge_config_default :: bridge_config where
  "bridge_config_default =
     \<lparr> bc_rtcp_interval = Some 5000000000, bc_metrics = False, bc_dtmf_sink = False, bc_inband_dtmf = False \<rparr>"

text \<open>The two legs, and the name of the direction of the packets that arrive on one.\<close>

datatype side = Leg_A | Leg_B

fun other :: "side \<Rightarrow> side" where
  "other Leg_A = Leg_B"
| "other Leg_B = Leg_A"

fun dir_of :: "side \<Rightarrow> bytes" where
  "dir_of Leg_A = ''a->b''"
| "dir_of Leg_B = ''b->a''"

section \<open>State\<close>

text \<open>All maps are by the leg a packet arrives on, except \<open>br_ssrc_toward\<close> and the emitters
  (\<open>br_emitter\<close>), which are by the leg it is sent to.\<close>

record 'c bridge =
  br_id :: u64
  br_cfg :: bridge_config
  br_leg :: "side \<Rightarrow> 'c leg"
  br_ssrc_toward :: "side \<Rightarrow> u32"
  br_stats :: "side \<Rightarrow> stream_stats"
  br_rfc4733 :: "side \<Rightarrow> dtmf_detector option"
  br_inband :: "side \<Rightarrow> inband_detector option"
  br_forwarding :: "side \<Rightarrow> bool"
  br_emitter :: "side \<Rightarrow> interval_loss option"
  br_listening :: "side \<Rightarrow> bool"
  br_forwarded :: "side \<Rightarrow> nat"
  br_sr_sent :: nat

text \<open>The SSRC the bridge invents, from a process-wide counter and the nanoseconds of the clock.\<close>

definition fresh_ssrc :: "u64 \<Rightarrow> u64 \<Rightarrow> u32" where
  "fresh_ssrc c nanos = ucast (drop_bit 32 (nanos * 0x9E3779B97F4A7C15 + c * 0x0100000001B3))"

definition srtp_pair :: "'c leg_srtp option \<Rightarrow> 'c leg_srtp option \<Rightarrow> ('c \<times> 'c) option" where
  "srtp_pair ingress egress =
     (case (ingress, egress) of (Some i, Some e) \<Rightarrow> Some (ls_peer_tx i, ls_local_tx e) | _ \<Rightarrow> None)"

definition spawn_with :: "u64 \<Rightarrow> 'c leg \<Rightarrow> 'c leg \<Rightarrow> bridge_config \<Rightarrow> u32 \<Rightarrow> u32 \<Rightarrow> 'c bridge" where
  "spawn_with i a b cfg ssrc_toward_b ssrc_toward_a =
     (let leg = (\<lambda>s. case s of Leg_A \<Rightarrow> a | Leg_B \<Rightarrow> b)
      in \<lparr> br_id = i, br_cfg = cfg, br_leg = leg,
           br_ssrc_toward = (\<lambda>s. case s of Leg_A \<Rightarrow> ssrc_toward_a | Leg_B \<Rightarrow> ssrc_toward_b),
           br_stats = (\<lambda>s. stats_new (lg_clock_rate (leg s))),
           br_rfc4733 = (\<lambda>s. if bc_dtmf_sink cfg then Some (detector_new (dir_of s) (lg_clock_rate (leg s))) else None),
           br_inband = (\<lambda>s. if bc_inband_dtmf cfg \<and> bc_dtmf_sink cfg then Some (inband_new (dir_of s)) else None),
           br_forwarding = (\<lambda>_. True),
           br_emitter = (\<lambda>s. if lg_rtcp (leg s) \<noteq> None \<and> bc_rtcp_interval cfg \<noteq> None
              then Some \<lparr> il_expected_prior = 0, il_received_prior = 0 \<rparr> else None),
           br_listening = (\<lambda>s. case lg_rtcp (leg s) of None \<Rightarrow> False | Some r \<Rightarrow> rl_socket r \<noteq> lg_socket (leg s)),
           br_forwarded = (\<lambda>_. 0), br_sr_sent = 0 \<rparr>)"

definition bridge_spawn :: "u64 \<Rightarrow> 'c leg \<Rightarrow> 'c leg \<Rightarrow> u32 \<Rightarrow> u32 \<Rightarrow> 'c bridge" where
  "bridge_spawn i a b ssrc_toward_b ssrc_toward_a = spawn_with i a b bridge_config_default ssrc_toward_b ssrc_toward_a"

record bridge_stats =
  bs_a_to_b :: stats_snapshot
  bs_b_to_a :: stats_snapshot
  bs_ssrc_toward_a :: u32
  bs_ssrc_toward_b :: u32

definition stats_of :: "'c bridge \<Rightarrow> u64 \<Rightarrow> bridge_stats" where
  "stats_of br now_ns =
     \<lparr> bs_a_to_b = snapshot (br_stats br Leg_A) now_ns, bs_b_to_a = snapshot (br_stats br Leg_B) now_ns,
       bs_ssrc_toward_a = br_ssrc_toward br Leg_A, bs_ssrc_toward_b = br_ssrc_toward br Leg_B \<rparr>"

definition bridge_shutdown :: "'c bridge \<Rightarrow> 'c bridge" where
  "bridge_shutdown br = br \<lparr> br_forwarding := (\<lambda>_. False), br_emitter := (\<lambda>_. None), br_listening := (\<lambda>_. False) \<rparr>"

text \<open>The SRTP contexts live behind the legs and are shared by the tasks.\<close>

definition set_peer_tx :: "'c bridge \<Rightarrow> side \<Rightarrow> 'c \<Rightarrow> 'c bridge" where
  "set_peer_tx br s c =
     br \<lparr> br_leg := (br_leg br)(s := (br_leg br s) \<lparr> lg_srtp := map_option (\<lambda>x. x \<lparr> ls_peer_tx := c \<rparr>) (lg_srtp (br_leg br s)) \<rparr>) \<rparr>"

definition set_local_tx :: "'c bridge \<Rightarrow> side \<Rightarrow> 'c \<Rightarrow> 'c bridge" where
  "set_local_tx br s c =
     br \<lparr> br_leg := (br_leg br)(s := (br_leg br s) \<lparr> lg_srtp := map_option (\<lambda>x. x \<lparr> ls_local_tx := c \<rparr>) (lg_srtp (br_leg br s)) \<rparr>) \<rparr>"

definition set_stats :: "'c bridge \<Rightarrow> side \<Rightarrow> stream_stats \<Rightarrow> 'c bridge" where
  "set_stats br s st = br \<lparr> br_stats := (br_stats br)(s := st) \<rparr>"

section \<open>RTCP from a peer\<close>

definition absorb_blocks :: "'c bridge \<Rightarrow> side \<Rightarrow> report_block list \<Rightarrow> u32 \<Rightarrow> 'c bridge" where
  "absorb_blocks br s blocks arrival =
     set_stats br (other s)
       (foldl (\<lambda>st rb. record_peer_report st rb (round_trip_time arrival rb)) (br_stats br (other s))
         (filter (\<lambda>rb. rb_ssrc rb = br_ssrc_toward br s) blocks))"

definition absorb_packet :: "side \<Rightarrow> u64 \<Rightarrow> u32 \<Rightarrow> 'c bridge \<Rightarrow> rtcp_packet \<Rightarrow> 'c bridge" where
  "absorb_packet s now_ns arrival br pkt =
     (case pkt of
        SenderReport sr blocks \<Rightarrow>
          absorb_blocks (set_stats br s (record_sender_report (br_stats br s) (sr_ntp_ts sr) now_ns)) s blocks arrival
      | ReceiverReport _ blocks \<Rightarrow> absorb_blocks br s blocks arrival
      | SourceDescription _ \<Rightarrow> br
      | Bye _ _ \<Rightarrow> br
      | Other _ \<Rightarrow> br)"

definition rtcp_handle :: "'c srtp_transform \<Rightarrow> 'c bridge \<Rightarrow> side \<Rightarrow> octets \<Rightarrow> u64 \<Rightarrow> u64 \<Rightarrow> 'c bridge" where
  "rtcp_handle srtp br s bytes now_ns ntp_now =
     (let (br, plain) = (case lg_srtp (br_leg br s) of
            None \<Rightarrow> (br, Some bytes)
          | Some x \<Rightarrow> (case unprotect_rtcp srtp (ls_peer_tx x) bytes of
               (c, Inr p) \<Rightarrow> (set_peer_tx br s c, Some p)
             | (c, Inl _) \<Rightarrow> (set_peer_tx br s c, None)))
      in case plain of
           None \<Rightarrow> br
         | Some p \<Rightarrow> foldl (absorb_packet s now_ns (ntp_middle ntp_now)) br (parse_compound p))"

section \<open>The forwarders\<close>

datatype bridge_output =
    Datagram socket_id rtp_addr octets
  | Press bytes dtmf_keypress

definition PT_PCMU_FOR_DTMF :: u8 where "PT_PCMU_FOR_DTMF = 0"

definition sniff_dtmf ::
  "(i16 list \<Rightarrow> (nat \<times> nat) option) \<Rightarrow> 'c bridge \<Rightarrow> side \<Rightarrow> octets \<Rightarrow> rtp_header \<Rightarrow> 'c bridge \<times> bridge_output list" where
  "sniff_dtmf analyse br s packet hdr =
     (if rh_payload_type hdr = RFC4733_PAYLOAD_TYPE then
        (case br_rfc4733 br s of
           None \<Rightarrow> (br, [])
         | Some d \<Rightarrow>
             (case tev_parse (rtp_payload hdr packet) of
                None \<Rightarrow> (br, [])
              | Some ev \<Rightarrow>
                  let (d, r) = detector_feed d ev (rh_timestamp hdr);
                      br = br \<lparr> br_rfc4733 := (br_rfc4733 br)(s := Some d) \<rparr>
                  in (br, case r of Some press \<Rightarrow> [Press (dir_of s) press] | None \<Rightarrow> [])))
      else if rh_payload_type hdr = PT_PCMU_FOR_DTMF then
        (case br_inband br s of
           None \<Rightarrow> (br, [])
         | Some d \<Rightarrow>
             let (d, presses) = feed_pcmu analyse d (rtp_payload hdr packet)
             in (br \<lparr> br_inband := (br_inband br)(s := Some d) \<rparr>, map (Press (dir_of s)) presses))
      else (br, []))"

definition set_ssrc :: "octets \<Rightarrow> u32 \<Rightarrow> octets" where
  "set_ssrc packet ssrc = take 8 packet @ be_bytes 4 ssrc @ drop 12 packet"

text \<open>The plain packet of a datagram, and what goes out for a plain packet.\<close>

definition ingress_packet :: "'c srtp_transform \<Rightarrow> 'c bridge \<Rightarrow> side \<Rightarrow> octets \<Rightarrow> 'c bridge \<times> octets option" where
  "ingress_packet srtp br s buf =
     (case srtp_pair (lg_srtp (br_leg br s)) (lg_srtp (br_leg br (other s))) of
        None \<Rightarrow> (br, Some buf)
      | Some (decrypt, _) \<Rightarrow> (case unprotect_rtp srtp decrypt buf of
           (c, Inr p) \<Rightarrow> (set_peer_tx br s c, Some p)
         | (c, Inl _) \<Rightarrow> (set_peer_tx br s c, None)))"

definition egress_packet :: "'c srtp_transform \<Rightarrow> 'c bridge \<Rightarrow> side \<Rightarrow> octets \<Rightarrow> 'c bridge \<times> octets option" where
  "egress_packet srtp br s packet =
     (case srtp_pair (lg_srtp (br_leg br s)) (lg_srtp (br_leg br (other s))) of
        None \<Rightarrow> (br, Some packet)
      | Some (_, encrypt) \<Rightarrow> (case protect_rtp srtp encrypt packet of
           (c, Inr ct) \<Rightarrow> (set_local_tx br (other s) c, Some ct)
         | (c, Inl _) \<Rightarrow> (set_local_tx br (other s) c, None)))"

definition send_egress :: "'c bridge \<Rightarrow> side \<Rightarrow> octets \<Rightarrow> bool \<Rightarrow> 'c bridge \<times> bridge_output list" where
  "send_egress br s egress sent =
     (let out = br_leg br (other s)
      in if \<not> sent then (br, [])
         else ((if bc_metrics (br_cfg br) then br \<lparr> br_forwarded := (br_forwarded br)(s := br_forwarded br s + 1) \<rparr> else br),
               [Datagram (lg_socket out) (lg_peer out) egress]))"

text \<open>One turn of the loop of the forwarder that reads leg \<open>s\<close>. The buffer holds 2048 octets.\<close>

definition forward ::
  "'c srtp_transform \<Rightarrow> (i16 list \<Rightarrow> (nat \<times> nat) option) \<Rightarrow> 'c bridge \<Rightarrow> side \<Rightarrow> octets \<Rightarrow> u64 \<Rightarrow> u64 \<Rightarrow> bool
    \<Rightarrow> 'c bridge \<times> bridge_output list" where
  "forward srtp analyse br s dgram now_ns ntp_now sent =
     (let buf = take 2048 dgram
      in if is_rtcp buf then (rtcp_handle srtp br s buf now_ns ntp_now, [])
         else case ingress_packet srtp br s buf of
           (br, None) \<Rightarrow> (br, [])
         | (br, Some packet) \<Rightarrow>
             (case rtp_parse packet of
                None \<Rightarrow> (br, [])
              | Some hdr \<Rightarrow>
                  let br = set_stats br s (observe_header (br_stats br s) hdr now_ns);
                      (br, presses) = (if bc_dtmf_sink (br_cfg br) then sniff_dtmf analyse br s packet hdr else (br, []));
                      packet = set_ssrc packet (br_ssrc_toward br (other s))
                  in case egress_packet srtp br s packet of
                       (br, None) \<Rightarrow> (br, presses)
                     | (br, Some egress) \<Rightarrow>
                         let (br, out) = send_egress br s egress sent in (br, presses @ out)))"

section \<open>The RTCP emitters\<close>

fun pad_hex :: "nat \<Rightarrow> nat \<Rightarrow> string" where
  "pad_hex 0 n = []"
| "pad_hex (Suc k) n = pad_hex k (n div 16) @ [hex_digit (n mod 16)]"

definition bridge_cname :: "u32 \<Rightarrow> bytes" where
  "bridge_cname ssrc = pad_hex 8 (unat ssrc) @ ''@smiths-net''"

definition sender_report :: "'c bridge \<Rightarrow> side \<Rightarrow> interval_loss \<Rightarrow> u64 \<Rightarrow> u64 \<Rightarrow> interval_loss \<times> octets" where
  "sender_report br s il now_ns ntp =
     (let send_snap = snapshot (br_stats br (other s)) now_ns;
          recv_snap = snapshot (br_stats br s) now_ns;
          ssrc = br_ssrc_toward br s;
          packets = try_from_or_max (unat (ss_packets send_snap));
          octets = try_from_or_max (unat (ss_octets send_snap))
      in if ss_packets recv_snap = 0 then (il, build_sr ssrc ntp (ss_last_rtp_ts send_snap) packets octets)
         else let (il, lost) = fraction_lost il recv_snap;
                  rb = \<lparr> rb_ssrc = ss_last_ssrc recv_snap, rb_fraction_lost = lost,
                         rb_cumulative_lost = ss_cumulative_lost recv_snap,
                         rb_extended_highest_seq = ss_max_seq recv_snap, rb_jitter = ss_jitter recv_snap,
                         rb_last_sr = ss_last_sr recv_snap,
                         rb_delay_since_last_sr = (case ss_last_sr_age recv_snap of None \<Rightarrow> 0 | Some age \<Rightarrow> to_dlsr age) \<rparr>
              in (il, build_sr_with_rb ssrc ntp (ss_last_rtp_ts send_snap) packets octets rb))"

text \<open>One tick of the emitter toward leg \<open>s\<close>.\<close>

definition emit_sr :: "'c srtp_transform \<Rightarrow> 'c bridge \<Rightarrow> side \<Rightarrow> u64 \<Rightarrow> u64 \<Rightarrow> bool \<Rightarrow> 'c bridge \<times> bridge_output list" where
  "emit_sr srtp br s now_ns ntp_now sent =
     (case (br_emitter br s, lg_rtcp (br_leg br s)) of
        (Some il, Some rtcp) \<Rightarrow>
          let (il, sr) = sender_report br s il now_ns ntp_now;
              br = br \<lparr> br_emitter := (br_emitter br)(s := Some il) \<rparr>;
              ssrc = br_ssrc_toward br s;
              compound = build_compound [sr, build_sdes_cname ssrc (bridge_cname ssrc)];
              (br, wire) = (case lg_srtp (br_leg br s) of
                 None \<Rightarrow> (br, Some compound)
               | Some x \<Rightarrow> (case protect_rtcp srtp (ls_local_tx x) compound of
                    (c, Inr ct) \<Rightarrow> (set_local_tx br s c, Some ct)
                  | (c, Inl _) \<Rightarrow> (set_local_tx br s c, None)))
          in case wire of
               None \<Rightarrow> (br, [])
             | Some w \<Rightarrow> if \<not> sent then (br, [])
                 else ((if bc_metrics (br_cfg br) then br \<lparr> br_sr_sent := br_sr_sent br + 1 \<rparr> else br),
                       [Datagram (rl_socket rtcp) (rl_peer rtcp) w])
      | _ \<Rightarrow> (br, []))"

section \<open>Steps\<close>

datatype bridge_input =
    Rtp_In side octets u64 u64 bool
  | Rtp_Recv_Failed side
  | Rtcp_In side octets u64 u64
  | Rtcp_Recv_Failed side
  | Sr_Tick side u64 u64 bool
  | Shut_Down

text \<open>A task that has stopped takes no more steps. The RTCP listener's buffer holds 1500 octets.\<close>

fun bridge_step ::
  "'c srtp_transform \<Rightarrow> (i16 list \<Rightarrow> (nat \<times> nat) option) \<Rightarrow> 'c bridge \<Rightarrow> bridge_input \<Rightarrow> 'c bridge \<times> bridge_output list" where
  "bridge_step srtp analyse br (Rtp_In s dgram now_ns ntp sent) =
     (if br_forwarding br s then forward srtp analyse br s dgram now_ns ntp sent else (br, []))"
| "bridge_step srtp analyse br (Rtp_Recv_Failed s) = (br \<lparr> br_forwarding := (br_forwarding br)(s := False) \<rparr>, [])"
| "bridge_step srtp analyse br (Rtcp_In s dgram now_ns ntp) =
     (if br_listening br s then (rtcp_handle srtp br s (take 1500 dgram) now_ns ntp, []) else (br, []))"
| "bridge_step srtp analyse br (Rtcp_Recv_Failed s) = (br \<lparr> br_listening := (br_listening br)(s := False) \<rparr>, [])"
| "bridge_step srtp analyse br (Sr_Tick s now_ns ntp sent) = emit_sr srtp br s now_ns ntp sent"
| "bridge_step srtp analyse br Shut_Down = (bridge_shutdown br, [])"

end
