(* ===== verification/Bridge_Properties.thy ===== *)
theory Bridge_Properties
  imports Bridge
begin

text \<open>
  What the bridge does with media: only the SSRC of a packet changes, RTCP is never sent_datagrams, legs that
  both have SRTP only ever send ciphertext, legs of which only one has it send plaintext.
\<close>

section \<open>Rewriting the SSRC\<close>

lemma length_set_ssrc: "12 \<le> length p \<Longrightarrow> length (set_ssrc p x) = length p"
  by (simp add: set_ssrc_def)

lemma nth_set_ssrc:
  assumes "12 \<le> length p" and "i < 8 \<or> 12 \<le> i" and "i < length p"
  shows "set_ssrc p x ! i = p ! i"
  using assms by (auto simp: set_ssrc_def nth_append)

lemma slice_set_ssrc:
  assumes "12 \<le> length p"
  shows "b \<le> 8 \<Longrightarrow> slice a b (set_ssrc p x) = slice a b p"
    and "12 \<le> a \<Longrightarrow> slice a b (set_ssrc p x) = slice a b p"
    and "slice 8 12 (set_ssrc p x) = be_bytes 4 x"
  using assms by (auto simp: set_ssrc_def slice_def drop_take min_def)

lemma set_ssrc_parse:
  assumes "12 \<le> length p"
  shows "rtp_parse (set_ssrc p x) = map_option (\<lambda>h. h \<lparr> rh_ssrc := x \<rparr>) (rtp_parse p)"
proof -
  let ?q = "set_ssrc p x"
  have len: "length ?q = length p" by (rule length_set_ssrc [OF assms])
  have "p \<noteq> []" using assms by auto
  then have b: "?q ! 0 = p ! 0" "?q ! 1 = p ! 1" using nth_set_ssrc [OF assms, of 0 x] nth_set_ssrc [OF assms, of 1 x] assms \<open>p \<noteq> []\<close> by simp_all
  have start: "rtp_payload_start ?q ext n = rtp_payload_start p ext n" for ext n
    using assms by (simp add: rtp_payload_start_def len Let_def RTP_FIXED_HEADER_LEN_def nth_set_ssrc)
  have stop: "rtp_payload_end ?q pad st = rtp_payload_end p pad st" if "12 \<le> st" "st \<le> length p" for pad st
  proof (cases "length p = 12")
    case True
    then show ?thesis using that unfolding rtp_payload_end_def len Let_def by auto
  next
    case False
    then have "?q ! (length p - 1) = p ! (length p - 1)" using assms by (intro nth_set_ssrc) auto
    then show ?thesis by (simp add: rtp_payload_end_def len Let_def)
  qed
  have ge: "12 \<le> st \<and> st \<le> length p" if "rtp_payload_start p ext n = Some st" for ext n st
    using that by (auto simp: rtp_payload_start_def RTP_FIXED_HEADER_LEN_def Let_def split: if_splits)
  have fields: "rtp_fields ?q n ext st en = rtp_fields p n ext st en \<lparr> rh_ssrc := x \<rparr>" for n ext st en
    unfolding rtp_fields_def Let_def b using assms by (simp add: slice_set_ssrc)
  show ?thesis
    using assms
    by (auto simp: rtp_parse_def len b start Let_def RTP_FIXED_HEADER_LEN_def stop fields dest!: ge split: option.splits)
qed

lemma set_ssrc_payload:
  assumes "rtp_parse p = Some h"
  shows "rtp_payload (h \<lparr> rh_ssrc := x \<rparr>) (set_ssrc p x) = rtp_payload h p"
proof -
  have "12 \<le> rh_payload_start h" "12 \<le> length p" using rtp_parse_bounds [OF assms] by linarith+
  then show ?thesis by (simp add: rtp_payload_def slice_set_ssrc)
qed

lemma set_ssrc_decode:
  assumes "rtp_decode p = Some q"
  shows "rtp_decode (set_ssrc p x) = Some (q \<lparr> rp_ssrc := x \<rparr>)" and "length (set_ssrc p x) = length p"
proof -
  from assms obtain h where h: "rtp_parse p = Some h" by (auto simp: rtp_decode_def split: option.splits)
  then have len: "12 \<le> length p" using rtp_parse_bounds [OF h] by linarith
  show "length (set_ssrc p x) = length p" by (rule length_set_ssrc [OF len])
  show "rtp_decode (set_ssrc p x) = Some (q \<lparr> rp_ssrc := x \<rparr>)"
    using assms h by (auto simp: rtp_decode_def set_ssrc_parse [OF len] set_ssrc_payload)
qed

section \<open>What a step leaves alone\<close>

text \<open>Everything about a leg but the contents of its SRTP contexts, and the SSRCs.\<close>

definition wiring :: "'c bridge \<Rightarrow> bridge_config \<times> (side \<Rightarrow> socket_id \<times> rtp_addr \<times> rtcp_leg option \<times> bool \<times> u32)" where
  "wiring br = (br_cfg br, \<lambda>s. (lg_socket (br_leg br s), lg_peer (br_leg br s), lg_rtcp (br_leg br s),
     lg_srtp (br_leg br s) = None, br_ssrc_toward br s))"

lemma wiring_simps [simp]:
  "wiring (set_peer_tx br s c) = wiring br" "wiring (set_local_tx br s c) = wiring br" "wiring (set_stats br s st) = wiring br"
  "wiring (br \<lparr> br_rfc4733 := x1 \<rparr>) = wiring br" "wiring (br \<lparr> br_inband := x2 \<rparr>) = wiring br"
  "wiring (br \<lparr> br_forwarding := x3 \<rparr>) = wiring br" "wiring (br \<lparr> br_emitter := x4 \<rparr>) = wiring br"
  "wiring (br \<lparr> br_listening := x5 \<rparr>) = wiring br" "wiring (br \<lparr> br_forwarded := x6 \<rparr>) = wiring br"
  "wiring (br \<lparr> br_sr_sent := x7 \<rparr>) = wiring br" "wiring (absorb_blocks br s blocks arrival) = wiring br"
  by (auto simp: wiring_def set_peer_tx_def set_local_tx_def set_stats_def absorb_blocks_def fun_eq_iff)

lemma wiring_absorb [simp]: "wiring (foldl (absorb_packet s now arrival) br ps) = wiring br"
  by (induction ps arbitrary: br) (simp_all add: absorb_packet_def split: rtcp_packet.split)

lemma wiring_rtcp_handle [simp]: "wiring (rtcp_handle srtp br s bs now ntp) = wiring br"
  by (auto simp: rtcp_handle_def Let_def split: option.splits prod.splits sum.splits)

lemma wiring_sniff [simp]: "wiring (fst (sniff_dtmf analyse br s p h)) = wiring br"
  by (auto simp: sniff_dtmf_def Let_def split: option.splits prod.splits)

lemma wiring_ingress: "ingress_packet srtp br s buf = (br', p) \<Longrightarrow> wiring br' = wiring br"
  by (auto simp: ingress_packet_def split: option.splits prod.splits sum.splits)

lemma wiring_egress: "egress_packet srtp br s buf = (br', p) \<Longrightarrow> wiring br' = wiring br"
  by (auto simp: egress_packet_def split: option.splits prod.splits sum.splits)

lemma wiring_send [simp]: "wiring (fst (send_egress br s p sent)) = wiring br"
  by (simp add: send_egress_def Let_def)

lemma wiring_forward [simp]: "wiring (fst (forward srtp analyse br s d now ntp sent)) = wiring br"
proof -
  have sniffed: "wiring (fst (if c then sniff_dtmf analyse b s p h else (b, []))) = wiring b" for c b p h by simp
  show ?thesis
    unfolding forward_def Let_def
    by (auto split: prod.splits option.splits dest!: wiring_ingress wiring_egress)
       (metis fst_conv wiring_sniff wiring_simps(3) wiring_send)+
qed

lemma wiring_step [simp]: "wiring (fst (bridge_step srtp analyse br i)) = wiring br"
  by (cases i) (auto simp: emit_sr_def bridge_shutdown_def Let_def split: option.splits prod.splits sum.splits)

lemma wiring_run: "wiring (fst (run (bridge_step srtp analyse) br is)) = wiring br"
  by (induction "is" arbitrary: br) (simp_all only: fst_run_Cons wiring_step, simp)

lemma wiringD:
  assumes "wiring br = wiring br'"
  shows "lg_socket (br_leg br s) = lg_socket (br_leg br' s)" and "lg_peer (br_leg br s) = lg_peer (br_leg br' s)"
    and "lg_srtp (br_leg br s) = None \<longleftrightarrow> lg_srtp (br_leg br' s) = None" and "br_ssrc_toward br s = br_ssrc_toward br' s"
    and "lg_rtcp (br_leg br s) = lg_rtcp (br_leg br' s)" and "br_cfg br = br_cfg br'"
  using assms by (auto simp: wiring_def dest!: fun_cong [where x = s])

lemma spawn_simps [simp]:
  "br_leg (spawn_with i a b cfg sb sa) s = (case s of Leg_A \<Rightarrow> a | Leg_B \<Rightarrow> b)"
  "br_ssrc_toward (spawn_with i a b cfg sb sa) s = (case s of Leg_A \<Rightarrow> sa | Leg_B \<Rightarrow> sb)"
  "br_cfg (spawn_with i a b cfg sb sa) = cfg"
  by (simp_all add: spawn_with_def Let_def)

section \<open>Plain legs\<close>

definition sent_datagrams :: "bridge_output list \<Rightarrow> bridge_output list" where
  "sent_datagrams os = filter (\<lambda>out. case out of Datagram _ _ _ \<Rightarrow> True | Press _ _ \<Rightarrow> False) os"

lemma sent_datagrams_simps [simp]:
  "sent_datagrams [] = []" "sent_datagrams (xs @ ys) = sent_datagrams xs @ sent_datagrams ys" "sent_datagrams (Datagram so de p # xs) = Datagram so de p # sent_datagrams xs"
  "sent_datagrams (map (Press d) ps) = []" "sent_datagrams (Press d q # xs) = sent_datagrams xs"
  by (auto simp: sent_datagrams_def filter_empty_conv)

lemma sent_datagrams_sniff [simp]: "sent_datagrams (snd (sniff_dtmf analyse br s p h)) = []"
  by (auto simp: sniff_dtmf_def Let_def split: option.splits prod.splits)

text \<open>What the forwarder of a direction without SRTP on both legs does with a datagram.\<close>

lemma forward_plain:
  assumes "lg_srtp (br_leg br s) = None \<or> lg_srtp (br_leg br (other s)) = None"
    and "\<not> is_rtcp (take 2048 d)" and "rtp_parse (take 2048 d) = Some h"
  shows "sent_datagrams (snd (forward srtp analyse br s d now ntp True)) =
    [Datagram (lg_socket (br_leg br (other s))) (lg_peer (br_leg br (other s))) (set_ssrc (take 2048 d) (br_ssrc_toward br (other s)))]"
proof -
  have pair: "srtp_pair (lg_srtp (br_leg b s)) (lg_srtp (br_leg b (other s))) = None" if "wiring b = wiring br" for b
    using assms(1) wiringD(3) [OF that, of s] wiringD(3) [OF that, of "other s"] by (auto simp: srtp_pair_def split: option.splits)
  let ?br1 = "set_stats br s (observe_header (br_stats br s) h now)"
  obtain br2 presses where sn: "(if bc_dtmf_sink (br_cfg ?br1) then sniff_dtmf analyse ?br1 s (take 2048 d) h else (?br1, [])) = (br2, presses)"
    by (cases "if bc_dtmf_sink (br_cfg ?br1) then sniff_dtmf analyse ?br1 s (take 2048 d) h else (?br1, [])") auto
  have w: "wiring br2 = wiring br" and p: "sent_datagrams presses = []"
    using sn wiring_sniff [of analyse ?br1 s "take 2048 d" h] sent_datagrams_sniff [of analyse ?br1 s "take 2048 d" h]
    by (auto split: if_splits simp del: wiring_sniff sent_datagrams_sniff)
  have "egress_packet srtp br2 s q = (br2, Some q)" for q using pair [OF w] by (simp add: egress_packet_def)
  moreover have "ingress_packet srtp br s (take 2048 d) = (br, Some (take 2048 d))" using pair [OF refl] by (simp add: ingress_packet_def)
  ultimately show ?thesis
    using assms(2,3) sn p wiringD [OF w]
    by (simp add: forward_def Let_def send_egress_def)
qed

text \<open>Property C29. A bridge between two legs without SRTP, in every history of RTP and RTCP datagrams, report
  ticks, receive errors and shutdown: as long as a direction runs, every RTP packet that arrives (up
  to 2048 octets) goes out on the other leg's socket to the other leg's peer, of the same length and
  with marker, payload type, sequence number, timestamp and payload unchanged, under the SSRC the
  bridge chose for that leg; what is RTCP or does not parse as RTP is not relayed.\<close>

theorem bridge_relays_media:
  assumes "lg_srtp a = None" and "lg_srtp b = None"
    and "br = fst (run (bridge_step srtp analyse) (spawn_with i a b cfg ssrc_b ssrc_a) ins)" and "br_forwarding br s"
  shows "(let buf = take 2048 d;
              (out, ssrc) = (case s of Leg_A \<Rightarrow> (b, ssrc_b) | Leg_B \<Rightarrow> (a, ssrc_a));
              sent = sent_datagrams (snd (bridge_step srtp analyse br (Rtp_In s d now ntp True)))
    in if is_rtcp buf then sent = []
       else case rtp_decode buf of
              None \<Rightarrow> sent = []
            | Some q \<Rightarrow> \<exists>w. sent = [Datagram (lg_socket out) (lg_peer out) w] \<and> length w = length buf
                \<and> rtp_decode w = Some (q \<lparr> rp_ssrc := ssrc \<rparr>))"
proof -
  let ?start = "spawn_with i a b cfg ssrc_b ssrc_a"
  have w: "wiring br = wiring ?start" unfolding assms(3) by (rule wiring_run)
  have none: "lg_srtp (br_leg br s) = None"
    using wiringD(3) [OF w, of s] assms(1,2) by (cases s) simp_all
  have out: "(case s of Leg_A \<Rightarrow> (b, ssrc_b) | Leg_B \<Rightarrow> (a, ssrc_a)) = (br_leg ?start (other s), br_ssrc_toward ?start (other s))"
    by (cases s) simp_all
  note same = wiringD(1-5) [OF w, of "other s"]
  show ?thesis
  proof (cases "is_rtcp (take 2048 d)")
    case True
    then show ?thesis using assms(4) by (simp add: forward_def out split: prod.split)
  next
    case not_rtcp: False
    show ?thesis
    proof (cases "rtp_decode (take 2048 d)")
      case None
      then have "rtp_parse (take 2048 d) = None" by (auto simp: rtp_decode_def split: option.splits)
      then have "snd (forward srtp analyse br s d now ntp True) = []"
        using none not_rtcp by (simp add: forward_def ingress_packet_def srtp_pair_def Let_def)
      then show ?thesis using assms(4) None not_rtcp by (simp add: out Let_def)
    next
      case (Some q)
      then obtain h where h: "rtp_parse (take 2048 d) = Some h" by (auto simp: rtp_decode_def split: option.splits)
      show ?thesis
        using forward_plain [OF disjI1 [OF none] not_rtcp h, of srtp analyse now ntp] set_ssrc_decode [OF Some] assms(4) Some not_rtcp
        by (simp add: out Let_def same)
    qed
  qed
qed

section \<open>Legs with SRTP\<close>

text \<open>A datagram that came out of the transform.\<close>

definition ciphertext :: "'c srtp_transform \<Rightarrow> bridge_output \<Rightarrow> bool" where
  "ciphertext srtp out \<longleftrightarrow>
     (case out of Datagram _ _ w \<Rightarrow> \<exists>c p. snd (protect_rtp srtp c p) = Inr w \<or> snd (protect_rtcp srtp c p) = Inr w | Press _ _ \<Rightarrow> True)"

lemma ciphertext_presses: "sent_datagrams outs = [] \<Longrightarrow> list_all (ciphertext srtp) outs"
  by (induction outs) (auto simp: sent_datagrams_def ciphertext_def split: bridge_output.splits)

lemma both_legs:
  assumes "\<And>s. lg_srtp (br_leg br s) \<noteq> None" and "wiring b = wiring br"
  obtains x y where "lg_srtp (br_leg b s) = Some x" and "lg_srtp (br_leg b (other s)) = Some y"
  using assms(1) wiringD(3) [OF assms(2)] by (metis not_Some_eq)

lemma forward_ciphertext:
  assumes both: "\<And>s. lg_srtp (br_leg br s) \<noteq> None"
  shows "list_all (ciphertext srtp) (snd (forward srtp analyse br s d now ntp sent))"
proof -
  have eg: "\<exists>c. snd (protect_rtp srtp c q) = Inr w" if "wiring b = wiring br" "egress_packet srtp b s q = (b', Some w)" for b b' q w
    using that(2) both_legs [OF both that(1), of s]
    by (auto simp: egress_packet_def srtp_pair_def split: prod.splits sum.splits option.splits) (metis snd_conv)
  show ?thesis
  proof (cases "is_rtcp (take 2048 d)")
    case True
    then show ?thesis by (simp add: forward_def Let_def)
  next
    case not_rtcp: False
    obtain br1 r where ing: "ingress_packet srtp br s (take 2048 d) = (br1, r)" by (cases "ingress_packet srtp br s (take 2048 d)")
    show ?thesis
    proof (cases "r = None \<or> rtp_parse (the r) = None")
      case True
      then show ?thesis using not_rtcp ing by (auto simp: forward_def Let_def split: option.split)
    next
      case False
      then obtain p h where p: "r = Some p" "rtp_parse p = Some h" by auto
      let ?b = "set_stats br1 s (observe_header (br_stats br1 s) h now)"
      obtain br2 presses where sn: "(if bc_dtmf_sink (br_cfg ?b) then sniff_dtmf analyse ?b s p h else (?b, [])) = (br2, presses)"
        by (cases "if bc_dtmf_sink (br_cfg ?b) then sniff_dtmf analyse ?b s p h else (?b, [])") auto
      have w: "wiring br2 = wiring br" and pr: "sent_datagrams presses = []"
        using sn wiring_sniff [of analyse ?b s p h] sent_datagrams_sniff [of analyse ?b s p h] wiring_ingress [OF ing]
        by (auto split: if_splits simp del: wiring_sniff sent_datagrams_sniff)
      obtain br3 e where e: "egress_packet srtp br2 s (set_ssrc p (br_ssrc_toward br2 (other s))) = (br3, e)"
        by (cases "egress_packet srtp br2 s (set_ssrc p (br_ssrc_toward br2 (other s)))")
      show ?thesis
      proof (cases e)
        case None
        then show ?thesis using not_rtcp ing p sn e ciphertext_presses [OF pr, of srtp] by (simp add: forward_def Let_def)
      next
        case (Some w)
        then have "ciphertext srtp (Datagram so de w)" for so de
          using eg [OF \<open>wiring br2 = wiring br\<close>] e unfolding ciphertext_def bridge_output.case by blast
        then show ?thesis
          using not_rtcp ing p sn e ciphertext_presses [OF pr, of srtp] Some by (simp add: forward_def Let_def send_egress_def)
      qed
    qed
  qed
qed

lemma emit_ciphertext:
  assumes "\<And>s. lg_srtp (br_leg br s) \<noteq> None"
  shows "list_all (ciphertext srtp) (snd (emit_sr srtp br s now ntp sent))"
proof -
  from assms obtain x where "lg_srtp (br_leg br s) = Some x" by (meson not_Some_eq)
  then show ?thesis
    by (auto simp: emit_sr_def Let_def ciphertext_def split: option.splits prod.splits sum.splits) (metis snd_conv)+
qed

lemma step_ciphertext:
  assumes "\<And>s. lg_srtp (br_leg br s) \<noteq> None"
  shows "list_all (ciphertext srtp) (snd (bridge_step srtp analyse br i))"
  using assms by (cases i) (simp_all add: forward_ciphertext emit_ciphertext)

lemma run_ciphertext:
  assumes "\<And>s. lg_srtp (br_leg br s) \<noteq> None"
  shows "list_all (ciphertext srtp) (snd (run (bridge_step srtp analyse) br ins))"
  using assms
proof (induction ins arbitrary: br)
  case (Cons i ins)
  have "list_all (ciphertext srtp) (snd (run (bridge_step srtp analyse) (fst (bridge_step srtp analyse br i)) ins))"
    by (rule Cons.IH) (use Cons.prems wiringD(3) [OF wiring_step] in blast)
  then show ?case using step_ciphertext [OF Cons.prems, of srtp analyse i] by (simp only: snd_run_Cons list_all_append)
qed simp

text \<open>Property C30. A bridge between two legs with SRTP never sends plaintext: in every history, every datagram
  it sends, media or report, on either leg, is the result of protecting something with the transform.
  And what a peer cannot authenticate has no effect: when the transform rejects a media packet, as
  forged, broken or replayed, nothing is sent_datagrams, no digit is reported and no statistics change.\<close>

theorem bridge_srtp_end_to_end:
  assumes "lg_srtp a \<noteq> None" and "lg_srtp b \<noteq> None"
  shows "(let br0 = spawn_with i a b cfg ssrc_b ssrc_a; br = fst (run (bridge_step srtp analyse) br0 ins)
    in list_all (ciphertext srtp) (snd (run (bridge_step srtp analyse) br0 ins))
     \<and> (\<not> is_rtcp (take 2048 d) \<longrightarrow> lg_srtp (br_leg br s) = Some x \<longrightarrow> unprotect_rtp srtp (ls_peer_tx x) (take 2048 d) = (c, Inl err) \<longrightarrow>
         (let (br', out) = bridge_step srtp analyse br (Rtp_In s d now ntp sent)
          in out = [] \<and> br_stats br' = br_stats br \<and> br_rfc4733 br' = br_rfc4733 br \<and> br_inband br' = br_inband br)))"
proof -
  let ?start = "spawn_with i a b cfg ssrc_b ssrc_a"
  let ?br = "fst (run (bridge_step srtp analyse) ?start ins)"
  have both0: "lg_srtp (br_leg ?start s) \<noteq> None" for s using assms by (cases s) simp_all
  have both: "lg_srtp (br_leg ?br s) \<noteq> None" for s using both0 wiringD(3) [OF wiring_run] by blast
  have "snd (bridge_step srtp analyse ?br (Rtp_In s d now ntp sent)) = []
      \<and> br_stats (fst (bridge_step srtp analyse ?br (Rtp_In s d now ntp sent))) = br_stats ?br
      \<and> br_rfc4733 (fst (bridge_step srtp analyse ?br (Rtp_In s d now ntp sent))) = br_rfc4733 ?br
      \<and> br_inband (fst (bridge_step srtp analyse ?br (Rtp_In s d now ntp sent))) = br_inband ?br"
    if "\<not> is_rtcp (take 2048 d)" "lg_srtp (br_leg ?br s) = Some x" "unprotect_rtp srtp (ls_peer_tx x) (take 2048 d) = (c, Inl err)"
  proof -
    from both [of "other s"] obtain y where y: "lg_srtp (br_leg ?br (other s)) = Some y" by auto
    show ?thesis using that y by (simp add: forward_def Let_def ingress_packet_def srtp_pair_def set_peer_tx_def)
  qed
  then show ?thesis using run_ciphertext [OF both0, of srtp analyse ins] unfolding Let_def by (auto split: prod.split)
qed

text \<open>Result. A bridge of which only one leg has SRTP relays both directions as they come: a packet of
  either leg goes to the peer of the other one undecrypted and unprotected, under the bridge's SSRC, in
  every history.\<close>

theorem bridge_mixed_legs_relay_plaintext:
  fixes a b :: "'c leg" and s and ssrc_a ssrc_b :: u32
  defines "leg \<equiv> \<lambda>s. case s of Leg_A \<Rightarrow> a | Leg_B \<Rightarrow> b" and "ssrc \<equiv> \<lambda>s. case s of Leg_A \<Rightarrow> ssrc_a | Leg_B \<Rightarrow> ssrc_b"
  assumes "lg_srtp a = None \<longleftrightarrow> lg_srtp b \<noteq> None"
    and "br = fst (run (bridge_step srtp analyse) (spawn_with i a b cfg ssrc_b ssrc_a) ins)" and "br_forwarding br s"
    and "\<not> is_rtcp (take 2048 d)" and "rtp_parse (take 2048 d) = Some h"
  shows "sent_datagrams (snd (bridge_step srtp analyse br (Rtp_In s d now ntp True))) =
    [Datagram (lg_socket (leg (other s))) (lg_peer (leg (other s))) (set_ssrc (take 2048 d) (ssrc (other s)))]"
proof -
  have w: "wiring br = wiring (spawn_with i a b cfg ssrc_b ssrc_a)" unfolding assms(4) by (rule wiring_run)
  have "lg_srtp (br_leg br s) = None \<or> lg_srtp (br_leg br (other s)) = None"
    using wiringD(3) [OF w, of Leg_A] wiringD(3) [OF w, of Leg_B] assms(3) by (cases s) auto
  from forward_plain [OF this assms(6,7), of srtp analyse now ntp] assms(5) show ?thesis
    using wiringD(1-5) [OF w, of "other s"] by (cases s) (simp_all add: leg_def ssrc_def)
qed

end
