(* ===== verification/Bridge_Dtmf.thy ===== *)
theory Bridge_Dtmf
  imports Bridge_Properties
begin

text \<open>
  From the tool that dials (\<^verbatim>\<open>smiths-mcp/src/tools/media.rs\<close>, \<^verbatim>\<open>send_dtmf\<close>) over the
  network to the sink of a bridge: the digits that are dialled are the digits that are reported.
\<close>

section \<open>The dialling tool\<close>

datatype tool_error = InvalidArguments bytes | ToolNotFound bytes | ToolForbidden bytes | ToolConflict bytes | ToolInternal bytes

definition DTMF_INTERDIGIT_MS :: nat where "DTMF_INTERDIGIT_MS = 40"

text \<open>How far the timestamp moves from one digit to the next.\<close>

definition press_advance :: "u32 \<Rightarrow> u32" where
  "press_advance duration_ms =
     (let press_samples = ucast (saturating_mul DTMF_GEN_FRAME_SAMPLES (try_from_or_max (unat (duration_ms div DTMF_GEN_FRAME_MS))));
          gap_samples = saturating_mul (DTMF_GEN_CLOCK_RATE_HZ div 1000) (of_nat DTMF_INTERDIGIT_MS)
      in press_samples + gap_samples)"

text \<open>The packets of each digit; \<open>None\<close> where the generator panics.\<close>

fun dtmf_stream :: "bytes \<Rightarrow> u32 \<Rightarrow> u32 \<Rightarrow> u16 \<Rightarrow> u32 \<Rightarrow> rtp_packet list list option" where
  "dtmf_stream [] duration_ms ssrc sq ts = Some []"
| "dtmf_stream (c # cs) duration_ms ssrc sq ts =
     (case generate_keypress c duration_ms ssrc sq ts of
        None \<Rightarrow> None
      | Some packets \<Rightarrow>
          map_option ((#) packets)
            (dtmf_stream cs duration_ms ssrc (sq + try_from_or_max (length packets)) (ts + press_advance duration_ms)))"

text \<open>The tool: what it has sent and its result. The leg lookup, the SSRC and the first sequence number
  are parameters, as is whether the send of the n-th packet succeeds.\<close>

definition send_dtmf ::
  "(tool_error + 'leg) \<Rightarrow> bytes \<Rightarrow> nat option \<Rightarrow> u32 \<Rightarrow> u16 \<Rightarrow> (nat \<Rightarrow> bool) \<Rightarrow> rtp_packet list \<times> (tool_error + nat)" where
  "send_dtmf leg ds duration ssrc sq sends =
     (if ds = [] then ([], Inl (InvalidArguments ''digits must be non-empty''))
      else let d = (case duration of None \<Rightarrow> 160 | Some d \<Rightarrow> d)
        in if \<not> d < 2 ^ 32 then ([], Inl (InvalidArguments ''duration_ms out of range''))
           else if list_ex (\<lambda>c. digit_to_event_code c = None) ds then ([], Inl (InvalidArguments ''unsupported DTMF digit''))
           else case leg of
                  Inl e \<Rightarrow> ([], Inl e)
                | Inr _ \<Rightarrow>
                    (case dtmf_stream ds (of_nat d) ssrc sq 0 of
                       None \<Rightarrow> ([], Inl (ToolInternal ''panic''))
                     | Some presses \<Rightarrow>
                         let packets = concat presses;
                             ok = length (takeWhile sends [0..<length packets])
                         in if ok < length packets then (take ok packets, Inl (ToolInternal ''send_packet''))
                            else (packets, Inr (length packets))))"

section \<open>The presses of a call to the tool\<close>

fun dialled_stream :: "bytes \<Rightarrow> u32 \<Rightarrow> u32 \<Rightarrow> u16 \<Rightarrow> u32 \<Rightarrow> dialled list" where
  "dialled_stream [] duration_ms ssrc sq ts = []"
| "dialled_stream (c # cs) duration_ms ssrc sq ts =
     (let p = \<lparr> di_digit = c, di_duration_ms = duration_ms, di_timestamp = ts, di_sequence = sq, di_ssrc = ssrc \<rparr>
      in p # dialled_stream cs duration_ms ssrc (sq + try_from_or_max (length (dialled_packets p))) (ts + press_advance duration_ms))"

lemma dtmf_stream_dialled:
  "list_all (\<lambda>c. digit_to_event_code c \<noteq> None) cs \<Longrightarrow>
   dtmf_stream cs dur ssrc sq ts = Some (map dialled_packets (dialled_stream cs dur ssrc sq ts))"
  by (induction cs arbitrary: sq ts) (auto simp: dialled_packets_def generate_keypress_def Let_def)

lemma press_advance_nonzero: "press_advance dur \<noteq> 0"
proof -
  let ?s = "saturating_mul DTMF_GEN_FRAME_SAMPLES (try_from_or_max (unat (dur div DTMF_GEN_FRAME_MS))) :: u16"
  have "unat ?s < 65536" using unsigned_less [where ?'a = nat, of ?s] by simp
  then have "unat (ucast ?s :: u32) < 65536" by (simp add: unsigned_ucast_eq take_bit_eq_mod)
  moreover have "saturating_mul (DTMF_GEN_CLOCK_RATE_HZ div 1000) (of_nat DTMF_INTERDIGIT_MS) = (320 :: u32)"
    by (simp add: word_unat_eq_iff unat_saturating_mul DTMF_GEN_CLOCK_RATE_HZ_def DTMF_INTERDIGIT_MS_def)
  ultimately have "unat (press_advance dur) = unat (ucast ?s :: u32) + 320"
    by (simp add: press_advance_def Let_def unat_word_ariths)
  then show ?thesis by auto
qed

lemma hd_timestamp: "dialled_stream cs dur ssrc sq ts = [] \<or> di_timestamp (hd (dialled_stream cs dur ssrc sq ts)) = ts"
  by (cases cs) (simp_all add: Let_def)

lemma dialled_stream_keys:
  "successively (\<lambda>p q. dialled_key p \<noteq> dialled_key q) (dialled_stream cs dur ssrc sq ts)"
proof (induction cs arbitrary: sq ts)
  case (Cons c cs)
  have "dialled_key p \<noteq> dialled_key q" if "di_timestamp q = di_timestamp p + press_advance dur" for p q
    using that press_advance_nonzero [of dur] by (simp add: dialled_key_def)
  then show ?case
    unfolding dialled_stream.simps Let_def successively_Cons using Cons.IH hd_timestamp by (metis dialled.select_convs(3))
qed simp

lemma map_di_digit: "map di_digit (dialled_stream cs dur ssrc sq ts) = cs"
  and set_duration: "p \<in> set (dialled_stream cs dur ssrc sq ts) \<Longrightarrow> di_duration_ms p = dur"
  by (induction cs arbitrary: sq ts) (auto simp: Let_def)

section \<open>The bridge hears telephone events\<close>

definition pressed :: "bridge_output list \<Rightarrow> (bytes \<times> dtmf_keypress) list" where
  "pressed os = List.map_filter (\<lambda>out. case out of Press l k \<Rightarrow> Some (l, k) | Datagram _ _ _ \<Rightarrow> None) os"

lemma pressed_simps [simp]:
  "pressed [] = []" "pressed (xs @ ys) = pressed xs @ pressed ys" "pressed (Press l k # xs) = (l, k) # pressed xs"
  "pressed (Datagram so de p # xs) = pressed xs"
  by (simp_all add: pressed_def map_filter_def)

lemma event_not_rtcp:
  assumes "rp_payload_type p = RFC4733_PAYLOAD_TYPE"
  shows "\<not> is_rtcp (take 2048 (rtp_encode p))"
proof -
  have "take 2048 (rtp_encode p) ! 1 = push_bit 7 (of_bool (rp_marker p)) OR 101"
    using assms by (simp add: rtp_encode_def RFC4733_PAYLOAD_TYPE_def)
  then show ?thesis by (cases "rp_marker p") (simp_all add: is_rtcp_def word_le_nat_alt)
qed

text \<open>The direction of a bridge that listens for digits, in telephone events only.\<close>

definition ears :: "'c bridge \<Rightarrow> side \<Rightarrow> bool \<times> dtmf_detector option \<times> inband_detector option" where
  "ears br s = (br_forwarding br s, br_rfc4733 br s, br_inband br s)"

definition listens :: "'c bridge \<Rightarrow> side \<Rightarrow> dtmf_detector \<Rightarrow> bool" where
  "listens br s d \<longleftrightarrow> ears br s = (True, Some d, None) \<and> bc_dtmf_sink (br_cfg br) \<and> lg_srtp (br_leg br s) = None"

text \<open>The datagrams of a leg that carry telephone events, and the inputs after which its forwarder
  still runs.\<close>

definition carries_event :: "octets \<Rightarrow> bool" where
  "carries_event dgram \<longleftrightarrow> \<not> is_rtcp (take 2048 dgram) \<and>
     (case rtp_parse (take 2048 dgram) of Some h \<Rightarrow> rh_payload_type h = RFC4733_PAYLOAD_TYPE | None \<Rightarrow> False)"

fun event_datagram :: "side \<Rightarrow> bridge_input \<Rightarrow> octets option" where
  "event_datagram s (Rtp_In s' dgram _ _ _) = (if s' = s \<and> carries_event dgram then Some dgram else None)"
| "event_datagram s _ = None"

fun keeps_going :: "side \<Rightarrow> bridge_input \<Rightarrow> bool" where
  "keeps_going s (Rtp_Recv_Failed s') \<longleftrightarrow> s' \<noteq> s"
| "keeps_going s Shut_Down \<longleftrightarrow> False"
| "keeps_going s _ \<longleftrightarrow> True"

definition presses_on :: "side \<Rightarrow> bridge_output list \<Rightarrow> dtmf_keypress list" where
  "presses_on s os = map snd (filter (\<lambda>(l, _). l = dir_of s) (pressed os))"

lemma presses_on_append [simp]: "presses_on s (xs @ ys) = presses_on s xs @ presses_on s ys"
  by (simp add: presses_on_def)

lemma presses_on_simps [simp]:
  "presses_on s [] = []" "presses_on s (Datagram so de p # os) = presses_on s os"
  "presses_on s (Press l k # os) = (if l = dir_of s then k # presses_on s os else presses_on s os)"
  by (simp_all add: presses_on_def)

lemma dir_of_inj [simp]: "dir_of s = dir_of s' \<longleftrightarrow> s = s'"
  by (cases s; cases s') simp_all

lemma packet_header:
  assumes "rp_payload_type p = RFC4733_PAYLOAD_TYPE" and "length (rp_payload p) \<le> 100"
  obtains h where "rtp_parse (rtp_encode p) = Some h" "rh_payload_type h = RFC4733_PAYLOAD_TYPE"
    "rh_timestamp h = rp_timestamp p" "rtp_payload h (rtp_encode p) = rp_payload p"
proof -
  have "rtp_decode (rtp_encode p) = Some p"
    using rtp_codec.decode_encode [of p] assms(1) by (simp add: RFC4733_PAYLOAD_TYPE_def)
  then obtain h where parse: "rtp_parse (rtp_encode p) = Some h"
    and p: "p = \<lparr> rp_marker = rh_marker h, rp_payload_type = rh_payload_type h, rp_sequence = rh_sequence h,
      rp_timestamp = rh_timestamp h, rp_ssrc = rh_ssrc h, rp_payload = rtp_payload h (rtp_encode p) \<rparr>"
    by (auto simp: rtp_decode_def split: option.splits)
  have "rp_payload_type p = rh_payload_type h" "rp_timestamp p = rh_timestamp h" "rp_payload p = rtp_payload h (rtp_encode p)"
    by (subst p, simp)+
  with that [OF parse] assms(1) show thesis by metis
qed

lemma bridge_hears_event:
  assumes "listens br s d" and "rp_payload_type p = RFC4733_PAYLOAD_TYPE" and "length (rp_payload p) \<le> 100"
    and "tev_parse (rp_payload p) = Some e"
  shows "listens (fst (bridge_step srtp analyse br (Rtp_In s (rtp_encode p) now ntp sent))) s (fst (detector_step d (e, rp_timestamp p)))
    \<and> presses_on s (snd (bridge_step srtp analyse br (Rtp_In s (rtp_encode p) now ntp sent)))
      = snd (detector_step d (e, rp_timestamp p))"
proof -
  have len: "take 2048 (rtp_encode p) = rtp_encode p" using assms(3) by (simp add: rtp_encode_def)
  obtain h where h: "rtp_parse (rtp_encode p) = Some h" "rh_payload_type h = RFC4733_PAYLOAD_TYPE"
      "rh_timestamp h = rp_timestamp p" "rtp_payload h (rtp_encode p) = rp_payload p"
    by (rule packet_header [OF assms(2,3)])
  have pair: "srtp_pair (lg_srtp (br_leg br s)) y = None" for y using assms(1) by (simp add: listens_def srtp_pair_def)
  have nr: "\<not> is_rtcp (rtp_encode p)" using event_not_rtcp [OF assms(2)] by (simp add: len)
  show ?thesis
    using assms(1,4) h nr pair
    by (auto simp: listens_def ears_def forward_def Let_def len ingress_packet_def egress_packet_def sniff_dtmf_def set_stats_def
        send_egress_def detector_step_def split: prod.splits option.splits)
qed

text \<open>Everything else that the bridge does leaves the direction as it is.\<close>

lemma ears_context [simp]:
  "ears (set_peer_tx br s' c) s = ears br s" "ears (set_local_tx br s' c) s = ears br s"
  "ears (set_stats br s' st) s = ears br s"
  by (simp_all add: ears_def set_peer_tx_def set_local_tx_def set_stats_def)

lemma ears_rtcp: "ears (rtcp_handle srtp br s' bs now ntp) s = ears br s"
proof -
  have "ears (foldl (absorb_packet s' now arrival) b ps) s = ears b s" for b arrival ps
    by (induction ps arbitrary: b) (simp_all add: absorb_packet_def absorb_blocks_def split: rtcp_packet.split)
  then show ?thesis
    by (auto simp: rtcp_handle_def Let_def split: option.splits prod.splits sum.splits)
qed

lemma ears_sniff:
  assumes "s' \<noteq> s \<or> rh_payload_type h \<noteq> RFC4733_PAYLOAD_TYPE" and "br_inband br s = None"
  shows "ears (fst (sniff_dtmf analyse br s' p h)) s = ears br s \<and> presses_on s (snd (sniff_dtmf analyse br s' p h)) = []"
proof -
  have "presses_on s (map (Press (dir_of s')) ks) = []" if "s' \<noteq> s" for ks using that by (induction ks) auto
  then show ?thesis using assms
    by (auto simp: sniff_dtmf_def ears_def Let_def split: prod.splits option.splits)
qed

lemma ears_send: "ears (fst (send_egress br s' p sent)) s = ears br s" "presses_on s (snd (send_egress br s' p sent)) = []"
  by (simp_all add: send_egress_def ears_def Let_def)

lemma ears_forward:
  assumes "s' \<noteq> s \<or> \<not> carries_event d" and "br_inband br s = None" and "lg_srtp (br_leg br s) = None"
  shows "ears (fst (forward srtp analyse br s' d now ntp sent)) s = ears br s
    \<and> presses_on s (snd (forward srtp analyse br s' d now ntp sent)) = []"
proof (cases "is_rtcp (take 2048 d)")
  case True
  then show ?thesis by (simp add: forward_def ears_rtcp)
next
  case False
  obtain br1 p where i: "ingress_packet srtp br s' (take 2048 d) = (br1, p)" by fastforce
  have b1: "ears br1 s = ears br s"
    using i by (auto simp: ingress_packet_def split: option.splits prod.splits sum.splits)
  have plain: "p = Some (take 2048 d)" if "s' = s"
    using i assms(3) that by (auto simp: ingress_packet_def srtp_pair_def)
  show ?thesis
  proof (cases "p = None \<or> rtp_parse (the p) = None")
    case True
    with False i b1 show ?thesis by (cases p) (auto simp: forward_def)
  next
    case ok: False
    then obtain q h where q: "p = Some q" "rtp_parse q = Some h" by auto
    let ?br2 = "set_stats br1 s' (observe_header (br_stats br1 s') h now)"
    obtain br3 pr where sn: "(if bc_dtmf_sink (br_cfg ?br2) then sniff_dtmf analyse ?br2 s' q h else (?br2, [])) = (br3, pr)"
      by fastforce
    have "br_inband ?br2 s = None" using b1 assms(2) by (simp add: ears_def set_stats_def)
    moreover have "s' \<noteq> s \<or> rh_payload_type h \<noteq> RFC4733_PAYLOAD_TYPE"
      using assms(1) plain q False by (auto simp: carries_event_def)
    ultimately have b3: "ears br3 s = ears br s" "presses_on s pr = []"
      using sn ears_sniff [of s' s h ?br2 analyse q] b1 by (auto split: if_splits)
    obtain br4 x where eg: "egress_packet srtp br3 s' (set_ssrc q (br_ssrc_toward br3 (other s'))) = (br4, x)" by fastforce
    have b4: "ears br4 s = ears br3 s"
      using eg by (auto simp: egress_packet_def split: option.splits prod.splits sum.splits)
    show ?thesis
      using False i q sn eg b3 b4 by (cases x) (simp_all add: forward_def case_prod_unfold Let_def ears_send)
  qed
qed

lemma bridge_hears_nothing:
  assumes "listens br s d" and "event_datagram s inp = None" and "keeps_going s inp"
  shows "listens (fst (bridge_step srtp analyse br inp)) s d \<and> presses_on s (snd (bridge_step srtp analyse br inp)) = []"
proof -
  have l: "br_inband br s = None" "lg_srtp (br_leg br s) = None" using assms(1) by (simp_all add: listens_def ears_def)
  have emit: "ears (fst (emit_sr srtp br s' now ntp sent)) s = ears br s \<and> presses_on s (snd (emit_sr srtp br s' now ntp sent)) = []"
    for s' now ntp sent
    by (auto simp: emit_sr_def ears_def set_local_tx_def Let_def split: option.splits prod.splits sum.splits)
  have "ears (fst (bridge_step srtp analyse br inp)) s = ears br s \<and> presses_on s (snd (bridge_step srtp analyse br inp)) = []"
    using assms(2,3)
  proof (cases inp)
    case (Rtp_In s' dgram now ntp sent)
    with assms(2) ears_forward [OF _ l, of s' dgram srtp analyse now ntp sent] show ?thesis by (auto split: if_splits)
  next
    case (Rtp_Recv_Failed s')
    with assms(3) show ?thesis by (simp add: ears_def)
  qed (auto simp: ears_rtcp emit, simp add: ears_def)
  moreover have "lg_srtp (br_leg (fst (bridge_step srtp analyse br inp)) s) = None"
    using l(2) wiringD(3) [OF wiring_step] by blast
  moreover have "br_cfg (fst (bridge_step srtp analyse br inp)) = br_cfg br" by (rule wiringD(6) [OF wiring_step])
  ultimately show ?thesis using assms(1) by (simp add: listens_def)
qed

definition event_packet :: "rtp_packet \<Rightarrow> bool" where
  "event_packet p \<longleftrightarrow> rp_payload_type p = RFC4733_PAYLOAD_TYPE \<and> length (rp_payload p) \<le> 100 \<and> tev_parse (rp_payload p) \<noteq> None"

lemma bridge_hears_events:
  assumes "listens br s d" and "list_all (keeps_going s) ins" and "list_all event_packet ps"
    and "List.map_filter (event_datagram s) ins = map rtp_encode ps"
  shows "presses_on s (snd (run (bridge_step srtp analyse) br ins)) = snd (run detector_step d (received ps))"
  using assms
proof (induction ins arbitrary: br d ps)
  case Nil
  then show ?case by (simp add: received_def map_filter_def)
next
  case (Cons inp ins)
  show ?case
  proof (cases "event_datagram s inp")
    case None
    then have rest: "List.map_filter (event_datagram s) ins = map rtp_encode ps"
      using Cons.prems(4) by (simp add: map_filter_def)
    have go: "keeps_going s inp" "list_all (keeps_going s) ins" using Cons.prems(2) by simp_all
    note step = bridge_hears_nothing [OF Cons.prems(1) None go(1), of srtp analyse]
    show ?thesis
      using Cons.IH [OF conjunct1 [OF step] go(2) Cons.prems(3) rest] conjunct2 [OF step]
      by (simp add: snd_run_Cons del: run.simps)
  next
    case (Some dgram)
    then obtain now ntp sent where inp: "inp = Rtp_In s dgram now ntp sent" by (cases inp) (auto split: if_splits)
    from Some Cons.prems(4) obtain p qs where ps: "ps = p # qs" "dgram = rtp_encode p"
        "List.map_filter (event_datagram s) ins = map rtp_encode qs"
      by (cases ps) (auto simp: map_filter_def)
    from Cons.prems(3) obtain e where p: "rp_payload_type p = RFC4733_PAYLOAD_TYPE" "length (rp_payload p) \<le> 100"
      and e: "tev_parse (rp_payload p) = Some e"
      by (auto simp: ps event_packet_def)
    have qs: "list_all event_packet qs" using Cons.prems(3) by (simp add: ps)
    note step = bridge_hears_event [OF Cons.prems(1) p e, of srtp analyse now ntp sent]
    have rec: "received ps = (e, rp_timestamp p) # received qs" by (simp add: received_def map_filter_def e ps)
    have go: "list_all (keeps_going s) ins" using Cons.prems(2) by simp
    show ?thesis
      unfolding inp ps(2) rec snd_run_Cons presses_on_append
      using Cons.IH [OF conjunct1 [OF step] go qs ps(3)] conjunct2 [OF step] by (simp only:)
  qed
qed

section \<open>End to end\<close>

lemma dialled_packet_ok:
  assumes "digit_to_event_code (di_digit p) \<noteq> None" and "q \<in> set (dialled_packets p)"
  shows "event_packet q"
proof -
  from assms(1) obtain ev where ev: "digit_to_event_code (di_digit p) = Some ev" by auto
  have "rp_payload_type q = RFC4733_PAYLOAD_TYPE \<and> length (rp_payload q) \<le> 100"
    using assms(2) unfolding dialled_packets_def generate_keypress_def ev
    by (auto simp: Let_def dtmf_packet_def tev_encode_def)
  moreover have "tev_parse (rp_payload q) \<noteq> None" using received_packet [OF ev assms(2)] by auto
  ultimately show ?thesis by (simp add: event_packet_def)
qed

text \<open>Property C33. A dialled number arrives. The tool is called with digits, all of them valid, and every send
  succeeds: it reports the number of packets it sent, the packets of all presses in order. Of each press
  the network delivers some packets, in any order among themselves and any number of times, at least one
  end packet among them, and all before those of the next press. They arrive, between any other media,
  RTCP, reports and the traffic of the other leg, on a leg without SRTP of a running bridge that reports
  telephone events there, with in-band detection off; they are the only telephone events on that leg, and
  the press it last reported or has in flight is not the first digit at timestamp zero (as with a fresh
  detector). Then the bridge reports for that direction exactly the dialled digits, in order, once each,
  in upper case, with the duration of the frames sent.\<close>

theorem dialled_number_arrives:
  assumes "digits \<noteq> []" and "list_all (\<lambda>c. digit_to_event_code c \<noteq> None) digits" and "dur < 2 ^ 32"
    and "dialled = dialled_stream digits (of_nat dur) ssrc sq 0"
    and "list_all2 delivers dialled delivered"
    and "List.map_filter (event_datagram s) ins = map rtp_encode (concat delivered)" and "list_all (keeps_going s) ins"
    and "listens br s d" and "dd_leg_id d = dir_of s" and "dd_clock_rate_hz d = clock"
    and "dd_last_emitted d \<noteq> Some (dialled_key (hd dialled))" and "dd_in_flight d \<noteq> Some (dialled_key (hd dialled))"
  shows "send_dtmf (Inr leg) digits (Some dur) ssrc sq (\<lambda>_. True)
      = (concat (map dialled_packets dialled), Inr (length (concat (map dialled_packets dialled))))
    \<and> presses_on s (snd (run (bridge_step srtp analyse) br ins))
      = map (\<lambda>c. \<lparr> kp_digit = dtmf_canonical c,
          kp_duration_ms = of_nat (min (160 * (max dur 20 div 20)) 65535 * 1000 div unat clock), kp_leg = dir_of s \<rparr>) digits"
proof -
  have ok: "p \<in> set dialled \<Longrightarrow> digit_to_event_code (di_digit p) \<noteq> None" for p
    using assms(2) map_di_digit [of digits "of_nat dur" ssrc sq 0] unfolding assms(4) list_all_iff by (metis image_eqI set_map)
  have sent: "dtmf_stream digits (of_nat dur) ssrc sq 0 = Some (map dialled_packets dialled)"
    unfolding assms(4) by (rule dtmf_stream_dialled [OF assms(2)])
  have tool: "send_dtmf (Inr leg) digits (Some dur) ssrc sq (\<lambda>_. True)
      = (concat (map dialled_packets dialled), Inr (length (concat (map dialled_packets dialled))))"
    using assms(1,2,3) by (auto simp: send_dtmf_def sent list_ex_iff list_all_iff Let_def takeWhile_eq_all_conv [THEN iffD2])
  have len: "length dialled = length delivered" by (rule list_all2_lengthD [OF assms(5)])
  have call: "dtmf_call (zip dialled delivered)"
    using assms(5) ok dialled_stream_keys [of digits "of_nat dur" ssrc sq 0] len
    unfolding dtmf_call_def assms(4) [symmetric] list_all2_iff list_all_iff by (auto dest: set_zip_leftD)
  have packets: "list_all event_packet (concat delivered)"
  proof -
    have "event_packet q" if ps: "ps \<in> set delivered" and q: "q \<in> set ps" for ps q
    proof -
      obtain p where "(p, ps) \<in> set (zip dialled delivered)" using in_set_impl_in_set_zip2 [OF len ps] by metis
      then have "p \<in> set dialled" "delivers p ps" using assms(5) by (auto simp: list_all2_iff dest: set_zip_leftD)
      then show ?thesis using dialled_packet_ok [OF ok] q by (auto simp: delivers_def)
    qed
    then show ?thesis by (auto simp: list_all_iff)
  qed
  have first: "zip dialled delivered \<noteq> [] \<Longrightarrow> fst (hd (zip dialled delivered)) = hd dialled"
    by (cases dialled; cases delivered) auto
  have "snd (run detector_step d (received (concat delivered))) = map (heard (dir_of s) clock \<circ> fst) (zip dialled delivered)"
    using run_dialled_all [OF call, of d] first assms(9-12) len by simp
  also have "\<dots> = map (heard (dir_of s) clock) dialled" using len by (simp flip: map_map)
  also have "\<dots> = map (\<lambda>c. \<lparr> kp_digit = dtmf_canonical c,
          kp_duration_ms = of_nat (min (160 * (max dur 20 div 20)) 65535 * 1000 div unat clock), kp_leg = dir_of s \<rparr>) (map di_digit dialled)"
  proof -
    have "unat (of_nat dur :: u32) = dur" using assms(3) by (simp add: unat_of_nat)
    then show ?thesis using set_duration [of _ digits "of_nat dur" ssrc sq 0] unfolding assms(4) [symmetric]
      by (auto simp: heard_def)
  qed
  finally show ?thesis
    using tool bridge_hears_events [OF assms(8,7) packets assms(6), of srtp analyse] map_di_digit [of digits "of_nat dur" ssrc sq 0]
    unfolding assms(4) [symmetric] by simp
qed

text \<open>Result. Dialling the same single digit twice is heard once. The tool starts every call at
  timestamp zero, and a detector that has reported a digit at that timestamp takes the packets of a second
  call for repetitions of the first, whatever the network makes of them.\<close>

theorem second_call_swallowed:
  assumes "digit_to_event_code c \<noteq> None" and "dialled_stream [c] dur ssrc sq 0 = [p]"
    and "dd_last_emitted d = Some (dialled_key p)" and "set ps \<subseteq> set (dialled_packets p)"
    and "List.map_filter (event_datagram s) ins = map rtp_encode ps" and "list_all (keeps_going s) ins" and "listens br s d"
  shows "presses_on s (snd (run (bridge_step srtp analyse) br ins)) = []"
proof -
  have p: "digit_to_event_code (di_digit p) \<noteq> None" using assms(1,2) by (auto simp: Let_def)
  then obtain ev where ev: "digit_to_event_code (di_digit p) = Some ev" by auto
  have packets: "list_all event_packet ps" using dialled_packet_ok [OF p] assms(4) by (auto simp: list_all_iff)
  have "list_all (\<lambda>i. key_of i = dialled_key p) (received ps)"
    using received_packet [OF ev] assms(4) by (force simp: list_all_iff received_def map_filter_def dialled_key_def ev)
  from run_swallowed [OF assms(3) this] bridge_hears_events [OF assms(7,6) packets assms(5), of srtp analyse]
  show ?thesis by simp
qed

section \<open>Witnesses\<close>

definition plain_leg :: "socket_id \<Rightarrow> unit leg" where
  "plain_leg so = leg_new so ([127, 0, 0, 1], of_nat so)"

definition dtmf_bridge :: "unit bridge" where
  "dtmf_bridge = spawn_with 1 (plain_leg 10) (plain_leg 20) (bridge_config_default \<lparr> bc_dtmf_sink := True \<rparr>) 77 88"

definition clear_transform :: "unit srtp_transform" where
  "clear_transform = \<lparr> protect_rtp = (\<lambda>c p. (c, Inr p)), unprotect_rtp = (\<lambda>c p. (c, Inr p)),
     protect_rtcp = (\<lambda>c p. (c, Inr p)), unprotect_rtcp = (\<lambda>c p. (c, Inr p)) \<rparr>"

definition number_55 :: "dialled list" where
  "number_55 = dialled_stream ''55'' 20 7 100 0"

text \<open>Of each press only the last end packet arrives, twice.\<close>

definition arrived_55 :: "rtp_packet list list" where
  "arrived_55 = map (\<lambda>p. arrivals p [3, 3]) number_55"

text \<open>After each of them a datagram of the other leg, an RTCP datagram and a tick of the emitter.\<close>

definition inputs_55 :: "bridge_input list" where
  "inputs_55 = concat (map (\<lambda>p. Rtp_In Leg_A (rtp_encode p) 5 6 False
       # [Rtp_In Leg_B [] 7 8 True, Rtcp_In Leg_A [] 7 8, Sr_Tick Leg_A 9 9 True]) (concat arrived_55))"

lemma event_packet_carries: "event_packet p \<Longrightarrow> carries_event (rtp_encode p)"
proof -
  assume e: "event_packet p"
  then have p: "rp_payload_type p = RFC4733_PAYLOAD_TYPE" "length (rp_payload p) \<le> 100" by (simp_all add: event_packet_def)
  have "take 2048 (rtp_encode p) = rtp_encode p" using p(2) by (simp add: rtp_encode_def)
  moreover obtain h where "rtp_parse (rtp_encode p) = Some h" "rh_payload_type h = RFC4733_PAYLOAD_TYPE"
    by (rule packet_header [OF p])
  ultimately show "carries_event (rtp_encode p)" using event_not_rtcp [OF p(1)] by (simp add: carries_event_def)
qed

lemma event_inputs:
  assumes "list_all event_packet ps" and "List.map_filter (event_datagram s) others = []"
  shows "List.map_filter (event_datagram s) (concat (map (\<lambda>p. Rtp_In s (rtp_encode p) a b c # others) ps)) = map rtp_encode ps"
  using assms by (induction ps) (simp_all add: map_filter_def event_packet_carries)

lemma dtmf_bridge_listens: "listens dtmf_bridge Leg_A (detector_new (dir_of Leg_A) 8000)"
  by (simp add: listens_def ears_def dtmf_bridge_def spawn_with_def plain_leg_def leg_new_def DEFAULT_RTP_CLOCK_RATE_def
      bridge_config_default_def Let_def)

theorem dialled_number_arrives_witness:
  "presses_on Leg_A (snd (run (bridge_step clear_transform (\<lambda>_. None)) dtmf_bridge inputs_55))
     = [\<lparr> kp_digit = CHR ''5'', kp_duration_ms = 20, kp_leg = ''a->b'' \<rparr>,
        \<lparr> kp_digit = CHR ''5'', kp_duration_ms = 20, kp_leg = ''a->b'' \<rparr>]"
proof -
  have five: "digit_to_event_code CHR ''5'' = Some 5" by code_simp
  have frames: "unat (dtmf_frames 20) = 1" by (simp add: dtmf_frames_def DTMF_GEN_FRAME_MS_def)
  have digit: "di_digit p = CHR ''5''" if "p \<in> set number_55" for p
    using that unfolding number_55_def by (auto simp: Let_def)
  have del1: "delivers p (arrivals p [3, 3])" if "p \<in> set number_55" for p
    using that unfolding number_55_def
    by (intro arrivals_deliver [OF _ refl, of _ 5]) (auto simp: Let_def five frames)
  then have del: "list_all2 delivers number_55 arrived_55"
    by (simp add: arrived_55_def list_all2_map2 list_all2_same)
  have "list_all event_packet (concat arrived_55)"
  proof -
    have "event_packet q" if "p \<in> set number_55" "q \<in> set (arrivals p [3, 3])" for p q
      using dialled_packet_ok [of p q] del1 [OF that(1)] that digit five by (auto simp: delivers_def)
    then show ?thesis by (auto simp: arrived_55_def list_all_iff)
  qed
  then have ev: "List.map_filter (event_datagram Leg_A) inputs_55 = map rtp_encode (concat arrived_55)"
    unfolding inputs_55_def by (rule event_inputs) simp_all
  have go: "list_all (keeps_going Leg_A) inputs_55" by (simp add: inputs_55_def list_all_iff)
  have d: "dd_leg_id (detector_new (dir_of Leg_A) 8000) = dir_of Leg_A" "dd_clock_rate_hz (detector_new (dir_of Leg_A) 8000) = 8000"
      "dd_last_emitted (detector_new (dir_of Leg_A) 8000) \<noteq> Some (dialled_key (hd number_55))"
      "dd_in_flight (detector_new (dir_of Leg_A) 8000) \<noteq> Some (dialled_key (hd number_55))"
    by (simp_all add: detector_new_def max_def word_le_nat_alt)
  from dialled_number_arrives [where digits = "''55''" and dur = 20 and ssrc = 7 and sq = 100 and leg = "()"
      and srtp = clear_transform and analyse = "\<lambda>_. None", OF _ _ _ _ del ev go dtmf_bridge_listens d]
  show ?thesis by (simp add: five number_55_def dtmf_canonical_def)
qed

theorem bridge_relays_media_witness:
  "(\<exists>w. sent_datagrams (snd (bridge_step clear_transform (\<lambda>_. None) dtmf_bridge (Rtp_In Leg_A (rtp_encode sample_rtp) 1 2 True)))
     = [Datagram 20 ([127, 0, 0, 1], 20) w] \<and> rtp_decode w = Some (sample_rtp \<lparr> rp_ssrc := 77 \<rparr>))"
proof -
  have srtp: "lg_srtp (plain_leg so) = None" for so by (simp add: plain_leg_def leg_new_def)
  have br: "dtmf_bridge = fst (run (bridge_step clear_transform (\<lambda>_. None)) (spawn_with 1 (plain_leg 10) (plain_leg 20) (bridge_config_default \<lparr> bc_dtmf_sink := True \<rparr>) 77 88) [])"
    by (simp add: dtmf_bridge_def)
  have fw: "br_forwarding dtmf_bridge Leg_A" by (simp add: dtmf_bridge_def spawn_with_def Let_def)
  have take: "take 2048 (rtp_encode sample_rtp) = rtp_encode sample_rtp" "\<not> is_rtcp (rtp_encode sample_rtp)"
    by (simp_all add: rtp_encode_def sample_rtp_def is_rtcp_def word_le_nat_alt)
  have "rtp_decode (rtp_encode sample_rtp) = Some sample_rtp"
    using rtp_codec.decode_encode [of sample_rtp] by (simp add: sample_rtp_def)
  with bridge_relays_media [OF srtp srtp br fw, of "rtp_encode sample_rtp" 1 2] take fw show ?thesis
    by (auto simp: Let_def plain_leg_def leg_new_def)
qed

text \<open>A toy transform that sets a mark in front of the packet, and rejects what does not carry it.\<close>

definition mark_transform :: "unit srtp_transform" where
  "mark_transform =
     (let seal = (\<lambda>c p. (c, Inr (0x99 # p))); unseal = (\<lambda>c p. (c, case p of b # q \<Rightarrow> if b = 0x99 then Inr q else Inl SrtpAuthFailed | [] \<Rightarrow> Inl SrtpAuthFailed))
      in \<lparr> protect_rtp = seal, unprotect_rtp = unseal, protect_rtcp = seal, unprotect_rtcp = unseal \<rparr>)"

definition sealed_leg :: "socket_id \<Rightarrow> unit leg" where
  "sealed_leg so = (plain_leg so) \<lparr> lg_srtp := Some \<lparr> ls_peer_tx = (), ls_local_tx = () \<rparr> \<rparr>"

theorem bridge_srtp_end_to_end_witness:
  "snd (bridge_step mark_transform (\<lambda>_. None) (spawn_with 1 (sealed_leg 10) (sealed_leg 20) bridge_config_default 77 88)
     (Rtp_In Leg_A (rtp_encode sample_rtp) 1 2 True)) = []"
proof -
  have srtp: "lg_srtp (sealed_leg so) \<noteq> None" for so by (simp add: sealed_leg_def)
  have "lg_srtp (br_leg (fst (run (bridge_step mark_transform (\<lambda>_. None)) (spawn_with 1 (sealed_leg 10) (sealed_leg 20) bridge_config_default 77 88) [])) Leg_A)
      = Some \<lparr> ls_peer_tx = (), ls_local_tx = () \<rparr>" by (simp add: sealed_leg_def)
  moreover have take: "take 2048 (rtp_encode sample_rtp) = rtp_encode sample_rtp" "\<not> is_rtcp (rtp_encode sample_rtp)"
    by (simp_all add: rtp_encode_def sample_rtp_def is_rtcp_def word_le_nat_alt)
  moreover have "unprotect_rtp mark_transform () (rtp_encode sample_rtp) = ((), Inl SrtpAuthFailed)"
    by (simp add: mark_transform_def rtp_encode_def Let_def)
  ultimately show ?thesis
    using bridge_srtp_end_to_end [OF srtp [of 10] srtp [of 20], of 1 bridge_config_default 77 88 mark_transform "\<lambda>_. None" "[]" "rtp_encode sample_rtp" Leg_A
        "\<lparr> ls_peer_tx = (), ls_local_tx = () \<rparr>" "()" SrtpAuthFailed 1 2 True]
    by (auto simp: Let_def split: prod.splits if_splits)
qed

theorem bridge_mixed_legs_relay_plaintext_witness:
  "sent_datagrams (snd (bridge_step mark_transform (\<lambda>_. None) (spawn_with 1 (plain_leg 10) (sealed_leg 20) bridge_config_default 77 88)
     (Rtp_In Leg_A (rtp_encode sample_rtp) 1 2 True))) = [Datagram 20 ([127, 0, 0, 1], 20) (set_ssrc (rtp_encode sample_rtp) 77)]"
proof -
  let ?br = "spawn_with 1 (plain_leg 10) (sealed_leg 20) bridge_config_default 77 88"
  have srtp: "lg_srtp (plain_leg 10) = None \<longleftrightarrow> lg_srtp (sealed_leg 20) \<noteq> None" by (simp_all add: plain_leg_def leg_new_def sealed_leg_def)
  have br: "?br = fst (run (bridge_step mark_transform (\<lambda>_. None)) ?br [])" by simp
  have fw: "br_forwarding ?br Leg_A" by (simp add: spawn_with_def Let_def)
  have take: "take 2048 (rtp_encode sample_rtp) = rtp_encode sample_rtp" "\<not> is_rtcp (take 2048 (rtp_encode sample_rtp))"
    by (simp_all add: rtp_encode_def sample_rtp_def is_rtcp_def word_le_nat_alt)
  have "rtp_decode (rtp_encode sample_rtp) = Some sample_rtp"
    using rtp_codec.decode_encode [of sample_rtp] by (simp add: sample_rtp_def)
  then obtain h where "rtp_parse (take 2048 (rtp_encode sample_rtp)) = Some h" by (auto simp: take rtp_decode_def split: option.splits)
  from bridge_mixed_legs_relay_plaintext [OF srtp br fw take(2) this, of 1 2] show ?thesis
    by (simp add: take sealed_leg_def plain_leg_def leg_new_def)
qed

end
