(* ===== verification/Bridge_Rtcp.thy ===== *)
theory Bridge_Rtcp
  imports Bridge_Properties
begin

text \<open>
  The reports of the bridge: what a peer reads in them, and that two engines that report to each other
  measure the round-trip time between them.
\<close>

section \<open>The emitted report\<close>

lemma length_pad_hex [simp]: "length (pad_hex k n) = k"
  by (induction k arbitrary: n) simp_all

lemma hex_digit_ascii: "d < 16 \<Longrightarrow> code (hex_digit d) < (128 :: nat)"
  by (simp add: hex_digit_def)

lemma set_pad_hex: "c \<in> set (pad_hex k n) \<Longrightarrow> code c < (128 :: nat)"
  by (induction k arbitrary: n) (auto simp: hex_digit_ascii)

lemma cname_ok: "length (bridge_cname ssrc) = 19" "valid_utf8 (bridge_cname ssrc)"
proof -
  show "length (bridge_cname ssrc) = 19" by (simp add: bridge_cname_def)
  show "valid_utf8 (bridge_cname ssrc)"
    by (rule valid_utf8_ascii) (auto simp: bridge_cname_def is_ascii_def list_all_iff dest: set_pad_hex)
qed

text \<open>What the bridge knows about the stream it receives from a leg and the stream it sends to it.\<close>

definition report_sr :: "'c bridge \<Rightarrow> side \<Rightarrow> u64 \<Rightarrow> parsed_sr" where
  "report_sr br s ntp =
     \<lparr> sr_sender_ssrc = br_ssrc_toward br s, sr_ntp_ts = ntp, sr_rtp_ts = st_last_rtp_ts (br_stats br (other s)),
       sr_packet_count = try_from_or_max (unat (st_packets (br_stats br (other s)))),
       sr_octet_count = try_from_or_max (unat (st_octets (br_stats br (other s)))) \<rparr>"

definition report_rb :: "'c bridge \<Rightarrow> side \<Rightarrow> interval_loss \<Rightarrow> u64 \<Rightarrow> report_block" where
  "report_rb br s il now =
     (let snap = snapshot (br_stats br s) now
      in \<lparr> rb_ssrc = st_last_ssrc (br_stats br s), rb_fraction_lost = snd (fraction_lost il snap),
           rb_cumulative_lost = ss_cumulative_lost snap, rb_extended_highest_seq = st_max_seq (br_stats br s),
           rb_jitter = ss_jitter snap, rb_last_sr = st_last_sr_ntp_mid (br_stats br s),
           rb_delay_since_last_sr = (case ss_last_sr_age snap of None \<Rightarrow> 0 | Some age \<Rightarrow> to_dlsr age) \<rparr>)"

definition report_item :: "'c bridge \<Rightarrow> side \<Rightarrow> interval_loss \<Rightarrow> u64 \<Rightarrow> u64 \<Rightarrow> rtcp_item" where
  "report_item br s il now ntp =
     (if st_packets (br_stats br s) = 0 then ItemSr (report_sr br s ntp) else ItemSrRb (report_sr br s ntp) (report_rb br s il now))"

lemma sender_report_item: "snd (sender_report br s il now ntp) = build_item (report_item br s il now ntp)"
  by (auto simp: sender_report_def report_item_def report_sr_def report_rb_def snapshot_def Let_def split: prod.split)

lemma emitted_datagram:
  assumes "br_emitter br s = Some il" and "lg_rtcp (br_leg br s) = Some rtcp" and "lg_srtp (br_leg br s) = None"
  shows "snd (emit_sr srtp br s now ntp True) = [Datagram (rl_socket rtcp) (rl_peer rtcp)
    (build_compound (map build_item [report_item br s il now ntp, ItemSdes (br_ssrc_toward br s) (bridge_cname (br_ssrc_toward br s))]))]"
proof -
  obtain il' sr where sr: "sender_report br s il now ntp = (il', sr)" by (cases "sender_report br s il now ntp")
  have "sr = build_item (report_item br s il now ntp)" using sender_report_item [of br s il now ntp] sr by simp
  then show ?thesis using assms by (simp add: emit_sr_def sr Let_def)
qed

lemma length_report:
  "length (build_compound (map build_item [report_item br s il now ntp, ItemSdes ssrc (bridge_cname ssrc)])) \<le> 1500"
proof -
  have "length (build_item (report_item br s il now ntp)) \<le> 52"
    by (simp add: report_item_def build_sr_def build_sr_with_rb_def sender_info_def)
  moreover have "length (build_sdes_cname ssrc (bridge_cname ssrc)) \<le> 40"
    by (simp add: build_sdes_cname_def resize_def Let_def cname_ok pad4_def)
  ultimately show ?thesis by (simp add: build_compound_def)
qed

lemma bridge_reports_both:
  assumes "br_emitter br s = Some il" and "lg_rtcp (br_leg br s) = Some rtcp" and "lg_srtp (br_leg br s) = None"
    and "rb_ok (report_rb br s il now)"
  shows "\<exists>w. snd (bridge_step srtp analyse br (Sr_Tick s now ntp True)) = [Datagram (rl_socket rtcp) (rl_peer rtcp) w]
    \<and> parse_compound w = [SenderReport (report_sr br s ntp) (if st_packets (br_stats br s) = 0 then [] else [report_rb br s il now]),
        SourceDescription [\<lparr> sc_ssrc = br_ssrc_toward br s, sc_cname = Some (bridge_cname (br_ssrc_toward br s)) \<rparr>]]"
proof -
  let ?its = "[report_item br s il now ntp, ItemSdes (br_ssrc_toward br s) (bridge_cname (br_ssrc_toward br s))]"
  have "list_all item_ok ?its" using assms(4) by (simp add: report_item_def cname_ok)
  from rtcp_compound_roundtrip [OF this] emitted_datagram [OF assms(1-3), of srtp now ntp] show ?thesis
    by (auto simp: report_item_def simp del: build_item.simps)
qed

text \<open>Handling RTCP leaves the emitters alone.\<close>

lemma emitter_absorb: "br_emitter (foldl (absorb_packet s now arrival) br ps) = br_emitter br"
  by (induction ps arbitrary: br) (simp_all add: absorb_packet_def absorb_blocks_def set_stats_def split: rtcp_packet.split)

lemma emitter_rtcp: "br_emitter (rtcp_handle srtp br s bs now ntp) = br_emitter br"
  by (auto simp: rtcp_handle_def Let_def emitter_absorb set_peer_tx_def split: option.splits prod.splits sum.splits)

text \<open>Result. A leg with RTCP and without SRTP gets, at every tick, one compound datagram on its RTCP
  address, from which the engine's own parser reads exactly: a sender report under the SSRC the bridge
  uses toward that leg, with the time of the tick and the timestamp, packet and octet counts of the
  stream relayed to it; in it, once anything was received from the leg, one report block about the
  stream received, which echoes the peer's last sender report; and the canonical name of the bridge.\<close>

theorem bridge_reports_both_streams:
  assumes "br_emitter br s = Some il" and "lg_rtcp (br_leg br s) = Some rtcp" and "lg_srtp (br_leg br s) = None"
    and "rb_ok (report_rb br s il now)"
  shows "\<exists>w. snd (bridge_step srtp analyse br (Sr_Tick s now ntp True)) = [Datagram (rl_socket rtcp) (rl_peer rtcp) w]
    \<and> parse_compound w = [SenderReport (report_sr br s ntp) (if st_packets (br_stats br s) = 0 then [] else [report_rb br s il now]),
        SourceDescription [\<lparr> sc_ssrc = br_ssrc_toward br s, sc_cname = Some (bridge_cname (br_ssrc_toward br s)) \<rparr>]]"
  by (rule bridge_reports_both [OF assms])

section \<open>Round-trip time between two engines\<close>

lemma stats_set [simp]: "br_stats (set_stats br s st) = (br_stats br)(s := st)"
  by (simp add: set_stats_def)

lemma other_neq [simp]: "other s \<noteq> s" "s \<noteq> other s"
  by (cases s; simp)+

text \<open>A report that arrives on a leg: on its RTCP socket, or multiplexed on its media socket.\<close>

fun arrives :: "'c bridge \<Rightarrow> side \<Rightarrow> octets \<Rightarrow> u64 \<Rightarrow> u64 \<Rightarrow> bridge_input \<Rightarrow> bool" where
  "arrives br s w now ntp (Rtcp_In s' w' now' ntp') \<longleftrightarrow>
     s' = s \<and> w' = w \<and> now' = now \<and> ntp' = ntp \<and> br_listening br s"
| "arrives br s w now ntp (Rtp_In s' w' now' ntp' sent) \<longleftrightarrow>
     s' = s \<and> w' = w \<and> now' = now \<and> ntp' = ntp \<and> br_forwarding br s"
| "arrives br s w now ntp _ \<longleftrightarrow> False"

lemma report_is_rtcp: "is_rtcp (build_compound (map build_item [report_item br s il now ntp, it]))"
  by (simp add: report_item_def build_sr_def build_sr_with_rb_def sender_info_def build_compound_def is_rtcp_def
      PT_SENDER_REPORT_def)

lemma arrived:
  assumes "arrives br s w now ntp inp" and "length w \<le> 1500" and "is_rtcp w"
  shows "fst (bridge_step srtp analyse br inp) = rtcp_handle srtp br s w now ntp"
  using assms by (cases inp) (auto simp: forward_def)

lemma heard_report:
  assumes "arrives br s w now ntp inp" and "lg_srtp (br_leg br s) = None" and "length w \<le> 1500" and "is_rtcp w"
    and "parse_compound w = [SenderReport sr blocks, SourceDescription cs]"
  shows "br_stats (fst (bridge_step srtp analyse br inp)) s = record_sender_report (br_stats br s) (sr_ntp_ts sr) now
    \<and> br_stats (fst (bridge_step srtp analyse br inp)) (other s)
      = foldl (\<lambda>st rb. record_peer_report st rb (round_trip_time (ntp_middle ntp) rb)) (br_stats br (other s))
          (filter (\<lambda>rb. rb_ssrc rb = br_ssrc_toward br s) blocks)"
  using arrived [OF assms(1,3,4), of srtp analyse] assms(2,5)
  by (simp add: rtcp_handle_def absorb_packet_def absorb_blocks_def set_stats_def)

text \<open>What a stream remembers of its peer's last sender report changes with such a report only.\<close>

definition sr_stamp :: "stream_stats \<Rightarrow> u32 \<times> u64" where
  "sr_stamp st = (st_last_sr_ntp_mid st, st_last_sr_arrival_ns st)"

fun is_sender_report :: "rtcp_packet \<Rightarrow> bool" where
  "is_sender_report (SenderReport _ _) = True"
| "is_sender_report _ = False"

fun no_sender_report :: "side \<Rightarrow> bridge_input \<Rightarrow> bool" where
  "no_sender_report r (Rtcp_In s d _ _) \<longleftrightarrow> s \<noteq> r \<or> \<not> list_ex is_sender_report (parse_compound (take 1500 d))"
| "no_sender_report r (Rtp_In s d _ _ _) \<longleftrightarrow>
     s \<noteq> r \<or> \<not> is_rtcp (take 2048 d) \<or> \<not> list_ex is_sender_report (parse_compound (take 2048 d))"
| "no_sender_report r _ \<longleftrightarrow> True"

lemma stamp_simps [simp]:
  "sr_stamp (observe_header st h now) = sr_stamp st"
  "sr_stamp (record_peer_report st rb rtt) = sr_stamp st"
  by (simp_all add: sr_stamp_def observe_header_def track_seq_def update_jitter_def record_peer_report_def Let_def
      split: option.split)

lemma stamp_reports [simp]: "sr_stamp (foldl (\<lambda>st rb. record_peer_report st rb (f rb)) st rbs) = sr_stamp st"
  by (induction rbs arbitrary: st) simp_all

lemma stats_of_context [simp]:
  "br_stats (set_peer_tx br s c) = br_stats br" "br_stats (set_local_tx br s c) = br_stats br"
  by (simp_all add: set_peer_tx_def set_local_tx_def)

lemma stamp_absorb:
  assumes "s \<noteq> r \<or> \<not> list_ex is_sender_report ps"
  shows "sr_stamp (br_stats (foldl (absorb_packet s now arrival) br ps) r) = sr_stamp (br_stats br r)"
  using assms
proof (induction ps arbitrary: br)
  case (Cons p ps)
  have "sr_stamp (br_stats (absorb_packet s now arrival br p) r) = sr_stamp (br_stats br r)"
    using Cons.prems by (cases p) (auto simp: absorb_packet_def absorb_blocks_def)
  with Cons show ?case by auto
qed simp

lemma stamp_rtcp:
  assumes "s \<noteq> r \<or> lg_srtp (br_leg br r) = None \<and> \<not> list_ex is_sender_report (parse_compound bs)"
  shows "sr_stamp (br_stats (rtcp_handle srtp br s bs now ntp) r) = sr_stamp (br_stats br r)"
proof (cases "s = r")
  case True
  with assms show ?thesis by (simp add: rtcp_handle_def stamp_absorb)
next
  case False
  then show ?thesis by (auto simp: rtcp_handle_def Let_def stamp_absorb split: option.splits prod.splits sum.splits)
qed

lemma stats_sniff: "br_stats (fst (sniff_dtmf analyse br s p h)) = br_stats br"
  by (auto simp: sniff_dtmf_def Let_def split: option.splits prod.splits)

lemma stats_send: "br_stats (fst (send_egress br s p sent)) = br_stats br"
  by (simp add: send_egress_def Let_def)

lemma stamp_forward:
  assumes "s \<noteq> r \<or> \<not> is_rtcp (take 2048 d) \<or>
      lg_srtp (br_leg br r) = None \<and> \<not> list_ex is_sender_report (parse_compound (take 2048 d))"
  shows "sr_stamp (br_stats (fst (forward srtp analyse br s d now ntp sent)) r) = sr_stamp (br_stats br r)"
proof (cases "is_rtcp (take 2048 d)")
  case True
  with assms show ?thesis by (simp add: forward_def stamp_rtcp)
next
  case False
  obtain br1 p where i: "ingress_packet srtp br s (take 2048 d) = (br1, p)" by fastforce
  have b1: "br_stats br1 = br_stats br"
    using i by (auto simp: ingress_packet_def split: option.splits prod.splits sum.splits)
  have e: "br_stats br' = br_stats b" if "egress_packet srtp b s q = (br', x)" for b q br' x
    using that by (auto simp: egress_packet_def split: option.splits prod.splits sum.splits)
  show ?thesis
  proof (cases "p = None \<or> rtp_parse (the p) = None")
    case True
    with False i b1 show ?thesis by (cases p) (auto simp: forward_def)
  next
    case ok: False
    then obtain q h where q: "p = Some q" "rtp_parse q = Some h" by auto
    let ?br2 = "set_stats br1 s (observe_header (br_stats br1 s) h now)"
    obtain br3 pr where sn: "(if bc_dtmf_sink (br_cfg ?br2) then sniff_dtmf analyse ?br2 s q h else (?br2, [])) = (br3, pr)"
      by fastforce
    have b3: "br_stats br3 = br_stats ?br2"
      using sn stats_sniff [of analyse ?br2 s q h] by (auto split: if_splits)
    obtain br4 x where eg: "egress_packet srtp br3 s (set_ssrc q (br_ssrc_toward br3 (other s))) = (br4, x)" by fastforce
    have "br_stats (fst (forward srtp analyse br s d now ntp sent)) = br_stats ?br2"
      using False i q sn eg e [OF eg] b3 stats_send [of br4 s _ sent]
      by (cases x) (simp_all add: forward_def case_prod_unfold Let_def)
    then show ?thesis by (simp add: b1)
  qed
qed

lemma stamp_step:
  assumes "no_sender_report r inp" and "lg_srtp (br_leg br r) = None"
  shows "sr_stamp (br_stats (fst (bridge_step srtp analyse br inp)) r) = sr_stamp (br_stats br r)"
  using assms
proof (cases inp)
  case (Sr_Tick s now ntp sent)
  have "br_stats (fst (emit_sr srtp br s now ntp sent)) = br_stats br"
    by (auto simp: emit_sr_def Let_def split: option.splits prod.splits sum.splits)
  with Sr_Tick show ?thesis by simp
qed (auto simp: stamp_forward stamp_rtcp bridge_shutdown_def)

lemma stamp_run:
  "list_all (no_sender_report r) ins \<Longrightarrow> lg_srtp (br_leg br r) = None \<Longrightarrow>
   sr_stamp (br_stats (fst (run (bridge_step srtp analyse) br ins)) r) = sr_stamp (br_stats br r)"
proof (induction ins arbitrary: br)
  case (Cons inp ins)
  have "lg_srtp (br_leg (fst (bridge_step srtp analyse br inp)) r) = None"
    using Cons.prems(2) wiringD(3) [OF wiring_step] by blast
  with Cons stamp_step [of r inp br srtp analyse] show ?case by (simp add: fst_run_Cons del: run.simps)
qed simp

lemma heard_rtt:
  assumes "round_trip_time arrival rb = Some (1000 * us)" and "us < 2 ^ 62"
  shows "ss_peer_rtt (snapshot (record_peer_report st rb (round_trip_time arrival rb)) now) = Some (1000 * us)"
proof -
  have "unat (of_nat us :: u64) = us" using assms(2) by (simp add: unat_of_nat)
  moreover from this have "(of_nat us :: u64) \<noteq> NEVER"
    using assms(2) by (auto simp: NEVER_def word_unat_eq_iff unsigned_minus_1_eq_mask mask_eq_exp_minus_1)
  ultimately show ?thesis using assms by (simp add: record_peer_report_def snapshot_def Let_def)
qed

text \<open>Property C32. Two engines measure the time between them. Both have RTCP and no SRTP on the leg that
  connects them. Engine \<open>x\<close> reports to its leg \<open>s\<close> at NTP time \<open>n1\<close>. Engine \<open>y\<close> hears that report on its
  leg \<open>r\<close> at its time \<open>u0\<close>, on a separate RTCP socket or multiplexed with the media; then any traffic,
  ticks and reports may follow on both its legs, but no other sender report from leg \<open>r\<close>; at \<open>u1\<close>,
  when the last media packet of that leg was \<open>x\<close>'s, it reports in its turn. \<open>x\<close>, in whatever state it is
  then, hears that report at NTP time \<open>n2\<close>, in either way. The cumulative losses they report fit the 24
  bits of the field. If all this took \<open>rtt\<close> ticks of 1/65536 s more than \<open>y\<close> says it held the report, then
  the round-trip time \<open>x\<close> shows for the stream it sends is exactly that, in microseconds rounded down.\<close>

theorem engines_measure_round_trip:
  assumes x: "br_emitter x s = Some il" "lg_rtcp (br_leg x s) = Some xr" "lg_srtp (br_leg x s) = None" "rb_ok (report_rb x s il t1)"
    and w1: "snd (bridge_step srtp analyse x (Sr_Tick s t1 n1 True)) = [Datagram (rl_socket xr) (rl_peer xr) w1]"
    and y: "arrives y r w1 u0 m hearing" "lg_srtp (br_leg y r) = None" "lg_rtcp (br_leg y r) = Some yr" "u0 \<noteq> NEVER"
    and y1: "y1 = fst (run (bridge_step srtp analyse) y (hearing # ins))" "list_all (no_sender_report r) ins"
      "br_emitter y1 r = Some il'" "st_packets (br_stats y1 r) \<noteq> 0" "st_last_ssrc (br_stats y1 r) = br_ssrc_toward x s"
      "rb_ok (report_rb y1 r il' u1)"
    and w2: "snd (bridge_step srtp analyse y1 (Sr_Tick r u1 m' True)) = [Datagram (rl_socket yr) (rl_peer yr) w2]"
    and x': "wiring x' = wiring x" "arrives x' s w2 t2 n2 answer"
    and n: "ntp_middle n1 \<noteq> 0" "ntp_middle n2 = ntp_middle n1 + to_dlsr (unat (saturating_sub u1 u0)) + rtt" "unat rtt < 2 ^ 31"
  shows "ss_peer_rtt (snapshot (br_stats (fst (bridge_step srtp analyse x' answer)) (other s)) t3)
    = Some (1000 * (unat rtt * 1000000 div 65536))"
proof -
  let ?y0 = "fst (bridge_step srtp analyse y hearing)"
  have "w1 = build_compound (map build_item [report_item x s il t1 n1, ItemSdes (br_ssrc_toward x s) (bridge_cname (br_ssrc_toward x s))])"
    using emitted_datagram [OF x(1-3), of srtp t1 n1] w1 by simp
  then have l1: "length w1 \<le> 1500" "is_rtcp w1" using length_report report_is_rtcp by metis+
  obtain bl cs where p1: "parse_compound w1 = [SenderReport (report_sr x s n1) bl, SourceDescription cs]"
    using bridge_reports_both [OF x, of srtp analyse n1] w1 by auto
  have none0: "lg_srtp (br_leg ?y0 r) = None" using y(2) wiringD(3) [OF wiring_step] by blast
  have "sr_stamp (br_stats y1 r) = sr_stamp (br_stats ?y0 r)"
    unfolding y1(1) fst_run_Cons by (rule stamp_run [OF y1(2) none0])
  then have heard: "st_last_sr_ntp_mid (br_stats y1 r) = ntp_middle n1" "st_last_sr_arrival_ns (br_stats y1 r) = u0"
    using heard_report [OF y(1,2) l1 p1, of srtp analyse] by (simp_all add: sr_stamp_def report_sr_def record_sender_report_def)
  have wy: "wiring y1 = wiring y" unfolding y1(1) by (rule wiring_run)
  have em: "br_emitter y1 r = Some il'" "lg_rtcp (br_leg y1 r) = Some yr" "lg_srtp (br_leg y1 r) = None"
    using y y1(3) wiringD(3,5) [OF wy, of r] by simp_all
  let ?rb = "report_rb y1 r il' u1"
  have rb: "rb_ssrc ?rb = br_ssrc_toward x s" "rb_last_sr ?rb = ntp_middle n1"
    "rb_delay_since_last_sr ?rb = to_dlsr (unat (saturating_sub u1 u0))"
    using y1(5) y(4) by (simp_all add: report_rb_def heard snapshot_def Let_def)
  obtain cs' where p2: "parse_compound w2 = [SenderReport (report_sr y1 r m') [?rb], SourceDescription cs']"
    using bridge_reports_both [OF em y1(6), of srtp analyse m'] w2 y1(4) by auto
  have "w2 = build_compound (map build_item [report_item y1 r il' u1 m', ItemSdes (br_ssrc_toward y1 r) (bridge_cname (br_ssrc_toward y1 r))])"
    using emitted_datagram [OF em, of srtp u1 m'] w2 by simp
  then have l2: "length w2 \<le> 1500" "is_rtcp w2" using length_report report_is_rtcp by metis+
  have none: "lg_srtp (br_leg x' s) = None" using wiringD(3) [OF x'(1), of s] x(3) by simp
  have "round_trip_time (ntp_middle n2) ?rb = Some (1000 * (unat rtt * 1000000 div 65536))"
    using round_trip_time_exact [of ?rb rtt] rb n by simp
  moreover have "unat rtt * 1000000 div 65536 < 2 ^ 62"
    by (rule le_less_trans [OF div_le_dividend]) (use n(3) in simp)
  ultimately show ?thesis
    using heard_report [OF x'(2) none l2 p2, of srtp analyse] heard_rtt wiringD(4) [OF x'(1), of s] rb(1) by simp
qed

section \<open>Witnesses\<close>

text \<open>Two engines: \<open>engine_x\<close> has sent one packet to \<open>engine_y\<close>.\<close>

definition rtcp_bridge_leg :: "socket_id \<Rightarrow> unit leg" where
  "rtcp_bridge_leg so = (leg_new so ([10, 0, 0, 1], of_nat so)) \<lparr> lg_rtcp := Some \<lparr> rl_socket = so + 1, rl_peer = ([10, 0, 0, 1], of_nat (so + 1)) \<rparr> \<rparr>"

definition engine_x :: "unit bridge" where
  "engine_x = spawn_with 1 (rtcp_bridge_leg 10) (rtcp_bridge_leg 20) bridge_config_default 77 88"

definition engine_y :: "unit bridge" where
  "engine_y = set_stats (spawn_with 2 (rtcp_bridge_leg 30) (rtcp_bridge_leg 40) bridge_config_default 55 66) Leg_A
     ((stats_new 8000) \<lparr> st_packets := 1, st_seen_first := True, st_last_ssrc := 77 \<rparr>)"

definition no_srtp :: "unit srtp_transform" where
  "no_srtp = (let f = (\<lambda>c p. (c, Inl SrtpAuthFailed)) in \<lparr> protect_rtp = f, unprotect_rtp = f, protect_rtcp = f, unprotect_rtcp = f \<rparr>)"

abbreviation "no_loss \<equiv> \<lparr> il_expected_prior = 0, il_received_prior = 0 \<rparr>"

lemma engine_simps:
  "br_emitter engine_x Leg_B = Some no_loss" "lg_rtcp (br_leg engine_x Leg_B) = Some \<lparr> rl_socket = 21, rl_peer = ([10, 0, 0, 1], 21) \<rparr>"
  "lg_srtp (br_leg engine_x Leg_B) = None" "br_listening engine_x Leg_B" "br_ssrc_toward engine_x Leg_B = 77"
  "br_listening engine_y Leg_A" "lg_srtp (br_leg engine_y Leg_A) = None" "br_emitter engine_y Leg_A = Some no_loss"
  "lg_rtcp (br_leg engine_y Leg_A) = Some \<lparr> rl_socket = 31, rl_peer = ([10, 0, 0, 1], 31) \<rparr>"
  "st_packets (br_stats engine_y Leg_A) = 1" "st_last_ssrc (br_stats engine_y Leg_A) = 77"
  by (simp_all add: engine_x_def engine_y_def spawn_with_def rtcp_bridge_leg_def leg_new_def bridge_config_default_def set_stats_def Let_def)

lemma engine_x_ok: "rb_ok (report_rb engine_x Leg_B no_loss 0)"
  by (simp add: report_rb_def rb_ok_def engine_x_def spawn_with_def snapshot_def stats_new_def expected_packets_def sat64_def Let_def)

theorem bridge_reports_both_streams_witness:
  "\<exists>w. snd (bridge_step no_srtp (\<lambda>_. None) engine_x (Sr_Tick Leg_B 0 5 True)) = [Datagram 21 ([10, 0, 0, 1], 21) w]
    \<and> parse_compound w = [SenderReport (report_sr engine_x Leg_B 5) [], SourceDescription [\<lparr> sc_ssrc = 77, sc_cname = Some ''0000004d@smiths-net'' \<rparr>]]"
proof -
  have "bridge_cname 77 = ''0000004d@smiths-net''" by code_simp
  moreover have "st_packets (br_stats engine_x Leg_B) = 0" by (simp add: engine_x_def spawn_with_def stats_new_def Let_def)
  ultimately show ?thesis
    using bridge_reports_both_streams [OF engine_simps(1-3) engine_x_ok, of no_srtp "\<lambda>_. None" 5] by (simp add: engine_simps)
qed

definition report_1 :: octets where
  "report_1 = build_compound (map build_item [report_item engine_x Leg_B no_loss 0 0x10000, ItemSdes 77 (bridge_cname 77)])"

definition heard_1 :: "unit bridge" where
  "heard_1 = fst (bridge_step no_srtp (\<lambda>_. None) engine_y (Rtcp_In Leg_A report_1 1000000 0))"

definition report_2 :: octets where
  "report_2 = build_compound (map build_item [report_item heard_1 Leg_A no_loss 1001000000 0,
     ItemSdes (br_ssrc_toward heard_1 Leg_A) (bridge_cname (br_ssrc_toward heard_1 Leg_A))])"

lemma heard_1_stats: "br_stats heard_1 Leg_A = record_sender_report (br_stats engine_y Leg_A) 0x10000 1000000"
  "br_emitter heard_1 = br_emitter engine_y" "wiring heard_1 = wiring engine_y"
proof -
  show "br_emitter heard_1 = br_emitter engine_y" "wiring heard_1 = wiring engine_y"
    by (simp_all add: heard_1_def emitter_rtcp)
  obtain cs where "parse_compound report_1 = [SenderReport (report_sr engine_x Leg_B 0x10000) [], SourceDescription cs]"
    using bridge_reports_both [OF engine_simps(1-3) engine_x_ok, of no_srtp "\<lambda>_. None" "0x10000"]
      emitted_datagram [OF engine_simps(1-3), of no_srtp 0 "0x10000"]
    by (auto simp: report_1_def engine_simps engine_x_def spawn_with_def stats_new_def Let_def split: if_splits)
  moreover have "length report_1 \<le> 1500" using length_report [of engine_x Leg_B no_loss 0 "0x10000" 77] by (simp only: report_1_def)
  ultimately show "br_stats heard_1 Leg_A = record_sender_report (br_stats engine_y Leg_A) 0x10000 1000000"
    using heard_report [of engine_y Leg_A report_1 1000000 0 "Rtcp_In Leg_A report_1 1000000 0"] engine_simps(6,7)
      report_is_rtcp [of engine_x Leg_B no_loss 0 "0x10000" "ItemSdes 77 (bridge_cname 77)", folded report_1_def]
    by (auto simp: heard_1_def report_sr_def simp del: bridge_step.simps)
qed

theorem engines_measure_round_trip_witness:
  "ss_peer_rtt (snapshot (br_stats (fst (bridge_step no_srtp (\<lambda>_. None) engine_x (Rtcp_In Leg_B report_2 7 0x200010000))) Leg_A) 8)
     = Some 1000000000"
proof -
  have w1: "snd (bridge_step no_srtp (\<lambda>_. None) engine_x (Sr_Tick Leg_B 0 0x10000 True)) = [Datagram 21 ([10, 0, 0, 1], 21) report_1]"
    using emitted_datagram [OF engine_simps(1-3), of no_srtp 0 "0x10000"] by (simp add: report_1_def engine_simps)
  have em: "br_emitter heard_1 Leg_A = Some no_loss" "lg_rtcp (br_leg heard_1 Leg_A) = Some \<lparr> rl_socket = 31, rl_peer = ([10, 0, 0, 1], 31) \<rparr>"
    "lg_srtp (br_leg heard_1 Leg_A) = None"
    using heard_1_stats(2) wiringD(3,5) [OF heard_1_stats(3), of Leg_A] by (simp_all add: engine_simps)
  have w2: "snd (bridge_step no_srtp (\<lambda>_. None) heard_1 (Sr_Tick Leg_A 1001000000 0 True)) = [Datagram 31 ([10, 0, 0, 1], 31) report_2]"
    using emitted_datagram [OF em, of no_srtp 1001000000 0] by (simp add: report_2_def)
  have ok: "rb_ok (report_rb heard_1 Leg_A no_loss 1001000000)"
    by (simp add: report_rb_def rb_ok_def heard_1_stats record_sender_report_def engine_y_def spawn_with_def set_stats_def snapshot_def
        stats_new_def expected_packets_def sat64_def Let_def)
  have "unat (saturating_sub 1001000000 1000000 :: u64) = 1000000000" by (simp add: unat_saturating_sub)
  then have dlsr: "to_dlsr (unat (saturating_sub 1001000000 1000000 :: u64)) = 65536" by (simp add: to_dlsr_def)
  have mid: "ntp_middle 0x10000 \<noteq> 0" "ntp_middle 0x200010000 = ntp_middle 0x10000 + to_dlsr (unat (saturating_sub 1001000000 1000000 :: u64)) + 65536"
    by (simp_all add: ntp_middle_def dlsr)
  have y: "st_packets (br_stats heard_1 Leg_A) \<noteq> 0" "st_last_ssrc (br_stats heard_1 Leg_A) = br_ssrc_toward engine_x Leg_B"
    by (simp_all add: engine_simps heard_1_stats record_sender_report_def)
  have never: "(1000000 :: u64) \<noteq> NEVER" by (simp add: NEVER_def)
  have rtt: "unat (65536 :: u32) < 2 ^ 31" by simp
  have recs: "[Datagram 21 ([10, 0, 0, 1], 21) report_1] = [Datagram (rl_socket \<lparr> rl_socket = 21, rl_peer = ([10, 0, 0, 1], 21) \<rparr>) (rl_peer \<lparr> rl_socket = 21, rl_peer = ([10, 0, 0, 1], 21) \<rparr>) report_1]"
    "[Datagram 31 ([10, 0, 0, 1], 31) report_2] = [Datagram (rl_socket \<lparr> rl_socket = 31, rl_peer = ([10, 0, 0, 1], 31) \<rparr>) (rl_peer \<lparr> rl_socket = 31, rl_peer = ([10, 0, 0, 1], 31) \<rparr>) report_2]"
    by simp_all
  have run: "heard_1 = fst (run (bridge_step no_srtp (\<lambda>_. None)) engine_y [Rtcp_In Leg_A report_1 1000000 0])"
    by (simp add: fst_run_Cons heard_1_def case_prod_unfold del: bridge_step.simps)
  have "ss_peer_rtt (snapshot (br_stats (fst (bridge_step no_srtp (\<lambda>_. None) engine_x (Rtcp_In Leg_B report_2 7 0x200010000))) (other Leg_B)) 8)
      = Some (1000 * (unat (65536 :: u32) * 1000000 div 65536))"
    by (rule engines_measure_round_trip [OF engine_simps(1-3) engine_x_ok w1 [unfolded recs] _ engine_simps(7,9) never run _ em(1) y ok
          w2 [unfolded recs] refl _ mid rtt]) (simp_all add: engine_simps)
  then show ?thesis by simp
qed

end
