(* ===== verification/Cpu_Budget.thy ===== *)
theory Cpu_Budget
  imports Net_Prelude
begin

text \<open>
  Admission control for transcoding (\<^verbatim>\<open>smiths-transcode/src/budget.rs\<close>). The counter
  is shared by concurrent callers, so \<^verbatim>\<open>try_admit\<close> is modelled one atomic access at a
  time: a caller is a program counter, and the accesses of all callers, the drops of leases and
  \<^verbatim>\<open>set_max_concurrent\<close> interleave freely.
\<close>

section \<open>Model\<close>

definition DEFAULT_MAX_CONCURRENT_CALLS :: nat where "DEFAULT_MAX_CONCURRENT_CALLS = 40"
definition DEFAULT_CPU_BUDGET_MS_PER_CALL :: nat where "DEFAULT_CPU_BUDGET_MS_PER_CALL = 50"

record cpu_budget_config =
  bc_max_concurrent_calls :: nat
  bc_cpu_budget_ms_per_call :: nat

definition cpu_budget_default :: cpu_budget_config where
  "cpu_budget_default = \<lparr> bc_max_concurrent_calls = DEFAULT_MAX_CONCURRENT_CALLS,
     bc_cpu_budget_ms_per_call = DEFAULT_CPU_BUDGET_MS_PER_CALL \<rparr>"

datatype admission_error = BudgetExhausted (exhausted_active: nat) (exhausted_max: nat)

text \<open>Where a caller is: outside; before the load of the cap; before the load of the counter; before
  the comparison and the exchange; admitted but not yet on the gauge; holding its lease; the
  lease's slot given back but still on the gauge; refused.\<close>

datatype caller =
    Outside
  | Load_max
  | Load_active nat
  | Compare nat nat
  | Admitted
  | Lease
  | Released
  | Refused admission_error

record cpu_budget =
  cb_config :: cpu_budget_config
  cb_max_concurrent :: nat
  cb_active :: nat
  cb_gauge :: int
  cb_refusals :: nat
  cb_callers :: "caller list"

definition budget_new :: "cpu_budget_config \<Rightarrow> nat \<Rightarrow> cpu_budget" where
  "budget_new cfg n = \<lparr> cb_config = cfg, cb_max_concurrent = bc_max_concurrent_calls cfg, cb_active = 0,
     cb_gauge = 0, cb_refusals = 0, cb_callers = replicate n Outside \<rparr>"

definition budget_config :: "cpu_budget \<Rightarrow> cpu_budget_config" where
  "budget_config b = \<lparr> bc_max_concurrent_calls = cb_max_concurrent b,
     bc_cpu_budget_ms_per_call = bc_cpu_budget_ms_per_call (cb_config b) \<rparr>"

definition set_max_concurrent :: "nat \<Rightarrow> cpu_budget \<Rightarrow> cpu_budget" where
  "set_max_concurrent n b = b \<lparr> cb_max_concurrent := n \<rparr>"

definition goto :: "nat \<Rightarrow> caller \<Rightarrow> cpu_budget \<Rightarrow> cpu_budget" where
  "goto t c b = b \<lparr> cb_callers := (cb_callers b)[t := c] \<rparr>"

text \<open>The next atomic access of caller \<open>t\<close>. From \<open>Outside\<close> and \<open>Refused\<close> it enters
  \<^verbatim>\<open>try_admit\<close>; from \<open>Lease\<close> it drops the lease.\<close>

definition caller_step :: "nat \<Rightarrow> cpu_budget \<Rightarrow> cpu_budget" where
  "caller_step t b =
     (case cb_callers b ! t of
        Outside \<Rightarrow> goto t Load_max b
      | Refused _ \<Rightarrow> goto t Load_max b
      | Load_max \<Rightarrow> goto t (Load_active (cb_max_concurrent b)) b
      | Load_active mx \<Rightarrow>
          (let cur = cb_active b
           in if cur \<ge> mx then goto t (Refused (BudgetExhausted cur mx)) (b \<lparr> cb_refusals := cb_refusals b + 1 \<rparr>)
              else goto t (Compare mx cur) b)
      | Compare mx cur \<Rightarrow>
          (if cb_active b = cur then goto t Admitted (b \<lparr> cb_active := cur + 1 \<rparr>) else goto t Load_max b)
      | Admitted \<Rightarrow> goto t Lease (b \<lparr> cb_gauge := cb_gauge b + 1 \<rparr>)
      | Lease \<Rightarrow> goto t Released (b \<lparr> cb_active := cb_active b - 1 \<rparr>)
      | Released \<Rightarrow> goto t Outside (b \<lparr> cb_gauge := cb_gauge b - 1 \<rparr>))"

datatype budget_event = Caller nat | Set_max nat

fun budget_step :: "cpu_budget \<Rightarrow> budget_event \<Rightarrow> cpu_budget \<times> unit list" where
  "budget_step b (Caller t) = (if t < length (cb_callers b) then caller_step t b else b, [])"
| "budget_step b (Set_max n) = (set_max_concurrent n b, [])"

section \<open>Accounting\<close>

fun has_slot :: "caller \<Rightarrow> bool" where
  "has_slot Admitted = True" | "has_slot Lease = True" | "has_slot _ = False"

fun on_gauge :: "caller \<Rightarrow> bool" where
  "on_gauge Lease = True" | "on_gauge Released = True" | "on_gauge _ = False"

definition holders :: "(caller \<Rightarrow> bool) \<Rightarrow> cpu_budget \<Rightarrow> nat" where
  "holders P b = length (filter P (cb_callers b))"

lemma length_filter_update:
  "i < length xs \<Longrightarrow> length (filter P (xs[i := y])) + of_bool (P (xs ! i)) = length (filter P xs) + of_bool (P y)"
proof (induction xs arbitrary: i)
  case (Cons x xs)
  then show ?case by (cases i) auto
qed simp

lemma holders_goto:
  "t < length (cb_callers b) \<Longrightarrow>
   holders P (goto t c b) + of_bool (P (cb_callers b ! t)) = holders P b + of_bool (P c)"
  by (simp add: holders_def goto_def length_filter_update)

text \<open>The counter is the number of callers with a slot, the gauge the number of those on it; no
  caller compares against a counter above the cap it read, and every cap in use is at most \<open>M\<close>.\<close>

definition caller_ok :: "nat \<Rightarrow> caller \<Rightarrow> bool" where
  "caller_ok M c \<longleftrightarrow> (case c of Load_active mx \<Rightarrow> mx \<le> M | Compare mx cur \<Rightarrow> cur < mx \<and> mx \<le> M | _ \<Rightarrow> True)"

definition budget_inv :: "nat \<Rightarrow> cpu_budget \<Rightarrow> bool" where
  "budget_inv M b \<longleftrightarrow> cb_active b = holders has_slot b \<and> cb_gauge b = int (holders on_gauge b) \<and>
     cb_active b \<le> M \<and> cb_max_concurrent b \<le> M \<and> (\<forall>c \<in> set (cb_callers b). caller_ok M c)"

lemma goto_callers_ok:
  "\<forall>c \<in> set (cb_callers b). caller_ok M c \<Longrightarrow> caller_ok M c' \<Longrightarrow> \<forall>c \<in> set (cb_callers (goto t c' b)). caller_ok M c"
  by (auto simp: goto_def dest!: set_update_subset_insert [THEN subsetD])

lemma goto_simps [simp]:
  "cb_active (goto t c b) = cb_active b" "cb_gauge (goto t c b) = cb_gauge b"
  "cb_max_concurrent (goto t c b) = cb_max_concurrent b" "cb_refusals (goto t c b) = cb_refusals b"
  by (simp_all add: goto_def)

lemma holders_cong [simp]:
  "holders P (b \<lparr> cb_active := n \<rparr>) = holders P b" "holders P (b \<lparr> cb_gauge := g \<rparr>) = holders P b"
  "holders P (b \<lparr> cb_refusals := r \<rparr>) = holders P b" "holders P (b \<lparr> cb_max_concurrent := r \<rparr>) = holders P b"
  by (simp_all add: holders_def)

lemma goto_inv:
  assumes "budget_inv M b" "t < length (cb_callers b)" "cb_callers b' = cb_callers b"
    "cb_max_concurrent b' = cb_max_concurrent b" "caller_ok M c" "cb_active b' \<le> M"
    "cb_active b' + of_bool (has_slot (cb_callers b ! t)) = cb_active b + of_bool (has_slot c)"
    "cb_gauge b' + of_bool (on_gauge (cb_callers b ! t)) = cb_gauge b + of_bool (on_gauge c)"
  shows "budget_inv M (goto t c b')"
proof -
  have "holders P (goto t c b') + of_bool (P (cb_callers b ! t)) = holders P b + of_bool (P c)" for P
    using holders_goto [of t b' P c] assms(2,3) by (simp add: holders_def)
  note slots = this [of has_slot] this [of on_gauge, THEN arg_cong [of _ _ int]]
  from slots goto_callers_ok [of b' M c t] assms show ?thesis
    by (simp add: budget_inv_def)
qed

lemma slot_counted:
  "budget_inv M b \<Longrightarrow> t < length (cb_callers b) \<Longrightarrow> has_slot (cb_callers b ! t) \<Longrightarrow> 0 < cb_active b"
  by (auto simp: budget_inv_def holders_def filter_empty_conv)

lemma caller_step_inv:
  assumes inv: "budget_inv M b" and t: "t < length (cb_callers b)"
  shows "budget_inv M (caller_step t b)"
proof -
  have ok: "caller_ok M (cb_callers b ! t)" "cb_active b \<le> M" "cb_max_concurrent b \<le> M"
    using assms by (simp_all add: budget_inv_def)
  note goto = goto_inv [OF assms]
  show ?thesis
  proof (cases "cb_callers b ! t")
    case Lease
    with slot_counted [OF assms] ok show ?thesis
      by (auto simp: caller_step_def caller_ok_def intro!: goto)
  qed (use ok in \<open>auto simp: caller_step_def caller_ok_def Let_def intro!: goto\<close>)
qed

text \<open>Inputs whose caps stay at most \<open>M\<close>.\<close>

fun caps_within :: "nat \<Rightarrow> budget_event \<Rightarrow> bool" where
  "caps_within M (Set_max n) \<longleftrightarrow> n \<le> M"
| "caps_within M (Caller t) \<longleftrightarrow> True"

lemma budget_run_inv:
  "budget_inv M b \<Longrightarrow> list_all (caps_within M) evs \<Longrightarrow> budget_inv M (fst (run budget_step b evs))"
proof (induction evs arbitrary: b)
  case (Cons ev evs)
  have "budget_inv M (fst (budget_step b ev))"
    using Cons.prems by (cases ev) (auto simp: caller_step_inv set_max_concurrent_def, auto simp: budget_inv_def)
  with Cons show ?case by (simp add: case_prod_unfold Let_def)
qed simp

lemma budget_inv_new: "bc_max_concurrent_calls cfg \<le> M \<Longrightarrow> budget_inv M (budget_new cfg n)"
  by (simp add: budget_inv_def budget_new_def holders_def caller_ok_def)

text \<open>Property C40.
  However many callers race, the admission counter is exactly the number of callers that hold a
  slot, it never exceeds the largest cap that was ever in force (so with a fixed cap it never
  exceeds the cap, not even briefly), and the gauge agrees with the counter whenever no caller is
  between its exchange and its gauge update.\<close>

theorem budget_never_exceeded:
  assumes "bc_max_concurrent_calls cfg \<le> M" and "list_all (caps_within M) evs"
    and "b = fst (run budget_step (budget_new cfg n) evs)"
  shows "cb_active b = holders has_slot b \<and> cb_active b \<le> M \<and>
    (Admitted \<notin> set (cb_callers b) \<and> Released \<notin> set (cb_callers b) \<longrightarrow> cb_gauge b = int (cb_active b))"
proof -
  have inv: "budget_inv M b"
    unfolding assms(3) by (rule budget_run_inv [OF budget_inv_new [OF assms(1)] assms(2)])
  have "filter on_gauge cs = filter has_slot cs" if "Admitted \<notin> set cs" "Released \<notin> set cs" for cs
  proof (rule filter_cong [OF refl])
    fix c assume "c \<in> set cs"
    with that show "on_gauge c = has_slot c" by (cases c) auto
  qed
  with inv show ?thesis by (simp add: budget_inv_def holders_def)
qed

theorem budget_never_exceeded_witness:
  "cb_active (fst (run budget_step (budget_new cpu_budget_default 3)
     [Caller 0, Caller 1, Set_max 1, Caller 0, Caller 0, Caller 1, Caller 1, Caller 0, Caller 1])) \<le> 40"
proof -
  let ?evs = "[Caller 0, Caller 1, Set_max 1, Caller 0, Caller 0, Caller 1, Caller 1, Caller 0, Caller 1]"
  have "bc_max_concurrent_calls cpu_budget_default \<le> 40" "list_all (caps_within 40) ?evs"
    by (simp_all add: cpu_budget_default_def DEFAULT_MAX_CONCURRENT_CALLS_def)
  from budget_never_exceeded [OF this refl, of 3] show ?thesis by blast
qed

section \<open>A caller on its own\<close>

text \<open>Between two accesses of one caller nothing else happens: it is admitted exactly when the
  counter is below the cap, after four accesses (the gauge included), and refused with the values
  it saw otherwise, after two.\<close>

lemma try_admit_alone:
  assumes "t < length (cb_callers b)" and "cb_callers b ! t = Load_max"
  shows "cb_active b < cb_max_concurrent b \<Longrightarrow>
      (caller_step t ^^ 4) b = goto t Lease (b \<lparr> cb_active := cb_active b + 1, cb_gauge := cb_gauge b + 1 \<rparr>)"
    and "cb_max_concurrent b \<le> cb_active b \<Longrightarrow>
      (caller_step t ^^ 2) b = goto t (Refused (BudgetExhausted (cb_active b) (cb_max_concurrent b)))
        (b \<lparr> cb_refusals := cb_refusals b + 1 \<rparr>)"
  using assms
  by (simp_all add: numeral_eq_Suc caller_step_def goto_def)

end
