(* ===== verification/Dialog_Fsm.thy ===== *)
theory Dialog_Fsm
  imports Net_Prelude
begin

text \<open>
  The dialog machine above the transactions (\<^verbatim>\<open>smiths-sip/src/txn/dialog.rs\<close>) and
  its projection to the serialised state of \<^verbatim>\<open>smiths-core/src/call.rs\<close>. Illegal
  transitions are errors that leave the state alone.
\<close>

section \<open>Model\<close>

datatype core_dialog_state = CoreEarly | CoreConfirmed

datatype dialog_fsm_state = DEarly | DConfirmed | DTerminated

datatype dialog_event = AckReceived | ByeCompleted | Cancelled | DialogError

datatype dialog_transition_error = IllegalTransition dialog_fsm_state dialog_event

record dialog_fsm = dialog_state :: dialog_fsm_state

definition dialog_new :: dialog_fsm where
  "dialog_new = \<lparr> dialog_state = DEarly \<rparr>"

definition from_core_state :: "core_dialog_state \<Rightarrow> dialog_fsm" where
  "from_core_state st = \<lparr> dialog_state = (case st of CoreEarly \<Rightarrow> DEarly | CoreConfirmed \<Rightarrow> DConfirmed) \<rparr>"

definition is_terminated :: "dialog_fsm \<Rightarrow> bool" where
  "is_terminated f \<longleftrightarrow> dialog_state f = DTerminated"

definition to_core_state :: "dialog_fsm \<Rightarrow> core_dialog_state option" where
  "to_core_state f =
     (case dialog_state f of DEarly \<Rightarrow> Some CoreEarly | DConfirmed \<Rightarrow> Some CoreConfirmed | DTerminated \<Rightarrow> None)"

fun dialog_next :: "dialog_fsm_state \<Rightarrow> dialog_event \<Rightarrow> dialog_fsm_state option" where
  "dialog_next DEarly AckReceived = Some DConfirmed"
| "dialog_next DEarly ByeCompleted = Some DTerminated"
| "dialog_next DEarly DialogError = Some DTerminated"
| "dialog_next DEarly Cancelled = Some DTerminated"
| "dialog_next DConfirmed ByeCompleted = Some DTerminated"
| "dialog_next DConfirmed DialogError = Some DTerminated"
| "dialog_next _ _ = None"

definition dialog_on_event ::
    "dialog_fsm \<Rightarrow> dialog_event \<Rightarrow> dialog_fsm \<times> (dialog_transition_error + dialog_fsm_state)" where
  "dialog_on_event f event =
     (case dialog_next (dialog_state f) event of
        Some nxt \<Rightarrow> (f\<lparr> dialog_state := nxt \<rparr>, Inr nxt)
      | None \<Rightarrow> (f, Inl (IllegalTransition (dialog_state f) event)))"

text \<open>The state after a sequence of events, errors logged and skipped as the UAS does.\<close>

definition dialog_run :: "dialog_fsm \<Rightarrow> dialog_event list \<Rightarrow> dialog_fsm" where
  "dialog_run f es = foldl (\<lambda>f e. fst (dialog_on_event f e)) f es"

section \<open>What the machine promises\<close>

text \<open>The rank of a state; every accepted event raises it.\<close>

fun dialog_rank :: "dialog_fsm_state \<Rightarrow> nat" where
  "dialog_rank DEarly = 0"
| "dialog_rank DConfirmed = 1"
| "dialog_rank DTerminated = 2"

lemma dialog_next_rank: "dialog_next s e = Some s' \<Longrightarrow> dialog_rank s < dialog_rank s'"
  by (induction s e rule: dialog_next.induct) auto

lemma dialog_run_simps [simp]:
  "dialog_run f [] = f" "dialog_run f (e # es) = dialog_run (fst (dialog_on_event f e)) es"
  by (simp_all add: dialog_run_def)

lemma dialog_run_terminated: "dialog_state f = DTerminated \<Longrightarrow> dialog_run f es = f"
  by (induction es) (simp_all add: dialog_on_event_def)

text \<open>The final state depends only on which events occur before the first terminating one.\<close>

lemma dialog_run_early:
  "dialog_state (dialog_run f es) =
     (case dialog_state f of
        DEarly \<Rightarrow>
          if \<exists>n < length es. es ! n \<in> {ByeCompleted, DialogError} \<or>
               (es ! n = Cancelled \<and> AckReceived \<notin> set (take n es)) then DTerminated
          else if AckReceived \<in> set es then DConfirmed else DEarly
      | DConfirmed \<Rightarrow> if ByeCompleted \<in> set es \<or> DialogError \<in> set es then DTerminated else DConfirmed
      | DTerminated \<Rightarrow> DTerminated)"
proof (induction es arbitrary: f)
  case (Cons e es)
  have conf: "(\<exists>n < length es. es ! n = ByeCompleted \<or> es ! n = DialogError) \<longleftrightarrow>
      ByeCompleted \<in> set es \<or> DialogError \<in> set es"
    by (auto simp: in_set_conv_nth)
  show ?case
    by (cases "dialog_state f"; cases e)
       (simp_all add: Cons dialog_on_event_def Ex_less_Suc2, use conf in auto)
qed (simp split: dialog_fsm_state.split)

text \<open>Result.
  Whatever events a dialog sees, in whatever order, its record survives exactly when no BYE and no
  error occurred and no CANCEL came before the first ACK; a surviving dialog is confirmed exactly
  when an ACK was seen. Illegal events change nothing.\<close>

theorem dialog_record_survives:
  "to_core_state (dialog_run dialog_new es) =
     (if (\<exists>n < length es. es ! n \<in> {ByeCompleted, DialogError} \<or>
            (es ! n = Cancelled \<and> AckReceived \<notin> set (take n es))) then None
      else if AckReceived \<in> set es then Some CoreConfirmed else Some CoreEarly)"
  using dialog_run_early [of dialog_new es] by (simp add: to_core_state_def dialog_new_def)

text \<open>Result.
  Rebuilding the machine from a stored record and projecting it back loses nothing, a refused
  event reports the state and event it refused and leaves the machine as it was, and an accepted
  event moves strictly forward, so a dialog accepts at most two events in its life.\<close>

theorem dialog_step_contract:
  "to_core_state (from_core_state c) = Some c \<and>
   (snd (dialog_on_event f e) = Inl err \<longrightarrow>
      fst (dialog_on_event f e) = f \<and> err = IllegalTransition (dialog_state f) e) \<and>
   (snd (dialog_on_event f e) = Inr st \<longrightarrow>
      dialog_state (fst (dialog_on_event f e)) = st \<and> dialog_rank (dialog_state f) < dialog_rank st) \<and>
   (is_terminated f \<longleftrightarrow> to_core_state f = None) \<and>
   (is_terminated f \<longrightarrow> (\<exists>err'. dialog_on_event f e = (f, Inl err')))"
  by (auto simp: to_core_state_def from_core_state_def dialog_on_event_def is_terminated_def
           dest: dialog_next_rank
           split: option.splits core_dialog_state.split dialog_fsm_state.splits)

theorem dialog_step_contract_witness:
  "dialog_on_event dialog_new AckReceived = (\<lparr> dialog_state = DConfirmed \<rparr>, Inr DConfirmed) \<and>
   dialog_rank (dialog_state dialog_new) < dialog_rank DConfirmed"
  using dialog_step_contract [of CoreEarly dialog_new AckReceived _ DConfirmed]
  by (simp add: dialog_on_event_def dialog_new_def)

end
