(* ===== verification/Call_Types.thy ===== *)
theory Call_Types
  imports Rust_Str Dialog_Fsm
begin

text \<open>
  The serialisable call state (\<^verbatim>\<open>smiths-core/src/call.rs\<close>): legs, media kinds,
  negotiated codecs, the dialog record with its key, and the replicated mutation.
\<close>

type_synonym dialog_key = "bytes \<times> bytes \<times> bytes"

type_synonym leg_id = u64

type_synonym endpoint_id = u64

text \<open>\<^verbatim>\<open>std::net::SocketAddr\<close>: four or sixteen address octets and a port.\<close>

record socket_addr =
  sa_ip :: octets
  sa_port :: u16

datatype media_kind_tag = Audio | Video | Image | Application | OtherMedia bytes

definition media_kind_parse :: "bytes \<Rightarrow> media_kind_tag" where
  "media_kind_parse s =
     (if s = ''audio'' then Audio else if s = ''video'' then Video
      else if s = ''image'' then Image else if s = ''application'' then Application
      else OtherMedia s)"

definition media_kind_as_str :: "media_kind_tag \<Rightarrow> bytes" where
  "media_kind_as_str k =
     (case k of Audio \<Rightarrow> ''audio'' | Video \<Rightarrow> ''video'' | Image \<Rightarrow> ''image''
      | Application \<Rightarrow> ''application'' | OtherMedia s \<Rightarrow> s)"

type_synonym session_key = "leg_id \<times> media_kind_tag"

datatype negotiated_codec = Pcmu | Pcma | G722 | Opus | H264 | Vp8 | Vp9 | T38 | OtherCodec bytes

definition codec_parse :: "bytes \<Rightarrow> negotiated_codec" where
  "codec_parse s =
     (let t = to_ascii_lowercase s
      in if t = ''pcmu'' then Pcmu else if t = ''pcma'' then Pcma else if t = ''g722'' then G722
         else if t = ''opus'' then Opus else if t = ''h264'' then H264 else if t = ''vp8'' then Vp8
         else if t = ''vp9'' then Vp9 else if t = ''t38'' then T38 else OtherCodec t)"

definition codec_as_str :: "negotiated_codec \<Rightarrow> bytes" where
  "codec_as_str c =
     (case c of Pcmu \<Rightarrow> ''pcmu'' | Pcma \<Rightarrow> ''pcma'' | G722 \<Rightarrow> ''g722'' | Opus \<Rightarrow> ''opus''
      | H264 \<Rightarrow> ''h264'' | Vp8 \<Rightarrow> ''vp8'' | Vp9 \<Rightarrow> ''vp9'' | T38 \<Rightarrow> ''t38'' | OtherCodec s \<Rightarrow> s)"

datatype ice_role = Controlling | Controlled

record ice_params =
  ip_local_ufrag :: bytes
  ip_local_pwd :: bytes
  ip_remote_ufrag :: bytes
  ip_remote_pwd :: bytes
  ip_role :: ice_role
  ip_tie_breaker :: u64

record dialog_record =
  dr_call_id :: bytes
  dr_local_tag :: bytes
  dr_remote_tag :: bytes
  dr_state :: core_dialog_state
  dr_peer_signal :: socket_addr
  dr_rendezvous :: "bytes option"
  dr_media :: "endpoint_id option"
  dr_remote_media :: "socket_addr option"
  dr_pending_2xx :: "octets option"
  dr_per_leg_codec :: "leg_id \<rightharpoonup> negotiated_codec"
  dr_ice :: "ice_params option"
  dr_remote_target :: "bytes option"
  dr_route_set :: "bytes list"
  dr_local_uri :: "bytes option"
  dr_remote_uri :: "bytes option"
  dr_local_cseq :: u32
  dr_remote_cseq :: "u32 option"
  dr_transport :: "bytes option"
  dr_last_invite_branch :: "bytes option"
  dr_local_media :: "socket_addr option"
  dr_session_expires_secs :: "u32 option"

definition dialog_record_key :: "dialog_record \<Rightarrow> dialog_key" where
  "dialog_record_key r = (dr_call_id r, dr_local_tag r, dr_remote_tag r)"

datatype dialog_delta = Upsert dialog_record | Delete dialog_key

section \<open>Tokens\<close>

lemma media_kind_roundtrip: "media_kind_as_str (media_kind_parse s) = s"
  by (simp add: media_kind_parse_def media_kind_as_str_def)

lemma to_ascii_lower_idem: "to_ascii_lower (to_ascii_lower c) = to_ascii_lower c"
proof (cases "65 \<le> code c \<and> code c \<le> (90 :: nat)")
  case True
  then have "code (char_of (code c + 32) :: char) = code c + (32 :: nat)" by simp
  with True show ?thesis by (auto simp: to_ascii_lower_def)
qed (auto simp: to_ascii_lower_def)

lemma to_ascii_lowercase_idem [simp]: "to_ascii_lowercase (to_ascii_lowercase s) = to_ascii_lowercase s"
  by (simp add: to_ascii_lowercase_def to_ascii_lower_idem)

lemma codec_as_str_parse: "codec_as_str (codec_parse s) = to_ascii_lowercase s"
  by (simp add: codec_parse_def codec_as_str_def Let_def)

text \<open>Two codec tokens name the same codec exactly when they agree up to ASCII case.\<close>

lemma codec_parse_eq_iff: "codec_parse s = codec_parse t \<longleftrightarrow> eq_ignore_ascii_case s t"
proof
  assume "codec_parse s = codec_parse t"
  then show "eq_ignore_ascii_case s t" unfolding eq_ignore_ascii_case_def by (metis codec_as_str_parse)
qed (simp add: eq_ignore_ascii_case_def codec_parse_def)

text \<open>The canonical token of a parsed codec parses to the same codec.\<close>

lemma codec_parse_as_str: "codec_parse (codec_as_str (codec_parse s)) = codec_parse s"
  by (simp add: codec_as_str_parse codec_parse_eq_iff eq_ignore_ascii_case_def)

end
