(* ===== verification/Dialog_Sessions.thy ===== *)
theory Dialog_Sessions
  imports Call_Types "HOL-Library.AList" "HOL-Library.Multiset"
begin

text \<open>
  The table of live media sessions per dialog (\<^verbatim>\<open>smiths-core/src/dialog_sessions.rs\<close>).
  The \<^verbatim>\<open>DashMap\<close> is an association list with distinct keys, in whatever order it is
  iterated; a session handle is a value of type \<open>'s\<close>.
\<close>

section \<open>Model\<close>

type_synonym 's dialog_sessions = "((dialog_key \<times> session_key) \<times> 's) list"

definition sessions_new :: "'s dialog_sessions" where
  "sessions_new = []"

definition sessions_install ::
    "dialog_key \<Rightarrow> session_key \<Rightarrow> 's \<Rightarrow> 's dialog_sessions \<Rightarrow> 's dialog_sessions \<times> 's option" where
  "sessions_install d k s t = (AList.update (d, k) s t, map_of t (d, k))"

definition sessions_swap ::
    "dialog_key \<Rightarrow> session_key \<Rightarrow> 's \<Rightarrow> 's dialog_sessions \<Rightarrow> 's dialog_sessions \<times> 's option" where
  "sessions_swap d k s t = (AList.update (d, k) s t, map_of t (d, k))"

definition sessions_remove ::
    "dialog_key \<Rightarrow> session_key \<Rightarrow> 's dialog_sessions \<Rightarrow> 's dialog_sessions \<times> 's option" where
  "sessions_remove d k t = (AList.delete (d, k) t, map_of t (d, k))"

definition sessions_remove_dialog :: "dialog_key \<Rightarrow> 's dialog_sessions \<Rightarrow> 's dialog_sessions \<times> 's list" where
  "sessions_remove_dialog d t =
     (filter (\<lambda>((d', _), _). d' \<noteq> d) t, map snd (filter (\<lambda>((d', _), _). d' = d) t))"

definition sessions_get :: "dialog_key \<Rightarrow> session_key \<Rightarrow> 's dialog_sessions \<Rightarrow> 's option" where
  "sessions_get d k t = map_of t (d, k)"

definition sessions_len :: "'s dialog_sessions \<Rightarrow> nat" where
  "sessions_len t = length t"

definition sessions_keys :: "'s dialog_sessions \<Rightarrow> (dialog_key \<times> session_key) list" where
  "sessions_keys t = map fst t"

definition sessions_is_empty :: "'s dialog_sessions \<Rightarrow> bool" where
  "sessions_is_empty t \<longleftrightarrow> t = []"

text \<open>One call on the table, with the handles it gives back to its caller.\<close>

datatype 's session_op =
    Install dialog_key session_key 's
  | Swap dialog_key session_key 's
  | Remove dialog_key session_key
  | Remove_dialog dialog_key

fun session_step :: "'s dialog_sessions \<Rightarrow> 's session_op \<Rightarrow> 's dialog_sessions \<times> 's list" where
  "session_step t (Install d k s) = (let (t', old) = sessions_install d k s t in (t', case old of None \<Rightarrow> [] | Some h \<Rightarrow> [h]))"
| "session_step t (Swap d k s) = (let (t', old) = sessions_swap d k s t in (t', case old of None \<Rightarrow> [] | Some h \<Rightarrow> [h]))"
| "session_step t (Remove d k) = (let (t', old) = sessions_remove d k t in (t', case old of None \<Rightarrow> [] | Some h \<Rightarrow> [h]))"
| "session_step t (Remove_dialog d) = sessions_remove_dialog d t"

fun handle_in :: "'s session_op \<Rightarrow> 's list" where
  "handle_in (Install d k s) = [s]"
| "handle_in (Swap d k s) = [s]"
| "handle_in _ = []"

section \<open>Invariant and contracts\<close>

definition sessions_ok :: "'s dialog_sessions \<Rightarrow> bool" where
  "sessions_ok t \<longleftrightarrow> distinct (map fst t)"

lemma filter_keys_distinct: "distinct (map fst t) \<Longrightarrow> distinct (map fst (filter P t))"
  by (simp add: distinct_map_filter)

lemma sessions_ok_step: "sessions_ok t \<Longrightarrow> sessions_ok (fst (session_step t op))"
  by (cases op) (simp_all add: sessions_ok_def sessions_install_def sessions_swap_def sessions_remove_def
      sessions_remove_dialog_def distinct_update distinct_delete distinct_map_filter)

interpretation session_table: preserving_machine session_step sessions_ok
  by unfold_locales (rule sessions_ok_step)

lemma mset_update:
  "distinct (map fst t) \<Longrightarrow>
   mset (map snd (AList.update k v t)) + mset (case map_of t k of None \<Rightarrow> [] | Some h \<Rightarrow> [h])
   = add_mset v (mset (map snd t))"
proof (induction t)
  case (Cons e t)
  then show ?case by (cases e) (auto split: option.splits simp: map_of_eq_None_iff)
qed simp

lemma delete_absent: "k \<notin> fst ` set t \<Longrightarrow> AList.delete k t = t"
  by (auto simp: delete_conv filter_id_conv)

lemma mset_delete:
  "distinct (map fst t) \<Longrightarrow>
   mset (map snd (AList.delete k t)) + mset (case map_of t k of None \<Rightarrow> [] | Some h \<Rightarrow> [h]) = mset (map snd t)"
proof (induction t)
  case (Cons e t)
  show ?case
  proof (cases "fst e = k")
    case True
    with Cons.prems have "AList.delete k t = t" by (intro delete_absent) auto
    with True show ?thesis by (cases e) simp
  next
    case False
    with Cons show ?thesis by (cases e) auto
  qed
qed simp

lemma mset_partition: "mset (map f (filter (\<lambda>x. \<not> P x) t)) + mset (map f (filter P t)) = mset (map f t)"
  by (induction t) auto

lemma step_conserves:
  assumes "sessions_ok t"
  shows "mset (map snd (fst (session_step t op))) + mset (snd (session_step t op)) =
    mset (map snd t) + mset (handle_in op)"
proof (cases op)
  case (Remove_dialog d)
  then show ?thesis
    using mset_partition [of snd "\<lambda>((d', _), _). d' = d" t]
    by (simp add: sessions_remove_dialog_def case_prod_unfold)
qed (use assms mset_update [of t] mset_delete [of t] in
  \<open>auto simp: sessions_ok_def sessions_install_def sessions_swap_def sessions_remove_def Let_def\<close>)

lemma run_conserves:
  "sessions_ok t \<Longrightarrow> mset (map snd (fst (run session_step t ops))) + mset (snd (run session_step t ops)) =
     mset (map snd t) + mset (concat (map handle_in ops))"
proof (induction ops arbitrary: t)
  case (Cons op ops)
  let ?s = "session_step t op"
  let ?r = "run session_step (fst ?s) ops"
  have "mset (map snd (fst ?r)) + (mset (snd ?s) + mset (snd ?r)) =
      (mset (map snd (fst ?r)) + mset (snd ?r)) + mset (snd ?s)"
    by (simp only: ac_simps)
  also have "\<dots> = (mset (map snd (fst ?s)) + mset (snd ?s)) + mset (concat (map handle_in ops))"
    unfolding Cons.IH [OF sessions_ok_step [OF Cons.prems], of op] by (simp only: ac_simps)
  also have "\<dots> = mset (map snd t) + mset (handle_in op) + mset (concat (map handle_in ops))"
    unfolding step_conserves [OF Cons.prems, of op] ..
  finally show ?case by (simp add: case_prod_unfold Let_def ac_simps)
qed simp

text \<open>Result.
  No media session is lost or stopped twice: after any sequence of installs, swaps, removals and
  dialog drains, the handles ever put into the table are, as a multiset, those still in it plus
  those that were given back to a caller to be stopped. Draining a dialog leaves it without
  sessions and the other dialogs untouched.\<close>

theorem sessions_conserve_handles:
  "mset (concat (map handle_in ops)) =
     mset (map snd (fst (run session_step sessions_new ops))) + mset (snd (run session_step sessions_new ops)) \<and>
   sessions_get d' k (fst (sessions_remove_dialog d (fst (run session_step sessions_new ops)))) =
     (if d' = d then None else sessions_get d' k (fst (run session_step sessions_new ops)))"
proof -
  have "map_of (filter (\<lambda>((d', _), _). d' \<noteq> d) t) (d', k) = (if d' = d then None else map_of t (d', k))" for t :: "'a dialog_sessions"
    by (induction t) auto
  then show ?thesis
    using run_conserves [of sessions_new ops]
    by (simp add: sessions_ok_def sessions_new_def sessions_get_def sessions_remove_dialog_def)
qed

text \<open>Lookups after each operation, as the call state machine relies on them.\<close>

lemma sessions_get_simps:
  "sessions_get d' k' (fst (sessions_install d k s t)) = (if (d', k') = (d, k) then Some s else sessions_get d' k' t)"
  "sessions_get d' k' (fst (sessions_swap d k s t)) = (if (d', k') = (d, k) then Some s else sessions_get d' k' t)"
  "sessions_get d' k' (fst (sessions_remove d k t)) = (if (d', k') = (d, k) then None else sessions_get d' k' t)"
  "snd (sessions_swap d k s t) = sessions_get d k t"
  by (auto simp: sessions_get_def sessions_install_def sessions_swap_def sessions_remove_def update_conv' delete_conv')

lemma sessions_len_keys: "sessions_ok t \<Longrightarrow> sessions_len t = card (set (sessions_keys t))"
  using distinct_card [of "map fst t"] by (simp add: sessions_len_def sessions_keys_def sessions_ok_def)

end
