(* ===== verification/Stun.thy ===== *)
theory Stun
  imports Rtcp Call_Types
begin

text \<open>
  STUN (\<^verbatim>\<open>smiths-ice/src/stun.rs\<close>): the message encoder and decoder with the ICE
  attributes, MESSAGE-INTEGRITY and FINGERPRINT with their verification, XOR-MAPPED-ADDRESS, the
  CRC-32 routine, the demultiplexing test and the two client exchanges (\<^verbatim>\<open>binding_ping\<close>,
  \<^verbatim>\<open>gather_srflx_candidates\<close>). HMAC-SHA1 comes from the \<^verbatim>\<open>hmac\<close> and
  \<^verbatim>\<open>sha1\<close> crates: it is the parameter \<open>hmac\<close> of the definitions that use it, a function
  from key and message to a tag whose length is 20.
\<close>

section \<open>Constants and data\<close>

definition MAGIC_COOKIE :: u32 where "MAGIC_COOKIE = 0x2112A442"
definition STUN_HEADER_LEN :: nat where "STUN_HEADER_LEN = 20"
definition METHOD_BINDING :: u16 where "METHOD_BINDING = 0x0001"
definition ATTR_USERNAME :: u16 where "ATTR_USERNAME = 0x0006"
definition ATTR_MESSAGE_INTEGRITY :: u16 where "ATTR_MESSAGE_INTEGRITY = 0x0008"
definition ATTR_ERROR_CODE :: u16 where "ATTR_ERROR_CODE = 0x0009"
definition ATTR_XOR_MAPPED_ADDRESS :: u16 where "ATTR_XOR_MAPPED_ADDRESS = 0x0020"
definition ATTR_PRIORITY :: u16 where "ATTR_PRIORITY = 0x0024"
definition ATTR_USE_CANDIDATE :: u16 where "ATTR_USE_CANDIDATE = 0x0025"
definition ATTR_FINGERPRINT :: u16 where "ATTR_FINGERPRINT = 0x8028"
definition ATTR_ICE_CONTROLLED :: u16 where "ATTR_ICE_CONTROLLED = 0x8029"
definition ATTR_ICE_CONTROLLING :: u16 where "ATTR_ICE_CONTROLLING = 0x802A"
definition FINGERPRINT_XOR :: u32 where "FINGERPRINT_XOR = 0x5354554E"
definition ERR_BAD_REQUEST :: u16 where "ERR_BAD_REQUEST = 400"
definition ERR_UNAUTHENTICATED :: u16 where "ERR_UNAUTHENTICATED = 401"
definition ERR_ROLE_CONFLICT :: u16 where "ERR_ROLE_CONFLICT = 487"
definition INTEGRITY_LEN :: nat where "INTEGRITY_LEN = 20"

lemmas attr_consts = ATTR_USERNAME_def ATTR_MESSAGE_INTEGRITY_def ATTR_ERROR_CODE_def
  ATTR_XOR_MAPPED_ADDRESS_def ATTR_PRIORITY_def ATTR_USE_CANDIDATE_def ATTR_FINGERPRINT_def
  ATTR_ICE_CONTROLLED_def ATTR_ICE_CONTROLLING_def

definition is_stun :: "octets \<Rightarrow> bool" where
  "is_stun bs \<longleftrightarrow> STUN_HEADER_LEN \<le> length bs \<and> bs ! 0 < 4 \<and> from_be (slice 4 8 bs) = MAGIC_COOKIE"

text \<open>\<^verbatim>\<open>TransactionId([u8; 12])\<close>; the random generator is an input of the builders.\<close>

type_synonym transaction_id = octets

datatype stun_method = Binding

datatype stun_class = Request | SuccessResponse | ErrorResponse | Indication

definition class_encode :: "stun_class \<Rightarrow> u16" where
  "class_encode c = (case c of Request \<Rightarrow> 0x0000 | Indication \<Rightarrow> 0x0010 | SuccessResponse \<Rightarrow> 0x0100
     | ErrorResponse \<Rightarrow> 0x0110)"

definition class_from_bits :: "u16 \<Rightarrow> stun_class" where
  "class_from_bits ty =
     (let b = ty AND 0x0110
      in if b = 0x0010 then Indication else if b = 0x0100 then SuccessResponse
         else if b = 0x0110 then ErrorResponse else Request)"

definition method_to_bits :: "stun_method \<Rightarrow> u16" where
  "method_to_bits m = (case m of Binding \<Rightarrow> METHOD_BINDING)"

definition method_from_bits :: "u16 \<Rightarrow> stun_method option" where
  "method_from_bits bits =
     (let method_bits = (bits AND 0x000F) OR drop_bit 1 (bits AND 0x00E0) OR drop_bit 2 (bits AND 0x3E00)
      in if method_bits = METHOD_BINDING then Some Binding else None)"

record error_code =
  ec_code :: u16
  ec_reason :: bytes

record stun_message =
  sm_class :: stun_class
  sm_method :: stun_method
  sm_transaction_id :: transaction_id
  sm_xor_mapped_address :: "socket_addr option"
  sm_username :: "bytes option"
  sm_priority :: "u32 option"
  sm_use_candidate :: bool
  sm_ice_controlling :: "u64 option"
  sm_ice_controlled :: "u64 option"
  sm_error_code :: "error_code option"
  sm_has_message_integrity :: bool
  sm_has_fingerprint :: bool

text \<open>The \<^verbatim>\<open>String\<close> of a malformed-message error is kept where it is a literal; the two
  formatted ones keep the number they show.\<close>

datatype stun_malformed = Text string | UnknownMethod u16 | UnknownFamily u8 | NotSuccess stun_class

datatype stun_error = Malformed stun_malformed | TooLarge | Io | Timeout u64

definition bare :: "stun_class \<Rightarrow> transaction_id \<Rightarrow> stun_message" where
  "bare cls tid =
     \<lparr> sm_class = cls, sm_method = Binding, sm_transaction_id = tid, sm_xor_mapped_address = None,
       sm_username = None, sm_priority = None, sm_use_candidate = False, sm_ice_controlling = None,
       sm_ice_controlled = None, sm_error_code = None, sm_has_message_integrity = False,
       sm_has_fingerprint = False \<rparr>"

definition new_binding_request :: "transaction_id \<Rightarrow> stun_message" where
  "new_binding_request tid = bare Request tid"

definition new_binding_indication :: "transaction_id \<Rightarrow> stun_message" where
  "new_binding_indication tid = bare Indication tid"

definition new_binding_response :: "stun_message \<Rightarrow> socket_addr \<Rightarrow> stun_message" where
  "new_binding_response request observed =
     (bare SuccessResponse (sm_transaction_id request)) \<lparr> sm_xor_mapped_address := Some observed \<rparr>"

definition new_binding_error :: "stun_message \<Rightarrow> u16 \<Rightarrow> bytes \<Rightarrow> stun_message" where
  "new_binding_error request err reason =
     (bare ErrorResponse (sm_transaction_id request))
       \<lparr> sm_error_code := Some \<lparr> ec_code = err, ec_reason = reason \<rparr> \<rparr>"

section \<open>Writing attributes\<close>

definition attr_pad :: "nat \<Rightarrow> nat" where "attr_pad n = (4 - n mod 4) mod 4"

definition write_attr :: "octets \<Rightarrow> u16 \<Rightarrow> octets \<Rightarrow> stun_error + octets" where
  "write_attr out ty value =
     (if length value < 2 ^ 16
      then Inr (out @ be_bytes 2 ty @ be_bytes 2 (of_nat (length value) :: u16) @ value
                @ replicate (attr_pad (length value)) 0)
      else Inl TooLarge)"

definition write_u32_attr :: "octets \<Rightarrow> u16 \<Rightarrow> u32 \<Rightarrow> stun_error + octets" where
  "write_u32_attr out ty value = write_attr out ty (be_bytes 4 value)"

definition write_u64_attr :: "octets \<Rightarrow> u16 \<Rightarrow> u64 \<Rightarrow> stun_error + octets" where
  "write_u64_attr out ty value = write_attr out ty (be_bytes 8 value)"

definition xor_port_mask :: u16 where "xor_port_mask = ucast (drop_bit 16 MAGIC_COOKIE)"

text \<open>An \<^verbatim>\<open>IpAddr\<close> is four octets (V4) or sixteen (V6).\<close>

definition xor_address_value :: "socket_addr \<Rightarrow> transaction_id \<Rightarrow> octets" where
  "xor_address_value addr tid =
     (let xor_port = sa_port addr XOR xor_port_mask;
          cookie = be_bytes 4 MAGIC_COOKIE
      in if length (sa_ip addr) = 4
         then [0, 0x01] @ be_bytes 2 xor_port @ map2 (XOR) (sa_ip addr) cookie
         else [0, 0x02] @ be_bytes 2 xor_port @ map2 (XOR) (sa_ip addr) (cookie @ tid))"

definition write_xor_mapped_address :: "octets \<Rightarrow> socket_addr \<Rightarrow> transaction_id \<Rightarrow> stun_error + octets" where
  "write_xor_mapped_address out addr tid =
     write_attr out ATTR_XOR_MAPPED_ADDRESS (xor_address_value addr tid)"

definition decode_xor_mapped_address :: "octets \<Rightarrow> transaction_id \<Rightarrow> stun_error + socket_addr" where
  "decode_xor_mapped_address value tid =
     (if length value < 4 then Inl (Malformed (Text ''XOR-MAPPED-ADDRESS < 4 bytes''))
      else let family = value ! 1;
               port = from_be (slice 2 4 value) XOR xor_port_mask;
               cookie = be_bytes 4 MAGIC_COOKIE
           in if family = 0x01 then
                (if length value < 8 then Inl (Malformed (Text ''XOR-MAPPED-ADDRESS IPv4 truncated''))
                 else Inr \<lparr> sa_ip = map (\<lambda>i. value ! (4 + i) XOR cookie ! i) [0..<4], sa_port = port \<rparr>)
              else if family = 0x02 then
                (if length value < 20 then Inl (Malformed (Text ''XOR-MAPPED-ADDRESS IPv6 truncated''))
                 else Inr \<lparr> sa_ip = map (\<lambda>i. value ! (4 + i) XOR (if i < 4 then cookie ! i else tid ! (i - 4))) [0..<16],
                            sa_port = port \<rparr>)
              else Inl (Malformed (UnknownFamily family)))"

section \<open>Checksums\<close>

definition crc_bit :: "u32 \<Rightarrow> u32" where
  "crc_bit crc = (let m = - (crc AND 1) in drop_bit 1 crc XOR (0xEDB88320 AND m))"

definition crc_octet :: "u32 \<Rightarrow> u8 \<Rightarrow> u32" where
  "crc_octet crc b = (crc_bit ^^ 8) (crc XOR ucast b)"

definition crc32 :: "octets \<Rightarrow> u32" where
  "crc32 bs = NOT (foldl crc_octet 0xFFFFFFFF bs)"

definition ct_eq :: "octets \<Rightarrow> octets \<Rightarrow> bool" where
  "ct_eq a b \<longleftrightarrow> length a = length b \<and> foldl (\<lambda>acc (x, y). acc OR (x XOR y)) 0 (zip a b) = 0"

text \<open>The slice assignment would panic below four octets; every buffer here has the 20-octet
  header.\<close>

definition set_length :: "octets \<Rightarrow> nat \<Rightarrow> stun_error + octets" where
  "set_length buf body_len =
     (if body_len < 2 ^ 16 then Inr (take 2 buf @ be_bytes 2 (of_nat body_len :: u16) @ drop 4 buf)
      else Inl TooLarge)"

section \<open>Encoding\<close>

type_synonym hmac_fun = "octets \<Rightarrow> octets \<Rightarrow> octets"

definition error_code_value :: "error_code \<Rightarrow> octets" where
  "error_code_value err =
     (let c = unat (ec_code err);
          cls = (if c div 100 < 2 ^ 8 then of_nat (c div 100) else - 1) AND 0x07;
          number = (if c mod 100 < 2 ^ 8 then of_nat (c mod 100) else 0)
      in [0, 0, cls, number] @ octets_of (ec_reason err))"

definition encode_attrs :: "stun_message \<Rightarrow> stun_error + octets" where
  "encode_attrs m =
     try_bind (case sm_xor_mapped_address m of Some addr \<Rightarrow> write_xor_mapped_address [] addr (sm_transaction_id m) | None \<Rightarrow> Inr []) (\<lambda>attrs.
     try_bind (case sm_username m of Some user \<Rightarrow> write_attr attrs ATTR_USERNAME (octets_of user) | None \<Rightarrow> Inr attrs) (\<lambda>attrs.
     try_bind (case sm_error_code m of Some err \<Rightarrow> write_attr attrs ATTR_ERROR_CODE (error_code_value err) | None \<Rightarrow> Inr attrs) (\<lambda>attrs.
     try_bind (case sm_priority m of Some prio \<Rightarrow> write_u32_attr attrs ATTR_PRIORITY prio | None \<Rightarrow> Inr attrs) (\<lambda>attrs.
     try_bind (if sm_use_candidate m then write_attr attrs ATTR_USE_CANDIDATE [] else Inr attrs) (\<lambda>attrs.
     try_bind (case sm_ice_controlling m of Some tie \<Rightarrow> write_u64_attr attrs ATTR_ICE_CONTROLLING tie | None \<Rightarrow> Inr attrs) (\<lambda>attrs.
              (case sm_ice_controlled m of Some tie \<Rightarrow> write_u64_attr attrs ATTR_ICE_CONTROLLED tie | None \<Rightarrow> Inr attrs)))))))"

definition add_integrity :: "hmac_fun \<Rightarrow> octets \<Rightarrow> octets \<Rightarrow> stun_error + octets" where
  "add_integrity hmac key out =
     try_bind (set_length out (length out + 4 + INTEGRITY_LEN - STUN_HEADER_LEN)) (\<lambda>out.
       write_attr out ATTR_MESSAGE_INTEGRITY (hmac key out))"

definition add_fingerprint :: "octets \<Rightarrow> stun_error + octets" where
  "add_fingerprint out =
     try_bind (set_length out (length out + 8 - STUN_HEADER_LEN)) (\<lambda>out.
       write_u32_attr out ATTR_FINGERPRINT (crc32 out XOR FINGERPRINT_XOR))"

definition encode_with :: "hmac_fun \<Rightarrow> stun_message \<Rightarrow> octets option \<Rightarrow> bool \<Rightarrow> stun_error + octets" where
  "encode_with hmac m integrity_key fingerprint =
     try_bind (encode_attrs m) (\<lambda>attrs.
     let type_bits = method_to_bits (sm_method m) OR class_encode (sm_class m);
         out = be_bytes 2 type_bits @ [0, 0] @ be_bytes 4 MAGIC_COOKIE @ sm_transaction_id m @ attrs
     in try_bind (case integrity_key of Some key \<Rightarrow> add_integrity hmac key out | None \<Rightarrow> Inr out) (\<lambda>out.
        try_bind (if fingerprint then add_fingerprint out else Inr out) (\<lambda>out.
          set_length out (length out - STUN_HEADER_LEN))))"

definition encode :: "hmac_fun \<Rightarrow> stun_message \<Rightarrow> stun_error + octets" where
  "encode hmac m = encode_with hmac m None False"

section \<open>Decoding\<close>

text \<open>\<^verbatim>\<open>AttrIter::next\<close>: the item and the advanced cursor.\<close>

definition attr_next :: "octets \<Rightarrow> nat \<Rightarrow> ((stun_error + u16 \<times> octets) \<times> nat) option" where
  "attr_next body cursor =
     (if cursor + 4 > length body then None
      else let ty = from_be (slice cursor (cursor + 2) body);
               len = unat (from_be (slice (cursor + 2) (cursor + 4) body) :: u16);
               value_start = cursor + 4
           in if value_start + len > length body
              then Some (Inl (Malformed (Text ''attribute value truncated'')), length body)
              else Some (Inr (ty, slice value_start (value_start + len) body), value_start + len + attr_pad len))"

definition decode_attr :: "transaction_id \<Rightarrow> stun_message \<Rightarrow> u16 \<Rightarrow> octets \<Rightarrow> stun_error + stun_message" where
  "decode_attr tid msg ty value =
     (if ty = ATTR_XOR_MAPPED_ADDRESS then
        try_bind (decode_xor_mapped_address value tid) (\<lambda>a. Inr (msg \<lparr> sm_xor_mapped_address := Some a \<rparr>))
      else if ty = ATTR_USERNAME then
        (if valid_utf8 (chars value) then Inr (msg \<lparr> sm_username := Some (chars value) \<rparr>)
         else Inl (Malformed (Text ''USERNAME is not UTF-8'')))
      else if ty = ATTR_ERROR_CODE \<and> 4 \<le> length value then
        Inr (msg \<lparr> sm_error_code := Some \<lparr> ec_code = ucast (value ! 2 AND 0x07) * 100 + ucast (value ! 3),
                                           ec_reason = from_utf8_lossy (chars (drop 4 value)) \<rparr> \<rparr>)
      else if ty = ATTR_PRIORITY \<and> length value = 4 then Inr (msg \<lparr> sm_priority := Some (from_be value) \<rparr>)
      else if ty = ATTR_USE_CANDIDATE then Inr (msg \<lparr> sm_use_candidate := True \<rparr>)
      else if ty = ATTR_ICE_CONTROLLING \<and> length value = 8 then Inr (msg \<lparr> sm_ice_controlling := Some (from_be value) \<rparr>)
      else if ty = ATTR_ICE_CONTROLLED \<and> length value = 8 then Inr (msg \<lparr> sm_ice_controlled := Some (from_be value) \<rparr>)
      else if ty = ATTR_MESSAGE_INTEGRITY then Inr (msg \<lparr> sm_has_message_integrity := True \<rparr>)
      else if ty = ATTR_FINGERPRINT then Inr (msg \<lparr> sm_has_fingerprint := True \<rparr>)
      else Inr msg)"

lemma attr_next_progress:
  "attr_next body cursor = Some (Inr a, cursor') \<Longrightarrow> cursor < cursor' \<and> cursor + 4 \<le> length body"
  by (auto simp: attr_next_def Let_def split: if_splits)

function decode_attrs :: "transaction_id \<Rightarrow> stun_message \<Rightarrow> octets \<Rightarrow> nat \<Rightarrow> stun_error + stun_message" where
  "decode_attrs tid msg body cursor =
     (case attr_next body cursor of
        None \<Rightarrow> Inr msg
      | Some (Inl e, _) \<Rightarrow> Inl e
      | Some (Inr (ty, value), cursor') \<Rightarrow>
          (case decode_attr tid msg ty value of
             Inl e \<Rightarrow> Inl e
           | Inr msg' \<Rightarrow> decode_attrs tid msg' body cursor'))"
  by pat_completeness auto
termination
  by (relation "measure (\<lambda>(_, _, body, cursor). length body - cursor)") (auto dest: attr_next_progress)

declare decode_attrs.simps [simp del]

definition decode :: "octets \<Rightarrow> stun_error + stun_message" where
  "decode bs =
     (if length bs < STUN_HEADER_LEN then Inl (Malformed (Text ''header < 20 bytes''))
      else if bs ! 0 AND 0xC0 \<noteq> 0 then Inl (Malformed (Text ''non-zero high-2-bits in first byte''))
      else let type_bits = from_be (slice 0 2 bs);
               len = unat (from_be (slice 2 4 bs) :: u16)
           in if from_be (slice 4 8 bs) \<noteq> MAGIC_COOKIE then Inl (Malformed (Text ''wrong magic cookie''))
              else let tid = slice 8 20 bs
                   in (case method_from_bits type_bits of
                         None \<Rightarrow> Inl (Malformed (UnknownMethod type_bits))
                       | Some meth \<Rightarrow>
                           if STUN_HEADER_LEN + len > length bs
                           then Inl (Malformed (Text ''attribute block truncated''))
                           else decode_attrs tid ((bare (class_from_bits type_bits) tid) \<lparr> sm_method := meth \<rparr>)
                                  (slice STUN_HEADER_LEN (STUN_HEADER_LEN + len) bs) 0))"

section \<open>Verification\<close>

function find_attr_loop :: "octets \<Rightarrow> u16 \<Rightarrow> nat \<Rightarrow> nat option" where
  "find_attr_loop body ty cursor =
     (if cursor + 4 \<le> length body then
        (let kind = from_be (slice cursor (cursor + 2) body);
             len = unat (from_be (slice (cursor + 2) (cursor + 4) body) :: u16)
         in if kind = ty then Some (STUN_HEADER_LEN + cursor)
            else find_attr_loop body ty (cursor + 4 + len + attr_pad len))
      else None)"
  by pat_completeness auto
termination
  by (relation "measure (\<lambda>(body, _, cursor). length body - cursor)") auto

declare find_attr_loop.simps [simp del]

definition find_attr_offset :: "octets \<Rightarrow> u16 \<Rightarrow> nat option" where
  "find_attr_offset raw ty =
     (if length raw < 4 then None
      else let len = unat (from_be (slice 2 4 raw) :: u16)
           in if STUN_HEADER_LEN + len > length raw then None
              else find_attr_loop (slice STUN_HEADER_LEN (STUN_HEADER_LEN + len) raw) ty 0)"

definition verify_message_integrity :: "hmac_fun \<Rightarrow> octets \<Rightarrow> octets \<Rightarrow> bool" where
  "verify_message_integrity hmac raw key =
     (case find_attr_offset raw ATTR_MESSAGE_INTEGRITY of
        None \<Rightarrow> False
      | Some offset \<Rightarrow>
          if offset + 4 + INTEGRITY_LEN > length raw then False
          else let observed = slice (offset + 4) (offset + 4 + INTEGRITY_LEN) raw
               in (case set_length (take offset raw) (offset + 4 + INTEGRITY_LEN - STUN_HEADER_LEN) of
                     Inl _ \<Rightarrow> False
                   | Inr covered \<Rightarrow> ct_eq observed (hmac key covered)))"

definition verify_fingerprint :: "octets \<Rightarrow> bool" where
  "verify_fingerprint raw =
     (case find_attr_offset raw ATTR_FINGERPRINT of
        None \<Rightarrow> False
      | Some offset \<Rightarrow>
          if offset + 8 > length raw then False
          else if length raw \<noteq> offset + 8 then False
          else let observed = from_be (slice (offset + 4) (offset + 8) raw)
               in (case set_length (take offset raw) (offset + 8 - STUN_HEADER_LEN) of
                     Inl _ \<Rightarrow> False
                   | Inr covered \<Rightarrow> observed = crc32 covered XOR FINGERPRINT_XOR))"

section \<open>Client exchanges\<close>

text \<open>What one \<^verbatim>\<open>recv_from\<close> under a deadline gives.\<close>

datatype recv_outcome = Datagram octets | RecvFailed | DeadlinePassed

text \<open>\<^verbatim>\<open>binding_ping\<close> after the send succeeded, with the fresh transaction id \<open>tid\<close>.\<close>

definition binding_ping :: "transaction_id \<Rightarrow> u64 \<Rightarrow> recv_outcome \<Rightarrow> stun_error + socket_addr" where
  "binding_ping tid millis outcome =
     (case outcome of
        DeadlinePassed \<Rightarrow> Inl (Timeout millis)
      | RecvFailed \<Rightarrow> Inl Io
      | Datagram bs \<Rightarrow>
          try_bind (decode bs) (\<lambda>response.
            if sm_class response \<noteq> SuccessResponse then Inl (Malformed (NotSuccess (sm_class response)))
            else if sm_transaction_id response \<noteq> tid
            then Inl (Malformed (Text ''transaction id mismatch -- spurious STUN reply''))
            else (case sm_xor_mapped_address response of
                    Some a \<Rightarrow> Inr a
                  | None \<Rightarrow> Inl (Malformed (Text ''Binding Response missing XOR-MAPPED-ADDRESS'')))))"

text \<open>The receive loop of \<^verbatim>\<open>gather_srflx_candidates\<close>: the pending requests by transaction
  id, the addresses seen so far, and the outcomes of the receives. It waits again when the
  outcomes are used up.\<close>

fun gather_loop :: "(transaction_id \<times> socket_addr) list \<Rightarrow> socket_addr list \<Rightarrow> recv_outcome list \<Rightarrow> socket_addr list" where
  "gather_loop pending out [] = out"
| "gather_loop pending out (r # rs) =
     (if pending = [] then out
      else (case r of
              DeadlinePassed \<Rightarrow> out
            | RecvFailed \<Rightarrow> gather_loop pending out rs
            | Datagram bs \<Rightarrow>
                (case decode bs of
                   Inl _ \<Rightarrow> gather_loop pending out rs
                 | Inr response \<Rightarrow>
                     if sm_class response \<noteq> SuccessResponse \<or> map_of pending (sm_transaction_id response) = None
                     then gather_loop pending out rs
                     else gather_loop (filter (\<lambda>p. fst p \<noteq> sm_transaction_id response) pending)
                            (case sm_xor_mapped_address response of
                               Some addr \<Rightarrow> if addr \<in> set out then out else out @ [addr]
                             | None \<Rightarrow> out) rs)))"

text \<open>Each server gets a request with its own transaction id; a request that could not be sent is
  not pending.\<close>

definition gather_srflx_candidates :: "(socket_addr \<times> transaction_id \<times> bool) list \<Rightarrow> recv_outcome list \<Rightarrow> socket_addr list" where
  "gather_srflx_candidates requests outcomes =
     gather_loop (map (\<lambda>(server, tid, _). (tid, server)) (filter (\<lambda>(_, _, sent). sent) requests)) [] outcomes"

section \<open>Attributes in a message body\<close>

text \<open>The octets of one attribute and of a message with these attributes: what the encoder writes,
  and the frame in which the loops are followed.\<close>

definition attr_octets :: "u16 \<times> octets \<Rightarrow> octets" where
  "attr_octets a = be_bytes 2 (fst a) @ be_bytes 2 (of_nat (length (snd a)) :: u16) @ snd a
     @ replicate (attr_pad (length (snd a))) 0"

definition body_octets :: "(u16 \<times> octets) list \<Rightarrow> octets" where
  "body_octets as = concat (map attr_octets as)"

definition small_attrs :: "(u16 \<times> octets) list \<Rightarrow> bool" where
  "small_attrs as \<longleftrightarrow> list_all (\<lambda>a. length (snd a) < 2 ^ 16) as"

definition stun_octets :: "u16 \<Rightarrow> transaction_id \<Rightarrow> (u16 \<times> octets) list \<Rightarrow> octets" where
  "stun_octets ty tid as = be_bytes 2 ty @ be_bytes 2 (of_nat (length (body_octets as)) :: u16)
     @ be_bytes 4 MAGIC_COOKIE @ tid @ body_octets as"

lemma body_octets_simps [simp]:
  "body_octets [] = []" "body_octets (a # as) = attr_octets a @ body_octets as"
  "body_octets (as @ bs) = body_octets as @ body_octets bs"
  by (simp_all add: body_octets_def)

lemma small_attrs_simps [simp]:
  "small_attrs []" "small_attrs (a # as) \<longleftrightarrow> length (snd a) < 2 ^ 16 \<and> small_attrs as"
  "small_attrs (as @ bs) \<longleftrightarrow> small_attrs as \<and> small_attrs bs"
  by (simp_all add: small_attrs_def)

lemma length_attr_octets: "length (attr_octets a) = 4 + length (snd a) + attr_pad (length (snd a))"
  by (simp add: attr_octets_def)

lemma attr_octets_fields:
  assumes "length (snd a) < 2 ^ 16"
  shows "from_be (slice (length pre) (length pre + 2) (pre @ attr_octets a @ post)) = fst a"
    and "unat (from_be (slice (length pre + 2) (length pre + 4) (pre @ attr_octets a @ post)) :: u16) = length (snd a)"
    and "slice (length pre + 4) (length pre + 4 + length (snd a)) (pre @ attr_octets a @ post) = snd a"
  using assms by (simp_all add: slice_def attr_octets_def unat_of_nat)

lemma attr_next_at:
  assumes "length (snd a) < 2 ^ 16"
  shows "attr_next (pre @ attr_octets a @ post) (length pre) = Some (Inr a, length (pre @ attr_octets a))"
  using attr_octets_fields [OF assms, of pre post]
  by (simp add: attr_next_def Let_def length_attr_octets)

lemma attr_next_end: "attr_next body (length body) = None"
  by (simp add: attr_next_def)

text \<open>The decoder folds its per-attribute case over the attributes in order.\<close>

fun apply_attrs :: "transaction_id \<Rightarrow> stun_message \<Rightarrow> (u16 \<times> octets) list \<Rightarrow> stun_error + stun_message" where
  "apply_attrs tid msg [] = Inr msg"
| "apply_attrs tid msg (a # as) =
     (case decode_attr tid msg (fst a) (snd a) of Inl e \<Rightarrow> Inl e | Inr msg' \<Rightarrow> apply_attrs tid msg' as)"

lemma apply_attrs_append:
  "apply_attrs tid msg (as @ bs) =
     (case apply_attrs tid msg as of Inl e \<Rightarrow> Inl e | Inr msg' \<Rightarrow> apply_attrs tid msg' bs)"
  by (induction as arbitrary: msg) (simp_all split: sum.splits)

lemma decode_attrs_body:
  "small_attrs as \<Longrightarrow> decode_attrs tid msg (pre @ body_octets as) (length pre) = apply_attrs tid msg as"
proof (induction as arbitrary: pre msg)
  case Nil
  show ?case by (subst decode_attrs.simps) (simp add: attr_next_end)
next
  case (Cons a as)
  have next_a: "attr_next (pre @ body_octets (a # as)) (length pre) = Some (Inr (fst a, snd a), length (pre @ attr_octets a))"
    using attr_next_at [of a pre "body_octets as"] Cons.prems by simp
  have rest: "decode_attrs tid m (pre @ body_octets (a # as)) (length (pre @ attr_octets a)) = apply_attrs tid m as" for m
    using Cons.IH [of m "pre @ attr_octets a"] Cons.prems by simp
  show ?case by (subst decode_attrs.simps) (simp only: next_a rest option.case sum.case prod.case apply_attrs.simps)
qed

lemma find_attr_loop_body:
  "small_attrs as \<Longrightarrow> ty \<notin> fst ` set as \<Longrightarrow>
   find_attr_loop (pre @ body_octets as @ post) ty (length pre) =
   find_attr_loop (pre @ body_octets as @ post) ty (length (pre @ body_octets as))"
proof (induction as arbitrary: pre)
  case (Cons a as)
  have "length (snd a) < 2 ^ 16" using Cons.prems by simp
  note f = attr_octets_fields [OF this, of pre "body_octets as @ post"]
  have "find_attr_loop (pre @ body_octets (a # as) @ post) ty (length pre)
      = find_attr_loop (pre @ body_octets (a # as) @ post) ty (length (pre @ attr_octets a))"
    by (subst find_attr_loop.simps) (use f Cons.prems in \<open>auto simp: Let_def length_attr_octets add.assoc\<close>)
  with Cons.IH [of "pre @ attr_octets a"] Cons.prems show ?case by simp
qed simp

lemma find_attr_loop_hit:
  assumes "length (snd a) < 2 ^ 16"
  shows "find_attr_loop (pre @ attr_octets a @ post) (fst a) (length pre) = Some (STUN_HEADER_LEN + length pre)"
  by (subst find_attr_loop.simps)
    (use attr_octets_fields(1) [OF assms, of pre post] in \<open>simp add: Let_def length_attr_octets\<close>)

lemma stun_octets_fields:
  assumes "length tid = 12" and "length (body_octets as) < 2 ^ 16"
  shows "from_be (slice 0 2 (stun_octets ty tid as)) = ty"
    and "unat (from_be (slice 2 4 (stun_octets ty tid as)) :: u16) = length (body_octets as)"
    and "from_be (slice 4 8 (stun_octets ty tid as)) = MAGIC_COOKIE"
    and "slice 8 20 (stun_octets ty tid as) = tid"
    and "slice 20 (20 + length (body_octets as)) (stun_octets ty tid as) = body_octets as"
    and "length (stun_octets ty tid as) = 20 + length (body_octets as)"
  using assms by (simp_all add: slice_def stun_octets_def unat_of_nat)

lemma find_attr_offset_stun:
  assumes "length tid = 12" and "length (body_octets (as @ (ty, v) # bs)) < 2 ^ 16"
    and "small_attrs (as @ (ty, v) # bs)" and "ty \<notin> fst ` set as"
  shows "find_attr_offset (stun_octets t tid (as @ (ty, v) # bs)) ty = Some (20 + length (body_octets as))"
proof -
  note f = stun_octets_fields [OF assms(1,2), of t]
  have "find_attr_loop (body_octets (as @ (ty, v) # bs)) ty 0 = Some (STUN_HEADER_LEN + length (body_octets as))"
    using find_attr_loop_body [of as ty "[]" "body_octets ((ty, v) # bs)"] assms
      find_attr_loop_hit [of "(ty, v)" "body_octets as" "body_octets bs"] by simp
  then show ?thesis using f by (simp add: find_attr_offset_def STUN_HEADER_LEN_def)
qed

lemma attr_neqs [simp]:
  "ATTR_MESSAGE_INTEGRITY \<noteq> ATTR_FINGERPRINT" "ATTR_FINGERPRINT \<noteq> ATTR_MESSAGE_INTEGRITY"
  "ATTR_FINGERPRINT \<noteq> ATTR_USE_CANDIDATE" "ATTR_USE_CANDIDATE \<noteq> ATTR_FINGERPRINT" "ATTR_USE_CANDIDATE \<noteq> ATTR_MESSAGE_INTEGRITY"
  by (simp_all add: attr_consts)

section \<open>Comparing in constant time\<close>

lemma ct_fold_zero:
  "foldl (\<lambda>acc (x, y). acc OR (x XOR y)) (acc :: u8) ps = 0 \<longleftrightarrow> acc = 0 \<and> list_all (\<lambda>(x, y). x = y) ps"
proof (induction ps arbitrary: acc)
  case (Cons p ps)
  have "acc OR (x XOR y) = 0 \<longleftrightarrow> acc = 0 \<and> x = y" for x y :: u8
    by (metis or_eq_0_iff xor_self_eq word_bw_same(3) word_bw_lcs(3) word_log_esimps(7) xor.left_commute xor.right_neutral)
  with Cons show ?case by (cases p) simp
qed simp

lemma ct_eq_iff: "ct_eq a b \<longleftrightarrow> a = b"
  unfolding ct_eq_def ct_fold_zero
  by (auto simp: list_all_length intro: nth_equalityI)

section \<open>What the encoder writes\<close>

definition stun_type :: "stun_message \<Rightarrow> u16" where
  "stun_type m = method_to_bits (sm_method m) OR class_encode (sm_class m)"

definition opt_attr :: "u16 \<Rightarrow> ('a \<Rightarrow> octets) \<Rightarrow> 'a option \<Rightarrow> (u16 \<times> octets) list" where
  "opt_attr ty f x = (case x of Some v \<Rightarrow> [(ty, f v)] | None \<Rightarrow> [])"

definition attrs_of :: "stun_message \<Rightarrow> (u16 \<times> octets) list" where
  "attrs_of m =
     opt_attr ATTR_XOR_MAPPED_ADDRESS (\<lambda>a. xor_address_value a (sm_transaction_id m)) (sm_xor_mapped_address m)
     @ opt_attr ATTR_USERNAME octets_of (sm_username m)
     @ opt_attr ATTR_ERROR_CODE error_code_value (sm_error_code m)
     @ opt_attr ATTR_PRIORITY (be_bytes 4) (sm_priority m)
     @ (if sm_use_candidate m then [(ATTR_USE_CANDIDATE, [])] else [])
     @ opt_attr ATTR_ICE_CONTROLLING (be_bytes 8) (sm_ice_controlling m)
     @ opt_attr ATTR_ICE_CONTROLLED (be_bytes 8) (sm_ice_controlled m)"

definition stun_with_len :: "nat \<Rightarrow> u16 \<Rightarrow> transaction_id \<Rightarrow> (u16 \<times> octets) list \<Rightarrow> octets" where
  "stun_with_len n ty tid as = be_bytes 2 ty @ be_bytes 2 (of_nat n :: u16) @ be_bytes 4 MAGIC_COOKIE @ tid @ body_octets as"

definition integrity_attr :: "hmac_fun \<Rightarrow> octets \<Rightarrow> u16 \<Rightarrow> transaction_id \<Rightarrow> (u16 \<times> octets) list \<Rightarrow> u16 \<times> octets" where
  "integrity_attr hmac key ty tid as =
     (ATTR_MESSAGE_INTEGRITY, hmac key (stun_with_len (length (body_octets as) + 24) ty tid as))"

definition fingerprint_attr :: "u16 \<Rightarrow> transaction_id \<Rightarrow> (u16 \<times> octets) list \<Rightarrow> u16 \<times> octets" where
  "fingerprint_attr ty tid as =
     (ATTR_FINGERPRINT, be_bytes 4 (crc32 (stun_with_len (length (body_octets as) + 8) ty tid as) XOR FINGERPRINT_XOR))"

definition integrity_attrs :: "hmac_fun \<Rightarrow> octets option \<Rightarrow> u16 \<Rightarrow> transaction_id \<Rightarrow> (u16 \<times> octets) list \<Rightarrow> (u16 \<times> octets) list" where
  "integrity_attrs hmac key ty tid as = (case key of Some k \<Rightarrow> as @ [integrity_attr hmac k ty tid as] | None \<Rightarrow> as)"

definition sealed_attrs :: "hmac_fun \<Rightarrow> octets option \<Rightarrow> bool \<Rightarrow> u16 \<Rightarrow> transaction_id \<Rightarrow> (u16 \<times> octets) list \<Rightarrow> (u16 \<times> octets) list" where
  "sealed_attrs hmac key fp ty tid as =
     (let as' = integrity_attrs hmac key ty tid as in if fp then as' @ [fingerprint_attr ty tid as'] else as')"

definition hmac_ok :: "hmac_fun \<Rightarrow> bool" where
  "hmac_ok hmac \<longleftrightarrow> (\<forall>key msg. length (hmac key msg) = INTEGRITY_LEN)"

lemma attr_pad_4 [simp]: "attr_pad 0 = 0" "attr_pad 4 = 0" "attr_pad 8 = 0" "attr_pad 20 = 0"
  by (simp_all add: attr_pad_def)

lemma attr_pad_le: "attr_pad n \<le> 3"
  by (simp add: attr_pad_def)

lemma opt_attr_simps [simp]: "opt_attr ty f None = []" "opt_attr ty f (Some v) = [(ty, f v)]"
  by (simp_all add: opt_attr_def)

lemma stun_octets_len: "stun_octets ty tid as = stun_with_len (length (body_octets as)) ty tid as"
  by (simp add: stun_octets_def stun_with_len_def)

lemma length_stun_with_len: "length tid = 12 \<Longrightarrow> length (stun_with_len n ty tid as) = 20 + length (body_octets as)"
  by (simp add: stun_with_len_def)

lemma write_attr_ok: "length v < 2 ^ 16 \<Longrightarrow> write_attr out ty v = Inr (out @ attr_octets (ty, v))"
  by (simp add: write_attr_def attr_octets_def)

lemma set_length_stun:
  "n < 2 ^ 16 \<Longrightarrow> set_length (stun_with_len k ty tid as) n = Inr (stun_with_len n ty tid as)"
  by (simp add: set_length_def stun_with_len_def)

lemma write_opt_attr:
  "small_attrs (opt_attr ty f x) \<Longrightarrow>
   (case x of Some v \<Rightarrow> write_attr out ty (f v) | None \<Rightarrow> Inr out) = Inr (out @ body_octets (opt_attr ty f x))"
  by (cases x) (simp_all add: write_attr_ok)

lemma encode_attrs_ok:
  "small_attrs (attrs_of m) \<Longrightarrow> encode_attrs m = Inr (body_octets (attrs_of m))"
  unfolding encode_attrs_def attrs_of_def write_xor_mapped_address_def write_u32_attr_def write_u64_attr_def
  by (simp add: write_opt_attr [simplified] write_opt_attr [where out = "[]", simplified] write_attr_ok)

lemma stun_with_len_append:
  "stun_with_len n ty tid (as @ [a]) = stun_with_len n ty tid as @ attr_octets a"
  by (simp add: stun_with_len_def)

lemma add_integrity_ok:
  assumes "hmac_ok hmac" and "length tid = 12" and "length (body_octets as) + 24 < 2 ^ 16"
  shows "add_integrity hmac key (stun_with_len k ty tid as) =
    Inr (stun_with_len (length (body_octets as) + 24) ty tid (as @ [integrity_attr hmac key ty tid as]))"
  using assms
  by (simp add: add_integrity_def length_stun_with_len set_length_stun write_attr_ok hmac_ok_def
      INTEGRITY_LEN_def STUN_HEADER_LEN_def stun_with_len_append integrity_attr_def add.commute)

lemma add_fingerprint_ok:
  assumes "length tid = 12" and "length (body_octets as) + 8 < 2 ^ 16"
  shows "add_fingerprint (stun_with_len k ty tid as) =
    Inr (stun_with_len (length (body_octets as) + 8) ty tid (as @ [fingerprint_attr ty tid as]))"
  using assms
  by (simp add: add_fingerprint_def length_stun_with_len set_length_stun write_u32_attr_def write_attr_ok
      STUN_HEADER_LEN_def stun_with_len_append fingerprint_attr_def add.commute)

lemma length_integrity_attrs:
  "hmac_ok hmac \<Longrightarrow> length (body_octets (integrity_attrs hmac key ty tid as)) =
     length (body_octets as) + (if key = None then 0 else 24)"
  by (auto simp: integrity_attrs_def integrity_attr_def hmac_ok_def INTEGRITY_LEN_def length_attr_octets)

lemma encode_with_ok:
  assumes "hmac_ok hmac" and "length (sm_transaction_id m) = 12" and "small_attrs (attrs_of m)"
    and "length (body_octets (attrs_of m)) + 32 < 2 ^ 16"
  shows "encode_with hmac m key fp =
    Inr (stun_octets (stun_type m) (sm_transaction_id m)
          (sealed_attrs hmac key fp (stun_type m) (sm_transaction_id m) (attrs_of m)))"
proof -
  let ?t = "stun_type m" and ?tid = "sm_transaction_id m" and ?as = "attrs_of m"
  let ?as1 = "integrity_attrs hmac key ?t ?tid ?as"
  have start: "be_bytes 2 (method_to_bits (sm_method m) OR class_encode (sm_class m)) @ [0, 0]
      @ be_bytes 4 MAGIC_COOKIE @ ?tid @ body_octets ?as = stun_with_len 0 ?t ?tid ?as"
    by (simp add: stun_with_len_def stun_type_def byte_simps)
  have len1: "length (body_octets ?as1) + 8 < 2 ^ 16"
    using assms(4) length_integrity_attrs [OF assms(1)] by simp
  obtain k1 where 1: "(case key of Some key \<Rightarrow> add_integrity hmac key (stun_with_len 0 ?t ?tid ?as)
      | None \<Rightarrow> Inr (stun_with_len 0 ?t ?tid ?as)) = Inr (stun_with_len k1 ?t ?tid ?as1)"
    using assms by (cases key) (auto simp: add_integrity_ok integrity_attrs_def)
  obtain k2 where 2: "(if fp then add_fingerprint (stun_with_len k1 ?t ?tid ?as1) else Inr (stun_with_len k1 ?t ?tid ?as1)) =
      Inr (stun_with_len k2 ?t ?tid (sealed_attrs hmac key fp ?t ?tid ?as))"
    using assms(2) len1 by (cases fp) (auto simp: add_fingerprint_ok sealed_attrs_def Let_def)
  have "length (body_octets (sealed_attrs hmac key fp ?t ?tid ?as)) < 2 ^ 16"
    using len1 by (simp add: sealed_attrs_def Let_def fingerprint_attr_def length_attr_octets)
  then show ?thesis
    unfolding encode_with_def encode_attrs_ok [OF assms(3)] try_bind_Inr Let_def start 1 2
    using assms(2) by (simp add: set_length_stun length_stun_with_len STUN_HEADER_LEN_def stun_octets_len)
qed

section \<open>Reading a message back\<close>

lemma type_bits_roundtrip:
  "method_from_bits (stun_type m) = Some Binding" "class_from_bits (stun_type m) = sm_class m"
  by (cases "sm_class m"; simp add: stun_type_def method_from_bits_def class_from_bits_def method_to_bits_def
      class_encode_def METHOD_BINDING_def Let_def split: stun_method.split)+

lemma stun_octets_first: "(stun_octets (stun_type m) tid as) ! 0 AND 0xC0 = 0"
  by (cases "sm_class m"; simp add: stun_octets_def byte_simps stun_type_def method_to_bits_def
      class_encode_def METHOD_BINDING_def split: stun_method.split)

lemma decode_stun_octets:
  assumes "length tid = 12" and "length (body_octets as) < 2 ^ 16" and "small_attrs as"
  shows "decode (stun_octets (stun_type m) tid as) = apply_attrs tid (bare (sm_class m) tid) as"
proof -
  have "(bare c t) \<lparr> sm_method := Binding \<rparr> = bare c t" for c t by (simp add: bare_def)
  then show ?thesis
    using stun_octets_fields [OF assms(1,2), of "stun_type m"] stun_octets_first [of m tid as]
      decode_attrs_body [OF assms(3), of tid "bare (sm_class m) tid" "[]"]
    by (simp add: decode_def STUN_HEADER_LEN_def Let_def type_bits_roundtrip)
qed

lemma xor_cancel: "(a XOR b) XOR b = (a :: 'a::len word)"
  by (simp add: xor.assoc)

text \<open>The address octets: four or sixteen.\<close>

definition addr_ok :: "socket_addr \<Rightarrow> bool" where
  "addr_ok a \<longleftrightarrow> length (sa_ip a) = 4 \<or> length (sa_ip a) = 16"

lemma xor_address_roundtrip:
  assumes "addr_ok a" and "length tid = 12"
  shows "decode_xor_mapped_address (xor_address_value a tid) tid = Inr a"
proof -
  let ?v = "xor_address_value a tid"
  have len: "length ?v = 4 + length (sa_ip a)"
    using assms by (auto simp: xor_address_value_def addr_ok_def Let_def)
  have fam: "?v ! Suc 0 = (if length (sa_ip a) = 4 then 1 else 2)"
    by (simp add: xor_address_value_def Let_def)
  have port: "from_be (slice 2 4 ?v) XOR xor_port_mask = sa_port a"
    by (simp add: xor_address_value_def Let_def slice_def xor_cancel)
  have mask: "?v ! (4 + i) = sa_ip a ! i XOR (if i < 4 then be_bytes 4 MAGIC_COOKIE ! i else tid ! (i - 4))"
    if "i < length (sa_ip a)" for i
    using that assms by (auto simp: xor_address_value_def addr_ok_def Let_def nth_append)
  have octets: "map (\<lambda>i. ?v ! (4 + i) XOR (if i < 4 then be_bytes 4 MAGIC_COOKIE ! i else tid ! (i - 4))) [0..<length (sa_ip a)] = sa_ip a"
    by (rule nth_equalityI) (simp_all add: mask xor_cancel)
  have octets4: "map (\<lambda>i. ?v ! (4 + i) XOR be_bytes 4 MAGIC_COOKIE ! i) [0..<4] = sa_ip a" if "length (sa_ip a) = 4"
    by (rule nth_equalityI) (simp_all add: that mask xor_cancel)
  have octets16: "map (\<lambda>i. ?v ! (4 + i) XOR (if i < 4 then be_bytes 4 MAGIC_COOKIE ! i else tid ! (i - 4))) [0..<16] = sa_ip a"
    if "length (sa_ip a) = 16"
    using octets that by simp
  show ?thesis
    using assms len octets4 octets16
    by (auto simp: decode_xor_mapped_address_def Let_def fam port addr_ok_def simp del: upt_Suc upt_rec_numeral)
qed

text \<open>The messages a program can hold and the attribute grammar can carry: a 12-octet transaction id,
  an address of either family, UTF-8 strings, a three-digit code below 800, and strings that leave
  room in the 16-bit length field.\<close>

definition stun_ok :: "stun_message \<Rightarrow> bool" where
  "stun_ok m \<longleftrightarrow> length (sm_transaction_id m) = 12 \<and>
     pred_option addr_ok (sm_xor_mapped_address m) \<and>
     pred_option valid_utf8 (sm_username m) \<and>
     pred_option (\<lambda>e. valid_utf8 (ec_reason e) \<and> ec_code e < 800) (sm_error_code m) \<and>
     length (case sm_username m of Some u \<Rightarrow> u | None \<Rightarrow> []) +
     length (case sm_error_code m of Some e \<Rightarrow> ec_reason e | None \<Rightarrow> []) < 65000"

lemma small_octet:
  assumes "q < 8"
  shows "(of_nat q :: u8) AND 0x07 = of_nat q"
proof -
  have "q \<in> {0, 1, 2, 3, 4, 5, 6, 7}" using assms by auto
  then show ?thesis by auto
qed

lemma error_code_roundtrip:
  assumes "ec_code e < 800"
  shows "ucast (error_code_value e ! 2 AND 0x07) * 100 + ucast (error_code_value e ! 3) = ec_code e"
proof -
  let ?c = "unat (ec_code e)"
  have "?c < 800" using assms by (simp add: word_less_nat_alt)
  then have q: "?c div 100 < 8" by (simp add: less_mult_imp_div_less)
  have uc: "ucast (of_nat k :: u8) = (of_nat k :: u16)" if "k < 256" for k
    using that by (simp add: unsigned_of_nat take_bit_nat_eq_self)
  have "ucast (error_code_value e ! 2 AND 0x07) * 100 + ucast (error_code_value e ! 3) =
      (of_nat (?c div 100) * of_nat 100 + of_nat (?c mod 100) :: u16)"
    using q by (simp add: error_code_value_def Let_def small_octet uc)
  also have "\<dots> = of_nat (?c div 100 * 100 + ?c mod 100)" by (simp only: of_nat_add of_nat_mult)
  finally show ?thesis by simp
qed

lemma apply_opt_attr:
  assumes "\<And>v. x = Some v \<Longrightarrow> decode_attr tid msg ty (f v) = Inr (upd (Some v))" and "upd None = msg"
  shows "apply_attrs tid msg (opt_attr ty f x) = Inr (upd x)"
  using assms by (cases x) simp_all

lemma apply_attrs_of:
  assumes "stun_ok m"
  shows "apply_attrs (sm_transaction_id m) (bare (sm_class m) (sm_transaction_id m)) (attrs_of m) =
    Inr (m \<lparr> sm_has_message_integrity := False, sm_has_fingerprint := False \<rparr>)"
proof -
  let ?tid = "sm_transaction_id m"
  note ok = assms [unfolded stun_ok_def]
  have a: "apply_attrs ?tid msg (opt_attr ATTR_XOR_MAPPED_ADDRESS (\<lambda>a. xor_address_value a ?tid) (sm_xor_mapped_address m))
      = Inr (msg \<lparr> sm_xor_mapped_address := sm_xor_mapped_address m \<rparr>)" if "sm_xor_mapped_address msg = None" for msg
    by (rule apply_opt_attr) (use ok that in \<open>auto simp: decode_attr_def xor_address_roundtrip\<close>)
  have b: "apply_attrs ?tid msg (opt_attr ATTR_USERNAME octets_of (sm_username m))
      = Inr (msg \<lparr> sm_username := sm_username m \<rparr>)" if "sm_username msg = None" for msg
    by (rule apply_opt_attr) (use ok that in \<open>auto simp: decode_attr_def attr_consts\<close>)
  have c: "apply_attrs ?tid msg (opt_attr ATTR_ERROR_CODE error_code_value (sm_error_code m))
      = Inr (msg \<lparr> sm_error_code := sm_error_code m \<rparr>)" if "sm_error_code msg = None" for msg
  proof (rule apply_opt_attr)
    fix e assume "sm_error_code m = Some e"
    with ok have "valid_utf8 (ec_reason e)" "ec_code e < 800" by auto
    moreover have "drop 4 (error_code_value e) = octets_of (ec_reason e)" "4 \<le> length (error_code_value e)"
      by (simp_all add: error_code_value_def Let_def)
    ultimately show "decode_attr ?tid msg ATTR_ERROR_CODE (error_code_value e) = Inr (msg \<lparr> sm_error_code := Some e \<rparr>)"
      by (simp add: decode_attr_def attr_consts error_code_roundtrip from_utf8_lossy_valid)
  qed (use that in simp)
  have d: "apply_attrs ?tid msg (opt_attr ATTR_PRIORITY (be_bytes 4) (sm_priority m))
      = Inr (msg \<lparr> sm_priority := sm_priority m \<rparr>)" if "sm_priority msg = None" for msg
    by (rule apply_opt_attr) (use that in \<open>auto simp: decode_attr_def attr_consts\<close>)
  have e: "apply_attrs ?tid msg (if sm_use_candidate m then [(ATTR_USE_CANDIDATE, [])] else [])
      = Inr (msg \<lparr> sm_use_candidate := sm_use_candidate m \<rparr>)" if "\<not> sm_use_candidate msg" for msg
    using that by (auto simp: decode_attr_def attr_consts)
  have f: "apply_attrs ?tid msg (opt_attr ATTR_ICE_CONTROLLING (be_bytes 8) (sm_ice_controlling m))
      = Inr (msg \<lparr> sm_ice_controlling := sm_ice_controlling m \<rparr>)" if "sm_ice_controlling msg = None" for msg
    by (rule apply_opt_attr) (use that in \<open>auto simp: decode_attr_def attr_consts\<close>)
  have g: "apply_attrs ?tid msg (opt_attr ATTR_ICE_CONTROLLED (be_bytes 8) (sm_ice_controlled m))
      = Inr (msg \<lparr> sm_ice_controlled := sm_ice_controlled m \<rparr>)" if "sm_ice_controlled msg = None" for msg
    by (rule apply_opt_attr) (use that in \<open>auto simp: decode_attr_def attr_consts\<close>)
  have "sm_method m = Binding" by (cases "sm_method m") simp
  then show ?thesis
    by (simp add: attrs_of_def apply_attrs_append a b c d e f g bare_def)
qed

lemma opt_attr_size:
  assumes "\<And>v. x = Some v \<Longrightarrow> length (f v) \<le> n" and "n < 2 ^ 16"
  shows "small_attrs (opt_attr ty f x)" and "length (body_octets (opt_attr ty f x)) \<le> 7 + n"
  using assms attr_pad_le [of "length (f (the x))"] by (cases x; fastforce simp: length_attr_octets)+

lemma attrs_of_size:
  assumes "stun_ok m"
  shows "small_attrs (attrs_of m)" and "length (body_octets (attrs_of m)) < 65000 + 100"
proof -
  note ok = assms [unfolded stun_ok_def]
  let ?u = "length (case sm_username m of Some u \<Rightarrow> u | None \<Rightarrow> [])"
  let ?e = "length (case sm_error_code m of Some e \<Rightarrow> ec_reason e | None \<Rightarrow> [])"
  have x: "length (xor_address_value a (sm_transaction_id m)) \<le> 20" if "sm_xor_mapped_address m = Some a" for a
    using that ok by (auto simp: xor_address_value_def addr_ok_def Let_def)
  have u: "length (octets_of v) \<le> ?u" if "sm_username m = Some v" for v
    using that by simp
  have e: "length (error_code_value v) \<le> 4 + ?e" if "sm_error_code m = Some v" for v
    using that by (simp add: error_code_value_def Let_def)
  have num20: "(20 :: nat) < 2 ^ 16" by simp
  have ue: "?u < 2 ^ 16" "4 + ?e < 2 ^ 16" "?u + ?e < 65000" using ok by simp_all
  note sizes = opt_attr_size [of "sm_xor_mapped_address m" "\<lambda>a. xor_address_value a (sm_transaction_id m)" 20 ATTR_XOR_MAPPED_ADDRESS, OF x num20]
    opt_attr_size [of "sm_username m" octets_of ?u ATTR_USERNAME, OF u ue(1)] opt_attr_size [of "sm_error_code m" error_code_value "4 + ?e" ATTR_ERROR_CODE, OF e ue(2)]
    opt_attr_size [of "sm_priority m" "be_bytes 4" 4 ATTR_PRIORITY, simplified]
    opt_attr_size [of "sm_ice_controlling m" "be_bytes 8" 8 ATTR_ICE_CONTROLLING, simplified]
    opt_attr_size [of "sm_ice_controlled m" "be_bytes 8" 8 ATTR_ICE_CONTROLLED, simplified]
  show "small_attrs (attrs_of m)"
    unfolding attrs_of_def small_attrs_simps using sizes by simp
  have "length (body_octets (if sm_use_candidate m then [(ATTR_USE_CANDIDATE, [])] else [])) \<le> 4"
    by (simp add: length_attr_octets)
  then show "length (body_octets (attrs_of m)) < 65000 + 100"
    unfolding attrs_of_def body_octets_simps length_append using sizes ue by linarith
qed

lemma attrs_of_types: "ATTR_MESSAGE_INTEGRITY \<notin> fst ` set (attrs_of m)" "ATTR_FINGERPRINT \<notin> fst ` set (attrs_of m)"
  by (auto simp: attrs_of_def opt_attr_def attr_consts split: option.splits if_splits)

section \<open>Integrity and fingerprint\<close>

lemma take_stun_octets:
  "length tid = 12 \<Longrightarrow> take (20 + length (body_octets as)) (stun_octets ty tid (as @ bs)) =
     stun_with_len (length (body_octets (as @ bs))) ty tid as"
  by (simp add: stun_octets_def stun_with_len_def)

lemma slice_stun_value:
  "length tid = 12 \<Longrightarrow>
   slice (20 + length (body_octets as) + 4) (20 + length (body_octets as) + 4 + length v) (stun_octets ty tid (as @ (t, v) # bs)) = v"
  by (simp add: slice_def stun_octets_def attr_octets_def)

lemma verify_integrity_stun:
  assumes "hmac_ok hmac" and "length tid = 12" and "small_attrs as" and "small_attrs bs"
    and "ATTR_MESSAGE_INTEGRITY \<notin> fst ` set as"
    and "length (body_octets (as @ integrity_attr hmac key ty tid as # bs)) < 2 ^ 16"
  shows "verify_message_integrity hmac (stun_octets ty tid (as @ integrity_attr hmac key ty tid as # bs)) key"
proof -
  let ?v = "hmac key (stun_with_len (length (body_octets as) + 24) ty tid as)"
  let ?raw = "stun_octets ty tid (as @ (ATTR_MESSAGE_INTEGRITY, ?v) # bs)"
  have v: "length ?v = 20" using assms(1) by (simp add: hmac_ok_def INTEGRITY_LEN_def)
  note body = assms(6) [unfolded integrity_attr_def]
  have off: "find_attr_offset ?raw ATTR_MESSAGE_INTEGRITY = Some (20 + length (body_octets as))"
    by (rule find_attr_offset_stun [OF assms(2) body]) (use assms(3-5) v in simp_all)
  have len: "length ?raw = 20 + length (body_octets as) + 24 + length (body_octets bs)"
    using stun_octets_fields(6) [OF assms(2) body, of ty] v by (simp add: length_attr_octets)
  have "length (body_octets as) + 24 < 2 ^ 16" using body v by (simp add: length_attr_octets)
  then show ?thesis
    unfolding integrity_attr_def verify_message_integrity_def off option.case take_stun_octets [OF assms(2)]
    using len slice_stun_value [OF assms(2), of as ?v ty ATTR_MESSAGE_INTEGRITY bs] v
    by (simp add: INTEGRITY_LEN_def STUN_HEADER_LEN_def set_length_stun ct_eq_iff add.commute)
qed

lemma verify_fingerprint_stun:
  assumes "length tid = 12" and "small_attrs as" and "ATTR_FINGERPRINT \<notin> fst ` set as"
    and "length (body_octets (as @ [fingerprint_attr ty tid as])) < 2 ^ 16"
  shows "verify_fingerprint (stun_octets ty tid (as @ [fingerprint_attr ty tid as]))"
proof -
  let ?c = "crc32 (stun_with_len (length (body_octets as) + 8) ty tid as) XOR FINGERPRINT_XOR"
  let ?raw = "stun_octets ty tid (as @ [(ATTR_FINGERPRINT, be_bytes 4 ?c)])"
  note body = assms(4) [unfolded fingerprint_attr_def]
  have off: "find_attr_offset ?raw ATTR_FINGERPRINT = Some (20 + length (body_octets as))"
    by (rule find_attr_offset_stun [OF assms(1) body]) (use assms(2,3) in simp_all)
  have len: "length ?raw = 20 + length (body_octets as) + 8"
    using stun_octets_fields(6) [OF assms(1) body, of ty] by (simp add: length_attr_octets)
  have "length (body_octets as) + 8 < 2 ^ 16" using body by (simp add: length_attr_octets)
  then show ?thesis
    unfolding fingerprint_attr_def verify_fingerprint_def off option.case take_stun_octets [OF assms(1)]
    using len slice_stun_value [OF assms(1), of as "be_bytes 4 ?c" ty ATTR_FINGERPRINT "[]"]
    by (simp add: STUN_HEADER_LEN_def set_length_stun add.commute)
qed

lemma apply_seal:
  "apply_attrs tid msg (integrity_attr hmac key ty tid' as # bs) = apply_attrs tid (msg \<lparr> sm_has_message_integrity := True \<rparr>) bs"
  "apply_attrs tid msg (fingerprint_attr ty tid' as # bs) = apply_attrs tid (msg \<lparr> sm_has_fingerprint := True \<rparr>) bs"
  "apply_attrs tid msg ((ATTR_USE_CANDIDATE, []) # bs) = apply_attrs tid (msg \<lparr> sm_use_candidate := True \<rparr>) bs"
  by (simp_all add: integrity_attr_def fingerprint_attr_def decode_attr_def attr_consts)

lemma seal_small:
  "hmac_ok hmac \<Longrightarrow> small_attrs [integrity_attr hmac key ty tid as]" "small_attrs [fingerprint_attr ty tid as]"
  by (simp_all add: integrity_attr_def fingerprint_attr_def hmac_ok_def INTEGRITY_LEN_def)

lemma seal_length:
  "hmac_ok hmac \<Longrightarrow> length (attr_octets (integrity_attr hmac key ty tid as)) = 24"
  "length (attr_octets (fingerprint_attr ty tid as)) = 8"
  by (simp_all add: integrity_attr_def fingerprint_attr_def hmac_ok_def INTEGRITY_LEN_def length_attr_octets)

lemma seal_types [simp]:
  "fst (integrity_attr hmac key ty tid as) = ATTR_MESSAGE_INTEGRITY"
  "fst (fingerprint_attr ty tid as) = ATTR_FINGERPRINT"
  by (simp_all add: integrity_attr_def fingerprint_attr_def)

text \<open>Property C17. STUN encoding and decoding agree, with integrity and fingerprint. For every
  well-formed message, key choice and fingerprint choice, \<^verbatim>\<open>encode_with\<close> succeeds; decoding
  its output gives the message back with exactly the two flags set that were asked for; the output
  passes \<^verbatim>\<open>verify_message_integrity\<close> under the key it was made with and
  \<^verbatim>\<open>verify_fingerprint\<close> when it carries one; and it passes the demultiplexing test
  \<^verbatim>\<open>is_stun\<close>. The only hypothesis on HMAC-SHA1 is that its tag has 20 octets.\<close>

theorem stun_sealed_roundtrip:
  assumes "stun_ok m" and "hmac_ok hmac"
  shows "\<exists>bs. encode_with hmac m key fp = Inr bs
     \<and> decode bs = Inr (m \<lparr> sm_has_message_integrity := key \<noteq> None, sm_has_fingerprint := fp \<rparr>)
     \<and> (\<forall>k. key = Some k \<longrightarrow> verify_message_integrity hmac bs k)
     \<and> (fp \<longrightarrow> verify_fingerprint bs) \<and> is_stun bs"
proof -
  let ?t = "stun_type m" and ?tid = "sm_transaction_id m" and ?as = "attrs_of m"
  let ?as1 = "integrity_attrs hmac key ?t ?tid ?as" and ?as2 = "sealed_attrs hmac key fp ?t ?tid ?as"
  have tid: "length ?tid = 12" using assms(1) by (simp add: stun_ok_def)
  note size = attrs_of_size [OF assms(1)]
  have small1: "small_attrs ?as1"
    using size(1) seal_small(1) [OF assms(2)] by (cases key) (simp_all add: integrity_attrs_def)
  then have small: "small_attrs ?as2"
    using seal_small(2) by (simp add: sealed_attrs_def Let_def)
  have len1: "length (body_octets ?as1) < 65130"
    using size(2) by (simp add: length_integrity_attrs [OF assms(2)])
  then have len: "length (body_octets ?as2) < 2 ^ 16"
    by (simp add: sealed_attrs_def Let_def seal_length)
  have enc: "encode_with hmac m key fp = Inr (stun_octets ?t ?tid ?as2)"
    by (rule encode_with_ok [OF assms(2) tid size(1)]) (use size(2) in simp)
  have dec: "decode (stun_octets ?t ?tid ?as2) = Inr (m \<lparr> sm_has_message_integrity := key \<noteq> None, sm_has_fingerprint := fp \<rparr>)"
    unfolding decode_stun_octets [OF tid len small]
    using apply_attrs_of [OF assms(1)]
    by (cases key; cases fp) (simp_all add: sealed_attrs_def integrity_attrs_def Let_def apply_attrs_append apply_seal
        del: apply_attrs.simps(2))
  have mi: "verify_message_integrity hmac (stun_octets ?t ?tid ?as2) k" if k: "key = Some k" for k
  proof -
    define rest where "rest = (if fp then [fingerprint_attr ?t ?tid ?as1] else [])"
    have split: "?as2 = ?as @ integrity_attr hmac k ?t ?tid ?as # rest"
      using k by (simp add: rest_def sealed_attrs_def integrity_attrs_def)
    have "small_attrs rest" using seal_small(2) by (simp add: rest_def)
    from verify_integrity_stun [OF assms(2) tid size(1) this attrs_of_types(1)] len
    show ?thesis unfolding split by blast
  qed
  have fpv: "verify_fingerprint (stun_octets ?t ?tid ?as2)" if fp
  proof -
    have split: "?as2 = ?as1 @ [fingerprint_attr ?t ?tid ?as1]" using that by (simp add: sealed_attrs_def Let_def)
    have "ATTR_FINGERPRINT \<notin> fst ` set ?as1"
      using attrs_of_types(2) by (cases key) (auto simp: integrity_attrs_def)
    from verify_fingerprint_stun [OF tid small1 this] len show ?thesis unfolding split by blast
  qed
  have "stun_octets ?t ?tid ?as2 ! 0 < 4"
    by (cases "sm_class m"; simp add: stun_octets_def byte_simps stun_type_def method_to_bits_def
        class_encode_def METHOD_BINDING_def split: stun_method.split)
  then have "is_stun (stun_octets ?t ?tid ?as2)"
    using stun_octets_fields [OF tid len, of ?t] by (simp add: is_stun_def STUN_HEADER_LEN_def)
  with enc dec mi fpv show ?thesis by blast
qed

definition demo_hmac :: hmac_fun where
  "demo_hmac key msg = replicate 20 (foldl (+) (of_nat (length key)) msg)"

definition demo_check :: stun_message where
  "demo_check = (bare Request (replicate 12 7)) \<lparr> sm_username := Some ''remote:local'', sm_priority := Some 0x6E0001FF,
     sm_ice_controlling := Some 42 \<rparr>"

lemma demo_hmac_ok: "hmac_ok demo_hmac"
  by (simp add: hmac_ok_def demo_hmac_def INTEGRITY_LEN_def)

lemma demo_check_ok: "stun_ok demo_check"
  by (simp add: stun_ok_def demo_check_def bare_def is_ascii_def valid_utf8_ascii)

theorem stun_sealed_roundtrip_witness:
  "\<exists>bs. encode_with demo_hmac demo_check (Some [1, 2, 3]) True = Inr bs
     \<and> decode bs = Inr (demo_check \<lparr> sm_has_message_integrity := True, sm_has_fingerprint := True \<rparr>)
     \<and> verify_message_integrity demo_hmac bs [1, 2, 3] \<and> verify_fingerprint bs \<and> is_stun bs"
  using stun_sealed_roundtrip [OF demo_check_ok demo_hmac_ok, of "Some [1, 2, 3]" True] by auto

section \<open>Attributes after MESSAGE-INTEGRITY\<close>

text \<open>What anyone can do to a captured message without knowing the key: append USE-CANDIDATE, fix
  the length, and put a fresh FINGERPRINT at the end.\<close>

definition append_use_candidate :: "octets \<Rightarrow> stun_error + octets" where
  "append_use_candidate bs =
     try_bind (write_attr bs ATTR_USE_CANDIDATE []) (\<lambda>out.
     try_bind (add_fingerprint out) (\<lambda>out. set_length out (length out - STUN_HEADER_LEN)))"

text \<open>Result. The integrity check does not cover what follows it, and the decoder reads it.
  From any authenticated message, an attacker without the key can build one that passes both
  \<^verbatim>\<open>verify_message_integrity\<close> under the same key and \<^verbatim>\<open>verify_fingerprint\<close>, and
  that decodes to the same message with USE-CANDIDATE set, the flag the agent nominates a pair on.
  RFC 8489 section 14.5 tells receivers to ignore attributes after MESSAGE-INTEGRITY other than
  FINGERPRINT.\<close>

theorem stun_integrity_gap:
  assumes "stun_ok m" and "hmac_ok hmac"
  shows "\<exists>bs forged. encode_with hmac m (Some k) False = Inr bs \<and> append_use_candidate bs = Inr forged
     \<and> verify_message_integrity hmac forged k \<and> verify_fingerprint forged
     \<and> decode forged = Inr (m \<lparr> sm_use_candidate := True, sm_has_message_integrity := True, sm_has_fingerprint := True \<rparr>)"
proof -
  let ?t = "stun_type m" and ?tid = "sm_transaction_id m" and ?as = "attrs_of m"
  let ?mi = "integrity_attr hmac k ?t ?tid ?as" and ?uc = "(ATTR_USE_CANDIDATE, [])"
  let ?as2 = "?as @ [?mi, ?uc]"
  let ?as3 = "?as2 @ [fingerprint_attr ?t ?tid ?as2]"
  have tid: "length ?tid = 12" using assms(1) by (simp add: stun_ok_def)
  note size = attrs_of_size [OF assms(1)]
  have len: "length (body_octets ?as3) < 2 ^ 16"
    using size(2) by (simp add: seal_length(1) [OF assms(2)] seal_length(2) length_attr_octets [of ?uc])
  have small2: "small_attrs ?as2" and small: "small_attrs ?as3"
    using size(1) seal_small(1) [OF assms(2)] seal_small(2) by simp_all
  have "encode_with hmac m (Some k) False = Inr (stun_octets ?t ?tid (sealed_attrs hmac (Some k) False ?t ?tid ?as))"
    by (rule encode_with_ok [OF assms(2) tid size(1)]) (use size(2) in simp)
  then have enc: "encode_with hmac m (Some k) False = Inr (stun_octets ?t ?tid (?as @ [?mi]))"
    by (simp add: sealed_attrs_def integrity_attrs_def)
  let ?n = "length (body_octets (?as @ [?mi]))"
  have w: "write_attr (stun_octets ?t ?tid (?as @ [?mi])) ATTR_USE_CANDIDATE [] = Inr (stun_with_len ?n ?t ?tid ?as2)"
    by (simp add: write_attr_ok stun_octets_len stun_with_len_def)
  have len2: "length (body_octets ?as2) + 8 < 2 ^ 16" using len by (simp add: seal_length)
  have app: "append_use_candidate (stun_octets ?t ?tid (?as @ [?mi])) = Inr (stun_octets ?t ?tid ?as3)"
    unfolding append_use_candidate_def w try_bind_Inr add_fingerprint_ok [OF tid len2]
    using len by (simp add: length_stun_with_len tid STUN_HEADER_LEN_def set_length_stun stun_octets_len)
  have mi: "verify_message_integrity hmac (stun_octets ?t ?tid ?as3) k"
    using verify_integrity_stun [OF assms(2) tid size(1) _ attrs_of_types(1), of "[?uc, fingerprint_attr ?t ?tid ?as2]" k ?t] len seal_small(2)
    by simp
  have "ATTR_FINGERPRINT \<notin> fst ` set ?as2" using attrs_of_types(2) by auto
  from verify_fingerprint_stun [OF tid small2 this len]
  have fp: "verify_fingerprint (stun_octets ?t ?tid ?as3)" .
  have three: "?as3 = ?as @ [?mi] @ [?uc] @ [fingerprint_attr ?t ?tid ?as2]" by simp
  have "decode (stun_octets ?t ?tid ?as3) = Inr (m \<lparr> sm_use_candidate := True, sm_has_message_integrity := True, sm_has_fingerprint := True \<rparr>)"
    unfolding decode_stun_octets [OF tid len small] unfolding three apply_attrs_append apply_attrs_of [OF assms(1)]
    by (simp add: apply_seal del: apply_attrs.simps(2))
  with enc app mi fp show ?thesis by blast
qed

theorem stun_integrity_gap_witness:
  "\<exists>bs forged. encode_with demo_hmac demo_check (Some [1]) False = Inr bs \<and> append_use_candidate bs = Inr forged
     \<and> verify_message_integrity demo_hmac forged [1] \<and> verify_fingerprint forged \<and> \<not> sm_use_candidate demo_check
     \<and> decode forged = Inr (demo_check \<lparr> sm_use_candidate := True, sm_has_message_integrity := True, sm_has_fingerprint := True \<rparr>)"
  using stun_integrity_gap [OF demo_check_ok demo_hmac_ok, of "[1]"] by (simp add: demo_check_def bare_def)

section \<open>What FINGERPRINT detects\<close>

lemma crc_bit_cases:
  "crc_bit z = (if bit z 0 then drop_bit 1 z XOR 0xEDB88320 else drop_bit 1 z)"
proof -
  have "z AND 1 = (if bit z 0 then 1 else 0)" by (simp add: and_one_eq mod_2_eq_odd bit_0)
  then show ?thesis by (simp add: crc_bit_def Let_def)
qed

lemma crc_bit_xor: "crc_bit (x XOR y) = crc_bit x XOR crc_bit y"
  unfolding crc_bit_cases by (simp add: bit_xor_iff ac_simps xor.left_commute)

lemma crc_bit_zero: "crc_bit z = 0 \<Longrightarrow> z = 0"
proof -
  assume z: "crc_bit z = 0"
  have "bit (drop_bit 1 z) 31 \<noteq> bit (0xEDB88320 :: u32) 31"
    using bit_imp_le_length [of z 32] by (auto simp: bit_drop_bit_eq)
  then have "bit (drop_bit 1 z XOR 0xEDB88320) 31" unfolding bit_xor_iff by blast
  then have "drop_bit 1 z XOR 0xEDB88320 \<noteq> 0" by (metis bit_0_eq bot_apply bot_bool_def)
  with z have odd: "\<not> bit z 0" unfolding crc_bit_cases by metis
  with z have "drop_bit 1 z = 0" unfolding crc_bit_cases by simp
  then have tl: "\<not> bit z (1 + n)" for n using bit_drop_bit_eq [of 1 z] by (metis bit_0_eq bot_apply bot_bool_def comp_apply)
  show "z = 0"
  proof (rule bit_word_eqI)
    fix n assume "n < LENGTH(32)"
    show "bit z n = bit 0 n" using odd tl [of "n - 1"] by (cases n) simp_all
  qed
qed

lemma crc_bits_xor: "(crc_bit ^^ n) (x XOR y) = (crc_bit ^^ n) x XOR (crc_bit ^^ n) y"
  by (induction n) (simp_all add: crc_bit_xor)

lemma crc_bits_eq_iff: "(crc_bit ^^ n) x = (crc_bit ^^ n) y \<longleftrightarrow> x = y"
proof
  have zero: "(crc_bit ^^ n) z = 0 \<Longrightarrow> z = 0" for z
    by (induction n) (auto dest: crc_bit_zero)
  assume "(crc_bit ^^ n) x = (crc_bit ^^ n) y"
  then have "(crc_bit ^^ n) (x XOR y) = 0" by (simp add: crc_bits_xor)
  from zero [OF this] have "(x XOR y) XOR y = 0 XOR y" by simp
  then show "x = y" by (simp add: xor_cancel)
qed simp

lemma crc_bits_push:
  "n \<le> 32 \<Longrightarrow> (\<And>i. 32 - n \<le> i \<Longrightarrow> \<not> bit w i) \<Longrightarrow> (crc_bit ^^ n) (push_bit n w) = w"
proof (induction n arbitrary: w)
  case (Suc n)
  have top: "\<not> bit w 31" using Suc.prems by simp
  have "(crc_bit ^^ n) (push_bit n (push_bit 1 w)) = push_bit 1 w"
  proof (rule Suc.IH)
    show "\<not> bit (push_bit 1 w) i" if "32 - n \<le> i" for i
      using that Suc.prems(1) Suc.prems(2) [of "i - 1"] unfolding bit_push_bit_iff by auto
  qed (use Suc.prems in simp)
  moreover have "crc_bit (push_bit 1 w) = w"
  proof -
    have "drop_bit 1 (push_bit 1 w) = w"
    proof (rule bit_word_eqI)
      fix i assume "i < LENGTH(32)"
      then have "i < 31 \<or> i = 31" by auto
      with top show "bit (drop_bit 1 (push_bit 1 w)) i = bit w i"
        unfolding bit_drop_bit_eq comp_def bit_push_bit_iff by auto
    qed
    moreover have "\<not> bit (push_bit 1 w) 0" unfolding bit_push_bit_iff by simp
    ultimately show ?thesis by (simp only: crc_bit_cases if_False)
  qed
  ultimately show ?case by (simp add: push_bit_push_bit [symmetric])
qed simp

fun le_word :: "octets \<Rightarrow> u32" where
  "le_word [] = 0"
| "le_word (b # bs) = ucast b XOR push_bit 8 (le_word bs)"

lemma le_word_high: "8 * length bs \<le> i \<Longrightarrow> \<not> bit (le_word bs) i"
  by (induction bs arbitrary: i) (auto simp: bit_xor_iff bit_push_bit_iff bit_ucast_iff dest: bit_imp_le_length)

lemma crc_window:
  "length bs \<le> 4 \<Longrightarrow> foldl crc_octet crc bs = (crc_bit ^^ (8 * length bs)) (crc XOR le_word bs)"
proof (induction bs arbitrary: crc)
  case (Cons b bs)
  have "(crc_bit ^^ 8) (push_bit 8 (le_word bs)) = le_word bs"
    using Cons.prems le_word_high [of bs] by (intro crc_bits_push) auto
  then have "crc_octet crc b XOR le_word bs = (crc_bit ^^ 8) (crc XOR le_word (b # bs))"
    by (simp add: crc_octet_def xor.assoc [symmetric] crc_bits_xor)
  moreover have "(crc_bit ^^ (8 * length bs)) ((crc_bit ^^ 8) z) = (crc_bit ^^ (8 * length (b # bs))) z" for z
    by (simp add: funpow_add [symmetric, THEN fun_cong, unfolded comp_def] add.commute del: funpow.simps)
  ultimately show ?case using Cons by simp
qed simp

lemma le_word_inj: "length bs = length cs \<Longrightarrow> length bs \<le> 4 \<Longrightarrow> le_word bs = le_word cs \<Longrightarrow> bs = cs"
proof (induction bs cs rule: list_induct2)
  case (Cons b bs c cs)
  have low: "ucast (le_word (x # xs)) = x" for x xs
    by (rule bit_word_eqI) (simp add: bit_ucast_iff bit_xor_iff bit_push_bit_iff)
  have high: "drop_bit 8 (le_word (x # xs)) = le_word xs" if "length xs \<le> 3" for x xs
  proof (rule bit_word_eqI)
    fix i assume "i < LENGTH(32)"
    have "\<not> bit (le_word xs) i" if "24 \<le> i" using le_word_high [of xs i] \<open>length xs \<le> 3\<close> that by simp
    then show "bit (drop_bit 8 (le_word (x # xs))) i = bit (le_word xs) i"
      by (cases "i < 24") (auto simp: bit_drop_bit_eq bit_xor_iff bit_push_bit_iff bit_ucast_iff dest: bit_imp_le_length)
  qed
  have "b = c" using Cons.prems low [of b bs] low [of c cs] by simp
  moreover have "le_word bs = le_word cs" using Cons high [of bs b] high [of cs c] by simp
  ultimately show ?case using Cons by simp
qed simp

lemma crc_octets_eq_iff: "foldl crc_octet s bs = foldl crc_octet t bs \<longleftrightarrow> s = t"
proof (induction bs arbitrary: s t)
  case (Cons b bs)
  have "crc_octet s b = crc_octet t b \<longleftrightarrow> s = t"
    unfolding crc_octet_def crc_bits_eq_iff by (metis xor_cancel)
  with Cons show ?case by simp
qed simp

text \<open>Result. FINGERPRINT detects every burst of damage within four octets. Two datagrams of the
  same shape that differ only inside a window of at most four octets have different CRC-32 values, so
  no such corruption of the covered part passes \<^verbatim>\<open>verify_fingerprint\<close>.\<close>

theorem crc32_detects_bursts:
  assumes "length u = length v" and "length u \<le> 4"
  shows "crc32 (pre @ u @ post) = crc32 (pre @ v @ post) \<longleftrightarrow> u = v"
proof
  assume "crc32 (pre @ u @ post) = crc32 (pre @ v @ post)"
  then have "foldl crc_octet (foldl crc_octet (0xFFFFFFFF) pre) u = foldl crc_octet (foldl crc_octet (0xFFFFFFFF) pre) v"
    by (simp add: crc32_def crc_octets_eq_iff)
  with assms have "le_word u = le_word v"
    by (simp add: crc_window crc_bits_eq_iff) (metis xor_cancel xor.commute)
  with assms show "u = v" by (auto intro: le_word_inj)
qed simp

theorem crc32_detects_bursts_witness:
  "crc32 ([0, 1, 0] @ [8, 9] @ [0x21, 0x12]) \<noteq> crc32 ([0, 1, 0] @ [8, 0] @ [0x21, 0x12])"
  using crc32_detects_bursts [of "[8, 9]" "[8, 0]" "[0, 1, 0]" "[0x21, 0x12]"] by simp

section \<open>The demultiplexing test\<close>

lemma first_octet_of_type:
  assumes "method_from_bits (from_be [a, b]) = Some Binding" and "a AND 0xC0 = 0"
  shows "a < 4"
proof -
  let ?t = "from_be [a, b] :: u16"
  have t: "bit ?t (n + 8) = bit a n" if "n < 8" for n
    using that by (auto simp: from_be_def bit_simps dest: bit_imp_le_length)
  have m: "(?t AND 0x000F) OR drop_bit 1 (?t AND 0x00E0) OR drop_bit 2 (?t AND 0x3E00) = 1"
    using assms(1) by (auto simp: method_from_bits_def Let_def METHOD_BINDING_def split: if_splits)
  have nb: "\<not> bit (?t AND 0x3E00) (2 + n)" if "0 < n" for n
    using arg_cong [OF m, of "\<lambda>w. bit w n"] that unfolding bit_or_iff bit_drop_bit_eq comp_def
    by (cases n) simp_all
  have ab: "bit a n = bit ?t (2 + (n + 6))" if "n < 8" for n using t [OF that] by (simp add: add.commute)
  have mid: "\<not> bit a 2" "\<not> bit a 3" "\<not> bit a 4" "\<not> bit a 5"
    using nb [of 8] nb [of 9] nb [of 10] nb [of 11] ab [of 2] ab [of 3] ab [of 4] ab [of 5]
    by (simp_all add: bit_and_iff)
  have hi: "\<not> bit a 6" "\<not> bit a 7"
    using arg_cong [OF assms(2), of "\<lambda>w. bit w 6"] arg_cong [OF assms(2), of "\<lambda>w. bit w 7"] by (simp_all add: bit_and_iff)
  have "a = take_bit 2 a"
  proof (rule bit_word_eqI)
    fix n assume "n < LENGTH(8)"
    then have "n < 2 \<or> n \<in> {2, 3, 4, 5, 6, 7}" by auto
    with mid hi show "bit a n = bit (take_bit 2 a) n" by (auto simp: bit_take_bit_iff)
  qed
  then have "unat a = unat (a mod 4)" by (simp add: take_bit_eq_mod)
  then have "unat a = unat a mod 4" by (simp add: unat_mod)
  then have "unat a < 4" by (metis mod_less_divisor zero_less_numeral)
  then show ?thesis by (simp add: word_less_nat_alt)
qed

lemma decode_is_stun: "decode bs = Inr m \<Longrightarrow> is_stun bs"
proof -
  assume d: "decode bs = Inr m"
  then have len: "20 \<le> length bs" and hi: "bs ! 0 AND 0xC0 = 0" and ck: "from_be (slice 4 8 bs) = MAGIC_COOKIE"
    and mb: "method_from_bits (from_be (slice 0 2 bs)) \<noteq> None"
    by (auto simp: decode_def Let_def STUN_HEADER_LEN_def split: if_splits option.splits)
  have two: "slice 0 2 bs = [bs ! 0, bs ! 1]"
    using len by (cases bs; cases "tl bs") (auto simp: slice_def)
  from mb obtain k where k: "method_from_bits (from_be (slice 0 2 bs)) = Some k" by blast
  moreover have "k = Binding" by (cases k) simp
  ultimately have "bs ! 0 < 4" using first_octet_of_type [of "bs ! 0" "bs ! 1"] hi two by simp
  with len ck show "is_stun bs" by (simp add: is_stun_def STUN_HEADER_LEN_def)
qed

section \<open>Gathering\<close>

text \<open>A datagram is an answer to a pending request when it decodes to a success response with the
  request's transaction id.\<close>

definition answers :: "(transaction_id \<times> socket_addr) list \<Rightarrow> recv_outcome \<Rightarrow> stun_message \<Rightarrow> bool" where
  "answers pending r m \<longleftrightarrow> (\<exists>bs. r = Datagram bs \<and> decode bs = Inr m) \<and> sm_class m = SuccessResponse
     \<and> sm_transaction_id m \<in> fst ` set pending"

lemma gather_loop_answer:
  assumes "answers pending r m"
  shows "gather_loop pending out (r # rs) =
    gather_loop (filter (\<lambda>p. fst p \<noteq> sm_transaction_id m) pending)
      (case sm_xor_mapped_address m of Some addr \<Rightarrow> if addr \<in> set out then out else out @ [addr] | None \<Rightarrow> out) rs"
  using assms by (force simp: answers_def map_of_eq_None_iff)

lemma gather_loop_other:
  assumes "\<nexists>m. answers pending r m"
  shows "gather_loop pending out (r # rs) = out \<or> gather_loop pending out (r # rs) = gather_loop pending out rs"
  using assms by (auto simp: answers_def map_of_eq_None_iff split: recv_outcome.splits sum.splits)

lemma answers_filter: "answers (filter P pending) r m \<Longrightarrow> answers pending r m"
  by (auto simp: answers_def)

lemma gather_loop_sound:
  assumes "distinct out"
  shows "distinct (gather_loop pending out rs)
     \<and> length (gather_loop pending out rs) \<le> length out + length pending
     \<and> (\<forall>a \<in> set (gather_loop pending out rs) - set out. \<exists>r m. r \<in> set rs \<and> answers pending r m \<and> sm_xor_mapped_address m = Some a)"
  using assms
proof (induction rs arbitrary: pending out)
  case (Cons r rs)
  show ?case
  proof (cases "\<exists>m. answers pending r m")
    case True
    then obtain m where m: "answers pending r m" by blast
    define pending' where "pending' = filter (\<lambda>p. fst p \<noteq> sm_transaction_id m) pending"
    define out' where "out' = (case sm_xor_mapped_address m of Some addr \<Rightarrow> if addr \<in> set out then out else out @ [addr] | None \<Rightarrow> out)"
    have step: "gather_loop pending out (r # rs) = gather_loop pending' out' rs"
      unfolding pending'_def out'_def by (rule gather_loop_answer [OF m])
    have "sm_transaction_id m \<in> fst ` set pending" using m by (simp add: answers_def)
    then have "length pending' < length pending" unfolding pending'_def by (auto intro!: length_filter_less)
    moreover have "length out' \<le> Suc (length out)" "distinct out'" and
      out: "a \<in> set out' - set out \<Longrightarrow> sm_xor_mapped_address m = Some a" for a
      using Cons.prems by (auto simp: out'_def split: option.splits if_splits)
    moreover have "answers pending r' m'" if "answers pending' r' m'" for r' m'
      using that answers_filter unfolding pending'_def by blast
    ultimately show ?thesis
      using Cons.IH [of out' pending'] m out unfolding step
      by (auto simp: not_le) (metis Diff_iff)
  next
    case False
    from gather_loop_other [OF this, of out rs] Cons show ?thesis by fastforce
  qed
qed simp

text \<open>Result. Server-reflexive gathering. Whatever arrives on the socket, the addresses
  returned are distinct, at most one per request that was sent, and each was observed by a server: it
  is the XOR-MAPPED-ADDRESS of a datagram that decodes to a success response carrying the
  transaction id of one of the requests sent.\<close>

theorem gather_srflx_sound:
  fixes requests outcomes
  defines "sent \<equiv> filter (\<lambda>(_, _, ok). ok) requests"
    and "out \<equiv> gather_srflx_candidates requests outcomes"
  shows "distinct out \<and> length out \<le> length sent
     \<and> list_all (\<lambda>a. \<exists>bs m server tid. Datagram bs \<in> set outcomes \<and> decode bs = Inr m \<and> sm_class m = SuccessResponse
          \<and> (server, tid, True) \<in> set requests \<and> sm_transaction_id m = tid \<and> sm_xor_mapped_address m = Some a) out"
proof -
  let ?p = "map (\<lambda>(server, tid, _). (tid, server)) sent"
  have out: "out = gather_loop ?p [] outcomes" by (simp add: out_def sent_def gather_srflx_candidates_def)
  note sound = gather_loop_sound [of "[]" ?p outcomes, folded out, simplified]
  have "\<exists>server. (server, t, True) \<in> set requests" if "t \<in> fst ` set ?p" for t
    using that by (auto simp: sent_def)
  with sound show ?thesis
    unfolding list_all_iff answers_def by (metis (no_types, lifting))
qed

end
