(* ===== verification/Sdp_Types.thy ===== *)
theory Sdp_Types
  imports Ip_Text Call_Types
begin

text \<open>
  The SDP data model and its wire form (\<^verbatim>\<open>smiths-sdp/src/types.rs\<close>, with the
  \<^verbatim>\<open>a=crypto:\<close> record of \<^verbatim>\<open>srtp_attr.rs\<close> and the suite of
  \<^verbatim>\<open>smiths-core/src/media.rs\<close>): every field of the session and media blocks, the
  T.38 attribute set, and the \<^verbatim>\<open>Display\<close> implementations. A rendered document is its
  list of lines, each ended by CRLF. Base64 belongs to another crate and is the parameter \<open>b64e\<close>.
\<close>

section \<open>Enumerations\<close>

datatype sdp_media_kind = KAudio | KVideo | KApplication | KImage | KOther bytes

definition sdp_kind_parse :: "bytes \<Rightarrow> sdp_media_kind" where
  "sdp_kind_parse s =
     (if s = ''audio'' then KAudio else if s = ''video'' then KVideo
      else if s = ''application'' then KApplication else if s = ''image'' then KImage else KOther s)"

definition sdp_kind_as_str :: "sdp_media_kind \<Rightarrow> bytes" where
  "sdp_kind_as_str k =
     (case k of KAudio \<Rightarrow> ''audio'' | KVideo \<Rightarrow> ''video'' | KApplication \<Rightarrow> ''application''
      | KImage \<Rightarrow> ''image'' | KOther s \<Rightarrow> s)"

datatype direction = SendRecv | SendOnly | RecvOnly | Inactive

definition direction_parse :: "bytes \<Rightarrow> direction option" where
  "direction_parse s =
     (if s = ''sendrecv'' then Some SendRecv else if s = ''sendonly'' then Some SendOnly
      else if s = ''recvonly'' then Some RecvOnly else if s = ''inactive'' then Some Inactive else None)"

definition direction_as_str :: "direction \<Rightarrow> bytes" where
  "direction_as_str d =
     (case d of SendRecv \<Rightarrow> ''sendrecv'' | SendOnly \<Rightarrow> ''sendonly'' | RecvOnly \<Rightarrow> ''recvonly''
      | Inactive \<Rightarrow> ''inactive'')"

definition direction_reverse :: "direction \<Rightarrow> direction" where
  "direction_reverse d =
     (case d of SendRecv \<Rightarrow> SendRecv | SendOnly \<Rightarrow> RecvOnly | RecvOnly \<Rightarrow> SendOnly | Inactive \<Rightarrow> Inactive)"

datatype dtls_setup = SetupActive | SetupPassive | SetupActPass | SetupHoldConn

definition setup_parse :: "bytes \<Rightarrow> dtls_setup option" where
  "setup_parse s =
     (let t = to_ascii_lowercase s
      in if t = ''active'' then Some SetupActive else if t = ''passive'' then Some SetupPassive
         else if t = ''actpass'' then Some SetupActPass else if t = ''holdconn'' then Some SetupHoldConn
         else None)"

definition setup_as_str :: "dtls_setup \<Rightarrow> bytes" where
  "setup_as_str s =
     (case s of SetupActive \<Rightarrow> ''active'' | SetupPassive \<Rightarrow> ''passive'' | SetupActPass \<Rightarrow> ''actpass''
      | SetupHoldConn \<Rightarrow> ''holdconn'')"

definition setup_reverse :: "dtls_setup \<Rightarrow> dtls_setup" where
  "setup_reverse s =
     (case s of SetupActive \<Rightarrow> SetupPassive | SetupPassive \<Rightarrow> SetupActive | SetupActPass \<Rightarrow> SetupActive
      | SetupHoldConn \<Rightarrow> SetupActive)"

datatype srtp_suite = AesCm128HmacSha1_80

definition suite_key_len :: "srtp_suite \<Rightarrow> nat" where
  "suite_key_len s = (case s of AesCm128HmacSha1_80 \<Rightarrow> 16)"

definition suite_salt_len :: "srtp_suite \<Rightarrow> nat" where
  "suite_salt_len s = (case s of AesCm128HmacSha1_80 \<Rightarrow> 14)"

definition key_material_len :: "srtp_suite \<Rightarrow> nat" where
  "key_material_len s = suite_key_len s + suite_salt_len s"

definition suite_sdp_name :: "srtp_suite \<Rightarrow> bytes" where
  "suite_sdp_name s = (case s of AesCm128HmacSha1_80 \<Rightarrow> ''AES_CM_128_HMAC_SHA1_80'')"

section \<open>Attributes\<close>

record sdes_crypto =
  sc_tag :: u32
  sc_suite :: srtp_suite
  sc_key_material :: octets

record rtp_map =
  rm_payload_type :: u8
  rm_codec :: bytes
  rm_clock_rate :: u32
  rm_channels :: "u8 option"

definition codec_eq_ignore_ascii_case :: "rtp_map \<Rightarrow> bytes \<Rightarrow> bool" where
  "codec_eq_ignore_ascii_case r name = eq_ignore_ascii_case (rm_codec r) name"

definition is_telephone_event :: "rtp_map \<Rightarrow> bool" where
  "is_telephone_event r = codec_eq_ignore_ascii_case r ''telephone-event''"

record fmtp =
  fm_format :: bytes
  fm_params :: bytes

record ext_map =
  em_id :: u16
  em_direction :: "direction option"
  em_uri :: bytes
  em_attributes :: "bytes option"

record rtcp_attr =
  ra_port :: u16
  ra_address :: "octets option"

record rtcp_feedback =
  fb_format :: bytes
  fb_value :: bytes

record fingerprint =
  fp_algorithm :: bytes
  fp_value :: bytes

record ice_candidate =
  ic_foundation :: bytes
  ic_component :: u8
  ic_transport :: bytes
  ic_priority :: u32
  ic_address :: octets
  ic_port :: u16
  ic_candidate_type :: bytes
  ic_related_address :: "octets option"
  ic_related_port :: "u16 option"
  ic_raw_params :: "(bytes \<times> bytes) list"

text \<open>\<^verbatim>\<open>str::parse::<uN>()\<close> into the word it is stored in.\<close>

definition parse_word :: "bytes \<Rightarrow> 'a::len word option" where
  "parse_word s = map_option of_nat (parse_unsigned (2 ^ LENGTH('a)) s)"

definition show_word :: "'a::len word \<Rightarrow> bytes" where
  "show_word w = show_nat (unat w)"

definition applies_to :: "rtcp_feedback \<Rightarrow> u8 \<Rightarrow> bool" where
  "applies_to fb pt \<longleftrightarrow> fb_format fb = ''*'' \<or> parse_word (fb_format fb) = Some pt"

section \<open>T.38\<close>

record t38_params =
  t38_version :: "u8 option"
  t38_max_bit_rate :: "u32 option"
  t38_fill_bit_removal :: bool
  t38_transcoding_mmr :: bool
  t38_transcoding_jbig :: bool
  t38_rate_management :: "bytes option"
  t38_max_buffer :: "u32 option"
  t38_max_datagram :: "u32 option"
  t38_udp_ec :: "bytes option"
  t38_extra :: "(bytes \<times> bytes option) list"

definition t38_default :: t38_params where
  "t38_default = \<lparr> t38_version = None, t38_max_bit_rate = None, t38_fill_bit_removal = False,
     t38_transcoding_mmr = False, t38_transcoding_jbig = False, t38_rate_management = None,
     t38_max_buffer = None, t38_max_datagram = None, t38_udp_ec = None, t38_extra = [] \<rparr>"

definition sensible_offer :: t38_params where
  "sensible_offer = \<lparr> t38_version = Some 0, t38_max_bit_rate = Some 14400, t38_fill_bit_removal = False,
     t38_transcoding_mmr = False, t38_transcoding_jbig = False, t38_rate_management = Some ''transferredTCF'',
     t38_max_buffer = Some 72, t38_max_datagram = Some 316, t38_udp_ec = Some ''t38UDPRedundancy'', t38_extra = [] \<rparr>"

definition flag_value :: "bytes option \<Rightarrow> bool" where
  "flag_value v = (case v of None \<Rightarrow> True | Some s \<Rightarrow> \<not> (s = ''0'' \<or> eq_ignore_ascii_case s ''false''))"

definition t38_names :: "bytes list" where
  "t38_names = [''T38FaxVersion'', ''T38MaxBitRate'', ''T38FaxFillBitRemoval'', ''T38FaxTranscodingMMR'',
     ''T38FaxTranscodingJBIG'', ''T38FaxRateManagement'', ''T38FaxMaxBuffer'', ''T38FaxMaxDatagram'', ''T38FaxUdpEC'']"

text \<open>The assignment of \<^verbatim>\<open>apply_attribute\<close> once name and value are split; then the whole
  function, with the flag that tells whether the attribute was a T.38 one.\<close>

definition t38_assign :: "bytes \<Rightarrow> bytes option \<Rightarrow> t38_params \<Rightarrow> t38_params" where
  "t38_assign name v p =
     (if name = ''T38FaxVersion'' then p \<lparr> t38_version := Option.bind v parse_word \<rparr>
      else if name = ''T38MaxBitRate'' then p \<lparr> t38_max_bit_rate := Option.bind v parse_word \<rparr>
      else if name = ''T38FaxFillBitRemoval'' then p \<lparr> t38_fill_bit_removal := flag_value v \<rparr>
      else if name = ''T38FaxTranscodingMMR'' then p \<lparr> t38_transcoding_mmr := flag_value v \<rparr>
      else if name = ''T38FaxTranscodingJBIG'' then p \<lparr> t38_transcoding_jbig := flag_value v \<rparr>
      else if name = ''T38FaxRateManagement'' then p \<lparr> t38_rate_management := v \<rparr>
      else if name = ''T38FaxMaxBuffer'' then p \<lparr> t38_max_buffer := Option.bind v parse_word \<rparr>
      else if name = ''T38FaxMaxDatagram'' then p \<lparr> t38_max_datagram := Option.bind v parse_word \<rparr>
      else if name = ''T38FaxUdpEC'' then p \<lparr> t38_udp_ec := v \<rparr>
      else p \<lparr> t38_extra := t38_extra p @ [(name, v)] \<rparr>)"

definition t38_apply_attribute :: "bytes \<Rightarrow> t38_params \<Rightarrow> bool \<times> t38_params" where
  "t38_apply_attribute attr p =
     (if \<not> starts_with attr ''T38'' then (False, p)
      else let (name, v) = (case split_once '':'' attr of
                 Some (n, v) \<Rightarrow> (trim n, Some (trim v)) | None \<Rightarrow> (trim attr, None))
        in (True, t38_assign name v p))"

definition t38_parse_attrs :: "bytes list \<Rightarrow> t38_params" where
  "t38_parse_attrs attrs = foldl (\<lambda>p a. snd (t38_apply_attribute a p)) t38_default attrs"

text \<open>A rendered optional attribute: nothing, or one line.\<close>

definition opt_line :: "('a \<Rightarrow> bytes) \<Rightarrow> 'a option \<Rightarrow> bytes list" where
  "opt_line f x = (case x of None \<Rightarrow> [] | Some a \<Rightarrow> [f a])"

definition flag_line :: "bytes \<Rightarrow> bool \<Rightarrow> bytes list" where
  "flag_line s b = (if b then [s] else [])"

definition t38_render_attrs :: "t38_params \<Rightarrow> bytes list" where
  "t38_render_attrs p =
     opt_line (\<lambda>v. ''T38FaxVersion:'' @ show_word v) (t38_version p)
     @ opt_line (\<lambda>v. ''T38MaxBitRate:'' @ show_word v) (t38_max_bit_rate p)
     @ flag_line ''T38FaxFillBitRemoval'' (t38_fill_bit_removal p)
     @ flag_line ''T38FaxTranscodingMMR'' (t38_transcoding_mmr p)
     @ flag_line ''T38FaxTranscodingJBIG'' (t38_transcoding_jbig p)
     @ opt_line (\<lambda>v. ''T38FaxRateManagement:'' @ v) (t38_rate_management p)
     @ opt_line (\<lambda>v. ''T38FaxMaxBuffer:'' @ show_word v) (t38_max_buffer p)
     @ opt_line (\<lambda>v. ''T38FaxMaxDatagram:'' @ show_word v) (t38_max_datagram p)
     @ opt_line (\<lambda>v. ''T38FaxUdpEC:'' @ v) (t38_udp_ec p)
     @ map (\<lambda>(name, v). case v of Some x \<Rightarrow> name @ '':'' @ x | None \<Rightarrow> name) (t38_extra p)"

section \<open>Blocks\<close>

record media_description =
  md_kind :: sdp_media_kind
  md_port :: u16
  md_protocol :: bytes
  md_formats :: "bytes list"
  md_rtpmap :: "rtp_map list"
  md_fmtp :: "fmtp list"
  md_ptime :: "u32 option"
  md_maxptime :: "u32 option"
  md_crypto :: "sdes_crypto list"
  md_direction :: direction
  md_connection :: "octets option"
  md_fingerprint :: "fingerprint option"
  md_setup :: "dtls_setup option"
  md_ice_ufrag :: "bytes option"
  md_ice_pwd :: "bytes option"
  md_ice_options :: "bytes list"
  md_candidates :: "ice_candidate list"
  md_end_of_candidates :: bool
  md_mid :: "bytes option"
  md_extmap :: "ext_map list"
  md_rtcp_mux :: bool
  md_rtcp :: "rtcp_attr option"
  md_rtcp_fb :: "rtcp_feedback list"
  md_t38 :: "t38_params option"

definition media_new :: "sdp_media_kind \<Rightarrow> u16 \<Rightarrow> bytes \<Rightarrow> media_description" where
  "media_new kind port protocol =
     \<lparr> md_kind = kind, md_port = port, md_protocol = protocol, md_formats = [], md_rtpmap = [],
       md_fmtp = [], md_ptime = None, md_maxptime = None, md_crypto = [], md_direction = SendRecv,
       md_connection = None, md_fingerprint = None, md_setup = None, md_ice_ufrag = None,
       md_ice_pwd = None, md_ice_options = [], md_candidates = [], md_end_of_candidates = False,
       md_mid = None, md_extmap = [], md_rtcp_mux = False, md_rtcp = None, md_rtcp_fb = [], md_t38 = None \<rparr>"

definition payload_types :: "media_description \<Rightarrow> u8 list" where
  "payload_types m = List.map_filter parse_word (md_formats m)"

definition has_format :: "media_description \<Rightarrow> bytes \<Rightarrow> bool" where
  "has_format m token \<longleftrightarrow> list_ex (\<lambda>f. eq_ignore_ascii_case f token) (md_formats m)"

definition rtpmap_for :: "media_description \<Rightarrow> u8 \<Rightarrow> rtp_map option" where
  "rtpmap_for m pt = List.find (\<lambda>r. rm_payload_type r = pt) (md_rtpmap m)"

definition fmtp_for :: "media_description \<Rightarrow> u8 \<Rightarrow> fmtp option" where
  "fmtp_for m pt = List.find (\<lambda>f. fm_format f = show_word pt) (md_fmtp m)"

definition rtcp_port :: "media_description \<Rightarrow> u16 option" where
  "rtcp_port m =
     (if md_port m = 0 then None
      else case md_rtcp m of
        Some r \<Rightarrow> Some (ra_port r)
      | None \<Rightarrow> if md_rtcp_mux m then Some (md_port m)
          else if md_port m = - 1 then None else Some (md_port m + 1))"

record sdp_group =
  gr_semantics :: bytes
  gr_mids :: "bytes list"

record origin =
  or_username :: bytes
  or_session_id :: u64
  or_session_version :: u64
  or_address :: octets

record session_description =
  sd_origin :: origin
  sd_session_name :: bytes
  sd_connection :: "octets option"
  sd_groups :: "sdp_group list"
  sd_ice_lite :: bool
  sd_media :: "media_description list"

definition bundle_mids :: "session_description \<Rightarrow> bytes list" where
  "bundle_mids sd = concat (map gr_mids (filter (\<lambda>g. eq_ignore_ascii_case (gr_semantics g) ''BUNDLE'') (sd_groups sd)))"

section \<open>Rendering\<close>

definition ip_net_tokens :: "octets \<Rightarrow> bytes \<times> bytes" where
  "ip_net_tokens ip = (if length ip = 4 then (''IN'', ''IP4'') else (''IN'', ''IP6''))"

definition net_addr :: "octets \<Rightarrow> bytes" where
  "net_addr ip = (let (net, addr_type) = ip_net_tokens ip in net @ '' '' @ addr_type @ '' '' @ ip_show ip)"

definition origin_line :: "origin \<Rightarrow> bytes" where
  "origin_line o' = ''o='' @ or_username o' @ '' '' @ show_word (or_session_id o') @ '' ''
     @ show_word (or_session_version o') @ '' '' @ net_addr (or_address o')"

definition connection_line :: "octets \<Rightarrow> bytes" where
  "connection_line ip = ''c='' @ net_addr ip"

definition rtpmap_line :: "rtp_map \<Rightarrow> bytes" where
  "rtpmap_line r = ''a=rtpmap:'' @ show_word (rm_payload_type r) @ '' '' @ rm_codec r @ ''/'' @ show_word (rm_clock_rate r)
     @ (case rm_channels r of None \<Rightarrow> [] | Some n \<Rightarrow> if n = 1 then [] else ''/'' @ show_word n)"

definition crypto_line :: "(octets \<Rightarrow> bytes) \<Rightarrow> sdes_crypto \<Rightarrow> bytes" where
  "crypto_line b64e c = ''a=crypto:'' @ show_word (sc_tag c) @ '' '' @ suite_sdp_name (sc_suite c)
     @ '' inline:'' @ b64e (sc_key_material c)"

definition extmap_show :: "ext_map \<Rightarrow> bytes" where
  "extmap_show e = ''extmap:'' @ show_word (em_id e)
     @ (case em_direction e of None \<Rightarrow> [] | Some d \<Rightarrow> ''/'' @ direction_as_str d)
     @ '' '' @ em_uri e @ (case em_attributes e of None \<Rightarrow> [] | Some a \<Rightarrow> '' '' @ a)"

definition candidate_show :: "ice_candidate \<Rightarrow> bytes" where
  "candidate_show c = ''candidate:'' @ ic_foundation c @ '' '' @ show_word (ic_component c) @ '' ''
     @ ic_transport c @ '' '' @ show_word (ic_priority c) @ '' '' @ ip_show (ic_address c) @ '' ''
     @ show_word (ic_port c) @ '' typ '' @ ic_candidate_type c
     @ (case ic_related_address c of None \<Rightarrow> [] | Some a \<Rightarrow> '' raddr '' @ ip_show a)
     @ (case ic_related_port c of None \<Rightarrow> [] | Some p \<Rightarrow> '' rport '' @ show_word p)
     @ concat (map (\<lambda>(k, v). '' '' @ k @ '' '' @ v) (ic_raw_params c))"

definition rtcp_line :: "rtcp_attr \<Rightarrow> bytes" where
  "rtcp_line r = ''a=rtcp:'' @ show_word (ra_port r)
     @ (case ra_address r of None \<Rightarrow> [] | Some ip \<Rightarrow> '' '' @ net_addr ip)"

definition m_line :: "media_description \<Rightarrow> bytes" where
  "m_line m = ''m='' @ sdp_kind_as_str (md_kind m) @ '' '' @ show_word (md_port m) @ '' '' @ md_protocol m
     @ concat (map (\<lambda>f. '' '' @ f) (md_formats m))"

definition media_attr_lines :: "(octets \<Rightarrow> bytes) \<Rightarrow> media_description \<Rightarrow> bytes list" where
  "media_attr_lines b64e m =
     opt_line connection_line (md_connection m)
     @ map rtpmap_line (md_rtpmap m)
     @ map (\<lambda>p. ''a=fmtp:'' @ fm_format p @ '' '' @ fm_params p) (md_fmtp m)
     @ opt_line (\<lambda>t. ''a=ptime:'' @ show_word t) (md_ptime m)
     @ opt_line (\<lambda>t. ''a=maxptime:'' @ show_word t) (md_maxptime m)
     @ map (crypto_line b64e) (md_crypto m)
     @ opt_line (\<lambda>fp. ''a=fingerprint:'' @ fp_algorithm fp @ '' '' @ fp_value fp) (md_fingerprint m)
     @ opt_line (\<lambda>s. ''a=setup:'' @ setup_as_str s) (md_setup m)
     @ opt_line (\<lambda>u. ''a=ice-ufrag:'' @ u) (md_ice_ufrag m)
     @ opt_line (\<lambda>u. ''a=ice-pwd:'' @ u) (md_ice_pwd m)
     @ (if md_ice_options m = [] then [] else [''a=ice-options:'' @ join '' '' (md_ice_options m)])
     @ map (\<lambda>c. ''a='' @ candidate_show c) (md_candidates m)
     @ flag_line ''a=end-of-candidates'' (md_end_of_candidates m)
     @ opt_line (\<lambda>i. ''a=mid:'' @ i) (md_mid m)
     @ map (\<lambda>e. ''a='' @ extmap_show e) (md_extmap m)
     @ flag_line ''a=rtcp-mux'' (md_rtcp_mux m)
     @ opt_line rtcp_line (md_rtcp m)
     @ map (\<lambda>fb. ''a=rtcp-fb:'' @ fb_format fb @ '' '' @ fb_value fb) (md_rtcp_fb m)
     @ (case md_t38 m of None \<Rightarrow> [] | Some t \<Rightarrow> map (\<lambda>l. ''a='' @ l) (t38_render_attrs t))
     @ [''a='' @ direction_as_str (md_direction m)]"

definition media_lines :: "(octets \<Rightarrow> bytes) \<Rightarrow> media_description \<Rightarrow> bytes list" where
  "media_lines b64e m = m_line m # media_attr_lines b64e m"

definition session_lines :: "session_description \<Rightarrow> bytes list" where
  "session_lines sd =
     [''v=0'', origin_line (sd_origin sd), ''s='' @ sd_session_name sd]
     @ opt_line connection_line (sd_connection sd)
     @ [''t=0 0'']
     @ map (\<lambda>g. ''a=group:'' @ gr_semantics g @ '' '' @ join '' '' (gr_mids g)) (sd_groups sd)
     @ flag_line ''a=ice-lite'' (sd_ice_lite sd)"

definition writeln_crlf :: "bytes \<Rightarrow> bytes" where
  "writeln_crlf s = s @ CRLF"

text \<open>\<^verbatim>\<open>Display for SessionDescription\<close>.\<close>

definition sdp_show :: "(octets \<Rightarrow> bytes) \<Rightarrow> session_description \<Rightarrow> bytes" where
  "sdp_show b64e sd =
     concat (map writeln_crlf (session_lines sd @ concat (map (media_lines b64e) (sd_media sd))))"

end
