(* ===== verification/Ice_Agent.thy ===== *)
theory Ice_Agent
  imports Stun Sdp_Types
begin

text \<open>
  The ICE agent (\<^verbatim>\<open>smiths-ice/src/agent.rs\<close>) and candidate construction
  (\<^verbatim>\<open>smiths-ice/src/candidate.rs\<close>): pairing, paced connectivity checks with
  retransmission, request, success and error handling with credentials, peer-reflexive discovery,
  nomination, role conflicts, keepalives and failure. The agent is sans-IO, so each entry point is a
  function from the agent and its input to the agent and the datagrams to send. Transaction ids
  and the clock are inputs; HMAC-SHA1 is the parameter \<open>hmac\<close>; a socket is a number. Times are
  nanoseconds on one monotonic clock.
\<close>

section \<open>Candidates\<close>

definition cand_addr :: "ice_candidate \<Rightarrow> socket_addr" where
  "cand_addr c = \<lparr> sa_ip = ic_address c, sa_port = ic_port c \<rparr>"

definition candidate_priority :: "u32 \<Rightarrow> octets \<Rightarrow> u8 \<Rightarrow> u32" where
  "candidate_priority type_pref ip component =
     (let local_pref = (if length ip = 16 then 65535 else 65534)
      in push_bit 24 type_pref + push_bit 8 local_pref + ucast (256 - (ucast component :: u16)))"

definition make_host_candidate :: "socket_addr \<Rightarrow> u8 \<Rightarrow> nat \<Rightarrow> ice_candidate" where
  "make_host_candidate bind component idx =
     \<lparr> ic_foundation = ''host'' @ show_nat idx, ic_component = component, ic_transport = ''UDP'',
       ic_priority = candidate_priority 126 (sa_ip bind) component, ic_address = sa_ip bind,
       ic_port = sa_port bind, ic_candidate_type = ''host'', ic_related_address = None,
       ic_related_port = None, ic_raw_params = [] \<rparr>"

definition make_srflx_candidate :: "socket_addr \<Rightarrow> socket_addr \<Rightarrow> u8 \<Rightarrow> nat \<Rightarrow> ice_candidate" where
  "make_srflx_candidate addr base component idx =
     \<lparr> ic_foundation = ''srflx'' @ show_nat idx, ic_component = component, ic_transport = ''UDP'',
       ic_priority = candidate_priority 100 (sa_ip base) component, ic_address = sa_ip addr,
       ic_port = sa_port addr, ic_candidate_type = ''srflx'', ic_related_address = Some (sa_ip base),
       ic_related_port = Some (sa_port base), ic_raw_params = [] \<rparr>"

definition make_relay_candidate :: "socket_addr \<Rightarrow> socket_addr \<Rightarrow> u8 \<Rightarrow> nat \<Rightarrow> ice_candidate" where
  "make_relay_candidate addr base component idx =
     \<lparr> ic_foundation = ''relay'' @ show_nat idx, ic_component = component, ic_transport = ''UDP'',
       ic_priority = candidate_priority 0 (sa_ip base) component, ic_address = sa_ip addr,
       ic_port = sa_port addr, ic_candidate_type = ''relay'', ic_related_address = Some (sa_ip base),
       ic_related_port = Some (sa_port base), ic_raw_params = [] \<rparr>"

definition gather_host_candidates :: "socket_addr list \<Rightarrow> u8 \<Rightarrow> ice_candidate list" where
  "gather_host_candidates binds component =
     map (\<lambda>(idx, b). make_host_candidate b component idx) (enumerate 0 binds)"

text \<open>\<^verbatim>\<open>CandidateGatherer::gather_all\<close> after the socket's own address is known: host
  candidates, one server-reflexive candidate per observed address, and a relay candidate when the
  TURN allocation gave a relayed address.\<close>

definition gather_all :: "socket_addr list \<Rightarrow> socket_addr \<Rightarrow> socket_addr list \<Rightarrow> socket_addr option \<Rightarrow> u8 \<Rightarrow> ice_candidate list" where
  "gather_all binds local_addr srflx_addrs relay component =
     gather_host_candidates binds component
     @ map (\<lambda>(idx, a). make_srflx_candidate a local_addr component idx) (enumerate 0 srflx_addrs)
     @ (case relay of Some a \<Rightarrow> [make_relay_candidate a local_addr component 0] | None \<Rightarrow> [])"

section \<open>Agent state\<close>

definition CHECK_PACING :: duration where "CHECK_PACING = from_millis 50"
definition RETRANSMIT_TIMEOUT :: duration where "RETRANSMIT_TIMEOUT = from_millis 500"
definition MAX_RETRANSMITS :: nat where "MAX_RETRANSMITS = 7"
definition KEEPALIVE_INTERVAL :: duration where "KEEPALIVE_INTERVAL = from_secs 15"
definition PRFLX_TYPE_PREFERENCE :: u32 where "PRFLX_TYPE_PREFERENCE = 110"

datatype pair_state = Frozen | Waiting | InProgress | Succeeded | Failed

datatype ice_state = Checking | Completed | IceFailed

record ice_pair =
  ip_local :: ice_candidate
  ip_remote :: ice_candidate
  ip_priority :: u64
  ip_state :: pair_state
  ip_nominated :: bool
  ip_mapped_address :: "socket_addr option"
  ip_nominate_requested :: bool
  ip_auth_failed :: bool

definition remote_addr :: "ice_pair \<Rightarrow> socket_addr" where
  "remote_addr p = cand_addr (ip_remote p)"

definition local_addr :: "ice_pair \<Rightarrow> socket_addr" where
  "local_addr p = cand_addr (ip_local p)"

record ice_outgoing =
  og_bytes :: octets
  og_destination :: socket_addr
  og_socket :: nat

record pending_check =
  pc_pair_idx :: nat
  pc_transaction_id :: transaction_id
  pc_bytes :: octets
  pc_destination :: socket_addr
  pc_socket :: nat
  pc_last_sent :: nat
  pc_retransmits :: nat
  pc_nominating :: bool

text \<open>The two counter families the agent updates, when metrics are attached.\<close>

record ice_metrics =
  im_binding_checks :: "string \<Rightarrow> nat"
  im_prflx_gathered :: nat

record ice_agent =
  ag_params :: ice_params
  ag_role :: ice_role
  ag_local_candidates :: "ice_candidate list"
  ag_remote_candidates :: "ice_candidate list"
  ag_pairs :: "ice_pair list"
  ag_triggered :: "(nat \<times> bool) list"
  ag_pending :: "pending_check list"
  ag_sockets :: "socket_addr \<rightharpoonup> nat"
  ag_state :: ice_state
  ag_selected :: "nat option"
  ag_nomination_in_flight :: bool
  ag_last_check_sent :: "nat option"
  ag_last_keepalive :: "nat option"
  ag_keepalive_interval :: duration
  ag_failure :: "bytes option"
  ag_metrics :: "ice_metrics option"

definition prflx_priority :: "ice_candidate \<Rightarrow> u32" where
  "prflx_priority c =
     (let local_pref = drop_bit 8 (ic_priority c) AND 0xFFFF
      in push_bit 24 PRFLX_TYPE_PREFERENCE + push_bit 8 local_pref + (256 - ucast (ic_component c)))"

definition pair_priority :: "ice_role \<Rightarrow> u32 \<Rightarrow> u32 \<Rightarrow> u64" where
  "pair_priority role loc rem =
     (let (g, d) = (case role of Controlling \<Rightarrow> (loc, rem) | Controlled \<Rightarrow> (rem, loc))
      in push_bit 32 (ucast (min g d)) + push_bit 1 (ucast (max g d)) + (if g > d then 1 else 0))"

fun position :: "('a \<Rightarrow> bool) \<Rightarrow> 'a list \<Rightarrow> nat option" where
  "position P [] = None"
| "position P (x # xs) = (if P x then Some 0 else map_option Suc (position P xs))"

definition find_pair :: "ice_agent \<Rightarrow> socket_addr \<Rightarrow> socket_addr \<Rightarrow> nat option" where
  "find_pair s loc rem = position (\<lambda>p. local_addr p = loc \<and> remote_addr p = rem) (ag_pairs s)"

definition set_pair :: "nat \<Rightarrow> (ice_pair \<Rightarrow> ice_pair) \<Rightarrow> ice_agent \<Rightarrow> ice_agent" where
  "set_pair i f s = s \<lparr> ag_pairs := (ag_pairs s)[i := f (ag_pairs s ! i)] \<rparr>"

definition selected_pair :: "ice_agent \<Rightarrow> ice_pair option" where
  "selected_pair s = (case ag_selected s of None \<Rightarrow> None
     | Some i \<Rightarrow> if i < length (ag_pairs s) then Some (ag_pairs s ! i) else None)"

definition selected_remote :: "ice_agent \<Rightarrow> socket_addr option" where
  "selected_remote s = map_option remote_addr (selected_pair s)"

definition selected_socket :: "ice_agent \<Rightarrow> nat option" where
  "selected_socket s = (case selected_pair s of None \<Rightarrow> None | Some p \<Rightarrow> ag_sockets s (local_addr p))"

section \<open>Pairs\<close>

definition form_pair :: "ice_agent \<Rightarrow> ice_candidate \<Rightarrow> ice_candidate \<Rightarrow> ice_agent \<times> nat option" where
  "form_pair s loc rem =
     (if ic_component loc \<noteq> ic_component rem \<or> (length (ic_address loc) = 4) \<noteq> (length (ic_address rem) = 4) then (s, None)
      else (case find_pair s (cand_addr loc) (cand_addr rem) of
              Some idx \<Rightarrow> (s, Some idx)
            | None \<Rightarrow>
                (s \<lparr> ag_pairs := ag_pairs s @ [\<lparr> ip_local = loc, ip_remote = rem,
                       ip_priority = pair_priority (ag_role s) (ic_priority loc) (ic_priority rem),
                       ip_state = Waiting, ip_nominated = False, ip_mapped_address = None,
                       ip_nominate_requested = False, ip_auth_failed = False \<rparr>] \<rparr>,
                 Some (length (ag_pairs s)))))"

definition resume_checking :: "ice_agent \<Rightarrow> ice_agent" where
  "resume_checking s = (if ag_state s = IceFailed then s \<lparr> ag_state := Checking, ag_failure := None \<rparr> else s)"

definition add_remote_candidate :: "ice_agent \<Rightarrow> ice_candidate \<Rightarrow> ice_agent" where
  "add_remote_candidate s remote =
     (if list_ex (\<lambda>c. cand_addr c = cand_addr remote \<and> ic_component c = ic_component remote) (ag_remote_candidates s) then s
      else let s1 = s \<lparr> ag_remote_candidates := ag_remote_candidates s @ [remote] \<rparr>
           in resume_checking (foldl (\<lambda>s loc. fst (form_pair s loc remote)) s1 (ag_local_candidates s1)))"

definition agent_new :: "ice_params \<Rightarrow> ice_candidate list \<Rightarrow> ice_candidate list \<Rightarrow> (socket_addr \<rightharpoonup> nat) \<Rightarrow> ice_agent" where
  "agent_new params locals remotes sockets =
     foldl add_remote_candidate
       \<lparr> ag_params = params, ag_role = ip_role params,
         ag_local_candidates = filter (\<lambda>c. sockets (cand_addr c) \<noteq> None) locals, ag_remote_candidates = [],
         ag_pairs = [], ag_triggered = [], ag_pending = [], ag_sockets = sockets, ag_state = Checking,
         ag_selected = None, ag_nomination_in_flight = False, ag_last_check_sent = None,
         ag_last_keepalive = None, ag_keepalive_interval = KEEPALIVE_INTERVAL, ag_failure = None,
         ag_metrics = None \<rparr> remotes"

definition switch_role :: "ice_role \<Rightarrow> ice_agent \<Rightarrow> ice_agent" where
  "switch_role role s =
     s \<lparr> ag_role := role,
         ag_pairs := map (\<lambda>p. p \<lparr> ip_priority := pair_priority role (ic_priority (ip_local p)) (ic_priority (ip_remote p)) \<rparr>)
                       (ag_pairs s) \<rparr>"

definition bump_check :: "string \<Rightarrow> ice_agent \<Rightarrow> ice_agent" where
  "bump_check outcome s =
     s \<lparr> ag_metrics := map_option (\<lambda>m. m \<lparr> im_binding_checks :=
           (im_binding_checks m) (outcome := im_binding_checks m outcome + 1) \<rparr>) (ag_metrics s) \<rparr>"

section \<open>Failure and nomination\<close>

definition update_failure :: "ice_agent \<Rightarrow> ice_agent" where
  "update_failure s =
     (if ag_state s \<noteq> Checking \<or> ag_pending s \<noteq> [] \<or> ag_triggered s \<noteq> [] then s
      else if list_ex (\<lambda>p. ip_state p \<in> {Waiting, Frozen, InProgress, Succeeded}) (ag_pairs s) then s
      else let auth = length (filter ip_auth_failed (ag_pairs s));
               n = length (ag_pairs s);
               reason = (if n = 0 then ''no candidate pairs could be formed''
                         else if auth = n then ''all '' @ show_nat auth @ '' candidate pairs rejected the credentials (401)''
                         else ''all '' @ show_nat n @ '' candidate pairs failed ('' @ show_nat auth @ '' credential rejections)'')
           in s \<lparr> ag_failure := Some reason, ag_state := IceFailed \<rparr>)"

text \<open>\<open>clock\<close> is the \<^verbatim>\<open>Instant::now()\<close> the function reads.\<close>

definition nominate :: "nat \<Rightarrow> nat \<Rightarrow> ice_agent \<Rightarrow> ice_agent" where
  "nominate clock idx s =
     (if ag_state s = Completed then s
      else (set_pair idx (\<lambda>p. p \<lparr> ip_nominated := True \<rparr>) s)
             \<lparr> ag_selected := Some idx, ag_state := Completed, ag_last_keepalive := Some clock,
               ag_pending := [], ag_triggered := [] \<rparr>)"

section \<open>Outbound checks\<close>

fun next_triggered :: "ice_pair list \<Rightarrow> (nat \<times> bool) list \<Rightarrow> (nat \<times> bool) option \<times> (nat \<times> bool) list" where
  "next_triggered pairs [] = (None, [])"
| "next_triggered pairs ((idx, nom) # rest) =
     (if ip_state (pairs ! idx) \<in> {Waiting, Frozen, Succeeded} then (Some (idx, nom), rest)
      else next_triggered pairs rest)"

text \<open>\<^verbatim>\<open>max_by_key\<close> over the waiting pairs: the last of the greatest.\<close>

fun max_waiting :: "(nat \<times> ice_pair) option \<Rightarrow> (nat \<times> ice_pair) list \<Rightarrow> (nat \<times> ice_pair) option" where
  "max_waiting best [] = best"
| "max_waiting best (x # xs) =
     max_waiting (case best of None \<Rightarrow> Some x | Some b \<Rightarrow> if ip_priority (snd b) \<le> ip_priority (snd x) then Some x else Some b) xs"

definition next_ordinary :: "ice_agent \<Rightarrow> nat option" where
  "next_ordinary s = map_option fst (max_waiting None (filter (\<lambda>(_, p). ip_state p = Waiting) (enumerate 0 (ag_pairs s))))"

definition check_message :: "ice_agent \<Rightarrow> transaction_id \<Rightarrow> ice_pair \<Rightarrow> bool \<Rightarrow> stun_message" where
  "check_message s tid pair nom =
     (let msg = (new_binding_request tid)
            \<lparr> sm_username := Some (ip_remote_ufrag (ag_params s) @ '':'' @ ip_local_ufrag (ag_params s)),
              sm_priority := Some (prflx_priority (ip_local pair)) \<rparr>
      in (case ag_role s of
            Controlling \<Rightarrow> msg \<lparr> sm_ice_controlling := Some (ip_tie_breaker (ag_params s)), sm_use_candidate := nom \<rparr>
          | Controlled \<Rightarrow> msg \<lparr> sm_ice_controlled := Some (ip_tie_breaker (ag_params s)) \<rparr>))"

definition send_check :: "hmac_fun \<Rightarrow> transaction_id \<Rightarrow> nat \<Rightarrow> bool \<Rightarrow> nat \<Rightarrow> ice_agent \<Rightarrow> ice_agent \<times> ice_outgoing list" where
  "send_check hmac tid idx nom now s =
     (let pair = ag_pairs s ! idx
      in case ag_sockets s (local_addr pair) of
           None \<Rightarrow> (s, [])
         | Some socket \<Rightarrow>
             (case encode_with hmac (check_message s tid pair nom) (Some (octets_of (ip_remote_pwd (ag_params s)))) True of
                Inl _ \<Rightarrow> (s, [])
              | Inr bs \<Rightarrow>
                  ((if ip_state pair \<noteq> Succeeded then set_pair idx (\<lambda>p. p \<lparr> ip_state := InProgress \<rparr>) s else s)
                     \<lparr> ag_pending := ag_pending s @ [\<lparr> pc_pair_idx = idx, pc_transaction_id = tid, pc_bytes = bs,
                          pc_destination = remote_addr pair, pc_socket = socket, pc_last_sent = now,
                          pc_retransmits = 0, pc_nominating = nom \<rparr>],
                       ag_last_check_sent := Some now \<rparr>,
                   [\<lparr> og_bytes = bs, og_destination = remote_addr pair, og_socket = socket \<rparr>])))"

definition backoff :: "pending_check \<Rightarrow> duration" where
  "backoff c = RETRANSMIT_TIMEOUT * 2 ^ min (pc_retransmits c) 16"

definition due :: "nat \<Rightarrow> pending_check \<Rightarrow> bool" where
  "due now c \<longleftrightarrow> backoff c \<le> now - pc_last_sent c"

definition expired :: "nat \<Rightarrow> pending_check \<Rightarrow> bool" where
  "expired now c \<longleftrightarrow> due now c \<and> \<not> pc_retransmits c < MAX_RETRANSMITS"

definition resend :: "nat \<Rightarrow> pending_check \<Rightarrow> pending_check" where
  "resend now c =
     (if due now c \<and> pc_retransmits c < MAX_RETRANSMITS
      then c \<lparr> pc_retransmits := pc_retransmits c + 1, pc_last_sent := now \<rparr> else c)"

definition expire :: "ice_agent \<Rightarrow> pending_check \<Rightarrow> ice_agent" where
  "expire s c =
     (let s1 = bump_check ''timeout''
                 (if ip_state (ag_pairs s ! pc_pair_idx c) \<noteq> Succeeded
                  then set_pair (pc_pair_idx c) (\<lambda>p. p \<lparr> ip_state := Failed \<rparr>) s else s)
      in if pc_nominating c then s1 \<lparr> ag_nomination_in_flight := False \<rparr> else s1)"

text \<open>The first loop resends or marks each check; the second removes the marked ones from the
  back and fails their pairs.\<close>

definition retransmit :: "nat \<Rightarrow> ice_agent \<Rightarrow> ice_agent \<times> ice_outgoing list" where
  "retransmit now s =
     (foldl expire (s \<lparr> ag_pending := map (resend now) (filter (\<lambda>c. \<not> expired now c) (ag_pending s)) \<rparr>)
        (rev (filter (expired now) (ag_pending s))),
      map (\<lambda>c. \<lparr> og_bytes = pc_bytes c, og_destination = pc_destination c, og_socket = pc_socket c \<rparr>)
        (filter (\<lambda>c. due now c \<and> pc_retransmits c < MAX_RETRANSMITS) (ag_pending s)))"

definition keepalive :: "hmac_fun \<Rightarrow> transaction_id \<Rightarrow> nat \<Rightarrow> ice_agent \<Rightarrow> ice_agent \<times> ice_outgoing list" where
  "keepalive hmac tid now s =
     (if \<not> (case ag_last_keepalive s of None \<Rightarrow> True | Some t \<Rightarrow> ag_keepalive_interval s \<le> now - t) then (s, [])
      else (case selected_pair s of
              None \<Rightarrow> (s, [])
            | Some pair \<Rightarrow>
                (case ag_sockets s (local_addr pair) of
                   None \<Rightarrow> (s, [])
                 | Some socket \<Rightarrow>
                     (case encode_with hmac (new_binding_indication tid) None True of
                        Inl _ \<Rightarrow> (s, [])
                      | Inr bs \<Rightarrow>
                          (s \<lparr> ag_last_keepalive := Some now \<rparr>,
                           [\<lparr> og_bytes = bs, og_destination = remote_addr pair, og_socket = socket \<rparr>])))))"

definition next_check :: "ice_agent \<Rightarrow> ice_agent \<times> (nat \<times> bool) option" where
  "next_check s =
     (let (trig, rest) = next_triggered (ag_pairs s) (ag_triggered s); s1 = s \<lparr> ag_triggered := rest \<rparr>
      in (s1, case trig of Some t \<Rightarrow> Some t | None \<Rightarrow> map_option (\<lambda>i. (i, False)) (next_ordinary s1)))"

definition paced :: "nat \<Rightarrow> ice_agent \<Rightarrow> bool" where
  "paced now s \<longleftrightarrow> (case ag_last_check_sent s of None \<Rightarrow> True | Some t \<Rightarrow> CHECK_PACING \<le> now - t)"

definition start_check :: "hmac_fun \<Rightarrow> transaction_id \<Rightarrow> nat \<Rightarrow> ice_agent \<Rightarrow> ice_agent \<times> ice_outgoing list" where
  "start_check hmac tid now s =
     (if paced now s
      then let (s1, nxt) = next_check s
           in (case nxt of None \<Rightarrow> (s1, []) | Some (idx, nom) \<Rightarrow> send_check hmac tid idx nom now s1)
      else (s, []))"

definition tick_at :: "hmac_fun \<Rightarrow> transaction_id \<Rightarrow> nat \<Rightarrow> ice_agent \<Rightarrow> ice_agent \<times> ice_outgoing list" where
  "tick_at hmac tid now s =
     (case ag_state s of
        IceFailed \<Rightarrow> (s, [])
      | Completed \<Rightarrow> keepalive hmac tid now s
      | Checking \<Rightarrow>
          let (s1, out1) = retransmit now s;
              (s2, out2) = start_check hmac tid now s1
          in (update_failure s2, out1 @ out2))"

section \<open>Inbound datagrams\<close>

definition error_reply :: "hmac_fun \<Rightarrow> stun_message \<Rightarrow> u16 \<Rightarrow> bytes \<Rightarrow> octets option \<Rightarrow> octets option" where
  "error_reply hmac request err reason key =
     (case encode_with hmac (new_binding_error request err reason) key True of Inr bs \<Rightarrow> Some bs | Inl _ \<Rightarrow> None)"

text \<open>The role conflict of a request: the agent with its role kept or switched, or the refusal.\<close>

definition resolve_roles :: "ice_agent \<Rightarrow> stun_message \<Rightarrow> ice_agent option" where
  "resolve_roles s msg =
     (case (ag_role s, sm_ice_controlling msg, sm_ice_controlled msg) of
        (Controlling, Some theirs, _) \<Rightarrow>
          if ip_tie_breaker (ag_params s) \<ge> theirs then None else Some (switch_role Controlled s)
      | (Controlled, _, Some theirs) \<Rightarrow>
          if ip_tie_breaker (ag_params s) \<ge> theirs then Some (switch_role Controlling s) else None
      | _ \<Rightarrow> Some s)"

definition learn_remote_prflx :: "stun_message \<Rightarrow> socket_addr \<Rightarrow> socket_addr \<Rightarrow> ice_agent \<Rightarrow> ice_agent" where
  "learn_remote_prflx msg from to s =
     (let component = (case find (\<lambda>c. cand_addr c = to) (ag_local_candidates s) of Some c \<Rightarrow> ic_component c | None \<Rightarrow> 1)
      in if list_ex (\<lambda>c. cand_addr c = from) (ag_remote_candidates s) then s
         else add_remote_candidate s
                \<lparr> ic_foundation = ''prflx'' @ show_nat (length (ag_remote_candidates s)), ic_component = component,
                  ic_transport = ''UDP'', ic_priority = (case sm_priority msg of Some p \<Rightarrow> p | None \<Rightarrow> 0),
                  ic_address = sa_ip from, ic_port = sa_port from, ic_candidate_type = ''prflx'',
                  ic_related_address = None, ic_related_port = None, ic_raw_params = [] \<rparr>)"

definition trigger_pair :: "nat \<Rightarrow> stun_message \<Rightarrow> nat \<Rightarrow> ice_agent \<Rightarrow> ice_agent" where
  "trigger_pair clock msg idx s =
     (let s1 = (if sm_use_candidate msg \<and> ag_role s = Controlled
                then set_pair idx (\<lambda>p. p \<lparr> ip_nominate_requested := True \<rparr>) s else s);
          pair = ag_pairs s1 ! idx;
          s2 = (case ip_state pair of
                  Succeeded \<Rightarrow> if ip_nominate_requested pair then nominate clock idx s1 else s1
                | InProgress \<Rightarrow> s1
                | Failed \<Rightarrow>
                    if \<not> ip_auth_failed pair
                    then (set_pair idx (\<lambda>p. p \<lparr> ip_state := Waiting \<rparr>) s1) \<lparr> ag_triggered := ag_triggered s1 @ [(idx, False)] \<rparr>
                    else s1
                | _ \<Rightarrow> s1 \<lparr> ag_triggered := ag_triggered s1 @ [(idx, False)] \<rparr>)
      in resume_checking s2)"

definition handle_request :: "hmac_fun \<Rightarrow> nat \<Rightarrow> stun_message \<Rightarrow> octets \<Rightarrow> socket_addr \<Rightarrow> socket_addr \<Rightarrow> ice_agent \<Rightarrow> ice_agent \<times> octets option" where
  "handle_request hmac clock msg raw from to s =
     (if \<not> sm_has_fingerprint msg \<or> \<not> verify_fingerprint raw then (s, None)
      else let key = octets_of (ip_local_pwd (ag_params s))
           in case (sm_username msg, sm_has_message_integrity msg) of
                (Some username, True) \<Rightarrow>
                  (let expected = ip_local_ufrag (ag_params s) @ '':'' @ ip_remote_ufrag (ag_params s)
                   in if username \<noteq> expected \<or> \<not> verify_message_integrity hmac raw key
                      then (s, error_reply hmac msg ERR_UNAUTHENTICATED ''Unauthenticated'' None)
                      else (case resolve_roles s msg of
                              None \<Rightarrow> (s, error_reply hmac msg ERR_ROLE_CONFLICT ''Role Conflict'' (Some key))
                            | Some s1 \<Rightarrow>
                                (let s2 = learn_remote_prflx msg from to s1;
                                     s3 = (case find_pair s2 to from of Some idx \<Rightarrow> trigger_pair clock msg idx s2 | None \<Rightarrow> s2)
                                 in (s3, case encode_with hmac (new_binding_response msg from) (Some key) True of
                                           Inr bs \<Rightarrow> Some bs | Inl _ \<Rightarrow> None))))
              | _ \<Rightarrow> (s, error_reply hmac msg ERR_BAD_REQUEST ''Bad Request'' None))"

definition learn_local_prflx :: "socket_addr \<Rightarrow> nat \<Rightarrow> ice_agent \<Rightarrow> ice_agent" where
  "learn_local_prflx mapped idx s =
     (if list_ex (\<lambda>c. cand_addr c = mapped) (ag_local_candidates s) then s
      else let base = ip_local (ag_pairs s ! idx)
           in s \<lparr> ag_local_candidates := ag_local_candidates s @
                    [\<lparr> ic_foundation = ''prflx'' @ show_nat (length (ag_local_candidates s)), ic_component = ic_component base,
                       ic_transport = ''UDP'', ic_priority = prflx_priority base, ic_address = sa_ip mapped,
                       ic_port = sa_port mapped, ic_candidate_type = ''prflx'', ic_related_address = Some (ic_address base),
                       ic_related_port = Some (ic_port base), ic_raw_params = [] \<rparr>],
                  ag_metrics := map_option (\<lambda>m. m \<lparr> im_prflx_gathered := im_prflx_gathered m + 1 \<rparr>) (ag_metrics s) \<rparr>)"

definition take_pending :: "transaction_id \<Rightarrow> ice_agent \<Rightarrow> (pending_check \<times> ice_agent) option" where
  "take_pending tid s =
     (case position (\<lambda>c. pc_transaction_id c = tid) (ag_pending s) of
        None \<Rightarrow> None
      | Some pos \<Rightarrow> Some (ag_pending s ! pos, s \<lparr> ag_pending := take pos (ag_pending s) @ drop (Suc pos) (ag_pending s) \<rparr>))"

definition clear_nomination :: "pending_check \<Rightarrow> ice_agent \<Rightarrow> ice_agent" where
  "clear_nomination c s = (if pc_nominating c then s \<lparr> ag_nomination_in_flight := False \<rparr> else s)"

definition handle_success :: "hmac_fun \<Rightarrow> nat \<Rightarrow> stun_message \<Rightarrow> octets \<Rightarrow> socket_addr \<Rightarrow> socket_addr \<Rightarrow> ice_agent \<Rightarrow> ice_agent" where
  "handle_success hmac clock msg raw from to s =
     (case take_pending (sm_transaction_id msg) s of
        None \<Rightarrow> s
      | Some (check, s1) \<Rightarrow>
          if \<not> verify_fingerprint raw \<or> \<not> verify_message_integrity hmac raw (octets_of (ip_remote_pwd (ag_params s))) then s
          else let idx = pc_pair_idx check; pair = ag_pairs s1 ! idx
               in if from \<noteq> remote_addr pair \<or> to \<noteq> local_addr pair
                  then update_failure (clear_nomination check
                         (bump_check ''mismatch'' (set_pair idx (\<lambda>p. p \<lparr> ip_state := Failed \<rparr>) s1)))
                  else let s2 = (case sm_xor_mapped_address msg of
                                   Some mapped \<Rightarrow> learn_local_prflx mapped idx
                                     (set_pair idx (\<lambda>p. p \<lparr> ip_mapped_address := Some mapped \<rparr>) s1)
                                 | None \<Rightarrow> s1);
                           s3 = bump_check ''success'' (set_pair idx (\<lambda>p. p \<lparr> ip_state := Succeeded \<rparr>) s2)
                       in if pc_nominating check \<or> ip_nominate_requested (ag_pairs s3 ! idx) then nominate clock idx s3
                          else if ag_role s3 = Controlling \<and> \<not> ag_nomination_in_flight s3 \<and> ag_selected s3 = None
                          then s3 \<lparr> ag_nomination_in_flight := True, ag_triggered := (idx, True) # ag_triggered s3 \<rparr>
                          else s3)"

definition flip :: "ice_role \<Rightarrow> ice_role" where
  "flip r = (case r of Controlling \<Rightarrow> Controlled | Controlled \<Rightarrow> Controlling)"

definition handle_error :: "hmac_fun \<Rightarrow> stun_message \<Rightarrow> octets \<Rightarrow> ice_agent \<Rightarrow> ice_agent" where
  "handle_error hmac msg raw s =
     (case take_pending (sm_transaction_id msg) s of
        None \<Rightarrow> s
      | Some (check, s1) \<Rightarrow>
          let err = (case sm_error_code msg of Some e \<Rightarrow> ec_code e | None \<Rightarrow> 0);
              idx = pc_pair_idx check
          in if err = ERR_ROLE_CONFLICT then
               (if \<not> verify_message_integrity hmac raw (octets_of (ip_remote_pwd (ag_params s))) then s
                else let s2 = set_pair idx (\<lambda>p. p \<lparr> ip_state := Waiting \<rparr>) (switch_role (flip (ag_role s1)) s1)
                     in s2 \<lparr> ag_nomination_in_flight := False, ag_triggered := ag_triggered s2 @ [(idx, False)],
                             ag_last_check_sent := None \<rparr>)
             else update_failure (bump_check ''error'' (clear_nomination check
                    (set_pair idx (\<lambda>p. p \<lparr> ip_state := Failed, ip_auth_failed := (err = ERR_UNAUTHENTICATED) \<rparr>) s1))))"

definition handle_datagram_at :: "hmac_fun \<Rightarrow> nat \<Rightarrow> octets \<Rightarrow> socket_addr \<Rightarrow> socket_addr \<Rightarrow> ice_agent \<Rightarrow> ice_agent \<times> octets option" where
  "handle_datagram_at hmac clock bs from to s =
     (case decode bs of
        Inl _ \<Rightarrow> (s, None)
      | Inr msg \<Rightarrow>
          (case sm_class msg of
             Request \<Rightarrow> handle_request hmac clock msg bs from to s
           | SuccessResponse \<Rightarrow> (handle_success hmac clock msg bs from to s, None)
           | ErrorResponse \<Rightarrow> (handle_error hmac msg bs s, None)
           | Indication \<Rightarrow> (s, None)))"

section \<open>Events\<close>

text \<open>What a driver does with an agent: tick it with a fresh transaction id, hand it a datagram, add
  a trickled candidate, attach metrics or change the keepalive interval. What comes out is sent on
  a socket or returned as the reply.\<close>

datatype ice_event =
    Tick transaction_id nat
  | Recv octets socket_addr socket_addr nat
  | Trickle ice_candidate
  | WithMetrics ice_metrics
  | WithKeepalive duration

datatype ice_output = Send ice_outgoing | Reply octets socket_addr

definition ice_step :: "hmac_fun \<Rightarrow> ice_agent \<Rightarrow> ice_event \<Rightarrow> ice_agent \<times> ice_output list" where
  "ice_step hmac s e =
     (case e of
        Tick tid now \<Rightarrow> (let (s', out) = tick_at hmac tid now s in (s', map Send out))
      | Recv bs from to clock \<Rightarrow>
          (let (s', r) = handle_datagram_at hmac clock bs from to s
           in (s', case r of Some reply \<Rightarrow> [Reply reply from] | None \<Rightarrow> []))
      | Trickle c \<Rightarrow> (add_remote_candidate s c, [])
      | WithMetrics m \<Rightarrow> (s \<lparr> ag_metrics := Some m \<rparr>, [])
      | WithKeepalive d \<Rightarrow> (s \<lparr> ag_keepalive_interval := d \<rparr>, []))"

end
