(* ===== verification/Ice_Invariant.thy ===== *)
theory Ice_Invariant
  imports Ice_Agent
begin

text \<open>
  The invariant of the ICE agent and its preservation by every operation: the check list stays
  well-formed, its indexes in range, and each agent state means what it says. The agent is an instance of
  \<open>preserving_machine\<close>, so every run from a new agent satisfies it.
\<close>

section \<open>Invariant\<close>

text \<open>The structural part: indexes into the check list are in range, pending checks go out on the
  pair's own path, no two pairs have the same ends, and each pair matches in component and family,
  carries the priority of the current role and is not Frozen.\<close>

definition ends :: "ice_pair \<Rightarrow> socket_addr \<times> socket_addr" where
  "ends p = (local_addr p, remote_addr p)"

definition pair_ok :: "ice_role \<Rightarrow> ice_pair \<Rightarrow> bool" where
  "pair_ok role p \<longleftrightarrow> ic_component (ip_local p) = ic_component (ip_remote p) \<and>
     (length (ic_address (ip_local p)) = 4) = (length (ic_address (ip_remote p)) = 4) \<and>
     ip_priority p = pair_priority role (ic_priority (ip_local p)) (ic_priority (ip_remote p)) \<and>
     ip_state p \<noteq> Frozen"

definition check_ok :: "(socket_addr \<rightharpoonup> nat) \<Rightarrow> ice_pair list \<Rightarrow> pending_check \<Rightarrow> bool" where
  "check_ok socks pairs c \<longleftrightarrow> pc_pair_idx c < length pairs \<and> pc_retransmits c \<le> MAX_RETRANSMITS \<and>
     pc_destination c = remote_addr (pairs ! pc_pair_idx c) \<and>
     socks (local_addr (pairs ! pc_pair_idx c)) = Some (pc_socket c)"

definition struct_ok :: "ice_role \<Rightarrow> (socket_addr \<rightharpoonup> nat) \<Rightarrow> ice_pair list \<Rightarrow> (nat \<times> bool) list \<Rightarrow> pending_check list \<Rightarrow> bool" where
  "struct_ok role socks pairs trig pend \<longleftrightarrow> list_all (\<lambda>t. fst t < length pairs) trig \<and>
     list_all (check_ok socks pairs) pend \<and> distinct (map ends pairs) \<and> list_all (pair_ok role) pairs"

text \<open>What each agent state means: a completed agent has selected exactly the one nominated pair,
  whose check succeeded; a checking agent has a pending check for every pair in progress; a failed
  agent has nothing left to try.\<close>

definition phase_ok :: "ice_state \<Rightarrow> nat option \<Rightarrow> bytes option \<Rightarrow> ice_pair list \<Rightarrow> (nat \<times> bool) list \<Rightarrow> pending_check list \<Rightarrow> bool" where
  "phase_ok st sel fl pairs trig pend \<longleftrightarrow>
     (\<forall>i < length pairs. ip_nominated (pairs ! i) = (sel = Some i)) \<and>
     (case st of
        Completed \<Rightarrow> (\<exists>i < length pairs. sel = Some i \<and> ip_state (pairs ! i) = Succeeded) \<and> pend = [] \<and> fl = None
      | Checking \<Rightarrow> sel = None \<and> fl = None \<and>
          (\<forall>i < length pairs. ip_state (pairs ! i) = InProgress \<longrightarrow> (\<exists>c \<in> set pend. pc_pair_idx c = i))
      | IceFailed \<Rightarrow> sel = None \<and> fl \<noteq> None \<and> pend = [] \<and> trig = [] \<and> list_all (\<lambda>p. ip_state p = Failed) pairs)"

definition ice_inv :: "ice_agent \<Rightarrow> bool" where
  "ice_inv s \<longleftrightarrow> struct_ok (ag_role s) (ag_sockets s) (ag_pairs s) (ag_triggered s) (ag_pending s) \<and>
     phase_ok (ag_state s) (ag_selected s) (ag_failure s) (ag_pairs s) (ag_triggered s) (ag_pending s)"

lemma set_pair_fields [simp]:
  "ag_pairs (set_pair i f s) = (ag_pairs s)[i := f (ag_pairs s ! i)]"
  "ag_params (set_pair i f s) = ag_params s" "ag_role (set_pair i f s) = ag_role s"
  "ag_local_candidates (set_pair i f s) = ag_local_candidates s"
  "ag_remote_candidates (set_pair i f s) = ag_remote_candidates s"
  "ag_triggered (set_pair i f s) = ag_triggered s" "ag_pending (set_pair i f s) = ag_pending s"
  "ag_sockets (set_pair i f s) = ag_sockets s" "ag_state (set_pair i f s) = ag_state s"
  "ag_selected (set_pair i f s) = ag_selected s" "ag_failure (set_pair i f s) = ag_failure s"
  "ag_nomination_in_flight (set_pair i f s) = ag_nomination_in_flight s"
  "ag_last_check_sent (set_pair i f s) = ag_last_check_sent s"
  by (simp_all add: set_pair_def)

lemma bump_check_fields [simp]:
  "ag_pairs (bump_check x s) = ag_pairs s"
  "ag_params (bump_check x s) = ag_params s" "ag_role (bump_check x s) = ag_role s"
  "ag_local_candidates (bump_check x s) = ag_local_candidates s"
  "ag_remote_candidates (bump_check x s) = ag_remote_candidates s"
  "ag_triggered (bump_check x s) = ag_triggered s" "ag_pending (bump_check x s) = ag_pending s"
  "ag_sockets (bump_check x s) = ag_sockets s" "ag_state (bump_check x s) = ag_state s"
  "ag_selected (bump_check x s) = ag_selected s" "ag_failure (bump_check x s) = ag_failure s"
  "ag_nomination_in_flight (bump_check x s) = ag_nomination_in_flight s"
  "ag_last_check_sent (bump_check x s) = ag_last_check_sent s"
  by (simp_all add: bump_check_def)

lemma clear_nomination_fields [simp]:
  "ag_pairs (clear_nomination c s) = ag_pairs s"
  "ag_params (clear_nomination c s) = ag_params s" "ag_role (clear_nomination c s) = ag_role s"
  "ag_local_candidates (clear_nomination c s) = ag_local_candidates s"
  "ag_remote_candidates (clear_nomination c s) = ag_remote_candidates s"
  "ag_triggered (clear_nomination c s) = ag_triggered s" "ag_pending (clear_nomination c s) = ag_pending s"
  "ag_sockets (clear_nomination c s) = ag_sockets s" "ag_state (clear_nomination c s) = ag_state s"
  "ag_selected (clear_nomination c s) = ag_selected s" "ag_failure (clear_nomination c s) = ag_failure s"
  "ag_last_check_sent (clear_nomination c s) = ag_last_check_sent s"
  by (simp_all add: clear_nomination_def)

text \<open>Pairs that differ only in what a check changes.\<close>

definition same_pair :: "ice_pair \<Rightarrow> ice_pair \<Rightarrow> bool" where
  "same_pair p q \<longleftrightarrow> ip_local p = ip_local q \<and> ip_remote p = ip_remote q \<and> ip_priority p = ip_priority q"

lemma struct_okD:
  assumes "struct_ok role socks pairs trig pend"
  shows "c \<in> set pend \<Longrightarrow> check_ok socks pairs c" "c \<in> set pend \<Longrightarrow> pc_pair_idx c < length pairs"
    "t \<in> set trig \<Longrightarrow> fst t < length pairs" "i < length pairs \<Longrightarrow> pair_ok role (pairs ! i)"
  using assms by (auto simp: struct_ok_def list_all_iff check_ok_def)

lemma struct_ok_update:
  assumes "struct_ok role socks pairs trig pend" and "same_pair p' (pairs ! i)" and "ip_state p' \<noteq> Frozen"
  shows "struct_ok role socks (pairs[i := p']) trig pend"
proof (cases "i < length pairs")
  case True
  have e: "ends (pairs[i := p'] ! j) = ends (pairs ! j)" if "j < length pairs" for j
    using assms(2) that by (cases "i = j") (simp_all add: ends_def local_addr_def remote_addr_def same_pair_def)
  then have "map ends (pairs[i := p']) = map ends pairs" by (intro nth_equalityI) simp_all
  moreover have "check_ok socks (pairs[i := p']) c" if "c \<in> set pend" for c
    using struct_okD(1) [OF assms(1) that] e [of "pc_pair_idx c"] by (simp add: check_ok_def ends_def)
  moreover have "pair_ok role p'"
    using struct_okD(4) [OF assms(1) True] assms(2,3) by (simp add: pair_ok_def same_pair_def)
  ultimately show ?thesis
    using assms(1) by (auto simp: struct_ok_def list_all_iff dest!: set_update_subset_insert [THEN subsetD])
qed (use assms(1) in \<open>simp add: list_update_beyond\<close>)

lemma struct_ok_queues:
  assumes "struct_ok role socks pairs trig pend" and "\<And>t. t \<in> set trig' \<Longrightarrow> fst t < length pairs"
    and "\<And>c. c \<in> set pend' \<Longrightarrow> check_ok socks pairs c"
  shows "struct_ok role socks pairs trig' pend'"
  using assms by (auto simp: struct_ok_def list_all_iff)

lemma position_Some:
  "position P xs = Some i \<Longrightarrow> i < length xs \<and> P (xs ! i) \<and> (\<forall>j < i. \<not> P (xs ! j))"
  by (induction xs arbitrary: i) (auto split: if_splits simp: less_Suc_eq_0_disj nth_Cons')

lemma position_None: "position P xs = None \<longleftrightarrow> (\<forall>x \<in> set xs. \<not> P x)"
  by (induction xs) auto

section \<open>Forming pairs\<close>

definition fresh_pair :: "ice_role \<Rightarrow> ice_candidate \<Rightarrow> ice_candidate \<Rightarrow> ice_pair" where
  "fresh_pair role loc rem = \<lparr> ip_local = loc, ip_remote = rem, ip_priority = pair_priority role (ic_priority loc) (ic_priority rem),
     ip_state = Waiting, ip_nominated = False, ip_mapped_address = None, ip_nominate_requested = False, ip_auth_failed = False \<rparr>"

lemma form_pair_cases:
  obtains "fst (form_pair s loc rem) = s"
  | "fst (form_pair s loc rem) = s \<lparr> ag_pairs := ag_pairs s @ [fresh_pair (ag_role s) loc rem] \<rparr>"
    "pair_ok (ag_role s) (fresh_pair (ag_role s) loc rem)"
    "ends (fresh_pair (ag_role s) loc rem) \<notin> ends ` set (ag_pairs s)"
proof (cases "fst (form_pair s loc rem) = s")
  case False
  then have m: "ic_component loc = ic_component rem" "(length (ic_address loc) = 4) = (length (ic_address rem) = 4)"
    and n: "find_pair s (cand_addr loc) (cand_addr rem) = None"
    by (auto simp: form_pair_def split: if_splits option.splits)
  have "fst (form_pair s loc rem) = s \<lparr> ag_pairs := ag_pairs s @ [fresh_pair (ag_role s) loc rem] \<rparr>"
    using m n by (simp add: form_pair_def fresh_pair_def)
  moreover have "pair_ok (ag_role s) (fresh_pair (ag_role s) loc rem)" using m by (simp add: pair_ok_def fresh_pair_def)
  moreover have "ends (fresh_pair (ag_role s) loc rem) \<notin> ends ` set (ag_pairs s)"
    using n by (auto simp: find_pair_def position_None ends_def local_addr_def remote_addr_def fresh_pair_def)
  ultimately show thesis using that(2) by blast
qed (use that(1) in blast)

lemma struct_ok_snoc:
  assumes "struct_ok role socks pairs trig pend" and "pair_ok role p" and "ends p \<notin> ends ` set pairs"
  shows "struct_ok role socks (pairs @ [p]) trig pend"
proof -
  have "check_ok socks (pairs @ [p]) c" if "c \<in> set pend" for c
    using struct_okD(1) [OF assms(1) that] by (auto simp: check_ok_def nth_append)
  with assms show ?thesis by (auto simp: struct_ok_def list_all_iff)
qed

text \<open>Adding a pair to an agent that is completed or checking keeps its phase; a failed one is put
  back to checking.\<close>

definition growing :: "ice_agent \<Rightarrow> bool" where
  "growing s \<longleftrightarrow> struct_ok (ag_role s) (ag_sockets s) (ag_pairs s) (ag_triggered s) (ag_pending s) \<and>
     (case ag_state s of
        IceFailed \<Rightarrow> phase_ok Checking (ag_selected s) None (ag_pairs s) (ag_triggered s) (ag_pending s)
      | st \<Rightarrow> phase_ok st (ag_selected s) (ag_failure s) (ag_pairs s) (ag_triggered s) (ag_pending s))"

lemma growing_of_inv: "ice_inv s \<Longrightarrow> growing s"
  by (cases "ag_state s") (auto simp: growing_def ice_inv_def phase_ok_def list_all_length)

lemma inv_of_growing: "growing s \<Longrightarrow> ice_inv (resume_checking s)"
  by (cases "ag_state s") (auto simp: growing_def ice_inv_def resume_checking_def)

lemma phase_ok_snoc:
  "phase_ok st sel fl pairs trig pend \<Longrightarrow> st \<noteq> IceFailed \<Longrightarrow> struct_ok role socks pairs trig pend \<Longrightarrow>
   phase_ok st sel fl (pairs @ [fresh_pair r l m]) trig pend"
  by (cases st) (auto simp: phase_ok_def nth_append fresh_pair_def less_Suc_eq)

lemma growing_form_pair: "growing s \<Longrightarrow> growing (fst (form_pair s loc rem))"
proof (cases rule: form_pair_cases [of s loc rem])
  case 2
  assume g: "growing s"
  then have st: "struct_ok (ag_role s) (ag_sockets s) (ag_pairs s) (ag_triggered s) (ag_pending s)" by (simp add: growing_def)
  from struct_ok_snoc [OF this 2(2,3)] g show ?thesis
    unfolding 2(1) by (cases "ag_state s") (auto simp: growing_def intro: phase_ok_snoc [OF _ _ st])
qed simp

lemma form_pair_keeps [simp]:
  "ag_local_candidates (fst (form_pair s loc rem)) = ag_local_candidates s"
  "ag_remote_candidates (fst (form_pair s loc rem)) = ag_remote_candidates s"
  "ag_params (fst (form_pair s loc rem)) = ag_params s" "ag_role (fst (form_pair s loc rem)) = ag_role s"
  "ag_state (fst (form_pair s loc rem)) = ag_state s" "ag_selected (fst (form_pair s loc rem)) = ag_selected s"
  "ag_sockets (fst (form_pair s loc rem)) = ag_sockets s" "ag_pending (fst (form_pair s loc rem)) = ag_pending s"
  "ag_triggered (fst (form_pair s loc rem)) = ag_triggered s"
  by (cases rule: form_pair_cases [of s loc rem]; simp)+

lemma growing_form_pairs: "growing s \<Longrightarrow> growing (foldl (\<lambda>s loc. fst (form_pair s loc rem)) s locs)"
  by (induction locs arbitrary: s) (simp_all add: growing_form_pair)

lemma inv_add_remote: "ice_inv s \<Longrightarrow> ice_inv (add_remote_candidate s rem)"
proof -
  assume i: "ice_inv s"
  have "growing (s \<lparr> ag_remote_candidates := ag_remote_candidates s @ [rem] \<rparr>)"
    using growing_of_inv [OF i] by (simp add: growing_def split: ice_state.splits)
  from inv_of_growing [OF growing_form_pairs [OF this]] i show ?thesis
    by (simp add: add_remote_candidate_def Let_def)
qed

lemma inv_new: "ice_inv (agent_new params locals remotes sockets)"
proof -
  have "ice_inv s \<Longrightarrow> ice_inv (foldl add_remote_candidate s rs)" for s rs
    by (induction rs arbitrary: s) (simp_all add: inv_add_remote)
  moreover have "ice_inv \<lparr> ag_params = params, ag_role = ip_role params,
         ag_local_candidates = filter (\<lambda>c. sockets (cand_addr c) \<noteq> None) locals, ag_remote_candidates = [],
         ag_pairs = [], ag_triggered = [], ag_pending = [], ag_sockets = sockets, ag_state = Checking,
         ag_selected = None, ag_nomination_in_flight = False, ag_last_check_sent = None,
         ag_last_keepalive = None, ag_keepalive_interval = KEEPALIVE_INTERVAL, ag_failure = None,
         ag_metrics = None \<rparr>"
    by (simp add: ice_inv_def struct_ok_def phase_ok_def)
  ultimately show ?thesis unfolding agent_new_def by blast
qed

section \<open>Every operation keeps the invariant\<close>

lemma switch_role_fields [simp]:
  "ag_role (switch_role r s) = r" "ag_params (switch_role r s) = ag_params s"
  "ag_local_candidates (switch_role r s) = ag_local_candidates s"
  "ag_remote_candidates (switch_role r s) = ag_remote_candidates s"
  "length (ag_pairs (switch_role r s)) = length (ag_pairs s)"
  "ag_triggered (switch_role r s) = ag_triggered s" "ag_pending (switch_role r s) = ag_pending s"
  "ag_sockets (switch_role r s) = ag_sockets s" "ag_state (switch_role r s) = ag_state s"
  "ag_selected (switch_role r s) = ag_selected s" "ag_failure (switch_role r s) = ag_failure s"
  by (simp_all add: switch_role_def)

lemma switch_role_pair [simp]:
  "i < length (ag_pairs s) \<Longrightarrow> ip_state (ag_pairs (switch_role r s) ! i) = ip_state (ag_pairs s ! i)"
  "i < length (ag_pairs s) \<Longrightarrow> ip_nominated (ag_pairs (switch_role r s) ! i) = ip_nominated (ag_pairs s ! i)"
  "i < length (ag_pairs s) \<Longrightarrow> ip_nominate_requested (ag_pairs (switch_role r s) ! i) = ip_nominate_requested (ag_pairs s ! i)"
  "i < length (ag_pairs s) \<Longrightarrow> local_addr (ag_pairs (switch_role r s) ! i) = local_addr (ag_pairs s ! i)"
  "i < length (ag_pairs s) \<Longrightarrow> remote_addr (ag_pairs (switch_role r s) ! i) = remote_addr (ag_pairs s ! i)"
  by (simp_all add: switch_role_def local_addr_def remote_addr_def)

lemma inv_switch_role: "ice_inv s \<Longrightarrow> ice_inv (switch_role r s)"
proof -
  assume i: "ice_inv s"
  then have st: "struct_ok (ag_role s) (ag_sockets s) (ag_pairs s) (ag_triggered s) (ag_pending s)" by (simp add: ice_inv_def)
  have "ends \<circ> (\<lambda>p. p \<lparr> ip_priority := x p \<rparr>) = ends" for x by (auto simp: ends_def local_addr_def remote_addr_def)
  then have "map ends (ag_pairs (switch_role r s)) = map ends (ag_pairs s)" by (simp add: switch_role_def)
  moreover have "check_ok (ag_sockets s) (ag_pairs (switch_role r s)) c" if "c \<in> set (ag_pending s)" for c
    using struct_okD(1) [OF st that] by (simp add: check_ok_def)
  moreover have "list_all (pair_ok r) (ag_pairs (switch_role r s))"
    using st by (auto simp: struct_ok_def list_all_iff pair_ok_def switch_role_def)
  ultimately have "struct_ok r (ag_sockets s) (ag_pairs (switch_role r s)) (ag_triggered s) (ag_pending s)"
    using st by (simp add: struct_ok_def list_all_iff)
  moreover have "phase_ok (ag_state s) (ag_selected s) (ag_failure s) (ag_pairs (switch_role r s)) (ag_triggered s) (ag_pending s)"
    using i by (cases "ag_state s") (auto simp: ice_inv_def phase_ok_def list_all_length)
  ultimately show ?thesis by (simp add: ice_inv_def)
qed

lemma update_failure_cases:
  obtains "update_failure s = s"
  | r where "update_failure s = s \<lparr> ag_failure := Some r, ag_state := IceFailed \<rparr>" "ag_state s = Checking"
    "ag_pending s = []" "ag_triggered s = []" "list_all (\<lambda>p. ip_state p = Failed) (ag_pairs s)"
proof -
  let ?busy = "ag_state s \<noteq> Checking \<or> ag_pending s \<noteq> [] \<or> ag_triggered s \<noteq> []"
  let ?live = "list_ex (\<lambda>p. ip_state p \<in> {Waiting, Frozen, InProgress, Succeeded}) (ag_pairs s)"
  show thesis
  proof (cases "?busy \<or> ?live")
    case True
    then have "update_failure s = s" unfolding update_failure_def by (cases ?busy) (simp_all only: if_True if_False simp_thms)
    then show thesis by (rule that(1))
  next
    case False
    then have n: "\<not> ?busy" "\<not> ?live" by blast+
    have "ip_state p = Failed" if "p \<in> set (ag_pairs s)" for p
      using n(2) that by (cases "ip_state p") (auto simp: list_ex_iff)
    then have "list_all (\<lambda>p. ip_state p = Failed) (ag_pairs s)" by (simp add: list_all_iff)
    moreover obtain r where "update_failure s = s \<lparr> ag_failure := Some r, ag_state := IceFailed \<rparr>"
      unfolding update_failure_def Let_def if_not_P [OF n(1)] if_not_P [OF n(2)] by blast
    ultimately show thesis using n(1) by (intro that(2)) auto
  qed
qed

lemma inv_update_failure: "ice_inv s \<Longrightarrow> ice_inv (update_failure s)"
  by (cases rule: update_failure_cases [of s]) (auto simp: ice_inv_def phase_ok_def)

lemma update_failure_fields [simp]:
  "ag_pairs (update_failure s) = ag_pairs s" "ag_pending (update_failure s) = ag_pending s"
  "ag_triggered (update_failure s) = ag_triggered s" "ag_role (update_failure s) = ag_role s"
  "ag_params (update_failure s) = ag_params s" "ag_sockets (update_failure s) = ag_sockets s"
  "ag_selected (update_failure s) = ag_selected s" "ag_local_candidates (update_failure s) = ag_local_candidates s"
  "ag_state s = Completed \<Longrightarrow> update_failure s = s"
  by (cases rule: update_failure_cases [of s]; simp)+

lemma inv_nominate:
  assumes "ice_inv s" and "i < length (ag_pairs s)" and "ip_state (ag_pairs s ! i) = Succeeded"
  shows "ice_inv (nominate clk i s)"
proof (cases "ag_state s = Completed")
  case False
  have st: "struct_ok (ag_role s) (ag_sockets s) (ag_pairs s) (ag_triggered s) (ag_pending s)" using assms(1) by (simp add: ice_inv_def)
  have "struct_ok (ag_role s) (ag_sockets s) ((ag_pairs s)[i := (ag_pairs s ! i) \<lparr> ip_nominated := True \<rparr>]) (ag_triggered s) (ag_pending s)"
    by (rule struct_ok_update [OF st]) (use assms(3) in \<open>simp_all add: same_pair_def\<close>)
  then have "struct_ok (ag_role s) (ag_sockets s) ((ag_pairs s)[i := (ag_pairs s ! i) \<lparr> ip_nominated := True \<rparr>]) [] []"
    by (auto intro: struct_ok_queues)
  moreover have "ag_selected s = None" using assms(1) False by (cases "ag_state s") (auto simp: ice_inv_def phase_ok_def)
  moreover have "ag_failure s = None" using assms(1) False assms(2,3)
    by (cases "ag_state s") (auto simp: ice_inv_def phase_ok_def list_all_length)
  ultimately show ?thesis
    using assms False by (auto simp: ice_inv_def nominate_def phase_ok_def nth_list_update)
qed (simp add: nominate_def assms)

lemma expire_fields [simp]:
  "ag_params (expire s c) = ag_params s" "ag_role (expire s c) = ag_role s"
  "ag_local_candidates (expire s c) = ag_local_candidates s"
  "ag_triggered (expire s c) = ag_triggered s" "ag_pending (expire s c) = ag_pending s"
  "ag_sockets (expire s c) = ag_sockets s" "ag_state (expire s c) = ag_state s"
  "ag_selected (expire s c) = ag_selected s" "ag_failure (expire s c) = ag_failure s"
  "ag_last_check_sent (expire s c) = ag_last_check_sent s"
  "length (ag_pairs (expire s c)) = length (ag_pairs s)"
  by (simp_all add: expire_def Let_def)

lemma expire_pairs:
  "ag_pairs (expire s c) = (if ip_state (ag_pairs s ! pc_pair_idx c) \<noteq> Succeeded
     then (ag_pairs s)[pc_pair_idx c := (ag_pairs s ! pc_pair_idx c) \<lparr> ip_state := Failed \<rparr>] else ag_pairs s)"
  by (simp add: expire_def Let_def)

definition expiring :: "ice_agent \<Rightarrow> pending_check list \<Rightarrow> bool" where
  "expiring s cs \<longleftrightarrow> struct_ok (ag_role s) (ag_sockets s) (ag_pairs s) (ag_triggered s) (ag_pending s) \<and>
     ag_state s = Checking \<and> ag_selected s = None \<and> ag_failure s = None \<and>
     (\<forall>i < length (ag_pairs s). \<not> ip_nominated (ag_pairs s ! i)) \<and>
     (\<forall>i < length (ag_pairs s). ip_state (ag_pairs s ! i) = InProgress \<longrightarrow> (\<exists>c \<in> set (ag_pending s) \<union> set cs. pc_pair_idx c = i))"

lemma expiring_step:
  assumes "expiring s (c # cs)"
  shows "expiring (expire s c) cs"
proof -
  let ?i = "pc_pair_idx c"
  have st: "struct_ok (ag_role s) (ag_sockets s) (ag_pairs s) (ag_triggered s) (ag_pending s)"
    and pr: "\<And>i. i < length (ag_pairs s) \<Longrightarrow> ip_state (ag_pairs s ! i) = InProgress \<Longrightarrow> \<exists>c' \<in> set (ag_pending s) \<union> set (c # cs). pc_pair_idx c' = i"
    using assms by (auto simp: expiring_def)
  have "struct_ok (ag_role s) (ag_sockets s) (ag_pairs (expire s c)) (ag_triggered s) (ag_pending s)"
    unfolding expire_pairs using st by (auto intro!: struct_ok_update simp: same_pair_def)
  moreover have "\<exists>c' \<in> set (ag_pending s) \<union> set cs. pc_pair_idx c' = i"
    if "i < length (ag_pairs s)" "ip_state (ag_pairs (expire s c) ! i) = InProgress" for i
    using that pr [of i] by (cases "i = ?i") (auto simp: expire_pairs split: if_splits)
  moreover have "\<not> ip_nominated (ag_pairs (expire s c) ! i)" if "i < length (ag_pairs s)" for i
    using that assms by (cases "i = ?i") (auto simp: expiring_def expire_pairs)
  ultimately show ?thesis using assms by (auto simp: expiring_def)
qed

lemma expiring_all: "expiring s cs \<Longrightarrow> ice_inv (foldl expire s cs) \<and> ag_state (foldl expire s cs) = Checking"
proof (induction cs arbitrary: s)
  case Nil
  then show ?case by (auto simp: expiring_def ice_inv_def phase_ok_def)
next
  case (Cons c cs)
  from Cons.IH [OF expiring_step [OF Cons.prems]] show ?case by simp
qed

lemma resend_fields [simp]: "pc_pair_idx (resend now c) = pc_pair_idx c" "pc_destination (resend now c) = pc_destination c"
  "pc_socket (resend now c) = pc_socket c" "pc_transaction_id (resend now c) = pc_transaction_id c"
  by (simp_all add: resend_def)

lemma resend_ok: "check_ok socks pairs c \<Longrightarrow> check_ok socks pairs (resend now c)"
  by (auto simp: check_ok_def) (auto simp: resend_def)

lemma inv_retransmit:
  assumes "ice_inv s" and "ag_state s = Checking"
  shows "ice_inv (fst (retransmit now s))" and "ag_state (fst (retransmit now s)) = Checking"
proof -
  let ?s = "s \<lparr> ag_pending := map (resend now) (filter (\<lambda>c. \<not> expired now c) (ag_pending s)) \<rparr>"
  have st: "struct_ok (ag_role s) (ag_sockets s) (ag_pairs s) (ag_triggered s) (ag_pending s)"
    and ph: "phase_ok Checking (ag_selected s) (ag_failure s) (ag_pairs s) (ag_triggered s) (ag_pending s)"
    using assms by (auto simp: ice_inv_def)
  have "struct_ok (ag_role s) (ag_sockets s) (ag_pairs s) (ag_triggered s) (ag_pending ?s)"
    by (rule struct_ok_queues [OF st]) (use struct_okD [OF st] in \<open>auto intro: resend_ok\<close>)
  moreover have "\<exists>c \<in> set (ag_pending ?s) \<union> set (rev (filter (expired now) (ag_pending s))). pc_pair_idx c = i"
    if "i < length (ag_pairs s)" "ip_state (ag_pairs s ! i) = InProgress" for i
  proof -
    from ph that obtain c where c: "c \<in> set (ag_pending s)" "pc_pair_idx c = i" by (auto simp: phase_ok_def)
    show ?thesis
    proof (cases "expired now c")
      case False
      with c have "resend now c \<in> set (ag_pending ?s)" by auto
      with c show ?thesis by (intro bexI [of _ "resend now c"]) auto
    qed (use c in auto)
  qed
  ultimately have "expiring ?s (rev (filter (expired now) (ag_pending s)))"
    using ph assms(2) by (auto simp: expiring_def phase_ok_def)
  from expiring_all [OF this] show "ice_inv (fst (retransmit now s))" "ag_state (fst (retransmit now s)) = Checking"
    by (simp_all add: retransmit_def)
qed

lemma next_triggered_spec:
  "next_triggered pairs trig = (r, rest) \<Longrightarrow>
   set rest \<subseteq> set trig \<and> (\<forall>i nom. r = Some (i, nom) \<longrightarrow> (i, nom) \<in> set trig \<and> ip_state (pairs ! i) \<in> {Waiting, Frozen, Succeeded})"
  by (induction trig) (auto split: if_splits)

lemma max_waiting_mem: "max_waiting best xs = Some x \<Longrightarrow> best = Some x \<or> x \<in> set xs"
  by (induction xs arbitrary: best) (fastforce split: option.splits if_splits)+

lemma next_ordinary_Some: "next_ordinary s = Some i \<Longrightarrow> i < length (ag_pairs s) \<and> ip_state (ag_pairs s ! i) = Waiting"
  by (auto simp: next_ordinary_def in_set_enumerate_eq dest!: max_waiting_mem)

lemma next_check_spec:
  assumes "next_check s = (s1, nxt)"
  shows "\<exists>rest. s1 = s \<lparr> ag_triggered := rest \<rparr> \<and> set rest \<subseteq> set (ag_triggered s) \<and>
    (\<forall>i nom. nxt = Some (i, nom) \<longrightarrow>
       ((i, nom) \<in> set (ag_triggered s) \<or> i < length (ag_pairs s)) \<and> ip_state (ag_pairs s ! i) \<in> {Waiting, Frozen, Succeeded})"
proof -
  obtain r rest where n: "next_triggered (ag_pairs s) (ag_triggered s) = (r, rest)" by fastforce
  have nc: "s1 = s \<lparr> ag_triggered := rest \<rparr>"
    "nxt = (case r of Some t \<Rightarrow> Some t | None \<Rightarrow> map_option (\<lambda>i. (i, False)) (next_ordinary s1))"
    using assms by (auto simp: next_check_def n Let_def)
  have "((i, nom) \<in> set (ag_triggered s) \<or> i < length (ag_pairs s)) \<and> ip_state (ag_pairs s ! i) \<in> {Waiting, Frozen, Succeeded}"
    if "nxt = Some (i, nom)" for i nom
    using that next_triggered_spec [OF n] next_ordinary_Some [of s1 i] unfolding nc(2)
    by (auto simp: nc(1) split: option.splits)
  with nc(1) next_triggered_spec [OF n] show ?thesis by blast
qed

lemma send_check_cases:
  obtains "send_check hmac tid idx nom now s = (s, [])"
  | socket bs where "ag_sockets s (local_addr (ag_pairs s ! idx)) = Some socket"
    "encode_with hmac (check_message s tid (ag_pairs s ! idx) nom) (Some (octets_of (ip_remote_pwd (ag_params s)))) True = Inr bs"
    "fst (send_check hmac tid idx nom now s) =
       (if ip_state (ag_pairs s ! idx) \<noteq> Succeeded then set_pair idx (\<lambda>p. p \<lparr> ip_state := InProgress \<rparr>) s else s)
         \<lparr> ag_pending := ag_pending s @ [\<lparr> pc_pair_idx = idx, pc_transaction_id = tid, pc_bytes = bs,
              pc_destination = remote_addr (ag_pairs s ! idx), pc_socket = socket, pc_last_sent = now,
              pc_retransmits = 0, pc_nominating = nom \<rparr>], ag_last_check_sent := Some now \<rparr>"
    "snd (send_check hmac tid idx nom now s) = [\<lparr> og_bytes = bs, og_destination = remote_addr (ag_pairs s ! idx), og_socket = socket \<rparr>]"
proof (cases "ag_sockets s (local_addr (ag_pairs s ! idx))")
  case None
  then show thesis by (intro that(1)) (simp add: send_check_def Let_def)
next
  case (Some socket)
  show thesis
  proof (cases "encode_with hmac (check_message s tid (ag_pairs s ! idx) nom) (Some (octets_of (ip_remote_pwd (ag_params s)))) True")
    case (Inl e)
    with Some show thesis by (intro that(1)) (simp add: send_check_def Let_def)
  next
    case (Inr bs)
    with Some show thesis by (intro that(2) [of socket bs]) (simp_all add: send_check_def Let_def)
  qed
qed

lemma inv_send_check:
  assumes "ice_inv s" and "ag_state s = Checking" and "idx < length (ag_pairs s)"
  shows "ice_inv (fst (send_check hmac tid idx nom now s)) \<and> ag_state (fst (send_check hmac tid idx nom now s)) = Checking"
proof (cases rule: send_check_cases [of hmac tid idx nom now s])
  case (2 socket bs)
  let ?p = "ag_pairs s ! idx" and ?s = "fst (send_check hmac tid idx nom now s)"
  have st: "struct_ok (ag_role s) (ag_sockets s) (ag_pairs s) (ag_triggered s) (ag_pending s)"
    and ph: "phase_ok Checking (ag_selected s) (ag_failure s) (ag_pairs s) (ag_triggered s) (ag_pending s)"
    using assms by (auto simp: ice_inv_def)
  have pairs: "ag_pairs ?s = (ag_pairs s)[idx := (if ip_state ?p \<noteq> Succeeded then ?p \<lparr> ip_state := InProgress \<rparr> else ?p)]"
    unfolding 2(3) by simp
  obtain c0 where pend: "ag_pending ?s = ag_pending s @ [c0]" "pc_pair_idx c0 = idx" unfolding 2(3) by simp
  have st1: "struct_ok (ag_role s) (ag_sockets s) (ag_pairs ?s) (ag_triggered s) (ag_pending s)"
    unfolding pairs by (rule struct_ok_update [OF st]) (use struct_okD(4) [OF st assms(3)] in \<open>auto simp: same_pair_def pair_ok_def\<close>)
  have ends: "local_addr (ag_pairs ?s ! idx) = local_addr ?p" "remote_addr (ag_pairs ?s ! idx) = remote_addr ?p"
    using assms(3) unfolding pairs by (simp_all add: local_addr_def remote_addr_def)
  have "struct_ok (ag_role s) (ag_sockets s) (ag_pairs ?s) (ag_triggered s) (ag_pending ?s)"
  proof (rule struct_ok_queues [OF st1])
    fix c assume "c \<in> set (ag_pending ?s)"
    then have "c \<in> set (ag_pending s) \<or> c = \<lparr> pc_pair_idx = idx, pc_transaction_id = tid, pc_bytes = bs,
              pc_destination = remote_addr ?p, pc_socket = socket, pc_last_sent = now, pc_retransmits = 0, pc_nominating = nom \<rparr>"
      unfolding 2(3) by (auto split: if_splits)
    then show "check_ok (ag_sockets s) (ag_pairs ?s) c"
      using struct_okD(1) [OF st1] assms(3) ends 2(1) by (auto simp: check_ok_def pairs)
  qed (use struct_okD(3) [OF st1] in blast)
  moreover have "phase_ok Checking (ag_selected s) (ag_failure s) (ag_pairs ?s) (ag_triggered s) (ag_pending ?s)"
  proof -
    have "\<exists>c \<in> set (ag_pending ?s). pc_pair_idx c = i" if "i < length (ag_pairs s)" "ip_state (ag_pairs ?s ! i) = InProgress" for i
      using that ph by (cases "i = idx") (auto simp: phase_ok_def pend pairs)
    moreover have "ip_nominated (ag_pairs ?s ! i) = ip_nominated (ag_pairs s ! i)" if "i < length (ag_pairs s)" for i
      using that unfolding pairs by (cases "i = idx") auto
    ultimately show ?thesis using ph by (auto simp: phase_ok_def pairs)
  qed
  moreover have "ag_role ?s = ag_role s" "ag_sockets ?s = ag_sockets s" "ag_state ?s = Checking" "ag_selected ?s = ag_selected s"
    "ag_failure ?s = ag_failure s" "ag_triggered ?s = ag_triggered s"
    unfolding 2(3) using assms(2) by simp_all
  ultimately show ?thesis unfolding ice_inv_def by (simp only: simp_thms)
qed (use assms in simp)

lemma inv_start_check:
  assumes "ice_inv s" and "ag_state s = Checking"
  shows "ice_inv (fst (start_check hmac tid now s)) \<and> ag_state (fst (start_check hmac tid now s)) = Checking"
proof (cases "paced now s")
  case True
  obtain s1 nxt where n: "next_check s = (s1, nxt)" by fastforce
  from next_check_spec [OF this] obtain rest where s1: "s1 = s \<lparr> ag_triggered := rest \<rparr>" and sub: "set rest \<subseteq> set (ag_triggered s)"
    and nx: "\<forall>i nom. nxt = Some (i, nom) \<longrightarrow>
       ((i, nom) \<in> set (ag_triggered s) \<or> i < length (ag_pairs s)) \<and> ip_state (ag_pairs s ! i) \<in> {Waiting, Frozen, Succeeded}" by blast
  have st: "struct_ok (ag_role s) (ag_sockets s) (ag_pairs s) (ag_triggered s) (ag_pending s)"
    using assms by (auto simp: ice_inv_def)
  have "struct_ok (ag_role s) (ag_sockets s) (ag_pairs s) rest (ag_pending s)"
  proof (rule struct_ok_queues [OF st])
    show "fst t < length (ag_pairs s)" if "t \<in> set rest" for t using struct_okD(3) [OF st] sub that by (meson subsetD)
    show "check_ok (ag_sockets s) (ag_pairs s) c" if "c \<in> set (ag_pending s)" for c using struct_okD(1) [OF st that] .
  qed
  with assms have i1: "ice_inv s1" unfolding s1 by (simp add: ice_inv_def phase_ok_def)
  have "i < length (ag_pairs s1)" if "nxt = Some (i, nom)" for i nom
    using nx [rule_format, OF that] struct_okD(3) [OF st, of "(i, nom)"] by (auto simp: s1)
  moreover have "ag_state s1 = Checking" using assms(2) by (simp add: s1)
  ultimately have "ice_inv (fst (send_check hmac tid i nom now s1)) \<and> ag_state (fst (send_check hmac tid i nom now s1)) = Checking"
    if "nxt = Some (i, nom)" for i nom using inv_send_check [OF i1 \<open>ag_state s1 = Checking\<close>] that by metis
  moreover have sc: "start_check hmac tid now s = (case nxt of None \<Rightarrow> (s1, []) | Some (i, nom) \<Rightarrow> send_check hmac tid i nom now s1)"
    using True n by (simp add: start_check_def)
  ultimately show ?thesis using i1 \<open>ag_state s1 = Checking\<close> by (cases nxt) auto
qed (use assms in \<open>simp add: start_check_def\<close>)

lemma keepalive_fields [simp]:
  "ag_role (fst (keepalive hmac tid now s)) = ag_role s" "ag_params (fst (keepalive hmac tid now s)) = ag_params s"
  "ag_sockets (fst (keepalive hmac tid now s)) = ag_sockets s" "ag_pairs (fst (keepalive hmac tid now s)) = ag_pairs s"
  "ag_triggered (fst (keepalive hmac tid now s)) = ag_triggered s" "ag_pending (fst (keepalive hmac tid now s)) = ag_pending s"
  "ag_state (fst (keepalive hmac tid now s)) = ag_state s" "ag_selected (fst (keepalive hmac tid now s)) = ag_selected s"
  "ag_failure (fst (keepalive hmac tid now s)) = ag_failure s"
  unfolding keepalive_def by (simp_all split: option.split sum.split)

lemma inv_tick: "ice_inv s \<Longrightarrow> ice_inv (fst (tick_at hmac tid now s))"
proof (cases "ag_state s")
  case Completed
  assume "ice_inv s"
  with Completed show ?thesis by (simp add: tick_at_def ice_inv_def)
next
  case Checking
  assume "ice_inv s"
  note r = inv_retransmit [OF this Checking, of now]
  from inv_start_check [OF r] have "ice_inv (update_failure (fst (start_check hmac tid now (fst (retransmit now s)))))"
    by (blast intro: inv_update_failure)
  then show ?thesis by (simp add: tick_at_def Checking case_prod_unfold Let_def)
qed (simp add: tick_at_def)

text \<open>The invariant reads eight fields; operations on the others keep it.\<close>

lemma ice_inv_cong:
  assumes "ice_inv s" and "ag_role s' = ag_role s" and "ag_sockets s' = ag_sockets s" and "ag_pairs s' = ag_pairs s"
    and "ag_triggered s' = ag_triggered s" and "ag_pending s' = ag_pending s" and "ag_state s' = ag_state s"
    and "ag_selected s' = ag_selected s" and "ag_failure s' = ag_failure s"
  shows "ice_inv s'"
  using assms by (simp add: ice_inv_def)

lemma inv_set_flag:
  assumes "ice_inv s" and "same_pair (f (ag_pairs s ! i)) (ag_pairs s ! i)"
    and "ip_state (f (ag_pairs s ! i)) = ip_state (ag_pairs s ! i)" and "ip_nominated (f (ag_pairs s ! i)) = ip_nominated (ag_pairs s ! i)"
    and "i < length (ag_pairs s)"
  shows "ice_inv (set_pair i f s)"
proof -
  let ?ps = "(ag_pairs s)[i := f (ag_pairs s ! i)]"
  have st: "struct_ok (ag_role s) (ag_sockets s) (ag_pairs s) (ag_triggered s) (ag_pending s)" using assms(1) by (simp add: ice_inv_def)
  have "struct_ok (ag_role s) (ag_sockets s) ?ps (ag_triggered s) (ag_pending s)"
    by (rule struct_ok_update [OF st assms(2)]) (use struct_okD(4) [OF st assms(5)] assms(3) in \<open>simp add: pair_ok_def\<close>)
  moreover have "ip_state (?ps ! j) = ip_state (ag_pairs s ! j) \<and> ip_nominated (?ps ! j) = ip_nominated (ag_pairs s ! j)"
    if "j < length (ag_pairs s)" for j using that assms(3,4) by (cases "i = j") simp_all
  then have "phase_ok (ag_state s) (ag_selected s) (ag_failure s) ?ps (ag_triggered s) (ag_pending s)"
    using assms(1) by (auto simp: ice_inv_def phase_ok_def list_all_length split: ice_state.splits)
  ultimately show ?thesis by (simp add: ice_inv_def)
qed

lemma growing_queue:
  "growing s \<Longrightarrow> i < length (ag_pairs s) \<Longrightarrow> growing (s \<lparr> ag_triggered := ag_triggered s @ [(i, b)] \<rparr>)"
  by (auto simp: growing_def phase_ok_def struct_ok_def split: ice_state.splits)

lemma phase_ok_weaken:
  assumes "phase_ok st sel fl ps trig pend" and "st \<noteq> IceFailed" and "length ps' = length ps"
    and "\<forall>j < length ps. ip_nominated (ps' ! j) = ip_nominated (ps ! j) \<and>
       (ip_state (ps' ! j) = InProgress \<longrightarrow> ip_state (ps ! j) = InProgress) \<and>
       (ip_state (ps ! j) = Succeeded \<longrightarrow> ip_state (ps' ! j) = Succeeded)"
  shows "phase_ok st sel fl ps' trig pend"
proof -
  have nom: "\<forall>j < length ps'. ip_nominated (ps' ! j) = (sel = Some j)"
    using assms(1,3,4) unfolding phase_ok_def by metis
  show ?thesis
  proof (cases st)
    case Checking
    have "\<exists>c \<in> set pend. pc_pair_idx c = j" if "j < length ps'" "ip_state (ps' ! j) = InProgress" for j
    proof -
      have "ip_state (ps ! j) = InProgress" using assms(3,4) that by metis
      with assms(1,3) that Checking show ?thesis by (simp add: phase_ok_def)
    qed
    moreover have "sel = None" "fl = None" using assms(1) Checking by (simp_all add: phase_ok_def)
    ultimately show ?thesis using nom Checking unfolding phase_ok_def by auto
  next
    case Completed
    with assms(1) obtain i where i: "i < length ps" "sel = Some i" "ip_state (ps ! i) = Succeeded" "pend = []" "fl = None"
      unfolding phase_ok_def by auto
    have "ip_state (ps' ! i) = Succeeded" using assms(4) i(1,3) by metis
    with i nom assms(3) Completed show ?thesis unfolding phase_ok_def by auto
  qed (use assms(2) in simp)
qed

lemma growing_retry:
  assumes "growing s" and "i < length (ag_pairs s)" and "ip_state (ag_pairs s ! i) = Failed"
  shows "growing (set_pair i (\<lambda>p. p \<lparr> ip_state := Waiting \<rparr>) s)"
proof -
  let ?ps = "(ag_pairs s)[i := (ag_pairs s ! i) \<lparr> ip_state := Waiting \<rparr>]"
  have st: "struct_ok (ag_role s) (ag_sockets s) (ag_pairs s) (ag_triggered s) (ag_pending s)" using assms(1) by (simp add: growing_def)
  have st': "struct_ok (ag_role s) (ag_sockets s) ?ps (ag_triggered s) (ag_pending s)"
    by (rule struct_ok_update [OF st]) (simp_all add: same_pair_def)
  have keep: "\<forall>j < length (ag_pairs s). ip_nominated (?ps ! j) = ip_nominated (ag_pairs s ! j) \<and>
       (ip_state (?ps ! j) = InProgress \<longrightarrow> ip_state (ag_pairs s ! j) = InProgress) \<and>
       (ip_state (ag_pairs s ! j) = Succeeded \<longrightarrow> ip_state (?ps ! j) = Succeeded)"
    using assms(2,3) by (simp add: nth_list_update)
  have ph: "phase_ok st sel fl ?ps trig pend" if "phase_ok st sel fl (ag_pairs s) trig pend" "st \<noteq> IceFailed" for st sel fl trig pend
    by (rule phase_ok_weaken [OF that _ keep]) simp
  show ?thesis using assms(1) st' ph by (cases "ag_state s") (simp_all add: growing_def)
qed

lemma inv_resume: "ice_inv s \<Longrightarrow> ice_inv (resume_checking s)"
  by (intro inv_of_growing growing_of_inv)

lemma inv_trigger_pair:
  assumes "ice_inv s" and "idx < length (ag_pairs s)"
  shows "ice_inv (trigger_pair clk msg idx s)"
proof -
  define s1 where "s1 = (if sm_use_candidate msg \<and> ag_role s = Controlled
                then set_pair idx (\<lambda>p. p \<lparr> ip_nominate_requested := True \<rparr>) s else s)"
  have i1: "ice_inv s1" unfolding s1_def using inv_set_flag [OF assms(1)] assms by (simp add: same_pair_def)
  have l1: "idx < length (ag_pairs s1)" using assms(2) by (simp add: s1_def)
  note g1 = growing_of_inv [OF i1]
  have "trigger_pair clk msg idx s = resume_checking (case ip_state (ag_pairs s1 ! idx) of
                  Succeeded \<Rightarrow> if ip_nominate_requested (ag_pairs s1 ! idx) then nominate clk idx s1 else s1
                | InProgress \<Rightarrow> s1
                | Failed \<Rightarrow>
                    if \<not> ip_auth_failed (ag_pairs s1 ! idx)
                    then (set_pair idx (\<lambda>p. p \<lparr> ip_state := Waiting \<rparr>) s1) \<lparr> ag_triggered := ag_triggered s1 @ [(idx, False)] \<rparr>
                    else s1
                | _ \<Rightarrow> s1 \<lparr> ag_triggered := ag_triggered s1 @ [(idx, False)] \<rparr>)"
    unfolding trigger_pair_def Let_def s1_def ..
  moreover have "ice_inv (resume_checking (s1 \<lparr> ag_triggered := ag_triggered s1 @ [(idx, False)] \<rparr>))"
    by (rule inv_of_growing [OF growing_queue [OF g1 l1]])
  moreover have "ice_inv (resume_checking ((set_pair idx (\<lambda>p. p \<lparr> ip_state := Waiting \<rparr>) s1) \<lparr> ag_triggered := ag_triggered s1 @ [(idx, False)] \<rparr>))"
    if "ip_state (ag_pairs s1 ! idx) = Failed"
    using inv_of_growing [OF growing_queue [OF growing_retry [OF g1 l1 that], of idx False]] l1 by simp
  ultimately show ?thesis
    using inv_resume [OF i1] inv_resume [OF inv_nominate [OF i1 l1]] by (cases "ip_state (ag_pairs s1 ! idx)") simp_all
qed

lemma inv_learn_remote: "ice_inv s \<Longrightarrow> ice_inv (learn_remote_prflx msg from to s)"
  by (simp add: learn_remote_prflx_def Let_def inv_add_remote)

lemma inv_resolve_roles: "ice_inv s \<Longrightarrow> resolve_roles s msg = Some s1 \<Longrightarrow> ice_inv s1"
  by (auto simp: resolve_roles_def intro: inv_switch_role split: ice_role.splits option.splits if_splits)

lemma handle_request_state:
  "fst (handle_request hmac clk msg raw from to s) = s \<or>
   (\<exists>s1. resolve_roles s msg = Some s1 \<and> verify_fingerprint raw \<and>
      verify_message_integrity hmac raw (octets_of (ip_local_pwd (ag_params s))) \<and>
      fst (handle_request hmac clk msg raw from to s) =
        (let s2 = learn_remote_prflx msg from to s1
         in case find_pair s2 to from of Some idx \<Rightarrow> trigger_pair clk msg idx s2 | None \<Rightarrow> s2))"
  by (auto simp: handle_request_def Let_def split: option.splits bool.splits)

lemma inv_handle_request:
  assumes "ice_inv s"
  shows "ice_inv (fst (handle_request hmac clk msg raw from to s))"
  using handle_request_state [of hmac clk msg raw "from" to s]
proof (elim disjE exE conjE)
  fix s1 assume r: "resolve_roles s msg = Some s1" and h: "fst (handle_request hmac clk msg raw from to s) =
        (let s2 = learn_remote_prflx msg from to s1
         in case find_pair s2 to from of Some idx \<Rightarrow> trigger_pair clk msg idx s2 | None \<Rightarrow> s2)"
  let ?s2 = "learn_remote_prflx msg from to s1"
  have i2: "ice_inv ?s2" by (rule inv_learn_remote [OF inv_resolve_roles [OF assms r]])
  show ?thesis
  proof (cases "find_pair ?s2 to from")
    case (Some idx)
    then have "idx < length (ag_pairs ?s2)" unfolding find_pair_def by (blast dest: position_Some)
    from inv_trigger_pair [OF i2 this] Some show ?thesis by (simp add: h)
  qed (simp add: h i2)
qed (simp add: assms)

lemma take_pendingD:
  assumes "take_pending tid s = Some (check, s1)"
  shows "check \<in> set (ag_pending s)" "pc_transaction_id check = tid"
    "\<exists>rest. s1 = s \<lparr> ag_pending := rest \<rparr> \<and> set rest \<subseteq> set (ag_pending s) \<and> set (ag_pending s) \<subseteq> insert check (set rest)"
proof -
  obtain pos where pos: "position (\<lambda>c. pc_transaction_id c = tid) (ag_pending s) = Some pos"
    using assms by (auto simp: take_pending_def split: option.splits)
  from position_Some [OF this] have lt: "pos < length (ag_pending s)" and t: "pc_transaction_id (ag_pending s ! pos) = tid" by auto
  have eq: "check = ag_pending s ! pos" "s1 = s \<lparr> ag_pending := take pos (ag_pending s) @ drop (Suc pos) (ag_pending s) \<rparr>"
    using assms pos by (auto simp: take_pending_def)
  show "check \<in> set (ag_pending s)" "pc_transaction_id check = tid" using lt t eq by simp_all
  have sp: "ag_pending s = take pos (ag_pending s) @ check # drop (Suc pos) (ag_pending s)"
    unfolding eq(1) by (rule id_take_nth_drop [OF lt])
  have "set (ag_pending s) = insert check (set (take pos (ag_pending s) @ drop (Suc pos) (ag_pending s)))"
    by (subst sp) simp
  with eq(2) show "\<exists>rest. s1 = s \<lparr> ag_pending := rest \<rparr> \<and> set rest \<subseteq> set (ag_pending s) \<and> set (ag_pending s) \<subseteq> insert check (set rest)"
    by (intro exI [of _ "take pos (ag_pending s) @ drop (Suc pos) (ag_pending s)"]) auto
qed

text \<open>Settling a check: its entry leaves the queue and its pair is no longer in progress.\<close>

lemma inv_settle:
  assumes i: "ice_inv s" and t: "take_pending tid s = Some (check, s1)"
    and p: "same_pair p' (ag_pairs s ! pc_pair_idx check)" "ip_state p' \<in> {Waiting, Succeeded, Failed}"
    "ip_nominated p' = ip_nominated (ag_pairs s ! pc_pair_idx check)"
  shows "pc_pair_idx check < length (ag_pairs s)" "ag_state s = Checking"
    "ag_pairs s1 = ag_pairs s" "ag_state s1 = Checking" "ag_role s1 = ag_role s" "ag_params s1 = ag_params s"
    "ag_triggered s1 = ag_triggered s" "ag_local_candidates s1 = ag_local_candidates s"
    "ice_inv (s1 \<lparr> ag_pairs := (ag_pairs s)[pc_pair_idx check := p'] \<rparr>)"
proof -
  let ?i = "pc_pair_idx check" and ?ps = "(ag_pairs s)[pc_pair_idx check := p']"
  note d = take_pendingD [OF t]
  then obtain rest where s1: "s1 = s \<lparr> ag_pending := rest \<rparr>" and sub: "set rest \<subseteq> set (ag_pending s)" "set (ag_pending s) \<subseteq> insert check (set rest)"
    by blast
  have st: "struct_ok (ag_role s) (ag_sockets s) (ag_pairs s) (ag_triggered s) (ag_pending s)"
    and ph: "phase_ok (ag_state s) (ag_selected s) (ag_failure s) (ag_pairs s) (ag_triggered s) (ag_pending s)"
    using i by (simp_all add: ice_inv_def)
  show lt: "?i < length (ag_pairs s)" by (rule struct_okD(2) [OF st d(1)])
  show state: "ag_state s = Checking" using ph d(1) by (cases "ag_state s") (auto simp: phase_ok_def)
  then show "ag_pairs s1 = ag_pairs s" "ag_state s1 = Checking" "ag_role s1 = ag_role s" "ag_params s1 = ag_params s"
    "ag_triggered s1 = ag_triggered s" "ag_local_candidates s1 = ag_local_candidates s" by (simp_all add: s1)
  have "struct_ok (ag_role s) (ag_sockets s) ?ps (ag_triggered s) (ag_pending s)"
    by (rule struct_ok_update [OF st p(1)]) (use p(2) in auto)
  then have st': "struct_ok (ag_role s) (ag_sockets s) ?ps (ag_triggered s) rest"
    by (rule struct_ok_queues) (use sub struct_okD [OF \<open>struct_ok (ag_role s) (ag_sockets s) ?ps (ag_triggered s) (ag_pending s)\<close>] in auto)
  have ph1: "ag_selected s = None" "ag_failure s = None" "\<And>j. j < length (ag_pairs s) \<Longrightarrow> \<not> ip_nominated (ag_pairs s ! j)"
    using ph unfolding state by (simp_all add: phase_ok_def)
  have "\<exists>c \<in> set rest. pc_pair_idx c = j" if j: "j < length (ag_pairs s)" "ip_state (?ps ! j) = InProgress" for j
  proof (cases "j = ?i")
    case False
    with j ph obtain c where "c \<in> set (ag_pending s)" "pc_pair_idx c = j" unfolding state by (auto simp: phase_ok_def)
    with False sub(2) show ?thesis by auto
  qed (use j p(2) lt in auto)
  moreover have "\<not> ip_nominated (?ps ! j)" if "j < length (ag_pairs s)" for j
    using that ph1(3) p(3) lt by (cases "j = ?i") simp_all
  ultimately have "phase_ok Checking None None ?ps (ag_triggered s) rest" by (simp add: phase_ok_def)
  with st' ph1 state show "ice_inv (s1 \<lparr> ag_pairs := ?ps \<rparr>)" by (simp add: ice_inv_def s1)
qed

lemma inv_push_triggered:
  "ice_inv s \<Longrightarrow> ag_state s = Checking \<Longrightarrow> i < length (ag_pairs s) \<Longrightarrow>
   ice_inv (s \<lparr> ag_triggered := (i, b) # ag_triggered s \<rparr>) \<and> ice_inv (s \<lparr> ag_triggered := ag_triggered s @ [(i, b)] \<rparr>)"
  by (simp add: ice_inv_def phase_ok_def struct_ok_def)

lemma learn_local_fields [simp]:
  "ag_pairs (learn_local_prflx m i s) = ag_pairs s" "ag_role (learn_local_prflx m i s) = ag_role s"
  "ag_params (learn_local_prflx m i s) = ag_params s" "ag_triggered (learn_local_prflx m i s) = ag_triggered s"
  "ag_pending (learn_local_prflx m i s) = ag_pending s" "ag_sockets (learn_local_prflx m i s) = ag_sockets s"
  "ag_state (learn_local_prflx m i s) = ag_state s" "ag_selected (learn_local_prflx m i s) = ag_selected s"
  "ag_failure (learn_local_prflx m i s) = ag_failure s"
  "ag_nomination_in_flight (learn_local_prflx m i s) = ag_nomination_in_flight s"
  "ag_remote_candidates (learn_local_prflx m i s) = ag_remote_candidates s"
  by (simp_all add: learn_local_prflx_def Let_def)

text \<open>The agent after a success response to a check, before nomination is considered.\<close>

definition settled :: "stun_message \<Rightarrow> nat \<Rightarrow> ice_agent \<Rightarrow> ice_agent" where
  "settled msg idx s1 =
     (let s2 = (case sm_xor_mapped_address msg of
                  Some mapped \<Rightarrow> learn_local_prflx mapped idx (set_pair idx (\<lambda>p. p \<lparr> ip_mapped_address := Some mapped \<rparr>) s1)
                | None \<Rightarrow> s1)
      in bump_check ''success'' (set_pair idx (\<lambda>p. p \<lparr> ip_state := Succeeded \<rparr>) s2))"

lemma settled_fields:
  "ag_role (settled msg i s) = ag_role s" "ag_params (settled msg i s) = ag_params s" "ag_sockets (settled msg i s) = ag_sockets s"
  "ag_triggered (settled msg i s) = ag_triggered s" "ag_pending (settled msg i s) = ag_pending s"
  "ag_state (settled msg i s) = ag_state s" "ag_selected (settled msg i s) = ag_selected s" "ag_failure (settled msg i s) = ag_failure s"
  "ag_remote_candidates (settled msg i s) = ag_remote_candidates s"
  "ag_nomination_in_flight (settled msg i s) = ag_nomination_in_flight s"
  by (simp_all add: settled_def Let_def split: option.split)

lemma settled_pairs:
  "ag_pairs (settled msg i s) = (ag_pairs s)[i := (ag_pairs s ! i) \<lparr>
     ip_mapped_address := (case sm_xor_mapped_address msg of Some m \<Rightarrow> Some m | None \<Rightarrow> ip_mapped_address (ag_pairs s ! i)),
     ip_state := Succeeded \<rparr>]"
proof (cases "i < length (ag_pairs s)")
  case True
  then show ?thesis by (simp add: settled_def Let_def split: option.split)
qed (simp add: settled_def Let_def list_update_beyond split: option.split)

lemma handle_success_cases:
  obtains "handle_success hmac clk msg raw from to s = s"
  | check s1 where "take_pending (sm_transaction_id msg) s = Some (check, s1)" "verify_fingerprint raw"
    "verify_message_integrity hmac raw (octets_of (ip_remote_pwd (ag_params s)))"
    "from \<noteq> remote_addr (ag_pairs s1 ! pc_pair_idx check) \<or> to \<noteq> local_addr (ag_pairs s1 ! pc_pair_idx check)"
    "handle_success hmac clk msg raw from to s = update_failure (clear_nomination check
       (bump_check ''mismatch'' (set_pair (pc_pair_idx check) (\<lambda>p. p \<lparr> ip_state := Failed \<rparr>) s1)))"
  | check s1 where "take_pending (sm_transaction_id msg) s = Some (check, s1)" "verify_fingerprint raw"
    "verify_message_integrity hmac raw (octets_of (ip_remote_pwd (ag_params s)))"
    "from = remote_addr (ag_pairs s1 ! pc_pair_idx check)" "to = local_addr (ag_pairs s1 ! pc_pair_idx check)"
    "handle_success hmac clk msg raw from to s =
       (let s3 = settled msg (pc_pair_idx check) s1
        in if pc_nominating check \<or> ip_nominate_requested (ag_pairs s3 ! pc_pair_idx check) then nominate clk (pc_pair_idx check) s3
           else if ag_role s3 = Controlling \<and> \<not> ag_nomination_in_flight s3 \<and> ag_selected s3 = None
           then s3 \<lparr> ag_nomination_in_flight := True, ag_triggered := (pc_pair_idx check, True) # ag_triggered s3 \<rparr>
           else s3)"
proof (cases "take_pending (sm_transaction_id msg) s")
  case None
  then show thesis by (intro that(1)) (simp add: handle_success_def)
next
  case (Some r)
  obtain check s1 where r: "r = (check, s1)" by fastforce
  let ?auth = "verify_fingerprint raw \<and> verify_message_integrity hmac raw (octets_of (ip_remote_pwd (ag_params s)))"
  let ?here = "from = remote_addr (ag_pairs s1 ! pc_pair_idx check) \<and> to = local_addr (ag_pairs s1 ! pc_pair_idx check)"
  show thesis
  proof (cases ?auth)
    case False
    then show thesis using Some r by (intro that(1)) (auto simp: handle_success_def)
  next
    case auth: True
    show thesis
    proof (cases ?here)
      case True
      show thesis
        by (rule that(3) [of check s1]) (use Some r auth True in \<open>simp_all add: handle_success_def settled_def Let_def\<close>)
    next
      case False
      show thesis
        by (rule that(2) [of check s1]) (use Some r auth False in \<open>simp_all add: handle_success_def Let_def\<close>)
    qed
  qed
qed

lemma inv_handle_success:
  assumes "ice_inv s"
  shows "ice_inv (handle_success hmac clk msg raw from to s)"
proof (cases rule: handle_success_cases [of hmac clk msg raw "from" to s])
  case (2 check s1)
  let ?p = "(ag_pairs s ! pc_pair_idx check) \<lparr> ip_state := Failed \<rparr>"
  have sp: "same_pair ?p (ag_pairs s ! pc_pair_idx check)" by (simp add: same_pair_def)
  note se = inv_settle [OF assms 2(1) sp]
  have "ice_inv (s1 \<lparr> ag_pairs := (ag_pairs s)[pc_pair_idx check := ?p] \<rparr>)" by (rule se(9)) simp_all
  then have "ice_inv (clear_nomination check (bump_check ''mismatch'' (set_pair (pc_pair_idx check) (\<lambda>p. p \<lparr> ip_state := Failed \<rparr>) s1)))"
    by (rule ice_inv_cong) (use se(3) in simp_all)
  then show ?thesis unfolding 2(5) by (rule inv_update_failure)
next
  case (3 check s1)
  let ?i = "pc_pair_idx check" and ?s3 = "settled msg (pc_pair_idx check) s1"
  let ?p = "(ag_pairs s ! ?i) \<lparr> ip_mapped_address := (case sm_xor_mapped_address msg of Some m \<Rightarrow> Some m | None \<Rightarrow> ip_mapped_address (ag_pairs s ! ?i)),
     ip_state := Succeeded \<rparr>"
  have sp: "same_pair ?p (ag_pairs s ! ?i)" by (simp add: same_pair_def)
  note se = inv_settle [OF assms 3(1) sp]
  have lt: "?i < length (ag_pairs s)" and st: "ag_state s1 = Checking" and pairs: "ag_pairs s1 = ag_pairs s"
    by (rule se; simp)+
  have "ice_inv (s1 \<lparr> ag_pairs := (ag_pairs s)[?i := ?p] \<rparr>)" by (rule se(9)) simp_all
  moreover have "ag_pairs ?s3 = (ag_pairs s)[?i := ?p]" unfolding settled_pairs pairs ..
  ultimately have i3: "ice_inv ?s3"
    by (elim ice_inv_cong) (simp_all add: settled_fields)
  have "ag_state ?s3 = Checking" "?i < length (ag_pairs ?s3)" "ip_state (ag_pairs ?s3 ! ?i) = Succeeded"
    using lt by (simp_all add: settled_fields settled_pairs pairs st)
  note n = inv_nominate [OF i3 this(2,3)] inv_push_triggered [OF i3 this(1,2), of True, THEN conjunct1]
  have "ice_inv (?s3 \<lparr> ag_nomination_in_flight := True, ag_triggered := (?i, True) # ag_triggered ?s3 \<rparr>)"
    by (rule ice_inv_cong [OF n(2)]) simp_all
  with n(1) i3 show ?thesis unfolding 3(6) Let_def by simp
qed (simp add: assms)

lemma waiting_priority: "p \<lparr> ip_priority := a, ip_state := Waiting \<rparr> = p \<lparr> ip_state := Waiting, ip_priority := a \<rparr>"
  by simp

lemma inv_handle_error:
  assumes "ice_inv s"
  shows "ice_inv (handle_error hmac msg raw s)"
proof (cases "take_pending (sm_transaction_id msg) s")
  case None
  then show ?thesis using assms by (simp add: handle_error_def)
next
  case (Some r)
  obtain check s1 where t: "take_pending (sm_transaction_id msg) s = Some (check, s1)" using Some by (cases r) simp
  let ?i = "pc_pair_idx check" and ?err = "case sm_error_code msg of Some e \<Rightarrow> ec_code e | None \<Rightarrow> 0"
  show ?thesis
  proof (cases "?err = ERR_ROLE_CONFLICT")
    case True
    let ?p = "(ag_pairs s ! ?i) \<lparr> ip_state := Waiting \<rparr>"
    have sp: "same_pair ?p (ag_pairs s ! ?i)" by (simp add: same_pair_def)
    note se = inv_settle [OF assms t sp]
    have lt: "?i < length (ag_pairs s)" and st: "ag_state s1 = Checking" and pairs: "ag_pairs s1 = ag_pairs s"
      by (rule se; simp)+
    define r where "r = flip (ag_role s1)"
    have "ice_inv (s1 \<lparr> ag_pairs := (ag_pairs s)[?i := ?p] \<rparr>)" by (rule se(9)) simp_all
    from inv_switch_role [OF this, of r]
    have "ice_inv (set_pair ?i (\<lambda>p. p \<lparr> ip_state := Waiting \<rparr>) (switch_role r s1))"
      by (rule ice_inv_cong) (simp_all add: switch_role_def pairs map_update lt waiting_priority)
    from inv_push_triggered [OF this, of ?i False] lt st pairs
    have "ice_inv ((set_pair ?i (\<lambda>p. p \<lparr> ip_state := Waiting \<rparr>) (switch_role r s1))
       \<lparr> ag_triggered := ag_triggered (set_pair ?i (\<lambda>p. p \<lparr> ip_state := Waiting \<rparr>) (switch_role r s1)) @ [(?i, False)] \<rparr>)" by simp
    then have "ice_inv ((set_pair ?i (\<lambda>p. p \<lparr> ip_state := Waiting \<rparr>) (switch_role r s1))
       \<lparr> ag_nomination_in_flight := False, ag_triggered := ag_triggered (set_pair ?i (\<lambda>p. p \<lparr> ip_state := Waiting \<rparr>) (switch_role r s1)) @ [(?i, False)],
         ag_last_check_sent := None \<rparr>)"
      by (rule ice_inv_cong) simp_all
    with t True assms show ?thesis unfolding r_def by (simp add: handle_error_def Let_def)
  next
    case False
    let ?p = "(ag_pairs s ! ?i) \<lparr> ip_state := Failed, ip_auth_failed := (?err = ERR_UNAUTHENTICATED) \<rparr>"
    have sp: "same_pair ?p (ag_pairs s ! ?i)" by (simp add: same_pair_def)
    note se = inv_settle [OF assms t sp]
    have pairs: "ag_pairs s1 = ag_pairs s" by (rule se; simp)
    have "ice_inv (s1 \<lparr> ag_pairs := (ag_pairs s)[?i := ?p] \<rparr>)" by (rule se(9)) simp_all
    then have "ice_inv (bump_check ''error'' (clear_nomination check
        (set_pair ?i (\<lambda>p. p \<lparr> ip_state := Failed, ip_auth_failed := (?err = ERR_UNAUTHENTICATED) \<rparr>) s1)))"
      by (rule ice_inv_cong) (simp_all add: pairs)
    from inv_update_failure [OF this] t False show ?thesis by (simp add: handle_error_def Let_def)
  qed
qed

lemma inv_handle_datagram: "ice_inv s \<Longrightarrow> ice_inv (fst (handle_datagram_at hmac clk bs from to s))"
  unfolding handle_datagram_at_def
  by (simp add: inv_handle_request inv_handle_success inv_handle_error split: sum.split stun_class.split)

lemma inv_ice_step: "ice_inv s \<Longrightarrow> ice_inv (fst (ice_step hmac s e))"
proof (cases e)
  case (Tick tid now)
  assume "ice_inv s"
  with Tick inv_tick [of s hmac tid now] show ?thesis by (simp add: ice_step_def case_prod_unfold Let_def)
next
  case (Recv bs src to clk)
  assume "ice_inv s"
  with Recv inv_handle_datagram [of s hmac clk bs src to] show ?thesis by (simp add: ice_step_def case_prod_unfold Let_def)
next
  case (Trickle c)
  assume "ice_inv s"
  with Trickle show ?thesis by (simp add: ice_step_def inv_add_remote)
next
  case (WithMetrics m)
  assume "ice_inv s"
  then have "ice_inv (s \<lparr> ag_metrics := Some m \<rparr>)" by (rule ice_inv_cong) simp_all
  with WithMetrics show ?thesis by (simp add: ice_step_def)
next
  case (WithKeepalive d)
  assume "ice_inv s"
  then have "ice_inv (s \<lparr> ag_keepalive_interval := d \<rparr>)" by (rule ice_inv_cong) simp_all
  with WithKeepalive show ?thesis by (simp add: ice_step_def)
qed

interpretation ice: preserving_machine "ice_step hmac" ice_inv for hmac
  by unfold_locales (rule inv_ice_step)

end
