(* ===== verification/Ice_Properties.thy ===== *)
theory Ice_Properties
  imports Ice_Invariant
begin

text \<open>
  What the ICE agent guarantees over whole runs: a selected pair was proved reachable by an
  authenticated response on its own path, the selection never moves, unauthenticated datagrams
  change nothing but an outstanding check, silence settles the agent in a bounded number of ticks,
  both peers order pairs alike, and what role conflicts and lost nominations really do.
\<close>

section \<open>How an agent evolves\<close>

text \<open>Across any operation the credentials and sockets stay, pairs keep their place and their ends,
  and a completed agent keeps its selection.\<close>

definition evolves :: "ice_agent \<Rightarrow> ice_agent \<Rightarrow> bool" where
  "evolves s s' \<longleftrightarrow> ag_params s' = ag_params s \<and> ag_sockets s' = ag_sockets s \<and>
     (\<exists>es. map ends (ag_pairs s') = map ends (ag_pairs s) @ es) \<and>
     (ag_state s = Completed \<longrightarrow> ag_state s' = Completed \<and> ag_selected s' = ag_selected s)"

text \<open>A quiet operation proves no new pair.\<close>

definition quiet :: "ice_agent \<Rightarrow> ice_agent \<Rightarrow> bool" where
  "quiet s s' \<longleftrightarrow> evolves s s' \<and>
     (\<forall>j < length (ag_pairs s'). ip_state (ag_pairs s' ! j) = Succeeded \<longrightarrow>
        j < length (ag_pairs s) \<and> ip_state (ag_pairs s ! j) = Succeeded)"

lemma evolves_refl [simp]: "evolves s s"
  by (simp add: evolves_def)

lemma evolves_trans: "evolves s t \<Longrightarrow> evolves t u \<Longrightarrow> evolves s u"
  unfolding evolves_def by (metis append.assoc)

lemma evolves_nth:
  assumes "evolves s s'" and "j < length (ag_pairs s)"
  shows "j < length (ag_pairs s') \<and> ends (ag_pairs s' ! j) = ends (ag_pairs s ! j)"
proof -
  obtain es where es: "map ends (ag_pairs s') = map ends (ag_pairs s) @ es" using assms(1) by (auto simp: evolves_def)
  then have "length (ag_pairs s') = length (ag_pairs s) + length es" by (metis length_append length_map)
  moreover have "map ends (ag_pairs s') ! j = map ends (ag_pairs s) ! j" using es assms(2) by (simp add: nth_append)
  ultimately show ?thesis using assms(2) by simp
qed

lemma quiet_refl [simp]: "quiet s s"
  by (simp add: quiet_def)

lemma quiet_trans: "quiet s t \<Longrightarrow> quiet t u \<Longrightarrow> quiet s u"
  unfolding quiet_def by (meson evolves_trans)

lemma quiet_same_pairs:
  "ag_params s' = ag_params s \<Longrightarrow> ag_sockets s' = ag_sockets s \<Longrightarrow> ag_pairs s' = ag_pairs s \<Longrightarrow>
   (ag_state s = Completed \<Longrightarrow> ag_state s' = Completed \<and> ag_selected s' = ag_selected s) \<Longrightarrow> quiet s s'"
  by (simp add: quiet_def evolves_def)

lemma map_ends_update: "same_pair p (xs ! i) \<Longrightarrow> map ends (xs[i := p]) = map ends xs"
proof (rule nth_equalityI)
  fix j assume "same_pair p (xs ! i)" "j < length (map ends (xs[i := p]))"
  then show "map ends (xs[i := p]) ! j = map ends xs ! j"
    by (cases "i = j") (simp_all add: ends_def same_pair_def local_addr_def remote_addr_def)
qed simp

lemma quiet_update:
  assumes "ag_params s' = ag_params s" and "ag_sockets s' = ag_sockets s" and "ag_pairs s' = (ag_pairs s)[i := p]"
    and "same_pair p (ag_pairs s ! i)" and "ip_state p = Succeeded \<Longrightarrow> ip_state (ag_pairs s ! i) = Succeeded"
    and "ag_state s = Completed \<Longrightarrow> ag_state s' = Completed \<and> ag_selected s' = ag_selected s"
  shows "quiet s s'"
proof -
  have "map ends (ag_pairs s') = map ends (ag_pairs s)"
    unfolding assms(3) by (rule map_ends_update [OF assms(4)])
  moreover have "ip_state (ag_pairs s' ! j) = Succeeded \<longrightarrow> ip_state (ag_pairs s ! j) = Succeeded" if "j < length (ag_pairs s)" for j
    using that assms(5) unfolding assms(3) by (cases "i = j") auto
  moreover have "length (ag_pairs s') = length (ag_pairs s)" by (simp add: assms(3))
  ultimately show ?thesis using assms(1,2,6) by (simp add: quiet_def evolves_def)
qed

lemma quiet_switch_role: "quiet s (switch_role r s)"
proof -
  have "map ends (ag_pairs (switch_role r s)) = map ends (ag_pairs s)"
    by (simp add: switch_role_def ends_def local_addr_def remote_addr_def comp_def)
  then show ?thesis by (simp add: quiet_def evolves_def)
qed

lemma quiet_form_pair: "quiet s (fst (form_pair s loc rem))"
proof (cases rule: form_pair_cases [of s loc rem])
  case 2
  then show ?thesis by (auto simp: quiet_def evolves_def nth_append fresh_pair_def less_Suc_eq)
qed simp

lemma quiet_resume: "quiet s (resume_checking s)"
  by (rule quiet_same_pairs) (simp_all add: resume_checking_def)

lemma quiet_add_remote: "quiet s (add_remote_candidate s rem)"
proof -
  have fp: "quiet t (foldl (\<lambda>s loc. fst (form_pair s loc rem)) t locs)" for t locs
  proof (induction locs arbitrary: t)
    case (Cons l ls)
    show ?case using quiet_trans [OF quiet_form_pair Cons] by simp
  qed simp
  let ?s = "s \<lparr> ag_remote_candidates := ag_remote_candidates s @ [rem] \<rparr>"
  have "quiet s ?s" by (rule quiet_same_pairs) simp_all
  with fp [of ?s "ag_local_candidates s"] have "quiet s (foldl (\<lambda>s loc. fst (form_pair s loc rem)) ?s (ag_local_candidates s))"
    by (blast intro: quiet_trans)
  with quiet_resume have "quiet s (resume_checking (foldl (\<lambda>s loc. fst (form_pair s loc rem)) ?s (ag_local_candidates s)))"
    by (blast intro: quiet_trans)
  then show ?thesis by (simp add: add_remote_candidate_def Let_def)
qed

lemma quiet_update_failure: "quiet s (update_failure s)"
  by (cases rule: update_failure_cases [of s]) (simp_all add: quiet_def evolves_def)

lemma quiet_nominate: "ip_state (ag_pairs s ! i) = Succeeded \<Longrightarrow> quiet s (nominate clk i s)"
proof (cases "ag_state s = Completed")
  case False
  assume "ip_state (ag_pairs s ! i) = Succeeded"
  with False show ?thesis
    by (intro quiet_update [where i = i and p = "(ag_pairs s ! i) \<lparr> ip_nominated := True \<rparr>"]) (simp_all add: nominate_def same_pair_def)
qed (simp add: nominate_def)

lemma quiet_set_pair:
  "same_pair (f (ag_pairs s ! i)) (ag_pairs s ! i) \<Longrightarrow>
   (ip_state (f (ag_pairs s ! i)) = Succeeded \<Longrightarrow> ip_state (ag_pairs s ! i) = Succeeded) \<Longrightarrow> quiet s (set_pair i f s)"
  by (rule quiet_update [where i = i and p = "f (ag_pairs s ! i)"]) simp_all

lemma quiet_retransmit: "quiet s (fst (retransmit now s))"
proof -
  have "quiet t (foldl expire t cs)" for t cs
  proof (induction cs arbitrary: t)
    case (Cons c cs)
    have "quiet t (expire t c)"
    proof (cases "ip_state (ag_pairs t ! pc_pair_idx c) = Succeeded")
      case True
      then show ?thesis by (intro quiet_same_pairs) (simp_all add: expire_pairs)
    next
      case False
      then show ?thesis
        by (intro quiet_update [where i = "pc_pair_idx c" and p = "(ag_pairs t ! pc_pair_idx c) \<lparr> ip_state := Failed \<rparr>"])
          (simp_all add: expire_pairs same_pair_def)
    qed
    with Cons show ?case by (auto intro: quiet_trans)
  qed simp
  moreover have "quiet s (s \<lparr> ag_pending := x \<rparr>)" for x by (rule quiet_same_pairs) simp_all
  ultimately show ?thesis unfolding retransmit_def by (auto intro: quiet_trans)
qed

lemma quiet_send_check: "quiet s (fst (send_check hmac tid i nom now s))"
proof (cases rule: send_check_cases [of hmac tid i nom now s])
  case (2 socket bs)
  show ?thesis
  proof (cases "ip_state (ag_pairs s ! i) = Succeeded")
    case True
    with 2(3) show ?thesis by (intro quiet_same_pairs) simp_all
  next
    case False
    with 2(3) show ?thesis
      by (intro quiet_update [where i = i and p = "(ag_pairs s ! i) \<lparr> ip_state := InProgress \<rparr>"]) (simp_all add: same_pair_def)
  qed
qed simp

lemma quiet_start_check: "quiet s (fst (start_check hmac tid now s))"
proof (cases "paced now s")
  case True
  obtain s1 nxt where n: "next_check s = (s1, nxt)" by fastforce
  obtain rest where s1: "s1 = s \<lparr> ag_triggered := rest \<rparr>" using next_check_spec [OF n] by blast
  have "quiet s s1" unfolding s1 by (rule quiet_same_pairs) simp_all
  moreover have "start_check hmac tid now s = (case nxt of None \<Rightarrow> (s1, []) | Some (i, nom) \<Rightarrow> send_check hmac tid i nom now s1)"
    using True n by (simp add: start_check_def)
  ultimately show ?thesis using quiet_trans [OF _ quiet_send_check] by (cases nxt) auto
qed (simp add: start_check_def)

lemma quiet_tick: "quiet s (fst (tick_at hmac tid now s))"
proof (cases "ag_state s")
  case Completed
  then show ?thesis by (intro quiet_same_pairs) (simp_all add: tick_at_def)
next
  case Checking
  have "quiet s (fst (start_check hmac tid now (fst (retransmit now s))))"
    by (rule quiet_trans [OF quiet_retransmit quiet_start_check])
  from quiet_trans [OF this quiet_update_failure] show ?thesis
    by (simp add: tick_at_def Checking case_prod_unfold Let_def)
qed (simp add: tick_at_def)

lemma quiet_trigger_pair: "quiet s (trigger_pair clk msg idx s)"
proof -
  define s1 where "s1 = (if sm_use_candidate msg \<and> ag_role s = Controlled
                then set_pair idx (\<lambda>p. p \<lparr> ip_nominate_requested := True \<rparr>) s else s)"
  have q1: "quiet s s1" unfolding s1_def by (auto intro!: quiet_set_pair simp: same_pair_def)
  have t: "trigger_pair clk msg idx s = resume_checking (case ip_state (ag_pairs s1 ! idx) of
                  Succeeded \<Rightarrow> if ip_nominate_requested (ag_pairs s1 ! idx) then nominate clk idx s1 else s1
                | InProgress \<Rightarrow> s1
                | Failed \<Rightarrow>
                    if \<not> ip_auth_failed (ag_pairs s1 ! idx)
                    then (set_pair idx (\<lambda>p. p \<lparr> ip_state := Waiting \<rparr>) s1) \<lparr> ag_triggered := ag_triggered s1 @ [(idx, False)] \<rparr>
                    else s1
                | _ \<Rightarrow> s1 \<lparr> ag_triggered := ag_triggered s1 @ [(idx, False)] \<rparr>)"
    unfolding trigger_pair_def Let_def s1_def ..
  have trig: "quiet u (u \<lparr> ag_triggered := x \<rparr>)" for u x by (rule quiet_same_pairs) simp_all
  have retry: "quiet s1 ((set_pair idx (\<lambda>p. p \<lparr> ip_state := Waiting \<rparr>) s1) \<lparr> ag_triggered := x \<rparr>)" for x
    by (rule quiet_trans [OF quiet_set_pair trig]) (simp_all add: same_pair_def)
  show ?thesis unfolding t
    by (rule quiet_trans [OF q1 quiet_trans [OF _ quiet_resume]])
      (cases "ip_state (ag_pairs s1 ! idx)"; simp add: trig retry quiet_nominate)
qed

lemma quiet_resolve: "resolve_roles s msg = Some s1 \<Longrightarrow> quiet s s1"
  by (auto simp: resolve_roles_def quiet_switch_role split: ice_role.splits option.splits if_splits)

lemma quiet_handle_request: "quiet s (fst (handle_request hmac clk msg raw from to s))"
  using handle_request_state [of hmac clk msg raw "from" to s]
proof (elim disjE exE conjE)
  fix s1 assume r: "resolve_roles s msg = Some s1" and h: "fst (handle_request hmac clk msg raw from to s) =
        (let s2 = learn_remote_prflx msg from to s1
         in case find_pair s2 to from of Some idx \<Rightarrow> trigger_pair clk msg idx s2 | None \<Rightarrow> s2)"
  have "quiet s1 (learn_remote_prflx msg from to s1)" by (simp add: learn_remote_prflx_def Let_def quiet_add_remote)
  from quiet_trans [OF quiet_resolve [OF r] this] quiet_trigger_pair show ?thesis
    unfolding h Let_def by (auto intro: quiet_trans split: option.split)
qed simp

lemma quiet_handle_error: "quiet s (handle_error hmac msg raw s)"
proof (cases "take_pending (sm_transaction_id msg) s")
  case None
  then show ?thesis by (simp add: handle_error_def)
next
  case (Some r)
  obtain check s1 where t: "take_pending (sm_transaction_id msg) s = Some (check, s1)" using Some by (cases r) simp
  obtain rest where s1: "s1 = s \<lparr> ag_pending := rest \<rparr>" using take_pendingD(3) [OF t] by blast
  have q1: "quiet s s1" unfolding s1 by (rule quiet_same_pairs) simp_all
  let ?i = "pc_pair_idx check" and ?err = "case sm_error_code msg of Some e \<Rightarrow> ec_code e | None \<Rightarrow> 0"
  let ?w = "set_pair ?i (\<lambda>p. p \<lparr> ip_state := Waiting \<rparr>) (switch_role (flip (ag_role s1)) s1)"
  let ?f = "set_pair ?i (\<lambda>p. p \<lparr> ip_state := Failed, ip_auth_failed := (?err = ERR_UNAUTHENTICATED) \<rparr>) s1"
  have "quiet s ?w" by (rule quiet_trans [OF quiet_trans [OF q1 quiet_switch_role] quiet_set_pair]) (simp_all add: same_pair_def)
  moreover have "quiet ?w (?w \<lparr> ag_nomination_in_flight := False, ag_triggered := ag_triggered ?w @ [(?i, False)], ag_last_check_sent := None \<rparr>)"
    by (rule quiet_same_pairs) simp_all
  ultimately have w: "quiet s (?w \<lparr> ag_nomination_in_flight := False, ag_triggered := ag_triggered ?w @ [(?i, False)], ag_last_check_sent := None \<rparr>)"
    by (rule quiet_trans)
  have "quiet s ?f" by (rule quiet_trans [OF q1 quiet_set_pair]) (simp_all add: same_pair_def)
  moreover have "quiet ?f (bump_check ''error'' (clear_nomination check ?f))" by (rule quiet_same_pairs) simp_all
  ultimately have f: "quiet s (update_failure (bump_check ''error'' (clear_nomination check ?f)))"
    by (blast intro: quiet_trans quiet_update_failure)
  show ?thesis using t w f by (simp add: handle_error_def Let_def)
qed

text \<open>The one operation that proves a pair.\<close>

definition proves :: "hmac_fun \<Rightarrow> ice_params \<Rightarrow> ice_event \<Rightarrow> socket_addr \<times> socket_addr \<Rightarrow> bool" where
  "proves hmac params e p \<longleftrightarrow>
     (case e of
        Recv bs src dst _ \<Rightarrow> src = snd p \<and> dst = fst p \<and> verify_fingerprint bs \<and>
          verify_message_integrity hmac bs (octets_of (ip_remote_pwd params)) \<and>
          (case decode bs of Inr m \<Rightarrow> sm_class m = SuccessResponse | Inl _ \<Rightarrow> False)
      | _ \<Rightarrow> False)"

lemma nominate_state:
  "j < length (ag_pairs s) \<Longrightarrow> ip_state (ag_pairs (nominate clk i s) ! j) = ip_state (ag_pairs s ! j)"
  by (cases "i = j") (simp_all add: nominate_def)

lemma handle_success_evolves:
  assumes "ice_inv s" and "j < length (ag_pairs (handle_success hmac clk msg raw from to s))"
    and "ip_state (ag_pairs (handle_success hmac clk msg raw from to s) ! j) = Succeeded"
  shows "(j < length (ag_pairs s) \<and> ip_state (ag_pairs s ! j) = Succeeded) \<or>
    (j < length (ag_pairs s) \<and> ends (ag_pairs s ! j) = (to, from) \<and> verify_fingerprint raw \<and>
     verify_message_integrity hmac raw (octets_of (ip_remote_pwd (ag_params s))))"
  using assms(2,3)
proof (cases rule: handle_success_cases [of hmac clk msg raw "from" to s])
  case (2 check s1)
  obtain rest where s1: "s1 = s \<lparr> ag_pending := rest \<rparr>" using take_pendingD(3) [OF 2(1)] by blast
  with assms(2,3) show ?thesis unfolding 2(5) by (cases "j = pc_pair_idx check") auto
next
  case (3 check s1)
  obtain rest where s1: "s1 = s \<lparr> ag_pending := rest \<rparr>" using take_pendingD(3) [OF 3(1)] by blast
  let ?s3 = "settled msg (pc_pair_idx check) s1" and ?h = "handle_success hmac clk msg raw from to s"
  have len: "length (ag_pairs ?h) = length (ag_pairs s)"
    unfolding 3(6) Let_def by (simp add: nominate_def settled_pairs s1)
  have st: "ip_state (ag_pairs ?h ! j) = ip_state (ag_pairs ?s3 ! j)" if "j < length (ag_pairs s)"
    using that nominate_state [of j ?s3] unfolding 3(6) Let_def by (simp add: settled_pairs s1)
  show ?thesis
  proof (cases "j = pc_pair_idx check")
    case True
    with 3(2-5) assms(2) len show ?thesis by (simp add: ends_def s1)
  next
    case False
    with assms(2,3) len st show ?thesis by (simp add: settled_pairs s1)
  qed
qed simp

lemma nominate_ends: "map ends (ag_pairs (nominate clk i s)) = map ends (ag_pairs s)"
  by (simp add: nominate_def map_ends_update same_pair_def)

lemma evolves_handle_success:
  assumes "ice_inv s"
  shows "evolves s (handle_success hmac clk msg raw from to s)"
proof (cases rule: handle_success_cases [of hmac clk msg raw "from" to s])
  case (2 check s1)
  obtain rest where s1: "s1 = s \<lparr> ag_pending := rest \<rparr>" using take_pendingD(3) [OF 2(1)] by blast
  let ?f = "set_pair (pc_pair_idx check) (\<lambda>p. p \<lparr> ip_state := Failed \<rparr>) s1"
  have "quiet s s1" unfolding s1 by (rule quiet_same_pairs) simp_all
  moreover have "quiet s1 ?f" by (rule quiet_set_pair) (simp_all add: same_pair_def)
  moreover have "quiet ?f (clear_nomination check (bump_check ''mismatch'' ?f))" by (rule quiet_same_pairs) simp_all
  ultimately show ?thesis unfolding 2(5) by (meson quiet_def quiet_trans quiet_update_failure)
next
  case (3 check s1)
  obtain rest where s1: "s1 = s \<lparr> ag_pending := rest \<rparr>" using take_pendingD(3) [OF 3(1)] by blast
  let ?i = "pc_pair_idx check" and ?s3 = "settled msg (pc_pair_idx check) s1" and ?h = "handle_success hmac clk msg raw from to s"
  have state: "ag_state s = Checking"
    using assms take_pendingD(1) [OF 3(1)] unfolding ice_inv_def
    by (auto simp: phase_ok_def split: ice_state.splits)
  have "map ends (ag_pairs ?s3) = map ends (ag_pairs s)"
    unfolding settled_pairs s1 by (simp add: map_ends_update same_pair_def)
  then have "map ends (ag_pairs ?h) = map ends (ag_pairs s)"
    unfolding 3(6) Let_def by (simp add: nominate_ends)
  moreover have "ag_params ?h = ag_params s" "ag_sockets ?h = ag_sockets s"
    unfolding 3(6) Let_def by (auto simp: nominate_def settled_fields s1)
  ultimately show ?thesis using state by (simp add: evolves_def)
qed simp

lemma ice_step_state:
  "fst (ice_step hmac s (Tick tid now)) = fst (tick_at hmac tid now s)"
  "fst (ice_step hmac s (Recv bs src dst clk)) = fst (handle_datagram_at hmac clk bs src dst s)"
  "fst (ice_step hmac s (Trickle c)) = add_remote_candidate s c"
  "fst (ice_step hmac s (WithMetrics m)) = s \<lparr> ag_metrics := Some m \<rparr>"
  "fst (ice_step hmac s (WithKeepalive d)) = s \<lparr> ag_keepalive_interval := d \<rparr>"
  by (simp_all add: ice_step_def case_prod_unfold Let_def)

lemma ice_step_quiet:
  obtains "quiet s (fst (ice_step hmac s e))"
  | bs src dst clk msg where "e = Recv bs src dst clk" "decode bs = Inr msg" "sm_class msg = SuccessResponse"
    "fst (ice_step hmac s e) = handle_success hmac clk msg bs src dst s"
proof (cases e)
  case (Tick tid now)
  then show thesis by (intro that(1)) (simp add: ice_step_state quiet_tick)
next
  case (Trickle c)
  then show thesis by (intro that(1)) (simp add: ice_step_state quiet_add_remote)
next
  case (WithMetrics m)
  then show thesis by (intro that(1)) (simp add: ice_step_state quiet_def evolves_def)
next
  case (WithKeepalive d)
  then show thesis by (intro that(1)) (simp add: ice_step_state quiet_def evolves_def)
next
  case (Recv bs src dst clk)
  show thesis
  proof (cases "decode bs")
    case (Inl err)
    with Recv show thesis by (intro that(1)) (simp add: ice_step_state handle_datagram_at_def)
  next
    case (Inr msg)
    show thesis
    proof (cases "sm_class msg = SuccessResponse")
      case True
      with Recv Inr show thesis by (intro that(2)) (simp_all add: ice_step_state handle_datagram_at_def)
    next
      case False
      with Recv Inr show thesis
        by (intro that(1), cases "sm_class msg")
          (simp_all add: ice_step_state handle_datagram_at_def quiet_handle_request quiet_handle_error)
    qed
  qed
qed

lemma ice_step_evolves: "ice_inv s \<Longrightarrow> evolves s (fst (ice_step hmac s e))"
  by (cases rule: ice_step_quiet [of s hmac e]) (simp_all add: quiet_def evolves_handle_success)

lemma ice_step_proves:
  assumes "ice_inv s" and "j < length (ag_pairs (fst (ice_step hmac s e)))"
    and "ip_state (ag_pairs (fst (ice_step hmac s e)) ! j) = Succeeded"
  shows "j < length (ag_pairs s) \<and> (ip_state (ag_pairs s ! j) = Succeeded \<or> proves hmac (ag_params s) e (ends (ag_pairs s ! j)))"
proof (cases rule: ice_step_quiet [of s hmac e])
  case 1
  with assms show ?thesis by (simp add: quiet_def)
next
  case (2 bs src dst clk msg)
  from handle_success_evolves [OF assms(1), of j hmac clk msg bs src dst] assms(2,3) 2 show ?thesis
    by (auto simp: proves_def)
qed

section \<open>Whole runs\<close>

lemma run_Cons_state: "fst (run step s (e # es)) = fst (run step (fst (step s e)) es)"
  by (simp add: case_prod_unfold Let_def)

lemma run_evolves: "ice_inv s \<Longrightarrow> evolves s (fst (run (ice_step hmac) s es))"
proof (induction es arbitrary: s)
  case (Cons e es)
  show ?case unfolding run_Cons_state
    by (rule evolves_trans [OF ice_step_evolves [OF Cons.prems] Cons.IH [OF inv_ice_step [OF Cons.prems]]])
qed simp

lemma run_proves:
  assumes "ice_inv s" and "j < length (ag_pairs (fst (run (ice_step hmac) s es)))"
    and "ip_state (ag_pairs (fst (run (ice_step hmac) s es)) ! j) = Succeeded"
  shows "(j < length (ag_pairs s) \<and> ip_state (ag_pairs s ! j) = Succeeded) \<or>
    (\<exists>e \<in> set es. proves hmac (ag_params s) e (ends (ag_pairs (fst (run (ice_step hmac) s es)) ! j)))"
  using assms
proof (induction es arbitrary: s)
  case (Cons e es)
  let ?t = "fst (ice_step hmac s e)" and ?u = "fst (run (ice_step hmac) s (e # es))"
  have u: "?u = fst (run (ice_step hmac) ?t es)" by (rule run_Cons_state)
  have i: "ice_inv ?t" by (rule inv_ice_step [OF Cons.prems(1)])
  have p: "ag_params ?t = ag_params s" using ice_step_evolves [OF Cons.prems(1)] by (simp add: evolves_def)
  from Cons.IH [OF i] Cons.prems(2,3) have "(j < length (ag_pairs ?t) \<and> ip_state (ag_pairs ?t ! j) = Succeeded) \<or>
     (\<exists>e' \<in> set es. proves hmac (ag_params s) e' (ends (ag_pairs ?u ! j)))" unfolding u p by blast
  then show ?case
  proof
    assume t: "j < length (ag_pairs ?t) \<and> ip_state (ag_pairs ?t ! j) = Succeeded"
    then have s: "j < length (ag_pairs s)" "ip_state (ag_pairs s ! j) = Succeeded \<or> proves hmac (ag_params s) e (ends (ag_pairs s ! j))"
      using ice_step_proves [OF Cons.prems(1)] by blast+
    moreover have "ends (ag_pairs ?u ! j) = ends (ag_pairs s ! j)" using evolves_nth [OF run_evolves [OF Cons.prems(1)] s(1)] by blast
    ultimately show ?thesis by auto
  qed auto
qed simp

text \<open>A new agent: its credentials, and pairs that are all waiting.\<close>

lemma quiet_add_remotes: "quiet s (foldl add_remote_candidate s rs)"
proof (induction rs arbitrary: s)
  case (Cons r rs)
  show ?case using quiet_trans [OF quiet_add_remote Cons] by simp
qed simp

lemma new_agent:
  "ag_params (agent_new params locals remotes sockets) = params"
  "ag_sockets (agent_new params locals remotes sockets) = sockets"
  "j < length (ag_pairs (agent_new params locals remotes sockets)) \<Longrightarrow>
     ip_state (ag_pairs (agent_new params locals remotes sockets) ! j) \<noteq> Succeeded"
  unfolding agent_new_def
  using quiet_add_remotes [of "\<lparr> ag_params = params, ag_role = ip_role params,
         ag_local_candidates = filter (\<lambda>c. sockets (cand_addr c) \<noteq> None) locals, ag_remote_candidates = [],
         ag_pairs = [], ag_triggered = [], ag_pending = [], ag_sockets = sockets, ag_state = Checking,
         ag_selected = None, ag_nomination_in_flight = False, ag_last_check_sent = None,
         ag_last_keepalive = None, ag_keepalive_interval = KEEPALIVE_INTERVAL, ag_failure = None,
         ag_metrics = None \<rparr>" remotes]
  unfolding quiet_def evolves_def by auto

text \<open>Property C19. A selected pair was proved by its peer. In every run from a new agent, when the agent
  has completed, some datagram of the run came from the selected remote address to the selected
  pair's local address, decoded to a Binding success response, and passed FINGERPRINT and
  MESSAGE-INTEGRITY under the peer's password; the selected pair has succeeded, is the only nominated
  one, and nothing is left pending.\<close>

theorem ice_selection_proved:
  fixes hmac params locals remotes sockets es
  defines "s \<equiv> fst (run (ice_step hmac) (agent_new params locals remotes sockets) es)"
  assumes "ag_state s = Completed"
  shows "\<exists>i p. ag_selected s = Some i \<and> i < length (ag_pairs s) \<and> p = ag_pairs s ! i \<and> ip_state p = Succeeded
     \<and> (\<forall>j < length (ag_pairs s). ip_nominated (ag_pairs s ! j) = (j = i)) \<and> ag_pending s = []
     \<and> (\<exists>e \<in> set es. proves hmac params e (local_addr p, remote_addr p))"
proof -
  have "ice_inv s" unfolding s_def by (rule ice.run_preserves [OF inv_new])
  with assms(2) obtain i where i: "ag_selected s = Some i" "i < length (ag_pairs s)" "ip_state (ag_pairs s ! i) = Succeeded"
    "ag_pending s = []" "\<forall>j < length (ag_pairs s). ip_nominated (ag_pairs s ! j) = (ag_selected s = Some j)"
    by (auto simp: ice_inv_def phase_ok_def)
  from run_proves [OF inv_new, of i hmac params locals remotes sockets es] i(2,3)
  have "\<exists>e \<in> set es. proves hmac params e (ends (ag_pairs s ! i))"
    unfolding s_def [symmetric] new_agent using new_agent(3) by blast
  with i show ?thesis by (auto simp: ends_def)
qed

text \<open>Property C20. A selection never moves. Once the agent has completed, whatever is received, ticked
  or trickled afterwards, it stays completed with the same selected pair, and
  \<^verbatim>\<open>selected_remote\<close> and \<^verbatim>\<open>selected_socket\<close> keep their values.\<close>

theorem ice_selection_is_final:
  fixes hmac es s
  assumes "ice_inv s" and "ag_state s = Completed"
  defines "s' \<equiv> fst (run (ice_step hmac) s es)"
  shows "ag_state s' = Completed \<and> ag_selected s' = ag_selected s \<and> selected_remote s' = selected_remote s
     \<and> selected_socket s' = selected_socket s \<and> selected_remote s \<noteq> None"
proof -
  note e = run_evolves [OF assms(1), of hmac es, folded s'_def]
  obtain i where i: "ag_selected s = Some i" "i < length (ag_pairs s)"
    using assms(1,2) by (auto simp: ice_inv_def phase_ok_def)
  from evolves_nth [OF e i(2)] e assms(2) i show ?thesis
    by (simp add: evolves_def selected_remote_def selected_socket_def selected_pair_def ends_def)
qed

section \<open>Datagrams without the credentials\<close>

text \<open>Result. Only the credentials move the agent. A datagram that verifies under neither password
  leaves the agent exactly as it was, unless it is an error response other than 487 to a check that
  is still outstanding: the agent accepts those unauthenticated.\<close>

theorem ice_unauthenticated_ignored:
  assumes "\<not> verify_message_integrity hmac bs (octets_of (ip_local_pwd (ag_params s)))"
    and "\<not> verify_message_integrity hmac bs (octets_of (ip_remote_pwd (ag_params s)))"
    and "case decode bs of
           Inr m \<Rightarrow> sm_class m = ErrorResponse \<longrightarrow> map_option ec_code (sm_error_code m) = Some ERR_ROLE_CONFLICT \<or>
                      sm_transaction_id m \<notin> pc_transaction_id ` set (ag_pending s)
         | Inl _ \<Rightarrow> True"
  shows "fst (handle_datagram_at hmac clk bs from to s) = s"
proof (cases "decode bs")
  case (Inr m)
  have e: "handle_error hmac m bs s = s" if "sm_class m = ErrorResponse"
  proof (cases "take_pending (sm_transaction_id m) s")
    case (Some r)
    obtain check s1 where r: "r = (check, s1)" by fastforce
    from take_pendingD(1,2) [of "sm_transaction_id m" s check s1] Some r
    have "sm_transaction_id m \<in> pc_transaction_id ` set (ag_pending s)" by (metis image_eqI)
    with that assms(3) Inr have "map_option ec_code (sm_error_code m) = Some ERR_ROLE_CONFLICT" by simp
    with Some r assms(2) show ?thesis by (auto simp: handle_error_def Let_def)
  qed (simp add: handle_error_def)
  have r: "fst (handle_request hmac clk m bs from to s) = s"
    using handle_request_state [of hmac clk m bs "from" to s] assms(1) by blast
  have h: "handle_success hmac clk m bs from to s = s"
    by (cases rule: handle_success_cases [of hmac clk m bs "from" to s]) (use assms(2) in simp_all)
  show ?thesis using Inr e r h by (cases "sm_class m") (simp_all add: handle_datagram_at_def)
qed (simp add: handle_datagram_at_def)

section \<open>Silence\<close>

text \<open>The clock of a driver that ticks at least every \<open>gap\<close>.\<close>

fun tick_clock :: "duration \<Rightarrow> nat \<Rightarrow> nat list \<Rightarrow> bool" where
  "tick_clock gap t [] = True"
| "tick_clock gap t (now # ts) = (t \<le> now \<and> now \<le> t + gap \<and> tick_clock gap now ts)"

text \<open>The time an unanswered check stays outstanding, from its retransmission number \<open>k\<close> on: the
  back-offs, each ended by the first tick after it.\<close>

definition lifetime :: "duration \<Rightarrow> nat \<Rightarrow> duration" where
  "lifetime gap k = sum_list (map (\<lambda>j. RETRANSMIT_TIMEOUT * 2 ^ j + gap) [k..<Suc MAX_RETRANSMITS])"

definition stamped :: "nat \<Rightarrow> ice_agent \<Rightarrow> bool" where
  "stamped t s \<longleftrightarrow> list_all (\<lambda>c. pc_last_sent c \<le> t) (ag_pending s) \<and> pred_option (\<lambda>u. u \<le> t) (ag_last_check_sent s)"

text \<open>The checks an agent has yet to start.\<close>

definition unstarted :: "ice_agent \<Rightarrow> nat" where
  "unstarted s = length (ag_triggered s) + length (filter (\<lambda>p. ip_state p = Waiting) (ag_pairs s))"

text \<open>Every check can be sent: a socket for each pair, credentials that fit a USERNAME.\<close>

definition can_send :: "ice_agent \<Rightarrow> bool" where
  "can_send s \<longleftrightarrow> list_all (\<lambda>p. ag_sockets s (local_addr p) \<noteq> None) (ag_pairs s) \<and>
     valid_utf8 (ip_remote_ufrag (ag_params s) @ '':'' @ ip_local_ufrag (ag_params s)) \<and>
     length (ip_remote_ufrag (ag_params s)) + length (ip_local_ufrag (ag_params s)) < 60000"

lemma check_message_ok:
  "can_send s \<Longrightarrow> length tid = 12 \<Longrightarrow> stun_ok (check_message s tid pair nom)"
  by (simp add: stun_ok_def check_message_def can_send_def new_binding_request_def bare_def Let_def split: ice_role.split)

lemma can_send_evolves: "can_send s \<Longrightarrow> evolves s s' \<Longrightarrow> length (ag_pairs s') = length (ag_pairs s) \<Longrightarrow> can_send s'"
proof -
  assume c: "can_send s" and e: "evolves s s'" and l: "length (ag_pairs s') = length (ag_pairs s)"
  have "ag_sockets s' (local_addr (ag_pairs s' ! j)) \<noteq> None" if "j < length (ag_pairs s')" for j
  proof -
    have "local_addr (ag_pairs s' ! j) = local_addr (ag_pairs s ! j)" "ag_sockets s' = ag_sockets s"
      using evolves_nth [OF e, of j] that l e by (simp_all add: ends_def evolves_def)
    with c that l show ?thesis by (simp add: can_send_def list_all_length)
  qed
  moreover have "ag_params s' = ag_params s" using e by (simp add: evolves_def)
  ultimately show ?thesis using c by (simp add: can_send_def list_all_length)
qed

lemma waiting_update_le:
  "ip_state p \<noteq> Waiting \<Longrightarrow> length (filter (\<lambda>p. ip_state p = Waiting) (xs[i := p])) \<le> length (filter (\<lambda>p. ip_state p = Waiting) xs)"
proof (induction xs arbitrary: i)
  case (Cons x xs)
  then show ?case by (cases i) (auto simp: le_SucI)
qed simp

lemma waiting_update_less:
  "ip_state p \<noteq> Waiting \<Longrightarrow> i < length xs \<Longrightarrow> ip_state (xs ! i) = Waiting \<Longrightarrow>
   Suc (length (filter (\<lambda>p. ip_state p = Waiting) (xs[i := p]))) \<le> length (filter (\<lambda>p. ip_state p = Waiting) xs)"
proof (induction xs arbitrary: i)
  case (Cons x xs)
  show ?case
  proof (cases i)
    case (Suc k)
    with Cons.prems Cons.IH [of k] show ?thesis by auto
  qed (use Cons.prems in simp)
qed simp

lemma expires_waiting:
  "length (filter (\<lambda>p. ip_state p = Waiting) (ag_pairs (foldl expire s cs))) \<le> length (filter (\<lambda>p. ip_state p = Waiting) (ag_pairs s))"
proof (induction cs arbitrary: s)
  case (Cons c cs)
  have "length (filter (\<lambda>p. ip_state p = Waiting) (ag_pairs (expire s c))) \<le> length (filter (\<lambda>p. ip_state p = Waiting) (ag_pairs s))"
    by (simp add: expire_pairs waiting_update_le)
  with Cons [of "expire s c"] show ?case by simp
qed simp

lemma expires_fields:
  "ag_pending (foldl expire s cs) = ag_pending s" "ag_triggered (foldl expire s cs) = ag_triggered s"
  "ag_last_check_sent (foldl expire s cs) = ag_last_check_sent s" "length (ag_pairs (foldl expire s cs)) = length (ag_pairs s)"
  "ag_params (foldl expire s cs) = ag_params s" "ag_role (foldl expire s cs) = ag_role s"
  by (induction cs arbitrary: s) simp_all

lemma lifetime_step: "k \<le> MAX_RETRANSMITS \<Longrightarrow> lifetime gap k = RETRANSMIT_TIMEOUT * 2 ^ k + gap + lifetime gap (Suc k)"
  by (simp add: lifetime_def upt_conv_Cons del: upt_Suc)

lemma lifetime_mono: "k \<le> k' \<Longrightarrow> lifetime gap k' \<le> lifetime gap k"
proof (induction k' rule: dec_induct)
  case (step n)
  have "lifetime gap (Suc n) \<le> lifetime gap n"
  proof (cases "n \<le> MAX_RETRANSMITS")
    case False
    then show ?thesis by (simp add: lifetime_def)
  qed (simp add: lifetime_step)
  with step show ?case by simp
qed simp

lemma backoff_eq: "pc_retransmits c \<le> MAX_RETRANSMITS \<Longrightarrow> backoff c = RETRANSMIT_TIMEOUT * 2 ^ pc_retransmits c"
  by (simp add: backoff_def MAX_RETRANSMITS_def)

text \<open>After a tick at \<open>now\<close> an outstanding check is not due, and unless answered it expires by
  \<open>D\<close>.\<close>

definition expires_by :: "duration \<Rightarrow> nat \<Rightarrow> nat \<Rightarrow> pending_check \<Rightarrow> bool" where
  "expires_by gap D now c \<longleftrightarrow> pc_retransmits c \<le> MAX_RETRANSMITS \<and> pc_last_sent c \<le> now \<and>
     now < pc_last_sent c + backoff c \<and> pc_last_sent c + lifetime gap (pc_retransmits c) \<le> D"

lemma backoff_pos: "0 < backoff c"
  by (simp add: backoff_def RETRANSMIT_TIMEOUT_def from_millis_def)

lemma resend_expires:
  assumes "expires_by gap D t c" and "t \<le> now" and "now \<le> t + gap" and "\<not> expired now c"
  shows "expires_by gap D now (resend now c)"
proof (cases "due now c")
  case True
  with assms(4) have r: "pc_retransmits c < MAX_RETRANSMITS" by (simp add: expired_def)
  have "now \<le> pc_last_sent c + backoff c + gap" using assms(1,3) by (simp add: expires_by_def)
  with assms(1) r have "now + lifetime gap (Suc (pc_retransmits c)) \<le> D"
    by (simp add: expires_by_def lifetime_step [of "pc_retransmits c"] backoff_eq)
  with r True show ?thesis using backoff_pos by (simp add: resend_def expires_by_def)
next
  case False
  then show ?thesis using assms(1,2) by (auto simp: resend_def expires_by_def due_def)
qed

lemma first_resend_expires:
  assumes "pc_retransmits c \<le> MAX_RETRANSMITS" and "pc_last_sent c \<le> now" and "\<not> expired now c"
    and "now + lifetime gap 0 \<le> D"
  shows "expires_by gap D now (resend now c)"
proof (cases "due now c")
  case True
  with assms(3) have "pc_retransmits c < MAX_RETRANSMITS" by (simp add: expired_def)
  moreover have "lifetime gap (Suc (pc_retransmits c)) \<le> lifetime gap 0" by (rule lifetime_mono) simp
  ultimately show ?thesis using True assms(4) backoff_pos by (simp add: resend_def expires_by_def)
next
  case False
  moreover have "lifetime gap (pc_retransmits c) \<le> lifetime gap 0" by (rule lifetime_mono) simp
  ultimately show ?thesis using assms by (auto simp: resend_def expires_by_def due_def)
qed

lemma retransmit_fields:
  fixes s now
  defines "s1 \<equiv> fst (retransmit now s)"
  shows "ag_pending s1 = map (resend now) (filter (\<lambda>c. \<not> expired now c) (ag_pending s))"
    and "unstarted s1 \<le> unstarted s" and "ag_last_check_sent s1 = ag_last_check_sent s"
    and "length (ag_pairs s1) = length (ag_pairs s)"
proof -
  have "length (filter (\<lambda>p. ip_state p = Waiting) (ag_pairs s1)) \<le> length (filter (\<lambda>p. ip_state p = Waiting) (ag_pairs s))"
    unfolding s1_def retransmit_def fst_conv by (rule order_trans [OF expires_waiting]) simp
  then show "unstarted s1 \<le> unstarted s" by (simp add: unstarted_def s1_def retransmit_def expires_fields)
qed (simp_all add: s1_def retransmit_def expires_fields)

lemma send_check_sends:
  assumes "can_send s" and "length tid = 12" and "hmac_ok hmac" and "i < length (ag_pairs s)"
  obtains socket bs where "fst (send_check hmac tid i nom now s) =
       (if ip_state (ag_pairs s ! i) \<noteq> Succeeded then set_pair i (\<lambda>p. p \<lparr> ip_state := InProgress \<rparr>) s else s)
         \<lparr> ag_pending := ag_pending s @ [\<lparr> pc_pair_idx = i, pc_transaction_id = tid, pc_bytes = bs,
              pc_destination = remote_addr (ag_pairs s ! i), pc_socket = socket, pc_last_sent = now,
              pc_retransmits = 0, pc_nominating = nom \<rparr>], ag_last_check_sent := Some now \<rparr>"
    "snd (send_check hmac tid i nom now s) = [\<lparr> og_bytes = bs, og_destination = remote_addr (ag_pairs s ! i), og_socket = socket \<rparr>]"
proof -
  obtain socket where so: "ag_sockets s (local_addr (ag_pairs s ! i)) = Some socket"
    using assms(1,4) by (auto simp: can_send_def list_all_length)
  obtain bs where bs: "encode_with hmac (check_message s tid (ag_pairs s ! i) nom) (Some (octets_of (ip_remote_pwd (ag_params s)))) True = Inr bs"
    using stun_sealed_roundtrip [OF check_message_ok [OF assms(1,2)] assms(3)] by blast
  show thesis by (rule that [of bs socket]) (use so bs in \<open>simp_all add: send_check_def Let_def\<close>)
qed

lemma send_check_effect:
  fixes s hmac tid i nom now
  assumes "can_send s" and "length tid = 12" and "hmac_ok hmac" and "i < length (ag_pairs s)"
  defines "s1 \<equiv> fst (send_check hmac tid i nom now s)"
  shows "unstarted s1 \<le> unstarted s" "ip_state (ag_pairs s ! i) = Waiting \<Longrightarrow> Suc (unstarted s1) \<le> unstarted s"
    "\<exists>c. ag_pending s1 = ag_pending s @ [c] \<and> pc_last_sent c = now \<and> pc_retransmits c = 0" "ag_last_check_sent s1 = Some now"
    "length (ag_pairs s1) = length (ag_pairs s)"
proof -
  obtain socket bs where f: "s1 =
       (if ip_state (ag_pairs s ! i) \<noteq> Succeeded then set_pair i (\<lambda>p. p \<lparr> ip_state := InProgress \<rparr>) s else s)
         \<lparr> ag_pending := ag_pending s @ [\<lparr> pc_pair_idx = i, pc_transaction_id = tid, pc_bytes = bs,
              pc_destination = remote_addr (ag_pairs s ! i), pc_socket = socket, pc_last_sent = now,
              pc_retransmits = 0, pc_nominating = nom \<rparr>], ag_last_check_sent := Some now \<rparr>"
    unfolding s1_def by (rule send_check_sends [OF assms(1-4), of nom now])
  show "\<exists>c. ag_pending s1 = ag_pending s @ [c] \<and> pc_last_sent c = now \<and> pc_retransmits c = 0" "ag_last_check_sent s1 = Some now"
    "length (ag_pairs s1) = length (ag_pairs s)"
    unfolding f by simp_all
  let ?p = "(ag_pairs s ! i) \<lparr> ip_state := InProgress \<rparr>"
  note le = waiting_update_le [of ?p "ag_pairs s" i] and less = waiting_update_less [of ?p i "ag_pairs s"]
  show "unstarted s1 \<le> unstarted s" using le unfolding f by (simp add: unstarted_def)
  show "Suc (unstarted s1) \<le> unstarted s" if "ip_state (ag_pairs s ! i) = Waiting"
    using less that assms(4) unfolding f by (simp add: unstarted_def)
qed

lemma max_waiting_None: "max_waiting best xs = None \<longleftrightarrow> best = None \<and> xs = []"
proof (induction xs arbitrary: best)
  case (Cons x xs)
  then show ?case by (auto split: option.splits)
qed simp

lemma next_ordinary_None: "next_ordinary s = None \<longleftrightarrow> (\<forall>p \<in> set (ag_pairs s). ip_state p \<noteq> Waiting)"
proof -
  have "filter (\<lambda>(_, p). ip_state p = Waiting) (enumerate 0 (ag_pairs s)) = [] \<longleftrightarrow> (\<forall>p \<in> set (ag_pairs s). ip_state p \<noteq> Waiting)"
    unfolding filter_empty_conv by (simp add: Ball_def in_set_enumerate_eq) (metis in_set_conv_nth)
  then show ?thesis by (simp add: next_ordinary_def max_waiting_None)
qed

lemma next_triggered_length:
  "next_triggered pairs trig = (r, rest) \<Longrightarrow> length rest \<le> length trig \<and> (r \<noteq> None \<longrightarrow> length rest < length trig) \<and> (r = None \<longrightarrow> rest = [])"
  by (induction trig) (auto split: if_splits)

text \<open>A paced tick starts a check when there is one to start.\<close>

lemma start_check_effect:
  fixes s hmac tid now
  assumes "ice_inv s" and "can_send s" and "length tid = 12" and "hmac_ok hmac" and "paced now s"
  defines "s1 \<equiv> fst (start_check hmac tid now s)"
  shows "length (ag_pairs s1) = length (ag_pairs s)"
    and "unstarted s1 = 0 \<and> ag_pending s1 = ag_pending s \<and> ag_last_check_sent s1 = ag_last_check_sent s \<or>
      Suc (unstarted s1) \<le> unstarted s \<and> ag_last_check_sent s1 = Some now \<and>
      (\<exists>c. ag_pending s1 = ag_pending s @ [c] \<and> pc_last_sent c = now \<and> pc_retransmits c = 0)"
proof -
  obtain r rest where n: "next_triggered (ag_pairs s) (ag_triggered s) = (r, rest)" by fastforce
  note nl = next_triggered_length [OF n]
  define u where "u = s \<lparr> ag_triggered := rest \<rparr>"
  define nxt where "nxt = (case r of Some t \<Rightarrow> Some t | None \<Rightarrow> map_option (\<lambda>i. (i, False)) (next_ordinary u))"
  have nc: "next_check s = (u, nxt)" unfolding nxt_def u_def by (simp add: next_check_def n Let_def)
  have sc: "s1 = (case nxt of None \<Rightarrow> u | Some (i, nom) \<Rightarrow> fst (send_check hmac tid i nom now u))"
    using assms(5) nc by (auto simp: s1_def start_check_def split: option.split)
  have wu: "unstarted u + (length (ag_triggered s) - length rest) = unstarted s"
    using nl [THEN conjunct1] by (simp add: unstarted_def u_def)
  have cu: "can_send u" using assms(2) by (simp add: can_send_def u_def)
  have st: "struct_ok (ag_role s) (ag_sockets s) (ag_pairs s) (ag_triggered s) (ag_pending s)" using assms(1) by (simp add: ice_inv_def)
  have lt: "i < length (ag_pairs u)" if "nxt = Some (i, nom)" for i nom
    using next_check_spec [OF nc] that struct_okD(3) [OF st, of "(i, nom)"] by (auto simp: u_def)
  have pu: "ag_pairs u = ag_pairs s" "ag_pending u = ag_pending s" "ag_last_check_sent u = ag_last_check_sent s" by (simp_all add: u_def)
  show "length (ag_pairs s1) = length (ag_pairs s)" "unstarted s1 = 0 \<and> ag_pending s1 = ag_pending s \<and> ag_last_check_sent s1 = ag_last_check_sent s \<or>
      Suc (unstarted s1) \<le> unstarted s \<and> ag_last_check_sent s1 = Some now \<and>
      (\<exists>c. ag_pending s1 = ag_pending s @ [c] \<and> pc_last_sent c = now \<and> pc_retransmits c = 0)"
  proof (atomize (full), cases nxt)
    case None
    then have "r = None" and no: "\<forall>p \<in> set (ag_pairs s). ip_state p \<noteq> Waiting"
      by (auto simp: nxt_def next_ordinary_None pu split: option.splits)
    with nl have "rest = []" by simp
    with no have "unstarted u = 0" by (simp add: unstarted_def u_def filter_empty_conv)
    then show "length (ag_pairs s1) = length (ag_pairs s) \<and> (unstarted s1 = 0 \<and> ag_pending s1 = ag_pending s \<and> ag_last_check_sent s1 = ag_last_check_sent s \<or>
      Suc (unstarted s1) \<le> unstarted s \<and> ag_last_check_sent s1 = Some now \<and>
      (\<exists>c. ag_pending s1 = ag_pending s @ [c] \<and> pc_last_sent c = now \<and> pc_retransmits c = 0))"
      using sc None by (simp add: pu)
  next
    case (Some x)
    obtain i nom where x: "x = (i, nom)" by fastforce
    note nx = Some [unfolded x]
    have s1: "s1 = fst (send_check hmac tid i nom now u)" using sc nx by simp
    note sw = send_check_effect [OF cu assms(3,4) lt [OF nx], of nom now, folded s1]
    have dec: "Suc (unstarted s1) \<le> unstarted s"
    proof (cases r)
      case None
      with nx have "next_ordinary u = Some i" by (auto simp: nxt_def)
      with next_ordinary_Some sw(2) wu show ?thesis by fastforce
    next
      case (Some a)
      with nl have "1 \<le> length (ag_triggered s) - length rest" by auto
      with sw(1) wu show ?thesis by linarith
    qed
    then show "length (ag_pairs s1) = length (ag_pairs s) \<and> (unstarted s1 = 0 \<and> ag_pending s1 = ag_pending s \<and> ag_last_check_sent s1 = ag_last_check_sent s \<or>
      Suc (unstarted s1) \<le> unstarted s \<and> ag_last_check_sent s1 = Some now \<and>
      (\<exists>c. ag_pending s1 = ag_pending s @ [c] \<and> pc_last_sent c = now \<and> pc_retransmits c = 0))"
      using sw(3,4,5) by (simp add: pu)
  qed
qed

text \<open>An agent with nothing left to do.\<close>

definition idle :: "ice_agent \<Rightarrow> bool" where
  "idle s \<longleftrightarrow> ag_pending s = [] \<and> ag_triggered s = [] \<and> list_all (\<lambda>p. ip_state p \<in> {Succeeded, Failed}) (ag_pairs s)"

lemma idle_iff:
  assumes "ice_inv s" and "ag_state s = Checking"
  shows "idle s \<longleftrightarrow> ag_pending s = [] \<and> ag_triggered s = [] \<and> (\<forall>p \<in> set (ag_pairs s). ip_state p \<noteq> Waiting)"
proof
  assume q: "ag_pending s = [] \<and> ag_triggered s = [] \<and> (\<forall>p \<in> set (ag_pairs s). ip_state p \<noteq> Waiting)"
  have "ip_state (ag_pairs s ! j) \<in> {Succeeded, Failed}" if "j < length (ag_pairs s)" for j
    using assms q that nth_mem [OF that] unfolding ice_inv_def struct_ok_def phase_ok_def
    by (cases "ip_state (ag_pairs s ! j)") (auto simp: list_all_length pair_ok_def)
  with q show "idle s" by (simp add: idle_def list_all_length)
qed (auto simp: idle_def list_all_iff)

lemma succeeded_kept:
  "j < length (ag_pairs s) \<Longrightarrow> ip_state (ag_pairs s ! j) = Succeeded \<Longrightarrow> ag_state s = Checking \<Longrightarrow>
   ip_state (ag_pairs (fst (tick_at hmac tid now s)) ! j) = Succeeded"
proof -
  assume j: "j < length (ag_pairs s)" "ip_state (ag_pairs s ! j) = Succeeded" and c: "ag_state s = Checking"
  have "ip_state (ag_pairs (foldl expire t cs) ! j) = Succeeded" if "j < length (ag_pairs t)" "ip_state (ag_pairs t ! j) = Succeeded" for t cs
    using that
  proof (induction cs arbitrary: t)
    case (Cons c cs)
    have "ip_state (ag_pairs (expire t c) ! j) = Succeeded"
      using Cons.prems by (cases "pc_pair_idx c = j") (simp_all add: expire_pairs)
    with Cons show ?case by simp
  qed simp
  then have r: "ip_state (ag_pairs (fst (retransmit now s)) ! j) = Succeeded" "j < length (ag_pairs (fst (retransmit now s)))"
    using j by (simp_all add: retransmit_def expires_fields)
  let ?t = "fst (retransmit now s)"
  have "ip_state (ag_pairs (fst (send_check hmac tid i nom now u)) ! j) = Succeeded" if "ag_pairs u = ag_pairs ?t" for i nom u
  proof (cases rule: send_check_cases [of hmac tid i nom now u])
    case (2 socket bs)
    show ?thesis unfolding 2(3) using that r by (cases "i = j") auto
  qed (use that r in simp)
  moreover obtain u nxt where n: "next_check ?t = (u, nxt)" by fastforce
  moreover have "ag_pairs u = ag_pairs ?t" using next_check_spec [OF n] by auto
  ultimately have "ip_state (ag_pairs (fst (start_check hmac tid now ?t)) ! j) = Succeeded"
    using r by (auto simp: start_check_def split: option.split)
  then show ?thesis by (simp add: tick_at_def c case_prod_unfold Let_def)
qed

text \<open>After a tick at \<open>now\<close>, everything an agent has under way or yet to start is over by \<open>D\<close>.\<close>

definition over_by :: "duration \<Rightarrow> nat \<Rightarrow> nat \<Rightarrow> ice_agent \<Rightarrow> bool" where
  "over_by gap D now s \<longleftrightarrow> list_all (expires_by gap D now) (ag_pending s) \<and>
     (0 < unstarted s \<longrightarrow> (\<exists>u. ag_last_check_sent s = Some u \<and> u \<le> now \<and> now < u + CHECK_PACING \<and>
        u + unstarted s * (CHECK_PACING + gap) + lifetime gap 0 \<le> D))"

text \<open>The work of a tick, given what its retransmissions leave outstanding.\<close>

lemma tick_over_by:
  fixes s hmac tid now
  assumes "ice_inv s" and "ag_state s = Checking" and "can_send s" and "length tid = 12" and "hmac_ok hmac"
    and pend: "list_all (\<lambda>c. expired now c \<or> expires_by gap D now (resend now c)) (ag_pending s)"
    and stamp: "pred_option (\<lambda>u. u \<le> now) (ag_last_check_sent s)"
    and start: "0 < unstarted s \<Longrightarrow> now + lifetime gap 0 + (unstarted s - 1) * (CHECK_PACING + gap) \<le> D \<or>
      (\<exists>u. ag_last_check_sent s = Some u \<and> u \<le> now \<and> now \<le> u + CHECK_PACING + gap \<and>
         u + unstarted s * (CHECK_PACING + gap) + lifetime gap 0 \<le> D)"
    and unpaced: "\<And>u. 0 < unstarted s \<Longrightarrow> ag_last_check_sent s = Some u \<Longrightarrow> now < u + CHECK_PACING \<Longrightarrow>
      u + unstarted s * (CHECK_PACING + gap) + lifetime gap 0 \<le> D"
  defines "s' \<equiv> fst (tick_at hmac tid now s)"
  shows "can_send s'" and "over_by gap D now s'"
proof -
  let ?s1 = "fst (retransmit now s)" and ?s2 = "fst (start_check hmac tid now (fst (retransmit now s)))"
  have s': "s' = update_failure ?s2" by (simp add: s'_def tick_at_def assms(2) case_prod_unfold Let_def)
  note r = retransmit_fields [of now s] and i1 = inv_retransmit [OF assms(1,2), of now]
  have c1: "can_send ?s1" using can_send_evolves [OF assms(3) _ r(4)] quiet_retransmit by (simp add: quiet_def)
  have p1: "list_all (expires_by gap D now) (ag_pending ?s1)" using pend by (auto simp: r(1) list_all_iff)
  have keep: "over_by gap D now s' \<longleftrightarrow> over_by gap D now ?s2"
    unfolding s' over_by_def unstarted_def by (cases rule: update_failure_cases [of ?s2]) simp_all
  have "length (ag_pairs ?s2) = length (ag_pairs ?s1) \<and> over_by gap D now ?s2"
  proof (cases "paced now ?s1")
    case True
    note sc = start_check_effect [OF i1(1) c1 assms(4,5) True]
    from sc(2) show ?thesis
    proof
      assume "Suc (unstarted ?s2) \<le> unstarted ?s1 \<and> ag_last_check_sent ?s2 = Some now \<and>
        (\<exists>c. ag_pending ?s2 = ag_pending ?s1 @ [c] \<and> pc_last_sent c = now \<and> pc_retransmits c = 0)"
      then obtain c where c: "Suc (unstarted ?s2) \<le> unstarted s" "ag_last_check_sent ?s2 = Some now"
          "ag_pending ?s2 = ag_pending ?s1 @ [c]" "pc_last_sent c = now" "pc_retransmits c = 0"
        using r(2) by auto
      obtain k where k: "unstarted s = Suc k" "unstarted ?s2 \<le> k" using c(1) by (cases "unstarted s") auto
      have D: "now + lifetime gap 0 + k * (CHECK_PACING + gap) \<le> D" using start k(1) by auto
      then have "expires_by gap D now c" using c(4,5) backoff_pos [of c] by (simp add: expires_by_def)
      moreover have "now + unstarted ?s2 * (CHECK_PACING + gap) + lifetime gap 0 \<le> D"
        using D mult_le_mono1 [OF k(2), of "CHECK_PACING + gap"] by linarith
      ultimately show ?thesis using c p1 sc(1) by (simp add: over_by_def CHECK_PACING_def from_millis_def)
    qed (use p1 sc(1) in \<open>simp add: over_by_def\<close>)
  next
    case False
    then obtain u where u: "ag_last_check_sent s = Some u" "now < u + CHECK_PACING"
      by (auto simp: paced_def r(3) split: option.splits)
    have s2: "?s2 = ?s1" using False by (simp add: start_check_def)
    have "u + unstarted ?s1 * (CHECK_PACING + gap) + lifetime gap 0 \<le> D" if "0 < unstarted ?s1"
    proof -
      have "u + unstarted s * (CHECK_PACING + gap) + lifetime gap 0 \<le> D" using unpaced u that r(2) by simp
      then show ?thesis using mult_le_mono1 [OF r(2), of "CHECK_PACING + gap"] by linarith
    qed
    then show ?thesis using p1 u stamp unfolding s2 by (simp add: over_by_def r(3))
  qed
  then show "over_by gap D now s'" and "can_send s'"
    using keep can_send_evolves [OF c1, of s'] quiet_trans [OF quiet_start_check quiet_update_failure]
    by (simp_all add: s' quiet_def)
qed

text \<open>The first tick of the silence sets the deadline, the later ones keep to it.\<close>

lemma first_tick_over_by:
  fixes s hmac tid now
  assumes "ice_inv s" and "ag_state s = Checking" and "can_send s" and "length tid = 12" and "hmac_ok hmac"
    and "stamped now s" and D: "now + unstarted s * (CHECK_PACING + gap) + lifetime gap 0 \<le> D"
  shows "can_send (fst (tick_at hmac tid now s))" and "over_by gap D now (fst (tick_at hmac tid now s))"
proof -
  have "list_all (\<lambda>c. pc_retransmits c \<le> MAX_RETRANSMITS) (ag_pending s)"
    using assms(1) unfolding ice_inv_def struct_ok_def list_all_iff check_ok_def by blast
  then have p: "list_all (\<lambda>c. expired now c \<or> expires_by gap D now (resend now c)) (ag_pending s)"
    using assms(6) D unfolding stamped_def list_all_iff by (auto intro!: first_resend_expires)
  have u: "pred_option (\<lambda>u. u \<le> now) (ag_last_check_sent s)" using assms(6) by (simp add: stamped_def)
  have a: "now + lifetime gap 0 + (unstarted s - 1) * (CHECK_PACING + gap) \<le> D" if "0 < unstarted s"
    using D that by (cases "unstarted s") simp_all
  have b: "x + unstarted s * (CHECK_PACING + gap) + lifetime gap 0 \<le> D" if "ag_last_check_sent s = Some x" for x
    using D u that by simp
  show "can_send (fst (tick_at hmac tid now s))"
    by (rule tick_over_by(1) [OF assms(1-5) p u]) (use a b in blast)+
  show "over_by gap D now (fst (tick_at hmac tid now s))"
    by (rule tick_over_by(2) [OF assms(1-5) p u]) (use a b in blast)+
qed

lemma next_tick_over_by:
  fixes s hmac tid now
  assumes "ice_inv s" and "ag_state s = Checking" and "can_send s" and "length tid = 12" and "hmac_ok hmac"
    and o: "over_by gap D t s" and now: "t \<le> now" "now \<le> t + gap"
    and stamp: "pred_option (\<lambda>u. u \<le> t) (ag_last_check_sent s)"
  shows "can_send (fst (tick_at hmac tid now s))" and "over_by gap D now (fst (tick_at hmac tid now s))"
proof -
  have p: "list_all (\<lambda>c. expired now c \<or> expires_by gap D now (resend now c)) (ag_pending s)"
    using o now resend_expires unfolding over_by_def list_all_iff by blast
  have u: "pred_option (\<lambda>u. u \<le> now) (ag_last_check_sent s)"
    using stamp now(1) by (cases "ag_last_check_sent s") auto
  have a: "\<exists>u. ag_last_check_sent s = Some u \<and> u \<le> now \<and> now \<le> u + CHECK_PACING + gap \<and>
         u + unstarted s * (CHECK_PACING + gap) + lifetime gap 0 \<le> D" if "0 < unstarted s"
    using o now that unfolding over_by_def by fastforce
  then have b: "x + unstarted s * (CHECK_PACING + gap) + lifetime gap 0 \<le> D"
    if "0 < unstarted s" "ag_last_check_sent s = Some x" for x
    using that by auto
  show "can_send (fst (tick_at hmac tid now s))"
    by (rule tick_over_by(1) [OF assms(1-5) p u]) (use a b in blast)+
  show "over_by gap D now (fst (tick_at hmac tid now s))"
    by (rule tick_over_by(2) [OF assms(1-5) p u]) (use a b in blast)+
qed

lemma over_idle:
  assumes "ice_inv s" and "ag_state s = Checking" and "over_by gap D now s" and "D \<le> now"
  shows "idle s"
proof -
  have "ag_pending s = []"
  proof (rule ccontr)
    assume "ag_pending s \<noteq> []"
    then obtain c where "expires_by gap D now c" using assms(3) by (cases "ag_pending s") (auto simp: over_by_def)
    then show False
      using assms(4) by (auto simp: expires_by_def lifetime_step backoff_eq)
  qed
  moreover have "unstarted s = 0"
  proof (rule ccontr)
    assume "unstarted s \<noteq> 0"
    then obtain u where u: "now < u + CHECK_PACING" "u + unstarted s * (CHECK_PACING + gap) + lifetime gap 0 \<le> D"
      using assms(3) by (auto simp: over_by_def)
    with assms(4) \<open>unstarted s \<noteq> 0\<close> show False by (cases "unstarted s") simp_all
  qed
  ultimately show ?thesis unfolding idle_iff [OF assms(1,2)] by (auto simp: unstarted_def filter_empty_conv)
qed

abbreviation ticks_of :: "(transaction_id \<times> nat) list \<Rightarrow> ice_event list" where
  "ticks_of ticks \<equiv> map (\<lambda>(tid, now). Tick tid now) ticks"

definition proved :: "ice_agent \<Rightarrow> bool" where
  "proved s \<longleftrightarrow> (\<exists>p \<in> set (ag_pairs s). ip_state p = Succeeded)"

lemma run_ticks: "fst (run (ice_step hmac) s (ticks_of ((tid, now) # ticks))) =
    fst (run (ice_step hmac) (fst (tick_at hmac tid now s)) (ticks_of ticks))"
  by (simp only: list.map prod.case run_Cons_state ice_step_state)

lemma failed_stays: "ag_state s = IceFailed \<Longrightarrow> fst (run (ice_step hmac) s (ticks_of ticks)) = s"
proof (induction ticks)
  case (Cons x xs)
  then have "tick_at hmac (fst x) (snd x) s = (s, [])" by (simp add: tick_at_def)
  with Cons show ?case by (cases x) (simp only: run_ticks fst_conv snd_conv)
qed simp

lemma proved_tick:
  assumes "ag_state s = Checking"
  shows "proved (fst (tick_at hmac tid now s)) = proved s"
proof
  assume "proved (fst (tick_at hmac tid now s))"
  then show "proved s" using quiet_tick [of s hmac tid now] unfolding proved_def quiet_def by (metis in_set_conv_nth)
next
  assume "proved s"
  then obtain j where j: "j < length (ag_pairs s)" "ip_state (ag_pairs s ! j) = Succeeded" unfolding proved_def by (metis in_set_conv_nth)
  moreover have "j < length (ag_pairs (fst (tick_at hmac tid now s)))"
    using quiet_tick [of s hmac tid now] j(1) evolves_nth unfolding quiet_def by blast
  ultimately show "proved (fst (tick_at hmac tid now s))"
    using succeeded_kept [OF j assms] unfolding proved_def by (metis nth_mem)
qed

lemma tick_states:
  assumes "ice_inv s" and "ag_state s = Checking"
  shows "ag_state (fst (tick_at hmac tid now s)) = Checking \<or>
    (ag_state (fst (tick_at hmac tid now s)) = IceFailed \<and> idle (fst (tick_at hmac tid now s)) \<and> \<not> proved s)"
proof -
  let ?u = "fst (tick_at hmac tid now s)"
  have "ag_state ?u \<noteq> Completed"
    using inv_start_check [OF inv_retransmit [OF assms, of now], of hmac tid now]
    by (cases rule: update_failure_cases [of "fst (start_check hmac tid now (fst (retransmit now s)))"])
      (simp_all add: tick_at_def assms(2) case_prod_unfold Let_def)
  moreover have "ag_state ?u = IceFailed \<Longrightarrow> idle ?u \<and> \<not> proved ?u"
    using inv_tick [OF assms(1), of hmac tid now] by (auto simp: ice_inv_def phase_ok_def idle_def proved_def list_all_iff)
  ultimately show ?thesis using proved_tick [OF assms(2), of hmac tid now] by (cases "ag_state ?u") auto
qed

lemma idle_failure:
  assumes "ag_state s = Checking" and "idle s"
  shows "proved s \<Longrightarrow> update_failure s = s" and "\<not> proved s \<Longrightarrow> ag_state (update_failure s) = IceFailed"
proof -
  have live: "list_ex (\<lambda>p. ip_state p \<in> {Waiting, Frozen, InProgress, Succeeded}) (ag_pairs s) \<longleftrightarrow> proved s"
    using assms(2) by (auto simp: idle_def proved_def list_ex_iff list_all_iff)
  have busy: "\<not> (ag_state s \<noteq> Checking \<or> ag_pending s \<noteq> [] \<or> ag_triggered s \<noteq> [])" using assms by (simp add: idle_def)
  show "update_failure s = s" if "proved s"
    unfolding update_failure_def if_not_P [OF busy] using that live by (simp only: if_True)
  show "ag_state (update_failure s) = IceFailed" if "\<not> proved s"
    unfolding update_failure_def if_not_P [OF busy] Let_def using that live by (simp only: if_False) simp
qed

lemma tick_idle:
  assumes "ag_state s = Checking" and "ag_state (fst (tick_at hmac tid now s)) = Checking"
    and "idle (fst (tick_at hmac tid now s))"
  shows "proved (fst (tick_at hmac tid now s))"
proof (rule ccontr)
  let ?t = "fst (start_check hmac tid now (fst (retransmit now s)))"
  have u: "fst (tick_at hmac tid now s) = update_failure ?t" by (simp add: tick_at_def assms(1) case_prod_unfold Let_def)
  have f: "ag_pairs (update_failure ?t) = ag_pairs ?t" "ag_pending (update_failure ?t) = ag_pending ?t"
      "ag_triggered (update_failure ?t) = ag_triggered ?t"
    by simp_all
  assume "\<not> proved (fst (tick_at hmac tid now s))"
  moreover have "ag_state ?t = Checking"
    using assms(2) unfolding u by (cases rule: update_failure_cases [of ?t]) simp_all
  moreover have "idle ?t" using assms(3) unfolding u idle_def f .
  ultimately show False using idle_failure(2) [of ?t] assms(2) unfolding u proved_def f by simp
qed

lemma last_sent_tick:
  assumes "ag_state s = Checking" and "pred_option (\<lambda>u. u \<le> now) (ag_last_check_sent s)"
  shows "pred_option (\<lambda>u. u \<le> now) (ag_last_check_sent (fst (tick_at hmac tid now s)))"
proof -
  let ?s1 = "fst (retransmit now s)"
  obtain u nxt where n: "next_check ?s1 = (u, nxt)" by fastforce
  have u: "ag_last_check_sent u = ag_last_check_sent s"
    using n by (auto simp: next_check_def Let_def retransmit_def expires_fields split: prod.splits option.splits)
  have "ag_last_check_sent (fst (send_check hmac tid i nom now u)) \<in> {ag_last_check_sent u, Some now}" for i nom
    by (cases rule: send_check_cases [of hmac tid i nom now u]) simp_all
  then have "ag_last_check_sent (fst (start_check hmac tid now ?s1)) \<in> {ag_last_check_sent s, Some now}"
    using n u by (auto simp: start_check_def retransmit_fields(3) split: option.split)
  moreover have "ag_last_check_sent (update_failure t) = ag_last_check_sent t" for t
    by (cases rule: update_failure_cases [of t]) simp_all
  ultimately show ?thesis using assms by (auto simp: tick_at_def case_prod_unfold Let_def)
qed

lemma silence_settles:
  assumes "hmac_ok hmac"
  shows "list_all (\<lambda>(tid, _). length tid = 12) ticks \<Longrightarrow> tick_clock gap t (map snd ticks) \<Longrightarrow>
    D \<le> last (t # map snd ticks) \<Longrightarrow> ice_inv s \<Longrightarrow> can_send s \<Longrightarrow> over_by gap D t s \<Longrightarrow>
    pred_option (\<lambda>u. u \<le> t) (ag_last_check_sent s) \<Longrightarrow> ag_state s = Checking \<Longrightarrow> (idle s \<Longrightarrow> proved s) \<Longrightarrow>
    (let s' = fst (run (ice_step hmac) s (ticks_of ticks))
     in idle s' \<and> ag_state s' = (if proved s then Checking else IceFailed))"
proof (induction ticks arbitrary: s t)
  case Nil
  then have "idle s" by (auto intro: over_idle)
  with Nil show ?case by (simp add: Let_def)
next
  case (Cons x ticks)
  obtain tid now where x: "x = (tid, now)" by fastforce
  let ?u = "fst (tick_at hmac tid now s)"
  have tick: "length tid = 12" "t \<le> now" "now \<le> t + gap" "list_all (\<lambda>(tid, _). length tid = 12) ticks"
      "tick_clock gap now (map snd ticks)" "D \<le> last (now # map snd ticks)"
    using Cons.prems(1-3) by (simp_all add: x split: if_splits)
  note ts = next_tick_over_by [OF Cons.prems(4,8,5) tick(1) assms Cons.prems(6) tick(2,3) Cons.prems(7)]
  have iu: "ice_inv ?u" by (rule inv_tick [OF Cons.prems(4)])
  have pu: "proved ?u = proved s" by (rule proved_tick [OF Cons.prems(8)])
  have lu: "pred_option (\<lambda>u. u \<le> now) (ag_last_check_sent ?u)"
    using Cons.prems(7) tick(2) by (intro last_sent_tick [OF Cons.prems(8)]) (cases "ag_last_check_sent s"; simp)
  show ?case
  proof (cases "ag_state ?u = IceFailed")
    case True
    with tick_states [OF Cons.prems(4,8), of hmac tid now] have "idle ?u" "\<not> proved s" by auto
    then show ?thesis unfolding x run_ticks failed_stays [OF True] Let_def using True by simp
  next
    case False
    then have cu: "ag_state ?u = Checking" using tick_states [OF Cons.prems(4,8), of hmac tid now] by auto
    show ?thesis
      using Cons.IH [OF tick(4-6) iu ts lu cu tick_idle [OF Cons.prems(8) cu]] unfolding pu x run_ticks by blast
  qed
qed

text \<open>Property C21. Silence settles the agent in bounded time. Let a reachable checking agent whose pairs
  all have sockets receive nothing from some tick at time \<open>t\<close> on, while its driver keeps ticking with
  at most \<open>gap\<close> between two ticks (the documented drive has 50 milliseconds). Every check still to be
  started costs at most the pacing interval and a gap; an unanswered check is given up after its
  eight back-offs, 127.5 seconds and a gap for each. As soon as the ticks reach that time, no check is
  pending, triggered or waiting; the agent has failed when no pair had succeeded, and is still
  checking when one had. So a dead peer is reported in bounded time, but a controlling agent whose
  nomination is lost stays in Checking with nothing left to send.\<close>

theorem ice_silence_settles:
  fixes hmac s ticks t tid gap
  assumes "hmac_ok hmac" and "length tid = 12" and "list_all (\<lambda>(tid, _). length tid = 12) ticks"
    and "tick_clock gap t (map snd ticks)"
    and "ice_inv s" and "ag_state s = Checking" and "can_send s" and "stamped t s"
    and "t + unstarted s * (CHECK_PACING + gap) + (from_millis 127500 + 8 * gap) \<le> last (t # map snd ticks)"
  defines "s' \<equiv> fst (run (ice_step hmac) s (map (\<lambda>(tid, now). Tick tid now) ((tid, t) # ticks)))"
  shows "ag_pending s' = [] \<and> ag_triggered s' = [] \<and> list_all (\<lambda>p. ip_state p \<in> {Succeeded, Failed}) (ag_pairs s')
     \<and> ag_state s' = (if \<exists>p \<in> set (ag_pairs s). ip_state p = Succeeded then Checking else IceFailed)"
proof -
  let ?u = "fst (tick_at hmac tid t s)" and ?D = "t + unstarted s * (CHECK_PACING + gap) + lifetime gap 0"
  have "lifetime gap 0 = from_millis 127500 + 8 * gap"
    by (simp add: lifetime_def MAX_RETRANSMITS_def RETRANSMIT_TIMEOUT_def from_millis_def upt_rec)
  then have D: "?D \<le> last (t # map snd ticks)" using assms(9) by simp
  note first = first_tick_over_by [OF assms(5-7,2,1,8) order_refl [of ?D]]
  have lu: "pred_option (\<lambda>u. u \<le> t) (ag_last_check_sent ?u)"
    using assms(8) by (intro last_sent_tick [OF assms(6)]) (simp add: stamped_def)
  have pu: "proved ?u = proved s" by (rule proved_tick [OF assms(6)])
  have "idle s' \<and> ag_state s' = (if proved s then Checking else IceFailed)"
  proof (cases "ag_state ?u = IceFailed")
    case True
    with tick_states [OF assms(5,6), of hmac tid t] have "idle ?u" "\<not> proved s" by auto
    then show ?thesis unfolding s'_def run_ticks failed_stays [OF True] using True by simp
  next
    case False
    then have cu: "ag_state ?u = Checking" using tick_states [OF assms(5,6), of hmac tid t] by auto
    show ?thesis
      using silence_settles [OF assms(1,3,4) D inv_tick [OF assms(5)] first lu cu tick_idle [OF assms(6) cu]]
      unfolding pu s'_def run_ticks by (simp add: Let_def)
  qed
  then show ?thesis by (simp add: idle_def proved_def)
qed

section \<open>Roles\<close>

lemma pair_priority_value:
  fixes loc rem :: u32
  assumes "loc < 2 ^ 31"
  shows "unat (pair_priority Controlling loc rem) =
      2 ^ 32 * min (unat loc) (unat rem) + 2 * max (unat loc) (unat rem) + (if rem < loc then 1 else 0)"
proof -
  have l: "unat loc < 2 ^ 31" using assms by (simp add: word_less_nat_alt)
  have r: "unat rem < 2 ^ 32" using unsigned_less [of rem] by simp
  have m: "unat (min loc rem) = min (unat loc) (unat rem)" "unat (max loc rem) = max (unat loc) (unat rem)"
    by (simp_all add: min_def max_def word_le_nat_alt)
  have "unat (push_bit 32 (ucast (min loc rem)) :: u64) = 2 ^ 32 * min (unat loc) (unat rem)"
    using l r m by (simp add: push_bit_eq_mult unat_word_ariths unsigned_ucast_eq take_bit_nat_eq_self)
  moreover have "unat (push_bit 1 (ucast (max loc rem)) :: u64) = 2 * max (unat loc) (unat rem)"
    using l r m by (simp add: push_bit_eq_mult unat_word_ariths unsigned_ucast_eq take_bit_nat_eq_self)
  ultimately show ?thesis
    using l r unfolding pair_priority_def by (simp add: unat_word_ariths)
qed

text \<open>A number below the base is the lesser digit.\<close>

lemma digit_less:
  fixes a b x y K :: nat
  assumes "x < K" and "y < K"
  shows "K * a + x < K * b + y \<longleftrightarrow> a < b \<or> a = b \<and> x < y"
proof -
  have "K * a + x < K * b + y" if "a < b" "x < K" for a b x y
  proof -
    have "K * Suc a \<le> K * b" using that(1) by (intro mult_le_mono2) simp
    with that(2) show ?thesis by (simp add: trans_less_add1)
  qed
  from this [of a b x y] this [of b a y x] assms show ?thesis by (cases a b rule: linorder_cases) auto
qed

text \<open>Property C22. Both ends order the pairs alike. The controlling agent's priority for a pair of
  candidates equals the controlled agent's for the same two candidates seen from its side. For
  candidate priorities below \<open>2 ^ 31\<close>, as RFC 8445 has them, the 64-bit value does not overflow and
  orders pairs by the lesser priority of the two, then by the greater one, then by whether the
  controlling side has the greater.\<close>

theorem pair_priority_agrees:
  fixes loc rem loc' rem' :: u32
  assumes "loc < 2 ^ 31" and "rem < 2 ^ 31" and "loc' < 2 ^ 31" and "rem' < 2 ^ 31"
  shows "pair_priority Controlling loc rem = pair_priority Controlled rem loc \<and>
    unat (pair_priority Controlling loc rem) =
      2 ^ 32 * min (unat loc) (unat rem) + 2 * max (unat loc) (unat rem) + (if rem < loc then 1 else 0) \<and>
    (pair_priority Controlling loc rem < pair_priority Controlling loc' rem' \<longleftrightarrow>
      min loc rem < min loc' rem' \<or>
      min loc rem = min loc' rem' \<and> (max loc rem < max loc' rem' \<or>
        max loc rem = max loc' rem' \<and> \<not> rem < loc \<and> rem' < loc'))"
proof -
  let ?d = "\<lambda>(l :: u32) (r :: u32). 2 * max (unat l) (unat r) + (if r < l then 1 else 0 :: nat)"
  have lt: "unat loc < 2 ^ 31" "unat rem < 2 ^ 31" "unat loc' < 2 ^ 31" "unat rem' < 2 ^ 31"
    using assms by (simp_all add: word_less_nat_alt)
  have m: "unat (min l r) = min (unat l) (unat r)" "unat (max l r) = max (unat l) (unat r)" for l r :: u32
    by (simp_all add: min_def max_def word_le_nat_alt)
  have v: "unat (pair_priority Controlling loc rem) = 2 ^ 32 * min (unat loc) (unat rem) + ?d loc rem"
      "unat (pair_priority Controlling loc' rem') = 2 ^ 32 * min (unat loc') (unat rem') + ?d loc' rem'"
    using pair_priority_value assms by simp_all
  have "?d loc rem < 2 ^ 32" "?d loc' rem' < 2 ^ 32" using lt by auto
  then have "pair_priority Controlling loc rem < pair_priority Controlling loc' rem' \<longleftrightarrow>
      min (unat loc) (unat rem) < min (unat loc') (unat rem') \<or>
      min (unat loc) (unat rem) = min (unat loc') (unat rem') \<and> ?d loc rem < ?d loc' rem'"
    unfolding word_less_nat_alt v by (rule digit_less)
  moreover have "?d loc rem < ?d loc' rem' \<longleftrightarrow> max (unat loc) (unat rem) < max (unat loc') (unat rem') \<or>
      max (unat loc) (unat rem) = max (unat loc') (unat rem') \<and> \<not> rem < loc \<and> rem' < loc'"
    by auto
  moreover have "pair_priority Controlling loc rem = pair_priority Controlled rem loc"
    by (simp add: pair_priority_def)
  ultimately show ?thesis
    using v(1) unfolding word_less_nat_alt [of "min loc rem"] word_less_nat_alt [of "max loc rem"]
      word_unat_eq_iff [of "min loc rem"] word_unat_eq_iff [of "max loc rem"] m by simp
qed

theorem pair_priority_agrees_witness:
  "pair_priority Controlling 100 2130706431 < pair_priority Controlling 2130706431 200"
  using pair_priority_agrees [THEN conjunct2, THEN conjunct2, of 100 2130706431 2130706431 200]
  by (simp add: word_less_nat_alt min_def max_def word_le_nat_alt)

text \<open>Result. The agent takes a remote candidate's 32-bit priority as it is received. One of
  \<open>2 ^ 31\<close> or more spoils the order: the pair of priorities 1 and \<open>2 ^ 32 - 1\<close> is ranked above the
  pair of 2 and 2, although its lesser priority is smaller.\<close>

theorem oversized_priority_outranks:
  "pair_priority Controlling 2 2 < pair_priority Controlling 1 (2 ^ 32 - 1)"
  unfolding word_less_nat_alt by (subst (1 2) pair_priority_value) (simp_all add: word_less_nat_alt)

lemma resume_fields [simp]:
  "ag_pairs (resume_checking s) = ag_pairs s" "ag_role (resume_checking s) = ag_role s" "ag_pending (resume_checking s) = ag_pending s"
  "ag_params (resume_checking s) = ag_params s" "ag_sockets (resume_checking s) = ag_sockets s"
  by (simp_all add: resume_checking_def)

lemma add_remote_fields [simp]:
  "ag_role (add_remote_candidate s rem) = ag_role s" "ag_pending (add_remote_candidate s rem) = ag_pending s"
proof -
  have "ag_role (foldl (\<lambda>s loc. fst (form_pair s loc rem)) t locs) = ag_role t \<and>
      ag_pending (foldl (\<lambda>s loc. fst (form_pair s loc rem)) t locs) = ag_pending t" for t locs
    by (induction locs arbitrary: t) simp_all
  then show "ag_role (add_remote_candidate s rem) = ag_role s" "ag_pending (add_remote_candidate s rem) = ag_pending s"
    by (simp_all add: add_remote_candidate_def Let_def)
qed

lemma learn_remote_fields [simp]:
  "ag_role (learn_remote_prflx msg src dst s) = ag_role s" "ag_pending (learn_remote_prflx msg src dst s) = ag_pending s"
  by (simp_all add: learn_remote_prflx_def Let_def)

lemma trigger_pair_fields:
  assumes "ip_state (ag_pairs s ! idx) \<noteq> Succeeded"
  shows "ag_role (trigger_pair clk msg idx s) = ag_role s" "ag_pending (trigger_pair clk msg idx s) = ag_pending s"
proof -
  define s1 where "s1 = (if sm_use_candidate msg \<and> ag_role s = Controlled
                then set_pair idx (\<lambda>p. p \<lparr> ip_nominate_requested := True \<rparr>) s else s)"
  have "ip_state (ag_pairs s1 ! idx) = ip_state (ag_pairs s ! idx)"
    by (cases "idx < length (ag_pairs s)") (simp_all add: s1_def list_update_beyond)
  moreover have "ag_role s1 = ag_role s" "ag_pending s1 = ag_pending s" by (simp_all add: s1_def)
  ultimately show "ag_role (trigger_pair clk msg idx s) = ag_role s" "ag_pending (trigger_pair clk msg idx s) = ag_pending s"
    using assms unfolding trigger_pair_def Let_def s1_def [symmetric] by (simp_all split: pair_state.split)
qed

text \<open>Result. Crossing checks undo a resolved role conflict. Two agents that both think they control
  resolve it by tie-breaker: the one with the smaller tie-breaker switches to controlled when the
  other's check arrives. If its own check was on the way at that moment, the other side answers it
  with an authenticated 487, and the handler flips whatever role the agent has by then: it is back
  to controlling and the conflict is restored. RFC 8445 section 7.2.5.1 has the agent take the role
  opposite to the one its request carried.\<close>

theorem ice_crossing_checks_restore_conflict:
  fixes hmac s bs bs' clk src dst m e
  assumes "ag_role s = Controlling" and "list_all (\<lambda>p. ip_state p \<noteq> Succeeded) (ag_pairs s)"
    and "decode bs = Inr m" and "sm_class m = Request" and "sm_has_fingerprint m" and "verify_fingerprint bs"
    and "sm_has_message_integrity m" and "verify_message_integrity hmac bs (octets_of (ip_local_pwd (ag_params s)))"
    and "sm_username m = Some (ip_local_ufrag (ag_params s) @ '':'' @ ip_remote_ufrag (ag_params s))"
    and "sm_ice_controlling m = Some theirs" and "ip_tie_breaker (ag_params s) < theirs"
    and "decode bs' = Inr e" and "sm_class e = ErrorResponse" and "map_option ec_code (sm_error_code e) = Some ERR_ROLE_CONFLICT"
    and "verify_message_integrity hmac bs' (octets_of (ip_remote_pwd (ag_params s)))"
    and "sm_transaction_id e \<in> pc_transaction_id ` set (ag_pending s)"
  defines "s1 \<equiv> fst (handle_datagram_at hmac clk bs src dst s)"
  shows "ag_role s1 = Controlled \<and> ag_role (fst (handle_datagram_at hmac clk bs' src dst s1)) = Controlling"
proof -
  let ?s0 = "learn_remote_prflx m src dst (switch_role Controlled s)"
  have rr: "resolve_roles s m = Some (switch_role Controlled s)"
    using assms(1,10,11) by (simp add: resolve_roles_def)
  have s1: "s1 = (case find_pair ?s0 dst src of Some idx \<Rightarrow> trigger_pair clk m idx ?s0 | None \<Rightarrow> ?s0)"
    using assms(3-9) rr by (simp add: s1_def handle_datagram_at_def handle_request_def Let_def)
  have q: "quiet s ?s0"
    by (rule quiet_trans [OF quiet_switch_role [of s Controlled]]) (simp add: learn_remote_prflx_def Let_def quiet_add_remote)
  have ns: "ip_state (ag_pairs ?s0 ! idx) \<noteq> Succeeded" if "idx < length (ag_pairs ?s0)" for idx
    using q assms(2) that unfolding quiet_def list_all_length by blast
  have r1: "ag_role s1 = Controlled \<and> ag_pending s1 = ag_pending s"
  proof (cases "find_pair ?s0 dst src")
    case (Some idx)
    then have "idx < length (ag_pairs ?s0)" unfolding find_pair_def by (blast dest: position_Some)
    from trigger_pair_fields [OF ns [OF this], of clk m] Some show ?thesis unfolding s1 by simp
  qed (simp add: s1)
  have p1: "ag_params s1 = ag_params s"
    using quiet_handle_request [of s hmac clk m bs src dst] assms(3,4)
    by (simp add: s1_def handle_datagram_at_def quiet_def evolves_def)
  from assms(16) r1 obtain check s2 where t: "take_pending (sm_transaction_id e) s1 = Some (check, s2)"
    unfolding take_pending_def by (cases "position (\<lambda>c. pc_transaction_id c = sm_transaction_id e) (ag_pending s1)")
      (auto simp: position_None)
  have "ag_role s2 = Controlled" using take_pendingD(3) [OF t] r1 by auto
  with t assms(12-15) p1 have "ag_role (fst (handle_datagram_at hmac clk bs' src dst s1)) = Controlling"
    by (auto simp: handle_datagram_at_def handle_error_def Let_def flip_def)
  with r1 show ?thesis by blast
qed

text \<open>Result. A pair without a socket blocks the pairs behind it. A peer-reflexive local candidate
  learned from a response has no socket, yet later remote candidates are paired with it. Once such
  a pair is the best waiting one and nothing is triggered or pending, a tick picks it, cannot
  send, and leaves the agent exactly as it was: lower pairs are never checked and the agent never
  fails.\<close>

theorem ice_socketless_pair_blocks:
  assumes "ag_state s = Checking" and "ag_triggered s = []" and "ag_pending s = []"
    and "next_ordinary s = Some i" and "ag_sockets s (local_addr (ag_pairs s ! i)) = None"
  shows "tick_at hmac tid now s = (s, [])"
proof -
  have nt: "s \<lparr> ag_triggered := [] \<rparr> = s" using assms(2) by simp
  have r: "retransmit now s = (s, [])" using assms(3) by (simp add: retransmit_def)
  have n: "next_check s = (s, Some (i, False))"
    using assms(4) by (simp add: next_check_def assms(2) nt Let_def)
  have "start_check hmac tid now s = (s, [])"
    using assms(5) by (simp add: start_check_def n send_check_def Let_def)
  moreover have "update_failure s = s"
  proof (cases rule: update_failure_cases [of s])
    case (2 r)
    then show ?thesis using next_ordinary_Some [OF assms(4)] by (auto simp: list_all_length)
  qed
  ultimately show ?thesis by (simp add: tick_at_def assms(1) r)
qed

section \<open>A sample exchange\<close>

text \<open>A controlling agent with one host candidate and one remote candidate: it checks the pair,
  nominates it, and completes.\<close>

definition near :: socket_addr where "near = \<lparr> sa_ip = [10, 0, 0, 1], sa_port = 5000 \<rparr>"
definition far :: socket_addr where "far = \<lparr> sa_ip = [10, 0, 0, 2], sa_port = 6000 \<rparr>"

definition sample_params :: ice_params where
  "sample_params = \<lparr> ip_local_ufrag = ''near'', ip_local_pwd = ''nearpwd'', ip_remote_ufrag = ''far'', ip_remote_pwd = ''farpwd'',
     ip_role = Controlling, ip_tie_breaker = 7 \<rparr>"

definition sample_pair :: ice_pair where
  "sample_pair = fresh_pair Controlling (make_host_candidate near 1 0) (make_host_candidate far 1 0)"

definition sample_agent :: ice_agent where
  "sample_agent = agent_new sample_params [make_host_candidate near 1 0] [make_host_candidate far 1 0] [near \<mapsto> 1]"

definition sample_tid :: "u8 \<Rightarrow> transaction_id" where "sample_tid n = replicate 12 n"

lemma sample_ends: "local_addr sample_pair = near" "remote_addr sample_pair = far" "ip_state sample_pair = Waiting"
  "\<not> ip_nominate_requested sample_pair" "cand_addr (make_host_candidate near 1 0) = near"
  by (simp_all add: sample_pair_def fresh_pair_def local_addr_def remote_addr_def cand_addr_def make_host_candidate_def near_def far_def)

lemma sample_agent_eq:
  "sample_agent = \<lparr> ag_params = sample_params, ag_role = Controlling, ag_local_candidates = [make_host_candidate near 1 0],
     ag_remote_candidates = [make_host_candidate far 1 0], ag_pairs = [sample_pair], ag_triggered = [], ag_pending = [],
     ag_sockets = [near \<mapsto> 1], ag_state = Checking, ag_selected = None, ag_nomination_in_flight = False,
     ag_last_check_sent = None, ag_last_keepalive = None, ag_keepalive_interval = KEEPALIVE_INTERVAL, ag_failure = None,
     ag_metrics = None \<rparr>"
proof -
  have "ic_component (make_host_candidate near 1 0) = ic_component (make_host_candidate far 1 0)"
    "length (ic_address (make_host_candidate near 1 0)) = 4" "length (ic_address (make_host_candidate far 1 0)) = 4"
    by (simp_all add: make_host_candidate_def near_def far_def)
  then show ?thesis
    by (simp add: sample_agent_def agent_new_def add_remote_candidate_def Let_def form_pair_def find_pair_def resume_checking_def
        sample_pair_def fresh_pair_def sample_params_def sample_ends(5))
qed

lemma sample_can_send: "can_send s" if "ag_sockets s = [near \<mapsto> 1]" "ag_params s = sample_params" "list_all (\<lambda>p. local_addr p = near) (ag_pairs s)"
  using that by (auto simp: can_send_def list_all_iff sample_params_def is_ascii_def valid_utf8_ascii)

text \<open>The peer's answer to a check, sealed with its password.\<close>

lemma sample_answer:
  "\<exists>bs. decode bs = Inr ((bare SuccessResponse (sample_tid n)) \<lparr> sm_xor_mapped_address := Some near,
       sm_has_message_integrity := True, sm_has_fingerprint := True \<rparr>)
     \<and> verify_message_integrity demo_hmac bs (octets_of (ip_remote_pwd sample_params)) \<and> verify_fingerprint bs"
proof -
  let ?m = "(bare SuccessResponse (sample_tid n)) \<lparr> sm_xor_mapped_address := Some near \<rparr>"
  have "stun_ok ?m" by (simp add: stun_ok_def bare_def sample_tid_def addr_ok_def near_def)
  from stun_sealed_roundtrip [OF this demo_hmac_ok, of "Some (octets_of (ip_remote_pwd sample_params))" True] show ?thesis by auto
qed

text \<open>A check on the only pair, and the answer to it.\<close>

lemma sample_tick:
  fixes s now n p nom
  assumes "ag_state s = Checking" and "ag_pending s = []" and "paced now s" and "ag_sockets s = [near \<mapsto> 1]"
    and "ag_params s = sample_params" and "ag_pairs s = [p]" and "local_addr p = near"
    and "(ag_triggered s = [] \<and> ip_state p = Waiting \<and> nom = False) \<or> (ag_triggered s = [(0, nom)] \<and> ip_state p = Succeeded)"
  defines "u \<equiv> fst (tick_at demo_hmac (sample_tid n) now s)"
  shows "\<exists>c p'. ag_pairs u = [p'] \<and> ag_triggered u = [] \<and> ag_pending u = [c] \<and> ag_last_check_sent u = Some now
     \<and> ag_state u = Checking \<and> ag_params u = ag_params s \<and> ag_sockets u = ag_sockets s \<and> ag_role u = ag_role s
     \<and> ag_selected u = ag_selected s \<and> ag_nomination_in_flight u = ag_nomination_in_flight s
     \<and> ag_local_candidates u = ag_local_candidates s \<and> same_pair p' p \<and> ip_state p' \<in> {InProgress, Succeeded} \<and> ip_nominate_requested p' = ip_nominate_requested p
     \<and> pc_transaction_id c = sample_tid n \<and> pc_pair_idx c = 0 \<and> pc_nominating c = nom"
proof -
  define v where "v = s \<lparr> ag_triggered := [] \<rparr>"
  have r: "retransmit now s = (s, [])" using assms(2) by (simp add: retransmit_def)
  have nc: "next_check s = (v, Some (0, nom))"
    using assms(6,8) by (auto simp: next_check_def Let_def v_def next_ordinary_def)
  have cu: "can_send v" by (rule sample_can_send) (use assms(4-7) in \<open>simp_all add: v_def\<close>)
  have "length (sample_tid n) = 12" "0 < length (ag_pairs v)" using assms(6) by (simp_all add: sample_tid_def v_def)
  from send_check_sends [OF cu this(1) demo_hmac_ok this(2), of nom now] obtain socket bs where
    sc: "fst (send_check demo_hmac (sample_tid n) 0 nom now v) =
       (if ip_state (ag_pairs v ! 0) \<noteq> Succeeded then set_pair 0 (\<lambda>p. p \<lparr> ip_state := InProgress \<rparr>) v else v)
         \<lparr> ag_pending := ag_pending v @ [\<lparr> pc_pair_idx = 0, pc_transaction_id = sample_tid n, pc_bytes = bs,
              pc_destination = remote_addr (ag_pairs v ! 0), pc_socket = socket, pc_last_sent = now,
              pc_retransmits = 0, pc_nominating = nom \<rparr>], ag_last_check_sent := Some now \<rparr>" by metis
  have "u = update_failure (fst (send_check demo_hmac (sample_tid n) 0 nom now v))"
    by (simp add: u_def tick_at_def assms(1) r start_check_def assms(3) nc case_prod_unfold Let_def)
  moreover have "update_failure t = t" if "ag_pending t \<noteq> []" for t using that by (cases rule: update_failure_cases [of t]) auto
  ultimately have t: "u = fst (send_check demo_hmac (sample_tid n) 0 nom now v)"
    unfolding sc by simp
  show ?thesis unfolding t sc using assms(1,2,6) by (auto simp: v_def set_pair_def same_pair_def)
qed

lemma sample_recv:
  fixes s c p n bs clk
  assumes "ag_pending s = [c]" and "pc_transaction_id c = sample_tid n" and "pc_pair_idx c = 0" and "ag_pairs s = [p]"
    and "ag_params s = sample_params" and "local_addr p = near" and "remote_addr p = far" and "ag_state s = Checking"
    and "ag_local_candidates s = [make_host_candidate near 1 0]" and "\<not> ip_nominate_requested p"
    and "ag_role s = Controlling" and "ag_selected s = None" and "ag_triggered s = []" and "\<not> ag_nomination_in_flight s \<or> pc_nominating c"
    and "decode bs = Inr ((bare SuccessResponse (sample_tid n)) \<lparr> sm_xor_mapped_address := Some near,
       sm_has_message_integrity := True, sm_has_fingerprint := True \<rparr>)"
    and "verify_message_integrity demo_hmac bs (octets_of (ip_remote_pwd sample_params))" and "verify_fingerprint bs"
  defines "u \<equiv> fst (handle_datagram_at demo_hmac clk bs far near s)"
  shows "(pc_nominating c \<longrightarrow> ag_state u = Completed) \<and>
    (\<not> pc_nominating c \<longrightarrow> ag_state u = Checking \<and> ag_pending u = [] \<and> ag_triggered u = [(0, True)] \<and> ag_params u = sample_params
       \<and> ag_sockets u = ag_sockets s \<and> ag_role u = Controlling \<and> ag_selected u = None \<and> ag_local_candidates u = ag_local_candidates s
       \<and> ag_last_check_sent u = ag_last_check_sent s
       \<and> (\<exists>q. ag_pairs u = [q] \<and> same_pair q p \<and> ip_state q = Succeeded \<and> \<not> ip_nominate_requested q))"
proof -
  have t: "take_pending (sample_tid n) s = Some (c, s \<lparr> ag_pending := [] \<rparr>)"
    using assms(1,2) by (simp add: take_pending_def)
  have known: "cand_addr (make_host_candidate near 1 0) = near" by (rule sample_ends)
  show ?thesis
    unfolding u_def handle_datagram_at_def assms(15)
    using assms(3-14,16,17) t known
    by (auto simp: bare_def handle_success_def learn_local_prflx_def set_pair_def bump_check_def nominate_def Let_def same_pair_def)
qed

lemma sample_completes: "\<exists>es. ag_state (fst (run (ice_step demo_hmac) sample_agent es)) = Completed"
proof -
  obtain r1 where r1: "decode r1 = Inr ((bare SuccessResponse (sample_tid 1)) \<lparr> sm_xor_mapped_address := Some near,
       sm_has_message_integrity := True, sm_has_fingerprint := True \<rparr>)"
    "verify_message_integrity demo_hmac r1 (octets_of (ip_remote_pwd sample_params))" "verify_fingerprint r1" using sample_answer by blast
  obtain r2 where r2: "decode r2 = Inr ((bare SuccessResponse (sample_tid 2)) \<lparr> sm_xor_mapped_address := Some near,
       sm_has_message_integrity := True, sm_has_fingerprint := True \<rparr>)"
    "verify_message_integrity demo_hmac r2 (octets_of (ip_remote_pwd sample_params))" "verify_fingerprint r2" using sample_answer by blast
  let ?s1 = "fst (tick_at demo_hmac (sample_tid 1) 0 sample_agent)"
  let ?s2 = "fst (handle_datagram_at demo_hmac 0 r1 far near ?s1)"
  let ?s3 = "fst (tick_at demo_hmac (sample_tid 2) CHECK_PACING ?s2)"
  let ?s4 = "fst (handle_datagram_at demo_hmac 0 r2 far near ?s3)"
  have "\<exists>c p'. ag_pairs ?s1 = [p'] \<and> ag_triggered ?s1 = [] \<and> ag_pending ?s1 = [c] \<and> ag_last_check_sent ?s1 = Some 0
     \<and> ag_state ?s1 = Checking \<and> ag_params ?s1 = ag_params sample_agent \<and> ag_sockets ?s1 = ag_sockets sample_agent \<and> ag_role ?s1 = ag_role sample_agent
     \<and> ag_selected ?s1 = ag_selected sample_agent \<and> ag_nomination_in_flight ?s1 = ag_nomination_in_flight sample_agent
     \<and> ag_local_candidates ?s1 = ag_local_candidates sample_agent \<and> same_pair p' sample_pair \<and> ip_state p' \<in> {InProgress, Succeeded}
     \<and> ip_nominate_requested p' = ip_nominate_requested sample_pair
     \<and> pc_transaction_id c = sample_tid 1 \<and> pc_pair_idx c = 0 \<and> pc_nominating c = False"
    by (rule sample_tick) (simp_all add: sample_agent_eq paced_def sample_ends)
  then obtain c1 p1 where s1: "ag_pairs ?s1 = [p1]" "ag_triggered ?s1 = []" "ag_pending ?s1 = [c1]" "ag_last_check_sent ?s1 = Some 0"
     "ag_state ?s1 = Checking" "ag_params ?s1 = sample_params" "ag_sockets ?s1 = [near \<mapsto> 1]" "ag_role ?s1 = Controlling"
     "ag_selected ?s1 = None" "\<not> ag_nomination_in_flight ?s1" "ag_local_candidates ?s1 = [make_host_candidate near 1 0]"
     "same_pair p1 sample_pair" "\<not> ip_nominate_requested p1" "pc_transaction_id c1 = sample_tid 1" "pc_pair_idx c1 = 0" "\<not> pc_nominating c1"
    by (auto simp: sample_agent_eq sample_ends)
  have ends1: "local_addr p1 = near" "remote_addr p1 = far"
    using s1(12) sample_ends by (simp_all add: same_pair_def local_addr_def remote_addr_def)
  from sample_recv [OF s1(3,14,15,1,6) ends1 s1(5,11,13,8,9,2) _ r1, of 0] s1(10,16)
  obtain p2 where s2: "ag_state ?s2 = Checking" "ag_pending ?s2 = []" "ag_triggered ?s2 = [(0, True)]" "ag_params ?s2 = sample_params"
    "ag_sockets ?s2 = ag_sockets ?s1" "ag_role ?s2 = Controlling" "ag_selected ?s2 = None" "ag_local_candidates ?s2 = ag_local_candidates ?s1"
    "ag_last_check_sent ?s2 = ag_last_check_sent ?s1" "ag_pairs ?s2 = [p2]" "same_pair p2 p1" "ip_state p2 = Succeeded" "\<not> ip_nominate_requested p2"
    by blast
  have ends2: "local_addr p2 = near" "remote_addr p2 = far"
    using s2(11) ends1 by (simp_all add: same_pair_def local_addr_def remote_addr_def)
  have "\<exists>c p'. ag_pairs ?s3 = [p'] \<and> ag_triggered ?s3 = [] \<and> ag_pending ?s3 = [c] \<and> ag_last_check_sent ?s3 = Some CHECK_PACING
     \<and> ag_state ?s3 = Checking \<and> ag_params ?s3 = ag_params ?s2 \<and> ag_sockets ?s3 = ag_sockets ?s2 \<and> ag_role ?s3 = ag_role ?s2
     \<and> ag_selected ?s3 = ag_selected ?s2 \<and> ag_nomination_in_flight ?s3 = ag_nomination_in_flight ?s2
     \<and> ag_local_candidates ?s3 = ag_local_candidates ?s2 \<and> same_pair p' p2 \<and> ip_state p' \<in> {InProgress, Succeeded}
     \<and> ip_nominate_requested p' = ip_nominate_requested p2
     \<and> pc_transaction_id c = sample_tid 2 \<and> pc_pair_idx c = 0 \<and> pc_nominating c = True"
    by (rule sample_tick) (use s2 s1 ends2 in \<open>simp_all add: paced_def\<close>)
  then obtain c3 p3 where s3: "ag_pairs ?s3 = [p3]" "ag_triggered ?s3 = []" "ag_pending ?s3 = [c3]"
     "ag_state ?s3 = Checking" "ag_params ?s3 = sample_params" "ag_role ?s3 = Controlling"
     "ag_selected ?s3 = None" "ag_local_candidates ?s3 = [make_host_candidate near 1 0]"
     "same_pair p3 p2" "\<not> ip_nominate_requested p3" "pc_transaction_id c3 = sample_tid 2" "pc_pair_idx c3 = 0" "pc_nominating c3"
    using s2 s1 by auto
  have ends3: "local_addr p3 = near" "remote_addr p3 = far"
    using s3(9) ends2 by (simp_all add: same_pair_def local_addr_def remote_addr_def)
  from sample_recv [OF s3(3,11,12,1,5) ends3 s3(4,8,10,6,7,2) _ r2, of 0] s3(13) have "ag_state ?s4 = Completed" by blast
  moreover have "fst (run (ice_step demo_hmac) sample_agent [Tick (sample_tid 1) 0, Recv r1 far near 0, Tick (sample_tid 2) CHECK_PACING, Recv r2 far near 0]) = ?s4"
    by (simp only: run_Cons_state ice_step_state run.simps(1) fst_conv)
  ultimately show ?thesis by metis
qed

theorem ice_selection_proved_witness:
  "\<exists>es i. let s = fst (run (ice_step demo_hmac) sample_agent es)
     in ag_state s = Completed \<and> ag_selected s = Some i \<and> ip_state (ag_pairs s ! i) = Succeeded
        \<and> (\<exists>e \<in> set es. proves demo_hmac sample_params e (local_addr (ag_pairs s ! i), remote_addr (ag_pairs s ! i)))"
proof -
  obtain es where c: "ag_state (fst (run (ice_step demo_hmac) sample_agent es)) = Completed" using sample_completes by blast
  from ice_selection_proved [OF this [unfolded sample_agent_def]] c show ?thesis
    unfolding sample_agent_def [symmetric] Let_def by blast
qed

theorem ice_selection_is_final_witness:
  "\<exists>s. ice_inv s \<and> ag_state s = Completed \<and> ag_state (fst (run (ice_step demo_hmac) s [Trickle (make_host_candidate far 1 1), Tick (sample_tid 3) 0])) = Completed"
proof -
  obtain es where c: "ag_state (fst (run (ice_step demo_hmac) sample_agent es)) = Completed" using sample_completes by blast
  have i: "ice_inv (fst (run (ice_step demo_hmac) sample_agent es))" unfolding sample_agent_def by (rule ice.run_preserves [OF inv_new])
  from ice_selection_is_final [OF i c, of demo_hmac "[Trickle (make_host_candidate far 1 1), Tick (sample_tid 3) 0]"] i c show ?thesis by blast
qed

theorem ice_unauthenticated_ignored_witness:
  "fst (handle_datagram_at demo_hmac 0 (replicate 20 0) far near sample_agent) = sample_agent"
proof (rule ice_unauthenticated_ignored)
  have "find_attr_offset (replicate 20 0) ATTR_MESSAGE_INTEGRITY = None"
    by (simp add: find_attr_offset_def STUN_HEADER_LEN_def slice_def from_be_def numeral_eq_Suc find_attr_loop.simps)
  then show "\<not> verify_message_integrity demo_hmac (replicate 20 0) k" for k by (simp add: verify_message_integrity_def)
  then show "\<not> verify_message_integrity demo_hmac (replicate 20 0) k" for k .
  have "from_be (slice 4 8 (replicate 20 0)) = (0 :: u32)" by (simp add: slice_def from_be_def numeral_eq_Suc)
  moreover have "MAGIC_COOKIE \<noteq> 0" by (simp add: MAGIC_COOKIE_def)
  ultimately have "decode (replicate 20 0) = Inl (Malformed (Text ''wrong magic cookie''))"
    by (simp add: decode_def STUN_HEADER_LEN_def Let_def)
  then show "case decode (replicate 20 0) of
           Inr m \<Rightarrow> sm_class m = ErrorResponse \<longrightarrow> map_option ec_code (sm_error_code m) = Some ERR_ROLE_CONFLICT \<or>
                      sm_transaction_id m \<notin> pc_transaction_id ` set (ag_pending sample_agent)
         | Inl _ \<Rightarrow> True" by simp
qed

lemma regular_clock: "tick_clock gap t (map (\<lambda>k. t + Suc k * gap) [0..<n])"
proof -
  have "tick_clock gap (t + i * gap) (map (\<lambda>k. t + Suc k * gap) [i..<n])" if "i \<le> n" for i
    using that
  proof (induction i rule: inc_induct)
    case (step i)
    then show ?case by (simp add: upt_conv_Cons del: upt_Suc)
  qed simp
  from this [of 0] show ?thesis by simp
qed

text \<open>The sample agent, ticked every 50 milliseconds for 130 seconds without an answer.\<close>

theorem ice_silence_settles_witness:
  "ag_state (fst (run (ice_step demo_hmac) sample_agent
     (map (\<lambda>(tid, now). Tick tid now)
       ((sample_tid 0, 0) # map (\<lambda>k. (sample_tid 0, Suc k * from_millis 50)) [0..<2600])))) = IceFailed"
proof -
  let ?ticks = "map (\<lambda>k. (sample_tid 0, Suc k * from_millis 50)) [0..<2600]"
  have i: "ice_inv sample_agent" unfolding sample_agent_def by (rule inv_new)
  have c: "can_send sample_agent" by (rule sample_can_send) (simp_all add: sample_agent_eq sample_ends)
  have l: "length (sample_tid 0) = 12" by (simp add: sample_tid_def)
  then have t: "list_all (\<lambda>(tid, _). length tid = 12) ?ticks" by (simp add: list_all_iff)
  have clock: "tick_clock (from_millis 50) 0 (map snd ?ticks)"
    using regular_clock [of "from_millis 50" 0 2600] by (simp add: comp_def)
  have "last (0 # map snd ?ticks) = 2600 * from_millis 50" by (simp add: last_map comp_def)
  moreover have a: "ag_state sample_agent = Checking" "stamped 0 sample_agent" "unstarted sample_agent \<le> 1"
    by (simp_all add: sample_agent_eq stamped_def unstarted_def sample_ends)
  moreover have "unstarted sample_agent * (CHECK_PACING + from_millis 50) \<le> 1 * (CHECK_PACING + from_millis 50)"
    using a(3) by (rule mult_le_mono1)
  ultimately have "0 + unstarted sample_agent * (CHECK_PACING + from_millis 50) + (from_millis 127500 + 8 * from_millis 50)
      \<le> last (0 # map snd ?ticks)"
    by (simp add: CHECK_PACING_def from_millis_def)
  from ice_silence_settles [OF demo_hmac_ok l t clock i a(1) c a(2) this] show ?thesis
    by (simp add: sample_agent_eq sample_ends)
qed

text \<open>The same agent after its first check went out, a conflicting check from the peer and the peer's
  487 to the first check.\<close>

theorem ice_crossing_checks_restore_conflict_witness:
  "\<exists>s bs bs'. ag_role s = Controlling \<and> ice_inv s \<and>
     (let s1 = fst (handle_datagram_at demo_hmac 0 bs far near s)
      in ag_role s1 = Controlled \<and> ag_role (fst (handle_datagram_at demo_hmac 0 bs' far near s1)) = Controlling)"
proof -
  let ?s = "fst (tick_at demo_hmac (sample_tid 1) 0 sample_agent)"
  have "\<exists>c p'. ag_pairs ?s = [p'] \<and> ag_triggered ?s = [] \<and> ag_pending ?s = [c] \<and> ag_last_check_sent ?s = Some 0
     \<and> ag_state ?s = Checking \<and> ag_params ?s = ag_params sample_agent \<and> ag_sockets ?s = ag_sockets sample_agent \<and> ag_role ?s = ag_role sample_agent
     \<and> ag_selected ?s = ag_selected sample_agent \<and> ag_nomination_in_flight ?s = ag_nomination_in_flight sample_agent
     \<and> ag_local_candidates ?s = ag_local_candidates sample_agent \<and> same_pair p' sample_pair \<and> ip_state p' \<in> {InProgress, Succeeded}
     \<and> ip_nominate_requested p' = ip_nominate_requested sample_pair
     \<and> pc_transaction_id c = sample_tid 1 \<and> pc_pair_idx c = 0 \<and> pc_nominating c = False"
    by (rule sample_tick) (simp_all add: sample_agent_eq paced_def sample_ends)
  then obtain c where s: "ag_role ?s = Controlling" "ag_params ?s = sample_params" "ag_pending ?s = [c]" "pc_transaction_id c = sample_tid 1"
    by (auto simp: sample_agent_eq)
  have ns: "list_all (\<lambda>p. ip_state p \<noteq> Succeeded) (ag_pairs ?s)"
    using quiet_tick [of sample_agent demo_hmac "sample_tid 1" 0] unfolding quiet_def list_all_length
    by (auto simp: sample_agent_eq sample_ends)
  define m where "m = (bare Request (sample_tid 2)) \<lparr> sm_username := Some ''near:far'', sm_priority := Some 5, sm_ice_controlling := Some 9 \<rparr>"
  define e where "e = (bare ErrorResponse (sample_tid 1)) \<lparr> sm_error_code := Some \<lparr> ec_code = ERR_ROLE_CONFLICT, ec_reason = ''Role Conflict'' \<rparr> \<rparr>"
  have "stun_ok m" "stun_ok e"
    by (simp_all add: m_def e_def stun_ok_def bare_def sample_tid_def ERR_ROLE_CONFLICT_def is_ascii_def valid_utf8_ascii)
  note ok = this
  obtain bs where bs: "decode bs = Inr (m \<lparr> sm_has_message_integrity := True, sm_has_fingerprint := True \<rparr>)"
    "verify_message_integrity demo_hmac bs (octets_of (ip_local_pwd sample_params))" "verify_fingerprint bs"
    using stun_sealed_roundtrip [OF ok(1) demo_hmac_ok, of "Some (octets_of (ip_local_pwd sample_params))" True] by auto
  obtain bs' where bs': "decode bs' = Inr (e \<lparr> sm_has_message_integrity := True, sm_has_fingerprint := True \<rparr>)"
    "verify_message_integrity demo_hmac bs' (octets_of (ip_remote_pwd sample_params))"
    using stun_sealed_roundtrip [OF ok(2) demo_hmac_ok, of "Some (octets_of (ip_remote_pwd sample_params))" True] by auto
  have "ag_role (fst (handle_datagram_at demo_hmac 0 bs far near ?s)) = Controlled \<and>
      ag_role (fst (handle_datagram_at demo_hmac 0 bs' far near (fst (handle_datagram_at demo_hmac 0 bs far near ?s)))) = Controlling"
    by (rule ice_crossing_checks_restore_conflict [OF s(1) ns bs(1) _ _ bs(3) _ _ _ _ _ bs'(1), where theirs = 9])
      (use s bs(2) bs'(2) in \<open>simp_all add: m_def e_def bare_def sample_params_def\<close>)
  moreover have "ice_inv ?s" unfolding sample_agent_def by (rule inv_tick [OF inv_new])
  ultimately show ?thesis using s(1) by (intro exI [of _ ?s] exI [of _ bs] exI [of _ bs']) (simp add: Let_def)
qed

text \<open>An agent behind a translator: the first pair succeeded with a mapped address, a second remote
  candidate was trickled, and its pair with the host candidate has failed.\<close>

definition sample_blocked :: ice_agent where
  "sample_blocked = set_pair 1 (\<lambda>p. p \<lparr> ip_state := Failed \<rparr>)
     (add_remote_candidate
       (set_pair 0 (\<lambda>p. p \<lparr> ip_state := Succeeded \<rparr>) (learn_local_prflx \<lparr> sa_ip = [192, 0, 2, 1], sa_port = 7000 \<rparr> 0 sample_agent))
       (make_host_candidate \<lparr> sa_ip = [10, 0, 0, 3], sa_port = 6000 \<rparr> 1 1))"

lemma sample_blocked_state:
  "ag_state sample_blocked = Checking" "ag_triggered sample_blocked = []" "ag_pending sample_blocked = []"
  "next_ordinary sample_blocked = Some 2" "ag_sockets sample_blocked (local_addr (ag_pairs sample_blocked ! 2)) = None"
  unfolding sample_blocked_def sample_agent_eq sample_pair_def
  by (simp_all add: learn_local_prflx_def add_remote_candidate_def form_pair_def find_pair_def set_pair_def resume_checking_def
      Let_def fresh_pair_def make_host_candidate_def cand_addr_def local_addr_def remote_addr_def near_def far_def next_ordinary_def)

theorem ice_socketless_pair_blocks_witness:
  "ag_state sample_blocked = Checking \<and> ip_state (ag_pairs sample_blocked ! 0) = Succeeded \<and>
   tick_at demo_hmac (sample_tid 4) 0 sample_blocked = (sample_blocked, [])"
proof -
  have "ip_state (ag_pairs sample_blocked ! 0) = Succeeded"
    unfolding sample_blocked_def sample_agent_eq sample_pair_def
    by (simp add: learn_local_prflx_def add_remote_candidate_def form_pair_def find_pair_def set_pair_def resume_checking_def
      Let_def fresh_pair_def make_host_candidate_def cand_addr_def local_addr_def remote_addr_def near_def far_def)
  with ice_socketless_pair_blocks [OF sample_blocked_state] sample_blocked_state(1) show ?thesis by blast
qed

end
