(* ===== verification/Jitter_Buffer.thy ===== *)
theory Jitter_Buffer
  imports Net_Prelude
begin

text \<open>
  The playout buffer (\<^verbatim>\<open>smiths-media/src/jitter.rs\<close>): sequence-keyed insertion with
  16-bit wrap-around, priming, in-order release, concealment, resynchronisation, catch-up and the
  adaptive target. The ordered map is an association list sorted by play index. Play indices
  (\<^verbatim>\<open>i64\<close>) and counters (\<^verbatim>\<open>u64\<close>) are unbounded: at fifty frames a second
  neither overflows within the life of any call. The floating-point fade is an argument
  (\<open>gain\<close> for \<^verbatim>\<open>CONCEAL_FADE.powi(run)\<close> above the floor, \<open>scale\<close> for the
  per-sample product), since no property depends on its rounding.
\<close>

section \<open>Model\<close>

type_synonym sample = "16 word"
type_synonym pcm = "sample list"

record jitter_config =
  initial_target :: nat
  min_target :: nat
  max_target :: nat
  max_buffer :: nat
  resync_gap :: nat
  lower_after_clean :: nat
  catchup_slack :: nat

definition default_config :: jitter_config where
  "default_config = \<lparr> initial_target = 3, min_target = 2, max_target = 12, max_buffer = 100, resync_gap = 12,
     lower_after_clean = 250, catchup_slack = 4 \<rparr>"

record jitter_stats =
  js_inserted :: nat
  js_played :: nat
  js_concealed_loss :: nat
  js_concealed_starve :: nat
  js_duplicates :: nat
  js_late :: nat
  js_overflow :: nat
  js_resyncs :: nat
  js_rebuffers :: nat
  js_catchup :: nat

datatype insert_result = Buffered | Duplicate | Late | InsOverflow

datatype playout = Priming | Played | Concealed

record stored =
  sto_seq :: u16
  sto_pcm :: pcm

type_synonym frame_map = "(int \<times> stored) list"

record jitter_buffer =
  jb_cfg :: jitter_config
  jb_frames :: frame_map
  jb_expected :: "int option"
  jb_anchor_index :: int
  jb_anchor_seq :: u16
  jb_primed :: bool
  jb_target :: nat
  jb_frame_samples :: nat
  jb_last_frame :: pcm
  jb_conceal_run :: nat
  jb_starve_run :: nat
  jb_clean_run :: nat
  jb_stats :: jitter_stats

definition no_stats :: jitter_stats where
  "no_stats = \<lparr> js_inserted = 0, js_played = 0, js_concealed_loss = 0, js_concealed_starve = 0, js_duplicates = 0,
     js_late = 0, js_overflow = 0, js_resyncs = 0, js_rebuffers = 0, js_catchup = 0 \<rparr>"

definition with_config :: "nat \<Rightarrow> jitter_config \<Rightarrow> jitter_buffer" where
  "with_config frame_samples cfg =
     \<lparr> jb_cfg = cfg, jb_frames = [], jb_expected = None, jb_anchor_index = 0, jb_anchor_seq = 0,
       jb_primed = False, jb_target = initial_target cfg, jb_frame_samples = frame_samples, jb_last_frame = [],
       jb_conceal_run = 0, jb_starve_run = 0, jb_clean_run = 0, jb_stats = no_stats \<rparr>"

text \<open>The ordered map: insertion of a vacant key, removal.\<close>

fun frames_insert :: "int \<Rightarrow> stored \<Rightarrow> frame_map \<Rightarrow> frame_map" where
  "frames_insert k v [] = [(k, v)]"
| "frames_insert k v ((k', v') # fs) = (if k < k' then (k, v) # (k', v') # fs else (k', v') # frames_insert k v fs)"

definition frames_remove :: "int \<Rightarrow> frame_map \<Rightarrow> frame_map" where
  "frames_remove k fs = filter (\<lambda>(k', _). k' \<noteq> k) fs"

definition bump :: "(jitter_stats \<Rightarrow> jitter_stats) \<Rightarrow> jitter_buffer \<Rightarrow> jitter_buffer" where
  "bump f s = s\<lparr> jb_stats := f (jb_stats s) \<rparr>"

text \<open>The signed 16-bit distance from the anchor.\<close>

definition index_of :: "jitter_buffer \<Rightarrow> u16 \<Rightarrow> int" where
  "index_of s sq = jb_anchor_index s + sint (sq - jb_anchor_seq s)"

definition jb_insert :: "jitter_buffer \<Rightarrow> u16 \<Rightarrow> pcm \<Rightarrow> jitter_buffer \<times> insert_result" where
  "jb_insert s0 sq pcm =
     (let s = bump (\<lambda>t. t\<lparr> js_inserted := js_inserted t + 1 \<rparr>) s0
      in if jb_expected s = None \<or> (\<not> jb_primed s \<and> jb_frames s = []) then
           (s\<lparr> jb_frames := [(0, \<lparr> sto_seq = sq, sto_pcm = pcm \<rparr>)], jb_anchor_index := 0, jb_anchor_seq := sq,
               jb_expected := Some 0 \<rparr>, Buffered)
         else
           (let expected = (case jb_expected s of Some e \<Rightarrow> e | None \<Rightarrow> 0);
                idx = index_of s sq
            in if idx < expected then (bump (\<lambda>t. t\<lparr> js_late := js_late t + 1 \<rparr>) s, Late)
               else if idx - expected \<ge> int (max_buffer (jb_cfg s)) then
                 (bump (\<lambda>t. t\<lparr> js_overflow := js_overflow t + 1 \<rparr>) s, InsOverflow)
               else (case map_of (jb_frames s) idx of
                       Some _ \<Rightarrow> (bump (\<lambda>t. t\<lparr> js_duplicates := js_duplicates t + 1 \<rparr>) s, Duplicate)
                     | None \<Rightarrow> (s\<lparr> jb_frames := frames_insert idx \<lparr> sto_seq = sq, sto_pcm = pcm \<rparr> (jb_frames s) \<rparr>,
                                Buffered))))"

datatype next_frame = Frame pcm | Conceal

fun pop_to :: "nat \<Rightarrow> frame_map \<Rightarrow> nat \<Rightarrow> frame_map \<times> nat" where
  "pop_to t [] n = ([], n)"
| "pop_to t (f # fs) n = (if length (f # fs) > t then pop_to t fs (Suc n) else (f # fs, n))"

definition catch_up :: "jitter_buffer \<Rightarrow> int \<Rightarrow> jitter_buffer \<times> int" where
  "catch_up s expected =
     (if length (jb_frames s) \<le> jb_target s + catchup_slack (jb_cfg s) then (s, expected)
      else
        (let (fs, n) = pop_to (jb_target s) (jb_frames s) (js_catchup (jb_stats s));
             s1 = bump (\<lambda>t. t\<lparr> js_catchup := n \<rparr>) (s\<lparr> jb_frames := fs \<rparr>)
         in case fs of
              (idx, sto) # _ \<Rightarrow>
                (s1\<lparr> jb_expected := Some idx, jb_anchor_index := idx, jb_anchor_seq := sto_seq sto \<rparr>, idx)
            | [] \<Rightarrow> (s1, expected)))"

definition deliver_frame :: "jitter_buffer \<Rightarrow> int \<Rightarrow> stored \<Rightarrow> jitter_buffer \<times> pcm" where
  "deliver_frame s pos frame =
     (bump (\<lambda>t. t\<lparr> js_played := js_played t + 1 \<rparr>)
        (s\<lparr> jb_last_frame := sto_pcm frame, jb_conceal_run := 0, jb_starve_run := 0,
            jb_expected := Some (pos + 1), jb_anchor_index := pos + 1, jb_anchor_seq := sto_seq frame + 1 \<rparr>),
      sto_pcm frame)"

definition note_clean :: "jitter_buffer \<Rightarrow> jitter_buffer" where
  "note_clean s =
     (let run = jb_clean_run s + 1
      in if run \<ge> lower_after_clean (jb_cfg s) then
           s\<lparr> jb_clean_run := 0,
              jb_target := (if jb_target s > min_target (jb_cfg s) then jb_target s - 1 else jb_target s) \<rparr>
         else s\<lparr> jb_clean_run := run \<rparr>)"

definition starve :: "jitter_buffer \<Rightarrow> jitter_buffer" where
  "starve s =
     (let s1 = bump (\<lambda>t. t\<lparr> js_concealed_starve := js_concealed_starve t + 1 \<rparr>)
                 (s\<lparr> jb_clean_run := 0, jb_starve_run := jb_starve_run s + 1 \<rparr>)
      in if jb_starve_run s1 \<ge> jb_target s1 then
           bump (\<lambda>t. t\<lparr> js_rebuffers := js_rebuffers t + 1 \<rparr>)
             (s1\<lparr> jb_target := min (jb_target s1 + 1) (max_target (jb_cfg s1)), jb_primed := False,
                  jb_starve_run := 0 \<rparr>)
         else s1)"

text \<open>The play head once the cushion is primed and the buffer caught up.\<close>

definition release :: "jitter_buffer \<Rightarrow> int \<Rightarrow> jitter_buffer \<times> next_frame" where
  "release s expected =
     (case map_of (jb_frames s) expected of
        Some frame \<Rightarrow>
          (let (s1, out) = deliver_frame (s\<lparr> jb_frames := frames_remove expected (jb_frames s) \<rparr>) expected frame
           in (note_clean s1, Frame out))
      | None \<Rightarrow>
          (case jb_frames s of
             (lowest, frame) # fs \<Rightarrow>
               (let s1 = s\<lparr> jb_clean_run := 0 \<rparr>
                in if lowest - expected \<ge> int (resync_gap (jb_cfg s)) then
                     (let s2 = bump (\<lambda>t. t\<lparr> js_resyncs := js_resyncs t + 1 \<rparr>) (s1\<lparr> jb_frames := fs \<rparr>);
                          (s3, out) = deliver_frame s2 lowest frame
                      in (s3, Frame out))
                   else
                     (bump (\<lambda>t. t\<lparr> js_concealed_loss := js_concealed_loss t + 1 \<rparr>)
                        (s1\<lparr> jb_expected := Some (expected + 1), jb_anchor_index := expected + 1,
                             jb_anchor_seq := jb_anchor_seq s1 + 1 \<rparr>), Conceal))
           | [] \<Rightarrow> (starve s, Conceal)))"

definition advance :: "jitter_buffer \<Rightarrow> jitter_buffer \<times> next_frame option" where
  "advance s =
     (case jb_expected s of
        None \<Rightarrow> (s, None)
      | Some expected \<Rightarrow>
          if \<not> jb_primed s \<and> length (jb_frames s) < jb_target s then (s, None)
          else
            (let (s2, e) = catch_up (s\<lparr> jb_primed := True \<rparr>) expected;
                 (s3, nxt) = release s2 e
             in (s3, Some nxt)))"

definition conceal_gain :: "(nat \<Rightarrow> 'g option) \<Rightarrow> jitter_buffer \<Rightarrow> jitter_buffer \<times> 'g option" where
  "conceal_gain gain s =
     (let s1 = s\<lparr> jb_conceal_run := jb_conceal_run s + 1 \<rparr>
      in (s1, if jb_last_frame s = [] then None else gain (jb_conceal_run s1)))"

definition conceal_frame ::
    "(nat \<Rightarrow> 'g option) \<Rightarrow> (sample \<Rightarrow> 'g \<Rightarrow> sample) \<Rightarrow> jitter_buffer \<Rightarrow> jitter_buffer \<times> pcm" where
  "conceal_frame gain scale s =
     (let (s1, g) = conceal_gain gain s
      in (s1, case g of
                None \<Rightarrow> if jb_last_frame s = [] then replicate (jb_frame_samples s) 0
                        else replicate (length (jb_last_frame s)) 0
              | Some g \<Rightarrow> map (\<lambda>x. scale x g) (jb_last_frame s)))"

definition tick ::
    "(nat \<Rightarrow> 'g option) \<Rightarrow> (sample \<Rightarrow> 'g \<Rightarrow> sample) \<Rightarrow> jitter_buffer \<Rightarrow> jitter_buffer \<times> pcm option" where
  "tick gain scale s =
     (case advance s of
        (s1, None) \<Rightarrow> (s1, None)
      | (s1, Some (Frame out)) \<Rightarrow> (s1, Some out)
      | (s1, Some Conceal) \<Rightarrow> (let (s2, out) = conceal_frame gain scale s1 in (s2, Some out)))"

text \<open>Writing into a caller's frame of fixed length.\<close>

definition copy_frame :: "pcm \<Rightarrow> nat \<Rightarrow> pcm" where
  "copy_frame pcm n = take n pcm @ replicate (n - length pcm) 0"

definition conceal_into ::
    "(nat \<Rightarrow> 'g option) \<Rightarrow> (sample \<Rightarrow> 'g \<Rightarrow> sample) \<Rightarrow> jitter_buffer \<Rightarrow> nat \<Rightarrow> jitter_buffer \<times> pcm" where
  "conceal_into gain scale s n =
     (let (s1, g) = conceal_gain gain s
      in (s1, case g of
                None \<Rightarrow> replicate n 0
              | Some g \<Rightarrow> copy_frame (map (\<lambda>x. scale x g) (jb_last_frame s)) n))"

definition tick_into ::
    "(nat \<Rightarrow> 'g option) \<Rightarrow> (sample \<Rightarrow> 'g \<Rightarrow> sample) \<Rightarrow> jitter_buffer \<Rightarrow> nat \<Rightarrow> jitter_buffer \<times> pcm \<times> playout" where
  "tick_into gain scale s n =
     (case advance s of
        (s1, None) \<Rightarrow> (s1, replicate n 0, Priming)
      | (s1, Some (Frame out)) \<Rightarrow> (s1, copy_frame out n, Played)
      | (s1, Some Conceal) \<Rightarrow> (let (s2, out) = conceal_into gain scale s1 n in (s2, out, Concealed)))"

section \<open>Invariant\<close>

text \<open>The pending frames: ordered, in the window ahead of the play head, each at the slot its
  sequence number names.\<close>

definition frames_ok :: "nat \<Rightarrow> int \<Rightarrow> u16 \<Rightarrow> frame_map \<Rightarrow> bool" where
  "frames_ok M e a fs \<longleftrightarrow> sorted_wrt (<) (map fst fs) \<and>
     (\<forall>(k, sto) \<in> set fs. e \<le> k \<and> k < e + int M \<and> sto_seq sto = a + of_int (k - e))"

definition cfg_ok :: "jitter_config \<Rightarrow> bool" where
  "cfg_ok c \<longleftrightarrow> min_target c \<le> initial_target c \<and> initial_target c \<le> max_target c \<and> 0 < max_buffer c"

definition accounted :: "jitter_buffer \<Rightarrow> bool" where
  "accounted s \<longleftrightarrow> js_inserted (jb_stats s) = js_played (jb_stats s) + js_late (jb_stats s) + js_duplicates (jb_stats s)
     + js_overflow (jb_stats s) + js_catchup (jb_stats s) + length (jb_frames s)"

definition jb_inv :: "jitter_buffer \<Rightarrow> bool" where
  "jb_inv s \<longleftrightarrow> cfg_ok (jb_cfg s) \<and> min_target (jb_cfg s) \<le> jb_target s \<and> jb_target s \<le> max_target (jb_cfg s) \<and>
     accounted s \<and>
     (case jb_expected s of
        None \<Rightarrow> jb_frames s = [] \<and> \<not> jb_primed s
      | Some e \<Rightarrow> jb_anchor_index s = e \<and> frames_ok (max_buffer (jb_cfg s)) e (jb_anchor_seq s) (jb_frames s))"

lemma bump_simps [simp]:
  "jb_cfg (bump f s) = jb_cfg s" "jb_frames (bump f s) = jb_frames s" "jb_expected (bump f s) = jb_expected s"
  "jb_anchor_index (bump f s) = jb_anchor_index s" "jb_anchor_seq (bump f s) = jb_anchor_seq s"
  "jb_primed (bump f s) = jb_primed s" "jb_target (bump f s) = jb_target s"
  "jb_frame_samples (bump f s) = jb_frame_samples s" "jb_last_frame (bump f s) = jb_last_frame s"
  "jb_conceal_run (bump f s) = jb_conceal_run s" "jb_starve_run (bump f s) = jb_starve_run s"
  "jb_clean_run (bump f s) = jb_clean_run s" "jb_stats (bump f s) = f (jb_stats s)"
  by (simp_all add: bump_def)

lemma jb_inv_Some:
  "jb_inv s \<Longrightarrow> jb_expected s = Some e \<Longrightarrow>
     jb_anchor_index s = e \<and> frames_ok (max_buffer (jb_cfg s)) e (jb_anchor_seq s) (jb_frames s)"
  by (simp add: jb_inv_def)

lemma set_frames_insert: "set (frames_insert k v fs) = insert (k, v) (set fs)"
  by (induction fs) (auto split: if_splits)

lemma length_frames_insert [simp]: "length (frames_insert k v fs) = Suc (length fs)"
  by (induction k v fs rule: frames_insert.induct) auto

lemma sorted_frames_insert:
  "sorted_wrt (<) (map fst fs) \<Longrightarrow> map_of fs k = None \<Longrightarrow> sorted_wrt (<) (map fst (frames_insert k v fs))"
proof (induction k v fs rule: frames_insert.induct)
  case (2 k v k' v' fs)
  have "k' < x" if "x \<in> fst ` set (frames_insert k v fs)" "\<not> k < k'" for x
    using that 2(2,3) by (force simp: set_frames_insert split: if_splits)
  with 2 show ?case by (auto split: if_splits)
qed simp

lemma frames_ok_insert:
  assumes "frames_ok M e a fs" and "map_of fs k = None" and "e \<le> k" and "k < e + int M"
    and "sto_seq v = a + of_int (k - e)"
  shows "frames_ok M e a (frames_insert k v fs)"
  using assms by (auto simp: frames_ok_def set_frames_insert sorted_frames_insert)

text \<open>The wanted frame, when present, is the first.\<close>

lemma frames_ok_head:
  assumes "frames_ok M e a fs" and "map_of fs e = Some f"
  shows "fs = (e, f) # tl fs" and "frames_remove e fs = tl fs"
proof -
  obtain k g rest where fs: "fs = (k, g) # rest" using assms(2) by (cases fs) auto
  have "k = e"
  proof (rule ccontr)
    assume "k \<noteq> e"
    then have "(e, f) \<in> set rest" using assms(2) fs by (auto dest: map_of_SomeD)
    then have "k < e" using assms(1) fs by (force simp: frames_ok_def)
    moreover have "e \<le> k" using assms(1) fs by (simp add: frames_ok_def)
    ultimately show False by simp
  qed
  with assms(2) fs show "fs = (e, f) # tl fs" by simp
  have "k' \<noteq> e" if "(k', v) \<in> set rest" for k' v
    using assms(1) that fs \<open>k = e\<close> by (force simp: frames_ok_def)
  then have "filter (\<lambda>(k', _). k' \<noteq> e) rest = rest" by (auto simp: filter_id_conv)
  with fs \<open>k = e\<close> show "frames_remove e fs = tl fs" by (simp add: frames_remove_def)
qed

text \<open>Moving the play head forward over frames that leave.\<close>

lemma frames_ok_shift:
  assumes "frames_ok M e a fs" and "e \<le> e'" and "\<forall>x \<in> set (drop n fs). e' \<le> fst x"
  shows "frames_ok M e' (a + of_int (e' - e)) (drop n fs)"
proof -
  have "sorted_wrt (<) (map fst (drop n fs))"
    using assms(1) by (simp add: frames_ok_def drop_map [symmetric] sorted_wrt_drop)
  with assms show ?thesis by (fastforce simp: frames_ok_def dest: in_set_dropD)
qed

lemma frames_ok_after_head:
  assumes "frames_ok M e a ((k, f) # fs)"
  shows "frames_ok M (k + 1) (sto_seq f + 1) fs"
proof -
  have k: "e \<le> k" "sto_seq f = a + of_int (k - e)" using assms by (simp_all add: frames_ok_def)
  have "\<forall>x \<in> set (drop 1 ((k, f) # fs)). k + 1 \<le> fst x"
    using assms by (force simp: frames_ok_def)
  from frames_ok_shift [OF assms _ this] k have "frames_ok M (k + 1) (a + of_int (k + 1 - e)) fs" by simp
  moreover have "a + of_int (k + 1 - e) = sto_seq f + 1" using k(2) by (simp add: algebra_simps)
  ultimately show ?thesis by (simp only:)
qed

lemma frames_ok_from_head:
  assumes "frames_ok M e a fs" and "drop n fs = (k, f) # rest"
  shows "frames_ok M k (sto_seq f) ((k, f) # rest)"
proof -
  have f: "(k, f) \<in> set fs" using assms(2) by (metis in_set_dropD list.set_intros(1))
  then have k: "e \<le> k" "sto_seq f = a + of_int (k - e)" using assms(1) by (auto simp: frames_ok_def)
  have "sorted_wrt (<) (map fst (drop n fs))"
    using assms(1) by (simp add: frames_ok_def drop_map [symmetric] sorted_wrt_drop)
  then have "\<forall>x \<in> set (drop n fs). k \<le> fst x" by (force simp: assms(2))
  from frames_ok_shift [OF assms(1) k(1) this] show ?thesis unfolding assms(2) k(2) [symmetric] .
qed

text \<open>A gap stepped over.\<close>

lemma frames_ok_step:
  assumes "frames_ok M e a fs" and "map_of fs e = None"
  shows "frames_ok M (e + 1) (a + 1) fs"
proof -
  have "\<forall>x \<in> set (drop 0 fs). e + 1 \<le> fst x"
    using assms by (force simp: frames_ok_def map_of_eq_None_iff)
  from frames_ok_shift [OF assms(1) _ this] show ?thesis by simp
qed

section \<open>Preservation\<close>

lemma jb_inv_new: "cfg_ok c \<Longrightarrow> jb_inv (with_config n c)"
  by (simp add: jb_inv_def with_config_def accounted_def no_stats_def cfg_ok_def)

lemma jb_inv_insert:
  assumes "jb_inv s"
  shows "jb_inv (fst (jb_insert s sq pcm))"
proof (cases "jb_expected s")
  case None
  with assms show ?thesis
    by (simp add: jb_insert_def Let_def jb_inv_def accounted_def frames_ok_def cfg_ok_def)
next
  case (Some e)
  let ?idx = "index_of s sq"
  have idx: "index_of (bump f s) sq = ?idx" for f by (simp add: index_of_def)
  have seq: "sq = jb_anchor_seq s + of_int (?idx - e)" if "jb_anchor_index s = e"
    using that by (simp add: index_of_def)
  show ?thesis
  proof (cases "\<not> jb_primed s \<and> jb_frames s = []")
    case True
    with assms Some show ?thesis
      by (simp add: jb_insert_def Let_def jb_inv_def accounted_def frames_ok_def cfg_ok_def)
  next
    case False
    with assms Some seq show ?thesis
      by (auto simp: jb_insert_def Let_def jb_inv_def accounted_def idx intro!: frames_ok_insert split: option.split)
  qed
qed

lemma pop_to_drop: "pop_to t fs n = (drop (length fs - t) fs, n + (length fs - t))"
  by (induction t fs n rule: pop_to.induct) (auto simp: Suc_diff_le)

lemma jb_inv_catch_up:
  assumes "jb_inv s" and "jb_expected s = Some e"
  shows "jb_inv (fst (catch_up s e))" and "jb_expected (fst (catch_up s e)) = Some (snd (catch_up s e))"
    and "e \<le> snd (catch_up s e)" and "jb_primed (fst (catch_up s e)) = jb_primed s"
proof -
  let ?n = "length (jb_frames s) - jb_target s"
  have fok: "frames_ok (max_buffer (jb_cfg s)) e (jb_anchor_seq s) (jb_frames s)"
    using assms by (simp add: jb_inv_def)
  have "jb_inv (fst (catch_up s e)) \<and> jb_expected (fst (catch_up s e)) = Some (snd (catch_up s e)) \<and>
      e \<le> snd (catch_up s e) \<and> jb_primed (fst (catch_up s e)) = jb_primed s"
  proof (cases "length (jb_frames s) \<le> jb_target s + catchup_slack (jb_cfg s)")
    case True
    with assms show ?thesis by (simp add: catch_up_def)
  next
    case False
    show ?thesis
    proof (cases "drop ?n (jb_frames s)")
      case Nil
      with False assms show ?thesis
        by (simp add: catch_up_def pop_to_drop jb_inv_def accounted_def frames_ok_def)
    next
      case (Cons x rest)
      obtain k f where x: "x = (k, f)" by (cases x)
      have "frames_ok (max_buffer (jb_cfg s)) k (sto_seq f) ((k, f) # rest)"
        using frames_ok_from_head [OF fok] Cons x by simp
      moreover have "e \<le> k"
        using fok Cons x by (metis (no_types, lifting) case_prodD frames_ok_def in_set_dropD list.set_intros(1))
      moreover have "length (jb_frames s) = ?n + Suc (length rest)"
        using arg_cong [OF Cons, of length] by simp
      ultimately show ?thesis
        using False assms Cons x by (simp add: catch_up_def pop_to_drop jb_inv_def accounted_def)
    qed
  qed
  then show "jb_inv (fst (catch_up s e))" and "jb_expected (fst (catch_up s e)) = Some (snd (catch_up s e))"
    and "e \<le> snd (catch_up s e)" and "jb_primed (fst (catch_up s e)) = jb_primed s" by simp_all
qed

lemma jb_inv_note_clean: "jb_inv s \<Longrightarrow> jb_inv (note_clean s)"
  by (auto simp: note_clean_def Let_def jb_inv_def accounted_def split: option.splits)

lemma jb_inv_starve: "jb_inv s \<Longrightarrow> jb_frames s = [] \<Longrightarrow> jb_inv (starve s)"
  by (auto simp: starve_def Let_def jb_inv_def accounted_def split: option.splits)

text \<open>What a release does, on its three branches.\<close>

lemma release_cases:
  assumes inv: "jb_inv s" and e: "jb_expected s = Some e"
  obtains (hit) f where "jb_frames s = (e, f) # tl (jb_frames s)"
      "release s e = (note_clean (fst (deliver_frame (s\<lparr> jb_frames := tl (jb_frames s) \<rparr>) e f)), Frame (sto_pcm f))"
  | (resync) k f rest where "jb_frames s = (k, f) # rest" "e < k" "e + int (resync_gap (jb_cfg s)) \<le> k"
      "release s e = (fst (deliver_frame (bump (\<lambda>t. t\<lparr> js_resyncs := js_resyncs t + 1 \<rparr>)
         (s\<lparr> jb_clean_run := 0, jb_frames := rest \<rparr>)) k f), Frame (sto_pcm f))"
  | (loss) "jb_frames s \<noteq> []" "map_of (jb_frames s) e = None" "snd (release s e) = Conceal"
      "fst (release s e) = bump (\<lambda>t. t\<lparr> js_concealed_loss := js_concealed_loss t + 1 \<rparr>)
         (s\<lparr> jb_clean_run := 0, jb_expected := Some (e + 1), jb_anchor_index := e + 1,
             jb_anchor_seq := jb_anchor_seq s + 1 \<rparr>)"
  | (drained) "jb_frames s = []" "release s e = (starve s, Conceal)"
proof (cases "map_of (jb_frames s) e")
  case (Some f)
  have fok: "frames_ok (max_buffer (jb_cfg s)) e (jb_anchor_seq s) (jb_frames s)"
    using assms by (simp add: jb_inv_def)
  show ?thesis
    using frames_ok_head [OF fok Some] Some
    by (intro hit [of f]) (simp_all add: release_def case_prod_unfold Let_def deliver_frame_def)
next
  case None
  show ?thesis
  proof (cases "jb_frames s")
    case Nil
    with None show ?thesis by (intro drained) (simp_all add: release_def)
  next
    case (Cons x rest)
    obtain k f where x: "x = (k, f)" by (cases x)
    have "e < k" using assms None Cons x by (auto simp: jb_inv_def frames_ok_def split: if_splits)
    show ?thesis
    proof (cases "k - e \<ge> int (resync_gap (jb_cfg s))")
      case True
      with None Cons x \<open>e < k\<close> show ?thesis
        by (intro resync [of k f rest]) (simp_all add: release_def case_prod_unfold Let_def deliver_frame_def)
    next
      case False
      with None Cons x \<open>e < k\<close> show ?thesis
        by (intro loss) (simp_all add: release_def Let_def)
    qed
  qed
qed

lemma jb_inv_release:
  assumes inv: "jb_inv s" and e: "jb_expected s = Some e"
  shows "jb_inv (fst (release s e))"
  using inv e
proof (cases rule: release_cases)
  case (hit f)
  have "frames_ok (max_buffer (jb_cfg s)) (e + 1) (sto_seq f + 1) (tl (jb_frames s))"
    using assms hit(1) frames_ok_after_head by (metis (no_types, lifting) jb_inv_def option.simps(5))
  moreover have "length (jb_frames s) = Suc (length (tl (jb_frames s)))"
    using arg_cong [OF hit(1), of length] by simp
  ultimately show ?thesis
    using inv unfolding hit(2) fst_conv
    by (intro jb_inv_note_clean) (simp add: jb_inv_def deliver_frame_def accounted_def)
next
  case (resync k f rest)
  have "frames_ok (max_buffer (jb_cfg s)) (k + 1) (sto_seq f + 1) rest"
    using assms resync(1) frames_ok_after_head by (metis (no_types, lifting) jb_inv_def option.simps(5))
  with inv resync(1) show ?thesis
    unfolding resync(4) by (simp add: jb_inv_def deliver_frame_def accounted_def)
next
  case loss
  then show ?thesis using inv e frames_ok_step by (simp add: jb_inv_def accounted_def)
next
  case drained
  then show ?thesis using jb_inv_starve [OF inv] by simp
qed

lemma jb_inv_advance:
  assumes "jb_inv s"
  shows "jb_inv (fst (advance s))"
proof (cases "jb_expected s")
  case (Some e)
  let ?s = "s\<lparr> jb_primed := True \<rparr>"
  have inv: "jb_inv ?s" "jb_expected ?s = Some e" using assms Some by (simp_all add: jb_inv_def accounted_def)
  from jb_inv_catch_up [OF inv] have "jb_inv (fst (release (fst (catch_up ?s e)) (snd (catch_up ?s e))))"
    by (intro jb_inv_release)
  with assms Some show ?thesis by (simp add: advance_def case_prod_unfold Let_def)
qed (simp add: advance_def assms)

lemma jb_inv_conceal: "jb_inv s \<Longrightarrow> jb_inv (fst (conceal_gain gain s))"
  by (simp add: conceal_gain_def Let_def jb_inv_def accounted_def split: option.splits)

lemma jb_inv_tick: "jb_inv s \<Longrightarrow> jb_inv (fst (tick gain scale s))"
  using jb_inv_advance [of s] jb_inv_conceal [of "fst (advance s)" gain]
  by (auto simp: tick_def conceal_frame_def case_prod_unfold Let_def split: prod.splits option.splits next_frame.splits)

section \<open>Runs\<close>

datatype jb_op = OpInsert u16 pcm | OpTick

text \<open>The outputs are the frames handed to the consumer, \<open>None\<close> while priming.\<close>

fun jb_step :: "(nat \<Rightarrow> 'g option) \<Rightarrow> (sample \<Rightarrow> 'g \<Rightarrow> sample) \<Rightarrow> jitter_buffer \<Rightarrow> jb_op \<Rightarrow>
    jitter_buffer \<times> pcm option list" where
  "jb_step gain scale s (OpInsert sq pcm) = (fst (jb_insert s sq pcm), [])"
| "jb_step gain scale s OpTick = (let (s', out) = tick gain scale s in (s', [out]))"

interpretation jb: preserving_machine "jb_step gain scale" jb_inv for gain scale
proof unfold_locales
  fix s i assume "jb_inv s"
  then show "jb_inv (fst (jb_step gain scale s i))"
    by (cases i) (simp_all add: jb_inv_insert jb_inv_tick case_prod_unfold Let_def)
qed

lemma frames_ok_depth: "frames_ok M e a fs \<Longrightarrow> length fs \<le> M"
proof -
  assume ok: "frames_ok M e a fs"
  then have "distinct (map fst fs)"
    by (auto simp: frames_ok_def sorted_wrt_iff_nth_less distinct_conv_nth) (metis linorder_neqE_nat order_less_irrefl)
  then have "length fs = card (fst ` set fs)" by (metis distinct_card length_map list.set_map)
  also have "\<dots> \<le> card {e..<e + int M}"
    using ok by (intro card_mono) (auto simp: frames_ok_def)
  finally show ?thesis by simp
qed

text \<open>Property C14.
  Under any sequence of arrivals and ticks every frame offered to the buffer is accounted for: it
  was played, dropped as late, duplicate, implausible or in a catch-up, or is still buffered. The
  buffer never holds more than its cap, the adaptive target stays between floor and ceiling, and
  every buffered frame waits at or ahead of the play head in the slot its sequence number names.\<close>

theorem jb_accounts_for_every_frame:
  fixes gain :: "nat \<Rightarrow> 'g option" and scale :: "sample \<Rightarrow> 'g \<Rightarrow> sample" and n :: nat and ops :: "jb_op list"
  assumes "cfg_ok c"
  defines "s \<equiv> fst (run (jb_step gain scale) (with_config n c) ops)"
  shows "js_inserted (jb_stats s) = js_played (jb_stats s) + js_late (jb_stats s) + js_duplicates (jb_stats s)
       + js_overflow (jb_stats s) + js_catchup (jb_stats s) + length (jb_frames s) \<and>
     length (jb_frames s) \<le> max_buffer (jb_cfg s) \<and>
     min_target (jb_cfg s) \<le> jb_target s \<and> jb_target s \<le> max_target (jb_cfg s) \<and>
     (\<forall>e. jb_expected s = Some e \<longrightarrow> frames_ok (max_buffer (jb_cfg s)) e (jb_anchor_seq s) (jb_frames s))"
proof -
  have "jb_inv s" unfolding s_def by (rule jb.run_preserves [OF jb_inv_new [OF assms(1)]])
  moreover have "length (jb_frames s) \<le> max_buffer (jb_cfg s)"
    using \<open>jb_inv s\<close> frames_ok_depth by (cases "jb_expected s") (fastforce simp: jb_inv_def)+
  ultimately show ?thesis by (simp add: jb_inv_def accounted_def split: option.splits)
qed

lemma default_config_ok: "cfg_ok default_config"
  by (simp add: cfg_ok_def default_config_def)

theorem jb_accounts_for_every_frame_witness:
  "length (jb_frames (fst (run (jb_step (\<lambda>_. Some ()) (\<lambda>x _. x)) (with_config 2 default_config)
     [OpInsert 65535 [1], OpInsert 0 [2], OpTick]))) \<le>
   max_buffer (jb_cfg (fst (run (jb_step (\<lambda>_. Some ()) (\<lambda>x _. x)) (with_config 2 default_config)
     [OpInsert 65535 [1], OpInsert 0 [2], OpTick])))"
  using jb_accounts_for_every_frame [OF default_config_ok, of "\<lambda>_. Some ()" "\<lambda>x _. x" 2
      "[OpInsert 65535 [1], OpInsert 0 [2], OpTick]"] by (simp del: run.simps)

section \<open>Playout order\<close>

lemma release_order:
  assumes inv: "jb_inv s" and e: "jb_expected s = Some e" and out: "snd (release s e) = Frame out"
  shows "\<exists>k f rest. jb_frames s = (k, f) # rest \<and> out = sto_pcm f \<and> e \<le> k \<and>
    jb_frames (fst (release s e)) = rest \<and> jb_expected (fst (release s e)) = Some (k + 1) \<and>
    jb_anchor_seq (fst (release s e)) = sto_seq f + 1"
  using inv e
proof (cases rule: release_cases)
  case (hit f)
  have keep: "jb_frames (note_clean s') = jb_frames s'" "jb_expected (note_clean s') = jb_expected s'"
      "jb_anchor_seq (note_clean s') = jb_anchor_seq s'" for s'
    by (simp_all add: note_clean_def Let_def)
  show ?thesis
    using hit(1) out unfolding hit(2)
    by (intro exI [of _ e] exI [of _ f] exI [of _ "tl (jb_frames s)"]) (simp add: keep deliver_frame_def)
next
  case (resync k f rest)
  then show ?thesis using out by (simp add: deliver_frame_def)
qed (use out in simp_all)

text \<open>Property C15.
  Playout is in order and without repetition: whenever a reachable buffer releases a real frame,
  it is a frame that was buffered at or past the play head, every frame discarded with it was
  older, every frame that remains is newer, and the play head moves to the slot right after it.\<close>

theorem jb_plays_in_order:
  assumes "cfg_ok c" and "s = fst (run (jb_step gain scale) (with_config n c) ops)"
    and "advance s = (s', Some (Frame out))"
  shows "\<exists>e k f. jb_expected s = Some e \<and> e \<le> k \<and> (k, f) \<in> set (jb_frames s) \<and> out = sto_pcm f \<and>
    jb_expected s' = Some (k + 1) \<and> jb_anchor_seq s' = sto_seq f + 1 \<and>
    set (jb_frames s') = {x \<in> set (jb_frames s). k < fst x}"
proof -
  have inv: "jb_inv s" unfolding assms(2) by (rule jb.run_preserves [OF jb_inv_new [OF assms(1)]])
  obtain e where e: "jb_expected s = Some e" using assms(3) by (cases "jb_expected s") (simp_all add: advance_def)
  let ?s1 = "s\<lparr> jb_primed := True \<rparr>"
  have inv1: "jb_inv ?s1" "jb_expected ?s1 = Some e" using inv e by (simp_all add: jb_inv_def accounted_def)
  define s2 e2 where "s2 = fst (catch_up ?s1 e)" and "e2 = snd (catch_up ?s1 e)"
  note cu = jb_inv_catch_up [OF inv1, folded s2_def e2_def]
  have rel: "snd (release s2 e2) = Frame out" "fst (release s2 e2) = s'"
    using assms(3) e by (auto simp: advance_def s2_def e2_def case_prod_unfold Let_def split: if_splits)
  from release_order [OF cu(1,2) rel(1)] obtain k f rest where
    r: "jb_frames s2 = (k, f) # rest" "out = sto_pcm f" "e2 \<le> k" "jb_frames s' = rest"
      "jb_expected s' = Some (k + 1)" "jb_anchor_seq s' = sto_seq f + 1"
    unfolding rel(2) by blast
  have "\<exists>m. jb_frames s2 = drop m (jb_frames s)"
    by (rule exI [of _ "if length (jb_frames s) \<le> jb_target s + catchup_slack (jb_cfg s) then 0
          else length (jb_frames s) - jb_target s"])
       (simp add: s2_def catch_up_def pop_to_drop Let_def split: list.split)
  then obtain m where "jb_frames s2 = drop m (jb_frames s)" ..
  then have "jb_frames s = take m (jb_frames s) @ (k, f) # rest"
    using append_take_drop_id [of m "jb_frames s"] r(1) by simp
  then obtain A where A: "jb_frames s = A @ (k, f) # rest" ..
  have "sorted_wrt (<) (map fst (jb_frames s))" using inv e by (simp add: jb_inv_def frames_ok_def)
  then have "\<forall>x \<in> set A. fst x < k" "\<forall>x \<in> set rest. k < fst x" by (auto simp: A sorted_wrt_append)
  then have "set rest = {x \<in> set (jb_frames s). k < fst x}" by (auto simp: A)
  moreover have "(k, f) \<in> set (jb_frames s)" by (simp add: A)
  moreover have "e \<le> k" using cu(3) r(3) by (rule order_trans)
  ultimately show ?thesis
    using e r(2,4-6) by (intro exI [of _ e] exI [of _ k] exI [of _ f] conjI) simp_all
qed

theorem jb_plays_in_order_witness:
  "\<exists>e k (f :: stored). jb_expected (fst (run (jb_step (\<lambda>_. Some ()) (\<lambda>x _. x)) (with_config 2 default_config)
     [OpInsert 65535 [1], OpInsert 1 [3], OpInsert 0 [2]])) = Some e \<and> e \<le> k \<and> [1] = sto_pcm f"
proof -
  let ?s = "fst (run (jb_step (\<lambda>_. Some ()) (\<lambda>x _. x)) (with_config 2 default_config)
     [OpInsert 65535 [1], OpInsert 1 [3], OpInsert 0 [2]])"
  have "snd (advance ?s) = Some (Frame [1])" by code_simp
  then have "advance ?s = (fst (advance ?s), Some (Frame [1]))" by (metis prod.collapse)
  from jb_plays_in_order [OF default_config_ok refl this] show ?thesis by blast
qed

section \<open>Reordering is undone\<close>

lemma sorted_keys_unique:
  "sorted_wrt (<) (map fst xs) \<Longrightarrow> sorted_wrt (<) (map fst ys) \<Longrightarrow> set xs = set ys \<Longrightarrow> xs = ys"
  for xs ys :: "(int \<times> 'a) list"
proof (induction xs arbitrary: ys)
  case (Cons x xs)
  then obtain y ys' where ys: "ys = y # ys'" by (cases ys) auto
  have "x = y"
  proof (rule ccontr)
    assume "x \<noteq> y"
    then have "x \<in> set ys'" "y \<in> set xs" using Cons.prems(3) ys by auto
    then have "fst y < fst x" "fst x < fst y" using Cons.prems(1,2) ys by auto
    then show False by simp
  qed
  moreover have "x \<notin> set xs" "y \<notin> set ys'" using Cons.prems(1,2) ys by auto
  then have "set xs = set ys'" using Cons.prems(3) ys \<open>x = y\<close> by auto
  ultimately show ?case using Cons ys by simp
qed simp

definition nth_stored :: "u16 \<Rightarrow> pcm list \<Rightarrow> nat \<Rightarrow> int \<times> stored" where
  "nth_stored s0 fs i = (int i, \<lparr> sto_seq = s0 + of_nat i, sto_pcm = fs ! i \<rparr>)"

text \<open>Priming: anchored at the first frame, the frames of \<open>S\<close> buffered.\<close>

definition priming :: "jitter_config \<Rightarrow> u16 \<Rightarrow> pcm list \<Rightarrow> nat set \<Rightarrow> jitter_buffer \<Rightarrow> bool" where
  "priming c s0 fs S s \<longleftrightarrow> jb_inv s \<and> jb_cfg s = c \<and> jb_expected s = Some 0 \<and> jb_anchor_seq s = s0 \<and>
     \<not> jb_primed s \<and> jb_target s = initial_target c \<and> set (jb_frames s) = nth_stored s0 fs ` S"

lemma priming_insert:
  assumes p: "priming c s0 fs S s" and i: "i \<notin> S" "i < max_buffer c" "i < 2 ^ 15" "S \<noteq> {}"
  shows "priming c s0 fs (insert i S) (fst (jb_insert s (s0 + of_nat i) (fs ! i)))"
proof -
  have inv: "jb_inv s" using p by (simp add: priming_def)
  have ne: "jb_frames s \<noteq> []" using p i(4) by (auto simp: priming_def)
  have "sint (of_nat i :: u16) = int i"
    using i(3) by (simp add: signed_of_nat signed_take_bit_int_eq_self)
  then have idx: "index_of (bump f s) (s0 + of_nat i) = int i" for f
    using p jb_inv_Some [OF inv, of 0] by (simp add: index_of_def priming_def)
  have "map_of (jb_frames s) (int i) = None"
    using p i(1) by (auto simp: priming_def map_of_eq_None_iff nth_stored_def)
  then have "fst (jb_insert s (s0 + of_nat i) (fs ! i)) =
      (bump (\<lambda>t. t\<lparr> js_inserted := js_inserted t + 1 \<rparr>) s)
        \<lparr> jb_frames := frames_insert (int i) \<lparr> sto_seq = s0 + of_nat i, sto_pcm = fs ! i \<rparr> (jb_frames s) \<rparr>"
    using p ne i(2) by (simp add: jb_insert_def Let_def idx priming_def)
  then show ?thesis
    using p jb_inv_insert [OF inv, of "s0 + of_nat i" "fs ! i"]
    by (simp add: priming_def set_frames_insert nth_stored_def)
qed

lemma priming_inserts:
  assumes "priming c s0 fs S s" and "distinct is" and "set is \<inter> S = {}" and "\<forall>i \<in> set is. i < max_buffer c \<and> i < 2 ^ 15"
    and "S \<noteq> {}"
  shows "priming c s0 fs (S \<union> set is)
    (fst (run (jb_step gain scale) s (map (\<lambda>i. OpInsert (s0 + of_nat i) (fs ! i)) is)))"
  using assms
proof (induction "is" arbitrary: s S)
  case (Cons i "is")
  have "priming c s0 fs (insert i S) (fst (jb_insert s (s0 + of_nat i) (fs ! i)))"
    using Cons.prems by (intro priming_insert) auto
  from Cons.IH [OF this] Cons.prems show ?case by (simp add: case_prod_unfold Let_def)
qed simp

text \<open>Playing out a contiguous run.\<close>

definition contiguous :: "jitter_config \<Rightarrow> u16 \<Rightarrow> pcm list \<Rightarrow> nat \<Rightarrow> jitter_buffer \<Rightarrow> bool" where
  "contiguous c s0 fs j s \<longleftrightarrow> jb_inv s \<and> jb_cfg s = c \<and> jb_expected s = Some (int j) \<and>
     jb_frames s = map (nth_stored s0 fs) [j..<length fs] \<and>
     length fs - j \<le> jb_target s + catchup_slack c \<and> (jb_primed s \<or> jb_target s \<le> length fs - j)"

lemma contiguous_tick:
  assumes c: "contiguous c s0 fs j s" and j: "j < length fs"
  shows "snd (tick gain scale s) = Some (fs ! j)" and "contiguous c s0 fs (Suc j) (fst (tick gain scale s))"
proof -
  let ?s1 = "s\<lparr> jb_primed := True \<rparr>"
  have frames: "jb_frames s = nth_stored s0 fs j # map (nth_stored s0 fs) [Suc j..<length fs]"
    using c j by (simp add: contiguous_def upt_rec)
  have inv: "jb_inv s" using c by (simp add: contiguous_def)
  have cu: "catch_up ?s1 (int j) = (?s1, int j)" using c by (simp add: catch_up_def contiguous_def)
  have get: "map_of (jb_frames s) (int j) = Some \<lparr> sto_seq = s0 + of_nat j, sto_pcm = fs ! j \<rparr>"
    by (simp add: frames nth_stored_def)
  have fok: "frames_ok (max_buffer (jb_cfg s)) (int j) (jb_anchor_seq s) (jb_frames s)"
    using c jb_inv_Some [OF inv] by (simp add: contiguous_def)
  define s2 where "s2 = fst (deliver_frame (?s1\<lparr> jb_frames := tl (jb_frames s) \<rparr>) (int j)
      \<lparr> sto_seq = s0 + of_nat j, sto_pcm = fs ! j \<rparr>)"
  have rel: "release ?s1 (int j) = (note_clean s2, Frame (fs ! j))"
    using get frames_ok_head [OF fok get]
    by (simp add: release_def case_prod_unfold Let_def s2_def deliver_frame_def)
  have adv: "advance s = (note_clean s2, Some (Frame (fs ! j)))"
    using c by (auto simp: advance_def contiguous_def cu rel frames)
  then show "snd (tick gain scale s) = Some (fs ! j)" by (simp add: tick_def)
  have tick: "fst (tick gain scale s) = note_clean s2" using adv by (simp add: tick_def)
  have "jb_inv (note_clean s2)" using jb_inv_advance [OF inv] adv by simp
  moreover have "jb_frames (note_clean s2) = map (nth_stored s0 fs) [Suc j..<length fs]"
    "jb_expected (note_clean s2) = Some (int (Suc j))" "jb_primed (note_clean s2)" "jb_cfg (note_clean s2) = c"
    "jb_target s \<le> Suc (jb_target (note_clean s2))"
    using c by (auto simp: note_clean_def Let_def s2_def deliver_frame_def frames contiguous_def)
  ultimately show "contiguous c s0 fs (Suc j) (fst (tick gain scale s))"
    using c unfolding tick contiguous_def by auto
qed

lemma contiguous_ticks:
  assumes "contiguous c s0 fs j s" and "j \<le> length fs"
  shows "snd (run (jb_step gain scale) s (replicate (length fs - j) OpTick)) = map Some (drop j fs)"
  using assms
proof (induction "length fs - j" arbitrary: j s)
  case (Suc d)
  then have j: "j < length fs" by simp
  have d: "length fs - j = Suc (length fs - Suc j)" using j by simp
  note t = contiguous_tick [OF Suc.prems(1) j, of gain scale]
  have "snd (run (jb_step gain scale) (fst (tick gain scale s)) (replicate (length fs - Suc j) OpTick)) =
      map Some (drop (Suc j) fs)"
    using Suc.hyps(2) j by (intro Suc.hyps(1) t(2)) simp_all
  with t(1) show ?case by (simp add: d case_prod_unfold Let_def Cons_nth_drop_Suc [OF j, symmetric])
qed simp

text \<open>Property C16.
  Reordering is undone, across the 16-bit wrap as well: after the first frame, whatever order the
  next frames of a talkspurt arrive in, the buffer plays exactly the sent frames in the order they
  were sent, one per tick, with no concealment, as long as the spurt fills the cushion without
  exceeding the catch-up bound and the cap.\<close>

theorem jb_undoes_reordering:
  assumes "cfg_ok c" and "distinct is" and "set is = {1..<length fs}" and "fs \<noteq> []"
    and "length fs \<le> max_buffer c" and "length fs \<le> 2 ^ 15"
    and "initial_target c \<le> length fs" and "length fs \<le> initial_target c + catchup_slack c"
  shows "snd (run (jb_step gain scale) (with_config n c)
      (OpInsert s0 (fs ! 0) # map (\<lambda>i. OpInsert (s0 + of_nat i) (fs ! i)) is @ replicate (length fs) OpTick)) =
    map Some fs"
proof -
  let ?s1 = "fst (jb_insert (with_config n c) s0 (fs ! 0))"
  let ?s2 = "fst (run (jb_step gain scale) ?s1 (map (\<lambda>i. OpInsert (s0 + of_nat i) (fs ! i)) is))"
  have "priming c s0 fs {0} ?s1"
    using jb_inv_insert [OF jb_inv_new [OF assms(1)], of n s0 "fs ! 0"]
    by (simp add: priming_def jb_insert_def with_config_def Let_def nth_stored_def)
  then have "priming c s0 fs ({0} \<union> set is) ?s2"
    using assms by (intro priming_inserts) auto
  moreover have "{0} \<union> set is = {0..<length fs}" using assms(3,4) by (cases fs) auto
  ultimately have P: "priming c s0 fs {0..<length fs} ?s2" by simp
  have "jb_frames ?s2 = map (nth_stored s0 fs) [0..<length fs]"
  proof (rule sorted_keys_unique)
    show "sorted_wrt (<) (map fst (jb_frames ?s2))" using P jb_inv_Some [of ?s2 0] by (simp add: priming_def frames_ok_def)
    show "sorted_wrt (<) (map fst (map (nth_stored s0 fs) [0..<length fs]))"
      by (simp add: nth_stored_def sorted_wrt_map comp_def)
    show "set (jb_frames ?s2) = set (map (nth_stored s0 fs) [0..<length fs])" using P by (simp add: priming_def)
  qed
  with P assms(7,8) have "contiguous c s0 fs 0 ?s2" by (simp add: contiguous_def priming_def)
  from contiguous_ticks [OF this, of gain scale]
  have "snd (run (jb_step gain scale) ?s2 (replicate (length fs) OpTick)) = map Some fs" by simp
  moreover have "snd (run (jb_step gain scale) s (map (\<lambda>i. OpInsert (s0 + of_nat i) (fs ! i)) is)) = []" for s
    by (induction "is" arbitrary: s) (simp_all add: case_prod_unfold Let_def)
  ultimately show ?thesis by (simp add: run_append case_prod_unfold Let_def)
qed

definition sample_spurt :: "pcm list" where
  "sample_spurt = [[10], [11], [12], [13]]"

theorem jb_undoes_reordering_witness:
  "snd (run (jb_step (\<lambda>_. Some ()) (\<lambda>x _. x)) (with_config 1 default_config)
      (OpInsert 65534 (sample_spurt ! 0) # map (\<lambda>i. OpInsert (65534 + of_nat i) (sample_spurt ! i)) [3, 1, 2]
        @ replicate (length sample_spurt) OpTick)) = map Some sample_spurt"
proof (rule jb_undoes_reordering [OF default_config_ok])
  show "set [3, 1, 2] = {1..<length sample_spurt}" by (auto simp: sample_spurt_def)
qed (simp_all add: sample_spurt_def default_config_def)

end
