(* ===== verification/Port_Allocator.thy ===== *)
theory Port_Allocator
  imports Call_Types
begin

text \<open>
  RTP/RTCP port pairs (\<^verbatim>\<open>smiths-media/src/port_allocator.rs\<close>): random ephemeral
  allocation with a bounded number of attempts, and the scan of a configured window.

  The operating system is a parameter: what an ephemeral bind returns at each attempt, whether
  binding a given port succeeds, and whether \<^verbatim>\<open>local_addr\<close> of a bound socket answers.
  The window scan asks for each port at most once, so a function of the port is enough for it.
\<close>

section \<open>Model\<close>

definition DEFAULT_MAX_ATTEMPTS :: nat where "DEFAULT_MAX_ATTEMPTS = 64"

datatype port_error = PortExhausted | PortIo

record port_pair =
  pp_rtp :: u16
  pp_rtcp :: u16

record port_os =
  os_ephemeral :: "nat \<Rightarrow> u16 option"
  os_bind_rtcp :: "nat \<Rightarrow> u16 \<Rightarrow> bool"
  os_bind :: "u16 \<Rightarrow> bool"
  os_local_addr :: "u16 \<Rightarrow> bool"

text \<open>The loop from attempt \<open>n\<close> on, \<open>k\<close> attempts left.\<close>

fun ephemeral_attempts :: "port_os \<Rightarrow> nat \<Rightarrow> nat \<Rightarrow> port_error + port_pair" where
  "ephemeral_attempts os n 0 = Inl PortExhausted"
| "ephemeral_attempts os n (Suc k) =
     (case os_ephemeral os n of
        None \<Rightarrow> Inl PortIo
      | Some rtp \<Rightarrow>
          if rtp mod 2 \<noteq> 0 then ephemeral_attempts os (Suc n) k
          else let target = rtp + 1
            in if os_bind_rtcp os n target then
                 (if os_local_addr os target then Inr \<lparr> pp_rtp = rtp, pp_rtcp = target \<rparr> else Inl PortIo)
               else ephemeral_attempts os (Suc n) k)"

definition allocate_ephemeral :: "port_os \<Rightarrow> nat \<Rightarrow> port_error + port_pair" where
  "allocate_ephemeral os max_attempts = ephemeral_attempts os 0 max_attempts"

definition first_port :: "u16 \<Rightarrow> u16" where
  "first_port mn = (if mn mod 2 = 0 then mn else saturating_add mn 1)"

text \<open>\<^verbatim>\<open>port.checked_add(2)\<close>.\<close>

definition checked_add_2 :: "u16 \<Rightarrow> u16 option" where
  "checked_add_2 p = (if unat p + 2 < 2 ^ 16 then Some (p + 2) else None)"

function scan_range :: "port_os \<Rightarrow> u16 \<Rightarrow> u16 \<Rightarrow> port_error + port_pair" where
  "scan_range os mx port =
     (if port < mx then
        if os_bind os port \<and> os_bind os (port + 1) then
          (if os_local_addr os port \<and> os_local_addr os (port + 1)
           then Inr \<lparr> pp_rtp = port, pp_rtcp = port + 1 \<rparr> else Inl PortIo)
        else (case checked_add_2 port of Some p \<Rightarrow> scan_range os mx p | None \<Rightarrow> Inl PortExhausted)
      else Inl PortExhausted)"
  by pat_completeness auto

lemma checked_add_2_more: "checked_add_2 p = Some q \<Longrightarrow> unat q = unat p + 2"
  by (auto simp: checked_add_2_def unat_word_ariths split: if_splits)

termination scan_range
proof (relation "measure (\<lambda>(os, mx, port). 2 ^ 16 - unat port)")
  fix os :: port_os and mx port p
  assume "checked_add_2 port = Some p"
  moreover have "unat p < 2 ^ 16" using unsigned_less [of p] by simp
  ultimately show "((os, mx, p), os, mx, port) \<in> measure (\<lambda>(os, mx, port). 2 ^ 16 - unat port)"
    by (simp add: checked_add_2_more)
qed simp

declare scan_range.simps [simp del]

definition allocate_in_range :: "port_os \<Rightarrow> u16 \<Rightarrow> u16 \<Rightarrow> port_error + port_pair" where
  "allocate_in_range os mn mx = scan_range os mx (first_port mn)"

definition allocate_rtp_rtcp_pair :: "port_os \<Rightarrow> (u16 \<times> u16) option \<Rightarrow> nat \<Rightarrow> port_error + port_pair" where
  "allocate_rtp_rtcp_pair os window max_attempts =
     (case window of
        None \<Rightarrow> allocate_ephemeral os max_attempts
      | Some (mn, mx) \<Rightarrow> allocate_in_range os mn mx)"

section \<open>The window scan\<close>

text \<open>The pairs the window offers.\<close>

definition pair_free :: "port_os \<Rightarrow> u16 \<Rightarrow> u16 \<Rightarrow> u16 \<Rightarrow> bool" where
  "pair_free os lo mx p \<longleftrightarrow> lo \<le> p \<and> p < mx \<and> even (unat p) \<and> os_bind os p \<and> os_bind os (p + 1)"

lemma even_unat: "even (unat p)" if "(p :: u16) mod 2 = 0"
proof -
  have "unat (p mod 2) = unat p mod 2" by (simp add: unat_mod_distrib)
  with that show ?thesis by auto
qed

lemma skip_pair:
  assumes "even (unat port)" and "checked_add_2 port = Some p" and "\<not> (os_bind os port \<and> os_bind os (port + 1))"
  shows "pair_free os port mx q = pair_free os p mx q"
proof -
  have "unat q = unat port \<or> unat port + 2 \<le> unat q" if "unat port \<le> unat q" "even (unat q)"
    using that assms(1) by presburger
  moreover have "pair_free os port mx q \<Longrightarrow> q \<noteq> port" using assms(3) by (auto simp: pair_free_def)
  ultimately show ?thesis
    using checked_add_2_more [OF assms(2)] by (auto simp: pair_free_def word_le_nat_alt word_unat_eq_iff)
qed

lemma last_pair:
  assumes "even (unat port)" and "checked_add_2 port = None" and "pair_free os port mx q"
  shows "q = port"
proof -
  have "unat q < 2 ^ 16" using unsigned_less [of q] by simp
  moreover have "unat port + 2 \<ge> 2 ^ 16" using assms(2) by (simp add: checked_add_2_def split: if_splits)
  moreover have "unat port \<le> unat q" "even (unat q)" using assms(3) by (auto simp: pair_free_def word_le_nat_alt)
  ultimately have "unat q = unat port" using assms(1) by presburger
  then show ?thesis by (simp add: word_unat_eq_iff)
qed

lemma scan_range_found:
  "scan_range os mx port = Inr pp \<Longrightarrow> even (unat port) \<Longrightarrow>
   pair_free os port mx (pp_rtp pp) \<and> pp_rtcp pp = pp_rtp pp + 1 \<and> (\<forall>q. pair_free os port mx q \<longrightarrow> pp_rtp pp \<le> q)"
proof (induction os mx port rule: scan_range.induct)
  case (1 os mx port)
  show ?case
  proof (cases "port < mx \<and> \<not> (os_bind os port \<and> os_bind os (port + 1))")
    case True
    with 1(2) obtain p where p: "checked_add_2 port = Some p" "scan_range os mx p = Inr pp"
      by (subst (asm) scan_range.simps) (auto split: option.splits)
    moreover have "even (unat p)" using 1(3) checked_add_2_more [OF p(1)] by simp
    ultimately show ?thesis
      using 1(1) [OF _ _ p(1) p(2)] True skip_pair [OF 1(3) p(1)] by auto
  next
    case False
    with 1(2,3) show ?thesis
      by (subst (asm) scan_range.simps) (auto simp: pair_free_def split: if_splits)
  qed
qed

lemma scan_range_exhausted:
  "scan_range os mx port = Inl PortExhausted \<Longrightarrow> even (unat port) \<Longrightarrow> \<not> pair_free os port mx q"
proof (induction os mx port rule: scan_range.induct)
  case (1 os mx port)
  show ?case
  proof (cases "port < mx")
    case True
    with 1(2) have no: "\<not> (os_bind os port \<and> os_bind os (port + 1))"
      by (subst (asm) scan_range.simps) (auto split: if_splits)
    show ?thesis
    proof (cases "checked_add_2 port")
      case None
      with last_pair [OF 1(3) None] no show ?thesis by (auto simp: pair_free_def)
    next
      case (Some p)
      with 1(2) True no have "scan_range os mx p = Inl PortExhausted"
        by (subst (asm) scan_range.simps) simp
      moreover have "even (unat p)" using 1(3) checked_add_2_more [OF Some] by simp
      ultimately show ?thesis using 1(1) [OF True no Some] skip_pair [OF 1(3) Some no] by auto
    qed
  next
    case False
    then show ?thesis by (auto simp: pair_free_def)
  qed
qed

lemma scan_range_no_io:
  "(\<And>p. os_local_addr os p) \<Longrightarrow> scan_range os mx port \<noteq> Inl PortIo"
proof (induction os mx port rule: scan_range.induct)
  case (1 os mx port)
  then show ?case by (subst scan_range.simps) (auto split: option.split)
qed

lemma first_port_cases:
  obtains "unat (first_port mn) = unat mn" "even (unat mn)"
  | "unat (first_port mn) = unat mn + 1" "odd (unat mn)" "mn \<noteq> - 1"
  | "first_port mn = - 1" "mn = - 1"
proof -
  have m: "unat (mn mod 2) = unat mn mod 2" by (simp add: unat_mod_distrib)
  have top: "unat mn < 2 ^ 16" using unsigned_less [of mn] by simp
  show ?thesis
  proof (cases "mn mod 2 = 0")
    case True
    with even_unat [OF True] that(1) show ?thesis by (simp add: first_port_def)
  next
    case False
    then have odd: "odd (unat mn)" using m by (metis even_iff_mod_2_eq_zero unat_eq_zero)
    have "unat (first_port mn) = min (unat mn + 1) (2 ^ 16 - 1)"
      using False by (simp add: first_port_def unat_saturating_add)
    moreover have "unat mn = 2 ^ 16 - 1 \<longleftrightarrow> mn = - 1"
      by (simp add: word_unat_eq_iff unsigned_minus_1_eq_mask mask_eq_exp_minus_1)
    ultimately show ?thesis
      using that(2,3) odd top by (cases "mn = - 1") (auto simp: first_port_def saturating_add_def min_def)
  qed
qed

lemma window_pairs:
  "pair_free os mn mx q = pair_free os (first_port mn) mx q"
  "first_port mn < mx \<Longrightarrow> even (unat (first_port mn))"
proof (atomize (full), cases rule: first_port_cases [of mn])
  case 2
  have "unat mn \<le> unat q \<and> even (unat q) \<longleftrightarrow> unat mn + 1 \<le> unat q \<and> even (unat q)"
    using 2(2) by presburger
  with 2 show "pair_free os mn mx q = pair_free os (first_port mn) mx q \<and> (first_port mn < mx \<longrightarrow> even (unat (first_port mn)))"
    by (auto simp: pair_free_def word_le_nat_alt)
next
  case 3
  then show "pair_free os mn mx q = pair_free os (first_port mn) mx q \<and> (first_port mn < mx \<longrightarrow> even (unat (first_port mn)))"
    by (simp add: word_order.extremum_strict)
qed (auto simp: pair_free_def word_le_nat_alt)

lemma window_empty: "\<not> first_port mn < mx \<Longrightarrow> \<not> pair_free os mn mx q"
  using window_pairs(1) [of os mn mx q] by (auto simp: pair_free_def)

text \<open>Result.
  In a configured window the allocator returns the lowest even port whose odd neighbour is also
  free, both inside the window, and reports exhaustion exactly when the window has no such pair:
  every odd lower bound, the top port 65535 and an empty window included.\<close>

theorem allocate_in_range_exact:
  assumes "\<And>p. os_local_addr os p"
  shows "(allocate_in_range os mn mx = Inl PortExhausted \<longleftrightarrow> (\<forall>q. \<not> pair_free os mn mx q)) \<and>
    (allocate_in_range os mn mx = Inr pp \<longrightarrow>
       pair_free os mn mx (pp_rtp pp) \<and> unat (pp_rtcp pp) = unat (pp_rtp pp) + 1 \<and> pp_rtcp pp \<le> mx \<and>
       (\<forall>q. pair_free os mn mx q \<longrightarrow> pp_rtp pp \<le> q))"
proof (cases "first_port mn < mx")
  case True
  note even = window_pairs(2) [OF this]
  have "unat (p + 1) = unat p + 1 \<and> p + 1 \<le> mx" if "pair_free os lo mx p" for lo p
  proof -
    from that have "unat p < unat mx" by (simp add: pair_free_def word_less_nat_alt)
    moreover have "unat mx < 2 ^ 16" using unsigned_less [of mx] by simp
    ultimately show ?thesis by (simp add: unat_word_ariths word_le_nat_alt)
  qed
  note top = this
  have eq: "pair_free os mn mx = pair_free os (first_port mn) mx" by (intro ext window_pairs(1))
  show ?thesis
  proof (cases "scan_range os mx (first_port mn)")
    case (Inl e)
    with scan_range_no_io [OF assms, of mx "first_port mn"] have "e = PortExhausted" by (cases e) auto
    with Inl scan_range_exhausted [OF _ even] show ?thesis by (simp add: allocate_in_range_def eq)
  next
    case (Inr qq)
    from scan_range_found [OF Inr even] top [of "first_port mn" "pp_rtp qq"] Inr show ?thesis
      by (auto simp: allocate_in_range_def eq)
  qed
next
  case False
  then have "allocate_in_range os mn mx = Inl PortExhausted"
    by (simp add: allocate_in_range_def scan_range.simps)
  with window_empty [OF False] show ?thesis by simp
qed

definition demo_os :: port_os where
  "demo_os = \<lparr> os_ephemeral = (\<lambda>n. Some (of_nat (40001 + n))), os_bind_rtcp = (\<lambda>n p. True),
     os_bind = (\<lambda>p. p \<noteq> 10003), os_local_addr = (\<lambda>p. True) \<rparr>"

theorem allocate_in_range_exact_witness:
  "allocate_in_range demo_os 10001 10010 \<noteq> Inl PortExhausted"
proof -
  have "pair_free demo_os 10001 10010 10004" by (simp add: pair_free_def demo_os_def)
  with allocate_in_range_exact [of demo_os 10001 10010] show ?thesis by (auto simp: demo_os_def)
qed

section \<open>Ephemeral ports\<close>

text \<open>An ephemeral pair is an even port and its successor, found in at most the allowed number of
  attempts; the loop fails with exhaustion only after all of them.\<close>

lemma ephemeral_pair:
  "ephemeral_attempts os n k = Inr pp \<Longrightarrow>
   even (unat (pp_rtp pp)) \<and> unat (pp_rtcp pp) = unat (pp_rtp pp) + 1 \<and>
   (\<exists>i. n \<le> i \<and> i < n + k \<and> os_ephemeral os i = Some (pp_rtp pp) \<and> os_bind_rtcp os i (pp_rtcp pp))"
proof (induction os n k rule: ephemeral_attempts.induct)
  case (2 os n k)
  then obtain rtp where rtp: "os_ephemeral os n = Some rtp" by (auto split: option.splits)
  show ?case
  proof (cases "rtp mod 2 = 0 \<and> os_bind_rtcp os n (rtp + 1)")
    case True
    have "even (unat rtp)" using even_unat [of rtp] conjunct1 [OF True] by (simp only: simp_thms)
    moreover have "unat rtp < 65536" using unsigned_less [of rtp] by simp
    ultimately have "unat rtp + 1 < 2 ^ 16" by simp presburger
    then have "unat (rtp + 1) = unat rtp + 1" by (simp add: unat_word_ariths)
    with True 2(3) rtp \<open>even (unat rtp)\<close> show ?thesis by (auto simp: Let_def split: if_splits)
  next
    case False
    with 2(3) rtp have "ephemeral_attempts os (Suc n) k = Inr pp" by (auto simp: Let_def split: if_splits)
    moreover have "even (unat (pp_rtp pp)) \<and> unat (pp_rtcp pp) = unat (pp_rtp pp) + 1 \<and>
        (\<exists>i. Suc n \<le> i \<and> i < Suc n + k \<and> os_ephemeral os i = Some (pp_rtp pp) \<and> os_bind_rtcp os i (pp_rtcp pp))"
    proof (cases "rtp mod 2 = 0")
      case True
      with False have "\<not> os_bind_rtcp os n (rtp + 1)" by simp
      with 2(2) [OF rtp _ refl] True calculation show ?thesis by simp
    next
      case odd: False
      with 2(1) [OF rtp] calculation show ?thesis by simp
    qed
    ultimately show ?thesis by (metis Suc_leD add_Suc_shift)
  qed
qed simp

end
