(* ===== verification/Raft_Machine.thy ===== *)
theory Raft_Machine
  imports Call_Types
begin

text \<open>
  The replicated dialog table (\<^verbatim>\<open>smiths-raft/src/state_machine.rs\<close>): applying committed
  log entries, building a snapshot, installing one. \<^verbatim>\<open>openraft\<close>'s membership
  configuration is the type \<open>'m\<close>; \<^verbatim>\<open>serde_json\<close> on the snapshot payload is a
  parameter.

  A snapshot is not taken at one moment. \<^verbatim>\<open>get_snapshot_builder\<close> copies the applied
  pointer and the membership; \<^verbatim>\<open>build_snapshot\<close> later iterates the \<^verbatim>\<open>DashMap\<close>
  that it shares with the state machine and with the user agents of the node. An iteration is therefore a
  sequence of events: the iterator looks at a key, the state machine applies an entry, or a user agent
  changes the table directly.
\<close>

section \<open>Model\<close>

type_synonym node_id = u64

record raft_log_id =
  li_term :: u64
  li_node :: node_id
  li_index :: u64

datatype 'm entry_payload = Blank | Normal dialog_delta | Membership 'm

record 'm raft_entry =
  en_log_id :: raft_log_id
  en_payload :: "'m entry_payload"

type_synonym 'm stored_membership = "raft_log_id option \<times> 'm"

record 'm snapshot_meta =
  sm_last_log_id :: "raft_log_id option"
  sm_last_membership :: "'m stored_membership"
  sm_snapshot_id :: bytes

record snapshot_payload =
  sp_dialogs :: "dialog_record list"
  sp_last_applied_term :: "u64 option"
  sp_last_applied_node :: "u64 option"
  sp_last_applied_index :: "u64 option"

record 'm dialog_state_machine =
  rm_dialogs :: "dialog_key \<rightharpoonup> dialog_record"
  rm_last_applied :: "raft_log_id option"
  rm_last_membership :: "'m stored_membership"
  rm_current_snapshot :: "('m snapshot_meta \<times> octets) option"

record snapshot_json =
  sj_to_vec :: "snapshot_payload \<Rightarrow> octets option"
  sj_from_slice :: "octets \<Rightarrow> snapshot_payload option"

datatype storage_error = WriteSnapshot | ReadSnapshot

text \<open>\<open>m0\<close> is the default membership.\<close>

definition machine_new :: "'m \<Rightarrow> (dialog_key \<rightharpoonup> dialog_record) \<Rightarrow> 'm dialog_state_machine" where
  "machine_new m0 dialogs = \<lparr> rm_dialogs = dialogs, rm_last_applied = None,
     rm_last_membership = (None, m0), rm_current_snapshot = None \<rparr>"

definition apply_delta :: "dialog_delta \<Rightarrow> (dialog_key \<rightharpoonup> dialog_record) \<Rightarrow> (dialog_key \<rightharpoonup> dialog_record)" where
  "apply_delta d t =
     (case d of Upsert r \<Rightarrow> t(dialog_record_key r \<mapsto> r) | Delete k \<Rightarrow> t(k := None))"

definition apply_entry :: "'m raft_entry \<Rightarrow> 'm dialog_state_machine \<Rightarrow> 'm dialog_state_machine" where
  "apply_entry e m =
     (let m1 = m \<lparr> rm_last_applied := Some (en_log_id e) \<rparr>
      in case en_payload e of
           Normal delta \<Rightarrow> m1 \<lparr> rm_dialogs := apply_delta delta (rm_dialogs m1) \<rparr>
         | Membership ms \<Rightarrow> m1 \<lparr> rm_last_membership := (Some (en_log_id e), ms) \<rparr>
         | Blank \<Rightarrow> m1)"

fun machine_apply :: "'m raft_entry list \<Rightarrow> 'm dialog_state_machine \<Rightarrow> 'm dialog_state_machine \<times> unit list" where
  "machine_apply [] m = (m, [])"
| "machine_apply (e # es) m = (let (m', rs) = machine_apply es (apply_entry e m) in (m', () # rs))"

definition applied_state :: "'m dialog_state_machine \<Rightarrow> raft_log_id option \<times> 'm stored_membership" where
  "applied_state m = (rm_last_applied m, rm_last_membership m)"

text \<open>What happens to the shared table while it is iterated. The user agents (\<^verbatim>\<open>uas.rs\<close>) insert,
  update in place and remove records of their own, and only then hand the delta to the replicator.\<close>

datatype 'm table_event = Commit "'m raft_entry" | Direct dialog_delta | Visit dialog_key

fun table_change :: "'m table_event \<Rightarrow> 'm dialog_state_machine \<Rightarrow> 'm dialog_state_machine" where
  "table_change (Commit e) m = apply_entry e m"
| "table_change (Direct d) m = m \<lparr> rm_dialogs := apply_delta d (rm_dialogs m) \<rparr>"
| "table_change (Visit k) m = m"

text \<open>The records that the iterator clones: those it finds at the moment it looks.\<close>

fun cloned :: "'m table_event \<Rightarrow> 'm dialog_state_machine \<Rightarrow> dialog_record list" where
  "cloned (Visit k) m = (case rm_dialogs m k of None \<Rightarrow> [] | Some r \<Rightarrow> [r])"
| "cloned _ m = []"

fun iterate :: "'m table_event list \<Rightarrow> 'm dialog_state_machine \<Rightarrow> 'm dialog_state_machine \<times> dialog_record list" where
  "iterate [] m = (m, [])"
| "iterate (ev # evs) m = (let (m', records) = iterate evs (table_change ev m) in (m', cloned ev m @ records))"

record 'm snapshot_builder =
  sb_last_applied :: "raft_log_id option"
  sb_last_membership :: "'m stored_membership"

definition get_snapshot_builder :: "'m dialog_state_machine \<Rightarrow> 'm snapshot_builder" where
  "get_snapshot_builder m = \<lparr> sb_last_applied = rm_last_applied m, sb_last_membership = rm_last_membership m \<rparr>"

definition snapshot_payload_of :: "dialog_record list \<Rightarrow> raft_log_id option \<Rightarrow> snapshot_payload" where
  "snapshot_payload_of records applied = \<lparr> sp_dialogs = records,
     sp_last_applied_term = map_option li_term applied, sp_last_applied_node = map_option li_node applied,
     sp_last_applied_index = map_option li_index applied \<rparr>"

definition snapshot_id :: "raft_log_id option \<Rightarrow> bytes" where
  "snapshot_id applied = ''snap-'' @ show_nat (case applied of None \<Rightarrow> 0 | Some l \<Rightarrow> unat (li_term l))
     @ ''-'' @ show_nat (case applied of None \<Rightarrow> 0 | Some l \<Rightarrow> unat (li_index l))"

text \<open>\<open>evs\<close> is what happens during the iteration, \<open>m\<close> the state machine when it starts.\<close>

definition build_snapshot ::
    "snapshot_json \<Rightarrow> 'm snapshot_builder \<Rightarrow> 'm table_event list \<Rightarrow> 'm dialog_state_machine \<Rightarrow>
     'm dialog_state_machine \<times> (storage_error + ('m snapshot_meta \<times> octets))" where
  "build_snapshot js b evs m =
     (let (m', records) = iterate evs m
      in (m', case sj_to_vec js (snapshot_payload_of records (sb_last_applied b)) of
                None \<Rightarrow> Inl WriteSnapshot
              | Some data \<Rightarrow>
                  Inr (\<lparr> sm_last_log_id = sb_last_applied b, sm_last_membership = sb_last_membership b,
                         sm_snapshot_id = snapshot_id (sb_last_applied b) \<rparr>, data)))"

definition reload :: "dialog_record list \<Rightarrow> (dialog_key \<rightharpoonup> dialog_record)" where
  "reload rs = fold (\<lambda>r t. t(dialog_record_key r \<mapsto> r)) rs Map.empty"

definition install_snapshot ::
    "snapshot_json \<Rightarrow> 'm snapshot_meta \<Rightarrow> octets \<Rightarrow> 'm dialog_state_machine \<Rightarrow>
     storage_error + 'm dialog_state_machine" where
  "install_snapshot js meta data m =
     (case sj_from_slice js data of
        None \<Rightarrow> Inl ReadSnapshot
      | Some payload \<Rightarrow>
          Inr \<lparr> rm_dialogs = reload (sp_dialogs payload), rm_last_applied = sm_last_log_id meta,
                rm_last_membership = sm_last_membership meta, rm_current_snapshot = Some (meta, data) \<rparr>)"

definition get_current_snapshot :: "'m dialog_state_machine \<Rightarrow> ('m snapshot_meta \<times> octets) option" where
  "get_current_snapshot m = rm_current_snapshot m"

section \<open>Invariant\<close>

text \<open>Every record is stored under its own key.\<close>

definition keyed :: "(dialog_key \<rightharpoonup> dialog_record) \<Rightarrow> bool" where
  "keyed t \<longleftrightarrow> (\<forall>k r. t k = Some r \<longrightarrow> dialog_record_key r = k)"

lemma keyedD: "keyed t \<Longrightarrow> t k = Some r \<Longrightarrow> dialog_record_key r = k"
  unfolding keyed_def by blast

lemma keyed_delta: "keyed t \<Longrightarrow> keyed (apply_delta d t)"
  by (auto simp: keyed_def apply_delta_def split: dialog_delta.splits)

lemma keyed_entry: "keyed (rm_dialogs m) \<Longrightarrow> keyed (rm_dialogs (apply_entry e m))"
  by (auto simp: apply_entry_def Let_def keyed_delta split: entry_payload.split)

lemma keyed_apply: "keyed (rm_dialogs m) \<Longrightarrow> keyed (rm_dialogs (fst (machine_apply es m)))"
  by (induction es arbitrary: m) (simp_all add: case_prod_unfold Let_def keyed_entry)

lemma machine_apply_append:
  "fst (machine_apply (xs @ ys) m) = fst (machine_apply ys (fst (machine_apply xs m)))"
  by (induction xs arbitrary: m) (simp_all add: case_prod_unfold Let_def)

lemma machine_apply_acks: "length (snd (machine_apply es m)) = length es"
  by (induction es arbitrary: m) (simp_all add: case_prod_unfold Let_def)

section \<open>The table is what the log says\<close>

fun delta_key :: "dialog_delta \<Rightarrow> dialog_key" where
  "delta_key (Upsert r) = dialog_record_key r"
| "delta_key (Delete k) = k"

fun delta_value :: "dialog_delta \<Rightarrow> dialog_record option" where
  "delta_value (Upsert r) = Some r"
| "delta_value (Delete k) = None"

fun entry_delta :: "'m raft_entry \<Rightarrow> dialog_delta option" where
  "entry_delta e = (case en_payload e of Normal d \<Rightarrow> Some d | _ \<Rightarrow> None)"

text \<open>The specification: the last delta of a key decides.\<close>

definition last_delta :: "'m raft_entry list \<Rightarrow> dialog_key \<Rightarrow> dialog_delta option" where
  "last_delta es k = List.find (\<lambda>d. delta_key d = k) (rev (List.map_filter entry_delta es))"

lemma map_filter_snoc: "List.map_filter f (xs @ [x]) = List.map_filter f xs @ (case f x of None \<Rightarrow> [] | Some y \<Rightarrow> [y])"
  by (simp add: List.map_filter_def split: option.split)

lemma last_delta_Nil [simp]: "last_delta [] k = None"
  by (simp add: last_delta_def List.map_filter_def)

lemma last_delta_snoc [simp]:
  "last_delta (es @ [e]) k = (case entry_delta e of
      Some d \<Rightarrow> if delta_key d = k then Some d else last_delta es k | None \<Rightarrow> last_delta es k)"
  by (auto simp: last_delta_def map_filter_snoc split: option.split)

lemma last_delta_append_None: "last_delta (xs @ ys) k = None \<longleftrightarrow> last_delta xs k = None \<and> last_delta ys k = None"
  by (auto simp: last_delta_def find_None_iff List.map_filter_def)

lemma apply_delta_at: "apply_delta d t k = (if delta_key d = k then delta_value d else t k)"
  by (cases d) (auto simp: apply_delta_def)

lemma apply_entry_at:
  "rm_dialogs (apply_entry e m) k = (case entry_delta e of
     Some d \<Rightarrow> if delta_key d = k then delta_value d else rm_dialogs m k | None \<Rightarrow> rm_dialogs m k)"
  by (cases "en_payload e") (simp_all add: apply_entry_def Let_def apply_delta_at)

lemma apply_last_delta:
  "rm_dialogs (fst (machine_apply es m)) k = (case last_delta es k of None \<Rightarrow> rm_dialogs m k | Some d \<Rightarrow> delta_value d)"
proof (induction es rule: rev_induct)
  case (snoc e es)
  then show ?case
    by (auto simp: machine_apply_append apply_entry_at simp del: entry_delta.simps split: option.split)
qed simp

lemma apply_last_applied:
  "rm_last_applied (fst (machine_apply es m)) = (if es = [] then rm_last_applied m else Some (en_log_id (last es)))"
proof (induction es rule: rev_induct)
  case (snoc e es)
  then show ?case by (cases "en_payload e") (simp_all add: machine_apply_append apply_entry_def)
qed simp

text \<open>Result.
  After any committed log, a dialog is in the table exactly as the last delta for its key left it:
  present with the record of an upsert, absent after a delete or when there was no delta; and the
  applied pointer is the id of the last entry.\<close>

theorem raft_table_is_last_delta:
  "rm_dialogs (fst (machine_apply es (machine_new m0 Map.empty))) k =
     (case last_delta es k of None \<Rightarrow> None | Some d \<Rightarrow> delta_value d) \<and>
   rm_last_applied (fst (machine_apply es (machine_new m0 Map.empty))) =
     (if es = [] then None else Some (en_log_id (last es)))"
  by (simp add: apply_last_delta apply_last_applied machine_new_def split: option.split)

section \<open>Histories of the shared table\<close>

text \<open>The entries that a history commits, the keys that user agents write in it, and all it changes.\<close>

definition commits :: "'m table_event list \<Rightarrow> 'm raft_entry list" where
  "commits evs = List.map_filter (\<lambda>ev. case ev of Commit e \<Rightarrow> Some e | _ \<Rightarrow> None) evs"

definition direct_keys :: "'m table_event list \<Rightarrow> dialog_key set" where
  "direct_keys evs = delta_key ` {d. Direct d \<in> set evs}"

definition changed_keys :: "'m table_event list \<Rightarrow> dialog_key set" where
  "changed_keys evs = direct_keys evs \<union> {k. last_delta (commits evs) k \<noteq> None}"

lemma commits_simps [simp]:
  "commits [] = []" "commits (Commit e # evs) = e # commits evs"
  "commits (Direct d # evs) = commits evs" "commits (Visit k # evs) = commits evs"
  by (simp_all add: commits_def List.map_filter_def)

lemma keyed_change: "keyed (rm_dialogs m) \<Longrightarrow> keyed (rm_dialogs (table_change ev m))"
  by (cases ev) (simp_all add: keyed_entry keyed_delta)

lemma keyed_iterate: "keyed (rm_dialogs m) \<Longrightarrow> keyed (rm_dialogs (fst (iterate evs m)))"
  by (induction evs arbitrary: m) (simp_all add: case_prod_unfold Let_def keyed_change)

lemma table_change_unchanged:
  "k \<notin> changed_keys (ev # evs) \<Longrightarrow> rm_dialogs (table_change ev m) k = rm_dialogs m k \<and> k \<notin> changed_keys evs"
proof (cases ev)
  case (Commit e)
  assume "k \<notin> changed_keys (ev # evs)"
  then have k: "k \<notin> direct_keys evs" "last_delta [e] k = None" "last_delta (commits evs) k = None"
    using last_delta_append_None [of "[e]" "commits evs" k] by (auto simp: Commit changed_keys_def direct_keys_def)
  from k(2) have "rm_dialogs (apply_entry e m) k = rm_dialogs m k"
    using last_delta_snoc [of "[]" e k] by (auto simp: apply_entry_at simp del: entry_delta.simps split: option.splits if_splits)
  with k Commit show ?thesis by (simp add: changed_keys_def)
qed (auto simp: changed_keys_def direct_keys_def apply_delta_at)

text \<open>A key that nothing changes is loaded as it was, if the iterator looked at it.\<close>

lemma fold_cloned:
  assumes "keyed (rm_dialogs m)" and "k \<notin> changed_keys evs"
  shows "fold (\<lambda>r t. t(dialog_record_key r \<mapsto> r)) (snd (iterate evs m)) t k =
    (if Visit k \<in> set evs \<and> rm_dialogs m k \<noteq> None then rm_dialogs m k else t k)"
  using assms
proof (induction evs arbitrary: m t)
  case (Cons ev evs)
  note un = table_change_unchanged [OF Cons.prems(2), of m]
  note IH = Cons.IH [OF keyed_change [OF Cons.prems(1)] conjunct2 [OF un], of ev, unfolded conjunct1 [OF un]]
  show ?case
  proof (cases ev)
    case (Visit k')
    then show ?thesis
      using IH keyedD [OF Cons.prems(1), of k'] by (auto simp: case_prod_unfold Let_def split: option.split)
  qed (use IH in \<open>auto simp: case_prod_unfold Let_def\<close>)
qed simp

lemma applied_state_entry:
  "applied_state m = applied_state m' \<Longrightarrow> applied_state (apply_entry e m) = applied_state (apply_entry e m')"
  by (cases "en_payload e") (auto simp: applied_state_def apply_entry_def)

lemma applied_state_apply:
  "applied_state m = applied_state m' \<Longrightarrow>
   applied_state (fst (machine_apply es m)) = applied_state (fst (machine_apply es m'))"
proof (induction es arbitrary: m m')
  case (Cons e es)
  from Cons.IH [OF applied_state_entry [OF Cons.prems]] show ?case by (simp add: case_prod_unfold Let_def)
qed simp

text \<open>Direct writes move neither the applied pointer nor the membership.\<close>

lemma applied_state_iterate:
  "applied_state (fst (iterate evs m)) = applied_state (fst (machine_apply (commits evs) m))"
proof (induction evs arbitrary: m)
  case (Cons ev evs)
  show ?case
  proof (cases ev)
    case (Direct d)
    have "applied_state (m \<lparr> rm_dialogs := apply_delta d (rm_dialogs m) \<rparr>) = applied_state m" by (simp add: applied_state_def)
    from Cons applied_state_apply [OF this] Direct show ?thesis by (simp add: case_prod_unfold Let_def)
  qed (use Cons in \<open>simp_all add: case_prod_unfold Let_def\<close>)
qed simp

section \<open>Snapshots\<close>

text \<open>On which keys the log alone decides, for a builder taken after \<open>before\<close>, an iteration
  \<open>during\<close> and the entries \<open>es\<close> that follow the captured pointer: those with a delta in \<open>es\<close>,
  and those on which the table agreed with the log at the capture and that no user agent writes during the
  iteration.\<close>

definition log_decides ::
    "'m \<Rightarrow> 'm table_event list \<Rightarrow> 'm table_event list \<Rightarrow> 'm raft_entry list \<Rightarrow> dialog_key \<Rightarrow> bool" where
  "log_decides m0 before during es k \<longleftrightarrow> last_delta es k \<noteq> None \<or>
     k \<notin> direct_keys during \<and> rm_dialogs (fst (iterate before (machine_new m0 Map.empty))) k =
       rm_dialogs (fst (machine_apply (commits before) (machine_new m0 Map.empty))) k"

lemma iterate_no_direct:
  "direct_keys evs = {} \<Longrightarrow> fst (iterate evs m) = fst (machine_apply (commits evs) m)"
proof (induction evs arbitrary: m)
  case (Cons ev evs)
  then have "direct_keys evs = {}" "\<And>d. ev \<noteq> Direct d" unfolding direct_keys_def by auto
  with Cons.IH show ?case by (cases ev) (auto simp: case_prod_unfold Let_def)
qed simp

lemma log_decides_without_direct:
  "direct_keys before = {} \<Longrightarrow> direct_keys during = {} \<Longrightarrow> log_decides m0 before during es k"
  by (simp add: log_decides_def iterate_no_direct)

text \<open>Property C35.
  Catching up by a snapshot. A replica applies the log while its user agents write to the table directly;
  at some moment \<open>get_snapshot_builder\<close> captures the applied pointer and the membership, and from then
  on the table is iterated key by key while further entries are applied and further direct writes happen.
  The iterator is only required to look at every key that is in the table at the capture and that nothing
  changes meanwhile, and JSON to read back the payloads it wrote. Then the snapshot names the last entry
  applied before the capture, and a replica that installs it, whatever it held before, and applies the
  entries after that one (with nothing else writing to its table) has the applied pointer and the
  membership of a replica that applied the whole log, and the same record or none for every key that the
  log decides: a key with a delta after the capture, or one on which the source agreed with the log at
  the capture and that no user agent wrote during the iteration. Without direct writes these are
  all keys.\<close>

theorem raft_snapshot_catches_up:
  fixes m0 :: 'm
  assumes "m1 = fst (iterate before (machine_new m0 Map.empty))"
    and "build_snapshot js (get_snapshot_builder m1) during m1 = (m2, Inr (meta, data))"
    and "\<And>k. k \<in> dom (rm_dialogs m1) \<Longrightarrow> k \<notin> changed_keys during \<Longrightarrow> Visit k \<in> set during"
    and "\<And>p b. sj_to_vec js p = Some b \<Longrightarrow> sj_from_slice js b = Some p"
    and "es = commits during @ later"
    and "whole = fst (machine_apply (commits before @ es) (machine_new m0 Map.empty))"
  shows "sm_last_log_id meta = (if commits before = [] then None else Some (en_log_id (last (commits before)))) \<and>
    (\<exists>m. install_snapshot js meta data old = Inr m \<and>
      applied_state (fst (machine_apply es m)) = applied_state whole \<and>
      (\<forall>k. log_decides m0 before during es k \<longrightarrow> rm_dialogs (fst (machine_apply es m)) k = rm_dialogs whole k) \<and>
      (direct_keys before = {} \<and> direct_keys during = {} \<longrightarrow> rm_dialogs (fst (machine_apply es m)) = rm_dialogs whole))"
proof -
  let ?new = "machine_new m0 Map.empty"
  let ?log = "fst (machine_apply (commits before) ?new)"
  have keyed: "keyed (rm_dialogs m1)"
    unfolding assms(1) by (rule keyed_iterate) (simp add: keyed_def machine_new_def)
  have st: "applied_state m1 = applied_state ?log" unfolding assms(1) by (rule applied_state_iterate)
  obtain m where inst: "install_snapshot js meta data old = Inr m"
    and m: "rm_dialogs m = reload (snd (iterate during m1))" "applied_state m = applied_state m1"
    and meta: "sm_last_log_id meta = rm_last_applied m1"
  proof -
    let ?p = "snapshot_payload_of (snd (iterate during m1)) (rm_last_applied m1)"
    from assms(2) have "sj_to_vec js ?p = Some data" "sm_last_log_id meta = rm_last_applied m1"
        "sm_last_membership meta = rm_last_membership m1"
      by (auto simp: build_snapshot_def get_snapshot_builder_def case_prod_unfold Let_def split: option.splits)
    with assms(4) [of ?p data] that show thesis
      by (simp add: install_snapshot_def snapshot_payload_of_def applied_state_def)
  qed
  have ptr: "sm_last_log_id meta = (if commits before = [] then None else Some (en_log_id (last (commits before))))"
    using meta st by (simp add: applied_state_def apply_last_applied machine_new_def)
  have applied: "applied_state (fst (machine_apply es m)) = applied_state whole"
    using applied_state_apply [of m ?log es] m(2) st by (simp add: assms(6) machine_apply_append)
  have table: "rm_dialogs (fst (machine_apply es m)) k = rm_dialogs whole k" if "log_decides m0 before during es k" for k
  proof (cases "last_delta es k")
    case None
    with that have k: "k \<notin> changed_keys during" "rm_dialogs m1 k = rm_dialogs ?log k"
      unfolding log_decides_def assms(1,5) by (simp_all add: changed_keys_def last_delta_append_None)
    have "rm_dialogs m k = rm_dialogs m1 k"
      using fold_cloned [OF keyed k(1), of Map.empty] assms(3) [OF _ k(1)]
      by (cases "rm_dialogs m1 k") (auto simp: m(1) reload_def dom_def simp del: fun_upd_apply)
    with None k(2) show ?thesis by (simp add: assms(6) machine_apply_append apply_last_delta)
  qed (simp add: assms(6) machine_apply_append apply_last_delta)
  moreover have "rm_dialogs (fst (machine_apply es m)) = rm_dialogs whole" if "direct_keys before = {}" "direct_keys during = {}"
    using table log_decides_without_direct [OF that] by blast
  ultimately show ?thesis using ptr inst applied by blast
qed

text \<open>Result. What a user agent writes while the table is iterated gets into the snapshot: when the log
  never has a delta for the key after the capture (the replicator drops a delta when its queue is full),
  the replica that installs the snapshot keeps a record that the log does not have.\<close>

theorem unlogged_write_spreads:
  assumes "k = dialog_record_key r" and "build_snapshot js b [Direct (Upsert r), Visit k] m = (m2, Inr (meta, data))"
    and "\<And>p b. sj_to_vec js p = Some b \<Longrightarrow> sj_from_slice js b = Some p" and "last_delta es k = None"
  shows "\<exists>m'. install_snapshot js meta data old = Inr m' \<and> rm_dialogs (fst (machine_apply es m')) k = Some r"
proof -
  let ?p = "snapshot_payload_of [r] (sb_last_applied b)"
  from assms(1,2) have "sj_to_vec js ?p = Some data"
    by (auto simp: build_snapshot_def apply_delta_def split: option.splits)
  from assms(3) [OF this] show ?thesis
    using assms(1,4) by (simp add: install_snapshot_def snapshot_payload_of_def reload_def apply_last_delta)
qed

section \<open>Witness\<close>

definition demo_dialog :: dialog_record where
  "demo_dialog = \<lparr> dr_call_id = ''a84b'', dr_local_tag = ''1'', dr_remote_tag = ''2'', dr_state = CoreConfirmed,
     dr_peer_signal = \<lparr> sa_ip = [127, 0, 0, 1], sa_port = 5060 \<rparr>, dr_rendezvous = None, dr_media = Some 1,
     dr_remote_media = None, dr_pending_2xx = None, dr_per_leg_codec = Map.empty, dr_ice = None,
     dr_remote_target = None, dr_route_set = [], dr_local_uri = None, dr_remote_uri = None, dr_local_cseq = 0,
     dr_remote_cseq = Some 1, dr_transport = Some ''UDP'', dr_last_invite_branch = None, dr_local_media = None,
     dr_session_expires_secs = None \<rparr>"

definition demo_log_id :: "u64 \<Rightarrow> raft_log_id" where
  "demo_log_id i = \<lparr> li_term = 1, li_node = 1, li_index = i \<rparr>"

definition demo_entry :: "u64 \<Rightarrow> dialog_delta \<Rightarrow> unit raft_entry" where
  "demo_entry i d = \<lparr> en_log_id = demo_log_id i, en_payload = Normal d \<rparr>"

definition demo_other :: dialog_record where
  "demo_other = demo_dialog \<lparr> dr_call_id := ''b95c'' \<rparr>"

text \<open>The first dialog is committed and the builder taken; during the iteration a second one is committed
  and looked at, then the first is deleted after the iterator has cloned it.\<close>

definition demo_before :: "unit table_event list" where
  "demo_before = [Commit (demo_entry 1 (Upsert demo_dialog))]"

definition demo_during :: "unit table_event list" where
  "demo_during = [Visit (dialog_record_key demo_dialog), Commit (demo_entry 2 (Upsert demo_other)),
     Visit (dialog_record_key demo_other), Commit (demo_entry 3 (Delete (dialog_record_key demo_dialog)))]"

text \<open>A JSON that knows one payload.\<close>

definition demo_snapshot_json :: snapshot_json where
  "demo_snapshot_json =
     (let p = snapshot_payload_of [demo_dialog, demo_other] (Some (demo_log_id 1))
      in \<lparr> sj_to_vec = (\<lambda>q. if q = p then Some [0x7B] else None),
           sj_from_slice = (\<lambda>b. if b = [0x7B] then Some p else None) \<rparr>)"

theorem raft_snapshot_catches_up_witness:
  "\<exists>m meta. install_snapshot demo_snapshot_json meta [0x7B] (machine_new () Map.empty) = Inr m \<and>
     sm_last_log_id meta = Some (demo_log_id 1) \<and>
     rm_dialogs (fst (machine_apply (commits demo_during) m)) = [dialog_record_key demo_other \<mapsto> demo_other]"
proof -
  let ?m1 = "fst (iterate demo_before (machine_new () Map.empty))"
  have keys: "dialog_record_key demo_dialog \<noteq> dialog_record_key demo_other"
    by (simp add: demo_other_def demo_dialog_def dialog_record_key_def)
  have m1: "rm_dialogs ?m1 = [dialog_record_key demo_dialog \<mapsto> demo_dialog]" "rm_last_applied ?m1 = Some (demo_log_id 1)"
    by (simp_all add: demo_before_def demo_entry_def machine_new_def apply_entry_def apply_delta_def)
  have "snd (iterate demo_during ?m1) = [demo_dialog, demo_other]"
    using keys m1(1) by (simp add: demo_during_def demo_entry_def apply_entry_def apply_delta_def)
  then obtain m2 meta where b: "build_snapshot demo_snapshot_json (get_snapshot_builder ?m1) demo_during ?m1 = (m2, Inr (meta, [0x7B]))"
    by (simp add: build_snapshot_def get_snapshot_builder_def m1(2) demo_snapshot_json_def Let_def case_prod_unfold)
  have visits: "Visit k \<in> set demo_during" if "k \<in> dom (rm_dialogs ?m1)" for k
    using that unfolding m1 by (simp add: demo_during_def)
  have json: "sj_from_slice demo_snapshot_json c = Some p" if "sj_to_vec demo_snapshot_json p = Some c" for p c
    using that by (simp add: demo_snapshot_json_def Let_def split: if_splits)
  have direct: "direct_keys demo_before = {}" "direct_keys demo_during = {}"
    by (simp_all add: direct_keys_def demo_before_def demo_during_def)
  from raft_snapshot_catches_up [OF refl b visits json, of "commits demo_during" "[]" _ "machine_new () Map.empty"]
  obtain m where "install_snapshot demo_snapshot_json meta [0x7B] (machine_new () Map.empty) = Inr m"
    and "sm_last_log_id meta = Some (demo_log_id 1)" and "rm_dialogs (fst (machine_apply (commits demo_during) m))
      = rm_dialogs (fst (machine_apply (commits demo_before @ commits demo_during) (machine_new () Map.empty)))"
    using direct by (auto simp: demo_before_def demo_entry_def)
  moreover have "rm_dialogs (fst (machine_apply (commits demo_before @ commits demo_during) (machine_new () Map.empty)))
      = [dialog_record_key demo_other \<mapsto> demo_other]"
    using keys by (auto simp: demo_before_def demo_during_def demo_entry_def machine_new_def apply_entry_def apply_delta_def)
  ultimately show ?thesis by auto
qed

end
