(* ===== verification/Raft_Log.thy ===== *)
theory Raft_Log
  imports Raft_Machine "HOL-Library.Sublist"
begin

text \<open>
  The Raft log on disk (\<^verbatim>\<open>smiths-raft/src/log_store.rs\<close>), the peer list
  (\<^verbatim>\<open>parse_peer\<close>, \<^verbatim>\<open>membership\<close>) and the replicator's bounded
  write queue (\<^verbatim>\<open>smiths-raft/src/node.rs\<close>).

  The \<^verbatim>\<open>SQLite\<close> tables are what their statements make them: \<^verbatim>\<open>raft_logs\<close>
  a map from the signed 64-bit index to term and payload, \<^verbatim>\<open>raft_state\<close> the one row
  the code uses. \<^verbatim>\<open>serde_json\<close> on entries is a parameter; a payload that does not
  parse is a panic, here \<open>None\<close>.
\<close>

section \<open>Log store\<close>

record log_row =
  lr_term :: int
  lr_payload :: octets

text \<open>Rows sorted by index, as \<^verbatim>\<open>ORDER BY log_index\<close> delivers them.\<close>

record 'v log_store =
  ls_rows :: "(int \<times> log_row) list"
  ls_vote :: "'v option"

record 'm entry_json =
  ej_to_vec :: "'m raft_entry \<Rightarrow> octets"
  ej_from_slice :: "octets \<Rightarrow> 'm raft_entry option"

datatype bound = Included u64 | Excluded u64 | Unbounded

definition log_store_new :: "'v log_store" where
  "log_store_new = \<lparr> ls_rows = [], ls_vote = None \<rparr>"

definition last_log_id_from_db :: "'v log_store \<Rightarrow> raft_log_id option" where
  "last_log_id_from_db s =
     (if ls_rows s = [] then None
      else let (index, row) = last (ls_rows s)
        in Some \<lparr> li_term = of_int (lr_term row), li_node = 0, li_index = of_int index \<rparr>)"

text \<open>\<open>v.cast_signed() + 1\<close> on \<^verbatim>\<open>i64\<close>, wrapping as release builds do.\<close>

definition range_start :: "bound \<Rightarrow> int" where
  "range_start b = (case b of Included v \<Rightarrow> sint v | Excluded v \<Rightarrow> sint (v + 1) | Unbounded \<Rightarrow> 0)"

definition below_end :: "bound \<Rightarrow> int \<Rightarrow> bool" where
  "below_end b i = (case b of Included v \<Rightarrow> i \<le> sint v | Excluded v \<Rightarrow> i < sint v | Unbounded \<Rightarrow> True)"

fun parse_all :: "(octets \<Rightarrow> 'e option) \<Rightarrow> octets list \<Rightarrow> 'e list option" where
  "parse_all f [] = Some []"
| "parse_all f (b # bs) =
     (case f b of None \<Rightarrow> None | Some e \<Rightarrow> map_option ((#) e) (parse_all f bs))"

definition try_get_log_entries ::
    "'m entry_json \<Rightarrow> bound \<Rightarrow> bound \<Rightarrow> 'v log_store \<Rightarrow> 'm raft_entry list option" where
  "try_get_log_entries js lo hi s =
     parse_all (ej_from_slice js)
       (map (lr_payload \<circ> snd) (filter (\<lambda>(i, _). range_start lo \<le> i \<and> below_end hi i) (ls_rows s)))"

definition get_log_state :: "'v log_store \<Rightarrow> raft_log_id option \<times> raft_log_id option" where
  "get_log_state s = (None, last_log_id_from_db s)"

definition save_vote :: "'v \<Rightarrow> 'v log_store \<Rightarrow> 'v log_store" where
  "save_vote v s = s \<lparr> ls_vote := Some v \<rparr>"

definition read_vote :: "'v log_store \<Rightarrow> 'v option" where
  "read_vote s = ls_vote s"

text \<open>\<^verbatim>\<open>INSERT OR REPLACE\<close> into the sorted rows.\<close>

fun put_row :: "int \<Rightarrow> log_row \<Rightarrow> (int \<times> log_row) list \<Rightarrow> (int \<times> log_row) list" where
  "put_row i r [] = [(i, r)]"
| "put_row i r ((j, q) # rows) =
     (if i < j then (i, r) # (j, q) # rows
      else if i = j then (i, r) # rows
      else (j, q) # put_row i r rows)"

definition append_entry :: "'m entry_json \<Rightarrow> 'm raft_entry \<Rightarrow> 'v log_store \<Rightarrow> 'v log_store" where
  "append_entry js e s = s \<lparr> ls_rows := put_row (sint (li_index (en_log_id e)))
     \<lparr> lr_term = sint (li_term (en_log_id e)), lr_payload = ej_to_vec js e \<rparr> (ls_rows s) \<rparr>"

definition log_append :: "'m entry_json \<Rightarrow> 'm raft_entry list \<Rightarrow> 'v log_store \<Rightarrow> 'v log_store" where
  "log_append js es s = fold (append_entry js) es s"

definition log_truncate :: "raft_log_id \<Rightarrow> 'v log_store \<Rightarrow> 'v log_store" where
  "log_truncate lid s = s \<lparr> ls_rows := filter (\<lambda>(i, _). \<not> sint (li_index lid) \<le> i) (ls_rows s) \<rparr>"

definition log_purge :: "raft_log_id \<Rightarrow> 'v log_store \<Rightarrow> 'v log_store" where
  "log_purge lid s = s \<lparr> ls_rows := filter (\<lambda>(i, _). \<not> i \<le> sint (li_index lid)) (ls_rows s) \<rparr>"

section \<open>Peers\<close>

datatype peer_error = PeerSyntax bytes string

text \<open>\<^verbatim>\<open>rsplit_once(':')\<close>.\<close>

definition rsplit_once :: "char \<Rightarrow> bytes \<Rightarrow> (bytes \<times> bytes) option" where
  "rsplit_once c s =
     (if c \<in> set s
      then let r = rev (takeWhile (\<lambda>x. x \<noteq> c) (rev s)) in Some (take (length s - length r - 1) s, r)
      else None)"

definition is_ascii_digit :: "char \<Rightarrow> bool" where
  "is_ascii_digit c \<longleftrightarrow> 48 \<le> code c \<and> code c \<le> (57 :: nat)"

definition parse_peer :: "bytes \<Rightarrow> peer_error + (nat \<times> bytes)" where
  "parse_peer entry =
     (case split_once ''@'' entry of
        None \<Rightarrow> Inl (PeerSyntax entry ''missing `@`'')
      | Some (pid, addr) \<Rightarrow>
          (case parse_unsigned (2 ^ 64) (trim pid) of
             None \<Rightarrow> Inl (PeerSyntax entry ''node id is not a number'')
           | Some n \<Rightarrow>
               let addr = trim addr
               in if addr = [] then Inl (PeerSyntax entry ''empty address'')
                  else if (case rsplit_once CHR '':'' addr of
                             None \<Rightarrow> False
                           | Some (_, p) \<Rightarrow> p \<noteq> [] \<and> list_all is_ascii_digit p \<and>
                               parse_unsigned (2 ^ 16) p \<noteq> None)
                  then Inr (n, addr)
                  else Inl (PeerSyntax entry ''address has no `:port`'')))"

fun parse_peers :: "(nat \<rightharpoonup> bytes) \<Rightarrow> bytes list \<Rightarrow> peer_error + (nat \<rightharpoonup> bytes)" where
  "parse_peers m [] = Inr m"
| "parse_peers m (e # es) =
     (case parse_peer e of Inl err \<Rightarrow> Inl err | Inr (n, a) \<Rightarrow> parse_peers (m(n \<mapsto> a)) es)"

text \<open>\<open>own_addr\<close> is \<^verbatim>\<open>cfg.raft_addr.to_string()\<close>.\<close>

definition membership :: "nat \<Rightarrow> bytes \<Rightarrow> bytes list \<Rightarrow> peer_error + (nat \<rightharpoonup> bytes)" where
  "membership node own_addr peers =
     (case parse_peers Map.empty peers of
        Inl e \<Rightarrow> Inl e
      | Inr m \<Rightarrow> Inr (if m node = None then m(node \<mapsto> own_addr) else m))"

section \<open>Replicator\<close>

definition WRITE_QUEUE_DEPTH :: nat where "WRITE_QUEUE_DEPTH = 1024"

record replicator =
  rq_queue :: "dialog_delta list"
  rq_open :: bool
  rq_submitted :: nat
  rq_applied :: nat
  rq_not_leader :: nat
  rq_dropped :: nat

definition replicator_new :: replicator where
  "replicator_new = \<lparr> rq_queue = [], rq_open = True, rq_submitted = 0, rq_applied = 0, rq_not_leader = 0,
     rq_dropped = 0 \<rparr>"

definition replicate_delta :: "dialog_delta \<Rightarrow> replicator \<Rightarrow> replicator" where
  "replicate_delta d r =
     (let r1 = r \<lparr> rq_submitted := rq_submitted r + 1 \<rparr>
      in if rq_open r \<and> length (rq_queue r) < WRITE_QUEUE_DEPTH
         then r1 \<lparr> rq_queue := rq_queue r @ [d] \<rparr>
         else r1 \<lparr> rq_dropped := rq_dropped r + 1 \<rparr>)"

text \<open>One turn of the pump: \<open>committed\<close> is what \<^verbatim>\<open>client_write\<close> answered. The delta
  taken is returned when it was committed.\<close>

definition pump :: "bool \<Rightarrow> replicator \<Rightarrow> replicator \<times> dialog_delta list" where
  "pump committed r =
     (if \<not> rq_open r then (r, [])
      else case rq_queue r of
        [] \<Rightarrow> (r, [])
      | d # ds \<Rightarrow>
          if committed then (r \<lparr> rq_queue := ds, rq_applied := rq_applied r + 1 \<rparr>, [d])
          else (r \<lparr> rq_queue := ds, rq_not_leader := rq_not_leader r + 1 \<rparr>, []))"

text \<open>The pump task ends on cancellation; its receiver goes with it.\<close>

definition pump_cancel :: "replicator \<Rightarrow> replicator" where
  "pump_cancel r = r \<lparr> rq_open := False \<rparr>"

section \<open>The log as a map\<close>

definition log_sorted :: "'v log_store \<Rightarrow> bool" where
  "log_sorted s \<longleftrightarrow> sorted_wrt (<) (map fst (ls_rows s))"

text \<open>The abstract log: which entry stands at which index.\<close>

definition abs_log :: "'m entry_json \<Rightarrow> 'v log_store \<Rightarrow> int \<Rightarrow> 'm raft_entry option" where
  "abs_log js s i = (case map_of (ls_rows s) i of None \<Rightarrow> None | Some r \<Rightarrow> ej_from_slice js (lr_payload r))"

definition entry_index :: "'m raft_entry \<Rightarrow> int" where
  "entry_index e = sint (li_index (en_log_id e))"

lemma put_row_keys: "fst ` set (put_row i r rows) = insert i (fst ` set rows)"
  by (induction i r rows rule: put_row.induct) auto

lemma put_row_sorted: "sorted_wrt (<) (map fst rows) \<Longrightarrow> sorted_wrt (<) (map fst (put_row i r rows))"
proof (induction i r rows rule: put_row.induct)
  case (2 i r j q rows)
  have "\<forall>x \<in> fst ` set (put_row i r rows). j < x" if "j < i" using that 2 by (auto simp: put_row_keys)
  with 2 show ?case by auto
qed simp

lemma put_row_lookup: "sorted_wrt (<) (map fst rows) \<Longrightarrow> map_of (put_row i r rows) = (map_of rows)(i \<mapsto> r)"
proof (induction i r rows rule: put_row.induct)
  case (2 i r j q rows)
  show ?case
  proof (cases "i < j")
    case True
    then show ?thesis by (auto simp: fun_eq_iff)
  qed (use 2 in \<open>auto simp: fun_eq_iff\<close>)
qed (simp add: fun_eq_iff)

lemma filter_rows_sorted: "sorted_wrt (<) (map fst rows) \<Longrightarrow> sorted_wrt (<) (map fst (filter P rows))"
  by (induction rows) auto

lemma filter_rows_lookup:
  "distinct (map fst rows) \<Longrightarrow> map_of (filter (\<lambda>(i, _). P i) rows) = (map_of rows) |` {i. P i}"
  by (induction rows) (auto simp: fun_eq_iff restrict_map_def)

lemma sorted_distinct: "sorted_wrt (<) (xs :: int list) \<Longrightarrow> distinct xs"
  by (simp add: strict_sorted_iff)

text \<open>Result.
  The log table refines a map from indices to entries: appending overrides the entry at its index,
  truncating keeps the indices below the given one, purging those above it, and each keeps the
  rows strictly sorted. JSON is only required to read back the entry it wrote.\<close>

theorem raft_log_refines_map:
  assumes "log_sorted s" and "ej_from_slice js (ej_to_vec js e) = Some e"
  shows "abs_log js (append_entry js e s) = (abs_log js s)(entry_index e \<mapsto> e) \<and>
    abs_log js (log_truncate lid s) = (abs_log js s) |` {..<sint (li_index lid)} \<and>
    abs_log js (log_purge lid s) = (abs_log js s) |` {sint (li_index lid)<..} \<and>
    log_sorted (append_entry js e s) \<and> log_sorted (log_truncate lid s) \<and> log_sorted (log_purge lid s)"
proof -
  have d: "distinct (map fst (ls_rows s))" using assms(1) by (simp add: log_sorted_def sorted_distinct)
  show ?thesis
    using assms filter_rows_lookup [OF d, of "\<lambda>i. \<not> sint (li_index lid) \<le> i"]
      filter_rows_lookup [OF d, of "\<lambda>i. \<not> i \<le> sint (li_index lid)"]
    by (auto simp: abs_log_def append_entry_def log_truncate_def log_purge_def log_sorted_def put_row_lookup
        put_row_sorted filter_rows_sorted entry_index_def fun_eq_iff restrict_map_def)
qed

definition demo_entry :: "u64 \<Rightarrow> unit raft_entry" where
  "demo_entry i = \<lparr> en_log_id = demo_log_id i, en_payload = Blank \<rparr>"

text \<open>A JSON for these entries: the index in big-endian order.\<close>

definition demo_entry_json :: "unit entry_json" where
  "demo_entry_json = \<lparr> ej_to_vec = (\<lambda>e. be_bytes 8 (li_index (en_log_id e))),
     ej_from_slice = (\<lambda>b. Some (demo_entry (from_be b))) \<rparr>"

lemma demo_entry_json_rt: "ej_from_slice demo_entry_json (ej_to_vec demo_entry_json (demo_entry i)) = Some (demo_entry i)"
  by (simp add: demo_entry_json_def demo_entry_def demo_log_id_def)

theorem raft_log_refines_map_witness:
  "abs_log demo_entry_json (append_entry demo_entry_json (demo_entry 4) (log_store_new :: unit log_store)) 4 = Some (demo_entry 4)"
proof -
  have s: "log_sorted (log_store_new :: unit log_store)" by (simp add: log_sorted_def log_store_new_def)
  from raft_log_refines_map [OF s demo_entry_json_rt [of 4]] show ?thesis
    by (simp add: entry_index_def demo_entry_def demo_log_id_def)
qed

section \<open>Reading a range\<close>

text \<open>Every row holds an entry that reads back, stored at its own index.\<close>

definition log_ok :: "'m entry_json \<Rightarrow> 'v log_store \<Rightarrow> bool" where
  "log_ok js s \<longleftrightarrow> log_sorted s \<and>
     (\<forall>(i, r) \<in> set (ls_rows s). \<exists>e. ej_from_slice js (lr_payload r) = Some e \<and> entry_index e = i)"

lemma parse_all_map:
  "(\<And>x. x \<in> set xs \<Longrightarrow> f (g x) = Some (h x)) \<Longrightarrow> parse_all f (map g xs) = Some (map h xs)"
  by (induction xs) auto

lemma put_row_set: "(j, q) \<in> set (put_row i r rows) \<Longrightarrow> (j, q) = (i, r) \<or> (j, q) \<in> set rows"
  by (induction i r rows rule: put_row.induct) (auto split: if_splits)

lemma log_ok_append:
  assumes "log_ok js s" and "ej_from_slice js (ej_to_vec js e) = Some e"
  shows "log_ok js (append_entry js e s)"
proof -
  have "\<exists>e'. ej_from_slice js (lr_payload q) = Some e' \<and> entry_index e' = j"
    if "(j, q) \<in> set (ls_rows (append_entry js e s))" for j q
    using that assms put_row_set [of j q] by (fastforce simp: log_ok_def append_entry_def entry_index_def)
  moreover have "log_sorted (append_entry js e s)"
    using assms(1) by (simp add: log_ok_def log_sorted_def append_entry_def put_row_sorted)
  ultimately show ?thesis by (auto simp: log_ok_def)
qed

lemma log_ok_appends:
  "log_ok js s \<Longrightarrow> (\<And>e. e \<in> set es \<Longrightarrow> ej_from_slice js (ej_to_vec js e) = Some e) \<Longrightarrow> log_ok js (log_append js es s)"
  unfolding log_append_def by (induction es arbitrary: s) (auto simp: log_ok_append)

lemma log_ok_cut:
  "log_ok js s \<Longrightarrow> log_ok js (log_truncate lid s)" "log_ok js s \<Longrightarrow> log_ok js (log_purge lid s)"
  by (auto simp: log_ok_def log_sorted_def log_truncate_def log_purge_def filter_rows_sorted)

text \<open>Result.
  Reading a range of a log never panics and returns exactly the entries of that range, in index
  order: their indices are strictly increasing, and an entry is among them exactly when it stands
  in the abstract log at an index from the lower to the upper bound.\<close>

theorem raft_log_read_range:
  assumes "log_ok js s"
  shows "\<exists>es. try_get_log_entries js lo hi s = Some es \<and> sorted_wrt (<) (map entry_index es) \<and>
    (\<forall>e. e \<in> set es \<longleftrightarrow> (\<exists>i. range_start lo \<le> i \<and> below_end hi i \<and> abs_log js s i = Some e))"
proof -
  let ?rows = "filter (\<lambda>(i, _). range_start lo \<le> i \<and> below_end hi i) (ls_rows s)"
  let ?e = "\<lambda>(i, r). the (ej_from_slice js (lr_payload r))"
  have row: "ej_from_slice js (lr_payload r) = Some (?e (i, r)) \<and> entry_index (?e (i, r)) = i"
    if "(i, r) \<in> set (ls_rows s)" for i r
    using that assms by (fastforce simp: log_ok_def)
  have "try_get_log_entries js lo hi s = Some (map ?e ?rows)"
    unfolding try_get_log_entries_def by (rule parse_all_map) (use row in auto)
  moreover have "sorted_wrt (<) (map entry_index (map ?e ?rows))"
  proof -
    have "map entry_index (map ?e ?rows) = map fst ?rows"
      using row by (auto simp: case_prod_unfold)
    moreover have "sorted_wrt (<) (map fst ?rows)"
      using assms by (simp add: log_ok_def log_sorted_def filter_rows_sorted)
    ultimately show ?thesis by (simp only:)
  qed
  moreover have "e \<in> set (map ?e ?rows) \<longleftrightarrow> (\<exists>i. range_start lo \<le> i \<and> below_end hi i \<and> abs_log js s i = Some e)" for e
  proof -
    have "distinct (map fst (ls_rows s))" using assms by (simp add: log_ok_def log_sorted_def sorted_distinct)
    then have m: "(i, r) \<in> set (ls_rows s) \<longleftrightarrow> map_of (ls_rows s) i = Some r" for i r by simp
    have "abs_log js s i = Some e \<longleftrightarrow> (\<exists>r. (i, r) \<in> set (ls_rows s) \<and> ej_from_slice js (lr_payload r) = Some e)" for i
      unfolding abs_log_def m by (auto split: option.split)
    moreover have "e \<in> set (map ?e ?rows) \<longleftrightarrow> (\<exists>i r. (i, r) \<in> set (ls_rows s) \<and> range_start lo \<le> i \<and>
        below_end hi i \<and> ej_from_slice js (lr_payload r) = Some e)"
    proof
      assume "e \<in> set (map ?e ?rows)"
      then obtain i r where "(i, r) \<in> set (ls_rows s)" "range_start lo \<le> i" "below_end hi i" "e = ?e (i, r)" by auto
      with row [OF this(1)] show "\<exists>i r. (i, r) \<in> set (ls_rows s) \<and> range_start lo \<le> i \<and> below_end hi i \<and>
        ej_from_slice js (lr_payload r) = Some e" by metis
    next
      assume "\<exists>i r. (i, r) \<in> set (ls_rows s) \<and> range_start lo \<le> i \<and> below_end hi i \<and>
        ej_from_slice js (lr_payload r) = Some e"
      then obtain i r where "(i, r) \<in> set ?rows" "e = ?e (i, r)" by auto
      then show "e \<in> set (map ?e ?rows)" unfolding set_map by (intro image_eqI [of _ _ "(i, r)"])
    qed
    ultimately show ?thesis by blast
  qed
  ultimately show ?thesis by blast
qed

theorem raft_log_read_range_witness:
  "\<exists>es. try_get_log_entries demo_entry_json (Included 1) (Excluded 3)
     (log_append demo_entry_json [demo_entry 3, demo_entry 1] (log_store_new :: unit log_store)) = Some es \<and>
     sorted_wrt (<) (map entry_index es)"
proof -
  have "log_ok demo_entry_json (log_append demo_entry_json [demo_entry 3, demo_entry 1] (log_store_new :: unit log_store))"
    by (rule log_ok_appends) (auto simp: demo_entry_json_rt log_ok_def log_sorted_def log_store_new_def)
  from raft_log_read_range [OF this] show ?thesis by blast
qed

section \<open>What the store forgets\<close>

text \<open>Result.
  The state the log store reports after a restart is not the state it was given: the leader's node
  id of the last entry comes back as 0, and once the whole log has been purged into a snapshot the
  store reports neither a last nor a last-purged entry.\<close>

theorem raft_log_state_forgets:
  "get_log_state (append_entry js e log_store_new) =
     (None, Some (en_log_id e \<lparr> li_node := 0 \<rparr>)) \<and>
   get_log_state (log_purge (en_log_id e) (append_entry js e log_store_new)) = (None, None)"
  by (simp add: get_log_state_def last_log_id_from_db_def append_entry_def log_store_new_def log_purge_def)

section \<open>The write queue\<close>

datatype replicator_event = Submit dialog_delta | Pump bool | Pump_cancel

fun replicator_step :: "replicator \<Rightarrow> replicator_event \<Rightarrow> replicator \<times> dialog_delta list" where
  "replicator_step r (Submit d) = (replicate_delta d r, [])"
| "replicator_step r (Pump b) = pump b r"
| "replicator_step r Pump_cancel = (pump_cancel r, [])"

fun submitted :: "replicator_event list \<Rightarrow> dialog_delta list" where
  "submitted [] = []"
| "submitted (Submit d # evs) = d # submitted evs"
| "submitted (_ # evs) = submitted evs"

definition replicator_ok :: "replicator \<Rightarrow> bool" where
  "replicator_ok r \<longleftrightarrow> length (rq_queue r) \<le> WRITE_QUEUE_DEPTH \<and>
     rq_submitted r = rq_applied r + rq_not_leader r + rq_dropped r + length (rq_queue r)"

lemma replicator_ok_step: "replicator_ok r \<Longrightarrow> replicator_ok (fst (replicator_step r ev))"
  by (cases ev) (auto simp: replicator_ok_def replicate_delta_def pump_def pump_cancel_def Let_def split: list.splits)

interpretation replicator: preserving_machine replicator_step replicator_ok
  by unfold_locales (rule replicator_ok_step)

lemma replicator_order:
  "subseq (snd (run replicator_step r evs)) (rq_queue r @ submitted evs)"
proof (induction evs arbitrary: r)
  case (Cons ev evs)
  let ?r = "fst (replicator_step r ev)"
  from Cons.IH [of ?r] have IH: "subseq (snd (run replicator_step ?r evs)) (rq_queue ?r @ submitted evs)" .
  show ?case
  proof (cases ev)
    case (Submit d)
    then have "subseq (rq_queue ?r @ submitted evs) (rq_queue r @ submitted (ev # evs))"
      by (auto simp: replicate_delta_def Let_def intro!: list_emb_append_mono)
    with IH have "subseq (snd (run replicator_step ?r evs)) (rq_queue r @ submitted (ev # evs))"
      by (rule subseq_order.trans)
    with Submit show ?thesis by (simp add: case_prod_unfold Let_def)
  next
    case (Pump b)
    then show ?thesis using IH
      by (auto simp: pump_def case_prod_unfold Let_def split: list.splits if_splits)
  next
    case Pump_cancel
    then show ?thesis using IH by (simp add: pump_cancel_def case_prod_unfold Let_def)
  qed
qed simp

lemma run_applied: "rq_applied (fst (run replicator_step r evs)) = rq_applied r + length (snd (run replicator_step r evs))"
proof (induction evs arbitrary: r)
  case (Cons ev evs)
  then show ?case
    by (cases ev) (auto simp: replicate_delta_def pump_def pump_cancel_def case_prod_unfold Let_def split: list.splits)
qed simp

text \<open>Result.
  The replicator's counters account for every delta: those submitted are the committed ones, the
  refused ones, the dropped ones and those still queued (never more than 1024); and the committed
  deltas are a subsequence of the submitted ones, in their order, counted by the applied counter.\<close>

theorem replicator_accounts:
  "rq_submitted (fst (run replicator_step replicator_new evs)) =
     rq_applied (fst (run replicator_step replicator_new evs)) + rq_not_leader (fst (run replicator_step replicator_new evs))
     + rq_dropped (fst (run replicator_step replicator_new evs)) + length (rq_queue (fst (run replicator_step replicator_new evs))) \<and>
   length (rq_queue (fst (run replicator_step replicator_new evs))) \<le> 1024 \<and>
   rq_applied (fst (run replicator_step replicator_new evs)) = length (snd (run replicator_step replicator_new evs)) \<and>
   subseq (snd (run replicator_step replicator_new evs)) (submitted evs)"
proof -
  have "replicator_ok replicator_new" by (simp add: replicator_ok_def replicator_new_def)
  from replicator.run_preserves [OF this, of evs] show ?thesis
    using replicator_order [of replicator_new evs] run_applied [of replicator_new evs]
    by (simp add: replicator_ok_def replicator_new_def WRITE_QUEUE_DEPTH_def)
qed

section \<open>Membership\<close>

text \<open>A node is always a member of the cluster it starts, under the address it lists for itself or,
  when it lists none, under its own.\<close>

lemma membership_has_self: "membership node own peers = Inr m \<Longrightarrow> m node \<noteq> None"
  by (auto simp: membership_def split: sum.splits if_splits)

lemma parse_peer_nonempty: "parse_peer e = Inr (n, a) \<Longrightarrow> a \<noteq> [] \<and> n < 2 ^ 64 \<and> CHR '':'' \<in> set a"
  by (auto simp: parse_peer_def Let_def rsplit_once_def dest!: parse_unsigned_bound split: option.splits if_splits prod.splits)

end
