(* ===== verification/Sdp_Parse.thy ===== *)
theory Sdp_Parse
  imports Sdp_Types
begin

text \<open>
  The line-oriented SDP parser (\<^verbatim>\<open>smiths-sdp/src/parse.rs\<close>,
  \<^verbatim>\<open>SdesCrypto::parse\<close> of \<^verbatim>\<open>srtp_attr.rs\<close>): the loop over lines with
  its running session and media state, the strict lines (\<^verbatim>\<open>o=\<close>, \<^verbatim>\<open>c=\<close>,
  \<^verbatim>\<open>m=\<close>, \<^verbatim>\<open>a=rtpmap\<close>) whose errors end the parse, and the attributes
  that are skipped when malformed. A \<^verbatim>\<open>Malformed\<close> reason keeps the parser's own words;
  the number and address errors of the standard library that Rust appends to it are left out.
  Base64 decoding is the parameter \<open>b64d\<close>.
\<close>

section \<open>Strings\<close>

definition strip_prefix :: "bytes \<Rightarrow> bytes \<Rightarrow> bytes option" where
  "strip_prefix s p = (if starts_with s p then Some (drop (length p) s) else None)"

text \<open>\<^verbatim>\<open>split_once(char::is_whitespace)\<close> and \<^verbatim>\<open>splitn(3, char::is_whitespace)\<close>.\<close>

function split_once_ws :: "bytes \<Rightarrow> (bytes \<times> bytes) option" where
  "split_once_ws s =
     (if s = [] then None
      else if ws_len s > 0 then Some ([], drop (ws_len s) s)
      else map_option (\<lambda>(a, b). (hd s # a, b)) (split_once_ws (tl s)))"
  by pat_completeness auto
termination
  by (relation "measure length") auto

declare split_once_ws.simps [simp del]

definition splitn3_ws :: "bytes \<Rightarrow> bytes list" where
  "splitn3_ws s =
     (case split_once_ws s of
        None \<Rightarrow> [s]
      | Some (a, r) \<Rightarrow> (case split_once_ws r of None \<Rightarrow> [a, r] | Some (b, t) \<Rightarrow> [a, b, t]))"

definition trim_end_char :: "char \<Rightarrow> bytes \<Rightarrow> bytes" where
  "trim_end_char c s = rev (dropWhile (\<lambda>x. x = c) (rev s))"

section \<open>Errors\<close>

datatype parse_error = MissingSessionLine bytes | Malformed nat bytes | Unsupported bytes

definition ok_or_else :: "'a option \<Rightarrow> 'e \<Rightarrow> 'e + 'a" where
  "ok_or_else x e = (case x of None \<Rightarrow> Inl e | Some a \<Rightarrow> Inr a)"

lemma ok_or_else_simps [simp]: "ok_or_else None e = Inl e" "ok_or_else (Some a) e = Inr a"
  by (simp_all add: ok_or_else_def)

section \<open>Session lines\<close>

definition parse_origin :: "bytes \<Rightarrow> nat \<Rightarrow> parse_error + origin" where
  "parse_origin v line =
     (case split_whitespace v of
        [user, sid, ver, net, addr_type, addr] \<Rightarrow>
          try_bind (ok_or_else (parse_word sid) (Malformed line ''o= session-id'')) (\<lambda>session_id.
          try_bind (ok_or_else (parse_word ver) (Malformed line ''o= session-version'')) (\<lambda>session_version.
          try_bind (ok_or_else (ip_parse addr) (Malformed line ''o= address'')) (\<lambda>address.
          Inr \<lparr> or_username = user, or_session_id = session_id, or_session_version = session_version,
                or_address = address \<rparr>)))
      | _ \<Rightarrow> Inl (Malformed line ''o= expects 6 tokens''))"

definition parse_connection :: "bytes \<Rightarrow> nat \<Rightarrow> parse_error + octets" where
  "parse_connection v line =
     (case split_whitespace v of
        [net, addr_type, addr] \<Rightarrow> ok_or_else (ip_parse addr) (Malformed line ''c= address'')
      | _ \<Rightarrow> Inl (Malformed line ''c= expects 3 tokens''))"

definition parse_media :: "bytes \<Rightarrow> nat \<Rightarrow> parse_error + media_description" where
  "parse_media v line =
     (case split_whitespace v of
        [] \<Rightarrow> Inl (Malformed line ''m= missing media token'')
      | kind # parts \<Rightarrow>
          (case parts of
             [] \<Rightarrow> Inl (Malformed line ''m= missing port'')
           | port_token # parts' \<Rightarrow>
               try_bind (ok_or_else (parse_word (hd (split_pat ''/'' port_token))) (Malformed line ''m= port'')) (\<lambda>port.
               case parts' of
                 [] \<Rightarrow> Inl (Malformed line ''m= missing protocol'')
               | protocol # formats \<Rightarrow>
                   Inr ((media_new (sdp_kind_parse kind) port protocol) \<lparr> md_formats := formats \<rparr>))))"

section \<open>Attribute values\<close>

definition parse_fingerprint :: "bytes \<Rightarrow> fingerprint option" where
  "parse_fingerprint rest =
     (case split_once_ws (trim rest) of
        Some (algo, val) \<Rightarrow> Some \<lparr> fp_algorithm = to_ascii_lowercase algo, fp_value = trim val \<rparr>
      | None \<Rightarrow> None)"

definition parse_extmap :: "bytes \<Rightarrow> ext_map option" where
  "parse_extmap rest =
     (case splitn3_ws (trim rest) of
        id_tok # uri # tail \<Rightarrow>
          (let attributes = (case tail of [] \<Rightarrow> None | a # _ \<Rightarrow> if trim a = [] then None else Some (trim a))
           in case split_once ''/'' id_tok of
                Some (id_str, dir) \<Rightarrow>
                  (case direction_parse dir of
                     None \<Rightarrow> None
                   | Some d \<Rightarrow> map_option (\<lambda>i. \<lparr> em_id = i, em_direction = Some d, em_uri = uri, em_attributes = attributes \<rparr>)
                       (parse_word id_str))
              | None \<Rightarrow> map_option (\<lambda>i. \<lparr> em_id = i, em_direction = None, em_uri = uri, em_attributes = attributes \<rparr>)
                  (parse_word id_tok))
      | _ \<Rightarrow> None)"

definition parse_rtcp :: "bytes \<Rightarrow> rtcp_attr option" where
  "parse_rtcp rest =
     (let parts = split_whitespace rest
      in case parts of
           [] \<Rightarrow> None
         | p # _ \<Rightarrow>
             (case parse_word p of
                None \<Rightarrow> None
              | Some port \<Rightarrow>
                  if length parts = 1 then Some \<lparr> ra_port = port, ra_address = None \<rparr>
                  else if length parts = 4 then
                    map_option (\<lambda>a. \<lparr> ra_port = port, ra_address = Some a \<rparr>) (ip_parse (parts ! 3))
                  else None))"

definition parse_rtpmap :: "bytes \<Rightarrow> nat \<Rightarrow> parse_error + rtp_map" where
  "parse_rtpmap rest line =
     try_bind (ok_or_else (split_once '' '' rest) (Malformed line ''rtpmap missing space'')) (\<lambda>(pt_tok, rest').
     try_bind (ok_or_else (parse_word pt_tok) (Malformed line (''rtpmap pt `'' @ pt_tok @ ''`''))) (\<lambda>payload_type.
     let parts = split_pat ''/'' rest'
     in if length parts < 2 \<or> length parts > 3 then Inl (Malformed line (''rtpmap value `'' @ rest' @ ''`''))
        else try_bind (ok_or_else (parse_word (parts ! 1)) (Malformed line ''rtpmap clock'')) (\<lambda>clock_rate.
          try_bind (if length parts = 3
                    then try_bind (ok_or_else (parse_word (parts ! 2)) (Malformed line ''rtpmap channels'')) (\<lambda>n. Inr (Some n))
                    else Inr None) (\<lambda>channels.
          Inr \<lparr> rm_payload_type = payload_type, rm_codec = parts ! 0, rm_clock_rate = clock_rate,
                rm_channels = channels \<rparr>))))"

text \<open>\<^verbatim>\<open>parse_candidate\<close>: the closure \<^verbatim>\<open>next\<close> and the loop over
  the optional pairs.\<close>

definition cand_next :: "nat \<Rightarrow> bytes \<Rightarrow> bytes list \<Rightarrow> parse_error + bytes \<times> bytes list" where
  "cand_next line field toks =
     (case toks of [] \<Rightarrow> Inl (Malformed line (''candidate missing '' @ field)) | t # ts \<Rightarrow> Inr (t, ts))"

fun cand_pairs :: "nat \<Rightarrow> bytes list \<Rightarrow> octets option \<times> u16 option \<times> (bytes \<times> bytes) list
    \<Rightarrow> parse_error + octets option \<times> u16 option \<times> (bytes \<times> bytes) list" where
  "cand_pairs line [] acc = Inr acc"
| "cand_pairs line [key] acc = Inl (Malformed line (''candidate trailing key `'' @ key @ ''` without value''))"
| "cand_pairs line (key # v # toks) (raddr, rport, raw) =
     (if key = ''raddr'' then
        try_bind (ok_or_else (ip_parse v) (Malformed line ''candidate raddr'')) (\<lambda>a. cand_pairs line toks (Some a, rport, raw))
      else if key = ''rport'' then
        try_bind (ok_or_else (parse_word v) (Malformed line ''candidate rport'')) (\<lambda>p. cand_pairs line toks (raddr, Some p, raw))
      else cand_pairs line toks (raddr, rport, raw @ [(key, v)]))"

definition parse_candidate :: "bytes \<Rightarrow> nat \<Rightarrow> parse_error + ice_candidate" where
  "parse_candidate rest line =
     try_bind (cand_next line ''foundation'' (split_whitespace rest)) (\<lambda>(foundation, ts).
     try_bind (cand_next line ''component'' ts) (\<lambda>(t, ts).
     try_bind (ok_or_else (parse_word t) (Malformed line ''candidate component'')) (\<lambda>component.
     try_bind (cand_next line ''transport'' ts) (\<lambda>(transport, ts).
     try_bind (cand_next line ''priority'' ts) (\<lambda>(t, ts).
     try_bind (ok_or_else (parse_word t) (Malformed line ''candidate priority'')) (\<lambda>priority.
     try_bind (cand_next line ''address'' ts) (\<lambda>(t, ts).
     try_bind (ok_or_else (ip_parse t) (Malformed line (''candidate address `'' @ t @ ''`''))) (\<lambda>address.
     try_bind (cand_next line ''port'' ts) (\<lambda>(t, ts).
     try_bind (ok_or_else (parse_word t) (Malformed line ''candidate port'')) (\<lambda>port.
     try_bind (cand_next line ''`typ`'' ts) (\<lambda>(typ_tok, ts).
     if \<not> eq_ignore_ascii_case typ_tok ''typ'' then
       Inl (Malformed line (''candidate expected `typ`, got `'' @ typ_tok @ ''`''))
     else
       try_bind (cand_next line ''type'' ts) (\<lambda>(candidate_type, ts).
       try_bind (cand_pairs line ts (None, None, [])) (\<lambda>(raddr, rport, raw).
       Inr \<lparr> ic_foundation = foundation, ic_component = component, ic_transport = transport,
             ic_priority = priority, ic_address = address, ic_port = port,
             ic_candidate_type = candidate_type, ic_related_address = raddr, ic_related_port = rport,
             ic_raw_params = raw \<rparr>)))))))))))))"

definition parse_candidate_line :: "bytes \<Rightarrow> parse_error + ice_candidate" where
  "parse_candidate_line raw =
     (let trimmed = trim raw
      in parse_candidate
           (case strip_prefix trimmed ''a=candidate:'' of
              Some inner \<Rightarrow> inner
            | None \<Rightarrow> (case strip_prefix trimmed ''candidate:'' of Some inner \<Rightarrow> inner | None \<Rightarrow> trimmed)) 0)"

section \<open>SDES\<close>

datatype sdes_parse_error = NotACrypto | BadTag bytes | UnknownSuite bytes | BadKeyParams bytes | BadBase64
  | KeyLength nat nat | TruncatedCrypto

definition suite_from_sdp_name :: "bytes \<Rightarrow> srtp_suite option" where
  "suite_from_sdp_name s = (if s = ''AES_CM_128_HMAC_SHA1_80'' then Some AesCm128HmacSha1_80 else None)"

definition sdes_parse :: "(bytes \<Rightarrow> octets option) \<Rightarrow> bytes \<Rightarrow> sdes_parse_error + sdes_crypto" where
  "sdes_parse b64d line =
     try_bind (ok_or_else (strip_prefix line ''a=crypto:'') NotACrypto) (\<lambda>body.
     case split_whitespace body of
       tag_str # suite_str # key_params # _ \<Rightarrow>
         try_bind (ok_or_else (parse_word tag_str) (BadTag tag_str)) (\<lambda>tag.
         try_bind (ok_or_else (suite_from_sdp_name suite_str) (UnknownSuite suite_str)) (\<lambda>suite.
         try_bind (ok_or_else (strip_prefix key_params ''inline:'') (BadKeyParams key_params)) (\<lambda>inline.
         try_bind (ok_or_else (b64d (hd (split_pat ''|'' inline))) BadBase64) (\<lambda>key_material.
         if length key_material \<noteq> key_material_len suite then
           Inl (KeyLength (key_material_len suite) (length key_material))
         else Inr \<lparr> sc_tag = tag, sc_suite = suite, sc_key_material = key_material \<rparr>))))
     | _ \<Rightarrow> Inl TruncatedCrypto)"

section \<open>Session attributes\<close>

record session_level =
  sl_fingerprint :: "fingerprint option"
  sl_setup :: "dtls_setup option"
  sl_ice_ufrag :: "bytes option"
  sl_ice_pwd :: "bytes option"
  sl_ice_options :: "bytes list"
  sl_direction :: "direction option"
  sl_groups :: "sdp_group list"
  sl_ice_lite :: bool

definition session_level_default :: session_level where
  "session_level_default = \<lparr> sl_fingerprint = None, sl_setup = None, sl_ice_ufrag = None, sl_ice_pwd = None,
     sl_ice_options = [], sl_direction = None, sl_groups = [], sl_ice_lite = False \<rparr>"

definition session_seed :: "session_level \<Rightarrow> media_description \<Rightarrow> media_description" where
  "session_seed s m =
     (let m' = m \<lparr> md_fingerprint := sl_fingerprint s, md_setup := sl_setup s, md_ice_ufrag := sl_ice_ufrag s,
                   md_ice_pwd := sl_ice_pwd s, md_ice_options := sl_ice_options s \<rparr>
      in case sl_direction s of Some d \<Rightarrow> m' \<lparr> md_direction := d \<rparr> | None \<Rightarrow> m')"

definition apply_session_attribute :: "bytes \<Rightarrow> session_level \<Rightarrow> session_level" where
  "apply_session_attribute v s =
     (case strip_prefix v ''group:'' of
        Some rest \<Rightarrow>
          (case split_whitespace rest of
             [] \<Rightarrow> s
           | semantics # mids \<Rightarrow> s \<lparr> sl_groups := sl_groups s @ [\<lparr> gr_semantics = semantics, gr_mids = mids \<rparr>] \<rparr>)
      | None \<Rightarrow>
      if v = ''ice-lite'' then s \<lparr> sl_ice_lite := True \<rparr> else
      (case strip_prefix v ''fingerprint:'' of
        Some rest \<Rightarrow> s \<lparr> sl_fingerprint := parse_fingerprint rest \<rparr>
      | None \<Rightarrow>
      (case strip_prefix v ''setup:'' of
        Some rest \<Rightarrow> s \<lparr> sl_setup := setup_parse (trim rest) \<rparr>
      | None \<Rightarrow>
      (case strip_prefix v ''ice-ufrag:'' of
        Some rest \<Rightarrow> s \<lparr> sl_ice_ufrag := Some (trim rest) \<rparr>
      | None \<Rightarrow>
      (case strip_prefix v ''ice-pwd:'' of
        Some rest \<Rightarrow> s \<lparr> sl_ice_pwd := Some (trim rest) \<rparr>
      | None \<Rightarrow>
      (case strip_prefix v ''ice-options:'' of
        Some rest \<Rightarrow> s \<lparr> sl_ice_options := split_whitespace rest \<rparr>
      | None \<Rightarrow>
      (case direction_parse v of Some d \<Rightarrow> s \<lparr> sl_direction := Some d \<rparr> | None \<Rightarrow> s)))))))"

section \<open>Media attributes\<close>

text \<open>The two helpers return the changed block where Rust returns \<^verbatim>\<open>true\<close>, and \<open>None\<close>
  where it returns \<^verbatim>\<open>false\<close>.\<close>

definition apply_security_attribute :: "bytes \<Rightarrow> media_description \<Rightarrow> media_description option" where
  "apply_security_attribute v m =
     (case strip_prefix v ''fingerprint:'' of
        Some rest \<Rightarrow> Some (case parse_fingerprint rest of Some fp \<Rightarrow> m \<lparr> md_fingerprint := Some fp \<rparr> | None \<Rightarrow> m)
      | None \<Rightarrow>
      (case strip_prefix v ''setup:'' of
        Some rest \<Rightarrow> Some (case setup_parse (trim rest) of Some s \<Rightarrow> m \<lparr> md_setup := Some s \<rparr> | None \<Rightarrow> m)
      | None \<Rightarrow>
      (case strip_prefix v ''ice-ufrag:'' of
        Some rest \<Rightarrow> Some (m \<lparr> md_ice_ufrag := Some (trim rest) \<rparr>)
      | None \<Rightarrow>
      (case strip_prefix v ''ice-pwd:'' of
        Some rest \<Rightarrow> Some (m \<lparr> md_ice_pwd := Some (trim rest) \<rparr>)
      | None \<Rightarrow>
      (case strip_prefix v ''ice-options:'' of
        Some rest \<Rightarrow> Some (m \<lparr> md_ice_options := split_whitespace rest \<rparr>)
      | None \<Rightarrow>
      (case strip_prefix v ''candidate:'' of
        Some rest \<Rightarrow> Some (case parse_candidate rest 0 of Inr c \<Rightarrow> m \<lparr> md_candidates := md_candidates m @ [c] \<rparr> | Inl _ \<Rightarrow> m)
      | None \<Rightarrow>
      if v = ''end-of-candidates'' then Some (m \<lparr> md_end_of_candidates := True \<rparr>) else None))))))"

definition apply_multiplex_attribute :: "bytes \<Rightarrow> media_description \<Rightarrow> media_description option" where
  "apply_multiplex_attribute v m =
     (case strip_prefix v ''mid:'' of
        Some rest \<Rightarrow> Some (m \<lparr> md_mid := Some (trim rest) \<rparr>)
      | None \<Rightarrow>
      (case strip_prefix v ''extmap:'' of
        Some rest \<Rightarrow> Some (case parse_extmap rest of Some e \<Rightarrow> m \<lparr> md_extmap := md_extmap m @ [e] \<rparr> | None \<Rightarrow> m)
      | None \<Rightarrow>
      if v = ''rtcp-mux'' then Some (m \<lparr> md_rtcp_mux := True \<rparr>) else
      (case strip_prefix v ''rtcp:'' of
        Some rest \<Rightarrow> Some (case parse_rtcp rest of Some r \<Rightarrow> m \<lparr> md_rtcp := Some r \<rparr> | None \<Rightarrow> m)
      | None \<Rightarrow>
      (case strip_prefix v ''rtcp-fb:'' of
        Some rest \<Rightarrow> Some (case split_once_ws (trim rest) of
            Some (format, fb) \<Rightarrow> m \<lparr> md_rtcp_fb := md_rtcp_fb m @ [\<lparr> fb_format = format, fb_value = trim fb \<rparr>] \<rparr>
          | None \<Rightarrow> m)
      | None \<Rightarrow> None))))"

definition apply_media_attribute :: "(bytes \<Rightarrow> octets option) \<Rightarrow> bytes \<Rightarrow> media_description \<Rightarrow> nat \<Rightarrow> parse_error + media_description" where
  "apply_media_attribute b64d v m line =
     (case strip_prefix v ''rtpmap:'' of
        Some rest \<Rightarrow> try_bind (parse_rtpmap rest line) (\<lambda>r. Inr (m \<lparr> md_rtpmap := md_rtpmap m @ [r] \<rparr>))
      | None \<Rightarrow>
      (case strip_prefix v ''fmtp:'' of
        Some rest \<Rightarrow> Inr (case split_once_ws (trim rest) of
            Some (format, params) \<Rightarrow> m \<lparr> md_fmtp := md_fmtp m @ [\<lparr> fm_format = format, fm_params = trim params \<rparr>] \<rparr>
          | None \<Rightarrow> m)
      | None \<Rightarrow>
      (case strip_prefix v ''ptime:'' of
        Some rest \<Rightarrow> Inr (m \<lparr> md_ptime := parse_word (trim rest) \<rparr>)
      | None \<Rightarrow>
      (case strip_prefix v ''maxptime:'' of
        Some rest \<Rightarrow> Inr (m \<lparr> md_maxptime := parse_word (trim rest) \<rparr>)
      | None \<Rightarrow>
      if starts_with v ''crypto:'' then
        Inr (case sdes_parse b64d (''a='' @ v) of Inr c \<Rightarrow> m \<lparr> md_crypto := md_crypto m @ [c] \<rparr> | Inl _ \<Rightarrow> m)
      else
      (case apply_security_attribute v m of
        Some m' \<Rightarrow> Inr m'
      | None \<Rightarrow>
      (case apply_multiplex_attribute v m of
        Some m' \<Rightarrow> Inr m'
      | None \<Rightarrow>
      if starts_with v ''T38'' then
        Inr (m \<lparr> md_t38 := Some (snd (t38_apply_attribute v (case md_t38 m of Some t \<Rightarrow> t | None \<Rightarrow> t38_default))) \<rparr>)
      else
        Inr (case direction_parse v of Some d \<Rightarrow> m \<lparr> md_direction := d \<rparr> | None \<Rightarrow> m)))))))"

section \<open>The loop\<close>

record parse_state =
  ps_origin :: "origin option"
  ps_session_name :: "bytes option"
  ps_session_connection :: "octets option"
  ps_session :: session_level
  ps_media :: "media_description list"
  ps_cur :: "media_description option"
  ps_version_seen :: bool

definition parse_state_init :: parse_state where
  "parse_state_init = \<lparr> ps_origin = None, ps_session_name = None, ps_session_connection = None,
     ps_session = session_level_default, ps_media = [], ps_cur = None, ps_version_seen = False \<rparr>"

definition finish_media :: "parse_state \<Rightarrow> parse_state" where
  "finish_media st =
     (case ps_cur st of Some m \<Rightarrow> st \<lparr> ps_media := ps_media st @ [m], ps_cur := None \<rparr> | None \<Rightarrow> st)"

text \<open>The \<^verbatim>\<open>match kind\<close> of the loop body, then the body.\<close>

definition parse_kv :: "(bytes \<Rightarrow> octets option) \<Rightarrow> nat \<Rightarrow> bytes \<Rightarrow> bytes \<Rightarrow> parse_state \<Rightarrow> parse_error + parse_state" where
  "parse_kv b64d line_no kind v st =
     (if kind = ''v'' then
        (if v \<noteq> ''0'' then Inl (Unsupported (''SDP version '' @ v)) else Inr (st \<lparr> ps_version_seen := True \<rparr>))
      else if kind = ''o'' then try_bind (parse_origin v line_no) (\<lambda>o'. Inr (st \<lparr> ps_origin := Some o' \<rparr>))
      else if kind = ''s'' then Inr (st \<lparr> ps_session_name := Some v \<rparr>)
      else if kind = ''c'' then
        try_bind (parse_connection v line_no) (\<lambda>info.
          case ps_cur st of
            Some m \<Rightarrow> Inr (st \<lparr> ps_cur := Some (m \<lparr> md_connection := Some info \<rparr>) \<rparr>)
          | None \<Rightarrow> Inr (st \<lparr> ps_session_connection := Some info \<rparr>))
      else if kind = ''m'' then
        try_bind (parse_media v line_no) (\<lambda>m.
          Inr ((finish_media st) \<lparr> ps_cur := Some (session_seed (ps_session st) m) \<rparr>))
      else if kind = ''a'' then
        (case ps_cur st of
           Some m \<Rightarrow> try_bind (apply_media_attribute b64d v m line_no) (\<lambda>m'. Inr (st \<lparr> ps_cur := Some m' \<rparr>))
         | None \<Rightarrow> Inr (st \<lparr> ps_session := apply_session_attribute v (ps_session st) \<rparr>))
      else Inr st)"

definition parse_line :: "(bytes \<Rightarrow> octets option) \<Rightarrow> nat \<Rightarrow> bytes \<Rightarrow> parse_state \<Rightarrow> parse_error + parse_state" where
  "parse_line b64d line_no raw st =
     (let line = trim_end_char (CHR 0x0A) (trim_end_char (CHR 0x0D) raw)
      in if line = [] then Inr st
         else case split_once ''='' line of
           None \<Rightarrow> Inl (Malformed line_no (''missing '' @ [CHR 0x27] @ ''='' @ [CHR 0x27] @ '' in `'' @ line @ ''`''))
         | Some (kind, v) \<Rightarrow> parse_kv b64d line_no kind v st)"

fun parse_lines :: "(bytes \<Rightarrow> octets option) \<Rightarrow> nat \<Rightarrow> bytes list \<Rightarrow> parse_state \<Rightarrow> parse_error + parse_state" where
  "parse_lines b64d n [] st = Inr st"
| "parse_lines b64d n (l # ls) st = try_bind (parse_line b64d n l st) (parse_lines b64d (Suc n) ls)"

text \<open>\<^verbatim>\<open>SessionDescription::parse\<close>.\<close>

definition sdp_parse :: "(bytes \<Rightarrow> octets option) \<Rightarrow> bytes \<Rightarrow> parse_error + session_description" where
  "sdp_parse b64d input =
     try_bind (parse_lines b64d 1 (split_pat [CHR 0x0A] input) parse_state_init) (\<lambda>st0.
     let st = finish_media st0
     in if \<not> ps_version_seen st then Inl (MissingSessionLine ''v'')
        else try_bind (ok_or_else (ps_origin st) (MissingSessionLine ''o'')) (\<lambda>o'.
          try_bind (ok_or_else (ps_session_name st) (MissingSessionLine ''s'')) (\<lambda>session_name.
          Inr \<lparr> sd_origin = o', sd_session_name = session_name, sd_connection = ps_session_connection st,
                sd_groups = sl_groups (ps_session st), sd_ice_lite = sl_ice_lite (ps_session st),
                sd_media = ps_media st \<rparr>)))"

end
