(* ===== verification/Sdp_Roundtrip.thy ===== *)
theory Sdp_Roundtrip
  imports Sdp_Parse
begin

text \<open>
  Parsing a rendered session description gives it back. The theory states which descriptions the
  wire form can carry (\<open>sdp_wf\<close>: tokens without white space, trimmed texts, no value that renders
  like another), shows that every rendered line sets exactly its own field, and composes the lines
  to whole documents.
\<close>

section \<open>Texts\<close>

text \<open>Printable characters without and with the space; tokens and trimmed texts made of them.\<close>

definition graphic :: "char \<Rightarrow> bool" where
  "graphic c \<longleftrightarrow> 33 \<le> code c \<and> code c \<le> 126"

definition tok :: "bytes \<Rightarrow> bool" where
  "tok s \<longleftrightarrow> s \<noteq> [] \<and> list_all graphic s"

definition printable :: "char \<Rightarrow> bool" where
  "printable c \<longleftrightarrow> 32 \<le> code c \<and> code c \<le> 126"

definition trimmed :: "bytes \<Rightarrow> bool" where
  "trimmed s \<longleftrightarrow> s \<noteq> [] \<and> list_all printable s \<and> graphic (hd s) \<and> graphic (last s)"

lemma graphic_printable: "graphic c \<Longrightarrow> printable c"
  by (simp add: graphic_def printable_def)

lemma tok_trimmed: "tok s \<Longrightarrow> trimmed s"
  by (auto simp: tok_def trimmed_def list_all_iff graphic_printable)

lemma ws_graphic [simp]: "graphic c \<Longrightarrow> ws_len (c # s) = 0"
  by (auto simp: graphic_def split: list.split)

lemma ws_space [simp]: "ws_len (CHR '' '' # s) = 1"
  by simp

lemma ws_printable: "printable c \<Longrightarrow> ws_len (c # s) = (if code c = (32 :: nat) then 1 else 0)"
  by (auto simp: printable_def split: list.split)

declare ws_len.simps(2) [simp del]

section \<open>Splitting at white space\<close>

lemma ws_tokens_tok: "list_all graphic t \<Longrightarrow> ws_tokens acc (t @ r) = ws_tokens (acc @ t) r"
proof (induction t arbitrary: acc)
  case (Cons c t)
  then have "ws_tokens acc (c # t @ r) = ws_tokens (acc @ [c]) (t @ r)"
    by (subst ws_tokens.simps) simp
  with Cons show ?case by simp
qed simp

lemma ws_tokens_end: "acc \<noteq> [] \<Longrightarrow> ws_tokens acc [] = [acc]"
  by (subst ws_tokens.simps) simp

lemma ws_tokens_space: "acc \<noteq> [] \<Longrightarrow> ws_tokens acc (CHR '' '' # r) = acc # split_whitespace r"
  by (subst ws_tokens.simps) (simp add: split_whitespace_def)

lemma split_ws_space [simp]: "split_whitespace (CHR '' '' # r) = split_whitespace r"
  unfolding split_whitespace_def by (subst ws_tokens.simps) simp

lemma split_ws_Nil [simp]: "split_whitespace [] = []"
  unfolding split_whitespace_def by (subst ws_tokens.simps) simp

lemma split_ws_tok: "tok t \<Longrightarrow> split_whitespace t = [t]"
  using ws_tokens_tok [of t "[]" "[]"] by (simp add: split_whitespace_def tok_def ws_tokens_end)

lemma split_ws_tok_space: "tok t \<Longrightarrow> split_whitespace (t @ CHR '' '' # r) = t # split_whitespace r"
  using ws_tokens_tok [of t "[]" "CHR '' '' # r"]
  by (simp add: split_whitespace_def tok_def) (simp add: ws_tokens_space split_whitespace_def)

definition spaced :: "bytes list \<Rightarrow> bytes" where
  "spaced ts = concat (map (\<lambda>t. CHR '' '' # t) ts)"

lemma split_ws_tok_spaced: "tok t \<Longrightarrow> list_all tok ts \<Longrightarrow> split_whitespace (t @ spaced ts) = t # ts"
proof (induction ts arbitrary: t)
  case (Cons u ts)
  then show ?case by (simp add: spaced_def split_ws_tok_space)
qed (simp add: spaced_def split_ws_tok)

lemma split_ws_spaced: "list_all tok ts \<Longrightarrow> split_whitespace (spaced ts) = ts"
  by (cases ts) (use split_ws_tok_spaced in \<open>auto simp: spaced_def\<close>)

lemma join_space: "join '' '' (t # ts) = t @ spaced ts"
proof (induction ts arbitrary: t)
  case (Cons u ts)
  then show ?case by (simp add: spaced_def)
qed (simp add: spaced_def)

lemma split_ws_join: "list_all tok ts \<Longrightarrow> split_whitespace (join '' '' ts) = ts"
  by (cases ts) (auto simp: join_space split_ws_tok_spaced simp del: join.simps(3))

lemma split_once_ws_tok: "list_all graphic t \<Longrightarrow> split_once_ws (t @ CHR '' '' # r) = Some (t, r)"
proof (induction t)
  case Nil
  show ?case by (subst split_once_ws.simps) simp
next
  case (Cons c t)
  then show ?case by (subst split_once_ws.simps) simp
qed

lemma split_once_ws_none: "list_all graphic t \<Longrightarrow> split_once_ws t = None"
proof (induction t)
  case Nil
  show ?case by (subst split_once_ws.simps) simp
next
  case (Cons c t)
  then show ?case by (subst split_once_ws.simps) simp
qed

section \<open>Trimming\<close>

lemma trim_start_graphic: "graphic (hd s) \<Longrightarrow> trim_start s = s"
  by (cases s) (simp_all add: trim_start.simps)

lemma trim_end_printable: "list_all printable s \<Longrightarrow> graphic (last s) \<Longrightarrow> trim_end s = s"
proof (induction s)
  case Nil
  show ?case by (simp add: trim_end.simps)
next
  case (Cons c s)
  have n: "max 1 (ws_len (c # s)) = 1" using Cons.prems(1) ws_printable [of c s] by auto
  show ?case
  proof (cases "s = []")
    case True
    with Cons show ?thesis by (simp add: trim_end.simps [of "[c]"] trim_end.simps [of "[]"])
  next
    case False
    with Cons have "trim_end s = s" by simp
    with n False show ?thesis by (subst trim_end.simps) (simp add: Let_def)
  qed
qed

lemma trim_trimmed [simp]: "trimmed s \<Longrightarrow> trim s = s"
  by (simp add: trim_def trimmed_def trim_start_graphic trim_end_printable)

lemma trim_Nil [simp]: "trim [] = []"
  by (simp add: trim_def trim_start.simps trim_end.simps)

lemma trim_tok [simp]: "tok s \<Longrightarrow> trim s = s"
  by (simp add: tok_trimmed)

lemma trimmed_pair: "tok a \<Longrightarrow> trimmed b \<Longrightarrow> trimmed (a @ CHR '' '' # b)"
  by (auto simp: trimmed_def tok_def list_all_iff graphic_printable) (simp add: printable_def)

text \<open>Numbers and addresses are tokens.\<close>

lemma tok_show_nat: "tok (show_nat n)"
proof -
  have "graphic c" if "c \<in> set (show_nat n)" for c
    using show_nat_digits [OF that] by (simp add: graphic_def)
  then show ?thesis by (auto simp: tok_def list_all_iff)
qed

lemma tok_show_word [simp]: "tok (show_word w)"
  by (simp add: show_word_def tok_show_nat)

lemma tok_ip_show [simp]:
  assumes "ip_wf ip"
  shows "tok (ip_show ip)"
proof -
  have "graphic c" if "ip_char c" for c
    using that by (auto simp: ip_char_def is_digit_def to_digit_def graphic_def Let_def split: if_splits)
  then show ?thesis using assms ip_show_chars by (auto simp: tok_def list_all_iff)
qed

lemma parse_show_word [simp]: "parse_word (show_word w) = Some (w :: 'a::len word)"
  using parse_show_nat [of "unat w" "2 ^ LENGTH('a)"] unsigned_less [of w]
  by (simp add: parse_word_def show_word_def)

section \<open>What the wire can carry\<close>

definition fmtp_wf :: "fmtp \<Rightarrow> bool" where
  "fmtp_wf p \<longleftrightarrow> tok (fm_format p) \<and> trimmed (fm_params p)"

definition rtpmap_wf :: "rtp_map \<Rightarrow> bool" where
  "rtpmap_wf r \<longleftrightarrow> tok (rm_codec r) \<and> CHR ''/'' \<notin> set (rm_codec r) \<and> rm_channels r \<noteq> Some 1"

definition extmap_wf :: "ext_map \<Rightarrow> bool" where
  "extmap_wf e \<longleftrightarrow> tok (em_uri e) \<and> pred_option trimmed (em_attributes e)"

definition rtcp_wf :: "rtcp_attr \<Rightarrow> bool" where
  "rtcp_wf r \<longleftrightarrow> pred_option ip_wf (ra_address r)"

definition feedback_wf :: "rtcp_feedback \<Rightarrow> bool" where
  "feedback_wf f \<longleftrightarrow> tok (fb_format f) \<and> trimmed (fb_value f)"

definition fingerprint_wf :: "fingerprint \<Rightarrow> bool" where
  "fingerprint_wf f \<longleftrightarrow> tok (fp_algorithm f) \<and> to_ascii_lowercase (fp_algorithm f) = fp_algorithm f \<and> trimmed (fp_value f)"

definition pair_wf :: "bytes \<times> bytes \<Rightarrow> bool" where
  "pair_wf kv \<longleftrightarrow> tok (fst kv) \<and> tok (snd kv) \<and> fst kv \<noteq> ''raddr'' \<and> fst kv \<noteq> ''rport''"

definition candidate_wf :: "ice_candidate \<Rightarrow> bool" where
  "candidate_wf c \<longleftrightarrow> tok (ic_foundation c) \<and> tok (ic_transport c) \<and> tok (ic_candidate_type c)
     \<and> ip_wf (ic_address c) \<and> pred_option ip_wf (ic_related_address c) \<and> list_all pair_wf (ic_raw_params c)"

definition crypto_wf :: "sdes_crypto \<Rightarrow> bool" where
  "crypto_wf c \<longleftrightarrow> length (sc_key_material c) = key_material_len (sc_suite c)"

definition t38_extra_wf :: "bytes \<times> bytes option \<Rightarrow> bool" where
  "t38_extra_wf nv \<longleftrightarrow> tok (fst nv) \<and> starts_with (fst nv) ''T38'' \<and> CHR '':'' \<notin> set (fst nv)
     \<and> fst nv \<notin> set t38_names \<and> pred_option trimmed (snd nv)"

definition t38_wf :: "t38_params \<Rightarrow> bool" where
  "t38_wf p \<longleftrightarrow> pred_option trimmed (t38_rate_management p) \<and> pred_option trimmed (t38_udp_ec p)
     \<and> list_all t38_extra_wf (t38_extra p) \<and> p \<noteq> t38_default"

definition kind_wf :: "sdp_media_kind \<Rightarrow> bool" where
  "kind_wf k \<longleftrightarrow> tok (sdp_kind_as_str k) \<and> sdp_kind_parse (sdp_kind_as_str k) = k"

definition media_wf :: "media_description \<Rightarrow> bool" where
  "media_wf m \<longleftrightarrow> kind_wf (md_kind m) \<and> tok (md_protocol m) \<and> list_all tok (md_formats m)
     \<and> list_all rtpmap_wf (md_rtpmap m) \<and> list_all fmtp_wf (md_fmtp m) \<and> list_all crypto_wf (md_crypto m)
     \<and> pred_option ip_wf (md_connection m) \<and> pred_option fingerprint_wf (md_fingerprint m)
     \<and> pred_option trimmed (md_ice_ufrag m) \<and> pred_option trimmed (md_ice_pwd m)
     \<and> list_all tok (md_ice_options m) \<and> list_all candidate_wf (md_candidates m)
     \<and> pred_option trimmed (md_mid m) \<and> list_all extmap_wf (md_extmap m) \<and> pred_option rtcp_wf (md_rtcp m)
     \<and> list_all feedback_wf (md_rtcp_fb m) \<and> pred_option t38_wf (md_t38 m)"

definition group_wf :: "sdp_group \<Rightarrow> bool" where
  "group_wf g \<longleftrightarrow> tok (gr_semantics g) \<and> list_all tok (gr_mids g)"

definition sdp_wf :: "session_description \<Rightarrow> bool" where
  "sdp_wf sd \<longleftrightarrow> tok (or_username (sd_origin sd)) \<and> ip_wf (or_address (sd_origin sd))
     \<and> list_all printable (sd_session_name sd) \<and> pred_option ip_wf (sd_connection sd)
     \<and> list_all group_wf (sd_groups sd) \<and> list_all media_wf (sd_media sd)"

text \<open>What the code relies on from the Base64 crate: decoding undoes encoding, and the encoding uses
  graphic characters other than the bar that ends the key.\<close>

definition b64_ok :: "(octets \<Rightarrow> bytes) \<Rightarrow> (bytes \<Rightarrow> octets option) \<Rightarrow> bool" where
  "b64_ok b64e b64d \<longleftrightarrow>
     (\<forall>bs. b64d (b64e bs) = Some bs \<and> list_all graphic (b64e bs) \<and> CHR ''|'' \<notin> set (b64e bs))"

section \<open>Feeding lines\<close>

definition line_ok :: "bytes \<Rightarrow> bool" where
  "line_ok l \<longleftrightarrow> l \<noteq> [] \<and> list_all printable l"

definition feeds :: "(bytes \<Rightarrow> octets option) \<Rightarrow> bytes list \<Rightarrow> parse_state \<Rightarrow> parse_state \<Rightarrow> bool" where
  "feeds b64d ls st st' \<longleftrightarrow> list_all line_ok ls
     \<and> (\<forall>n. parse_lines b64d n (map (\<lambda>l. l @ [CHR 0x0D]) ls) st = Inr st')"

definition attr_feeds :: "(bytes \<Rightarrow> octets option) \<Rightarrow> bytes list \<Rightarrow> media_description \<Rightarrow> media_description \<Rightarrow> bool" where
  "attr_feeds b64d ls m m' \<longleftrightarrow> (\<forall>st. ps_cur st = Some m \<longrightarrow> feeds b64d ls st (st \<lparr> ps_cur := Some m' \<rparr>))"

lemma parse_lines_append:
  "parse_lines b n (xs @ ys) st = try_bind (parse_lines b n xs st) (parse_lines b (n + length xs) ys)"
proof (induction xs arbitrary: n st)
  case (Cons x xs)
  then show ?case by (cases "parse_line b n x st") simp_all
qed simp

lemma feeds_Nil: "feeds b [] st st"
  by (simp add: feeds_def)

lemma feeds_append: "feeds b xs st st1 \<Longrightarrow> feeds b ys st1 st2 \<Longrightarrow> feeds b (xs @ ys) st st2"
  by (simp add: feeds_def parse_lines_append)

lemma cur_same: "ps_cur st = Some m \<Longrightarrow> st \<lparr> ps_cur := Some m \<rparr> = st"
  by (cases st) simp

lemma attr_feeds_Nil: "attr_feeds b [] m m"
  by (simp add: attr_feeds_def feeds_Nil cur_same)

lemma attr_feeds_append:
  assumes "attr_feeds b xs m m1" and "attr_feeds b ys m1 m2"
  shows "attr_feeds b (xs @ ys) m m2"
proof -
  have "feeds b (xs @ ys) st (st \<lparr> ps_cur := Some m2 \<rparr>)" if "ps_cur st = Some m" for st
  proof (rule feeds_append)
    show "feeds b xs st (st \<lparr> ps_cur := Some m1 \<rparr>)" using assms(1) that by (simp add: attr_feeds_def)
    show "feeds b ys (st \<lparr> ps_cur := Some m1 \<rparr>) (st \<lparr> ps_cur := Some m2 \<rparr>)"
      using assms(2) by (auto simp: attr_feeds_def dest: spec [of _ "st \<lparr> ps_cur := Some m1 \<rparr>"])
  qed
  then show ?thesis by (simp add: attr_feeds_def)
qed

lemma trim_end_char_snoc: "s = [] \<or> last s \<noteq> c \<Longrightarrow> trim_end_char c (s @ [c]) = s"
  by (cases s rule: rev_cases) (simp_all add: trim_end_char_def)

lemma trim_end_char_keep: "s = [] \<or> last s \<noteq> c \<Longrightarrow> trim_end_char c s = s"
  by (cases s rule: rev_cases) (simp_all add: trim_end_char_def)

lemma line_ok_last: "line_ok l \<Longrightarrow> printable (last l)"
  by (auto simp: line_ok_def list_all_iff)

lemma not_printable: "\<not> printable (CHR 0x0D)" "\<not> printable (CHR 0x0A)"
  by (simp_all add: printable_def)

lemma line_trim: "line_ok l \<Longrightarrow> trim_end_char (CHR 0x0A) (trim_end_char (CHR 0x0D) (l @ [CHR 0x0D])) = l"
  using line_ok_last [of l] not_printable
  by (metis trim_end_char_keep trim_end_char_snoc)

lemma split_equals: "k \<noteq> CHR ''='' \<Longrightarrow> split_once ''='' (k # CHR ''='' # v) = Some ([k], v)"
  by (simp add: starts_with_def)

lemma feeds_one:
  assumes "line_ok (k # CHR ''='' # v)" and "k \<noteq> CHR ''=''" and "\<And>n. parse_kv b n [k] v st = Inr st'"
  shows "feeds b [k # CHR ''='' # v] st st'"
proof -
  have "parse_line b n ((k # CHR ''='' # v) @ [CHR 0x0D]) st = Inr st'" for n
    unfolding parse_line_def line_trim [OF assms(1)] Let_def split_equals [OF assms(2)]
    using assms(3) by simp
  then show ?thesis using assms(1) by (simp add: feeds_def)
qed

lemma attr_one:
  assumes "line_ok (''a='' @ v)" and "\<And>n. apply_media_attribute b v m n = Inr m'"
  shows "attr_feeds b [''a='' @ v] m m'"
  using assms unfolding attr_feeds_def by (auto intro!: feeds_one simp: parse_kv_def)

lemma attr_map:
  assumes one: "\<And>x m. x \<in> set xs \<Longrightarrow> attr_feeds b [f x] m (upd (get m @ [x]) m)"
    and laws: "\<And>y m. get (upd y m) = y" "\<And>y z m. upd y (upd z m) = upd y m" "\<And>m. upd (get m) m = m"
  shows "attr_feeds b (map f xs) m (upd (get m @ xs) m)"
  using one
proof (induction xs arbitrary: m)
  case Nil
  then show ?case by (simp add: laws attr_feeds_Nil)
next
  case (Cons x xs)
  have "attr_feeds b [f x] m (upd (get m @ [x]) m)" using Cons.prems by simp
  moreover have "attr_feeds b (map f xs) (upd (get m @ [x]) m) (upd (get m @ x # xs) m)"
    using Cons.IH [of "upd (get m @ [x]) m"] Cons.prems by (simp add: laws)
  ultimately show ?case using attr_feeds_append by fastforce
qed

section \<open>The attribute lines\<close>

lemma tok_printable [simp]: "tok s \<Longrightarrow> list_all printable s"
  by (auto simp: tok_def list_all_iff graphic_printable)

lemma trimmed_printable [simp]: "trimmed s \<Longrightarrow> list_all printable s"
  by (simp add: trimmed_def)

lemma join_printable [simp]: "list_all tok ts \<Longrightarrow> list_all printable (join '' '' ts)"
  by (induction "'' ''" ts rule: join.induct) (auto simp: printable_def)

lemmas line_simps = line_ok_def printable_def
lemmas prefix_simps = strip_prefix_def starts_with_def

lemma fmtp_feeds:
  assumes "fmtp_wf p"
  shows "attr_feeds b [''a=fmtp:'' @ fm_format p @ '' '' @ fm_params p] m (m \<lparr> md_fmtp := md_fmtp m @ [p] \<rparr>)"
proof -
  have "trimmed (fm_format p @ CHR '' '' # fm_params p)" using assms by (simp add: fmtp_wf_def trimmed_pair)
  then have "apply_media_attribute b (''fmtp:'' @ fm_format p @ '' '' @ fm_params p) m n
      = Inr (m \<lparr> md_fmtp := md_fmtp m @ [p] \<rparr>)" for n
    using assms by (simp add: apply_media_attribute_def prefix_simps split_once_ws_tok fmtp_wf_def tok_def)
  from attr_one [OF _ this] show ?thesis using assms by (simp add: line_simps fmtp_wf_def)
qed

lemma feedback_feeds:
  assumes "feedback_wf f"
  shows "attr_feeds b [''a=rtcp-fb:'' @ fb_format f @ '' '' @ fb_value f] m (m \<lparr> md_rtcp_fb := md_rtcp_fb m @ [f] \<rparr>)"
proof -
  have "trimmed (fb_format f @ CHR '' '' # fb_value f)" using assms by (simp add: feedback_wf_def trimmed_pair)
  then have "apply_media_attribute b (''rtcp-fb:'' @ fb_format f @ '' '' @ fb_value f) m n
      = Inr (m \<lparr> md_rtcp_fb := md_rtcp_fb m @ [f] \<rparr>)" for n
    using assms by (simp add: apply_media_attribute_def apply_security_attribute_def apply_multiplex_attribute_def
        prefix_simps split_once_ws_tok feedback_wf_def tok_def)
  from attr_one [OF _ this] show ?thesis using assms by (simp add: line_simps feedback_wf_def)
qed

lemma split_slash: "CHR ''/'' \<notin> set a \<Longrightarrow> split_pat ''/'' (a @ CHR ''/'' # r) = a # split_pat ''/'' r"
  using split_once_head_free [of "''/''" a r] by (simp add: split_pat_some)

lemma split_no_slash: "CHR ''/'' \<notin> set a \<Longrightarrow> split_pat ''/'' a = [a]"
  by (simp add: split_pat_none split_once_absent)

lemma digits_free: "c \<in> set (show_word w) \<Longrightarrow> 48 \<le> code c \<and> code c \<le> (57 :: nat)"
  by (simp add: show_word_def show_nat_digits)

lemma word_no_slash [simp]: "CHR ''/'' \<notin> set (show_word w)"
  using digits_free [of "CHR ''/''" w] by auto

lemma word_no_space [simp]: "CHR '' '' \<notin> set (show_word w)"
  using digits_free [of "CHR '' ''" w] by auto

lemma split_first_space: "CHR '' '' \<notin> set a \<Longrightarrow> split_once '' '' (a @ CHR '' '' # r) = Some (a, r)"
  using split_once_head_free [of "'' ''" a r] by simp

lemma parse_rtpmap_show:
  assumes "rtpmap_wf r"
  shows "parse_rtpmap (show_word (rm_payload_type r) @ '' '' @ rm_codec r @ ''/'' @ show_word (rm_clock_rate r)
     @ (case rm_channels r of None \<Rightarrow> [] | Some n \<Rightarrow> if n = 1 then [] else ''/'' @ show_word n)) n = Inr r"
proof (cases "rm_channels r")
  case None
  with assms show ?thesis
    by (simp add: parse_rtpmap_def split_first_space split_slash split_no_slash rtpmap_wf_def)
next
  case (Some c)
  with assms show ?thesis
    by (simp add: parse_rtpmap_def split_first_space split_slash split_no_slash rtpmap_wf_def)
qed

lemma rtpmap_feeds:
  assumes "rtpmap_wf r"
  shows "attr_feeds b [rtpmap_line r] m (m \<lparr> md_rtpmap := md_rtpmap m @ [r] \<rparr>)"
proof -
  define v where "v = show_word (rm_payload_type r) @ '' '' @ rm_codec r @ ''/'' @ show_word (rm_clock_rate r)
     @ (case rm_channels r of None \<Rightarrow> [] | Some n \<Rightarrow> if n = 1 then [] else ''/'' @ show_word n)"
  have "list_all printable v" using assms by (auto simp: v_def rtpmap_wf_def printable_def split: option.split)
  moreover have "apply_media_attribute b (''rtpmap:'' @ v) m n = Inr (m \<lparr> md_rtpmap := md_rtpmap m @ [r] \<rparr>)" for n
    using parse_rtpmap_show [OF assms, folded v_def] by (simp add: apply_media_attribute_def prefix_simps)
  ultimately have "attr_feeds b [''a='' @ ''rtpmap:'' @ v] m (m \<lparr> md_rtpmap := md_rtpmap m @ [r] \<rparr>)"
    by (intro attr_one) (simp_all add: line_simps)
  then show ?thesis by (simp add: rtpmap_line_def v_def)
qed

lemma ptime_feeds: "attr_feeds b [''a=ptime:'' @ show_word t] m (m \<lparr> md_ptime := Some t \<rparr>)"
  using attr_one [of "''ptime:'' @ show_word t"] by (simp add: line_simps apply_media_attribute_def prefix_simps)

lemma maxptime_feeds: "attr_feeds b [''a=maxptime:'' @ show_word t] m (m \<lparr> md_maxptime := Some t \<rparr>)"
  using attr_one [of "''maxptime:'' @ show_word t"] by (simp add: line_simps apply_media_attribute_def prefix_simps)

lemma split_no_bar: "CHR ''|'' \<notin> set a \<Longrightarrow> split_pat ''|'' a = [a]"
  by (simp add: split_pat_none split_once_absent)

lemma sdes_roundtrip:
  assumes "crypto_wf c" and "b64_ok b64e b64d"
  shows "sdes_parse b64d (crypto_line b64e c) = Inr c"
proof -
  have e: "b64d (b64e (sc_key_material c)) = Some (sc_key_material c)"
      "list_all graphic (b64e (sc_key_material c))" "CHR ''|'' \<notin> set (b64e (sc_key_material c))"
    using assms(2) by (auto simp: b64_ok_def)
  let ?name = "suite_sdp_name (sc_suite c)" and ?key = "''inline:'' @ b64e (sc_key_material c)"
  have "tok ?name" "suite_from_sdp_name ?name = Some (sc_suite c)"
    by (cases "sc_suite c"; simp add: suite_sdp_name_def suite_from_sdp_name_def tok_def graphic_def)+
  moreover have "tok ?key" using e(2) by (simp add: tok_def graphic_def)
  then have "split_whitespace (CHR ''i'' # CHR ''n'' # CHR ''l'' # CHR ''i'' # CHR ''n'' # CHR ''e'' # CHR '':''
      # b64e (sc_key_material c)) = [?key]"
    using split_ws_tok [of ?key] by simp
  moreover have "hd (split_pat ''|'' (b64e (sc_key_material c))) = b64e (sc_key_material c)"
    using split_no_bar [OF e(3)] by simp
  ultimately show ?thesis using e(1) assms(1)
    by (simp add: sdes_parse_def crypto_line_def prefix_simps split_ws_tok_space crypto_wf_def)
qed

lemma crypto_feeds:
  assumes "crypto_wf c" and "b64_ok b64e b64d"
  shows "attr_feeds b64d [crypto_line b64e c] m (m \<lparr> md_crypto := md_crypto m @ [c] \<rparr>)"
proof -
  define v where "v = show_word (sc_tag c) @ '' '' @ suite_sdp_name (sc_suite c) @ '' inline:'' @ b64e (sc_key_material c)"
  have l: "crypto_line b64e c = ''a='' @ ''crypto:'' @ v" by (simp add: crypto_line_def v_def)
  have "list_all printable (b64e (sc_key_material c))"
    using assms(2) graphic_printable by (auto simp: b64_ok_def list_all_iff)
  then have "list_all printable v"
    by (cases "sc_suite c") (simp add: v_def suite_sdp_name_def printable_def)
  then show ?thesis unfolding l using sdes_roundtrip [OF assms]
    by (intro attr_one) (simp_all add: line_simps apply_media_attribute_def prefix_simps l)
qed

lemmas security_simps = apply_media_attribute_def apply_security_attribute_def prefix_simps
lemmas multiplex_simps = security_simps apply_multiplex_attribute_def

lemma fingerprint_feeds:
  assumes "fingerprint_wf f"
  shows "attr_feeds b [''a=fingerprint:'' @ fp_algorithm f @ '' '' @ fp_value f] m (m \<lparr> md_fingerprint := Some f \<rparr>)"
proof -
  have "trimmed (fp_algorithm f @ CHR '' '' # fp_value f)" using assms by (simp add: fingerprint_wf_def trimmed_pair)
  then have "parse_fingerprint (fp_algorithm f @ CHR '' '' # fp_value f) = Some f"
    using assms by (simp add: parse_fingerprint_def split_once_ws_tok fingerprint_wf_def tok_def)
  then show ?thesis
    using assms attr_one [of "''fingerprint:'' @ fp_algorithm f @ '' '' @ fp_value f"]
    by (simp add: line_simps security_simps fingerprint_wf_def)
qed

lemma setup_roundtrip: "setup_parse (setup_as_str s) = Some s" "tok (setup_as_str s)"
  by (cases s; simp add: setup_parse_def setup_as_str_def to_ascii_lowercase_def to_ascii_lower_def tok_def graphic_def)+

lemma setup_feeds: "attr_feeds b [''a=setup:'' @ setup_as_str s] m (m \<lparr> md_setup := Some s \<rparr>)"
  using attr_one [of "''setup:'' @ setup_as_str s"]
  by (simp add: line_simps security_simps setup_roundtrip)

lemma ufrag_feeds: "trimmed u \<Longrightarrow> attr_feeds b [''a=ice-ufrag:'' @ u] m (m \<lparr> md_ice_ufrag := Some u \<rparr>)"
  using attr_one [of "''ice-ufrag:'' @ u"] by (simp add: line_simps security_simps)

lemma pwd_feeds: "trimmed u \<Longrightarrow> attr_feeds b [''a=ice-pwd:'' @ u] m (m \<lparr> md_ice_pwd := Some u \<rparr>)"
  using attr_one [of "''ice-pwd:'' @ u"] by (simp add: line_simps security_simps)

lemma options_feeds:
  "list_all tok ts \<Longrightarrow> attr_feeds b [''a=ice-options:'' @ join '' '' ts] m (m \<lparr> md_ice_options := ts \<rparr>)"
  using attr_one [of "''ice-options:'' @ join '' '' ts"] by (simp add: line_simps security_simps split_ws_join)

lemma end_of_candidates_feeds: "attr_feeds b [''a=end-of-candidates''] m (m \<lparr> md_end_of_candidates := True \<rparr>)"
  using attr_one [of "''end-of-candidates''"] by (simp add: line_simps security_simps)

lemma mid_feeds: "trimmed i \<Longrightarrow> attr_feeds b [''a=mid:'' @ i] m (m \<lparr> md_mid := Some i \<rparr>)"
  using attr_one [of "''mid:'' @ i"] by (simp add: line_simps multiplex_simps)

lemma rtcp_mux_feeds: "attr_feeds b [''a=rtcp-mux''] m (m \<lparr> md_rtcp_mux := True \<rparr>)"
  using attr_one [of "''rtcp-mux''"] by (simp add: line_simps multiplex_simps)

lemma direction_feeds: "attr_feeds b [''a='' @ direction_as_str d] m (m \<lparr> md_direction := d \<rparr>)"
  using attr_one [of "direction_as_str d"]
  by (cases d) (simp_all add: line_simps multiplex_simps direction_as_str_def direction_parse_def)

section \<open>Candidates, extensions, RTCP\<close>

definition pair_tokens :: "(bytes \<times> bytes) list \<Rightarrow> bytes list" where
  "pair_tokens kvs = concat (map (\<lambda>(k, v). [k, v]) kvs)"

definition candidate_tokens :: "ice_candidate \<Rightarrow> bytes list" where
  "candidate_tokens c =
     [show_word (ic_component c), ic_transport c, show_word (ic_priority c), ip_show (ic_address c),
      show_word (ic_port c), ''typ'', ic_candidate_type c]
     @ (case ic_related_address c of None \<Rightarrow> [] | Some a \<Rightarrow> [''raddr'', ip_show a])
     @ (case ic_related_port c of None \<Rightarrow> [] | Some p \<Rightarrow> [''rport'', show_word p])
     @ pair_tokens (ic_raw_params c)"

lemma spaced_append: "spaced (xs @ ys) = spaced xs @ spaced ys"
  by (simp add: spaced_def)

lemma spaced_pairs: "concat (map (\<lambda>(k, v). '' '' @ k @ '' '' @ v) kvs) = spaced (pair_tokens kvs)"
  by (induction kvs) (auto simp: spaced_def pair_tokens_def)

lemma candidate_show_tokens: "candidate_show c = ''candidate:'' @ ic_foundation c @ spaced (candidate_tokens c)"
  unfolding candidate_show_def candidate_tokens_def spaced_append spaced_pairs
  by (simp add: spaced_def split: option.split)

lemma cand_pairs_raw:
  "list_all pair_wf kvs \<Longrightarrow> cand_pairs n (pair_tokens kvs) (ra, rp, raw) = Inr (ra, rp, raw @ kvs)"
  by (induction kvs arbitrary: raw) (auto simp: pair_tokens_def pair_wf_def)

lemma cand_pairs_tokens:
  assumes "candidate_wf c"
  shows "cand_pairs n ((case ic_related_address c of None \<Rightarrow> [] | Some a \<Rightarrow> [''raddr'', ip_show a])
     @ (case ic_related_port c of None \<Rightarrow> [] | Some p \<Rightarrow> [''rport'', show_word p])
     @ pair_tokens (ic_raw_params c)) (None, None, []) = Inr (ic_related_address c, ic_related_port c, ic_raw_params c)"
  using assms cand_pairs_raw [of "ic_raw_params c" n]
  by (cases "ic_related_address c"; cases "ic_related_port c") (simp_all add: candidate_wf_def)

lemma candidate_tokens_ok: "candidate_wf c \<Longrightarrow> list_all tok (candidate_tokens c)"
proof -
  assume c: "candidate_wf c"
  have t: "tok ''typ''" "tok ''raddr''" "tok ''rport''" by (simp_all add: tok_def graphic_def)
  have "list_all tok (pair_tokens kvs)" if "list_all pair_wf kvs" for kvs
    using that by (induction kvs) (auto simp: pair_tokens_def pair_wf_def)
  with c t show ?thesis
    by (auto simp: candidate_tokens_def candidate_wf_def split: option.split)
qed

lemma parse_candidate_tokens:
  assumes "candidate_wf c"
  shows "parse_candidate (ic_foundation c @ spaced (candidate_tokens c)) n = Inr c"
proof -
  have f: "tok (ic_foundation c)" using assms by (simp add: candidate_wf_def)
  have "eq_ignore_ascii_case ''typ'' ''typ''" by (simp add: eq_ignore_ascii_case_def)
  then show ?thesis
    unfolding parse_candidate_def split_ws_tok_spaced [OF f candidate_tokens_ok [OF assms]]
    using assms cand_pairs_tokens [OF assms, of n]
    by (simp add: cand_next_def candidate_tokens_def candidate_wf_def)
qed

lemma spaced_printable: "list_all tok ts \<Longrightarrow> list_all printable (spaced ts)"
  by (induction ts) (auto simp: spaced_def printable_def)

lemma candidate_feeds:
  assumes "candidate_wf c"
  shows "attr_feeds b [''a='' @ candidate_show c] m (m \<lparr> md_candidates := md_candidates m @ [c] \<rparr>)"
proof (rule attr_one)
  show "line_ok (''a='' @ candidate_show c)"
    using spaced_printable [OF candidate_tokens_ok [OF assms]] assms
    by (simp add: candidate_show_tokens line_simps candidate_wf_def)
  show "apply_media_attribute b (candidate_show c) m n = Inr (m \<lparr> md_candidates := md_candidates m @ [c] \<rparr>)" for n
    by (simp add: candidate_show_tokens security_simps parse_candidate_tokens [OF assms])
qed

lemma direction_roundtrip: "direction_parse (direction_as_str d) = Some d" "tok (direction_as_str d)"
    "CHR ''/'' \<notin> set (direction_as_str d)"
  by (cases d; simp add: direction_parse_def direction_as_str_def tok_def graphic_def)+

definition extmap_id_token :: "ext_map \<Rightarrow> bytes" where
  "extmap_id_token e = show_word (em_id e) @ (case em_direction e of None \<Rightarrow> [] | Some d \<Rightarrow> ''/'' @ direction_as_str d)"

lemma extmap_id_tok: "tok (extmap_id_token e)"
  using tok_show_word [of "em_id e"] direction_roundtrip(2)
  by (auto simp: extmap_id_token_def tok_def graphic_def split: option.split)

lemma parse_extmap_show:
  assumes "extmap_wf e"
  shows "parse_extmap (extmap_id_token e @ '' '' @ em_uri e @ (case em_attributes e of None \<Rightarrow> [] | Some a \<Rightarrow> '' '' @ a)) = Some e"
proof -
  let ?tail = "em_uri e @ (case em_attributes e of None \<Rightarrow> [] | Some a \<Rightarrow> '' '' @ a)"
  have u: "tok (em_uri e)" using assms by (simp add: extmap_wf_def)
  then have "trimmed ?tail"
    using assms by (auto simp: extmap_wf_def tok_trimmed trimmed_pair split: option.split)
  then have t: "trim (extmap_id_token e @ CHR '' '' # ?tail) = extmap_id_token e @ CHR '' '' # ?tail"
    using trimmed_pair [OF extmap_id_tok] by simp
  have s3: "splitn3_ws (extmap_id_token e @ CHR '' '' # ?tail)
      = [extmap_id_token e, em_uri e] @ (case em_attributes e of None \<Rightarrow> [] | Some a \<Rightarrow> [a])"
    using u extmap_id_tok [of e] split_once_ws_none [of "em_uri e"]
    by (simp add: splitn3_ws_def split_once_ws_tok tok_def split: option.split)
  have slash: "split_once ''/'' (extmap_id_token e)
      = (case em_direction e of None \<Rightarrow> None | Some d \<Rightarrow> Some (show_word (em_id e), direction_as_str d))"
    using split_once_head_free [of "''/''" "show_word (em_id e)"] split_once_absent [of "''/''" "show_word (em_id e)"]
    by (auto simp: extmap_id_token_def split: option.split)
  have id: "em_direction e = None \<Longrightarrow> extmap_id_token e = show_word (em_id e)" by (simp add: extmap_id_token_def)
  show ?thesis using t s3 slash id assms
    by (cases "em_direction e"; cases "em_attributes e")
       (auto simp: parse_extmap_def direction_roundtrip extmap_wf_def trimmed_def)
qed

lemma extmap_show_token:
  "extmap_show e = ''extmap:'' @ extmap_id_token e @ '' '' @ em_uri e @ (case em_attributes e of None \<Rightarrow> [] | Some a \<Rightarrow> '' '' @ a)"
  by (simp add: extmap_show_def extmap_id_token_def)

lemma extmap_feeds:
  assumes "extmap_wf e"
  shows "attr_feeds b [''a='' @ extmap_show e] m (m \<lparr> md_extmap := md_extmap m @ [e] \<rparr>)"
proof (rule attr_one)
  show "line_ok (''a='' @ extmap_show e)"
    using assms extmap_id_tok [of e]
    by (auto simp: extmap_show_token line_ok_def extmap_wf_def split: option.split) (auto simp: printable_def)
  show "apply_media_attribute b (extmap_show e) m n = Inr (m \<lparr> md_extmap := md_extmap m @ [e] \<rparr>)" for n
    using parse_extmap_show [OF assms] by (simp add: extmap_show_token multiplex_simps)
qed

lemma net_addr_tokens:
  "net_addr ip = ''IN'' @ spaced [if length ip = 4 then ''IP4'' else ''IP6'', ip_show ip]"
  by (simp add: net_addr_def ip_net_tokens_def spaced_def)

lemma net_toks: "tok ''IN''" "tok ''IP4''" "tok ''IP6''"
  by (simp_all add: tok_def graphic_def)

lemma net_addr_split:
  "ip_wf ip \<Longrightarrow> split_whitespace (net_addr ip) = [''IN'', if length ip = 4 then ''IP4'' else ''IP6'', ip_show ip]"
  unfolding net_addr_tokens by (rule split_ws_tok_spaced) (simp_all add: net_toks)

lemma net_addr_printable: "ip_wf ip \<Longrightarrow> list_all printable (net_addr ip)"
  unfolding net_addr_tokens using spaced_printable [of "[_, _]"] by (simp add: net_toks) (simp add: printable_def)

lemma rtcp_feeds:
  assumes "rtcp_wf r"
  shows "attr_feeds b [rtcp_line r] m (m \<lparr> md_rtcp := Some r \<rparr>)"
proof -
  define v where "v = show_word (ra_port r) @ (case ra_address r of None \<Rightarrow> [] | Some ip \<Rightarrow> '' '' @ net_addr ip)"
  have "list_all printable v"
    using assms by (auto simp: v_def rtcp_wf_def net_addr_printable split: option.split) (simp_all add: printable_def)
  moreover have "parse_rtcp v = Some r"
    using assms by (cases "ra_address r")
      (simp_all add: v_def parse_rtcp_def rtcp_wf_def split_ws_tok split_ws_tok_space net_addr_split)
  ultimately have "attr_feeds b [''a='' @ ''rtcp:'' @ v] m (m \<lparr> md_rtcp := Some r \<rparr>)"
    by (intro attr_one) (simp_all add: line_simps multiplex_simps)
  then show ?thesis by (simp add: rtcp_line_def v_def)
qed

lemma parse_connection_show: "ip_wf ip \<Longrightarrow> parse_connection (net_addr ip) n = Inr ip"
  by (simp add: parse_connection_def net_addr_split)

lemma media_connection_feeds:
  assumes "ip_wf ip"
  shows "attr_feeds b [connection_line ip] m (m \<lparr> md_connection := Some ip \<rparr>)"
  unfolding attr_feeds_def connection_line_def
  using net_addr_printable [OF assms]
  by (auto intro!: feeds_one simp: line_simps parse_kv_def parse_connection_show [OF assms])

section \<open>T.38\<close>

definition t38_run :: "bytes list \<Rightarrow> t38_params \<Rightarrow> t38_params" where
  "t38_run ls p = foldl (\<lambda>p a. snd (t38_apply_attribute a p)) p ls"

lemma t38_run_append: "t38_run (xs @ ys) p = t38_run ys (t38_run xs p)"
  by (simp add: t38_run_def)

lemma t38_run_Nil [simp]: "t38_run [] p = p"
  by (simp add: t38_run_def)

lemma t38_run_one: "t38_run [l] p = snd (t38_apply_attribute l p)"
  by (simp add: t38_run_def)

lemma split_colon: "CHR '':'' \<notin> set a \<Longrightarrow> split_once '':'' (a @ CHR '':'' # r) = Some (a, r)"
  using split_once_head_free [of "'':''" a r] by simp

lemma t38_apply_value:
  assumes "tok name" "starts_with name ''T38''" "CHR '':'' \<notin> set name" "trimmed v"
  shows "snd (t38_apply_attribute (name @ CHR '':'' # v) p) = t38_assign name (Some v) p"
proof -
  have "starts_with (name @ CHR '':'' # v) ''T38''"
    using assms(2) by (metis append_take_drop_id append_assoc starts_with_def append_eq_conv_conj)
  with assms show ?thesis by (simp add: t38_apply_attribute_def split_colon)
qed

lemma t38_apply_flag:
  assumes "tok name" "starts_with name ''T38''" "CHR '':'' \<notin> set name"
  shows "snd (t38_apply_attribute name p) = t38_assign name None p"
  using assms split_once_absent [of "'':''" name] by (simp add: t38_apply_attribute_def)

lemma t38_run_Cons: "t38_run (l # ls) p = t38_run ls (t38_run [l] p)"
  by (simp add: t38_run_def)

lemma t38_run_extra:
  assumes "list_all t38_extra_wf xs"
  shows "t38_run (map (\<lambda>(name, v). case v of Some x \<Rightarrow> name @ '':'' @ x | None \<Rightarrow> name) xs) p
    = p \<lparr> t38_extra := t38_extra p @ xs \<rparr>"
  using assms
proof (induction xs arbitrary: p)
  case (Cons nv xs)
  obtain name v where nv: "nv = (name, v)" by (cases nv)
  have wf: "tok name" "starts_with name ''T38''" "CHR '':'' \<notin> set name" "name \<notin> set t38_names" "pred_option trimmed v"
    using Cons.prems by (simp_all add: nv t38_extra_wf_def)
  have "t38_assign name v p = p \<lparr> t38_extra := t38_extra p @ [(name, v)] \<rparr>" for p
    using wf(4) by (simp add: t38_assign_def t38_names_def)
  then have "t38_run [case v of Some x \<Rightarrow> name @ '':'' @ x | None \<Rightarrow> name] p
      = p \<lparr> t38_extra := t38_extra p @ [(name, v)] \<rparr>"
    using wf(5) t38_apply_value [OF wf(1-3)] t38_apply_flag [OF wf(1-3)]
    by (cases v) (simp_all add: t38_run_one)
  then show ?case using Cons by (subst list.map(2), subst t38_run_Cons) (simp add: nv del: append_Cons)
qed simp

lemma t38_trims: "trim ''T38FaxVersion'' = ''T38FaxVersion''" "trim ''T38MaxBitRate'' = ''T38MaxBitRate''"
    "trim ''T38FaxFillBitRemoval'' = ''T38FaxFillBitRemoval''" "trim ''T38FaxTranscodingMMR'' = ''T38FaxTranscodingMMR''"
    "trim ''T38FaxTranscodingJBIG'' = ''T38FaxTranscodingJBIG''" "trim ''T38FaxRateManagement'' = ''T38FaxRateManagement''"
    "trim ''T38FaxMaxBuffer'' = ''T38FaxMaxBuffer''" "trim ''T38FaxMaxDatagram'' = ''T38FaxMaxDatagram''"
    "trim ''T38FaxUdpEC'' = ''T38FaxUdpEC''"
  by (rule trim_tok, simp add: tok_def graphic_def)+

lemmas t38_line_simps = t38_trims opt_line_def flag_line_def t38_run_one t38_apply_attribute_def starts_with_def
  t38_assign_def flag_value_def

lemma t38_numbers:
  "t38_version p = None \<Longrightarrow> t38_run (opt_line (\<lambda>v. ''T38FaxVersion:'' @ show_word v) x) p = p \<lparr> t38_version := x \<rparr>"
  "t38_max_bit_rate p = None \<Longrightarrow> t38_run (opt_line (\<lambda>v. ''T38MaxBitRate:'' @ show_word v) y) p = p \<lparr> t38_max_bit_rate := y \<rparr>"
  "t38_max_buffer p = None \<Longrightarrow> t38_run (opt_line (\<lambda>v. ''T38FaxMaxBuffer:'' @ show_word v) y) p = p \<lparr> t38_max_buffer := y \<rparr>"
  "t38_max_datagram p = None \<Longrightarrow> t38_run (opt_line (\<lambda>v. ''T38FaxMaxDatagram:'' @ show_word v) y) p = p \<lparr> t38_max_datagram := y \<rparr>"
  by (cases x; simp add: t38_line_simps) (cases y; simp add: t38_line_simps)+

lemma t38_flags:
  "\<not> t38_fill_bit_removal p \<Longrightarrow> t38_run (flag_line ''T38FaxFillBitRemoval'' x) p = p \<lparr> t38_fill_bit_removal := x \<rparr>"
  "\<not> t38_transcoding_mmr p \<Longrightarrow> t38_run (flag_line ''T38FaxTranscodingMMR'' x) p = p \<lparr> t38_transcoding_mmr := x \<rparr>"
  "\<not> t38_transcoding_jbig p \<Longrightarrow> t38_run (flag_line ''T38FaxTranscodingJBIG'' x) p = p \<lparr> t38_transcoding_jbig := x \<rparr>"
  by (cases x; simp add: t38_line_simps)+

lemma t38_texts:
  "t38_rate_management p = None \<Longrightarrow> pred_option trimmed x \<Longrightarrow>
     t38_run (opt_line (\<lambda>v. ''T38FaxRateManagement:'' @ v) x) p = p \<lparr> t38_rate_management := x \<rparr>"
  "t38_udp_ec p = None \<Longrightarrow> pred_option trimmed x \<Longrightarrow>
     t38_run (opt_line (\<lambda>v. ''T38FaxUdpEC:'' @ v) x) p = p \<lparr> t38_udp_ec := x \<rparr>"
  by (cases x; simp add: t38_line_simps)+

lemma t38_roundtrip:
  assumes "t38_wf p"
  shows "t38_run (t38_render_attrs p) t38_default = p"
  using assms unfolding t38_render_attrs_def t38_run_append
  by (simp add: t38_numbers t38_flags t38_texts t38_run_extra t38_wf_def t38_default_def
    del: append_Cons append_Nil)

lemma t38_one_feeds:
  assumes "line_ok (''a='' @ l)" and "starts_with l ''T38''"
  shows "attr_feeds b [''a='' @ l] m (m \<lparr> md_t38 := Some (t38_run [l] (case md_t38 m of Some t \<Rightarrow> t | None \<Rightarrow> t38_default)) \<rparr>)"
proof (rule attr_one [OF assms(1)])
  obtain r where l: "l = ''T38'' @ r" using assms(2) by (metis append_take_drop_id starts_with_def)
  show "apply_media_attribute b l m n
      = Inr (m \<lparr> md_t38 := Some (t38_run [l] (case md_t38 m of Some t \<Rightarrow> t | None \<Rightarrow> t38_default)) \<rparr>)" for n
    unfolding l by (simp add: multiplex_simps t38_run_one)
qed

lemma t38_some_feeds:
  assumes "\<forall>l \<in> set ls. line_ok (''a='' @ l) \<and> starts_with l ''T38''" and "md_t38 m = Some t"
  shows "attr_feeds b (map (\<lambda>l. ''a='' @ l) ls) m (m \<lparr> md_t38 := Some (t38_run ls t) \<rparr>)"
  using assms
proof (induction ls arbitrary: m t)
  case Nil
  then have "m \<lparr> md_t38 := Some t \<rparr> = m" by (cases m) simp
  then show ?case by (simp add: attr_feeds_Nil)
next
  case (Cons l ls)
  let ?m1 = "m \<lparr> md_t38 := Some (t38_run [l] t) \<rparr>"
  have "attr_feeds b [''a='' @ l] m ?m1" using t38_one_feeds [of l b m] Cons.prems by simp
  moreover have "attr_feeds b (map (\<lambda>l. ''a='' @ l) ls) ?m1 (m \<lparr> md_t38 := Some (t38_run (l # ls) t) \<rparr>)"
    using Cons.IH [of ?m1 "t38_run [l] t"] Cons.prems
    by (subst t38_run_Cons) (simp del: append_Cons append_Nil)
  ultimately show ?case using attr_feeds_append by fastforce
qed

lemma t38_feeds:
  assumes "\<forall>l \<in> set ls. line_ok (''a='' @ l) \<and> starts_with l ''T38''" and "md_t38 m = None" and "ls \<noteq> []"
  shows "attr_feeds b (map (\<lambda>l. ''a='' @ l) ls) m (m \<lparr> md_t38 := Some (t38_run ls t38_default) \<rparr>)"
proof -
  obtain l r where ls: "ls = l # r" using assms(3) by (cases ls) auto
  let ?m1 = "m \<lparr> md_t38 := Some (t38_run [l] t38_default) \<rparr>"
  have "attr_feeds b [''a='' @ l] m ?m1" using t38_one_feeds [of l b m] assms ls by simp
  moreover have "attr_feeds b (map (\<lambda>l. ''a='' @ l) r) ?m1 (m \<lparr> md_t38 := Some (t38_run ls t38_default) \<rparr>)"
    using t38_some_feeds [of r ?m1] assms(1) unfolding ls
    by (subst t38_run_Cons) (simp del: append_Cons append_Nil)
  ultimately show ?thesis using attr_feeds_append ls by fastforce
qed

lemma opt_line_all: "list_all P (opt_line f x) \<longleftrightarrow> (\<forall>a. x = Some a \<longrightarrow> P (f a))"
  by (cases x) (simp_all add: opt_line_def)

lemma flag_line_all: "list_all P (flag_line s b) \<longleftrightarrow> (b \<longrightarrow> P s)"
  by (simp add: flag_line_def)

definition t38_line :: "bytes \<Rightarrow> bool" where
  "t38_line l \<longleftrightarrow> list_all printable l \<and> starts_with l ''T38''"

lemma t38_extra_line:
  assumes "t38_extra_wf nv"
  shows "t38_line (case nv of (name, v) \<Rightarrow> case v of Some x \<Rightarrow> name @ '':'' @ x | None \<Rightarrow> name)"
proof -
  from assms obtain r where r: "fst nv = ''T38'' @ r" unfolding t38_extra_wf_def by (metis append_take_drop_id starts_with_def)
  have "list_all printable (fst nv)" "pred_option trimmed (snd nv)"
    using assms by (simp_all add: t38_extra_wf_def)
  with r show ?thesis
    by (cases nv; cases "snd nv") (simp_all add: t38_line_def starts_with_def printable_def)
qed

lemma t38_lines:
  assumes "t38_wf p"
  shows "list_all t38_line (t38_render_attrs p)"
proof -
  have "list_all t38_line (map (\<lambda>(name, v). case v of Some x \<Rightarrow> name @ '':'' @ x | None \<Rightarrow> name) (t38_extra p))"
    unfolding list_all_length
    using assms t38_extra_line by (simp add: t38_wf_def list_all_length del: append_Cons append_Nil)
  moreover have "t38_line (''T38FaxRateManagement:'' @ a)" "t38_line (''T38FaxUdpEC:'' @ a)" if "list_all printable a" for a
    using that by (simp_all add: t38_line_def starts_with_def printable_def)
  moreover have "list_all printable a" if "t38_rate_management p = Some a \<or> t38_udp_ec p = Some a" for a
    using that assms by (auto simp: t38_wf_def)
  moreover have "t38_line (''T38FaxVersion:'' @ show_word v)" "t38_line (''T38MaxBitRate:'' @ show_word w)"
    "t38_line (''T38FaxMaxBuffer:'' @ show_word w)" "t38_line (''T38FaxMaxDatagram:'' @ show_word w)"
    "t38_line ''T38FaxFillBitRemoval''" "t38_line ''T38FaxTranscodingMMR''" "t38_line ''T38FaxTranscodingJBIG''" for v :: u8 and w :: u32
    by (simp_all add: t38_line_def starts_with_def printable_def)
  ultimately show ?thesis
    unfolding t38_render_attrs_def list_all_append opt_line_all flag_line_all by blast
qed

lemma t38_lines_ok:
  assumes "t38_wf p" and "l \<in> set (t38_render_attrs p)"
  shows "line_ok (''a='' @ l) \<and> starts_with l ''T38''"
  using t38_lines [OF assms(1)] assms(2) by (auto simp: list_all_iff t38_line_def line_ok_def printable_def)

lemma t38_render_nonempty: "t38_wf p \<Longrightarrow> t38_render_attrs p \<noteq> []"
  using t38_roundtrip [of p] by (auto simp: t38_wf_def)

section \<open>Media blocks\<close>

lemma media_list_feeds:
  assumes "media_wf m" and "b64_ok b64e b64d"
  shows "attr_feeds b64d (map rtpmap_line (md_rtpmap m)) x (x \<lparr> md_rtpmap := md_rtpmap x @ md_rtpmap m \<rparr>)"
    "attr_feeds b64d (map (\<lambda>p. ''a=fmtp:'' @ fm_format p @ '' '' @ fm_params p) (md_fmtp m)) x
       (x \<lparr> md_fmtp := md_fmtp x @ md_fmtp m \<rparr>)"
    "attr_feeds b64d (map (crypto_line b64e) (md_crypto m)) x (x \<lparr> md_crypto := md_crypto x @ md_crypto m \<rparr>)"
    "attr_feeds b64d (map (\<lambda>c. ''a='' @ candidate_show c) (md_candidates m)) x
       (x \<lparr> md_candidates := md_candidates x @ md_candidates m \<rparr>)"
    "attr_feeds b64d (map (\<lambda>e. ''a='' @ extmap_show e) (md_extmap m)) x (x \<lparr> md_extmap := md_extmap x @ md_extmap m \<rparr>)"
    "attr_feeds b64d (map (\<lambda>fb. ''a=rtcp-fb:'' @ fb_format fb @ '' '' @ fb_value fb) (md_rtcp_fb m)) x
       (x \<lparr> md_rtcp_fb := md_rtcp_fb x @ md_rtcp_fb m \<rparr>)"
proof -
  have wf: "\<forall>r \<in> set (md_rtpmap m). rtpmap_wf r" "\<forall>p \<in> set (md_fmtp m). fmtp_wf p" "\<forall>c \<in> set (md_crypto m). crypto_wf c"
      "\<forall>c \<in> set (md_candidates m). candidate_wf c" "\<forall>e \<in> set (md_extmap m). extmap_wf e" "\<forall>f \<in> set (md_rtcp_fb m). feedback_wf f"
    using assms(1) by (simp_all add: media_wf_def list_all_iff)
  show "attr_feeds b64d (map rtpmap_line (md_rtpmap m)) x (x \<lparr> md_rtpmap := md_rtpmap x @ md_rtpmap m \<rparr>)"
    by (rule attr_map [where upd = "\<lambda>y x. x \<lparr> md_rtpmap := y \<rparr>"]) (use wf rtpmap_feeds in auto)
  show "attr_feeds b64d (map (\<lambda>p. ''a=fmtp:'' @ fm_format p @ '' '' @ fm_params p) (md_fmtp m)) x
       (x \<lparr> md_fmtp := md_fmtp x @ md_fmtp m \<rparr>)"
    by (rule attr_map [where upd = "\<lambda>y x. x \<lparr> md_fmtp := y \<rparr>"]) (use wf fmtp_feeds in auto)
  show "attr_feeds b64d (map (crypto_line b64e) (md_crypto m)) x (x \<lparr> md_crypto := md_crypto x @ md_crypto m \<rparr>)"
    by (rule attr_map [where upd = "\<lambda>y x. x \<lparr> md_crypto := y \<rparr>"]) (use wf crypto_feeds assms(2) in auto)
  show "attr_feeds b64d (map (\<lambda>c. ''a='' @ candidate_show c) (md_candidates m)) x
       (x \<lparr> md_candidates := md_candidates x @ md_candidates m \<rparr>)"
    by (rule attr_map [where upd = "\<lambda>y x. x \<lparr> md_candidates := y \<rparr>"]) (use wf candidate_feeds in auto)
  show "attr_feeds b64d (map (\<lambda>e. ''a='' @ extmap_show e) (md_extmap m)) x (x \<lparr> md_extmap := md_extmap x @ md_extmap m \<rparr>)"
    by (rule attr_map [where upd = "\<lambda>y x. x \<lparr> md_extmap := y \<rparr>"]) (use wf extmap_feeds in auto)
  show "attr_feeds b64d (map (\<lambda>fb. ''a=rtcp-fb:'' @ fb_format fb @ '' '' @ fb_value fb) (md_rtcp_fb m)) x
       (x \<lparr> md_rtcp_fb := md_rtcp_fb x @ md_rtcp_fb m \<rparr>)"
    by (rule attr_map [where upd = "\<lambda>y x. x \<lparr> md_rtcp_fb := y \<rparr>"]) (use wf feedback_feeds in auto)
qed

lemma t38_option_feeds:
  assumes "pred_option t38_wf t" and "md_t38 m = None"
  shows "attr_feeds b (case t of None \<Rightarrow> [] | Some t \<Rightarrow> map (\<lambda>l. ''a='' @ l) (t38_render_attrs t)) m (m \<lparr> md_t38 := t \<rparr>)"
proof (cases t)
  case None
  with assms have "m \<lparr> md_t38 := t \<rparr> = m" by (cases m) simp
  with None show ?thesis by (simp add: attr_feeds_Nil)
next
  case (Some p)
  with assms have "t38_wf p" by simp
  with t38_feeds [of "t38_render_attrs p" m b] assms(2) t38_lines_ok t38_render_nonempty t38_roundtrip Some
  show ?thesis by fastforce
qed

lemma unset_field:
  "md_connection x = None \<Longrightarrow> x \<lparr> md_connection := None \<rparr> = x"
  "md_ptime x = None \<Longrightarrow> x \<lparr> md_ptime := None \<rparr> = x"
  "md_maxptime x = None \<Longrightarrow> x \<lparr> md_maxptime := None \<rparr> = x"
  "md_fingerprint x = None \<Longrightarrow> x \<lparr> md_fingerprint := None \<rparr> = x"
  "md_setup x = None \<Longrightarrow> x \<lparr> md_setup := None \<rparr> = x"
  "md_ice_ufrag x = None \<Longrightarrow> x \<lparr> md_ice_ufrag := None \<rparr> = x"
  "md_ice_pwd x = None \<Longrightarrow> x \<lparr> md_ice_pwd := None \<rparr> = x"
  "md_mid x = None \<Longrightarrow> x \<lparr> md_mid := None \<rparr> = x"
  "md_rtcp x = None \<Longrightarrow> x \<lparr> md_rtcp := None \<rparr> = x"
  by (cases x; simp)+

lemma connection_option_feeds:
  "md_connection x = None \<Longrightarrow> pred_option ip_wf v \<Longrightarrow> attr_feeds b (opt_line connection_line v) x (x \<lparr> md_connection := v \<rparr>)"
  using media_connection_feeds [of "the v" b x]
  by (cases v) (simp_all add: opt_line_def attr_feeds_Nil unset_field)

lemma ptime_option_feeds:
  "md_ptime x = None \<Longrightarrow> attr_feeds b (opt_line (\<lambda>t. ''a=ptime:'' @ show_word t) v) x (x \<lparr> md_ptime := v \<rparr>)"
  using ptime_feeds [of b "the v" x]
  by (cases v) (simp_all add: opt_line_def attr_feeds_Nil unset_field)

lemma maxptime_option_feeds:
  "md_maxptime x = None \<Longrightarrow> attr_feeds b (opt_line (\<lambda>t. ''a=maxptime:'' @ show_word t) v) x (x \<lparr> md_maxptime := v \<rparr>)"
  using maxptime_feeds [of b "the v" x]
  by (cases v) (simp_all add: opt_line_def attr_feeds_Nil unset_field)

lemma fingerprint_option_feeds:
  "md_fingerprint x = None \<Longrightarrow> pred_option fingerprint_wf v \<Longrightarrow> attr_feeds b (opt_line (\<lambda>fp. ''a=fingerprint:'' @ fp_algorithm fp @ '' '' @ fp_value fp) v) x (x \<lparr> md_fingerprint := v \<rparr>)"
  using fingerprint_feeds [of "the v" b x]
  by (cases v) (simp_all add: opt_line_def attr_feeds_Nil unset_field)

lemma setup_option_feeds:
  "md_setup x = None \<Longrightarrow> attr_feeds b (opt_line (\<lambda>s. ''a=setup:'' @ setup_as_str s) v) x (x \<lparr> md_setup := v \<rparr>)"
  using setup_feeds [of b "the v" x]
  by (cases v) (simp_all add: opt_line_def attr_feeds_Nil unset_field)

lemma ice_ufrag_option_feeds:
  "md_ice_ufrag x = None \<Longrightarrow> pred_option trimmed v \<Longrightarrow> attr_feeds b (opt_line (\<lambda>u. ''a=ice-ufrag:'' @ u) v) x (x \<lparr> md_ice_ufrag := v \<rparr>)"
  using ufrag_feeds [of "the v" b x]
  by (cases v) (simp_all add: opt_line_def attr_feeds_Nil unset_field)

lemma ice_pwd_option_feeds:
  "md_ice_pwd x = None \<Longrightarrow> pred_option trimmed v \<Longrightarrow> attr_feeds b (opt_line (\<lambda>u. ''a=ice-pwd:'' @ u) v) x (x \<lparr> md_ice_pwd := v \<rparr>)"
  using pwd_feeds [of "the v" b x]
  by (cases v) (simp_all add: opt_line_def attr_feeds_Nil unset_field)

lemma mid_option_feeds:
  "md_mid x = None \<Longrightarrow> pred_option trimmed v \<Longrightarrow> attr_feeds b (opt_line (\<lambda>i. ''a=mid:'' @ i) v) x (x \<lparr> md_mid := v \<rparr>)"
  using mid_feeds [of "the v" b x]
  by (cases v) (simp_all add: opt_line_def attr_feeds_Nil unset_field)

lemma rtcp_option_feeds:
  "md_rtcp x = None \<Longrightarrow> pred_option rtcp_wf v \<Longrightarrow> attr_feeds b (opt_line rtcp_line v) x (x \<lparr> md_rtcp := v \<rparr>)"
  using rtcp_feeds [of "the v" b x]
  by (cases v) (simp_all add: opt_line_def attr_feeds_Nil unset_field)

lemmas option_feeds = connection_option_feeds ptime_option_feeds maxptime_option_feeds fingerprint_option_feeds setup_option_feeds ice_ufrag_option_feeds ice_pwd_option_feeds mid_option_feeds rtcp_option_feeds

text \<open>A block as the \<^verbatim>\<open>m=\<close> line leaves it.\<close>

definition media_base :: "media_description \<Rightarrow> media_description" where
  "media_base m = (media_new (md_kind m) (md_port m) (md_protocol m)) \<lparr> md_formats := md_formats m \<rparr>"

lemma media_attrs_feed:
  assumes "media_wf m" and "b64_ok b64e b64d"
  shows "attr_feeds b64d (media_attr_lines b64e m) (media_base m) m"
proof -
  note wf = assms(1) [unfolded media_wf_def]
  note lists = media_list_feeds [OF assms]
  define m1 where "m1 = (media_base m) \<lparr> md_connection := md_connection m \<rparr>"
  define m2 where "m2 = m1 \<lparr> md_rtpmap := md_rtpmap m1 @ md_rtpmap m \<rparr>"
  define m3 where "m3 = m2 \<lparr> md_fmtp := md_fmtp m2 @ md_fmtp m \<rparr>"
  define m4 where "m4 = m3 \<lparr> md_ptime := md_ptime m \<rparr>"
  define m5 where "m5 = m4 \<lparr> md_maxptime := md_maxptime m \<rparr>"
  define m6 where "m6 = m5 \<lparr> md_crypto := md_crypto m5 @ md_crypto m \<rparr>"
  define m7 where "m7 = m6 \<lparr> md_fingerprint := md_fingerprint m \<rparr>"
  define m8 where "m8 = m7 \<lparr> md_setup := md_setup m \<rparr>"
  define m9 where "m9 = m8 \<lparr> md_ice_ufrag := md_ice_ufrag m \<rparr>"
  define m10 where "m10 = m9 \<lparr> md_ice_pwd := md_ice_pwd m \<rparr>"
  define m11 where "m11 = m10 \<lparr> md_ice_options := md_ice_options m \<rparr>"
  define m12 where "m12 = m11 \<lparr> md_candidates := md_candidates m11 @ md_candidates m \<rparr>"
  define m13 where "m13 = m12 \<lparr> md_end_of_candidates := md_end_of_candidates m \<rparr>"
  define m14 where "m14 = m13 \<lparr> md_mid := md_mid m \<rparr>"
  define m15 where "m15 = m14 \<lparr> md_extmap := md_extmap m14 @ md_extmap m \<rparr>"
  define m16 where "m16 = m15 \<lparr> md_rtcp_mux := md_rtcp_mux m \<rparr>"
  define m17 where "m17 = m16 \<lparr> md_rtcp := md_rtcp m \<rparr>"
  define m18 where "m18 = m17 \<lparr> md_rtcp_fb := md_rtcp_fb m17 @ md_rtcp_fb m \<rparr>"
  define m19 where "m19 = m18 \<lparr> md_t38 := md_t38 m \<rparr>"
  note defs = media_base_def media_new_def m1_def m2_def m3_def m4_def m5_def m6_def m7_def m8_def m9_def m10_def
    m11_def m12_def m13_def m14_def m15_def m16_def m17_def m18_def m19_def
  have m: "m = m19 \<lparr> md_direction := md_direction m \<rparr>" by (cases m) (simp add: defs)
  have "attr_feeds b64d (opt_line connection_line (md_connection m)) (media_base m) m1"
    unfolding m1_def using wf by (intro option_feeds) (auto simp: defs)
  moreover have "attr_feeds b64d (opt_line (\<lambda>t. ''a=ptime:'' @ show_word t) (md_ptime m)) m3 m4"
    unfolding m4_def using wf by (intro option_feeds) (auto simp: defs)
  moreover have "attr_feeds b64d (opt_line (\<lambda>t. ''a=maxptime:'' @ show_word t) (md_maxptime m)) m4 m5"
    unfolding m5_def using wf by (intro option_feeds) (auto simp: defs)
  moreover have "attr_feeds b64d (opt_line (\<lambda>fp. ''a=fingerprint:'' @ fp_algorithm fp @ '' '' @ fp_value fp) (md_fingerprint m)) m6 m7"
    unfolding m7_def using wf by (intro option_feeds) (auto simp: defs)
  moreover have "attr_feeds b64d (opt_line (\<lambda>s. ''a=setup:'' @ setup_as_str s) (md_setup m)) m7 m8"
    unfolding m8_def using wf by (intro option_feeds) (auto simp: defs)
  moreover have "attr_feeds b64d (opt_line (\<lambda>u. ''a=ice-ufrag:'' @ u) (md_ice_ufrag m)) m8 m9"
    unfolding m9_def using wf by (intro option_feeds) (auto simp: defs)
  moreover have "attr_feeds b64d (opt_line (\<lambda>u. ''a=ice-pwd:'' @ u) (md_ice_pwd m)) m9 m10"
    unfolding m10_def using wf by (intro option_feeds) (auto simp: defs)
  moreover have "attr_feeds b64d (opt_line (\<lambda>i. ''a=mid:'' @ i) (md_mid m)) m13 m14"
    unfolding m14_def using wf by (intro option_feeds) (auto simp: defs)
  moreover have "attr_feeds b64d (opt_line rtcp_line (md_rtcp m)) m16 m17"
    unfolding m17_def using wf by (intro option_feeds) (auto simp: defs)
  moreover have "attr_feeds b64d (if md_ice_options m = [] then [] else [''a=ice-options:'' @ join '' '' (md_ice_options m)]) m10 m11"
  proof (cases "md_ice_options m = []")
    case True
    then have "m11 = m10" by (simp add: defs)
    with True show ?thesis by (simp add: attr_feeds_Nil)
  next
    case False
    with options_feeds [of "md_ice_options m" b64d m10] wf show ?thesis by (simp add: m11_def)
  qed
  moreover have "attr_feeds b64d (flag_line ''a=end-of-candidates'' (md_end_of_candidates m)) m12 m13"
  proof (cases "md_end_of_candidates m")
    case True
    with end_of_candidates_feeds [of b64d m12] show ?thesis by (simp add: m13_def flag_line_def)
  next
    case False
    then have "m13 = m12" by (simp add: defs)
    with False show ?thesis by (simp add: flag_line_def attr_feeds_Nil)
  qed
  moreover have "attr_feeds b64d (flag_line ''a=rtcp-mux'' (md_rtcp_mux m)) m15 m16"
  proof (cases "md_rtcp_mux m")
    case True
    with rtcp_mux_feeds [of b64d m15] show ?thesis by (simp add: m16_def flag_line_def)
  next
    case False
    then have "m16 = m15" by (simp add: defs)
    with False show ?thesis by (simp add: flag_line_def attr_feeds_Nil)
  qed
  moreover have "attr_feeds b64d (case md_t38 m of None \<Rightarrow> [] | Some t \<Rightarrow> map (\<lambda>l. ''a='' @ l) (t38_render_attrs t)) m18 m19"
    unfolding m19_def using wf by (intro t38_option_feeds) (auto simp: defs)
  moreover have "attr_feeds b64d [''a='' @ direction_as_str (md_direction m)] m19 m"
    using direction_feeds [of b64d "md_direction m" m19] m by simp
  ultimately show ?thesis
    using lists(1) [of m1, folded m2_def] lists(2) [of m2, folded m3_def] lists(3) [of m5, folded m6_def]
      lists(4) [of m11, folded m12_def] lists(5) [of m14, folded m15_def] lists(6) [of m17, folded m18_def]
    unfolding media_attr_lines_def by (intro attr_feeds_append) assumption+
qed

section \<open>Whole documents\<close>

lemma kind_tok: "media_wf m \<Longrightarrow> tok (sdp_kind_as_str (md_kind m))"
  by (simp add: media_wf_def kind_wf_def)

lemma m_line_tokens:
  "m_line m = ''m='' @ sdp_kind_as_str (md_kind m) @ spaced (show_word (md_port m) # md_protocol m # md_formats m)"
  by (simp add: m_line_def spaced_def)

lemma parse_media_show:
  assumes "media_wf m"
  shows "parse_media (sdp_kind_as_str (md_kind m) @ spaced (show_word (md_port m) # md_protocol m # md_formats m)) n
    = Inr (media_base m)"
proof -
  have "split_whitespace (sdp_kind_as_str (md_kind m) @ spaced (show_word (md_port m) # md_protocol m # md_formats m))
      = sdp_kind_as_str (md_kind m) # show_word (md_port m) # md_protocol m # md_formats m"
    using assms by (intro split_ws_tok_spaced) (simp_all add: kind_tok media_wf_def)
  then show ?thesis
    using assms by (simp add: parse_media_def split_no_slash media_base_def media_wf_def kind_wf_def)
qed

text \<open>A session level with nothing for a block to inherit, as every rendered document has.\<close>

definition neutral :: "session_level \<Rightarrow> bool" where
  "neutral s \<longleftrightarrow> sl_fingerprint s = None \<and> sl_setup s = None \<and> sl_ice_ufrag s = None \<and> sl_ice_pwd s = None
     \<and> sl_ice_options s = [] \<and> sl_direction s = None"

lemma seed_neutral: "neutral s \<Longrightarrow> session_seed s (media_base m) = media_base m"
  by (simp add: neutral_def session_seed_def media_base_def media_new_def)

lemma media_feeds:
  assumes "media_wf m" and "b64_ok b64e b64d" and "neutral (ps_session st)"
  shows "feeds b64d (media_lines b64e m) st ((finish_media st) \<lparr> ps_cur := Some m \<rparr>)"
proof -
  let ?st = "(finish_media st) \<lparr> ps_cur := Some (media_base m) \<rparr>"
  have "list_all printable (spaced (show_word (md_port m) # md_protocol m # md_formats m))"
    using assms(1) by (intro spaced_printable) (simp add: media_wf_def)
  then have "feeds b64d [m_line m] st ?st"
    unfolding m_line_tokens using kind_tok [OF assms(1)] parse_media_show [OF assms(1)] seed_neutral [OF assms(3)]
    by (simp, intro feeds_one) (simp_all add: line_simps parse_kv_def)
  moreover have "feeds b64d (media_attr_lines b64e m) ?st ((finish_media st) \<lparr> ps_cur := Some m \<rparr>)"
    using media_attrs_feed [OF assms(1,2)] by (auto simp: attr_feeds_def dest: spec [of _ ?st])
  ultimately show ?thesis using feeds_append [of b64d "[m_line m]"] by (simp add: media_lines_def)
qed

lemma session_finish_media [simp]: "ps_session (finish_media st) = ps_session st"
  by (simp add: finish_media_def split: option.split)

lemma blocks_feed:
  assumes "list_all media_wf ms" and "b64_ok b64e b64d" and "neutral (ps_session st)"
  shows "\<exists>st'. feeds b64d (concat (map (media_lines b64e) ms)) st st'
    \<and> finish_media st' = (finish_media st) \<lparr> ps_media := ps_media (finish_media st) @ ms \<rparr>"
  using assms(1,3)
proof (induction ms arbitrary: st)
  case Nil
  have "finish_media st \<lparr> ps_media := ps_media (finish_media st) \<rparr> = finish_media st" by simp
  then show ?case using feeds_Nil by fastforce
next
  case (Cons m ms)
  let ?st = "(finish_media st) \<lparr> ps_cur := Some m \<rparr>"
  have "feeds b64d (media_lines b64e m) st ?st" using media_feeds assms(2) Cons.prems by simp
  moreover obtain st' where "feeds b64d (concat (map (media_lines b64e) ms)) ?st st'"
      and st': "finish_media st' = (finish_media ?st) \<lparr> ps_media := ps_media (finish_media ?st) @ ms \<rparr>"
    using Cons.IH [of ?st] Cons.prems by auto
  ultimately have "feeds b64d (concat (map (media_lines b64e) (m # ms))) st st'"
    using feeds_append by fastforce
  moreover have "finish_media ?st = (finish_media st) \<lparr> ps_media := ps_media (finish_media st) @ [m] \<rparr>"
    by (cases "ps_cur st") (simp_all add: finish_media_def)
  ultimately show ?case using st' by auto
qed

lemma origin_feeds:
  assumes "tok (or_username o')" and "ip_wf (or_address o')"
  shows "feeds b [origin_line o'] st (st \<lparr> ps_origin := Some o' \<rparr>)"
proof -
  let ?v = "or_username o' @ '' '' @ show_word (or_session_id o') @ '' '' @ show_word (or_session_version o') @ '' ''
    @ net_addr (or_address o')"
  have "parse_origin ?v n = Inr o'" for n
    using assms by (simp add: parse_origin_def split_ws_tok_space net_addr_split)
  then show ?thesis unfolding origin_line_def using assms net_addr_printable [OF assms(2)]
    by (simp, intro feeds_one) (simp_all add: line_simps parse_kv_def)
qed

lemma group_feeds:
  assumes "group_wf g" and "ps_cur st = None"
  shows "feeds b [''a=group:'' @ gr_semantics g @ '' '' @ join '' '' (gr_mids g)] st
    (st \<lparr> ps_session := (ps_session st) \<lparr> sl_groups := sl_groups (ps_session st) @ [g] \<rparr> \<rparr>)"
proof -
  have "split_whitespace (gr_semantics g @ CHR '' '' # join '' '' (gr_mids g)) = gr_semantics g # gr_mids g"
    using assms(1) by (simp add: group_wf_def split_ws_tok_space split_ws_join)
  then show ?thesis using assms
    by (simp, intro feeds_one) (simp_all add: line_simps parse_kv_def apply_session_attribute_def prefix_simps group_wf_def)
qed

lemma groups_feed:
  assumes "list_all group_wf gs" and "ps_cur st = None"
  shows "feeds b (map (\<lambda>g. ''a=group:'' @ gr_semantics g @ '' '' @ join '' '' (gr_mids g)) gs) st
    (st \<lparr> ps_session := (ps_session st) \<lparr> sl_groups := sl_groups (ps_session st) @ gs \<rparr> \<rparr>)"
  using assms
proof (induction gs arbitrary: st)
  case Nil
  then show ?case by (simp add: feeds_Nil)
next
  case (Cons g gs)
  let ?st = "st \<lparr> ps_session := (ps_session st) \<lparr> sl_groups := sl_groups (ps_session st) @ [g] \<rparr> \<rparr>"
  have "feeds b [''a=group:'' @ gr_semantics g @ '' '' @ join '' '' (gr_mids g)] st ?st"
    using group_feeds Cons.prems by simp
  from feeds_append [OF this, of "map (\<lambda>g. ''a=group:'' @ gr_semantics g @ '' '' @ join '' '' (gr_mids g)) gs"]
  show ?case using Cons.IH [of ?st] Cons.prems by simp
qed

definition session_state :: "session_description \<Rightarrow> parse_state" where
  "session_state sd = parse_state_init \<lparr> ps_origin := Some (sd_origin sd), ps_session_name := Some (sd_session_name sd),
     ps_session_connection := sd_connection sd, ps_version_seen := True,
     ps_session := session_level_default \<lparr> sl_groups := sd_groups sd, sl_ice_lite := sd_ice_lite sd \<rparr> \<rparr>"

lemma session_connection_feeds:
  assumes "pred_option ip_wf c" and "ps_cur st = None" and "ps_session_connection st = None"
  shows "feeds b (opt_line connection_line c) st (st \<lparr> ps_session_connection := c \<rparr>)"
proof (cases c)
  case None
  with assms(3) have "st \<lparr> ps_session_connection := c \<rparr> = st" by (cases st) simp
  with None show ?thesis by (simp add: opt_line_def feeds_Nil)
next
  case (Some ip)
  with assms net_addr_printable [of ip] parse_connection_show [of ip] show ?thesis
    by (simp add: opt_line_def connection_line_def, intro feeds_one) (simp_all add: line_simps parse_kv_def)
qed

lemma ice_lite_feeds:
  assumes "ps_cur st = None" and "\<not> sl_ice_lite (ps_session st)"
  shows "feeds b (flag_line ''a=ice-lite'' l) st (st \<lparr> ps_session := (ps_session st) \<lparr> sl_ice_lite := l \<rparr> \<rparr>)"
proof (cases l)
  case True
  with assms show ?thesis
    by (simp add: flag_line_def, intro feeds_one)
       (simp_all add: line_simps parse_kv_def apply_session_attribute_def prefix_simps)
next
  case False
  with assms(2) have "st \<lparr> ps_session := (ps_session st) \<lparr> sl_ice_lite := l \<rparr> \<rparr> = st"
    by (cases st; cases "ps_session st") simp
  with False show ?thesis by (simp add: flag_line_def feeds_Nil)
qed

lemma session_lines_feed:
  assumes "sdp_wf sd"
  shows "feeds b (session_lines sd) parse_state_init (session_state sd)"
proof -
  note wf = assms [unfolded sdp_wf_def]
  let ?s0 = parse_state_init
  let ?s1 = "?s0 \<lparr> ps_version_seen := True \<rparr>"
  let ?s2 = "?s1 \<lparr> ps_origin := Some (sd_origin sd) \<rparr>"
  let ?s3 = "?s2 \<lparr> ps_session_name := Some (sd_session_name sd) \<rparr>"
  let ?s4 = "?s3 \<lparr> ps_session_connection := sd_connection sd \<rparr>"
  let ?s5 = "?s4 \<lparr> ps_session := session_level_default \<lparr> sl_groups := sd_groups sd \<rparr> \<rparr>"
  have "feeds b [''v=0''] ?s0 ?s1" by (intro feeds_one) (simp_all add: line_simps parse_kv_def)
  moreover have "feeds b [origin_line (sd_origin sd)] ?s1 ?s2" using wf by (intro origin_feeds) simp_all
  moreover have "feeds b [''s='' @ sd_session_name sd] ?s2 ?s3"
    using wf by (simp, intro feeds_one) (simp_all add: line_simps parse_kv_def)
  moreover have "feeds b (opt_line connection_line (sd_connection sd)) ?s3 ?s4"
    using wf by (intro session_connection_feeds) (simp_all add: parse_state_init_def)
  moreover have "feeds b [''t=0 0''] ?s4 ?s4" by (intro feeds_one) (simp_all add: line_simps parse_kv_def)
  moreover have "feeds b (map (\<lambda>g. ''a=group:'' @ gr_semantics g @ '' '' @ join '' '' (gr_mids g)) (sd_groups sd)) ?s4 ?s5"
    using wf groups_feed [of "sd_groups sd" ?s4 b] by (simp add: parse_state_init_def session_level_default_def)
  moreover have "feeds b (flag_line ''a=ice-lite'' (sd_ice_lite sd)) ?s5 (session_state sd)"
    using ice_lite_feeds [of ?s5 b "sd_ice_lite sd"]
    by (simp add: parse_state_init_def session_level_default_def session_state_def)
  moreover have "session_lines sd = [''v=0''] @ [origin_line (sd_origin sd)] @ [''s='' @ sd_session_name sd]
      @ opt_line connection_line (sd_connection sd) @ [''t=0 0'']
      @ map (\<lambda>g. ''a=group:'' @ gr_semantics g @ '' '' @ join '' '' (gr_mids g)) (sd_groups sd)
      @ flag_line ''a=ice-lite'' (sd_ice_lite sd)"
    by (simp add: session_lines_def)
  ultimately show ?thesis by (simp only:) (intro feeds_append, assumption+)
qed

lemma split_document:
  assumes "list_all line_ok ls"
  shows "split_pat [CHR 0x0A] (concat (map writeln_crlf ls)) = map (\<lambda>l. l @ [CHR 0x0D]) ls @ [[]]"
  using assms
proof (induction ls)
  case Nil
  show ?case by (simp add: split_pat_none)
next
  case (Cons l ls)
  then have "CHR 0x0A \<notin> set (l @ [CHR 0x0D])"
    using not_printable by (auto simp: line_ok_def list_all_iff)
  then have "split_once [CHR 0x0A] ((l @ [CHR 0x0D]) @ [CHR 0x0A] @ concat (map writeln_crlf ls))
      = Some (l @ [CHR 0x0D], concat (map writeln_crlf ls))"
    by (intro split_once_head_free) simp_all
  then have "split_pat [CHR 0x0A] ((l @ [CHR 0x0D]) @ [CHR 0x0A] @ concat (map writeln_crlf ls))
      = (l @ [CHR 0x0D]) # split_pat [CHR 0x0A] (concat (map writeln_crlf ls))"
    by (intro split_pat_some) simp_all
  moreover have "concat (map writeln_crlf (l # ls)) = (l @ [CHR 0x0D]) @ [CHR 0x0A] @ concat (map writeln_crlf ls)"
    by (simp add: writeln_crlf_def CRLF_def)
  ultimately show ?case using Cons by simp
qed

lemma feeds_document:
  assumes "feeds b ls st0 st"
  shows "parse_lines b n (split_pat [CHR 0x0A] (concat (map writeln_crlf ls))) st0 = Inr st"
  using assms by (simp add: feeds_def split_document parse_lines_append parse_line_def trim_end_char_def)

lemma sdp_text_reads_back:
  assumes "sdp_wf sd" and "b64_ok b64e b64d"
  shows "sdp_parse b64d (sdp_show b64e sd) = Inr sd"
proof -
  let ?ls = "session_lines sd @ concat (map (media_lines b64e) (sd_media sd))"
  have ms: "list_all media_wf (sd_media sd)" using assms(1) by (simp add: sdp_wf_def)
  have neutral: "neutral (ps_session (session_state sd))"
    by (simp add: session_state_def neutral_def session_level_default_def)
  obtain st where "feeds b64d (concat (map (media_lines b64e) (sd_media sd))) (session_state sd) st"
    and st: "finish_media st = (finish_media (session_state sd)) \<lparr> ps_media := ps_media (finish_media (session_state sd)) @ sd_media sd \<rparr>"
    using blocks_feed [OF ms assms(2) neutral] by auto
  then have "feeds b64d ?ls parse_state_init st"
    using feeds_append session_lines_feed [OF assms(1)] by blast
  then have "parse_lines b64d 1 (split_pat [CHR 0x0A] (sdp_show b64e sd)) parse_state_init = Inr st"
    unfolding sdp_show_def by (rule feeds_document)
  moreover have "finish_media st = (session_state sd) \<lparr> ps_media := sd_media sd \<rparr>"
    using st by (simp add: finish_media_def session_state_def parse_state_init_def)
  ultimately show ?thesis
    by (simp add: sdp_parse_def Let_def session_state_def parse_state_init_def session_level_default_def)
qed

text \<open>Property C8.
  Whatever session description the wire form can carry, rendering it and parsing the text gives it
  back, every field of every media block included: nothing is lost, reordered or attributed to
  another block, and no line is mistaken for another kind of line. Two different descriptions never
  have the same text.\<close>

theorem sdp_roundtrip:
  assumes "sdp_wf sd" and "b64_ok b64e b64d"
  shows "sdp_parse b64d (sdp_show b64e sd) = Inr sd
    \<and> (\<forall>sd'. sdp_wf sd' \<and> sdp_show b64e sd' = sdp_show b64e sd \<longrightarrow> sd' = sd)"
  using sdp_text_reads_back [OF _ assms(2)] assms(1) by (metis sum.inject(2))

text \<open>A pair of functions with the assumed behaviour of the Base64 crate, and a description with
  most kinds of line.\<close>

definition demo_b64e :: "octets \<Rightarrow> bytes" where
  "demo_b64e bs = concat (map (\<lambda>b. [char_of (65 + unat b div 16), char_of (65 + unat b mod 16)]) bs)"

fun demo_b64d :: "bytes \<Rightarrow> octets option" where
  "demo_b64d [] = Some []"
| "demo_b64d [c] = None"
| "demo_b64d (a # b # s) = map_option ((#) (of_nat (16 * (code a - 65) + (code b - 65)))) (demo_b64d s)"

lemma demo_b64_ok: "b64_ok demo_b64e demo_b64d"
proof -
  have "demo_b64d (demo_b64e bs) = Some bs \<and> list_all graphic (demo_b64e bs) \<and> CHR ''|'' \<notin> set (demo_b64e bs)" for bs
  proof (induction bs)
    case (Cons b bs)
    have hi: "unat b div 16 < 16" using octet_less [of b] by linarith
    then have "code (char_of (65 + unat b div 16) :: char) = 65 + unat b div 16"
        "code (char_of (65 + unat b mod 16) :: char) = 65 + unat b mod 16" by simp_all
    moreover from this hi have "graphic (char_of (65 + unat b div 16))" "graphic (char_of (65 + unat b mod 16))"
        "char_of (65 + unat b div 16) \<noteq> CHR ''|''" "char_of (65 + unat b mod 16) \<noteq> CHR ''|''"
      by (auto simp: graphic_def dest!: arg_cong [where f = code])
    moreover have "of_nat (16 * (unat b div 16) + unat b mod 16) = b" by (simp only: mult_div_mod_eq) simp
    ultimately show ?case using Cons by (simp add: demo_b64e_def del: of_nat_add of_nat_mult)
  qed (simp add: demo_b64e_def)
  then show ?thesis by (simp add: b64_ok_def)
qed

definition demo_audio :: media_description where
  "demo_audio = (media_new KAudio 4000 ''RTP/SAVP'') \<lparr> md_formats := [''0'', ''101''],
     md_rtpmap := [\<lparr> rm_payload_type = 0, rm_codec = ''PCMU'', rm_clock_rate = 8000, rm_channels = None \<rparr>],
     md_fmtp := [\<lparr> fm_format = ''101'', fm_params = ''0-16, 66'' \<rparr>], md_ptime := Some 20,
     md_crypto := [\<lparr> sc_tag = 1, sc_suite = AesCm128HmacSha1_80, sc_key_material = replicate 30 7 \<rparr>],
     md_setup := Some SetupActPass, md_ice_ufrag := Some ''uf'', md_mid := Some ''0'', md_direction := SendOnly,
     md_candidates := [\<lparr> ic_foundation = ''f1'', ic_component = 1, ic_transport = ''UDP'', ic_priority = 99,
       ic_address = [192, 168, 1, 2], ic_port = 5000, ic_candidate_type = ''srflx'',
       ic_related_address = Some [10, 0, 0, 1], ic_related_port = Some 4000, ic_raw_params = [(''generation'', ''0'')] \<rparr>] \<rparr>"

definition demo_image :: media_description where
  "demo_image = (media_new KImage 6250 ''udptl'') \<lparr> md_formats := [''t38''], md_t38 := Some sensible_offer \<rparr>"

definition demo_sdp :: session_description where
  "demo_sdp = \<lparr> sd_origin = \<lparr> or_username = ''-'', or_session_id = 42, or_session_version = 7, or_address = [10, 0, 0, 1] \<rparr>,
     sd_session_name = ''a call'', sd_connection = Some [0x20, 1, 0xd, 0xb8, 0, 0, 0, 0, 0, 0, 0, 0, 0, 0, 0, 1],
     sd_groups = [\<lparr> gr_semantics = ''BUNDLE'', gr_mids = [''0'', ''1''] \<rparr>], sd_ice_lite = True,
     sd_media = [demo_audio, demo_image] \<rparr>"

lemma demo_audio_wf: "media_wf demo_audio"
  by (simp add: demo_audio_def media_wf_def kind_wf_def sdp_kind_as_str_def sdp_kind_parse_def rtpmap_wf_def
      fmtp_wf_def crypto_wf_def key_material_len_def suite_key_len_def suite_salt_len_def candidate_wf_def pair_wf_def
      tok_def graphic_def printable_def trimmed_def ip_wf_def media_new_def)

lemma demo_image_wf: "media_wf demo_image"
  by (simp add: demo_image_def media_wf_def kind_wf_def sdp_kind_as_str_def sdp_kind_parse_def
      t38_wf_def sensible_offer_def t38_default_def tok_def graphic_def printable_def trimmed_def media_new_def)

lemma demo_sdp_wf: "sdp_wf demo_sdp"
  by (simp add: sdp_wf_def demo_sdp_def demo_audio_wf demo_image_wf group_wf_def tok_def graphic_def printable_def ip_wf_def)

theorem sdp_roundtrip_witness:
  "sdp_wf demo_sdp \<and> sdp_parse demo_b64d (sdp_show demo_b64e demo_sdp) = Inr demo_sdp"
  using sdp_roundtrip [OF demo_sdp_wf demo_b64_ok] demo_sdp_wf by (simp only:)

text \<open>Trickled candidates use the candidate line alone.\<close>

lemma strip_prefix_append [simp]: "strip_prefix (p @ r) p = Some r"
  by (simp add: prefix_simps)

lemma last_spaced: "list_all tok ts \<Longrightarrow> ts \<noteq> [] \<Longrightarrow> graphic (last (spaced ts))"
  by (induction ts rule: rev_induct) (auto simp: spaced_def tok_def list_all_iff)

interpretation trickle: wire_codec "\<lambda>c. octets_of (candidate_show c)" "\<lambda>bs. parse_candidate_line (chars bs)" candidate_wf
proof
  fix c assume c: "candidate_wf c"
  let ?inner = "ic_foundation c @ spaced (candidate_tokens c)"
  have ts: "list_all tok (candidate_tokens c)" "candidate_tokens c \<noteq> []"
    using candidate_tokens_ok [OF c] by (simp_all add: candidate_tokens_def)
  have ne: "spaced (candidate_tokens c) \<noteq> []" by (simp add: candidate_tokens_def spaced_def)
  have "trimmed (''candidate:'' @ ?inner)"
    using c last_spaced [OF ts] spaced_printable [OF ts(1)] ne
    by (simp add: trimmed_def candidate_wf_def) (simp add: graphic_def printable_def)
  then have "trim (candidate_show c) = ''candidate:'' @ ?inner" by (simp add: candidate_show_tokens)
  moreover have "strip_prefix (''candidate:'' @ ?inner) ''a=candidate:'' = None" by (simp add: prefix_simps)
  ultimately show "parse_candidate_line (chars (octets_of (candidate_show c))) = Inr c"
    using parse_candidate_tokens [OF c]
    by (simp add: parse_candidate_line_def Let_def del: append_Cons)
qed

end
