(* ===== verification/Sdp_Negotiate.thy ===== *)
theory Sdp_Negotiate
  imports Sdp_Roundtrip
begin

text \<open>
  Offer/answer (\<^verbatim>\<open>smiths-sdp/src/negotiate.rs\<close>, the trait types of
  \<^verbatim>\<open>smiths-core/src/sdp.rs\<close>) and the privacy filters
  (\<^verbatim>\<open>smiths-sdp/src/privacy.rs\<close>). Random draws and the wall clock are arguments; the
  process-wide version counter \<^verbatim>\<open>ORIGIN_VERSION\<close> is passed in and returned; the
  certificate is its fingerprint; the metrics counters are left out.
\<close>

section \<open>Types of the trait seam\<close>

datatype dtls_role = DtlsClient | DtlsServer

record dtls_params =
  dp_peer_fingerprint_algorithm :: bytes
  dp_peer_fingerprint_value :: bytes
  dp_local_role :: dtls_role

definition as_setup_str :: "dtls_role \<Rightarrow> bytes" where
  "as_setup_str r = (case r of DtlsClient \<Rightarrow> ''active'' | DtlsServer \<Rightarrow> ''passive'')"

record srtp_keys =
  sk_suite :: srtp_suite
  sk_peer_tx_key :: octets
  sk_local_tx_key :: octets

datatype negotiation_result =
  Answer (ans_sdp: session_description) (ans_srtp: "srtp_keys option") (ans_dtls: "dtls_params option") (ans_ice: "ice_params option")
| Mismatch
| UnsupportedTransport bytes

record accepted =
  ac_answer_body :: bytes
  ac_remote_media :: "socket_addr option"
  ac_remote_rtcp_port :: "u16 option"
  ac_rtcp_mux :: bool
  ac_video_media :: "socket_addr option"
  ac_srtp :: "srtp_keys option"
  ac_dtls :: "dtls_params option"
  ac_audio_codec :: "negotiated_codec option"
  ac_audio_clock_rate :: "u32 option"
  ac_video_codec :: "negotiated_codec option"
  ac_ice :: "ice_params option"

datatype negotiation_outcome =
  Accepted accepted
| OutcomeMismatch
| OutcomeUnsupportedTransport bytes
| OutcomeMalformed parse_error

section \<open>The negotiator\<close>

record negotiator =
  ng_local_ip :: octets
  ng_supported :: "rtp_map list"
  ng_supported_video :: "rtp_map list"
  ng_dtls_cert :: "bytes option"
  ng_ice_enabled :: bool
  ng_ice_tie_breaker :: u64

definition rtpm :: "u8 \<Rightarrow> bytes \<Rightarrow> u32 \<Rightarrow> u8 option \<Rightarrow> rtp_map" where
  "rtpm pt codec clock ch = \<lparr> rm_payload_type = pt, rm_codec = codec, rm_clock_rate = clock, rm_channels = ch \<rparr>"

definition with_default_codecs :: "octets \<Rightarrow> u64 \<Rightarrow> negotiator" where
  "with_default_codecs local_ip tie_breaker =
     \<lparr> ng_local_ip = local_ip,
       ng_supported = [rtpm 0 ''PCMU'' 8000 None, rtpm 8 ''PCMA'' 8000 None, rtpm 111 ''opus'' 48000 (Some 2)],
       ng_supported_video = [rtpm 96 ''H264'' 90000 None, rtpm 97 ''VP8'' 90000 None, rtpm 98 ''VP9'' 90000 None],
       ng_dtls_cert = None, ng_ice_enabled = False, ng_ice_tie_breaker = tie_breaker \<rparr>"

definition with_ice_enabled :: "bool \<Rightarrow> negotiator \<Rightarrow> negotiator" where
  "with_ice_enabled enabled ng = ng \<lparr> ng_ice_enabled := enabled \<rparr>"

definition with_dtls_cert :: "bytes \<Rightarrow> negotiator \<Rightarrow> negotiator" where
  "with_dtls_cert cert ng = ng \<lparr> ng_dtls_cert := Some cert \<rparr>"

text \<open>What the random generator delivers to one answer: indices into the ICE alphabet, and octets.\<close>

definition ICE_CHARS :: bytes where
  "ICE_CHARS = ''ABCDEFGHIJKLMNOPQRSTUVWXYZabcdefghijklmnopqrstuvwxyz0123456789+/''"

record entropy =
  en_ufrag :: "nat list"
  en_pwd :: "nat list"
  en_key :: octets

definition entropy_ok :: "entropy \<Rightarrow> bool" where
  "entropy_ok e \<longleftrightarrow> length (en_ufrag e) = 8 \<and> length (en_pwd e) = 24 \<and> list_all (\<lambda>i. i < 64) (en_ufrag e @ en_pwd e)
     \<and> length (en_key e) = 30"

definition random_ice_token :: "nat list \<Rightarrow> bytes" where
  "random_ice_token draws = map (\<lambda>i. ICE_CHARS ! i) draws"

definition fresh_ice_ufrag :: "entropy \<Rightarrow> bytes" where
  "fresh_ice_ufrag e = random_ice_token (en_ufrag e)"

definition fresh_ice_pwd :: "entropy \<Rightarrow> bytes" where
  "fresh_ice_pwd e = random_ice_token (en_pwd e)"

definition fresh_sdes_key :: "entropy \<Rightarrow> srtp_suite \<Rightarrow> octets" where
  "fresh_sdes_key e suite = en_key e"

definition sdp_host_candidate :: "octets \<Rightarrow> u16 \<Rightarrow> ice_candidate" where
  "sdp_host_candidate ip port =
     (let type_pref = 126 :: u32; local_pref = (if length ip = 16 then 65535 else 65534) :: u32
      in \<lparr> ic_foundation = ''host0'', ic_component = 1, ic_transport = ''UDP'',
           ic_priority = push_bit 24 type_pref + push_bit 8 local_pref + 255, ic_address = ip, ic_port = port,
           ic_candidate_type = ''host'', ic_related_address = None, ic_related_port = None, ic_raw_params = [] \<rparr>)"

text \<open>\<^verbatim>\<open>next_origin_version\<close>: the stored counter and the returned version are the
  same value.\<close>

definition next_origin_version :: "u64 \<Rightarrow> u64 \<Rightarrow> u64 \<times> u64" where
  "next_origin_version now prev = (let v = max (saturating_add prev 1) now in (v, v))"

definition to_ascii_upper :: "char \<Rightarrow> char" where
  "to_ascii_upper c = (if 97 \<le> code c \<and> code c \<le> 122 then char_of (code c - 32) else c)"

definition is_dtls_srtp_profile :: "bytes \<Rightarrow> bool" where
  "is_dtls_srtp_profile protocol =
     (let upper = map to_ascii_upper protocol in upper = ''UDP/TLS/RTP/SAVP'' \<or> upper = ''UDP/TLS/RTP/SAVPF'')"

definition find_kind :: "sdp_media_kind \<Rightarrow> session_description \<Rightarrow> media_description option" where
  "find_kind k sd = List.find (\<lambda>m. md_kind m = k) (sd_media sd)"

definition choose_codec :: "media_description \<Rightarrow> rtp_map list \<Rightarrow> rtp_map option" where
  "choose_codec offer supported =
     find_map (\<lambda>pt. case rtpmap_for offer pt of
         Some r \<Rightarrow> map_option (\<lambda>_. r)
           (List.find (\<lambda>s. eq_ignore_ascii_case (rm_codec s) (rm_codec r) \<and> rm_clock_rate s = rm_clock_rate r) supported)
       | None \<Rightarrow> List.find (\<lambda>s. rm_payload_type s = pt) supported) (payload_types offer)"

definition telephone_event_for :: "media_description \<Rightarrow> rtp_map \<Rightarrow> rtp_map option" where
  "telephone_event_for offer chosen =
     (let offered = (\<lambda>r. is_telephone_event r \<and> has_format offer (show_word (rm_payload_type r)))
      in case List.find (\<lambda>r. rm_clock_rate r = rm_clock_rate chosen) (filter offered (md_rtpmap offer)) of
           Some r \<Rightarrow> Some r
         | None \<Rightarrow> List.find offered (md_rtpmap offer))"

definition echo_media_attributes :: "media_description \<Rightarrow> u8 list \<Rightarrow> media_description \<Rightarrow> media_description" where
  "echo_media_attributes offer accepted_pts ans = ans \<lparr>
     md_mid := md_mid offer,
     md_extmap := map (\<lambda>e. e \<lparr> em_direction := map_option direction_reverse (em_direction e) \<rparr>) (md_extmap offer),
     md_rtcp_mux := md_rtcp_mux offer, md_ptime := md_ptime offer, md_maxptime := md_maxptime offer,
     md_fmtp := List.map_filter (fmtp_for offer) accepted_pts,
     md_rtcp_fb := filter (\<lambda>fb. list_ex (applies_to fb) accepted_pts) (md_rtcp_fb offer) \<rparr>"

definition rejected_stream :: "media_description \<Rightarrow> media_description" where
  "rejected_stream offer = (media_new (md_kind offer) 0 (md_protocol offer)) \<lparr>
     md_formats := md_formats offer, md_mid := md_mid offer, md_direction := Inactive \<rparr>"

text \<open>The \<^verbatim>\<open>filter_map\<close> of \<^verbatim>\<open>bundle_groups\<close> with its captured anchor
  port.\<close>

fun bundle_members :: "bytes list \<Rightarrow> u16 option \<Rightarrow> media_description list \<Rightarrow> bytes list" where
  "bundle_members offered anchor [] = []"
| "bundle_members offered anchor (m # ms) =
     (if md_port m = 0 then bundle_members offered anchor ms
      else case md_mid m of
        None \<Rightarrow> bundle_members offered anchor ms
      | Some mid \<Rightarrow>
          if mid \<notin> set offered then bundle_members offered anchor ms
          else (case anchor of
                  None \<Rightarrow> mid # bundle_members offered (Some (md_port m)) ms
                | Some p \<Rightarrow> if p = md_port m then mid # bundle_members offered anchor ms
                    else bundle_members offered anchor ms))"

definition bundle_groups :: "session_description \<Rightarrow> media_description list \<Rightarrow> sdp_group list" where
  "bundle_groups offer answer_media =
     (let offered = bundle_mids offer; mids = bundle_members offered None answer_media
      in if offered = [] \<or> mids = [] then [] else [\<lparr> gr_semantics = ''BUNDLE'', gr_mids = mids \<rparr>])"

definition ng_session :: "negotiator \<Rightarrow> u64 \<Rightarrow> session_description \<Rightarrow> media_description list \<Rightarrow> session_description" where
  "ng_session ng version offer media =
     \<lparr> sd_origin = \<lparr> or_username = ''smiths'', or_session_id = version, or_session_version = version, or_address = ng_local_ip ng \<rparr>,
       sd_session_name = ''smiths-net'', sd_connection = Some (ng_local_ip ng), sd_groups = bundle_groups offer media,
       sd_ice_lite = False, sd_media = media \<rparr>"

section \<open>The answer\<close>

text \<open>The values the transport-profile branches of \<^verbatim>\<open>answer\<close> assign.\<close>

record transport_part =
  tp_crypto :: "sdes_crypto list"
  tp_srtp :: "srtp_keys option"
  tp_fingerprint :: "fingerprint option"
  tp_setup :: "dtls_setup option"
  tp_dtls :: "dtls_params option"
  tp_ice_ufrag :: "bytes option"
  tp_ice_pwd :: "bytes option"
  tp_ice :: "ice_params option"
  tp_ice_options :: "bytes list"
  tp_candidates :: "ice_candidate list"
  tp_end_of_candidates :: bool

definition tp_empty :: transport_part where
  "tp_empty = \<lparr> tp_crypto = [], tp_srtp = None, tp_fingerprint = None, tp_setup = None, tp_dtls = None,
     tp_ice_ufrag = None, tp_ice_pwd = None, tp_ice = None, tp_ice_options = [], tp_candidates = [],
     tp_end_of_candidates = False \<rparr>"

definition ice_part :: "negotiator \<Rightarrow> entropy \<Rightarrow> session_description \<Rightarrow> media_description \<Rightarrow> u16 \<Rightarrow> transport_part \<Rightarrow> transport_part" where
  "ice_part ng e offer audio local_port tp =
     (let local_ufrag = fresh_ice_ufrag e; local_pwd = fresh_ice_pwd e;
          remote_is_lite = (sd_ice_lite offer \<or> list_ex (\<lambda>o'. eq_ignore_ascii_case o' ''ice-lite'') (md_ice_options audio))
      in tp \<lparr> tp_ice_ufrag := Some local_ufrag, tp_ice_pwd := Some local_pwd, tp_ice_options := [''trickle''],
              tp_candidates := [sdp_host_candidate (ng_local_ip ng) local_port], tp_end_of_candidates := True,
              tp_ice := (case (md_ice_ufrag audio, md_ice_pwd audio) of
                  (Some remote_ufrag, Some remote_pwd) \<Rightarrow>
                    Some \<lparr> ip_local_ufrag = local_ufrag, ip_local_pwd = local_pwd, ip_remote_ufrag = remote_ufrag,
                           ip_remote_pwd = remote_pwd, ip_role = (if remote_is_lite then Controlling else Controlled),
                           ip_tie_breaker = ng_ice_tie_breaker ng \<rparr>
                | _ \<Rightarrow> None) \<rparr>)"

definition dtls_part :: "negotiator \<Rightarrow> entropy \<Rightarrow> session_description \<Rightarrow> media_description \<Rightarrow> u16 \<Rightarrow> bytes \<Rightarrow> fingerprint \<Rightarrow> transport_part" where
  "dtls_part ng e offer audio local_port cert peer_fp =
     (let offer_setup = (case md_setup audio of Some s \<Rightarrow> s | None \<Rightarrow> SetupActPass);
          local_setup = setup_reverse offer_setup;
          role = (if local_setup = SetupPassive then DtlsServer else DtlsClient);
          tp = tp_empty \<lparr> tp_fingerprint := Some \<lparr> fp_algorithm = ''sha-256'', fp_value = cert \<rparr>, tp_setup := Some local_setup,
                 tp_dtls := Some \<lparr> dp_peer_fingerprint_algorithm = fp_algorithm peer_fp,
                   dp_peer_fingerprint_value = fp_value peer_fp, dp_local_role = role \<rparr> \<rparr>
      in if ng_ice_enabled ng then ice_part ng e offer audio local_port tp else tp)"

definition sdes_part :: "entropy \<Rightarrow> sdes_crypto \<Rightarrow> transport_part" where
  "sdes_part e offer_crypto =
     (let suite = sc_suite offer_crypto; local_km = fresh_sdes_key e suite
      in tp_empty \<lparr> tp_crypto := [\<lparr> sc_tag = sc_tag offer_crypto, sc_suite = suite, sc_key_material = local_km \<rparr>],
           tp_srtp := Some \<lparr> sk_suite = suite, sk_peer_tx_key = sc_key_material offer_crypto, sk_local_tx_key = local_km \<rparr> \<rparr>)"

text \<open>The branching itself; a failing branch is the result of the whole answer.\<close>

definition transport_branch :: "negotiator \<Rightarrow> entropy \<Rightarrow> session_description \<Rightarrow> media_description \<Rightarrow> u16 \<Rightarrow> negotiation_result + transport_part" where
  "transport_branch ng e offer audio local_port =
     (if is_dtls_srtp_profile (md_protocol audio) then
        (case ng_dtls_cert ng of
           None \<Rightarrow> Inl (UnsupportedTransport ''DTLS-SRTP transport offered but engine has no cert configured'')
         | Some cert \<Rightarrow>
             (case md_fingerprint audio of
                None \<Rightarrow> Inl (UnsupportedTransport ''DTLS-SRTP offer missing a=fingerprint'')
              | Some peer_fp \<Rightarrow> Inr (dtls_part ng e offer audio local_port cert peer_fp)))
      else if eq_ignore_ascii_case (md_protocol audio) ''RTP/SAVP'' then
        (case md_crypto audio of [] \<Rightarrow> Inl Mismatch | offer_crypto # _ \<Rightarrow> Inr (sdes_part e offer_crypto))
      else Inr tp_empty)"

definition answer_media :: "media_description \<Rightarrow> rtp_map \<Rightarrow> rtp_map option \<Rightarrow> transport_part \<Rightarrow> u16 \<Rightarrow> media_description" where
  "answer_media audio chosen dtmf tp local_port =
     (let maps = chosen # (case dtmf of Some ev \<Rightarrow> [ev] | None \<Rightarrow> []);
          accepted_pts = map rm_payload_type maps
      in echo_media_attributes audio accepted_pts
           ((media_new KAudio local_port (md_protocol audio)) \<lparr> md_formats := map show_word accepted_pts, md_rtpmap := maps,
              md_crypto := tp_crypto tp, md_direction := direction_reverse (md_direction audio),
              md_fingerprint := tp_fingerprint tp, md_setup := tp_setup tp, md_ice_ufrag := tp_ice_ufrag tp,
              md_ice_pwd := tp_ice_pwd tp, md_ice_options := tp_ice_options tp, md_candidates := tp_candidates tp,
              md_end_of_candidates := tp_end_of_candidates tp \<rparr>))"

definition ng_answer :: "negotiator \<Rightarrow> entropy \<Rightarrow> u64 \<Rightarrow> session_description \<Rightarrow> u16 \<Rightarrow> u64 \<Rightarrow> u64 \<times> negotiation_result" where
  "ng_answer ng e now offer local_port prev =
     (case find_kind KAudio offer of
        None \<Rightarrow> (prev, Mismatch)
      | Some audio \<Rightarrow>
          if md_port audio = 0 then
            (let (prev', version) = next_origin_version now prev
             in (prev', Answer (ng_session ng version offer [rejected_stream audio]) None None None))
          else case choose_codec audio (ng_supported ng) of
            None \<Rightarrow> (prev, Mismatch)
          | Some chosen \<Rightarrow>
              (case transport_branch ng e offer audio local_port of
                 Inl r \<Rightarrow> (prev, r)
               | Inr tp \<Rightarrow>
                   (let m = answer_media audio chosen (telephone_event_for audio chosen) tp local_port;
                        (prev', version) = next_origin_version now prev
                    in (prev', Answer (ng_session ng version offer [m]) (tp_srtp tp) (tp_dtls tp) (tp_ice tp)))))"

definition video_media :: "negotiator \<Rightarrow> media_description \<Rightarrow> media_description \<Rightarrow> u16 \<Rightarrow> rtp_map \<Rightarrow> media_description" where
  "video_media ng offer_video audio_answer port chosen =
     (let m = (echo_media_attributes offer_video [rm_payload_type chosen]
                 ((media_new KVideo port (md_protocol offer_video)) \<lparr> md_formats := [show_word (rm_payload_type chosen)],
                    md_direction := direction_reverse (md_direction offer_video) \<rparr>))
              \<lparr> md_rtpmap := [chosen], md_fingerprint := md_fingerprint audio_answer, md_setup := md_setup audio_answer,
                md_ice_ufrag := md_ice_ufrag audio_answer, md_ice_pwd := md_ice_pwd audio_answer,
                md_ice_options := md_ice_options audio_answer \<rparr>
      in if md_candidates audio_answer = [] then m
         else m \<lparr> md_candidates := [sdp_host_candidate (ng_local_ip ng) port], md_end_of_candidates := True \<rparr>)"

definition answer_with_video :: "negotiator \<Rightarrow> entropy \<Rightarrow> u64 \<Rightarrow> session_description \<Rightarrow> u16 \<Rightarrow> u16 option \<Rightarrow> u64 \<Rightarrow> u64 \<times> negotiation_result" where
  "answer_with_video ng e now offer local_audio_port local_video_port prev =
     (let (prev', audio_result) = ng_answer ng e now offer local_audio_port prev
      in case audio_result of
           Answer sdp srtp dtls ice \<Rightarrow>
             (case find_kind KVideo offer of
                None \<Rightarrow> (prev', audio_result)
              | Some offer_video \<Rightarrow>
                  (let chosen_video = (if md_port offer_video = 0 then None else choose_codec offer_video (ng_supported_video ng));
                       video_answer = (case (local_video_port, chosen_video) of
                           (Some port, Some chosen) \<Rightarrow> video_media ng offer_video (sd_media sdp ! 0) port chosen
                         | _ \<Rightarrow> rejected_stream offer_video);
                       media = sd_media sdp @ [video_answer]
                   in (prev', Answer (sdp \<lparr> sd_media := media, sd_groups := bundle_groups offer media \<rparr>) srtp dtls ice)))
         | _ \<Rightarrow> (prev', audio_result))"

section \<open>The trait implementation\<close>

definition media_endpoint :: "sdp_media_kind \<Rightarrow> session_description \<Rightarrow> socket_addr option" where
  "media_endpoint k sd =
     (case find_kind k sd of
        None \<Rightarrow> None
      | Some m \<Rightarrow>
          if md_port m = 0 then None
          else case (case md_connection m of Some c \<Rightarrow> Some c | None \<Rightarrow> sd_connection sd) of
            None \<Rightarrow> None
          | Some ip \<Rightarrow> Some \<lparr> sa_ip = ip, sa_port = md_port m \<rparr>)"

definition first_codec_of_kind :: "session_description \<Rightarrow> sdp_media_kind \<Rightarrow> negotiated_codec option" where
  "first_codec_of_kind sd k =
     (case find_kind k sd of
        None \<Rightarrow> None
      | Some m \<Rightarrow> if md_port m = 0 then None
          else case md_rtpmap m of [] \<Rightarrow> None | r # _ \<Rightarrow> Some (codec_parse (rm_codec r)))"

definition accepted_outcome :: "(octets \<Rightarrow> bytes) \<Rightarrow> session_description \<Rightarrow> session_description \<Rightarrow> srtp_keys option \<Rightarrow> dtls_params option \<Rightarrow> ice_params option \<Rightarrow> bool \<Rightarrow> accepted" where
  "accepted_outcome b64e offer ans srtp dtls ice include_video =
     \<lparr> ac_answer_body = sdp_show b64e ans,
       ac_remote_media = media_endpoint KAudio offer,
       ac_remote_rtcp_port = (if media_endpoint KAudio offer = None then None else Option.bind (find_kind KAudio offer) rtcp_port),
       ac_rtcp_mux = (case find_kind KAudio ans of Some m \<Rightarrow> md_rtcp_mux m | None \<Rightarrow> False),
       ac_video_media = (if include_video then media_endpoint KVideo offer else None),
       ac_srtp = srtp, ac_dtls = dtls,
       ac_audio_codec = first_codec_of_kind ans KAudio,
       ac_audio_clock_rate = (case find_kind KAudio ans of
           Some m \<Rightarrow> if md_port m = 0 then None else (case md_rtpmap m of [] \<Rightarrow> None | r # _ \<Rightarrow> Some (rm_clock_rate r))
         | None \<Rightarrow> None),
       ac_video_codec = (if include_video then first_codec_of_kind ans KVideo else None),
       ac_ice = ice \<rparr>"

definition outcome_of :: "(octets \<Rightarrow> bytes) \<Rightarrow> session_description \<Rightarrow> bool \<Rightarrow> negotiation_result \<Rightarrow> negotiation_outcome" where
  "outcome_of b64e offer include_video r =
     (case r of
        Answer sdp srtp dtls ice \<Rightarrow> Accepted (accepted_outcome b64e offer sdp srtp dtls ice include_video)
      | Mismatch \<Rightarrow> OutcomeMismatch
      | UnsupportedTransport reason \<Rightarrow> OutcomeUnsupportedTransport reason)"

definition negotiate_audio :: "(octets \<Rightarrow> bytes) \<Rightarrow> (bytes \<Rightarrow> octets option) \<Rightarrow> negotiator \<Rightarrow> entropy \<Rightarrow> u64 \<Rightarrow> bytes \<Rightarrow> octets \<Rightarrow> u16 \<Rightarrow> u64 \<Rightarrow> u64 \<times> negotiation_outcome" where
  "negotiate_audio b64e b64d ng e now offer_body local_ip local_rtp_port prev =
     (case sdp_parse b64d offer_body of
        Inl err \<Rightarrow> (prev, OutcomeMalformed err)
      | Inr offer \<Rightarrow>
          (let (prev', r) = ng_answer (ng \<lparr> ng_local_ip := local_ip \<rparr>) e now offer local_rtp_port prev
           in (prev', outcome_of b64e offer False r)))"

definition negotiate :: "(octets \<Rightarrow> bytes) \<Rightarrow> (bytes \<Rightarrow> octets option) \<Rightarrow> negotiator \<Rightarrow> entropy \<Rightarrow> u64 \<Rightarrow> bytes \<Rightarrow> octets \<Rightarrow> u16 \<Rightarrow> u16 option \<Rightarrow> u64 \<Rightarrow> u64 \<times> negotiation_outcome" where
  "negotiate b64e b64d ng e now offer_body local_ip local_audio_port local_video_port prev =
     (case sdp_parse b64d offer_body of
        Inl err \<Rightarrow> (prev, OutcomeMalformed err)
      | Inr offer \<Rightarrow>
          (let (prev', r) = answer_with_video (ng \<lparr> ng_local_ip := local_ip \<rparr>) e now offer local_audio_port local_video_port prev
           in (prev', outcome_of b64e offer True r)))"

definition offer_sdp :: "negotiator \<Rightarrow> u64 \<Rightarrow> octets \<Rightarrow> u16 \<Rightarrow> session_description" where
  "offer_sdp ng version local_ip local_rtp_port =
     \<lparr> sd_origin = \<lparr> or_username = ''smiths'', or_session_id = version, or_session_version = version, or_address = local_ip \<rparr>,
       sd_session_name = ''smiths-net'', sd_connection = Some local_ip, sd_groups = [], sd_ice_lite = False,
       sd_media = [(media_new KAudio local_rtp_port ''RTP/AVP'') \<lparr>
         md_formats := map (\<lambda>c. show_word (rm_payload_type c)) (ng_supported ng), md_rtpmap := ng_supported ng \<rparr>] \<rparr>"

definition build_offer :: "(octets \<Rightarrow> bytes) \<Rightarrow> negotiator \<Rightarrow> u64 \<Rightarrow> octets \<Rightarrow> u16 \<Rightarrow> u64 \<Rightarrow> u64 \<times> bytes" where
  "build_offer b64e ng now local_ip local_rtp_port prev =
     (let (prev', version) = next_origin_version now prev
      in (prev', sdp_show b64e (offer_sdp ng version local_ip local_rtp_port)))"

definition parse_remote_rtp :: "(bytes \<Rightarrow> octets option) \<Rightarrow> bytes \<Rightarrow> socket_addr option" where
  "parse_remote_rtp b64d answer_body =
     (case sdp_parse b64d answer_body of Inl _ \<Rightarrow> None | Inr sd \<Rightarrow> media_endpoint KAudio sd)"

section \<open>Privacy\<close>

datatype offer_privacy_verdict = Clean | Rejected

definition DIRECTLY_REACHABLE_TYPES :: "bytes list" where
  "DIRECTLY_REACHABLE_TYPES = [''host'', ''srflx'']"

definition reject_direct_candidates :: "session_description \<Rightarrow> offer_privacy_verdict" where
  "reject_direct_candidates sd =
     (if list_ex (\<lambda>m. list_ex (\<lambda>c. ic_candidate_type c \<in> set DIRECTLY_REACHABLE_TYPES) (md_candidates m)) (sd_media sd)
      then Rejected else Clean)"

definition strip_host_candidates_on :: "media_description \<Rightarrow> media_description \<times> nat" where
  "strip_host_candidates_on m =
     (let kept = filter (\<lambda>c. ic_candidate_type c \<noteq> ''host'') (md_candidates m)
      in (m \<lparr> md_candidates := kept \<rparr>, length (md_candidates m) - length kept))"

definition strip_host_candidates :: "session_description \<Rightarrow> session_description \<times> nat" where
  "strip_host_candidates sd =
     (let rs = map strip_host_candidates_on (sd_media sd)
      in (sd \<lparr> sd_media := map fst rs \<rparr>, sum_list (map snd rs)))"

definition hex_nibble :: "u8 \<Rightarrow> char" where
  "hex_nibble n = (if n \<le> 9 then char_of (unat (48 + n)) else char_of (unat (97 + n - 10)))"

text \<open>\<^verbatim>\<open>redact_ip\<close>; SHA-256 is the parameter.\<close>

definition redact_ip :: "(octets \<Rightarrow> octets) \<Rightarrow> octets \<Rightarrow> octets \<Rightarrow> bytes" where
  "redact_ip sha256 ip key =
     concat (map (\<lambda>b. [hex_nibble (drop_bit 4 b AND 0xF), hex_nibble (b AND 0xF)])
       (take 8 (sha256 (key @ octets_of (ip_show ip)))))"

end
