(* ===== verification/Sdp_Answers.thy ===== *)
theory Sdp_Answers
  imports Sdp_Negotiate
begin

text \<open>
  What the negotiator's answers guarantee: they agree with the offer, their keying follows the
  transport profile, their text parses back to them, versions grow, and two engines agree with each
  other. Three theorems show offers whose answers are not what the comments of the code promise.
\<close>

section \<open>Codec choice\<close>

definition acceptable :: "rtp_map list \<Rightarrow> media_description \<Rightarrow> u8 \<Rightarrow> bool" where
  "acceptable supported offer pt \<longleftrightarrow>
     (case rtpmap_for offer pt of
        Some r \<Rightarrow> (\<exists>s \<in> set supported. eq_ignore_ascii_case (rm_codec s) (rm_codec r) \<and> rm_clock_rate s = rm_clock_rate r)
      | None \<Rightarrow> (\<exists>s \<in> set supported. rm_payload_type s = pt))"

lemma find_map_Some_split:
  "find_map f xs = Some y \<Longrightarrow> \<exists>as x bs. xs = as @ x # bs \<and> f x = Some y \<and> (\<forall>a \<in> set as. f a = None)"
proof (induction xs)
  case (Cons x xs)
  show ?case
  proof (cases "f x")
    case None
    with Cons obtain as z bs where "xs = as @ z # bs" "f z = Some y" "\<forall>a \<in> set as. f a = None" by auto
    with None show ?thesis by (intro exI [of _ "x # as"]) auto
  next
    case (Some a)
    with Cons.prems show ?thesis by (intro exI [of _ "[]"]) auto
  qed
qed simp

lemma choose_codec_spec:
  assumes "choose_codec offer supported = Some r"
  shows "\<exists>as bs. payload_types offer = as @ rm_payload_type r # bs \<and> acceptable supported offer (rm_payload_type r)
     \<and> (\<forall>pt \<in> set as. \<not> acceptable supported offer pt)
     \<and> (\<exists>s \<in> set supported. eq_ignore_ascii_case (rm_codec s) (rm_codec r) \<and> rm_clock_rate s = rm_clock_rate r)"
proof -
  let ?f = "\<lambda>pt. case rtpmap_for offer pt of
         Some r \<Rightarrow> map_option (\<lambda>_. r)
           (List.find (\<lambda>s. eq_ignore_ascii_case (rm_codec s) (rm_codec r) \<and> rm_clock_rate s = rm_clock_rate r) supported)
       | None \<Rightarrow> List.find (\<lambda>s. rm_payload_type s = pt) supported"
  obtain as pt bs where split: "payload_types offer = as @ pt # bs" and pt: "?f pt = Some r" and as: "\<forall>a \<in> set as. ?f a = None"
    using find_map_Some_split [OF assms [unfolded choose_codec_def]] by auto
  have none: "\<not> acceptable supported offer a" if "?f a = None" for a
    using that by (auto simp: acceptable_def find_None_iff split: option.splits)
  have refl: "eq_ignore_ascii_case s s" for s by (simp add: eq_ignore_ascii_case_def)
  have "rm_payload_type r = pt \<and> acceptable supported offer pt
      \<and> (\<exists>s \<in> set supported. eq_ignore_ascii_case (rm_codec s) (rm_codec r) \<and> rm_clock_rate s = rm_clock_rate r)"
  proof (cases "rtpmap_for offer pt")
    case None
    with pt have "r \<in> set supported \<and> rm_payload_type r = pt" by (auto dest: find_SomeD)
    with None refl show ?thesis by (auto simp: acceptable_def)
  next
    case (Some q)
    then have "rm_payload_type q = pt" unfolding rtpmap_for_def by (auto dest: find_SomeD)
    moreover from Some pt have "q = r" by auto
    moreover from Some pt have "\<exists>s \<in> set supported. eq_ignore_ascii_case (rm_codec s) (rm_codec q) \<and> rm_clock_rate s = rm_clock_rate q"
      by (auto dest: find_SomeD)
    ultimately show ?thesis using Some by (auto simp: acceptable_def)
  qed
  with split as none show ?thesis by auto
qed

lemma lower_digits:
  assumes "to_ascii_lowercase s = to_ascii_lowercase (show_word w)"
  shows "s = show_word w"
proof -
  have d: "to_ascii_lower c = c" if "c \<in> set (show_word w)" for c
    using digits_free [OF that] by (simp add: to_ascii_lower_def)
  have "map to_ascii_lower s = show_word w"
    using assms d by (simp add: to_ascii_lowercase_def map_idI)
  moreover have "to_ascii_lower c = c" if "to_ascii_lower c \<in> set (show_word w)" for c
    using digits_free [OF that] by (auto simp: to_ascii_lower_def split: if_splits)
  ultimately show ?thesis by (metis (no_types, lifting) imageI list.set_map map_idI)
qed

lemma telephone_event_spec:
  assumes "telephone_event_for offer chosen = Some ev"
  shows "ev \<in> set (md_rtpmap offer) \<and> is_telephone_event ev \<and> rm_payload_type ev \<in> set (payload_types offer)"
proof -
  have "ev \<in> set (md_rtpmap offer) \<and> is_telephone_event ev \<and> has_format offer (show_word (rm_payload_type ev))"
    using assms by (auto simp: telephone_event_for_def Let_def dest!: find_SomeD split: option.splits)
  moreover from this have "show_word (rm_payload_type ev) \<in> set (md_formats offer)"
    using lower_digits by (auto simp: has_format_def list_ex_iff eq_ignore_ascii_case_def)
  then have "rm_payload_type ev \<in> set (payload_types offer)"
    by (force simp: payload_types_def map_filter_def)
  ultimately show ?thesis by auto
qed

lemma payload_types_formats: "md_formats m = map show_word pts \<Longrightarrow> payload_types m = pts"
  by (simp add: payload_types_def map_filter_def comp_def)

section \<open>Unfolding an answer\<close>

lemma branch_fails_without_answer: "transport_branch ng e offer audio port \<noteq> Inl (Answer sdp srtp dtls ice)"
  by (auto simp: transport_branch_def split: option.splits list.splits)

lemma answer_cases:
  assumes "ng_answer ng e now offer port prev = (prev', Answer sdp srtp dtls ice)" and "find_kind KAudio offer = Some audio"
  shows "if md_port audio = 0
    then sdp = ng_session ng prev' offer [rejected_stream audio] \<and> srtp = None \<and> dtls = None \<and> ice = None
    else \<exists>chosen tp. choose_codec audio (ng_supported ng) = Some chosen \<and> transport_branch ng e offer audio port = Inr tp
      \<and> sdp = ng_session ng prev' offer [answer_media audio chosen (telephone_event_for audio chosen) tp port]
      \<and> srtp = tp_srtp tp \<and> dtls = tp_dtls tp \<and> ice = tp_ice tp"
  using assms branch_fails_without_answer
  by (auto simp: ng_answer_def next_origin_version_def Let_def split: if_splits option.splits sum.splits)

lemma answer_has_audio: "ng_answer ng e now offer port prev = (prev', Answer sdp srtp dtls ice) \<Longrightarrow> \<exists>audio. find_kind KAudio offer = Some audio"
  by (auto simp: ng_answer_def split: option.splits)

lemma answer_media_fields:
  "md_kind (answer_media audio chosen dtmf tp port) = KAudio" "md_port (answer_media audio chosen dtmf tp port) = port"
  "md_protocol (answer_media audio chosen dtmf tp port) = md_protocol audio"
  "md_direction (answer_media audio chosen dtmf tp port) = direction_reverse (md_direction audio)"
  "md_rtcp_mux (answer_media audio chosen dtmf tp port) = md_rtcp_mux audio"
  "md_mid (answer_media audio chosen dtmf tp port) = md_mid audio"
  "md_crypto (answer_media audio chosen dtmf tp port) = tp_crypto tp"
  "md_fingerprint (answer_media audio chosen dtmf tp port) = tp_fingerprint tp"
  "md_setup (answer_media audio chosen dtmf tp port) = tp_setup tp"
  "md_candidates (answer_media audio chosen dtmf tp port) = tp_candidates tp"
  "md_rtpmap (answer_media audio chosen dtmf tp port) = chosen # (case dtmf of Some ev \<Rightarrow> [ev] | None \<Rightarrow> [])"
  "md_formats (answer_media audio chosen dtmf tp port)
     = map show_word (map rm_payload_type (chosen # (case dtmf of Some ev \<Rightarrow> [ev] | None \<Rightarrow> [])))"
  by (simp_all add: answer_media_def echo_media_attributes_def media_new_def Let_def)

lemma dtls_not_savp: "is_dtls_srtp_profile p \<Longrightarrow> \<not> eq_ignore_ascii_case p ''RTP/SAVP''"
proof
  assume "is_dtls_srtp_profile p" and "eq_ignore_ascii_case p ''RTP/SAVP''"
  then have "length (map to_ascii_upper p) = 16 \<or> length (map to_ascii_upper p) = 17"
      and "length (map to_ascii_lower p) = 8"
    by (auto simp: is_dtls_srtp_profile_def eq_ignore_ascii_case_def to_ascii_lowercase_def Let_def dest: arg_cong [where f = length])
  then show False by simp
qed

section \<open>A sample negotiation\<close>

definition demo_ng :: negotiator where
  "demo_ng = with_default_codecs [10, 0, 0, 9] 5"

definition demo_entropy :: entropy where
  "demo_entropy = \<lparr> en_ufrag = replicate 8 1, en_pwd = replicate 24 2, en_key = replicate 30 9 \<rparr>"

lemma demo_entropy_ok: "entropy_ok demo_entropy"
  by (simp add: entropy_ok_def demo_entropy_def list_all_iff)

lemma demo_find: "find_kind KAudio demo_sdp = Some demo_audio"
  by (simp add: find_kind_def demo_sdp_def demo_audio_def media_new_def)

lemma demo_facts: "md_port demo_audio = 4000" "md_protocol demo_audio = ''RTP/SAVP''" "md_direction demo_audio = SendOnly"
    "payload_types demo_audio = [0, 101]"
    "md_crypto demo_audio = [\<lparr> sc_tag = 1, sc_suite = AesCm128HmacSha1_80, sc_key_material = replicate 30 7 \<rparr>]"
  by (simp_all add: demo_audio_def media_new_def payload_types_def parse_word_def parse_unsigned_def Let_def)

lemma demo_choice: "choose_codec demo_audio (ng_supported demo_ng) = Some (rtpm 0 ''PCMU'' 8000 None)"
  unfolding choose_codec_def demo_facts
  by (simp add: rtpmap_for_def demo_audio_def media_new_def demo_ng_def with_default_codecs_def rtpm_def eq_ignore_ascii_case_def)

lemma demo_answered: "\<exists>sdp k. ng_answer demo_ng demo_entropy 100 demo_sdp 7000 3 = (100, Answer sdp (Some k) None None)"
proof -
  have p: "\<not> is_dtls_srtp_profile ''RTP/SAVP''" using dtls_not_savp by (auto simp: eq_ignore_ascii_case_def)
  have "next_origin_version 100 3 = (100, 100)" by (simp add: next_origin_version_def saturating_add_def Let_def)
  then show ?thesis
    using p by (simp add: ng_answer_def demo_find demo_facts demo_choice transport_branch_def sdes_part_def tp_empty_def
        eq_ignore_ascii_case_def Let_def)
qed

section \<open>Agreement\<close>

text \<open>Property C9.
  An accepted audio stream agrees with the offer. The answer is one audio block on the given port,
  with the offered protocol, the reversed direction and the offered multiplexing; every payload
  type it lists was offered; its first payload type is the first one in the offer's order that the
  engine can take, and belongs to a codec the engine supports at that clock rate.\<close>

theorem answer_agrees_with_offer:
  assumes "ng_answer ng e now offer port prev = (prev', Answer sdp srtp dtls ice)"
    and "find_kind KAudio offer = Some audio" and "md_port audio \<noteq> 0"
  shows "\<exists>m r as bs. sd_media sdp = [m] \<and> md_kind m = KAudio \<and> md_port m = port \<and> md_protocol m = md_protocol audio
    \<and> md_direction m = direction_reverse (md_direction audio) \<and> md_rtcp_mux m = md_rtcp_mux audio \<and> md_mid m = md_mid audio
    \<and> set (payload_types m) \<subseteq> set (payload_types audio) \<and> map rm_payload_type (md_rtpmap m) = payload_types m
    \<and> hd (md_rtpmap m) = r \<and> payload_types audio = as @ rm_payload_type r # bs
    \<and> acceptable (ng_supported ng) audio (rm_payload_type r) \<and> (\<forall>pt \<in> set as. \<not> acceptable (ng_supported ng) audio pt)
    \<and> (\<exists>s \<in> set (ng_supported ng). eq_ignore_ascii_case (rm_codec s) (rm_codec r) \<and> rm_clock_rate s = rm_clock_rate r)"
proof -
  obtain chosen tp where c: "choose_codec audio (ng_supported ng) = Some chosen"
    and sdp: "sdp = ng_session ng prev' offer [answer_media audio chosen (telephone_event_for audio chosen) tp port]"
    using answer_cases [OF assms(1,2)] assms(3) by auto
  let ?m = "answer_media audio chosen (telephone_event_for audio chosen) tp port"
  have pts: "payload_types ?m = map rm_payload_type (md_rtpmap ?m)"
    by (rule payload_types_formats) (simp add: answer_media_fields)
  obtain as bs where s: "payload_types audio = as @ rm_payload_type chosen # bs"
      "acceptable (ng_supported ng) audio (rm_payload_type chosen)" "\<forall>pt \<in> set as. \<not> acceptable (ng_supported ng) audio pt"
      "\<exists>s \<in> set (ng_supported ng). eq_ignore_ascii_case (rm_codec s) (rm_codec chosen) \<and> rm_clock_rate s = rm_clock_rate chosen"
    using choose_codec_spec [OF c] by blast
  have "set (payload_types ?m) \<subseteq> set (payload_types audio)"
    unfolding pts using s(1) telephone_event_spec [of audio chosen]
    by (cases "telephone_event_for audio chosen") (auto simp: answer_media_fields)
  then show ?thesis
    using s pts by (intro exI [of _ ?m] exI [of _ chosen] exI [of _ as] exI [of _ bs])
      (simp add: sdp ng_session_def answer_media_fields)
qed

theorem answer_agrees_with_offer_witness:
  "\<exists>sdp k m. ng_answer demo_ng demo_entropy 100 demo_sdp 7000 3 = (100, Answer sdp (Some k) None None)
     \<and> sd_media sdp = [m] \<and> md_port m = 7000 \<and> md_direction m = RecvOnly \<and> set (payload_types m) \<subseteq> {0, 101}"
proof -
  obtain sdp k where a: "ng_answer demo_ng demo_entropy 100 demo_sdp 7000 3 = (100, Answer sdp (Some k) None None)"
    using demo_answered by blast
  show ?thesis
    using answer_agrees_with_offer [OF a demo_find] demo_facts a by (auto simp: direction_reverse_def)
qed

section \<open>Keying\<close>

lemma dtls_part_facts:
  "tp_srtp (dtls_part ng e offer audio port cert fp) = None" "tp_crypto (dtls_part ng e offer audio port cert fp) = []"
  "tp_fingerprint (dtls_part ng e offer audio port cert fp) = Some \<lparr> fp_algorithm = ''sha-256'', fp_value = cert \<rparr>"
  "tp_setup (dtls_part ng e offer audio port cert fp)
     = Some (setup_reverse (case md_setup audio of Some s \<Rightarrow> s | None \<Rightarrow> SetupActPass))"
  "tp_dtls (dtls_part ng e offer audio port cert fp) = Some \<lparr> dp_peer_fingerprint_algorithm = fp_algorithm fp,
     dp_peer_fingerprint_value = fp_value fp, dp_local_role = (if md_setup audio = Some SetupActive then DtlsServer else DtlsClient) \<rparr>"
  by (auto simp: dtls_part_def ice_part_def tp_empty_def setup_reverse_def Let_def split: option.splits dtls_setup.splits)

text \<open>Property C10.
  The keying of an accepted stream follows its transport profile. Under DTLS-SRTP the answer carries
  the engine's certificate fingerprint and the role complementary to the offer's, hands on the peer's
  fingerprint, and has no SDES key; under \<^verbatim>\<open>RTP/SAVP\<close> it answers the first offered
  crypto line with the same tag and suite and a fresh key of its own, and hands both keys on; under
  any other profile there is no key of either kind. The two kinds never occur together.\<close>

theorem answer_keying_follows_profile:
  assumes "ng_answer ng e now offer port prev = (prev', Answer sdp srtp dtls ice)"
    and "find_kind KAudio offer = Some audio" and "md_port audio \<noteq> 0"
  shows "(srtp = None \<or> dtls = None)
    \<and> (if is_dtls_srtp_profile (md_protocol audio) then
         (\<exists>cert fp d. ng_dtls_cert ng = Some cert \<and> md_fingerprint audio = Some fp \<and> dtls = Some d
           \<and> dp_peer_fingerprint_algorithm d = fp_algorithm fp \<and> dp_peer_fingerprint_value d = fp_value fp
           \<and> (dp_local_role d = DtlsServer \<longleftrightarrow> md_setup audio = Some SetupActive)
           \<and> md_fingerprint (sd_media sdp ! 0) = Some \<lparr> fp_algorithm = ''sha-256'', fp_value = cert \<rparr>
           \<and> md_setup (sd_media sdp ! 0) = setup_parse (as_setup_str (dp_local_role d))
           \<and> md_crypto (sd_media sdp ! 0) = [])
       else if eq_ignore_ascii_case (md_protocol audio) ''RTP/SAVP'' then
         (\<exists>c rest. md_crypto audio = c # rest
           \<and> srtp = Some \<lparr> sk_suite = sc_suite c, sk_peer_tx_key = sc_key_material c, sk_local_tx_key = en_key e \<rparr>
           \<and> md_crypto (sd_media sdp ! 0) = [\<lparr> sc_tag = sc_tag c, sc_suite = sc_suite c, sc_key_material = en_key e \<rparr>])
       else srtp = None \<and> dtls = None \<and> md_crypto (sd_media sdp ! 0) = [] \<and> md_fingerprint (sd_media sdp ! 0) = None)"
proof -
  obtain chosen tp where tp: "transport_branch ng e offer audio port = Inr tp"
    and sdp: "sdp = ng_session ng prev' offer [answer_media audio chosen (telephone_event_for audio chosen) tp port]"
    and k: "srtp = tp_srtp tp" "dtls = tp_dtls tp"
    using answer_cases [OF assms(1,2)] assms(3) by auto
  have m: "md_crypto (sd_media sdp ! 0) = tp_crypto tp" "md_fingerprint (sd_media sdp ! 0) = tp_fingerprint tp"
      "md_setup (sd_media sdp ! 0) = tp_setup tp"
    by (simp_all add: sdp ng_session_def answer_media_fields)
  have role: "Some (setup_reverse (case md_setup audio of Some s \<Rightarrow> s | None \<Rightarrow> SetupActPass))
      = setup_parse (as_setup_str (if md_setup audio = Some SetupActive then DtlsServer else DtlsClient))"
    by (auto simp: setup_reverse_def setup_parse_def as_setup_str_def to_ascii_lowercase_def to_ascii_lower_def
        split: option.splits dtls_setup.splits)
  show ?thesis
    using tp unfolding transport_branch_def k m
    by (auto simp: dtls_part_facts role sdes_part_def fresh_sdes_key_def tp_empty_def Let_def
        split: if_splits option.splits list.splits)
qed

theorem answer_keying_follows_profile_witness:
  "\<exists>sdp. ng_answer demo_ng demo_entropy 100 demo_sdp 7000 3
      = (100, Answer sdp (Some \<lparr> sk_suite = AesCm128HmacSha1_80, sk_peer_tx_key = replicate 30 7, sk_local_tx_key = replicate 30 9 \<rparr>) None None)
     \<and> md_crypto (sd_media sdp ! 0) = [\<lparr> sc_tag = 1, sc_suite = AesCm128HmacSha1_80, sc_key_material = replicate 30 9 \<rparr>]"
proof -
  obtain sdp k where a: "ng_answer demo_ng demo_entropy 100 demo_sdp 7000 3 = (100, Answer sdp (Some k) None None)"
    using demo_answered by blast
  have p: "\<not> is_dtls_srtp_profile (md_protocol demo_audio)" "eq_ignore_ascii_case (md_protocol demo_audio) ''RTP/SAVP''"
    using demo_facts dtls_not_savp by (auto simp: eq_ignore_ascii_case_def)
  have "md_port demo_audio \<noteq> 0" using demo_facts by simp
  from answer_keying_follows_profile [OF a demo_find this] p a show ?thesis
    by (auto simp: demo_facts demo_entropy_def)
qed

section \<open>The order of the blocks\<close>

lemma find_kind_kind: "find_kind k sd = Some m \<Longrightarrow> md_kind m = k \<and> m \<in> set (sd_media sd)"
  unfolding find_kind_def by (auto dest: find_SomeD)

lemma answer_one_block:
  assumes "ng_answer ng e now offer port prev = (prev', Answer sdp srtp dtls ice)"
  shows "\<exists>m. sd_media sdp = [m] \<and> md_kind m = KAudio"
proof -
  obtain audio where a: "find_kind KAudio offer = Some audio" using answer_has_audio [OF assms] by auto
  have "md_kind (rejected_stream audio) = KAudio"
    using find_kind_kind [OF a] by (simp add: rejected_stream_def media_new_def)
  then show ?thesis using answer_cases [OF assms a]
    by (auto simp: ng_session_def answer_media_fields split: if_splits)
qed

lemma video_kinds: "md_kind (video_media ng v a p c) = KVideo" "md_kind (rejected_stream v) = md_kind v"
  by (simp_all add: video_media_def rejected_stream_def echo_media_attributes_def media_new_def Let_def)

lemma video_answer_kinds:
  assumes "answer_with_video ng e now offer ap vp prev = (prev', Answer sdp srtp dtls ice)"
  shows "map md_kind (sd_media sdp) = (if find_kind KVideo offer = None then [KAudio] else [KAudio, KVideo])"
proof -
  obtain p1 sdp1 s1 d1 i1 where a: "ng_answer ng e now offer ap prev = (p1, Answer sdp1 s1 d1 i1)"
    using assms by (cases "ng_answer ng e now offer ap prev"; cases "snd (ng_answer ng e now offer ap prev)")
      (auto simp: answer_with_video_def split: negotiation_result.splits)
  obtain m where m: "sd_media sdp1 = [m]" "md_kind m = KAudio" using answer_one_block [OF a] by auto
  show ?thesis
  proof (cases "find_kind KVideo offer")
    case None
    with assms a m show ?thesis by (auto simp: answer_with_video_def)
  next
    case (Some v)
    with find_kind_kind [OF Some] assms a m show ?thesis
      by (auto simp: answer_with_video_def video_kinds Let_def split: option.splits if_splits)
  qed
qed

text \<open>Result.
  The blocks of a multi-stream answer line up with those of the offer exactly when the offer is one
  audio block, or audio followed by video. For every other offer that is accepted (video first, two
  audio blocks, a data channel beside the audio) the answer has other blocks, or has them in another
  order, than the offer: the position by which RFC 3264 matches a block to its answer is lost.\<close>

theorem answer_blocks_line_up_iff:
  assumes "answer_with_video ng e now offer ap vp prev = (prev', Answer sdp srtp dtls ice)"
  shows "map md_kind (sd_media sdp) = map md_kind (sd_media offer) \<longleftrightarrow>
    map md_kind (sd_media offer) = [KAudio] \<or> map md_kind (sd_media offer) = [KAudio, KVideo]"
proof -
  have "find_kind KVideo offer = None \<longleftrightarrow> KVideo \<notin> set (map md_kind (sd_media offer))"
    by (force simp: find_kind_def find_None_iff)
  then show ?thesis using video_answer_kinds [OF assms] by auto
qed

theorem answer_blocks_line_up_iff_witness:
  "\<exists>sdp k. answer_with_video demo_ng demo_entropy 100 demo_sdp 7000 None 3 = (100, Answer sdp (Some k) None None)
     \<and> map md_kind (sd_media demo_sdp) = [KAudio, KImage] \<and> map md_kind (sd_media sdp) \<noteq> map md_kind (sd_media demo_sdp)"
proof -
  have kinds: "map md_kind (sd_media demo_sdp) = [KAudio, KImage]"
    by (simp add: demo_sdp_def demo_audio_def demo_image_def media_new_def)
  then have "find_kind KVideo demo_sdp = None" by (auto simp: find_kind_def find_None_iff)
  then obtain sdp k where a: "answer_with_video demo_ng demo_entropy 100 demo_sdp 7000 None 3 = (100, Answer sdp (Some k) None None)"
    using demo_answered by (auto simp: answer_with_video_def)
  from answer_blocks_line_up_iff [OF this] a kinds show ?thesis by auto
qed

section \<open>Versions\<close>

fun origin_versions :: "u64 list \<Rightarrow> u64 \<Rightarrow> u64 list" where
  "origin_versions [] prev = []"
| "origin_versions (now # nows) prev = (let (prev', v) = next_origin_version now prev in v # origin_versions nows prev')"

lemma unat_next_version:
  "unat (snd (next_origin_version now prev)) = max (min (Suc (unat prev)) (2 ^ 64 - 1)) (unat now)"
  "fst (next_origin_version now prev) = snd (next_origin_version now prev)"
  by (auto simp: next_origin_version_def Let_def unat_saturating_add max_def word_le_nat_alt)

text \<open>Result.
  Every answer and offer the process makes carries a version above all earlier ones, whatever the
  clock does, until the counter is exhausted; and never one behind the clock.\<close>

theorem origin_versions_grow:
  "sorted_wrt (\<lambda>a b. a < b \<or> b = 2 ^ 64 - 1) (map unat (prev # origin_versions nows prev))
    \<and> list_all2 (\<lambda>now v. unat now \<le> unat v) nows (origin_versions nows prev)"
proof (induction nows arbitrary: prev)
  case (Cons now nows)
  define v where "v = snd (next_origin_version now prev)"
  have e: "origin_versions (now # nows) prev = v # origin_versions nows v"
    using unat_next_version(2) [of now prev] by (simp add: v_def case_prod_unfold Let_def)
  have v: "unat v = max (min (Suc (unat prev)) (2 ^ 64 - 1)) (unat now)" using unat_next_version(1) by (simp add: v_def)
  have top: "unat w \<le> 2 ^ 64 - 1" for w :: u64
    using unsigned_less [where ?'a = nat, of w] by simp
  have first: "unat prev < unat v \<or> unat v = 2 ^ 64 - 1" using v top [of prev] top [of now] by auto
  have "unat prev < unat w \<or> unat w = 2 ^ 64 - 1" if "unat v < unat w \<or> unat w = 2 ^ 64 - 1" for w :: u64
    using first that top [of w] by auto
  then show ?case using Cons.IH [of v] first v unfolding e by auto
qed simp

section \<open>Answers can be written and read\<close>

definition ng_wf :: "negotiator \<Rightarrow> bool" where
  "ng_wf ng \<longleftrightarrow> ip_wf (ng_local_ip ng) \<and> list_all rtpmap_wf (ng_supported ng @ ng_supported_video ng)
     \<and> pred_option trimmed (ng_dtls_cert ng)"

definition tp_wf :: "transport_part \<Rightarrow> bool" where
  "tp_wf tp \<longleftrightarrow> list_all crypto_wf (tp_crypto tp) \<and> pred_option fingerprint_wf (tp_fingerprint tp)
     \<and> pred_option trimmed (tp_ice_ufrag tp) \<and> pred_option trimmed (tp_ice_pwd tp) \<and> list_all tok (tp_ice_options tp)
     \<and> list_all candidate_wf (tp_candidates tp)"

lemma ice_token: "list_all (\<lambda>i. i < 64) ds \<Longrightarrow> ds \<noteq> [] \<Longrightarrow> tok (random_ice_token ds)"
proof -
  assume ds: "list_all (\<lambda>i. i < 64) ds" "ds \<noteq> []"
  have "length ICE_CHARS = 64" "list_all graphic ICE_CHARS" by (simp_all add: ICE_CHARS_def graphic_def)
  then have "graphic (ICE_CHARS ! i)" if "i < 64" for i using that by (simp add: list_all_length)
  with ds show ?thesis by (auto simp: random_ice_token_def tok_def list_all_iff)
qed

lemma host_candidate_wf: "ip_wf ip \<Longrightarrow> candidate_wf (sdp_host_candidate ip port)"
  by (simp add: sdp_host_candidate_def candidate_wf_def tok_def graphic_def Let_def)

lemma tp_empty_wf: "tp_wf tp_empty"
  by (simp add: tp_wf_def tp_empty_def)

lemma fresh_tokens:
  assumes "entropy_ok e"
  shows "tok (fresh_ice_ufrag e)" "tok (fresh_ice_pwd e)"
proof -
  have "en_ufrag e \<noteq> []" "en_pwd e \<noteq> []" using assms by (auto simp: entropy_ok_def)
  then show "tok (fresh_ice_ufrag e)" "tok (fresh_ice_pwd e)"
    using assms by (simp_all add: fresh_ice_ufrag_def fresh_ice_pwd_def ice_token entropy_ok_def)
qed

lemma dtls_part_wf:
  assumes "ng_wf ng" and "entropy_ok e" and "trimmed cert"
  shows "tp_wf (dtls_part ng e offer audio port cert fp)"
proof -
  have "fingerprint_wf \<lparr> fp_algorithm = ''sha-256'', fp_value = cert \<rparr>"
    using assms(3) by (simp add: fingerprint_wf_def tok_def graphic_def to_ascii_lowercase_def to_ascii_lower_def)
  moreover have "tok ''trickle''" by (simp add: tok_def graphic_def)
  moreover have "candidate_wf (sdp_host_candidate (ng_local_ip ng) port)"
    using assms(1) by (simp add: host_candidate_wf ng_wf_def)
  ultimately show ?thesis using fresh_tokens [OF assms(2)]
    by (simp add: dtls_part_def ice_part_def tp_wf_def tp_empty_def tok_trimmed Let_def)
qed

lemma branch_wf:
  assumes "transport_branch ng e offer audio port = Inr tp" and "ng_wf ng" and "entropy_ok e"
  shows "tp_wf tp"
proof -
  have "tp_wf (sdes_part e c)" for c
    using assms(3) by (cases "sc_suite c")
      (simp add: sdes_part_def tp_wf_def tp_empty_def crypto_wf_def fresh_sdes_key_def entropy_ok_def
        key_material_len_def suite_key_len_def suite_salt_len_def Let_def)
  moreover have "tp_wf (dtls_part ng e offer audio port cert fp)" if "ng_dtls_cert ng = Some cert" for cert fp
    using dtls_part_wf assms(2,3) that by (simp add: ng_wf_def)
  ultimately show ?thesis using assms(1) tp_empty_wf
    by (auto simp: transport_branch_def split: if_splits option.splits list.splits)
qed

text \<open>A channel count of one is not rendered, so a document is read back with that count left out.\<close>

definition rtpmap_norm :: "rtp_map \<Rightarrow> rtp_map" where
  "rtpmap_norm r = (if rm_channels r = Some 1 then r \<lparr> rm_channels := None \<rparr> else r)"

definition media_norm :: "media_description \<Rightarrow> media_description" where
  "media_norm m = m \<lparr> md_rtpmap := map rtpmap_norm (md_rtpmap m) \<rparr>"

definition sdp_norm :: "session_description \<Rightarrow> session_description" where
  "sdp_norm sd = sd \<lparr> sd_media := map media_norm (sd_media sd) \<rparr>"

lemma rtpmap_norm_simps [simp]:
  "rm_codec (rtpmap_norm r) = rm_codec r" "rtpmap_line (rtpmap_norm r) = rtpmap_line r"
  by (simp_all add: rtpmap_norm_def rtpmap_line_def)

lemma rtpmap_wf_norm: "rtpmap_wf r \<Longrightarrow> rtpmap_wf (rtpmap_norm r)"
  by (simp add: rtpmap_norm_def rtpmap_wf_def)

lemma media_norm_simps [simp]:
  "md_kind (media_norm m) = md_kind m" "md_port (media_norm m) = md_port m"
  "md_connection (media_norm m) = md_connection m" "md_rtpmap (media_norm m) = map rtpmap_norm (md_rtpmap m)"
  "media_lines b64e (media_norm m) = media_lines b64e m"
  by (simp_all add: media_norm_def media_lines_def m_line_def media_attr_lines_def comp_def)

lemma sdp_norm_show: "sdp_show b64e (sdp_norm sd) = sdp_show b64e sd"
  by (simp add: sdp_show_def sdp_norm_def session_lines_def comp_def)

lemma find_kind_norm: "find_kind k (sdp_norm sd) = map_option media_norm (find_kind k sd)"
proof -
  have "List.find P (map media_norm ms) = map_option media_norm (List.find (P \<circ> media_norm) ms)" for P ms
    by (induction ms) simp_all
  then show ?thesis by (simp add: find_kind_def sdp_norm_def comp_def)
qed

lemma sdp_norm_connection [simp]: "sd_connection (sdp_norm sd) = sd_connection sd"
  by (simp add: sdp_norm_def)

lemma norm_read [simp]:
  "media_endpoint k (sdp_norm sd) = media_endpoint k sd"
  "first_codec_of_kind (sdp_norm sd) k = first_codec_of_kind sd k"
proof -
  show "media_endpoint k (sdp_norm sd) = media_endpoint k sd"
    unfolding media_endpoint_def find_kind_norm by (simp split: option.split)
  show "first_codec_of_kind (sdp_norm sd) k = first_codec_of_kind sd k"
    unfolding first_codec_of_kind_def find_kind_norm by (simp split: option.split list.split)
qed

text \<open>What an answer repeats of the offered stream, in wire form: non-empty tokens of visible ASCII
  characters, and values of printable ASCII characters without surrounding blanks.\<close>

definition echo_ok :: "media_description \<Rightarrow> bool" where
  "echo_ok m \<longleftrightarrow> tok (md_protocol m) \<and> list_all tok (md_formats m)
     \<and> list_all (rtpmap_wf \<circ> rtpmap_norm) (md_rtpmap m) \<and> list_all fmtp_wf (md_fmtp m)
     \<and> pred_option trimmed (md_mid m) \<and> list_all extmap_wf (md_extmap m) \<and> list_all feedback_wf (md_rtcp_fb m)"

definition offer_echo_ok :: "session_description \<Rightarrow> bool" where
  "offer_echo_ok offer \<longleftrightarrow> pred_option echo_ok (find_kind KAudio offer) \<and> pred_option echo_ok (find_kind KVideo offer)
     \<and> list_all tok (bundle_mids offer)"

lemma sdp_wf_echo_ok: "sdp_wf offer \<Longrightarrow> offer_echo_ok offer"
proof -
  assume wf: "sdp_wf offer"
  have "echo_ok m" if "find_kind k offer = Some m" for k m
    using wf find_kind_kind [OF that]
    by (auto simp: sdp_wf_def media_wf_def echo_ok_def list_all_iff rtpmap_wf_norm)
  moreover have "list_all tok (bundle_mids offer)"
    using wf by (auto simp: sdp_wf_def list_all_iff bundle_mids_def group_wf_def)
  ultimately show ?thesis
    by (cases "find_kind KAudio offer"; cases "find_kind KVideo offer") (simp_all add: offer_echo_ok_def)
qed

lemma chosen_wf:
  assumes "choose_codec offer supported = Some r" and "echo_ok offer" and "list_all rtpmap_wf supported"
  shows "rtpmap_wf (rtpmap_norm r)"
proof -
  obtain pt where "(case rtpmap_for offer pt of
         Some r \<Rightarrow> map_option (\<lambda>_. r)
           (List.find (\<lambda>s. eq_ignore_ascii_case (rm_codec s) (rm_codec r) \<and> rm_clock_rate s = rm_clock_rate r) supported)
       | None \<Rightarrow> List.find (\<lambda>s. rm_payload_type s = pt) supported) = Some r"
    using find_map_SomeD [OF assms(1) [unfolded choose_codec_def]] by auto
  then have "r \<in> set (md_rtpmap offer) \<or> r \<in> set supported"
    by (auto simp: rtpmap_for_def dest!: find_SomeD split: option.splits)
  then show ?thesis using assms(2,3) by (auto simp: echo_ok_def list_all_iff rtpmap_wf_norm)
qed

lemma echo_fields:
  "md_fmtp (echo_media_attributes offer pts m) = List.map_filter (fmtp_for offer) pts"
  "md_rtcp_fb (echo_media_attributes offer pts m) = filter (\<lambda>fb. list_ex (applies_to fb) pts) (md_rtcp_fb offer)"
  "md_extmap (echo_media_attributes offer pts m) = map (\<lambda>e. e \<lparr> em_direction := map_option direction_reverse (em_direction e) \<rparr>) (md_extmap offer)"
  "md_mid (echo_media_attributes offer pts m) = md_mid offer"
  by (simp_all add: echo_media_attributes_def)

lemma map_filter_memD: "y \<in> set (List.map_filter f xs) \<Longrightarrow> \<exists>x. f x = Some y"
  by (auto simp: map_filter_def)

lemma echo_wf:
  assumes "echo_ok offer"
  shows "list_all fmtp_wf (List.map_filter (fmtp_for offer) pts)"
    "list_all feedback_wf (filter P (md_rtcp_fb offer))"
    "list_all extmap_wf (map (\<lambda>e. e \<lparr> em_direction := f e \<rparr>) (md_extmap offer))"
    "pred_option trimmed (md_mid offer)"
proof -
  have "p \<in> set (md_fmtp offer)" if "p \<in> set (List.map_filter (fmtp_for offer) pts)" for p
    using map_filter_memD [OF that] by (auto simp: fmtp_for_def dest: find_SomeD)
  then show "list_all fmtp_wf (List.map_filter (fmtp_for offer) pts)"
    using assms by (auto simp: echo_ok_def list_all_iff)
qed (use assms in \<open>auto simp: echo_ok_def list_all_iff extmap_wf_def\<close>)

lemma echo_media_wf:
  assumes "echo_ok offer" and "media_wf (media_norm m)"
  shows "media_wf (media_norm (echo_media_attributes offer pts m))"
proof -
  have "list_all fmtp_wf (md_fmtp (echo_media_attributes offer pts m))"
      "list_all feedback_wf (md_rtcp_fb (echo_media_attributes offer pts m))"
      "list_all extmap_wf (md_extmap (echo_media_attributes offer pts m))"
      "pred_option trimmed (md_mid (echo_media_attributes offer pts m))"
    unfolding echo_fields by (rule echo_wf [OF assms(1)])+
  then show ?thesis using assms(2) by (simp add: media_wf_def echo_media_attributes_def media_norm_def)
qed

lemma kinds_wf: "kind_wf KAudio" "kind_wf KVideo"
  by (simp_all add: kind_wf_def sdp_kind_as_str_def sdp_kind_parse_def tok_def graphic_def)

lemma words_tok: "list_all tok (map (show_word \<circ> rm_payload_type) rs)"
  by (simp add: list_all_iff)

lemma answer_media_wf:
  assumes "echo_ok audio" and "rtpmap_wf (rtpmap_norm chosen)" and "pred_option (rtpmap_wf \<circ> rtpmap_norm) dtmf" and "tp_wf tp"
  shows "media_wf (media_norm (answer_media audio chosen dtmf tp port))"
proof -
  have "list_all (rtpmap_wf \<circ> rtpmap_norm) (case dtmf of Some ev \<Rightarrow> [ev] | None \<Rightarrow> [])" using assms(3) by (cases dtmf) auto
  moreover have "tok (md_protocol audio)" using assms(1) by (simp add: echo_ok_def)
  ultimately show ?thesis
    unfolding answer_media_def Let_def using assms(2,4) words_tok
    by (intro echo_media_wf [OF assms(1)])
       (simp add: media_wf_def media_new_def kinds_wf tp_wf_def media_norm_def list.pred_map)
qed

lemma rejected_wf: "echo_ok m \<Longrightarrow> md_kind m = KAudio \<or> md_kind m = KVideo \<Longrightarrow> media_wf (media_norm (rejected_stream m))"
  using kinds_wf by (auto simp: rejected_stream_def media_wf_def media_new_def media_norm_def echo_ok_def)

lemma video_media_wf:
  assumes "echo_ok v" and "rtpmap_wf (rtpmap_norm chosen)" and "media_wf (media_norm a)" and "ip_wf (ng_local_ip ng)"
  shows "media_wf (media_norm (video_media ng v a port chosen))"
proof -
  define x where "x = echo_media_attributes v [rm_payload_type chosen]
    ((media_new KVideo port (md_protocol v)) \<lparr> md_formats := [show_word (rm_payload_type chosen)],
       md_direction := direction_reverse (md_direction v) \<rparr>)"
  have "tok (md_protocol v)" using assms(1) by (simp add: echo_ok_def)
  then have "media_wf (media_norm x)"
    unfolding x_def by (intro echo_media_wf [OF assms(1)]) (simp add: media_wf_def media_new_def kinds_wf media_norm_def)
  then show ?thesis
    unfolding video_media_def Let_def x_def [symmetric]
    using assms(2-4) by (simp add: media_wf_def host_candidate_wf media_norm_def)
qed

lemma bundle_members_offered: "set (bundle_members offered anchor ms) \<subseteq> set offered"
  by (induction offered anchor ms rule: bundle_members.induct) (auto split: option.splits)

lemma bundle_groups_wf:
  assumes "list_all tok (bundle_mids offer)"
  shows "list_all group_wf (bundle_groups offer ms)"
proof -
  have "list_all tok (bundle_members (bundle_mids offer) None ms)"
    using assms bundle_members_offered [of "bundle_mids offer" None ms] by (auto simp: list_all_iff)
  moreover have "tok ''BUNDLE''" by (simp add: tok_def graphic_def)
  ultimately show ?thesis by (simp add: bundle_groups_def group_wf_def Let_def)
qed

lemma ng_session_wf:
  assumes "list_all tok (bundle_mids offer)" and "ip_wf (ng_local_ip ng)" and "list_all (media_wf \<circ> media_norm) ms"
  shows "sdp_wf (sdp_norm (ng_session ng v offer ms))"
  using assms bundle_groups_wf [OF assms(1)]
  by (simp add: ng_session_def sdp_norm_def sdp_wf_def tok_def graphic_def printable_def list.pred_map)

lemma answer_wf:
  assumes "ng_answer ng e now offer port prev = (prev', Answer sdp srtp dtls ice)"
    and "offer_echo_ok offer" and "ng_wf ng" and "entropy_ok e"
  shows "sdp_wf (sdp_norm sdp)"
proof -
  obtain audio where a: "find_kind KAudio offer = Some audio" using answer_has_audio [OF assms(1)] by auto
  then have wf: "echo_ok audio" "md_kind audio = KAudio" and mids: "list_all tok (bundle_mids offer)"
    using find_kind_kind assms(2) by (auto simp: offer_echo_ok_def)
  have ip: "ip_wf (ng_local_ip ng)" and sup: "list_all rtpmap_wf (ng_supported ng)" using assms(3) by (simp_all add: ng_wf_def)
  have ev: "pred_option (rtpmap_wf \<circ> rtpmap_norm) (telephone_event_for audio c)" for c
    using telephone_event_spec [of audio c] wf
    by (cases "telephone_event_for audio c") (auto simp: echo_ok_def list_all_iff)
  show ?thesis
    using answer_cases [OF assms(1) a] ng_session_wf [OF mids ip] rejected_wf [OF wf(1)] wf(2)
      answer_media_wf [OF wf(1) chosen_wf [OF _ wf(1) sup] ev branch_wf [OF _ assms(3,4)]]
    by (auto split: if_splits)
qed

lemma video_answer_wf:
  assumes "answer_with_video ng e now offer ap vp prev = (prev', Answer sdp srtp dtls ice)"
    and "offer_echo_ok offer" and "ng_wf ng" and "entropy_ok e"
  shows "sdp_wf (sdp_norm sdp)"
proof -
  obtain p1 sdp1 s1 d1 i1 where a: "ng_answer ng e now offer ap prev = (p1, Answer sdp1 s1 d1 i1)"
    using assms(1) by (cases "ng_answer ng e now offer ap prev"; cases "snd (ng_answer ng e now offer ap prev)")
      (auto simp: answer_with_video_def split: negotiation_result.splits)
  obtain m where m: "sd_media sdp1 = [m]" using answer_one_block [OF a] by auto
  have wf1: "sdp_wf (sdp_norm sdp1)" using answer_wf [OF a assms(2-4)] .
  then have mwf: "media_wf (media_norm m)" by (simp add: sdp_wf_def sdp_norm_def m)
  have mids: "list_all tok (bundle_mids offer)" using assms(2) by (simp add: offer_echo_ok_def)
  show ?thesis
  proof (cases "find_kind KVideo offer")
    case None
    with assms(1) a wf1 show ?thesis by (auto simp: answer_with_video_def)
  next
    case (Some v)
    then have vwf: "echo_ok v" "md_kind v = KVideo" using find_kind_kind assms(2) by (auto simp: offer_echo_ok_def)
    have sup: "list_all rtpmap_wf (ng_supported_video ng)" and ip: "ip_wf (ng_local_ip ng)"
      using assms(3) by (simp_all add: ng_wf_def)
    have "\<exists>b. media_wf (media_norm b) \<and> sdp = sdp1 \<lparr> sd_media := [m, b], sd_groups := bundle_groups offer [m, b] \<rparr>"
      using assms(1) a m Some rejected_wf [OF vwf(1)] vwf(2)
        video_media_wf [OF vwf(1) chosen_wf [OF _ vwf(1) sup] mwf ip]
      by (auto simp: answer_with_video_def Let_def split: option.splits if_splits)
    then show ?thesis using wf1 mwf bundle_groups_wf [OF mids] by (auto simp: sdp_wf_def sdp_norm_def)
  qed
qed

text \<open>The rendered answer parses, to the answer with single channel counts left out.\<close>

lemma answer_reads_back:
  assumes "sdp_wf (sdp_norm sdp)" and "b64_ok b64e b64d"
  shows "sdp_parse b64d (sdp_show b64e sdp) = Inr (sdp_norm sdp)"
  using sdp_text_reads_back [OF assms] by (simp add: sdp_norm_show)

lemma default_ng_wf: "ip_wf ip \<Longrightarrow> ng_wf (with_default_codecs ip tb)"
  by (simp add: ng_wf_def with_default_codecs_def rtpm_def rtpmap_wf_def tok_def graphic_def)

lemma endpoint_of_answer:
  assumes "sd_media sdp = m # ms" and "md_kind m = KAudio" and "md_connection m = None" and "sd_connection sdp = Some ip"
  shows "media_endpoint KAudio sdp = (if md_port m = 0 then None else Some \<lparr> sa_ip = ip, sa_port = md_port m \<rparr>)"
  using assms by (simp add: media_endpoint_def find_kind_def)

lemma video_answer_audio:
  assumes "answer_with_video ng e now offer ap vp prev = (prev', Answer sdp srtp dtls ice)"
  shows "\<exists>m ms audio. sd_media sdp = m # ms \<and> md_kind m = KAudio \<and> md_connection m = None
    \<and> sd_connection sdp = Some (ng_local_ip ng) \<and> find_kind KAudio offer = Some audio \<and> md_port m = (if md_port audio = 0 then 0 else ap)"
proof -
  obtain p1 sdp1 s1 d1 i1 where a: "ng_answer ng e now offer ap prev = (p1, Answer sdp1 s1 d1 i1)"
    using assms(1) by (cases "ng_answer ng e now offer ap prev"; cases "snd (ng_answer ng e now offer ap prev)")
      (auto simp: answer_with_video_def split: negotiation_result.splits)
  obtain audio where au: "find_kind KAudio offer = Some audio" using answer_has_audio [OF a] by auto
  have c: "md_connection (answer_media audio c d t p) = None" "md_connection (rejected_stream audio) = None"
      "md_port (rejected_stream audio) = 0" "md_kind (rejected_stream audio) = KAudio" for c d t p
    using find_kind_kind [OF au]
    by (simp_all add: answer_media_def rejected_stream_def echo_media_attributes_def media_new_def Let_def)
  have "\<exists>m. sd_media sdp1 = [m] \<and> md_kind m = KAudio \<and> md_connection m = None \<and> sd_connection sdp1 = Some (ng_local_ip ng)
      \<and> md_port m = (if md_port audio = 0 then 0 else ap)"
    using answer_cases [OF a au] c by (auto simp: ng_session_def answer_media_fields split: if_splits)
  moreover have "\<exists>bs. sd_media sdp = sd_media sdp1 @ bs \<and> sd_connection sdp = sd_connection sdp1"
    using assms a by (auto simp: answer_with_video_def Let_def split: option.splits)
  ultimately show ?thesis using au by auto
qed

text \<open>Property C11.
  When the engine accepts an offer whose repeated parts are in wire form (the tokens and values that
  an answer copies from the offered audio and video streams and from the bundle group are ASCII
  text without blanks around it), the body it puts in the response is a document that parses, and
  what it reports to the call beside it is what the peer will read there: the codecs are those of the
  body, and the media address a peer reads from the body is the engine's address with the port it
  was given (none when the offer had the stream on hold or the port is zero). The engine's own
  configuration (codec names, certificate fingerprint) is in wire form too, and the random draws
  have the documented sizes.\<close>

theorem accepted_body_reads_back:
  assumes "negotiate b64e b64d ng e now body ip ap vp prev = (prev', Accepted a)"
    and "b64_ok b64e b64d" and "sdp_parse b64d body = Inr offer" and "offer_echo_ok offer" and "ng_wf ng" and "ip_wf ip" and "entropy_ok e"
  shows "\<exists>sdp audio. sdp_parse b64d (ac_answer_body a) = Inr sdp \<and> find_kind KAudio offer = Some audio
    \<and> ac_audio_codec a = first_codec_of_kind sdp KAudio \<and> ac_video_codec a = first_codec_of_kind sdp KVideo
    \<and> parse_remote_rtp b64d (ac_answer_body a)
        = (if md_port audio = 0 \<or> ap = 0 then None else Some \<lparr> sa_ip = ip, sa_port = ap \<rparr>)"
proof -
  let ?ng = "ng \<lparr> ng_local_ip := ip \<rparr>"
  obtain sdp srtp dtls ice where r: "answer_with_video ?ng e now offer ap vp prev = (prev', Answer sdp srtp dtls ice)"
      and a: "a = accepted_outcome b64e offer sdp srtp dtls ice True"
    using assms(1,3) by (cases "answer_with_video ?ng e now offer ap vp prev"; cases "snd (answer_with_video ?ng e now offer ap vp prev)")
      (auto simp: negotiate_def outcome_of_def)
  have "ng_wf ?ng" using assms(5,6) by (simp add: ng_wf_def)
  then have "sdp_wf (sdp_norm sdp)" using video_answer_wf [OF r assms(4) _ assms(7)] by simp
  then have p: "sdp_parse b64d (sdp_show b64e sdp) = Inr (sdp_norm sdp)" using answer_reads_back assms(2) by simp
  obtain m ms audio where m: "sd_media sdp = m # ms" "md_kind m = KAudio" "md_connection m = None"
      "sd_connection sdp = Some ip" "find_kind KAudio offer = Some audio" "md_port m = (if md_port audio = 0 then 0 else ap)"
    using video_answer_audio [OF r] by auto
  have "parse_remote_rtp b64d (ac_answer_body a) = media_endpoint KAudio sdp"
    by (simp add: parse_remote_rtp_def a accepted_outcome_def p)
  also have "\<dots> = (if md_port audio = 0 \<or> ap = 0 then None else Some \<lparr> sa_ip = ip, sa_port = ap \<rparr>)"
    using endpoint_of_answer [OF m(1-4)] m(6) by auto
  finally show ?thesis using p m(5) by (auto simp: a accepted_outcome_def)
qed

theorem accepted_body_reads_back_witness:
  "\<exists>a. negotiate demo_b64e demo_b64d demo_ng demo_entropy 100 (sdp_show demo_b64e demo_sdp) [10, 0, 0, 9] 7000 None 3 = (100, Accepted a)
     \<and> parse_remote_rtp demo_b64d (ac_answer_body a) = Some \<lparr> sa_ip = [10, 0, 0, 9], sa_port = 7000 \<rparr>"
proof -
  have wf: "sdp_wf demo_sdp" by (rule demo_sdp_wf)
  have p: "sdp_parse demo_b64d (sdp_show demo_b64e demo_sdp) = Inr demo_sdp"
    using sdp_text_reads_back [OF wf demo_b64_ok] .
  have "find_kind KVideo demo_sdp = None"
    by (simp add: find_kind_def demo_sdp_def demo_audio_def demo_image_def media_new_def)
  moreover have "demo_ng \<lparr> ng_local_ip := [10, 0, 0, 9] \<rparr> = demo_ng" by (simp add: demo_ng_def with_default_codecs_def)
  ultimately obtain a where a: "negotiate demo_b64e demo_b64d demo_ng demo_entropy 100 (sdp_show demo_b64e demo_sdp) [10, 0, 0, 9] 7000 None 3
      = (100, Accepted a)"
    using demo_answered p by (auto simp: negotiate_def answer_with_video_def outcome_of_def)
  have "ng_wf demo_ng" unfolding demo_ng_def by (rule default_ng_wf) (simp add: ip_wf_def)
  from accepted_body_reads_back [OF a demo_b64_ok p sdp_wf_echo_ok [OF wf] this _ demo_entropy_ok] demo_find demo_facts a
  show ?thesis by (auto simp: ip_wf_def)
qed

section \<open>Two engines\<close>

lemma offer_sdp_wf:
  assumes "ip_wf ip" and "list_all rtpmap_wf (ng_supported ng)"
  shows "sdp_wf (offer_sdp ng v ip port)"
  using assms kinds_wf words_tok [of "ng_supported ng"]
  by (simp add: offer_sdp_def sdp_wf_def media_wf_def media_new_def tok_def graphic_def printable_def comp_def)

text \<open>Property C12.
  Two engines with the default codecs agree. The offer one of them builds is accepted by the other,
  on G.711 mu-law at 8 kHz without keys; each reads the other's address and port from the document
  it is sent.\<close>

theorem engines_agree:
  assumes "b64_ok b64e b64d" and "ip_wf ipA" and "ip_wf ipB" and "portA \<noteq> 0" and "portB \<noteq> 0" and "entropy_ok e"
  shows "\<exists>p a. negotiate_audio b64e b64d (with_default_codecs ip0 tb) e now
      (snd (build_offer b64e (with_default_codecs ip1 tb1) now1 ipA portA prev1)) ipB portB prev = (p, Accepted a)
    \<and> ac_remote_media a = Some \<lparr> sa_ip = ipA, sa_port = portA \<rparr> \<and> ac_audio_codec a = Some Pcmu
    \<and> ac_audio_clock_rate a = Some 8000 \<and> ac_srtp a = None \<and> ac_dtls a = None
    \<and> parse_remote_rtp b64d (ac_answer_body a) = Some \<lparr> sa_ip = ipB, sa_port = portB \<rparr>"
proof -
  let ?A = "with_default_codecs ip1 tb1"
  define B where "B = (with_default_codecs ip0 tb) \<lparr> ng_local_ip := ipB \<rparr>"
  define v where "v = snd (next_origin_version now1 prev1)"
  define offer where "offer = offer_sdp ?A v ipA portA"
  have body: "snd (build_offer b64e ?A now1 ipA portA prev1) = sdp_show b64e offer"
    by (simp add: build_offer_def v_def offer_def case_prod_unfold Let_def)
  have wf: "sdp_wf offer" unfolding offer_def
    by (rule offer_sdp_wf [OF assms(2)]) (simp add: with_default_codecs_def rtpm_def rtpmap_wf_def tok_def graphic_def)
  have parsed: "sdp_parse b64d (sdp_show b64e offer) = Inr offer" using sdp_text_reads_back [OF wf assms(1)] .
  have audio: "find_kind KAudio offer = Some (hd (sd_media offer))" "md_port (hd (sd_media offer)) = portA"
      "md_protocol (hd (sd_media offer)) = ''RTP/AVP''" "md_connection (hd (sd_media offer)) = None" "sd_connection offer = Some ipA"
    by (simp_all add: offer_def offer_sdp_def find_kind_def media_new_def)
  have pts: "payload_types (hd (sd_media offer)) = [0, 8, 111]"
    by (rule payload_types_formats) (simp add: offer_def offer_sdp_def media_new_def with_default_codecs_def rtpm_def)
  have ch: "choose_codec (hd (sd_media offer)) (ng_supported B) = Some (rtpm 0 ''PCMU'' 8000 None)"
    unfolding choose_codec_def pts
    by (simp add: rtpmap_for_def offer_def offer_sdp_def media_new_def with_default_codecs_def rtpm_def eq_ignore_ascii_case_def B_def)
  have br: "transport_branch B e offer (hd (sd_media offer)) portB = Inr tp_empty"
    unfolding transport_branch_def audio
    by (simp add: is_dtls_srtp_profile_def eq_ignore_ascii_case_def to_ascii_lowercase_def Let_def to_ascii_upper_def)
  let ?m = "answer_media (hd (sd_media offer)) (rtpm 0 ''PCMU'' 8000 None)
    (telephone_event_for (hd (sd_media offer)) (rtpm 0 ''PCMU'' 8000 None)) tp_empty portB"
  have e0: "tp_srtp tp_empty = None" "tp_dtls tp_empty = None" "tp_ice tp_empty = None" by (simp_all add: tp_empty_def)
  define p where "p = snd (next_origin_version now prev)"
  have ver: "next_origin_version now prev = (p, p)" by (simp add: p_def next_origin_version_def Let_def)
  have ans: "ng_answer B e now offer portB prev = (p, Answer (ng_session B p offer [?m]) None None None)"
    using assms(4) by (simp add: ng_answer_def audio ch br e0 ver)
  define sdp where "sdp = ng_session B p offer [?m]"
  have Bwf: "ng_wf B" using default_ng_wf [OF assms(3), of tb] by (simp add: with_default_codecs_def ng_wf_def B_def)
  have "sdp_wf (sdp_norm sdp)" unfolding sdp_def by (rule answer_wf [OF ans sdp_wf_echo_ok [OF wf] Bwf assms(6)])
  then have reread: "parse_remote_rtp b64d (sdp_show b64e sdp) = media_endpoint KAudio sdp"
    using answer_reads_back [of sdp] assms(1) by (simp add: parse_remote_rtp_def)
  have m: "find_kind KAudio sdp = Some ?m" "sd_connection sdp = Some ipB"
    by (simp_all add: sdp_def ng_session_def find_kind_def answer_media_fields B_def)
  have c: "md_connection ?m = None"
    by (simp add: answer_media_def echo_media_attributes_def media_new_def Let_def)
  have "to_ascii_lowercase ''PCMU'' = ''pcmu''" by code_simp
  then have codec: "codec_parse ''PCMU'' = Pcmu" by (simp add: codec_parse_def)
  have rm: "rm_codec (rtpm 0 ''PCMU'' 8000 None) = ''PCMU''" "rm_clock_rate (rtpm 0 ''PCMU'' 8000 None) = 8000"
    by (simp_all add: rtpm_def)
  show ?thesis unfolding body negotiate_audio_def B_def [symmetric]
    using ans [folded sdp_def] reread m c assms(4,5) audio codec rm
    by (simp add: parsed outcome_of_def accepted_outcome_def media_endpoint_def first_codec_of_kind_def
        answer_media_fields)
qed

theorem engines_agree_witness:
  "\<exists>p a. negotiate_audio demo_b64e demo_b64d (with_default_codecs [10, 0, 0, 9] 5) demo_entropy 100
      (snd (build_offer demo_b64e (with_default_codecs [10, 0, 0, 1] 6) 90 [10, 0, 0, 1] 4000 0)) [10, 0, 0, 9] 7000 3 = (p, Accepted a)
    \<and> ac_audio_codec a = Some Pcmu"
  using engines_agree [OF demo_b64_ok _ _ _ _ demo_entropy_ok, of "[10, 0, 0, 1]" "[10, 0, 0, 9]" 4000 7000 "[10, 0, 0, 9]" 5 100
      "[10, 0, 0, 1]" 6 90 0 3] by (auto simp: ip_wf_def)

section \<open>An unrecognised profile\<close>

text \<open>Result.
  An offer of SRTP with feedback under SDES (\<^verbatim>\<open>RTP/SAVPF\<close>) is accepted without keys: as
  soon as a codec matches, the answer names the secure profile, carries no crypto line whatever the
  offer carried, and no keys reach the media plane. Only \<^verbatim>\<open>RTP/SAVP\<close> itself is held
  to the rule that a secure profile must not proceed unprotected.\<close>

theorem savpf_answered_without_keys:
  assumes "find_kind KAudio offer = Some audio" and "md_port audio \<noteq> 0" and "md_protocol audio = ''RTP/SAVPF''"
    and "choose_codec audio (ng_supported ng) \<noteq> None"
  shows "\<exists>p sdp. ng_answer ng e now offer port prev = (p, Answer sdp None None None)
    \<and> md_protocol (sd_media sdp ! 0) = ''RTP/SAVPF'' \<and> md_port (sd_media sdp ! 0) = port
    \<and> md_crypto (sd_media sdp ! 0) = [] \<and> md_fingerprint (sd_media sdp ! 0) = None"
proof -
  obtain chosen where c: "choose_codec audio (ng_supported ng) = Some chosen" using assms(4) by auto
  have "length (map to_ascii_upper ''RTP/SAVPF'') = 9" "length (to_ascii_lowercase ''RTP/SAVPF'') = 9"
    by (simp_all add: to_ascii_lowercase_def)
  moreover have "length (to_ascii_lowercase ''RTP/SAVP'') = 8" by (simp add: to_ascii_lowercase_def)
  ultimately have "\<not> is_dtls_srtp_profile ''RTP/SAVPF''" "\<not> eq_ignore_ascii_case ''RTP/SAVPF'' ''RTP/SAVP''"
    unfolding is_dtls_srtp_profile_def eq_ignore_ascii_case_def Let_def by (auto dest: arg_cong [where f = length])
  then have t: "transport_branch ng e offer audio port = Inr tp_empty" by (simp add: transport_branch_def assms(3))
  show ?thesis
    using assms(1-3) by (simp add: ng_answer_def c t next_origin_version_def Let_def)
      (simp add: ng_session_def answer_media_fields assms(3) tp_empty_def)
qed

theorem savpf_answered_without_keys_witness:
  "let audio = demo_audio \<lparr> md_protocol := ''RTP/SAVPF'' \<rparr>; offer = demo_sdp \<lparr> sd_media := [audio] \<rparr>
   in md_crypto audio \<noteq> [] \<and>
     (\<exists>p sdp. ng_answer demo_ng demo_entropy 100 offer 7000 3 = (p, Answer sdp None None None) \<and> md_crypto (sd_media sdp ! 0) = [])"
proof -
  let ?audio = "demo_audio \<lparr> md_protocol := ''RTP/SAVPF'' \<rparr>"
  have f: "find_kind KAudio (demo_sdp \<lparr> sd_media := [?audio] \<rparr>) = Some ?audio"
    by (simp add: find_kind_def demo_audio_def media_new_def)
  have "payload_types ?audio = payload_types demo_audio" "rtpmap_for ?audio = rtpmap_for demo_audio"
    by (auto simp: payload_types_def rtpmap_for_def)
  then have "choose_codec ?audio (ng_supported demo_ng) \<noteq> None"
    using demo_choice by (simp add: choose_codec_def)
  from savpf_answered_without_keys [OF f _ _ this, of demo_entropy 100 7000 3] demo_facts show ?thesis
    by (auto simp: Let_def)
qed

section \<open>Privacy\<close>

text \<open>Result.
  The privacy filters act exactly on the candidate types they name. An offer is clean when no
  candidate has the type \<^verbatim>\<open>host\<close> or \<^verbatim>\<open>srflx\<close>; stripping removes the
  host candidates, keeps every other candidate in order and changes nothing else, and reports the
  number removed. The comparison is by letter case, so a candidate written
  \<^verbatim>\<open>typ HOST\<close> passes both.\<close>

theorem privacy_filters_exact:
  "(reject_direct_candidates sd = Clean \<longleftrightarrow>
      (\<forall>m \<in> set (sd_media sd). \<forall>c \<in> set (md_candidates m). ic_candidate_type c \<noteq> ''host'' \<and> ic_candidate_type c \<noteq> ''srflx''))
   \<and> map md_candidates (sd_media (fst (strip_host_candidates sd)))
       = map (\<lambda>m. filter (\<lambda>c. ic_candidate_type c \<noteq> ''host'') (md_candidates m)) (sd_media sd)
   \<and> snd (strip_host_candidates sd)
       = length (filter (\<lambda>c. ic_candidate_type c = ''host'') (concat (map md_candidates (sd_media sd))))"
proof -
  have "length cs - length (filter (\<lambda>c. ic_candidate_type c \<noteq> ''host'') cs) = length (filter (\<lambda>c. ic_candidate_type c = ''host'') cs)"
    for cs :: "ice_candidate list"
    using sum_length_filter_compl [of "\<lambda>c. ic_candidate_type c = ''host''" cs] by simp
  then have "snd (strip_host_candidates sd)
       = length (filter (\<lambda>c. ic_candidate_type c = ''host'') (concat (map md_candidates (sd_media sd))))"
    by (simp add: strip_host_candidates_def strip_host_candidates_on_def filter_concat length_concat comp_def Let_def)
  then show ?thesis
    by (auto simp: reject_direct_candidates_def DIRECTLY_REACHABLE_TYPES_def list_ex_iff strip_host_candidates_def
        strip_host_candidates_on_def Let_def)
qed

end
