(* ===== verification/Fixed_Frame.thy ===== *)
theory Fixed_Frame
  imports Rust_Str
begin

text \<open>
  The fixed-offset plug-in wire format (\<^verbatim>\<open>smiths-proto/src/fixed_frame.rs\<close>): the
  zero-copy RTP frame view with its accessors, the RTP frame encoder and decoder, and the envelope
  encoder and decoder. A \<^verbatim>\<open>usize\<close> is a natural number here; the checked additions
  of the length fields keep the 64-bit bound. An \<^verbatim>\<open>i32\<close> is carried as its 32-bit
  pattern.
\<close>

section \<open>Model\<close>

datatype wire_format_error = Malformed string

record rtp_frame =
  rf_call_id :: bytes
  rf_ssrc :: u32
  rf_sequence :: u32
  rf_timestamp :: u32
  rf_payload_type :: u32
  rf_direction :: bytes
  rf_payload :: octets

record env_request =
  rq_id :: u64
  rq_method :: bytes
  rq_params :: bytes

record env_response =
  rs_id :: u64
  rs_result :: bytes
  rs_error_message :: bytes
  rs_error_code :: u32

record env_notification =
  nt_method :: bytes
  nt_params :: bytes

datatype envelope_kind = Request env_request | Response env_response | Notification env_notification

record envelope =
  env_kind :: "envelope_kind option"

text \<open>\<^verbatim>\<open>usize::checked_add\<close> with its error.\<close>

definition add_or :: "string \<Rightarrow> nat \<Rightarrow> nat \<Rightarrow> wire_format_error + nat" where
  "add_or msg a b = (if a + b < 2 ^ 64 then Inr (a + b) else Inl (Malformed msg))"

subsection \<open>RTP frames\<close>

definition RTP_MAGIC :: octets where "RTP_MAGIC = [0x53, 0x4D, 0x52, 0x46]"
definition RTP_VERSION :: u16 where "RTP_VERSION = 1"
definition RTP_HEADER_LEN :: nat where "RTP_HEADER_LEN = 32"

record rtp_frame_view =
  vw_bytes :: octets
  vw_direction_start :: nat
  vw_direction_end :: nat
  vw_call_id_start :: nat
  vw_call_id_end :: nat
  vw_payload_start :: nat
  vw_payload_end :: nat

definition view_new :: "octets \<Rightarrow> wire_format_error + rtp_frame_view" where
  "view_new bs =
     (if length bs < RTP_HEADER_LEN then Inl (Malformed ''rtp header too short'')
      else if slice 0 4 bs \<noteq> RTP_MAGIC then Inl (Malformed ''rtp magic mismatch'')
      else if from_le (slice 4 6 bs) \<noteq> RTP_VERSION then Inl (Malformed ''rtp version mismatch'')
      else
        let dir_len = unat (from_le (slice 24 26 bs) :: u16);
            call_id_len = unat (from_le (slice 26 28 bs) :: u16);
            payload_len = unat (from_le (slice 28 32 bs) :: u32);
            dir_start = RTP_HEADER_LEN
        in try_bind (add_or ''rtp direction length overflow'' dir_start dir_len) (\<lambda>dir_end.
           try_bind (add_or ''rtp call_id length overflow'' dir_end call_id_len) (\<lambda>call_id_end.
           try_bind (add_or ''rtp payload length overflow'' call_id_end payload_len) (\<lambda>payload_end.
             if payload_end > length bs then Inl (Malformed ''rtp frame truncated'')
             else Inr \<lparr> vw_bytes = bs, vw_direction_start = dir_start, vw_direction_end = dir_end,
                        vw_call_id_start = dir_end, vw_call_id_end = call_id_end,
                        vw_payload_start = call_id_end, vw_payload_end = payload_end \<rparr>))))"

definition view_ssrc :: "rtp_frame_view \<Rightarrow> u32" where
  "view_ssrc v = from_le (slice 8 12 (vw_bytes v))"

definition view_sequence :: "rtp_frame_view \<Rightarrow> u32" where
  "view_sequence v = from_le (slice 12 16 (vw_bytes v))"

definition view_timestamp :: "rtp_frame_view \<Rightarrow> u32" where
  "view_timestamp v = from_le (slice 16 20 (vw_bytes v))"

definition view_payload_type :: "rtp_frame_view \<Rightarrow> u32" where
  "view_payload_type v = from_le (slice 20 24 (vw_bytes v))"

text \<open>\<^verbatim>\<open>std::str::from_utf8(..).unwrap_or("")\<close>.\<close>

definition utf8_or_empty :: "octets \<Rightarrow> bytes" where
  "utf8_or_empty bs = (let s = chars bs in if valid_utf8 s then s else [])"

definition view_direction :: "rtp_frame_view \<Rightarrow> bytes" where
  "view_direction v = utf8_or_empty (slice (vw_direction_start v) (vw_direction_end v) (vw_bytes v))"

definition view_call_id :: "rtp_frame_view \<Rightarrow> bytes" where
  "view_call_id v = utf8_or_empty (slice (vw_call_id_start v) (vw_call_id_end v) (vw_bytes v))"

definition view_payload :: "rtp_frame_view \<Rightarrow> octets" where
  "view_payload v = slice (vw_payload_start v) (vw_payload_end v) (vw_bytes v)"

definition encode_rtp_frame_fixed :: "rtp_frame \<Rightarrow> octets" where
  "encode_rtp_frame_fixed f =
     (let direction = octets_of (rf_direction f);
          call_id = octets_of (rf_call_id f);
          payload = rf_payload f
      in RTP_MAGIC @ le_bytes 2 RTP_VERSION @ le_bytes 2 (0 :: u16)
         @ le_bytes 4 (rf_ssrc f) @ le_bytes 4 (rf_sequence f)
         @ le_bytes 4 (rf_timestamp f) @ le_bytes 4 (rf_payload_type f)
         @ le_bytes 2 (try_from_or_max (length direction) :: u16)
         @ le_bytes 2 (try_from_or_max (length call_id) :: u16)
         @ le_bytes 4 (try_from_or_max (length payload) :: u32)
         @ direction @ call_id @ payload)"

definition decode_rtp_frame_fixed :: "octets \<Rightarrow> wire_format_error + rtp_frame" where
  "decode_rtp_frame_fixed bs =
     try_bind (view_new bs) (\<lambda>view. Inr
       \<lparr> rf_call_id = view_call_id view, rf_ssrc = view_ssrc view, rf_sequence = view_sequence view,
         rf_timestamp = view_timestamp view, rf_payload_type = view_payload_type view,
         rf_direction = view_direction view, rf_payload = view_payload view \<rparr>)"

subsection \<open>Envelopes\<close>

definition ENV_MAGIC :: octets where "ENV_MAGIC = [0x53, 0x4D, 0x45, 0x56]"
definition ENV_VERSION :: u16 where "ENV_VERSION = 1"
definition ENV_HEADER_LEN :: nat where "ENV_HEADER_LEN = 36"
definition ENV_KIND_NONE :: u8 where "ENV_KIND_NONE = 0"
definition ENV_KIND_REQUEST :: u8 where "ENV_KIND_REQUEST = 1"
definition ENV_KIND_RESPONSE :: u8 where "ENV_KIND_RESPONSE = 2"
definition ENV_KIND_NOTIFICATION :: u8 where "ENV_KIND_NOTIFICATION = 3"

definition split_envelope :: "envelope \<Rightarrow> u8 \<times> u64 \<times> bytes \<times> bytes \<times> bytes \<times> bytes \<times> u32" where
  "split_envelope e =
     (case env_kind e of
        None \<Rightarrow> (ENV_KIND_NONE, 0, [], [], [], [], 0)
      | Some (Request r) \<Rightarrow> (ENV_KIND_REQUEST, rq_id r, rq_method r, rq_params r, [], [], 0)
      | Some (Response r) \<Rightarrow>
          (ENV_KIND_RESPONSE, rs_id r, [], [], rs_result r, rs_error_message r, rs_error_code r)
      | Some (Notification n) \<Rightarrow> (ENV_KIND_NOTIFICATION, 0, nt_method n, nt_params n, [], [], 0))"

text \<open>The octets of an envelope, from the values \<^verbatim>\<open>split_envelope\<close> delivers.\<close>

definition envelope_octets ::
    "u8 \<Rightarrow> u64 \<Rightarrow> octets \<Rightarrow> octets \<Rightarrow> octets \<Rightarrow> octets \<Rightarrow> u32 \<Rightarrow> octets" where
  "envelope_octets kind eid meth params result err err_code =
     ENV_MAGIC @ le_bytes 2 ENV_VERSION @ [kind] @ [0] @ le_bytes 8 eid @ le_bytes 4 err_code
     @ le_bytes 4 (try_from_or_max (length meth) :: u32)
     @ le_bytes 4 (try_from_or_max (length params) :: u32)
     @ le_bytes 4 (try_from_or_max (length result) :: u32)
     @ le_bytes 4 (try_from_or_max (length err) :: u32)
     @ meth @ params @ result @ err"

definition encode_envelope_fixed :: "envelope \<Rightarrow> octets" where
  "encode_envelope_fixed e =
     (let (kind, eid, meth, params, result, err_msg, err_code) = split_envelope e
      in envelope_octets kind eid (octets_of meth) (octets_of params) (octets_of result)
           (octets_of err_msg) err_code)"

definition utf8 :: "octets \<Rightarrow> wire_format_error + bytes" where
  "utf8 bs = (let s = chars bs in if valid_utf8 s then Inr s else Inl (Malformed ''envelope UTF-8''))"

definition kind_variant ::
    "u8 \<Rightarrow> u64 \<Rightarrow> bytes \<Rightarrow> bytes \<Rightarrow> bytes \<Rightarrow> bytes \<Rightarrow> u32 \<Rightarrow>
     wire_format_error + envelope_kind option" where
  "kind_variant kind eid meth params result err_msg err_code =
     (if kind = ENV_KIND_NONE then Inr None
      else if kind = ENV_KIND_REQUEST then
        Inr (Some (Request \<lparr> rq_id = eid, rq_method = meth, rq_params = params \<rparr>))
      else if kind = ENV_KIND_RESPONSE then
        Inr (Some (Response \<lparr> rs_id = eid, rs_result = result, rs_error_message = err_msg,
                              rs_error_code = err_code \<rparr>))
      else if kind = ENV_KIND_NOTIFICATION then
        Inr (Some (Notification \<lparr> nt_method = meth, nt_params = params \<rparr>))
      else Inl (Malformed ''envelope: unknown kind''))"

definition decode_envelope_fixed :: "octets \<Rightarrow> wire_format_error + envelope" where
  "decode_envelope_fixed bs =
     (if length bs < ENV_HEADER_LEN then Inl (Malformed ''envelope header too short'')
      else if slice 0 4 bs \<noteq> ENV_MAGIC then Inl (Malformed ''envelope magic mismatch'')
      else if from_le (slice 4 6 bs) \<noteq> ENV_VERSION then Inl (Malformed ''envelope version mismatch'')
      else
        let kind = bs ! 6;
            eid = from_le (slice 8 16 bs);
            err_code = from_le (slice 16 20 bs);
            method_len = unat (from_le (slice 20 24 bs) :: u32);
            params_len = unat (from_le (slice 24 28 bs) :: u32);
            result_len = unat (from_le (slice 28 32 bs) :: u32);
            err_len = unat (from_le (slice 32 36 bs) :: u32);
            method_start = ENV_HEADER_LEN
        in try_bind (add_or ''envelope method len overflow'' method_start method_len) (\<lambda>method_end.
           try_bind (add_or ''envelope params len overflow'' method_end params_len) (\<lambda>params_end.
           try_bind (add_or ''envelope result len overflow'' params_end result_len) (\<lambda>result_end.
           try_bind (add_or ''envelope err len overflow'' result_end err_len) (\<lambda>err_end.
             if err_end > length bs then Inl (Malformed ''envelope truncated'')
             else
               try_bind (utf8 (slice method_start method_end bs)) (\<lambda>meth.
               try_bind (utf8 (slice method_end params_end bs)) (\<lambda>params.
               try_bind (utf8 (slice params_end result_end bs)) (\<lambda>result.
               try_bind (utf8 (slice result_end err_end bs)) (\<lambda>err_msg.
               try_bind (kind_variant kind eid meth params result err_msg err_code) (\<lambda>k.
                 Inr \<lparr> env_kind = k \<rparr>))))))))))"

section \<open>Reading back the header fields\<close>

lemma add_or_small: "a + b < 2 ^ 64 \<Longrightarrow> add_or msg a b = Inr (a + b)"
  by (simp add: add_or_def)

lemma slice_skip:
  "length xs \<le> a \<Longrightarrow> slice a b (xs @ ys) = slice (a - length xs) (b - length xs) ys"
  by (simp add: slice_def)

lemma slice_front: "length xs = b \<Longrightarrow> slice 0 b (xs @ ys) = xs"
  by (simp add: slice_def)

lemmas field_slices = slice_skip slice_front

text \<open>The octets after a frame's or an envelope's magic number: consecutive fields.\<close>

definition frame_octets :: "rtp_frame \<Rightarrow> u16 \<Rightarrow> u16 \<Rightarrow> u32 \<Rightarrow> octets \<Rightarrow> octets" where
  "frame_octets f d c p body =
     RTP_MAGIC @ le_bytes 2 RTP_VERSION @ le_bytes 2 (0 :: u16)
     @ le_bytes 4 (rf_ssrc f) @ le_bytes 4 (rf_sequence f)
     @ le_bytes 4 (rf_timestamp f) @ le_bytes 4 (rf_payload_type f)
     @ le_bytes 2 d @ le_bytes 2 c @ le_bytes 4 p @ body"

lemma frame_octets_fields:
  "slice 0 4 (frame_octets f d c p body) = RTP_MAGIC"
  "slice 4 6 (frame_octets f d c p body) = le_bytes 2 RTP_VERSION"
  "slice 8 12 (frame_octets f d c p body) = le_bytes 4 (rf_ssrc f)"
  "slice 12 16 (frame_octets f d c p body) = le_bytes 4 (rf_sequence f)"
  "slice 16 20 (frame_octets f d c p body) = le_bytes 4 (rf_timestamp f)"
  "slice 20 24 (frame_octets f d c p body) = le_bytes 4 (rf_payload_type f)"
  "slice 24 26 (frame_octets f d c p body) = le_bytes 2 d"
  "slice 26 28 (frame_octets f d c p body) = le_bytes 2 c"
  "slice 28 32 (frame_octets f d c p body) = le_bytes 4 p"
  "length (frame_octets f d c p body) = 32 + length body"
  "32 \<le> a \<Longrightarrow> slice a b (frame_octets f d c p body) = slice (a - 32) (b - 32) body"
  by (simp_all add: frame_octets_def field_slices RTP_MAGIC_def del: append.simps)

lemma frame_octets_append: "frame_octets f d c p body @ rest = frame_octets f d c p (body @ rest)"
  by (simp add: frame_octets_def)

text \<open>Whatever the three lengths, decoding cuts the body at their partial sums.\<close>

lemma decode_frame_octets:
  "decode_rtp_frame_fixed (frame_octets f d c p body) =
     (let i = unat d; j = i + unat c; k = j + unat p
      in if k \<le> length body
         then Inr (f \<lparr> rf_direction := utf8_or_empty (slice 0 i body),
                       rf_call_id := utf8_or_empty (slice i j body),
                       rf_payload := slice j k body \<rparr>)
         else Inl (Malformed ''rtp frame truncated''))"
proof -
  have "unat d < 2 ^ 16" "unat c < 2 ^ 16" "unat p < 2 ^ 32"
    using unsigned_less [of d] unsigned_less [of c] unsigned_less [of p] by simp_all
  then have sums: "RTP_HEADER_LEN + unat d < 2 ^ 64" "RTP_HEADER_LEN + unat d + unat c < 2 ^ 64"
    "RTP_HEADER_LEN + unat d + unat c + unat p < 2 ^ 64"
    by (simp_all add: RTP_HEADER_LEN_def)
  show ?thesis
    unfolding decode_rtp_frame_fixed_def view_new_def
    using sums
    by (cases f; simp add: frame_octets_fields add_or_small Let_def add.assoc)
       (auto simp: add.assoc frame_octets_fields RTP_HEADER_LEN_def view_call_id_def view_ssrc_def
          view_sequence_def view_timestamp_def view_payload_type_def view_direction_def view_payload_def)
qed

section \<open>RTP frames\<close>

lemma encode_is_frame_octets:
  "encode_rtp_frame_fixed f =
     frame_octets f (try_from_or_max (length (rf_direction f))) (try_from_or_max (length (rf_call_id f)))
       (try_from_or_max (length (rf_payload f)))
       (octets_of (rf_direction f) @ octets_of (rf_call_id f) @ rf_payload f)"
  by (simp add: encode_rtp_frame_fixed_def frame_octets_def Let_def)

lemma utf8_or_empty_octets_of: "valid_utf8 s \<Longrightarrow> utf8_or_empty (octets_of s) = s"
  by (simp add: utf8_or_empty_def)

text \<open>The frames the format can carry: Rust strings (UTF-8) short enough for the 16-bit lengths,
  a payload short enough for the 32-bit one.\<close>

definition rtp_frame_ok :: "rtp_frame \<Rightarrow> bool" where
  "rtp_frame_ok f \<longleftrightarrow> valid_utf8 (rf_direction f) \<and> valid_utf8 (rf_call_id f) \<and>
     length (rf_direction f) < 2 ^ 16 \<and> length (rf_call_id f) < 2 ^ 16 \<and> length (rf_payload f) < 2 ^ 32"

lemma decode_encode_rest:
  assumes "rtp_frame_ok f"
  shows "decode_rtp_frame_fixed (encode_rtp_frame_fixed f @ rest) = Inr f"
proof -
  from assms have ok: "valid_utf8 (rf_direction f)" "valid_utf8 (rf_call_id f)"
    "length (rf_direction f) < 2 ^ LENGTH(16)" "length (rf_call_id f) < 2 ^ LENGTH(16)"
    "length (rf_payload f) < 2 ^ LENGTH(32)"
    by (simp_all add: rtp_frame_ok_def)
  show ?thesis
    using ok
    by (simp add: encode_is_frame_octets frame_octets_append decode_frame_octets unat_try_from_or_max Let_def
        slice_skip slice_front slice_append_here utf8_or_empty_octets_of del: len_num0 len_num1 len_bit0 len_bit1)
qed

interpretation fixed_frame: wire_codec encode_rtp_frame_fixed decode_rtp_frame_fixed rtp_frame_ok
  using decode_encode_rest [where rest = "[]"] by unfold_locales simp

text \<open>Result.
  Every RTP frame whose direction and call id are UTF-8 and fit the 16-bit length fields, and whose
  payload fits the 32-bit one, is read back unchanged from the octets the encoder writes, whatever
  octets follow; and a frame with the same octets is the same frame.\<close>

theorem fixed_frame_roundtrip:
  assumes "rtp_frame_ok f" and "rtp_frame_ok g"
  shows "decode_rtp_frame_fixed (encode_rtp_frame_fixed f @ rest) = Inr f \<and>
    (encode_rtp_frame_fixed f = encode_rtp_frame_fixed g \<longleftrightarrow> f = g)"
  using assms by (simp add: decode_encode_rest fixed_frame.encode_eq_iff)

definition demo_frame :: rtp_frame where
  "demo_frame = \<lparr> rf_call_id = ''a84b4c'', rf_ssrc = 0xDEADBEEF, rf_sequence = 7, rf_timestamp = 160,
     rf_payload_type = 0, rf_direction = ''a_to_b'', rf_payload = [1, 2, 3] \<rparr>"

theorem fixed_frame_roundtrip_witness:
  "decode_rtp_frame_fixed (encode_rtp_frame_fixed demo_frame @ [0xFF]) = Inr demo_frame \<and>
   encode_rtp_frame_fixed demo_frame \<noteq> encode_rtp_frame_fixed (demo_frame \<lparr> rf_sequence := 8 \<rparr>)"
proof -
  have "rtp_frame_ok demo_frame" "rtp_frame_ok (demo_frame \<lparr> rf_sequence := 8 \<rparr>)"
    by (simp_all add: rtp_frame_ok_def demo_frame_def)
  from fixed_frame_roundtrip [OF this] show ?thesis by (simp add: demo_frame_def)
qed

text \<open>A direction past the 16-bit field: the length is written as 65535 while all its octets are
  appended, so the reader takes the overhang for the call id and shifts the payload.\<close>

lemma ascii_take_drop: "is_ascii s \<Longrightarrow> is_ascii (take n s)" "is_ascii s \<Longrightarrow> is_ascii (drop n s)"
  by (auto simp: is_ascii_def dest: in_set_takeD in_set_dropD)

lemma octets_of_simps:
  "octets_of (s @ t) = octets_of s @ octets_of t" "take n (octets_of s) = octets_of (take n s)"
  "drop n (octets_of s) = octets_of (drop n s)"
  by (simp_all add: octets_of_def take_map drop_map)

lemma slice_octets_of: "slice a b (octets_of s) = octets_of (slice a b s)"
  by (simp add: slice_def octets_of_simps)

text \<open>Result.
  The encoder writes a direction of 2^16 octets or more in full but clamps its length field to
  65535: the decoder accepts the result, takes the overhang as the beginning of the call id, and
  returns another frame than the one sent.\<close>

theorem fixed_frame_overlong_direction:
  assumes "is_ascii (rf_direction f)" and "is_ascii (rf_call_id f)"
    and "2 ^ 16 \<le> length (rf_direction f)" and "length (rf_call_id f) < 2 ^ 16"
    and "length (rf_payload f) < 2 ^ 32"
  shows "\<exists>g. decode_rtp_frame_fixed (encode_rtp_frame_fixed f) = Inr g \<and>
    rf_direction g = take 65535 (rf_direction f) \<and>
    rf_call_id g = take (length (rf_call_id f)) (drop 65535 (rf_direction f) @ rf_call_id f) \<and>
    g \<noteq> f"
proof -
  let ?d = "rf_direction f" and ?c = "rf_call_id f" and ?p = "rf_payload f"
  let ?n = "length ?c" and ?m = "length ?p"
  let ?body = "octets_of (?d @ ?c) @ ?p"
  have lens: "unat (try_from_or_max (length ?d) :: u16) = 65535"
    "unat (try_from_or_max ?n :: u16) = ?n" "unat (try_from_or_max ?m :: u32) = ?m"
    using assms by (simp_all add: try_from_or_max_def unat_of_nat unsigned_minus_1_eq_mask mask_eq_exp_minus_1)
  have body: "octets_of ?d @ octets_of ?c @ ?p = ?body" by (simp add: octets_of_simps)
  have cuts: "slice 0 65535 ?body = octets_of (take 65535 ?d)"
    "slice 65535 (65535 + ?n) ?body = octets_of (take ?n (drop 65535 ?d @ ?c))"
    using assms(3) by (simp_all add: slice_append_left slice_octets_of)
       (simp_all add: slice_def)
  have "valid_utf8 (take 65535 ?d)" "valid_utf8 (take ?n (drop 65535 ?d @ ?c))"
    using assms(1,2) by (auto intro!: valid_utf8_ascii simp: ascii_take_drop) 
       (auto simp: is_ascii_def dest: in_set_takeD in_set_dropD)
  moreover have "65535 + ?n + ?m \<le> length ?body" using assms(3) by simp
  ultimately have "decode_rtp_frame_fixed (encode_rtp_frame_fixed f) =
      Inr (f \<lparr> rf_direction := take 65535 ?d, rf_call_id := take ?n (drop 65535 ?d @ ?c),
               rf_payload := slice (65535 + ?n) (65535 + ?n + ?m) ?body \<rparr>)"
    unfolding encode_is_frame_octets body decode_frame_octets
    using cuts by (simp add: lens Let_def utf8_or_empty_octets_of del: take_append)
  moreover have "f \<lparr> rf_direction := take 65535 ?d, rf_call_id := c, rf_payload := p \<rparr> \<noteq> f" for c p
    using assms(3) by (auto dest!: arg_cong [of _ _ "\<lambda>x. length (rf_direction x)"])
  ultimately show ?thesis by auto
qed

theorem fixed_frame_overlong_direction_witness:
  "\<exists>g. decode_rtp_frame_fixed (encode_rtp_frame_fixed (demo_frame \<lparr> rf_direction := replicate 65536 CHR ''x'' \<rparr>)) = Inr g \<and>
     rf_call_id g = ''xa84b4''"
proof -
  let ?f = "demo_frame \<lparr> rf_direction := replicate 65536 CHR ''x'' \<rparr>"
  have "is_ascii (rf_direction ?f)" "is_ascii (rf_call_id ?f)" "2 ^ 16 \<le> length (rf_direction ?f)"
    "length (rf_call_id ?f) < 2 ^ 16" "length (rf_payload ?f) < 2 ^ 32"
    by (auto simp: is_ascii_def demo_frame_def)
  from fixed_frame_overlong_direction [OF this] show ?thesis
    by (auto simp: demo_frame_def)
qed

section \<open>Envelopes\<close>

lemma envelope_octets_fields:
  assumes "e = envelope_octets k i m p r x err_code"
  shows "slice 0 4 e = ENV_MAGIC" "slice 4 6 e = le_bytes 2 ENV_VERSION" "e ! 6 = k"
    "slice 8 16 e = le_bytes 8 i" "slice 16 20 e = le_bytes 4 err_code"
    "slice 20 24 e = le_bytes 4 (try_from_or_max (length m) :: u32)"
    "slice 24 28 e = le_bytes 4 (try_from_or_max (length p) :: u32)"
    "slice 28 32 e = le_bytes 4 (try_from_or_max (length r) :: u32)"
    "slice 32 36 e = le_bytes 4 (try_from_or_max (length x) :: u32)"
    "length e = 36 + (length m + (length p + (length r + length x)))"
    "36 \<le> a \<Longrightarrow> slice a b e = slice (a - 36) (b - 36) (m @ p @ r @ x)"
  by (simp_all add: assms envelope_octets_def field_slices nth_append ENV_MAGIC_def del: append.simps)

lemma decode_envelope_octets:
  fixes err_code :: u32
  assumes "length m < 2 ^ 32" "length p < 2 ^ 32" "length r < 2 ^ 32" "length x < 2 ^ 32"
  shows "decode_envelope_fixed (envelope_octets k i m p r x err_code) =
     try_bind (utf8 m) (\<lambda>meth. try_bind (utf8 p) (\<lambda>params. try_bind (utf8 r) (\<lambda>result.
     try_bind (utf8 x) (\<lambda>err_msg.
     try_bind (kind_variant k i meth params result err_msg err_code) (\<lambda>v. Inr \<lparr> env_kind = v \<rparr>)))))"
proof -
  have lens: "unat (try_from_or_max (length m) :: u32) = length m" "unat (try_from_or_max (length p) :: u32) = length p"
    "unat (try_from_or_max (length r) :: u32) = length r" "unat (try_from_or_max (length x) :: u32) = length x"
    using assms by (simp_all add: try_from_or_max_def unat_of_nat)
  have sums: "ENV_HEADER_LEN + length m < 2 ^ 64" "ENV_HEADER_LEN + length m + length p < 2 ^ 64"
    "ENV_HEADER_LEN + length m + length p + length r < 2 ^ 64"
    "ENV_HEADER_LEN + length m + length p + length r + length x < 2 ^ 64"
    using assms by (simp_all add: ENV_HEADER_LEN_def)
  show ?thesis
    unfolding decode_envelope_fixed_def
    by (simp add: envelope_octets_fields [OF refl] lens add_or_small [OF sums(1)] add_or_small [OF sums(2)]
        add_or_small [OF sums(3)] add_or_small [OF sums(4)] Let_def)
      (simp add: envelope_octets_fields [OF refl] ENV_HEADER_LEN_def slice_skip slice_front slice_append_here)
qed

lemma utf8_octets_of: "valid_utf8 s \<Longrightarrow> utf8 (octets_of s) = Inr s"
  by (simp add: utf8_def)

fun envelope_kind_ok :: "envelope_kind \<Rightarrow> bool" where
  "envelope_kind_ok (Request r) \<longleftrightarrow> (\<forall>s \<in> {rq_method r, rq_params r}. valid_utf8 s \<and> length s < 2 ^ 32)"
| "envelope_kind_ok (Response r) \<longleftrightarrow> (\<forall>s \<in> {rs_result r, rs_error_message r}. valid_utf8 s \<and> length s < 2 ^ 32)"
| "envelope_kind_ok (Notification n) \<longleftrightarrow> (\<forall>s \<in> {nt_method n, nt_params n}. valid_utf8 s \<and> length s < 2 ^ 32)"

definition envelope_ok :: "envelope \<Rightarrow> bool" where
  "envelope_ok e \<longleftrightarrow> pred_option envelope_kind_ok (env_kind e)"

lemma envelope_decode_encode: "envelope_ok e \<Longrightarrow> decode_envelope_fixed (encode_envelope_fixed e) = Inr e"
  by (cases e; cases "env_kind e"; cases "the (env_kind e)")
     (auto simp: envelope_ok_def encode_envelope_fixed_def split_envelope_def decode_envelope_octets
        utf8_octets_of kind_variant_def ENV_KIND_NONE_def ENV_KIND_REQUEST_def ENV_KIND_RESPONSE_def
        ENV_KIND_NOTIFICATION_def)

interpretation fixed_envelope: wire_codec encode_envelope_fixed decode_envelope_fixed envelope_ok
  by unfold_locales (rule envelope_decode_encode)

text \<open>Result.
  Requests, responses, notifications and the empty envelope are read back unchanged from the octets
  the fixed-offset encoder writes for them, so long as their strings are UTF-8 and shorter than
  2^32 octets; and two such envelopes with the same octets are the same envelope.\<close>

theorem fixed_envelope_roundtrip:
  assumes "envelope_ok e" and "envelope_ok e'"
  shows "decode_envelope_fixed (encode_envelope_fixed e) = Inr e \<and>
    (encode_envelope_fixed e = encode_envelope_fixed e' \<longleftrightarrow> e = e')"
  using assms by (simp add: envelope_decode_encode fixed_envelope.encode_eq_iff)

theorem fixed_envelope_roundtrip_witness:
  "decode_envelope_fixed (encode_envelope_fixed \<lparr> env_kind = Some (Request \<lparr> rq_id = 42,
     rq_method = ''synthesize'', rq_params = ''{}'' \<rparr>) \<rparr>)
   = Inr \<lparr> env_kind = Some (Request \<lparr> rq_id = 42, rq_method = ''synthesize'', rq_params = ''{}'' \<rparr>) \<rparr>"
proof -
  let ?e = "\<lparr> env_kind = Some (Request \<lparr> rq_id = 42, rq_method = ''synthesize'', rq_params = ''{}'' \<rparr>) \<rparr>"
  have "envelope_ok ?e" by (simp add: envelope_ok_def)
  from fixed_envelope_roundtrip [OF this this] show ?thesis by simp
qed

end
