(* ===== verification/Sidecar_Rpc.thy ===== *)
theory Sidecar_Rpc
  imports Fixed_Frame
begin

text \<open>
  The sidecar plug-in channel (\<^verbatim>\<open>smiths-sidecar/src/framing.rs\<close>,
  \<^verbatim>\<open>rpc.rs\<close> and the RPC half of \<^verbatim>\<open>supervisor.rs\<close>): request
  encoding in both wire formats, the binary frame body decoder, the two stdout reader loops, the
  routing of a decoded frame, and a call from its registration to its result.

  \<^verbatim>\<open>serde_json\<close> is a parameter: \<open>'j\<close> stands for \<^verbatim>\<open>Value\<close> and
  the record \<open>serde_json\<close> holds the functions the code calls. A one-shot channel is a number;
  \<open>sc_inbox\<close> holds what was sent on it, and its sender is alive exactly while \<open>sc_pending\<close>
  names it. A reader loop runs on all the octets its child wrote before the pipe closed.
\<close>

section \<open>Model\<close>

datatype sidecar_wire_format = Json | Binary

definition wire_format_as_str :: "sidecar_wire_format \<Rightarrow> string" where
  "wire_format_as_str f = (case f of Json \<Rightarrow> ''json'' | Binary \<Rightarrow> ''binary'')"

datatype frame_error = TooLarge (declared: nat) (cap: nat) | FrameMalformed bytes | FrameEmpty

definition LENGTH_PREFIX :: nat where "LENGTH_PREFIX = 4"

record 'j rpc_error =
  re_code :: int
  re_message :: bytes
  re_data :: "'j option"

record 'j rpc_response =
  rr_id :: "u64 option"
  rr_result :: "'j option"
  rr_error :: "'j rpc_error option"
  rr_method :: "bytes option"
  rr_params :: "'j option"

record 'j serde_json =
  js_from_str :: "bytes \<Rightarrow> 'j option"
  js_response :: "bytes \<Rightarrow> 'j rpc_response option"
  js_to_string :: "'j \<Rightarrow> bytes"
  js_request :: "u64 \<Rightarrow> bytes \<Rightarrow> 'j \<Rightarrow> octets option"
  js_string :: "bytes \<Rightarrow> 'j"
  js_null :: "'j"

subsection \<open>Frames\<close>

definition request_fallback :: octets where
  "request_fallback = octets_of
     ''{\"jsonrpc\":\"2.0\",\"id\":0,\"method\":\"\",\"params\":null}''"

definition encode_request ::
    "'j serde_json \<Rightarrow> sidecar_wire_format \<Rightarrow> u64 \<Rightarrow> bytes \<Rightarrow> 'j \<Rightarrow> octets" where
  "encode_request js fmt rid meth params =
     (case fmt of
        Json \<Rightarrow>
          (case js_request js rid meth params of Some buf \<Rightarrow> buf | None \<Rightarrow> request_fallback) @ [0x0A]
      | Binary \<Rightarrow>
          (let body = encode_envelope_fixed \<lparr> env_kind = Some (Request
                 \<lparr> rq_id = rid, rq_method = meth, rq_params = js_to_string js params \<rparr>) \<rparr>
           in be_bytes 4 (try_from_or_max (length body) :: u32) @ body))"

text \<open>A field that is not JSON is handed on as a JSON string.\<close>

definition value_or_string :: "'j serde_json \<Rightarrow> bytes \<Rightarrow> 'j" where
  "value_or_string js s = (case js_from_str js s of Some v \<Rightarrow> v | None \<Rightarrow> js_string js s)"

definition response_of_kind :: "'j serde_json \<Rightarrow> envelope_kind \<Rightarrow> frame_error + 'j rpc_response" where
  "response_of_kind js kind =
     (case kind of
        Response r \<Rightarrow>
          Inr \<lparr> rr_id = Some (rs_id r),
                rr_result = (if rs_result r = [] then None else Some (value_or_string js (rs_result r))),
                rr_error = (if rs_error_message r = [] then None
                            else Some \<lparr> re_code = sint (rs_error_code r),
                                        re_message = rs_error_message r, re_data = None \<rparr>),
                rr_method = None, rr_params = None \<rparr>
      | Notification n \<Rightarrow>
          Inr \<lparr> rr_id = None, rr_result = None, rr_error = None, rr_method = Some (nt_method n),
                rr_params = Some (value_or_string js (nt_params n)) \<rparr>
      | Request r \<Rightarrow>
          Inl (FrameMalformed (''child sent a request (`'' @ rq_method r
                 @ ''`); sidecars only reply and notify'')))"

definition wire_format_error_text :: "wire_format_error \<Rightarrow> bytes" where
  "wire_format_error_text e = (case e of Malformed m \<Rightarrow> ''wire format: malformed: '' @ m)"

definition decode_binary_body :: "'j serde_json \<Rightarrow> octets \<Rightarrow> frame_error + 'j rpc_response" where
  "decode_binary_body js body =
     (case decode_envelope_fixed body of
        Inl e \<Rightarrow> Inl (FrameMalformed (wire_format_error_text e))
      | Inr env \<Rightarrow>
          (case env_kind env of None \<Rightarrow> Inl FrameEmpty | Some kind \<Rightarrow> response_of_kind js kind))"

definition check_declared_len :: "nat \<Rightarrow> nat \<Rightarrow> frame_error + unit" where
  "check_declared_len d c = (if d > c then Inl (TooLarge d c) else Inr ())"

subsection \<open>Calls\<close>

record 'j plugin_notification =
  pn_method :: bytes
  pn_params :: "'j option"

record 'j sidecar =
  sc_next_id :: u64
  sc_pending :: "u64 \<rightharpoonup> nat"
  sc_channels :: nat
  sc_inbox :: "nat \<rightharpoonup> 'j rpc_response"
  sc_notifications :: "'j plugin_notification list"
  sc_process :: bool
  sc_stdin :: octets

datatype sidecar_error = Io | Plugin int bytes | Timeout bytes nat | Closed | MalformedJson | ShutDown

text \<open>\<^verbatim>\<open>call_with_timeout\<close>, up to the pending-table entry: a fresh id and a fresh
  one-shot channel.\<close>

definition call_register :: "'j sidecar \<Rightarrow> 'j sidecar \<times> u64 \<times> nat" where
  "call_register st =
     (let rid = sc_next_id st; chan = sc_channels st
      in (st \<lparr> sc_next_id := rid + 1, sc_channels := chan + 1,
               sc_pending := (sc_pending st)(rid \<mapsto> chan) \<rparr>, rid, chan))"

text \<open>The write under the process lock; \<open>write_ok\<close> is whether the pipe took the frame.\<close>

definition call_write ::
    "'j serde_json \<Rightarrow> sidecar_wire_format \<Rightarrow> bool \<Rightarrow> u64 \<Rightarrow> bytes \<Rightarrow> 'j \<Rightarrow> 'j sidecar \<Rightarrow>
     'j sidecar \<times> sidecar_error option" where
  "call_write js fmt write_ok rid meth params st =
     (if \<not> sc_process st then (st \<lparr> sc_pending := (sc_pending st)(rid := None) \<rparr>, Some Closed)
      else if \<not> write_ok then (st \<lparr> sc_pending := (sc_pending st)(rid := None) \<rparr>, Some Io)
      else (st \<lparr> sc_stdin := sc_stdin st @ encode_request js fmt rid meth params \<rparr>, None))"

definition call_reply :: "'j serde_json \<Rightarrow> 'j rpc_response \<Rightarrow> sidecar_error + 'j" where
  "call_reply js resp =
     (case rr_error resp of
        Some err \<Rightarrow> Inl (Plugin (re_code err) (re_message err))
      | None \<Rightarrow> Inr (case rr_result resp of Some v \<Rightarrow> v | None \<Rightarrow> js_null js))"

text \<open>Polling \<^verbatim>\<open>timeout(deadline, rx)\<close>: \<open>None\<close> while the call waits. The channel is
  looked at before the clock.\<close>

definition call_poll ::
    "'j serde_json \<Rightarrow> bytes \<Rightarrow> nat \<Rightarrow> bool \<Rightarrow> u64 \<Rightarrow> nat \<Rightarrow> 'j sidecar \<Rightarrow>
     'j sidecar \<times> (sidecar_error + 'j) option" where
  "call_poll js meth timeout_ms expired rid chan st =
     (case sc_inbox st chan of
        Some resp \<Rightarrow> (st, Some (call_reply js resp))
      | None \<Rightarrow>
          if sc_pending st rid \<noteq> Some chan then
            (st \<lparr> sc_pending := (sc_pending st)(rid := None) \<rparr>, Some (Inl Closed))
          else if expired then
            (st \<lparr> sc_pending := (sc_pending st)(rid := None) \<rparr>, Some (Inl (Timeout meth timeout_ms)))
          else (st, None))"

definition sidecar_deliver :: "'j rpc_response \<Rightarrow> 'j sidecar \<Rightarrow> 'j sidecar" where
  "sidecar_deliver resp st =
     (case rr_id resp of
        Some rid \<Rightarrow>
          (case sc_pending st rid of
             Some chan \<Rightarrow> st \<lparr> sc_pending := (sc_pending st)(rid := None),
                               sc_inbox := (sc_inbox st)(chan \<mapsto> resp) \<rparr>
           | None \<Rightarrow> st)
      | None \<Rightarrow>
          (case rr_method resp of
             Some meth \<Rightarrow> st \<lparr> sc_notifications := sc_notifications st
                                 @ [\<lparr> pn_method = meth, pn_params = rr_params resp \<rparr>] \<rparr>
           | None \<Rightarrow> st))"

definition fail_pending :: "'j sidecar \<Rightarrow> 'j sidecar" where
  "fail_pending st = st \<lparr> sc_pending := Map.empty \<rparr>"

subsection \<open>Readers\<close>

datatype reader_exit = Stdout_closed | Over_cap | Mid_frame | Bad_frame

function read_binary_frames ::
    "'j serde_json \<Rightarrow> nat \<Rightarrow> octets \<Rightarrow> 'j sidecar \<Rightarrow> 'j sidecar \<times> reader_exit" where
  "read_binary_frames js max_frame_bytes bs st =
     (if length bs < LENGTH_PREFIX then (st, Stdout_closed)
      else let declared_len = unat (from_be (take LENGTH_PREFIX bs) :: u32); rest = drop LENGTH_PREFIX bs
        in case check_declared_len declared_len max_frame_bytes of
             Inl _ \<Rightarrow> (st, Over_cap)
           | Inr _ \<Rightarrow>
               if length rest < declared_len then (st, Mid_frame)
               else case decode_binary_body js (take declared_len rest) of
                      Inr resp \<Rightarrow>
                        read_binary_frames js max_frame_bytes (drop declared_len rest) (sidecar_deliver resp st)
                    | Inl _ \<Rightarrow> (st, Bad_frame))"
  by pat_completeness auto
termination
  by (relation "measure (\<lambda>(_, _, bs, _). length bs)") (auto simp: LENGTH_PREFIX_def)

declare read_binary_frames.simps [simp del]

text \<open>\<^verbatim>\<open>reader.take(limit).read_until(b'\n', &mut buf)\<close>: the octets read and those
  left.\<close>

definition read_until :: "nat \<Rightarrow> octets \<Rightarrow> octets \<times> octets" where
  "read_until limit bs =
     (let line = takeWhile (\<lambda>b. b \<noteq> 0x0A) (take limit bs);
          n = (if length line < length (take limit bs) then length line + 1 else length line)
      in (take n bs, drop n bs))"

definition dispatch_frame :: "'j serde_json \<Rightarrow> bytes \<Rightarrow> 'j sidecar \<Rightarrow> 'j sidecar" where
  "dispatch_frame js frame st =
     (case js_response js frame of Some resp \<Rightarrow> sidecar_deliver resp st | None \<Rightarrow> st)"

lemma read_until_shorter:
  "(buf, rest) = read_until limit bs \<Longrightarrow> buf \<noteq> [] \<Longrightarrow> length rest < length bs"
  by (auto simp: read_until_def Let_def split: if_splits)

function read_json_lines ::
    "'j serde_json \<Rightarrow> nat \<Rightarrow> octets \<Rightarrow> 'j sidecar \<Rightarrow> 'j sidecar \<times> reader_exit" where
  "read_json_lines js max_frame_bytes bs st =
     (let limit = min (max_frame_bytes + 1) (2 ^ 64 - 1); (buf, rest) = read_until limit bs
      in if buf = [] then (st, Stdout_closed)
         else if last buf \<noteq> 0x0A then
           (st, if length buf > max_frame_bytes then Over_cap else Mid_frame)
         else if \<not> valid_utf8 (chars buf) then read_json_lines js max_frame_bytes rest st
         else let trimmed = trim (chars buf)
           in if trimmed = [] then read_json_lines js max_frame_bytes rest st
              else read_json_lines js max_frame_bytes rest (dispatch_frame js trimmed st))"
  by pat_completeness auto
termination
  by (relation "measure (\<lambda>(_, _, bs, _). length bs)") (use read_until_shorter in auto)

declare read_json_lines.simps [simp del]

definition stdout_reader ::
    "'j serde_json \<Rightarrow> sidecar_wire_format \<Rightarrow> nat \<Rightarrow> octets \<Rightarrow> 'j sidecar \<Rightarrow> 'j sidecar \<times> reader_exit" where
  "stdout_reader js fmt max_frame_bytes bs st =
     (if fmt = Binary then read_binary_frames js max_frame_bytes bs st
      else read_json_lines js max_frame_bytes bs st)"

section \<open>The channel as a machine\<close>

text \<open>What happens to one sidecar, in any order: a caller registers, writes or polls, the reader
  delivers a frame, the supervisor marks the child dead (closing the pipe and failing what is
  pending) or alive again. A call is named by its channel number; a write that fails and a poll that is
  over return to it, with its number and its result.\<close>

datatype 'j sidecar_event =
    Register
  | Write bool nat bytes 'j
  | Poll bytes nat bool nat
  | Frame "'j rpc_response"
  | Died
  | Respawned

text \<open>\<^verbatim>\<open>Inner\<close> as \<^verbatim>\<open>spawn_with_options\<close> makes it, with its first child
  running.\<close>

definition sidecar_new :: "'j sidecar" where
  "sidecar_new = \<lparr> sc_next_id = 1, sc_pending = Map.empty, sc_channels = 0, sc_inbox = Map.empty,
     sc_notifications = [], sc_process = True, sc_stdin = [] \<rparr>"

text \<open>The id of the call that was registered with channel \<open>c\<close>.\<close>

definition id_of_call :: "nat \<Rightarrow> u64" where
  "id_of_call c = 1 + of_nat c"

fun sidecar_step ::
    "'j serde_json \<Rightarrow> sidecar_wire_format \<Rightarrow> 'j sidecar \<Rightarrow> 'j sidecar_event \<Rightarrow>
     'j sidecar \<times> (nat \<times> (sidecar_error + 'j)) list" where
  "sidecar_step js fmt st Register = (fst (call_register st), [])"
| "sidecar_step js fmt st (Write ok c meth params) =
     (case call_write js fmt ok (id_of_call c) meth params st of
        (st', None) \<Rightarrow> (st', [])
      | (st', Some err) \<Rightarrow> (st', [(c, Inl err)]))"
| "sidecar_step js fmt st (Poll meth ms expired c) =
     (case call_poll js meth ms expired (id_of_call c) c st of
        (st', None) \<Rightarrow> (st', [])
      | (st', Some r) \<Rightarrow> (st', [(c, r)]))"
| "sidecar_step js fmt st (Frame resp) = (sidecar_deliver resp st, [])"
| "sidecar_step js fmt st Died = (fail_pending (st \<lparr> sc_process := False \<rparr>), [])"
| "sidecar_step js fmt st Respawned = (st \<lparr> sc_process := True \<rparr>, [])"

text \<open>Channels and ids advance together; a pending channel is empty; what lies in a channel carries the
  id of the channel's call.\<close>

definition sidecar_inv :: "'j sidecar \<Rightarrow> bool" where
  "sidecar_inv st \<longleftrightarrow> sc_next_id st = id_of_call (sc_channels st) \<and>
     (\<forall>i c. sc_pending st i = Some c \<longrightarrow> i = id_of_call c \<and> c < sc_channels st \<and> sc_inbox st c = None) \<and>
     (\<forall>c r. sc_inbox st c = Some r \<longrightarrow> rr_id r = Some (id_of_call c) \<and> c < sc_channels st)"

lemma sidecar_inv_new: "sidecar_inv sidecar_new"
  by (simp add: sidecar_inv_def sidecar_new_def id_of_call_def)

lemma call_register_id:
  "sidecar_inv st \<Longrightarrow> call_register st = (st', rid, c) \<Longrightarrow> rid = id_of_call c \<and> c = sc_channels st"
  by (auto simp: call_register_def sidecar_inv_def Let_def)

lemma sidecar_inv_drop: "sidecar_inv st \<Longrightarrow> sidecar_inv (st \<lparr> sc_pending := (sc_pending st)(i := None) \<rparr>)"
  by (simp add: sidecar_inv_def)

lemma sidecar_inv_deliver: "sidecar_inv st \<Longrightarrow> sidecar_inv (sidecar_deliver r st)"
  by (auto simp: sidecar_inv_def sidecar_deliver_def split: option.splits if_splits)
     (metis option.inject)+

lemma sidecar_inv_register: "sidecar_inv st \<Longrightarrow> sidecar_inv (fst (call_register st))"
  by (auto simp: sidecar_inv_def call_register_def Let_def id_of_call_def less_Suc_eq)
     (metis less_irrefl option.exhaust)+

lemma sidecar_inv_step:
  assumes "sidecar_inv st"
  shows "sidecar_inv (fst (sidecar_step js fmt st ev))"
proof (cases ev)
  case (Write ok c meth params)
  then show ?thesis using sidecar_inv_drop [OF assms] assms
    by (simp add: call_write_def) (simp add: sidecar_inv_def)
next
  case (Poll meth ms expired c)
  then show ?thesis using sidecar_inv_drop [OF assms] assms
    by (simp add: call_poll_def split: option.split)
qed (use assms in \<open>auto simp: sidecar_inv_register sidecar_inv_deliver, auto simp: fail_pending_def sidecar_inv_def\<close>)

interpretation sidecar: preserving_machine "sidecar_step js fmt" sidecar_inv for js fmt
  by unfold_locales (rule sidecar_inv_step)

lemmas sidecar_inv_run = sidecar.run_preserves [OF sidecar_inv_new]

text \<open>The call that a frame is routed to: the one that the pending table has under its id. There is at
  most one.\<close>

definition recipient :: "'j sidecar \<Rightarrow> 'j rpc_response \<Rightarrow> nat option" where
  "recipient st resp = Option.bind (rr_id resp) (sc_pending st)"

lemma sidecar_deliver_inbox:
  "sc_inbox (sidecar_deliver resp st) c = (if recipient st resp = Some c then Some resp else sc_inbox st c)"
  by (auto simp: sidecar_deliver_def recipient_def split: option.split)

lemma sidecar_step_inbox:
  "sc_inbox (fst (sidecar_step js fmt st ev)) c =
     (case ev of Frame resp \<Rightarrow> if recipient st resp = Some c then Some resp else sc_inbox st c | _ \<Rightarrow> sc_inbox st c)"
  by (cases ev) (simp_all add: sidecar_deliver_inbox call_register_def call_write_def call_poll_def fail_pending_def Let_def
      split: option.split)

text \<open>What has been delivered stays; what lies in a channel was delivered to it.\<close>

lemma inbox_stays:
  "sidecar_inv st \<Longrightarrow> sc_inbox st c = Some resp \<Longrightarrow> sc_inbox (fst (run (sidecar_step js fmt) st evs)) c = Some resp"
proof (induction evs arbitrary: st)
  case (Cons ev evs)
  have "recipient st r \<noteq> Some c" for r
    using Cons.prems by (cases "rr_id r") (auto simp: recipient_def sidecar_inv_def)
  then have "sc_inbox (fst (sidecar_step js fmt st ev)) c = Some resp"
    using Cons.prems(2) by (simp add: sidecar_step_inbox split: sidecar_event.split)
  from Cons.IH [OF sidecar_inv_step [OF Cons.prems(1)] this] show ?case by (simp add: case_prod_unfold Let_def)
qed simp

text \<open>The frame at position \<open>i\<close> of a run, and that it was routed to call \<open>c\<close>.\<close>

definition routed :: "'j serde_json \<Rightarrow> sidecar_wire_format \<Rightarrow> 'j sidecar_event list \<Rightarrow> nat \<Rightarrow> 'j rpc_response \<Rightarrow> nat \<Rightarrow> bool" where
  "routed js fmt evs i resp c \<longleftrightarrow> i < length evs \<and> evs ! i = Frame resp \<and>
     recipient (fst (run (sidecar_step js fmt) sidecar_new (take i evs))) resp = Some c"

lemma routed_append: "routed js fmt evs i resp c \<Longrightarrow> routed js fmt (evs @ evs') i resp c"
  by (auto simp: routed_def nth_append)

lemma inbox_routed:
  "sc_inbox (fst (run (sidecar_step js fmt) sidecar_new evs)) c = Some resp \<longleftrightarrow> (\<exists>i. routed js fmt evs i resp c)"
proof
  assume "sc_inbox (fst (run (sidecar_step js fmt) sidecar_new evs)) c = Some resp"
  then show "\<exists>i. routed js fmt evs i resp c"
  proof (induction evs rule: rev_induct)
    case Nil
    then show ?case by (simp add: sidecar_new_def)
  next
    case (snoc ev evs)
    let ?st = "fst (run (sidecar_step js fmt) sidecar_new evs)"
    consider "sc_inbox ?st c = Some resp" | "ev = Frame resp" "recipient ?st resp = Some c"
      using snoc.prems by (auto simp: run_append case_prod_unfold Let_def sidecar_step_inbox split: sidecar_event.splits if_splits)
    then show ?case
    proof cases
      case 1
      with snoc.IH routed_append show ?thesis by blast
    next
      case 2
      then have "routed js fmt (evs @ [ev]) (length evs) resp c" by (simp add: routed_def)
      then show ?thesis by blast
    qed
  qed
next
  assume "\<exists>i. routed js fmt evs i resp c"
  then obtain i where i: "i < length evs" "evs ! i = Frame resp"
    and c: "recipient (fst (run (sidecar_step js fmt) sidecar_new (take i evs))) resp = Some c"
    by (auto simp: routed_def)
  let ?st = "fst (run (sidecar_step js fmt) sidecar_new (take i evs))"
  have "sc_inbox (sidecar_deliver resp ?st) c = Some resp" using c by (simp add: sidecar_deliver_inbox)
  from inbox_stays [OF sidecar_inv_deliver [OF sidecar_inv_run] this]
  have "sc_inbox (fst (run (sidecar_step js fmt) sidecar_new (take i evs @ evs ! i # drop (Suc i) evs))) c = Some resp"
    by (simp add: i(2) run_append case_prod_unfold Let_def)
  with i(1) show "sc_inbox (fst (run (sidecar_step js fmt) sidecar_new evs)) c = Some resp"
    by (simp add: id_take_nth_drop [symmetric])
qed

lemma routed_id: "routed js fmt evs i resp c \<Longrightarrow> rr_id resp = Some (id_of_call c)"
  using inbox_routed [of js fmt evs c resp] sidecar_inv_run [of js fmt evs] by (auto simp: sidecar_inv_def)

lemma id_of_call_inj: "c' \<noteq> c \<Longrightarrow> c' < c + 2 ^ 64 \<Longrightarrow> c < c' + 2 ^ 64 \<Longrightarrow> id_of_call c' \<noteq> id_of_call c"
proof
  assume a: "c' \<noteq> c" "c' < c + 2 ^ 64" "c < c' + 2 ^ 64" "id_of_call c' = id_of_call c"
  then have "c' mod 2 ^ 64 = c mod 2 ^ 64" by (simp add: id_of_call_def word_of_nat_eq_iff take_bit_eq_mod)
  then have "(2 ^ 64 :: int) dvd int c' - int c" by (metis mod_eq_dvd_iff of_nat_mod of_nat_numeral of_nat_power)
  with zdvd_imp_le [of "2 ^ 64" "int c' - int c"] zdvd_imp_le [of "2 ^ 64" "int c - int c'"] a(1-3) show False
    by (cases "c < c'") (auto simp: dvd_diff_commute)
qed

lemma sidecar_step_returns:
  "(c, r) \<in> set (snd (sidecar_step js fmt st ev)) \<Longrightarrow>
     r = Inl Closed \<or> (\<exists>meth ms. r = Inl (Timeout meth ms) \<and> ev = Poll meth ms True c) \<or>
     r = Inl Io \<and> (\<exists>meth params. ev = Write False c meth params) \<or>
     (\<exists>resp. sc_inbox st c = Some resp \<and> r = call_reply js resp)"
  by (cases ev) (auto simp: call_write_def call_poll_def split: option.splits if_splits)

text \<open>Property C36.
  Replies reach their own call. However callers, the child and the supervisor interleave, a call
  returns in one of four ways: "closed"; "timeout", when its deadline passed; an I/O error, when the pipe
  refused its request; or the contents of a frame that the child sent with the call's id and that was
  routed to this call. A frame is routed to at most one call, the one that holds its id in the pending
  table when it arrives, and no call whose registration is fewer than 2^64 registrations away has that id,
  so no answer reaches another call before the 64-bit counter has gone round completely. Conversely, a call
  that a frame was routed to returns exactly its contents at each poll from then on, whatever happened in
  between, even when its deadline has passed or the child has died; and a call whose write the pipe
  refuses returns there and then, with the I/O error, or with "closed" if there is no child.\<close>

theorem sidecar_reply_routing:
  fixes evs :: "'j sidecar_event list"
  shows "(\<forall>r. (c, r) \<in> set (snd (run (sidecar_step js fmt) sidecar_new evs)) \<longrightarrow>
      r = Inl Closed \<or> (\<exists>meth ms. r = Inl (Timeout meth ms) \<and> Poll meth ms True c \<in> set evs) \<or>
      r = Inl Io \<and> (\<exists>meth params. Write False c meth params \<in> set evs) \<or>
      (\<exists>i resp. routed js fmt evs i resp c \<and> r = call_reply js resp)) \<and>
    (\<forall>i meth params. i < length evs \<and> evs ! i = Write False c meth params \<longrightarrow>
      (c, Inl (if sc_process (fst (run (sidecar_step js fmt) sidecar_new (take i evs))) then Io else Closed))
        \<in> set (snd (run (sidecar_step js fmt) sidecar_new evs))) \<and>
    (\<forall>i resp. routed js fmt evs i resp c \<longrightarrow>
      rr_id resp = Some (id_of_call c) \<and> (\<forall>c'. routed js fmt evs i resp c' \<longrightarrow> c' = c) \<and>
      (\<forall>c'. c' \<noteq> c \<and> c' < c + 2 ^ 64 \<and> c < c' + 2 ^ 64 \<longrightarrow> rr_id resp \<noteq> Some (id_of_call c')) \<and>
      snd (call_poll js meth ms expired (id_of_call c) c (fst (run (sidecar_step js fmt) sidecar_new evs)))
        = Some (call_reply js resp))"
proof (intro conjI allI impI)
  fix r
  assume "(c, r) \<in> set (snd (run (sidecar_step js fmt) sidecar_new evs))"
  then show "r = Inl Closed \<or> (\<exists>meth ms. r = Inl (Timeout meth ms) \<and> Poll meth ms True c \<in> set evs) \<or>
      r = Inl Io \<and> (\<exists>meth params. Write False c meth params \<in> set evs) \<or>
      (\<exists>i resp. routed js fmt evs i resp c \<and> r = call_reply js resp)"
  proof (induction evs rule: rev_induct)
    case (snoc ev evs)
    let ?st = "fst (run (sidecar_step js fmt) sidecar_new evs)"
    from snoc.prems consider "(c, r) \<in> set (snd (run (sidecar_step js fmt) sidecar_new evs))"
      | "(c, r) \<in> set (snd (sidecar_step js fmt ?st ev))"
      by (auto simp: run_append case_prod_unfold Let_def)
    then show ?case
    proof cases
      case 1
      have "set evs \<subseteq> set (evs @ [ev])" by auto
      with snoc.IH [OF 1] routed_append [of js fmt evs _ _ c "[ev]"] show ?thesis by blast
    next
      case 2
      have "ev \<in> set (evs @ [ev])" by simp
      with sidecar_step_returns [OF 2] show ?thesis
        using inbox_routed [of js fmt evs c] routed_append [of js fmt evs _ _ c "[ev]"] by blast
    qed
  qed simp
next
  fix i meth params
  assume i: "i < length evs \<and> evs ! i = Write False c meth params"
  let ?st = "fst (run (sidecar_step js fmt) sidecar_new (take i evs))"
  have "(c, Inl (if sc_process ?st then Io else Closed)) \<in> set (snd (sidecar_step js fmt ?st (evs ! i)))"
    using i by (simp add: call_write_def)
  then have "(c, Inl (if sc_process ?st then Io else Closed))
      \<in> set (snd (run (sidecar_step js fmt) sidecar_new (take i evs @ evs ! i # drop (Suc i) evs)))"
    by (simp add: snd_run_append snd_run_Cons del: run.simps)
  moreover have "take i evs @ evs ! i # drop (Suc i) evs = evs" by (rule id_take_nth_drop [symmetric]) (use i in blast)
  ultimately show "(c, Inl (if sc_process ?st then Io else Closed)) \<in> set (snd (run (sidecar_step js fmt) sidecar_new evs))"
    by (simp only:)
next
  fix i resp
  assume i: "routed js fmt evs i resp c"
  show id: "rr_id resp = Some (id_of_call c)" by (rule routed_id [OF i])
  show "c' = c" if "routed js fmt evs i resp c'" for c' using that i by (simp add: routed_def)
  show "rr_id resp \<noteq> Some (id_of_call c')" if "c' \<noteq> c \<and> c' < c + 2 ^ 64 \<and> c < c' + 2 ^ 64" for c'
    using id_of_call_inj [of c' c] that id by auto
  show "snd (call_poll js meth ms expired (id_of_call c) c (fst (run (sidecar_step js fmt) sidecar_new evs)))
      = Some (call_reply js resp)"
    using inbox_routed [of js fmt evs c resp] i by (auto simp: call_poll_def)
qed

definition nat_json :: "nat serde_json" where
  "nat_json = \<lparr> js_from_str = (\<lambda>s. parse_unsigned (2 ^ 64) s), js_response = (\<lambda>_. None),
     js_to_string = (\<lambda>n. replicate n CHR ''1''), js_request = (\<lambda>_ _ _. None), js_string = length,
     js_null = 0 \<rparr>"

text \<open>Two calls; the child answers the second one first, the write of a third one fails.\<close>

definition answer_frame :: "u64 \<Rightarrow> nat \<Rightarrow> nat rpc_response" where
  "answer_frame i v = \<lparr> rr_id = Some i, rr_result = Some v, rr_error = None, rr_method = None, rr_params = None \<rparr>"

definition demo_calls :: "nat sidecar_event list" where
  "demo_calls = [Register, Write True 0 ''ping'' 0, Register, Write True 1 ''pong'' 0, Frame (answer_frame 2 8),
     Register, Write False 2 ''late'' 0, Frame (answer_frame 1 7), Poll ''ping'' 30000 False 0]"

theorem sidecar_reply_routing_witness:
  "snd (run (sidecar_step nat_json Json) sidecar_new demo_calls) = [(2, Inl Io), (0, Inr 7)] \<and>
   (\<exists>i resp. routed nat_json Json demo_calls i resp 0 \<and> Inr 7 = call_reply nat_json resp) \<and>
   snd (call_poll nat_json ''pong'' 30000 True (id_of_call 1) 1
     (fst (run (sidecar_step nat_json Json) sidecar_new demo_calls))) = Some (call_reply nat_json (answer_frame 2 8))"
proof -
  have run: "snd (run (sidecar_step nat_json Json) sidecar_new demo_calls) = [(2, Inl Io), (0, Inr 7)]"
    by (simp add: demo_calls_def answer_frame_def sidecar_new_def call_register_def call_write_def sidecar_deliver_def
        call_poll_def id_of_call_def call_reply_def Let_def)
  have second: "routed nat_json Json demo_calls 4 (answer_frame 2 8) 1"
    by (simp add: routed_def recipient_def demo_calls_def answer_frame_def sidecar_new_def call_register_def call_write_def
        id_of_call_def Let_def)
  show ?thesis
    using sidecar_reply_routing [of 0 nat_json Json demo_calls] sidecar_reply_routing [of 1 nat_json Json demo_calls "''pong''" 30000 True]
      run second by (auto simp del: run.simps)
qed

section \<open>Nobody waits for a dead child\<close>

lemma settled_step:
  assumes "c < sc_channels st" and "c \<notin> ran (sc_pending st)"
  shows "c < sc_channels (fst (sidecar_step js fmt st ev)) \<and>
    c \<notin> ran (sc_pending (fst (sidecar_step js fmt st ev)))"
  using assms
  by (cases ev) (auto simp: ran_def call_register_def Let_def call_write_def call_poll_def sidecar_deliver_def
      fail_pending_def split: if_splits option.splits)

lemma settled_run:
  "c < sc_channels st \<Longrightarrow> c \<notin> ran (sc_pending st) \<Longrightarrow>
   c \<notin> ran (sc_pending (fst (run (sidecar_step js fmt) st evs)))"
proof (induction evs arbitrary: st)
  case (Cons ev evs)
  from settled_step [OF Cons.prems, of js fmt ev] Cons.IH [of "fst (sidecar_step js fmt st ev)"]
  show ?case by (simp add: case_prod_unfold Let_def)
qed simp

text \<open>Property C37.
  When the supervisor has marked the child dead, every call registered before has its answer: from
  then on each of its polls returns at once (with the child's answer if one was delivered, with
  "closed" if not), whatever else happens, respawns and new calls included, and with no help from
  the clock.\<close>

theorem sidecar_no_stranded_call:
  assumes "c < sc_channels (fst (run (sidecar_step js fmt) sidecar_new evs))"
  shows "\<exists>r. snd (call_poll js meth ms False (id_of_call c) c
    (fst (run (sidecar_step js fmt) sidecar_new (evs @ Died # evs')))) = Some r"
proof -
  let ?st = "fst (run (sidecar_step js fmt) sidecar_new evs)"
  let ?dead = "fail_pending (?st \<lparr> sc_process := False \<rparr>)"
  have "fst (run (sidecar_step js fmt) sidecar_new (evs @ Died # evs')) =
      fst (run (sidecar_step js fmt) ?dead evs')"
    by (simp add: run_append case_prod_unfold Let_def)
  moreover have "c \<notin> ran (sc_pending (fst (run (sidecar_step js fmt) ?dead evs')))"
    using assms by (intro settled_run) (simp_all add: fail_pending_def)
  ultimately show ?thesis
    by (auto simp: call_poll_def ran_def split: option.split)
qed

theorem sidecar_no_stranded_call_witness:
  "\<exists>r. snd (call_poll nat_json ''ping'' 30000 False (id_of_call 0) 0
    (fst (run (sidecar_step nat_json Json) sidecar_new
       ([Register, Write True 0 ''ping'' 0] @ Died # [Respawned, Register])))) = Some r"
  by (rule sidecar_no_stranded_call)
     (simp add: sidecar_new_def call_register_def call_write_def Let_def)

section \<open>The two encodings carry the same conversation\<close>

text \<open>What a child writes for one message: an envelope behind its length, or a line of JSON.\<close>

definition binary_frame :: "envelope \<Rightarrow> octets" where
  "binary_frame e = (let body = encode_envelope_fixed e in be_bytes 4 (of_nat (length body) :: u32) @ body)"

definition json_frame :: "bytes \<Rightarrow> octets" where
  "json_frame l = octets_of (l @ [CHR 0x0A])"

text \<open>\<open>l\<close> and \<open>e\<close> are the two encodings of the message \<open>r\<close>, both within the frame cap.\<close>

definition encodes :: "'j serde_json \<Rightarrow> nat \<Rightarrow> bytes \<Rightarrow> envelope \<Rightarrow> 'j rpc_response \<Rightarrow> bool" where
  "encodes js max_frame l e r \<longleftrightarrow>
     envelope_ok e \<and> length (encode_envelope_fixed e) \<le> max_frame \<and>
     (case env_kind e of None \<Rightarrow> False | Some k \<Rightarrow> response_of_kind js k = Inr r) \<and>
     CHR 0x0A \<notin> set l \<and> length l \<le> max_frame \<and> valid_utf8 (l @ [CHR 0x0A]) \<and>
     trim (l @ [CHR 0x0A]) \<noteq> [] \<and> js_response js (trim (l @ [CHR 0x0A])) = Some r"

lemma read_binary_frame:
  assumes "encodes js max_frame l e r" and "max_frame < 2 ^ 32"
  shows "read_binary_frames js max_frame (binary_frame e @ rest) st =
    read_binary_frames js max_frame rest (sidecar_deliver r st)"
proof -
  let ?body = "encode_envelope_fixed e"
  from assms have ok: "length ?body \<le> max_frame" "length ?body < 2 ^ 32" "decode_envelope_fixed ?body = Inr e"
    by (simp_all add: encodes_def envelope_decode_encode)
  have "decode_binary_body js ?body = Inr r"
    using assms(1) by (auto simp: decode_binary_body_def ok(3) encodes_def split: option.splits)
  moreover have "unat (from_be (be_bytes 4 (of_nat (length ?body) :: u32)) :: u32) = length ?body"
    using ok(2) by (simp add: unat_of_nat)
  ultimately show ?thesis
    using ok(1)
    by (subst read_binary_frames.simps)
       (simp add: binary_frame_def Let_def LENGTH_PREFIX_def check_declared_len_def)
qed

lemma takeWhile_octets_of: "CHR 0x0A \<notin> set l \<Longrightarrow> takeWhile (\<lambda>b. b \<noteq> 0x0A) (octets_of l @ 0x0A # ys) = octets_of l"
proof (induction l)
  case (Cons c l)
  have "(of_nat (code c) :: u8) \<noteq> 0x0A"
  proof
    assume "(of_nat (code c) :: u8) = 0x0A"
    then have "char_of (unat (of_nat (code c) :: u8)) = (CHR 0x0A)" by (simp add: char_of_def bit_0)
    then have "c = CHR 0x0A" by (simp add: unat_of_nat of_char_mod_256)
    with Cons.prems show False by simp
  qed
  moreover have "takeWhile (\<lambda>b. b \<noteq> 0x0A) (octets_of l @ 0x0A # ys) = octets_of l"
    using Cons by simp
  ultimately show ?case by (simp add: octets_of_def)
qed (simp add: octets_of_def)

lemma octets_of_newline: "octets_of (l @ [CHR 0x0A]) = octets_of l @ [0x0A]"
  by (simp add: octets_of_def)

lemma read_until_line:
  assumes "CHR 0x0A \<notin> set l" and "length l < limit"
  shows "read_until limit (json_frame l @ rest) = (json_frame l, rest)"
proof -
  have "take limit (json_frame l @ rest) = octets_of l @ 0x0A # take (limit - Suc (length l)) rest"
    using assms(2) by (auto simp: json_frame_def octets_of_newline take_Cons' )
  then show ?thesis
    using takeWhile_octets_of [OF assms(1)]
    by (simp add: read_until_def Let_def json_frame_def octets_of_newline)
qed

lemma read_json_frame:
  assumes "encodes js max_frame l e r" and "max_frame < 2 ^ 32"
  shows "read_json_lines js max_frame (json_frame l @ rest) st =
    read_json_lines js max_frame rest (sidecar_deliver r st)"
proof -
  from assms have line: "read_until (min (max_frame + 1) (2 ^ 64 - 1)) (json_frame l @ rest) = (json_frame l, rest)"
    by (intro read_until_line) (auto simp: encodes_def)
  have last: "json_frame l \<noteq> []" "last (json_frame l) = 0x0A" "chars (json_frame l) = l @ [CHR 0x0A]"
    by (simp_all add: json_frame_def octets_of_newline) (simp add: octets_of_newline [symmetric])
  show ?thesis
    using assms(1) by (subst read_json_lines.simps) (simp only: Let_def line, simp add: last encodes_def dispatch_frame_def)
qed

text \<open>Property C38.
  A child may speak either encoding: as long as every message stays within the frame cap (itself
  below 2^32), reading the line-delimited JSON stream and reading the length-prefixed binary
  stream of the same messages both deliver exactly these messages, in order, and end in the same
  state when the child closes its pipe.\<close>

theorem sidecar_formats_agree:
  assumes "list_all (\<lambda>(l, e, r). encodes js max_frame l e r) msgs" and "max_frame < 2 ^ 32"
  shows "stdout_reader js Json max_frame (concat (map (\<lambda>(l, e, r). json_frame l) msgs)) st =
      (fold sidecar_deliver (map (\<lambda>(l, e, r). r) msgs) st, Stdout_closed) \<and>
    stdout_reader js Binary max_frame (concat (map (\<lambda>(l, e, r). binary_frame e) msgs)) st =
      (fold sidecar_deliver (map (\<lambda>(l, e, r). r) msgs) st, Stdout_closed)"
  using assms(1)
proof (induction msgs arbitrary: st)
  case Nil
  show ?case
    by (simp add: stdout_reader_def read_json_lines.simps [of _ _ "[]"] read_binary_frames.simps [of _ _ "[]"]
        read_until_def Let_def LENGTH_PREFIX_def)
next
  case (Cons m msgs)
  obtain l e r where m: "m = (l, e, r)" by (cases m)
  with Cons.prems have enc: "encodes js max_frame l e r"
    and rest: "list_all (\<lambda>(l, e, r). encodes js max_frame l e r) msgs" by auto
  show ?case
    using Cons.IH [OF rest, of "sidecar_deliver r st"]
    by (simp add: m stdout_reader_def read_json_frame [OF enc assms(2)] read_binary_frame [OF enc assms(2)])
qed

definition echo_json :: "nat serde_json" where
  "echo_json = nat_json \<lparr> js_response := \<lambda>s. Some \<lparr> rr_id = Some 1, rr_result = Some 7, rr_error = None,
     rr_method = None, rr_params = None \<rparr> \<rparr>"

theorem sidecar_formats_agree_witness:
  "stdout_reader echo_json Json 4096 (concat (map (\<lambda>(l, e, r). json_frame l)
     [(''{1:7}'', \<lparr> env_kind = Some (Response \<lparr> rs_id = 1, rs_result = ''7'', rs_error_message = [],
        rs_error_code = 0 \<rparr>) \<rparr>, \<lparr> rr_id = Some 1, rr_result = Some 7, rr_error = None, rr_method = None,
        rr_params = None \<rparr>)])) sidecar_new =
   stdout_reader echo_json Binary 4096 (concat (map (\<lambda>(l, e, r). binary_frame e)
     [(''{1:7}'', \<lparr> env_kind = Some (Response \<lparr> rs_id = 1, rs_result = ''7'', rs_error_message = [],
        rs_error_code = 0 \<rparr>) \<rparr>, \<lparr> rr_id = Some 1, rr_result = Some 7, rr_error = None, rr_method = None,
        rr_params = None \<rparr> :: nat rpc_response)])) sidecar_new"
proof -
  let ?e = "\<lparr> env_kind = Some (Response \<lparr> rs_id = 1, rs_result = ''7'', rs_error_message = [], rs_error_code = 0 \<rparr>) \<rparr>"
  let ?r = "\<lparr> rr_id = Some 1, rr_result = Some 7, rr_error = None, rr_method = None, rr_params = None \<rparr> :: nat rpc_response"
  have "trim (''{1:7}'' @ [CHR 0x0A]) \<noteq> []"
    by (simp add: trim_def trim_start.simps trim_end.simps Let_def)
  then have "list_all (\<lambda>(l, e, r). encodes echo_json 4096 l e r) [(''{1:7}'', ?e, ?r)]"
    by (simp add: encodes_def envelope_ok_def echo_json_def nat_json_def response_of_kind_def value_or_string_def
        parse_unsigned_def encode_envelope_fixed_def split_envelope_def envelope_octets_def ENV_MAGIC_def octets_of_def)
  from sidecar_formats_agree [OF this, of sidecar_new] show ?thesis by simp
qed

end
