(* ===== verification/Sidecar_Supervisor.thy ===== *)
theory Sidecar_Supervisor
  imports Sidecar_Rpc
begin

text \<open>
  The restart supervisor of a sidecar (\<^verbatim>\<open>smiths-sidecar/src/supervisor.rs\<close>): the
  restart policy, the supervise loop as a machine driven by what its awaits report, and
  \<^verbatim>\<open>shutdown\<close>. The loop owns the sidecar of \<open>Sidecar_Rpc\<close> and sets its process slot.

  \<^verbatim>\<open>Duration::mul_f64(backoff_multiplier)\<close> is floating-point arithmetic of the
  standard library and stands as the function \<open>rp_multiply\<close> of the policy.
\<close>

section \<open>Model\<close>

record restart_policy =
  rp_max_retries :: u32
  rp_initial_backoff :: duration
  rp_max_backoff :: duration
  rp_multiply :: "duration \<Rightarrow> duration"
  rp_min_uptime :: duration

definition default_policy :: restart_policy where
  "default_policy = \<lparr> rp_max_retries = 5, rp_initial_backoff = from_millis 250,
     rp_max_backoff = from_secs 30, rp_multiply = (\<lambda>d. 2 * d), rp_min_uptime = from_secs 10 \<rparr>"

definition no_restart :: restart_policy where
  "no_restart = \<lparr> rp_max_retries = 0, rp_initial_backoff = 0, rp_max_backoff = 0,
     rp_multiply = (\<lambda>d. d), rp_min_uptime = 0 \<rparr>"

definition next_backoff :: "restart_policy \<Rightarrow> duration \<Rightarrow> duration" where
  "next_backoff p current =
     (let next = rp_multiply p current in if next > rp_max_backoff p then rp_max_backoff p else next)"

text \<open>Where the loop awaits: on the child (\<^verbatim>\<open>run_child\<close>), on the back-off sleep, or it
  has returned.\<close>

datatype supervisor_phase = Running | Sleeping | Exited

record 'j supervised =
  sv_sidecar :: "'j sidecar"
  sv_phase :: supervisor_phase
  sv_attempts :: u32
  sv_backoff :: duration
  sv_restarts :: nat

datatype child_exit = Shutdown_fired | Child_died duration

datatype 'j supervisor_event =
    Child_exit child_exit
  | Sleep_over bool
  | Sleep_cancelled
  | Shutdown_done
  | Client "'j sidecar_event"

datatype supervisor_out = Sleep_for duration | Spawn_tried bool

definition supervise_start :: "restart_policy \<Rightarrow> 'j supervised" where
  "supervise_start p = \<lparr> sv_sidecar = sidecar_new, sv_phase = Running, sv_attempts = 0,
     sv_backoff = rp_initial_backoff p, sv_restarts = 0 \<rparr>"

text \<open>From the death of a child, or a failed spawn, to the next sleep.\<close>

definition schedule :: "restart_policy \<Rightarrow> 'j supervised \<Rightarrow> 'j supervised \<times> supervisor_out list" where
  "schedule p s =
     (if rp_max_retries p = 0 then (s \<lparr> sv_phase := Exited \<rparr>, [])
      else let attempts = sv_attempts s + 1; s' = s \<lparr> sv_attempts := attempts \<rparr>
        in if attempts > rp_max_retries p then (s' \<lparr> sv_phase := Exited \<rparr>, [])
           else (s' \<lparr> sv_phase := Sleeping \<rparr>, [Sleep_for (sv_backoff s)]))"

definition on_child_exit ::
    "restart_policy \<Rightarrow> child_exit \<Rightarrow> 'j supervised \<Rightarrow> 'j supervised \<times> supervisor_out list" where
  "on_child_exit p ex s =
     (case ex of
        Shutdown_fired \<Rightarrow> (s \<lparr> sv_phase := Exited \<rparr>, [])
      | Child_died uptime \<Rightarrow>
          (let s1 = s \<lparr> sv_sidecar := fail_pending (sv_sidecar s \<lparr> sc_process := False \<rparr>) \<rparr>;
               s2 = (if uptime \<ge> rp_min_uptime p
                     then s1 \<lparr> sv_attempts := 0, sv_backoff := rp_initial_backoff p \<rparr> else s1)
           in schedule p s2))"

definition on_sleep_over ::
    "restart_policy \<Rightarrow> bool \<Rightarrow> 'j supervised \<Rightarrow> 'j supervised \<times> supervisor_out list" where
  "on_sleep_over p spawned s =
     (let s1 = s \<lparr> sv_backoff := next_backoff p (sv_backoff s) \<rparr>
      in if spawned then
           (s1 \<lparr> sv_sidecar := sv_sidecar s \<lparr> sc_process := True \<rparr>, sv_phase := Running,
                 sv_restarts := sv_restarts s + 1 \<rparr>, [Spawn_tried True])
         else let (s2, out) = schedule p s1 in (s2, Spawn_tried False # out))"

text \<open>The end of \<^verbatim>\<open>shutdown\<close>, once the supervisor task has been joined.\<close>

definition shutdown_tail :: "'j supervised \<Rightarrow> 'j supervised" where
  "shutdown_tail s = s \<lparr> sv_sidecar := fail_pending (sv_sidecar s \<lparr> sc_process := False \<rparr>) \<rparr>"

text \<open>One event of the loop or of a client. An event that the loop is not waiting for does
  nothing; clients never mark the child dead or alive themselves.\<close>

fun supervisor_step ::
    "'j serde_json \<Rightarrow> sidecar_wire_format \<Rightarrow> restart_policy \<Rightarrow> 'j supervised \<Rightarrow> 'j supervisor_event \<Rightarrow>
     'j supervised \<times> supervisor_out list" where
  "supervisor_step js fmt p s (Child_exit ex) =
     (if sv_phase s = Running then on_child_exit p ex s else (s, []))"
| "supervisor_step js fmt p s (Sleep_over spawned) =
     (if sv_phase s = Sleeping then on_sleep_over p spawned s else (s, []))"
| "supervisor_step js fmt p s Sleep_cancelled =
     (if sv_phase s = Sleeping then (s \<lparr> sv_phase := Exited \<rparr>, []) else (s, []))"
| "supervisor_step js fmt p s Shutdown_done =
     (if sv_phase s = Exited then (shutdown_tail s, []) else (s, []))"
| "supervisor_step js fmt p s (Client ev) =
     (if ev = Died \<or> ev = Respawned then (s, [])
      else (s \<lparr> sv_sidecar := fst (sidecar_step js fmt (sv_sidecar s) ev) \<rparr>, []))"

section \<open>The budget\<close>

lemmas supervise_defs = on_child_exit_def on_sleep_over_def schedule_def Let_def

text \<open>A child that dies young consumes the budget.\<close>

fun unhealthy :: "restart_policy \<Rightarrow> 'j supervisor_event \<Rightarrow> bool" where
  "unhealthy p (Child_exit (Child_died uptime)) \<longleftrightarrow> uptime < rp_min_uptime p"
| "unhealthy p _ \<longleftrightarrow> True"

text \<open>The attempts counter never passes the limit while the loop runs, and a failure it has room for
  raises it by one.\<close>

definition budget_ok :: "restart_policy \<Rightarrow> 'j supervised \<Rightarrow> bool" where
  "budget_ok p s \<longleftrightarrow> (sv_phase s \<noteq> Exited \<longrightarrow> sv_attempts s \<le> rp_max_retries p) \<and>
     (sv_phase s = Sleeping \<longrightarrow> 0 < sv_attempts s)"

lemma attempts_room:
  assumes "a \<le> m" and "m \<noteq> - 1"
  shows "unat (a + 1 :: u32) = Suc (unat a)"
proof -
  have "a \<noteq> - 1" using assms by (metis word_order.extremum_unique)
  then have "1 + a \<noteq> 0" by (metis add_eq_0_iff)
  then show ?thesis using unatSuc [of a] by (simp add: add.commute)
qed

text \<open>What is left of the budget: spawns still allowed, and loop events still possible.\<close>

definition spawns_left :: "restart_policy \<Rightarrow> 'j supervised \<Rightarrow> nat" where
  "spawns_left p s =
     (let room = unat (rp_max_retries p) - unat (sv_attempts s)
      in case sv_phase s of Exited \<Rightarrow> 0 | Running \<Rightarrow> room | Sleeping \<Rightarrow> room + 1)"

definition events_left :: "restart_policy \<Rightarrow> 'j supervised \<Rightarrow> nat" where
  "events_left p s =
     (let room = unat (rp_max_retries p) - unat (sv_attempts s)
      in case sv_phase s of Exited \<Rightarrow> 0 | Running \<Rightarrow> 2 * room + 1 | Sleeping \<Rightarrow> 2 * room + 2)"

text \<open>The cost of an event: one spawn, or one turn of the loop.\<close>

definition is_spawn :: "'j supervised \<Rightarrow> 'j supervisor_event \<Rightarrow> nat" where
  "is_spawn s ev = (case ev of Sleep_over _ \<Rightarrow> of_bool (sv_phase s = Sleeping) | _ \<Rightarrow> 0)"

definition is_turn :: "'j supervised \<Rightarrow> 'j supervisor_event \<Rightarrow> nat" where
  "is_turn s ev = (case ev of
      Child_exit _ \<Rightarrow> of_bool (sv_phase s = Running)
    | Sleep_over _ \<Rightarrow> of_bool (sv_phase s = Sleeping)
    | Sleep_cancelled \<Rightarrow> of_bool (sv_phase s = Sleeping)
    | _ \<Rightarrow> 0)"

lemma schedule_phase:
  "schedule p s = (s', out) \<Longrightarrow> sv_phase s' = Exited \<or>
     sv_phase s' = Sleeping \<and> sv_attempts s' = sv_attempts s + 1 \<and> sv_attempts s + 1 \<le> rp_max_retries p"
  by (auto simp: schedule_def Let_def not_less split: if_splits)

text \<open>What one event does to the phase and to the attempts counter.\<close>

lemma idle_step:
  "is_turn s ev = 0 \<Longrightarrow> sv_phase (fst (supervisor_step js fmt p s ev)) = sv_phase s \<and>
     sv_attempts (fst (supervisor_step js fmt p s ev)) = sv_attempts s \<and> is_spawn s ev = 0"
  by (cases ev) (auto simp: is_turn_def is_spawn_def shutdown_tail_def)

lemma turn_step:
  fixes js fmt p s ev
  assumes "is_turn s ev \<noteq> 0" and "unhealthy p ev"
  defines "s' \<equiv> fst (supervisor_step js fmt p s ev)"
  shows "sv_phase s' = Exited \<or>
    sv_phase s' = Sleeping \<and> sv_attempts s' = sv_attempts s + 1 \<and> sv_attempts s + 1 \<le> rp_max_retries p \<or>
    sv_phase s = Sleeping \<and> sv_phase s' = Running \<and> sv_attempts s' = sv_attempts s"
proof (cases ev)
  case (Child_exit ex)
  then show ?thesis
    using assms(1,2) unfolding s'_def
    by (cases ex) (auto simp: is_turn_def supervise_defs not_less split: if_splits)
next
  case (Sleep_over spawned)
  then show ?thesis
    using assms(1) unfolding s'_def by (auto simp: is_turn_def supervise_defs not_less split: if_splits)
qed (use assms in \<open>auto simp: is_turn_def\<close>)

lemma turn_costs:
  "is_turn s ev \<le> 1" "is_spawn s ev \<le> of_bool (sv_phase s = Sleeping)"
  "is_turn s ev \<noteq> 0 \<Longrightarrow> sv_phase s \<noteq> Exited"
  by (auto simp: is_turn_def is_spawn_def split: supervisor_event.splits)

lemma supervisor_pays:
  assumes ok: "budget_ok p s" and "rp_max_retries p \<noteq> - 1" and "unhealthy p ev"
  shows "budget_ok p (fst (supervisor_step js fmt p s ev)) \<and>
    is_spawn s ev + spawns_left p (fst (supervisor_step js fmt p s ev)) \<le> spawns_left p s \<and>
    is_turn s ev + events_left p (fst (supervisor_step js fmt p s ev)) \<le> events_left p s"
proof (cases "is_turn s ev = 0")
  case True
  from idle_step [OF this, of js fmt p] ok True show ?thesis
    by (simp add: budget_ok_def spawns_left_def events_left_def)
next
  case False
  let ?s' = "fst (supervisor_step js fmt p s ev)"
  from turn_costs(3) [OF False] ok have le: "sv_attempts s \<le> rp_max_retries p"
    by (simp add: budget_ok_def)
  note room = attempts_room [OF le assms(2)]
  have le': "unat (sv_attempts s) \<le> unat (rp_max_retries p)"
    "sv_attempts s + 1 \<le> rp_max_retries p \<longleftrightarrow> Suc (unat (sv_attempts s)) \<le> unat (rp_max_retries p)"
    "0 < sv_attempts s + 1"
    using le by (simp_all add: word_le_nat_alt word_less_nat_alt room)
  note costs = turn_costs [of s ev] False
  from turn_step [OF False assms(3), of js fmt] show ?thesis
  proof (elim disjE conjE)
    assume "sv_phase ?s' = Exited"
    then show ?thesis using costs le'
      by (cases "sv_phase s") (auto simp: budget_ok_def spawns_left_def events_left_def Let_def)
  next
    assume "sv_phase ?s' = Sleeping" "sv_attempts ?s' = sv_attempts s + 1" "sv_attempts s + 1 \<le> rp_max_retries p"
    then show ?thesis using costs le'
      by (cases "sv_phase s") (auto simp: budget_ok_def spawns_left_def events_left_def Let_def room)
  next
    assume "sv_phase s = Sleeping" "sv_phase ?s' = Running" "sv_attempts ?s' = sv_attempts s"
    then show ?thesis using costs le' le
      by (auto simp: budget_ok_def spawns_left_def events_left_def Let_def)
  qed
qed

lemma budget_start: "budget_ok p (supervise_start p)"
  by (simp add: budget_ok_def supervise_start_def)

text \<open>Both budgets, as instances of the payment contract; a policy that never stops
  (\<^verbatim>\<open>u32::MAX\<close> retries, where the counter wraps) admits no event.\<close>

definition bounded_policy :: "restart_policy \<Rightarrow> 'j supervisor_event \<Rightarrow> bool" where
  "bounded_policy p ev \<longleftrightarrow> rp_max_retries p \<noteq> - 1 \<and> unhealthy p ev"

interpretation spawns: budgeted_machine "supervisor_step js fmt p" "budget_ok p" "bounded_policy p"
    is_spawn "spawns_left p" for js fmt p
  by unfold_locales (simp_all add: bounded_policy_def supervisor_pays)

interpretation turns: budgeted_machine "supervisor_step js fmt p" "budget_ok p" "bounded_policy p"
    is_turn "events_left p" for js fmt p
  by unfold_locales (simp_all add: bounded_policy_def supervisor_pays)

text \<open>Property C39.
  A crash loop ends: while no child reaches the policy's minimum uptime, the supervisor tries at
  most \<^verbatim>\<open>max_retries\<close> spawns and its loop turns at most 2 * \<^verbatim>\<open>max_retries\<close> + 1
  times before it has returned, in every interleaving with clients and shutdown. The one limit left
  out is the largest 32-bit value, at which the attempts counter would wrap.\<close>

theorem supervisor_gives_up:
  assumes "rp_max_retries p \<noteq> - 1" and "list_all (unhealthy p) evs"
  shows "run_cost (supervisor_step js fmt p) is_spawn (supervise_start p) evs \<le> unat (rp_max_retries p) \<and>
    run_cost (supervisor_step js fmt p) is_turn (supervise_start p) evs \<le> 2 * unat (rp_max_retries p) + 1"
proof -
  have adm: "list_all (bounded_policy p) evs"
    using assms by (simp add: bounded_policy_def list_all_iff)
  show ?thesis
    using spawns.run_cost_le [OF budget_start adm, of js fmt] turns.run_cost_le [OF budget_start adm, of js fmt]
    by (simp add: spawns_left_def events_left_def supervise_start_def)
qed

theorem supervisor_gives_up_witness:
  "run_cost (supervisor_step nat_json Json default_policy) is_spawn (supervise_start default_policy)
     (concat (replicate 9 [Child_exit (Child_died 0), Sleep_over True])) \<le> 5"
proof -
  have "list_all (unhealthy default_policy) (concat (replicate 9 [Child_exit (Child_died 0), Sleep_over True]))"
    by (auto simp: list_all_iff default_policy_def from_secs_def)
  moreover have "rp_max_retries default_policy \<noteq> - 1" "unat (rp_max_retries default_policy) = 5"
    by (simp_all add: default_policy_def)
  ultimately show ?thesis using supervisor_gives_up by metis
qed

section \<open>Back-off and calls in between\<close>

text \<open>The process slot follows the child while the loop runs, and the back-off stays within the
  policy's bounds.\<close>

definition supervised_ok :: "restart_policy \<Rightarrow> 'j supervised \<Rightarrow> bool" where
  "supervised_ok p s \<longleftrightarrow> (sv_phase s = Running \<longrightarrow> sc_process (sv_sidecar s)) \<and>
     (sv_phase s = Sleeping \<longrightarrow> \<not> sc_process (sv_sidecar s)) \<and>
     sv_backoff s \<le> max (rp_initial_backoff p) (rp_max_backoff p)"

lemma client_keeps_process:
  "ev \<noteq> Died \<Longrightarrow> ev \<noteq> Respawned \<Longrightarrow> sc_process (fst (sidecar_step js fmt st ev)) = sc_process st"
  by (cases ev) (auto simp: call_register_def call_write_def call_poll_def sidecar_deliver_def Let_def
      split: option.splits prod.splits)

lemma next_backoff_le: "next_backoff p d \<le> rp_max_backoff p"
  by (simp add: next_backoff_def Let_def)

lemma schedule_ok:
  assumes "\<not> sc_process (sv_sidecar s)" and "sv_backoff s \<le> max (rp_initial_backoff p) (rp_max_backoff p)"
  shows "supervised_ok p (fst (schedule p s)) \<and>
    (\<forall>d. Sleep_for d \<in> set (snd (schedule p s)) \<longrightarrow> d \<le> max (rp_initial_backoff p) (rp_max_backoff p))"
  using assms by (simp add: schedule_def supervised_ok_def Let_def)

lemma supervised_ok_step:
  assumes "supervised_ok p s"
  shows "supervised_ok p (fst (supervisor_step js fmt p s ev)) \<and>
    (\<forall>d. Sleep_for d \<in> set (snd (supervisor_step js fmt p s ev)) \<longrightarrow>
       d \<le> max (rp_initial_backoff p) (rp_max_backoff p))"
proof (cases ev)
  case (Child_exit ex)
  show ?thesis
  proof (cases "sv_phase s = Running")
    case True
    have "supervised_ok p (fst (schedule p s')) \<and>
      (\<forall>d. Sleep_for d \<in> set (snd (schedule p s')) \<longrightarrow> d \<le> max (rp_initial_backoff p) (rp_max_backoff p))"
      if "s' = s \<lparr> sv_sidecar := fail_pending (sv_sidecar s \<lparr> sc_process := False \<rparr>) \<rparr> \<or>
        s' = s \<lparr> sv_sidecar := fail_pending (sv_sidecar s \<lparr> sc_process := False \<rparr>),
                 sv_attempts := 0, sv_backoff := rp_initial_backoff p \<rparr>" for s'
      using that assms by (intro schedule_ok) (auto simp: fail_pending_def supervised_ok_def)
    with True Child_exit assms show ?thesis
      by (cases ex) (auto simp: on_child_exit_def Let_def supervised_ok_def)
  qed (use assms Child_exit in simp)
next
  case (Sleep_over spawned)
  let ?s1 = "s \<lparr> sv_backoff := next_backoff p (sv_backoff s) \<rparr>"
  have le: "next_backoff p (sv_backoff s) \<le> max (rp_initial_backoff p) (rp_max_backoff p)"
    using next_backoff_le [of p "sv_backoff s"] by simp
  show ?thesis
  proof (cases "sv_phase s = Sleeping")
    case True
    with assms have "\<not> sc_process (sv_sidecar ?s1)" by (simp add: supervised_ok_def)
    from schedule_ok [OF this, of p] le Sleep_over True show ?thesis
      by (auto simp: on_sleep_over_def Let_def case_prod_unfold supervised_ok_def)
  qed (use assms Sleep_over in simp)
next
  case (Client cl)
  then show ?thesis using assms by (auto simp: supervised_ok_def client_keeps_process)
qed (use assms in \<open>auto simp: supervised_ok_def shutdown_tail_def\<close>)

interpretation supervised: preserving_machine "supervisor_step js fmt p" "supervised_ok p" for js fmt p
  by unfold_locales (simp add: supervised_ok_step)

lemma supervised_ok_start: "supervised_ok p (supervise_start p)"
  by (simp add: supervised_ok_def supervise_start_def sidecar_new_def)

lemma run_sleeps_bounded:
  "supervised_ok p s \<Longrightarrow> Sleep_for d \<in> set (snd (run (supervisor_step js fmt p) s evs)) \<Longrightarrow>
   d \<le> max (rp_initial_backoff p) (rp_max_backoff p)"
proof (induction evs arbitrary: s)
  case (Cons ev evs)
  from supervised_ok_step [OF Cons.prems(1), of js fmt ev] Cons.IH [of "fst (supervisor_step js fmt p s ev)"] Cons.prems(2)
  show ?case by (auto simp: case_prod_unfold Let_def)
qed simp

text \<open>Result.
  A call made while the supervisor is backing off fails at once: it is answered "closed" without
  touching the child, and the pending table is what it was (up to its own id). Every back-off sleep
  is within the larger of the policy's initial and maximal back-off.\<close>

theorem supervisor_backoff_contract:
  fixes evs :: "'j supervisor_event list"
  assumes "run (supervisor_step js fmt p) (supervise_start p) evs = (s, out)"
    and "sv_phase s = Sleeping" and "call_register (sv_sidecar s) = (st, rid, c)"
  shows "call_write js fmt ok rid meth params st =
      (st \<lparr> sc_pending := (sc_pending (sv_sidecar s))(rid := None) \<rparr>, Some Closed) \<and>
    (\<forall>d. Sleep_for d \<in> set out \<longrightarrow> d \<le> max (rp_initial_backoff p) (rp_max_backoff p))"
proof -
  have "supervised_ok p s"
    using supervised.run_preserves [OF supervised_ok_start, of p js fmt evs] assms(1) by simp
  with assms(2,3) have "\<not> sc_process st" "sc_pending st = (sc_pending (sv_sidecar s))(rid \<mapsto> c)"
    by (auto simp: supervised_ok_def call_register_def Let_def)
  moreover have "d \<le> max (rp_initial_backoff p) (rp_max_backoff p)" if "Sleep_for d \<in> set out" for d
    using run_sleeps_bounded [OF supervised_ok_start, of d js fmt p evs] assms(1) that by simp
  ultimately show ?thesis by (simp add: call_write_def)
qed

lemma default_backoff_run:
  "run (supervisor_step nat_json Json default_policy) (supervise_start default_policy) [Child_exit (Child_died 0)]
   = (\<lparr> sv_sidecar = sidecar_new \<lparr> sc_process := False \<rparr>, sv_phase = Sleeping, sv_attempts = 1,
        sv_backoff = 250000000, sv_restarts = 0 \<rparr>, [Sleep_for 250000000])"
  by (simp add: supervise_start_def default_policy_def supervise_defs from_secs_def from_millis_def
      fail_pending_def sidecar_new_def)

theorem supervisor_backoff_contract_witness:
  "snd (call_write nat_json Json True 1 ''ping'' 0
     (fst (call_register (sidecar_new \<lparr> sc_process := False \<rparr>)))) = Some Closed"
proof -
  let ?st = "sidecar_new \<lparr> sc_process := False \<rparr> :: nat sidecar"
  have reg: "call_register ?st = (fst (call_register ?st), 1, 0)"
    by (simp add: call_register_def sidecar_new_def Let_def)
  from supervisor_backoff_contract [OF default_backoff_run] reg show ?thesis
    by fastforce
qed

text \<open>The default schedule: a child that cannot be started is tried five times, after 250 ms, 500 ms,
  1 s, 2 s and 4 s, and then given up.\<close>

lemma default_schedule:
  "snd (run (supervisor_step js fmt default_policy) (supervise_start default_policy)
     [Child_exit (Child_died 0), Sleep_over False, Sleep_over False, Sleep_over False, Sleep_over False,
      Sleep_over False]) =
   [Sleep_for (from_millis 250), Spawn_tried False, Sleep_for (from_millis 500), Spawn_tried False,
    Sleep_for (from_secs 1), Spawn_tried False, Sleep_for (from_secs 2), Spawn_tried False,
    Sleep_for (from_secs 4), Spawn_tried False]"
  by (simp add: supervise_start_def default_policy_def supervise_defs from_secs_def from_millis_def
      next_backoff_def)

end
