(* ===== verification/Txn_Types.thy ===== *)
theory Txn_Types
  imports Rust_Str
begin

text \<open>
  The transaction layer's vocabulary (\<^verbatim>\<open>smiths-sip/src/txn/mod.rs\<close>,
  \<^verbatim>\<open>txn/timers.rs\<close>): the states, timers, events and actions the four RFC 3261
  machines share, the timer constants and back-off schedule, the header readers the driver
  demultiplexes with, and the \<^verbatim>\<open>Transaction\<close> trait as a locale. The locale's laws
  are what the driver relies on; each machine's theory interprets it.
\<close>

section \<open>Data\<close>

datatype transaction_state = Trying | Calling | Proceeding | Completed | Confirmed | Terminated

datatype role = Client | Server

record transaction_key =
  branch :: string
  "method" :: string
  role :: role

datatype timer_id = TimerA | TimerB | TimerC | TimerD | TimerE | TimerF | TimerG | TimerH
  | TimerI | TimerJ | TimerK

datatype transaction_event =
    StartClient
  | ResponseReceived u16 bytes
  | RequestReceived string bytes
  | SendResponseFromTu u16 bytes
  | TimerFired timer_id

datatype transaction_action =
    SendToPeer bytes
  | DeliverResponseToTu u16 bytes
  | ArmTimer timer_id duration
  | CancelTimer timer_id
  | ActTerminated

text \<open>\<^verbatim>\<open>(lo..hi).contains(&status)\<close>.\<close>

definition status_in :: "u16 \<Rightarrow> u16 \<Rightarrow> u16 \<Rightarrow> bool" where
  "status_in lo hi status \<longleftrightarrow> lo \<le> status \<and> status < hi"

abbreviation is_1xx :: "u16 \<Rightarrow> bool" where "is_1xx \<equiv> status_in 100 200"
abbreviation is_2xx :: "u16 \<Rightarrow> bool" where "is_2xx \<equiv> status_in 200 300"
abbreviation is_non_ok :: "u16 \<Rightarrow> bool" where "is_non_ok \<equiv> status_in 300 700"
abbreviation is_final :: "u16 \<Rightarrow> bool" where "is_final \<equiv> status_in 200 700"

lemma status_final_split: "is_final s \<longleftrightarrow> is_2xx s \<or> is_non_ok s"
  by (auto simp: status_in_def word_le_nat_alt word_less_nat_alt)

lemma status_classes_disjoint [simp]:
  "is_1xx s \<Longrightarrow> \<not> is_2xx s" "is_1xx s \<Longrightarrow> \<not> is_non_ok s" "is_2xx s \<Longrightarrow> \<not> is_non_ok s"
  "is_1xx s \<Longrightarrow> \<not> is_final s"
  by (auto simp: status_in_def word_le_nat_alt word_less_nat_alt)

section \<open>Timers\<close>

definition T1 :: duration where "T1 = from_millis 500"
definition T2 :: duration where "T2 = from_secs 4"
definition T4 :: duration where "T4 = from_secs 5"
definition TIMEOUT_64T1 :: duration where "TIMEOUT_64T1 = from_secs 32"

lemmas timer_const_defs = T1_def T2_def T4_def TIMEOUT_64T1_def from_millis_def from_secs_def

definition doubling_backoff :: "u32 \<Rightarrow> duration \<Rightarrow> duration" where
  "doubling_backoff attempt cap =
     (let multiplier = (case checked_shl 1 (unat (min attempt 16)) of
                          Some m \<Rightarrow> m | None \<Rightarrow> - 1);
          scaled = duration_saturating_mul T1 multiplier
      in min scaled cap)"

lemma doubling_backoff_eq: "doubling_backoff a cap = min (T1 * 2 ^ min (unat a) 16) cap"
proof -
  have m: "unat (min a 16) = min (unat a) 16"
    by (auto simp: min_def word_le_nat_alt)
  let ?e = "min (unat a) 16"
  have lt: "?e < 32" by (simp add: min_less_iff_disj)
  have "unat (push_bit ?e (1 :: u32)) = 2 ^ ?e"
    by (subst unsigned_push_bit_eq) (simp add: push_bit_eq_mult take_bit_nat_eq_self min_less_iff_disj)
  moreover have "T1 * 2 ^ ?e \<le> DURATION_MAX"
  proof -
    have "(2::nat) ^ ?e \<le> 2 ^ 16" by (rule power_increasing) auto
    then have "T1 * 2 ^ ?e \<le> T1 * 2 ^ 16" by (rule mult_le_mono2)
    also have "\<dots> \<le> DURATION_MAX" by (simp add: timer_const_defs DURATION_MAX_def)
    finally show ?thesis .
  qed
  ultimately show ?thesis
    using lt by (simp add: doubling_backoff_def Let_def checked_shl_def m duration_saturating_mul_def)
qed

text \<open>Below the helper's own ceiling (\<open>2^16 * T1\<close>, more than nine hours) the shift clamp is
  never visible: the delay is the plain exponential, cut at the caller's cap.\<close>

lemma doubling_backoff_ideal:
  assumes "cap \<le> T1 * 2 ^ 16"
  shows "doubling_backoff a cap = min (T1 * 2 ^ unat a) cap"
proof (cases "unat a \<le> 16")
  case False
  then have "(2::nat) ^ 16 \<le> 2 ^ unat a" by (intro power_increasing) auto
  then have "T1 * 2 ^ 16 \<le> T1 * 2 ^ unat a" by (rule mult_le_mono2)
  with assms have "cap \<le> T1 * 2 ^ unat a" by (rule order_trans)
  with assms False show ?thesis by (simp add: doubling_backoff_eq min_absorb2)
qed (simp add: doubling_backoff_eq min_def)

lemma doubling_backoff_mono: "a \<le> b \<Longrightarrow> doubling_backoff a cap \<le> doubling_backoff b cap"
proof -
  assume "a \<le> b"
  then have "min (unat a) 16 \<le> min (unat b) (16::nat)" by (auto simp: word_le_nat_alt)
  then have "(2::nat) ^ min (unat a) 16 \<le> 2 ^ min (unat b) 16" by (intro power_increasing) auto
  then have "T1 * 2 ^ min (unat a) 16 \<le> T1 * 2 ^ min (unat b) 16" by (rule mult_le_mono2)
  then show ?thesis unfolding doubling_backoff_eq by (rule min.mono) simp
qed

lemma doubling_backoff_bounds: "min T1 cap \<le> doubling_backoff a cap" "doubling_backoff a cap \<le> cap"
proof -
  have "T1 * 1 \<le> T1 * 2 ^ min (unat a) 16" by (rule mult_le_mono2) simp
  then show "min T1 cap \<le> doubling_backoff a cap" unfolding doubling_backoff_eq by (intro min.mono) auto
qed (simp add: doubling_backoff_eq)

section \<open>Header readers\<close>

text \<open>\<^verbatim>\<open>header_value\<close>, \<^verbatim>\<open>top_via_sent_by\<close> and
  \<^verbatim>\<open>cseq_method\<close>: the first header of the header block whose name matches.\<close>

definition header_block :: "string \<Rightarrow> string" where
  "header_block text = (case split_once (CRLF @ CRLF) text of Some (h, _) \<Rightarrow> h | None \<Rightarrow> text)"

definition header_match :: "string list \<Rightarrow> string \<Rightarrow> string option" where
  "header_match names line =
     (case split_once '':'' line of
        None \<Rightarrow> None
      | Some (nm, v) \<Rightarrow>
          if (\<exists>n \<in> set names. eq_ignore_ascii_case (trim nm) n) then Some (trim v) else None)"

definition header_value :: "bytes \<Rightarrow> string list \<Rightarrow> string option" where
  "header_value bs names =
     (if valid_utf8 bs
      then find_map (header_match names) (drop 1 (split_pat CRLF (header_block bs)))
      else None)"

definition top_via_sent_by :: "bytes \<Rightarrow> string option" where
  "top_via_sent_by bs =
     Option.bind (header_value bs [''via'', ''v'']) (\<lambda>value.
     Option.bind (nth_opt 1 (split_whitespace value)) (\<lambda>after_proto.
       let sent_by = trim (takeWhile (\<lambda>c. c \<noteq> CHR '';'' \<and> c \<noteq> CHR '','') after_proto)
       in if sent_by = [] then None else Some sent_by))"

definition cseq_method :: "bytes \<Rightarrow> string option" where
  "cseq_method bs =
     Option.bind (header_value bs [''cseq'']) (\<lambda>value. nth_opt 1 (split_whitespace value))"

section \<open>The \<open>Transaction\<close> trait\<close>

text \<open>The effect of an action list on the handle map of a transaction's timers.\<close>

fun timer_effect :: "(timer_id \<rightharpoonup> duration) \<Rightarrow> transaction_action \<Rightarrow> (timer_id \<rightharpoonup> duration)" where
  "timer_effect m (ArmTimer i d) = m(i \<mapsto> d)"
| "timer_effect m (CancelTimer i) = m(i := None)"
| "timer_effect m _ = m"

text \<open>A fired timer's handle leaves the map before the machine sees the event.\<close>

fun timer_consume :: "(timer_id \<rightharpoonup> duration) \<Rightarrow> transaction_event \<Rightarrow> (timer_id \<rightharpoonup> duration)" where
  "timer_consume m (TimerFired i) = m(i := None)"
| "timer_consume m _ = m"

text \<open>
  What the driver relies on: the key never changes, a terminated machine absorbs everything, and
  the \<^verbatim>\<open>Terminated\<close> action is emitted exactly on entry to
  \<^verbatim>\<open>Terminated\<close>, as the last action of its batch.
\<close>

locale transaction_fsm =
  fixes key :: "'s \<Rightarrow> transaction_key"
    and state :: "'s \<Rightarrow> transaction_state"
    and set_reliable :: "'s \<Rightarrow> bool \<Rightarrow> 's"
    and on_event :: "'s \<Rightarrow> transaction_event \<Rightarrow> 's \<times> transaction_action list"
  assumes key_set_reliable [simp]: "key (set_reliable s b) = key s"
    and state_set_reliable [simp]: "state (set_reliable s b) = state s"
    and key_on_event [simp]: "key (fst (on_event s e)) = key s"
    and absorbs: "state s = Terminated \<Longrightarrow> on_event s e = (s, [])"
    and terminated_iff: "ActTerminated \<in> set (snd (on_event s e)) \<longleftrightarrow>
      state s \<noteq> Terminated \<and> state (fst (on_event s e)) = Terminated"
    and terminated_last: "ActTerminated \<notin> set (butlast (snd (on_event s e)))"
begin

lemma run_absorbs: "state s = Terminated \<Longrightarrow> run on_event s es = (s, [])"
  by (induction es) (simp_all add: absorbs)

lemma run_key: "key (fst (run on_event s es)) = key s"
  by (induction es arbitrary: s) (simp_all add: case_prod_unfold Let_def)

lemma stays_terminated: "state s = Terminated \<Longrightarrow> state (fst (on_event s e)) = Terminated"
  by (simp add: absorbs)

text \<open>Over a whole run \<^verbatim>\<open>Terminated\<close> is emitted at most once, exactly when the run
  ends terminated, and nothing is emitted after it.\<close>

lemma run_terminated_iff:
  "ActTerminated \<in> set (snd (run on_event s es)) \<longleftrightarrow>
     state s \<noteq> Terminated \<and> state (fst (run on_event s es)) = Terminated"
proof (induction es arbitrary: s)
  case (Cons e es)
  show ?case
    by (cases "state s = Terminated"; cases "state (fst (on_event s e)) = Terminated")
       (auto simp: case_prod_unfold Let_def terminated_iff absorbs Cons run_absorbs)
qed simp

lemma run_terminated_last: "ActTerminated \<notin> set (butlast (snd (run on_event s es)))"
proof (induction es arbitrary: s)
  case (Cons e es)
  let ?s' = "fst (on_event s e)" and ?out = "snd (on_event s e)"
  show ?case
  proof (cases "state ?s' = Terminated")
    case True
    then show ?thesis
      by (simp add: case_prod_unfold Let_def run_absorbs terminated_last)
  next
    case False
    then have "ActTerminated \<notin> set ?out" by (simp add: terminated_iff)
    with Cons [of ?s'] show ?thesis
      by (auto simp: case_prod_unfold Let_def butlast_append dest: in_set_butlastD)
  qed
qed simp

end

text \<open>
  A guarded machine also tells which timer bounds the life of its current state. The guard is not
  part of the code; the law says that the machine keeps it armed: however an event changes the
  state, the new state's guard is armed in the resulting handle map. It is what makes a live
  transaction impossible to leak.
\<close>

locale guarded_transaction = transaction_fsm key state set_reliable on_event
  for key :: "'s \<Rightarrow> transaction_key"
    and state :: "'s \<Rightarrow> transaction_state"
    and set_reliable :: "'s \<Rightarrow> bool \<Rightarrow> 's"
    and on_event :: "'s \<Rightarrow> transaction_event \<Rightarrow> 's \<times> transaction_action list" +
  fixes guard :: "'s \<Rightarrow> timer_id option"
  assumes guard_kept: "(\<And>g. guard s = Some g \<Longrightarrow> m g \<noteq> None) \<Longrightarrow>
      guard (fst (on_event s e)) = Some g' \<Longrightarrow>
      foldl timer_effect (timer_consume m e) (snd (on_event s e)) g' \<noteq> None"
    and guard_terminated: "state s = Terminated \<Longrightarrow> guard s = None"
    and guard_expires: "guard s = Some g \<Longrightarrow> state (fst (on_event s (TimerFired g))) = Terminated"
begin

text \<open>The handle map of a run: every event consumes and re-arms as the driver does.\<close>

fun run_timers :: "'s \<Rightarrow> (timer_id \<rightharpoonup> duration) \<Rightarrow> transaction_event list \<Rightarrow> (timer_id \<rightharpoonup> duration)" where
  "run_timers s m [] = m"
| "run_timers s m (e # es) =
     run_timers (fst (on_event s e)) (foldl timer_effect (timer_consume m e) (snd (on_event s e))) es"

lemma run_timers_snoc:
  "run_timers s m (es @ [e]) =
     (let s' = fst (run on_event s es)
      in foldl timer_effect (timer_consume (run_timers s m es) e) (snd (on_event s' e)))"
  by (induction es arbitrary: s m) (simp_all add: case_prod_unfold Let_def)

lemma run_guarded:
  "(\<And>g. guard s = Some g \<Longrightarrow> m g \<noteq> None) \<Longrightarrow>
   guard (fst (run on_event s es)) = Some g' \<Longrightarrow> run_timers s m es g' \<noteq> None"
proof (induction es arbitrary: s m)
  case (Cons e es)
  have "run_timers (fst (on_event s e)) (foldl timer_effect (timer_consume m e) (snd (on_event s e))) es g' \<noteq> None"
  proof (rule Cons.IH)
    show "foldl timer_effect (timer_consume m e) (snd (on_event s e)) g \<noteq> None"
      if "guard (fst (on_event s e)) = Some g" for g
      using Cons.prems(1) that by (rule guard_kept)
    show "guard (fst (run on_event (fst (on_event s e)) es)) = Some g'"
      using Cons.prems(2) by (simp add: case_prod_unfold Let_def)
  qed
  then show ?case by simp
qed simp

end

text \<open>
  Delivery to the transaction user: a final response (200 to 699) is delivered at most once. The
  law is local: a delivery leaves the machine settled, and a settled machine stays settled and
  delivers no final.
\<close>

fun delivers_final :: "transaction_action \<Rightarrow> bool" where
  "delivers_final (DeliverResponseToTu status _) = is_final status"
| "delivers_final _ = False"

definition settled :: "transaction_state \<Rightarrow> bool" where
  "settled st \<longleftrightarrow> st = Completed \<or> st = Terminated"

locale delivering_transaction = transaction_fsm key state set_reliable on_event
  for key :: "'s \<Rightarrow> transaction_key"
    and state :: "'s \<Rightarrow> transaction_state"
    and set_reliable :: "'s \<Rightarrow> bool \<Rightarrow> 's"
    and on_event :: "'s \<Rightarrow> transaction_event \<Rightarrow> 's \<times> transaction_action list" +
  assumes settled_kept: "settled (state s) \<Longrightarrow> settled (state (fst (on_event s e)))"
    and settled_silent: "settled (state s) \<Longrightarrow> filter delivers_final (snd (on_event s e)) = []"
    and delivery_settles: "filter delivers_final (snd (on_event s e)) \<noteq> [] \<Longrightarrow>
      settled (state (fst (on_event s e)))"
    and one_delivery: "length (filter delivers_final (snd (on_event s e))) \<le> 1"
begin

lemma run_settled_silent:
  "settled (state s) \<Longrightarrow> filter delivers_final (snd (run on_event s es)) = []"
  by (induction es arbitrary: s) (simp_all add: case_prod_unfold Let_def settled_kept settled_silent)

lemma run_one_final: "length (filter delivers_final (snd (run on_event s es))) \<le> 1"
proof (induction es arbitrary: s)
  case (Cons e es)
  show ?case
  proof (cases "filter delivers_final (snd (on_event s e)) = []")
    case True
    with Cons show ?thesis by (simp add: case_prod_unfold Let_def)
  next
    case False
    with one_delivery [of s e] delivery_settles [of s e] show ?thesis
      by (simp add: case_prod_unfold Let_def run_settled_silent)
  qed
qed simp

end

text \<open>
  The transport profile: on a reliable transport a machine never arms its retransmit timer.
\<close>

definition arms :: "timer_id \<Rightarrow> transaction_action \<Rightarrow> bool" where
  "arms i a \<longleftrightarrow> (\<exists>d. a = ArmTimer i d)"

lemma arms_simps [simp]:
  "arms i (ArmTimer j d) \<longleftrightarrow> i = j" "\<not> arms i (SendToPeer b)" "\<not> arms i (DeliverResponseToTu st b)"
  "\<not> arms i (CancelTimer j)" "\<not> arms i ActTerminated"
  by (auto simp: arms_def)

locale profiled_transaction = transaction_fsm key state set_reliable on_event
  for key :: "'s \<Rightarrow> transaction_key"
    and state :: "'s \<Rightarrow> transaction_state"
    and set_reliable :: "'s \<Rightarrow> bool \<Rightarrow> 's"
    and on_event :: "'s \<Rightarrow> transaction_event \<Rightarrow> 's \<times> transaction_action list" +
  fixes quiet :: "'s \<Rightarrow> bool"
    and retransmit :: timer_id
  assumes quiet_kept: "quiet s \<Longrightarrow> e \<noteq> TimerFired retransmit \<Longrightarrow> quiet (fst (on_event s e))"
    and quiet_unarmed: "quiet s \<Longrightarrow> e \<noteq> TimerFired retransmit \<Longrightarrow> a \<in> set (snd (on_event s e)) \<Longrightarrow>
      \<not> arms retransmit a"
begin

text \<open>The timer fires only after it was armed, so a run of a quiet machine that starts with the
  timer unarmed has no such event; the events are constrained accordingly.\<close>

lemma run_quiet:
  "quiet s \<Longrightarrow> TimerFired retransmit \<notin> set es \<Longrightarrow> a \<in> set (snd (run on_event s es)) \<Longrightarrow>
   \<not> arms retransmit a"
proof (induction es arbitrary: s)
  case (Cons e es)
  then have e: "e \<noteq> TimerFired retransmit" and es: "TimerFired retransmit \<notin> set es" by auto
  from Cons.prems(3) have "a \<in> set (snd (on_event s e)) \<or> a \<in> set (snd (run on_event (fst (on_event s e)) es))"
    by (auto simp: case_prod_unfold Let_def)
  with Cons.IH [OF quiet_kept [OF Cons.prems(1) e] es] quiet_unarmed [OF Cons.prems(1) e]
  show ?case by blast
qed simp

end

end
