(* ===== verification/Txn_Ack.thy ===== *)
theory Txn_Ack
  imports Txn_Types
begin

text \<open>
  The ACK of a non-2xx final response (\<^verbatim>\<open>smiths-sip/src/txn/ack.rs\<close>): the scan of
  the INVITE's header lines, the choice of the response's \<^verbatim>\<open>To\<close> line and the
  assembly of the request text. The theorem reads the assembled text back as lines.
\<close>

section \<open>Model\<close>

record ack_headers =
  invite_via :: "string option"
  invite_from :: "string option"
  invite_call_id :: "string option"
  invite_cseq_num :: "string option"
  invite_max_forwards :: "string option"
  route_headers :: "string list"

definition no_headers :: ack_headers where
  "no_headers = \<lparr> invite_via = None, invite_from = None, invite_call_id = None,
     invite_cseq_num = None, invite_max_forwards = None, route_headers = [] \<rparr>"

definition extract_request_uri :: "string \<Rightarrow> string option" where
  "extract_request_uri request_line =
     (case split_whitespace request_line of
        _ # uri # _ \<Rightarrow> Some uri
      | _ \<Rightarrow> None)"

definition parse_cseq_num :: "string \<Rightarrow> string option" where
  "parse_cseq_num line =
     (case split_once '':'' line of
        None \<Rightarrow> None
      | Some (_, v) \<Rightarrow> nth_opt 0 (split_whitespace (trim v)))"

text \<open>One iteration of the loop over the INVITE's header lines; an empty line ends it.\<close>

definition scan_line :: "ack_headers \<Rightarrow> string \<Rightarrow> ack_headers" where
  "scan_line h line =
     (let lower = to_ascii_lowercase line in
      if invite_via h = None \<and> (starts_with lower ''via:'' \<or> starts_with lower ''v:'')
      then h\<lparr> invite_via := Some line \<rparr>
      else if invite_from h = None \<and> (starts_with lower ''from:'' \<or> starts_with lower ''f:'')
      then h\<lparr> invite_from := Some line \<rparr>
      else if invite_call_id h = None \<and> (starts_with lower ''call-id:'' \<or> starts_with lower ''i:'')
      then h\<lparr> invite_call_id := Some line \<rparr>
      else if invite_cseq_num h = None \<and> starts_with lower ''cseq:''
      then h\<lparr> invite_cseq_num := parse_cseq_num line \<rparr>
      else if invite_max_forwards h = None \<and> starts_with lower ''max-forwards:''
      then h\<lparr> invite_max_forwards := Some line \<rparr>
      else if starts_with lower ''route:''
      then h\<lparr> route_headers := route_headers h @ [line] \<rparr>
      else h)"

fun scan_lines :: "ack_headers \<Rightarrow> string list \<Rightarrow> ack_headers" where
  "scan_lines h [] = h"
| "scan_lines h (line # ls) = (if line = [] then h else scan_lines (scan_line h line) ls)"

definition is_to_line :: "string \<Rightarrow> bool" where
  "is_to_line line =
     (let lower = to_ascii_lowercase line in starts_with lower ''to:'' \<or> starts_with lower ''t:'')"

definition ack_text :: "string \<Rightarrow> string \<Rightarrow> string list \<Rightarrow> string \<Rightarrow> string \<Rightarrow> string \<Rightarrow> string \<Rightarrow>
    string option \<Rightarrow> string" where
  "ack_text request_uri via routes from response_to call_id cseq_num max_forwards =
     ''ACK '' @ request_uri @ '' SIP/2.0'' @ CRLF @
     via @ CRLF @
     concat (map (\<lambda>rh. rh @ CRLF) routes) @
     from @ CRLF @
     response_to @ CRLF @
     call_id @ CRLF @
     ''CSeq: '' @ cseq_num @ '' ACK'' @ CRLF @
     (case max_forwards of Some mf \<Rightarrow> mf @ CRLF | None \<Rightarrow> ''Max-Forwards: 70'' @ CRLF) @
     ''Content-Length: 0'' @ CRLF @ CRLF"

definition build_non_ok_ack :: "bytes \<Rightarrow> bytes \<Rightarrow> bytes option" where
  "build_non_ok_ack invite response =
     (if \<not> valid_utf8 invite \<or> \<not> valid_utf8 response then None
      else
        let invite_lines = split_pat CRLF (header_block invite);
            response_lines = split_pat CRLF (header_block response)
        in case invite_lines of
             [] \<Rightarrow> None
           | request_line # header_lines \<Rightarrow>
               let h = scan_lines no_headers header_lines
               in case (extract_request_uri request_line, find is_to_line response_lines,
                        invite_via h, invite_from h, invite_call_id h, invite_cseq_num h) of
                    (Some request_uri, Some response_to, Some via, Some from, Some call_id, Some cseq_num) \<Rightarrow>
                      Some (ack_text request_uri via (route_headers h) from response_to call_id cseq_num
                              (invite_max_forwards h))
                  | _ \<Rightarrow> None)"

section \<open>Lines\<close>

text \<open>A text without a line break splits off in front of one.\<close>

lemma CRLF_neq_Nil [simp]: "CRLF \<noteq> []"
  by (simp add: CRLF_def)

lemma starts_with_iff: "starts_with s p \<longleftrightarrow> (\<exists>t. s = p @ t)"
  unfolding starts_with_def by (metis append_eq_conv_conj append_take_drop_id)

lemma split_once_CRLF_line:
  assumes "split_once CRLF l = None"
  shows "split_once CRLF (l @ CRLF @ rest) = Some (l, rest)"
proof (rule split_once_first)
  fix n assume n: "n < length l"
  show "\<not> starts_with (drop n (l @ CRLF @ rest)) CRLF"
  proof
    assume "starts_with (drop n (l @ CRLF @ rest)) CRLF"
    then obtain t where t: "drop n l @ CRLF @ rest = CRLF @ t"
      unfolding starts_with_def using n by (metis append_take_drop_id drop_append less_imp_le_nat diff_is_0_eq drop0)
    obtain c d where cd: "drop n l = c # d" using n by (cases "drop n l") auto
    with t have "c = CHR 0x0D" "d @ CRLF @ rest = CHR 0x0A # t" by (auto simp: CRLF_def)
    then obtain d' where "d = CHR 0x0A # d'" by (cases d) (auto simp: CRLF_def)
    then have "l = take n l @ CRLF @ d'" using cd \<open>c = _\<close>
      by (metis CRLF_def append_Cons append_Nil append_take_drop_id)
    with split_once_None [OF assms CRLF_neq_Nil] show False by blast
  qed
qed simp

lemma split_pat_lines:
  assumes "\<And>l. l \<in> set ls \<Longrightarrow> split_once CRLF l = None"
  shows "split_pat CRLF (concat (map (\<lambda>l. l @ CRLF) ls) @ rest) = ls @ split_pat CRLF rest"
  using assms
  by (induction ls) (simp_all add: split_pat_some [OF CRLF_neq_Nil split_once_CRLF_line])

text \<open>Every line a split returns is free of line breaks.\<close>

lemma split_once_prefix_free:
  "split_once p s = Some (a, b) \<Longrightarrow> p \<noteq> [] \<Longrightarrow> split_once p a = None"
proof (induction s arbitrary: a)
  case (Cons c s)
  show ?case
  proof (cases "starts_with (c # s) p")
    case True
    with Cons.prems show ?thesis by auto
  next
    case False
    with Cons.prems obtain a' where a': "a = c # a'" and s': "split_once p s = Some (a', b)" by auto
    have "\<not> starts_with (c # a') p"
      using False split_once_Some [OF s'] by (auto simp: starts_with_iff) (metis append_Cons append_assoc)
    with Cons.IH [OF s' Cons.prems(2)] a' show ?thesis by simp
  qed
qed simp

lemma split_pat_lines_free:
  "l \<in> set (split_pat p s) \<Longrightarrow> p \<noteq> [] \<Longrightarrow> split_once p l = None"
proof (induction p s rule: split_pat.induct)
  case (1 p s)
  show ?case
  proof (cases "split_once p s")
    case None
    with 1 show ?thesis by (simp add: split_pat_none)
  next
    case (Some ab)
    obtain a b where ab: "ab = (a, b)" by (cases ab)
    with Some have split: "split_once p s = Some (a, b)" by simp
    then have "l = a \<or> l \<in> set (split_pat p b)"
      using 1(2,3) by (simp add: split_pat_some)
    then show ?thesis
      using 1(1) [OF 1(3) split refl] 1(3) split_once_prefix_free [OF split 1(3)] by blast
  qed
qed

text \<open>A white-space token holds no line break.\<close>

lemma ws_len_CR: "ws_len (CHR 0x0D # s) = 1"
  by simp

lemma ws_tokens_no_CR:
  "t \<in> set (ws_tokens acc s) \<Longrightarrow> CHR 0x0D \<notin> set acc \<Longrightarrow> CHR 0x0D \<notin> set t"
proof (induction acc s rule: ws_tokens.induct)
  case (1 acc s)
  note unfold = ws_tokens.simps [of acc s]
  consider (Nil) "s = []" | (ws) "s \<noteq> []" "ws_len s > 0" | (tok) "s \<noteq> []" "\<not> ws_len s > 0" by blast
  then show ?case
  proof cases
    case Nil
    with 1 unfold show ?thesis by (simp split: if_splits)
  next
    case ws
    then have "t = acc \<or> t \<in> set (ws_tokens [] (drop (ws_len s) s))"
      using 1(3) unfold by (simp split: if_splits)
    with 1(1) [OF ws] 1(4) show ?thesis by auto
  next
    case tok
    then have "hd s \<noteq> CHR 0x0D" by (metis list.collapse ws_len_CR zero_less_one)
    with tok 1(2) [OF tok] 1(3,4) unfold show ?thesis by simp
  qed
qed

lemma split_whitespace_no_CR: "t \<in> set (split_whitespace s) \<Longrightarrow> CHR 0x0D \<notin> set t"
  unfolding split_whitespace_def by (rule ws_tokens_no_CR) auto

section \<open>The scan as a search\<close>

text \<open>Reference reading of the loop: each field is the first header line of its name, the routes
  are all of them in order. A line has at most one of the names, so the loop's else-if order does
  not matter.\<close>

definition named :: "string list \<Rightarrow> string \<Rightarrow> bool" where
  "named names line \<longleftrightarrow> (\<exists>n \<in> set names. starts_with (to_ascii_lowercase line) (n @ '':''))"

abbreviation "via_line \<equiv> named [''via'', ''v'']"
abbreviation "from_line \<equiv> named [''from'', ''f'']"
abbreviation "call_id_line \<equiv> named [''call-id'', ''i'']"
abbreviation "cseq_line \<equiv> named [''cseq'']"
abbreviation "max_forwards_line \<equiv> named [''max-forwards'']"
abbreviation "route_line \<equiv> named [''route'']"
abbreviation "to_line \<equiv> named [''to'', ''t'']"

lemma starts_with_conflict:
  "starts_with s p \<Longrightarrow> starts_with s q \<Longrightarrow> take (length q) p = take (length p) q"
  unfolding starts_with_def by (metis min.commute take_take)

lemma named_conflict:
  assumes "list_all (\<lambda>n. list_all (\<lambda>m. take (Suc (length m)) (n @ '':'') \<noteq> take (Suc (length n)) (m @ '':'')) ms) ns"
    and "named ns l"
  shows "\<not> named ms l"
  using assms by (auto simp: named_def list_all_iff dest: starts_with_conflict)

lemma named_disjoint:
  "from_line l \<Longrightarrow> \<not> via_line l"
  "call_id_line l \<Longrightarrow> \<not> via_line l" "call_id_line l \<Longrightarrow> \<not> from_line l"
  "cseq_line l \<Longrightarrow> \<not> via_line l" "cseq_line l \<Longrightarrow> \<not> from_line l" "cseq_line l \<Longrightarrow> \<not> call_id_line l"
  "max_forwards_line l \<Longrightarrow> \<not> via_line l" "max_forwards_line l \<Longrightarrow> \<not> from_line l"
  "max_forwards_line l \<Longrightarrow> \<not> call_id_line l" "max_forwards_line l \<Longrightarrow> \<not> cseq_line l"
  "route_line l \<Longrightarrow> \<not> via_line l" "route_line l \<Longrightarrow> \<not> from_line l" "route_line l \<Longrightarrow> \<not> call_id_line l"
  "route_line l \<Longrightarrow> \<not> cseq_line l" "route_line l \<Longrightarrow> \<not> max_forwards_line l"
  by - (erule named_conflict [rotated], simp)+

lemma named_unfold:
  "named [a] l \<longleftrightarrow> starts_with (to_ascii_lowercase l) (a @ '':'')"
  "named [a, b] l \<longleftrightarrow>
     starts_with (to_ascii_lowercase l) (a @ '':'') \<or> starts_with (to_ascii_lowercase l) (b @ '':'')"
  by (auto simp: named_def)

lemma scan_line_named:
  "scan_line h l =
     (if invite_via h = None \<and> via_line l then h\<lparr> invite_via := Some l \<rparr>
      else if invite_from h = None \<and> from_line l then h\<lparr> invite_from := Some l \<rparr>
      else if invite_call_id h = None \<and> call_id_line l then h\<lparr> invite_call_id := Some l \<rparr>
      else if invite_cseq_num h = None \<and> cseq_line l then h\<lparr> invite_cseq_num := parse_cseq_num l \<rparr>
      else if invite_max_forwards h = None \<and> max_forwards_line l then h\<lparr> invite_max_forwards := Some l \<rparr>
      else if route_line l then h\<lparr> route_headers := route_headers h @ [l] \<rparr>
      else h)"
  by (simp only: scan_line_def named_unfold Let_def append.simps)

definition or_else :: "'a option \<Rightarrow> 'a option \<Rightarrow> 'a option" where
  "or_else a b = (case a of Some x \<Rightarrow> Some x | None \<Rightarrow> b)"

lemma or_else_simps [simp]: "or_else (Some x) b = Some x" "or_else None b = b"
  by (simp_all add: or_else_def)

lemma scan_line_fields:
  "invite_via (scan_line h l) = or_else (invite_via h) (if via_line l then Some l else None)"
  "invite_from (scan_line h l) = or_else (invite_from h) (if from_line l then Some l else None)"
  "invite_call_id (scan_line h l) = or_else (invite_call_id h) (if call_id_line l then Some l else None)"
  "invite_cseq_num (scan_line h l) = or_else (invite_cseq_num h) (if cseq_line l then parse_cseq_num l else None)"
  "invite_max_forwards (scan_line h l) =
     or_else (invite_max_forwards h) (if max_forwards_line l then Some l else None)"
  "route_headers (scan_line h l) = route_headers h @ (if route_line l then [l] else [])"
  unfolding scan_line_named
  by (auto simp: or_else_def named_disjoint split: option.splits)

lemma or_else_assoc: "or_else (or_else a b) c = or_else a (or_else b c)"
  by (cases a) auto

lemma scan_lines_fields:
  fixes ls
  defines "block \<equiv> takeWhile (\<lambda>l. l \<noteq> []) ls"
  shows "invite_via (scan_lines h ls) = or_else (invite_via h) (find via_line block)"
    and "invite_from (scan_lines h ls) = or_else (invite_from h) (find from_line block)"
    and "invite_call_id (scan_lines h ls) = or_else (invite_call_id h) (find call_id_line block)"
    and "invite_cseq_num (scan_lines h ls) =
      or_else (invite_cseq_num h) (find_map parse_cseq_num (filter cseq_line block))"
    and "invite_max_forwards (scan_lines h ls) = or_else (invite_max_forwards h) (find max_forwards_line block)"
    and "route_headers (scan_lines h ls) = route_headers h @ filter route_line block"
  unfolding block_def
  by (induction ls arbitrary: h)
     (simp_all add: scan_line_fields or_else_assoc, simp_all add: or_else_def split: option.split)

section \<open>What the ACK says\<close>

lemma split_once_CRLF_no_CR: "CHR 0x0D \<notin> set l \<Longrightarrow> split_once CRLF l = None"
  by (rule split_once_absent) (auto simp: CRLF_def)

lemma find_set: "find P xs = Some x \<Longrightarrow> x \<in> set xs \<and> P x"
  by (induction xs) (auto split: if_splits)

lemma extract_request_uri_token: "extract_request_uri l = Some uri \<Longrightarrow> CHR 0x0D \<notin> set uri"
  unfolding extract_request_uri_def
  by (rule split_whitespace_no_CR [of uri l]) (auto split: list.splits)

lemma parse_cseq_num_token: "parse_cseq_num l = Some n \<Longrightarrow> CHR 0x0D \<notin> set n"
  unfolding parse_cseq_num_def nth_opt_def
  by (auto split: option.splits if_splits) (metis length_greater_0_conv nth_mem split_whitespace_no_CR)

definition ack_lines :: "string \<Rightarrow> string \<Rightarrow> string list \<Rightarrow> string \<Rightarrow> string \<Rightarrow> string \<Rightarrow> string \<Rightarrow>
    string option \<Rightarrow> string list" where
  "ack_lines uri via routes from to_hdr call_id n mf =
     [''ACK '' @ uri @ '' SIP/2.0'', via] @ routes @
     [from, to_hdr, call_id, ''CSeq: '' @ n @ '' ACK'', case_option ''Max-Forwards: 70'' id mf,
      ''Content-Length: 0'']"

lemma ack_text_lines:
  "ack_text uri via routes from to_hdr call_id n mf =
     concat (map (\<lambda>l. l @ CRLF) (ack_lines uri via routes from to_hdr call_id n mf)) @ CRLF"
  by (simp add: ack_text_def ack_lines_def split: option.split)

text \<open>Result.
  A successfully built ACK reads back, line by line, as the request the transaction owes its peer:
  the INVITE's Request-URI under the method ACK, the INVITE's first \<^verbatim>\<open>Via\<close>,
  all its \<^verbatim>\<open>Route\<close> headers in order, its \<^verbatim>\<open>From\<close> and
  \<^verbatim>\<open>Call-ID\<close>, the response's \<^verbatim>\<open>To\<close>, the INVITE's CSeq
  number and its \<^verbatim>\<open>Max-Forwards\<close> (or 70), an empty body, and no line beyond
  these, whatever bytes the peer put into the headers.\<close>

theorem build_non_ok_ack_lines:
  assumes "build_non_ok_ack invite response = Some ack"
  defines "lines \<equiv> split_pat CRLF (header_block invite)"
  defines "block \<equiv> takeWhile (\<lambda>l. l \<noteq> []) (tl lines)"
  shows "\<exists>uri via from to_hdr call_id n.
      extract_request_uri (hd lines) = Some uri \<and>
      find via_line block = Some via \<and>
      find from_line block = Some from \<and>
      find call_id_line block = Some call_id \<and>
      find_map parse_cseq_num (filter cseq_line block) = Some n \<and>
      find to_line (split_pat CRLF (header_block response)) = Some to_hdr \<and>
      split_pat CRLF ack =
        ack_lines uri via (filter route_line block) from to_hdr call_id n (find max_forwards_line block)
          @ [[], []]"
proof -
  let ?h = "scan_lines no_headers (tl lines)"
  have to: "is_to_line = to_line"
    by (auto simp: is_to_line_def named_unfold Let_def)
  have fields: "invite_via ?h = find via_line block" "invite_from ?h = find from_line block"
    "invite_call_id ?h = find call_id_line block"
    "invite_cseq_num ?h = find_map parse_cseq_num (filter cseq_line block)"
    "invite_max_forwards ?h = find max_forwards_line block" "route_headers ?h = filter route_line block"
    by (simp_all add: scan_lines_fields no_headers_def block_def)
  obtain uri via from_hdr to_hdr call_id n where found:
      "extract_request_uri (hd lines) = Some uri" "find via_line block = Some via"
      "find from_line block = Some from_hdr" "find call_id_line block = Some call_id"
      "find_map parse_cseq_num (filter cseq_line block) = Some n"
      "find to_line (split_pat CRLF (header_block response)) = Some to_hdr"
      and ack: "ack = ack_text uri via (filter route_line block) from_hdr to_hdr call_id n (find max_forwards_line block)"
    using assms(1) fields unfolding build_non_ok_ack_def Let_def lines_def [symmetric] to
    by (cases lines) (auto split: if_splits option.splits)
  let ?ls = "ack_lines uri via (filter route_line block) from_hdr to_hdr call_id n (find max_forwards_line block)"
  have "set block \<subseteq> set lines"
    unfolding block_def by (cases lines) (auto dest: set_takeWhileD)
  then have free: "split_once CRLF l = None" if "l \<in> set block" for l
    using that split_pat_lines_free [OF _ CRLF_neq_Nil] unfolding lines_def by blast
  have mem: "via \<in> set block" "from_hdr \<in> set block" "call_id \<in> set block"
    using found(2-4) by (simp_all add: find_set)
  have "split_once CRLF to_hdr = None"
    by (rule split_pat_lines_free [OF conjunct1 [OF find_set [OF found(6)]] CRLF_neq_Nil])
  moreover have "split_once CRLF (''ACK '' @ uri @ '' SIP/2.0'') = None"
    using extract_request_uri_token [OF found(1)] by (intro split_once_CRLF_no_CR) simp
  moreover have "split_once CRLF (''CSeq: '' @ n @ '' ACK'') = None"
    using find_map_SomeD [OF found(5)] parse_cseq_num_token
    by (intro split_once_CRLF_no_CR) auto
  moreover have "split_once CRLF (case_option ''Max-Forwards: 70'' id (find max_forwards_line block)) = None"
  proof (cases "find max_forwards_line block")
    case None
    then show ?thesis by (simp only: option.case) (rule split_once_CRLF_no_CR, simp)
  next
    case (Some mf)
    then show ?thesis by (simp add: free find_set)
  qed
  moreover have "split_once CRLF ''Content-Length: 0'' = None"
    by (rule split_once_CRLF_no_CR) simp
  ultimately have "split_once CRLF l = None" if "l \<in> set ?ls" for l
    using that free mem unfolding ack_lines_def by auto
  then have "split_pat CRLF ack = ?ls @ split_pat CRLF CRLF"
    unfolding ack ack_text_lines by (rule split_pat_lines)
  also have "split_pat CRLF CRLF = [[], []]"
    using split_pat_lines [of "[[]]" "[]"] by (simp add: split_pat_none)
  finally show ?thesis using found by blast
qed

text \<open>A concrete INVITE and its 404.\<close>

definition sample_invite_lines :: "string list" where
  "sample_invite_lines = [''INVITE b SIP/2.0'', ''Via: UDP a'', ''v: c'', ''Route: p'', ''From: f'', ''i: 7'', ''CSeq: 9 X'']"

definition sample_invite :: bytes where
  "sample_invite = concat (map (\<lambda>l. l @ CRLF) sample_invite_lines) @ CRLF"

definition sample_404 :: bytes where
  "sample_404 = ''SIP/2.0 404'' @ CRLF @ ''t: b'' @ CRLF @ CRLF"

lemma sample_lines:
  "split_pat CRLF (header_block sample_invite) = sample_invite_lines"
  "split_pat CRLF (header_block sample_404) = [''SIP/2.0 404'', ''t: b'']"
  by code_simp+

lemma sample_scan:
  "scan_lines no_headers (tl sample_invite_lines) =
     \<lparr> invite_via = Some ''Via: UDP a'', invite_from = Some ''From: f'', invite_call_id = Some ''i: 7'',
       invite_cseq_num = Some ''9'', invite_max_forwards = None, route_headers = [''Route: p''] \<rparr>"
  by code_simp

lemma sample_ack:
  "build_non_ok_ack sample_invite sample_404 =
     Some (ack_text ''b'' ''Via: UDP a'' [''Route: p''] ''From: f'' ''t: b'' ''i: 7'' ''9'' None)"
proof -
  have "valid_utf8 sample_invite \<and> valid_utf8 sample_404" by code_simp
  moreover have "extract_request_uri ''INVITE b SIP/2.0'' = Some ''b''" by code_simp
  moreover have "find is_to_line [''SIP/2.0 404'', ''t: b''] = Some ''t: b''" by code_simp
  moreover have "sample_invite_lines = ''INVITE b SIP/2.0'' # tl sample_invite_lines"
    by (simp add: sample_invite_lines_def)
  then have "split_pat CRLF (header_block sample_invite) = ''INVITE b SIP/2.0'' # tl sample_invite_lines"
    by (simp only: sample_lines)
  ultimately show ?thesis
    unfolding build_non_ok_ack_def sample_lines(2) by (simp add: sample_scan del: find.simps)
qed

theorem build_non_ok_ack_lines_witness:
  "\<exists>ack. build_non_ok_ack sample_invite sample_404 = Some ack \<and>
     last (butlast (butlast (split_pat CRLF ack))) = ''Content-Length: 0''"
  using build_non_ok_ack_lines [OF sample_ack] sample_ack by (auto simp: ack_lines_def butlast_append)

end
