(* ===== verification/Stream_Framing.thy ===== *)
theory Stream_Framing
  imports Txn_Ack "HOL-Library.Sublist"
begin

text \<open>
  Message framing on TCP and TLS (\<^verbatim>\<open>smiths-sip/src/transport/framing.rs\<close>) and the
  reader loop that drains the accumulated buffer (\<^verbatim>\<open>transport/stream.rs\<close>). Lengths are
  64-bit: the sum of the header end and the announced body length wraps, as it does in the release
  profile, which sets no overflow checks.
\<close>

section \<open>Model\<close>

definition MAX_MESSAGE_BYTES :: nat where "MAX_MESSAGE_BYTES = 65535"

abbreviation CRLF2 :: bytes where "CRLF2 \<equiv> CRLF @ CRLF"

datatype frame_outcome = Complete bytes | Partial | Overflow | BadLength

definition find_double_crlf :: "bytes \<Rightarrow> nat option" where
  "find_double_crlf bs = map_option (\<lambda>(h, _). length h) (split_once CRLF2 bs)"

text \<open>\<^verbatim>\<open>Result<usize, ()>\<close>, with \<open>None\<close> for the error.\<close>

definition content_length_line :: "string \<Rightarrow> nat option option" where
  "content_length_line line =
     (case split_once '':'' line of
        None \<Rightarrow> None
      | Some (nm, value) \<Rightarrow>
          if eq_ignore_ascii_case (trim nm) ''Content-Length'' \<or> eq_ignore_ascii_case (trim nm) ''l''
          then Some (parse_unsigned (2 ^ 64) (trim value)) else None)"

definition content_length :: "bytes \<Rightarrow> nat option" where
  "content_length headers =
     (if \<not> valid_utf8 headers then None
      else case find_map content_length_line (split_pat CRLF headers) of
             Some len \<Rightarrow> len
           | None \<Rightarrow> Some 0)"

definition take_one_message :: "bytes \<Rightarrow> frame_outcome \<times> bytes" where
  "take_one_message buf =
     (if length buf > MAX_MESSAGE_BYTES then (Overflow, buf)
      else case find_double_crlf buf of
        None \<Rightarrow> (Partial, buf)
      | Some header_end \<Rightarrow>
          (let headers = take header_end buf; body_start = header_end + 4
           in case content_length headers of
                None \<Rightarrow> (BadLength, buf)
              | Some body_len \<Rightarrow>
                  (let total = (body_start + body_len) mod 2 ^ 64
                   in if total > MAX_MESSAGE_BYTES then (Overflow, buf)
                      else if length buf < total then (Partial, buf)
                      else (Complete (take total buf), drop total buf))))"

text \<open>The inner loop of the reader: the messages handed on, whether the connection stays open, and
  the bytes left in the buffer. \<open>None\<close> is a loop that never ends.\<close>

partial_function (option) drain :: "bytes \<Rightarrow> (bytes list \<times> bool \<times> bytes) option" where
  "drain buf =
     (case take_one_message buf of
        (Complete msg, rest) \<Rightarrow>
          Option.bind (drain rest) (\<lambda>(msgs, open, left). Some (msg # msgs, open, left))
      | (Partial, rest) \<Rightarrow> Some ([], True, rest)
      | (Overflow, rest) \<Rightarrow> Some ([], False, rest)
      | (BadLength, rest) \<Rightarrow> Some ([], False, rest))"

declare drain.simps [code]

text \<open>The outer loop: each read appends a chunk and drains; a closed connection stops.\<close>

fun read_loop :: "bytes \<Rightarrow> bytes list \<Rightarrow> (bytes list \<times> bool \<times> bytes) option" where
  "read_loop buf [] = Some ([], True, buf)"
| "read_loop buf (chunk # chunks) =
     (case drain (buf @ chunk) of
        None \<Rightarrow> None
      | Some (msgs, open, left) \<Rightarrow>
          if open then
            (case read_loop left chunks of
               None \<Rightarrow> None
             | Some (msgs', open', left') \<Rightarrow> Some (msgs @ msgs', open', left'))
          else Some (msgs, False, left))"

section \<open>Framed messages\<close>

text \<open>A message the peer framed properly: a header block ended by the first empty line, whose
  Content-Length tells the body's length, within the cap.\<close>

definition framed :: "bytes \<Rightarrow> bytes \<Rightarrow> bool" where
  "framed h body \<longleftrightarrow> find_double_crlf (h @ CRLF2) = Some (length h) \<and>
     content_length h = Some (length body) \<and> length (h @ CRLF2 @ body) \<le> MAX_MESSAGE_BYTES"

definition is_message :: "bytes \<Rightarrow> bool" where
  "is_message m \<longleftrightarrow> (\<exists>h body. m = h @ CRLF2 @ body \<and> framed h body)"

lemma length_CRLF2 [simp]: "length CRLF = 2" by (simp add: CRLF_def)

lemma starts_with_append: "starts_with a p \<Longrightarrow> starts_with (a @ b) p"
  by (auto simp: starts_with_iff)

lemma starts_with_long: "length p \<le> length a \<Longrightarrow> starts_with (a @ b) p = starts_with a p"
  by (simp add: starts_with_def)

lemma split_once_extend:
  "split_once p a = Some (x, y) \<Longrightarrow> split_once p (a @ b) = Some (x, y @ b)"
proof (induction p a arbitrary: x rule: split_once.induct)
  case (2 p c s)
  show ?case
  proof (cases "starts_with (c # s) p")
    case True
    then have "starts_with (c # s @ b) p" using starts_with_append [of "c # s" p b] by simp
    moreover have "length p \<le> length (c # s)"
      using True unfolding starts_with_def by (metis length_take min.cobounded1)
    ultimately show ?thesis using 2(2) True by (cases p) auto
  next
    case False
    with 2(2) obtain x' where x: "x = c # x'" and s: "split_once p s = Some (x', y)" by auto
    then have "length p \<le> length s" using split_once_Some by fastforce
    then have "\<not> starts_with (c # s @ b) p"
      using False starts_with_long [of p "c # s" b] by simp
    with 2(1) [OF False s] x show ?thesis by simp
  qed
qed simp

lemma find_double_crlf_extend:
  "find_double_crlf a = Some n \<Longrightarrow> find_double_crlf (a @ b) = Some n"
  by (auto simp: find_double_crlf_def split_once_extend)

lemma framed_total: "framed h body \<Longrightarrow> (length h + 4 + length body) mod 2 ^ 64 = length h + 4 + length body"
  by (rule mod_less) (simp add: framed_def MAX_MESSAGE_BYTES_def)

lemma take_one_complete:
  assumes "framed h body" and "length (h @ CRLF2 @ body @ rest) \<le> MAX_MESSAGE_BYTES"
  shows "take_one_message (h @ CRLF2 @ body @ rest) = (Complete (h @ CRLF2 @ body), rest)"
proof -
  have "find_double_crlf (h @ CRLF2 @ body @ rest) = Some (length h)"
    using assms(1) find_double_crlf_extend [of "h @ CRLF2" _ "body @ rest"] by (simp add: framed_def)
  with assms framed_total [OF assms(1)] show ?thesis
    by (simp add: take_one_message_def framed_def Let_def)
qed

lemma take_one_partial:
  assumes "framed h body" and "strict_prefix p (h @ CRLF2 @ body)"
  shows "take_one_message p = (Partial, p)"
proof -
  from assms(2) obtain q where q: "h @ CRLF2 @ body = p @ q" and "q \<noteq> []"
    by (auto simp: strict_prefix_def prefix_def)
  have len: "length p < length h + 4 + length body"
    using arg_cong [OF q, of length] \<open>q \<noteq> []\<close> by (cases q) auto
  have whole: "find_double_crlf (h @ CRLF2 @ body) = Some (length h)"
    using assms(1) find_double_crlf_extend [of "h @ CRLF2" _ body] by (simp add: framed_def)
  have small: "length p \<le> MAX_MESSAGE_BYTES" using len assms(1) by (simp add: framed_def)
  show ?thesis
  proof (cases "find_double_crlf p")
    case None
    with small show ?thesis by (simp add: take_one_message_def)
  next
    case (Some n)
    then have "n = length h" using find_double_crlf_extend [OF Some, of q] whole q by simp
    moreover have "length h \<le> length p"
      using Some \<open>n = length h\<close> by (auto simp: find_double_crlf_def dest!: split_once_Some)
    then have "take (length h) p = h" using q by (metis append_eq_append_conv_if)
    ultimately show ?thesis
      using Some small len assms(1) framed_total [OF assms(1)]
      by (simp add: take_one_message_def Let_def framed_def)
  qed
qed

text \<open>A buffer of whole messages followed by a proper prefix of one drains to those messages.\<close>

definition incomplete :: "nat \<Rightarrow> bytes \<Rightarrow> bool" where
  "incomplete M p \<longleftrightarrow> p = [] \<or> (\<exists>m. is_message m \<and> length m \<le> M \<and> strict_prefix p m)"

lemma take_one_Nil: "take_one_message [] = (Partial, [])"
  by (simp add: take_one_message_def find_double_crlf_def)

lemma drain_messages:
  assumes "list_all is_message ms" and "incomplete M p" and "length (concat ms @ p) \<le> MAX_MESSAGE_BYTES"
  shows "drain (concat ms @ p) = Some (ms, True, p)"
  using assms
proof (induction ms)
  case Nil
  then have "take_one_message p = (Partial, p)"
    by (auto simp: incomplete_def is_message_def take_one_Nil take_one_partial)
  then show ?case by (simp add: drain.simps [of p])
next
  case (Cons m ms)
  from Cons.prems(1) obtain h body where m: "m = h @ CRLF2 @ body" "framed h body"
    by (auto simp: is_message_def)
  have "take_one_message (concat (m # ms) @ p) = (Complete m, concat ms @ p)"
    using take_one_complete [OF m(2), of "concat ms @ p"] m Cons.prems(3) by simp
  moreover have "drain (concat ms @ p) = Some (ms, True, p)" using Cons by simp
  ultimately show ?case by (subst drain.simps) simp
qed

lemma incomplete_length: "incomplete M p \<Longrightarrow> length p \<le> M"
  by (auto simp: incomplete_def dest: prefix_length_less)

text \<open>However the stream is cut, the part read so far is whole messages and a proper prefix.\<close>

lemma stream_split:
  assumes "x @ y = concat ms @ p" and "incomplete M p" and "\<And>m. m \<in> set ms \<Longrightarrow> is_message m \<and> length m \<le> M"
  shows "\<exists>ms1 ms2 q. ms = ms1 @ ms2 \<and> x = concat ms1 @ q \<and> q @ y = concat ms2 @ p \<and> incomplete M q"
  using assms
proof (induction ms arbitrary: x)
  case Nil
  then have "prefix x p" by (auto simp: prefix_def)
  then have "incomplete M x"
    using Nil.prems(2) unfolding incomplete_def by (auto intro: prefix_order.le_less_trans)
  with Nil.prems(1) show ?case by (intro exI [of _ "[]"] exI [of _ x]) simp
next
  case (Cons m ms)
  show ?case
  proof (cases "length m \<le> length x")
    case True
    have "prefix m (x @ y)" using Cons.prems(1) by simp
    then have "prefix m x" using prefix_length_prefix [of m "x @ y" x] True by simp
    then obtain x' where "x = m @ x'" by (rule prefixE)
    with Cons.prems(1) have x: "x = m @ x'" "x' @ y = concat ms @ p" by simp_all
    with Cons.IH [of x'] Cons.prems(2,3) obtain ms1 ms2 q where
      "ms = ms1 @ ms2" "x' = concat ms1 @ q" "q @ y = concat ms2 @ p" "incomplete M q" by auto
    with x show ?thesis by (intro exI [of _ "m # ms1"] exI [of _ ms2] exI [of _ q]) simp
  next
    case False
    with Cons.prems(1) have "strict_prefix x m"
      by (auto simp: append_eq_append_conv2 strict_prefix_def prefix_def)
    with Cons.prems(1,3) show ?thesis
      by (intro exI [of _ "[]"] exI [of _ "m # ms"] exI [of _ x]) (auto simp: incomplete_def)
  qed
qed

text \<open>Property C7.
  Framing is independent of how the network cuts the stream: whatever chunks a stream of properly
  framed messages arrives in, the reader hands on exactly those messages, in order and byte for
  byte, keeps the connection open and holds back only the unfinished rest, as long as the longest
  message and the longest read together fit the buffer cap.\<close>

theorem read_loop_reassembles:
  assumes "concat chunks = concat ms @ p" and "incomplete M p"
    and "\<forall>m \<in> set ms. is_message m \<and> length m \<le> M" and "\<forall>c \<in> set chunks. length c \<le> C"
    and "M + C \<le> MAX_MESSAGE_BYTES"
  shows "read_loop [] chunks = Some (ms, True, p)"
proof -
  have "read_loop buf chunks = Some (ms, True, p)"
    if "buf @ concat chunks = concat ms @ p" "incomplete M buf"
      "\<forall>m \<in> set ms. is_message m \<and> length m \<le> M" "\<forall>c \<in> set chunks. length c \<le> C" for buf chunks ms
    using that
  proof (induction chunks arbitrary: buf ms)
    case Nil
    have "ms = []"
    proof (rule ccontr)
      assume "ms \<noteq> []"
      then obtain m ms' where ms: "ms = m # ms'" by (cases ms) auto
      then obtain h body where m: "m = h @ CRLF2 @ body" "framed h body"
        using Nil.prems(3) by (auto simp: is_message_def)
      have "length buf \<le> MAX_MESSAGE_BYTES"
        using incomplete_length [OF Nil.prems(2)] assms(5) by simp
      then have "take_one_message buf = (Complete m, concat ms' @ p)"
        using take_one_complete [OF m(2), of "concat ms' @ p"] Nil.prems(1) ms m by simp
      moreover have "take_one_message buf = (Partial, buf)"
        using Nil.prems(2) by (auto simp: incomplete_def is_message_def take_one_Nil take_one_partial)
      ultimately show False by simp
    qed
    with Nil.prems(1) show ?case by simp
  next
    case (Cons chunk chunks)
    have "(buf @ chunk) @ concat chunks = concat ms @ p" using Cons.prems(1) by simp
    from stream_split [OF this assms(2)] Cons.prems(3) obtain ms1 ms2 q where
      split: "ms = ms1 @ ms2" "buf @ chunk = concat ms1 @ q" "q @ concat chunks = concat ms2 @ p"
        "incomplete M q" by blast
    have "length (concat ms1 @ q) \<le> MAX_MESSAGE_BYTES"
      using incomplete_length [OF Cons.prems(2)] Cons.prems(4) assms(5) arg_cong [OF split(2), of length] by simp
    with split Cons.prems(3) have "drain (buf @ chunk) = Some (ms1, True, q)"
      unfolding split(2) by (intro drain_messages [of ms1 M]) (auto simp: list_all_iff)
    moreover have "read_loop q chunks = Some (ms2, True, p)"
      using Cons.prems split by (intro Cons.IH) auto
    ultimately show ?case using split by simp
  qed
  from this [of "[]" chunks ms] assms show ?thesis by (simp add: incomplete_def)
qed

text \<open>A header block of one Content-Length line.\<close>

lemma content_length_single:
  assumes "split_pat CRLF h = [h]" and "valid_utf8 h" and "split_once '':'' h = Some (''l'', v)" and "trim v = v"
  shows "content_length h = parse_unsigned (2 ^ 64) v"
proof -
  have "trim ''l'' = ''l''" by code_simp
  with assms show ?thesis by (simp add: content_length_def content_length_line_def eq_ignore_ascii_case_def)
qed

text \<open>Two messages in three reads that cut both of them.\<close>

definition sample_msg :: bytes where
  "sample_msg = ''l:2'' @ CRLF2 @ ''ab''"

lemma sample_msg_framed: "is_message sample_msg"
proof -
  have "find_double_crlf (''l:2'' @ CRLF2) = Some (length ''l:2'')" by code_simp
  moreover have "content_length ''l:2'' = parse_unsigned (2 ^ 64) ''2''"
    by (rule content_length_single; code_simp)
  then have "content_length ''l:2'' = Some (length ''ab'')" by (simp add: parse_unsigned_def)
  ultimately have "framed ''l:2'' ''ab''" by (simp add: framed_def MAX_MESSAGE_BYTES_def)
  then show ?thesis unfolding is_message_def sample_msg_def by blast
qed

theorem read_loop_reassembles_witness:
  "read_loop [] [take 5 sample_msg, drop 5 sample_msg @ take 2 sample_msg, drop 2 sample_msg] =
     Some ([sample_msg, sample_msg], True, [])"
  using read_loop_reassembles [of "[take 5 sample_msg, drop 5 sample_msg @ take 2 sample_msg, drop 2 sample_msg]"
      "[sample_msg, sample_msg]" "[]" 9 9] sample_msg_framed
  by (simp add: incomplete_def MAX_MESSAGE_BYTES_def del: read_loop.simps) (simp add: sample_msg_def CRLF_def)

section \<open>The wrapped length\<close>

text \<open>A header block whose Content-Length completes the header's own length to \<open>2^64\<close>.\<close>

definition spin_headers :: bytes where
  "spin_headers = ''l:18446744073709551590''"

lemma spin_takes_nothing:
  "take_one_message (spin_headers @ CRLF2) = (Complete [], spin_headers @ CRLF2)"
proof -
  have "find_double_crlf (spin_headers @ CRLF2) = Some 22" by code_simp
  moreover have "content_length spin_headers = parse_unsigned (2 ^ 64) ''18446744073709551590''"
    by (rule content_length_single; code_simp)
  then have "content_length spin_headers = Some 18446744073709551590" by (simp add: parse_unsigned_def)
  moreover have "take 22 (spin_headers @ CRLF2) = spin_headers" by (simp add: spin_headers_def)
  moreover have "length (spin_headers @ CRLF2) = 26" by (simp add: spin_headers_def)
  ultimately show ?thesis by (simp add: take_one_message_def MAX_MESSAGE_BYTES_def Let_def)
qed

text \<open>Result.
  The wrapped sum makes the reader spin: on a 26-byte message whose Content-Length is
  \<open>2^64 - 26\<close> the framer reports an empty message as complete and consumes nothing, so the inner
  loop never ends and hands on empty datagrams for ever.\<close>

theorem read_loop_can_spin:
  "drain (spin_headers @ CRLF2) = None \<and> read_loop [] [spin_headers @ CRLF2] = None"
proof -
  have "drain (spin_headers @ CRLF2) = None"
  proof (rule ccontr)
    assume "drain (spin_headers @ CRLF2) \<noteq> None"
    then obtain ms ok rest where some: "drain (spin_headers @ CRLF2) = Some (ms, ok, rest)" by auto
    have "drain (spin_headers @ CRLF2) = Some ([] # ms, ok, rest)"
      by (subst drain.simps) (simp add: spin_takes_nothing some)
    with some show False by simp
  qed
  then show ?thesis by simp
qed

end
