(* ===== verification/Turn_Wire.thy ===== *)
theory Turn_Wire
  imports Stun
begin

text \<open>
  The wire format of TURN (\<^verbatim>\<open>smiths-ice/src/turn.rs\<close>, from line 1414, with the
  constants and \<^verbatim>\<open>TurnClient::parse_relayed\<close>): the TURN-flavoured STUN parser and its attribute
  iterator, the encoders, peer addresses, message integrity, ChannelData frames. The attribute
  numbers, the padding and the constant-time comparison that the file shares with
  \<^verbatim>\<open>stun.rs\<close> are those of theory \<open>Stun\<close>; HMAC-SHA1 is the parameter
  \<open>hmac\<close> here too. Transaction ids come from a random generator and are arguments.
\<close>

section \<open>Constants\<close>

definition METHOD_ALLOCATE :: u16 where "METHOD_ALLOCATE = 0x003"
definition METHOD_REFRESH :: u16 where "METHOD_REFRESH = 0x004"
definition METHOD_SEND :: u16 where "METHOD_SEND = 0x006"
definition METHOD_DATA :: u16 where "METHOD_DATA = 0x007"
definition METHOD_CREATE_PERMISSION :: u16 where "METHOD_CREATE_PERMISSION = 0x008"
definition METHOD_CHANNEL_BIND :: u16 where "METHOD_CHANNEL_BIND = 0x009"
definition ATTR_CHANNEL_NUMBER :: u16 where "ATTR_CHANNEL_NUMBER = 0x000C"
definition ATTR_LIFETIME :: u16 where "ATTR_LIFETIME = 0x000D"
definition ATTR_XOR_PEER_ADDRESS :: u16 where "ATTR_XOR_PEER_ADDRESS = 0x0012"
definition ATTR_DATA :: u16 where "ATTR_DATA = 0x0013"
definition ATTR_REALM :: u16 where "ATTR_REALM = 0x0014"
definition ATTR_NONCE :: u16 where "ATTR_NONCE = 0x0015"
definition ATTR_XOR_RELAYED_ADDRESS :: u16 where "ATTR_XOR_RELAYED_ADDRESS = 0x0016"
definition ATTR_REQUESTED_TRANSPORT :: u16 where "ATTR_REQUESTED_TRANSPORT = 0x0019"
definition CLASS_REQUEST :: u16 where "CLASS_REQUEST = 0"
definition CLASS_INDICATION :: u16 where "CLASS_INDICATION = 1"
definition CLASS_SUCCESS :: u16 where "CLASS_SUCCESS = 2"
definition CLASS_ERROR :: u16 where "CLASS_ERROR = 3"
definition CHANNEL_MIN :: u16 where "CHANNEL_MIN = 0x4000"
definition CHANNEL_MAX :: u16 where "CHANNEL_MAX = 0x7FFF"

lemmas turn_methods = METHOD_ALLOCATE_def METHOD_REFRESH_def METHOD_SEND_def METHOD_DATA_def
  METHOD_CREATE_PERMISSION_def METHOD_CHANNEL_BIND_def
lemmas turn_classes = CLASS_REQUEST_def CLASS_INDICATION_def CLASS_SUCCESS_def CLASS_ERROR_def
lemmas turn_attrs = ATTR_CHANNEL_NUMBER_def ATTR_LIFETIME_def ATTR_XOR_PEER_ADDRESS_def ATTR_DATA_def
  ATTR_REALM_def ATTR_NONCE_def ATTR_XOR_RELAYED_ADDRESS_def ATTR_REQUESTED_TRANSPORT_def
  ATTR_USERNAME_def ATTR_MESSAGE_INTEGRITY_def ATTR_ERROR_CODE_def ATTR_XOR_MAPPED_ADDRESS_def

section \<open>Parsing\<close>

record parsed_stun =
  pt_method :: u16
  pt_class :: u16
  pt_txid :: transaction_id
  pt_raw :: octets
  pt_body :: octets

definition raw_class :: "u16 \<Rightarrow> u16" where
  "raw_class ty = (drop_bit 4 ty AND 0x01) OR (drop_bit 7 ty AND 0x02)"

definition raw_method :: "u16 \<Rightarrow> u16" where
  "raw_method ty = (ty AND 0x000F) OR drop_bit 1 (ty AND 0x00E0) OR drop_bit 2 (ty AND 0x3E00)"

definition turn_parse :: "octets \<Rightarrow> parsed_stun option" where
  "turn_parse bs =
     (if length bs < STUN_HEADER_LEN then None
      else let type_raw = from_be (slice 0 2 bs);
               len = unat (from_be (slice 2 4 bs) :: u16)
           in if from_be (slice 4 8 bs) \<noteq> MAGIC_COOKIE then None
              else if length bs < STUN_HEADER_LEN + len then None
              else Some \<lparr> pt_method = raw_method type_raw, pt_class = raw_class type_raw,
                          pt_txid = slice 8 20 bs, pt_raw = take (STUN_HEADER_LEN + len) bs,
                          pt_body = slice STUN_HEADER_LEN (STUN_HEADER_LEN + len) bs \<rparr>)"

text \<open>\<^verbatim>\<open>AttrIter::next\<close>: a truncated value ends the iteration.\<close>

definition turn_attr_next :: "octets \<Rightarrow> nat \<Rightarrow> ((u16 \<times> octets) \<times> nat) option" where
  "turn_attr_next body idx =
     (if idx + 4 > length body then None
      else let kind = from_be (slice idx (idx + 2) body);
               len = unat (from_be (slice (idx + 2) (idx + 4) body) :: u16)
           in if idx + 4 + len > length body then None
              else Some ((kind, slice (idx + 4) (idx + 4 + len) body), idx + 4 + len + attr_pad len))"

function turn_iter_from :: "octets \<Rightarrow> nat \<Rightarrow> (u16 \<times> octets) list" where
  "turn_iter_from body idx =
     (case turn_attr_next body idx of None \<Rightarrow> [] | Some (a, idx') \<Rightarrow> a # turn_iter_from body idx')"
  by pat_completeness auto
termination
  by (relation "measure (\<lambda>(body, idx). length body - idx)")
    (auto simp: turn_attr_next_def Let_def split: if_splits)

declare turn_iter_from.simps [simp del]

definition turn_iter_attrs :: "parsed_stun \<Rightarrow> (u16 \<times> octets) list" where
  "turn_iter_attrs msg = turn_iter_from (pt_body msg) 0"

definition turn_attr :: "parsed_stun \<Rightarrow> u16 \<Rightarrow> octets option" where
  "turn_attr msg kind = map_option snd (List.find (\<lambda>a. fst a = kind) (turn_iter_attrs msg))"

section \<open>Writing\<close>

definition encode_type :: "u16 \<Rightarrow> u16 \<Rightarrow> u16" where
  "encode_type meth cls =
     (let c0 = cls AND 1; c1 = drop_bit 1 cls AND 1
      in push_bit 2 (meth AND 0x0F00) OR push_bit 8 c1 OR push_bit 1 (meth AND 0x0070)
         OR push_bit 4 c0 OR (meth AND 0x000F))"

definition turn_header :: "u16 \<Rightarrow> u16 \<Rightarrow> transaction_id \<Rightarrow> octets" where
  "turn_header meth cls txid =
     be_bytes 2 (encode_type meth cls) @ [0, 0] @ be_bytes 4 MAGIC_COOKIE @ txid"

definition request_header :: "u16 \<Rightarrow> transaction_id \<Rightarrow> octets" where
  "request_header meth txid = turn_header meth CLASS_REQUEST txid"

definition build_success_header :: "u16 \<Rightarrow> transaction_id \<Rightarrow> octets" where
  "build_success_header meth txid = turn_header meth CLASS_SUCCESS txid"

text \<open>The length is cast with \<^verbatim>\<open>as u16\<close>: a longer value is written with a wrapped length.\<close>

definition append_attr :: "octets \<Rightarrow> u16 \<Rightarrow> octets \<Rightarrow> octets" where
  "append_attr buf kind value =
     buf @ be_bytes 2 kind @ be_bytes 2 (of_nat (length value) :: u16) @ value
       @ replicate (attr_pad (length value)) 0"

definition append_error_code :: "octets \<Rightarrow> u16 \<Rightarrow> bytes \<Rightarrow> octets" where
  "append_error_code buf err reason =
     append_attr buf ATTR_ERROR_CODE ([0, 0, ucast (err div 100), ucast (err mod 100)] @ octets_of reason)"

definition append_attr_lifetime :: "octets \<Rightarrow> u32 \<Rightarrow> octets" where
  "append_attr_lifetime buf lifetime_s = append_attr buf ATTR_LIFETIME (be_bytes 4 lifetime_s)"

definition append_attr_data :: "octets \<Rightarrow> octets \<Rightarrow> octets" where
  "append_attr_data buf data = append_attr buf ATTR_DATA data"

definition turn_xor_value :: "socket_addr \<Rightarrow> transaction_id \<Rightarrow> octets" where
  "turn_xor_value addr txid =
     (let port_xor = sa_port addr XOR ucast (drop_bit 16 MAGIC_COOKIE)
      in if length (sa_ip addr) = 4
         then let ip_xor = from_be (sa_ip addr) XOR MAGIC_COOKIE
              in [0, 0x01] @ be_bytes 2 port_xor @ be_bytes 4 ip_xor
         else let xor_bytes = map2 (XOR) (sa_ip addr) (be_bytes 4 MAGIC_COOKIE @ txid)
              in [0, 0x02] @ be_bytes 2 port_xor @ xor_bytes)"

definition append_attr_xor_addr :: "octets \<Rightarrow> u16 \<Rightarrow> socket_addr \<Rightarrow> transaction_id \<Rightarrow> octets" where
  "append_attr_xor_addr buf kind addr txid = append_attr buf kind (turn_xor_value addr txid)"

definition decode_xor_addr :: "octets \<Rightarrow> transaction_id \<Rightarrow> socket_addr option" where
  "decode_xor_addr raw txid =
     (if length raw < 4 then None
      else let family = raw ! 1;
               port = from_be (slice 2 4 raw) XOR ucast (drop_bit 16 MAGIC_COOKIE)
           in if family = 0x01 \<and> 8 \<le> length raw then
                let ip = from_be (slice 4 8 raw) XOR MAGIC_COOKIE
                in Some \<lparr> sa_ip = be_bytes 4 ip, sa_port = port \<rparr>
              else if family = 0x02 \<and> 20 \<le> length raw then
                Some \<lparr> sa_ip = map2 (XOR) (slice 4 20 raw) (be_bytes 4 MAGIC_COOKIE @ txid), sa_port = port \<rparr>
              else None)"

text \<open>Every buffer these two see starts with the 20-octet header.\<close>

definition finalize_length :: "octets \<Rightarrow> octets" where
  "finalize_length buf =
     (let body_len = of_nat (length buf - STUN_HEADER_LEN) :: u16
      in buf[2 := ucast (drop_bit 8 body_len), 3 := ucast (body_len AND 0xFF)])"

definition append_message_integrity :: "hmac_fun \<Rightarrow> octets \<Rightarrow> octets \<Rightarrow> octets" where
  "append_message_integrity hmac buf key =
     (let final_len = length buf + 4 + 20 - STUN_HEADER_LEN;
          len_be = be_bytes 2 (of_nat final_len :: u16);
          buf' = buf[2 := len_be ! 0, 3 := len_be ! 1]
      in append_attr buf' ATTR_MESSAGE_INTEGRITY (hmac key buf'))"

definition build_error :: "u16 \<Rightarrow> transaction_id \<Rightarrow> u16 \<Rightarrow> bytes \<Rightarrow> octets" where
  "build_error meth txid err reason =
     finalize_length (append_error_code (turn_header meth CLASS_ERROR txid) err reason)"

definition build_challenge :: "u16 \<Rightarrow> transaction_id \<Rightarrow> u16 \<Rightarrow> bytes \<Rightarrow> bytes \<Rightarrow> octets" where
  "build_challenge meth txid err realm nonce =
     (let reason = (if err = 438 then ''Stale Nonce'' else ''Unauthorized'');
          out = append_error_code (turn_header meth CLASS_ERROR txid) err reason;
          out = append_attr out ATTR_REALM (octets_of realm);
          out = append_attr out ATTR_NONCE (octets_of nonce)
      in finalize_length out)"

definition channel_data_frame :: "u16 \<Rightarrow> octets \<Rightarrow> octets" where
  "channel_data_frame channel data =
     be_bytes 2 channel @ be_bytes 2 (of_nat (length data) :: u16) @ data"

definition data_indication :: "transaction_id \<Rightarrow> socket_addr \<Rightarrow> octets \<Rightarrow> octets" where
  "data_indication txid peer data =
     finalize_length (append_attr_data
       (append_attr_xor_addr (turn_header METHOD_DATA CLASS_INDICATION txid) ATTR_XOR_PEER_ADDRESS peer txid) data)"

section \<open>Message integrity\<close>

function turn_verify_loop :: "hmac_fun \<Rightarrow> octets \<Rightarrow> octets \<Rightarrow> nat \<Rightarrow> nat \<Rightarrow> bool" where
  "turn_verify_loop hmac raw key fin cursor =
     (if cursor + 4 \<le> fin then
        (let kind = from_be (slice cursor (cursor + 2) raw);
             len = unat (from_be (slice (cursor + 2) (cursor + 4) raw) :: u16)
         in if kind = ATTR_MESSAGE_INTEGRITY then
              (if len \<noteq> 20 \<or> cursor + 4 + 20 > length raw then False
               else let observed = slice (cursor + 4) (cursor + 4 + 20) raw;
                        adjusted_len = of_nat (cursor + 4 + 20 - STUN_HEADER_LEN) :: u16;
                        msg_for_hmac = (take cursor raw)[2 := ucast (drop_bit 8 adjusted_len),
                                                         3 := ucast (adjusted_len AND 0xFF)]
                    in ct_eq observed (hmac key msg_for_hmac))
            else turn_verify_loop hmac raw key fin (cursor + 4 + len + attr_pad len))
      else False)"
  by pat_completeness auto
termination
  by (relation "measure (\<lambda>(_, _, _, fin, cursor). fin - cursor)") auto

declare turn_verify_loop.simps [simp del]

definition turn_verify_integrity :: "hmac_fun \<Rightarrow> octets \<Rightarrow> octets \<Rightarrow> bool" where
  "turn_verify_integrity hmac raw key =
     (case turn_parse raw of
        None \<Rightarrow> False
      | Some msg \<Rightarrow> turn_verify_loop hmac raw key (STUN_HEADER_LEN + length (pt_body msg)) STUN_HEADER_LEN)"

section \<open>What a client receives\<close>

datatype relayed = RelData socket_addr octets | RelChannel u16 octets

definition parse_relayed :: "octets \<Rightarrow> relayed option" where
  "parse_relayed bs =
     (if 4 \<le> length bs \<and> bs ! 0 AND 0xC0 = 0x40 then
        (let channel = from_be (slice 0 2 bs);
             len = unat (from_be (slice 2 4 bs) :: u16)
         in if 4 + len \<le> length bs then Some (RelChannel channel (slice 4 (4 + len) bs)) else None)
      else (case turn_parse bs of
              None \<Rightarrow> None
            | Some msg \<Rightarrow>
                if pt_class msg \<noteq> CLASS_INDICATION \<or> pt_method msg \<noteq> METHOD_DATA then None
                else (case turn_attr msg ATTR_XOR_PEER_ADDRESS of
                        None \<Rightarrow> None
                      | Some v \<Rightarrow>
                          (case decode_xor_addr v (pt_txid msg) of
                             None \<Rightarrow> None
                           | Some peer \<Rightarrow>
                               (case turn_attr msg ATTR_DATA of
                                  None \<Rightarrow> None
                                | Some data \<Rightarrow> Some (RelData peer data))))))"

section \<open>What the encoders write\<close>

lemma append_attr_octets: "append_attr buf kind value = buf @ attr_octets (kind, value)"
  by (simp add: append_attr_def attr_octets_def)

lemma low_octet: "ucast ((w :: u16) AND 0xFF) = (ucast w :: u8)"
proof -
  have "w AND 0xFF = take_bit 8 w" by (simp add: take_bit_eq_mask mask_eq_exp_minus_1)
  then show ?thesis by (simp only:) (rule bit_word_eqI, simp add: bit_simps)
qed

lemma put_length:
  assumes "4 \<le> length buf"
  shows "buf[2 := ucast (drop_bit 8 w), 3 := ucast w] = take 2 buf @ be_bytes 2 (w :: u16) @ drop 4 buf"
proof -
  obtain a b c d xs where "buf = a # b # c # d # xs"
    using assms by (metis Suc_le_length_iff numeral_eq_Suc pred_numeral_simps(1,2) One_nat_def BitM.simps(1,2) eval_nat_numeral(2,3) numeral_3_eq_3 numeral_2_eq_2)
  then show ?thesis by (simp add: byte_simps)
qed

lemma finalize_length_stun:
  "length tid = 12 \<Longrightarrow> finalize_length (stun_with_len k ty tid as) = stun_octets ty tid as"
  by (simp add: finalize_length_def Let_def low_octet put_length length_stun_with_len STUN_HEADER_LEN_def)
    (simp add: stun_octets_len stun_with_len_def)

lemma append_integrity_stun:
  assumes "length tid = 12"
  shows "append_message_integrity hmac (stun_with_len k ty tid as) key =
    stun_with_len (length (body_octets as) + 24) ty tid (as @ [integrity_attr hmac key ty tid as])"
proof -
  have "(stun_with_len k ty tid as)[2 := ucast (drop_bit 8 w), 3 := ucast w] =
      be_bytes 2 ty @ be_bytes 2 w @ be_bytes 4 MAGIC_COOKIE @ tid @ body_octets as" for w :: u16
    using put_length [of "stun_with_len k ty tid as" w] assms by (simp add: stun_with_len_def)
  then show ?thesis
    using assms
    by (simp add: append_message_integrity_def Let_def byte_simps(1) length_stun_with_len STUN_HEADER_LEN_def
        append_attr_octets stun_with_len_append integrity_attr_def stun_with_len_def add.commute)
qed

lemma turn_header_stun: "turn_header meth cls tid = stun_with_len 0 (encode_type meth cls) tid []"
  by (simp add: turn_header_def stun_with_len_def byte_simps)

lemma append_attr_stun:
  "append_attr (stun_with_len k ty tid as) kind value = stun_with_len k ty tid (as @ [(kind, value)])"
  by (simp add: append_attr_octets stun_with_len_append)

lemmas turn_build = turn_header_stun append_attr_stun finalize_length_stun append_integrity_stun

section \<open>What the parser reads\<close>

lemma turn_attr_next_at:
  assumes "length (snd a) < 2 ^ 16"
  shows "turn_attr_next (pre @ attr_octets a @ post) (length pre) = Some (a, length (pre @ attr_octets a))"
  using attr_octets_fields [OF assms, of pre post]
  by (simp add: turn_attr_next_def Let_def length_attr_octets)

lemma turn_iter_body:
  "small_attrs as \<Longrightarrow> turn_iter_from (pre @ body_octets as) (length pre) = as"
proof (induction as arbitrary: pre)
  case Nil
  show ?case by (subst turn_iter_from.simps) (simp add: turn_attr_next_def)
next
  case (Cons a as)
  have "turn_attr_next (pre @ body_octets (a # as)) (length pre) = Some (a, length (pre @ attr_octets a))"
    using turn_attr_next_at [of a pre "body_octets as"] Cons.prems by simp
  moreover have "turn_iter_from (pre @ body_octets (a # as)) (length (pre @ attr_octets a)) = as"
    using Cons.IH [of "pre @ attr_octets a"] Cons.prems by simp
  ultimately show ?case by (subst turn_iter_from.simps) simp
qed

text \<open>What a receiver makes of a message with these attributes.\<close>

definition turn_view :: "u16 \<Rightarrow> transaction_id \<Rightarrow> (u16 \<times> octets) list \<Rightarrow> parsed_stun" where
  "turn_view ty tid as = \<lparr> pt_method = raw_method ty, pt_class = raw_class ty, pt_txid = tid,
     pt_raw = stun_octets ty tid as, pt_body = body_octets as \<rparr>"

lemma turn_view_simps [simp]:
  "pt_method (turn_view ty tid as) = raw_method ty" "pt_class (turn_view ty tid as) = raw_class ty"
  "pt_txid (turn_view ty tid as) = tid" "pt_raw (turn_view ty tid as) = stun_octets ty tid as"
  by (simp_all add: turn_view_def)

lemma turn_parse_stun:
  assumes "length tid = 12" and "length (body_octets as) < 2 ^ 16"
  shows "turn_parse (stun_octets ty tid as) = Some (turn_view ty tid as)"
  using stun_octets_fields [OF assms, of ty]
  by (simp add: turn_parse_def Let_def STUN_HEADER_LEN_def turn_view_def)

lemma turn_iter_view: "small_attrs as \<Longrightarrow> turn_iter_attrs (turn_view ty tid as) = as"
  using turn_iter_body [of as "[]"] by (simp add: turn_iter_attrs_def turn_view_def)

lemma find_key_map_of: "map_option snd (List.find (\<lambda>a. fst a = k) xs) = map_of xs k"
  by (induction xs) auto

lemma turn_attr_view: "small_attrs as \<Longrightarrow> turn_attr (turn_view ty tid as) k = map_of as k"
  by (simp add: turn_attr_def turn_iter_view find_key_map_of)

lemma type_method_encoded: "raw_method (encode_type m c) = m AND 0x0F7F"
proof (rule bit_word_eqI)
  fix n assume "n < LENGTH(16)"
  from below_16 [OF this] show "bit (raw_method (encode_type m c)) n = bit (m AND 0x0F7F) n"
    by (elim bit_cases) (simp_all add: raw_method_def encode_type_def Let_def bit_simps mult.commute [of m 2] bit_double_iff)
qed

lemma type_class_encoded: "raw_class (encode_type m c) = c AND 3"
proof (rule bit_word_eqI)
  fix n assume "n < LENGTH(16)"
  from below_16 [OF this] show "bit (raw_class (encode_type m c)) n = bit (c AND 3) n"
    by (elim bit_cases) (simp_all add: raw_class_def encode_type_def Let_def bit_simps)
qed

text \<open>The methods and classes TURN uses survive the type field.\<close>

definition method_ok :: "u16 \<Rightarrow> bool" where "method_ok m \<longleftrightarrow> m AND 0x0F7F = m"

lemma turn_method_ok [simp]:
  "method_ok METHOD_ALLOCATE" "method_ok METHOD_REFRESH" "method_ok METHOD_SEND" "method_ok METHOD_DATA"
  "method_ok METHOD_CREATE_PERMISSION" "method_ok METHOD_CHANNEL_BIND"
  by (simp_all add: method_ok_def turn_methods)

lemma turn_class_encoded [simp]:
  "raw_class (encode_type m CLASS_REQUEST) = CLASS_REQUEST" "raw_class (encode_type m CLASS_INDICATION) = CLASS_INDICATION"
  "raw_class (encode_type m CLASS_SUCCESS) = CLASS_SUCCESS" "raw_class (encode_type m CLASS_ERROR) = CLASS_ERROR"
  by (simp_all add: type_class_encoded turn_classes)

lemma turn_method_encoded [simp]: "method_ok m \<Longrightarrow> raw_method (encode_type m c) = m"
  by (simp add: type_method_encoded method_ok_def)

lemma turn_xor_roundtrip:
  assumes "addr_ok a" and "length tid = 12"
  shows "decode_xor_addr (turn_xor_value a tid) tid = Some a"
proof -
  have cancel: "map2 (XOR) (map2 (XOR) xs ys) ys = xs" if "length xs = length ys" for xs ys :: octets
    using that by (induction xs ys rule: list_induct2) (simp_all add: xor_cancel)
  have v6: "length (sa_ip a) = 16 \<Longrightarrow> map2 (XOR) (map2 (XOR) (sa_ip a) (be_bytes 4 MAGIC_COOKIE @ tid)) (be_bytes 4 MAGIC_COOKIE @ tid) = sa_ip a"
    by (rule cancel) (simp add: assms(2))
  show ?thesis
    using assms
    by (auto simp: decode_xor_addr_def turn_xor_value_def Let_def addr_ok_def slice_def xor_cancel v6 be_bytes_eq)
qed

lemma length_turn_xor_value:
  "addr_ok a \<Longrightarrow> length tid = 12 \<Longrightarrow> length (turn_xor_value a tid) = 4 + length (sa_ip a)"
  by (auto simp: turn_xor_value_def Let_def addr_ok_def)

lemma turn_verify_loop_body:
  "small_attrs as \<Longrightarrow> ATTR_MESSAGE_INTEGRITY \<notin> fst ` set as \<Longrightarrow> length (pre @ body_octets as) \<le> fin \<Longrightarrow>
   turn_verify_loop hmac (pre @ body_octets as @ post) key fin (length pre) =
   turn_verify_loop hmac (pre @ body_octets as @ post) key fin (length (pre @ body_octets as))"
proof (induction as arbitrary: pre)
  case (Cons a as)
  have "length (snd a) < 2 ^ 16" using Cons.prems by simp
  note f = attr_octets_fields [OF this, of pre "body_octets as @ post"]
  have "turn_verify_loop hmac (pre @ body_octets (a # as) @ post) key fin (length pre)
      = turn_verify_loop hmac (pre @ body_octets (a # as) @ post) key fin (length (pre @ attr_octets a))"
    by (subst turn_verify_loop.simps) (use f Cons.prems in \<open>auto simp: Let_def length_attr_octets add.assoc\<close>)
  with Cons.IH [of "pre @ attr_octets a"] Cons.prems show ?case by simp
qed simp

lemma turn_verify_hit:
  assumes "length v = 20" and "20 \<le> length P" and "length P + 24 \<le> fin"
  shows "turn_verify_loop hmac (P @ attr_octets (ATTR_MESSAGE_INTEGRITY, v) @ post) key fin (length P) \<longleftrightarrow>
    v = hmac key (take 2 P @ be_bytes 2 (of_nat (length P + 4) :: u16) @ drop 4 P)"
proof -
  let ?a = "(ATTR_MESSAGE_INTEGRITY, v)"
  have "length (snd ?a) < 2 ^ 16" using assms(1) by simp
  note f = attr_octets_fields [OF this, of P post]
  have put: "P[2 := ucast (drop_bit 8 w), 3 := ucast w] = take 2 P @ be_bytes 2 w @ drop 4 P" for w :: u16
    using put_length [of P w] assms(2) by simp
  show ?thesis
    by (subst turn_verify_loop.simps)
      (use f assms in \<open>auto simp: Let_def length_attr_octets STUN_HEADER_LEN_def low_octet put ct_eq_iff add.commute [of _ "4 :: u16"]\<close>)
qed

text \<open>The check compares the value of the first MESSAGE-INTEGRITY attribute with the tag of what
  stands before it.\<close>

lemma turn_verify_stun:
  assumes "length tid = 12" and "small_attrs as" and "ATTR_MESSAGE_INTEGRITY \<notin> fst ` set as"
    and "length v = 20" and "length (body_octets (as @ (ATTR_MESSAGE_INTEGRITY, v) # bs)) < 2 ^ 16"
  shows "turn_verify_integrity hmac (stun_octets ty tid (as @ (ATTR_MESSAGE_INTEGRITY, v) # bs)) key \<longleftrightarrow>
    v = hmac key (stun_with_len (length (body_octets as) + 24) ty tid as)"
proof -
  let ?as = "as @ (ATTR_MESSAGE_INTEGRITY, v) # bs"
  let ?n = "of_nat (length (body_octets ?as)) :: u16"
  let ?pre = "be_bytes 2 ty @ be_bytes 2 ?n @ be_bytes 4 MAGIC_COOKIE @ tid"
  let ?a = "attr_octets (ATTR_MESSAGE_INTEGRITY, v)"
  have pre: "length ?pre = 20" by (simp add: assms(1))
  have raw: "stun_octets ty tid ?as = ?pre @ body_octets as @ ?a @ body_octets bs"
    by (simp add: stun_octets_def)
  define fin where "fin = 20 + length (body_octets ?as)"
  have fin: "fin = length (?pre @ body_octets as) + 24 + length (body_octets bs)"
    using assms(1,4) by (simp add: fin_def length_attr_octets)
  have skip: "turn_verify_loop hmac (?pre @ body_octets as @ ?a @ body_octets bs) key fin 20 =
      turn_verify_loop hmac (?pre @ body_octets as @ ?a @ body_octets bs) key fin (length (?pre @ body_octets as))"
    using turn_verify_loop_body [OF assms(2,3), of ?pre fin hmac "?a @ body_octets bs" key] fin
    unfolding pre by simp
  have hit: "turn_verify_loop hmac (?pre @ body_octets as @ ?a @ body_octets bs) key fin (length (?pre @ body_octets as)) \<longleftrightarrow>
      v = hmac key (stun_with_len (length (body_octets as) + 24) ty tid as)"
    using turn_verify_hit [OF assms(4), of "?pre @ body_octets as" fin hmac "body_octets bs" key] fin assms(1)
    by (simp add: stun_with_len_def add.commute)
  show ?thesis
    unfolding turn_verify_integrity_def turn_parse_stun [OF assms(1,5)]
    using skip hit fin_def by (simp add: raw STUN_HEADER_LEN_def turn_view_def)
qed

section \<open>Messages as attribute lists\<close>

lemma build_error_stun:
  "length tid = 12 \<Longrightarrow> build_error m tid err reason = stun_octets (encode_type m CLASS_ERROR) tid
     [(ATTR_ERROR_CODE, [0, 0, ucast (err div 100), ucast (err mod 100)] @ octets_of reason)]"
  by (simp add: build_error_def append_error_code_def turn_build)

lemma build_challenge_stun:
  "length tid = 12 \<Longrightarrow> build_challenge m tid err realm nonce = stun_octets (encode_type m CLASS_ERROR) tid
     [(ATTR_ERROR_CODE, [0, 0, ucast (err div 100), ucast (err mod 100)]
         @ octets_of (if err = 438 then ''Stale Nonce'' else ''Unauthorized'')),
      (ATTR_REALM, octets_of realm), (ATTR_NONCE, octets_of nonce)]"
  by (simp add: build_challenge_def append_error_code_def Let_def turn_build)

lemma data_indication_stun:
  "length tid = 12 \<Longrightarrow> data_indication tid peer data = stun_octets (encode_type METHOD_DATA CLASS_INDICATION) tid
     [(ATTR_XOR_PEER_ADDRESS, turn_xor_value peer tid), (ATTR_DATA, data)]"
  by (simp add: data_indication_def append_attr_xor_addr_def append_attr_data_def turn_build)

lemma turn_first_octet: "stun_octets (encode_type m c) tid as ! 0 AND 0xC0 = 0"
proof (rule bit_word_eqI)
  fix n assume "n < LENGTH(8)"
  from below_8 [OF this] show "bit (stun_octets (encode_type m c) tid as ! 0 AND 0xC0) n = bit (0 :: u8) n"
    by (elim bit_cases) (simp_all add: stun_octets_def byte_simps encode_type_def Let_def bit_simps mult.commute [of m 2] bit_double_iff)
qed

definition channel_ok :: "u16 \<Rightarrow> bool" where
  "channel_ok ch \<longleftrightarrow> CHANNEL_MIN \<le> ch \<and> ch \<le> CHANNEL_MAX"

lemma channel_first_octet: "channel_ok ch \<longleftrightarrow> ucast (drop_bit 8 ch) AND 0xC0 = (0x40 :: u8)"
proof -
  let ?q = "unat ch div 2 ^ 14"
  have q: "?q < 4" using unsigned_less [where ?'a = nat, of ch] by (simp add: less_mult_imp_div_less)
  have msb: "ucast (drop_bit 8 ch) AND 0xC0 = (push_bit 6 (ucast (drop_bit 14 ch)) :: u8)"
  proof (rule bit_word_eqI)
    fix n assume "n < LENGTH(8)"
    from below_8 [OF this] show "bit (ucast (drop_bit 8 ch) AND 0xC0 :: u8) n = bit (push_bit 6 (ucast (drop_bit 14 ch)) :: u8) n"
      by (elim bit_cases) (simp_all add: bit_simps)
  qed
  have "ucast (drop_bit 14 ch) = (of_nat ?q :: u8)"
    by (simp add: word_unat_eq_iff unsigned_ucast_eq take_bit_eq_mod unat_of_nat drop_bit_eq_div unat_div_distrib)
  then have push: "push_bit 6 (ucast (drop_bit 14 ch)) = (of_nat (64 * ?q) :: u8)"
    by (simp add: push_bit_eq_mult mult.commute)
  have "ucast (drop_bit 8 ch) AND 0xC0 = (0x40 :: u8) \<longleftrightarrow> (of_nat (64 * ?q) :: u8) = of_nat 64"
    unfolding msb push by simp
  also have "\<dots> \<longleftrightarrow> 64 * ?q = 64" using q by (simp add: word_unat_eq_iff unat_of_nat unat_word_ariths del: of_nat_mult)
  also have "\<dots> \<longleftrightarrow> channel_ok ch"
    by (simp add: channel_ok_def CHANNEL_MIN_def CHANNEL_MAX_def word_le_nat_alt) arith
  finally show ?thesis by simp
qed

text \<open>What the server writes for a relayed datagram, the client reads.\<close>

lemma channel_frame_fields:
  assumes "length data < 2 ^ 16"
  shows "channel_data_frame ch data ! 0 = ucast (drop_bit 8 ch)" "from_be (slice 0 2 (channel_data_frame ch data)) = ch"
    "unat (from_be (slice 2 4 (channel_data_frame ch data)) :: u16) = length data"
    "slice 4 (4 + length data) (channel_data_frame ch data) = data" "length (channel_data_frame ch data) = 4 + length data"
  using assms by (simp_all add: channel_data_frame_def slice_def unat_of_nat) (simp add: byte_simps)

lemma relayed_channel:
  assumes "channel_ok ch" and "length data < 2 ^ 16"
  shows "parse_relayed (channel_data_frame ch data) = Some (RelChannel ch data)"
  using channel_frame_fields [OF assms(2), of ch] assms(1)
  by (simp add: parse_relayed_def Let_def channel_first_octet)

lemma relayed_data:
  assumes "addr_ok peer" and "length tid = 12" and "length data + 50 < 2 ^ 16"
  shows "parse_relayed (data_indication tid peer data) = Some (RelData peer data)"
proof -
  let ?as = "[(ATTR_XOR_PEER_ADDRESS, turn_xor_value peer tid), (ATTR_DATA, data)]"
  have xor: "length (turn_xor_value peer tid) \<le> 20" "attr_pad (length (turn_xor_value peer tid)) = 0"
    using length_turn_xor_value [OF assms(1,2)] assms(1) by (auto simp: addr_ok_def attr_pad_def)
  have small: "small_attrs ?as" using xor assms by simp
  have "length (body_octets ?as) < 2 ^ 16"
    using xor assms(3) attr_pad_le [of "length data"] by (simp add: length_attr_octets)
  note p = turn_parse_stun [OF assms(2) this]
  have "turn_attr (turn_view ty tid ?as) ATTR_XOR_PEER_ADDRESS = Some (turn_xor_value peer tid)"
       "turn_attr (turn_view ty tid ?as) ATTR_DATA = Some data" for ty
    unfolding turn_attr_view [OF small] by (simp_all add: turn_attrs)
  then show ?thesis
    using turn_xor_roundtrip [OF assms(1,2)]
    by (simp add: data_indication_stun [OF assms(2)] parse_relayed_def turn_first_octet p)
qed

end
