(* ===== verification/Turn_Server.thy ===== *)
theory Turn_Server
  imports Turn_Wire "HOL-Library.AList"
begin

text \<open>
  The embedded TURN server (\<^verbatim>\<open>smiths-ice/src/turn.rs\<close>, lines 97 to 985): allocations with
  their permissions and channel bindings, the long-term credential check, every request handler, the
  two relay directions, the expiry sweep and the shutdown. One datagram is handled at a time by the
  server task; the relay tasks only read the allocations, so a step of the machine is one datagram
  from a client, one from a peer, one sweep or the shutdown.

  A handler reads the clock up to four times: to check the nonce, to date a fresh one, to check that
  the allocation is live, and to act; the readings are fields of its environment, with the random
  octets of the nonce and the outcome of binding the relay socket. Instants and durations are in
  nanoseconds. HMAC-SHA1 and MD5 are the parameters \<open>hmac\<close> and \<open>md5\<close>.
\<close>

section \<open>State\<close>

type_synonym instant = nat
type_synonym ip_addr = octets

definition DEFAULT_LIFETIME_S :: u32 where "DEFAULT_LIFETIME_S = 600"
definition PERMISSION_LIFETIME :: duration where "PERMISSION_LIFETIME = from_secs (5 * 60)"
definition CHANNEL_LIFETIME :: duration where "CHANNEL_LIFETIME = from_secs (10 * 60)"
definition CHALLENGE_LIFETIME :: duration where "CHALLENGE_LIFETIME = from_secs 60"

record long_term_credential =
  lt_username :: bytes
  lt_key :: octets

definition credential_new :: "(octets \<Rightarrow> octets) \<Rightarrow> bytes \<Rightarrow> bytes \<Rightarrow> bytes \<Rightarrow> long_term_credential" where
  "credential_new md5 username realm password =
     \<lparr> lt_username = username,
       lt_key = md5 (octets_of username @ octets_of '':'' @ octets_of realm @ octets_of '':'' @ octets_of password) \<rparr>"

record turn_config =
  tcf_bind :: socket_addr
  tcf_realm :: bytes
  tcf_relay_ip :: ip_addr
  tcf_allocation_lifetime :: duration
  tcf_credentials :: "long_term_credential list"

definition turn_config_default :: turn_config where
  "turn_config_default =
     \<lparr> tcf_bind = \<lparr> sa_ip = [0, 0, 0, 0], sa_port = 3478 \<rparr>, tcf_realm = ''smiths-turn'',
       tcf_relay_ip = [0, 0, 0, 0], tcf_allocation_lifetime = from_secs (unat DEFAULT_LIFETIME_S),
       tcf_credentials = [] \<rparr>"

datatype allocate_outcome = AoSuccess | AoChallenged | AoAuthFailed | AoForbidden | AoMismatch | AoOther

definition outcome_as_str :: "allocate_outcome \<Rightarrow> string" where
  "outcome_as_str o' = (case o' of AoSuccess \<Rightarrow> ''success'' | AoChallenged \<Rightarrow> ''challenged''
     | AoAuthFailed \<Rightarrow> ''auth_failed'' | AoForbidden \<Rightarrow> ''forbidden'' | AoMismatch \<Rightarrow> ''mismatch''
     | AoOther \<Rightarrow> ''other'')"

text \<open>The relay socket is named by the local address it is bound to, the relay task and its
  cancellation token by a number.\<close>

record allocation =
  al_username :: bytes
  al_relay_sock :: socket_addr
  al_relay_addr :: socket_addr
  al_nonce :: bytes
  al_expires_at :: instant
  al_permissions :: "ip_addr \<rightharpoonup> instant"
  al_channels_to_peer :: "u16 \<rightharpoonup> socket_addr \<times> instant"
  al_peer_to_channel :: "socket_addr \<rightharpoonup> u16"
  al_relay_task :: nat

definition is_live :: "allocation \<Rightarrow> instant \<Rightarrow> bool" where
  "is_live a now \<longleftrightarrow> now < al_expires_at a"

definition permission_live :: "allocation \<Rightarrow> ip_addr \<Rightarrow> instant \<Rightarrow> bool" where
  "permission_live a ip now = (case al_permissions a ip of Some expiry \<Rightarrow> now < expiry | None \<Rightarrow> False)"

definition channel_peer :: "allocation \<Rightarrow> u16 \<Rightarrow> instant \<Rightarrow> socket_addr option" where
  "channel_peer a channel now =
     (case al_channels_to_peer a channel of
        Some (peer, expiry) \<Rightarrow> if now < expiry then Some peer else None
      | None \<Rightarrow> None)"

definition peer_channel :: "allocation \<Rightarrow> socket_addr \<Rightarrow> instant \<Rightarrow> u16 option" where
  "peer_channel a peer now =
     (case al_peer_to_channel a peer of
        None \<Rightarrow> None
      | Some channel \<Rightarrow> map_option (\<lambda>_. channel) (channel_peer a channel now))"

text \<open>\<^verbatim>\<open>HashMap::retain\<close>.\<close>

definition retain :: "('k \<Rightarrow> 'v \<Rightarrow> bool) \<Rightarrow> ('k \<rightharpoonup> 'v) \<Rightarrow> ('k \<rightharpoonup> 'v)" where
  "retain keep m = (\<lambda>k. case m k of Some v \<Rightarrow> if keep k v then Some v else None | None \<Rightarrow> None)"

definition prune :: "allocation \<Rightarrow> instant \<Rightarrow> allocation" where
  "prune a now =
     (let channels = retain (\<lambda>_ (_, expiry). now < expiry) (al_channels_to_peer a)
      in a \<lparr> al_permissions := retain (\<lambda>_ expiry. now < expiry) (al_permissions a),
             al_channels_to_peer := channels,
             al_peer_to_channel := retain (\<lambda>_ ch. channels ch \<noteq> None) (al_peer_to_channel a) \<rparr>)"

record authenticated =
  au_username :: bytes
  au_key :: octets
  au_nonce :: bytes

record turn_metrics =
  tm_allocations :: "string \<Rightarrow> nat"
  tm_active :: int

record relay_task =
  rt_token :: nat
  rt_client :: socket_addr
  rt_sock :: socket_addr

record turn_server =
  ts_config :: turn_config
  ts_allocations :: "(socket_addr \<times> allocation) list"
  ts_challenges :: "socket_addr \<rightharpoonup> bytes \<times> instant"
  ts_credentials :: "bytes \<rightharpoonup> long_term_credential"
  ts_metrics :: "turn_metrics option"
  ts_tasks :: "relay_task list"
  ts_next_token :: nat
  ts_serving :: bool

abbreviation allocation_of :: "turn_server \<Rightarrow> socket_addr \<rightharpoonup> allocation" where
  "allocation_of s \<equiv> map_of (ts_allocations s)"

definition turn_new :: "turn_config \<Rightarrow> turn_server" where
  "turn_new config =
     \<lparr> ts_config = config, ts_allocations = [], ts_challenges = Map.empty,
       ts_credentials = foldl (\<lambda>m c. m(lt_username c \<mapsto> c)) Map.empty (tcf_credentials config),
       ts_metrics = None, ts_tasks = [], ts_next_token = 0, ts_serving = True \<rparr>"

definition with_metrics :: "turn_server \<Rightarrow> turn_metrics \<Rightarrow> turn_server" where
  "with_metrics s m = s \<lparr> ts_metrics := Some m \<rparr>"

definition active_allocations :: "turn_server \<Rightarrow> instant \<Rightarrow> nat" where
  "active_allocations s now = length (filter (\<lambda>(_, a). is_live a now) (ts_allocations s))"

section \<open>Metrics and relay tasks\<close>

definition bump_alloc :: "turn_server \<Rightarrow> allocate_outcome \<Rightarrow> turn_server" where
  "bump_alloc s outcome =
     s \<lparr> ts_metrics := map_option (\<lambda>m. m \<lparr> tm_allocations := (tm_allocations m)
            (outcome_as_str outcome := Suc (tm_allocations m (outcome_as_str outcome))) \<rparr>) (ts_metrics s) \<rparr>"

definition gauge_add :: "turn_server \<Rightarrow> int \<Rightarrow> turn_server" where
  "gauge_add s d = s \<lparr> ts_metrics := map_option (\<lambda>m. m \<lparr> tm_active := tm_active m + d \<rparr>) (ts_metrics s) \<rparr>"

definition cancel_tasks :: "nat list \<Rightarrow> turn_server \<Rightarrow> turn_server" where
  "cancel_tasks tokens s = s \<lparr> ts_tasks := filter (\<lambda>t. rt_token t \<notin> set tokens) (ts_tasks s) \<rparr>"

definition sweep :: "turn_server \<Rightarrow> instant \<Rightarrow> turn_server" where
  "sweep s now =
     (let expired = filter (\<lambda>(_, a). \<not> is_live a now) (ts_allocations s);
          kept = map (\<lambda>(c, a). (c, prune a now)) (filter (\<lambda>(_, a). is_live a now) (ts_allocations s));
          s1 = cancel_tasks (map (al_relay_task \<circ> snd) expired) (s \<lparr> ts_allocations := kept \<rparr>);
          s2 = gauge_add s1 (- int (length expired))
      in s2 \<lparr> ts_challenges := retain (\<lambda>_ (_, expiry). now < expiry) (ts_challenges s2) \<rparr>)"

definition shutdown_allocations :: "turn_server \<Rightarrow> turn_server" where
  "shutdown_allocations s =
     gauge_add (cancel_tasks (map (al_relay_task \<circ> snd) (ts_allocations s)) (s \<lparr> ts_allocations := [] \<rparr>))
       (- int (length (ts_allocations s)))"

section \<open>Credentials\<close>

datatype bind_result = BindFailed | NoLocalAddr | BoundTo socket_addr

record turn_env =
  te_check :: instant
  te_issue :: instant
  te_owner :: instant
  te_act :: instant
  te_random :: octets
  te_bind :: bind_result

definition nonce_digit :: "u8 \<Rightarrow> char" where
  "nonce_digit d = ''0123456789abcdef'' ! unat d"

definition fresh_nonce :: "octets \<Rightarrow> bytes" where
  "fresh_nonce random = concat (map (\<lambda>b. [nonce_digit (drop_bit 4 b), nonce_digit (b AND 0x0F)]) random)"

definition issue_nonce :: "turn_env \<Rightarrow> turn_server \<Rightarrow> socket_addr \<Rightarrow> turn_server \<times> bytes" where
  "issue_nonce env s client =
     (let nonce = fresh_nonce (te_random env)
      in (s \<lparr> ts_challenges := (ts_challenges s)(client \<mapsto> (nonce, te_issue env + CHALLENGE_LIFETIME)) \<rparr>, nonce))"

definition nonce_valid :: "turn_env \<Rightarrow> turn_server \<Rightarrow> socket_addr \<Rightarrow> bytes \<Rightarrow> bool" where
  "nonce_valid env s client nonce \<longleftrightarrow>
     (case allocation_of s client of Some a \<Rightarrow> is_live a (te_check env) \<and> al_nonce a = nonce | None \<Rightarrow> False)
     \<or> (case ts_challenges s client of Some (n, expiry) \<Rightarrow> n = nonce \<and> te_check env < expiry | None \<Rightarrow> False)"

definition utf8_attr :: "parsed_stun \<Rightarrow> u16 \<Rightarrow> bytes option" where
  "utf8_attr msg kind =
     (case turn_attr msg kind of Some v \<Rightarrow> if valid_utf8 (chars v) then Some (chars v) else None | None \<Rightarrow> None)"

definition authenticate ::
  "hmac_fun \<Rightarrow> turn_env \<Rightarrow> turn_server \<Rightarrow> parsed_stun \<Rightarrow> socket_addr \<Rightarrow> turn_server \<times> ((octets \<times> allocate_outcome) + authenticated)"
where
  "authenticate hmac env s msg client =
     (if turn_attr msg ATTR_MESSAGE_INTEGRITY = None then
        (let (s', nonce) = issue_nonce env s client
         in (s', Inl (build_challenge (pt_method msg) (pt_txid msg) 401 (tcf_realm (ts_config s)) nonce, AoChallenged)))
      else (case (utf8_attr msg ATTR_USERNAME, utf8_attr msg ATTR_REALM, utf8_attr msg ATTR_NONCE) of
              (Some username, Some realm, Some nonce) \<Rightarrow>
                if \<not> nonce_valid env s client nonce \<or> realm \<noteq> tcf_realm (ts_config s) then
                  (let (s', fresh) = issue_nonce env s client
                   in (s', Inl (build_challenge (pt_method msg) (pt_txid msg) 438 (tcf_realm (ts_config s)) fresh, AoAuthFailed)))
                else (case ts_credentials s username of
                        None \<Rightarrow> (s, Inl (build_error (pt_method msg) (pt_txid msg) 401 ''Unauthorized'', AoAuthFailed))
                      | Some cred \<Rightarrow>
                          if \<not> turn_verify_integrity hmac (pt_raw msg) (lt_key cred)
                          then (s, Inl (build_error (pt_method msg) (pt_txid msg) 401 ''Unauthorized'', AoAuthFailed))
                          else (s, Inr \<lparr> au_username = username, au_key = lt_key cred, au_nonce = nonce \<rparr>))
            | _ \<Rightarrow> (s, Inl (build_error (pt_method msg) (pt_txid msg) 400 ''Bad Request'', AoAuthFailed))))"

section \<open>Requests\<close>

text \<open>\<^verbatim>\<open>Duration::as_secs() as u32\<close>: whole seconds, wrapped to 32 bits.\<close>

definition secs_u32 :: "duration \<Rightarrow> u32" where
  "secs_u32 d = of_nat (d div 1000000000)"

definition requested_lifetime :: "parsed_stun \<Rightarrow> u32" where
  "requested_lifetime msg =
     (case turn_attr msg ATTR_LIFETIME of
        Some v \<Rightarrow> if length v = 4 then from_be v else DEFAULT_LIFETIME_S
      | None \<Rightarrow> DEFAULT_LIFETIME_S)"

definition lifetime_from_request :: "turn_server \<Rightarrow> parsed_stun \<Rightarrow> duration" where
  "lifetime_from_request s msg =
     from_secs (unat (min (requested_lifetime msg) (secs_u32 (tcf_allocation_lifetime (ts_config s)))))"

definition spawn_relay :: "turn_server \<Rightarrow> socket_addr \<Rightarrow> socket_addr \<Rightarrow> turn_server \<times> nat" where
  "spawn_relay s client sock =
     (s \<lparr> ts_tasks := ts_tasks s @ [\<lparr> rt_token = ts_next_token s, rt_client = client, rt_sock = sock \<rparr>],
          ts_next_token := Suc (ts_next_token s) \<rparr>, ts_next_token s)"

definition allocate_reply ::
  "hmac_fun \<Rightarrow> transaction_id \<Rightarrow> socket_addr \<Rightarrow> socket_addr \<Rightarrow> duration \<Rightarrow> octets \<Rightarrow> octets"
where
  "allocate_reply hmac txid relay_addr client lifetime key =
     (let reply = build_success_header METHOD_ALLOCATE txid;
          reply = append_attr_xor_addr reply ATTR_XOR_RELAYED_ADDRESS relay_addr txid;
          reply = append_attr_xor_addr reply ATTR_XOR_MAPPED_ADDRESS client txid;
          reply = append_attr_lifetime reply (secs_u32 lifetime)
      in finalize_length (append_message_integrity hmac reply key))"

definition install_allocation ::
  "turn_env \<Rightarrow> turn_server \<Rightarrow> socket_addr \<Rightarrow> authenticated \<Rightarrow> socket_addr \<Rightarrow> duration \<Rightarrow> turn_server"
where
  "install_allocation env s client auth sock lifetime =
     (let relay_addr = \<lparr> sa_ip = tcf_relay_ip (ts_config s), sa_port = sa_port sock \<rparr>;
          (s1, token) = spawn_relay s client sock;
          old = allocation_of s1 client;
          s2 = s1 \<lparr> ts_allocations := AList.update client
                 \<lparr> al_username = au_username auth, al_relay_sock = sock, al_relay_addr = relay_addr,
                   al_nonce = au_nonce auth, al_expires_at = te_act env + lifetime,
                   al_permissions = Map.empty, al_channels_to_peer = Map.empty,
                   al_peer_to_channel = Map.empty, al_relay_task = token \<rparr> (ts_allocations s1) \<rparr>;
          s3 = (case old of Some a \<Rightarrow> cancel_tasks [al_relay_task a] s2 | None \<Rightarrow> gauge_add s2 1)
      in s3 \<lparr> ts_challenges := (ts_challenges s3)(client := None) \<rparr>)"

definition transport_ok :: "parsed_stun \<Rightarrow> bool" where
  "transport_ok msg =
     (case turn_attr msg ATTR_REQUESTED_TRANSPORT of Some v \<Rightarrow> 4 \<le> length v \<and> v ! 0 = 17 | None \<Rightarrow> False)"

definition handle_allocate ::
  "hmac_fun \<Rightarrow> turn_env \<Rightarrow> turn_server \<Rightarrow> parsed_stun \<Rightarrow> socket_addr \<Rightarrow> turn_server \<times> octets"
where
  "handle_allocate hmac env s msg client =
     (if \<not> transport_ok msg then
        (bump_alloc s AoForbidden, build_error METHOD_ALLOCATE (pt_txid msg) 442 ''Unsupported Transport Protocol'')
      else (case authenticate hmac env s msg client of
              (s', Inl (reply, outcome)) \<Rightarrow> (bump_alloc s' outcome, reply)
            | (s', Inr auth) \<Rightarrow>
                if (case allocation_of s' client of Some a \<Rightarrow> is_live a (te_act env) | None \<Rightarrow> False) then
                  (bump_alloc s' AoMismatch, build_error METHOD_ALLOCATE (pt_txid msg) 437 ''Allocation Mismatch'')
                else (case te_bind env of
                        BindFailed \<Rightarrow>
                          (bump_alloc s' AoOther, build_error METHOD_ALLOCATE (pt_txid msg) 508 ''Insufficient Capacity'')
                      | NoLocalAddr \<Rightarrow>
                          (bump_alloc s' AoOther, build_error METHOD_ALLOCATE (pt_txid msg) 500 ''Server Error'')
                      | BoundTo sock \<Rightarrow>
                          (let lifetime = lifetime_from_request s' msg;
                               relay_addr = \<lparr> sa_ip = tcf_relay_ip (ts_config s'), sa_port = sa_port sock \<rparr>
                           in (bump_alloc (install_allocation env s' client auth sock lifetime) AoSuccess,
                               allocate_reply hmac (pt_txid msg) relay_addr client lifetime (au_key auth))))))"

definition authenticate_on_allocation ::
  "hmac_fun \<Rightarrow> turn_env \<Rightarrow> turn_server \<Rightarrow> parsed_stun \<Rightarrow> socket_addr \<Rightarrow> turn_server \<times> (octets + authenticated)"
where
  "authenticate_on_allocation hmac env s msg client =
     (case authenticate hmac env s msg client of
        (s', Inl (reply, _)) \<Rightarrow> (s', Inl reply)
      | (s', Inr auth) \<Rightarrow>
          (s', case allocation_of s' client of
                 Some a \<Rightarrow>
                   if \<not> is_live a (te_owner env)
                   then Inl (build_error (pt_method msg) (pt_txid msg) 437 ''Allocation Mismatch'')
                   else if al_username a \<noteq> au_username auth
                   then Inl (build_error (pt_method msg) (pt_txid msg) 441 ''Wrong Credentials'')
                   else Inr auth
               | None \<Rightarrow> Inl (build_error (pt_method msg) (pt_txid msg) 437 ''Allocation Mismatch'')))"

definition signed_reply :: "hmac_fun \<Rightarrow> octets \<Rightarrow> octets \<Rightarrow> octets" where
  "signed_reply hmac reply key = finalize_length (append_message_integrity hmac reply key)"

definition update_allocation :: "turn_server \<Rightarrow> socket_addr \<Rightarrow> allocation \<Rightarrow> turn_server" where
  "update_allocation s client a = s \<lparr> ts_allocations := AList.update client a (ts_allocations s) \<rparr>"

definition handle_refresh ::
  "hmac_fun \<Rightarrow> turn_env \<Rightarrow> turn_server \<Rightarrow> parsed_stun \<Rightarrow> socket_addr \<Rightarrow> turn_server \<times> octets"
where
  "handle_refresh hmac env s msg client =
     (case authenticate_on_allocation hmac env s msg client of
        (s', Inl reply) \<Rightarrow> (s', reply)
      | (s', Inr auth) \<Rightarrow>
          let requested = requested_lifetime msg;
              answer = (\<lambda>lifetime. signed_reply hmac
                (append_attr_lifetime (build_success_header METHOD_REFRESH (pt_txid msg)) (secs_u32 lifetime)) (au_key auth))
          in if requested = 0 then
               ((case allocation_of s' client of
                   Some a \<Rightarrow> gauge_add (cancel_tasks [al_relay_task a]
                               (s' \<lparr> ts_allocations := AList.delete client (ts_allocations s') \<rparr>)) (- 1)
                 | None \<Rightarrow> s'), answer 0)
             else let lifetime = from_secs (unat (min requested (secs_u32 (tcf_allocation_lifetime (ts_config s')))))
                  in (case allocation_of s' client of
                        None \<Rightarrow> (s', build_error METHOD_REFRESH (pt_txid msg) 437 ''Allocation Mismatch'')
                      | Some a \<Rightarrow>
                          (update_allocation s' client (a \<lparr> al_expires_at := te_act env + lifetime \<rparr>), answer lifetime)))"

definition requested_peers :: "parsed_stun \<Rightarrow> socket_addr list" where
  "requested_peers msg =
     List.map_filter (\<lambda>a. decode_xor_addr (snd a) (pt_txid msg))
       (filter (\<lambda>a. fst a = ATTR_XOR_PEER_ADDRESS) (turn_iter_attrs msg))"

definition grant_permissions :: "allocation \<Rightarrow> socket_addr list \<Rightarrow> instant \<Rightarrow> allocation" where
  "grant_permissions a peers deadline =
     a \<lparr> al_permissions := foldl (\<lambda>m peer. m(sa_ip peer \<mapsto> deadline)) (al_permissions a) peers \<rparr>"

definition handle_create_permission ::
  "hmac_fun \<Rightarrow> turn_env \<Rightarrow> turn_server \<Rightarrow> parsed_stun \<Rightarrow> socket_addr \<Rightarrow> turn_server \<times> octets"
where
  "handle_create_permission hmac env s msg client =
     (case authenticate_on_allocation hmac env s msg client of
        (s', Inl reply) \<Rightarrow> (s', reply)
      | (s', Inr auth) \<Rightarrow>
          let peers = requested_peers msg
          in if peers = [] then (s', build_error METHOD_CREATE_PERMISSION (pt_txid msg) 400 ''Bad Request'')
             else (case allocation_of s' client of
                     None \<Rightarrow> (s', build_error METHOD_CREATE_PERMISSION (pt_txid msg) 437 ''Allocation Mismatch'')
                   | Some a \<Rightarrow>
                       (update_allocation s' client (grant_permissions a peers (te_act env + PERMISSION_LIFETIME)),
                        signed_reply hmac (build_success_header METHOD_CREATE_PERMISSION (pt_txid msg)) (au_key auth))))"

text \<open>The locked part of \<^verbatim>\<open>handle_channel_bind\<close>: the pruned allocation stays when the
  request conflicts.\<close>

definition bind_channel :: "allocation \<Rightarrow> u16 \<Rightarrow> socket_addr \<Rightarrow> instant \<Rightarrow> allocation \<times> bool" where
  "bind_channel a channel peer now =
     (let a = prune a now;
          channel_conflict = (case channel_peer a channel now of Some bound \<Rightarrow> bound \<noteq> peer | None \<Rightarrow> False);
          peer_conflict = (case peer_channel a peer now of Some bound \<Rightarrow> bound \<noteq> channel | None \<Rightarrow> False)
      in if channel_conflict \<or> peer_conflict then (a, False)
         else (a \<lparr> al_channels_to_peer := (al_channels_to_peer a)(channel \<mapsto> (peer, now + CHANNEL_LIFETIME)),
                   al_peer_to_channel := (al_peer_to_channel a)(peer \<mapsto> channel),
                   al_permissions := (al_permissions a)(sa_ip peer \<mapsto> now + PERMISSION_LIFETIME) \<rparr>, True))"

definition requested_channel :: "parsed_stun \<Rightarrow> u16 option" where
  "requested_channel msg =
     (case turn_attr msg ATTR_CHANNEL_NUMBER of
        Some v \<Rightarrow> if length v \<noteq> 4 then None
                  else let channel = from_be (slice 0 2 v)
                       in if CHANNEL_MIN \<le> channel \<and> channel \<le> CHANNEL_MAX then Some channel else None
      | None \<Rightarrow> None)"

definition peer_attr :: "parsed_stun \<Rightarrow> socket_addr option" where
  "peer_attr msg =
     (case turn_attr msg ATTR_XOR_PEER_ADDRESS of Some v \<Rightarrow> decode_xor_addr v (pt_txid msg) | None \<Rightarrow> None)"

definition handle_channel_bind ::
  "hmac_fun \<Rightarrow> turn_env \<Rightarrow> turn_server \<Rightarrow> parsed_stun \<Rightarrow> socket_addr \<Rightarrow> turn_server \<times> octets"
where
  "handle_channel_bind hmac env s msg client =
     (case authenticate_on_allocation hmac env s msg client of
        (s', Inl reply) \<Rightarrow> (s', reply)
      | (s', Inr auth) \<Rightarrow>
          let bad_request = build_error METHOD_CHANNEL_BIND (pt_txid msg) 400 ''Bad Request''
          in (case requested_channel msg of
                None \<Rightarrow> (s', bad_request)
              | Some channel \<Rightarrow>
                  (case peer_attr msg of
                     None \<Rightarrow> (s', bad_request)
                   | Some peer \<Rightarrow>
                       (case allocation_of s' client of
                          None \<Rightarrow> (s', build_error METHOD_CHANNEL_BIND (pt_txid msg) 437 ''Allocation Mismatch'')
                        | Some a \<Rightarrow>
                            let (a', bound) = bind_channel a channel peer (te_act env);
                                s'' = update_allocation s' client a'
                            in if \<not> bound then (s'', bad_request)
                               else (s'', signed_reply hmac (build_success_header METHOD_CHANNEL_BIND (pt_txid msg)) (au_key auth))))))"

section \<open>Relaying\<close>

datatype turn_output = ToClient socket_addr octets | ToPeer socket_addr socket_addr octets

definition live_allocation :: "turn_server \<Rightarrow> socket_addr \<Rightarrow> instant \<Rightarrow> allocation option" where
  "live_allocation s client now =
     (case allocation_of s client of Some a \<Rightarrow> if is_live a now then Some a else None | None \<Rightarrow> None)"

definition handle_send :: "turn_env \<Rightarrow> turn_server \<Rightarrow> parsed_stun \<Rightarrow> socket_addr \<Rightarrow> turn_output list" where
  "handle_send env s msg client =
     (case peer_attr msg of
        None \<Rightarrow> []
      | Some peer \<Rightarrow>
          (case turn_attr msg ATTR_DATA of
             None \<Rightarrow> []
           | Some data \<Rightarrow>
               (case live_allocation s client (te_act env) of
                  None \<Rightarrow> []
                | Some a \<Rightarrow> if \<not> permission_live a (sa_ip peer) (te_act env) then []
                            else [ToPeer (al_relay_sock a) peer data])))"

definition handle_channel_data :: "turn_env \<Rightarrow> turn_server \<Rightarrow> octets \<Rightarrow> socket_addr \<Rightarrow> turn_output list" where
  "handle_channel_data env s bs client =
     (if length bs < 4 then []
      else let channel = from_be (slice 0 2 bs);
               len = unat (from_be (slice 2 4 bs) :: u16)
           in if 4 + len > length bs then []
              else let data = slice 4 (4 + len) bs
                   in (case live_allocation s client (te_act env) of
                         None \<Rightarrow> []
                       | Some a \<Rightarrow>
                           (case channel_peer a channel (te_act env) of
                              None \<Rightarrow> []
                            | Some peer \<Rightarrow> [ToPeer (al_relay_sock a) peer data])))"

definition relay_peer_to_client ::
  "turn_server \<Rightarrow> socket_addr \<Rightarrow> socket_addr \<Rightarrow> octets \<Rightarrow> instant \<Rightarrow> transaction_id \<Rightarrow> turn_output list"
where
  "relay_peer_to_client s client peer data now txid =
     (case live_allocation s client now of
        None \<Rightarrow> []
      | Some a \<Rightarrow>
          if \<not> permission_live a (sa_ip peer) now then []
          else (case peer_channel a peer now of
                  Some channel \<Rightarrow> [ToClient client (channel_data_frame channel data)]
                | None \<Rightarrow> [ToClient client (data_indication txid peer data)]))"

definition dispatch ::
  "hmac_fun \<Rightarrow> turn_env \<Rightarrow> turn_server \<Rightarrow> octets \<Rightarrow> socket_addr \<Rightarrow> turn_server \<times> turn_output list"
where
  "dispatch hmac env s bs client =
     (if 4 \<le> length bs \<and> bs ! 0 AND 0xC0 = 0x40 then (s, handle_channel_data env s bs client)
      else (case turn_parse bs of
              None \<Rightarrow> (s, [])
            | Some msg \<Rightarrow>
                let reply = (\<lambda>(s', r). (s', [ToClient client r]))
                in if pt_class msg = CLASS_REQUEST then
                     (if pt_method msg = METHOD_ALLOCATE then reply (handle_allocate hmac env s msg client)
                      else if pt_method msg = METHOD_REFRESH then reply (handle_refresh hmac env s msg client)
                      else if pt_method msg = METHOD_CREATE_PERMISSION
                      then reply (handle_create_permission hmac env s msg client)
                      else if pt_method msg = METHOD_CHANNEL_BIND then reply (handle_channel_bind hmac env s msg client)
                      else (s, [ToClient client (build_error (pt_method msg) (pt_txid msg) 400 ''Bad Request'')]))
                   else if pt_class msg = CLASS_INDICATION \<and> pt_method msg = METHOD_SEND
                   then (s, handle_send env s msg client)
                   else (s, [])))"

section \<open>The server as a machine\<close>

text \<open>What happens to a running server: a datagram on its socket (the buffer holds 2048 octets), a
  datagram on the socket of a relay task (1600 octets), a failed receive of a relay task, a sweep
  tick, and the end of the loop by cancellation or a failed receive.\<close>

datatype turn_input =
    FromClient turn_env octets socket_addr
  | FromPeer nat socket_addr octets instant transaction_id
  | RelayFailed nat
  | SweepTick instant
  | Stop

definition relay_step :: "hmac_fun \<Rightarrow> turn_server \<Rightarrow> turn_input \<Rightarrow> turn_server \<times> turn_output list" where
  "relay_step hmac s i =
     (case i of
        FromClient env bs client \<Rightarrow>
          if ts_serving s then dispatch hmac env s (take 2048 bs) client else (s, [])
      | FromPeer token peer payload now txid \<Rightarrow>
          (case List.find (\<lambda>t. rt_token t = token) (ts_tasks s) of
             None \<Rightarrow> (s, [])
           | Some t \<Rightarrow> (s, relay_peer_to_client s (rt_client t) peer (take 1600 payload) now txid))
      | RelayFailed token \<Rightarrow> (s \<lparr> ts_tasks := filter (\<lambda>t. rt_token t \<noteq> token) (ts_tasks s) \<rparr>, [])
      | SweepTick now \<Rightarrow> if ts_serving s then (sweep s now, []) else (s, [])
      | Stop \<Rightarrow> if ts_serving s then ((shutdown_allocations s) \<lparr> ts_serving := False \<rparr>, []) else (s, []))"

end
