(* ===== verification/Turn_Invariant.thy ===== *)
theory Turn_Invariant
  imports Turn_Server
begin

text \<open>
  What the TURN server may do to its allocations, as a relation: every datagram leaves the relay
  state alone or installs, releases, extends, permits or binds, and each of these needs a request
  signed by the user concerned. The handlers refine this relation; the state invariant (channels and
  peers in bijection, one running relay task at most per allocation, the gauge counts allocations)
  and the record of consent are proved over it.
\<close>

section \<open>Signed requests\<close>

definition signed_by :: "hmac_fun \<Rightarrow> (bytes \<rightharpoonup> long_term_credential) \<Rightarrow> parsed_stun \<Rightarrow> bytes \<Rightarrow> bool" where
  "signed_by hmac creds msg user \<longleftrightarrow>
     (\<exists>cred. creds user = Some cred \<and> utf8_attr msg ATTR_USERNAME = Some user
       \<and> turn_verify_integrity hmac (pt_raw msg) (lt_key cred))"

text \<open>States that differ in pending challenges and outcome counters only.\<close>

definition turn_quiet :: "turn_server \<Rightarrow> turn_server \<Rightarrow> bool" where
  "turn_quiet s s' \<longleftrightarrow> ts_config s' = ts_config s \<and> ts_allocations s' = ts_allocations s
     \<and> ts_credentials s' = ts_credentials s \<and> ts_tasks s' = ts_tasks s
     \<and> ts_next_token s' = ts_next_token s \<and> ts_serving s' = ts_serving s
     \<and> map_option tm_active (ts_metrics s') = map_option tm_active (ts_metrics s)"

lemma turn_quiet_refl [simp]: "turn_quiet s s"
  by (simp add: turn_quiet_def)

lemma turn_quiet_challenges [simp]: "turn_quiet s (s \<lparr> ts_challenges := ch \<rparr>)"
  by (simp add: turn_quiet_def)

lemma turn_quiet_bump [simp]: "turn_quiet s s' \<Longrightarrow> turn_quiet s (bump_alloc s' o')"
  by (auto simp: turn_quiet_def bump_alloc_def option.map_comp comp_def)

lemma issue_nonce_quiet: "turn_quiet s (fst (issue_nonce env s client))"
  by (simp add: issue_nonce_def Let_def)

lemma authenticate_Inl:
  "authenticate hmac env s msg client = (s', Inl r) \<Longrightarrow> turn_quiet s s'"
  using issue_nonce_quiet [of s env client]
  by (auto simp: authenticate_def split: if_splits option.splits prod.splits)

lemma authenticate_Inr:
  assumes "authenticate hmac env s msg client = (s', Inr auth)"
  shows "s' = s \<and> signed_by hmac (ts_credentials s) msg (au_username auth)
    \<and> (\<exists>cred. ts_credentials s (au_username auth) = Some cred \<and> au_key auth = lt_key cred)
    \<and> nonce_valid env s client (au_nonce auth)"
  using assms by (auto simp: authenticate_def signed_by_def split: if_splits option.splits prod.splits)

lemma authenticate_on_Inl:
  assumes "authenticate_on_allocation hmac env s msg client = (s', Inl r)"
  shows "turn_quiet s s'"
  using assms authenticate_Inl [of hmac env s msg client] authenticate_Inr [of hmac env s msg client]
  by (auto simp: authenticate_on_allocation_def split: prod.splits sum.splits option.splits if_splits)

lemma authenticate_on_Inr:
  assumes "authenticate_on_allocation hmac env s msg client = (s', Inr auth)"
  shows "s' = s \<and> signed_by hmac (ts_credentials s) msg (au_username auth)
    \<and> (\<exists>a. allocation_of s client = Some a \<and> is_live a (te_owner env) \<and> al_username a = au_username auth)"
  using assms authenticate_Inr [of hmac env s msg client]
  by (auto simp: authenticate_on_allocation_def split: prod.splits sum.splits option.splits if_splits)

section \<open>The effects a datagram can have\<close>

definition release_allocation :: "turn_server \<Rightarrow> socket_addr \<Rightarrow> allocation \<Rightarrow> turn_server" where
  "release_allocation s client a =
     gauge_add (cancel_tasks [al_relay_task a] (s \<lparr> ts_allocations := AList.delete client (ts_allocations s) \<rparr>)) (- 1)"

text \<open>A request on the live allocation \<open>a\<close>, signed by its owner.\<close>

definition owner_request :: "hmac_fun \<Rightarrow> turn_env \<Rightarrow> parsed_stun \<Rightarrow> socket_addr \<Rightarrow> turn_server \<Rightarrow> allocation \<Rightarrow> bool" where
  "owner_request hmac env msg client s a \<longleftrightarrow>
     allocation_of s client = Some a \<and> is_live a (te_owner env) \<and> pt_class msg = CLASS_REQUEST
     \<and> signed_by hmac (ts_credentials s) msg (al_username a)"

inductive turn_effect :: "hmac_fun \<Rightarrow> turn_env \<Rightarrow> parsed_stun \<Rightarrow> socket_addr \<Rightarrow> turn_server \<Rightarrow> turn_server \<Rightarrow> bool"
  for hmac env msg client s
where
  nothing: "turn_quiet s s' \<Longrightarrow> turn_effect hmac env msg client s s'"
| install: "\<lbrakk>signed_by hmac (ts_credentials s) msg (au_username auth); pt_class msg = CLASS_REQUEST;
     pt_method msg = METHOD_ALLOCATE; live_allocation s client (te_act env) = None; te_bind env = BoundTo sock;
     turn_quiet (install_allocation env s client auth sock (lifetime_from_request s msg)) s'\<rbrakk>
   \<Longrightarrow> turn_effect hmac env msg client s s'"
| release: "\<lbrakk>owner_request hmac env msg client s a; pt_method msg = METHOD_REFRESH; requested_lifetime msg = 0\<rbrakk>
   \<Longrightarrow> turn_effect hmac env msg client s (release_allocation s client a)"
| extend: "\<lbrakk>owner_request hmac env msg client s a; pt_method msg = METHOD_REFRESH; requested_lifetime msg \<noteq> 0\<rbrakk>
   \<Longrightarrow> turn_effect hmac env msg client s
         (update_allocation s client (a \<lparr> al_expires_at := te_act env + lifetime_from_request s msg \<rparr>))"
| permit: "\<lbrakk>owner_request hmac env msg client s a; pt_method msg = METHOD_CREATE_PERMISSION;
     requested_peers msg \<noteq> []\<rbrakk>
   \<Longrightarrow> turn_effect hmac env msg client s
         (update_allocation s client (grant_permissions a (requested_peers msg) (te_act env + PERMISSION_LIFETIME)))"
| bind: "\<lbrakk>owner_request hmac env msg client s a; pt_method msg = METHOD_CHANNEL_BIND;
     requested_channel msg = Some channel; peer_attr msg = Some peer\<rbrakk>
   \<Longrightarrow> turn_effect hmac env msg client s (update_allocation s client (fst (bind_channel a channel peer (te_act env))))"

lemma handle_allocate_effect:
  assumes "pt_class msg = CLASS_REQUEST" and "pt_method msg = METHOD_ALLOCATE"
  shows "turn_effect hmac env msg client s (fst (handle_allocate hmac env s msg client))"
proof (cases "authenticate hmac env s msg client")
  case (Pair s' r)
  show ?thesis
  proof (cases r)
    case (Inl p)
    then show ?thesis using Pair authenticate_Inl [of hmac env s msg client s']
      by (auto simp: handle_allocate_def intro!: turn_effect.nothing split: prod.splits)
  next
    case (Inr auth)
    with authenticate_Inr [of hmac env s msg client s' auth] Pair
    have s': "s' = s" and signed: "signed_by hmac (ts_credentials s) msg (au_username auth)" by auto
    show ?thesis
    proof (cases "transport_ok msg \<and> live_allocation s client (te_act env) = None \<and> (\<exists>sock. te_bind env = BoundTo sock)")
      case True
      then obtain sock where bnd: "te_bind env = BoundTo sock" and live: "live_allocation s client (te_act env) = None"
        and tr: "transport_ok msg" by auto
      have "fst (handle_allocate hmac env s msg client) =
          bump_alloc (install_allocation env s client auth sock (lifetime_from_request s msg)) AoSuccess"
        using Pair Inr s' bnd tr live
        by (auto simp: handle_allocate_def Let_def live_allocation_def split: option.splits if_splits)
      then show ?thesis using turn_effect.install [OF signed assms live bnd] by simp
    next
      case False
      then show ?thesis using Pair Inr s'
        by (auto simp: handle_allocate_def live_allocation_def intro!: turn_effect.nothing
            split: option.splits if_splits bind_result.splits)
    qed
  qed
qed

lemma owner_requestI:
  "authenticate_on_allocation hmac env s msg client = (s', Inr auth) \<Longrightarrow> pt_class msg = CLASS_REQUEST \<Longrightarrow>
   \<exists>a. s' = s \<and> owner_request hmac env msg client s a \<and> allocation_of s client = Some a"
  using authenticate_on_Inr [of hmac env s msg client s' auth] by (auto simp: owner_request_def)

lemma handle_refresh_effect:
  assumes "pt_class msg = CLASS_REQUEST" and "pt_method msg = METHOD_REFRESH"
  shows "turn_effect hmac env msg client s (fst (handle_refresh hmac env s msg client))"
proof (cases "authenticate_on_allocation hmac env s msg client")
  case (Pair s' r)
  show ?thesis
  proof (cases r)
    case (Inl p)
    then show ?thesis using Pair authenticate_on_Inl [of hmac env s msg client s']
      by (auto simp: handle_refresh_def intro!: turn_effect.nothing)
  next
    case (Inr auth)
    with owner_requestI [of hmac env s msg client s' auth] Pair assms obtain a where
      "s' = s" "owner_request hmac env msg client s a" "allocation_of s client = Some a" by auto
    then show ?thesis
      using Pair Inr turn_effect.release [of hmac env msg client s a] turn_effect.extend [of hmac env msg client s a] assms
      by (auto simp: handle_refresh_def Let_def release_allocation_def lifetime_from_request_def)
  qed
qed

lemma handle_create_permission_effect:
  assumes "pt_class msg = CLASS_REQUEST" and "pt_method msg = METHOD_CREATE_PERMISSION"
  shows "turn_effect hmac env msg client s (fst (handle_create_permission hmac env s msg client))"
proof (cases "authenticate_on_allocation hmac env s msg client")
  case (Pair s' r)
  show ?thesis
  proof (cases r)
    case (Inl p)
    then show ?thesis using Pair authenticate_on_Inl [of hmac env s msg client s']
      by (auto simp: handle_create_permission_def intro!: turn_effect.nothing)
  next
    case (Inr auth)
    with owner_requestI [of hmac env s msg client s' auth] Pair assms obtain a where
      "s' = s" "owner_request hmac env msg client s a" "allocation_of s client = Some a" by auto
    then show ?thesis
      using Pair Inr turn_effect.permit [of hmac env msg client s a] assms
      by (auto simp: handle_create_permission_def Let_def intro!: turn_effect.nothing)
  qed
qed

lemma handle_channel_bind_effect:
  assumes "pt_class msg = CLASS_REQUEST" and "pt_method msg = METHOD_CHANNEL_BIND"
  shows "turn_effect hmac env msg client s (fst (handle_channel_bind hmac env s msg client))"
proof (cases "authenticate_on_allocation hmac env s msg client")
  case (Pair s' r)
  show ?thesis
  proof (cases r)
    case (Inl p)
    then show ?thesis using Pair authenticate_on_Inl [of hmac env s msg client s']
      by (auto simp: handle_channel_bind_def intro!: turn_effect.nothing)
  next
    case (Inr auth)
    with owner_requestI [of hmac env s msg client s' auth] Pair assms obtain a where
      "s' = s" "owner_request hmac env msg client s a" "allocation_of s client = Some a" by auto
    then show ?thesis
      using Pair Inr turn_effect.bind [of hmac env msg client s a] assms
      by (auto simp: handle_channel_bind_def Let_def case_prod_unfold intro!: turn_effect.nothing split: option.splits)
  qed
qed

text \<open>What a datagram says when it is not ChannelData.\<close>

definition request_of :: "octets \<Rightarrow> parsed_stun option" where
  "request_of bs = (if 4 \<le> length bs \<and> bs ! 0 AND 0xC0 = 0x40 then None else turn_parse bs)"

lemma dispatch_effect:
  "(request_of bs = None \<and> fst (dispatch hmac env s bs client) = s)
   \<or> (\<exists>msg. request_of bs = Some msg \<and> turn_effect hmac env msg client s (fst (dispatch hmac env s bs client)))"
proof -
  have "turn_effect hmac env msg client s (fst (dispatch hmac env s bs client))"
    if "request_of bs = Some msg" for msg
    using that handle_allocate_effect [of msg hmac env client s] handle_refresh_effect [of msg hmac env client s]
      handle_create_permission_effect [of msg hmac env client s] handle_channel_bind_effect [of msg hmac env client s]
    by (auto simp: dispatch_def request_of_def Let_def case_prod_unfold intro: turn_effect.nothing split: if_splits)
  then show ?thesis
    by (auto simp: request_of_def dispatch_def split: option.splits if_splits)
qed

section \<open>The state invariant\<close>

definition channels_ok :: "allocation \<Rightarrow> bool" where
  "channels_ok a \<longleftrightarrow>
     (\<forall>ch p e. al_channels_to_peer a ch = Some (p, e) \<longrightarrow> al_peer_to_channel a p = Some ch \<and> channel_ok ch)
     \<and> (\<forall>p ch. al_peer_to_channel a p = Some ch \<longrightarrow> (\<exists>e. al_channels_to_peer a ch = Some (p, e)))"

definition tasks_ok :: "turn_server \<Rightarrow> bool" where
  "tasks_ok s \<longleftrightarrow> distinct (map rt_token (ts_tasks s))
     \<and> (\<forall>t\<in>set (ts_tasks s). \<exists>a. allocation_of s (rt_client t) = Some a
          \<and> al_relay_task a = rt_token t \<and> al_relay_sock a = rt_sock t)
     \<and> (\<forall>c a. allocation_of s c = Some a \<longrightarrow> al_relay_task a < ts_next_token s)
     \<and> (\<forall>c c' a a'. allocation_of s c = Some a \<longrightarrow> allocation_of s c' = Some a' \<longrightarrow>
          al_relay_task a = al_relay_task a' \<longrightarrow> c = c')"

definition gauge_ok :: "turn_server \<Rightarrow> bool" where
  "gauge_ok s \<longleftrightarrow> (\<forall>m. ts_metrics s = Some m \<longrightarrow> tm_active m = int (length (ts_allocations s)))"

definition turn_inv :: "turn_server \<Rightarrow> bool" where
  "turn_inv s \<longleftrightarrow> distinct (map fst (ts_allocations s))
     \<and> (\<forall>c a. allocation_of s c = Some a \<longrightarrow> channels_ok a) \<and> tasks_ok s \<and> gauge_ok s
     \<and> (\<not> ts_serving s \<longrightarrow> ts_allocations s = [])"

lemma turn_inv_quiet: "turn_quiet s s' \<Longrightarrow> turn_inv s' = turn_inv s"
proof -
  assume q: "turn_quiet s s'"
  then have "gauge_ok s' = gauge_ok s"
    by (cases "ts_metrics s"; cases "ts_metrics s'"; simp add: turn_quiet_def gauge_ok_def)
  with q show ?thesis by (simp add: turn_quiet_def turn_inv_def tasks_ok_def)
qed

lemma length_update_present:
  "map_of al k = Some v \<Longrightarrow> length (AList.update k w al) = length al"
  by (induction al) auto

lemma length_update_absent:
  "map_of al k = None \<Longrightarrow> length (AList.update k w al) = Suc (length al)"
  by (induction al) (auto split: if_splits)

lemma length_delete_present:
  "distinct (map fst al) \<Longrightarrow> map_of al k = Some v \<Longrightarrow> int (length (AList.delete k al)) = int (length al) - 1"
proof (induction al)
  case (Cons x al)
  have "AList.delete k al = al" if "k \<notin> fst ` set al"
    using that by (auto simp: AList.delete_eq filter_id_conv image_iff)
  with Cons show ?case by (auto simp: AList.delete_simps split: if_splits)
qed simp

lemma channels_ok_empty [simp]:
  "al_channels_to_peer a = Map.empty \<Longrightarrow> al_peer_to_channel a = Map.empty \<Longrightarrow> channels_ok a"
  by (simp add: channels_ok_def)

lemma retain_Some: "retain keep m k = Some v \<longleftrightarrow> m k = Some v \<and> keep k v"
  by (auto simp: retain_def split: option.splits)

lemma prune_simps [simp]:
  "al_username (prune a now) = al_username a" "al_relay_sock (prune a now) = al_relay_sock a"
  "al_relay_task (prune a now) = al_relay_task a" "al_expires_at (prune a now) = al_expires_at a"
  "al_relay_addr (prune a now) = al_relay_addr a" "al_nonce (prune a now) = al_nonce a"
  by (simp_all add: prune_def Let_def)

lemma prune_maps:
  "al_permissions (prune a now) ip = Some e \<longleftrightarrow> al_permissions a ip = Some e \<and> now < e"
  "al_channels_to_peer (prune a now) ch = Some (p, e) \<longleftrightarrow> al_channels_to_peer a ch = Some (p, e) \<and> now < e"
  "al_peer_to_channel (prune a now) p = Some ch \<longleftrightarrow>
     al_peer_to_channel a p = Some ch \<and> (\<exists>q e. al_channels_to_peer a ch = Some (q, e) \<and> now < e)"
  by (auto simp: prune_def Let_def retain_Some)

lemma channels_okD:
  "channels_ok a \<Longrightarrow> al_channels_to_peer a ch = Some (p, e) \<Longrightarrow> al_peer_to_channel a p = Some ch \<and> channel_ok ch"
  "channels_ok a \<Longrightarrow> al_peer_to_channel a p = Some ch \<Longrightarrow> \<exists>e. al_channels_to_peer a ch = Some (p, e)"
  unfolding channels_ok_def by blast+

lemma channels_okI:
  assumes "\<And>ch p e. al_channels_to_peer a ch = Some (p, e) \<Longrightarrow> al_peer_to_channel a p = Some ch \<and> channel_ok ch"
    and "\<And>p ch. al_peer_to_channel a p = Some ch \<Longrightarrow> \<exists>e. al_channels_to_peer a ch = Some (p, e)"
  shows "channels_ok a"
  unfolding channels_ok_def using assms by blast

lemma channels_ok_prune:
  assumes "channels_ok a"
  shows "channels_ok (prune a now)"
proof (rule channels_okI)
  fix ch p e assume "al_channels_to_peer (prune a now) ch = Some (p, e)"
  then have c: "al_channels_to_peer a ch = Some (p, e)" and e: "now < e" by (simp_all add: prune_maps)
  then show "al_peer_to_channel (prune a now) p = Some ch \<and> channel_ok ch"
    using channels_okD(1) [OF assms c] by (simp add: prune_maps)
next
  fix p ch assume "al_peer_to_channel (prune a now) p = Some ch"
  then obtain q e where p: "al_peer_to_channel a p = Some ch" and c: "al_channels_to_peer a ch = Some (q, e)"
    and e: "now < e" by (auto simp: prune_maps)
  then show "\<exists>e. al_channels_to_peer (prune a now) ch = Some (p, e)"
    using channels_okD(2) [OF assms p] by (auto simp: prune_maps)
qed

lemma channels_ok_cong:
  "al_channels_to_peer a' = al_channels_to_peer a \<Longrightarrow> al_peer_to_channel a' = al_peer_to_channel a \<Longrightarrow>
   channels_ok a' = channels_ok a"
  by (simp add: channels_ok_def)

lemma bind_channel_cases:
  assumes "channels_ok a"
  shows "(bind_channel a ch peer now = (prune a now, False))
    \<or> (bind_channel a ch peer now = ((prune a now)
         \<lparr> al_channels_to_peer := (al_channels_to_peer (prune a now))(ch \<mapsto> (peer, now + CHANNEL_LIFETIME)),
           al_peer_to_channel := (al_peer_to_channel (prune a now))(peer \<mapsto> ch),
           al_permissions := (al_permissions (prune a now))(sa_ip peer \<mapsto> now + PERMISSION_LIFETIME) \<rparr>, True)
       \<and> (\<forall>p e. al_channels_to_peer (prune a now) ch = Some (p, e) \<longrightarrow> p = peer)
       \<and> (\<forall>c. al_peer_to_channel (prune a now) peer = Some c \<longrightarrow> c = ch))"
proof -
  let ?a = "prune a now"
  have live: "now < e" if "al_channels_to_peer ?a c = Some (p, e)" for c p e
    using that by (simp add: prune_maps)
  have peer: "al_channels_to_peer ?a ch = Some (p, e) \<Longrightarrow> channel_peer ?a ch now = Some p" for p e
    using live [of ch p e] by (simp add: channel_peer_def)
  have chan: "al_peer_to_channel ?a peer = Some c \<Longrightarrow> peer_channel ?a peer now = Some c" for c
    using channels_okD(2) [OF channels_ok_prune [OF assms]] live
    by (fastforce simp: peer_channel_def channel_peer_def)
  show ?thesis
  proof (cases "(case channel_peer ?a ch now of Some bound \<Rightarrow> bound \<noteq> peer | None \<Rightarrow> False)
      \<or> (case peer_channel ?a peer now of Some bound \<Rightarrow> bound \<noteq> ch | None \<Rightarrow> False)")
    case True
    then show ?thesis by (simp add: bind_channel_def Let_def)
  next
    case False
    then have "channel_peer ?a ch now = Some p \<Longrightarrow> p = peer" "peer_channel ?a peer now = Some c \<Longrightarrow> c = ch" for p c
      by auto
    with peer chan have "\<forall>p e. al_channels_to_peer ?a ch = Some (p, e) \<longrightarrow> p = peer"
      "\<forall>c. al_peer_to_channel ?a peer = Some c \<longrightarrow> c = ch" by blast+
    then show ?thesis using False by (simp add: bind_channel_def Let_def)
  qed
qed

lemma channels_ok_insert:
  assumes "channels_ok a" and "channel_ok ch"
    and "\<forall>p e. al_channels_to_peer a ch = Some (p, e) \<longrightarrow> p = peer"
    and "\<forall>c. al_peer_to_channel a peer = Some c \<longrightarrow> c = ch"
    and "al_channels_to_peer a' = (al_channels_to_peer a)(ch \<mapsto> (peer, e'))"
    and "al_peer_to_channel a' = (al_peer_to_channel a)(peer \<mapsto> ch)"
  shows "channels_ok a'"
proof (rule channels_okI)
  fix c p e assume "al_channels_to_peer a' c = Some (p, e)"
  then show "al_peer_to_channel a' p = Some c \<and> channel_ok c"
    unfolding assms(5,6) using channels_okD(1) [OF assms(1), of c p e] assms(2,4) by (auto split: if_splits)
next
  fix p c assume "al_peer_to_channel a' p = Some c"
  then show "\<exists>e. al_channels_to_peer a' c = Some (p, e)"
    unfolding assms(5,6) using channels_okD(2) [OF assms(1), of p c] assms(3) by (auto split: if_splits)
qed

lemma channels_ok_bind:
  assumes "channels_ok a" and "channel_ok ch"
  shows "channels_ok (fst (bind_channel a ch peer now))"
  using bind_channel_cases [OF assms(1), of ch peer now]
proof (elim disjE conjE)
  assume "bind_channel a ch peer now = (prune a now, False)"
  then show ?thesis using channels_ok_prune [OF assms(1)] by simp
qed (rule channels_ok_insert [OF channels_ok_prune [OF assms(1), of now] assms(2)]; simp)

lemma turn_inv_update:
  assumes "turn_inv s" and "allocation_of s client = Some a" and "channels_ok a'"
    and "al_relay_task a' = al_relay_task a" and "al_relay_sock a' = al_relay_sock a"
  shows "turn_inv (update_allocation s client a')"
  using assms
  by (auto simp: turn_inv_def tasks_ok_def gauge_ok_def update_allocation_def update_conv' distinct_update
      length_update_present split: if_splits)

lemma turn_invD:
  assumes "turn_inv s"
  shows "distinct (map fst (ts_allocations s))" "allocation_of s c = Some a \<Longrightarrow> channels_ok a"
    "tasks_ok s" "gauge_ok s" "\<not> ts_serving s \<Longrightarrow> ts_allocations s = []"
  using assms by (simp_all add: turn_inv_def)

lemma gauge_add_simps [simp]:
  "ts_config (gauge_add s d) = ts_config s" "ts_allocations (gauge_add s d) = ts_allocations s"
  "ts_challenges (gauge_add s d) = ts_challenges s" "ts_credentials (gauge_add s d) = ts_credentials s"
  "ts_tasks (gauge_add s d) = ts_tasks s" "ts_next_token (gauge_add s d) = ts_next_token s"
  "ts_serving (gauge_add s d) = ts_serving s"
  by (simp_all add: gauge_add_def)

lemma cancel_tasks_simps [simp]:
  "ts_config (cancel_tasks ts s) = ts_config s" "ts_allocations (cancel_tasks ts s) = ts_allocations s"
  "ts_challenges (cancel_tasks ts s) = ts_challenges s" "ts_credentials (cancel_tasks ts s) = ts_credentials s"
  "ts_tasks (cancel_tasks ts s) = filter (\<lambda>t. rt_token t \<notin> set ts) (ts_tasks s)"
  "ts_next_token (cancel_tasks ts s) = ts_next_token s" "ts_serving (cancel_tasks ts s) = ts_serving s"
  "ts_metrics (cancel_tasks ts s) = ts_metrics s"
  by (simp_all add: cancel_tasks_def)

lemma gauge_ok_add:
  assumes "gauge_ok s" and "ts_metrics s' = ts_metrics s"
    and "int (length (ts_allocations s')) = int (length (ts_allocations s)) + d"
  shows "gauge_ok (gauge_add s' d)"
  using assms by (auto simp: gauge_ok_def gauge_add_def)

text \<open>Allocations may go when their tasks go: what is left of the relay state is still in order.\<close>

lemma tasks_ok_restrict:
  assumes "tasks_ok s" and "ts_next_token s' = ts_next_token s"
    and "\<And>c a. allocation_of s' c = Some a \<Longrightarrow>
           \<exists>b. allocation_of s c = Some b \<and> al_relay_task a = al_relay_task b \<and> al_relay_sock a = al_relay_sock b"
    and "ts_tasks s' = filter P (ts_tasks s)"
    and "\<And>t b. t \<in> set (ts_tasks s') \<Longrightarrow> allocation_of s (rt_client t) = Some b \<Longrightarrow> al_relay_task b = rt_token t \<Longrightarrow>
           \<exists>a. allocation_of s' (rt_client t) = Some a"
  shows "tasks_ok s'"
  unfolding tasks_ok_def
proof (intro conjI ballI allI impI)
  show "distinct (map rt_token (ts_tasks s'))"
    using assms(1) by (simp add: assms(4) tasks_ok_def distinct_map_filter)
next
  fix t assume t: "t \<in> set (ts_tasks s')"
  then have "t \<in> set (ts_tasks s)" by (simp add: assms(4))
  with assms(1) obtain b where b: "allocation_of s (rt_client t) = Some b" "al_relay_task b = rt_token t"
    "al_relay_sock b = rt_sock t" by (auto simp: tasks_ok_def)
  from assms(5) [OF t b(1,2)] obtain a where a: "allocation_of s' (rt_client t) = Some a" ..
  with assms(3) [OF a] b show "\<exists>a. allocation_of s' (rt_client t) = Some a \<and> al_relay_task a = rt_token t \<and> al_relay_sock a = rt_sock t"
    by auto
next
  fix c a assume "allocation_of s' c = Some a"
  from assms(3) [OF this] assms(1,2) show "al_relay_task a < ts_next_token s'" by (auto simp: tasks_ok_def)
next
  fix c c' a a'
  assume "allocation_of s' c = Some a" "allocation_of s' c' = Some a'" "al_relay_task a = al_relay_task a'"
  with assms(3) obtain b b' where "allocation_of s c = Some b" "allocation_of s c' = Some b'"
    "al_relay_task b = al_relay_task b'" by metis
  with assms(1) show "c = c'" unfolding tasks_ok_def by blast
qed

lemma turn_inv_release:
  assumes "turn_inv s" and "allocation_of s client = Some a"
  shows "turn_inv (release_allocation s client a)"
proof -
  let ?s = "release_allocation s client a"
  note inv = turn_invD [OF assms(1)]
  have maps: "allocation_of ?s c = (if c = client then None else allocation_of s c)" for c
    by (simp add: release_allocation_def delete_conv')
  have "tasks_ok ?s"
  proof (rule tasks_ok_restrict [OF inv(3)])
    show "ts_tasks ?s = filter (\<lambda>t. rt_token t \<notin> set [al_relay_task a]) (ts_tasks s)"
      by (simp add: release_allocation_def)
    fix t b assume "t \<in> set (ts_tasks ?s)" "allocation_of s (rt_client t) = Some b" "al_relay_task b = rt_token t"
    then show "\<exists>a. allocation_of ?s (rt_client t) = Some a"
      using assms(2) by (auto simp: maps) (simp add: release_allocation_def)
  qed (simp_all add: maps, simp_all add: release_allocation_def split: if_splits)
  moreover have "gauge_ok ?s"
    unfolding release_allocation_def
    by (rule gauge_ok_add [OF inv(4)]) (use length_delete_present [OF inv(1) assms(2)] in simp_all)
  ultimately show ?thesis
    using inv(1,2,5) unfolding turn_inv_def maps
    by (auto simp: release_allocation_def distinct_delete)
qed

lemma map_of_kept:
  "map_of (map (\<lambda>(c, a). (c, f a)) (filter (\<lambda>(_, a). P a) al)) c =
     (case map_of (filter (\<lambda>(_, a). P a) al) c of Some a \<Rightarrow> Some (f a) | None \<Rightarrow> None)"
  by (induction al) auto

lemma map_of_filter_val:
  "distinct (map fst al) \<Longrightarrow> map_of (filter (\<lambda>(_, a). P a) al) c =
     (case map_of al c of Some a \<Rightarrow> if P a then Some a else None | None \<Rightarrow> None)"
  by (induction al) (auto split: option.splits simp: map_of_eq_None_iff dest: map_of_SomeD)

lemma sweep_allocation:
  "turn_inv s \<Longrightarrow> allocation_of (sweep s now) c = map_option (\<lambda>a. prune a now) (live_allocation s c now)"
  unfolding sweep_def Let_def live_allocation_def
  by (simp add: map_of_kept map_of_filter_val turn_invD split: option.splits)

lemma turn_inv_sweep:
  assumes "turn_inv s"
  shows "turn_inv (sweep s now)"
proof -
  let ?s = "sweep s now"
  note inv = turn_invD [OF assms] and maps = sweep_allocation [OF assms, of now]
  have sub: "live_allocation s c now = Some a \<Longrightarrow> allocation_of s c = Some a \<and> is_live a now" for c a
    by (auto simp: live_allocation_def split: option.splits if_splits)
  have "tasks_ok ?s"
  proof (rule tasks_ok_restrict [OF inv(3)])
    fix c a assume "allocation_of ?s c = Some a"
    then show "\<exists>b. allocation_of s c = Some b \<and> al_relay_task a = al_relay_task b \<and> al_relay_sock a = al_relay_sock b"
      unfolding maps using sub by force
  next
    show "ts_tasks ?s = filter (\<lambda>t. rt_token t \<notin>
        set (map (al_relay_task \<circ> snd) (filter (\<lambda>(_, a). \<not> is_live a now) (ts_allocations s)))) (ts_tasks s)"
      by (simp add: sweep_def Let_def)
    fix t b assume t: "t \<in> set (ts_tasks ?s)" and b: "allocation_of s (rt_client t) = Some b" "al_relay_task b = rt_token t"
    have "is_live b now"
    proof (rule ccontr)
      assume "\<not> is_live b now"
      with b have "rt_token t \<in> set (map (al_relay_task \<circ> snd) (filter (\<lambda>(_, a). \<not> is_live a now) (ts_allocations s)))"
        by (force dest: map_of_SomeD)
      with t show False by (simp add: sweep_def Let_def)
    qed
    with b show "\<exists>a. allocation_of ?s (rt_client t) = Some a" unfolding maps by (simp add: live_allocation_def)
  qed (simp add: sweep_def Let_def)
  moreover have "gauge_ok ?s"
  proof -
    have "length (filter (\<lambda>(_, a). is_live a now) al) + length (filter (\<lambda>(_, a). \<not> is_live a now) al) = length al"
      for al :: "(socket_addr \<times> allocation) list" by (induction al) auto
    from this [of "ts_allocations s"] inv(4) show ?thesis
      by (auto simp: gauge_ok_def sweep_def Let_def gauge_add_def)
  qed
  moreover have "distinct (map fst (ts_allocations ?s))"
    using inv(1) by (simp add: sweep_def Let_def comp_def case_prod_unfold distinct_map_filter)
  moreover have "channels_ok a" if "allocation_of ?s c = Some a" for c a
    using that inv(2) sub channels_ok_prune unfolding maps by blast
  ultimately show ?thesis using inv(5) by (auto simp: turn_inv_def sweep_def Let_def)
qed

lemma install_simps [simp]:
  "ts_config (install_allocation env s client auth sock lt) = ts_config s"
  "ts_credentials (install_allocation env s client auth sock lt) = ts_credentials s"
  "ts_serving (install_allocation env s client auth sock lt) = ts_serving s"
  "ts_next_token (install_allocation env s client auth sock lt) = Suc (ts_next_token s)"
  by (simp_all add: install_allocation_def spawn_relay_def Let_def split: option.splits)

definition fresh_allocation :: "turn_env \<Rightarrow> turn_server \<Rightarrow> authenticated \<Rightarrow> socket_addr \<Rightarrow> duration \<Rightarrow> allocation" where
  "fresh_allocation env s auth sock lt =
     \<lparr> al_username = au_username auth, al_relay_sock = sock,
       al_relay_addr = \<lparr> sa_ip = tcf_relay_ip (ts_config s), sa_port = sa_port sock \<rparr>,
       al_nonce = au_nonce auth, al_expires_at = te_act env + lt, al_permissions = Map.empty,
       al_channels_to_peer = Map.empty, al_peer_to_channel = Map.empty, al_relay_task = ts_next_token s \<rparr>"

lemma install_allocations:
  "ts_allocations (install_allocation env s client auth sock lt) =
     AList.update client (fresh_allocation env s auth sock lt) (ts_allocations s)"
  by (simp add: install_allocation_def spawn_relay_def Let_def fresh_allocation_def split: option.splits)

lemma install_tasks:
  "ts_tasks (install_allocation env s client auth sock lt) =
     (case allocation_of s client of
        Some a \<Rightarrow> filter (\<lambda>t. rt_token t \<noteq> al_relay_task a)
           (ts_tasks s @ [\<lparr> rt_token = ts_next_token s, rt_client = client, rt_sock = sock \<rparr>])
      | None \<Rightarrow> ts_tasks s @ [\<lparr> rt_token = ts_next_token s, rt_client = client, rt_sock = sock \<rparr>])"
  by (simp add: install_allocation_def spawn_relay_def Let_def split: option.splits)

lemma task_token_less: "tasks_ok s \<Longrightarrow> t \<in> set (ts_tasks s) \<Longrightarrow> rt_token t < ts_next_token s"
  unfolding tasks_ok_def by metis

lemma turn_inv_install:
  assumes "turn_inv s" and "ts_serving s"
  shows "turn_inv (install_allocation env s client auth sock lt)"
proof -
  let ?s = "install_allocation env s client auth sock lt"
  let ?f = "fresh_allocation env s auth sock lt"
  let ?new = "\<lparr> rt_token = ts_next_token s, rt_client = client, rt_sock = sock \<rparr>"
  note inv = turn_invD [OF assms(1)]
  have maps: "allocation_of ?s c = (if c = client then Some ?f else allocation_of s c)" for c
    by (simp add: install_allocations update_conv')
  have tok: "al_relay_task ?f = ts_next_token s" "al_relay_sock ?f = sock" by (simp_all add: fresh_allocation_def)
  have less: "al_relay_task a < ts_next_token s" if "allocation_of s c = Some a" for c a
    using inv(3) that by (auto simp: tasks_ok_def)
  have keep: "t = ?new \<or> (t \<in> set (ts_tasks s) \<and> rt_client t \<noteq> client)" if t: "t \<in> set (ts_tasks ?s)" for t
  proof (cases "t \<in> set (ts_tasks s)")
    case True
    then obtain b where "allocation_of s (rt_client t) = Some b" "al_relay_task b = rt_token t"
      using inv(3) by (auto simp: tasks_ok_def)
    then show ?thesis using t True by (auto simp: install_tasks split: if_splits)
  qed (use t in \<open>auto simp: install_tasks split: option.splits if_splits\<close>)
  have "tasks_ok ?s"
    unfolding tasks_ok_def
  proof (intro conjI ballI allI impI)
    have "ts_next_token s \<notin> rt_token ` set (ts_tasks s)"
      using task_token_less [OF inv(3)] by (metis imageE less_irrefl)
    then have "distinct (map rt_token (ts_tasks s @ [?new]))" using inv(3) by (simp add: tasks_ok_def)
    then show "distinct (map rt_token (ts_tasks ?s))"
      unfolding install_tasks by (auto split: option.splits simp: distinct_map_filter)
  next
    fix t assume "t \<in> set (ts_tasks ?s)"
    from keep [OF this] show "\<exists>a. allocation_of ?s (rt_client t) = Some a \<and> al_relay_task a = rt_token t \<and> al_relay_sock a = rt_sock t"
      using inv(3) by (auto simp: maps tok tasks_ok_def)
  next
    fix c a assume "allocation_of ?s c = Some a"
    then show "al_relay_task a < ts_next_token ?s" using less by (auto simp: maps tok less_SucI split: if_splits)
  next
    fix c c' a a'
    assume "allocation_of ?s c = Some a" "allocation_of ?s c' = Some a'" "al_relay_task a = al_relay_task a'"
    then show "c = c'" using inv(3) unfolding maps tasks_ok_def
      by (auto simp: tok split: if_splits dest: less)
  qed
  moreover have "gauge_ok ?s"
    using inv(4) length_update_present [of "ts_allocations s" client] length_update_absent [of "ts_allocations s" client]
    by (auto simp: gauge_ok_def install_allocation_def spawn_relay_def Let_def gauge_add_def cancel_tasks_def split: option.splits)
  moreover have "channels_ok a" if "allocation_of ?s c = Some a" for c a
    using that inv(2) unfolding maps by (auto simp: fresh_allocation_def split: if_splits)
  ultimately show ?thesis using inv(1) assms(2)
    by (auto simp: turn_inv_def install_allocations distinct_update)
qed

lemma turn_inv_shutdown:
  assumes "turn_inv s"
  shows "turn_inv ((shutdown_allocations s) \<lparr> ts_serving := False \<rparr>)"
proof -
  note inv = turn_invD [OF assms]
  have "rt_token t \<in> set (map (al_relay_task \<circ> snd) (ts_allocations s))" if t: "t \<in> set (ts_tasks s)" for t
  proof -
    from inv(3) t obtain b where "allocation_of s (rt_client t) = Some b" "al_relay_task b = rt_token t"
      by (auto simp: tasks_ok_def)
    then show ?thesis by (force dest: map_of_SomeD)
  qed
  then have none: "filter (\<lambda>t. rt_token t \<notin> set (map (al_relay_task \<circ> snd) (ts_allocations s))) (ts_tasks s) = []"
    by (metis (no_types, lifting) filter_False)
  show ?thesis
    using inv(4) none
    by (auto simp: turn_inv_def tasks_ok_def gauge_ok_def shutdown_allocations_def gauge_add_def cancel_tasks_def)
qed

lemma turn_inv_relay_failed:
  "turn_inv s \<Longrightarrow> turn_inv (s \<lparr> ts_tasks := filter P (ts_tasks s) \<rparr>)"
  by (auto simp: turn_inv_def tasks_ok_def gauge_ok_def distinct_map_filter)

lemma owner_allocation: "owner_request hmac env msg client s a \<Longrightarrow> allocation_of s client = Some a"
  by (simp add: owner_request_def)

lemma requested_channel_ok: "requested_channel msg = Some ch \<Longrightarrow> channel_ok ch"
  by (auto simp: requested_channel_def channel_ok_def Let_def split: option.splits if_splits)

lemma grant_simps [simp]:
  "al_username (grant_permissions a ps d) = al_username a" "al_relay_sock (grant_permissions a ps d) = al_relay_sock a"
  "al_relay_task (grant_permissions a ps d) = al_relay_task a" "al_expires_at (grant_permissions a ps d) = al_expires_at a"
  "al_channels_to_peer (grant_permissions a ps d) = al_channels_to_peer a"
  "al_peer_to_channel (grant_permissions a ps d) = al_peer_to_channel a"
  by (simp_all add: grant_permissions_def)

lemma bind_channel_simps [simp]:
  "al_username (fst (bind_channel a ch p now)) = al_username a"
  "al_relay_sock (fst (bind_channel a ch p now)) = al_relay_sock a"
  "al_relay_task (fst (bind_channel a ch p now)) = al_relay_task a"
  by (simp_all add: bind_channel_def Let_def)

lemma turn_effect_inv:
  assumes "turn_effect hmac env msg client s s'" and "turn_inv s" and "ts_serving s"
  shows "turn_inv s'"
  using assms(1)
proof cases
  case nothing
  then show ?thesis using assms(2) turn_inv_quiet by blast
next
  case (install auth sock)
  then show ?thesis using turn_inv_install [OF assms(2,3)] turn_inv_quiet by blast
next
  case (release a)
  then show ?thesis using turn_inv_release [OF assms(2) owner_allocation] by blast
next
  case (extend a)
  note a = owner_allocation [OF extend(2)]
  show ?thesis unfolding extend(1)
    by (rule turn_inv_update [OF assms(2) a]) (use turn_invD(2) [OF assms(2) a] channels_ok_cong [of "a \<lparr> al_expires_at := _ \<rparr>" a] in simp_all)
next
  case (permit a)
  note a = owner_allocation [OF permit(2)]
  show ?thesis unfolding permit(1)
    by (rule turn_inv_update [OF assms(2) a])
      (use turn_invD(2) [OF assms(2) a] channels_ok_cong [of "grant_permissions a _ _" a] in simp_all)
next
  case (bind a channel peer)
  note a = owner_allocation [OF bind(2)]
  show ?thesis unfolding bind(1)
    by (rule turn_inv_update [OF assms(2) a])
      (use channels_ok_bind [OF turn_invD(2) [OF assms(2) a] requested_channel_ok [OF bind(4)]] in simp_all)
qed

lemma relay_step_inv: "turn_inv s \<Longrightarrow> turn_inv (fst (relay_step hmac s i))"
proof (cases i)
  case (FromClient env bs client)
  assume "turn_inv s"
  then show ?thesis
    using dispatch_effect [of "take 2048 bs" hmac env s client] turn_effect_inv [of hmac env _ client s]
    by (auto simp: relay_step_def FromClient)
qed (auto simp: relay_step_def turn_inv_relay_failed turn_inv_sweep turn_inv_shutdown split: option.splits)

interpretation relay: preserving_machine "relay_step hmac" turn_inv
  by unfold_locales (rule relay_step_inv)

section \<open>The record of consent\<close>

text \<open>A request that lets the client at \<open>client\<close> exchange datagrams with the peers at \<open>ip\<close>: it came
  from that client, carries a tag under the key of \<open>user\<close>, names the address, and was acted on at
  instant \<open>t\<close>.\<close>

definition consents ::
  "hmac_fun \<Rightarrow> (bytes \<rightharpoonup> long_term_credential) \<Rightarrow> turn_input \<Rightarrow> socket_addr \<Rightarrow> bytes \<Rightarrow> ip_addr \<Rightarrow> instant \<Rightarrow> bool"
where
  "consents hmac creds i client user ip t \<longleftrightarrow>
     (\<exists>env bs msg. i = FromClient env bs client \<and> t = te_act env \<and> request_of (take 2048 bs) = Some msg
        \<and> pt_class msg = CLASS_REQUEST \<and> pt_method msg \<in> {METHOD_CREATE_PERMISSION, METHOD_CHANNEL_BIND}
        \<and> signed_by hmac creds msg user \<and> ip \<in> sa_ip ` set (requested_peers msg))"

definition recorded :: "hmac_fun \<Rightarrow> (bytes \<rightharpoonup> long_term_credential) \<Rightarrow> turn_input list \<Rightarrow> socket_addr \<Rightarrow> allocation \<Rightarrow> bool" where
  "recorded hmac creds ins client a \<longleftrightarrow>
     (\<forall>ip e. al_permissions a ip = Some e \<longrightarrow>
        (\<exists>i\<in>set ins. \<exists>t. consents hmac creds i client (al_username a) ip t \<and> e = t + PERMISSION_LIFETIME))
     \<and> (\<forall>ch p e. al_channels_to_peer a ch = Some (p, e) \<longrightarrow>
        (\<exists>i\<in>set ins. \<exists>t. consents hmac creds i client (al_username a) (sa_ip p) t \<and> e = t + CHANNEL_LIFETIME))"

text \<open>The histories of a server: it starts empty, with or without metrics.\<close>

inductive turn_reach :: "hmac_fun \<Rightarrow> turn_config \<Rightarrow> turn_input list \<Rightarrow> turn_server \<Rightarrow> bool"
  for hmac config
where
  start: "turn_reach hmac config [] (turn_new config)"
| start_metrics: "tm_active m = 0 \<Longrightarrow> turn_reach hmac config [] (with_metrics (turn_new config) m)"
| step: "turn_reach hmac config ins s \<Longrightarrow> turn_reach hmac config (ins @ [i]) (fst (relay_step hmac s i))"

lemma turn_reach_inv: "turn_reach hmac config ins s \<Longrightarrow> turn_inv s"
proof (induction rule: turn_reach.induct)
  case (step ins s i)
  then show ?case by (simp add: relay_step_inv)
qed (simp_all add: turn_inv_def turn_new_def with_metrics_def tasks_ok_def gauge_ok_def)

lemma turn_effect_credentials: "turn_effect hmac env msg client s s' \<Longrightarrow> ts_credentials s' = ts_credentials s"
  by (induction rule: turn_effect.induct) (simp_all add: turn_quiet_def release_allocation_def update_allocation_def)

lemma relay_step_credentials: "ts_credentials (fst (relay_step hmac s i)) = ts_credentials s"
proof (cases i)
  case (FromClient env bs client)
  then show ?thesis
    using dispatch_effect [of "take 2048 bs" hmac env s client] turn_effect_credentials
    by (auto simp: relay_step_def)
qed (auto simp: relay_step_def sweep_def shutdown_allocations_def Let_def split: option.splits)

lemma turn_reach_credentials:
  "turn_reach hmac config ins s \<Longrightarrow> ts_credentials s = ts_credentials (turn_new config)"
  by (induction rule: turn_reach.induct) (simp_all add: relay_step_credentials with_metrics_def)

lemma recorded_later: "recorded hmac creds ins client a \<Longrightarrow> recorded hmac creds (ins @ more_ins) client a"
  unfolding recorded_def by (metis Un_iff set_append)

lemma recorded_cong:
  "al_permissions a' = al_permissions a \<Longrightarrow> al_channels_to_peer a' = al_channels_to_peer a \<Longrightarrow>
   al_username a' = al_username a \<Longrightarrow> recorded hmac creds ins client a' = recorded hmac creds ins client a"
  by (simp add: recorded_def)

lemma recorded_prune: "recorded hmac creds ins client a \<Longrightarrow> recorded hmac creds ins client (prune a now)"
  unfolding recorded_def prune_maps prune_simps by blast

lemma foldl_permissions:
  "foldl (\<lambda>m peer. m(sa_ip peer \<mapsto> d)) (m :: ip_addr \<rightharpoonup> instant) peers ip = Some e \<Longrightarrow>
   m ip = Some e \<or> (e = d \<and> ip \<in> sa_ip ` set peers)"
proof (induction peers arbitrary: m)
  case (Cons p peers)
  from Cons.IH [of "m(sa_ip p \<mapsto> d)"] Cons.prems show ?case by (auto split: if_splits)
qed simp

lemma recorded_permit:
  assumes "recorded hmac creds ins client a" and "i \<in> set ins"
    and "\<And>p. p \<in> set peers \<Longrightarrow> consents hmac creds i client (al_username a) (sa_ip p) t"
  shows "recorded hmac creds ins client (grant_permissions a peers (t + PERMISSION_LIFETIME))"
proof -
  have "al_permissions (grant_permissions a peers d) ip = Some e \<Longrightarrow>
      al_permissions a ip = Some e \<or> (e = d \<and> ip \<in> sa_ip ` set peers)" for d ip e
    using foldl_permissions [of d "al_permissions a" peers ip e] by (simp add: grant_permissions_def)
  note granted = this
  show ?thesis
    unfolding recorded_def grant_simps
  proof (intro conjI allI impI)
    fix ip e assume "al_permissions (grant_permissions a peers (t + PERMISSION_LIFETIME)) ip = Some e"
    from granted [OF this]
    show "\<exists>i\<in>set ins. \<exists>t. consents hmac creds i client (al_username a) ip t \<and> e = t + PERMISSION_LIFETIME"
      using assms unfolding recorded_def by blast
  qed (use assms(1) in \<open>simp add: recorded_def\<close>)
qed

lemma recorded_bind:
  assumes "recorded hmac creds ins client a" and "channels_ok a" and "i \<in> set ins"
    and "consents hmac creds i client (al_username a) (sa_ip peer) t"
  shows "recorded hmac creds ins client (fst (bind_channel a ch peer t))"
  using bind_channel_cases [OF assms(2), of ch peer t]
proof (elim disjE conjE)
  assume "bind_channel a ch peer t = (prune a t, False)"
  then show ?thesis using recorded_prune [OF assms(1)] by simp
next
  let ?b = "(prune a t)
         \<lparr> al_channels_to_peer := (al_channels_to_peer (prune a t))(ch \<mapsto> (peer, t + CHANNEL_LIFETIME)),
           al_peer_to_channel := (al_peer_to_channel (prune a t))(peer \<mapsto> ch),
           al_permissions := (al_permissions (prune a t))(sa_ip peer \<mapsto> t + PERMISSION_LIFETIME) \<rparr>"
  assume b: "bind_channel a ch peer t = (?b, True)"
  note r = recorded_prune [OF assms(1), of t, unfolded recorded_def prune_simps]
  show ?thesis
    unfolding b recorded_def
  proof (intro conjI allI impI)
    fix ip e assume "al_permissions (fst (?b, True)) ip = Some e"
    then show "\<exists>i\<in>set ins. \<exists>t'. consents hmac creds i client (al_username (fst (?b, True))) ip t' \<and> e = t' + PERMISSION_LIFETIME"
      using r assms(3,4) by (cases "ip = sa_ip peer") auto
  next
    fix c p e assume "al_channels_to_peer (fst (?b, True)) c = Some (p, e)"
    then show "\<exists>i\<in>set ins. \<exists>t'. consents hmac creds i client (al_username (fst (?b, True))) (sa_ip p) t' \<and> e = t' + CHANNEL_LIFETIME"
      using r assms(3,4) by (cases "c = ch") auto
  qed
qed

lemma peer_attr_requested: "peer_attr msg = Some p \<Longrightarrow> p \<in> set (requested_peers msg)"
  by (auto simp: peer_attr_def turn_attr_def requested_peers_def map_filter_def dest!: find_SomeD
      split: option.splits intro!: rev_image_eqI)

lemma turn_effect_recorded:
  assumes "turn_effect hmac env msg client s s'" and "turn_inv s" and "request_of (take 2048 bs) = Some msg"
    and "i = FromClient env bs client"
    and rec: "\<And>c a. allocation_of s c = Some a \<Longrightarrow> recorded hmac (ts_credentials s) ins c a"
    and a': "allocation_of s' c = Some a'"
  shows "recorded hmac (ts_credentials s) (ins @ [i]) c a'"
proof -
  have old: "recorded hmac (ts_credentials s) (ins @ [i]) c a" if "allocation_of s c = Some a" for c a
    using recorded_later [OF rec [OF that]] .
  have upd: "recorded hmac (ts_credentials s) (ins @ [i]) c a'"
    if "allocation_of (update_allocation s client b) c = Some a'" and "recorded hmac (ts_credentials s) (ins @ [i]) client b" for b
    using that old [of c a'] by (auto simp: update_allocation_def update_conv' split: if_splits)
  from assms(1) show ?thesis
  proof cases
    case nothing
    then show ?thesis using a' old by (simp add: turn_quiet_def)
  next
    case (install auth sock)
    then have "ts_allocations s' = AList.update client (fresh_allocation env s auth sock (lifetime_from_request s msg)) (ts_allocations s)"
      by (simp add: turn_quiet_def install_allocations)
    then show ?thesis using a' old [of c a'] by (auto simp: update_conv' recorded_def fresh_allocation_def split: if_splits)
  next
    case (release a)
    then show ?thesis using a' old [of c a'] by (auto simp: release_allocation_def delete_conv' split: if_splits)
  next
    case (extend a)
    show ?thesis
      using upd [OF a' [unfolded extend(1)]] old [OF owner_allocation [OF extend(2)]] by (simp add: recorded_def)
  next
    case (permit a)
    have "consents hmac (ts_credentials s) i client (al_username a) (sa_ip p) (te_act env)" if "p \<in> set (requested_peers msg)" for p
      using permit assms(3,4) that by (auto simp: consents_def owner_request_def)
    then show ?thesis
      using upd [OF a' [unfolded permit(1)]] recorded_permit [OF old [OF owner_allocation [OF permit(2)]], of i "requested_peers msg" "te_act env"]
      by simp
  next
    case (bind a channel peer)
    note a = owner_allocation [OF bind(2)]
    have "consents hmac (ts_credentials s) i client (al_username a) (sa_ip peer) (te_act env)"
      using bind assms(3,4) peer_attr_requested [OF bind(5)] by (auto simp: consents_def owner_request_def)
    then show ?thesis
      using upd [OF a' [unfolded bind(1)]] recorded_bind [OF old [OF a] turn_invD(2) [OF assms(2) a], of i peer "te_act env" channel]
      by simp
  qed
qed

lemma turn_reach_recorded:
  "turn_reach hmac config ins s \<Longrightarrow> allocation_of s c = Some a \<Longrightarrow> recorded hmac (ts_credentials s) ins c a"
proof (induction arbitrary: c a rule: turn_reach.induct)
  case (step ins s i)
  note inv = turn_reach_inv [OF step.hyps]
  have old: "recorded hmac (ts_credentials s) (ins @ [i]) c a" if "allocation_of s c = Some a" for c a
    using recorded_later [OF step.IH [OF that]] .
  have "recorded hmac (ts_credentials s) (ins @ [i]) c a"
  proof (cases i)
    case (FromClient env bs client)
    show ?thesis
    proof (cases "ts_serving s \<and> request_of (take 2048 bs) \<noteq> None")
      case True
      then obtain msg where "request_of (take 2048 bs) = Some msg"
        "turn_effect hmac env msg client s (fst (relay_step hmac s i))"
        using dispatch_effect [of "take 2048 bs" hmac env s client] FromClient by (auto simp: relay_step_def)
      then show ?thesis using turn_effect_recorded [OF _ inv _ FromClient step.IH step.prems] by blast
    next
      case False
      then have "fst (relay_step hmac s i) = s"
        using dispatch_effect [of "take 2048 bs" hmac env s client] FromClient by (auto simp: relay_step_def)
      then show ?thesis using old step.prems by simp
    qed
  next
    case (SweepTick now)
    then show ?thesis using step.prems old [of c] recorded_prune sweep_allocation [OF inv, of now c]
      by (auto simp: relay_step_def live_allocation_def split: if_splits option.splits)
  qed (use step.prems old [of c] in \<open>auto simp: relay_step_def shutdown_allocations_def split: option.splits if_splits\<close>)
  then show ?case by (simp add: relay_step_credentials)
qed (simp_all add: turn_new_def with_metrics_def)

end
