(* ===== verification/Turn_Client.thy ===== *)
theory Turn_Client
  imports Turn_Server
begin

text \<open>
  The TURN client (\<^verbatim>\<open>smiths-ice/src/turn.rs\<close>, lines 987 to 1412): the request and response
  exchange, the authenticated transaction with its one repetition after a stale nonce, allocation
  with the challenge round trip, refresh, permissions, channels, the two ways to send, and
  receiving. The network is an argument: given the state of the world and the datagram a call sends,
  it gives the next world and what the socket then receives, up to the deadline (nothing at all when
  the send fails). Random transaction ids are arguments.
\<close>

section \<open>Errors, state, network\<close>

datatype turn_malformed = Expected401 u16 | MissingRelayed | MissingRealm | MissingNonce | StillStale

datatype turn_client_error = TcTimeout | TcIo | TcMalformed turn_malformed | TcErrorResponse u16 bytes

record client_state =
  cs_server :: socket_addr
  cs_cred :: long_term_credential
  cs_realm :: octets
  cs_nonce :: octets

record turn_client =
  tcl_state :: client_state
  tcl_relay_addr :: socket_addr
  tcl_lifetime :: duration

datatype net_event = NetDatagram octets socket_addr | NetError

type_synonym 'w network = "'w \<Rightarrow> octets \<Rightarrow> 'w \<times> net_event list option"

section \<open>Responses\<close>

definition owned_attr :: "octets \<Rightarrow> u16 \<Rightarrow> octets option" where
  "owned_attr bs kind = (case turn_parse bs of Some p \<Rightarrow> turn_attr p kind | None \<Rightarrow> None)"

definition owned_txid :: "octets \<Rightarrow> transaction_id" where
  "owned_txid bs = (case turn_parse bs of Some p \<Rightarrow> pt_txid p | None \<Rightarrow> replicate 12 0)"

definition owned_error :: "octets \<Rightarrow> (u16 \<times> bytes) option" where
  "owned_error bs =
     (case turn_parse bs of
        None \<Rightarrow> None
      | Some p \<Rightarrow>
          if pt_class p \<noteq> CLASS_ERROR then None
          else (case turn_attr p ATTR_ERROR_CODE of
                  None \<Rightarrow> None
                | Some v \<Rightarrow>
                    if length v < 4 then None
                    else Some (ucast (v ! 2 AND 0x07) * 100 + ucast (v ! 3), from_utf8_lossy (chars (drop 4 v)))))"

definition owned_lifetime :: "octets \<Rightarrow> duration option" where
  "owned_lifetime bs =
     (case owned_attr bs ATTR_LIFETIME of
        Some v \<Rightarrow> if length v = 4 then Some (from_secs (unat (from_be v :: u32))) else None
      | None \<Rightarrow> None)"

section \<open>Exchanges\<close>

text \<open>The receive loop of \<^verbatim>\<open>exchange\<close>; the deadline passes when the events are used up.\<close>

fun exchange_loop :: "socket_addr \<Rightarrow> transaction_id \<Rightarrow> net_event list \<Rightarrow> turn_client_error + octets" where
  "exchange_loop server txid [] = Inl TcTimeout"
| "exchange_loop server txid (NetError # es) = Inl TcIo"
| "exchange_loop server txid (NetDatagram bs src # es) =
     (if src \<noteq> server then exchange_loop server txid es
      else (case turn_parse (take 2048 bs) of
              None \<Rightarrow> exchange_loop server txid es
            | Some p \<Rightarrow>
                if pt_txid p = txid \<and> (pt_class p = CLASS_SUCCESS \<or> pt_class p = CLASS_ERROR)
                then Inr (take 2048 bs) else exchange_loop server txid es))"

definition exchange ::
  "'w network \<Rightarrow> 'w \<Rightarrow> socket_addr \<Rightarrow> octets \<Rightarrow> transaction_id \<Rightarrow> 'w \<times> (turn_client_error + octets)"
where
  "exchange net w server msg txid =
     (case net w msg of
        (w', None) \<Rightarrow> (w', Inl TcIo)
      | (w', Some events) \<Rightarrow> (w', exchange_loop server txid events))"

definition adopt_challenge :: "client_state \<Rightarrow> octets \<Rightarrow> client_state \<times> (turn_client_error + unit)" where
  "adopt_challenge st resp =
     (case owned_attr resp ATTR_REALM of
        None \<Rightarrow> (st, Inl (TcMalformed MissingRealm))
      | Some realm \<Rightarrow>
          (case owned_attr resp ATTR_NONCE of
             None \<Rightarrow> (st \<lparr> cs_realm := realm \<rparr>, Inl (TcMalformed MissingNonce))
           | Some nonce \<Rightarrow> (st \<lparr> cs_realm := realm, cs_nonce := nonce \<rparr>, Inr ())))"

datatype req_attr = ReqBytes u16 octets | ReqPeer socket_addr

definition add_req_attr :: "transaction_id \<Rightarrow> octets \<Rightarrow> req_attr \<Rightarrow> octets" where
  "add_req_attr txid msg attr =
     (case attr of
        ReqBytes kind value \<Rightarrow> append_attr msg kind value
      | ReqPeer peer \<Rightarrow> append_attr_xor_addr msg ATTR_XOR_PEER_ADDRESS peer txid)"

definition signed_request :: "hmac_fun \<Rightarrow> client_state \<Rightarrow> transaction_id \<Rightarrow> u16 \<Rightarrow> req_attr list \<Rightarrow> octets" where
  "signed_request hmac st txid meth attrs =
     (let msg = foldl (add_req_attr txid) (request_header meth txid) attrs;
          msg = append_attr msg ATTR_USERNAME (octets_of (lt_username (cs_cred st)));
          msg = append_attr msg ATTR_REALM (cs_realm st);
          msg = append_attr msg ATTR_NONCE (cs_nonce st)
      in finalize_length (append_message_integrity hmac msg (lt_key (cs_cred st))))"

text \<open>The two rounds of \<^verbatim>\<open>transact\<close>, numbered by \<open>attempt\<close>, each with its transaction
  id; the loop ends with the error of a nonce that is still stale, which the second round never
  reaches.\<close>

function transact_from ::
  "nat \<Rightarrow> hmac_fun \<Rightarrow> 'w network \<Rightarrow> 'w \<Rightarrow> (nat \<Rightarrow> transaction_id) \<Rightarrow> client_state \<Rightarrow> u16 \<Rightarrow> req_attr list
     \<Rightarrow> 'w \<times> client_state \<times> (turn_client_error + octets)"
where
  "transact_from attempt hmac net w txids st meth attrs =
     (if 2 \<le> attempt then (w, st, Inl (TcMalformed StillStale))
      else (case exchange net w (cs_server st) (signed_request hmac st (txids attempt) meth attrs) (txids attempt) of
              (w', Inl e) \<Rightarrow> (w', st, Inl e)
            | (w', Inr resp) \<Rightarrow>
                (case owned_error resp of
                   None \<Rightarrow> (w', st, Inr resp)
                 | Some (err, reason) \<Rightarrow>
                     if err = 438 \<and> attempt = 0 then
                       (case adopt_challenge st resp of
                          (st', Inl e) \<Rightarrow> (w', st', Inl e)
                        | (st', Inr _) \<Rightarrow> transact_from (Suc attempt) hmac net w' txids st' meth attrs)
                     else (w', st, Inl (TcErrorResponse err reason)))))"
  by pat_completeness auto
termination
  by (relation "measure (\<lambda>(attempt, _). 2 - attempt)") auto

declare transact_from.simps [simp del]

definition transact ::
  "hmac_fun \<Rightarrow> 'w network \<Rightarrow> 'w \<Rightarrow> (nat \<Rightarrow> transaction_id) \<Rightarrow> client_state \<Rightarrow> u16 \<Rightarrow> req_attr list
     \<Rightarrow> 'w \<times> client_state \<times> (turn_client_error + octets)"
where
  "transact hmac net w txids st meth attrs = transact_from 0 hmac net w txids st meth attrs"

section \<open>Operations\<close>

definition first_allocate :: "transaction_id \<Rightarrow> octets" where
  "first_allocate txid =
     finalize_length (append_attr (request_header METHOD_ALLOCATE txid) ATTR_REQUESTED_TRANSPORT [17, 0, 0, 0])"

definition turn_allocate ::
  "hmac_fun \<Rightarrow> 'w network \<Rightarrow> 'w \<Rightarrow> transaction_id \<Rightarrow> (nat \<Rightarrow> transaction_id) \<Rightarrow> socket_addr \<Rightarrow> long_term_credential
     \<Rightarrow> 'w \<times> (turn_client_error + turn_client)"
where
  "turn_allocate hmac net w txid txids server cred =
     (let st = \<lparr> cs_server = server, cs_cred = cred, cs_realm = [], cs_nonce = [] \<rparr>
      in (case exchange net w server (first_allocate txid) txid of
            (w1, Inl e) \<Rightarrow> (w1, Inl e)
          | (w1, Inr challenge) \<Rightarrow>
              let err = (case owned_error challenge of Some (c, _) \<Rightarrow> c | None \<Rightarrow> 0)
              in if err \<noteq> 401 then (w1, Inl (TcMalformed (Expected401 err)))
                 else (case adopt_challenge st challenge of
                         (st1, Inl e) \<Rightarrow> (w1, Inl e)
                       | (st1, Inr _) \<Rightarrow>
                           (case transact hmac net w1 txids st1 METHOD_ALLOCATE [ReqBytes ATTR_REQUESTED_TRANSPORT [17, 0, 0, 0]] of
                              (w2, st2, Inl e) \<Rightarrow> (w2, Inl e)
                            | (w2, st2, Inr resp) \<Rightarrow>
                                (case Option.bind (owned_attr resp ATTR_XOR_RELAYED_ADDRESS) (\<lambda>v. decode_xor_addr v (owned_txid resp)) of
                                   None \<Rightarrow> (w2, Inl (TcMalformed MissingRelayed))
                                 | Some relay_addr \<Rightarrow>
                                     (w2, Inr \<lparr> tcl_state = st2, tcl_relay_addr = relay_addr,
                                                tcl_lifetime = (case owned_lifetime resp of Some d \<Rightarrow> d | None \<Rightarrow> 0) \<rparr>))))))"

definition turn_refresh ::
  "hmac_fun \<Rightarrow> 'w network \<Rightarrow> 'w \<Rightarrow> (nat \<Rightarrow> transaction_id) \<Rightarrow> turn_client \<Rightarrow> duration
     \<Rightarrow> 'w \<times> turn_client \<times> (turn_client_error + duration)"
where
  "turn_refresh hmac net w txids c lifetime =
     (let secs = try_from_or_max (lifetime div 1000000000) :: u32
      in (case transact hmac net w txids (tcl_state c) METHOD_REFRESH [ReqBytes ATTR_LIFETIME (be_bytes 4 secs)] of
            (w', st, Inl e) \<Rightarrow> (w', c \<lparr> tcl_state := st \<rparr>, Inl e)
          | (w', st, Inr resp) \<Rightarrow>
              let granted = (case owned_lifetime resp of Some d \<Rightarrow> d | None \<Rightarrow> 0)
              in (w', c \<lparr> tcl_state := st, tcl_lifetime := granted \<rparr>, Inr granted)))"

definition unit_result ::
  "turn_client \<Rightarrow> 'w \<times> client_state \<times> (turn_client_error + octets) \<Rightarrow> 'w \<times> turn_client \<times> (turn_client_error + unit)"
where
  "unit_result c r = (case r of (w, st, res) \<Rightarrow>
     (w, c \<lparr> tcl_state := st \<rparr>, case res of Inl e \<Rightarrow> Inl e | Inr _ \<Rightarrow> Inr ()))"

definition turn_create_permission ::
  "hmac_fun \<Rightarrow> 'w network \<Rightarrow> 'w \<Rightarrow> (nat \<Rightarrow> transaction_id) \<Rightarrow> turn_client \<Rightarrow> socket_addr list
     \<Rightarrow> 'w \<times> turn_client \<times> (turn_client_error + unit)"
where
  "turn_create_permission hmac net w txids c peers =
     unit_result c (transact hmac net w txids (tcl_state c) METHOD_CREATE_PERMISSION (map ReqPeer peers))"

definition turn_channel_bind ::
  "hmac_fun \<Rightarrow> 'w network \<Rightarrow> 'w \<Rightarrow> (nat \<Rightarrow> transaction_id) \<Rightarrow> turn_client \<Rightarrow> u16 \<Rightarrow> socket_addr
     \<Rightarrow> 'w \<times> turn_client \<times> (turn_client_error + unit)"
where
  "turn_channel_bind hmac net w txids c channel peer =
     unit_result c (transact hmac net w txids (tcl_state c) METHOD_CHANNEL_BIND
       [ReqBytes ATTR_CHANNEL_NUMBER (be_bytes 2 channel @ [0, 0]), ReqPeer peer])"

text \<open>The datagrams the two ways of sending put on the socket.\<close>

definition send_indication :: "transaction_id \<Rightarrow> socket_addr \<Rightarrow> octets \<Rightarrow> octets" where
  "send_indication txid peer data =
     finalize_length (append_attr_data (append_attr_xor_addr
       (be_bytes 2 (encode_type METHOD_SEND CLASS_INDICATION) @ [0, 0] @ be_bytes 4 MAGIC_COOKIE @ txid)
       ATTR_XOR_PEER_ADDRESS peer txid) data)"

definition send_channel :: "u16 \<Rightarrow> octets \<Rightarrow> octets" where
  "send_channel channel data = channel_data_frame channel data"

fun turn_recv :: "turn_client \<Rightarrow> net_event list \<Rightarrow> turn_client_error + relayed" where
  "turn_recv c [] = Inl TcTimeout"
| "turn_recv c (NetError # es) = Inl TcIo"
| "turn_recv c (NetDatagram bs src # es) =
     (if src \<noteq> cs_server (tcl_state c) then turn_recv c es
      else (case parse_relayed (take 2048 bs) of Some r \<Rightarrow> Inr r | None \<Rightarrow> turn_recv c es))"

section \<open>Requests as attribute lists\<close>

definition req_attr_pair :: "transaction_id \<Rightarrow> req_attr \<Rightarrow> u16 \<times> octets" where
  "req_attr_pair txid attr =
     (case attr of ReqBytes kind value \<Rightarrow> (kind, value) | ReqPeer peer \<Rightarrow> (ATTR_XOR_PEER_ADDRESS, turn_xor_value peer txid))"

definition credential_attrs :: "client_state \<Rightarrow> (u16 \<times> octets) list" where
  "credential_attrs st = [(ATTR_USERNAME, octets_of (lt_username (cs_cred st))), (ATTR_REALM, cs_realm st), (ATTR_NONCE, cs_nonce st)]"

lemma foldl_req_attrs:
  "foldl (add_req_attr tid) (stun_with_len k ty tid as) attrs = stun_with_len k ty tid (as @ map (req_attr_pair tid) attrs)"
proof (induction attrs arbitrary: as)
  case (Cons a attrs)
  have "add_req_attr tid (stun_with_len k ty tid as) a = stun_with_len k ty tid (as @ [req_attr_pair tid a])"
    by (cases a) (simp_all add: add_req_attr_def req_attr_pair_def append_attr_stun append_attr_xor_addr_def)
  with Cons.IH [of "as @ [req_attr_pair tid a]"] show ?case by simp
qed simp

lemma signed_request_stun:
  fixes hmac st tid meth attrs
  defines "ty \<equiv> encode_type meth CLASS_REQUEST" and "as \<equiv> map (req_attr_pair tid) attrs @ credential_attrs st"
  assumes "length tid = 12"
  shows "signed_request hmac st tid meth attrs = stun_octets ty tid (as @ [integrity_attr hmac (lt_key (cs_cred st)) ty tid as])"
  using assms foldl_req_attrs [of tid 0 ty "[]" attrs]
  by (simp add: signed_request_def Let_def request_header_def turn_build credential_attrs_def)

lemma first_allocate_stun:
  "length tid = 12 \<Longrightarrow> first_allocate tid = stun_octets (encode_type METHOD_ALLOCATE CLASS_REQUEST) tid [(ATTR_REQUESTED_TRANSPORT, [17, 0, 0, 0])]"
  by (simp add: first_allocate_def request_header_def turn_build)

lemma send_indication_stun:
  "length tid = 12 \<Longrightarrow> send_indication tid peer data = stun_octets (encode_type METHOD_SEND CLASS_INDICATION) tid
     [(ATTR_XOR_PEER_ADDRESS, turn_xor_value peer tid), (ATTR_DATA, data)]"
  using turn_header_stun [of METHOD_SEND CLASS_INDICATION tid]
  by (simp add: send_indication_def append_attr_xor_addr_def append_attr_data_def turn_header_def turn_build)

end
