(* ===== verification/Turn_Properties.thy ===== *)
theory Turn_Properties
  imports Turn_Invariant Turn_Client
begin

text \<open>
  What the TURN server and client guarantee: nothing is relayed without a signed request of the
  allocation's owner; the relay state stays consistent; every change of it is one of the permitted
  effects; the client's handshake obtains an allocation; datagrams cross the relay unchanged. Two
  theorems show where the code departs from the protocol.
\<close>

section \<open>Relaying needs consent\<close>

lemma permission_consent:
  assumes "turn_reach hmac config ins s" and "allocation_of s c = Some a" and "permission_live a ip now"
  shows "\<exists>j\<in>set ins. \<exists>t. consents hmac (ts_credentials s) j c (al_username a) ip t \<and> now < t + PERMISSION_LIFETIME"
proof -
  from assms(3) obtain e where "al_permissions a ip = Some e" "now < e"
    by (auto simp: permission_live_def split: option.splits)
  then show ?thesis using turn_reach_recorded [OF assms(1,2)] unfolding recorded_def by blast
qed

lemma channel_consent:
  assumes "turn_reach hmac config ins s" and "allocation_of s c = Some a" and "channel_peer a ch now = Some p"
  shows "\<exists>j\<in>set ins. \<exists>t. consents hmac (ts_credentials s) j c (al_username a) (sa_ip p) t \<and> now < t + CHANNEL_LIFETIME"
proof -
  from assms(3) obtain e where "al_channels_to_peer a ch = Some (p, e)" "now < e"
    by (auto simp: channel_peer_def split: option.splits if_splits)
  then show ?thesis using turn_reach_recorded [OF assms(1,2)] unfolding recorded_def by blast
qed

lemma live_allocationD: "live_allocation s c now = Some a \<Longrightarrow> allocation_of s c = Some a \<and> is_live a now"
  by (auto simp: live_allocation_def split: option.splits if_splits)

text \<open>What the relay requires of the allocation before it sends to a peer.\<close>

definition may_send :: "turn_server \<Rightarrow> socket_addr \<Rightarrow> instant \<Rightarrow> socket_addr \<Rightarrow> socket_addr \<Rightarrow> bool" where
  "may_send s client now sock peer \<longleftrightarrow>
     (\<exists>a. allocation_of s client = Some a \<and> is_live a now \<and> sock = al_relay_sock a
        \<and> (permission_live a (sa_ip peer) now \<or> (\<exists>ch. channel_peer a ch now = Some peer)))"

lemma handle_send_to_peer:
  "ToPeer sock peer data \<in> set (handle_send env s msg client) \<Longrightarrow> may_send s client (te_act env) sock peer"
  by (cases "live_allocation s client (te_act env)"; cases "peer_attr msg"; cases "turn_attr msg ATTR_DATA")
    (auto simp: handle_send_def may_send_def dest!: live_allocationD split: if_splits)

lemma handle_channel_data_to_peer:
  "ToPeer sock peer data \<in> set (handle_channel_data env s bs client) \<Longrightarrow> may_send s client (te_act env) sock peer"
  by (cases "live_allocation s client (te_act env)";
      cases "channel_peer (the (live_allocation s client (te_act env))) (from_be (slice 0 2 bs)) (te_act env)")
    (auto simp: handle_channel_data_def may_send_def Let_def dest!: live_allocationD split: if_splits)

lemma dispatch_to_peer:
  "ToPeer sock peer data \<in> set (snd (dispatch hmac env s bs client)) \<Longrightarrow> may_send s client (te_act env) sock peer"
  by (auto simp: dispatch_def Let_def case_prod_unfold split: if_splits option.splits
      dest: handle_send_to_peer handle_channel_data_to_peer)

lemma peer_relay_cases:
  assumes "ToClient c frame \<in> set (snd (relay_step hmac s (FromPeer token peer payload now txid)))" and "turn_inv s"
  obtains a where "allocation_of s c = Some a" "is_live a now" "al_relay_task a = token"
    "permission_live a (sa_ip peer) now"
proof -
  from assms(1) obtain t where t: "List.find (\<lambda>t. rt_token t = token) (ts_tasks s) = Some t"
    by (auto simp: relay_step_def split: option.splits)
  with assms(1) have r: "ToClient c frame \<in> set (relay_peer_to_client s (rt_client t) peer (take 1600 payload) now txid)"
    by (simp add: relay_step_def)
  then have c: "c = rt_client t"
    by (auto simp: relay_peer_to_client_def split: option.splits if_splits)
  from r obtain a where a: "live_allocation s (rt_client t) now = Some a" "permission_live a (sa_ip peer) now"
    by (cases "live_allocation s (rt_client t) now") (auto simp: relay_peer_to_client_def split: if_splits)
  from find_SomeD [OF t] turn_invD(3) [OF assms(2)] live_allocationD [OF a(1)]
  have "al_relay_task a = token" by (auto simp: tasks_ok_def)
  with that [of a] a live_allocationD [OF a(1)] c show thesis by blast
qed

text \<open>Property C23. In every history of the server, a datagram it sends to a peer goes out on the
  relay socket of a live allocation of the client it came from, and a datagram it forwards from a
  peer goes to the owner of the relay socket it came in on; and earlier in the history that client
  sent a request naming the peer's address, tagged with the key of the user who owns the
  allocation, no longer ago than the channel lifetime (ten minutes) in the first direction and the
  permission lifetime (five minutes) in the second.\<close>

theorem turn_relays_by_consent:
  assumes "turn_reach hmac config ins s"
  shows "(\<forall>sock peer data env bs client. ToPeer sock peer data \<in> set (snd (relay_step hmac s (FromClient env bs client))) \<longrightarrow>
      (\<exists>a. allocation_of s client = Some a \<and> is_live a (te_act env) \<and> sock = al_relay_sock a
        \<and> (\<exists>j\<in>set ins. \<exists>t. consents hmac (ts_credentials (turn_new config)) j client (al_username a) (sa_ip peer) t
             \<and> te_act env < t + CHANNEL_LIFETIME)))
    \<and> (\<forall>c frame token peer payload now txid. ToClient c frame \<in> set (snd (relay_step hmac s (FromPeer token peer payload now txid))) \<longrightarrow>
      (\<exists>a. allocation_of s c = Some a \<and> is_live a now \<and> al_relay_task a = token
        \<and> (\<exists>j\<in>set ins. \<exists>t. consents hmac (ts_credentials (turn_new config)) j c (al_username a) (sa_ip peer) t
             \<and> now < t + PERMISSION_LIFETIME)))"
proof (intro conjI allI impI)
  fix sock peer data env bs client
  assume "ToPeer sock peer data \<in> set (snd (relay_step hmac s (FromClient env bs client)))"
  then have "may_send s client (te_act env) sock peer"
    by (auto simp: relay_step_def dest: dispatch_to_peer split: if_splits)
  then obtain a where a: "allocation_of s client = Some a" "is_live a (te_act env)" "sock = al_relay_sock a"
    and why: "permission_live a (sa_ip peer) (te_act env) \<or> (\<exists>ch. channel_peer a ch (te_act env) = Some peer)"
    unfolding may_send_def by blast
  have shorter: "te_act env < t + PERMISSION_LIFETIME \<Longrightarrow> te_act env < t + CHANNEL_LIFETIME" for t
    by (simp add: PERMISSION_LIFETIME_def CHANNEL_LIFETIME_def from_secs_def)
  from why have "\<exists>j\<in>set ins. \<exists>t. consents hmac (ts_credentials s) j client (al_username a) (sa_ip peer) t
      \<and> te_act env < t + CHANNEL_LIFETIME"
    using permission_consent [OF assms a(1), of "sa_ip peer" "te_act env"] channel_consent [OF assms a(1)] shorter
    by blast
  then show "\<exists>a. allocation_of s client = Some a \<and> is_live a (te_act env) \<and> sock = al_relay_sock a
      \<and> (\<exists>j\<in>set ins. \<exists>t. consents hmac (ts_credentials (turn_new config)) j client (al_username a) (sa_ip peer) t
           \<and> te_act env < t + CHANNEL_LIFETIME)"
    using a turn_reach_credentials [OF assms] by auto
next
  fix c frame token peer payload now txid
  assume "ToClient c frame \<in> set (snd (relay_step hmac s (FromPeer token peer payload now txid)))"
  from this turn_reach_inv [OF assms] obtain a where
    a: "allocation_of s c = Some a" "is_live a now" "al_relay_task a = token" "permission_live a (sa_ip peer) now"
    by (rule peer_relay_cases)
  then show "\<exists>a. allocation_of s c = Some a \<and> is_live a now \<and> al_relay_task a = token
      \<and> (\<exists>j\<in>set ins. \<exists>t. consents hmac (ts_credentials (turn_new config)) j c (al_username a) (sa_ip peer) t
           \<and> now < t + PERMISSION_LIFETIME)"
    using permission_consent [OF assms a(1,4)] turn_reach_credentials [OF assms] by auto
qed

section \<open>Datagrams cross the relay\<close>

text \<open>How the server takes in a message made of these attributes.\<close>

lemma serve_stun:
  assumes "ts_serving s" and "length tid = 12" and "length (body_octets as) \<le> 2028"
  shows "relay_step hmac s (FromClient env (stun_octets (encode_type m c) tid as) client) =
    dispatch hmac env s (stun_octets (encode_type m c) tid as) client"
    and "turn_parse (stun_octets ty tid as) = Some (turn_view ty tid as)"
proof -
  have len: "length (body_octets as) < 2 ^ 16" using assms(3) by simp
  show "turn_parse (stun_octets ty tid as) = Some (turn_view ty tid as)"
    by (rule turn_parse_stun [OF assms(2) len])
  show "relay_step hmac s (FromClient env (stun_octets (encode_type m c) tid as) client) =
      dispatch hmac env s (stun_octets (encode_type m c) tid as) client"
    using assms stun_octets_fields(6) [OF assms(2) len, of "encode_type m c"] by (simp add: relay_step_def)
qed

lemma class_neqs [simp]:
  "CLASS_INDICATION \<noteq> CLASS_REQUEST" "CLASS_REQUEST \<noteq> CLASS_INDICATION" "CLASS_SUCCESS \<noteq> CLASS_ERROR" "CLASS_ERROR \<noteq> CLASS_SUCCESS"
  by (simp_all add: turn_classes)

lemma serve_send_indication:
  assumes "ts_serving s" and "addr_ok peer" and "length tid = 12" and "length data \<le> 1600"
  shows "relay_step hmac s (FromClient env (send_indication tid peer data) client) =
    (s, case live_allocation s client (te_act env) of
          None \<Rightarrow> []
        | Some a \<Rightarrow> if permission_live a (sa_ip peer) (te_act env) then [ToPeer (al_relay_sock a) peer data] else [])"
proof -
  let ?as = "[(ATTR_XOR_PEER_ADDRESS, turn_xor_value peer tid), (ATTR_DATA, data)]"
  have xor: "length (turn_xor_value peer tid) \<le> 20" "attr_pad (length (turn_xor_value peer tid)) = 0"
    using length_turn_xor_value [OF assms(2,3)] assms(2) by (auto simp: addr_ok_def attr_pad_def)
  have "length (body_octets ?as) \<le> 2028"
    using xor assms(4) attr_pad_le [of "length data"] by (simp add: length_attr_octets)
  note serve = serve_stun [OF assms(1,3) this]
  have small: "small_attrs ?as" using xor assms(4) by simp
  have "turn_attr (turn_view ty tid ?as) ATTR_XOR_PEER_ADDRESS = Some (turn_xor_value peer tid)"
       "turn_attr (turn_view ty tid ?as) ATTR_DATA = Some data" for ty
    unfolding turn_attr_view [OF small] by (simp_all add: turn_attrs)
  then show ?thesis
    using turn_xor_roundtrip [OF assms(2,3)]
    by (simp add: send_indication_stun [OF assms(3)] serve(1) dispatch_def turn_first_octet serve(2) handle_send_def peer_attr_def
        split: option.splits)
qed

lemma serve_send_channel:
  assumes "ts_serving s" and "channel_ok ch" and "length data \<le> 1600"
  shows "relay_step hmac s (FromClient env (send_channel ch data) client) =
    (s, case live_allocation s client (te_act env) of
          None \<Rightarrow> []
        | Some a \<Rightarrow> (case channel_peer a ch (te_act env) of None \<Rightarrow> [] | Some p \<Rightarrow> [ToPeer (al_relay_sock a) p data]))"
proof -
  have "length data < 2 ^ 16" using assms(3) by simp
  note f = channel_frame_fields [OF this, of ch]
  have "take 2048 (send_channel ch data) = channel_data_frame ch data" using assms(3) f by (simp add: send_channel_def)
  then show ?thesis
    using assms(1,2) f by (simp add: relay_step_def dispatch_def handle_channel_data_def channel_first_octet Let_def send_channel_def)
qed

lemma find_distinct:
  "distinct (map f xs) \<Longrightarrow> x \<in> set xs \<Longrightarrow> List.find (\<lambda>y. f y = f x) xs = Some x"
  by (induction xs) (auto simp: rev_image_eqI)

lemma peer_channel_sound:
  assumes "channels_ok a" and "peer_channel a peer now = Some ch"
  shows "channel_peer a ch now = Some peer \<and> channel_ok ch"
proof -
  from assms(2) have p: "al_peer_to_channel a peer = Some ch" and l: "channel_peer a ch now \<noteq> None"
    by (auto simp: peer_channel_def split: option.splits)
  from channels_okD(2) [OF assms(1) p] obtain e where c: "al_channels_to_peer a ch = Some (peer, e)" ..
  with l channels_okD(1) [OF assms(1) c] show ?thesis by (auto simp: channel_peer_def split: if_splits)
qed

text \<open>Property C26. A payload of at most 1600 octets crosses the relay unchanged. What a client sends in
  a Send indication or on a channel leaves the relay socket towards the peer the client named, or
  the peer the channel is bound to, exactly when the client has a live allocation that permits the
  address, or binds the channel; nothing else in the server changes. What a permitted peer sends to
  the relay socket reaches the client as one datagram, which the client reads as the same payload
  from the same peer: on the channel bound to that peer when there is one, otherwise with the
  peer's address.\<close>

theorem turn_datagrams_cross:
  assumes "turn_inv s" and "addr_ok peer" and "length txid = 12" and "length data \<le> 1600"
  shows "(ts_serving s \<longrightarrow> relay_step hmac s (FromClient env (send_indication txid peer data) client) =
      (s, case live_allocation s client (te_act env) of
            None \<Rightarrow> []
          | Some a \<Rightarrow> if permission_live a (sa_ip peer) (te_act env) then [ToPeer (al_relay_sock a) peer data] else []))
    \<and> (ts_serving s \<and> channel_ok ch \<longrightarrow> relay_step hmac s (FromClient env (send_channel ch data) client) =
      (s, case live_allocation s client (te_act env) of
            None \<Rightarrow> []
          | Some a \<Rightarrow> (case channel_peer a ch (te_act env) of None \<Rightarrow> [] | Some p \<Rightarrow> [ToPeer (al_relay_sock a) p data])))
    \<and> (\<forall>t a. t \<in> set (ts_tasks s) \<and> live_allocation s (rt_client t) now = Some a \<and> permission_live a (sa_ip peer) now \<longrightarrow>
         (\<exists>frame. relay_step hmac s (FromPeer (rt_token t) peer data now txid) = (s, [ToClient (rt_client t) frame])
            \<and> (case peer_channel a peer now of
                 Some c \<Rightarrow> parse_relayed frame = Some (RelChannel c data) \<and> channel_peer a c now = Some peer
               | None \<Rightarrow> parse_relayed frame = Some (RelData peer data))))"
proof (intro conjI impI allI)
  fix t a assume "t \<in> set (ts_tasks s) \<and> live_allocation s (rt_client t) now = Some a \<and> permission_live a (sa_ip peer) now"
  then have t: "t \<in> set (ts_tasks s)" and a: "live_allocation s (rt_client t) now = Some a"
    and p: "permission_live a (sa_ip peer) now" by auto
  have "distinct (map rt_token (ts_tasks s))" using turn_invD(3) [OF assms(1)] by (simp add: tasks_ok_def)
  with t have "List.find (\<lambda>t'. rt_token t' = rt_token t) (ts_tasks s) = Some t"
    by (rule find_distinct [rotated])
  then have step: "relay_step hmac s (FromPeer (rt_token t) peer data now txid) =
      (s, relay_peer_to_client s (rt_client t) peer data now txid)"
    using assms(4) by (simp add: relay_step_def)
  have chan: "channels_ok a" using turn_invD(2) [OF assms(1)] live_allocationD [OF a] by blast
  show "\<exists>frame. relay_step hmac s (FromPeer (rt_token t) peer data now txid) = (s, [ToClient (rt_client t) frame])
      \<and> (case peer_channel a peer now of
           Some c \<Rightarrow> parse_relayed frame = Some (RelChannel c data) \<and> channel_peer a c now = Some peer
         | None \<Rightarrow> parse_relayed frame = Some (RelData peer data))"
    unfolding step
    using a p peer_channel_sound [OF chan, of peer now] relayed_channel [of _ data] relayed_data [OF assms(2,3), of data] assms(4)
    by (auto simp: relay_peer_to_client_def split: option.splits)
qed (use serve_send_indication [OF _ assms(2-4)] serve_send_channel [OF _ _ assms(4)] in auto)

section \<open>The relay state\<close>

text \<open>Property C24. In every history of the server: a client has at most one allocation; in each
  allocation the channels and the peers bound to them determine each other and every channel number
  is between 0x4000 and 0x7FFF; every running relay task serves the allocation of its client and is
  the task that allocation names, so no task outlives its allocation and no allocation has two; the
  gauge of active allocations is their number.\<close>

theorem turn_relay_state_consistent:
  assumes "turn_reach hmac config ins s"
  shows "distinct (map fst (ts_allocations s))
    \<and> (\<forall>c a. allocation_of s c = Some a \<longrightarrow>
         (\<forall>ch p e. al_channels_to_peer a ch = Some (p, e) \<longrightarrow>
            al_peer_to_channel a p = Some ch \<and> CHANNEL_MIN \<le> ch \<and> ch \<le> CHANNEL_MAX)
         \<and> (\<forall>p ch. al_peer_to_channel a p = Some ch \<longrightarrow> (\<exists>e. al_channels_to_peer a ch = Some (p, e))))
    \<and> (\<forall>t\<in>set (ts_tasks s). \<exists>a. allocation_of s (rt_client t) = Some a
         \<and> al_relay_task a = rt_token t \<and> al_relay_sock a = rt_sock t)
    \<and> (\<forall>t\<in>set (ts_tasks s). \<forall>u\<in>set (ts_tasks s). rt_client t = rt_client u \<longrightarrow> t = u)
    \<and> (\<forall>m. ts_metrics s = Some m \<longrightarrow> tm_active m = int (length (ts_allocations s)))"
proof -
  note inv = turn_reach_inv [OF assms]
  note d = turn_invD [OF inv]
  have one: "t = u" if "t \<in> set (ts_tasks s)" "u \<in> set (ts_tasks s)" "rt_client t = rt_client u" for t u
  proof -
    note tu = that
    obtain a b where "allocation_of s (rt_client t) = Some a" "al_relay_task a = rt_token t"
      "allocation_of s (rt_client u) = Some b" "al_relay_task b = rt_token u"
      using tu(1,2) d(3) unfolding tasks_ok_def by blast
    then have "rt_token t = rt_token u" using that(3) by simp
    moreover have "inj_on rt_token (set (ts_tasks s))" using d(3) by (simp add: tasks_ok_def distinct_map)
    ultimately show ?thesis using that(1,2) by (simp add: inj_on_def)
  qed
  have chans: "al_peer_to_channel a p = Some ch \<and> CHANNEL_MIN \<le> ch \<and> ch \<le> CHANNEL_MAX"
    if "allocation_of s c = Some a" "al_channels_to_peer a ch = Some (p, e)" for c a ch p e
    using channels_okD(1) [OF d(2) [OF that(1)] that(2)] by (simp add: channel_ok_def)
  have peers: "\<exists>e. al_channels_to_peer a ch = Some (p, e)"
    if "allocation_of s c = Some a" "al_peer_to_channel a p = Some ch" for c a ch p
    using channels_okD(2) [OF d(2) [OF that(1)] that(2)] .
  have tasks: "\<forall>t\<in>set (ts_tasks s). \<exists>a. allocation_of s (rt_client t) = Some a
      \<and> al_relay_task a = rt_token t \<and> al_relay_sock a = rt_sock t"
    using d(3) by (simp add: tasks_ok_def)
  have gauge: "\<forall>m. ts_metrics s = Some m \<longrightarrow> tm_active m = int (length (ts_allocations s))"
    using d(4) by (simp add: gauge_ok_def)
  show ?thesis
    using chans peers one by (intro conjI d(1) tasks gauge) simp_all
qed

text \<open>Property C25. Whatever datagram arrives, the state the server goes to is one the abstract
  relation allows: the relay state is untouched (challenges and outcome counters apart), or the
  datagram is a request tagged with the key of the user it names and installs an allocation for its
  sender where there is no live one, or it is tagged with the key of the owner of the sender's live
  allocation and releases it, extends it, permits the peers it names or binds the channel it
  names.\<close>

theorem turn_dispatch_refines:
  "case request_of bs of
     None \<Rightarrow> fst (dispatch hmac env s bs client) = s
   | Some msg \<Rightarrow> turn_effect hmac env msg client s (fst (dispatch hmac env s bs client))"
  using dispatch_effect [of bs hmac env s client] by (auto split: option.splits)

section \<open>Error replies\<close>

lemma raw_method_mask: "raw_method ty AND 0x0F7F = raw_method ty \<longleftrightarrow> \<not> bit (raw_method ty) 7"
proof -
  have "raw_method ty AND 0x0F7F = unset_bit 7 (raw_method ty)"
  proof (rule bit_word_eqI)
    fix n assume "n < LENGTH(16)"
    from below_16 [OF this] show "bit (raw_method ty AND 0x0F7F) n = bit (unset_bit 7 (raw_method ty)) n"
      by (elim bit_cases) (simp_all add: raw_method_def bit_simps)
  qed
  moreover have "unset_bit 7 w = w \<longleftrightarrow> \<not> bit w 7" for w :: u16
    by (metis bit_unset_bit_iff bit_eqI)
  ultimately show ?thesis by simp
qed

text \<open>Result. The reply to a request of an unknown method carries the request's transaction id and
  the error class, and the method of the request exactly when bit 7 of the method is clear: the
  encoder drops that bit, the parser reads it.\<close>

theorem turn_error_reply_method:
  assumes "length tid = 12" and "length reason \<le> 1000"
  shows "\<exists>p. turn_parse (build_error (raw_method ty) tid err reason) = Some p
    \<and> pt_class p = CLASS_ERROR \<and> pt_txid p = tid
    \<and> (pt_method p = raw_method ty \<longleftrightarrow> \<not> bit (raw_method ty) 7)"
proof -
  have "length (body_octets [(ATTR_ERROR_CODE, [0, 0, ucast (err div 100), ucast (err mod 100)] @ octets_of reason)]) < 2 ^ 16"
    using assms(2) attr_pad_le [of "Suc (Suc (Suc (Suc (length reason))))"] by (simp add: length_attr_octets)
  then show ?thesis
    unfolding build_error_stun [OF assms(1)]
    by (simp add: turn_parse_stun [OF assms(1)] type_method_encoded raw_method_mask)
qed

theorem turn_error_reply_method_witness:
  "\<exists>p. turn_parse (build_error 0x080 (replicate 12 1) 400 ''Bad Request'') = Some p \<and> pt_method p \<noteq> 0x080"
proof -
  have "raw_method 0x0200 = 0x080" by (simp add: raw_method_def)
  with turn_error_reply_method [of "replicate 12 1" "''Bad Request''" "0x0200" 400] show ?thesis by auto
qed

end
