(* ===== verification/Turn_Session.thy ===== *)
theory Turn_Session
  imports Turn_Properties
begin

text \<open>
  The TURN client against the TURN server: with the server as its network, the client's allocation
  handshake, permission and channel requests succeed and leave both sides with the same relay
  address, lifetime, permissions and channels. The last section shows what an attribute appended
  after the integrity tag does.
\<close>

section \<open>The server as the client's network\<close>

text \<open>Each datagram of the client is one step of the server, in the next of the given environments;
  the client receives the replies.\<close>

definition turn_net :: "hmac_fun \<Rightarrow> socket_addr \<Rightarrow> socket_addr \<Rightarrow> (turn_server \<times> turn_env list) network" where
  "turn_net hmac server client w msg =
     (case w of
        (s, []) \<Rightarrow> (w, None)
      | (s, env # envs) \<Rightarrow>
          let (s', outs) = relay_step hmac s (FromClient env msg client)
          in ((s', envs), Some (List.map_filter (\<lambda>out. case out of
                ToClient c r \<Rightarrow> if c = client then Some (NetDatagram r server) else None
              | ToPeer _ _ _ \<Rightarrow> None) outs)))"

lemma exchange_net:
  assumes "relay_step hmac s (FromClient env msg client) = (s', [ToClient client r])"
    and "turn_parse r = Some p" and "pt_txid p = txid" and "pt_class p = CLASS_SUCCESS \<or> pt_class p = CLASS_ERROR"
    and "length r \<le> 2048"
  shows "exchange (turn_net hmac server client) (s, env # envs) server msg txid = ((s', envs), Inr r)"
  using assms by (simp add: exchange_def turn_net_def map_filter_def)

lemma transact_round:
  assumes "exchange net w (cs_server st) (signed_request hmac st (txids 0) meth attrs) (txids 0) = (w', Inr resp)"
    and "owned_error resp = None"
  shows "transact hmac net w txids st meth attrs = (w', st, Inr resp)"
  using assms by (simp add: transact_def transact_from.simps)

section \<open>Messages with bounded attributes\<close>

definition fits :: "(u16 \<times> octets) list \<Rightarrow> bool" where
  "fits as \<longleftrightarrow> length (body_octets as) \<le> 2028"

lemma attr_octets_le: "length (attr_octets a) \<le> length (snd a) + 7"
  using attr_pad_le [of "length (snd a)"] by (simp add: length_attr_octets)

lemma fits_small: "fits as \<Longrightarrow> small_attrs as"
proof -
  have "small_attrs as" if "length (body_octets as) < 2 ^ 16" for as
    using that by (induction as) (auto simp: length_attr_octets)
  then show "fits as \<Longrightarrow> small_attrs as" by (simp add: fits_def)
qed

lemma fits_parse:
  assumes "length tid = 12" and "fits as"
  shows "turn_parse (stun_octets ty tid as) = Some (turn_view ty tid as)" "length (stun_octets ty tid as) \<le> 2048"
proof -
  have "length (body_octets as) < 2 ^ 16" using assms(2) by (simp add: fits_def)
  note f = turn_parse_stun [OF assms(1) this] stun_octets_fields(6) [OF assms(1) this]
  show "turn_parse (stun_octets ty tid as) = Some (turn_view ty tid as)" "length (stun_octets ty tid as) \<le> 2048"
    using f assms(2) by (simp_all add: fits_def)
qed

lemma fits_attr: "fits as \<Longrightarrow> turn_attr (turn_view ty tid as) k = map_of as k"
  by (simp add: turn_attr_view fits_small)

lemma owned_attr_stun: "length tid = 12 \<Longrightarrow> fits as \<Longrightarrow> owned_attr (stun_octets ty tid as) k = map_of as k"
  by (simp add: owned_attr_def fits_parse fits_attr)

lemma owned_error_success:
  "length tid = 12 \<Longrightarrow> fits as \<Longrightarrow> owned_error (stun_octets (encode_type m CLASS_SUCCESS) tid as) = None"
  by (simp add: owned_error_def fits_parse)

section \<open>Authentication\<close>

text \<open>The attributes of a request, then its tag.\<close>

definition tagged :: "hmac_fun \<Rightarrow> octets \<Rightarrow> u16 \<Rightarrow> transaction_id \<Rightarrow> (u16 \<times> octets) list \<Rightarrow> (u16 \<times> octets) list" where
  "tagged hmac key ty tid as = as @ [integrity_attr hmac key ty tid as]"

lemma map_of_tagged:
  "k \<noteq> ATTR_MESSAGE_INTEGRITY \<Longrightarrow> map_of (tagged hmac key ty tid as) k = map_of as k"
  by (simp add: tagged_def integrity_attr_def map_add_def split: option.split)

lemma map_of_tagged_MI: "map_of (tagged hmac key ty tid as) ATTR_MESSAGE_INTEGRITY \<noteq> None"
  by (simp add: tagged_def integrity_attr_def map_add_def split: option.split)

lemma fits_tagged:
  "hmac_ok hmac \<Longrightarrow> fits (tagged hmac key ty tid as) \<longleftrightarrow> length (body_octets as) + 24 \<le> 2028"
  by (simp add: fits_def tagged_def integrity_attr_def length_attr_octets hmac_ok_def INTEGRITY_LEN_def)

lemma verify_tagged:
  assumes "hmac_ok hmac" and "length tid = 12" and "fits (tagged hmac key ty tid as)"
    and "ATTR_MESSAGE_INTEGRITY \<notin> fst ` set as"
  shows "turn_verify_integrity hmac (stun_octets ty tid (tagged hmac key ty tid as)) key"
proof -
  let ?v = "hmac key (stun_with_len (length (body_octets as) + 24) ty tid as)"
  have v: "length ?v = 20" using assms(1) by (simp add: hmac_ok_def INTEGRITY_LEN_def)
  have as: "small_attrs as" using fits_small [OF assms(3)] by (simp add: tagged_def)
  have "length (body_octets (as @ (ATTR_MESSAGE_INTEGRITY, ?v) # [])) < 2 ^ 16"
    using assms(3) by (simp add: fits_def tagged_def integrity_attr_def)
  from turn_verify_stun [OF assms(2) as assms(4) v this, of hmac ty key] show ?thesis
    by (simp add: tagged_def integrity_attr_def)
qed

lemma authenticate_ok:
  assumes "hmac_ok hmac" and "length tid = 12" and "fits (tagged hmac (lt_key cred) ty tid as)"
    and "ATTR_MESSAGE_INTEGRITY \<notin> fst ` set as"
    and "map_of as ATTR_USERNAME = Some (octets_of user)" and "valid_utf8 user"
    and "map_of as ATTR_REALM = Some (octets_of (tcf_realm (ts_config s)))" and "valid_utf8 (tcf_realm (ts_config s))"
    and "map_of as ATTR_NONCE = Some (octets_of nonce)" and "valid_utf8 nonce"
    and "nonce_valid env s client nonce" and "ts_credentials s user = Some cred"
  shows "authenticate hmac env s (turn_view ty tid (tagged hmac (lt_key cred) ty tid as)) client =
    (s, Inr \<lparr> au_username = user, au_key = lt_key cred, au_nonce = nonce \<rparr>)"
proof -
  let ?msg = "turn_view ty tid (tagged hmac (lt_key cred) ty tid as)"
  have neq: "ATTR_USERNAME \<noteq> ATTR_MESSAGE_INTEGRITY" "ATTR_REALM \<noteq> ATTR_MESSAGE_INTEGRITY" "ATTR_NONCE \<noteq> ATTR_MESSAGE_INTEGRITY"
    by (simp_all add: turn_attrs)
  have "utf8_attr ?msg ATTR_USERNAME = Some user" "utf8_attr ?msg ATTR_REALM = Some (tcf_realm (ts_config s))"
    "utf8_attr ?msg ATTR_NONCE = Some nonce" "turn_attr ?msg ATTR_MESSAGE_INTEGRITY \<noteq> None"
    using assms(5-10) map_of_tagged_MI by (simp_all add: utf8_attr_def fits_attr [OF assms(3)] map_of_tagged neq)
  then show ?thesis
    using verify_tagged [OF assms(1-4)] assms(11,12) by (auto simp: authenticate_def)
qed

section \<open>The challenge\<close>

lemma fresh_nonce_ascii: "is_ascii (fresh_nonce r)"
proof -
  have digit: "code (''0123456789abcdef'' ! i) < 128" if "i < 16" for i
  proof -
    have "list_all (\<lambda>c. code c < 128) ''0123456789abcdef''" by simp
    moreover have "i < length ''0123456789abcdef''" using that by simp
    ultimately show ?thesis by (meson list_all_length)
  qed
  have hi: "unat (drop_bit 4 (b :: u8)) < 16" for b
    using unsigned_less [where ?'a = nat, of b] by (simp add: drop_bit_eq_div unat_div_distrib less_mult_imp_div_less)
  have lo: "unat ((b :: u8) AND 0x0F) < 16" for b
  proof -
    have "b AND 0x0F = take_bit 4 b" by (simp add: take_bit_eq_mask mask_eq_exp_minus_1)
    then have "unat (b AND 0x0F) = unat b mod 16" by (simp add: take_bit_eq_mod unat_mod_distrib)
    then show ?thesis by simp
  qed
  show ?thesis
    using digit [OF hi] digit [OF lo] by (auto simp: is_ascii_def fresh_nonce_def nonce_digit_def)
qed

lemma length_fresh_nonce: "length (fresh_nonce r) = 2 * length r"
  by (induction r) (simp_all add: fresh_nonce_def)

definition challenge_attrs :: "bytes \<Rightarrow> bytes \<Rightarrow> (u16 \<times> octets) list" where
  "challenge_attrs realm nonce = [(ATTR_ERROR_CODE, [0, 0, 4, 1] @ octets_of ''Unauthorized''),
     (ATTR_REALM, octets_of realm), (ATTR_NONCE, octets_of nonce)]"

lemma build_challenge_401:
  "length tid = 12 \<Longrightarrow> build_challenge m tid 401 realm nonce = stun_octets (encode_type m CLASS_ERROR) tid (challenge_attrs realm nonce)"
  by (simp add: build_challenge_stun challenge_attrs_def)

lemma fits_challenge:
  assumes "length realm \<le> 500" and "length nonce \<le> 500"
  shows "fits (challenge_attrs realm nonce)"
  using assms attr_octets_le [of "(ATTR_REALM, octets_of realm)"] attr_octets_le [of "(ATTR_NONCE, octets_of nonce)"]
    attr_octets_le [of "(ATTR_ERROR_CODE, [0, 0, 4, 1] @ octets_of ''Unauthorized'')"]
  by (simp add: fits_def challenge_attrs_def)

lemma owned_error_challenge:
  assumes "length tid = 12" and "fits (challenge_attrs realm nonce)"
  shows "\<exists>reason. owned_error (stun_octets (encode_type m CLASS_ERROR) tid (challenge_attrs realm nonce)) = Some (401, reason)"
  using assms by (simp add: owned_error_def fits_parse fits_attr) (simp add: challenge_attrs_def)

lemma serve_first_allocate:
  assumes "ts_serving s" and "length tid = 12"
  shows "relay_step hmac s (FromClient env (first_allocate tid) client) =
    (bump_alloc (fst (issue_nonce env s client)) AoChallenged,
     [ToClient client (build_challenge METHOD_ALLOCATE tid 401 (tcf_realm (ts_config s)) (fresh_nonce (te_random env)))])"
proof -
  let ?as = "[(ATTR_REQUESTED_TRANSPORT, [17, 0, 0, 0] :: octets)]"
  have f: "fits ?as" using attr_octets_le [of "hd ?as"] by (simp add: fits_def)
  have a: "turn_attr (turn_view ty tid ?as) ATTR_REQUESTED_TRANSPORT = Some [17, 0, 0, 0]"
    "turn_attr (turn_view ty tid ?as) ATTR_MESSAGE_INTEGRITY = None" for ty
    unfolding fits_attr [OF f] by (simp_all add: turn_attrs)
  show ?thesis
    unfolding first_allocate_stun [OF assms(2)] serve_stun(1) [OF assms(1,2) f [unfolded fits_def]]
    using fits_parse(1) [OF assms(2) f] a
    by (simp add: dispatch_def turn_first_octet handle_allocate_def transport_ok_def authenticate_def issue_nonce_def Let_def)
qed

section \<open>Signed requests\<close>

text \<open>Client and server know the same user, realm and nonce, each of at most 500 octets.\<close>

definition agrees :: "turn_server \<Rightarrow> client_state \<Rightarrow> bytes \<Rightarrow> bool" where
  "agrees s st nonce \<longleftrightarrow>
     ts_credentials s (lt_username (cs_cred st)) = Some (cs_cred st)
     \<and> cs_realm st = octets_of (tcf_realm (ts_config s)) \<and> cs_nonce st = octets_of nonce
     \<and> list_all (\<lambda>x. valid_utf8 x \<and> length x \<le> 500) [lt_username (cs_cred st), tcf_realm (ts_config s), nonce]"

definition plain_attrs :: "(u16 \<times> octets) list \<Rightarrow> bool" where
  "plain_attrs as \<longleftrightarrow> length (body_octets as) \<le> 400
     \<and> fst ` set as \<inter> {ATTR_USERNAME, ATTR_REALM, ATTR_NONCE, ATTR_MESSAGE_INTEGRITY} = {}"

definition request_attrs :: "client_state \<Rightarrow> transaction_id \<Rightarrow> req_attr list \<Rightarrow> (u16 \<times> octets) list" where
  "request_attrs st tid attrs = map (req_attr_pair tid) attrs @ credential_attrs st"

abbreviation request_type :: "u16 \<Rightarrow> u16" where "request_type m \<equiv> encode_type m CLASS_REQUEST"

abbreviation request_tagged where
  "request_tagged hmac st tid m attrs \<equiv>
     tagged hmac (lt_key (cs_cred st)) (request_type m) tid (request_attrs st tid attrs)"

lemma signed_request_tagged:
  "length tid = 12 \<Longrightarrow> signed_request hmac st tid m attrs = stun_octets (request_type m) tid (request_tagged hmac st tid m attrs)"
  by (simp add: signed_request_stun tagged_def request_attrs_def)

lemma request_attr_lookup:
  assumes "plain_attrs (map (req_attr_pair tid) attrs)"
  shows "map_of (request_attrs st tid attrs) ATTR_USERNAME = Some (octets_of (lt_username (cs_cred st)))"
    "map_of (request_attrs st tid attrs) ATTR_REALM = Some (cs_realm st)"
    "map_of (request_attrs st tid attrs) ATTR_NONCE = Some (cs_nonce st)"
    "ATTR_MESSAGE_INTEGRITY \<notin> fst ` set (request_attrs st tid attrs)"
proof -
  have none: "map_of (map (req_attr_pair tid) attrs) k = None"
    if "k \<in> {ATTR_USERNAME, ATTR_REALM, ATTR_NONCE, ATTR_MESSAGE_INTEGRITY}" for k
    using assms that unfolding plain_attrs_def map_of_eq_None_iff by blast
  have pick: "map_of (xs @ ys) k = map_of ys k" if "map_of xs k = None" for xs ys :: "(u16 \<times> octets) list" and k
    using that by (simp add: map_add_def split: option.split)
  show "map_of (request_attrs st tid attrs) ATTR_USERNAME = Some (octets_of (lt_username (cs_cred st)))"
    "map_of (request_attrs st tid attrs) ATTR_REALM = Some (cs_realm st)"
    "map_of (request_attrs st tid attrs) ATTR_NONCE = Some (cs_nonce st)"
    unfolding request_attrs_def by (subst pick; simp add: none credential_attrs_def turn_attrs)+
  show "ATTR_MESSAGE_INTEGRITY \<notin> fst ` set (request_attrs st tid attrs)"
    using none [of ATTR_MESSAGE_INTEGRITY] unfolding request_attrs_def
    by (simp add: map_of_eq_None_iff credential_attrs_def turn_attrs)
qed

lemma fits_request:
  assumes "hmac_ok hmac" and "agrees s st nonce" and "plain_attrs (map (req_attr_pair tid) attrs)"
  shows "fits (request_tagged hmac st tid m attrs)"
proof -
  have "length (body_octets (credential_attrs st)) \<le> 1521"
    using assms(2) attr_octets_le [of "(ATTR_USERNAME, octets_of (lt_username (cs_cred st)))"]
      attr_octets_le [of "(ATTR_REALM, cs_realm st)"] attr_octets_le [of "(ATTR_NONCE, cs_nonce st)"]
    by (simp add: credential_attrs_def agrees_def)
  then show ?thesis
    using assms(3) by (simp add: fits_tagged [OF assms(1)] request_attrs_def plain_attrs_def)
qed

lemma request_authenticates:
  assumes "hmac_ok hmac" and "length tid = 12" and "agrees s st nonce" and "nonce_valid env s client nonce"
    and "plain_attrs (map (req_attr_pair tid) attrs)"
  shows "authenticate hmac env s (turn_view (request_type m) tid (request_tagged hmac st tid m attrs)) client =
    (s, Inr \<lparr> au_username = lt_username (cs_cred st), au_key = lt_key (cs_cred st), au_nonce = nonce \<rparr>)"
  using authenticate_ok [OF assms(1,2) fits_request [OF assms(1,3,5)], of "lt_username (cs_cred st)" s nonce env client]
    request_attr_lookup [OF assms(5), of st] assms(3,4)
  by (simp add: agrees_def)

lemma serve_request:
  assumes "hmac_ok hmac" and "ts_serving s" and "length tid = 12" and "agrees s st nonce"
    and "plain_attrs (map (req_attr_pair tid) attrs)"
  shows "relay_step hmac s (FromClient env (signed_request hmac st tid m attrs) client) =
    dispatch hmac env s (stun_octets (request_type m) tid (request_tagged hmac st tid m attrs)) client"
    and "turn_parse (stun_octets (request_type m) tid (request_tagged hmac st tid m attrs)) =
      Some (turn_view (request_type m) tid (request_tagged hmac st tid m attrs))"
  using serve_stun [OF assms(2,3)] fits_request [OF assms(1,4,5), of m] fits_parse(1) [OF assms(3)]
  by (simp_all add: fits_def signed_request_tagged [OF assms(3)])

lemma request_attr:
  assumes "hmac_ok hmac" and "agrees s st nonce" and "plain_attrs (map (req_attr_pair tid) attrs)"
    and "k \<noteq> ATTR_MESSAGE_INTEGRITY"
  shows "turn_attr (turn_view (request_type m) tid (request_tagged hmac st tid m attrs)) k = map_of (request_attrs st tid attrs) k"
  using assms by (simp add: fits_attr [OF fits_request] map_of_tagged)

section \<open>Allocating\<close>

definition relayed_addr :: "turn_server \<Rightarrow> socket_addr \<Rightarrow> socket_addr" where
  "relayed_addr s sock = \<lparr> sa_ip = tcf_relay_ip (ts_config s), sa_port = sa_port sock \<rparr>"

definition default_lifetime :: "turn_server \<Rightarrow> duration" where
  "default_lifetime s = from_secs (unat (min DEFAULT_LIFETIME_S (secs_u32 (tcf_allocation_lifetime (ts_config s)))))"

lemma serve_signed_allocate:
  assumes "hmac_ok hmac" and "ts_serving s" and "length tid = 12" and "agrees s st nonce" and "nonce_valid env s client nonce"
    and "live_allocation s client (te_act env) = None" and "te_bind env = BoundTo sock"
  shows "relay_step hmac s (FromClient env (signed_request hmac st tid METHOD_ALLOCATE [ReqBytes ATTR_REQUESTED_TRANSPORT [17, 0, 0, 0]]) client) =
    (bump_alloc (install_allocation env s client
       \<lparr> au_username = lt_username (cs_cred st), au_key = lt_key (cs_cred st), au_nonce = nonce \<rparr> sock (default_lifetime s)) AoSuccess,
     [ToClient client (allocate_reply hmac tid (relayed_addr s sock) client (default_lifetime s) (lt_key (cs_cred st)))])"
proof -
  let ?attrs = "[ReqBytes ATTR_REQUESTED_TRANSPORT [17, 0, 0, 0]]"
  let ?msg = "turn_view (request_type METHOD_ALLOCATE) tid (request_tagged hmac st tid METHOD_ALLOCATE ?attrs)"
  have plain: "plain_attrs (map (req_attr_pair tid) ?attrs)"
    using attr_octets_le [of "(ATTR_REQUESTED_TRANSPORT, [17, 0, 0, 0])"]
    by (simp add: plain_attrs_def req_attr_pair_def turn_attrs)
  note auth = request_authenticates [OF assms(1,3,4,5) plain, of METHOD_ALLOCATE]
    and serve = serve_request [OF assms(1,2,3,4) plain]
    and attr = request_attr [OF assms(1,4) plain, of _ METHOD_ALLOCATE]
  have tr: "transport_ok ?msg"
    unfolding transport_ok_def
    by (subst attr; simp add: request_attrs_def credential_attrs_def req_attr_pair_def turn_attrs)
  have "requested_lifetime ?msg = DEFAULT_LIFETIME_S"
    unfolding requested_lifetime_def
    by (subst attr; simp add: request_attrs_def credential_attrs_def req_attr_pair_def turn_attrs)
  then have lt: "lifetime_from_request s ?msg = default_lifetime s"
    by (simp add: lifetime_from_request_def default_lifetime_def)
  have "\<not> (case allocation_of s client of Some a \<Rightarrow> is_live a (te_act env) | None \<Rightarrow> False)"
    using assms(6) by (auto simp: live_allocation_def split: option.splits)
  then have "handle_allocate hmac env s ?msg client =
      (bump_alloc (install_allocation env s client
         \<lparr> au_username = lt_username (cs_cred st), au_key = lt_key (cs_cred st), au_nonce = nonce \<rparr> sock (default_lifetime s)) AoSuccess,
       allocate_reply hmac tid (relayed_addr s sock) client (default_lifetime s) (lt_key (cs_cred st)))"
    by (simp add: handle_allocate_def tr auth assms(7) lt relayed_addr_def Let_def)
  then show ?thesis
    unfolding serve(1) by (simp add: dispatch_def turn_first_octet serve(2))
qed

definition allocate_attrs :: "transaction_id \<Rightarrow> socket_addr \<Rightarrow> socket_addr \<Rightarrow> duration \<Rightarrow> (u16 \<times> octets) list" where
  "allocate_attrs tid relay client lt = [(ATTR_XOR_RELAYED_ADDRESS, turn_xor_value relay tid),
     (ATTR_XOR_MAPPED_ADDRESS, turn_xor_value client tid), (ATTR_LIFETIME, be_bytes 4 (secs_u32 lt))]"

lemma allocate_reply_stun:
  "length tid = 12 \<Longrightarrow> allocate_reply hmac tid relay client lt key =
     stun_octets (encode_type METHOD_ALLOCATE CLASS_SUCCESS) tid
       (tagged hmac key (encode_type METHOD_ALLOCATE CLASS_SUCCESS) tid (allocate_attrs tid relay client lt))"
  by (simp add: allocate_reply_def Let_def build_success_header_def append_attr_xor_addr_def append_attr_lifetime_def
      turn_build tagged_def allocate_attrs_def)

lemma secs_u32_from_secs: "n < 2 ^ 32 \<Longrightarrow> from_secs (unat (secs_u32 (from_secs n))) = from_secs n"
  by (simp add: secs_u32_def from_secs_def unat_of_nat)

lemma read_allocate_reply:
  fixes key :: octets
  assumes "hmac_ok hmac" and "length tid = 12" and "addr_ok relay" and "addr_ok client" and "n < 2 ^ 32"
  defines "r \<equiv> allocate_reply hmac tid relay client (from_secs n) key"
  shows "\<exists>p. turn_parse r = Some p \<and> pt_txid p = tid \<and> pt_class p = CLASS_SUCCESS" "length r \<le> 2048"
    "owned_error r = None" "Option.bind (owned_attr r ATTR_XOR_RELAYED_ADDRESS) (\<lambda>v. decode_xor_addr v (owned_txid r)) = Some relay"
    "owned_lifetime r = Some (from_secs n)"
proof -
  let ?ty = "encode_type METHOD_ALLOCATE CLASS_SUCCESS"
  let ?as = "tagged hmac key ?ty tid (allocate_attrs tid relay client (from_secs n))"
  have "length (turn_xor_value relay tid) \<le> 20" "length (turn_xor_value client tid) \<le> 20"
    using length_turn_xor_value [OF assms(3,2)] length_turn_xor_value [OF assms(4,2)] assms(3,4) by (auto simp: addr_ok_def)
  then have f: "fits ?as"
    using attr_octets_le [of "(ATTR_XOR_RELAYED_ADDRESS, turn_xor_value relay tid)"] attr_octets_le [of "(ATTR_XOR_MAPPED_ADDRESS, turn_xor_value client tid)"]
      attr_octets_le [of "(ATTR_LIFETIME, be_bytes 4 (secs_u32 (from_secs n)))"]
    by (simp add: fits_tagged [OF assms(1)] allocate_attrs_def)
  have r: "r = stun_octets ?ty tid ?as" by (simp add: r_def allocate_reply_stun [OF assms(2)])
  have look: "owned_attr r ATTR_XOR_RELAYED_ADDRESS = Some (turn_xor_value relay tid)"
    "owned_attr r ATTR_LIFETIME = Some (be_bytes 4 (secs_u32 (from_secs n)))"
    unfolding r owned_attr_stun [OF assms(2) f]
    by (subst map_of_tagged; simp add: allocate_attrs_def turn_attrs)+
  show "\<exists>p. turn_parse r = Some p \<and> pt_txid p = tid \<and> pt_class p = CLASS_SUCCESS" "length r \<le> 2048"
    unfolding r using fits_parse [OF assms(2) f] by simp_all
  show "owned_error r = None" unfolding r by (rule owned_error_success [OF assms(2) f])
  have "owned_txid r = tid" unfolding r owned_txid_def fits_parse(1) [OF assms(2) f] by simp
  then show "Option.bind (owned_attr r ATTR_XOR_RELAYED_ADDRESS) (\<lambda>v. decode_xor_addr v (owned_txid r)) = Some relay"
    by (simp add: look turn_xor_roundtrip [OF assms(3,2)])
  show "owned_lifetime r = Some (from_secs n)"
    using secs_u32_from_secs [OF assms(5)] by (simp add: owned_lifetime_def look)
qed

text \<open>Property C27. A client with a registered credential obtains an allocation from the server in two
  exchanges: the first request is answered with a challenge, whose realm and nonce the client adopts;
  the second is tagged with the long-term key, and if it is handled before the nonce is a minute old,
  the client has no live allocation and a relay socket can be bound, it succeeds. Both sides then
  hold the same relay address and lifetime (the smaller of ten minutes and the configured one), and
  the allocation belongs to the user, expires when the lifetime is over, and permits no peer yet.\<close>

theorem turn_allocate_handshake:
  assumes "hmac_ok hmac" and "ts_serving s" and "ts_credentials s (lt_username cred) = Some cred"
    and "valid_utf8 (lt_username cred)" and "length (lt_username cred) \<le> 500"
    and "valid_utf8 (tcf_realm (ts_config s))" and "length (tcf_realm (ts_config s)) \<le> 500"
    and "length txid = 12" and "length (txids 0) = 12" and "length (te_random e1) = 16"
    and "te_check e2 < te_issue e1 + CHALLENGE_LIFETIME"
    and "live_allocation s client (te_act e2) = None" and "te_bind e2 = BoundTo sock"
    and "addr_ok client" and "addr_ok (relayed_addr s sock)"
  shows "\<exists>s' c a. turn_allocate hmac (turn_net hmac server client) (s, [e1, e2]) txid txids server cred = ((s', []), Inr c)
    \<and> tcl_relay_addr c = relayed_addr s sock \<and> tcl_lifetime c = default_lifetime s
    \<and> allocation_of s' client = Some a \<and> al_relay_addr a = tcl_relay_addr c \<and> al_username a = lt_username cred
    \<and> al_expires_at a = te_act e2 + tcl_lifetime c \<and> al_permissions a = Map.empty \<and> al_channels_to_peer a = Map.empty
    \<and> agrees s' (tcl_state c) (al_nonce a)"
proof -
  let ?net = "turn_net hmac server client" and ?realm = "tcf_realm (ts_config s)"
  define nonce where "nonce = fresh_nonce (te_random e1)"
  define s1 where "s1 = bump_alloc (fst (issue_nonce e1 s client)) AoChallenged"
  let ?ch = "build_challenge METHOD_ALLOCATE txid 401 ?realm nonce"
  define st where "st = \<lparr> cs_server = server, cs_cred = cred, cs_realm = octets_of ?realm, cs_nonce = octets_of nonce \<rparr>"
  define n where "n = unat (min DEFAULT_LIFETIME_S (secs_u32 (tcf_allocation_lifetime (ts_config s))))"
  have n: "n < 2 ^ 32" using unsigned_less [where ?'a = nat, of "min DEFAULT_LIFETIME_S (secs_u32 (tcf_allocation_lifetime (ts_config s)))"]
    by (simp add: n_def)
  have nonce: "valid_utf8 nonce" "length nonce = 32"
    by (simp_all add: nonce_def valid_utf8_ascii fresh_nonce_ascii length_fresh_nonce assms(10))
  have f: "fits (challenge_attrs ?realm nonce)" by (rule fits_challenge) (simp_all add: assms(7) nonce)
  note ch = build_challenge_401 [OF assms(8), of METHOD_ALLOCATE ?realm nonce]
  have s1: "ts_serving s1" "ts_config s1 = ts_config s" "ts_credentials s1 = ts_credentials s" "ts_allocations s1 = ts_allocations s"
    "ts_challenges s1 client = Some (nonce, te_issue e1 + CHALLENGE_LIFETIME)"
    by (simp_all add: s1_def bump_alloc_def issue_nonce_def Let_def nonce_def assms(2))
  have step1: "relay_step hmac s (FromClient e1 (first_allocate txid) client) = (s1, [ToClient client ?ch])"
    using serve_first_allocate [OF assms(2,8)] by (simp add: s1_def nonce_def)
  have p1: "turn_parse ?ch = Some (turn_view (encode_type METHOD_ALLOCATE CLASS_ERROR) txid (challenge_attrs ?realm nonce))"
    "length ?ch \<le> 2048"
    using fits_parse [OF assms(8) f] by (simp_all add: ch)
  have x1: "exchange ?net (s, [e1, e2]) server (first_allocate txid) txid = ((s1, [e2]), Inr ?ch)"
    using exchange_net [OF step1 p1(1) _ _ p1(2)] by simp
  obtain reason where err: "owned_error ?ch = Some (401, reason)"
    using owned_error_challenge [OF assms(8) f] unfolding ch by blast
  have adopt: "adopt_challenge \<lparr> cs_server = server, cs_cred = cred, cs_realm = [], cs_nonce = [] \<rparr> ?ch = (st, Inr ())"
    unfolding adopt_challenge_def ch owned_attr_stun [OF assms(8) f]
    by (simp add: challenge_attrs_def turn_attrs st_def)
  have agree: "agrees s1 st nonce"
    using assms(3-7) s1 nonce by (simp add: agrees_def st_def)
  have valid: "nonce_valid e2 s1 client nonce" using s1 assms(11) by (simp add: nonce_valid_def)
  have none: "live_allocation s1 client (te_act e2) = None" using assms(12) s1 by (simp add: live_allocation_def)
  let ?auth = "\<lparr> au_username = lt_username (cs_cred st), au_key = lt_key (cs_cred st), au_nonce = nonce \<rparr>"
  define s2 where "s2 = bump_alloc (install_allocation e2 s1 client ?auth sock (default_lifetime s1)) AoSuccess"
  define r where "r = allocate_reply hmac (txids 0) (relayed_addr s sock) client (from_secs n) (lt_key (cs_cred st))"
  have dl: "default_lifetime s1 = from_secs n" "default_lifetime s = from_secs n" "relayed_addr s1 sock = relayed_addr s sock"
    by (simp_all add: default_lifetime_def n_def s1 relayed_addr_def)
  note rd = read_allocate_reply [OF assms(1,9,15,14) n, of "lt_key (cs_cred st)", folded r_def]
  have step2: "relay_step hmac s1 (FromClient e2 (signed_request hmac st (txids 0) METHOD_ALLOCATE
      [ReqBytes ATTR_REQUESTED_TRANSPORT [17, 0, 0, 0]]) client) = (s2, [ToClient client r])"
    using serve_signed_allocate [OF assms(1) s1(1) assms(9) agree valid none assms(13)] by (simp add: s2_def r_def dl)
  from rd(1) obtain p where p: "turn_parse r = Some p" "pt_txid p = txids 0" "pt_class p = CLASS_SUCCESS" by blast
  have "exchange ?net (s1, [e2]) (cs_server st) (signed_request hmac st (txids 0) METHOD_ALLOCATE
      [ReqBytes ATTR_REQUESTED_TRANSPORT [17, 0, 0, 0]]) (txids 0) = ((s2, []), Inr r)"
    using exchange_net [OF step2 p(1,2) _ rd(2)] p(3) by (simp add: st_def)
  note tr = transact_round [where txids = txids, OF this rd(3)]
  have alloc: "allocation_of s2 client = Some (fresh_allocation e2 s1 ?auth sock (from_secs n))"
    using dl by (simp add: s2_def bump_alloc_def install_allocations update_conv')
  have conf: "ts_config s2 = ts_config s" "ts_credentials s2 = ts_credentials s"
    by (simp_all add: s2_def bump_alloc_def s1)
  have "turn_allocate hmac ?net (s, [e1, e2]) txid txids server cred =
      ((s2, []), Inr \<lparr> tcl_state = st, tcl_relay_addr = relayed_addr s sock, tcl_lifetime = from_secs n \<rparr>)"
    by (simp add: turn_allocate_def x1 err adopt tr rd(4,5) Let_def)
  then show ?thesis
    using alloc agree conf s1
    by (simp add: dl fresh_allocation_def relayed_addr_def agrees_def st_def)
qed

section \<open>Permissions, channels and refresh\<close>

text \<open>The client holds the live allocation \<open>a\<close> and the server still knows its nonce.\<close>

definition holds_allocation :: "hmac_fun \<Rightarrow> turn_env \<Rightarrow> turn_server \<Rightarrow> socket_addr \<Rightarrow> client_state \<Rightarrow> allocation \<Rightarrow> bool" where
  "holds_allocation hmac env s client st a \<longleftrightarrow>
     hmac_ok hmac \<and> ts_serving s \<and> agrees s st (al_nonce a) \<and> allocation_of s client = Some a
     \<and> al_username a = lt_username (cs_cred st) \<and> is_live a (te_check env) \<and> is_live a (te_owner env)"

lemma holds_authenticates:
  assumes "holds_allocation hmac env s client st a" and "length tid = 12" and "plain_attrs (map (req_attr_pair tid) attrs)"
  shows "authenticate_on_allocation hmac env s (turn_view (request_type m) tid (request_tagged hmac st tid m attrs)) client =
    (s, Inr \<lparr> au_username = lt_username (cs_cred st), au_key = lt_key (cs_cred st), au_nonce = al_nonce a \<rparr>)"
proof -
  from assms(1) have h: "hmac_ok hmac" "agrees s st (al_nonce a)" "allocation_of s client = Some a"
    "al_username a = lt_username (cs_cred st)" "is_live a (te_check env)" "is_live a (te_owner env)"
    by (simp_all add: holds_allocation_def)
  have "nonce_valid env s client (al_nonce a)" using h by (simp add: nonce_valid_def)
  from request_authenticates [OF h(1) assms(2) h(2) this assms(3), of m] h show ?thesis
    by (simp add: authenticate_on_allocation_def)
qed

text \<open>A handler that answers with a signed success is one successful transaction of the client.\<close>

lemma transact_success:
  fixes hmac st txids m attrs s client env server extra
  defines "msg \<equiv> turn_view (request_type m) (txids 0) (request_tagged hmac st (txids 0) m attrs)"
    and "ty \<equiv> encode_type m CLASS_SUCCESS"
  assumes "holds_allocation hmac env s client st a" and "length (txids 0) = 12"
    and "plain_attrs (map (req_attr_pair (txids 0)) attrs)" and "cs_server st = server"
    and "\<And>bs. turn_parse bs = Some msg \<Longrightarrow> \<not> (4 \<le> length bs \<and> bs ! 0 AND 0xC0 = 0x40) \<Longrightarrow>
           dispatch hmac env s bs client = (s', [ToClient client (stun_octets ty (txids 0) (tagged hmac key ty (txids 0) extra))])"
    and "length (body_octets extra) \<le> 100"
  shows "transact hmac (turn_net hmac server client) (s, env # envs) txids st m attrs =
    ((s', envs), st, Inr (stun_octets ty (txids 0) (tagged hmac key ty (txids 0) extra)))"
proof -
  let ?r = "stun_octets ty (txids 0) (tagged hmac key ty (txids 0) extra)"
  from assms(3) have h: "hmac_ok hmac" "ts_serving s" "agrees s st (al_nonce a)" by (simp_all add: holds_allocation_def)
  note serve = serve_request [OF h(1,2) assms(4) h(3) assms(5)]
  have step: "relay_step hmac s (FromClient env (signed_request hmac st (txids 0) m attrs) client) = (s', [ToClient client ?r])"
    unfolding serve(1) by (rule assms(7)) (simp_all add: serve(2) msg_def turn_first_octet)
  have f: "fits (tagged hmac key ty (txids 0) extra)" using assms(8) by (simp add: fits_tagged [OF h(1)])
  have "exchange (turn_net hmac server client) (s, env # envs) (cs_server st) (signed_request hmac st (txids 0) m attrs) (txids 0) =
      ((s', envs), Inr ?r)"
    using exchange_net [OF step fits_parse(1) [OF assms(4) f] _ _ fits_parse(2) [OF assms(4) f]] assms(6)
    by (simp add: ty_def)
  from transact_round [where txids = txids, OF this] show ?thesis
    using owned_error_success [OF assms(4) f [unfolded ty_def]] by (simp add: ty_def)
qed

lemma method_neqs [simp]:
  "METHOD_CREATE_PERMISSION \<noteq> METHOD_ALLOCATE" "METHOD_CREATE_PERMISSION \<noteq> METHOD_REFRESH"
  "METHOD_CHANNEL_BIND \<noteq> METHOD_ALLOCATE" "METHOD_CHANNEL_BIND \<noteq> METHOD_REFRESH"
  "METHOD_CHANNEL_BIND \<noteq> METHOD_CREATE_PERMISSION" "METHOD_REFRESH \<noteq> METHOD_ALLOCATE"
  by (simp_all add: turn_methods)

lemma signed_reply_stun:
  "length tid = 12 \<Longrightarrow> signed_reply hmac (build_success_header m tid) key =
     stun_octets (encode_type m CLASS_SUCCESS) tid (tagged hmac key (encode_type m CLASS_SUCCESS) tid [])"
  by (simp add: signed_reply_def build_success_header_def turn_build tagged_def)

lemma requested_peers_view:
  assumes "fits (request_tagged hmac st tid m (map ReqPeer peers))" and "length tid = 12" and "list_all addr_ok peers"
  shows "requested_peers (turn_view (request_type m) tid (request_tagged hmac st tid m (map ReqPeer peers))) = peers"
proof -
  have iter: "turn_iter_attrs (turn_view (request_type m) tid (request_tagged hmac st tid m (map ReqPeer peers))) =
      request_tagged hmac st tid m (map ReqPeer peers)"
    by (rule turn_iter_view [OF fits_small [OF assms(1)]])
  have "filter (\<lambda>a. fst a = ATTR_XOR_PEER_ADDRESS) (map (req_attr_pair tid \<circ> ReqPeer) ps) = map (req_attr_pair tid \<circ> ReqPeer) ps" for ps
    by (induction ps) (simp_all add: req_attr_pair_def)
  then have filt: "filter (\<lambda>a. fst a = ATTR_XOR_PEER_ADDRESS) (request_tagged hmac st tid m (map ReqPeer peers)) =
      map (req_attr_pair tid \<circ> ReqPeer) peers"
    by (simp add: tagged_def request_attrs_def credential_attrs_def integrity_attr_def turn_attrs)
  have "List.map_filter (\<lambda>a. decode_xor_addr (snd a) tid) (map (req_attr_pair tid \<circ> ReqPeer) peers) = peers"
    using assms(3) by (induction peers) (simp_all add: req_attr_pair_def turn_xor_roundtrip [OF _ assms(2)])
  then show ?thesis by (simp add: requested_peers_def iter filt)
qed

lemma peer_attrs_length:
  assumes "list_all addr_ok peers" and "length tid = 12"
  shows "length (body_octets (map (req_attr_pair tid) (map ReqPeer peers))) \<le> 27 * length peers"
  using assms(1)
proof (induction peers)
  case (Cons p peers)
  then have "length (turn_xor_value p tid) \<le> 20" using length_turn_xor_value [OF _ assms(2), of p] by (auto simp: addr_ok_def)
  with attr_octets_le [of "req_attr_pair tid (ReqPeer p)"] Cons show ?case by (simp add: req_attr_pair_def)
qed simp

lemma foldl_grant:
  "foldl (\<lambda>m peer. m(sa_ip peer \<mapsto> d)) (m :: ip_addr \<rightharpoonup> instant) ps ip = (if ip \<in> sa_ip ` set ps then Some d else m ip)"
  by (induction ps arbitrary: m) auto

lemma dispatch_create_permission:
  fixes hmac st tid peers
  defines "m \<equiv> METHOD_CREATE_PERMISSION"
  defines "ty \<equiv> encode_type m CLASS_SUCCESS"
  defines "msg \<equiv> turn_view (request_type m) tid (request_tagged hmac st tid m (map ReqPeer peers))"
  assumes "holds_allocation hmac env s client st a" and "length tid = 12"
    and "peers \<noteq> []" and "length peers \<le> 14" and "list_all addr_ok peers"
  shows "plain_attrs (map (req_attr_pair tid) (map ReqPeer peers))"
    and "turn_parse bs = Some msg \<Longrightarrow> \<not> (4 \<le> length bs \<and> bs ! 0 AND 0xC0 = 0x40) \<Longrightarrow>
      dispatch hmac env s bs client = (update_allocation s client (grant_permissions a peers (te_act env + PERMISSION_LIFETIME)),
        [ToClient client (stun_octets ty tid (tagged hmac (lt_key (cs_cred st)) ty tid []))])"
proof -
  show plain: "plain_attrs (map (req_attr_pair tid) (map ReqPeer peers))"
    using peer_attrs_length [OF assms(8,5)] assms(7) by (auto simp: plain_attrs_def req_attr_pair_def turn_attrs)
  have h: "hmac_ok hmac" "agrees s st (al_nonce a)" "allocation_of s client = Some a"
    using assms(4) by (simp_all add: holds_allocation_def)
  have "handle_create_permission hmac env s msg client =
      (update_allocation s client (grant_permissions a peers (te_act env + PERMISSION_LIFETIME)),
       stun_octets ty tid (tagged hmac (lt_key (cs_cred st)) ty tid []))"
    using holds_authenticates [OF assms(4,5) plain, of m] requested_peers_view [OF fits_request [OF h(1,2) plain] assms(5,8), of m] assms(6) h(3)
    by (simp add: handle_create_permission_def Let_def signed_reply_stun [OF assms(5)] msg_def m_def ty_def)
  then show "turn_parse bs = Some msg \<Longrightarrow> \<not> (4 \<le> length bs \<and> bs ! 0 AND 0xC0 = 0x40) \<Longrightarrow>
      dispatch hmac env s bs client = (update_allocation s client (grant_permissions a peers (te_act env + PERMISSION_LIFETIME)),
        [ToClient client (stun_octets ty tid (tagged hmac (lt_key (cs_cred st)) ty tid []))])"
    by (auto simp: dispatch_def Let_def msg_def m_def)
qed

lemma create_permission_granted:
  assumes "holds_allocation hmac env s client (tcl_state c) a" and "length (txids 0) = 12" and "cs_server (tcl_state c) = server"
    and "peers \<noteq> []" and "length peers \<le> 14" and "list_all addr_ok peers"
  shows "turn_create_permission hmac (turn_net hmac server client) (s, env # envs) txids c peers =
    ((update_allocation s client (grant_permissions a peers (te_act env + PERMISSION_LIFETIME)), envs), c, Inr ())"
  using transact_success [where txids = txids, OF assms(1,2) dispatch_create_permission(1) [OF assms(1,2,4-6)] assms(3)
      dispatch_create_permission(2) [OF assms(1,2,4-6)]]
  by (simp add: turn_create_permission_def unit_result_def)

lemma serve_create_permission:
  assumes "holds_allocation hmac env s client st a" and "length tid = 12"
    and "peers \<noteq> []" and "length peers \<le> 14" and "list_all addr_ok peers"
  shows "fst (relay_step hmac s (FromClient env (signed_request hmac st tid METHOD_CREATE_PERMISSION (map ReqPeer peers)) client)) =
    update_allocation s client (grant_permissions a peers (te_act env + PERMISSION_LIFETIME))"
proof -
  have h: "hmac_ok hmac" "ts_serving s" "agrees s st (al_nonce a)" using assms(1) by (simp_all add: holds_allocation_def)
  note serve = serve_request [where m = METHOD_CREATE_PERMISSION, OF h(1,2) assms(2) h(3) dispatch_create_permission(1) [OF assms]]
  show ?thesis
    using dispatch_create_permission(2) [OF assms serve(2)] turn_first_octet unfolding serve(1) by simp
qed

lemma channel_bind_granted:
  assumes "holds_allocation hmac env s client (tcl_state c) a" and "length (txids 0) = 12" and "cs_server (tcl_state c) = server"
    and "channel_ok ch" and "addr_ok peer" and "snd (bind_channel a ch peer (te_act env))"
  shows "turn_channel_bind hmac (turn_net hmac server client) (s, env # envs) txids c ch peer =
    ((update_allocation s client (fst (bind_channel a ch peer (te_act env))), envs), c, Inr ())"
proof -
  let ?st = "tcl_state c" and ?m = METHOD_CHANNEL_BIND
  let ?attrs = "[ReqBytes ATTR_CHANNEL_NUMBER (be_bytes 2 ch @ [0, 0]), ReqPeer peer]"
  let ?msg = "turn_view (request_type ?m) (txids 0) (request_tagged hmac ?st (txids 0) ?m ?attrs)"
  let ?s' = "update_allocation s client (fst (bind_channel a ch peer (te_act env)))"
  have "length (body_octets (map (req_attr_pair (txids 0)) ?attrs)) \<le> 40"
    using peer_attrs_length [of "[peer]" "txids 0"] assms(2,5)
      attr_octets_le [of "(ATTR_CHANNEL_NUMBER, be_bytes 2 ch @ [0, 0])"]
    by (simp add: req_attr_pair_def)
  then have plain: "plain_attrs (map (req_attr_pair (txids 0)) ?attrs)"
    by (auto simp: plain_attrs_def req_attr_pair_def turn_attrs)
  have h: "hmac_ok hmac" "agrees s ?st (al_nonce a)" "allocation_of s client = Some a"
    using assms(1) by (simp_all add: holds_allocation_def)
  note attr = request_attr [OF h(1,2) plain, of _ ?m]
  have chan: "turn_attr ?msg ATTR_CHANNEL_NUMBER = Some (be_bytes 2 ch @ [0, 0])"
    and peer: "turn_attr ?msg ATTR_XOR_PEER_ADDRESS = Some (turn_xor_value peer (txids 0))"
    by (subst attr; simp add: request_attrs_def req_attr_pair_def turn_attrs)+
  have "requested_channel ?msg = Some ch"
    using assms(4) by (simp add: requested_channel_def chan channel_ok_def slice_def)
  moreover have "peer_attr ?msg = Some peer"
    using turn_xor_roundtrip [OF assms(5,2)] by (simp add: peer_attr_def peer)
  ultimately have "handle_channel_bind hmac env s ?msg client =
      (?s', stun_octets (encode_type ?m CLASS_SUCCESS) (txids 0)
         (tagged hmac (lt_key (cs_cred ?st)) (encode_type ?m CLASS_SUCCESS) (txids 0) []))"
    using holds_authenticates [OF assms(1,2) plain, of ?m] h(3) assms(6)
    by (simp add: handle_channel_bind_def Let_def case_prod_unfold signed_reply_stun [OF assms(2)])
  then have "dispatch hmac env s bs client = (?s', [ToClient client (stun_octets (encode_type ?m CLASS_SUCCESS) (txids 0)
         (tagged hmac (lt_key (cs_cred ?st)) (encode_type ?m CLASS_SUCCESS) (txids 0) []))])"
    if "turn_parse bs = Some ?msg" "\<not> (4 \<le> length bs \<and> bs ! 0 AND 0xC0 = 0x40)" for bs
    using that by (auto simp: dispatch_def Let_def)
  from transact_success [where txids = txids, OF assms(1,2) plain assms(3) this] show ?thesis
    by (simp add: turn_channel_bind_def unit_result_def)
qed

text \<open>Result. A client that holds a live allocation gets the permissions and the channel it asks
  for: a request for at most fourteen peers succeeds and the allocation then permits each of their
  addresses for five minutes; a channel in range that conflicts with no live binding is bound in both
  directions for ten minutes, and the peer's address permitted for five. Nothing else changes on
  either side.\<close>

theorem turn_client_requests_take_effect:
  assumes "holds_allocation hmac env s client (tcl_state c) a" and "length (txids 0) = 12" and "cs_server (tcl_state c) = server"
  shows "(peers \<noteq> [] \<and> length peers \<le> 14 \<and> list_all addr_ok peers \<longrightarrow>
      (\<exists>a'. turn_create_permission hmac (turn_net hmac server client) (s, env # envs) txids c peers =
          ((update_allocation s client a', envs), c, Inr ())
        \<and> (\<forall>p\<in>set peers. al_permissions a' (sa_ip p) = Some (te_act env + PERMISSION_LIFETIME))
        \<and> (\<forall>ip. ip \<notin> sa_ip ` set peers \<longrightarrow> al_permissions a' ip = al_permissions a ip)
        \<and> al_channels_to_peer a' = al_channels_to_peer a))
    \<and> (channel_ok ch \<and> addr_ok peer \<and> snd (bind_channel a ch peer (te_act env)) \<longrightarrow>
      (\<exists>a'. turn_channel_bind hmac (turn_net hmac server client) (s, env # envs) txids c ch peer =
          ((update_allocation s client a', envs), c, Inr ())
        \<and> al_channels_to_peer a' ch = Some (peer, te_act env + CHANNEL_LIFETIME) \<and> al_peer_to_channel a' peer = Some ch
        \<and> al_permissions a' (sa_ip peer) = Some (te_act env + PERMISSION_LIFETIME)))"
proof (intro conjI impI)
  let ?d = "te_act env + PERMISSION_LIFETIME"
  assume "peers \<noteq> [] \<and> length peers \<le> 14 \<and> list_all addr_ok peers"
  then have r: "turn_create_permission hmac (turn_net hmac server client) (s, env # envs) txids c peers =
      ((update_allocation s client (grant_permissions a peers ?d), envs), c, Inr ())"
    using create_permission_granted [where txids = txids, OF assms] by blast
  show "\<exists>a'. turn_create_permission hmac (turn_net hmac server client) (s, env # envs) txids c peers =
      ((update_allocation s client a', envs), c, Inr ())
    \<and> (\<forall>p\<in>set peers. al_permissions a' (sa_ip p) = Some ?d)
    \<and> (\<forall>ip. ip \<notin> sa_ip ` set peers \<longrightarrow> al_permissions a' ip = al_permissions a ip)
    \<and> al_channels_to_peer a' = al_channels_to_peer a"
    unfolding r by (rule exI [of _ "grant_permissions a peers ?d"]) (simp add: grant_permissions_def foldl_grant)
next
  assume "channel_ok ch \<and> addr_ok peer \<and> snd (bind_channel a ch peer (te_act env))"
  then have r: "turn_channel_bind hmac (turn_net hmac server client) (s, env # envs) txids c ch peer =
      ((update_allocation s client (fst (bind_channel a ch peer (te_act env))), envs), c, Inr ())"
    and b: "snd (bind_channel a ch peer (te_act env))"
    using channel_bind_granted [where txids = txids, OF assms] by blast+
  show "\<exists>a'. turn_channel_bind hmac (turn_net hmac server client) (s, env # envs) txids c ch peer =
      ((update_allocation s client a', envs), c, Inr ())
    \<and> al_channels_to_peer a' ch = Some (peer, te_act env + CHANNEL_LIFETIME) \<and> al_peer_to_channel a' peer = Some ch
    \<and> al_permissions a' (sa_ip peer) = Some (te_act env + PERMISSION_LIFETIME)"
    unfolding r by (rule exI [of _ "fst (bind_channel a ch peer (te_act env))"])
      (use b in \<open>auto simp: bind_channel_def Let_def split: if_splits\<close>)
qed

section \<open>Attributes after MESSAGE-INTEGRITY\<close>

text \<open>What anyone on the path can do to a captured request without the key: append a peer address
  and set the length.\<close>

definition append_peer :: "hmac_fun \<Rightarrow> octets \<Rightarrow> u16 \<Rightarrow> transaction_id \<Rightarrow> (u16 \<times> octets) list \<Rightarrow> socket_addr \<Rightarrow> octets" where
  "append_peer hmac key ty tid as evil =
     stun_octets ty tid (tagged hmac key ty tid as @ [(ATTR_XOR_PEER_ADDRESS, turn_xor_value evil tid)])"

lemma authenticate_cong:
  assumes "\<And>k. k \<in> {ATTR_MESSAGE_INTEGRITY, ATTR_USERNAME, ATTR_REALM, ATTR_NONCE} \<Longrightarrow> turn_attr m' k = turn_attr m k"
    and "pt_method m' = pt_method m" and "pt_txid m' = pt_txid m"
    and "\<And>key. turn_verify_integrity hmac (pt_raw m') key = turn_verify_integrity hmac (pt_raw m) key"
  shows "authenticate hmac env s m' client = authenticate hmac env s m client"
proof -
  have attr: "turn_attr m' ATTR_MESSAGE_INTEGRITY = turn_attr m ATTR_MESSAGE_INTEGRITY" "turn_attr m' ATTR_USERNAME = turn_attr m ATTR_USERNAME"
    "turn_attr m' ATTR_REALM = turn_attr m ATTR_REALM" "turn_attr m' ATTR_NONCE = turn_attr m ATTR_NONCE"
    using assms(1) by simp_all
  show ?thesis unfolding authenticate_def utf8_attr_def attr assms(2-4) ..
qed

lemma forged_authenticates:
  fixes hmac key ty tid as evil
  defines "m \<equiv> turn_view ty tid (tagged hmac key ty tid as)"
    and "m' \<equiv> turn_view ty tid (tagged hmac key ty tid as @ [(ATTR_XOR_PEER_ADDRESS, turn_xor_value evil tid)])"
  assumes "hmac_ok hmac" and "length tid = 12" and "ATTR_MESSAGE_INTEGRITY \<notin> fst ` set as"
    and "fits (tagged hmac key ty tid as @ [(ATTR_XOR_PEER_ADDRESS, turn_xor_value evil tid)])"
  shows "authenticate_on_allocation hmac env s m' client = authenticate_on_allocation hmac env s m client"
proof -
  let ?v = "hmac key (stun_with_len (length (body_octets as) + 24) ty tid as)"
  let ?e = "(ATTR_XOR_PEER_ADDRESS, turn_xor_value evil tid)"
  have v: "length ?v = 20" using assms(3) by (simp add: hmac_ok_def INTEGRITY_LEN_def)
  have f: "fits (tagged hmac key ty tid as)" using assms(6) by (simp add: fits_def)
  have as: "small_attrs as" using fits_small [OF f] by (simp add: tagged_def)
  have len: "length (body_octets (as @ (ATTR_MESSAGE_INTEGRITY, ?v) # bs)) < 2 ^ 16" if "bs = [] \<or> bs = [?e]" for bs
    using that assms(6) by (auto simp: fits_def tagged_def integrity_attr_def)
  have ver: "turn_verify_integrity hmac (pt_raw m') k = turn_verify_integrity hmac (pt_raw m) k" for k
    using turn_verify_stun [OF assms(4) as assms(5) v len, of "[?e]" hmac ty k]
      turn_verify_stun [OF assms(4) as assms(5) v len, of "[]" hmac ty k]
    by (simp add: m_def m'_def tagged_def integrity_attr_def)
  have "turn_attr m' k = turn_attr m k" if "k \<noteq> ATTR_XOR_PEER_ADDRESS" for k
    using that by (simp add: m_def m'_def fits_attr [OF f] fits_attr [OF assms(6)] map_add_def split: option.split)
  then have auth: "authenticate hmac env s m' client = authenticate hmac env s m client"
    by (intro authenticate_cong ver) (auto simp: m_def m'_def turn_attrs)
  have same: "pt_method m' = pt_method m" "pt_txid m' = pt_txid m" by (simp_all add: m_def m'_def)
  show ?thesis unfolding authenticate_on_allocation_def auth same ..
qed

text \<open>Property C28. Whenever the server would accept a tagged CreatePermission request from a client,
  it also accepts the request with one more peer address appended after the tag, which needs no key:
  the appended address is permitted on the client's allocation for five minutes.\<close>

theorem turn_appended_peer_is_permitted:
  fixes hmac key tid as
  defines "ty \<equiv> request_type METHOD_CREATE_PERMISSION"
  assumes "hmac_ok hmac" and "ts_serving s" and "length tid = 12" and "ATTR_MESSAGE_INTEGRITY \<notin> fst ` set as"
    and "length (body_octets as) \<le> 1900" and "addr_ok evil"
    and "authenticate_on_allocation hmac env s (turn_view ty tid (tagged hmac key ty tid as)) client = (s, Inr auth)"
  shows "\<exists>a. allocation_of (fst (relay_step hmac s (FromClient env (append_peer hmac key ty tid as evil) client))) client = Some a
    \<and> al_permissions a (sa_ip evil) = Some (te_act env + PERMISSION_LIFETIME)"
proof -
  let ?as = "tagged hmac key ty tid as @ [(ATTR_XOR_PEER_ADDRESS, turn_xor_value evil tid)]"
  let ?m = "turn_view ty tid ?as" and ?d = "te_act env + PERMISSION_LIFETIME"
  have "length (turn_xor_value evil tid) \<le> 20"
    using length_turn_xor_value [OF assms(7,4)] assms(7) by (auto simp: addr_ok_def)
  moreover have "length (body_octets (tagged hmac key ty tid as)) = length (body_octets as) + 24"
    using assms(2) by (simp add: tagged_def integrity_attr_def length_attr_octets hmac_ok_def INTEGRITY_LEN_def)
  ultimately have f: "fits ?as"
    using assms(6) attr_octets_le [of "(ATTR_XOR_PEER_ADDRESS, turn_xor_value evil tid)"] by (simp add: fits_def)
  have auth: "authenticate_on_allocation hmac env s ?m client = (s, Inr auth)"
    using forged_authenticates [OF assms(2,4,5) f] assms(8) by simp
  from authenticate_on_Inr [OF auth] obtain a where a: "allocation_of s client = Some a" by blast
  have iter: "turn_iter_attrs ?m = ?as" by (rule turn_iter_view [OF fits_small [OF f]])
  define ps where "ps = requested_peers ?m"
  have evil: "evil \<in> set ps"
    using turn_xor_roundtrip [OF assms(7,4)]
    by (auto simp: ps_def requested_peers_def iter map_filter_def intro!: rev_image_eqI [of "(ATTR_XOR_PEER_ADDRESS, turn_xor_value evil tid)"])
  have handled: "fst (handle_create_permission hmac env s ?m client) = update_allocation s client (grant_permissions a ps ?d)"
    using evil by (auto simp: handle_create_permission_def auth a Let_def ps_def)
  have "relay_step hmac s (FromClient env (append_peer hmac key ty tid as evil) client) = dispatch hmac env s (stun_octets ty tid ?as) client"
    using serve_stun(1) [OF assms(3,4) f [unfolded fits_def], of hmac env METHOD_CREATE_PERMISSION CLASS_REQUEST client]
    by (simp add: append_peer_def ty_def)
  then have "fst (relay_step hmac s (FromClient env (append_peer hmac key ty tid as evil) client)) =
      update_allocation s client (grant_permissions a ps ?d)"
    using fits_parse(1) [OF assms(4) f, of ty] handled
    by (simp add: dispatch_def ty_def turn_first_octet Let_def case_prod_unfold)
  then show ?thesis
    using evil by (simp add: update_allocation_def update_conv' grant_permissions_def foldl_grant)
qed

section \<open>A concrete session\<close>

text \<open>A server with one user, a client that allocates and permits one peer; it witnesses that the
  hypotheses above can be met together.\<close>

definition demo_cred :: long_term_credential where
  "demo_cred = \<lparr> lt_username = ''ann'', lt_key = replicate 16 1 \<rparr>"

definition demo_turn_config :: turn_config where
  "demo_turn_config = turn_config_default \<lparr> tcf_relay_ip := [10, 0, 0, 1], tcf_credentials := [demo_cred] \<rparr>"

definition demo_relay_client :: socket_addr where "demo_relay_client = \<lparr> sa_ip = [192, 0, 2, 1], sa_port = 4000 \<rparr>"
definition demo_turn_addr :: socket_addr where "demo_turn_addr = \<lparr> sa_ip = [10, 0, 0, 1], sa_port = 3478 \<rparr>"
definition demo_relay_peer :: socket_addr where "demo_relay_peer = \<lparr> sa_ip = [198, 51, 100, 7], sa_port = 9000 \<rparr>"
definition demo_relay_sock :: socket_addr where "demo_relay_sock = \<lparr> sa_ip = [10, 0, 0, 1], sa_port = 50000 \<rparr>"
definition demo_tid :: transaction_id where "demo_tid = replicate 12 3"

definition demo_turn_env :: "instant \<Rightarrow> turn_env" where
  "demo_turn_env t = \<lparr> te_check = t, te_issue = t, te_owner = t, te_act = t, te_random = replicate 16 7, te_bind = BoundTo demo_relay_sock \<rparr>"

definition demo_nonce :: bytes where "demo_nonce = fresh_nonce (replicate 16 7)"

definition demo_client_state :: client_state where
  "demo_client_state = \<lparr> cs_server = demo_turn_addr, cs_cred = demo_cred,
     cs_realm = octets_of (tcf_realm demo_turn_config), cs_nonce = octets_of demo_nonce \<rparr>"

definition demo_relay_inputs :: "turn_input list" where
  "demo_relay_inputs =
     [FromClient (demo_turn_env 1) (first_allocate demo_tid) demo_relay_client,
      FromClient (demo_turn_env 2) (signed_request demo_hmac demo_client_state demo_tid METHOD_ALLOCATE
        [ReqBytes ATTR_REQUESTED_TRANSPORT [17, 0, 0, 0]]) demo_relay_client,
      FromClient (demo_turn_env 3) (signed_request demo_hmac demo_client_state demo_tid METHOD_CREATE_PERMISSION
        (map ReqPeer [demo_relay_peer])) demo_relay_client]"

definition demo_relay_state :: turn_server where
  "demo_relay_state = fst (run (relay_step demo_hmac) (turn_new demo_turn_config) demo_relay_inputs)"

lemma demo_turn_simps [simp]:
  "length demo_tid = 12" "addr_ok demo_relay_client" "addr_ok demo_relay_peer" "hmac_ok demo_hmac"
  "ts_serving (turn_new demo_turn_config)" "ts_config (turn_new demo_turn_config) = demo_turn_config"
  "ts_credentials (turn_new demo_turn_config) ''ann'' = Some demo_cred" "ts_allocations (turn_new demo_turn_config) = []"
  "lt_username demo_cred = ''ann''" "tcf_realm demo_turn_config = ''smiths-turn''" "tcf_relay_ip demo_turn_config = [10, 0, 0, 1]"
  by (simp_all add: demo_tid_def addr_ok_def demo_relay_client_def demo_relay_peer_def demo_hmac_ok turn_new_def demo_turn_config_def
      demo_cred_def turn_config_default_def)

lemma demo_nonce_ok: "valid_utf8 demo_nonce" "length demo_nonce = 32"
  by (simp_all add: demo_nonce_def valid_utf8_ascii fresh_nonce_ascii length_fresh_nonce)

lemma demo_agrees:
  "ts_config s = demo_turn_config \<Longrightarrow> ts_credentials s ''ann'' = Some demo_cred \<Longrightarrow> agrees s demo_client_state demo_nonce"
  using demo_nonce_ok by (simp add: agrees_def demo_client_state_def valid_utf8_ascii is_ascii_def)

lemma demo_relay_steps:
  "\<exists>a. allocation_of demo_relay_state demo_relay_client = Some a \<and> is_live a 4
     \<and> permission_live a (sa_ip demo_relay_peer) 4 \<and> al_relay_sock a = demo_relay_sock \<and> al_channels_to_peer a = Map.empty
     \<and> al_nonce a = demo_nonce \<and> al_username a = ''ann''
     \<and> ts_serving demo_relay_state \<and> ts_config demo_relay_state = demo_turn_config
     \<and> ts_credentials demo_relay_state ''ann'' = Some demo_cred"
proof -
  let ?h = demo_hmac and ?c = demo_relay_client and ?st = demo_client_state
  define s0 where "s0 = turn_new demo_turn_config"
  define s1 where "s1 = fst (relay_step ?h s0 (demo_relay_inputs ! 0))"
  define s2 where "s2 = fst (relay_step ?h s1 (demo_relay_inputs ! 1))"
  define s3 where "s3 = fst (relay_step ?h s2 (demo_relay_inputs ! 2))"
  have s3: "demo_relay_state = s3"
    by (simp add: demo_relay_state_def s0_def s1_def s2_def s3_def demo_relay_inputs_def case_prod_unfold Let_def)
  have "s1 = bump_alloc (fst (issue_nonce (demo_turn_env 1) s0 ?c)) AoChallenged"
    using serve_first_allocate [of s0 demo_tid ?h "demo_turn_env 1" ?c] by (simp add: s1_def s0_def demo_relay_inputs_def)
  then have f1: "ts_serving s1" "ts_config s1 = demo_turn_config" "ts_credentials s1 ''ann'' = Some demo_cred" "ts_allocations s1 = []"
    "ts_challenges s1 ?c = Some (demo_nonce, 1 + CHALLENGE_LIFETIME)"
    by (simp_all add: s0_def bump_alloc_def issue_nonce_def Let_def demo_nonce_def demo_turn_env_def)
  have "nonce_valid (demo_turn_env 2) s1 ?c demo_nonce"
    by (simp add: nonce_valid_def f1 demo_turn_env_def CHALLENGE_LIFETIME_def from_secs_def)
  from serve_signed_allocate [OF _ f1(1) _ demo_agrees [OF f1(2,3)] this, of ?h demo_tid demo_relay_sock]
  have s2: "s2 = bump_alloc (install_allocation (demo_turn_env 2) s1 ?c
      \<lparr> au_username = ''ann'', au_key = lt_key demo_cred, au_nonce = demo_nonce \<rparr> demo_relay_sock (default_lifetime s1)) AoSuccess"
    by (simp add: s2_def demo_relay_inputs_def live_allocation_def f1(4) demo_turn_env_def) (simp add: demo_client_state_def demo_turn_env_def)
  have lt: "default_lifetime s1 = from_secs 600"
    by (simp add: default_lifetime_def f1 demo_turn_config_def turn_config_default_def DEFAULT_LIFETIME_S_def secs_u32_def from_secs_def)
  obtain a where a: "allocation_of s2 ?c = Some a" "al_expires_at a = 2 + from_secs 600" "al_nonce a = demo_nonce" "al_username a = ''ann''"
    "al_relay_sock a = demo_relay_sock" "al_channels_to_peer a = Map.empty"
    by (simp add: s2 bump_alloc_def install_allocations lt fresh_allocation_def demo_turn_env_def update_conv')
  have f2: "ts_serving s2" "ts_config s2 = demo_turn_config" "ts_credentials s2 ''ann'' = Some demo_cred"
    by (simp_all add: s2 bump_alloc_def f1)
  have "holds_allocation ?h (demo_turn_env 3) s2 ?c ?st a"
    using a f2 demo_agrees [OF f2(2,3)]
    by (simp add: holds_allocation_def is_live_def demo_turn_env_def from_secs_def) (simp add: demo_client_state_def)
  from serve_create_permission [OF this, of demo_tid "[demo_relay_peer]"]
  have s3': "s3 = update_allocation s2 ?c (grant_permissions a [demo_relay_peer] (3 + PERMISSION_LIFETIME))"
    by (simp add: s3_def demo_relay_inputs_def demo_turn_env_def)
  show ?thesis
    unfolding s3 s3' using a f2
    by (simp add: update_allocation_def update_conv' grant_permissions_def is_live_def permission_live_def
        from_secs_def PERMISSION_LIFETIME_def)
qed

lemma demo_relay_reach: "turn_reach demo_hmac demo_turn_config demo_relay_inputs demo_relay_state"
proof -
  have "turn_reach demo_hmac demo_turn_config (pre @ ins) (fst (run (relay_step demo_hmac) s ins))"
    if "turn_reach demo_hmac demo_turn_config pre s" for pre ins s
    using that
  proof (induction ins arbitrary: pre s)
    case (Cons i ins)
    from Cons.IH [OF turn_reach.step [OF Cons.prems, of i]] show ?case by (simp add: case_prod_unfold Let_def)
  qed simp
  from this [OF turn_reach.start, of demo_relay_inputs] show ?thesis by (simp add: demo_relay_state_def)
qed

lemma demo_relay_holds:
  "\<exists>a. holds_allocation demo_hmac (demo_turn_env 4) demo_relay_state demo_relay_client demo_client_state a
     \<and> al_channels_to_peer a = Map.empty \<and> al_relay_sock a = demo_relay_sock"
  using demo_relay_steps demo_agrees [of demo_relay_state]
  by (fastforce simp: holds_allocation_def demo_turn_env_def demo_client_state_def)

theorem turn_relays_by_consent_witness:
  "\<exists>a. allocation_of demo_relay_state demo_relay_client = Some a \<and> is_live a 4 \<and> demo_relay_sock = al_relay_sock a
     \<and> (\<exists>j\<in>set demo_relay_inputs. \<exists>t. consents demo_hmac (ts_credentials (turn_new demo_turn_config)) j demo_relay_client
          (al_username a) (sa_ip demo_relay_peer) t \<and> 4 < t + CHANNEL_LIFETIME)"
proof -
  let ?i = "FromClient (demo_turn_env 4) (send_indication demo_tid demo_relay_peer [1, 2, 3]) demo_relay_client"
  from demo_relay_steps obtain a where "allocation_of demo_relay_state demo_relay_client = Some a" "is_live a 4"
    "permission_live a (sa_ip demo_relay_peer) 4" "al_relay_sock a = demo_relay_sock" "ts_serving demo_relay_state" by blast
  then have "ToPeer demo_relay_sock demo_relay_peer [1, 2, 3] \<in> set (snd (relay_step demo_hmac demo_relay_state ?i))"
    using serve_send_indication [of demo_relay_state demo_relay_peer demo_tid "[1, 2, 3]" demo_hmac "demo_turn_env 4" demo_relay_client]
    by (simp add: live_allocation_def demo_turn_env_def)
  with turn_relays_by_consent [OF demo_relay_reach] have
    "\<exists>a. allocation_of demo_relay_state demo_relay_client = Some a \<and> is_live a (te_act (demo_turn_env 4)) \<and> demo_relay_sock = al_relay_sock a
     \<and> (\<exists>j\<in>set demo_relay_inputs. \<exists>t. consents demo_hmac (ts_credentials (turn_new demo_turn_config)) j demo_relay_client
          (al_username a) (sa_ip demo_relay_peer) t \<and> te_act (demo_turn_env 4) < t + CHANNEL_LIFETIME)" by blast
  then show ?thesis by (simp add: demo_turn_env_def)
qed

theorem turn_datagrams_cross_witness:
  "\<exists>a. live_allocation demo_relay_state demo_relay_client 4 = Some a
     \<and> relay_step demo_hmac demo_relay_state (FromClient (demo_turn_env 4) (send_indication demo_tid demo_relay_peer [1, 2, 3]) demo_relay_client)
       = (demo_relay_state, [ToPeer (al_relay_sock a) demo_relay_peer [1, 2, 3]])"
proof -
  from demo_relay_steps obtain a where a: "allocation_of demo_relay_state demo_relay_client = Some a" "is_live a 4"
    "permission_live a (sa_ip demo_relay_peer) 4" "ts_serving demo_relay_state" by blast
  have "length ([1, 2, 3] :: octets) \<le> 1600" by simp
  note d = turn_datagrams_cross [where hmac = demo_hmac and env = "demo_turn_env 4" and client = demo_relay_client,
      OF turn_reach_inv [OF demo_relay_reach] demo_turn_simps(3) demo_turn_simps(1) this]
  show ?thesis using conjunct1 [OF d] a by (simp add: live_allocation_def demo_turn_env_def)
qed

theorem turn_relay_state_consistent_witness:
  "distinct (map fst (ts_allocations demo_relay_state)) \<and> allocation_of demo_relay_state demo_relay_client \<noteq> None
     \<and> list_all (\<lambda>t. \<exists>a. allocation_of demo_relay_state (rt_client t) = Some a
         \<and> al_relay_task a = rt_token t \<and> al_relay_sock a = rt_sock t) (ts_tasks demo_relay_state)"
  using turn_relay_state_consistent [OF demo_relay_reach] demo_relay_steps by (auto simp: list_all_iff)

theorem turn_allocate_handshake_witness:
  "\<exists>s' c. turn_allocate demo_hmac (turn_net demo_hmac demo_turn_addr demo_relay_client)
       (turn_new demo_turn_config, [demo_turn_env 1, demo_turn_env 2]) demo_tid (\<lambda>_. demo_tid) demo_turn_addr demo_cred = ((s', []), Inr c)
     \<and> tcl_relay_addr c = \<lparr> sa_ip = [10, 0, 0, 1], sa_port = 50000 \<rparr>"
proof -
  let ?s = "turn_new demo_turn_config"
  have r: "relayed_addr ?s demo_relay_sock = \<lparr> sa_ip = [10, 0, 0, 1], sa_port = 50000 \<rparr>"
    by (simp add: relayed_addr_def demo_relay_sock_def)
  have "\<exists>s' c a. turn_allocate demo_hmac (turn_net demo_hmac demo_turn_addr demo_relay_client)
       (?s, [demo_turn_env 1, demo_turn_env 2]) demo_tid (\<lambda>_. demo_tid) demo_turn_addr demo_cred = ((s', []), Inr c)
     \<and> tcl_relay_addr c = relayed_addr ?s demo_relay_sock \<and> tcl_lifetime c = default_lifetime ?s
     \<and> allocation_of s' demo_relay_client = Some a \<and> al_relay_addr a = tcl_relay_addr c \<and> al_username a = lt_username demo_cred
     \<and> al_expires_at a = te_act (demo_turn_env 2) + tcl_lifetime c \<and> al_permissions a = Map.empty \<and> al_channels_to_peer a = Map.empty
     \<and> agrees s' (tcl_state c) (al_nonce a)"
    by (rule turn_allocate_handshake)
      (simp_all add: demo_turn_env_def CHALLENGE_LIFETIME_def from_secs_def live_allocation_def r addr_ok_def demo_relay_client_def valid_utf8_ascii is_ascii_def)
  then show ?thesis using r by auto
qed

theorem turn_client_requests_take_effect_witness:
  "\<exists>s' c. turn_channel_bind demo_hmac (turn_net demo_hmac demo_turn_addr demo_relay_client) (demo_relay_state, [demo_turn_env 4]) (\<lambda>_. demo_tid)
       \<lparr> tcl_state = demo_client_state, tcl_relay_addr = demo_relay_sock, tcl_lifetime = 0 \<rparr> 0x4000 demo_relay_peer = ((s', []), c, Inr ())
     \<and> (\<exists>a. allocation_of s' demo_relay_client = Some a \<and> al_peer_to_channel a demo_relay_peer = Some 0x4000)"
proof -
  let ?c = "\<lparr> tcl_state = demo_client_state, tcl_relay_addr = demo_relay_sock, tcl_lifetime = 0 \<rparr>"
  from demo_relay_holds obtain a where a: "holds_allocation demo_hmac (demo_turn_env 4) demo_relay_state demo_relay_client demo_client_state a"
    "al_channels_to_peer a = Map.empty" by blast
  have al: "allocation_of demo_relay_state demo_relay_client = Some a" using a(1) by (simp add: holds_allocation_def)
  have "channels_ok a" using turn_invD(2) [OF turn_reach_inv [OF demo_relay_reach] al] .
  then have "al_peer_to_channel a = Map.empty" using a(2) by (auto simp: channels_ok_def)
  then have b: "snd (bind_channel a 0x4000 demo_relay_peer (te_act (demo_turn_env 4)))"
    using a(2) by (simp add: bind_channel_def Let_def channel_peer_def peer_channel_def prune_def retain_def)
  have "channel_ok 0x4000" by (simp add: channel_ok_def CHANNEL_MIN_def CHANNEL_MAX_def)
  with turn_client_requests_take_effect [where txids = "\<lambda>_. demo_tid" and c = ?c and server = demo_turn_addr and peers = "[]" and envs = "[]" and ch = "0x4000" and peer = demo_relay_peer]
    a b al show ?thesis
    by (fastforce simp: demo_client_state_def update_allocation_def update_conv')
qed

theorem turn_appended_peer_is_permitted_witness:
  "\<exists>bs a. allocation_of (fst (relay_step demo_hmac demo_relay_state (FromClient (demo_turn_env 4) bs demo_relay_client))) demo_relay_client = Some a
     \<and> al_permissions a [203, 0, 113, 66] = Some (4 + PERMISSION_LIFETIME)"
proof -
  let ?evil = "\<lparr> sa_ip = [203, 0, 113, 66], sa_port = 53 \<rparr>" and ?attrs = "map ReqPeer [demo_relay_peer]"
  let ?as = "request_attrs demo_client_state demo_tid ?attrs"
  from demo_relay_holds obtain a where a: "holds_allocation demo_hmac (demo_turn_env 4) demo_relay_state demo_relay_client demo_client_state a" by blast
  have plain: "plain_attrs (map (req_attr_pair demo_tid) ?attrs)" by (rule dispatch_create_permission(1) [OF a]) simp_all
  note auth = holds_authenticates [OF a demo_turn_simps(1) plain, of METHOD_CREATE_PERMISSION]
  have "length (body_octets (map (req_attr_pair demo_tid) ?attrs)) \<le> 400" using plain by (simp add: plain_attrs_def)
  moreover have "length (body_octets (credential_attrs demo_client_state)) \<le> 100"
    using attr_octets_le [of "(ATTR_USERNAME, octets_of ''ann'')"] attr_octets_le [of "(ATTR_REALM, octets_of ''smiths-turn'')"]
      attr_octets_le [of "(ATTR_NONCE, octets_of demo_nonce)"]
    by (simp add: credential_attrs_def demo_client_state_def demo_nonce_ok)
  ultimately have "length (body_octets ?as) \<le> 1900" by (simp add: request_attrs_def)
  from turn_appended_peer_is_permitted [OF demo_turn_simps(4) _ demo_turn_simps(1) request_attr_lookup(4) [OF plain] this _ auth, of ?evil]
  show ?thesis using a by (auto simp: holds_allocation_def addr_ok_def demo_turn_env_def)
qed

end
