(* ===== verification/Client_Invite.thy ===== *)
theory Client_Invite
  imports Txn_Ack
begin

text \<open>
  The client INVITE machine (\<^verbatim>\<open>smiths-sip/src/txn/client_invite.rs\<close>): the
  transaction record, its two transition helpers, the event handler, and the machine's promises.
\<close>

section \<open>Model\<close>

definition TIMER_D :: duration where "TIMER_D = from_secs 32"

record client_invite_txn =
  ci_key :: transaction_key
  ci_state :: transaction_state
  ci_invite :: bytes
  ci_ack_for_non_ok :: "bytes option"
  ci_attempt :: u32
  ci_reliable :: bool

definition ci_new :: "string \<Rightarrow> bytes \<Rightarrow> client_invite_txn" where
  "ci_new br request =
     \<lparr> ci_key = \<lparr> branch = br, method = ''INVITE'', role = Client \<rparr>, ci_state = Calling,
       ci_invite = request, ci_ack_for_non_ok = None, ci_attempt = 0, ci_reliable = False \<rparr>"

definition ci_set_reliable :: "client_invite_txn \<Rightarrow> bool \<Rightarrow> client_invite_txn" where
  "ci_set_reliable s r = s\<lparr> ci_reliable := r \<rparr>"

definition ci_enter_completed_non_ok ::
    "client_invite_txn \<Rightarrow> u16 \<Rightarrow> bytes \<Rightarrow> client_invite_txn \<times> transaction_action list" where
  "ci_enter_completed_non_ok s status final_bytes =
     (let ack_bytes = build_non_ok_ack (ci_invite s) final_bytes;
          s' = s\<lparr> ci_state := (if ci_reliable s then Terminated else Completed),
                  ci_ack_for_non_ok := ack_bytes \<rparr>
      in (s', [DeliverResponseToTu status final_bytes, CancelTimer TimerA, CancelTimer TimerB]
              @ (case ack_bytes of Some ack \<Rightarrow> [SendToPeer ack] | None \<Rightarrow> [])
              @ (if ci_reliable s then [ActTerminated] else [ArmTimer TimerD TIMER_D])))"

definition ci_enter_terminated_on_2xx ::
    "client_invite_txn \<Rightarrow> u16 \<Rightarrow> bytes \<Rightarrow> client_invite_txn \<times> transaction_action list" where
  "ci_enter_terminated_on_2xx s status final_bytes =
     (s\<lparr> ci_state := Terminated \<rparr>,
      [DeliverResponseToTu status final_bytes, CancelTimer TimerA, CancelTimer TimerB, ActTerminated])"

definition ci_on_event ::
    "client_invite_txn \<Rightarrow> transaction_event \<Rightarrow> client_invite_txn \<times> transaction_action list" where
  "ci_on_event s event =
     (case event of
        StartClient \<Rightarrow>
          if ci_state s = Calling then
            (s, [SendToPeer (ci_invite s)]
                @ (if \<not> ci_reliable s then [ArmTimer TimerA T1] else [])
                @ [ArmTimer TimerB TIMEOUT_64T1])
          else (s, [])
      | TimerFired i \<Rightarrow>
          if ci_state s = Calling \<and> i = TimerA then
            (let attempt = saturating_add (ci_attempt s) 1;
                 cap = from_secs 3600;
                 nxt = doubling_backoff attempt cap
             in (s\<lparr> ci_attempt := attempt \<rparr>, [SendToPeer (ci_invite s), ArmTimer TimerA nxt]))
          else if (ci_state s = Calling \<or> ci_state s = Proceeding) \<and> i = TimerB then
            (s\<lparr> ci_state := Terminated \<rparr>, [CancelTimer TimerA, ActTerminated])
          else if ci_state s = Completed \<and> i = TimerD then
            (s\<lparr> ci_state := Terminated \<rparr>, [ActTerminated])
          else (s, [])
      | ResponseReceived status bs \<Rightarrow>
          if ci_state s = Calling \<and> is_1xx status then
            (s\<lparr> ci_state := Proceeding \<rparr>, [CancelTimer TimerA, DeliverResponseToTu status bs])
          else if ci_state s = Proceeding \<and> is_1xx status then
            (s, [DeliverResponseToTu status bs])
          else if (ci_state s = Calling \<or> ci_state s = Proceeding) \<and> is_2xx status then
            ci_enter_terminated_on_2xx s status bs
          else if (ci_state s = Calling \<or> ci_state s = Proceeding) \<and> is_non_ok status then
            ci_enter_completed_non_ok s status bs
          else if ci_state s = Completed \<and> is_non_ok status then
            (case ci_ack_for_non_ok s of Some ack \<Rightarrow> (s, [SendToPeer ack]) | None \<Rightarrow> (s, []))
          else (s, [])
      | _ \<Rightarrow> (s, []))"

lemmas ci_defs = ci_on_event_def ci_enter_completed_non_ok_def ci_enter_terminated_on_2xx_def
  ci_set_reliable_def Let_def

section \<open>The trait's laws\<close>

definition ci_guard :: "client_invite_txn \<Rightarrow> timer_id option" where
  "ci_guard s = (case ci_state s of Calling \<Rightarrow> Some TimerB | Proceeding \<Rightarrow> Some TimerB
     | Completed \<Rightarrow> Some TimerD | _ \<Rightarrow> None)"

lemmas ci_splits = transaction_event.splits if_splits option.splits transaction_state.splits

interpretation ci: transaction_fsm ci_key ci_state ci_set_reliable ci_on_event
  by unfold_locales (auto simp: ci_defs split: ci_splits)

interpretation ci_guarded: guarded_transaction ci_key ci_state ci_set_reliable ci_on_event ci_guard
  by unfold_locales (auto simp: ci_defs ci_guard_def split: ci_splits)

interpretation ci_deliver: delivering_transaction ci_key ci_state ci_set_reliable ci_on_event
  by unfold_locales (auto simp: ci_defs settled_def status_final_split split: ci_splits)

interpretation ci_profiled: profiled_transaction ci_key ci_state ci_set_reliable ci_on_event
  "\<lambda>s. ci_reliable s" TimerA
  by unfold_locales (auto simp: ci_defs split: ci_splits)

text \<open>The machine only ever visits four of the states.\<close>

definition ci_domain :: "client_invite_txn \<Rightarrow> bool" where
  "ci_domain s \<longleftrightarrow> ci_state s \<in> {Calling, Proceeding, Completed, Terminated}"

interpretation ci_typed: preserving_machine ci_on_event ci_domain
  by unfold_locales (auto simp: ci_domain_def ci_defs split: ci_splits)

section \<open>The documented state diagram\<close>

text \<open>The module's diagram, as a relation on states, and the event that labels each edge.\<close>

inductive ci_edge :: "bool \<Rightarrow> transaction_state \<Rightarrow> transaction_event \<Rightarrow> transaction_state \<Rightarrow> bool"
  for reliable :: bool where
  provisional: "is_1xx st \<Longrightarrow> ci_edge reliable Calling (ResponseReceived st bs) Proceeding"
| ok: "s \<in> {Calling, Proceeding} \<Longrightarrow> is_2xx st \<Longrightarrow> ci_edge reliable s (ResponseReceived st bs) Terminated"
| non_ok: "s \<in> {Calling, Proceeding} \<Longrightarrow> is_non_ok st \<Longrightarrow>
    ci_edge reliable s (ResponseReceived st bs) (if reliable then Terminated else Completed)"
| timeout: "s \<in> {Calling, Proceeding} \<Longrightarrow> ci_edge reliable s (TimerFired TimerB) Terminated"
| window_closed: "ci_edge reliable Completed (TimerFired TimerD) Terminated"

inductive_simps ci_edge_simps: "ci_edge r s e s'"

text \<open>Property C5.
  The client INVITE handler changes state exactly along the edges of the documented RFC 3261
  diagram: it takes every edge of the diagram and no other, and an event with no edge leaves the
  state alone.\<close>

theorem ci_follows_diagram:
  "ci_edge (ci_reliable s) (ci_state s) e st' \<or>
     (st' = ci_state s \<and> (\<nexists>st''. ci_edge (ci_reliable s) (ci_state s) e st''))
   \<longleftrightarrow> ci_state (fst (ci_on_event s e)) = st'"
proof (cases e)
  case (ResponseReceived st bs)
  then show ?thesis by (cases "ci_state s") (auto simp: ci_defs ci_edge_simps split: option.split)
next
  case (TimerFired i)
  then show ?thesis by (cases "ci_state s"; cases i) (auto simp: ci_defs ci_edge_simps)
qed (auto simp: ci_defs ci_edge_simps)

section \<open>Retransmission\<close>

text \<open>The machine after \<open>n\<close> firings of timer A.\<close>

lemma unat_saturating_inc: "unat (saturating_add a (1 :: u32)) = min (Suc (unat a)) (2 ^ 32 - 1)"
  by (simp add: unat_saturating_add)

lemma ci_timer_A_run:
  assumes "ci_state s = Calling" and "ci_reliable s = r"
  shows "fst (run ci_on_event s (replicate n (TimerFired TimerA))) =
     s\<lparr> ci_attempt := ci_attempt (fst (run ci_on_event s (replicate n (TimerFired TimerA)))) \<rparr> \<and>
     unat (ci_attempt (fst (run ci_on_event s (replicate n (TimerFired TimerA))))) =
       min (unat (ci_attempt s) + n) (2 ^ 32 - 1)"
  using assms
proof (induction n arbitrary: s)
  case 0
  have "unat (ci_attempt s) < 2 ^ 32" using unsigned_less [of "ci_attempt s"] by simp
  then show ?case by simp
next
  case (Suc n)
  let ?s' = "s\<lparr> ci_attempt := saturating_add (ci_attempt s) 1 \<rparr>"
  have "fst (ci_on_event s (TimerFired TimerA)) = ?s'" using Suc.prems by (simp add: ci_defs)
  then have step: "fst (run ci_on_event s (replicate (Suc n) (TimerFired TimerA))) =
      fst (run ci_on_event ?s' (replicate n (TimerFired TimerA)))"
    by (simp add: case_prod_unfold Let_def)
  show ?case unfolding step using Suc.IH [of ?s'] Suc.prems
    by (simp add: unat_saturating_inc del: replicate_Suc)
qed

lemma ci_backoff_saturates:
  "min (T1 * 2 ^ min n (2 ^ 32 - 1)) (from_secs 3600) = min (T1 * 2 ^ n) (from_secs 3600)"
proof (cases "n \<le> 2 ^ 32 - 1")
  case False
  then have "(2::nat) ^ 16 \<le> 2 ^ n" "(2::nat) ^ 16 \<le> 2 ^ min n (2 ^ 32 - 1)"
    by (intro power_increasing; simp)+
  moreover have "from_secs 3600 \<le> T1 * 2 ^ 16" by (simp add: timer_const_defs)
  ultimately have "from_secs 3600 \<le> T1 * 2 ^ n" "from_secs 3600 \<le> T1 * 2 ^ min n (2 ^ 32 - 1)"
    using mult_le_mono2 order_trans by blast+
  then show ?thesis by (simp only: min_absorb2)
qed (simp only: min_absorb1)

text \<open>Property C6.
  While the INVITE is unanswered, a firing of timer A after \<open>n\<close> earlier ones re-sends the INVITE
  verbatim and re-arms the timer with \<open>2^(n+1)\<close> times T1, cut at one hour: the saturating attempt
  counter and the clamped shift never disturb the schedule, however often the timer fires.\<close>

theorem ci_retransmit_schedule:
  "snd (ci_on_event (fst (run ci_on_event (ci_new br req) (replicate n (TimerFired TimerA))))
          (TimerFired TimerA)) =
     [SendToPeer req, ArmTimer TimerA (min (T1 * 2 ^ Suc n) (from_secs 3600))]"
proof -
  let ?s = "fst (run ci_on_event (ci_new br req) (replicate n (TimerFired TimerA)))"
  have run: "?s = (ci_new br req)\<lparr> ci_attempt := ci_attempt ?s \<rparr>"
    and att: "unat (ci_attempt ?s) = min n (2 ^ 32 - 1)"
    using ci_timer_A_run [of "ci_new br req" False n] by (simp_all add: ci_new_def)
  have st: "ci_state ?s = Calling" "ci_invite ?s = req"
    by (subst run, simp add: ci_new_def)+
  have "unat (saturating_add (ci_attempt ?s) 1) = min (Suc n) (2 ^ 32 - 1)"
    unfolding unat_saturating_inc att by simp
  moreover have "from_secs 3600 \<le> T1 * 2 ^ 16" by (simp add: timer_const_defs)
  ultimately show ?thesis
    using ci_backoff_saturates [of "Suc n"] by (simp add: ci_on_event_def Let_def st doubling_backoff_ideal)
qed

section \<open>Life cycle\<close>

text \<open>Result.
  Once started, a client INVITE transaction cannot leak, whatever sequence of responses, timers
  and stray events follows: it is terminated, or the timer that bounds its state (B before the
  final response, D after) is armed.\<close>

theorem ci_never_leaks:
  fixes br req r es
  defines "s0 \<equiv> ci_set_reliable (ci_new br req) r"
  defines "s \<equiv> fst (run ci_on_event s0 (StartClient # es))"
  shows "ci_state s = Terminated \<or>
    (\<exists>g \<in> {TimerB, TimerD}. ci_guard s = Some g \<and>
       ci_guarded.run_timers s0 Map.empty (StartClient # es) g \<noteq> None)"
proof (cases "ci_guard s")
  case None
  have "ci_domain s0" by (simp add: s0_def ci_domain_def ci_new_def ci_set_reliable_def)
  then have "ci_domain s" unfolding s_def by (rule ci_typed.run_preserves)
  with None show ?thesis by (auto simp: ci_domain_def ci_guard_def split: transaction_state.splits)
next
  case (Some g)
  let ?m = "foldl timer_effect Map.empty (snd (ci_on_event s0 StartClient))"
  have "?m TimerB \<noteq> None" by (simp add: s0_def ci_defs ci_new_def)
  moreover have "ci_guard (fst (ci_on_event s0 StartClient)) = Some TimerB"
    by (simp add: s0_def ci_defs ci_new_def ci_guard_def)
  moreover have "ci_guard (fst (run ci_on_event (fst (ci_on_event s0 StartClient)) es)) = Some g"
    using Some by (simp add: s_def case_prod_unfold Let_def)
  ultimately have "ci_guarded.run_timers (fst (ci_on_event s0 StartClient)) ?m es g \<noteq> None"
    by (intro ci_guarded.run_guarded) auto
  with Some show ?thesis by (auto simp: ci_guard_def split: transaction_state.splits)
qed

text \<open>Property C4.
  Over any run of a client INVITE transaction, on a reliable or an unreliable transport, at most one
  final response reaches the transaction user, and \<^verbatim>\<open>Terminated\<close> is emitted exactly
  when the run ends terminated, once, as the very last action.\<close>

theorem ci_one_final_then_terminated:
  fixes br req reliable es
  defines "s0 \<equiv> ci_set_reliable (ci_new br req) reliable"
  shows "length (filter delivers_final (snd (run ci_on_event s0 es))) \<le> 1 \<and>
   (ActTerminated \<in> set (snd (run ci_on_event s0 es)) \<longleftrightarrow> ci_state (fst (run ci_on_event s0 es)) = Terminated) \<and>
   ActTerminated \<notin> set (butlast (snd (run ci_on_event s0 es)))"
proof -
  have "ci_state s0 = Calling" by (simp add: s0_def ci_new_def)
  then show ?thesis
    using ci_deliver.run_one_final [of s0 es] by (simp add: ci.run_terminated_iff ci.run_terminated_last)
qed

text \<open>Result.
  In Completed every retransmission of a non-2xx final is answered with the ACK built from the
  INVITE and the first final, byte for byte, and never reaches the transaction user again.\<close>

theorem ci_duplicate_final_resends_ack:
  assumes "ci_state s \<in> {Calling, Proceeding}" and "\<not> ci_reliable s"
    and "is_non_ok st" and "build_non_ok_ack (ci_invite s) final = Some ack"
    and "\<forall>(st', _) \<in> set dups. is_non_ok st'"
  shows "snd (run ci_on_event s (ResponseReceived st final # map (\<lambda>(st', b). ResponseReceived st' b) dups)) =
    [DeliverResponseToTu st final, CancelTimer TimerA, CancelTimer TimerB, SendToPeer ack,
     ArmTimer TimerD TIMER_D] @ replicate (length dups) (SendToPeer ack)"
proof -
  let ?c = "s\<lparr> ci_state := Completed, ci_ack_for_non_ok := Some ack \<rparr>"
  have dup: "ci_on_event ?c (ResponseReceived st' b) = (?c, [SendToPeer ack])" if "is_non_ok st'" for st' b
    using that by (auto simp: ci_defs)
  have dups: "run ci_on_event ?c (map (\<lambda>(st', b). ResponseReceived st' b) dups) =
      (?c, replicate (length dups) (SendToPeer ack))"
    using assms(5) by (induction dups) (auto simp: dup)
  have "ci_on_event s (ResponseReceived st final) =
      (?c, [DeliverResponseToTu st final, CancelTimer TimerA, CancelTimer TimerB, SendToPeer ack,
            ArmTimer TimerD TIMER_D])"
    using assms(1-4) status_classes_disjoint [of st] by (auto simp: ci_defs)
  then show ?thesis by (simp add: dups [unfolded case_prod_unfold] case_prod_unfold Let_def)
qed

theorem ci_duplicate_final_resends_ack_witness:
  "snd (run ci_on_event (ci_new ''z'' sample_invite)
      [ResponseReceived 404 sample_404, ResponseReceived 404 sample_404]) =
    [DeliverResponseToTu 404 sample_404, CancelTimer TimerA, CancelTimer TimerB,
     SendToPeer (the (build_non_ok_ack sample_invite sample_404)), ArmTimer TimerD TIMER_D,
     SendToPeer (the (build_non_ok_ack sample_invite sample_404))]"
  using ci_duplicate_final_resends_ack [of "ci_new ''z'' sample_invite" 404 sample_404 _ "[(404, sample_404)]"]
  by (simp add: ci_new_def sample_ack status_in_def del: run.simps)

end
