(* ===== verification/Client_Non_Invite.thy ===== *)
theory Client_Non_Invite
  imports Txn_Types
begin

text \<open>
  The client non-INVITE machine (\<^verbatim>\<open>smiths-sip/src/txn/client_non_invite.rs\<close>).
\<close>

section \<open>Model\<close>

record client_non_invite_txn =
  cn_key :: transaction_key
  cn_state :: transaction_state
  cn_request :: bytes
  cn_attempt :: u32
  cn_reliable :: bool

definition cn_new :: "string \<Rightarrow> string \<Rightarrow> bytes \<Rightarrow> client_non_invite_txn" where
  "cn_new br mth request =
     \<lparr> cn_key = \<lparr> branch = br, method = mth, role = Client \<rparr>, cn_state = Trying,
       cn_request = request, cn_attempt = 0, cn_reliable = False \<rparr>"

definition cn_set_reliable :: "client_non_invite_txn \<Rightarrow> bool \<Rightarrow> client_non_invite_txn" where
  "cn_set_reliable s r = s\<lparr> cn_reliable := r \<rparr>"

definition cn_enter_completed ::
    "client_non_invite_txn \<Rightarrow> bytes \<Rightarrow> u16 \<Rightarrow> client_non_invite_txn \<times> transaction_action list" where
  "cn_enter_completed s final_bytes status =
     (let actions = [DeliverResponseToTu status final_bytes, CancelTimer TimerE, CancelTimer TimerF]
      in if cn_reliable s then (s\<lparr> cn_state := Terminated \<rparr>, actions @ [ActTerminated])
         else (s\<lparr> cn_state := Completed \<rparr>, actions @ [ArmTimer TimerK T4]))"

definition cn_on_event ::
    "client_non_invite_txn \<Rightarrow> transaction_event \<Rightarrow> client_non_invite_txn \<times> transaction_action list" where
  "cn_on_event s event =
     (case event of
        StartClient \<Rightarrow>
          if cn_state s = Trying then
            (s, [SendToPeer (cn_request s)]
                @ (if \<not> cn_reliable s then [ArmTimer TimerE T1] else [])
                @ [ArmTimer TimerF TIMEOUT_64T1])
          else (s, [])
      | TimerFired i \<Rightarrow>
          if cn_state s = Trying \<and> i = TimerE then
            (let attempt = saturating_add (cn_attempt s) 1;
                 nxt = doubling_backoff attempt T2
             in (s\<lparr> cn_attempt := attempt \<rparr>, [SendToPeer (cn_request s), ArmTimer TimerE nxt]))
          else if cn_state s = Proceeding \<and> i = TimerE then
            (s, [SendToPeer (cn_request s), ArmTimer TimerE T2])
          else if (cn_state s = Trying \<or> cn_state s = Proceeding) \<and> i = TimerF then
            (s\<lparr> cn_state := Terminated \<rparr>, [CancelTimer TimerE, ActTerminated])
          else if cn_state s = Completed \<and> i = TimerK then
            (s\<lparr> cn_state := Terminated \<rparr>, [ActTerminated])
          else (s, [])
      | ResponseReceived status bs \<Rightarrow>
          if cn_state s = Trying \<and> is_1xx status then
            (s\<lparr> cn_state := Proceeding \<rparr>,
             [DeliverResponseToTu status bs] @ (if \<not> cn_reliable s then [ArmTimer TimerE T2] else []))
          else if cn_state s = Proceeding \<and> is_1xx status then
            (s, [DeliverResponseToTu status bs])
          else if (cn_state s = Trying \<or> cn_state s = Proceeding) \<and> is_final status then
            cn_enter_completed s bs status
          else (s, [])
      | _ \<Rightarrow> (s, []))"

lemmas cn_defs = cn_on_event_def cn_enter_completed_def cn_set_reliable_def Let_def

section \<open>The trait's laws\<close>

definition cn_guard :: "client_non_invite_txn \<Rightarrow> timer_id option" where
  "cn_guard s = (case cn_state s of Trying \<Rightarrow> Some TimerF | Proceeding \<Rightarrow> Some TimerF
     | Completed \<Rightarrow> Some TimerK | _ \<Rightarrow> None)"

lemmas cn_splits = transaction_event.splits if_splits option.splits transaction_state.splits

interpretation cn: transaction_fsm cn_key cn_state cn_set_reliable cn_on_event
  by unfold_locales (auto simp: cn_defs split: cn_splits)

interpretation cn_guarded: guarded_transaction cn_key cn_state cn_set_reliable cn_on_event cn_guard
  by unfold_locales (auto simp: cn_defs cn_guard_def split: cn_splits)

interpretation cn_deliver: delivering_transaction cn_key cn_state cn_set_reliable cn_on_event
  by unfold_locales (auto simp: cn_defs settled_def status_final_split split: cn_splits)

interpretation cn_profiled: profiled_transaction cn_key cn_state cn_set_reliable cn_on_event
  "\<lambda>s. cn_reliable s" TimerE
  by unfold_locales (auto simp: cn_defs split: cn_splits)

definition cn_domain :: "client_non_invite_txn \<Rightarrow> bool" where
  "cn_domain s \<longleftrightarrow> cn_state s \<in> {Trying, Proceeding, Completed, Terminated}"

interpretation cn_typed: preserving_machine cn_on_event cn_domain
  by unfold_locales (auto simp: cn_domain_def cn_defs split: cn_splits)

section \<open>The documented state diagram\<close>

inductive cn_edge :: "bool \<Rightarrow> transaction_state \<Rightarrow> transaction_event \<Rightarrow> transaction_state \<Rightarrow> bool"
  for reliable :: bool where
  provisional: "is_1xx st \<Longrightarrow> cn_edge reliable Trying (ResponseReceived st bs) Proceeding"
| final_response: "s \<in> {Trying, Proceeding} \<Longrightarrow> is_final st \<Longrightarrow>
    cn_edge reliable s (ResponseReceived st bs) (if reliable then Terminated else Completed)"
| timeout: "s \<in> {Trying, Proceeding} \<Longrightarrow> cn_edge reliable s (TimerFired TimerF) Terminated"
| window_closed: "cn_edge reliable Completed (TimerFired TimerK) Terminated"

inductive_simps cn_edge_simps: "cn_edge r s e s'"

text \<open>Result.
  The client non-INVITE handler changes state exactly along the edges of its RFC 3261 diagram.\<close>

theorem cn_follows_diagram:
  "cn_edge (cn_reliable s) (cn_state s) e st' \<or>
     (st' = cn_state s \<and> (\<nexists>st''. cn_edge (cn_reliable s) (cn_state s) e st''))
   \<longleftrightarrow> cn_state (fst (cn_on_event s e)) = st'"
proof (cases e)
  case (ResponseReceived st bs)
  then show ?thesis by (cases "cn_state s") (auto simp: cn_defs cn_edge_simps)
next
  case (TimerFired i)
  then show ?thesis by (cases "cn_state s"; cases i) (auto simp: cn_defs cn_edge_simps)
qed (auto simp: cn_defs cn_edge_simps)

section \<open>Life cycle\<close>

text \<open>Every delay the machine arms timer E with lies between T1 and T2.\<close>

lemma cn_retransmit_bounds:
  "ArmTimer TimerE d \<in> set (snd (run cn_on_event s es)) \<Longrightarrow> T1 \<le> d \<and> d \<le> T2"
proof (induction es arbitrary: s)
  case (Cons e es)
  have "T1 \<le> d \<and> d \<le> T2" if "ArmTimer TimerE d \<in> set (snd (cn_on_event s e))"
    using that doubling_backoff_bounds [where cap = T2 and a = "saturating_add (cn_attempt s) 1"]
    by (auto simp: cn_defs split: cn_splits) (auto simp: timer_const_defs)
  with Cons show ?case by (auto simp: case_prod_unfold Let_def)
qed simp

text \<open>Result.
  Whatever happens to it, a client non-INVITE transaction re-sends its own request and nothing
  else, paces the retransmissions between T1 and T2, and on a reliable transport never schedules
  one.\<close>

theorem cn_sends_only_its_request:
  "(\<forall>b. SendToPeer b \<in> set (snd (run cn_on_event (cn_new br m req) es)) \<longrightarrow> b = req) \<and>
   (\<forall>d. ArmTimer TimerE d \<in> set (snd (run cn_on_event (cn_new br m req) es)) \<longrightarrow> T1 \<le> d \<and> d \<le> T2) \<and>
   (TimerFired TimerE \<notin> set es \<longrightarrow>
      (\<forall>d. ArmTimer TimerE d \<notin> set (snd (run cn_on_event (cn_set_reliable (cn_new br m req) True) es))))"
proof (intro conjI allI impI)
  have "b = cn_request s" if "SendToPeer b \<in> set (snd (run cn_on_event s es))" for s b
    using that
  proof (induction es arbitrary: s)
    case (Cons e es)
    have "b = cn_request s" if "SendToPeer b \<in> set (snd (cn_on_event s e))"
      using that by (auto simp: cn_defs split: cn_splits)
    moreover have "cn_request (fst (cn_on_event s e)) = cn_request s"
      by (auto simp: cn_defs split: cn_splits)
    ultimately show ?case using Cons by (auto simp: case_prod_unfold Let_def)
  qed simp
  from this [of _ "cn_new br m req"]
  show "b = req" if "SendToPeer b \<in> set (snd (run cn_on_event (cn_new br m req) es))" for b
    using that by (simp add: cn_new_def)
next
  fix d assume "TimerFired TimerE \<notin> set es"
  moreover have "cn_reliable (cn_set_reliable (cn_new br m req) True)" by (simp add: cn_set_reliable_def)
  ultimately show "ArmTimer TimerE d \<notin> set (snd (run cn_on_event (cn_set_reliable (cn_new br m req) True) es))"
    using cn_profiled.run_quiet by (metis arms_simps(1))
qed (simp_all add: cn_retransmit_bounds)

theorem cn_sends_only_its_request_witness:
  "ArmTimer TimerE T1 \<notin> set (snd (run cn_on_event (cn_set_reliable (cn_new ''z'' ''BYE'' ''q'') True)
      [StartClient, ResponseReceived 200 ''ok'']))"
  using cn_sends_only_its_request [of "''z''" "''BYE''" "''q''" "[StartClient, ResponseReceived 200 ''ok'']"]
  by (simp del: run.simps)

text \<open>Result.
  Once started, a client non-INVITE transaction cannot leak: it is terminated, or the timer that
  bounds its state (F before the final response, K after) is armed; the final response is
  delivered at most once.\<close>

theorem cn_never_leaks:
  fixes br m req r es
  defines "s0 \<equiv> cn_set_reliable (cn_new br m req) r"
  defines "s \<equiv> fst (run cn_on_event s0 (StartClient # es))"
  shows "(cn_state s = Terminated \<or>
     (\<exists>g \<in> {TimerF, TimerK}. cn_guard s = Some g \<and>
       cn_guarded.run_timers s0 Map.empty (StartClient # es) g \<noteq> None)) \<and>
    length (filter delivers_final (snd (run cn_on_event s0 (StartClient # es)))) \<le> 1"
proof (rule conjI [OF _ cn_deliver.run_one_final], cases "cn_guard s")
  case None
  have "cn_domain s0" by (simp add: s0_def cn_domain_def cn_new_def cn_set_reliable_def)
  then have "cn_domain s" unfolding s_def by (rule cn_typed.run_preserves)
  with None show "cn_state s = Terminated \<or>
     (\<exists>g \<in> {TimerF, TimerK}. cn_guard s = Some g \<and>
       cn_guarded.run_timers s0 Map.empty (StartClient # es) g \<noteq> None)"
    by (auto simp: cn_domain_def cn_guard_def split: transaction_state.splits)
next
  case (Some g)
  let ?m = "foldl timer_effect Map.empty (snd (cn_on_event s0 StartClient))"
  have "?m TimerF \<noteq> None" by (simp add: s0_def cn_defs cn_new_def)
  moreover have "cn_guard (fst (cn_on_event s0 StartClient)) = Some TimerF"
    by (simp add: s0_def cn_defs cn_new_def cn_guard_def)
  moreover have "cn_guard (fst (run cn_on_event (fst (cn_on_event s0 StartClient)) es)) = Some g"
    using Some by (simp add: s_def case_prod_unfold Let_def)
  ultimately have "cn_guarded.run_timers (fst (cn_on_event s0 StartClient)) ?m es g \<noteq> None"
    by (intro cn_guarded.run_guarded) auto
  with Some show "cn_state s = Terminated \<or>
     (\<exists>g \<in> {TimerF, TimerK}. cn_guard s = Some g \<and>
       cn_guarded.run_timers s0 Map.empty (StartClient # es) g \<noteq> None)"
    by (auto simp: cn_guard_def split: transaction_state.splits)
qed

end
