(* ===== verification/Server_Invite.thy ===== *)
theory Server_Invite
  imports Txn_Types
begin

text \<open>
  The server INVITE machine (\<^verbatim>\<open>smiths-sip/src/txn/server_invite.rs\<close>).
\<close>

section \<open>Model\<close>

record server_invite_txn =
  si_key :: transaction_key
  si_state :: transaction_state
  si_last_response :: "bytes option"
  si_g_attempt :: u32
  si_reliable :: bool

definition si_new :: "string \<Rightarrow> server_invite_txn" where
  "si_new br =
     \<lparr> si_key = \<lparr> branch = br, method = ''INVITE'', role = Server \<rparr>, si_state = Proceeding,
       si_last_response = None, si_g_attempt = 0, si_reliable = False \<rparr>"

definition si_set_reliable :: "server_invite_txn \<Rightarrow> bool \<Rightarrow> server_invite_txn" where
  "si_set_reliable s r = s\<lparr> si_reliable := r \<rparr>"

definition si_on_event ::
    "server_invite_txn \<Rightarrow> transaction_event \<Rightarrow> server_invite_txn \<times> transaction_action list" where
  "si_on_event s event =
     (case event of
        SendResponseFromTu status bs \<Rightarrow>
          if si_state s = Proceeding \<and> is_1xx status then
            (s\<lparr> si_last_response := Some bs \<rparr>, [SendToPeer bs])
          else if si_state s = Proceeding \<and> is_2xx status then
            (s\<lparr> si_state := Terminated \<rparr>, [SendToPeer bs, ActTerminated])
          else if si_state s = Proceeding \<and> is_non_ok status then
            (s\<lparr> si_state := Completed, si_last_response := Some bs \<rparr>,
             [SendToPeer bs] @ (if \<not> si_reliable s then [ArmTimer TimerG T1] else [])
               @ [ArmTimer TimerH TIMEOUT_64T1])
          else (s, [])
      | RequestReceived m _ \<Rightarrow>
          if si_state s = Proceeding \<and> m = ''INVITE'' then
            (case si_last_response s of Some lst \<Rightarrow> (s, [SendToPeer lst]) | None \<Rightarrow> (s, []))
          else if si_state s = Completed \<and> m = ''INVITE'' then
            (case si_last_response s of Some lst \<Rightarrow> (s, [SendToPeer lst]) | None \<Rightarrow> (s, []))
          else if si_state s = Completed \<and> m = ''ACK'' then
            (let actions = [CancelTimer TimerG, CancelTimer TimerH]
             in if si_reliable s then (s\<lparr> si_state := Terminated \<rparr>, actions @ [ActTerminated])
                else (s\<lparr> si_state := Confirmed \<rparr>, actions @ [ArmTimer TimerI T4]))
          else (s, [])
      | TimerFired i \<Rightarrow>
          if si_state s = Completed \<and> i = TimerG then
            (let attempt = saturating_add (si_g_attempt s) 1;
                 nxt = doubling_backoff attempt T2;
                 s' = s\<lparr> si_g_attempt := attempt \<rparr>
             in case si_last_response s of
                  Some lst \<Rightarrow> (s', [SendToPeer lst, ArmTimer TimerG nxt])
                | None \<Rightarrow> (s', []))
          else if si_state s = Completed \<and> i = TimerH then
            (s\<lparr> si_state := Terminated \<rparr>, [CancelTimer TimerG, ActTerminated])
          else if si_state s = Confirmed \<and> i = TimerI then
            (s\<lparr> si_state := Terminated \<rparr>, [ActTerminated])
          else (s, [])
      | _ \<Rightarrow> (s, []))"

lemmas si_defs = si_on_event_def si_set_reliable_def Let_def

section \<open>The trait's laws\<close>

definition si_guard :: "server_invite_txn \<Rightarrow> timer_id option" where
  "si_guard s = (case si_state s of Completed \<Rightarrow> Some TimerH | Confirmed \<Rightarrow> Some TimerI | _ \<Rightarrow> None)"

lemmas si_splits = transaction_event.splits if_splits option.splits transaction_state.splits

interpretation si: transaction_fsm si_key si_state si_set_reliable si_on_event
  by unfold_locales (auto simp: si_defs split: si_splits)

interpretation si_guarded: guarded_transaction si_key si_state si_set_reliable si_on_event si_guard
  by unfold_locales (auto simp: si_defs si_guard_def split: si_splits)

interpretation si_profiled: profiled_transaction si_key si_state si_set_reliable si_on_event
  "\<lambda>s. si_reliable s" TimerG
  by unfold_locales (auto simp: si_defs split: si_splits)

text \<open>Reachable shape: a machine past its final response holds that response.\<close>

definition si_inv :: "server_invite_txn \<Rightarrow> bool" where
  "si_inv s \<longleftrightarrow> si_state s \<in> {Proceeding, Completed, Confirmed, Terminated} \<and>
     (si_state s \<in> {Completed, Confirmed} \<longrightarrow> si_last_response s \<noteq> None)"

interpretation si_typed: preserving_machine si_on_event si_inv
  by unfold_locales (auto simp: si_inv_def si_defs split: si_splits)

section \<open>The documented state diagram\<close>

inductive si_edge :: "bool \<Rightarrow> transaction_state \<Rightarrow> transaction_event \<Rightarrow> transaction_state \<Rightarrow> bool"
  for reliable :: bool where
  ok: "is_2xx st \<Longrightarrow> si_edge reliable Proceeding (SendResponseFromTu st bs) Terminated"
| non_ok: "is_non_ok st \<Longrightarrow> si_edge reliable Proceeding (SendResponseFromTu st bs) Completed"
| ack: "si_edge reliable Completed (RequestReceived ''ACK'' bs) (if reliable then Terminated else Confirmed)"
| no_ack: "si_edge reliable Completed (TimerFired TimerH) Terminated"
| absorbed: "si_edge reliable Confirmed (TimerFired TimerI) Terminated"

inductive_simps si_edge_simps: "si_edge r s e s'"

text \<open>Result.
  The server INVITE handler changes state exactly along the edges of its RFC 3261 diagram.\<close>

theorem si_follows_diagram:
  "si_edge (si_reliable s) (si_state s) e st' \<or>
     (st' = si_state s \<and> (\<nexists>st''. si_edge (si_reliable s) (si_state s) e st''))
   \<longleftrightarrow> si_state (fst (si_on_event s e)) = st'"
proof (cases e)
  case (RequestReceived m bs)
  then show ?thesis
    by (cases "si_state s"; cases "si_last_response s") (auto simp: si_defs si_edge_simps)
next
  case (SendResponseFromTu st bs)
  then show ?thesis by (cases "si_state s") (auto simp: si_defs si_edge_simps)
next
  case (TimerFired i)
  then show ?thesis
    by (cases "si_state s"; cases i) (auto simp: si_defs si_edge_simps split: option.split)
qed (auto simp: si_defs si_edge_simps)

section \<open>Retransmission\<close>

text \<open>Result.
  After a non-2xx final the server INVITE machine answers every further INVITE and every firing of
  timer G with exactly that final, until an ACK arrives or timer H gives up; the timer is always
  re-armed, between T1 and T2, so the branches for a missing cached response are dead code. Later
  responses from the transaction user are ignored.\<close>

theorem si_final_is_replayed:
  fixes br :: string and final :: bytes
  assumes "is_non_ok st"
    and "\<forall>e \<in> set es. e \<noteq> TimerFired TimerH \<and> (\<forall>b. e \<noteq> RequestReceived ''ACK'' b)"
  defines "s \<equiv> fst (run si_on_event (si_new br) (SendResponseFromTu st final # es))"
  shows "snd (si_on_event s (RequestReceived ''INVITE'' b)) = [SendToPeer final] \<and>
    (\<exists>d. T1 \<le> d \<and> d \<le> T2 \<and>
       snd (si_on_event s (TimerFired TimerG)) = [SendToPeer final, ArmTimer TimerG d]) \<and>
    snd (si_on_event s (SendResponseFromTu st' b')) = []"
proof (intro conjI)
  let ?P = "\<lambda>s. si_state s = Completed \<and> si_last_response s = Some final"
  have keep: "?P (fst (run si_on_event s es))" if "?P s" for s
    using that assms(2)
  proof (induction es arbitrary: s)
    case (Cons e es)
    then have "?P (fst (si_on_event s e))" by (cases e) (auto simp: si_defs)
    with Cons show ?case by (simp add: case_prod_unfold Let_def)
  qed simp
  have "?P (fst (si_on_event (si_new br) (SendResponseFromTu st final)))"
    using assms(1) status_classes_disjoint [of st] by (auto simp: si_defs si_new_def)
  from keep [OF this] have P: "?P s" by (simp add: s_def case_prod_unfold Let_def)
  then show "snd (si_on_event s (RequestReceived ''INVITE'' b)) = [SendToPeer final]"
    and "snd (si_on_event s (SendResponseFromTu st' b')) = []" by (simp_all add: si_defs)
  have "T1 \<le> min T1 T2" by (simp add: timer_const_defs)
  with doubling_backoff_bounds [where cap = T2] P
  show "\<exists>d. T1 \<le> d \<and> d \<le> T2 \<and> snd (si_on_event s (TimerFired TimerG)) = [SendToPeer final, ArmTimer TimerG d]"
    by (auto simp: si_defs intro: order_trans)
qed

theorem si_final_is_replayed_witness:
  "snd (si_on_event (fst (run si_on_event (si_new ''z'')
      [SendResponseFromTu 486 ''busy'', TimerFired TimerG])) (RequestReceived ''INVITE'' [])) =
     [SendToPeer ''busy'']"
  using si_final_is_replayed [of 486 "[TimerFired TimerG]" "''z''" "''busy''"]
  by (simp add: status_in_def del: run.simps)

text \<open>Result.
  A server INVITE transaction that has sent a final response cannot leak: in every reachable state
  past Proceeding it is terminated, or timer H (waiting for the ACK) or timer I (absorbing its
  retransmissions) is armed. It emits \<^verbatim>\<open>Terminated\<close> exactly when it ends, as
  its last action.\<close>

theorem si_never_leaks:
  fixes br r es
  defines "s0 \<equiv> si_set_reliable (si_new br) r"
  defines "s \<equiv> fst (run si_on_event s0 es)"
  shows "(si_state s \<in> {Proceeding, Terminated} \<or>
      (\<exists>g \<in> {TimerH, TimerI}. si_guard s = Some g \<and> si_guarded.run_timers s0 Map.empty es g \<noteq> None)) \<and>
    (ActTerminated \<in> set (snd (run si_on_event s0 es)) \<longleftrightarrow> si_state s = Terminated) \<and>
    ActTerminated \<notin> set (butlast (snd (run si_on_event s0 es)))"
proof (intro conjI)
  have "si_inv s0" by (simp add: s0_def si_inv_def si_new_def si_set_reliable_def)
  then have inv: "si_inv s" unfolding s_def by (rule si_typed.run_preserves)
  have "si_guarded.run_timers s0 Map.empty es g \<noteq> None" if "si_guard s = Some g" for g
    using that unfolding s_def
    by (intro si_guarded.run_guarded) (simp_all add: s0_def si_guard_def si_new_def si_set_reliable_def)
  with inv show "si_state s \<in> {Proceeding, Terminated} \<or>
      (\<exists>g \<in> {TimerH, TimerI}. si_guard s = Some g \<and> si_guarded.run_timers s0 Map.empty es g \<noteq> None)"
    by (auto simp: si_inv_def si_guard_def split: transaction_state.splits)
  show "ActTerminated \<in> set (snd (run si_on_event s0 es)) \<longleftrightarrow> si_state s = Terminated"
    unfolding s_def by (simp add: si.run_terminated_iff) (simp add: s0_def si_new_def si_set_reliable_def)
qed (rule si.run_terminated_last)

end
