(* ===== verification/Server_Non_Invite.thy ===== *)
theory Server_Non_Invite
  imports Txn_Types
begin

text \<open>
  The server non-INVITE machine (\<^verbatim>\<open>smiths-sip/src/txn/server_non_invite.rs\<close>).
\<close>

section \<open>Model\<close>

record server_non_invite_txn =
  sn_key :: transaction_key
  sn_state :: transaction_state
  sn_last_response :: "bytes option"
  sn_reliable :: bool

definition sn_new :: "string \<Rightarrow> string \<Rightarrow> server_non_invite_txn" where
  "sn_new br mth =
     \<lparr> sn_key = \<lparr> branch = br, method = mth, role = Server \<rparr>, sn_state = Trying,
       sn_last_response = None, sn_reliable = False \<rparr>"

definition sn_set_reliable :: "server_non_invite_txn \<Rightarrow> bool \<Rightarrow> server_non_invite_txn" where
  "sn_set_reliable s r = s\<lparr> sn_reliable := r \<rparr>"

definition sn_emit_final ::
    "server_non_invite_txn \<Rightarrow> bytes \<Rightarrow> server_non_invite_txn \<times> transaction_action list" where
  "sn_emit_final s bs =
     (let s' = s\<lparr> sn_last_response := Some bs \<rparr>
      in if sn_reliable s then (s'\<lparr> sn_state := Terminated \<rparr>, [SendToPeer bs, ActTerminated])
         else (s'\<lparr> sn_state := Completed \<rparr>, [SendToPeer bs, ArmTimer TimerJ TIMEOUT_64T1]))"

definition sn_on_event ::
    "server_non_invite_txn \<Rightarrow> transaction_event \<Rightarrow> server_non_invite_txn \<times> transaction_action list" where
  "sn_on_event s event =
     (case event of
        SendResponseFromTu status bs \<Rightarrow>
          if sn_state s = Trying \<and> is_1xx status then
            (s\<lparr> sn_state := Proceeding, sn_last_response := Some bs \<rparr>, [SendToPeer bs])
          else if (sn_state s = Trying \<or> sn_state s = Proceeding) \<and> is_final status then
            sn_emit_final s bs
          else if sn_state s = Proceeding \<and> is_1xx status then
            (s\<lparr> sn_last_response := Some bs \<rparr>, [SendToPeer bs])
          else (s, [])
      | RequestReceived _ _ \<Rightarrow>
          if sn_state s = Proceeding \<or> sn_state s = Completed then
            (case sn_last_response s of Some lst \<Rightarrow> (s, [SendToPeer lst]) | None \<Rightarrow> (s, []))
          else (s, [])
      | TimerFired i \<Rightarrow>
          if sn_state s = Completed \<and> i = TimerJ then
            (s\<lparr> sn_state := Terminated \<rparr>, [ActTerminated])
          else (s, [])
      | _ \<Rightarrow> (s, []))"

lemmas sn_defs = sn_on_event_def sn_emit_final_def sn_set_reliable_def Let_def

section \<open>The trait's laws\<close>

definition sn_guard :: "server_non_invite_txn \<Rightarrow> timer_id option" where
  "sn_guard s = (case sn_state s of Completed \<Rightarrow> Some TimerJ | _ \<Rightarrow> None)"

lemmas sn_splits = transaction_event.splits if_splits option.splits transaction_state.splits

interpretation sn: transaction_fsm sn_key sn_state sn_set_reliable sn_on_event
  by unfold_locales (auto simp: sn_defs split: sn_splits)

interpretation sn_guarded: guarded_transaction sn_key sn_state sn_set_reliable sn_on_event sn_guard
  by unfold_locales (auto simp: sn_defs sn_guard_def split: sn_splits)

text \<open>Reachable shape: the cached response exists exactly from the first response on.\<close>

definition sn_inv :: "server_non_invite_txn \<Rightarrow> bool" where
  "sn_inv s \<longleftrightarrow> sn_state s \<in> {Trying, Proceeding, Completed, Terminated} \<and>
     (sn_state s = Trying \<longleftrightarrow> sn_last_response s = None)"

interpretation sn_typed: preserving_machine sn_on_event sn_inv
  by unfold_locales (auto simp: sn_inv_def sn_defs split: sn_splits)

section \<open>The documented state diagram\<close>

inductive sn_edge :: "bool \<Rightarrow> transaction_state \<Rightarrow> transaction_event \<Rightarrow> transaction_state \<Rightarrow> bool"
  for reliable :: bool where
  provisional: "is_1xx st \<Longrightarrow> sn_edge reliable Trying (SendResponseFromTu st bs) Proceeding"
| final_response: "s \<in> {Trying, Proceeding} \<Longrightarrow> is_final st \<Longrightarrow>
    sn_edge reliable s (SendResponseFromTu st bs) (if reliable then Terminated else Completed)"
| window_closed: "sn_edge reliable Completed (TimerFired TimerJ) Terminated"

inductive_simps sn_edge_simps: "sn_edge r s e s'"

text \<open>Result.
  The server non-INVITE handler changes state exactly along the edges of its RFC 3261 diagram.\<close>

theorem sn_follows_diagram:
  "sn_edge (sn_reliable s) (sn_state s) e st' \<or>
     (st' = sn_state s \<and> (\<nexists>st''. sn_edge (sn_reliable s) (sn_state s) e st''))
   \<longleftrightarrow> sn_state (fst (sn_on_event s e)) = st'"
proof (cases e)
  case (RequestReceived m bs)
  then show ?thesis
    by (cases "sn_state s"; cases "sn_last_response s") (auto simp: sn_defs sn_edge_simps)
next
  case (SendResponseFromTu st bs)
  then show ?thesis by (cases "sn_state s") (auto simp: sn_defs sn_edge_simps)
next
  case (TimerFired i)
  then show ?thesis by (cases "sn_state s"; cases i) (auto simp: sn_defs sn_edge_simps)
qed (auto simp: sn_defs sn_edge_simps)

section \<open>Retransmission\<close>

text \<open>The response the transaction user gave last, among those the machine accepts: nothing
  after a final.\<close>

fun sn_spec :: "bytes option \<Rightarrow> bool \<Rightarrow> transaction_event list \<Rightarrow> bytes option" where
  "sn_spec cur done [] = cur"
| "sn_spec cur done (SendResponseFromTu st bs # es) =
     (if done then sn_spec cur done es
      else if is_1xx st then sn_spec (Some bs) False es
      else if is_final st then sn_spec (Some bs) True es
      else sn_spec cur done es)"
| "sn_spec cur done (e # es) = sn_spec cur done es"

lemma sn_run_spec:
  "sn_inv s \<Longrightarrow> done = (sn_state s \<in> {Completed, Terminated}) \<Longrightarrow>
   sn_last_response (fst (run sn_on_event s es)) = sn_spec (sn_last_response s) done es"
proof (induction es arbitrary: s "done")
  case (Cons e es)
  have inv: "sn_inv (fst (sn_on_event s e))" using Cons.prems(1) by (rule sn_typed.step_preserves)
  have run: "sn_last_response (fst (run sn_on_event s (e # es))) =
      sn_spec (sn_last_response (fst (sn_on_event s e))) (sn_state (fst (sn_on_event s e)) \<in> {Completed, Terminated}) es"
    using Cons.IH [OF inv refl] by (simp add: case_prod_unfold Let_def)
  show ?case unfolding run using Cons.prems
    by (cases e; cases "sn_state s") (auto simp: sn_defs sn_inv_def split: option.splits)
qed simp

text \<open>Result.
  In every reachable state of a server non-INVITE transaction a retransmitted request is answered
  with exactly the response the transaction user gave last (nothing before the first response and
  nothing after termination), and no response is accepted after a final one.\<close>

theorem sn_replays_last_response:
  fixes br m r es
  defines "s \<equiv> fst (run sn_on_event (sn_set_reliable (sn_new br m) r) es)"
  shows "snd (sn_on_event s (RequestReceived m' b)) =
    (if sn_state s = Terminated then []
     else case sn_spec None False es of None \<Rightarrow> [] | Some last_resp \<Rightarrow> [SendToPeer last_resp])"
proof -
  have init: "sn_inv (sn_set_reliable (sn_new br m) r)"
    by (simp add: sn_inv_def sn_new_def sn_set_reliable_def)
  then have inv: "sn_inv s" unfolding s_def by (rule sn_typed.run_preserves)
  have "sn_last_response s = sn_spec None False es"
    unfolding s_def using sn_run_spec [OF init refl, of es] by (simp add: sn_new_def sn_set_reliable_def)
  with inv show ?thesis by (auto simp: sn_defs sn_inv_def split: option.splits)
qed

end
