(* ===== verification/Response_Router.thy ===== *)
theory Response_Router
  imports Rust_Str
begin

text \<open>
  The response correlator (\<^verbatim>\<open>smiths-sip/src/response_router.rs\<close>): branches mapped to
  the sending halves of unbounded channels. Channels are heap objects; a channel's queue and
  whether its receiver is still held are explicit, because a replaced subscription, a dropped
  receiver and a cancelled branch differ only there. The concurrent map makes each operation one
  atomic step.
\<close>

section \<open>Model\<close>

type_synonym chan_id = nat

record channel =
  queue :: "bytes list"
  receiver_alive :: bool

record response_router =
  pending :: "string \<rightharpoonup> chan_id"
  chans :: "chan_id \<rightharpoonup> channel"
  next_chan :: chan_id

definition router_new :: response_router where
  "router_new = \<lparr> pending = Map.empty, chans = Map.empty, next_chan = 0 \<rparr>"

definition subscribe :: "response_router \<Rightarrow> string \<Rightarrow> response_router \<times> chan_id" where
  "subscribe r br =
     (let rx = next_chan r
      in (r\<lparr> pending := (pending r)(br \<mapsto> rx),
             chans := (chans r)(rx \<mapsto> \<lparr> queue = [], receiver_alive = True \<rparr>),
             next_chan := Suc rx \<rparr>, rx))"

definition deliver :: "response_router \<Rightarrow> string \<Rightarrow> bytes \<Rightarrow> response_router \<times> bool" where
  "deliver r br bs =
     (case pending r br of
        None \<Rightarrow> (r, False)
      | Some tx \<Rightarrow>
          (case chans r tx of
             Some ch \<Rightarrow>
               if receiver_alive ch
               then (r\<lparr> chans := (chans r)(tx \<mapsto> ch\<lparr> queue := queue ch @ [bs] \<rparr>) \<rparr>, True)
               else (r\<lparr> pending := (pending r)(br := None) \<rparr>, False)
           | None \<Rightarrow> (r\<lparr> pending := (pending r)(br := None) \<rparr>, False)))"

definition cancel :: "response_router \<Rightarrow> string \<Rightarrow> response_router" where
  "cancel r br = r\<lparr> pending := (pending r)(br := None) \<rparr>"

text \<open>The receiving half (\<^verbatim>\<open>tokio::sync::mpsc\<close>): a receive takes the oldest
  message, waits while a sender remains, and reports the end of the stream otherwise.\<close>

datatype recv_result = Message bytes | EndOfStream | WouldWait

definition recv :: "response_router \<Rightarrow> chan_id \<Rightarrow> response_router \<times> recv_result" where
  "recv r rx =
     (case chans r rx of
        None \<Rightarrow> (r, EndOfStream)
      | Some ch \<Rightarrow>
          (case queue ch of
             m # ms \<Rightarrow> (r\<lparr> chans := (chans r)(rx \<mapsto> ch\<lparr> queue := ms \<rparr>) \<rparr>, Message m)
           | [] \<Rightarrow> (r, if rx \<in> ran (pending r) then WouldWait else EndOfStream)))"

definition drop_receiver :: "response_router \<Rightarrow> chan_id \<Rightarrow> response_router" where
  "drop_receiver r rx =
     (case chans r rx of
        None \<Rightarrow> r
      | Some ch \<Rightarrow> r\<lparr> chans := (chans r)(rx \<mapsto> ch\<lparr> receiver_alive := False \<rparr>) \<rparr>)"

datatype router_op = Subscribe string | Deliver string bytes | Cancel string | DropReceiver chan_id

fun router_step :: "response_router \<Rightarrow> router_op \<Rightarrow> response_router \<times> (router_op \<times> bool) list" where
  "router_step r (Subscribe b) = (fst (subscribe r b), [])"
| "router_step r (Deliver b m) = (let (r', ok) = deliver r b m in (r', [(Deliver b m, ok)]))"
| "router_step r (Cancel b) = (cancel r b, [])"
| "router_step r (DropReceiver c) = (drop_receiver r c, [])"

section \<open>Invariant\<close>

text \<open>Every registered sender belongs to an existing channel, no two branches share one, and
  channel identities are fresh.\<close>

definition router_inv :: "response_router \<Rightarrow> bool" where
  "router_inv r \<longleftrightarrow> (\<forall>a b c. pending r a = Some c \<longrightarrow> pending r b = Some c \<longrightarrow> a = b) \<and>
     (\<forall>b c. pending r b = Some c \<longrightarrow> chans r c \<noteq> None) \<and>
     (\<forall>c. chans r c \<noteq> None \<longrightarrow> c < next_chan r)"

lemma router_inv_new: "router_inv router_new"
  by (simp add: router_inv_def router_new_def)

lemmas router_defs = subscribe_def deliver_def cancel_def drop_receiver_def Let_def

lemma router_inv_D:
  assumes "router_inv r"
  shows "pending r a = Some c \<Longrightarrow> pending r b = Some c \<Longrightarrow> a = b"
    and "pending r b = Some c \<Longrightarrow> \<exists>ch. chans r c = Some ch"
    and "chans r c = Some ch \<Longrightarrow> c < next_chan r"
  using assms unfolding router_inv_def by blast+

lemma router_inv_step: "router_inv r \<Longrightarrow> router_inv (fst (router_step r op))"
proof (cases op)
  case (Subscribe b)
  assume inv: "router_inv r"
  then have fresh: "pending r a \<noteq> Some (next_chan r)" for a
    using router_inv_D(2,3) [OF inv] by blast
  with inv Subscribe show ?thesis
    by (simp add: router_inv_def router_defs) (metis less_Suc_eq option.sel)
qed (auto simp: router_inv_def router_defs split: option.splits)

interpretation router: preserving_machine router_step router_inv
  by unfold_locales (rule router_inv_step)

section \<open>Delivery\<close>

definition live_on :: "response_router \<Rightarrow> string \<Rightarrow> chan_id \<Rightarrow> bytes list \<Rightarrow> bool" where
  "live_on r b c q \<longleftrightarrow> pending r b = Some c \<and>
     chans r c = Some \<lparr> queue = q, receiver_alive = True \<rparr>"

fun delivered_on :: "string \<Rightarrow> router_op list \<Rightarrow> bytes list" where
  "delivered_on b [] = []"
| "delivered_on b (Deliver b' m # ops) = (if b' = b then [m] else []) @ delivered_on b ops"
| "delivered_on b (_ # ops) = delivered_on b ops"

lemma live_on_step:
  assumes "router_inv r" and "live_on r b c q" and "op \<notin> {Subscribe b, Cancel b, DropReceiver c}"
  shows "live_on (fst (router_step r op)) b c (q @ delivered_on b [op]) \<and>
    (\<forall>m ok. (Deliver b m, ok) \<in> set (snd (router_step r op)) \<longrightarrow> ok)"
proof (cases op)
  case (Subscribe b')
  with assms have "next_chan r \<noteq> c" by (auto simp: live_on_def dest: router_inv_D(3))
  with Subscribe assms show ?thesis by (auto simp: live_on_def router_defs)
next
  case (Deliver b' m)
  show ?thesis
  proof (cases "b' = b")
    case False
    then have "pending r b' \<noteq> Some c"
      using assms(2) router_inv_D(1) [OF assms(1)] unfolding live_on_def by blast
    with False Deliver assms show ?thesis by (auto simp: live_on_def router_defs split: option.splits)
  qed (use assms Deliver in \<open>simp add: live_on_def router_defs\<close>)
next
  case (DropReceiver c')
  with assms show ?thesis by (simp add: live_on_def router_defs split: option.split)
qed (use assms in \<open>auto simp: live_on_def router_defs\<close>)

lemma live_on_run:
  assumes "router_inv r" and "live_on r b c q" and "set ops \<inter> {Subscribe b, Cancel b, DropReceiver c} = {}"
  shows "live_on (fst (run router_step r ops)) b c (q @ delivered_on b ops) \<and>
    (\<forall>m ok. (Deliver b m, ok) \<in> set (snd (run router_step r ops)) \<longrightarrow> ok)"
  using assms
proof (induction ops arbitrary: r q)
  case (Cons op ops)
  let ?r = "fst (router_step r op)" and ?q = "q @ delivered_on b [op]"
  have one: "live_on ?r b c ?q" "\<forall>m ok. (Deliver b m, ok) \<in> set (snd (router_step r op)) \<longrightarrow> ok"
    using live_on_step [of r b c q op] Cons.prems by auto
  have "delivered_on b (op # ops) = delivered_on b [op] @ delivered_on b ops" by (cases op) auto
  moreover have "live_on (fst (run router_step ?r ops)) b c (?q @ delivered_on b ops) \<and>
      (\<forall>m ok. (Deliver b m, ok) \<in> set (snd (run router_step ?r ops)) \<longrightarrow> ok)"
    using Cons.prems one by (intro Cons.IH router_inv_step) auto
  ultimately show ?case using one(2) by (auto simp: case_prod_unfold Let_def)
qed simp

text \<open>Result.
  In any reachable router, a new subscription on a branch receives exactly the responses delivered
  on that branch, in order, none lost and none from another branch, however other branches are
  subscribed, cancelled or dropped meanwhile; each delivery reports success.\<close>

theorem subscription_receives_all:
  assumes "set ops \<inter> {Subscribe b, Cancel b, DropReceiver (snd (subscribe r0 b))} = {}"
    and "r0 = fst (run router_step router_new history)"
  defines "res \<equiv> run router_step (fst (subscribe r0 b)) ops"
  shows "map_option queue (chans (fst res) (snd (subscribe r0 b))) = Some (delivered_on b ops) \<and>
    (\<forall>m ok. (Deliver b m, ok) \<in> set (snd res) \<longrightarrow> ok)"
proof -
  have "router_inv r0" unfolding assms(2) by (rule router.run_preserves [OF router_inv_new])
  then have inv: "router_inv (fst (subscribe r0 b))" using router_inv_step [of r0 "Subscribe b"] by simp
  have "live_on (fst (subscribe r0 b)) b (snd (subscribe r0 b)) []"
    by (simp add: live_on_def subscribe_def Let_def)
  from live_on_run [OF inv this assms(1)] show ?thesis by (auto simp: res_def live_on_def)
qed

theorem subscription_receives_all_witness:
  "map_option queue (chans (fst (run router_step (fst (subscribe router_new ''z1''))
      [Deliver ''z1'' ''a'', Subscribe ''z2'', Deliver ''z2'' ''x'', Deliver ''z1'' ''b'']))
      (snd (subscribe router_new ''z1''))) = Some [''a'', ''b'']"
  using subscription_receives_all [of "[Deliver ''z1'' ''a'', Subscribe ''z2'', Deliver ''z2'' ''x'', Deliver ''z1'' ''b'']"
      "''z1''" router_new "[]"]
  by (simp del: router_step.simps)

text \<open>Result.
  A branch that is unknown, cancelled or whose receiver is gone swallows the response, reports
  failure and leaves no entry behind; a replaced or cancelled subscription first hands out what it
  has buffered and then reports the end of the stream.\<close>

theorem dead_subscription_is_dropped:
  assumes "router_inv r" and "snd (deliver r b m) = False"
  shows "pending (fst (deliver r b m)) b = None \<and> chans (fst (deliver r b m)) = chans r \<and>
    (pending r b = Some c \<longrightarrow> chans r c = Some ch \<longrightarrow>
       snd (recv (cancel r b) c) = (case queue ch of [] \<Rightarrow> EndOfStream | q # _ \<Rightarrow> Message q))"
proof -
  have "c \<notin> ran ((pending r)(b := None))" if "pending r b = Some c"
    using router_inv_D(1) [OF assms(1) that] by (auto simp: ran_def split: if_splits)
  with assms show ?thesis
    by (auto simp: router_defs recv_def split: option.splits list.splits if_splits)
qed

theorem dead_subscription_is_dropped_witness:
  "pending (fst (deliver router_new ''z'' ''m'')) ''z'' = None"
  using dead_subscription_is_dropped [OF router_inv_new, of "''z''" "''m''"]
  by (simp add: deliver_def router_new_def)

end
