(* ===== verification/Interleaving.thy ===== *)
theory Interleaving
  imports Net_Prelude "HOL-Library.Multiset"
begin

text \<open>
  Interleavings of the outputs of concurrent tasks. A task that executes a list of operations one
  after another, while others execute theirs, leaves behind a merge of the lists in which each keeps
  its own order; \<open>interleavings\<close> is the set of those merges of any number of lists.
\<close>

fun interleavings :: "'a list list \<Rightarrow> 'a list set" where
  "interleavings [] = {[]}"
| "interleavings (xs # xss) = (\<Union>ys \<in> interleavings xss. shuffles xs ys)"

lemma snoc_in_shuffles_leftI: "zs \<in> shuffles xs ys \<Longrightarrow> zs @ [a] \<in> shuffles (xs @ [a]) ys"
proof (induction xs ys arbitrary: zs rule: shuffles.induct)
  case (1 ys)
  have "ys @ [a] \<in> shuffles [a] ys" by (induction ys) auto
  with 1 show ?case by simp
qed auto

lemma snoc_in_shuffles_rightI: "zs \<in> shuffles xs ys \<Longrightarrow> zs @ [a] \<in> shuffles xs (ys @ [a])"
  using snoc_in_shuffles_leftI [of zs ys xs a] by (simp add: shuffles_commutes)

text \<open>A new task has done nothing yet; a task's next operation goes to the end of both lists.\<close>

lemma interleavings_new: "xs \<in> interleavings xss \<Longrightarrow> xs \<in> interleavings (xss @ [[]])"
  by (induction xss arbitrary: xs) auto

lemma interleavings_step:
  "xs \<in> interleavings xss \<Longrightarrow> j < length xss \<Longrightarrow> xs @ [a] \<in> interleavings (xss[j := xss ! j @ [a]])"
proof (induction xss arbitrary: j xs)
  case (Cons ys yss)
  from Cons.prems(1) obtain zs where zs: "zs \<in> interleavings yss" "xs \<in> shuffles ys zs" by auto
  show ?case
  proof (cases j)
    case 0
    with zs show ?thesis by (auto intro: snoc_in_shuffles_leftI)
  next
    case (Suc j')
    with Cons.IH [OF zs(1)] Cons.prems(2) snoc_in_shuffles_rightI [OF zs(2), of a] show ?thesis by auto
  qed
qed simp

lemma mset_shuffle: "zs \<in> shuffles xs ys \<Longrightarrow> mset zs = mset xs + mset ys"
  by (induction xs ys arbitrary: zs rule: shuffles.induct) auto

lemma mset_interleavings: "xs \<in> interleavings xss \<Longrightarrow> mset xs = mset (concat xss)"
  by (induction xss arbitrary: xs) (auto dest: mset_shuffle)

lemma set_interleavings: "xs \<in> interleavings xss \<Longrightarrow> set xs = set (concat xss)"
  by (metis mset_interleavings set_mset_mset)

lemma count_interleavings: "xs \<in> interleavings xss \<Longrightarrow> length (filter P xs) = length (filter P (concat xss))"
  by (metis mset_filter mset_interleavings size_mset)

text \<open>The outputs of a run, one list per input.\<close>

fun batches :: "('s \<Rightarrow> 'i \<Rightarrow> 's \<times> 'o list) \<Rightarrow> 's \<Rightarrow> 'i list \<Rightarrow> 'o list list" where
  "batches step s [] = []"
| "batches step s (i # is) = snd (step s i) # batches step (fst (step s i)) is"

lemma concat_batches: "concat (batches step s is) = snd (run step s is)"
  by (induction "is" arbitrary: s) (simp_all add: case_prod_unfold Let_def)

lemma batches_snoc:
  "batches step s (is @ [i]) = batches step s is @ [snd (step (fst (run step s is)) i)]"
  by (induction "is" arbitrary: s) (simp_all add: case_prod_unfold Let_def)

lemma length_batches [simp]: "length (batches step s is) = length is"
  by (induction "is" arbitrary: s) simp_all

end
