(* ===== verification/Txn_Driver.thy ===== *)
theory Txn_Driver
  imports Client_Invite Client_Non_Invite Server_Invite Server_Non_Invite Response_Router Interleaving
begin

text \<open>
  The transaction driver (\<^verbatim>\<open>smiths-sip/src/txn/driver.rs\<close>): the table of live
  transactions, the entries it shares with its tasks, the execution of the machines' actions, the
  timer call-backs, the response listener with its re-ACK window, and the gauge. An entry is a
  heap object (\<^verbatim>\<open>Arc<TxnEntry>\<close>) so that a table slot overwritten or removed while
  a task still holds the entry is represented.

  The driver is called from many tasks at once, and the machine's lock is released before its
  actions are executed. The steps are therefore smaller than the calls: a call looks up its entry,
  a fired timer removes its handle, an event is handed to the machine under the lock, and each
  action of the returned batch is executed, all as steps of their own; the tasks under way are a
  multiset beside the driver, and any of them may take the next step. The functions named after the
  public operations are the passage of one task that nobody interrupts; \<open>feed_schedule\<close> shows
  that passage to be one of the schedules. A timer call-back may come at any time for any key,
  which covers every race between a timer and its cancellation.
\<close>

section \<open>Boxed machines\<close>

datatype dyn_txn =
    CI client_invite_txn
  | CN client_non_invite_txn
  | SI server_invite_txn
  | SN server_non_invite_txn

fun dyn_key :: "dyn_txn \<Rightarrow> transaction_key" where
  "dyn_key (CI s) = ci_key s" | "dyn_key (CN s) = cn_key s"
| "dyn_key (SI s) = si_key s" | "dyn_key (SN s) = sn_key s"

fun dyn_state :: "dyn_txn \<Rightarrow> transaction_state" where
  "dyn_state (CI s) = ci_state s" | "dyn_state (CN s) = cn_state s"
| "dyn_state (SI s) = si_state s" | "dyn_state (SN s) = sn_state s"

fun dyn_set_reliable :: "dyn_txn \<Rightarrow> bool \<Rightarrow> dyn_txn" where
  "dyn_set_reliable (CI s) r = CI (ci_set_reliable s r)"
| "dyn_set_reliable (CN s) r = CN (cn_set_reliable s r)"
| "dyn_set_reliable (SI s) r = SI (si_set_reliable s r)"
| "dyn_set_reliable (SN s) r = SN (sn_set_reliable s r)"

fun dyn_on_event :: "dyn_txn \<Rightarrow> transaction_event \<Rightarrow> dyn_txn \<times> transaction_action list" where
  "dyn_on_event (CI s) e = apfst CI (ci_on_event s e)"
| "dyn_on_event (CN s) e = apfst CN (cn_on_event s e)"
| "dyn_on_event (SI s) e = apfst SI (si_on_event s e)"
| "dyn_on_event (SN s) e = apfst SN (sn_on_event s e)"

fun dyn_guard :: "dyn_txn \<Rightarrow> timer_id option" where
  "dyn_guard (CI s) = ci_guard s" | "dyn_guard (CN s) = cn_guard s"
| "dyn_guard (SI s) = si_guard s" | "dyn_guard (SN s) = sn_guard s"

interpretation dyn: guarded_transaction dyn_key dyn_state dyn_set_reliable dyn_on_event dyn_guard
proof unfold_locales
  fix s :: dyn_txn and e and b and m and g g' :: timer_id
  show "dyn_key (dyn_set_reliable s b) = dyn_key s" "dyn_state (dyn_set_reliable s b) = dyn_state s"
    "dyn_key (fst (dyn_on_event s e)) = dyn_key s"
    by (cases s; simp)+
  show "dyn_on_event s e = (s, [])" if "dyn_state s = Terminated"
    using that by (cases s) (simp_all add: ci.absorbs cn.absorbs si.absorbs sn.absorbs)
  show "ActTerminated \<in> set (snd (dyn_on_event s e)) \<longleftrightarrow>
      dyn_state s \<noteq> Terminated \<and> dyn_state (fst (dyn_on_event s e)) = Terminated"
    by (cases s) (simp_all add: ci.terminated_iff cn.terminated_iff si.terminated_iff sn.terminated_iff)
  show "ActTerminated \<notin> set (butlast (snd (dyn_on_event s e)))"
    by (cases s) (simp_all add: ci.terminated_last cn.terminated_last si.terminated_last sn.terminated_last)
  show "dyn_guard s = None" if "dyn_state s = Terminated"
    using that by (cases s)
      (simp_all add: ci_guarded.guard_terminated cn_guarded.guard_terminated si_guarded.guard_terminated
        sn_guarded.guard_terminated)
  show "dyn_state (fst (dyn_on_event s (TimerFired g))) = Terminated" if "dyn_guard s = Some g"
    using that by (cases s)
      (simp_all add: ci_guarded.guard_expires cn_guarded.guard_expires si_guarded.guard_expires
        sn_guarded.guard_expires)
  show "foldl timer_effect (timer_consume m e) (snd (dyn_on_event s e)) g' \<noteq> None"
    if "\<And>g. dyn_guard s = Some g \<Longrightarrow> m g \<noteq> None" "dyn_guard (fst (dyn_on_event s e)) = Some g'"
    using that
    by (cases s)
       (simp_all only: dyn_guard.simps dyn_on_event.simps fst_apfst snd_apfst ci_guarded.guard_kept
         cn_guarded.guard_kept si_guarded.guard_kept sn_guarded.guard_kept not_False_eq_True)
qed

section \<open>Driver state\<close>

type_synonym socket_addr = string
type_synonym entry_id = nat

datatype tu_event = TuResponse u16 bytes | TuTerminated

record txn_entry =
  e_fsm :: dyn_txn
  e_peer :: socket_addr
  e_timers :: "timer_id \<rightharpoonup> duration"
  e_tu :: "tu_event list"
  e_cancelled :: bool
  e_sends :: "bytes list"
  e_sent_by :: "string option"
  e_got_2xx :: bool

text \<open>The listener task of a client transaction: its live loop, the lingering re-ACK window, and
  the end.\<close>

datatype listener_phase = Live | Absorbing | Exited

record listener =
  l_key :: transaction_key
  l_entry :: entry_id
  l_rx :: chan_id
  l_phase :: listener_phase

record driver =
  d_reliable :: bool
  d_router :: response_router
  d_txns :: "transaction_key \<rightharpoonup> entry_id"
  d_gauge :: "int option"
  d_acks_2xx :: "string \<rightharpoonup> socket_addr \<times> bytes"
  d_entries :: "entry_id \<rightharpoonup> txn_entry"
  d_next_entry :: entry_id
  d_listeners :: "entry_id \<rightharpoonup> listener"
  d_reacks :: "(socket_addr \<times> bytes) list"

definition driver_new :: "bool \<Rightarrow> bool \<Rightarrow> driver" where
  "driver_new is_reliable with_metrics =
     \<lparr> d_reliable = is_reliable, d_router = router_new, d_txns = Map.empty,
       d_gauge = (if with_metrics then Some 0 else None), d_acks_2xx = Map.empty,
       d_entries = Map.empty, d_next_entry = 0, d_listeners = Map.empty, d_reacks = [] \<rparr>"

definition new_entry :: "dyn_txn \<Rightarrow> socket_addr \<Rightarrow> string option \<Rightarrow> txn_entry" where
  "new_entry txn peer sent_by =
     \<lparr> e_fsm = txn, e_peer = peer, e_timers = Map.empty, e_tu = [], e_cancelled = False,
       e_sends = [], e_sent_by = sent_by, e_got_2xx = False \<rparr>"

definition update_entry :: "driver \<Rightarrow> entry_id \<Rightarrow> (txn_entry \<Rightarrow> txn_entry) \<Rightarrow> driver" where
  "update_entry d i f = d\<lparr> d_entries := (d_entries d)(i := map_option f (d_entries d i)) \<rparr>"

section \<open>Actions\<close>

definition spawn_send :: "txn_entry \<Rightarrow> bytes \<Rightarrow> txn_entry" where
  "spawn_send e bs = e\<lparr> e_sends := e_sends e @ [bs] \<rparr>"

definition deliver_to_tu :: "transaction_key \<Rightarrow> txn_entry \<Rightarrow> u16 \<Rightarrow> bytes \<Rightarrow> txn_entry" where
  "deliver_to_tu key e status bs =
     (let e' = (if role key = Client \<and> method key = ''INVITE'' \<and> is_2xx status
                then e\<lparr> e_got_2xx := True \<rparr> else e)
      in e'\<lparr> e_tu := e_tu e' @ [TuResponse status bs] \<rparr>)"

definition arm_timer :: "txn_entry \<Rightarrow> timer_id \<Rightarrow> duration \<Rightarrow> txn_entry" where
  "arm_timer e i after = e\<lparr> e_timers := (e_timers e)(i \<mapsto> after) \<rparr>"

definition cancel_timer :: "txn_entry \<Rightarrow> timer_id \<Rightarrow> txn_entry" where
  "cancel_timer e i = e\<lparr> e_timers := (e_timers e)(i := None) \<rparr>"

definition terminate :: "driver \<Rightarrow> transaction_key \<Rightarrow> entry_id \<Rightarrow> driver" where
  "terminate d key i =
     (let d1 = update_entry d i (\<lambda>e. e\<lparr> e_cancelled := True, e_timers := Map.empty \<rparr>);
          removed = (d_txns d1 key \<noteq> None);
          d2 = d1\<lparr> d_txns := (d_txns d1)(key := None) \<rparr>;
          d3 = (if removed \<and> role key = Server
                then d2\<lparr> d_gauge := map_option (\<lambda>g. g - 1) (d_gauge d2) \<rparr> else d2)
      in update_entry d3 i (\<lambda>e. e\<lparr> e_tu := e_tu e @ [TuTerminated] \<rparr>))"

fun execute_action :: "transaction_key \<Rightarrow> entry_id \<Rightarrow> driver \<Rightarrow> transaction_action \<Rightarrow> driver" where
  "execute_action key i d (SendToPeer bs) = update_entry d i (\<lambda>e. spawn_send e bs)"
| "execute_action key i d (DeliverResponseToTu status bs) =
     update_entry d i (\<lambda>e. deliver_to_tu key e status bs)"
| "execute_action key i d (ArmTimer t after) = update_entry d i (\<lambda>e. arm_timer e t after)"
| "execute_action key i d (CancelTimer t) = update_entry d i (\<lambda>e. cancel_timer e t)"
| "execute_action key i d ActTerminated = terminate d key i"

definition execute_actions :: "driver \<Rightarrow> transaction_key \<Rightarrow> entry_id \<Rightarrow> transaction_action list \<Rightarrow> driver" where
  "execute_actions d key i actions = foldl (execute_action key i) d actions"

text \<open>The critical section: \<^verbatim>\<open>lock(&entry.fsm).on_event(event)\<close>. The lock is gone
  when it returns.\<close>

definition machine_event :: "driver \<Rightarrow> entry_id \<Rightarrow> transaction_event \<Rightarrow> driver \<times> transaction_action list" where
  "machine_event d i event =
     (case d_entries d i of
        None \<Rightarrow> (d, [])
      | Some e \<Rightarrow>
          (let (fsm', actions) = dyn_on_event (e_fsm e) event
           in (update_entry d i (\<lambda>e. e\<lparr> e_fsm := fsm' \<rparr>), actions)))"

text \<open>What a task does with an event when no other task runs in between.\<close>

definition feed :: "driver \<Rightarrow> transaction_key \<Rightarrow> entry_id \<Rightarrow> transaction_event \<Rightarrow> driver" where
  "feed d key i event =
     (let (d1, actions) = machine_event d i event in execute_actions d1 key i actions)"

section \<open>Operations\<close>

definition active :: "driver \<Rightarrow> nat" where
  "active d = card (dom (d_txns d))"

definition is_alive :: "driver \<Rightarrow> transaction_key \<Rightarrow> bool" where
  "is_alive d key \<longleftrightarrow> d_txns d key \<noteq> None"

definition txn_state :: "driver \<Rightarrow> transaction_key \<Rightarrow> transaction_state option" where
  "txn_state d key =
     Option.bind (d_txns d key) (\<lambda>i. map_option (\<lambda>e. dyn_state (e_fsm e)) (d_entries d i))"

text \<open>\<^verbatim>\<open>start_client\<close> up to the opening event: the entry, its table slot, the
  subscription and the listener.\<close>

definition register_client :: "driver \<Rightarrow> dyn_txn \<Rightarrow> socket_addr \<Rightarrow> driver" where
  "register_client d txn0 peer =
     (let txn = dyn_set_reliable txn0 (d_reliable d);
          key = dyn_key txn;
          i = d_next_entry d;
          (router', rx) = subscribe (d_router d) (branch key)
      in d\<lparr> d_entries := (d_entries d)(i \<mapsto> new_entry txn peer None),
            d_next_entry := Suc i,
            d_txns := (d_txns d)(key \<mapsto> i),
            d_router := router',
            d_listeners := (d_listeners d)
              (i \<mapsto> \<lparr> l_key = key, l_entry = i, l_rx = rx, l_phase = Live \<rparr>) \<rparr>)"

definition start_client :: "driver \<Rightarrow> dyn_txn \<Rightarrow> socket_addr \<Rightarrow> driver" where
  "start_client d txn peer = feed (register_client d txn peer) (dyn_key txn) (d_next_entry d) StartClient"

definition start_server_inner :: "driver \<Rightarrow> dyn_txn \<Rightarrow> socket_addr \<Rightarrow> string option \<Rightarrow> driver" where
  "start_server_inner d txn0 peer sent_by =
     (let txn = dyn_set_reliable txn0 (d_reliable d);
          key = dyn_key txn;
          i = d_next_entry d
      in d\<lparr> d_entries := (d_entries d)(i \<mapsto> new_entry txn peer sent_by),
            d_next_entry := Suc i,
            d_txns := (d_txns d)(key \<mapsto> i),
            d_gauge := map_option (\<lambda>g. g + 1) (d_gauge d) \<rparr>)"

definition deliver_response :: "driver \<Rightarrow> transaction_key \<Rightarrow> u16 \<Rightarrow> bytes \<Rightarrow> driver" where
  "deliver_response d key status bs =
     (case d_txns d key of None \<Rightarrow> d | Some i \<Rightarrow> feed d key i (ResponseReceived status bs))"

text \<open>The entry a request is for: the lookup and the sent-by test.\<close>

definition request_entry :: "driver \<Rightarrow> transaction_key \<Rightarrow> bytes \<Rightarrow> entry_id option" where
  "request_entry d key bs =
     (case d_txns d key of
        None \<Rightarrow> None
      | Some i \<Rightarrow>
          (case (Option.bind (d_entries d i) e_sent_by, top_via_sent_by bs) of
             (Some expected, Some actual) \<Rightarrow> if actual \<noteq> expected then None else Some i
           | _ \<Rightarrow> Some i))"


definition send_response :: "driver \<Rightarrow> transaction_key \<Rightarrow> u16 \<Rightarrow> bytes \<Rightarrow> driver" where
  "send_response d key status bs =
     (case d_txns d key of None \<Rightarrow> d | Some i \<Rightarrow> feed d key i (SendResponseFromTu status bs))"

definition register_ack_for_2xx :: "driver \<Rightarrow> string \<Rightarrow> socket_addr \<Rightarrow> bytes \<Rightarrow> driver" where
  "register_ack_for_2xx d br peer ack = d\<lparr> d_acks_2xx := (d_acks_2xx d)(br \<mapsto> (peer, ack)) \<rparr>"

definition has_ack_for_2xx :: "driver \<Rightarrow> string \<Rightarrow> bool" where
  "has_ack_for_2xx d br \<longleftrightarrow> d_acks_2xx d br \<noteq> None"

definition fire_timer :: "driver \<Rightarrow> transaction_key \<Rightarrow> timer_id \<Rightarrow> driver" where
  "fire_timer d key t =
     (case d_txns d key of
        None \<Rightarrow> d
      | Some i \<Rightarrow> feed (update_entry d i (\<lambda>e. cancel_timer e t)) key i (TimerFired t))"

text \<open>\<^verbatim>\<open>parse_status\<close>: the second token of the first line, a decimal
  \<^verbatim>\<open>u16\<close>. The line ends at the first carriage return, which must exist.\<close>

definition parse_status :: "bytes \<Rightarrow> u16 option" where
  "parse_status bs =
     (if CHR 0x0D \<notin> set bs then None
      else let line = takeWhile (\<lambda>c. c \<noteq> CHR 0x0D) bs
           in if \<not> valid_utf8 line then None
              else (case split_whitespace line of
                      _ # status_code # _ \<Rightarrow> map_option of_nat (parse_unsigned 65536 status_code)
                    | _ \<Rightarrow> None))"

section \<open>The response listener\<close>

definition set_phase :: "driver \<Rightarrow> entry_id \<Rightarrow> listener_phase \<Rightarrow> driver" where
  "set_phase d i p = d\<lparr> d_listeners := (d_listeners d)(i := map_option (\<lambda>l. l\<lparr> l_phase := p \<rparr>) (d_listeners d i)) \<rparr>"

text \<open>The tail of the task: forget the ACK, cancel the subscription unless it already ended, drop
  the receiver.\<close>

definition listener_exit :: "driver \<Rightarrow> listener \<Rightarrow> bool \<Rightarrow> driver" where
  "listener_exit d l subscribed =
     (let d1 = d\<lparr> d_acks_2xx := (d_acks_2xx d)(branch (l_key l) := None) \<rparr>;
          r1 = (if subscribed then cancel (d_router d1) (branch (l_key l)) else d_router d1)
      in set_phase (d1\<lparr> d_router := drop_receiver r1 (l_rx l) \<rparr>) (l_entry l) Exited)"

text \<open>A message or the end of the stream in the live loop: what the task takes from its receiver,
  with the response it goes on to deliver.\<close>

definition listener_take :: "driver \<Rightarrow> listener \<Rightarrow> driver \<times> (u16 \<times> bytes) option" where
  "listener_take d l =
     (case recv (d_router d) (l_rx l) of
        (_, WouldWait) \<Rightarrow> (d, None)
      | (r, EndOfStream) \<Rightarrow> (listener_exit (d\<lparr> d_router := r \<rparr>) l False, None)
      | (r, Message bs) \<Rightarrow>
          (let mismatch = (case cseq_method bs of Some m \<Rightarrow> m \<noteq> method (l_key l) | None \<Rightarrow> False)
           in (d\<lparr> d_router := r \<rparr>,
               if mismatch then None
               else Some (case parse_status bs of Some st \<Rightarrow> st | None \<Rightarrow> 0, bs))))"

definition listener_recv :: "driver \<Rightarrow> listener \<Rightarrow> driver" where
  "listener_recv d l =
     (case listener_take d l of
        (d1, None) \<Rightarrow> d1
      | (d1, Some (status, bs)) \<Rightarrow> deliver_response d1 (l_key l) status bs)"

text \<open>The cancellation branch of the live loop, and what follows it.\<close>

definition listener_cancelled :: "driver \<Rightarrow> listener \<Rightarrow> driver" where
  "listener_cancelled d l =
     (case d_entries d (l_entry l) of
        None \<Rightarrow> d
      | Some e \<Rightarrow>
          if \<not> e_cancelled e then d
          else if method (l_key l) = ''INVITE'' \<and> e_got_2xx e then set_phase d (l_entry l) Absorbing
          else listener_exit d l True)"

text \<open>One iteration of \<^verbatim>\<open>absorb_2xx_retransmits\<close>.\<close>

definition absorb_recv :: "driver \<Rightarrow> listener \<Rightarrow> driver" where
  "absorb_recv d l =
     (case recv (d_router d) (l_rx l) of
        (_, WouldWait) \<Rightarrow> d
      | (r, EndOfStream) \<Rightarrow> listener_exit (d\<lparr> d_router := r \<rparr>) l True
      | (r, Message bs) \<Rightarrow>
          (let d1 = d\<lparr> d_router := r \<rparr>;
               status = (case parse_status bs of Some st \<Rightarrow> st | None \<Rightarrow> 0)
           in if \<not> is_2xx status then d1
              else case d_acks_2xx d1 (branch (l_key l)) of
                     None \<Rightarrow> d1
                   | Some (peer, ack) \<Rightarrow> d1\<lparr> d_reacks := d_reacks d1 @ [(peer, ack)] \<rparr>))"

definition absorb_window_elapsed :: "driver \<Rightarrow> listener \<Rightarrow> driver" where
  "absorb_window_elapsed d l = listener_exit d l True"

section \<open>Steps\<close>

text \<open>Transactions as callers hand them over: just built. The server side registers a transaction
  only when its key is not alive (\<^verbatim>\<open>uas.rs\<close> tests \<^verbatim>\<open>is_alive\<close> first and
  treats the request as a retransmission otherwise).\<close>

inductive fresh_client :: "dyn_txn \<Rightarrow> bool" where
  "fresh_client (CI (ci_new br req))"
| "fresh_client (CN (cn_new br m req))"

inductive fresh_server :: "dyn_txn \<Rightarrow> bool" where
  "fresh_server (SI (si_new br))"
| "fresh_server (SN (sn_new br m))"

text \<open>A task under way, and where it stands: a response on its way to the table lookup; a fired
  timer that holds its entry and has yet to remove its handle; an event whose task waits for the
  machine's lock; the actions a task still has to execute.\<close>

datatype driver_task =
    Response_Call transaction_key u16 bytes
  | Timer_Task transaction_key entry_id timer_id
  | Event_Task transaction_key entry_id transaction_event
  | Batch_Task transaction_key entry_id "transaction_action list"

type_synonym tasks = "driver_task multiset"

fun task_events :: "entry_id \<Rightarrow> driver_task \<Rightarrow> transaction_event multiset" where
  "task_events i (Event_Task key j event) = (if j = i then {#event#} else {#})"
| "task_events i _ = {#}"

fun task_batches :: "entry_id \<Rightarrow> driver_task \<Rightarrow> transaction_action list multiset" where
  "task_batches i (Batch_Task key j actions) = (if j = i \<and> actions \<noteq> [] then {#actions#} else {#})"
| "task_batches i _ = {#}"

text \<open>The events that wait for an entry's machine, and the batches still being executed for it.\<close>

definition events_at :: "entry_id \<Rightarrow> tasks \<Rightarrow> transaction_event multiset" where
  "events_at i T = (\<Sum>t \<in># T. task_events i t)"

definition batches_at :: "entry_id \<Rightarrow> tasks \<Rightarrow> transaction_action list multiset" where
  "batches_at i T = (\<Sum>t \<in># T. task_batches i t)"

text \<open>One step. Nobody answers a request that was not yet handed to its machine: a response finds
  its entry only after the opening event (the request leaves the driver as an action of that
  event).\<close>

inductive driver_step :: "driver \<Rightarrow> tasks \<Rightarrow> driver \<Rightarrow> tasks \<Rightarrow> bool" where
  start_client: "fresh_client txn \<Longrightarrow>
    driver_step d T (register_client d txn peer) (add_mset (Event_Task (dyn_key txn) (d_next_entry d) StartClient) T)"
| start_server: "fresh_server txn \<Longrightarrow> \<not> is_alive d (dyn_key txn) \<Longrightarrow>
    driver_step d T (start_server_inner d txn peer sent_by) T"
| response: "driver_step d T d (add_mset (Response_Call key status bs) T)"
| response_found: "d_txns d key = Some i \<Longrightarrow> StartClient \<notin># events_at i T \<Longrightarrow>
    driver_step d (add_mset (Response_Call key status bs) T)
                d (add_mset (Event_Task key i (ResponseReceived status bs)) T)"
| response_dropped: "d_txns d key = None \<Longrightarrow> driver_step d (add_mset (Response_Call key status bs) T) d T"
| request: "request_entry d key bs = Some i \<Longrightarrow>
    driver_step d T d (add_mset (Event_Task key i (RequestReceived m bs)) T)"
| tu_response: "d_txns d key = Some i \<Longrightarrow>
    driver_step d T d (add_mset (Event_Task key i (SendResponseFromTu status bs)) T)"
| timer: "d_txns d key = Some i \<Longrightarrow> driver_step d T d (add_mset (Timer_Task key i t) T)"
| timer_handle: "driver_step d (add_mset (Timer_Task key i t) T)
    (update_entry d i (\<lambda>e. cancel_timer e t)) (add_mset (Event_Task key i (TimerFired t)) T)"
| on_event: "machine_event d i event = (d', actions) \<Longrightarrow>
    driver_step d (add_mset (Event_Task key i event) T) d' (add_mset (Batch_Task key i actions) T)"
| action: "driver_step d (add_mset (Batch_Task key i (a # actions)) T)
    (execute_action key i d a) (add_mset (Batch_Task key i actions) T)"
| batch_done: "driver_step d (add_mset (Batch_Task key i []) T) d T"
| register: "driver_step d T (register_ack_for_2xx d br peer ack) T"
| inbound: "driver_step d T (d\<lparr> d_router := fst (deliver (d_router d) br bs) \<rparr>) T"
| live_recv: "d_listeners d i = Some l \<Longrightarrow> l_phase l = Live \<Longrightarrow> listener_take d l = (d', None) \<Longrightarrow>
    driver_step d T d' T"
| live_message: "d_listeners d i = Some l \<Longrightarrow> l_phase l = Live \<Longrightarrow>
    listener_take d l = (d', Some (status, bs)) \<Longrightarrow>
    driver_step d T d' (add_mset (Response_Call (l_key l) status bs) T)"
| live_cancelled: "d_listeners d i = Some l \<Longrightarrow> l_phase l = Live \<Longrightarrow> driver_step d T (listener_cancelled d l) T"
| absorb: "d_listeners d i = Some l \<Longrightarrow> l_phase l = Absorbing \<Longrightarrow> driver_step d T (absorb_recv d l) T"
| window: "d_listeners d i = Some l \<Longrightarrow> l_phase l = Absorbing \<Longrightarrow> driver_step d T (absorb_window_elapsed d l) T"

inductive reachable :: "bool \<Rightarrow> bool \<Rightarrow> driver \<Rightarrow> tasks \<Rightarrow> bool" for reliable metrics where
  init: "reachable reliable metrics (driver_new reliable metrics) {#}"
| step: "reachable reliable metrics d T \<Longrightarrow> driver_step d T d' T' \<Longrightarrow> reachable reliable metrics d' T'"

lemma events_at_simps [simp]:
  "events_at i {#} = {#}" "events_at i (add_mset t T) = task_events i t + events_at i T"
  by (simp_all add: events_at_def)

lemma batches_at_simps [simp]:
  "batches_at i {#} = {#}" "batches_at i (add_mset t T) = task_batches i t + batches_at i T"
  by (simp_all add: batches_at_def)

lemma events_atD: "event \<in># events_at i T \<Longrightarrow> \<exists>key. Event_Task key i event \<in># T"
proof (induction T)
  case (add t T)
  then show ?case by (cases t) (auto split: if_splits)
qed simp

lemma batches_atD: "actions \<in># batches_at i T \<Longrightarrow> \<exists>key. Batch_Task key i actions \<in># T"
proof (induction T)
  case (add t T)
  then show ?case by (cases t) (auto split: if_splits)
qed simp

lemma batches_at_Nil: "[] \<notin># batches_at i T"
proof (induction T)
  case (add t T)
  then show ?case by (cases t) auto
qed simp

text \<open>A task that nobody interrupts executes its whole batch, and its whole call.\<close>

lemma batch_schedule:
  "reachable r m d (add_mset (Batch_Task key i actions) T) \<Longrightarrow> reachable r m (execute_actions d key i actions) T"
proof (induction actions arbitrary: d)
  case Nil
  then show ?case by (simp add: execute_actions_def reachable.step [OF _ driver_step.batch_done])
next
  case (Cons a actions)
  from Cons.IH [OF reachable.step [OF Cons.prems driver_step.action]] show ?case
    by (simp add: execute_actions_def)
qed

lemma feed_schedule:
  assumes "reachable r m d (add_mset (Event_Task key i event) T)"
  shows "reachable r m (feed d key i event) T"
proof (cases "machine_event d i event")
  case (Pair d' actions)
  from batch_schedule [OF reachable.step [OF assms driver_step.on_event [OF Pair]]] show ?thesis
    by (simp add: feed_def Pair)
qed

section \<open>What a batch of actions does\<close>

text \<open>The effect on the entry alone.\<close>

fun entry_effect :: "transaction_key \<Rightarrow> txn_entry \<Rightarrow> transaction_action \<Rightarrow> txn_entry" where
  "entry_effect key e (SendToPeer bs) = spawn_send e bs"
| "entry_effect key e (DeliverResponseToTu status bs) = deliver_to_tu key e status bs"
| "entry_effect key e (ArmTimer t after) = arm_timer e t after"
| "entry_effect key e (CancelTimer t) = cancel_timer e t"
| "entry_effect key e ActTerminated =
     e\<lparr> e_cancelled := True, e_timers := Map.empty, e_tu := e_tu e @ [TuTerminated] \<rparr>"

fun sends_of :: "transaction_action list \<Rightarrow> bytes list" where
  "sends_of [] = []"
| "sends_of (SendToPeer bs # as) = bs # sends_of as"
| "sends_of (_ # as) = sends_of as"

fun tu_of :: "transaction_action list \<Rightarrow> tu_event list" where
  "tu_of [] = []"
| "tu_of (DeliverResponseToTu status bs # as) = TuResponse status bs # tu_of as"
| "tu_of (ActTerminated # as) = TuTerminated # tu_of as"
| "tu_of (_ # as) = tu_of as"

lemma sends_of_append [simp]: "sends_of (xs @ ys) = sends_of xs @ sends_of ys"
  by (induction xs rule: sends_of.induct) simp_all

lemma tu_of_append [simp]: "tu_of (xs @ ys) = tu_of xs @ tu_of ys"
  by (induction xs rule: tu_of.induct) simp_all

lemmas entry_op_defs = spawn_send_def deliver_to_tu_def arm_timer_def cancel_timer_def Let_def

lemma entry_effects:
  "e_fsm (foldl (entry_effect k) e as) = e_fsm e"
  "e_peer (foldl (entry_effect k) e as) = e_peer e"
  "e_sends (foldl (entry_effect k) e as) = e_sends e @ sends_of as"
  "e_tu (foldl (entry_effect k) e as) = e_tu e @ tu_of as"
  "e_cancelled (foldl (entry_effect k) e as) \<longleftrightarrow> e_cancelled e \<or> ActTerminated \<in> set as"
  by (induction as arbitrary: e rule: tu_of.induct; simp add: entry_op_defs)+

lemma entry_timers:
  "ActTerminated \<notin> set as \<Longrightarrow> e_timers (foldl (entry_effect k) e as) = foldl timer_effect (e_timers e) as"
  by (induction as arbitrary: e rule: tu_of.induct) (simp_all add: entry_op_defs)

lemma update_entry_simps [simp]:
  "d_entries (update_entry d i f) = (d_entries d)(i := map_option f (d_entries d i))"
  "d_txns (update_entry d i f) = d_txns d" "d_gauge (update_entry d i f) = d_gauge d"
  "d_router (update_entry d i f) = d_router d" "d_reliable (update_entry d i f) = d_reliable d"
  "d_next_entry (update_entry d i f) = d_next_entry d" "d_listeners (update_entry d i f) = d_listeners d"
  "d_acks_2xx (update_entry d i f) = d_acks_2xx d" "d_reacks (update_entry d i f) = d_reacks d"
  by (simp_all add: update_entry_def)

text \<open>The effect on the driver.\<close>

lemma execute_action_fields:
  "d_entries (execute_action k i d a) = (d_entries d)(i := map_option (\<lambda>e. entry_effect k e a) (d_entries d i))"
  "d_txns (execute_action k i d a) = (if a = ActTerminated then (d_txns d)(k := None) else d_txns d)"
  "d_gauge (execute_action k i d a) =
     (if a = ActTerminated \<and> d_txns d k \<noteq> None \<and> role k = Server then map_option (\<lambda>g. g - 1) (d_gauge d)
      else d_gauge d)"
  "d_router (execute_action k i d a) = d_router d" "d_reliable (execute_action k i d a) = d_reliable d"
  "d_next_entry (execute_action k i d a) = d_next_entry d" "d_listeners (execute_action k i d a) = d_listeners d"
  "d_acks_2xx (execute_action k i d a) = d_acks_2xx d" "d_reacks (execute_action k i d a) = d_reacks d"
  by (cases a; simp add: terminate_def Let_def option.map_comp comp_def)+

declare execute_action.simps [simp del]

lemma execute_actions_fields:
  "d_entries (execute_actions d k i as) =
     (d_entries d)(i := map_option (\<lambda>e. foldl (entry_effect k) e as) (d_entries d i))"
  "d_txns (execute_actions d k i as) = (if ActTerminated \<in> set as then (d_txns d)(k := None) else d_txns d)"
  "d_gauge (execute_actions d k i as) =
     (if ActTerminated \<in> set as \<and> d_txns d k \<noteq> None \<and> role k = Server
      then map_option (\<lambda>g. g - 1) (d_gauge d) else d_gauge d)"
  "d_router (execute_actions d k i as) = d_router d" "d_reliable (execute_actions d k i as) = d_reliable d"
  "d_next_entry (execute_actions d k i as) = d_next_entry d" "d_listeners (execute_actions d k i as) = d_listeners d"
  "d_acks_2xx (execute_actions d k i as) = d_acks_2xx d" "d_reacks (execute_actions d k i as) = d_reacks d"
  unfolding execute_actions_def
  by (induction as arbitrary: d)
     (auto simp: execute_action_fields option.map_comp comp_def option.map_ident)

text \<open>The entry after an event.\<close>

definition fed :: "transaction_key \<Rightarrow> txn_entry \<Rightarrow> transaction_event \<Rightarrow> txn_entry" where
  "fed k e ev = foldl (entry_effect k) (e\<lparr> e_fsm := fst (dyn_on_event (e_fsm e) ev) \<rparr>) (snd (dyn_on_event (e_fsm e) ev))"

definition ends :: "txn_entry \<Rightarrow> transaction_event \<Rightarrow> bool" where
  "ends e ev \<longleftrightarrow> dyn_state (e_fsm e) \<noteq> Terminated \<and> dyn_state (fst (dyn_on_event (e_fsm e) ev)) = Terminated"

lemma machine_event_eq:
  "d_entries d i = Some e \<Longrightarrow> machine_event d i ev =
     (update_entry d i (\<lambda>e. e\<lparr> e_fsm := fst (dyn_on_event (e_fsm e) ev) \<rparr>), snd (dyn_on_event (e_fsm e) ev))"
  by (simp add: machine_event_def update_entry_def case_prod_unfold Let_def)

lemma feed_fields:
  assumes "d_entries d i = Some e"
  shows "d_entries (feed d k i ev) = (d_entries d)(i \<mapsto> fed k e ev)"
    and "d_txns (feed d k i ev) = (if ends e ev then (d_txns d)(k := None) else d_txns d)"
    and "d_gauge (feed d k i ev) =
      (if ends e ev \<and> d_txns d k \<noteq> None \<and> role k = Server then map_option (\<lambda>g. g - 1) (d_gauge d)
       else d_gauge d)"
    and "d_router (feed d k i ev) = d_router d" and "d_reliable (feed d k i ev) = d_reliable d"
    and "d_next_entry (feed d k i ev) = d_next_entry d" and "d_listeners (feed d k i ev) = d_listeners d"
    and "d_acks_2xx (feed d k i ev) = d_acks_2xx d" and "d_reacks (feed d k i ev) = d_reacks d"
  using assms dyn.terminated_iff [of "e_fsm e" ev]
  by (auto simp: feed_def machine_event_eq execute_actions_fields fed_def ends_def)

section \<open>Invariant\<close>

text \<open>The log of an entry: every event its machine was handed, in the order of the lock, with the
  part of the returned batch that was executed and the part a task still has to execute.\<close>

record batch_log =
  b_event :: transaction_event
  b_done :: "transaction_action list"
  b_left :: "transaction_action list"

text \<open>An entry hosts its machine faithfully: the machine is the result of a run of a freshly built
  one under the transport's profile; the log holds that run's batches; what went to the wire and to
  the transaction user is an interleaving of their executed parts; what is left of them is in the
  hands of the tasks under way.\<close>

definition logged :: "bool \<Rightarrow> transaction_action list multiset \<Rightarrow> txn_entry \<Rightarrow> dyn_txn \<Rightarrow>
    batch_log list \<Rightarrow> transaction_action list \<Rightarrow> bool" where
  "logged r B e s0 log ex \<longleftrightarrow> (fresh_client s0 \<or> fresh_server s0) \<and>
     e_fsm e = fst (run dyn_on_event (dyn_set_reliable s0 r) (map b_event log)) \<and>
     batches dyn_on_event (dyn_set_reliable s0 r) (map b_event log) = map (\<lambda>b. b_done b @ b_left b) log \<and>
     ex \<in> interleavings (map b_done log) \<and> e_sends e = sends_of ex \<and> e_tu e = tu_of ex \<and>
     (e_cancelled e \<longleftrightarrow> ActTerminated \<in> set ex) \<and>
     filter_mset (\<lambda>as. as \<noteq> []) (mset (map b_left log)) = B"

definition hosted :: "bool \<Rightarrow> transaction_action list multiset \<Rightarrow> txn_entry \<Rightarrow> bool" where
  "hosted r B e \<longleftrightarrow> (\<exists>s0 log ex. logged r B e s0 log ex)"

lemma fresh_states:
  assumes "fresh_client s \<or> fresh_server s"
  shows "dyn_state (dyn_set_reliable s r) \<noteq> Terminated"
  using assms by (auto simp: ci_new_def cn_new_def si_new_def sn_new_def elim!: fresh_client.cases fresh_server.cases)

lemma fresh_role:
  "fresh_client s \<Longrightarrow> role (dyn_key s) = Client" "fresh_server s \<Longrightarrow> role (dyn_key s) = Server"
  by (auto simp: ci_new_def cn_new_def si_new_def sn_new_def elim!: fresh_client.cases fresh_server.cases)

lemma run_snoc:
  "fst (run step s (is @ [i])) = fst (step (fst (run step s is)) i)"
  by (simp add: run_append case_prod_unfold Let_def)

lemma hosted_new: "fresh_client s \<or> fresh_server s \<Longrightarrow> hosted r {#} (new_entry (dyn_set_reliable s r) peer sb)"
  unfolding hosted_def logged_def
  by (intro exI [of _ s] exI [of _ "[]"]) (simp add: new_entry_def)

lemma hosted_timers [simp]: "hosted r B (e\<lparr> e_timers := m \<rparr>) = hosted r B e"
  by (simp add: hosted_def logged_def)

text \<open>The machine takes an event: the log gets its batch, all of it left to do.\<close>

lemma hosted_event:
  assumes "hosted r B e" and "e' = e\<lparr> e_fsm := fst (dyn_on_event (e_fsm e) ev) \<rparr>"
    and "as = snd (dyn_on_event (e_fsm e) ev)"
  shows "hosted r ((if as = [] then {#} else {#as#}) + B) e'"
proof -
  from assms(1) obtain s0 log ex where l: "logged r B e s0 log ex" unfolding hosted_def by blast
  have "logged r ((if as = [] then {#} else {#as#}) + B) e' s0
      (log @ [\<lparr> b_event = ev, b_done = [], b_left = as \<rparr>]) ex"
    using l unfolding logged_def by (auto simp: assms(2,3) run_snoc batches_snoc intro: interleavings_new)
  then show ?thesis unfolding hosted_def by blast
qed

text \<open>A task executes the next action of its batch.\<close>

lemma hosted_action:
  assumes "hosted r (add_mset (a # as) B) e"
  shows "hosted r ((if as = [] then {#} else {#as#}) + B) (entry_effect k e a)"
proof -
  from assms obtain s0 log ex where l: "logged r (add_mset (a # as) B) e s0 log ex" unfolding hosted_def by blast
  then have B: "filter_mset (\<lambda>as. as \<noteq> []) (mset (map b_left log)) = add_mset (a # as) B"
    unfolding logged_def by blast
  then have "a # as \<in># filter_mset (\<lambda>as. as \<noteq> []) (mset (map b_left log))" by simp
  then have "a # as \<in># mset (map b_left log)" by (rule mset_subset_eqD [OF multiset_filter_subset])
  then obtain j where j: "j < length log" "b_left (log ! j) = a # as"
    by (auto simp: in_set_conv_nth)
  let ?b = "(log ! j)\<lparr> b_done := b_done (log ! j) @ [a], b_left := as \<rparr>"
  let ?log = "log[j := ?b]"
  have upd: "map b_event ?log = map b_event log"
      "map (\<lambda>b. b_done b @ b_left b) ?log = map (\<lambda>b. b_done b @ b_left b) log"
      "map b_done ?log = (map b_done log)[j := map b_done log ! j @ [a]]"
      "map b_left ?log = (map b_left log)[j := as]"
    using j by (simp_all add: map_update list_update_same_conv)
  have left: "mset (map b_left ?log) = add_mset as (mset (map b_left log) - {#a # as#})"
    using j by (simp add: upd mset_update)
  have "filter_mset (\<lambda>as. as \<noteq> []) (mset (map b_left ?log)) = (if as = [] then {#} else {#as#}) + B"
    unfolding left using B by simp
  moreover have "ex @ [a] \<in> interleavings (map b_done ?log)"
    using l j unfolding upd logged_def by (intro interleavings_step) simp_all
  moreover have "sends_of (ex @ [a]) = e_sends (entry_effect k e a)" "tu_of (ex @ [a]) = e_tu (entry_effect k e a)"
      "e_cancelled (entry_effect k e a) \<longleftrightarrow> ActTerminated \<in> set (ex @ [a])" "e_fsm (entry_effect k e a) = e_fsm e"
    using l entry_effects [of k e "[a]"] by (simp_all add: logged_def disj_commute)
  ultimately have "logged r ((if as = [] then {#} else {#as#}) + B) (entry_effect k e a) s0 ?log (ex @ [a])"
    using l unfolding logged_def upd(1,2) by simp
  then show ?thesis unfolding hosted_def by blast
qed

text \<open>The termination of the machine, the notice, and the tasks.\<close>

lemma logged_emitted:
  assumes "logged r B e s0 log ex"
  shows "mset (snd (run dyn_on_event (dyn_set_reliable s0 r) (map b_event log))) = mset ex + \<Sum>\<^sub># (image_mset mset B)"
proof -
  have "mset (snd (run dyn_on_event (dyn_set_reliable s0 r) (map b_event log))) =
      mset (concat (map (\<lambda>b. b_done b @ b_left b) log))"
    using assms unfolding logged_def concat_batches [symmetric] by simp
  also have "\<dots> = mset (concat (map b_done log)) + (\<Sum>as \<in># mset (map b_left log). mset as)"
    by (induction log) simp_all
  also have "(\<Sum>as \<in># mset (map b_left log). mset as) =
      (\<Sum>as \<in># filter_mset (\<lambda>as. as \<noteq> []) (mset (map b_left log)). mset as)"
    by (induction log) simp_all
  also have "mset (concat (map b_done log)) = mset ex"
    using assms unfolding logged_def by (metis mset_interleavings)
  finally show ?thesis using assms unfolding logged_def by simp
qed

lemma hosted_terminated:
  assumes "hosted r B e"
  shows "dyn_state (e_fsm e) = Terminated \<longleftrightarrow> e_cancelled e \<or> (\<exists>as \<in># B. ActTerminated \<in> set as)"
proof -
  from assms obtain s0 log ex where l: "logged r B e s0 log ex" unfolding hosted_def by blast
  let ?run = "run dyn_on_event (dyn_set_reliable s0 r) (map b_event log)"
  have "dyn_state (dyn_set_reliable s0 r) \<noteq> Terminated" using l fresh_states unfolding logged_def by blast
  then have "dyn_state (e_fsm e) = Terminated \<longleftrightarrow> ActTerminated \<in># mset (snd ?run)"
    using l unfolding logged_def by (simp add: dyn.run_terminated_iff del: dyn.state_set_reliable)
  then show ?thesis unfolding logged_emitted [OF l] using l by (auto simp: logged_def)
qed

text \<open>Timers. A guard is covered when it is armed, or when a task under way will arm it or
  deliver its firing. A timer whose cancellation is under way can never be a guard again, and the
  machine of a client that waits for its opening event is still in its initial state.\<close>

fun spent :: "dyn_txn \<Rightarrow> timer_id \<Rightarrow> bool" where
  "spent (CI s) t \<longleftrightarrow> t = TimerA \<or> t = TimerB \<and> ci_state s \<in> {Completed, Terminated}"
| "spent (CN s) t \<longleftrightarrow> t = TimerE \<or> t = TimerF \<and> cn_state s \<in> {Completed, Terminated}"
| "spent (SI s) t \<longleftrightarrow> t = TimerG \<or> t = TimerH \<and> si_state s \<in> {Confirmed, Terminated}"
| "spent (SN s) t \<longleftrightarrow> False"

fun initial :: "dyn_txn \<Rightarrow> bool" where
  "initial (CI s) \<longleftrightarrow> ci_state s = Calling"
| "initial (CN s) \<longleftrightarrow> cn_state s = Trying"
| "initial _ \<longleftrightarrow> False"

lemma spent_not_guard: "spent s t \<Longrightarrow> dyn_guard s \<noteq> Some t"
  by (cases s) (auto simp: ci_guard_def cn_guard_def si_guard_def split: transaction_state.splits)

lemma spent_kept: "spent s t \<Longrightarrow> spent (fst (dyn_on_event s ev)) t"
  by (cases s; cases ev) (auto simp: ci_defs cn_defs si_defs split: option.splits)

lemma cancelled_spent: "CancelTimer t \<in> set (snd (dyn_on_event s ev)) \<Longrightarrow> spent (fst (dyn_on_event s ev)) t"
  by (cases s; cases ev) (auto simp: ci_defs cn_defs si_defs sn_defs split: option.splits if_splits)

lemma initial_kept:
  "initial s \<Longrightarrow> (\<And>st bs. ev \<noteq> ResponseReceived st bs) \<Longrightarrow>
   initial (fst (dyn_on_event s ev)) \<or> dyn_state (fst (dyn_on_event s ev)) = Terminated"
  by (cases s; cases ev) (auto simp: ci_defs cn_defs split: option.splits)

lemma initial_arms:
  "initial s \<Longrightarrow> dyn_guard (fst (dyn_on_event s StartClient)) = Some g \<Longrightarrow>
   \<exists>x. ArmTimer g x \<in> set (snd (dyn_on_event s StartClient))"
  by (cases s) (auto simp: ci_defs cn_defs ci_guard_def cn_guard_def split: transaction_state.splits)

lemma timer_effect_armed:
  "foldl timer_effect m as g \<noteq> None \<Longrightarrow> m g \<noteq> None \<or> (\<exists>x. ArmTimer g x \<in> set as)"
proof (induction as arbitrary: m)
  case (Cons a as)
  then show ?case by (cases a) (fastforce split: if_splits)+
qed simp

text \<open>A new guard is armed by the batch that brings it.\<close>

lemma guard_step:
  assumes "dyn_guard (fst (dyn_on_event s ev)) = Some g"
  shows "(dyn_guard s = Some g \<and> ev \<noteq> TimerFired g) \<or> (\<exists>x. ArmTimer g x \<in> set (snd (dyn_on_event s ev)))"
proof -
  define m :: "timer_id \<rightharpoonup> duration" where "m = (\<lambda>t. if dyn_guard s = Some t then Some 0 else None)"
  have "foldl timer_effect (timer_consume m ev) (snd (dyn_on_event s ev)) g \<noteq> None"
    by (rule dyn.guard_kept [OF _ assms]) (simp add: m_def)
  then have "timer_consume m ev g \<noteq> None \<or> (\<exists>x. ArmTimer g x \<in> set (snd (dyn_on_event s ev)))"
    by (rule timer_effect_armed)
  then show ?thesis by (cases ev) (auto simp: m_def split: if_splits)
qed

definition covered :: "transaction_event multiset \<Rightarrow> transaction_action list multiset \<Rightarrow> txn_entry \<Rightarrow> bool" where
  "covered E B e \<longleftrightarrow> (\<forall>g. dyn_guard (e_fsm e) = Some g \<longrightarrow>
     e_timers e g \<noteq> None \<or> TimerFired g \<in># E \<or> StartClient \<in># E \<or> (\<exists>as \<in># B. \<exists>x. ArmTimer g x \<in> set as))"

definition orderly :: "transaction_event multiset \<Rightarrow> transaction_action list multiset \<Rightarrow> txn_entry \<Rightarrow> bool" where
  "orderly E B e \<longleftrightarrow>
     (\<forall>as \<in># B. \<forall>t. CancelTimer t \<in> set as \<longrightarrow> spent (e_fsm e) t) \<and>
     (StartClient \<in># E \<longrightarrow> (initial (e_fsm e) \<or> dyn_state (e_fsm e) = Terminated) \<and>
        (\<forall>st bs. ResponseReceived st bs \<notin># E))"

definition entry_inv :: "bool \<Rightarrow> transaction_event multiset \<Rightarrow> transaction_action list multiset \<Rightarrow> txn_entry \<Rightarrow> bool" where
  "entry_inv r E B e \<longleftrightarrow> hosted r B e \<and> covered E B e \<and> orderly E B e"

lemma entry_inv_more:
  assumes "entry_inv r E B e" and "ev \<noteq> StartClient" and "\<And>st bs. ev = ResponseReceived st bs \<Longrightarrow> StartClient \<notin># E"
  shows "entry_inv r (add_mset ev E) B e"
  using assms by (auto simp: entry_inv_def covered_def orderly_def)

lemma entry_inv_timer:
  assumes "entry_inv r E B e"
  shows "entry_inv r (add_mset (TimerFired t) E) B (cancel_timer e t)"
  using assms by (auto simp: entry_inv_def covered_def orderly_def cancel_timer_def)

lemma entry_inv_event:
  assumes "entry_inv r (add_mset ev E) B e"
    and "as = snd (dyn_on_event (e_fsm e) ev)"
  shows "entry_inv r E ((if as = [] then {#} else {#as#}) + B) (e\<lparr> e_fsm := fst (dyn_on_event (e_fsm e) ev) \<rparr>)"
    (is "entry_inv r E ?B ?e")
proof -
  from assms(1) have inv: "hosted r B e" "covered (add_mset ev E) B e" "orderly (add_mset ev E) B e"
    by (simp_all add: entry_inv_def)
  have "covered E ?B ?e"
    unfolding covered_def
  proof (intro allI impI)
    fix g assume "dyn_guard (e_fsm ?e) = Some g"
    then have g: "dyn_guard (fst (dyn_on_event (e_fsm e) ev)) = Some g" by simp
    show "e_timers ?e g \<noteq> None \<or> TimerFired g \<in># E \<or> StartClient \<in># E \<or> (\<exists>as \<in># ?B. \<exists>x. ArmTimer g x \<in> set as)"
    proof (cases "\<exists>x. ArmTimer g x \<in> set as")
      case True
      then show ?thesis by (cases "as = []") auto
    next
      case False
      with guard_step [OF g] have old: "dyn_guard (e_fsm e) = Some g" "ev \<noteq> TimerFired g" by (auto simp: assms(2))
      then have "dyn_state (e_fsm e) \<noteq> Terminated" using dyn.guard_terminated by fastforce
      then have "ev \<noteq> StartClient"
        using inv(3) g False initial_arms [of "e_fsm e" g] by (auto simp: orderly_def assms(2))
      with old inv(2) show ?thesis unfolding covered_def by auto
    qed
  qed
  moreover have "orderly E ?B ?e"
    unfolding orderly_def
  proof (intro conjI ballI allI impI)
    show "spent (e_fsm ?e) t" if "bs \<in># ?B" "CancelTimer t \<in> set bs" for bs t
      using that inv(3) by (auto simp: orderly_def assms(2) intro: spent_kept cancelled_spent split: if_splits)
    assume "StartClient \<in># E"
    with inv(3) have "initial (e_fsm e) \<or> dyn_state (e_fsm e) = Terminated"
        and "\<And>st bs. ResponseReceived st bs \<notin># add_mset ev E"
      by (auto simp: orderly_def)
    then show "initial (e_fsm ?e) \<or> dyn_state (e_fsm ?e) = Terminated" "ResponseReceived st bs \<notin># E" for st bs
      using initial_kept [of "e_fsm e" ev] by (auto simp: dyn.stays_terminated)
  qed
  moreover have "hosted r ?B ?e" by (rule hosted_event [OF inv(1) refl assms(2)])
  ultimately show ?thesis by (simp add: entry_inv_def)
qed

lemma entry_inv_action:
  assumes "entry_inv r E (add_mset (a # as) B) e"
  shows "entry_inv r E ((if as = [] then {#} else {#as#}) + B) (entry_effect k e a)" (is "entry_inv r E ?B ?e")
proof -
  from assms have inv: "hosted r (add_mset (a # as) B) e" "covered E (add_mset (a # as) B) e"
      "orderly E (add_mset (a # as) B) e"
    by (simp_all add: entry_inv_def)
  have fsm: "e_fsm ?e = e_fsm e" using entry_effects(1) [of k e "[a]"] by simp
  have "covered E ?B ?e"
    unfolding covered_def fsm
  proof (intro allI impI)
    fix g assume g: "dyn_guard (e_fsm e) = Some g"
    have "a \<noteq> ActTerminated"
      using hosted_terminated [OF inv(1)] dyn.guard_terminated [of "e_fsm e"] g by auto
    moreover have "a \<noteq> CancelTimer g" using inv(3) g spent_not_guard [of "e_fsm e" g] by (auto simp: orderly_def)
    ultimately show "e_timers ?e g \<noteq> None \<or> TimerFired g \<in># E \<or> StartClient \<in># E \<or>
        (\<exists>as \<in># ?B. \<exists>x. ArmTimer g x \<in> set as)"
      using inv(2) g by (cases a) (auto simp: covered_def entry_op_defs)
  qed
  moreover have "orderly E ?B ?e" using inv(3) by (auto simp: orderly_def fsm split: if_splits)
  ultimately show ?thesis using hosted_action [OF inv(1)] by (simp add: entry_inv_def)
qed

section \<open>The driver's invariant\<close>

definition holds_entry :: "driver \<Rightarrow> transaction_key \<Rightarrow> entry_id \<Rightarrow> bool" where
  "holds_entry d k i \<longleftrightarrow> (\<exists>e. d_entries d i = Some e \<and> dyn_key (e_fsm e) = k)"

fun task_ok :: "driver \<Rightarrow> driver_task \<Rightarrow> bool" where
  "task_ok d (Response_Call k status bs) \<longleftrightarrow> True"
| "task_ok d (Timer_Task k i t) \<longleftrightarrow> holds_entry d k i"
| "task_ok d (Event_Task k i ev) \<longleftrightarrow> holds_entry d k i"
| "task_ok d (Batch_Task k i as) \<longleftrightarrow> holds_entry d k i"

definition entries_inv :: "bool \<Rightarrow> driver \<Rightarrow> tasks \<Rightarrow> bool" where
  "entries_inv r d T \<longleftrightarrow> d_reliable d = r \<and> (\<forall>t \<in># T. task_ok d t) \<and>
     (\<forall>i e. d_entries d i = Some e \<longrightarrow>
        i < d_next_entry d \<and> entry_inv r (events_at i T) (batches_at i T) e)"

definition table_inv :: "driver \<Rightarrow> bool" where
  "table_inv d \<longleftrightarrow> (\<forall>k i. d_txns d k = Some i \<longrightarrow>
     (\<exists>e. d_entries d i = Some e \<and> dyn_key (e_fsm e) = k \<and> \<not> e_cancelled e))"

definition server_keys :: "driver \<Rightarrow> transaction_key set" where
  "server_keys d = {k \<in> dom (d_txns d). role k = Server}"

definition gauge_inv :: "driver \<Rightarrow> bool" where
  "gauge_inv d \<longleftrightarrow> finite (dom (d_txns d)) \<and>
     (d_gauge d = None \<or> d_gauge d = Some (int (card (server_keys d))))"

definition driver_inv :: "bool \<Rightarrow> driver \<Rightarrow> tasks \<Rightarrow> bool" where
  "driver_inv r d T \<longleftrightarrow> entries_inv r d T \<and> table_inv d \<and> gauge_inv d"

lemma entries_invD:
  "entries_inv r d T \<Longrightarrow> d_entries d i = Some e \<Longrightarrow> entry_inv r (events_at i T) (batches_at i T) e"
  "entries_inv r d T \<Longrightarrow> d_entries d i = Some e \<Longrightarrow> i < d_next_entry d"
  by (simp_all add: entries_inv_def)

lemma table_invD:
  "table_inv d \<Longrightarrow> d_txns d k = Some i \<Longrightarrow> \<exists>e. d_entries d i = Some e \<and> dyn_key (e_fsm e) = k \<and> \<not> e_cancelled e"
  by (simp add: table_inv_def)

lemma no_tasks:
  assumes "\<forall>t \<in># T. task_ok d t" and "d_entries d i = None"
  shows "events_at i T = {#}" and "batches_at i T = {#}"
proof -
  have "task_events i t = {#} \<and> task_batches i t = {#}" if "t \<in># T" for t
    using assms that by (cases t) (force simp: holds_entry_def)+
  then show "events_at i T = {#}" "batches_at i T = {#}"
    by (simp_all add: events_at_def batches_at_def cong: image_mset_cong)
qed

text \<open>Nothing outside the table, the entries and the gauge matters to the invariant.\<close>

lemma driver_inv_cong:
  assumes "driver_inv r d T" and "d_entries d' = d_entries d" "d_txns d' = d_txns d" "d_gauge d' = d_gauge d"
    "d_next_entry d' = d_next_entry d" "d_reliable d' = d_reliable d"
  shows "driver_inv r d' T"
proof -
  have "task_ok d' t = task_ok d t" for t using assms(2) by (cases t) (simp_all add: holds_entry_def)
  with assms show ?thesis
    by (simp add: driver_inv_def entries_inv_def table_inv_def gauge_inv_def server_keys_def)
qed

text \<open>A task that looked up its entry joins the others.\<close>

lemma driver_inv_call:
  assumes "driver_inv r d T" and "d_txns d k = Some i" and "ev \<noteq> StartClient"
    and "\<And>st bs. ev = ResponseReceived st bs \<Longrightarrow> StartClient \<notin># events_at i T"
  shows "driver_inv r d (add_mset (Event_Task k i ev) T)"
proof -
  have inv: "entries_inv r d T" "table_inv d" using assms(1) by (simp_all add: driver_inv_def)
  have "entry_inv r (add_mset ev (events_at i T)) (batches_at i T) e" if "d_entries d i = Some e" for e
    by (rule entry_inv_more [OF entries_invD(1) [OF inv(1) that] assms(3,4)])
  moreover have "holds_entry d k i" using table_invD [OF inv(2) assms(2)] by (auto simp: holds_entry_def)
  ultimately show ?thesis using assms(1) by (simp add: driver_inv_def entries_inv_def)
qed

lemma driver_inv_idle:
  assumes "driver_inv r d T" and "task_ok d t" and "\<And>i. task_events i t = {#}" "\<And>i. task_batches i t = {#}"
  shows "driver_inv r d (add_mset t T)"
  using assms by (simp add: driver_inv_def entries_inv_def)

lemma driver_inv_done:
  assumes "driver_inv r d (add_mset t T)" and "\<And>i. task_events i t = {#}" "\<And>i. task_batches i t = {#}"
  shows "driver_inv r d T"
  using assms by (simp add: driver_inv_def entries_inv_def)

text \<open>A task that works on its entry: the others see the same keys, and only this entry changes.\<close>

lemma entries_inv_swap:
  assumes inv: "entries_inv r d (add_mset t T)" and e: "d_entries d i = Some e"
    and d': "d_entries d' = (d_entries d)(i \<mapsto> e')" "d_next_entry d' = d_next_entry d" "d_reliable d' = d_reliable d"
    and key: "dyn_key (e_fsm e') = dyn_key (e_fsm e)"
    and other: "\<And>j. j \<noteq> i \<Longrightarrow> task_events j t = {#} \<and> task_batches j t = {#}"
      "\<And>j. j \<noteq> i \<Longrightarrow> task_events j t' = {#} \<and> task_batches j t' = {#}"
    and t': "task_ok d t'"
    and new: "entry_inv r (task_events i t' + events_at i T) (task_batches i t' + batches_at i T) e'"
  shows "entries_inv r d' (add_mset t' T)"
proof -
  have "task_ok d' u" if "task_ok d u" for u
    using that e key by (cases u) (auto simp: holds_entry_def d')
  moreover have "j < d_next_entry d \<and> entry_inv r (task_events j t' + events_at j T) (task_batches j t' + batches_at j T) f"
    if "d_entries d' j = Some f" for j f
    using that entries_invD [OF inv, of j f] entries_invD(2) [OF inv e] new other [of j]
    by (cases "j = i") (simp_all add: d')
  ultimately show ?thesis using inv t' by (auto simp: entries_inv_def d')
qed

lemma driver_inv_swap:
  assumes inv: "driver_inv r d (add_mset t T)" and e: "d_entries d i = Some e"
    and t: "task_ok d t'" "\<And>j. j \<noteq> i \<Longrightarrow> task_events j t = {#} \<and> task_batches j t = {#}"
      "\<And>j. j \<noteq> i \<Longrightarrow> task_events j t' = {#} \<and> task_batches j t' = {#}"
    and e': "dyn_key (e_fsm (f e)) = dyn_key (e_fsm e)" "e_cancelled (f e) = e_cancelled e"
    and new: "entry_inv r (task_events i t' + events_at i T) (task_batches i t' + batches_at i T) (f e)"
  shows "driver_inv r (update_entry d i f) (add_mset t' T)"
proof -
  have "entries_inv r (update_entry d i f) (add_mset t' T)"
    using inv e by (intro entries_inv_swap [OF _ e _ _ _ e'(1) t(2,3,1) new]) (simp_all add: driver_inv_def)
  moreover have "table_inv (update_entry d i f)"
    unfolding table_inv_def
  proof (intro allI impI)
    fix k j assume "d_txns (update_entry d i f) k = Some j"
    then obtain e1 where "d_entries d j = Some e1" "dyn_key (e_fsm e1) = k" "\<not> e_cancelled e1"
      using inv table_invD [of d k j] by (auto simp: driver_inv_def)
    with e e' show "\<exists>e. d_entries (update_entry d i f) j = Some e \<and> dyn_key (e_fsm e) = k \<and> \<not> e_cancelled e"
      by auto
  qed
  moreover have "gauge_inv (update_entry d i f)"
    using inv by (simp add: driver_inv_def gauge_inv_def server_keys_def)
  ultimately show ?thesis by (simp add: driver_inv_def)
qed

lemma driver_inv_timer_handle:
  assumes "driver_inv r d (add_mset (Timer_Task k i t) T)"
  shows "driver_inv r (update_entry d i (\<lambda>e. cancel_timer e t)) (add_mset (Event_Task k i (TimerFired t)) T)"
proof -
  from assms obtain e where e: "d_entries d i = Some e" "holds_entry d k i"
    by (auto simp: driver_inv_def entries_inv_def holds_entry_def)
  show ?thesis
  proof (rule driver_inv_swap [OF assms e(1)])
    show "entry_inv r (task_events i (Event_Task k i (TimerFired t)) + events_at i T)
        (task_batches i (Event_Task k i (TimerFired t)) + batches_at i T) (cancel_timer e t)"
      using assms e(1) entry_inv_timer [of r "events_at i T" "batches_at i T" e t]
      by (auto simp: driver_inv_def entries_inv_def)
  qed (simp_all add: e cancel_timer_def)
qed

lemma driver_inv_on_event:
  assumes "driver_inv r d (add_mset (Event_Task k i ev) T)" and "machine_event d i ev = (d', as)"
  shows "driver_inv r d' (add_mset (Batch_Task k i as) T)"
proof -
  from assms(1) obtain e where e: "d_entries d i = Some e" "holds_entry d k i"
    by (auto simp: driver_inv_def entries_inv_def holds_entry_def)
  define f where "f = (\<lambda>e :: txn_entry. e\<lparr> e_fsm := fst (dyn_on_event (e_fsm e) ev) \<rparr>)"
  have d': "d' = update_entry d i f" and as: "as = snd (dyn_on_event (e_fsm e) ev)"
    using assms(2) machine_event_eq [OF e(1), of ev] by (simp_all add: f_def)
  show ?thesis
    unfolding d'
  proof (rule driver_inv_swap [OF assms(1) e(1)])
    show "entry_inv r (task_events i (Batch_Task k i as) + events_at i T)
        (task_batches i (Batch_Task k i as) + batches_at i T) (f e)"
      using assms(1) e(1) entry_inv_event [of r ev "events_at i T" "batches_at i T" e as]
      by (auto simp: driver_inv_def entries_inv_def as f_def split: if_splits)
  qed (simp_all add: e f_def)
qed


lemma server_keys_drop:
  assumes "finite (dom m)" and "m k \<noteq> None"
  shows "card {k' \<in> dom m. role k' = Server} =
    card {k' \<in> dom (m(k := None)). role k' = Server} + (if role k = Server then 1 else 0)"
proof (cases "role k = Server")
  case True
  let ?S = "{k' \<in> dom m. role k' = Server}"
  have "{k' \<in> dom (m(k := None)). role k' = Server} = ?S - {k}" by auto
  moreover have "k \<in> ?S" "finite ?S" using True assms by auto
  ultimately show ?thesis using True card.remove [of ?S k] by simp
next
  case False
  then have "{k' \<in> dom (m(k := None)). role k' = Server} = {k' \<in> dom m. role k' = Server}" by auto
  with False show ?thesis by simp
qed

lemma gauge_inv_action:
  assumes "gauge_inv d"
  shows "gauge_inv (execute_action k i d a)"
proof (cases "a = ActTerminated \<and> d_txns d k \<noteq> None")
  case True
  with assms server_keys_drop [of "d_txns d" k] show ?thesis
    unfolding gauge_inv_def server_keys_def by (auto simp: execute_action_fields)
next
  case False
  then have "d_txns (execute_action k i d a) = d_txns d" "d_gauge (execute_action k i d a) = d_gauge d"
    by (auto simp: execute_action_fields)
  with assms show ?thesis by (simp add: gauge_inv_def server_keys_def)
qed

lemma table_inv_action:
  assumes "table_inv d" and e: "d_entries d i = Some e" "dyn_key (e_fsm e) = k"
  shows "table_inv (execute_action k i d a)"
  unfolding table_inv_def
proof (intro allI impI)
  fix k' j assume "d_txns (execute_action k i d a) k' = Some j"
  then have t: "d_txns d k' = Some j" "a = ActTerminated \<Longrightarrow> k' \<noteq> k"
    by (auto simp: execute_action_fields split: if_splits)
  then obtain e1 where e1: "d_entries d j = Some e1" "dyn_key (e_fsm e1) = k'" "\<not> e_cancelled e1"
    using table_invD [OF assms(1)] by blast
  have "e_fsm (entry_effect k e a) = e_fsm e" "e_cancelled (entry_effect k e a) \<longleftrightarrow> e_cancelled e \<or> a = ActTerminated"
    using entry_effects(1,5) [of k e "[a]"] by auto
  with e e1 t(2) show "\<exists>e. d_entries (execute_action k i d a) j = Some e \<and> dyn_key (e_fsm e) = k' \<and> \<not> e_cancelled e"
    by (cases "j = i") (auto simp: execute_action_fields)
qed

lemma driver_inv_action:
  assumes "driver_inv r d (add_mset (Batch_Task k i (a # as)) T)"
  shows "driver_inv r (execute_action k i d a) (add_mset (Batch_Task k i as) T)"
proof -
  from assms have inv: "entries_inv r d (add_mset (Batch_Task k i (a # as)) T)" "table_inv d" "gauge_inv d"
    by (simp_all add: driver_inv_def)
  then obtain e where e: "d_entries d i = Some e" "dyn_key (e_fsm e) = k" "holds_entry d k i"
    by (auto simp: entries_inv_def holds_entry_def)
  have "entries_inv r (execute_action k i d a) (add_mset (Batch_Task k i as) T)"
  proof (rule entries_inv_swap [OF inv(1) e(1)])
    show "entry_inv r (task_events i (Batch_Task k i as) + events_at i T)
        (task_batches i (Batch_Task k i as) + batches_at i T) (entry_effect k e a)"
      using entries_invD(1) [OF inv(1) e(1)] entry_inv_action [of r "events_at i T" a as "batches_at i T" e k]
      by (simp split: if_splits)
    show "dyn_key (e_fsm (entry_effect k e a)) = dyn_key (e_fsm e)"
      using entry_effects(1) [of k e "[a]"] by simp
  qed (simp_all add: e execute_action_fields)
  then show ?thesis
    using table_inv_action [OF inv(2) e(1,2)] gauge_inv_action [OF inv(3)] by (simp add: driver_inv_def)
qed

text \<open>Starting a transaction: a new entry that no task knows.\<close>

lemma fresh_initial: "fresh_client s \<Longrightarrow> initial (dyn_set_reliable s r)"
  by (auto simp: ci_new_def cn_new_def ci_set_reliable_def cn_set_reliable_def elim!: fresh_client.cases)

lemma fresh_unguarded: "fresh_server s \<Longrightarrow> dyn_guard (dyn_set_reliable s r) = None"
  by (auto simp: si_new_def sn_new_def si_set_reliable_def sn_set_reliable_def si_guard_def sn_guard_def
      elim!: fresh_server.cases)

lemma fresh_exclusive: "fresh_server s \<Longrightarrow> \<not> fresh_client s"
  by (auto elim!: fresh_client.cases fresh_server.cases)

lemma entries_inv_new:
  assumes inv: "entries_inv r d T" and fresh: "fresh_client s \<or> fresh_server s"
    and d': "d_entries d' = (d_entries d)(d_next_entry d \<mapsto> new_entry (dyn_set_reliable s r) peer sb)"
      "d_next_entry d' = Suc (d_next_entry d)" "d_reliable d' = r"
    and E: "E = (if fresh_client s then {#Event_Task (dyn_key s) (d_next_entry d) StartClient#} else {#})"
  shows "entries_inv r d' (E + T)"
proof -
  let ?i = "d_next_entry d" and ?e = "new_entry (dyn_set_reliable s r) peer sb"
  have unused: "d_entries d ?i = None" using entries_invD(2) [OF inv, of ?i] by (cases "d_entries d ?i") auto
  have ok: "\<forall>t \<in># T. task_ok d t" using inv by (simp add: entries_inv_def)
  note none = no_tasks [OF ok unused]
  have "task_ok d' t" if "t \<in># E + T" for t
    using that ok unused by (cases t) (auto simp: E d' holds_entry_def new_entry_def split: if_splits)
  moreover have "entry_inv r (events_at ?i (E + T)) (batches_at ?i (E + T)) ?e"
    using fresh none hosted_new [OF fresh, of r peer sb] fresh_initial [of s r] fresh_unguarded [of s r]
    by (auto simp: entry_inv_def covered_def orderly_def E new_entry_def)
  moreover have "events_at j (E + T) = events_at j T" "batches_at j (E + T) = batches_at j T" if "j \<noteq> ?i" for j
    using that by (simp_all add: E)
  ultimately show ?thesis
    using inv entries_invD [OF inv] unfolding entries_inv_def d' by (auto simp: less_Suc_eq split: if_splits)
qed

lemma table_inv_new:
  assumes "table_inv d" and "d_entries d i = None" and "dyn_key (e_fsm e) = k" "\<not> e_cancelled e"
    and "d_entries d' = (d_entries d)(i \<mapsto> e)" "d_txns d' = (d_txns d)(k \<mapsto> i)"
  shows "table_inv d'"
  unfolding table_inv_def
proof (intro allI impI)
  fix k' j assume "d_txns d' k' = Some j"
  then show "\<exists>e. d_entries d' j = Some e \<and> dyn_key (e_fsm e) = k' \<and> \<not> e_cancelled e"
    using assms(2-) table_invD [OF assms(1), of k' j] by (auto split: if_splits)
qed


lemma driver_inv_new:
  assumes inv: "driver_inv r d T" and fresh: "fresh_client s \<or> fresh_server s"
    and d': "d_entries d' = (d_entries d)(d_next_entry d \<mapsto> new_entry (dyn_set_reliable s r) peer sb)"
      "d_next_entry d' = Suc (d_next_entry d)" "d_reliable d' = r" "d_txns d' = (d_txns d)(dyn_key s \<mapsto> d_next_entry d)"
    and E: "E = (if fresh_client s then {#Event_Task (dyn_key s) (d_next_entry d) StartClient#} else {#})"
    and g: "gauge_inv d'"
  shows "driver_inv r d' (E + T)"
proof -
  have inv': "entries_inv r d T" "table_inv d" using inv by (simp_all add: driver_inv_def)
  have "d_entries d (d_next_entry d) = None"
    using entries_invD(2) [OF inv'(1)] by (cases "d_entries d (d_next_entry d)") auto
  from table_inv_new [OF inv'(2) this _ _ d'(1,4)] have "table_inv d'" by (simp add: new_entry_def)
  with entries_inv_new [OF inv'(1) fresh d'(1-3) E] g show ?thesis by (simp add: driver_inv_def)
qed

lemma driver_inv_start_client:
  assumes inv: "driver_inv r d T" and fresh: "fresh_client s"
  shows "driver_inv r (register_client d s peer) (add_mset (Event_Task (dyn_key s) (d_next_entry d) StartClient) T)"
proof -
  let ?d = "register_client d s peer"
  have r: "d_reliable d = r" using inv by (simp add: driver_inv_def entries_inv_def)
  then have d': "d_entries ?d = (d_entries d)(d_next_entry d \<mapsto> new_entry (dyn_set_reliable s r) peer None)"
      "d_next_entry ?d = Suc (d_next_entry d)" "d_reliable ?d = r"
      "d_txns ?d = (d_txns d)(dyn_key s \<mapsto> d_next_entry d)" "d_gauge ?d = d_gauge d"
    by (simp_all add: register_client_def Let_def case_prod_unfold)
  have "server_keys ?d = server_keys d" using fresh_role(1) [OF fresh] by (auto simp: server_keys_def d')
  with inv have g: "gauge_inv ?d" by (simp add: driver_inv_def gauge_inv_def d')
  from driver_inv_new [OF inv disjI1 [OF fresh] d'(1-4) refl g] fresh show ?thesis by simp
qed

lemma driver_inv_start_server:
  assumes inv: "driver_inv r d T" and fresh: "fresh_server s" "\<not> is_alive d (dyn_key s)"
  shows "driver_inv r (start_server_inner d s peer sb) T"
proof -
  let ?d = "start_server_inner d s peer sb"
  have r: "d_reliable d = r" using inv by (simp add: driver_inv_def entries_inv_def)
  then have d': "d_entries ?d = (d_entries d)(d_next_entry d \<mapsto> new_entry (dyn_set_reliable s r) peer sb)"
      "d_next_entry ?d = Suc (d_next_entry d)" "d_reliable ?d = r"
      "d_txns ?d = (d_txns d)(dyn_key s \<mapsto> d_next_entry d)" "d_gauge ?d = map_option (\<lambda>g. g + 1) (d_gauge d)"
    by (simp_all add: start_server_inner_def Let_def)
  have "role (dyn_key s) = Server" "d_txns d (dyn_key s) = None" using fresh by (auto simp: fresh_role is_alive_def)
  then have "server_keys ?d = insert (dyn_key s) (server_keys d)" "dyn_key s \<notin> server_keys d"
    by (auto simp: server_keys_def d')
  moreover have "finite (server_keys d)" using inv by (simp add: driver_inv_def gauge_inv_def server_keys_def)
  ultimately have g: "gauge_inv ?d" using inv by (auto simp: driver_inv_def gauge_inv_def d')
  from driver_inv_new [OF inv disjI2 [OF fresh(1)] d'(1-4) refl g] fresh_exclusive [OF fresh(1)]
  show ?thesis by simp
qed

lemma driver_inv_listener_exit: "driver_inv r d T \<Longrightarrow> driver_inv r (listener_exit d l b) T"
  by (erule driver_inv_cong) (simp_all add: listener_exit_def set_phase_def Let_def)

lemma driver_inv_router: "driver_inv r d T \<Longrightarrow> driver_inv r (d\<lparr> d_router := x \<rparr>) T"
  by (erule driver_inv_cong) simp_all

lemma driver_inv_phase: "driver_inv r d T \<Longrightarrow> driver_inv r (set_phase d i p) T"
  by (erule driver_inv_cong) (simp_all add: set_phase_def)

lemma driver_inv_reacks: "driver_inv r d T \<Longrightarrow> driver_inv r (d\<lparr> d_reacks := x \<rparr>) T"
  by (erule driver_inv_cong) simp_all

lemma driver_inv_register: "driver_inv r d T \<Longrightarrow> driver_inv r (register_ack_for_2xx d br peer ack) T"
  by (erule driver_inv_cong) (simp_all add: register_ack_for_2xx_def)

lemma driver_inv_take: "driver_inv r d T \<Longrightarrow> listener_take d l = (d', x) \<Longrightarrow> driver_inv r d' T"
  by (auto simp: listener_take_def Let_def intro: driver_inv_router driver_inv_listener_exit
      split: prod.splits recv_result.splits)

lemmas driver_inv_intros = driver_inv_start_client driver_inv_start_server driver_inv_listener_exit
  driver_inv_router driver_inv_phase driver_inv_reacks driver_inv_register

lemma request_entryD: "request_entry d k bs = Some i \<Longrightarrow> d_txns d k = Some i"
  by (auto simp: request_entry_def split: option.splits if_splits)

lemma driver_inv_step:
  assumes "driver_step d T d' T'" and "driver_inv r d T"
  shows "driver_inv r d' T'"
  using assms
proof (cases rule: driver_step.cases)
  case (response_found key i T0 status bs)
  have "driver_inv r d T0" using assms(2) unfolding response_found by (rule driver_inv_done) simp_all
  with response_found show ?thesis by (auto intro: driver_inv_call)
next
  case (response_dropped key status bs)
  show ?thesis using assms(2) unfolding response_dropped by (rule driver_inv_done) simp_all
next
  case (batch_done key i)
  show ?thesis using assms(2) unfolding batch_done by (rule driver_inv_done) simp_all
next
  case (timer key i t)
  have "holds_entry d key i"
    using assms(2) timer table_invD [of d key i] by (auto simp: driver_inv_def holds_entry_def)
  with timer assms(2) show ?thesis by (simp add: driver_inv_idle)
next
  case (request key bs i m)
  with assms(2) show ?thesis by (auto intro: driver_inv_call dest: request_entryD)
next
  case (tu_response key i status bs)
  with assms(2) show ?thesis by (auto intro: driver_inv_call)
next
  case (response key status bs)
  with assms(2) show ?thesis by (simp add: driver_inv_idle)
next
  case (live_message i l status bs)
  with assms(2) show ?thesis by (auto intro!: driver_inv_idle driver_inv_take [of r d T l d'])
qed (auto simp: listener_cancelled_def absorb_recv_def absorb_window_elapsed_def Let_def
    intro!: driver_inv_intros driver_inv_timer_handle driver_inv_action
    intro: driver_inv_on_event driver_inv_take split: option.split prod.split recv_result.split)

lemma reachable_inv: "reachable r m d T \<Longrightarrow> driver_inv r d T"
proof (induction rule: reachable.induct)
  case init
  show ?case by (simp add: driver_inv_def entries_inv_def table_inv_def gauge_inv_def driver_new_def server_keys_def)
qed (rule driver_inv_step)


section \<open>What the driver guarantees\<close>


lemma mset_sends_sum: "mset (sends_of as) = (\<Sum>a \<in># mset as. mset (sends_of [a]))"
proof (induction as)
  case (Cons a as)
  then show ?case by (cases a) simp_all
qed simp

lemma mset_sends_of: "mset as = mset bs \<Longrightarrow> mset (sends_of as) = mset (sends_of bs)"
  unfolding mset_sends_sum [of as] mset_sends_sum [of bs] by (rule arg_cong)

text \<open>A driver with one server transaction that has answered a BYE.\<close>

abbreviation sample_bye_key :: transaction_key where
  "sample_bye_key \<equiv> \<lparr> branch = ''z'', method = ''BYE'', role = Server \<rparr>"

abbreviation sample_bye_txn :: server_non_invite_txn where
  "sample_bye_txn \<equiv> \<lparr> sn_key = sample_bye_key, sn_state = Completed,
     sn_last_response = Some ''ok'', sn_reliable = False \<rparr>"

definition sample_bye_driver :: driver where
  "sample_bye_driver = start_server_inner (driver_new False True) (SN (sn_new ''z'' ''BYE'')) ''p'' None"

definition sample_driver :: driver where
  "sample_driver = send_response sample_bye_driver sample_bye_key 200 ''ok''"

lemma sample_bye_state:
  "d_txns sample_bye_driver = [sample_bye_key \<mapsto> 0]"
  "d_gauge sample_bye_driver = Some 1"
  "d_entries sample_bye_driver 0 = Some (new_entry (SN (sn_set_reliable (sn_new ''z'' ''BYE'') False)) ''p'' None)"
  by (simp_all add: sample_bye_driver_def start_server_inner_def driver_new_def Let_def sn_new_def)

lemma sample_driver_reachable: "reachable False True sample_driver {#}"
proof -
  have "\<not> is_alive (driver_new False True) (dyn_key (SN (sn_new ''z'' ''BYE'')))"
    by (simp add: is_alive_def driver_new_def)
  then have "reachable False True sample_bye_driver {#}"
    unfolding sample_bye_driver_def
    by (intro reachable.step [OF reachable.init] driver_step.start_server fresh_server.intros)
  then have "reachable False True sample_bye_driver
      {#Event_Task sample_bye_key 0 (SendResponseFromTu 200 ''ok'')#}"
    by (rule reachable.step) (simp add: driver_step.tu_response sample_bye_state)
  from feed_schedule [OF this] show ?thesis
    by (simp add: sample_driver_def send_response_def sample_bye_state)
qed

lemma sample_driver_state:
  "d_txns sample_driver = [sample_bye_key \<mapsto> 0]"
  "d_gauge sample_driver = Some 1"
  "txn_state sample_driver sample_bye_key = Some Completed"
  "d_entries sample_driver 0 = Some \<lparr> e_fsm = SN sample_bye_txn, e_peer = ''p'',
     e_timers = [TimerJ \<mapsto> TIMEOUT_64T1], e_tu = [], e_cancelled = False, e_sends = [''ok''],
     e_sent_by = None, e_got_2xx = False \<rparr>"
  by (simp_all add: sample_driver_def send_response_def sample_bye_state feed_fields [OF sample_bye_state(3)]
      txn_state_def fed_def ends_def entry_op_defs new_entry_def sn_new_def sn_defs status_in_def)

text \<open>The kind of machine, its states and its role go together.\<close>

fun dyn_typed :: "dyn_txn \<Rightarrow> bool" where
  "dyn_typed (CI s) \<longleftrightarrow> ci_domain s \<and> role (ci_key s) = Client"
| "dyn_typed (CN s) \<longleftrightarrow> cn_domain s \<and> role (cn_key s) = Client"
| "dyn_typed (SI s) \<longleftrightarrow> si_inv s \<and> role (si_key s) = Server"
| "dyn_typed (SN s) \<longleftrightarrow> sn_inv s \<and> role (sn_key s) = Server"

interpretation dyn_types: preserving_machine dyn_on_event dyn_typed
proof unfold_locales
  fix s i assume "dyn_typed s"
  then show "dyn_typed (fst (dyn_on_event s i))"
    by (cases s) (simp_all add: ci_typed.step_preserves cn_typed.step_preserves si_typed.step_preserves
        sn_typed.step_preserves)
qed

lemma hosted_typed: "hosted r B e \<Longrightarrow> dyn_typed (e_fsm e)"
proof -
  assume "hosted r B e"
  then obtain s0 es where s0: "fresh_client s0 \<or> fresh_server s0"
    and run: "e_fsm e = fst (run dyn_on_event (dyn_set_reliable s0 r) es)"
    unfolding hosted_def logged_def by blast
  have "dyn_typed (dyn_set_reliable s0 r)"
    using s0 by (auto simp: ci_domain_def cn_domain_def si_inv_def sn_inv_def ci_new_def cn_new_def si_new_def
        sn_new_def ci_set_reliable_def cn_set_reliable_def si_set_reliable_def sn_set_reliable_def
        elim!: fresh_client.cases fresh_server.cases)
  then show ?thesis unfolding run by (rule dyn_types.run_preserves)
qed

lemma typed_guard:
  assumes "dyn_typed s" and "dyn_state s \<noteq> Terminated"
    and "role (dyn_key s) = Client \<or> dyn_state s \<in> {Completed, Confirmed}"
  shows "\<exists>g. dyn_guard s = Some g"
  using assms
  by (cases s) (auto simp: ci_domain_def cn_domain_def si_inv_def sn_inv_def ci_guard_def cn_guard_def
      si_guard_def sn_guard_def)


text \<open>The tasks that will see to a guard: one that will arm it, one that delivers its firing, one
  that delivers the opening event.\<close>

fun sees_to :: "transaction_key \<Rightarrow> entry_id \<Rightarrow> timer_id \<Rightarrow> driver_task \<Rightarrow> bool" where
  "sees_to k i g (Event_Task k' i' ev) \<longleftrightarrow> k' = k \<and> i' = i \<and> (ev = TimerFired g \<or> ev = StartClient)"
| "sees_to k i g (Batch_Task k' i' as) \<longleftrightarrow> k' = k \<and> i' = i \<and> (\<exists>x. ArmTimer g x \<in> set as)"
| "sees_to k i g _ \<longleftrightarrow> False"

lemma task_key:
  assumes "entries_inv r d T" and "d_entries d i = Some e"
  shows "Event_Task k i ev \<in># T \<Longrightarrow> k = dyn_key (e_fsm e)" and "Batch_Task k i as \<in># T \<Longrightarrow> k = dyn_key (e_fsm e)"
  using assms by (force simp: entries_inv_def holds_entry_def)+

lemma covered_tasks:
  assumes inv: "entries_inv r d T" and e: "d_entries d i = Some e" and g: "dyn_guard (e_fsm e) = Some g"
  shows "e_timers e g \<noteq> None \<or> (\<exists>t \<in># T. sees_to (dyn_key (e_fsm e)) i g t)"
proof -
  have "covered (events_at i T) (batches_at i T) e" using entries_invD(1) [OF inv e] by (simp add: entry_inv_def)
  then consider "e_timers e g \<noteq> None" | ev where "ev \<in># events_at i T" "ev = TimerFired g \<or> ev = StartClient"
    | as x where "as \<in># batches_at i T" "ArmTimer g x \<in> set as"
    using g unfolding covered_def by blast
  then show ?thesis
  proof cases
    case 2
    then obtain k where "Event_Task k i ev \<in># T" using events_atD by blast
    with 2(2) task_key(1) [OF inv e] show ?thesis by (intro disjI2 bexI [of _ "Event_Task k i ev"]) auto
  next
    case 3
    then obtain k where "Batch_Task k i as \<in># T" using batches_atD by blast
    with 3(2) task_key(2) [OF inv e] show ?thesis by (intro disjI2 bexI [of _ "Batch_Task k i as"]) auto
  qed simp
qed

text \<open>The guard's firing, uninterrupted.\<close>

lemma fire_guard:
  assumes k: "d_txns d k = Some i" and e: "d_entries d i = Some e" and g: "dyn_guard (e_fsm e) = Some g"
  shows "\<not> is_alive (fire_timer d k g) k"
    and "\<exists>e'. d_entries (fire_timer d k g) i = Some e' \<and> last (e_tu e') = TuTerminated"
proof -
  let ?e1 = "cancel_timer e g"
  let ?d1 = "update_entry d i (\<lambda>e. cancel_timer e g)"
  let ?as = "snd (dyn_on_event (e_fsm e) (TimerFired g))"
  have e1: "d_entries ?d1 i = Some ?e1" using e by simp
  have fire: "fire_timer d k g = feed ?d1 k i (TimerFired g)" by (simp add: fire_timer_def k)
  have live: "dyn_state (e_fsm e) \<noteq> Terminated" using g dyn.guard_terminated by fastforce
  then have ends: "ends ?e1 (TimerFired g)"
    using dyn.guard_expires [OF g] by (simp add: ends_def cancel_timer_def)
  then show "\<not> is_alive (fire_timer d k g) k" unfolding fire is_alive_def feed_fields [OF e1] by simp
  have "ActTerminated \<in> set ?as" using live dyn.guard_expires [OF g] by (simp add: dyn.terminated_iff)
  with dyn.terminated_last [of "e_fsm e" "TimerFired g"] have "\<exists>xs. ?as = xs @ [ActTerminated]"
    by (cases ?as rule: rev_cases) auto
  then obtain xs where "?as = xs @ [ActTerminated]" ..
  then have "last (e_tu (fed k ?e1 (TimerFired g))) = TuTerminated"
    by (simp add: fed_def entry_effects cancel_timer_def)
  then show "\<exists>e'. d_entries (fire_timer d k g) i = Some e' \<and> last (e_tu e') = TuTerminated"
    unfolding fire feed_fields [OF e1] by simp
qed

text \<open>Property C1.
  No transaction can leak out of the driver's control, however the calls, timers and action batches
  of concurrent tasks interleave. In every reachable state, a transaction of the table whose machine
  has terminated is about to be removed by a task under way. Every other client transaction, and
  every other server transaction past its final response, has the timer that bounds its state
  armed, or a task under way that is going to arm it or already delivers its firing; with no task
  under way for it, it has not terminated and that timer is armed. Whenever the timer fires, the
  transaction leaves the table and its user is told. Of its surroundings the driver is only supposed
  to get server transactions whose key is not alive, and no answer to a request before it was handed
  to its machine.\<close>

theorem driver_never_leaks:
  assumes "reachable r m d T" and "d_txns d k = Some i"
  shows "\<exists>e. d_entries d i = Some e \<and>
    (dyn_state (e_fsm e) = Terminated \<longrightarrow> (\<exists>as. Batch_Task k i as \<in># T \<and> ActTerminated \<in> set as)) \<and>
    (dyn_state (e_fsm e) \<noteq> Terminated \<and> (role k = Client \<or> dyn_state (e_fsm e) \<in> {Completed, Confirmed}) \<longrightarrow>
      (\<exists>g. dyn_guard (e_fsm e) = Some g \<and>
         (e_timers e g \<noteq> None \<or> (\<exists>t \<in># T. sees_to k i g t)) \<and>
         \<not> is_alive (fire_timer d k g) k \<and>
         (\<exists>e'. d_entries (fire_timer d k g) i = Some e' \<and> last (e_tu e') = TuTerminated)))"
proof -
  have inv: "entries_inv r d T" "table_inv d" using reachable_inv [OF assms(1)] by (simp_all add: driver_inv_def)
  then obtain e where e: "d_entries d i = Some e" "dyn_key (e_fsm e) = k" "\<not> e_cancelled e"
    using table_invD [OF _ assms(2)] by blast
  have host: "hosted r (batches_at i T) e" using entries_invD(1) [OF inv(1) e(1)] by (simp add: entry_inv_def)
  show ?thesis
  proof (rule exI [of _ e], intro conjI impI e(1); (elim conjE)?)
    assume "dyn_state (e_fsm e) = Terminated"
    then obtain as where "as \<in># batches_at i T" "ActTerminated \<in> set as"
      using hosted_terminated [OF host] e(3) by blast
    then show "\<exists>as. Batch_Task k i as \<in># T \<and> ActTerminated \<in> set as"
      using batches_atD task_key(2) [OF inv(1) e(1)] e(2) by metis
  next
    assume "dyn_state (e_fsm e) \<noteq> Terminated" "role k = Client \<or> dyn_state (e_fsm e) \<in> {Completed, Confirmed}"
    then obtain g where g: "dyn_guard (e_fsm e) = Some g"
      using typed_guard [OF hosted_typed [OF host]] e(2) by blast
    with fire_guard [OF assms(2) e(1) g] covered_tasks [OF inv(1) e(1) g] e(2)
    show "\<exists>g. dyn_guard (e_fsm e) = Some g \<and> (e_timers e g \<noteq> None \<or> (\<exists>t \<in># T. sees_to k i g t)) \<and>
         \<not> is_alive (fire_timer d k g) k \<and>
         (\<exists>e'. d_entries (fire_timer d k g) i = Some e' \<and> last (e_tu e') = TuTerminated)" by blast
  qed
qed

theorem driver_never_leaks_witness:
  "\<not> is_alive (fire_timer sample_driver sample_bye_key TimerJ) sample_bye_key"
  using driver_never_leaks [OF sample_driver_reachable, of sample_bye_key 0]
  by (auto simp: sample_driver_state sn_guard_def)

text \<open>Deliveries of finals, through the boxed machines.\<close>

fun tu_final :: "tu_event \<Rightarrow> bool" where
  "tu_final (TuResponse status _) = is_final status"
| "tu_final TuTerminated = False"

lemma tu_of_finals: "length (filter tu_final (tu_of as)) = length (filter delivers_final as)"
  by (induction as rule: tu_of.induct) simp_all

lemma run_dyn:
  "run dyn_on_event (CI ci) es = apfst CI (run ci_on_event ci es)"
  "run dyn_on_event (CN cn) es = apfst CN (run cn_on_event cn es)"
  "run dyn_on_event (SI si) es = apfst SI (run si_on_event si es)"
  "run dyn_on_event (SN sn) es = apfst SN (run sn_on_event sn es)"
  by (induction es arbitrary: ci cn si sn) (simp_all add: case_prod_unfold Let_def apfst_def map_prod_def)

lemma server_delivers_nothing:
  "filter delivers_final (snd (run si_on_event si es)) = []"
  "filter delivers_final (snd (run sn_on_event sn es)) = []"
proof -
  have "filter delivers_final (snd (si_on_event s e)) = []" "filter delivers_final (snd (sn_on_event s' e)) = []"
    for s s' e by (auto simp: si_defs sn_defs split: transaction_event.split option.split)
  then show "filter delivers_final (snd (run si_on_event si es)) = []"
    "filter delivers_final (snd (run sn_on_event sn es)) = []"
    by (induction es arbitrary: si sn) (simp_all add: case_prod_unfold Let_def)
qed

lemma dyn_one_final: "length (filter delivers_final (snd (run dyn_on_event s es))) \<le> 1"
  using ci_deliver.run_one_final cn_deliver.run_one_final
  by (cases s) (simp_all add: run_dyn server_delivers_nothing del: One_nat_def)

text \<open>Property C2.
  The driver is a faithful host, up to the order in which concurrent tasks execute. In every
  reachable state each transaction it ever registered is explained by a run of its machine, built
  fresh and set to the transport's profile, over the events in the order of the machine's lock. Of
  the batch of actions each event returned, a first part was executed and the tasks under way hold
  exactly the rest; the bytes queued for the wire and the events the transaction user saw are those
  of one interleaving of the executed parts in which every batch keeps its own order. Nothing is
  queued or delivered that the machine did not ask for, nothing is lost, and at most one final
  response reaches the user. Server transactions are opened on keys that are not alive, and no answer
  comes before its request was handed to the machine.\<close>

theorem driver_hosts_machines:
  assumes "reachable r m d T" and "d_entries d i = Some e"
  shows "\<exists>s0 (log :: batch_log list) ex. (fresh_client s0 \<or> fresh_server s0) \<and>
    e_fsm e = fst (run dyn_on_event (dyn_set_reliable s0 r) (map b_event log)) \<and>
    batches dyn_on_event (dyn_set_reliable s0 r) (map b_event log) = map (\<lambda>b. b_done b @ b_left b) log \<and>
    filter_mset (\<lambda>as. as \<noteq> []) (mset (map b_left log)) = batches_at i T \<and>
    ex \<in> interleavings (map b_done log) \<and> e_sends e = sends_of ex \<and> e_tu e = tu_of ex \<and>
    length (filter tu_final (e_tu e)) \<le> 1"
proof -
  have "hosted r (batches_at i T) e"
    using reachable_inv [OF assms(1)] entries_invD(1) [OF _ assms(2)] by (auto simp: driver_inv_def entry_inv_def)
  then obtain s0 log ex where l: "logged r (batches_at i T) e s0 log ex" unfolding hosted_def by blast
  let ?as = "snd (run dyn_on_event (dyn_set_reliable s0 r) (map b_event log))"
  have "length (filter delivers_final ex) \<le> length (filter delivers_final ?as)"
    unfolding size_mset [symmetric] mset_filter logged_emitted [OF l] by simp
  also have "\<dots> \<le> 1" by (rule dyn_one_final)
  finally have "length (filter tu_final (tu_of ex)) \<le> 1" unfolding tu_of_finals .
  with l show ?thesis
    unfolding logged_def by (intro exI [of _ s0] exI [of _ log] exI [of _ ex]) simp
qed

theorem driver_hosts_machines_witness:
  "\<exists>s0 (log :: batch_log list). (fresh_client s0 \<or> fresh_server s0) \<and>
    sends_of (snd (run dyn_on_event (dyn_set_reliable s0 False) (map b_event log))) = [''ok'']"
proof -
  obtain s0 and log :: "batch_log list" and ex where h: "fresh_client s0 \<or> fresh_server s0"
      "batches dyn_on_event (dyn_set_reliable s0 False) (map b_event log) = map (\<lambda>b. b_done b @ b_left b) log"
      "filter_mset (\<lambda>as. as \<noteq> []) (mset (map b_left log)) = {#}"
      "ex \<in> interleavings (map b_done log)" "sends_of ex = [''ok'']"
    using driver_hosts_machines [OF sample_driver_reachable sample_driver_state(4)]
    by (metis (no_types, lifting) batches_at_simps(1) txn_entry.select_convs(6))
  then have "list_all (\<lambda>b. b_left b = []) log" by (auto simp: list_all_iff)
  then have "concat (map (\<lambda>b. b_done b @ b_left b) log) = concat (map b_done log)" by (induction log) auto
  then have "mset (snd (run dyn_on_event (dyn_set_reliable s0 False) (map b_event log))) = mset ex"
    using h(2,4) by (simp add: concat_batches [symmetric] mset_interleavings)
  from mset_sends_of [OF this] have "sends_of (snd (run dyn_on_event (dyn_set_reliable s0 False) (map b_event log))) = [''ok'']"
    by (simp add: h(5))
  with h(1) show ?thesis by blast
qed






text \<open>Result.
  The server-transaction gauge of a reachable driver equals the number of live server
  transactions, whatever races of timers, retransmissions and terminations occurred; in particular
  it never goes negative.\<close>

theorem driver_gauge_exact:
  assumes "reachable r True d T"
  shows "d_gauge d = Some (int (card {k. is_alive d k \<and> role k = Server}))"
proof -
  have some: "d_gauge d' \<noteq> None" if "reachable r True d' T'" for d' T'
    using that
  proof (induction rule: reachable.induct)
    case (step d T d' T')
    from step.hyps(2) step.IH show ?case
      by (cases rule: driver_step.cases)
         (auto simp: register_client_def start_server_inner_def machine_event_def execute_action_fields
           register_ack_for_2xx_def listener_take_def listener_cancelled_def listener_exit_def set_phase_def
           absorb_recv_def absorb_window_elapsed_def Let_def case_prod_unfold
           split: option.splits recv_result.splits prod.splits)
  qed (simp add: driver_new_def)
  have "{k. is_alive d k \<and> role k = Server} = server_keys d" by (auto simp: server_keys_def is_alive_def)
  with some [OF assms] reachable_inv [OF assms] show ?thesis unfolding driver_inv_def gauge_inv_def by auto
qed

theorem driver_gauge_exact_witness:
  "int (card {k. is_alive sample_driver k \<and> role k = Server}) = 1"
  using driver_gauge_exact [OF sample_driver_reachable] by (simp add: sample_driver_state)

text \<open>Two tasks on one transaction can pass each other between the machine's lock and the send
  queue. A server INVITE transaction has sent its 180; a retransmitted INVITE makes the machine
  replay it, and the user's 200 follows; the task of the 200 executes first.\<close>

abbreviation sample_invite_key :: transaction_key where
  "sample_invite_key \<equiv> \<lparr> branch = ''z'', method = ''INVITE'', role = Server \<rparr>"

abbreviation sample_ringing :: server_invite_txn where
  "sample_ringing \<equiv> \<lparr> si_key = sample_invite_key, si_state = Proceeding,
     si_last_response = Some ''180'', si_g_attempt = 0, si_reliable = False \<rparr>"

definition sample_ringing_driver :: driver where
  "sample_ringing_driver =
     send_response (start_server_inner (driver_new False False) (SI (si_new ''z'')) ''p'' None)
       sample_invite_key 180 ''180''"

lemma sample_ringing_state:
  "d_txns sample_ringing_driver = [sample_invite_key \<mapsto> 0]"
  "d_entries sample_ringing_driver 0 = Some ((new_entry (SI sample_ringing) ''p'' None)\<lparr> e_sends := [''180''] \<rparr>)"
  by (simp_all add: sample_ringing_driver_def send_response_def start_server_inner_def driver_new_def Let_def
      feed_fields [where e = "new_entry (SI (si_set_reliable (si_new ''z'') False)) ''p'' None"]
      fed_def ends_def entry_op_defs new_entry_def si_new_def si_defs status_in_def)

lemma sample_ringing_reachable: "reachable False False sample_ringing_driver {#}"
proof -
  let ?d = "start_server_inner (driver_new False False) (SI (si_new ''z'')) ''p'' None"
  have "reachable False False ?d {#}"
    by (intro reachable.step [OF reachable.init] driver_step.start_server fresh_server.intros)
       (simp add: is_alive_def driver_new_def)
  moreover have t: "d_txns ?d sample_invite_key = Some 0"
    by (simp add: start_server_inner_def driver_new_def Let_def si_new_def)
  ultimately have "reachable False False ?d {#Event_Task sample_invite_key 0 (SendResponseFromTu 180 ''180'')#}"
    by (intro reachable.step [OF _ driver_step.tu_response])
  from feed_schedule [OF this] t show ?thesis by (simp add: sample_ringing_driver_def send_response_def)
qed

text \<open>Result.
  The order in which a machine emits its sends is not always the order on the wire: a reachable
  state in which the machine emitted 180, the replayed 180 and then 200, and the send queue holds
  180, 200, 180.\<close>

theorem sends_can_overtake:
  "\<exists>d e. reachable False False d {#} \<and> d_entries d 0 = Some e \<and> e_sends e = [''180'', ''200'', ''180''] \<and>
     sends_of (snd (run si_on_event (si_new ''z'')
       [SendResponseFromTu 180 ''180'', RequestReceived ''INVITE'' [], SendResponseFromTu 200 ''200''])) =
       [''180'', ''180'', ''200'']"
proof -
  let ?k = sample_invite_key and ?d = sample_ringing_driver and ?e = "(new_entry (SI sample_ringing) ''p'' None)\<lparr> e_sends := [''180''] \<rparr>"
  let ?B = "Batch_Task ?k 0 [SendToPeer ''180'']"
  have ev: "dyn_on_event (SI sample_ringing) (RequestReceived ''INVITE'' []) = (SI sample_ringing, [SendToPeer ''180''])"
    by (simp add: si_defs)
  have me: "machine_event ?d 0 (RequestReceived ''INVITE'' []) = (?d, [SendToPeer ''180''])"
    by (simp add: machine_event_def sample_ringing_state ev new_entry_def update_entry_def fun_upd_idem
        del: dyn_on_event.simps)
  have "request_entry ?d ?k [] = Some 0"
    by (simp add: request_entry_def sample_ringing_state new_entry_def)
  then have "reachable False False ?d {#Event_Task ?k 0 (RequestReceived ''INVITE'' [])#}"
    by (intro reachable.step [OF sample_ringing_reachable driver_step.request])
  then have "reachable False False ?d {#?B#}" by (rule reachable.step [OF _ driver_step.on_event [OF me]])
  then have "reachable False False ?d {#Event_Task ?k 0 (SendResponseFromTu 200 ''200''), ?B#}"
    by (rule reachable.step [OF _ driver_step.tu_response]) (simp add: sample_ringing_state)
  from batch_schedule [OF feed_schedule [OF this]]
  have "reachable False False (execute_actions (feed ?d ?k 0 (SendResponseFromTu 200 ''200'')) ?k 0 [SendToPeer ''180'']) {#}" .
  moreover have "e_sends (the (d_entries (execute_actions (feed ?d ?k 0 (SendResponseFromTu 200 ''200'')) ?k 0
      [SendToPeer ''180'']) 0)) = [''180'', ''200'', ''180'']"
    by (simp add: execute_actions_fields feed_fields [OF sample_ringing_state(2)] fed_def entry_op_defs new_entry_def
        si_defs status_in_def)
  moreover have "d_entries (execute_actions (feed ?d ?k 0 (SendResponseFromTu 200 ''200'')) ?k 0 [SendToPeer ''180'']) 0 \<noteq> None"
    by (simp add: execute_actions_fields feed_fields [OF sample_ringing_state(2)])
  moreover have "sends_of (snd (run si_on_event (si_new ''z'')
       [SendResponseFromTu 180 ''180'', RequestReceived ''INVITE'' [], SendResponseFromTu 200 ''200''])) =
       [''180'', ''180'', ''200'']"
    by (simp add: si_defs si_new_def status_in_def)
  ultimately show ?thesis by auto
qed

end
