(* ===== verification/Udptl.thy ===== *)
theory Udptl
  imports Net_Prelude
begin

text \<open>
  UDPTL datagrams (\<^verbatim>\<open>smiths-fax/src/udptl.rs\<close>): sequence number, primary IFP packet
  and redundancy copies, with the one- or two-octet length prefix.
\<close>

section \<open>Model\<close>

datatype udptl_error = Truncated nat | LengthOverflow | MalformedErrorRecovery | PayloadTooLarge

record udptl_packet =
  up_sequence :: u16
  up_primary :: octets
  up_secondary :: "octets list"

definition UDPTL_MIN_LEN :: nat where "UDPTL_MIN_LEN = 4"

definition read_length :: "octets \<Rightarrow> udptl_error + (nat \<times> nat)" where
  "read_length bs =
     (case bs of
        [] \<Rightarrow> Inl LengthOverflow
      | b0 # rest \<Rightarrow>
          if b0 AND 0x80 = 0 then Inr (unat b0, 1)
          else (case rest of
                  [] \<Rightarrow> Inl LengthOverflow
                | b1 # _ \<Rightarrow> Inr (push_bit 8 (unat (b0 AND 0x7F)) OR unat b1, 2)))"

text \<open>The payload and the octets it takes with its prefix.\<close>

definition read_len_prefixed :: "octets \<Rightarrow> udptl_error + (octets \<times> nat)" where
  "read_len_prefixed bs =
     (case read_length bs of
        Inl e \<Rightarrow> Inl e
      | Inr (len, hdr) \<Rightarrow>
          let stop = hdr + len
          in if stop \<ge> 2 ^ 64 then Inl LengthOverflow
             else if stop > length bs then Inl LengthOverflow
             else Inr (slice hdr stop bs, stop))"

text \<open>The redundancy loop, on the octets from the cursor on.\<close>

fun read_secondary :: "nat \<Rightarrow> octets \<Rightarrow> udptl_error + octets list" where
  "read_secondary 0 bs = Inr []"
| "read_secondary (Suc n) bs =
     (case read_len_prefixed bs of
        Inl e \<Rightarrow> Inl e
      | Inr (entry, adv) \<Rightarrow>
          (case read_secondary n (drop adv bs) of Inl e \<Rightarrow> Inl e | Inr es \<Rightarrow> Inr (entry # es)))"

definition udptl_parse :: "octets \<Rightarrow> udptl_error + udptl_packet" where
  "udptl_parse bs =
     (if length bs < UDPTL_MIN_LEN then Inl (Truncated (length bs))
      else
        case read_len_prefixed (drop 2 bs) of
          Inl e \<Rightarrow> Inl e
        | Inr (primary, adv) \<Rightarrow>
            let cursor = 2 + adv
            in if length bs \<le> cursor then Inl MalformedErrorRecovery
               else (case read_secondary (unat (bs ! cursor)) (drop (cursor + 1) bs) of
                       Inl e \<Rightarrow> Inl e
                     | Inr secondary \<Rightarrow>
                         Inr \<lparr> up_sequence = from_be (slice 0 2 bs), up_primary = primary,
                               up_secondary = secondary \<rparr>))"

definition write_len_prefixed :: "octets \<Rightarrow> udptl_error + octets" where
  "write_len_prefixed payload =
     (let len = length payload
      in if len > 16383 then Inl PayloadTooLarge
         else if len < 128 then Inr (of_nat len # payload)
         else Inr ((of_nat (drop_bit 8 len) OR 0x80) # of_nat len # payload))"

fun write_secondary :: "octets list \<Rightarrow> udptl_error + octets" where
  "write_secondary [] = Inr []"
| "write_secondary (s # ss) =
     (case write_len_prefixed s of
        Inl e \<Rightarrow> Inl e
      | Inr out \<Rightarrow> (case write_secondary ss of Inl e \<Rightarrow> Inl e | Inr rest \<Rightarrow> Inr (out @ rest)))"

definition udptl_encode :: "udptl_packet \<Rightarrow> udptl_error + octets" where
  "udptl_encode p =
     (case write_len_prefixed (up_primary p) of
        Inl e \<Rightarrow> Inl e
      | Inr primary \<Rightarrow>
          if length (up_secondary p) \<ge> 256 then Inl MalformedErrorRecovery
          else (case write_secondary (up_secondary p) of
                  Inl e \<Rightarrow> Inl e
                | Inr secondary \<Rightarrow>
                    Inr (be_bytes 2 (up_sequence p) @ primary
                         @ [of_nat (length (up_secondary p))] @ secondary)))"

section \<open>Length prefixes\<close>

lemma long_length_bits:
  assumes "len < 2 ^ 15"
  shows "(of_nat (drop_bit 8 len) OR 0x80 :: u8) AND 0x80 \<noteq> 0"
    and "push_bit 8 (unat ((of_nat (drop_bit 8 len) OR 0x80 :: u8) AND 0x7F)) OR unat (of_nat len :: u8) = len"
proof -
  let ?h = "of_nat (drop_bit 8 len) :: u8"
  have "bit ((?h OR 0x80) AND 0x80) 7" by (simp add: bit_simps)
  then show "(?h OR 0x80) AND 0x80 \<noteq> 0" by auto
  have "(?h OR 0x80) AND 0x7F = take_bit 7 ?h"
  proof (rule bit_word_eqI)
    fix n assume "n < LENGTH(8)"
    then have "n \<in> {0, 1, 2, 3, 4, 5, 6, 7}" by auto
    then show "bit ((?h OR 0x80) AND 0x7F) n = bit (take_bit 7 ?h) n" by (auto simp: bit_simps)
  qed
  moreover have "unat (take_bit 7 ?h) = drop_bit 8 len"
    using assms
    by (simp only: unsigned_take_bit_eq) (simp add: unat_of_nat take_bit_eq_mod drop_bit_eq_div div_less_iff_less_mult)
  moreover have "unat (of_nat len :: u8) = take_bit 8 len" by (simp add: unat_of_nat take_bit_eq_mod)
  ultimately show "push_bit 8 (unat ((?h OR 0x80) AND 0x7F)) OR unat (of_nat len :: u8) = len"
    by (simp only:) (rule bit_eqI, auto simp: bit_simps)
qed

lemma short_length_bits:
  assumes "len < 128"
  shows "(of_nat len :: u8) AND 0x80 = 0" and "unat (of_nat len :: u8) = len"
proof -
  show "unat (of_nat len :: u8) = len" using assms by (simp add: unat_of_nat)
  have "\<not> bit (of_nat len :: u8) 7"
    using assms by (simp add: bit_of_nat_iff) (simp add: bit_iff_odd)
  then have top: "\<not> bit ((of_nat len :: u8) AND 0x80) 7" by (simp add: bit_and_iff)
  show "(of_nat len :: u8) AND 0x80 = 0"
  proof (rule bit_word_eqI)
    fix n assume "n < LENGTH(8)"
    then have "n \<in> {0, 1, 2, 3, 4, 5, 6, 7}" by auto
    then show "bit ((of_nat len :: u8) AND 0x80) n = bit 0 n" using top by (auto simp: bit_and_iff)
  qed
qed

lemma write_read_prefixed:
  assumes "write_len_prefixed p = Inr out"
  shows "read_len_prefixed (out @ rest) = Inr (p, length out)"
proof (cases "length p < 128")
  case True
  with assms short_length_bits [OF True] show ?thesis
    by (auto simp: write_len_prefixed_def read_len_prefixed_def read_length_def Let_def slice_def split: if_splits)
next
  case False
  with assms have len: "length p \<le> 16383" and out: "out = (of_nat (drop_bit 8 (length p)) OR 0x80) # of_nat (length p) # p"
    by (auto simp: write_len_prefixed_def Let_def split: if_splits)
  from len have "length p < 2 ^ 15" by simp
  note bits = long_length_bits [OF this]
  show ?thesis
    using len by (simp add: out read_len_prefixed_def read_length_def bits Let_def slice_def)
qed

lemma write_read_secondary:
  "write_secondary ss = Inr out \<Longrightarrow> read_secondary (length ss) (out @ rest) = Inr ss"
proof (induction ss arbitrary: out)
  case (Cons s ss)
  then obtain o1 o2 where o: "write_len_prefixed s = Inr o1" "write_secondary ss = Inr o2" "out = o1 @ o2"
    by (auto split: sum.splits)
  then show ?case using Cons.IH [OF o(2)] write_read_prefixed [OF o(1), of "o2 @ rest"] by simp
qed simp

lemma write_len_prefixed_nonempty: "write_len_prefixed p = Inr out \<Longrightarrow> 0 < length out"
  by (auto simp: write_len_prefixed_def Let_def split: if_splits)

section \<open>Datagrams\<close>

lemma udptl_parse_encode:
  assumes "udptl_encode p = Inr bs"
  shows "udptl_parse (bs @ pad) = Inr p"
proof -
  obtain pr se where pr: "write_len_prefixed (up_primary p) = Inr pr"
    and se: "write_secondary (up_secondary p) = Inr se" and n: "length (up_secondary p) < 256"
    and bs: "bs = be_bytes 2 (up_sequence p) @ pr @ of_nat (length (up_secondary p)) # se"
    using assms by (auto simp: udptl_encode_def split: sum.splits if_splits)
  have "unat (of_nat (length (up_secondary p)) :: u8) = length (up_secondary p)"
    using n by (simp add: unat_of_nat)
  moreover have "(be_bytes 2 (up_sequence p) @ pr @ x # ys) ! (2 + length pr) = x" for x ys
    by (simp add: nth_append)
  moreover have "slice 0 2 (be_bytes 2 (up_sequence p) @ ys) = be_bytes 2 (up_sequence p)" for ys
    by (simp add: slice_def)
  ultimately show ?thesis
    using write_len_prefixed_nonempty [OF pr] write_read_prefixed [OF pr] write_read_secondary [OF se, of pad]
    by (simp add: bs udptl_parse_def UDPTL_MIN_LEN_def Let_def)
qed

definition udptl_ok :: "udptl_packet \<Rightarrow> bool" where
  "udptl_ok p \<longleftrightarrow> length (up_primary p) \<le> 16383 \<and> length (up_secondary p) \<le> 255 \<and>
     (\<forall>s \<in> set (up_secondary p). length s \<le> 16383)"

lemma write_len_prefixed_ok: "(\<exists>out. write_len_prefixed p = Inr out) \<longleftrightarrow> length p \<le> 16383"
  by (auto simp: write_len_prefixed_def Let_def)

lemma write_secondary_ok: "(\<exists>out. write_secondary ss = Inr out) \<longleftrightarrow> (\<forall>s \<in> set ss. length s \<le> 16383)"
proof (induction ss)
  case (Cons s ss)
  then show ?case using write_len_prefixed_ok [of s] by (auto split: sum.split)
qed simp

lemma udptl_encode_ok: "(\<exists>bs. udptl_encode p = Inr bs) \<longleftrightarrow> udptl_ok p"
  using write_len_prefixed_ok [of "up_primary p"] write_secondary_ok [of "up_secondary p"]
  by (auto simp: udptl_encode_def udptl_ok_def split: sum.split)

interpretation udptl: wire_codec "\<lambda>p. case udptl_encode p of Inr bs \<Rightarrow> bs | Inl _ \<Rightarrow> []" udptl_parse udptl_ok
proof
  fix v assume "udptl_ok v"
  then obtain bs where "udptl_encode v = Inr bs" using udptl_encode_ok by blast
  with udptl_parse_encode [OF this, of "[]"]
  show "udptl_parse (case udptl_encode v of Inr bs \<Rightarrow> bs | Inl _ \<Rightarrow> []) = Inr v" by simp
qed

text \<open>Result.
  A UDPTL packet is encoded exactly when its payloads are at most 16383 octets and it carries at
  most 255 redundancy copies; the parser then returns the same packet, whatever padding octets
  follow the datagram.\<close>

theorem udptl_roundtrip:
  "(\<exists>bs. udptl_encode p = Inr bs \<and> (\<forall>pad. udptl_parse (bs @ pad) = Inr p)) \<longleftrightarrow> udptl_ok p"
  using udptl_encode_ok [of p] udptl_parse_encode [of p] by blast

text \<open>The parser's own ceiling is 32767: a two-octet prefix with its second-highest bit set is read
  as a length, although the documented form and the encoder stop at 16383.\<close>

lemma read_length_past_ceiling: "read_length [0xC0, 0x00] = Inr (16384, 2)"
  by (simp add: read_length_def)

end
