(* ===== verification/Spec2Isabelle.thy ===== *)
theory Spec2Isabelle
  imports Bridge_Dtmf Bridge_Rtcp Cpu_Budget Dialog_Sessions Ice_Properties Jitter_Buffer
    Port_Allocator Raft_Log Sdp_Answers Sidecar_Supervisor Stream_Framing Turn_Session
    Txn_Driver Udptl
begin

text \<open>
  \<^bold>\<open>A verification library for Smiths-Net\<close>, a SIP/RTP telephony engine written in Rust
  (\<^verbatim>\<open>src/crates/smiths-*\<close>).

  \<^bold>\<open>The program.\<close> SIP messages arrive on datagram or stream transports. The transaction
  layer (\<^verbatim>\<open>smiths-sip/src/txn\<close>) runs one small machine per transaction inside a
  driver that owns their timers; the response router hands responses to the task that waits for
  them; the dialog machine and the dialog record (\<^verbatim>\<open>smiths-core/src/call.rs\<close>) carry a
  call from its INVITE to its BYE. Media flows as RTP and RTCP
  (\<^verbatim>\<open>smiths-core/src/rtp.rs\<close>, \<^verbatim>\<open>smiths-media\<close>), between port pairs,
  through statistics and a jitter buffer, and, for fax, as UDPTL. The dialog table is replicated by
  Raft (\<^verbatim>\<open>smiths-raft\<close>). Plug-ins run as supervised child processes behind a framed
  RPC channel (\<^verbatim>\<open>smiths-sidecar\<close>, \<^verbatim>\<open>smiths-proto\<close>).

  \<^bold>\<open>Theories.\<close> Each theory names the files it models in its opening text; definitions keep the
  names of the Rust items, with a prefix where two items share a name.
  \<^item> \<open>Net_Prelude\<close>: integer types, saturating and checked arithmetic, byte order, slices, and the
    shared interfaces as locales: a codec (\<open>wire_codec\<close>), a machine with an invariant
    (\<open>preserving_machine\<close>), a machine that pays for its steps (\<open>budgeted_machine\<close>).
    \<open>Rust_Str\<close>: UTF-8, white space, splitting, decimal numbers.
  \<^item> \<open>Txn_Types\<close>: keys, timers, events and actions of \<^verbatim>\<open>txn/mod.rs\<close>, and the laws of
    the transaction trait as the locales \<open>transaction_fsm\<close>, \<open>guarded_transaction\<close>,
    \<open>delivering_transaction\<close> and \<open>profiled_transaction\<close>. \<open>Txn_Ack\<close>: the ACK for a non-2xx.
    \<open>Client_Invite\<close>, \<open>Client_Non_Invite\<close>, \<open>Server_Invite\<close>, \<open>Server_Non_Invite\<close>: the four
    machines, each interpreting these locales. \<open>Response_Router\<close>, \<open>Txn_Driver\<close>: the tasks around
    them, with the lock section of an event and each action of its batch as steps that interleave;
    \<open>Interleaving\<close>: the interleavings of such batches. \<open>Dialog_Fsm\<close>: the dialog machine.
  \<^item> \<open>Stream_Framing\<close>: SIP messages on a byte stream.
  \<^item> \<open>Rtp\<close>, \<open>Rtcp\<close>, \<open>Rtp_Stats\<close>, \<open>Jitter_Buffer\<close>, \<open>Port_Allocator\<close>, \<open>Udptl\<close>, \<open>Cpu_Budget\<close>:
    the media plane.
  \<^item> \<open>Call_Types\<close>, \<open>Dialog_Sessions\<close>, \<open>Raft_Machine\<close>, \<open>Raft_Log\<close>: call state and its
    replication.
  \<^item> \<open>Fixed_Frame\<close>, \<open>Sidecar_Rpc\<close>, \<open>Sidecar_Supervisor\<close>: the plug-in channel.
  \<^item> \<open>Ip_Text\<close>: IP addresses as text. \<open>Sdp_Types\<close>, \<open>Sdp_Parse\<close>: the SDP data model with its
    rendering, and the parser; \<open>Sdp_Roundtrip\<close>: parsing undoes rendering. \<open>Sdp_Negotiate\<close>: offer and
    answer, privacy; \<open>Sdp_Answers\<close>: what the answers guarantee.
  \<^item> \<open>Stun\<close>: the STUN codec, its integrity and fingerprint checks, and server-reflexive gathering.
    \<open>Ice_Agent\<close>: candidates, pairs and the ICE agent with all its handlers; \<open>Ice_Invariant\<close>: the
    state invariant and its preservation by every handler; \<open>Ice_Properties\<close>: its consequences.
  \<^item> \<open>Turn_Wire\<close>: the TURN messages. \<open>Turn_Server\<close>, \<open>Turn_Client\<close>: the relay server and its
    client; \<open>Turn_Invariant\<close>: the permitted effects of a datagram, the state invariant and the
    record of consent; \<open>Turn_Properties\<close>, \<open>Turn_Session\<close>: what they guarantee, alone and together.
  \<^item> \<open>Dtmf\<close>: telephone events. \<open>G711\<close>: the mu-law codec. \<open>Dtmf_Inband\<close>: the detector of tones in the
    audio. \<open>Bridge\<close>: the media bridge over them and the stream statistics; \<open>Bridge_Properties\<close>: what
    it relays, in the clear and under SRTP; \<open>Bridge_Rtcp\<close>: its reports; \<open>Bridge_Dtmf\<close>: the dialling
    tool and a dialled number that crosses a bridge.

  \<^bold>\<open>What is shown.\<close>
  \<^item> Transactions: no transaction leaks (a guard timer is armed in every live state and ends it), each
    delivers at most one final response, follows the RFC 3261/6026 diagram, retransmits on the
    prescribed schedule and replays its last response; the driver hosts exactly these machines up to
    the interleaving of concurrent batches, keeps only live ones in its table and counts them right;
    one theorem shows two sends that leave in the other order.
  \<^item> Streams: the reader loop returns the messages of a stream however it is cut into chunks; one
    theorem shows an input on which it does not return.
  \<^item> Codecs (RTP, RTCP, fixed-offset frames and envelopes, UDPTL, STUN, TURN): round trips through the
    interface \<open>wire_codec\<close>, bounds of every slice, behaviour on arbitrary input.
  \<^item> Media: the statistics count what arrived, expected and lost; the jitter buffer accounts for every
    frame, plays in order and undoes reordering; a port pair is found exactly when one is free; the
    transcoding budget is never exceeded by racing callers.
  \<^item> Replication: the table is what the last delta of each key says, a snapshot taken while
    entries are applied and user agents write, plus the log from its pointer on, equals the whole log on
    every key that the log decides, the log store refines a map; one theorem shows what the store forgets.
  \<^item> Plug-ins: a reply reaches its own call and no other, no call waits for a dead child, both encodings
    deliver the same messages, a crash loop ends within its budget.
  \<^item> Session descriptions: a description and its text determine each other; an answer takes the first
    offered codec the engine supports, is keyed as its transport profile demands, and reads back as
    what the engine reports; two engines agree; two theorems show offers that are answered with
    misplaced blocks and without keys.
  \<^item> Connectivity: a sealed STUN message decodes to itself and passes both checks, with the octets
    that the integrity check does not cover made explicit; the ICE agent selects only a pair that an
    authenticated answer proved, keeps its selection, ignores unauthenticated datagrams, settles within
    a bound when the peer is silent, however fast it is ticked, and computes the pair priority its peer
    computes; two theorems show crossing role-conflict answers that restore the conflict, and a remote
    priority that spoils the order of the pairs.
  \<^item> Relaying: nothing crosses the relay that the owner of the allocation did not sign for within the
    lifetimes of the protocol; every change of the relay state is one of a few signed effects;
    channels and peers stay in bijection, tasks and gauge match the allocations; the client's
    handshake, permissions and channels succeed against the server, and payloads arrive unchanged;
    one theorem shows what an attribute appended after the tag achieves.
  \<^item> Media between two legs: only the SSRC of a packet changes, RTCP is never relayed, two legs with
    SRTP never see plaintext on the wire and unauthenticated packets have no effect, one theorem shows
    that a bridge with one such leg relays plaintext, which its documentation excludes; two engines
    measure the round-trip time between them, whatever else happens between the reports; a dialled
    number is reported digit by digit over a network that loses, repeats and reorders the packets of each
    press, amid other traffic, and one theorem shows a second call that is not heard; tones in the audio
    are reported once each; mu-law keeps a sample up to its quantisation.
  \<^item> In this theory: STUN, RTCP and RTP on one port are told apart.

  \<^bold>\<open>Abstractions.\<close> A task is a sequence of atomic steps, one per lock section or access that
  touches shared state; steps of different tasks interleave arbitrarily, and timer call-backs may
  come at any time after they are armed. Clocks and random choices are arguments. Code outside the
  repository (\<^verbatim>\<open>serde_json\<close>, \<^verbatim>\<open>openraft\<close>, the operating system, floating
  point in the jitter estimate and in the back-off multiplier) appears as parameters whose assumed
  behaviour is a hypothesis of the theorem. Integers have their width where they can wrap or
  saturate; counters that would need 2^64 events to wrap are natural numbers. Loops that consume
  input are total functions with a measure; the one loop that can spin is a partial function whose
  divergence is the value \<open>None\<close>, and its results are proved together with its termination on
  well-formed input. No fuel is used.

  \<^bold>\<open>Not modelled.\<close> Sockets, TLS, DTLS and WebTransport; the user agent server and client
  above the transactions; the conference mixer, the media fabric and the
  transcoders; authentication stores; configuration and its hot reload; the MCP control plane;
  the WebAssembly and script hosts; the command-line programs. The user agent
  server over the transaction driver and the dialog record, then the mixer, are next
  in the plan; the others are mostly calls into third-party libraries.
\<close>

section \<open>One port, three protocols\<close>

text \<open>
  STUN, RTCP and RTP share a media port (RFC 5764, RFC 5761, RFC 7983). The media bridge and the
  ICE driver tell them apart with the predicates of the three codecs, each defined without the
  others. The lemmas reduce the question to the first two octets.\<close>

lemma unat_numeral_2: "unat (2 :: u8) = 2"
  by simp

lemma version_octet: "drop_bit 6 (b :: u8) = 2 \<longleftrightarrow> 128 \<le> unat b \<and> unat b < 192"
proof -
  have "unat (drop_bit 6 b) = unat b div 64"
    by (simp add: drop_bit_eq_div unat_div_distrib)
  then have "drop_bit 6 b = 2 \<longleftrightarrow> unat b div 64 = 2"
    by (metis unat_numeral_2 word_unat_eq_iff)
  also have "\<dots> \<longleftrightarrow> 128 \<le> unat b \<and> unat b < 192" by linarith
  finally show ?thesis .
qed

lemma payload_type_octet: "unat ((b :: u8) AND 0x7F) = unat b mod 128"
proof -
  have "b AND 0x7F = take_bit 7 b" by (simp add: take_bit_eq_mask mask_eq_exp_minus_1)
  then show ?thesis by (simp add: take_bit_eq_mod unat_mod_distrib)
qed

lemma stun_not_version_2: "is_stun bs \<Longrightarrow> drop_bit 6 (bs ! 0) \<noteq> 2"
  by (auto simp: is_stun_def version_octet word_less_nat_alt)

lemma rtp_parse_version:
  "rtp_parse bs = Some h \<Longrightarrow> drop_bit 6 (bs ! 0) = 2 \<and> rh_payload_type h = bs ! 1 AND 0x7F
     \<and> rh_marker h = (bs ! 1 AND 0x80 \<noteq> 0)"
  by (auto simp: rtp_parse_def rtp_fields_def Let_def split: if_splits option.splits)

lemma marker_octet:
  assumes "128 \<le> unat (b :: u8)"
  shows "b AND 0x80 \<noteq> 0"
proof
  assume "b AND 0x80 = 0"
  moreover have "(b AND 0x7F) OR (b AND 0x80) = b AND (0x7F OR 0x80)"
    by (simp only: bit.conj_disj_distrib)
  moreover have "0x7F OR 0x80 = (- 1 :: u8)" by simp
  ultimately have "b AND 0x7F = b" by (metis bit.conj_one_right bit.disj_zero_right)
  with payload_type_octet [of b] assms show False by simp
qed

text \<open>Property C18.
  A datagram on a shared media port belongs to at most one of the three protocols. What the STUN
  decoder accepts is recognised as STUN, and is then neither RTCP nor parsable as RTP nor given a
  payload type. What is recognised as RTCP is not STUN, and where its first octets would also parse
  as RTP it would be a packet with the marker bit and a payload type in 64..95, the range RFC 5761
  takes out of use for RTP.\<close>

theorem media_port_demultiplexes:
  shows "(is_stun bs \<longrightarrow> \<not> is_rtcp bs \<and> rtp_parse bs = None \<and> rtp_decode bs = None \<and> payload_type_of bs = None)
    \<and> (decode bs = Inr m \<longrightarrow> is_stun bs)
    \<and> (is_rtcp bs \<longrightarrow> \<not> is_stun bs
        \<and> (\<forall>h. rtp_parse bs = Some h \<longrightarrow>
             rh_marker h \<and> 64 \<le> unat (rh_payload_type h) \<and> unat (rh_payload_type h) \<le> 95))"
proof (intro conjI impI)
  assume "is_stun bs"
  then show "\<not> is_rtcp bs" "rtp_parse bs = None" "rtp_decode bs = None" "payload_type_of bs = None"
    using stun_not_version_2 [of bs]
    by (auto simp: is_rtcp_def rtp_parse_def rtp_decode_def payload_type_of_def Let_def)
next
  assume "decode bs = Inr m"
  then show "is_stun bs" by (rule decode_is_stun)
next
  assume "is_rtcp bs"
  then show "\<not> is_stun bs" using stun_not_version_2 [of bs] by (auto simp: is_rtcp_def)
next
  assume r: "is_rtcp bs"
  then have b: "192 \<le> unat (bs ! 1)" "unat (bs ! 1) \<le> 223"
    by (simp_all add: is_rtcp_def word_le_nat_alt)
  then have "unat (bs ! 1) mod 128 = unat (bs ! 1) - 128" by (simp add: mod_if)
  with b show "\<forall>h. rtp_parse bs = Some h \<longrightarrow>
      rh_marker h \<and> 64 \<le> unat (rh_payload_type h) \<and> unat (rh_payload_type h) \<le> 95"
    by (auto dest!: rtp_parse_version simp: payload_type_octet marker_octet)
qed

theorem media_port_demultiplexes_witness:
  "let bs = [0x80, 200, 0, 1, 0, 0, 0, 1, 0, 0, 0, 2] :: octets
   in is_rtcp bs \<and> \<not> is_stun bs \<and> (\<exists>h. rtp_parse bs = Some h \<and> rh_marker h \<and> unat (rh_payload_type h) = 72)
     \<and> (\<forall>h. rtp_parse bs = Some h \<longrightarrow> unat (rh_payload_type h) \<le> 95)"
proof -
  let ?bs = "[0x80, 200, 0, 1, 0, 0, 0, 1, 0, 0, 0, 2] :: octets"
  have r: "is_rtcp ?bs" by (simp add: is_rtcp_def)
  moreover have "\<exists>h. rtp_parse ?bs = Some h \<and> rh_marker h \<and> unat (rh_payload_type h) = 72"
    by (simp add: rtp_parse_def RTP_FIXED_HEADER_LEN_def rtp_payload_start_def rtp_payload_end_def rtp_fields_def)
  ultimately show ?thesis
    using media_port_demultiplexes [of ?bs "undefined"] by (simp add: Let_def)
qed

end
